(* ===== verification/Prelude.thy ===== *)
theory Prelude
  imports Complex_Main "HOL-Library.AList"
begin

text \<open>
  Shared vocabulary of the development: Python integers printed and read as decimal text,
  Python's \<open>decimal\<close> arithmetic (values as rationals, the context's 28 significant digits and
  its half-even rounding), Python dictionaries as association lists kept in insertion order
  (\<open>AList.update\<close> overwrites in place and appends a new key, as \<open>d[k] = v\<close> does), and the
  result type of code that may raise. The collections of the development are declared here.
\<close>

named_theorems dict_simps \<open>facts on dictionaries as association lists\<close>
named_theorems text_simps \<open>facts on decimal text\<close>
named_theorems frame_simps \<open>what an operation leaves unchanged\<close>

subsection \<open>Decimal text\<close>

definition digit_char :: "nat \<Rightarrow> char" where
  "digit_char d = char_of (48 + d)"

definition is_digit :: "char \<Rightarrow> bool" where
  "is_digit c \<longleftrightarrow> 48 \<le> (of_char c :: nat) \<and> (of_char c :: nat) \<le> 57"

definition digit_val :: "char \<Rightarrow> nat" where
  "digit_val c = of_char c - 48"

fun nat_text :: "nat \<Rightarrow> string" where
  "nat_text n = (if n < 10 then [digit_char n] else nat_text (n div 10) @ [digit_char (n mod 10)])"

declare nat_text.simps [simp del]

text \<open>Python's \<open>str\<close> and \<open>int\<close> on integers.\<close>

definition int_text :: "int \<Rightarrow> string" where
  "int_text i = (if i < 0 then CHR ''-'' # nat_text (nat (- i)) else nat_text (nat i))"

definition text_nat :: "string \<Rightarrow> nat" where
  "text_nat s = foldl (\<lambda>a c. a * 10 + digit_val c) 0 s"

definition decimal_text :: "string \<Rightarrow> bool" where
  "decimal_text s \<longleftrightarrow> s \<noteq> [] \<and> list_all is_digit s"

lemma of_char_digit [text_simps]: "d < 10 \<Longrightarrow> (of_char (digit_char d) :: nat) = 48 + d"
  by (simp add: digit_char_def)

lemma is_digit_char [text_simps]: "d < 10 \<Longrightarrow> is_digit (digit_char d)"
  by (simp add: is_digit_def text_simps)

lemma digit_val_char [text_simps]: "d < 10 \<Longrightarrow> digit_val (digit_char d) = d"
  by (simp add: digit_val_def text_simps)

lemma digit_char_val [text_simps]: "is_digit c \<Longrightarrow> digit_char (digit_val c) = c"
  by (simp add: is_digit_def digit_val_def digit_char_def)

lemma digit_val_less [text_simps]: "is_digit c \<Longrightarrow> digit_val c < 10"
  unfolding is_digit_def digit_val_def by linarith

lemma text_nat_append [text_simps]: "text_nat (s @ [c]) = text_nat s * 10 + digit_val c"
  by (simp add: text_nat_def)

lemma nat_text_nonempty [simp]: "nat_text n \<noteq> []"
  by (subst nat_text.simps) simp

lemma nat_text_digits: "list_all is_digit (nat_text n)"
proof (induction n rule: nat_text.induct)
  case (1 n)
  then show ?case
    by (cases "n < 10") (simp_all add: nat_text.simps [of n] text_simps)
qed

lemma decimal_nat_text: "decimal_text (nat_text n)"
  by (simp add: decimal_text_def nat_text_digits)

lemma text_nat_text [simp]: "text_nat (nat_text n) = n"
proof (induction n rule: nat_text.induct)
  case (1 n)
  show ?case
  proof (cases "n < 10")
    case True
    then show ?thesis
      by (simp add: nat_text.simps [of n] text_nat_def text_simps)
  next
    case False
    with "1.IH" show ?thesis
      by (simp add: nat_text.simps [of n] text_simps)
  qed
qed

lemma nat_text_inject [simp]: "nat_text m = nat_text n \<longleftrightarrow> m = n"
  by (metis text_nat_text)

lemma hd_nat_text: "0 < n \<Longrightarrow> hd (nat_text n) \<noteq> CHR ''0''"
proof (induction n rule: nat_text.induct)
  case (1 n)
  show ?case
  proof (cases "n < 10")
    case True
    have "digit_char n \<noteq> CHR ''0''"
    proof
      assume "digit_char n = CHR ''0''"
      then have "digit_val (digit_char n) = digit_val (CHR ''0'')" by simp
      with True "1.prems" show False by (simp add: text_simps) (simp add: digit_val_def)
    qed
    with True show ?thesis by (simp add: nat_text.simps [of n])
  next
    case False
    with "1.IH" show ?thesis by (simp add: nat_text.simps [of n])
  qed
qed

lemma text_nat_pos:
  assumes "decimal_text s" and "hd s \<noteq> CHR ''0''"
  shows "0 < text_nat s"
  using assms
proof (induction s rule: rev_induct)
  case Nil
  then show ?case by (simp add: decimal_text_def)
next
  case (snoc c s)
  show ?case
  proof (cases "s = []")
    case True
    with snoc.prems have c: "is_digit c" "c \<noteq> CHR ''0''"
      by (simp_all add: decimal_text_def)
    have "digit_val c \<noteq> 0"
    proof
      assume "digit_val c = 0"
      with c(1) have "c = digit_char 0" by (metis digit_char_val)
      moreover have "digit_char 0 = CHR ''0''" by code_simp
      ultimately show False using c(2) by simp
    qed
    with True show ?thesis by (simp add: text_nat_def)
  next
    case False
    with snoc show ?thesis by (simp add: decimal_text_def text_simps)
  qed
qed

lemma nat_text_nat:
  assumes "decimal_text s" and "hd s \<noteq> CHR ''0''"
  shows "nat_text (text_nat s) = s"
  using assms
proof (induction s rule: rev_induct)
  case Nil
  then show ?case by (simp add: decimal_text_def)
next
  case (snoc c s)
  have c: "is_digit c" using snoc.prems(1) by (simp add: decimal_text_def)
  show ?case
  proof (cases "s = []")
    case True
    then show ?thesis
      using c by (simp add: text_nat_def nat_text.simps [of "digit_val c"] text_simps)
  next
    case False
    with snoc.prems have s: "decimal_text s" "hd s \<noteq> CHR ''0''"
      by (simp_all add: decimal_text_def)
    have big: "\<not> text_nat s * 10 + digit_val c < 10"
      using text_nat_pos [OF s] by simp
    have "(text_nat s * 10 + digit_val c) div 10 = text_nat s"
      and "(text_nat s * 10 + digit_val c) mod 10 = digit_val c"
      using digit_val_less [OF c] by simp_all
    with big snoc.IH [OF s] c show ?thesis
      by (simp add: text_nat_append nat_text.simps [of "text_nat s * 10 + digit_val c"] text_simps)
  qed
qed

lemma int_text_inject [simp]: "int_text i = int_text j \<longleftrightarrow> i = j"
proof -
  have minus: "nat_text n \<noteq> CHR ''-'' # s" for n s
  proof
    assume "nat_text n = CHR ''-'' # s"
    then have "is_digit (CHR ''-'')" using nat_text_digits [of n] by simp
    then show False by (simp add: is_digit_def)
  qed
  show ?thesis
    using minus minus [symmetric] by (auto simp: int_text_def)
qed

subsection \<open>Decimal arithmetic\<close>

text \<open>
  A \<open>decimal.Decimal\<close> is the rational it denotes: Python compares and hashes decimals by value,
  so \<open>Decimal("1.50") == Decimal("1.5")\<close>. The context keeps 28 significant digits.
\<close>

type_synonym decimal = rat

definition round_half_even :: "rat \<Rightarrow> int" where
  "round_half_even x =
     (let f = \<lfloor>x\<rfloor>; d = x - of_int f
      in if d < 1 / 2 then f else if 1 / 2 < d then f + 1 else if even f then f else f + 1)"

lemma round_half_even_of_int [simp]: "round_half_even (of_int n) = n"
  by (simp add: round_half_even_def)

lemma round_half_even_near: "\<bar>of_int (round_half_even x) - x\<bar> \<le> 1 / 2"
proof -
  have "0 \<le> x - of_int \<lfloor>x\<rfloor>" and "x - of_int \<lfloor>x\<rfloor> < 1"
    by linarith+
  then show ?thesis
    unfolding round_half_even_def Let_def by (auto simp: abs_le_iff) 
qed

text \<open>
  \<open>Decimal(...).quantize(Decimal(1).scaleb(-precision), ROUND_HALF_EVEN)\<close>: None is the
  \<open>InvalidOperation\<close> raised when the coefficient would need more than 28 digits.
\<close>

definition quantize :: "decimal \<Rightarrow> nat \<Rightarrow> decimal option" where
  "quantize x precision =
     (let c = round_half_even (x * 10 ^ precision)
      in if \<bar>c\<bar> < 10 ^ 28 then Some (of_int c / 10 ^ precision) else None)"

lemma quantize_near:
  assumes "quantize x n = Some y"
  shows "\<bar>y - x\<bar> \<le> 1 / (2 * 10 ^ n)"
proof -
  let ?c = "round_half_even (x * 10 ^ n)"
  have y: "y = of_int ?c / 10 ^ n"
    using assms by (simp add: quantize_def Let_def split: if_splits)
  have "\<bar>y - x\<bar> = \<bar>of_int ?c - x * 10 ^ n\<bar> / 10 ^ n"
    by (simp add: y field_simps abs_divide flip: abs_mult)
  also have "\<dots> \<le> (1 / 2) / 10 ^ n"
    by (intro divide_right_mono round_half_even_near) simp
  finally show ?thesis by simp
qed

lemma quantize_exact:
  assumes "\<bar>k\<bar> < 10 ^ 28"
  shows "quantize (of_int k / 10 ^ n) n = Some (of_int k / 10 ^ n)"
  using assms by (simp add: quantize_def)

text \<open>Rounding to the context's 28 significant digits, after every arithmetic operation.\<close>

definition digits_count :: "nat \<Rightarrow> nat" where
  "digits_count n = (if n = 0 then 0 else length (nat_text n))"

definition magnitude :: "rat \<Rightarrow> int" where
  "magnitude x =
     (if 1 \<le> \<bar>x\<bar> then int (digits_count (nat \<lfloor>\<bar>x\<bar>\<rfloor>))
      else 1 - int (digits_count (nat (\<lceil>1 / \<bar>x\<bar>\<rceil> - 1))))"

definition ctx :: "rat \<Rightarrow> decimal" where
  "ctx x =
     (if x = 0 then 0
      else let e = 28 - magnitude x; u = (if 0 \<le> e then 10 ^ nat e else 1 / 10 ^ nat (- e))
           in of_int (round_half_even (x * u)) / u)"

text \<open>A number of at most 28 digits is kept exactly.\<close>

lemma digits_count_bounds:
  assumes "0 < n"
  shows "10 ^ (digits_count n - 1) \<le> n" "n < 10 ^ digits_count n" "0 < digits_count n"
proof -
  have "10 ^ (length (nat_text n) - 1) \<le> n \<and> n < 10 ^ length (nat_text n)" using assms
  proof (induction n rule: nat_text.induct)
    case (1 n)
    show ?case
    proof (cases "n < 10")
      case True
      with "1.prems" show ?thesis by (simp add: nat_text.simps [of n])
    next
      case False
      let ?m = "n div 10" and ?l = "length (nat_text (n div 10))"
      have IH: "10 ^ (?l - 1) \<le> ?m" "?m < 10 ^ ?l" using "1.IH" False by simp_all
      have l: "0 < ?l" by simp
      then have "10 ^ ?l = 10 * 10 ^ (?l - 1)" by (metis power_eq_if neq0_conv)
      also have "\<dots> \<le> 10 * ?m" using IH(1) by simp
      also have "\<dots> \<le> n" by simp
      finally have "10 ^ ?l \<le> n" .
      moreover have "n < 10 * (?m + 1)" by simp
      moreover have "10 * (?m + 1) \<le> 10 * 10 ^ ?l" using IH(2) by simp
      ultimately show ?thesis using False by (simp add: nat_text.simps [of n])
    qed
  qed
  then show "10 ^ (digits_count n - 1) \<le> n" "n < 10 ^ digits_count n" "0 < digits_count n"
    using assms by (simp_all add: digits_count_def)
qed

lemma digits_count_le: "0 < n \<Longrightarrow> n < 10 ^ m \<Longrightarrow> digits_count n \<le> m"
proof -
  assume n: "0 < n" "n < 10 ^ m"
  then have "(10::nat) ^ (digits_count n - 1) < 10 ^ m"
    using digits_count_bounds(1) [OF n(1)] by linarith
  then have "digits_count n - 1 < m" by simp
  then show ?thesis by simp
qed

lemma digits_count_gr: "10 ^ m \<le> n \<Longrightarrow> m < digits_count n"
proof -
  assume n: "10 ^ m \<le> n"
  then have pos: "0 < n" by (metis neq0_conv power_not_zero leD zero_neq_numeral not_gr_zero le_zero_eq)
  have "(10::nat) ^ m < 10 ^ digits_count n" using n digits_count_bounds(2) [OF pos] by linarith
  then show ?thesis by simp
qed

text \<open>A value of at most 28 digits is not rounded.\<close>

lemma magnitude_le:
  assumes "x \<noteq> 0" and "\<bar>k\<bar> < 10 ^ 28" and x: "x = of_int k / 10 ^ n"
  shows "magnitude x + int n \<le> 28"
proof -
  have k: "\<bar>x\<bar> * 10 ^ n < 10 ^ 28"
  proof -
    have "\<bar>x\<bar> * 10 ^ n = of_int \<bar>k\<bar>" by (simp add: x abs_divide)
    moreover have "(of_int \<bar>k\<bar> :: rat) < of_int (10 ^ 28)" using assms(2) by (subst of_int_less_iff)
    ultimately show ?thesis by simp
  qed
  show ?thesis
  proof (cases "1 \<le> \<bar>x\<bar>")
    case True
    then have "1 * (10::rat) ^ n \<le> \<bar>x\<bar> * 10 ^ n" by (rule mult_right_mono) simp
    then have "(10::rat) ^ n < 10 ^ 28" using k by linarith
    then have n: "n < 28" using power_less_imp_less_exp [of "10::rat" n 28] by linarith
    define f where "f = nat \<lfloor>\<bar>x\<bar>\<rfloor>"
    have f: "0 < f" "of_nat f \<le> \<bar>x\<bar>" using True by (simp_all add: f_def)
    have "of_nat f * (10::rat) ^ n < 10 ^ 28"
      using k f(2) by (meson mult_right_mono order_le_less_trans zero_le_numeral zero_le_power)
    also have "(10::rat) ^ 28 = 10 ^ (28 - n) * 10 ^ n"
      using n by (simp flip: power_add)
    finally have "of_nat f < (of_nat (10 ^ (28 - n)) :: rat)" by simp
    then have "f < 10 ^ (28 - n)" by (simp only: of_nat_less_iff)
    then have "digits_count f \<le> 28 - n" using f(1) by (rule digits_count_le [rotated])
    with True n show ?thesis by (simp add: magnitude_def f_def)
  next
    case False
    define c where "c = nat (\<lceil>1 / \<bar>x\<bar>\<rceil> - 1)"
    have mag: "magnitude x = 1 - int (digits_count c)"
      using False by (simp add: magnitude_def c_def)
    show ?thesis
    proof (cases "n \<le> 27")
      case True
      then show ?thesis by (simp add: mag)
    next
      case big: False
      define m where "m = n - 28"
      have n: "n = 28 + m" using big by (simp add: m_def)
      have pos: "0 < \<bar>x\<bar>" using assms(1) by simp
      have "\<bar>x\<bar> * 10 ^ m * 10 ^ 28 < 1 * 10 ^ 28"
        using k by (simp add: n power_add mult.assoc mult.commute [of "10 ^ 28"])
      then have "\<bar>x\<bar> * 10 ^ m < 1" by (simp only: mult_less_cancel_right_pos zero_less_power zero_less_numeral)
      then have "10 ^ m < 1 / \<bar>x\<bar>" using pos by (simp add: field_simps)
      then have "of_int (10 ^ m) < 1 / \<bar>x\<bar>" by simp
      then have "10 ^ m < \<lceil>1 / \<bar>x\<bar>\<rceil>" by (simp only: less_ceiling_iff)
      then have "10 ^ m \<le> c" unfolding c_def by (simp add: nat_le_eq_zle le_nat_iff)
      then have "m < digits_count c" by (rule digits_count_gr)
      then show ?thesis by (simp add: mag n)
    qed
  qed
qed

lemma ctx_exact:
  assumes "\<bar>k\<bar> < 10 ^ 28" and "x = of_int k / 10 ^ n"
  shows "ctx x = x"
proof (cases "x = 0")
  case False
  let ?e = "28 - magnitude x"
  have e: "int n \<le> ?e" using magnitude_le [OF False assms] by simp
  then have nonneg: "0 \<le> ?e" by simp
  have "nat ?e = n + (nat ?e - n)" using e by simp
  then have "(10::rat) ^ nat ?e = 10 ^ n * 10 ^ (nat ?e - n)" by (metis power_add)
  then have "x * 10 ^ nat ?e = of_int (k * 10 ^ (nat ?e - n))" by (simp add: assms(2))
  then have "of_int (round_half_even (x * 10 ^ nat ?e)) = x * 10 ^ nat ?e"
    by (simp only: round_half_even_of_int)
  then show ?thesis using False nonneg by (simp add: ctx_def Let_def)
qed (simp add: ctx_def)

subsection \<open>Dictionaries\<close>

type_synonym ('k, 'v) dict = "('k \<times> 'v) list"

lemma map_of_update [dict_simps]: "map_of (AList.update k v d) = (map_of d)(k \<mapsto> v)"
  by (rule AList.update_conv')

lemma map_of_delete [dict_simps]: "map_of (AList.delete k d) = (map_of d)(k := None)"
  by (rule AList.delete_conv')

lemma distinct_update_keys [dict_simps]:
  "distinct (map fst d) \<Longrightarrow> distinct (map fst (AList.update k v d))"
  by (rule AList.distinct_update)

lemma distinct_delete_keys [dict_simps]:
  "distinct (map fst d) \<Longrightarrow> distinct (map fst (AList.delete k d))"
  by (rule AList.distinct_delete)

lemma update_keys [dict_simps]: "fst ` set (AList.update k v d) = insert k (fst ` set d)"
  using AList.dom_update [of k v d] by (simp add: dom_map_of_conv_image_fst)

text \<open>Dictionaries are read through \<open>map_of\<close>, not through their entries.\<close>

declare map_of_eq_Some_iff [simp del] Some_eq_map_of_iff [simp del]

definition dict_get :: "('k, 'v) dict \<Rightarrow> 'k \<Rightarrow> 'v \<Rightarrow> 'v" where
  "dict_get d k v = (case map_of d k of None \<Rightarrow> v | Some w \<Rightarrow> w)"

lemma update_append_new: "k \<notin> fst ` set d \<Longrightarrow> AList.update k v d = d @ [(k, v)]"
  by (induction d) auto

lemma find_split:
  "find P xs = Some x \<Longrightarrow> \<exists>before after. xs = before @ x # after \<and> P x \<and> (\<forall>y \<in> set before. \<not> P y)"
proof (induction xs)
  case (Cons y ys)
  show ?case
  proof (cases "P y")
    case True
    with Cons.prems show ?thesis by (intro exI [of _ "[]"] exI [of _ ys]) simp
  next
    case False
    with Cons obtain before after where
      "ys = before @ x # after" "P x" "\<forall>y \<in> set before. \<not> P y"
      by auto
    with False show ?thesis by (intro exI [of _ "y # before"] exI [of _ after]) simp
  qed
qed simp

subsection \<open>Results\<close>

text \<open>Code that may raise returns \<open>Inl\<close> the error or \<open>Inr\<close> the value.\<close>

definition bind_result :: "'e + 'a \<Rightarrow> ('a \<Rightarrow> 'e + 'b) \<Rightarrow> 'e + 'b" where
  "bind_result r f = (case r of Inl e \<Rightarrow> Inl e | Inr a \<Rightarrow> f a)"

lemma bind_result_simps [simp]:
  "bind_result (Inl e) f = Inl e"
  "bind_result (Inr a) f = f a"
  by (simp_all add: bind_result_def)

lemma bind_result_Inr: "bind_result r f = Inr b \<longleftrightarrow> (\<exists>a. r = Inr a \<and> f a = Inr b)"
  by (cases r) simp_all

end
