(* ===== verification/Order_Record.thy ===== *)
theory Order_Record
  imports Prelude
begin

text \<open>
  \<open>common/order_record.py\<close>: the adapter's own records in an order's \<open>label\<close> and \<open>comment\<close>,
  by which a position is recognised as the node's own after a restart. Text is a list of
  characters; a code point outside the 256 of \<open>char\<close> is refused by the code as every character
  above \<open>~\<close> is, so nothing else distinguishes it here.

  Shown here: a text is read as a record exactly when the adapter would write it for what was
  read (both directions, for the label and for the comment), and reading never raises.
\<close>

definition MARKER :: string where "MARKER = ''ntca1''"

definition LABEL_MAX :: nat where "LABEL_MAX = 100"

definition COMMENT_MAX :: nat where "COMMENT_MAX = 512"

definition CLIENT_ORDER_ID_MAX :: nat where "CLIENT_ORDER_ID_MAX = 50"

definition LABEL_PREFIX :: string where "LABEL_PREFIX = MARKER @ '':''"

definition FIELD_SEPARATOR :: char where "FIELD_SEPARATOR = CHR ''|''"

definition STOP_LOSS_KEY :: string where "STOP_LOSS_KEY = ''sl''"

definition TAKE_PROFIT_KEY :: string where "TAKE_PROFIT_KEY = ''tp''"

datatype record_error = NotRecordable | RecordTooLong string nat nat

record LegIds =
  leg_stop_loss :: "string option"
  leg_take_profit :: "string option"

definition is_recordable :: "string \<Rightarrow> bool" where
  "is_recordable order_id \<longleftrightarrow>
     order_id \<noteq> [] \<and>
     list_all (\<lambda>c. of_char (CHR ''!'') \<le> (of_char c :: nat) \<and>
                   (of_char c :: nat) \<le> of_char (CHR ''~'') \<and> c \<noteq> FIELD_SEPARATOR) order_id"

definition require_recordable :: "string \<Rightarrow> record_error + string" where
  "require_recordable order_id =
     (if is_recordable order_id then Inr order_id else Inl NotRecordable)"

definition fit :: "string \<Rightarrow> nat \<Rightarrow> string \<Rightarrow> record_error + string" where
  "fit text limit field =
     (if length text > limit then Inl (RecordTooLong field (length text) limit) else Inr text)"

definition check_client_order_id :: "string \<Rightarrow> record_error + string" where
  "check_client_order_id entry_id =
     bind_result (require_recordable entry_id) (\<lambda>i. fit i CLIENT_ORDER_ID_MAX ''clientOrderId'')"

definition encode_label :: "string \<Rightarrow> record_error + string" where
  "encode_label entry_id =
     bind_result (require_recordable entry_id) (\<lambda>i. fit (LABEL_PREFIX @ i) LABEL_MAX ''label'')"

definition parse_label :: "string \<Rightarrow> string option" where
  "parse_label label =
     (if length label > LABEL_MAX \<or> take (length LABEL_PREFIX) label \<noteq> LABEL_PREFIX then None
      else let entry_id = drop (length LABEL_PREFIX) label
           in if is_recordable entry_id then Some entry_id else None)"

text \<open>\<open>sep.join(parts)\<close> and \<open>text.split(sep)\<close> for a one-character separator.\<close>

fun join :: "char \<Rightarrow> string list \<Rightarrow> string" where
  "join sep [] = []"
| "join sep [p] = p"
| "join sep (p # ps) = p @ sep # join sep ps"

fun split_on :: "char \<Rightarrow> string \<Rightarrow> string list" where
  "split_on sep [] = [[]]"
| "split_on sep (c # cs) =
     (if c = sep then [] # split_on sep cs
      else (case split_on sep cs of [] \<Rightarrow> [[c]] | p # ps \<Rightarrow> (c # p) # ps))"

text \<open>\<open>item.partition("=")\<close>: the text before the first \<open>=\<close>, whether there is one, the rest.\<close>

definition partition_eq :: "string \<Rightarrow> string \<times> bool \<times> string" where
  "partition_eq item =
     (case dropWhile (\<lambda>c. c \<noteq> CHR ''='') item of
        [] \<Rightarrow> (item, False, [])
      | _ # rest \<Rightarrow> (takeWhile (\<lambda>c. c \<noteq> CHR ''='') item, True, rest))"

definition encode_comment :: "LegIds \<Rightarrow> record_error + string" where
  "encode_comment legs =
     bind_result
       (case leg_stop_loss legs of
          None \<Rightarrow> Inr [MARKER]
        | Some i \<Rightarrow>
            bind_result (require_recordable i) (\<lambda>i. Inr [MARKER, STOP_LOSS_KEY @ ''='' @ i]))
       (\<lambda>parts.
     bind_result
       (case leg_take_profit legs of
          None \<Rightarrow> Inr parts
        | Some i \<Rightarrow>
            bind_result (require_recordable i) (\<lambda>i. Inr (parts @ [TAKE_PROFIT_KEY @ ''='' @ i])))
       (\<lambda>parts. fit (join FIELD_SEPARATOR parts) COMMENT_MAX ''comment''))"

text \<open>The loop over the fields: None is its early return, else the dictionary \<open>found\<close>.\<close>

fun parse_fields :: "string list \<Rightarrow> (string, string) dict \<Rightarrow> (string, string) dict option" where
  "parse_fields [] found = Some found"
| "parse_fields (item # items) found =
     (case partition_eq item of (key, separator, order_id) \<Rightarrow>
        if \<not> separator \<or> key \<notin> {STOP_LOSS_KEY, TAKE_PROFIT_KEY} \<or> \<not> is_recordable order_id
        then None
        else parse_fields items (AList.update key order_id found))"

definition parse_comment :: "string \<Rightarrow> record_error + LegIds option" where
  "parse_comment comment =
     (if length comment > COMMENT_MAX then Inr None
      else case split_on FIELD_SEPARATOR comment of
        [] \<Rightarrow> Inr None
      | marker # items \<Rightarrow>
          if marker \<noteq> MARKER then Inr None
          else case parse_fields items [] of
            None \<Rightarrow> Inr None
          | Some found \<Rightarrow>
              let legs = \<lparr>leg_stop_loss = map_of found STOP_LOSS_KEY,
                          leg_take_profit = map_of found TAKE_PROFIT_KEY\<rparr>
              in bind_result (encode_comment legs) (\<lambda>text.
                   Inr (if text = comment then Some legs else None)))"

text \<open>What a caller reads from a comment; \<open>parse_comment\<close> never raises (shown below).\<close>

definition read_comment :: "string \<Rightarrow> LegIds option" where
  "read_comment comment = (case parse_comment comment of Inl _ \<Rightarrow> None | Inr legs \<Rightarrow> legs)"

subsection \<open>Labels\<close>

lemma encode_label_iff:
  "encode_label i = Inr l \<longleftrightarrow> is_recordable i \<and> l = LABEL_PREFIX @ i \<and> length l \<le> LABEL_MAX"
  by (auto simp: encode_label_def require_recordable_def fit_def)

lemma parse_label_iff: "parse_label l = Some i \<longleftrightarrow> encode_label i = Inr l"
proof -
  have "take (length LABEL_PREFIX) l = LABEL_PREFIX \<longleftrightarrow>
        l = LABEL_PREFIX @ drop (length LABEL_PREFIX) l"
    by (metis append_eq_conv_conj append_take_drop_id)
  then show ?thesis
    unfolding encode_label_iff parse_label_def Let_def by auto
qed

lemma parse_label_recordable: "parse_label l = Some i \<Longrightarrow> is_recordable i"
  by (simp add: parse_label_iff encode_label_iff)

subsection \<open>Splitting what was joined\<close>

lemma split_on_clean: "sep \<notin> set p \<Longrightarrow> split_on sep p = [p]"
  by (induction p) auto

lemma split_on_append:
  "sep \<notin> set p \<Longrightarrow> split_on sep (p @ sep # rest) = p # split_on sep rest"
  by (induction p) auto

lemma split_on_join:
  "ps \<noteq> [] \<Longrightarrow> list_all (\<lambda>p. sep \<notin> set p) ps \<Longrightarrow> split_on sep (join sep ps) = ps"
  by (induction sep ps rule: join.induct) (simp_all add: split_on_clean split_on_append)

lemma join_split_on: "join sep (split_on sep s) = s"
proof (induction s)
  case (Cons c s)
  then show ?case
    by (cases "split_on sep s"; cases "tl (split_on sep s)") (auto split: list.splits)
qed simp

lemma length_join: "length (join sep ps) = sum_list (map length ps) + (length ps - 1)"
  by (induction sep ps rule: join.induct) simp_all

lemma partition_eq_key:
  "CHR ''='' \<notin> set k \<Longrightarrow> partition_eq (k @ ''='' @ i) = (k, True, i)"
  by (simp add: partition_eq_def dropWhile_append takeWhile_append)

lemma partition_eq_exact: "partition_eq item = (k, True, i) \<Longrightarrow> item = k @ ''='' @ i"
proof -
  assume a: "partition_eq item = (k, True, i)"
  let ?P = "\<lambda>c. c \<noteq> CHR ''=''"
  from a obtain c where d: "dropWhile ?P item = c # i" and k: "k = takeWhile ?P item"
    by (auto simp: partition_eq_def split: list.splits)
  have "c = CHR ''=''" using hd_dropWhile [of ?P item] d by simp
  then show ?thesis
    using takeWhile_dropWhile_id [of ?P item] d k by simp
qed

lemma recordable_no_separator: "is_recordable i \<Longrightarrow> FIELD_SEPARATOR \<notin> set i"
  by (auto simp: is_recordable_def list_all_iff)

lemmas key_defs = STOP_LOSS_KEY_def TAKE_PROFIT_KEY_def FIELD_SEPARATOR_def MARKER_def

subsection \<open>Comments\<close>

text \<open>The parts \<open>encode_comment\<close> joins.\<close>

definition comment_parts :: "LegIds \<Rightarrow> string list" where
  "comment_parts legs =
     MARKER #
     (case leg_stop_loss legs of None \<Rightarrow> [] | Some i \<Rightarrow> [STOP_LOSS_KEY @ ''='' @ i]) @
     (case leg_take_profit legs of None \<Rightarrow> [] | Some i \<Rightarrow> [TAKE_PROFIT_KEY @ ''='' @ i])"

definition legs_recordable :: "LegIds \<Rightarrow> bool" where
  "legs_recordable legs \<longleftrightarrow>
     pred_option is_recordable (leg_stop_loss legs) \<and> pred_option is_recordable (leg_take_profit legs)"

lemma encode_comment_iff:
  "encode_comment legs = Inr c \<longleftrightarrow>
     legs_recordable legs \<and> c = join FIELD_SEPARATOR (comment_parts legs) \<and> length c \<le> COMMENT_MAX"
  by (auto simp: encode_comment_def legs_recordable_def comment_parts_def require_recordable_def
      fit_def split: option.splits)

lemma comment_parts_clean:
  "legs_recordable legs \<Longrightarrow> list_all (\<lambda>p. FIELD_SEPARATOR \<notin> set p) (comment_parts legs)"
  by (auto simp: comment_parts_def legs_recordable_def key_defs split: option.splits
      dest!: recordable_no_separator [unfolded key_defs])

lemma parse_fields_parts:
  assumes "legs_recordable legs"
  obtains found where "parse_fields (tl (comment_parts legs)) [] = Some found"
    and "map_of found STOP_LOSS_KEY = leg_stop_loss legs"
    and "map_of found TAKE_PROFIT_KEY = leg_take_profit legs"
proof -
  have sl: "partition_eq (STOP_LOSS_KEY @ ''='' @ i) = (STOP_LOSS_KEY, True, i)" for i
    by (rule partition_eq_key) (simp add: key_defs)
  have tp: "partition_eq (TAKE_PROFIT_KEY @ ''='' @ i) = (TAKE_PROFIT_KEY, True, i)" for i
    by (rule partition_eq_key) (simp add: key_defs)
  have "STOP_LOSS_KEY \<noteq> TAKE_PROFIT_KEY" by (simp add: key_defs)
  with assms that show thesis
    by (cases "leg_stop_loss legs"; cases "leg_take_profit legs")
      (auto simp: comment_parts_def legs_recordable_def sl [simplified] tp [simplified])
qed

lemma parse_encoded_comment:
  assumes "encode_comment legs = Inr c"
  shows "parse_comment c = Inr (Some legs)"
proof -
  from assms have rec: "legs_recordable legs"
      and c: "c = join FIELD_SEPARATOR (comment_parts legs)" and len: "length c \<le> COMMENT_MAX"
    by (auto simp: encode_comment_iff)
  have "split_on FIELD_SEPARATOR c = comment_parts legs"
    unfolding c by (rule split_on_join) (simp_all add: comment_parts_clean rec, simp add: comment_parts_def)
  then have parts: "split_on FIELD_SEPARATOR c = MARKER # tl (comment_parts legs)"
    by (simp add: comment_parts_def)
  obtain found where "parse_fields (tl (comment_parts legs)) [] = Some found"
      "map_of found STOP_LOSS_KEY = leg_stop_loss legs"
      "map_of found TAKE_PROFIT_KEY = leg_take_profit legs"
    by (rule parse_fields_parts [OF rec])
  then show ?thesis
    using assms len by (cases legs) (simp add: parse_comment_def parts Let_def)
qed

text \<open>The fields read add up to no more text than the comment held, so writing them back fits.\<close>

definition field_length :: "string \<Rightarrow> (string, string) dict \<Rightarrow> nat" where
  "field_length k found = (case map_of found k of None \<Rightarrow> 0 | Some i \<Rightarrow> length k + 2 + length i)"

lemma parse_fields_invariant:
  assumes "parse_fields items found = Some result"
    and "\<forall>i \<in> ran (map_of found). is_recordable i"
  shows "(\<forall>i \<in> ran (map_of result). is_recordable i) \<and>
    field_length STOP_LOSS_KEY result + field_length TAKE_PROFIT_KEY result
    \<le> field_length STOP_LOSS_KEY found + field_length TAKE_PROFIT_KEY found
       + sum_list (map (\<lambda>f. length f + 1) items)"
  using assms
proof (induction items found rule: parse_fields.induct)
  case (2 item items found)
  obtain key separator order_id where part: "partition_eq item = (key, separator, order_id)"
    by (cases "partition_eq item") auto
  with "2.prems"(1) have ok: "separator" "key \<in> {STOP_LOSS_KEY, TAKE_PROFIT_KEY}"
      "is_recordable order_id" "parse_fields items (AList.update key order_id found) = Some result"
    by (auto split: if_splits)
  have item: "item = key @ ''='' @ order_id"
    using part ok(1) by (intro partition_eq_exact) simp
  have rec: "\<forall>i \<in> ran (map_of (AList.update key order_id found)). is_recordable i"
    using "2.prems"(2) ok(3) unfolding map_of_update by (auto simp: ran_def split: if_splits)
  have "STOP_LOSS_KEY \<noteq> TAKE_PROFIT_KEY" by (simp add: key_defs)
  then have "field_length STOP_LOSS_KEY (AList.update key order_id found) +
        field_length TAKE_PROFIT_KEY (AList.update key order_id found)
      \<le> field_length STOP_LOSS_KEY found + field_length TAKE_PROFIT_KEY found + (length item + 1)"
    using ok(2) item by (auto simp: field_length_def map_of_update split: option.splits)
  moreover note "2.IH" [OF part [symmetric] refl _ ok(4) rec]
  ultimately show ?case using ok by auto
qed simp

lemma split_on_length:
  "sum_list (map (\<lambda>p. length p + 1) (split_on sep s)) = length s + 1"
proof (induction s)
  case (Cons c s)
  then show ?case by (cases "split_on sep s") auto
qed simp

lemma comment_length:
  "length (join FIELD_SEPARATOR (comment_parts \<lparr>leg_stop_loss = map_of found STOP_LOSS_KEY,
      leg_take_profit = map_of found TAKE_PROFIT_KEY\<rparr>))
   = length MARKER + field_length STOP_LOSS_KEY found + field_length TAKE_PROFIT_KEY found"
  by (simp add: comment_parts_def field_length_def split: option.splits)

lemma parse_comment_total: "\<exists>legs. parse_comment c = Inr legs"
proof (cases "length c > COMMENT_MAX")
  case False
  show ?thesis
  proof (cases "split_on FIELD_SEPARATOR c")
    case Nil
    then show ?thesis using False by (simp add: parse_comment_def)
  next
    case (Cons marker items)
    show ?thesis
    proof (cases "marker = MARKER \<and> parse_fields items [] \<noteq> None")
      case True
      then obtain found where found: "parse_fields items [] = Some found" and m: "marker = MARKER"
        by blast
      let ?legs = "\<lparr>leg_stop_loss = map_of found STOP_LOSS_KEY,
        leg_take_profit = map_of found TAKE_PROFIT_KEY\<rparr>"
      have inv: "(\<forall>i \<in> ran (map_of found). is_recordable i)"
          "field_length STOP_LOSS_KEY found + field_length TAKE_PROFIT_KEY found
           \<le> sum_list (map (\<lambda>f. length f + 1) items)"
        using parse_fields_invariant [OF found] by (simp_all add: field_length_def)
      have "length MARKER + 1 + sum_list (map (\<lambda>f. length f + 1) items) = length c + 1"
        using split_on_length [of FIELD_SEPARATOR c] Cons m by simp
      with inv(2) False have "length (join FIELD_SEPARATOR (comment_parts ?legs)) \<le> COMMENT_MAX"
        unfolding comment_length by simp
      moreover have "legs_recordable ?legs"
        using inv(1) by (auto simp: legs_recordable_def option.pred_set ran_def)
      ultimately have "encode_comment ?legs = Inr (join FIELD_SEPARATOR (comment_parts ?legs))"
        by (simp add: encode_comment_iff)
      then show ?thesis
        using False Cons m found by (simp add: parse_comment_def Let_def)
    next
      case False
      then show ?thesis using Cons by (auto simp: parse_comment_def)
    qed
  qed
qed (simp add: parse_comment_def)

lemma parse_comment_exact:
  "parse_comment c = Inr (Some legs) \<Longrightarrow> encode_comment legs = Inr c"
  by (auto simp: parse_comment_def Let_def bind_result_Inr split: if_splits list.splits option.splits)

lemma read_comment_iff: "read_comment c = Some legs \<longleftrightarrow> encode_comment legs = Inr c"
proof -
  obtain r where "parse_comment c = Inr r" using parse_comment_total by blast
  then show ?thesis
    using parse_encoded_comment [of legs c] parse_comment_exact [of c legs]
    by (auto simp: read_comment_def)
qed

subsection \<open>Properties\<close>

text \<open>
  a label is read as the record of an entry id exactly when it is the label the adapter
  would write for that id: nothing written is lost, and nothing else is taken for a record.
\<close>
theorem label_read_iff_written:
  "parse_label l = Some i \<longleftrightarrow> encode_label i = Inr l"
  by (rule parse_label_iff)

text \<open>
  C40: Reading a comment never raises, and it gives leg ids exactly when the comment is the one
  the adapter would write for them; so no second spelling of a record is ever accepted.
\<close>

theorem comment_read_iff_written:
  "(\<exists>legs. parse_comment c = Inr legs) \<and>
   (parse_comment c = Inr (Some legs) \<longleftrightarrow> encode_comment legs = Inr c)"
  using parse_comment_total parse_encoded_comment parse_comment_exact by blast

end
