(* ===== verification/Messages.thy ===== *)
theory Messages
  imports Prelude
begin

text \<open>
  The venue's protobuf messages the adapter reads and writes, as far as its code reads them
  (\<open>messages/OpenApiModelMessages.proto\<close>, \<open>messages/OpenApiMessages.proto\<close>). A field is an
  \<open>option\<close> where the code asks \<open>HasField\<close>; an accessor with the field's own name then gives
  what Python reads from it, the schema's default when the field is unset. A field the code
  only reads holds that value directly. Integers are Python's.

  A protobuf double is the decimal number its shortest text denotes (Python's \<open>repr\<close>), which
  identifies the double (a negative zero compares as zero does). An infinity holds whether it is
  the negative one. \<open>same_double\<close> is Python's \<open>==\<close>, under which NaN equals nothing.
\<close>

datatype double = Finite rat | Infinity bool | NaN

definition same_double :: "double \<Rightarrow> double \<Rightarrow> bool" where
  "same_double a b \<longleftrightarrow> a \<noteq> NaN \<and> a = b"

datatype ProtoOATradeSide = BUY | SELL

datatype ProtoOAOrderType = MARKET | LIMIT | STOP | STOP_LOSS_TAKE_PROFIT | MARKET_RANGE | STOP_LIMIT

datatype ProtoOAOrderStatus =
    ORDER_STATUS_ACCEPTED
  | ORDER_STATUS_FILLED
  | ORDER_STATUS_REJECTED
  | ORDER_STATUS_EXPIRED
  | ORDER_STATUS_CANCELLED

datatype ProtoOAExecutionType =
    ORDER_ACCEPTED
  | ORDER_FILLED
  | ORDER_REPLACED
  | ORDER_CANCELLED
  | ORDER_EXPIRED
  | ORDER_REJECTED
  | ORDER_CANCEL_REJECTED
  | SWAP
  | DEPOSIT_WITHDRAW
  | ORDER_PARTIAL_FILL
  | BONUS_DEPOSIT_WITHDRAW

datatype ProtoOAPositionStatus =
    POSITION_STATUS_OPEN
  | POSITION_STATUS_CLOSED
  | POSITION_STATUS_CREATED
  | POSITION_STATUS_ERROR

datatype ProtoOATimeInForce =
    GOOD_TILL_DATE
  | GOOD_TILL_CANCEL
  | IMMEDIATE_OR_CANCEL
  | FILL_OR_KILL
  | MARKET_ON_OPEN

datatype ProtoOAOrderTriggerMethod = TRADE | OPPOSITE | DOUBLE_TRADE | DOUBLE_OPPOSITE

record ProtoOATradeData =
  symbolId :: int
  volume :: int
  tradeSide :: ProtoOATradeSide
  f_openTimestamp :: "int option"
  label :: string
  comment :: string
  td_guaranteedStopLoss :: bool

record ProtoOAOrder =
  orderId :: int
  f_tradeData :: "ProtoOATradeData option"
  orderType :: ProtoOAOrderType
  orderStatus :: ProtoOAOrderStatus
  f_expirationTimestamp :: "int option"
  f_executedVolume :: "int option"
  f_utcLastUpdateTimestamp :: "int option"
  f_slippageInPoints :: "int option"
  closingOrder :: bool
  f_limitPrice :: "double option"
  f_stopPrice :: "double option"
  f_stopLoss :: "double option"
  f_takeProfit :: "double option"
  f_timeInForce :: "ProtoOATimeInForce option"
  f_positionId :: "int option"
  f_relativeStopLoss :: "int option"
  f_relativeTakeProfit :: "int option"
  isStopOut :: bool
  o_trailingStopLoss :: bool
  stopTriggerMethod :: ProtoOAOrderTriggerMethod

record ProtoOAPosition =
  vp_positionId :: int
  vp_tradeData :: ProtoOATradeData
  positionStatus :: ProtoOAPositionStatus
  vp_price :: double
  vp_stopLoss :: "double option"
  vp_takeProfit :: "double option"
  vp_utcLastUpdateTimestamp :: int
  vp_guaranteedStopLoss :: bool
  stopLossTriggerMethod :: ProtoOAOrderTriggerMethod
  vp_trailingStopLoss :: bool

record ProtoOAClosePositionDetail =
  grossProfit :: int
  cd_swap :: int
  cd_commission :: int
  cd_balance :: int
  f_balanceVersion :: "int option"
  cd_moneyDigits :: "nat option"
  pnlConversionFee :: int

record ProtoOADeal =
  dealId :: int
  d_orderId :: int
  d_positionId :: int
  filledVolume :: int
  d_symbolId :: int
  executionTimestamp :: int
  executionPrice :: double
  d_tradeSide :: ProtoOATradeSide
  d_commission :: int
  f_closePositionDetail :: "ProtoOAClosePositionDetail option"
  f_moneyDigits :: "nat option"

record ProtoOAExecutionEvent =
  executionType :: ProtoOAExecutionType
  f_position :: "ProtoOAPosition option"
  f_order :: "ProtoOAOrder option"
  f_deal :: "ProtoOADeal option"
  errorCode :: string
  isServerEvent :: bool

record ProtoOATrailingSLChangedEvent =
  ts_positionId :: int
  ts_orderId :: int
  ts_stopPrice :: double
  ts_utcLastUpdateTimestamp :: int

record ProtoOAReconcileRes =
  snap_position :: "ProtoOAPosition list"
  snap_order :: "ProtoOAOrder list"

subsection \<open>Reading an unset field\<close>

definition default_tradeData :: ProtoOATradeData where
  "default_tradeData = \<lparr>symbolId = 0, volume = 0, tradeSide = BUY, f_openTimestamp = None,
     label = '''', comment = '''', td_guaranteedStopLoss = False\<rparr>"

definition default_order :: ProtoOAOrder where
  "default_order = \<lparr>orderId = 0, f_tradeData = None, orderType = MARKET,
     orderStatus = ORDER_STATUS_ACCEPTED, f_expirationTimestamp = None, f_executedVolume = None,
     f_utcLastUpdateTimestamp = None, f_slippageInPoints = None, closingOrder = False,
     f_limitPrice = None, f_stopPrice = None, f_stopLoss = None, f_takeProfit = None,
     f_timeInForce = None, f_positionId = None, f_relativeStopLoss = None,
     f_relativeTakeProfit = None, isStopOut = False, o_trailingStopLoss = False,
     stopTriggerMethod = TRADE\<rparr>"

definition default_position :: ProtoOAPosition where
  "default_position = \<lparr>vp_positionId = 0, vp_tradeData = default_tradeData,
     positionStatus = POSITION_STATUS_OPEN, vp_price = Finite 0, vp_stopLoss = None,
     vp_takeProfit = None, vp_utcLastUpdateTimestamp = 0, vp_guaranteedStopLoss = False,
     stopLossTriggerMethod = TRADE, vp_trailingStopLoss = False\<rparr>"

definition default_deal :: ProtoOADeal where
  "default_deal = \<lparr>dealId = 0, d_orderId = 0, d_positionId = 0, filledVolume = 0, d_symbolId = 0,
     executionTimestamp = 0, executionPrice = Finite 0, d_tradeSide = BUY, d_commission = 0,
     f_closePositionDetail = None, f_moneyDigits = None\<rparr>"

definition unset_int :: "int option \<Rightarrow> int" where
  "unset_int f = (case f of None \<Rightarrow> 0 | Some v \<Rightarrow> v)"

definition tradeData :: "ProtoOAOrder \<Rightarrow> ProtoOATradeData" where
  "tradeData o1 = (case f_tradeData o1 of None \<Rightarrow> default_tradeData | Some d \<Rightarrow> d)"

definition utcLastUpdateTimestamp :: "ProtoOAOrder \<Rightarrow> int" where
  "utcLastUpdateTimestamp o1 = unset_int (f_utcLastUpdateTimestamp o1)"

definition positionId :: "ProtoOAOrder \<Rightarrow> int" where
  "positionId o1 = unset_int (f_positionId o1)"

definition the_order :: "ProtoOAExecutionEvent \<Rightarrow> ProtoOAOrder" where
  "the_order ev = (case f_order ev of None \<Rightarrow> default_order | Some o1 \<Rightarrow> o1)"

definition the_deal :: "ProtoOAExecutionEvent \<Rightarrow> ProtoOADeal" where
  "the_deal ev = (case f_deal ev of None \<Rightarrow> default_deal | Some d \<Rightarrow> d)"

definition the_position :: "ProtoOAExecutionEvent \<Rightarrow> ProtoOAPosition" where
  "the_position ev = (case f_position ev of None \<Rightarrow> default_position | Some p \<Rightarrow> p)"

lemmas message_defs =
  tradeData_def utcLastUpdateTimestamp_def positionId_def the_order_def the_deal_def
  the_position_def unset_int_def default_tradeData_def default_order_def default_position_def
  default_deal_def

subsection \<open>Trade sides are ordered as their names are\<close>

instantiation ProtoOATradeSide :: linorder
begin

definition less_eq_ProtoOATradeSide :: "ProtoOATradeSide \<Rightarrow> ProtoOATradeSide \<Rightarrow> bool" where
  "less_eq_ProtoOATradeSide a b \<longleftrightarrow> a = BUY \<or> b = SELL"

definition less_ProtoOATradeSide :: "ProtoOATradeSide \<Rightarrow> ProtoOATradeSide \<Rightarrow> bool" where
  "less_ProtoOATradeSide a b \<longleftrightarrow> a = BUY \<and> b = SELL"

instance
proof
  fix x y z :: ProtoOATradeSide
  show "(x < y) = (x \<le> y \<and> \<not> y \<le> x)"
    by (cases x; cases y) (simp_all add: less_eq_ProtoOATradeSide_def less_ProtoOATradeSide_def)
  show "x \<le> x"
    by (cases x) (simp_all add: less_eq_ProtoOATradeSide_def)
  show "x \<le> y \<Longrightarrow> y \<le> z \<Longrightarrow> x \<le> z"
    by (cases x; cases y; cases z) (simp_all add: less_eq_ProtoOATradeSide_def)
  show "x \<le> y \<Longrightarrow> y \<le> x \<Longrightarrow> x = y"
    by (cases x; cases y) (simp_all add: less_eq_ProtoOATradeSide_def)
  show "x \<le> y \<or> y \<le> x"
    by (cases x; cases y) (simp_all add: less_eq_ProtoOATradeSide_def)
qed

end

end
