(* ===== verification/Venue_Records.thy ===== *)
theory Venue_Records
  imports Messages
begin

text \<open>
  \<open>common/venue_records.py\<close>: what the venue model hands the execution client, and the
  conversions it relies on. Sides are \<open>BUY\<close> and \<open>SELL\<close> themselves, so \<open>side_of\<close> is the
  identity. A notice's text is the constructor of its message with the values written into it.
  Shown here: a leg's venue order id is read back exactly, and only what is written is read; a
  price is the nearest one at its precision and exact when it already is one.
\<close>

datatype Level = STOP_LOSS | TAKE_PROFIT

record LevelTerms =
  trailing_stop_loss :: bool
  guaranteed_stop_loss :: bool
  stop_loss_trigger_method :: ProtoOAOrderTriggerMethod

datatype venue_error =
    PriceNotFinite
  | PriceDoesNotFit rat nat
  | GenerationBelowOne int
  | AverageDoesNotFit

type_synonym 'a venue_result = "venue_error + 'a"

text \<open>The order types that rest until they trigger (\<open>constants.py\<close>).\<close>

definition PENDING_ORDER_TYPES :: "ProtoOAOrderType list" where
  "PENDING_ORDER_TYPES = [LIMIT, STOP, STOP_LIMIT]"

subsection \<open>Leg names\<close>

fun level_value :: "Level \<Rightarrow> string" where
  "level_value STOP_LOSS = ''SL''"
| "level_value TAKE_PROFIT = ''TP''"

text \<open>The text \<open>leg_venue_order_id\<close> returns for a generation it accepts.\<close>

definition leg_text :: "int \<Rightarrow> Level \<Rightarrow> int \<Rightarrow> string" where
  "leg_text entry_order_id level generation =
     int_text entry_order_id @ ''-'' @ level_value level @
     (if generation = 1 then '''' else ''-'' @ int_text generation)"

definition leg_venue_order_id :: "int \<Rightarrow> Level \<Rightarrow> int \<Rightarrow> string venue_result" where
  "leg_venue_order_id entry_order_id level generation =
     (if generation < 1 then Inl (GenerationBelowOne generation)
      else Inr (leg_text entry_order_id level generation))"

text \<open>A positive number as the pattern \<open>[1-9][0-9]*\<close> takes it.\<close>

definition positive_text :: "string \<Rightarrow> bool" where
  "positive_text s \<longleftrightarrow> decimal_text s \<and> hd s \<noteq> CHR ''0''"

fun level_of_value :: "char \<Rightarrow> char \<Rightarrow> Level option" where
  "level_of_value a b =
     (if a = CHR ''S'' \<and> b = CHR ''L'' then Some STOP_LOSS
      else if a = CHR ''T'' \<and> b = CHR ''P'' then Some TAKE_PROFIT else None)"

text \<open>The optional last group: absent, or a number from 2 up.\<close>

fun parse_generation :: "string \<Rightarrow> int option" where
  "parse_generation [] = Some 1"
| "parse_generation (c # g) =
     (if c = CHR ''-'' \<and> positive_text g \<and> g \<noteq> ''1'' then Some (int (text_nat g)) else None)"

definition parse_leg_venue_order_id :: "string \<Rightarrow> (int \<times> Level \<times> int) option" where
  "parse_leg_venue_order_id text =
     (let entry = takeWhile is_digit text in
      if positive_text entry then
        (case dropWhile is_digit text of
           c # a # b # rest \<Rightarrow>
             (if c = CHR ''-'' then
                (case (level_of_value a b, parse_generation rest) of
                   (Some level, Some generation) \<Rightarrow>
                     Some (int (text_nat entry), level, generation)
                 | _ \<Rightarrow> None)
              else None)
         | _ \<Rightarrow> None)
      else None)"

definition leg_prices :: "Level \<Rightarrow> decimal option \<Rightarrow> decimal option \<times> decimal option" where
  "leg_prices level price = (if level = STOP_LOSS then (None, price) else (price, None))"

subsection \<open>Prices, volumes and money\<close>

fun price_of :: "double \<Rightarrow> nat \<Rightarrow> decimal venue_result" where
  "price_of NaN precision = Inl PriceNotFinite"
| "price_of (Infinity negative) precision = Inl PriceNotFinite"
| "price_of (Finite value) precision =
     (case quantize value precision of
        None \<Rightarrow> Inl (PriceDoesNotFit value precision)
      | Some price \<Rightarrow> Inr price)"

text \<open>
  The levels of a position: a dictionary from \<open>Level\<close> to its price. Its order is never read, so
  it is one option per level, and two are equal as the dictionaries are.
\<close>

record levels =
  lv_stop_loss :: "decimal option"
  lv_take_profit :: "decimal option"

definition no_levels :: levels where
  "no_levels = \<lparr>lv_stop_loss = None, lv_take_profit = None\<rparr>"

fun level_get :: "levels \<Rightarrow> Level \<Rightarrow> decimal option" where
  "level_get lv STOP_LOSS = lv_stop_loss lv"
| "level_get lv TAKE_PROFIT = lv_take_profit lv"

definition LEVELS :: "Level list" where
  "LEVELS = [STOP_LOSS, TAKE_PROFIT]"

text \<open>An optional double as an optional price: the two \<open>if HasField\<close> lines of each reader.\<close>

definition optional_price :: "double option \<Rightarrow> nat \<Rightarrow> decimal option venue_result" where
  "optional_price f precision =
     (case f of
        None \<Rightarrow> Inr None
      | Some v \<Rightarrow> bind_result (price_of v precision) (\<lambda>p. Inr (Some p)))"

definition position_levels :: "ProtoOAPosition \<Rightarrow> nat \<Rightarrow> levels venue_result" where
  "position_levels position precision =
     bind_result (optional_price (vp_stopLoss position) precision) (\<lambda>sl.
     bind_result (optional_price (vp_takeProfit position) precision) (\<lambda>tp.
     Inr \<lparr>lv_stop_loss = sl, lv_take_profit = tp\<rparr>))"

definition volume_to_units :: "int \<Rightarrow> decimal" where
  "volume_to_units volume_cents = of_int volume_cents / 100"

definition money_of :: "int \<Rightarrow> nat \<Rightarrow> decimal" where
  "money_of amount money_digits = of_int amount / 10 ^ money_digits"

definition money_in :: "int \<Rightarrow> nat option \<Rightarrow> nat \<Rightarrow> decimal" where
  "money_in amount own_digits account_money_digits =
     money_of amount (case own_digits of Some d \<Rightarrow> d | None \<Rightarrow> account_money_digits)"

subsection \<open>Records\<close>

datatype OrderEventKind =
  Ev_ACCEPTED | Ev_FILLED | Ev_UPDATED | Ev_CANCELED | Ev_REJECTED | Ev_EXPIRED

record Fill =
  trade_id :: string
  fill_venue_position_id :: string
  fill_side :: ProtoOATradeSide
  fill_units :: decimal
  fill_price :: decimal
  fill_commission :: decimal
  fill_ts_ms :: int

definition fill_of :: "ProtoOADeal \<Rightarrow> nat \<Rightarrow> nat \<Rightarrow> Fill venue_result" where
  "fill_of deal precision account_money_digits =
     bind_result (price_of (executionPrice deal) precision) (\<lambda>price. Inr
       \<lparr>trade_id = int_text (dealId deal),
        fill_venue_position_id = int_text (d_positionId deal),
        fill_side = d_tradeSide deal,
        fill_units = volume_to_units (filledVolume deal),
        fill_price = price,
        fill_commission = money_in (d_commission deal) (f_moneyDigits deal) account_money_digits,
        fill_ts_ms = executionTimestamp deal\<rparr>)"

text \<open>
  Python's \<open>sum\<close> of decimals rounds each partial sum by the context. \<open>average_price\<close> is the
  volume-weighted price, absent without units; \<open>quantize\<close> raises \<open>InvalidOperation\<close> where the
  quotient does not fit.
\<close>

definition sum_units :: "Fill list \<Rightarrow> decimal" where
  "sum_units fills = foldl (\<lambda>a f. ctx (a + fill_units f)) 0 fills"

definition average_price :: "Fill list \<Rightarrow> nat \<Rightarrow> decimal option venue_result" where
  "average_price fills precision =
     (let units = sum_units fills
      in if units = 0 then Inr None
         else let total = foldl (\<lambda>a f. ctx (a + ctx (fill_price f * fill_units f))) 0 fills
              in case quantize (ctx (total / units)) precision of
                   None \<Rightarrow> Inl AverageDoesNotFit
                 | Some average \<Rightarrow> Inr (Some average))"

record OrderEvent =
  oe_kind :: OrderEventKind
  oe_venue_order_id :: "string option"
  oe_client_order_id :: "string option"
  oe_ts_ms :: int
  oe_fill :: "Fill option"
  oe_quantity :: "decimal option"
  oe_price :: "decimal option"
  oe_trigger_price :: "decimal option"
  oe_reason :: "string option"

text \<open>An event with only its kind, ids and time: the dataclass's defaults.\<close>

definition plain_event ::
    "OrderEventKind \<Rightarrow> string option \<Rightarrow> string option \<Rightarrow> int \<Rightarrow> OrderEvent" where
  "plain_event kind venue_id client_id ts =
     \<lparr>oe_kind = kind, oe_venue_order_id = venue_id, oe_client_order_id = client_id,
      oe_ts_ms = ts, oe_fill = None, oe_quantity = None, oe_price = None,
      oe_trigger_price = None, oe_reason = None\<rparr>"

datatype ExternalType = Ext_MARKET | Ext_LIMIT | Ext_STOP_MARKET | Ext_STOP_LIMIT

record ExternalOrder =
  xo_venue_order_id :: string
  xo_symbol_id :: int
  xo_side :: ProtoOATradeSide
  xo_order_type :: ExternalType
  xo_units :: decimal
  xo_reduce_only :: bool
  xo_venue_position_id :: "string option"
  xo_ts_ms :: int
  xo_price :: "decimal option"
  xo_trigger_price :: "decimal option"
  xo_fills :: "Fill list"
  xo_time_in_force :: "ProtoOATimeInForce option"
  xo_expire_ts_ms :: "int option"
  xo_ts_accepted_ms :: "int option"

datatype ActivityKind = UNLOADED_SYMBOL | MANUAL_CHANGE | STOP_OUT

datatype Action =
  OPENED | CHANGED | CLOSED | PARTIALLY_CLOSED | LEVEL_MOVED | LEVEL_REMOVED | LEVEL_ADDED

datatype subject = Subject_order | Subject_position

record Activity =
  ac_kind :: ActivityKind
  ac_symbol_id :: int
  ac_subject :: subject
  ac_side :: ProtoOATradeSide
  ac_units :: decimal
  ac_action :: Action
  ac_ts_ms :: int

record Exposure =
  ex_symbol_id :: int
  ex_subject :: subject
  ex_side :: ProtoOATradeSide
  ex_units :: decimal

record OpenPosition =
  op_position_id :: int
  op_symbol_id :: int
  op_side :: ProtoOATradeSide
  op_units :: decimal

datatype ReportStatus =
  Rep_ACCEPTED | Rep_PARTIALLY_FILLED | Rep_FILLED | Rep_CANCELED | Rep_EXPIRED | Rep_REJECTED

datatype Contingency = OTO | OUO

record ReportedOrder =
  ro_venue_order_id :: string
  ro_client_order_id :: "string option"
  ro_symbol_id :: int
  ro_side :: ProtoOATradeSide
  ro_order_type :: ExternalType
  ro_status :: ReportStatus
  ro_units :: decimal
  ro_filled_units :: decimal
  ro_reduce_only :: bool
  ro_venue_position_id :: "string option"
  ro_ts_accepted_ms :: int
  ro_ts_ms :: int
  ro_avg_price :: "decimal option"
  ro_price :: "decimal option"
  ro_trigger_price :: "decimal option"
  ro_time_in_force :: "ProtoOATimeInForce option"
  ro_expire_ts_ms :: "int option"
  ro_parent_order_id :: "string option"
  ro_linked_order_ids :: "string list"
  ro_contingency :: "Contingency option"
  ro_fills :: "Fill list"

record ReportedPosition =
  rq_venue_position_id :: string
  rq_symbol_id :: int
  rq_side :: ProtoOATradeSide
  rq_units :: decimal
  rq_avg_price :: decimal
  rq_ts_ms :: int

datatype Notice =
    InvertedLevels decimal decimal decimal Level
  | LegsRecordUnreadable int
  | FilledAfterEnd int
  | FilledAfterRetired int
  | NoLevelKnown decimal
  | UnnamedClose decimal int
  | NoLists int
  | NoEntryOrder int
  | NoEntryFill int
  | OpenNotInSnapshot int

datatype Record =
    R_OrderEvent OrderEvent
  | R_ExternalOrder ExternalOrder
  | R_Activity Activity
  | R_AwaitProtection int
  | R_ProtectionMissing int "string option" "string option"
  | R_Notice Notice
  | R_EntryUnknown int

subsection \<open>Leg names are read back exactly\<close>

lemma positive_nat_text: "0 < n \<Longrightarrow> positive_text (nat_text n)"
  by (simp add: positive_text_def decimal_nat_text hd_nat_text)

lemma positive_text_nat: "positive_text s \<Longrightarrow> nat_text (text_nat s) = s"
  by (simp add: positive_text_def nat_text_nat)

lemma positive_text_pos: "positive_text s \<Longrightarrow> 0 < text_nat s"
  by (simp add: positive_text_def text_nat_pos)

lemma span_digits:
  assumes "list_all is_digit ds" and "\<not> is_digit c"
  shows "takeWhile is_digit (ds @ c # r) = ds" and "dropWhile is_digit (ds @ c # r) = c # r"
  using assms by (induction ds) simp_all

lemma minus_not_digit: "\<not> is_digit (CHR ''-'')"
  by (simp add: is_digit_def)

lemma parse_generation_text:
  assumes "1 \<le> g"
  shows "parse_generation (if g = 1 then '''' else ''-'' @ int_text g) = Some g"
proof (cases "g = 1")
  case False
  with assms have "1 < g" by simp
  then obtain n where n: "g = int n" "1 < n"
    by (metis int_one_le_iff_zero_less nat_int nat_less_iff of_nat_1 of_nat_less_iff zero_le_imp_eq_int
        assms order_trans zero_le_one)
  have "nat_text n \<noteq> ''1''"
  proof
    assume "nat_text n = ''1''"
    then have "text_nat (nat_text n) = text_nat ''1''" by (rule arg_cong)
    moreover have "text_nat ''1'' = 1" by code_simp
    ultimately show False using n(2) by simp
  qed
  with n show ?thesis
    by (simp add: int_text_def positive_nat_text)
qed simp

lemma level_of_value_text: "level_value l = [a, b] \<Longrightarrow> level_of_value a b = Some l"
  by (cases l) auto

lemma parse_leg_text:
  assumes "0 < e" and "1 \<le> g"
  shows "parse_leg_venue_order_id (leg_text e l g) = Some (e, l, g)"
proof -
  obtain n where n: "e = int n" "0 < n"
    using assms(1) by (metis nat_int of_nat_0_less_iff zero_less_imp_eq_int)
  obtain a b where ab: "level_value l = [a, b]" by (cases l) auto
  let ?rest = "if g = 1 then '''' else ''-'' @ int_text g"
  have name: "leg_text e l g = nat_text n @ CHR ''-'' # a # b # ?rest"
    using n ab by (simp add: leg_text_def int_text_def)
  show ?thesis
    unfolding parse_leg_venue_order_id_def name
    using n(2) parse_generation_text [OF assms(2)] level_of_value_text [OF ab]
    by (simp add: span_digits [OF nat_text_digits minus_not_digit] positive_nat_text n(1))
qed

lemma parse_generation_exact:
  assumes "parse_generation rest = Some g"
  shows "1 \<le> g \<and> rest = (if g = 1 then '''' else ''-'' @ int_text g)"
proof (cases rest)
  case Nil
  with assms show ?thesis by simp
next
  case (Cons c t)
  with assms have t: "c = CHR ''-''" "positive_text t" "t \<noteq> ''1''" "g = int (text_nat t)"
    by (auto split: if_splits)
  have "text_nat t \<noteq> 1"
  proof
    assume "text_nat t = 1"
    then have "t = nat_text 1" using positive_text_nat [OF t(2)] by simp
    moreover have "nat_text 1 = ''1''" by code_simp
    ultimately show False using t(3) by simp
  qed
  then show ?thesis
    using t positive_text_pos [OF t(2)] positive_text_nat [OF t(2)] Cons
    by (simp add: int_text_def)
qed

lemma level_of_value_exact: "level_of_value a b = Some l \<Longrightarrow> level_value l = [a, b]"
  by (auto split: if_splits)

lemma parse_leg_exact:
  assumes "parse_leg_venue_order_id t = Some (e, l, g)"
  shows "0 < e \<and> 1 \<le> g \<and> t = leg_text e l g"
proof -
  let ?ds = "takeWhile is_digit t"
  from assms obtain a b rest where
      pos: "positive_text ?ds" and drop: "dropWhile is_digit t = CHR ''-'' # a # b # rest"
      and lev: "level_of_value a b = Some l" and gen: "parse_generation rest = Some g"
      and e: "e = int (text_nat ?ds)"
    by (auto simp: parse_leg_venue_order_id_def Let_def split: if_splits list.splits option.splits)
  have "t = ?ds @ CHR ''-'' # a # b # rest"
    using takeWhile_dropWhile_id [of is_digit t] drop by simp
  then show ?thesis
    using positive_text_nat [OF pos] positive_text_pos [OF pos] parse_generation_exact [OF gen]
      level_of_value_exact [OF lev] e
    by (simp add: leg_text_def int_text_def)
qed

lemma leg_text_inject:
  assumes "0 < e" "1 \<le> g" "0 < e'" "1 \<le> g'"
  shows "leg_text e l g = leg_text e' l' g' \<longleftrightarrow> e = e' \<and> l = l' \<and> g = g'"
proof
  assume "leg_text e l g = leg_text e' l' g'"
  then have "Some (e, l, g) = Some (e', l', g')"
    using parse_leg_text [OF assms(1,2), of l] parse_leg_text [OF assms(3,4), of l'] by metis
  then show "e = e' \<and> l = l' \<and> g = g'" by simp
qed simp

text \<open>Whatever the entry's id, two generations of one level have different names.\<close>

lemma leg_text_generation:
  assumes "1 \<le> g" "1 \<le> g'" "leg_text e l g = leg_text e l g'"
  shows "g = g'"
  using assms(3) by (cases "g = 1"; cases "g' = 1") (simp_all add: leg_text_def)

subsection \<open>Prices\<close>

lemma price_of_near:
  assumes "price_of (Finite v) n = Inr p"
  shows "\<bar>p - v\<bar> \<le> 1 / (2 * 10 ^ n)"
  using assms by (auto split: option.splits dest: quantize_near)

lemma price_of_exact:
  assumes "\<bar>k\<bar> < 10 ^ 28"
  shows "price_of (Finite (of_int k / 10 ^ n)) n = Inr (of_int k / 10 ^ n)"
  using quantize_exact [OF assms] by simp

subsection \<open>Properties\<close>

text \<open>
  a venue order id is read as a leg's name exactly when \<open>leg_venue_order_id\<close> writes it for
  that entry order, level and generation, the entry order's id being a positive number.
\<close>
theorem leg_name_read_iff_written:
  "parse_leg_venue_order_id t = Some (e, l, g) \<longleftrightarrow> 0 < e \<and> leg_venue_order_id e l g = Inr t"
  using parse_leg_text [of e g l] parse_leg_exact [of t e l g]
  by (auto simp: leg_venue_order_id_def not_less)

text \<open>
  a price read from a double lies within half a unit of the instrument's last digit of it,
  and a number that already is a price of at most 28 digits is read as itself.
\<close>
theorem price_of_nearest:
  assumes "\<bar>k\<bar> < 10 ^ 28"
  shows "price_of (Finite (of_int k / 10 ^ n)) n = Inr (of_int k / 10 ^ n) \<and>
    (price_of (Finite v) n = Inr p \<longrightarrow> \<bar>p - v\<bar> \<le> 1 / (2 * 10 ^ n))"
  using price_of_exact [OF assms] price_of_near by blast

theorem price_of_nearest_witness:
  "price_of (Finite (of_int 110512 / 10 ^ 5)) 5 = Inr (of_int 110512 / 10 ^ 5) \<and>
   \<bar>(110512 / 10 ^ 5 :: rat) - 1105118 / 10 ^ 6\<bar> \<le> 1 / (2 * 10 ^ 5)"
  using price_of_nearest [of 110512 5 "1105118 / 10 ^ 6" "110512 / 10 ^ 5"]
  by (simp add: quantize_def round_half_even_def Let_def)

end
