(* ===== verification/Operations_In_Flight.thy ===== *)
theory Operations_In_Flight
  imports Venue_Records
begin

text \<open>
  \<open>common/operations.py\<close>: the node's amends and closes the broker has not answered, and its
  brackets awaiting their correcting amend. The \<open>Operations\<close> protocol the venue book reads
  (\<open>common/venue_records.py\<close>) is the locale \<open>operations_protocol\<close>, interpreted on
  \<open>OperationsInFlight\<close>: amends are counted per position, lost amends form a queue per position.

  Shown here: the well-formedness every operation keeps, that late answers are recognised
  exactly as a common prefix of the lost amends, and which close a closing order carries out.
\<close>

record OperationsInFlight =
  amends :: "(int, int) dict"
  lost_amends :: "(int, levels list) dict"
  closes :: "(string, int \<times> int \<times> int) dict"
  answers :: "(string, int) dict"

definition no_operations :: OperationsInFlight where
  "no_operations = \<lparr>amends = [], lost_amends = [], closes = [], answers = []\<rparr>"

definition begin_amend :: "int \<Rightarrow> OperationsInFlight \<Rightarrow> OperationsInFlight" where
  "begin_amend position_id ops =
     ops\<lparr>amends := AList.update position_id (dict_get (amends ops) position_id 0 + 1) (amends ops)\<rparr>"

definition end_amend :: "int \<Rightarrow> OperationsInFlight \<Rightarrow> OperationsInFlight" where
  "end_amend position_id ops =
     (let left = dict_get (amends ops) position_id 0 - 1
      in if left > 0 then ops\<lparr>amends := AList.update position_id left (amends ops)\<rparr>
         else ops\<lparr>amends := AList.delete position_id (amends ops)\<rparr>)"

definition amending :: "int \<Rightarrow> OperationsInFlight \<Rightarrow> bool" where
  "amending position_id ops \<longleftrightarrow> map_of (amends ops) position_id \<noteq> None"

definition lost_amend :: "int \<Rightarrow> levels \<Rightarrow> OperationsInFlight \<Rightarrow> OperationsInFlight" where
  "lost_amend position_id lv ops =
     ops\<lparr>lost_amends :=
       AList.update position_id (dict_get (lost_amends ops) position_id [] @ [lv]) (lost_amends ops)\<rparr>"

definition late_amend :: "int \<Rightarrow> levels \<Rightarrow> OperationsInFlight \<Rightarrow> bool \<times> OperationsInFlight" where
  "late_amend position_id lv ops =
     (let expected = dict_get (lost_amends ops) position_id [];
          popped = AList.delete position_id (lost_amends ops)
      in if expected = [] \<or> hd expected \<noteq> lv then (False, ops\<lparr>lost_amends := popped\<rparr>)
         else if length expected > 1
         then (True, ops\<lparr>lost_amends := AList.update position_id (tl expected) popped\<rparr>)
         else (True, ops\<lparr>lost_amends := popped\<rparr>))"

definition forget_lost_amends :: "OperationsInFlight \<Rightarrow> OperationsInFlight" where
  "forget_lost_amends ops = ops\<lparr>lost_amends := []\<rparr>"

definition begin_close ::
    "string \<Rightarrow> int \<Rightarrow> int \<Rightarrow> int \<Rightarrow> OperationsInFlight \<Rightarrow> OperationsInFlight" where
  "begin_close client_order_id position_id vol anchor_ms ops =
     ops\<lparr>closes := AList.update client_order_id (position_id, vol, anchor_ms) (closes ops)\<rparr>"

definition answered :: "string \<Rightarrow> int \<Rightarrow> OperationsInFlight \<Rightarrow> OperationsInFlight" where
  "answered client_order_id order_id ops =
     (if map_of (closes ops) client_order_id \<noteq> None
      then ops\<lparr>answers := AList.update client_order_id order_id (answers ops)\<rparr>
      else ops)"

definition end_close :: "string \<Rightarrow> OperationsInFlight \<Rightarrow> OperationsInFlight" where
  "end_close client_order_id ops =
     ops\<lparr>closes := AList.delete client_order_id (closes ops),
         answers := AList.delete client_order_id (answers ops)\<rparr>"

definition close_position :: "string \<Rightarrow> OperationsInFlight \<Rightarrow> int option" where
  "close_position client_order_id ops = map_option fst (map_of (closes ops) client_order_id)"

text \<open>The two loops of \<open>closing\<close>, each with its early return.\<close>

fun answer_naming :: "int \<Rightarrow> (string, int) dict \<Rightarrow> string option" where
  "answer_naming order_id [] = None"
| "answer_naming order_id ((client_order_id, answer) # rest) =
     (if answer = order_id then Some client_order_id else answer_naming order_id rest)"

fun close_matching ::
    "(string, int) dict \<Rightarrow> int \<Rightarrow> int \<Rightarrow> int \<Rightarrow> (string, int \<times> int \<times> int) dict \<Rightarrow> string option"
  where
  "close_matching answered_with position_id vol created_ms [] = None"
| "close_matching answered_with position_id vol created_ms
     ((client_order_id, closed_position, closed_volume, anchor_ms) # rest) =
     (if map_of answered_with client_order_id \<noteq> None
         \<or> (closed_position, closed_volume) \<noteq> (position_id, vol)
      then close_matching answered_with position_id vol created_ms rest
      else if anchor_ms < 0 \<or> created_ms > anchor_ms then Some client_order_id
      else close_matching answered_with position_id vol created_ms rest)"

definition closing :: "int \<Rightarrow> int \<Rightarrow> int \<Rightarrow> int \<Rightarrow> OperationsInFlight \<Rightarrow> string option" where
  "closing position_id vol created_ms order_id ops =
     (case answer_naming order_id (answers ops) of
        Some client_order_id \<Rightarrow> Some client_order_id
      | None \<Rightarrow> close_matching (answers ops) position_id vol created_ms (closes ops))"

subsection \<open>Pending brackets\<close>

text \<open>A retry timer is known by a number; \<open>stop_retry\<close> also gives the timer it cancels.\<close>

record PendingBracket =
  entry_id :: string
  pb_legs :: "(Level, string) dict"
  requested :: levels
  cancels :: "Level set"
  modified :: "Level set"
  correcting :: bool
  rounds :: int
  unanswered :: "levels option"
  answer_lost :: bool
  rebuild_failures :: int
  retry :: "nat option"

definition stop_retry :: "PendingBracket \<Rightarrow> nat option \<times> PendingBracket" where
  "stop_retry bracket =
     (case retry bracket of
        None \<Rightarrow> (None, bracket)
      | Some timer \<Rightarrow> (Some timer, bracket\<lparr>retry := None\<rparr>))"

type_synonym PendingBrackets = "(string, PendingBracket) dict"

definition add_bracket :: "PendingBracket \<Rightarrow> PendingBrackets \<Rightarrow> PendingBrackets" where
  "add_bracket bracket by_entry = AList.update (entry_id bracket) bracket by_entry"

definition remove_bracket :: "string \<Rightarrow> PendingBrackets \<Rightarrow> nat option \<times> PendingBrackets" where
  "remove_bracket entry by_entry =
     (case map_of by_entry entry of
        None \<Rightarrow> (None, by_entry)
      | Some bracket \<Rightarrow> (fst (stop_retry bracket), AList.delete entry by_entry))"

definition by_entry :: "string \<Rightarrow> PendingBrackets \<Rightarrow> PendingBracket option" where
  "by_entry entry brackets = map_of brackets entry"

fun level_of_leg :: "string \<Rightarrow> (Level, string) dict \<Rightarrow> Level option" where
  "level_of_leg leg_id [] = None"
| "level_of_leg leg_id ((level, client_order_id) # rest) =
     (if client_order_id = leg_id then Some level else level_of_leg leg_id rest)"

fun by_leg :: "string \<Rightarrow> PendingBrackets \<Rightarrow> (PendingBracket \<times> Level) option" where
  "by_leg leg_id [] = None"
| "by_leg leg_id ((_, bracket) # rest) =
     (case level_of_leg leg_id (pb_legs bracket) of
        Some level \<Rightarrow> Some (bracket, level)
      | None \<Rightarrow> by_leg leg_id rest)"

subsection \<open>The protocol\<close>

text \<open>
  The contract of \<open>Operations\<close> the venue book relies on: \<open>lost\<close> is the queue of the amends
  whose answers were lost; a match drops its head, a mismatch empties it, no other position's
  queue changes.
\<close>

locale operations_protocol =
  fixes lost :: "int \<Rightarrow> 'o \<Rightarrow> levels list"
    and late :: "int \<Rightarrow> levels \<Rightarrow> 'o \<Rightarrow> bool \<times> 'o"
  assumes late_answer: "fst (late p lv ops) \<longleftrightarrow> (\<exists>rest. lost p ops = lv # rest)"
    and late_match: "lost p ops = lv # rest \<Longrightarrow> lost p (snd (late p lv ops)) = rest"
    and late_mismatch: "\<not> fst (late p lv ops) \<Longrightarrow> lost p (snd (late p lv ops)) = []"
    and late_other: "q \<noteq> p \<Longrightarrow> lost q (snd (late p lv ops)) = lost q ops"
begin

text \<open>The answers of a run of protective events of one position.\<close>

primrec late_run :: "int \<Rightarrow> levels list \<Rightarrow> 'o \<Rightarrow> bool list" where
  "late_run p [] ops = []"
| "late_run p (lv # rest) ops = fst (late p lv ops) # late_run p rest (snd (late p lv ops))"

lemma late_run_empty: "lost p ops = [] \<Longrightarrow> late_run p lvs ops = replicate (length lvs) False"
proof (induction lvs arbitrary: ops)
  case (Cons lv lvs)
  then have "\<not> fst (late p lv ops)" by (simp add: late_answer)
  with Cons late_mismatch show ?case by simp
qed simp

lemma late_run_prefix:
  "late_run p lvs ops =
     map (\<lambda>i. i < length (lost p ops) \<and> take (Suc i) lvs = take (Suc i) (lost p ops))
       [0..<length lvs]"
proof (induction lvs arbitrary: ops)
  case (Cons lv lvs)
  have upt: "[0..<length (lv # lvs)] = 0 # map Suc [0..<length lvs]"
    by (metis length_Cons map_Suc_upt upt_conv_Cons zero_less_Suc)
  show ?case
  proof (cases "fst (late p lv ops)")
    case True
    then obtain rest where rest: "lost p ops = lv # rest"
      by (auto simp: late_answer)
    then show ?thesis
      unfolding upt using True Cons.IH [of "snd (late p lv ops)"] late_match [OF rest]
      by (simp add: comp_def)
  next
    case False
    then have "take (Suc i) (lv # lvs) \<noteq> take (Suc i) (lost p ops)" for i
      by (cases "lost p ops") (auto simp: late_answer)
    moreover have "late_run p (lv # lvs) ops = replicate (Suc (length lvs)) False"
      using False late_run_empty [OF late_mismatch [OF False]] by simp
    ultimately show ?thesis
      by (simp add: map_replicate_const del: upt.upt_Suc)
  qed
qed simp

end

definition lost_queue :: "int \<Rightarrow> OperationsInFlight \<Rightarrow> levels list" where
  "lost_queue p ops = dict_get (lost_amends ops) p []"

interpretation in_flight: operations_protocol lost_queue late_amend
  by unfold_locales
    (auto simp: late_amend_def lost_queue_def dict_get_def Let_def map_of_update map_of_delete
      hd_Cons_tl [symmetric]
      split: option.splits if_splits simp del: hd_Cons_tl intro: hd_Cons_tl [symmetric] exI)

subsection \<open>What every operation keeps\<close>

definition operations_ok :: "OperationsInFlight \<Rightarrow> bool" where
  "operations_ok ops \<longleftrightarrow>
     distinct (map fst (amends ops)) \<and> distinct (map fst (lost_amends ops)) \<and>
     distinct (map fst (closes ops)) \<and> distinct (map fst (answers ops)) \<and>
     (\<forall>p n. map_of (amends ops) p = Some n \<longrightarrow> 0 < n) \<and>
     (\<forall>p. map_of (lost_amends ops) p \<noteq> Some []) \<and>
     dom (map_of (answers ops)) \<subseteq> dom (map_of (closes ops))"

lemmas operation_defs =
  begin_amend_def end_amend_def lost_amend_def late_amend_def forget_lost_amends_def
  begin_close_def answered_def end_close_def

lemma begin_amend_ok: "operations_ok ops \<Longrightarrow> operations_ok (begin_amend p ops)"
  by (auto simp: operations_ok_def begin_amend_def dict_simps dict_get_def
      intro: less_imp_le split: option.splits if_splits)

lemma end_amend_ok: "operations_ok ops \<Longrightarrow> operations_ok (end_amend p ops)"
  by (auto simp: operations_ok_def end_amend_def Let_def dict_simps dict_get_def
      split: option.splits if_splits)

lemma lost_amend_ok: "operations_ok ops \<Longrightarrow> operations_ok (lost_amend p lv ops)"
  by (auto simp: operations_ok_def lost_amend_def dict_simps split: if_splits)

lemma late_amend_ok: "operations_ok ops \<Longrightarrow> operations_ok (snd (late_amend p lv ops))"
  by (auto simp: operations_ok_def late_amend_def Let_def dict_simps Suc_less_eq2
      neq_Nil_conv split: if_splits)

lemma forget_lost_amends_ok: "operations_ok ops \<Longrightarrow> operations_ok (forget_lost_amends ops)"
  by (simp add: operations_ok_def forget_lost_amends_def)

lemma begin_close_ok: "operations_ok ops \<Longrightarrow> operations_ok (begin_close i p v a ops)"
  by (auto simp: operations_ok_def begin_close_def dict_simps)

lemma answered_ok: "operations_ok ops \<Longrightarrow> operations_ok (answered i o1 ops)"
  by (auto simp: operations_ok_def answered_def dict_simps)

lemma end_close_ok: "operations_ok ops \<Longrightarrow> operations_ok (end_close i ops)"
  by (auto simp: operations_ok_def end_close_def dict_simps)

lemmas operations_ok_intros [intro] =
  begin_amend_ok end_amend_ok lost_amend_ok late_amend_ok forget_lost_amends_ok begin_close_ok
  answered_ok end_close_ok

text \<open>What the execution client does to the operations in flight, step by step.\<close>

inductive operations_step :: "OperationsInFlight \<Rightarrow> OperationsInFlight \<Rightarrow> bool" where
  "operations_step ops (begin_amend p ops)"
| "operations_step ops (end_amend p ops)"
| "operations_step ops (lost_amend p lv ops)"
| "operations_step ops (snd (late_amend p lv ops))"
| "operations_step ops (forget_lost_amends ops)"
| "operations_step ops (begin_close i p v a ops)"
| "operations_step ops (answered i o1 ops)"
| "operations_step ops (end_close i ops)"

inductive_cases operations_stepE: "operations_step ops ops'"

lemma operations_step_ok: "operations_step ops ops' \<Longrightarrow> operations_ok ops \<Longrightarrow> operations_ok ops'"
  by (erule operations_stepE) auto

lemma operations_reachable_ok: "operations_step\<^sup>*\<^sup>* no_operations ops \<Longrightarrow> operations_ok ops"
proof (induction rule: rtranclp_induct)
  case base
  show ?case by (simp add: no_operations_def operations_ok_def)
next
  case (step ops ops')
  then show ?case by (blast intro: operations_step_ok)
qed

subsection \<open>The close a closing order carries out\<close>

text \<open>A close that is in flight, unanswered, of that size on that position, and not older.\<close>

definition eligible :: "int \<Rightarrow> int \<Rightarrow> int \<Rightarrow> OperationsInFlight \<Rightarrow> string \<Rightarrow> bool" where
  "eligible position_id vol created_ms ops client_order_id \<longleftrightarrow>
     map_of (answers ops) client_order_id = None \<and>
     (\<exists>anchor. map_of (closes ops) client_order_id = Some (position_id, vol, anchor)
        \<and> (anchor < 0 \<or> anchor < created_ms))"

lemma answer_naming_Some: "answer_naming o1 d = Some i \<Longrightarrow> (i, o1) \<in> set d"
  by (induction o1 d rule: answer_naming.induct) (auto split: if_splits)

lemma answer_naming_None: "answer_naming o1 d = None \<longleftrightarrow> o1 \<notin> snd ` set d"
  by (induction o1 d rule: answer_naming.induct) auto

lemma close_matching_find:
  "close_matching w p v c d =
     map_option fst (find (\<lambda>(i, q, u, a). map_of w i = None \<and> q = p \<and> u = v \<and> (a < 0 \<or> a < c)) d)"
  by (induction w p v c d rule: close_matching.induct) auto

lemma close_matching_Some:
  assumes "close_matching w p v c d = Some i"
  shows "\<exists>before a after. d = before @ (i, p, v, a) # after \<and> map_of w i = None
    \<and> (a < 0 \<or> a < c)
    \<and> (\<forall>(j, q, u, b) \<in> set before.
          \<not> (map_of w j = None \<and> q = p \<and> u = v \<and> (b < 0 \<or> b < c)))"
  using assms by (fastforce simp: close_matching_find dest: find_split)

lemma closes_entry:
  "operations_ok ops \<Longrightarrow> (i, x) \<in> set (closes ops) \<longleftrightarrow> map_of (closes ops) i = Some x"
  by (simp add: operations_ok_def map_of_eq_Some_iff)

lemma answers_entry:
  "operations_ok ops \<Longrightarrow> (i, x) \<in> set (answers ops) \<longleftrightarrow> map_of (answers ops) i = Some x"
  by (simp add: operations_ok_def map_of_eq_Some_iff)

lemma eligible_entry:
  assumes "operations_ok ops" and "(i, q, u, b) \<in> set (closes ops)"
  shows "eligible p v c ops i \<longleftrightarrow>
    map_of (answers ops) i = None \<and> q = p \<and> u = v \<and> (b < 0 \<or> b < c)"
  using assms by (auto simp: eligible_def closes_entry)

lemma close_matching_eligible:
  assumes ok: "operations_ok ops" and "close_matching (answers ops) p v c (closes ops) = Some i"
  shows "eligible p v c ops i \<and>
    (\<exists>before x after. closes ops = before @ (i, x) # after \<and>
       (\<forall>j \<in> fst ` set before. \<not> eligible p v c ops j))"
proof -
  from close_matching_Some [OF assms(2)] obtain before a after where
    split: "closes ops = before @ (i, p, v, a) # after"
    and i: "map_of (answers ops) i = None" "a < 0 \<or> a < c"
    and none: "\<forall>(j, q, u, b) \<in> set before.
      \<not> (map_of (answers ops) j = None \<and> q = p \<and> u = v \<and> (b < 0 \<or> b < c))"
    by blast
  have "\<not> eligible p v c ops j" if "j \<in> fst ` set before" for j
  proof -
    from that obtain q u b where "(j, q, u, b) \<in> set before" by auto
    with none split eligible_entry [OF ok, of j q u b] show ?thesis by auto
  qed
  moreover have "eligible p v c ops i"
    using split i eligible_entry [OF ok, of i p v a] by auto
  ultimately show ?thesis using split by blast
qed

lemma close_matching_none:
  assumes ok: "operations_ok ops" and none: "close_matching (answers ops) p v c (closes ops) = None"
  shows "\<not> eligible p v c ops i"
proof
  assume e: "eligible p v c ops i"
  then obtain x where "(i, x) \<in> set (closes ops)"
    by (auto simp: eligible_def dest: map_of_SomeD)
  moreover obtain q u b where "x = (q, u, b)" by (cases x)
  ultimately show False
    using e none eligible_entry [OF ok, of i q u b]
    by (fastforce simp: close_matching_find find_None_iff)
qed

subsection \<open>Properties\<close>

text \<open>The answers \<open>late_amend\<close> gives to a run of protective events of one position.\<close>

primrec late_answers :: "int \<Rightarrow> levels list \<Rightarrow> OperationsInFlight \<Rightarrow> bool list" where
  "late_answers p [] ops = []"
| "late_answers p (lv # rest) ops =
     fst (late_amend p lv ops) # late_answers p rest (snd (late_amend p lv ops))"

lemma late_answers_run: "late_answers p lvs ops = in_flight.late_run p lvs ops"
  by (induction lvs arbitrary: ops) simp_all

text \<open>
  of the protective events that come after lost answers, exactly those are taken for the
  node's own amends that repeat the lost levels in order from the oldest one; from the first
  mismatch on, every further change is somebody else's.
\<close>
theorem late_answers_common_prefix:
  "late_answers p lvs ops =
     map (\<lambda>i. i < length (lost_queue p ops) \<and> take (Suc i) lvs = take (Suc i) (lost_queue p ops))
       [0..<length lvs]"
  unfolding late_answers_run by (rule in_flight.late_run_prefix)

text \<open>
  in every state the execution client can reach, the close a closing order is matched to is
  the one its answer named, and failing that the earliest sent of the closes in flight that have
  that size and position, no other answer and no later anchor; none is matched only if no such
  close is in flight.
\<close>
theorem closing_matches_earliest:
  assumes "operations_step\<^sup>*\<^sup>* no_operations ops"
  shows "case closing p v c o1 ops of
      None \<Rightarrow> o1 \<notin> ran (map_of (answers ops)) \<and> (\<forall>i. \<not> eligible p v c ops i)
    | Some i \<Rightarrow> map_of (closes ops) i \<noteq> None \<and>
        (map_of (answers ops) i = Some o1 \<or>
         o1 \<notin> ran (map_of (answers ops)) \<and> eligible p v c ops i \<and>
         (\<exists>before x after. closes ops = before @ (i, x) # after \<and>
            (\<forall>j \<in> fst ` set before. \<not> eligible p v c ops j)))"
proof -
  have ok: "operations_ok ops" by (rule operations_reachable_ok [OF assms])
  show ?thesis
  proof (cases "answer_naming o1 (answers ops)")
    case (Some i)
    with ok have "map_of (answers ops) i = Some o1"
      by (simp add: answer_naming_Some flip: answers_entry)
    with Some ok show ?thesis by (auto simp: closing_def operations_ok_def)
  next
    case None
    then have "o1 \<notin> ran (map_of (answers ops))"
      by (force simp: answer_naming_None ran_def dest: map_of_SomeD)
    with None close_matching_eligible [OF ok, of p v c] close_matching_none [OF ok, of p v c]
    show ?thesis by (auto simp: closing_def eligible_def split: option.split)
  qed
qed

theorem closing_matches_earliest_witness:
  "closing 7 100 50 9 (begin_close ''A'' 7 100 20 no_operations) = Some ''A'' \<and>
   eligible 7 100 50 (begin_close ''A'' 7 100 20 no_operations) ''A''"
proof -
  let ?ops = "begin_close ''A'' 7 100 20 no_operations"
  have "operations_step\<^sup>*\<^sup>* no_operations ?ops" by (blast intro: operations_step.intros)
  from closing_matches_earliest [OF this, where p = 7 and v = 100 and c = 50 and ?o1.0 = 9]
  show ?thesis by (simp add: closing_def begin_close_def no_operations_def)
qed

end
