(* ===== verification/Foreign_Legs.thy ===== *)
theory Foreign_Legs
  imports Venue_Records
begin

text \<open>
  \<open>common/foreign_legs.py\<close>: the levels of a position the node did not open, as external orders
  of Nautilus. \<open>ForeignPosition\<close> holds the fields of the protocol of that name; the venue book's
  position extends it. The callback \<open>held_closed\<close> asks Nautilus's cache, a finite collection: it
  is the list of the venue order ids the cache holds as closed orders, which is why the search
  for a free generation ends.

  Shown here: a simulation. Nautilus's side is a map from venue order ids to orders that refuses
  an event of an unknown or closed order, a second opening, a fill above the quantity and a
  quantity below what is filled; the records of every operation are accepted in order and lead
  to the orders the legs describe. And after a change of levels the live legs are the standing
  levels, each covering the whole protection.
\<close>

record ForeignLeg =
  fl_venue_order_id :: string
  fl_generation :: int
  fl_quantity :: int
  fl_alive :: bool
  fl_filled :: int

record ForeignPosition =
  position_id :: int
  p_symbol_id :: int
  p_side :: ProtoOATradeSide
  p_volume :: int
  entry_order_id :: "int option"
  p_levels :: levels
  foreign_legs :: "(Level, ForeignLeg) dict"
  entry_unknown_told :: bool
  protective_order_id :: "int option"
  protective_volume :: int
  protective_opened_ms :: "int option"
  entry_filled_ms :: "int option"

definition opposite :: "ProtoOATradeSide \<Rightarrow> ProtoOATradeSide" where
  "opposite side = (if side = BUY then SELL else BUY)"

definition foreign_leg ::
    "string \<Rightarrow> Level \<Rightarrow> int \<Rightarrow> int \<Rightarrow> ProtoOATradeSide \<Rightarrow> decimal \<Rightarrow> int \<Rightarrow> int \<Rightarrow> int \<Rightarrow> ExternalOrder"
  where
  "foreign_leg venue_order_id level symbol_id pos_id position_side price vol ts_ms accepted_ms =
     (case leg_prices level (Some price) of (limit, trigger) \<Rightarrow>
       \<lparr>xo_venue_order_id = venue_order_id, xo_symbol_id = symbol_id,
        xo_side = (if position_side = BUY then SELL else BUY),
        xo_order_type = (if level = STOP_LOSS then Ext_STOP_MARKET else Ext_LIMIT),
        xo_units = volume_to_units vol, xo_reduce_only = True,
        xo_venue_position_id = Some (int_text pos_id), xo_ts_ms = ts_ms,
        xo_price = limit, xo_trigger_price = trigger, xo_fills = [],
        xo_time_in_force = Some GOOD_TILL_CANCEL, xo_expire_ts_ms = None,
        xo_ts_accepted_ms = Some accepted_ms\<rparr>)"

definition rest :: "'a ForeignPosition_scheme \<Rightarrow> int" where
  "rest position =
     (case protective_order_id position of
        None \<Rightarrow> p_volume position
      | Some _ \<Rightarrow> protective_volume position)"

definition entry_unknown ::
    "'a ForeignPosition_scheme \<Rightarrow> 'a ForeignPosition_scheme \<times> Record list" where
  "entry_unknown position =
     (if p_levels position = no_levels \<or> entry_unknown_told position then (position, [])
      else (position\<lparr>entry_unknown_told := True\<rparr>, [R_EntryUnknown (position_id position)]))"

text \<open>The loop of \<open>_open\<close>: the first generation Nautilus does not hold closed.\<close>

lemma leg_text_inj: "inj (leg_text e l)"
proof (rule injI)
  fix g g' assume "leg_text e l g = leg_text e l g'"
  then show "g = g'" by (cases "g = 1"; cases "g' = 1") (simp_all add: leg_text_def)
qed

lemma closed_generations_finite: "finite {g. leg_text e l g \<in> set held_closed}"
  using finite_vimageI [OF finite_set leg_text_inj [of e l]] by (simp add: vimage_def)

lemma closed_generations_shrink:
  assumes "leg_text e l g \<in> set h"
  shows "card {g'. g + 1 \<le> g' \<and> leg_text e l g' \<in> set h} < card {g'. g \<le> g' \<and> leg_text e l g' \<in> set h}"
proof (rule psubset_card_mono)
  show "finite {g'. g \<le> g' \<and> leg_text e l g' \<in> set h}"
    by (rule finite_subset [OF _ closed_generations_finite]) auto
  have "g \<in> {g'. g \<le> g' \<and> leg_text e l g' \<in> set h}" using assms by simp
  moreover have "g \<notin> {g'. g + 1 \<le> g' \<and> leg_text e l g' \<in> set h}" by simp
  moreover have "{g'. g + 1 \<le> g' \<and> leg_text e l g' \<in> set h} \<subseteq> {g'. g \<le> g' \<and> leg_text e l g' \<in> set h}"
    by auto
  ultimately show
    "{g'. g + 1 \<le> g' \<and> leg_text e l g' \<in> set h} \<subset> {g'. g \<le> g' \<and> leg_text e l g' \<in> set h}"
    by blast
qed

function open_generation :: "string list \<Rightarrow> int \<Rightarrow> Level \<Rightarrow> int \<Rightarrow> int" where
  "open_generation held_closed entry level generation =
     (if leg_text entry level generation \<in> set held_closed
      then open_generation held_closed entry level (generation + 1)
      else generation)"
  by pat_completeness auto
termination
  by (relation "measure (\<lambda>(h, e, l, g). card {g'. g \<le> g' \<and> leg_text e l g' \<in> set h})")
    (simp_all add: closed_generations_shrink)

declare open_generation.simps [simp del]

text \<open>
  \<open>_open\<close>, for a position whose entry order is known. The generation starts at one and only
  grows, so \<open>leg_venue_order_id\<close> does not raise.
\<close>

definition open_leg ::
    "int \<Rightarrow> 'a ForeignPosition_scheme \<Rightarrow> Level \<Rightarrow> string list \<Rightarrow>
     'a ForeignPosition_scheme \<times> ForeignLeg" where
  "open_leg entry position level held_closed =
     (let last = map_of (foreign_legs position) level;
          first = (case last of None \<Rightarrow> 1 | Some leg \<Rightarrow> fl_generation leg + 1);
          generation = open_generation held_closed entry level first;
          leg = \<lparr>fl_venue_order_id = leg_text entry level generation, fl_generation = generation,
                 fl_quantity = rest position, fl_alive = True, fl_filled = 0\<rparr>
      in (position\<lparr>foreign_legs := AList.update level leg (foreign_legs position)\<rparr>, leg))"

definition accepted_ms_of :: "'a ForeignPosition_scheme \<Rightarrow> int \<Rightarrow> int" where
  "accepted_ms_of position ts =
     (case (protective_opened_ms position, entry_filled_ms position) of
        (None, None) \<Rightarrow> ts
      | (None, Some entry_filled) \<Rightarrow> entry_filled
      | (Some opened, None) \<Rightarrow> opened
      | (Some opened, Some entry_filled) \<Rightarrow> max opened entry_filled)"

definition new_leg ::
    "int \<Rightarrow> 'a ForeignPosition_scheme \<Rightarrow> Level \<Rightarrow> decimal \<Rightarrow> int \<Rightarrow> string list \<Rightarrow>
     'a ForeignPosition_scheme \<times> ExternalOrder" where
  "new_leg entry position level price ts held_closed =
     (case open_leg entry position level held_closed of (position, leg) \<Rightarrow>
      let accepted = accepted_ms_of position ts
      in (position,
          foreign_leg (fl_venue_order_id leg) level (p_symbol_id position) (position_id position)
            (p_side position) price (fl_quantity leg) (max ts accepted) accepted))"

definition resized :: "ForeignLeg \<Rightarrow> int \<Rightarrow> OrderEvent" where
  "resized leg ts =
     (plain_event Ev_UPDATED (Some (fl_venue_order_id leg)) None ts)
       \<lparr>oe_quantity := Some (volume_to_units (fl_quantity leg))\<rparr>"

definition moved :: "ForeignLeg \<Rightarrow> Level \<Rightarrow> decimal \<Rightarrow> int \<Rightarrow> OrderEvent" where
  "moved leg level price ts =
     (case leg_prices level (Some price) of (limit, trigger) \<Rightarrow>
       (plain_event Ev_UPDATED (Some (fl_venue_order_id leg)) None ts)
         \<lparr>oe_quantity := Some (volume_to_units (fl_quantity leg)),
          oe_price := limit, oe_trigger_price := trigger\<rparr>)"

definition canceled_leg :: "ForeignLeg \<Rightarrow> int \<Rightarrow> Record" where
  "canceled_leg leg ts = R_OrderEvent (plain_event Ev_CANCELED (Some (fl_venue_order_id leg)) None ts)"

text \<open>\<open>leg is None or not leg.alive\<close>, negated.\<close>

definition live_leg :: "'a ForeignPosition_scheme \<Rightarrow> Level \<Rightarrow> ForeignLeg option" where
  "live_leg position level =
     (case map_of (foreign_legs position) level of
        None \<Rightarrow> None
      | Some leg \<Rightarrow> if fl_alive leg then Some leg else None)"

definition open_level ::
    "int \<Rightarrow> string list \<Rightarrow> Level \<Rightarrow> 'a ForeignPosition_scheme \<Rightarrow> 'a ForeignPosition_scheme" where
  "open_level entry held_closed level position =
     (if level_get (p_levels position) level \<noteq> None \<and> live_leg position level = None
      then fst (open_leg entry position level held_closed) else position)"

definition open_legs ::
    "'a ForeignPosition_scheme \<Rightarrow> string list \<Rightarrow> 'a ForeignPosition_scheme \<times> Record list" where
  "open_legs position held_closed =
     (case entry_order_id position of
        None \<Rightarrow> entry_unknown position
      | Some entry \<Rightarrow> (fold (open_level entry held_closed) LEVELS position, []))"

text \<open>One turn of the first loop of \<open>level_changes\<close>.\<close>

definition level_change ::
    "int \<Rightarrow> levels \<Rightarrow> int \<Rightarrow> string list \<Rightarrow> Level \<Rightarrow> 'a ForeignPosition_scheme \<Rightarrow>
     'a ForeignPosition_scheme \<times> Record list" where
  "level_change entry old_levels ts held_closed level position =
     (let old = level_get old_levels level; new = level_get (p_levels position) level
      in case (new, live_leg position level) of
        (Some price, None) \<Rightarrow>
          (case new_leg entry position level price ts held_closed of
             (position, order) \<Rightarrow> (position, [R_ExternalOrder order]))
      | (None, Some leg) \<Rightarrow>
          (position\<lparr>foreign_legs :=
             AList.update level (leg\<lparr>fl_alive := False\<rparr>) (foreign_legs position)\<rparr>,
           [canceled_leg leg ts])
      | (Some price, Some leg) \<Rightarrow>
          (if new \<noteq> old then
             (let leg = leg\<lparr>fl_quantity := fl_filled leg + rest position\<rparr>
              in (position\<lparr>foreign_legs := AList.update level leg (foreign_legs position)\<rparr>,
                  [R_OrderEvent (moved leg level price ts)]))
           else (position, []))
      | (None, None) \<Rightarrow> (position, []))"

text \<open>A loop over \<open>foreign_legs.values()\<close>, in the order the legs were opened.\<close>

fun each_leg ::
    "(ForeignLeg \<Rightarrow> ForeignLeg \<times> Record list) \<Rightarrow> (Level, ForeignLeg) dict \<Rightarrow>
     (Level, ForeignLeg) dict \<times> Record list" where
  "each_leg f [] = ([], [])"
| "each_leg f ((level, leg) # legs) =
     (case f leg of (leg, records) \<Rightarrow>
      case each_leg f legs of (legs, more_records) \<Rightarrow>
        ((level, leg) # legs, records @ more_records))"

text \<open>One turn of the second loop of \<open>level_changes\<close>.\<close>

definition resize_leg :: "int \<Rightarrow> int \<Rightarrow> ForeignLeg \<Rightarrow> ForeignLeg \<times> Record list" where
  "resize_leg covered ts leg =
     (let quantity = fl_filled leg + covered
      in if fl_alive leg \<and> fl_quantity leg \<noteq> quantity
         then (let leg = leg\<lparr>fl_quantity := quantity\<rparr> in (leg, [R_OrderEvent (resized leg ts)]))
         else (leg, []))"

definition level_changes ::
    "'a ForeignPosition_scheme \<Rightarrow> levels \<Rightarrow> int \<Rightarrow> string list \<Rightarrow>
     'a ForeignPosition_scheme \<times> Record list" where
  "level_changes position old_levels ts held_closed =
     (case entry_order_id position of
        None \<Rightarrow> entry_unknown position
      | Some entry \<Rightarrow>
         (case level_change entry old_levels ts held_closed STOP_LOSS position of
            (position, stop_loss_records) \<Rightarrow>
          (case level_change entry old_levels ts held_closed TAKE_PROFIT position of
            (position, take_profit_records) \<Rightarrow>
          (case each_leg (resize_leg (rest position) ts) (foreign_legs position) of
            (legs, resize_records) \<Rightarrow>
            (position\<lparr>foreign_legs := legs\<rparr>,
             stop_loss_records @ take_profit_records @ resize_records)))))"

definition filled :: "ForeignLeg \<Rightarrow> int \<Rightarrow> Fill \<Rightarrow> ForeignLeg \<times> Record list" where
  "filled leg vol fill =
     (let (leg, records) =
        (if fl_filled leg + vol > fl_quantity leg then
           (let leg = leg\<lparr>fl_quantity := fl_filled leg + vol\<rparr>
            in (leg, [R_OrderEvent (resized leg (fill_ts_ms fill))]))
         else (leg, []));
          event = (plain_event Ev_FILLED (Some (fl_venue_order_id leg)) None (fill_ts_ms fill))
                    \<lparr>oe_fill := Some fill\<rparr>;
          leg = leg\<lparr>fl_filled := fl_filled leg + vol\<rparr>
      in (if fl_filled leg \<ge> fl_quantity leg then leg\<lparr>fl_alive := False\<rparr> else leg,
          records @ [R_OrderEvent event]))"

definition cancel_leg :: "int \<Rightarrow> ForeignLeg \<Rightarrow> ForeignLeg \<times> Record list" where
  "cancel_leg ts leg =
     (if fl_alive leg then (leg\<lparr>fl_alive := False\<rparr>, [canceled_leg leg ts]) else (leg, []))"

definition cancel_all ::
    "'a ForeignPosition_scheme \<Rightarrow> int \<Rightarrow> 'a ForeignPosition_scheme \<times> Record list" where
  "cancel_all position ts =
     (case each_leg (cancel_leg ts) (foreign_legs position) of (legs, records) \<Rightarrow>
       (position\<lparr>foreign_legs := legs\<rparr>, records))"

subsection \<open>Nautilus's side\<close>

text \<open>
  What the execution client's records do to the orders Nautilus holds. None is a record that
  Nautilus cannot take: an order opened twice, an event of an order it does not hold open, a
  fill above the order's quantity, a quantity below what is filled.
\<close>

record CachedOrder =
  co_quantity :: decimal
  co_filled :: decimal
  co_open :: bool

type_synonym cache = "string \<Rightarrow> CachedOrder option"

definition order_event :: "OrderEvent \<Rightarrow> CachedOrder \<Rightarrow> CachedOrder option" where
  "order_event event order =
     (if \<not> co_open order then None
      else case oe_kind event of
        Ev_FILLED \<Rightarrow>
          (case oe_fill event of
             None \<Rightarrow> None
           | Some fill \<Rightarrow>
              (let done = co_filled order + fill_units fill
               in if co_quantity order < done then None
                  else Some (order\<lparr>co_filled := done, co_open := done < co_quantity order\<rparr>)))
      | Ev_UPDATED \<Rightarrow>
          (case oe_quantity event of
             None \<Rightarrow> Some order
           | Some q \<Rightarrow> if q < co_filled order then None else Some (order\<lparr>co_quantity := q\<rparr>))
      | Ev_ACCEPTED \<Rightarrow> Some order
      | _ \<Rightarrow> Some (order\<lparr>co_open := False\<rparr>))"

definition cache_step :: "Record \<Rightarrow> cache \<Rightarrow> cache option" where
  "cache_step r cache =
     (case r of
        R_ExternalOrder x \<Rightarrow>
          (let done = sum_list (map fill_units (xo_fills x))
           in if cache (xo_venue_order_id x) \<noteq> None then None
              else Some (cache(xo_venue_order_id x \<mapsto>
                \<lparr>co_quantity = xo_units x, co_filled = done,
                 co_open = (xo_fills x = [] \<or> done < xo_units x)\<rparr>)))
      | R_OrderEvent event \<Rightarrow>
          (case oe_venue_order_id event of
             None \<Rightarrow> Some cache
           | Some i \<Rightarrow>
              (case cache i of
                 None \<Rightarrow> None
               | Some order \<Rightarrow> map_option (\<lambda>order. cache(i \<mapsto> order)) (order_event event order)))
      | _ \<Rightarrow> Some cache)"

primrec feed :: "Record list \<Rightarrow> cache \<Rightarrow> cache option" where
  "feed [] cache = Some cache"
| "feed (r # rs) cache = Option.bind (cache_step r cache) (feed rs)"

lemma feed_append: "feed (rs @ ss) c = Option.bind (feed rs c) (feed ss)"
proof (induction rs arbitrary: c)
  case (Cons r rs)
  then show ?case by (cases "cache_step r c") simp_all
qed simp

subsection \<open>Legs and the orders they describe\<close>

definition leg_ok :: "ForeignLeg \<Rightarrow> bool" where
  "leg_ok leg \<longleftrightarrow> 0 \<le> fl_filled leg \<and> fl_filled leg \<le> fl_quantity leg"

definition view_of :: "ForeignLeg \<Rightarrow> CachedOrder" where
  "view_of leg = \<lparr>co_quantity = volume_to_units (fl_quantity leg),
     co_filled = volume_to_units (fl_filled leg), co_open = fl_alive leg\<rparr>"

definition next_generation :: "(Level, ForeignLeg) dict \<Rightarrow> Level \<Rightarrow> int" where
  "next_generation legs level =
     (case map_of legs level of None \<Rightarrow> 1 | Some leg \<Rightarrow> fl_generation leg + 1)"

definition legs_ok :: "int \<Rightarrow> (Level, ForeignLeg) dict \<Rightarrow> bool" where
  "legs_ok entry legs \<longleftrightarrow>
     distinct (map fst legs) \<and>
     (\<forall>level leg. map_of legs level = Some leg \<longrightarrow>
        leg_ok leg \<and> 1 \<le> fl_generation leg \<and>
        fl_venue_order_id leg = leg_text entry level (fl_generation leg))"

definition mirrors :: "int \<Rightarrow> string list \<Rightarrow> (Level, ForeignLeg) dict \<Rightarrow> cache \<Rightarrow> bool" where
  "mirrors entry held_closed legs cache \<longleftrightarrow>
     legs_ok entry legs \<and>
     (\<forall>level leg. map_of legs level = Some leg \<longrightarrow>
        cache (fl_venue_order_id leg) = Some (view_of leg)) \<and>
     (\<forall>level g. next_generation legs level \<le> g \<and> leg_text entry level g \<in> dom cache \<longrightarrow>
        leg_text entry level g \<in> set held_closed)"

lemma volume_to_units_less [simp]: "volume_to_units a < volume_to_units b \<longleftrightarrow> a < b"
  by (simp add: volume_to_units_def)

lemma volume_to_units_add: "volume_to_units a + volume_to_units b = volume_to_units (a + b)"
  by (simp add: volume_to_units_def add_divide_distrib)

lemma leg_text_level [simp]: "leg_text e l g = leg_text e l' g' \<longleftrightarrow> l = l' \<and> g = g'"
proof
  assume a: "leg_text e l g = leg_text e l' g'"
  then have "l = l'" by (cases l; cases l') (simp_all add: leg_text_def)
  with a show "l = l' \<and> g = g'" using leg_text_inj [of e l] by (auto dest: injD)
qed simp

lemma open_generation_free:
  "leg_text e l (open_generation h e l g) \<notin> set h \<and> g \<le> open_generation h e l g"
  by (induction h e l g rule: open_generation.induct)
    (subst (1 2) open_generation.simps, auto)

lemma mirrors_leg:
  assumes "mirrors e h legs c" and "map_of legs l = Some leg"
  shows "leg_ok leg" "1 \<le> fl_generation leg" "fl_venue_order_id leg = leg_text e l (fl_generation leg)"
    "c (fl_venue_order_id leg) = Some (view_of leg)"
  using assms unfolding mirrors_def legs_ok_def by blast+

subsection \<open>Operations on one leg\<close>

text \<open>
  The contract of an operation on one leg: it keeps the leg's name and generation, and its
  records lead Nautilus's order to the one the changed leg describes.
\<close>

locale leg_operation =
  fixes operation :: "ForeignLeg \<Rightarrow> ForeignLeg \<times> Record list"
    and ready :: "ForeignLeg \<Rightarrow> bool"
  assumes same_id: "fl_venue_order_id (fst (operation leg)) = fl_venue_order_id leg"
    and same_generation: "fl_generation (fst (operation leg)) = fl_generation leg"
    and stays_ok: "leg_ok leg \<Longrightarrow> ready leg \<Longrightarrow> leg_ok (fst (operation leg))"
    and told: "leg_ok leg \<Longrightarrow> ready leg \<Longrightarrow> cache (fl_venue_order_id leg) = Some (view_of leg) \<Longrightarrow>
      feed (snd (operation leg)) cache =
        Some (cache(fl_venue_order_id leg \<mapsto> view_of (fst (operation leg))))"
begin

lemma one_leg:
  assumes m: "mirrors e h legs c" and leg: "map_of legs level = Some leg" "ready leg"
  shows "\<exists>c'. feed (snd (operation leg)) c = Some c' \<and>
    mirrors e h (AList.update level (fst (operation leg)) legs) c'"
proof -
  let ?leg = "fst (operation leg)" and ?c = "c(fl_venue_order_id leg \<mapsto> view_of (fst (operation leg)))"
  from m leg have ok: "leg_ok leg" and id: "fl_venue_order_id leg = leg_text e level (fl_generation leg)"
    and view: "c (fl_venue_order_id leg) = Some (view_of leg)"
    by (auto simp: mirrors_def legs_ok_def)
  have "legs_ok e (AList.update level ?leg legs)"
    using m leg ok by (auto simp: mirrors_def legs_ok_def dict_simps same_id same_generation stays_ok)
  moreover have "next_generation (AList.update level ?leg legs) l = next_generation legs l" for l
    using leg by (simp add: next_generation_def map_of_update same_generation)
  moreover have "?c (fl_venue_order_id leg') = Some (view_of leg')"
    if "map_of (AList.update level ?leg legs) l = Some leg'" for l leg'
    using that m leg by (auto simp: mirrors_def legs_ok_def map_of_update same_id split: if_splits)
  moreover have "dom ?c = dom c" using view by auto
  ultimately have "mirrors e h (AList.update level ?leg legs) ?c"
    using m unfolding mirrors_def by simp
  with told [of leg c, OF ok leg(2) view] show ?thesis by blast
qed

lemma each_views:
  assumes "distinct (map (fl_venue_order_id \<circ> snd) legs)"
    and "\<forall>x \<in> set legs. leg_ok (snd x) \<and> ready (snd x) \<and>
      c (fl_venue_order_id (snd x)) = Some (view_of (snd x))"
  shows "\<exists>c'. feed (snd (each_leg operation legs)) c = Some c' \<and>
    (\<forall>x \<in> set legs. c' (fl_venue_order_id (snd x)) = Some (view_of (fst (operation (snd x))))) \<and>
    (\<forall>i. i \<notin> (fl_venue_order_id \<circ> snd) ` set legs \<longrightarrow> c' i = c i)"
  using assms
proof (induction legs arbitrary: c)
  case (Cons x legs)
  obtain level leg where x: "x = (level, leg)" by force
  let ?c = "c(fl_venue_order_id leg \<mapsto> view_of (fst (operation leg)))"
  have step: "feed (snd (operation leg)) c = Some ?c"
    using Cons.prems(2) x by (intro told) auto
  have fresh: "fl_venue_order_id (snd y) \<noteq> fl_venue_order_id leg" if "y \<in> set legs" for y
    using Cons.prems(1) x that by (force simp: image_iff)
  have "\<forall>y \<in> set legs. leg_ok (snd y) \<and> ready (snd y) \<and>
      ?c (fl_venue_order_id (snd y)) = Some (view_of (snd y))"
    using Cons.prems(2) fresh by simp
  moreover have "distinct (map (fl_venue_order_id \<circ> snd) legs)"
    using Cons.prems(1) by (simp add: comp_def)
  ultimately obtain c' where c':
    "feed (snd (each_leg operation legs)) ?c = Some c'"
    "\<forall>y \<in> set legs. c' (fl_venue_order_id (snd y)) = Some (view_of (fst (operation (snd y))))"
    "\<forall>i. i \<notin> (fl_venue_order_id \<circ> snd) ` set legs \<longrightarrow> c' i = ?c i"
    using Cons.IH [of ?c] by blast
  have "feed (snd (each_leg operation (x # legs))) c = Some c'"
    using step c'(1) by (cases "operation leg"; cases "each_leg operation legs") (simp add: x feed_append)
  moreover have "fl_venue_order_id leg \<notin> (fl_venue_order_id \<circ> snd) ` set legs"
    using fresh by force
  then have "c' (fl_venue_order_id leg) = Some (view_of (fst (operation leg)))"
    using c'(3) by simp
  ultimately show ?case using c'(2,3) x by simp
qed simp

lemma map_of_each: "map_of (fst (each_leg operation legs)) l = map_option (fst \<circ> operation) (map_of legs l)"
  by (induction operation legs rule: each_leg.induct) (auto split: prod.splits)

lemma keys_each: "map fst (fst (each_leg operation legs)) = map fst legs"
  by (induction operation legs rule: each_leg.induct) (auto split: prod.splits)

lemma legs_names_distinct:
  assumes "legs_ok e legs"
  shows "distinct (map (fl_venue_order_id \<circ> snd) legs)"
proof -
  have keys: "distinct (map fst legs)" using assms by (simp add: legs_ok_def)
  have "inj_on (fl_venue_order_id \<circ> snd) (set legs)"
  proof (rule inj_onI)
    fix x y
    assume in_legs: "x \<in> set legs" "y \<in> set legs"
      and same: "(fl_venue_order_id \<circ> snd) x = (fl_venue_order_id \<circ> snd) y"
    then have m: "map_of legs (fst x) = Some (snd x)" "map_of legs (fst y) = Some (snd y)"
      using keys by simp_all
    from m [THEN assms [unfolded legs_ok_def, THEN conjunct2, rule_format]] same
    have "fst x = fst y" by simp
    with m show "x = y" by (simp add: prod_eq_iff)
  qed
  with keys show ?thesis by (simp add: distinct_map)
qed

lemma all_legs:
  assumes m: "mirrors e h legs c" and all: "\<And>leg. ready leg"
  shows "\<exists>c'. feed (snd (each_leg operation legs)) c = Some c' \<and>
    mirrors e h (fst (each_leg operation legs)) c'"
proof -
  have ok: "legs_ok e legs" using m by (simp add: mirrors_def)
  have entry: "x \<in> set legs \<longleftrightarrow> map_of legs (fst x) = Some (snd x)" for x
    using ok by (simp add: legs_ok_def map_of_eq_Some_iff)
  have "\<forall>x \<in> set legs. leg_ok (snd x) \<and> ready (snd x) \<and>
      c (fl_venue_order_id (snd x)) = Some (view_of (snd x))"
  proof
    fix x assume "x \<in> set legs"
    then have "map_of legs (fst x) = Some (snd x)" by (simp only: entry)
    with all show "leg_ok (snd x) \<and> ready (snd x) \<and>
        c (fl_venue_order_id (snd x)) = Some (view_of (snd x))"
      using mirrors_leg [OF m] by blast
  qed
  from each_views [OF legs_names_distinct [OF ok] this] obtain c' where
    fed: "feed (snd (each_leg operation legs)) c = Some c'"
    and views: "\<forall>x \<in> set legs.
      c' (fl_venue_order_id (snd x)) = Some (view_of (fst (operation (snd x))))"
    and others: "\<forall>i. i \<notin> (fl_venue_order_id \<circ> snd) ` set legs \<longrightarrow> c' i = c i"
    by blast
  have "i \<in> dom c' \<longleftrightarrow> i \<in> dom c" for i
  proof (cases "i \<in> (fl_venue_order_id \<circ> snd) ` set legs")
    case True
    then obtain x where "x \<in> set legs" "i = fl_venue_order_id (snd x)" by auto
    with views m entry [of x] show ?thesis by (auto simp: mirrors_def)
  qed (use others in auto)
  then have "dom c' = dom c" by blast
  moreover have "next_generation (fst (each_leg operation legs)) = next_generation legs"
    by (simp add: next_generation_def map_of_each fun_eq_iff same_generation split: option.split)
  moreover have "legs_ok e (fst (each_leg operation legs))"
    using ok all
    by (auto simp: legs_ok_def map_of_each keys_each same_id same_generation stays_ok)
  moreover have "c' (fl_venue_order_id leg) = Some (view_of leg)"
    if "map_of (fst (each_leg operation legs)) l = Some leg" for l leg
  proof -
    from that obtain old where "map_of legs l = Some old" "leg = fst (operation old)"
      by (auto simp: map_of_each)
    with views entry [of "(l, old)"] show ?thesis by (auto simp: same_id)
  qed
  ultimately have "mirrors e h (fst (each_leg operation legs)) c'"
    using m unfolding mirrors_def by simp
  with fed show ?thesis by blast
qed

end

text \<open>A move of a live leg, as \<open>level_changes\<close> does it.\<close>

definition move_leg :: "Level \<Rightarrow> decimal \<Rightarrow> int \<Rightarrow> int \<Rightarrow> ForeignLeg \<Rightarrow> ForeignLeg \<times> Record list" where
  "move_leg level price covered ts leg =
     (let leg = leg\<lparr>fl_quantity := fl_filled leg + covered\<rparr>
      in (leg, [R_OrderEvent (moved leg level price ts)]))"

lemmas leg_event_defs =
  resize_leg_def cancel_leg_def move_leg_def filled_def resized_def moved_def canceled_leg_def
  plain_event_def leg_prices_def cache_step_def order_event_def view_of_def leg_ok_def Let_def

interpretation resize: leg_operation "resize_leg covered ts" "\<lambda>_. 0 \<le> covered" for covered ts
  by unfold_locales (auto simp: leg_event_defs fun_upd_idem split: if_splits)

interpretation cancel: leg_operation "cancel_leg ts" "\<lambda>_. True" for ts
  by unfold_locales (auto simp: leg_event_defs fun_upd_idem split: if_splits)

interpretation move: leg_operation "move_leg level price covered ts" "\<lambda>leg. fl_alive leg \<and> 0 \<le> covered"
  for level price covered ts
  by unfold_locales (auto simp: leg_event_defs)

interpretation fill: leg_operation "\<lambda>leg. filled leg vol fill"
    "\<lambda>leg. fl_alive leg \<and> 0 < vol \<and> fill_units fill = volume_to_units vol" for vol fill
  by unfold_locales
    (auto simp: leg_event_defs volume_to_units_add split: if_splits)

subsection \<open>Changes of levels\<close>

text \<open>A new leg: its name is one Nautilus has never held.\<close>

lemma next_generation_update:
  "next_generation (AList.update level leg legs) l =
     (if l = level then fl_generation leg + 1 else next_generation legs l)"
  by (simp add: next_generation_def map_of_update)

lemma next_generation_pos: "legs_ok e legs \<Longrightarrow> 1 \<le> next_generation legs l"
  by (fastforce simp: next_generation_def legs_ok_def split: option.split)

lemma new_leg_told:
  assumes m: "mirrors e h (foreign_legs p) c" and covered: "0 \<le> rest p"
    and new: "new_leg e p level price ts h = (p', order)"
  shows "\<exists>c'. feed [R_ExternalOrder order] c = Some c' \<and> mirrors e h (foreign_legs p') c'"
proof -
  define g where "g = open_generation h e level (next_generation (foreign_legs p) level)"
  define leg where "leg = \<lparr>fl_venue_order_id = leg_text e level g, fl_generation = g,
    fl_quantity = rest p, fl_alive = True, fl_filled = 0\<rparr>"
  have ok: "legs_ok e (foreign_legs p)" using m by (simp add: mirrors_def)
  have g: "leg_text e level g \<notin> set h" "next_generation (foreign_legs p) level \<le> g"
    using open_generation_free [of e level h "next_generation (foreign_legs p) level"]
    by (simp_all add: g_def)
  have pos: "1 \<le> g" using g(2) next_generation_pos [OF ok, of level] by simp
  from new have legs: "foreign_legs p' = AList.update level leg (foreign_legs p)"
    and order: "xo_venue_order_id order = leg_text e level g" "xo_units order = volume_to_units (rest p)"
      "xo_fills order = []"
    by (auto simp: new_leg_def open_leg_def Let_def leg_def g_def next_generation_def foreign_leg_def
        leg_prices_def split: if_splits)
  have fresh: "c (leg_text e level g) = None"
    using m g by (auto simp: mirrors_def dom_def)
  let ?c = "c(leg_text e level g \<mapsto> view_of leg)"
  have "feed [R_ExternalOrder order] c = Some ?c"
    using fresh by (simp add: cache_step_def order leg_def view_of_def volume_to_units_def)
  moreover have "legs_ok e (AList.update level leg (foreign_legs p))"
    using ok covered pos by (auto simp: legs_ok_def dict_simps leg_ok_def leg_def)
  moreover have "?c (fl_venue_order_id leg') = Some (view_of leg')"
    if "map_of (AList.update level leg (foreign_legs p)) l = Some leg'" for l leg'
    using that mirrors_leg [OF m, of l leg']
    by (cases "l = level") (auto simp: map_of_update leg_def)
  moreover have "leg_text e l k \<in> set h"
    if "next_generation (AList.update level leg (foreign_legs p)) l \<le> k" "leg_text e l k \<in> dom ?c" for l k
    using that m g(2) by (cases "l = level") (auto simp: next_generation_update mirrors_def leg_def)
  ultimately show ?thesis unfolding legs by (auto simp: mirrors_def)
qed

lemma level_change_told:
  assumes m: "mirrors e h (foreign_legs p) c" and covered: "0 \<le> rest p"
    and change: "level_change e old ts h level p = (p', records)"
  shows "\<exists>c'. feed records c = Some c' \<and> mirrors e h (foreign_legs p') c'"
proof (cases "live_leg p level")
  case None
  show ?thesis
  proof (cases "level_get (p_levels p) level")
    case None
    with \<open>live_leg p level = None\<close> change m show ?thesis by (simp add: level_change_def)
  next
    case (Some price)
    obtain q order where "new_leg e p level price ts h = (q, order)" by force
    with new_leg_told [OF m covered this] Some \<open>live_leg p level = None\<close> change
    show ?thesis by (auto simp: level_change_def simp del: feed.simps)
  qed
next
  case (Some leg)
  then have leg: "map_of (foreign_legs p) level = Some leg" "fl_alive leg"
    by (auto simp: live_leg_def split: option.splits if_splits)
  show ?thesis
  proof (cases "level_get (p_levels p) level")
    case None
    with cancel.one_leg [OF m leg(1), of ts] leg(2) Some change show ?thesis
      by (auto simp: level_change_def cancel_leg_def)
  next
    case (Some price)
    with move.one_leg [OF m leg(1), of "rest p" level price ts] leg(2) covered m
      \<open>live_leg p level = Some leg\<close> change
    show ?thesis
      by (auto simp: level_change_def move_leg_def Let_def split: if_splits)
  qed
qed

text \<open>What a change of one level leaves alone.\<close>

lemma level_change_frame:
  assumes "level_change e old ts h level p = (p', records)"
  shows "p' = p\<lparr>foreign_legs := foreign_legs p'\<rparr>"
    and "l \<noteq> level \<Longrightarrow> map_of (foreign_legs p') l = map_of (foreign_legs p) l"
    and "live_leg p' level \<noteq> None \<longleftrightarrow> level_get (p_levels p) level \<noteq> None"
  using assms
  by (auto simp: level_change_def new_leg_def open_leg_def live_leg_def Let_def map_of_update
      split: option.splits prod.splits if_splits)

lemma rest_foreign_legs [simp]: "rest (p\<lparr>foreign_legs := legs\<rparr>) = rest p"
  by (simp add: rest_def split: option.split)

lemma level_change_other:
  assumes "level_change e old ts h level p = (p', records)"
  shows "p_levels p' = p_levels p" "rest p' = rest p" "entry_order_id p' = entry_order_id p"
  using arg_cong [OF level_change_frame(1) [OF assms], of p_levels]
    arg_cong [OF level_change_frame(1) [OF assms], of rest]
    arg_cong [OF level_change_frame(1) [OF assms], of entry_order_id]
  by simp_all

text \<open>The two level changes and the resizing of \<open>level_changes\<close>, taken apart.\<close>

lemma level_changes_parts:
  assumes "entry_order_id p = Some e"
  obtains p1 r1 p2 r2 where
    "level_change e old ts h STOP_LOSS p = (p1, r1)"
    "level_change e old ts h TAKE_PROFIT p1 = (p2, r2)"
    "level_changes p old ts h =
       (p2\<lparr>foreign_legs := fst (each_leg (resize_leg (rest p2) ts) (foreign_legs p2))\<rparr>,
        r1 @ r2 @ snd (each_leg (resize_leg (rest p2) ts) (foreign_legs p2)))"
    "rest p2 = rest p" "p_levels p2 = p_levels p"
proof -
  obtain p1 r1 where p1: "level_change e old ts h STOP_LOSS p = (p1, r1)" by force
  obtain p2 r2 where p2: "level_change e old ts h TAKE_PROFIT p1 = (p2, r2)" by force
  have "level_changes p old ts h =
       (p2\<lparr>foreign_legs := fst (each_leg (resize_leg (rest p2) ts) (foreign_legs p2))\<rparr>,
        r1 @ r2 @ snd (each_leg (resize_leg (rest p2) ts) (foreign_legs p2)))"
    using assms by (simp add: level_changes_def p1 p2 split: prod.split)
  with p1 p2 that show thesis by (simp add: level_change_other [OF p1] level_change_other [OF p2])
qed

lemma level_changes_told:
  assumes entry: "entry_order_id p = Some e" and m: "mirrors e h (foreign_legs p) c"
    and covered: "0 \<le> rest p"
  shows "\<exists>c'. feed (snd (level_changes p old ts h)) c = Some c' \<and>
    mirrors e h (foreign_legs (fst (level_changes p old ts h))) c'"
proof -
  obtain p1 r1 p2 r2 where p1: "level_change e old ts h STOP_LOSS p = (p1, r1)"
    and p2: "level_change e old ts h TAKE_PROFIT p1 = (p2, r2)"
    and all: "level_changes p old ts h =
       (p2\<lparr>foreign_legs := fst (each_leg (resize_leg (rest p2) ts) (foreign_legs p2))\<rparr>,
        r1 @ r2 @ snd (each_leg (resize_leg (rest p2) ts) (foreign_legs p2)))"
    and r: "rest p2 = rest p"
    using level_changes_parts [OF entry] by metis
  obtain c1 where c1: "feed r1 c = Some c1" "mirrors e h (foreign_legs p1) c1"
    using level_change_told [OF m covered p1] by blast
  moreover obtain c2 where c2: "feed r2 c1 = Some c2" "mirrors e h (foreign_legs p2) c2"
    using level_change_told [OF c1(2) _ p2] level_change_other [OF p1] covered by auto
  moreover note resize.all_legs [OF c2(2), of "rest p2" ts]
  ultimately show ?thesis using covered r by (auto simp: all feed_append)
qed

lemma level_changes_cover:
  assumes entry: "entry_order_id p = Some e"
  shows "live_leg (fst (level_changes p old ts h)) level \<noteq> None \<longleftrightarrow>
      level_get (p_levels p) level \<noteq> None"
    and "live_leg (fst (level_changes p old ts h)) level = Some leg \<Longrightarrow>
      fl_quantity leg = fl_filled leg + rest p"
proof -
  obtain p1 r1 p2 r2 where p1: "level_change e old ts h STOP_LOSS p = (p1, r1)"
    and p2: "level_change e old ts h TAKE_PROFIT p1 = (p2, r2)"
    and all: "level_changes p old ts h =
       (p2\<lparr>foreign_legs := fst (each_leg (resize_leg (rest p2) ts) (foreign_legs p2))\<rparr>,
        r1 @ r2 @ snd (each_leg (resize_leg (rest p2) ts) (foreign_legs p2)))"
    and same: "rest p2 = rest p" "p_levels p2 = p_levels p"
    using level_changes_parts [OF entry] by metis
  have alive: "fl_alive (fst (resize_leg k ts leg)) = fl_alive leg"
    and quantity: "fl_alive leg \<Longrightarrow> fl_quantity (fst (resize_leg k ts leg))
      = fl_filled (fst (resize_leg k ts leg)) + k" for k leg
    by (auto simp: resize_leg_def Let_def)
  have live: "live_leg (fst (level_changes p old ts h)) level =
      map_option (fst \<circ> resize_leg (rest p) ts) (live_leg p2 level)"
    by (auto simp: all live_leg_def resize.map_of_each same alive split: option.splits)
  have "live_leg p2 STOP_LOSS = live_leg p1 STOP_LOSS"
    using level_change_frame(2) [OF p2, of STOP_LOSS] by (simp add: live_leg_def)
  then have "live_leg p2 level \<noteq> None \<longleftrightarrow> level_get (p_levels p) level \<noteq> None"
    using level_change_frame(3) [OF p1] level_change_frame(3) [OF p2] level_change_other [OF p1]
    by (cases level) auto
  then show "live_leg (fst (level_changes p old ts h)) level \<noteq> None \<longleftrightarrow>
      level_get (p_levels p) level \<noteq> None"
    by (simp add: live)
  assume "live_leg (fst (level_changes p old ts h)) level = Some leg"
  then obtain old_leg where "live_leg p2 level = Some old_leg"
    and leg: "leg = fst (resize_leg (rest p) ts old_leg)"
    by (auto simp: live)
  then have "fl_alive old_leg" by (auto simp: live_leg_def split: option.splits if_splits)
  then show "fl_quantity leg = fl_filled leg + rest p" by (simp add: leg quantity)
qed

subsection \<open>Runs\<close>

text \<open>
  A run of the rules on one foreign position whose entry order is \<open>e\<close>: between the rules the
  position's other fields may change, and Nautilus may come to hold more orders closed.
\<close>

inductive foreign_run ::
    "int \<Rightarrow> string list \<Rightarrow> ForeignPosition \<Rightarrow> Record list \<Rightarrow> string list \<Rightarrow> ForeignPosition \<Rightarrow> bool"
  for e :: int where
  start: "foreign_run e h p [] h p"
| other: "foreign_run e h p rs h' p' \<Longrightarrow> set h' \<subseteq> set h'' \<Longrightarrow> foreign_legs p'' = foreign_legs p' \<Longrightarrow>
    foreign_run e h p rs h'' p''"
| changed: "foreign_run e h p rs h' p' \<Longrightarrow> entry_order_id p' = Some e \<Longrightarrow> 0 \<le> rest p' \<Longrightarrow>
    foreign_run e h p (rs @ snd (level_changes p' old ts h')) h' (fst (level_changes p' old ts h'))"
| filled: "foreign_run e h p rs h' p' \<Longrightarrow> live_leg p' level = Some leg \<Longrightarrow> 0 < vol \<Longrightarrow>
    fill_units f = volume_to_units vol \<Longrightarrow>
    foreign_run e h p (rs @ snd (filled leg vol f)) h'
      (p'\<lparr>foreign_legs := AList.update level (fst (filled leg vol f)) (foreign_legs p')\<rparr>)"
| closed: "foreign_run e h p rs h' p' \<Longrightarrow>
    foreign_run e h p (rs @ snd (cancel_all p' ts)) h' (fst (cancel_all p' ts))"

lemma cancel_all_parts:
  "cancel_all p ts = (p\<lparr>foreign_legs := fst (each_leg (cancel_leg ts) (foreign_legs p))\<rparr>,
     snd (each_leg (cancel_leg ts) (foreign_legs p)))"
  by (simp add: cancel_all_def split: prod.split)

lemma mirrors_mono: "mirrors e h legs c \<Longrightarrow> set h \<subseteq> set h' \<Longrightarrow> mirrors e h' legs c"
  unfolding mirrors_def by blast

lemma foreign_run_told:
  assumes "foreign_run e h p rs h' p'" and "mirrors e h (foreign_legs p) c"
  shows "\<exists>c'. feed rs c = Some c' \<and> mirrors e h' (foreign_legs p') c'"
  using assms
proof (induction rule: foreign_run.induct)
  case (other h p rs h' p' h'' p'')
  then show ?case by (auto intro: mirrors_mono)
next
  case (changed h p rs h' p' old ts)
  then obtain c' where "feed rs c = Some c'" "mirrors e h' (foreign_legs p') c'" by blast
  with changed level_changes_told [of p' e h' c' old ts] show ?case by (simp add: feed_append)
next
  case (filled h p rs h' p' level leg vol f)
  then have "map_of (foreign_legs p') level = Some leg" "fl_alive leg"
    by (auto simp: live_leg_def split: option.splits if_splits)
  with filled fill.one_leg [of e h' "foreign_legs p'" _ level leg vol f] show ?case
    by (fastforce simp: feed_append)
next
  case (closed h p rs h' p' ts)
  then show ?case
    using cancel.all_legs [of e h' "foreign_legs p'" _ ts]
    by (fastforce simp: feed_append cancel_all_parts)
qed auto

lemma cancel_all_dead: "live_leg (fst (cancel_all p ts)) level = None"
  by (simp add: cancel_all_parts live_leg_def cancel.map_of_each cancel_leg_def split: option.split)

subsection \<open>Properties\<close>

text \<open>
  C10: in any run of the rules on a foreign position (levels changed, legs filled, the position
  closed, in any order), Nautilus can take every record in the order it is emitted: no order is
  opened twice or under a name it already holds, no event is of a closed or unknown order, no
  fill exceeds its order's quantity; and the orders it then holds are those the legs describe.
\<close>
theorem foreign_records_accepted:
  assumes "foreign_run e h p rs h' p'" and "mirrors e h (foreign_legs p) c"
  shows "\<exists>c'. feed rs c = Some c' \<and> mirrors e h' (foreign_legs p') c'"
  using assms by (rule foreign_run_told)

definition sample_position :: ForeignPosition where
  "sample_position = \<lparr>position_id = 3, p_symbol_id = 1, p_side = BUY, p_volume = 1000,
     entry_order_id = Some 7, p_levels = \<lparr>lv_stop_loss = Some 1, lv_take_profit = None\<rparr>,
     foreign_legs = [], entry_unknown_told = False, protective_order_id = Some 8,
     protective_volume = 1000, protective_opened_ms = Some 4, entry_filled_ms = Some 3\<rparr>"

theorem foreign_records_accepted_witness:
  "\<exists>c'. feed (snd (level_changes sample_position no_levels 5 [''7-SL''])) [''7-SL'' \<mapsto>
        \<lparr>co_quantity = 1, co_filled = 1, co_open = False\<rparr>] = Some c' \<and>
     mirrors 7 [''7-SL''] (foreign_legs (fst (level_changes sample_position no_levels 5 [''7-SL'']))) c'"
proof -
  have "foreign_run 7 [''7-SL''] sample_position
      ([] @ snd (level_changes sample_position no_levels 5 [''7-SL''])) [''7-SL'']
      (fst (level_changes sample_position no_levels 5 [''7-SL'']))"
    by (intro foreign_run.changed foreign_run.start) (simp_all add: sample_position_def rest_def)
  from foreign_records_accepted [OF this] show ?thesis
    by (simp add: mirrors_def legs_ok_def sample_position_def)
qed

text \<open>
  after a change of levels of a foreign position with a known entry, a level has a live leg
  exactly when it stands, and every live leg covers its fills and the whole protection.
\<close>
theorem live_legs_are_standing_levels:
  assumes "entry_order_id p = Some e"
  shows "(live_leg (fst (level_changes p old ts h)) level \<noteq> None \<longleftrightarrow>
      level_get (p_levels p) level \<noteq> None) \<and>
    (\<forall>leg. live_leg (fst (level_changes p old ts h)) level = Some leg \<longrightarrow>
      fl_quantity leg = fl_filled leg + rest p)"
  using level_changes_cover [OF assms] by blast

theorem live_legs_are_standing_levels_witness:
  "live_leg (fst (level_changes sample_position no_levels 5 [])) STOP_LOSS \<noteq> None \<and>
   live_leg (fst (level_changes sample_position no_levels 5 [])) TAKE_PROFIT = None"
  using live_legs_are_standing_levels [of sample_position 7 no_levels 5 "[]" STOP_LOSS]
    live_legs_are_standing_levels [of sample_position 7 no_levels 5 "[]" TAKE_PROFIT]
  by (simp add: sample_position_def)

end
