(* ===== verification/Venue_Book.thy ===== *)
theory Venue_Book
  imports Operations_In_Flight Foreign_Legs Order_Record "HOL-Library.Product_Lexorder"
begin

text \<open>
  \<open>common/venue_book.py\<close>: what the broker holds for one account, and what each of its events
  means to Nautilus. The book is the record \<open>VenueBook\<close>; its callbacks are the record
  \<open>book_env\<close>. A handler works on one position: \<open>working\<close> holds the book, that position, and
  whether the position stands in the book (\<open>commit\<close> writes it back). Where the code raises, the
  handler returns the state reached so far with the error, as Python leaves it.
\<close>

fun EXTERNAL_TYPE :: "ProtoOAOrderType \<Rightarrow> ExternalType option" where
  "EXTERNAL_TYPE MARKET = Some Ext_MARKET"
| "EXTERNAL_TYPE MARKET_RANGE = Some Ext_MARKET"
| "EXTERNAL_TYPE LIMIT = Some Ext_LIMIT"
| "EXTERNAL_TYPE STOP = Some Ext_STOP_MARKET"
| "EXTERNAL_TYPE STOP_LIMIT = Some Ext_STOP_LIMIT"
| "EXTERNAL_TYPE STOP_LOSS_TAKE_PROFIT = None"

definition is_fill :: "ProtoOAExecutionType \<Rightarrow> bool" where
  "is_fill kind \<longleftrightarrow> kind = ORDER_FILLED \<or> kind = ORDER_PARTIAL_FILL"

fun ENDED_EVENT_KIND :: "ProtoOAExecutionType \<Rightarrow> OrderEventKind option" where
  "ENDED_EVENT_KIND ORDER_CANCELLED = Some Ev_CANCELED"
| "ENDED_EVENT_KIND ORDER_EXPIRED = Some Ev_EXPIRED"
| "ENDED_EVENT_KIND ORDER_REJECTED = Some Ev_REJECTED"
| "ENDED_EVENT_KIND _ = None"

subsection \<open>State\<close>

record Leg =
  l_client_order_id :: string
  l_alive :: bool
  l_accepted :: bool
  l_quantity :: int
  l_filled :: int

definition new_Leg :: "string \<Rightarrow> Leg" where
  "new_Leg i = \<lparr>l_client_order_id = i, l_alive = True, l_accepted = False, l_quantity = 0,
     l_filled = 0\<rparr>"

record Position = ForeignPosition +
  is_open :: bool
  entry_client_order_id :: "string option"
  entry_accepted :: bool
  legs :: "(Level, Leg) dict"
  awaiting_protection :: bool
  opened_ms :: "int option"
  retired_protective_ids :: "int set"
  terms :: "LevelTerms option"
  p_updated_ms :: int
  trailed_ms :: int
  protective_ms :: int

definition new_Position :: "int \<Rightarrow> int \<Rightarrow> ProtoOATradeSide \<Rightarrow> Position" where
  "new_Position i symbol side = \<lparr>position_id = i, p_symbol_id = symbol, p_side = side,
     p_volume = 0, entry_order_id = None, p_levels = no_levels, foreign_legs = [],
     entry_unknown_told = False, protective_order_id = None, protective_volume = 0,
     protective_opened_ms = None, entry_filled_ms = None, is_open = False,
     entry_client_order_id = None, entry_accepted = False, legs = [],
     awaiting_protection = False, opened_ms = None, retired_protective_ids = {}, terms = None,
     p_updated_ms = -1, trailed_ms = -1, protective_ms = -1\<rparr>"

definition ours :: "Position \<Rightarrow> bool" where
  "ours position \<longleftrightarrow> entry_client_order_id position \<noteq> None"

text \<open>The keys of \<open>_seen\<close>: tuples of three shapes, never equal across shapes.\<close>

datatype event_key =
    DealKey int ProtoOAExecutionType int
  | OrderKey int ProtoOAExecutionType int "double option" "double option" "int option"
  | TrailingKey int int double

record VenueBook =
  positions :: "(int, Position) dict"
  matched_closes :: "(int, string) dict"
  closes_accepted :: "int set"
  close_positions :: "(int, int) dict"
  unloaded_orders :: "(int, Exposure) dict"
  ended_entries :: "int set"
  reported :: "int set"
  open_orders :: "(int, ProtoOAOrder) dict"
  seen :: "event_key set"
  synced_deals :: "int set"
  applied_deals :: "int set"
  kept_positions :: "int set"
  kept_ms :: int
  unconfirmed :: "int set"
  reconciled_closed :: "int set"

definition new_VenueBook :: VenueBook where
  "new_VenueBook = \<lparr>positions = [], matched_closes = [], closes_accepted = {},
     close_positions = [], unloaded_orders = [], ended_entries = {}, reported = {},
     open_orders = [], seen = {}, synced_deals = {}, applied_deals = {}, kept_positions = {},
     kept_ms = -1, unconfirmed = {}, reconciled_closed = {}\<rparr>"

text \<open>
  The callbacks: a symbol's price precision (None for a symbol not loaded), the venue order ids
  Nautilus holds closed, the account's money digits.
\<close>

record book_env =
  precision_of :: "int \<Rightarrow> nat option"
  held_closed :: "string list"
  money_digits :: nat

subsection \<open>Reading messages\<close>

definition opened_of :: "ProtoOAOrder \<Rightarrow> int option" where
  "opened_of order = f_openTimestamp (tradeData order)"

definition created_of :: "ProtoOAOrder \<Rightarrow> int" where
  "created_of order =
     (case opened_of order of None \<Rightarrow> utcLastUpdateTimestamp order | Some t \<Rightarrow> t)"

definition opening_orders :: "ProtoOAOrder list \<Rightarrow> ProtoOAOrder list" where
  "opening_orders orders =
     sort_key (\<lambda>order. (created_of order, orderId order))
       (filter (\<lambda>order. \<not> closingOrder order \<and> orderType order \<noteq> STOP_LOSS_TAKE_PROFIT) orders)"

definition entry_of :: "ProtoOAOrder list \<Rightarrow> ProtoOAOrder option" where
  "entry_of orders =
     (let opening = opening_orders orders
      in case find (\<lambda>order. parse_label (label (tradeData order)) \<noteq> None) opening of
           Some named \<Rightarrow> Some named
         | None \<Rightarrow> (case opening of [] \<Rightarrow> None | first # _ \<Rightarrow> Some first))"

definition position_opened_ms :: "ProtoOAPosition \<Rightarrow> int option" where
  "position_opened_ms position = f_openTimestamp (vp_tradeData position)"

definition event_ms :: "ProtoOAExecutionEvent \<Rightarrow> int" where
  "event_ms event =
     fold max
       ((case f_position event of None \<Rightarrow> [] | Some p \<Rightarrow> [vp_utcLastUpdateTimestamp p]) @
        (case f_deal event of None \<Rightarrow> [] | Some d \<Rightarrow> [executionTimestamp d]))
       (utcLastUpdateTimestamp (the_order event))"

definition levels_of :: "ProtoOAOrder \<Rightarrow> nat \<Rightarrow> levels venue_result" where
  "levels_of order precision =
     bind_result (optional_price (f_stopPrice order) precision) (\<lambda>stop.
     bind_result (optional_price (f_limitPrice order) precision) (\<lambda>limit.
     Inr \<lparr>lv_stop_loss = stop, lv_take_profit = limit\<rparr>))"

definition terms_of :: "ProtoOAPosition \<Rightarrow> LevelTerms" where
  "terms_of position =
     \<lparr>trailing_stop_loss = vp_trailingStopLoss position,
      guaranteed_stop_loss = vp_guaranteedStopLoss position,
      stop_loss_trigger_method = stopLossTriggerMethod position\<rparr>"

definition remaining_of :: "ProtoOAOrder \<Rightarrow> int" where
  "remaining_of order = max (volume (tradeData order) - unset_int (f_executedVolume order)) 0"

definition which_level :: "ProtoOATradeSide \<Rightarrow> levels \<Rightarrow> decimal \<Rightarrow> Level \<times> Record list" where
  "which_level side lv filled_at =
     (case (lv_stop_loss lv, lv_take_profit lv) of
        (_, None) \<Rightarrow> (STOP_LOSS, [])
      | (None, Some _) \<Rightarrow> (TAKE_PROFIT, [])
      | (Some stop, Some target) \<Rightarrow>
          (let long = (side = BUY);
               hit_target = (if long then target \<le> filled_at else filled_at \<le> target);
               level = (if hit_target then TAKE_PROFIT else STOP_LOSS);
               inverted = (if long then target \<le> stop else stop \<le> target)
           in (level, if inverted then [R_Notice (InvertedLevels stop target filled_at level)] else [])))"

subsection \<open>Records\<close>

definition leg_id :: "Position \<Rightarrow> Level \<Rightarrow> string option" where
  "leg_id position level = map_option (\<lambda>entry. leg_text entry level 1) (entry_order_id position)"

definition leg_event ::
    "OrderEventKind \<Rightarrow> Position \<Rightarrow> Level \<Rightarrow> Leg \<Rightarrow> int \<Rightarrow> decimal option \<Rightarrow> decimal option \<Rightarrow>
     Fill option \<Rightarrow> Record" where
  "leg_event kind position level leg ts_ms quantity price fill =
     (case leg_prices level price of (limit, trigger) \<Rightarrow>
       R_OrderEvent
         \<lparr>oe_kind = kind, oe_venue_order_id = leg_id position level,
          oe_client_order_id = Some (l_client_order_id leg), oe_ts_ms = ts_ms, oe_fill = fill,
          oe_quantity = quantity, oe_price = limit, oe_trigger_price = trigger,
          oe_reason = None\<rparr>)"

text \<open>A loop over \<open>position.legs.items()\<close>.\<close>

fun each_own_leg ::
    "(Level \<Rightarrow> Leg \<Rightarrow> Leg \<times> Record list) \<Rightarrow> (Level, Leg) dict \<Rightarrow> (Level, Leg) dict \<times> Record list"
  where
  "each_own_leg f [] = ([], [])"
| "each_own_leg f ((level, leg) # rest_legs) =
     (case f level leg of (leg, records) \<Rightarrow>
      case each_own_leg f rest_legs of (rest_legs, more_records) \<Rightarrow>
        ((level, leg) # rest_legs, records @ more_records))"

definition over_own_legs ::
    "(Level \<Rightarrow> Leg \<Rightarrow> Leg \<times> Record list) \<Rightarrow> Position \<Rightarrow> Position \<times> Record list" where
  "over_own_legs f position =
     (case each_own_leg f (legs position) of (ls, records) \<Rightarrow> (position\<lparr>legs := ls\<rparr>, records))"

definition cancel_own_leg :: "Position \<Rightarrow> int \<Rightarrow> Level \<Rightarrow> Leg \<Rightarrow> Leg \<times> Record list" where
  "cancel_own_leg position ts_ms level leg =
     (if l_alive leg
      then (leg\<lparr>l_alive := False\<rparr>, [leg_event Ev_CANCELED position level leg ts_ms None None None])
      else (leg, []))"

definition cancel_legs :: "Position \<Rightarrow> int \<Rightarrow> Position \<times> Record list" where
  "cancel_legs position ts_ms = over_own_legs (cancel_own_leg position ts_ms) position"

definition closed_by :: "Position \<Rightarrow> ProtoOADeal \<Rightarrow> Position \<times> Record list" where
  "closed_by position deal =
     (let ts = executionTimestamp deal;
          position = position\<lparr>protective_order_id := None, p_levels := no_levels\<rparr>;
          (position, own_records) = cancel_legs position ts;
          (position, foreign_records) = cancel_all position ts
      in (position, own_records @ foreign_records))"

definition activity ::
    "ActivityKind \<Rightarrow> Position \<Rightarrow> Action \<Rightarrow> int \<Rightarrow> decimal option \<Rightarrow> Record" where
  "activity kind position action ts_ms units =
     R_Activity \<lparr>ac_kind = kind, ac_symbol_id = p_symbol_id position, ac_subject = Subject_position,
       ac_side = p_side position,
       ac_units = (case units of None \<Rightarrow> volume_to_units (p_volume position) | Some u \<Rightarrow> u),
       ac_action = action, ac_ts_ms = ts_ms\<rparr>"

definition external_report ::
    "ProtoOAOrder \<Rightarrow> nat \<Rightarrow> bool \<Rightarrow> Fill list \<Rightarrow> ExternalType option \<Rightarrow> levels option \<Rightarrow>
     ExternalOrder venue_result" where
  "external_report order precision reduce_only fills order_type lv =
     (let kind = (case order_type of
                    Some t \<Rightarrow> t
                  | None \<Rightarrow> (case EXTERNAL_TYPE (orderType order) of Some t \<Rightarrow> t | None \<Rightarrow> Ext_MARKET));
          data = tradeData order
      in bind_result (case lv of None \<Rightarrow> levels_of order precision | Some l \<Rightarrow> Inr l) (\<lambda>prices. Inr
        \<lparr>xo_venue_order_id = int_text (orderId order), xo_symbol_id = symbolId data,
         xo_side = tradeSide data, xo_order_type = kind,
         xo_units = volume_to_units (volume data), xo_reduce_only = reduce_only,
         xo_venue_position_id = map_option int_text (f_positionId order),
         xo_ts_ms = utcLastUpdateTimestamp order,
         xo_price = (if kind \<in> {Ext_LIMIT, Ext_STOP_LIMIT} then lv_take_profit prices else None),
         xo_trigger_price =
           (if kind \<in> {Ext_STOP_MARKET, Ext_STOP_LIMIT} then lv_stop_loss prices else None),
         xo_fills = fills, xo_time_in_force = f_timeInForce order,
         xo_expire_ts_ms = f_expirationTimestamp order,
         xo_ts_accepted_ms = f_openTimestamp data\<rparr>))"

definition order_updated :: "ProtoOAOrder \<Rightarrow> nat \<Rightarrow> int \<Rightarrow> Record venue_result" where
  "order_updated order precision ts_ms =
     bind_result (external_report order precision False [] None None) (\<lambda>report. Inr (R_OrderEvent
       ((plain_event Ev_UPDATED (Some (int_text (orderId order))) None ts_ms)
          \<lparr>oe_quantity := Some (xo_units report), oe_price := xo_price report,
           oe_trigger_price := xo_trigger_price report\<rparr>)))"

definition unnamed_close :: "Position \<Rightarrow> ProtoOADeal \<Rightarrow> Record" where
  "unnamed_close position deal =
     R_Notice (UnnamedClose (volume_to_units (filledVolume deal)) (position_id position))"

definition filled_event :: "string \<Rightarrow> string option \<Rightarrow> Fill \<Rightarrow> Record" where
  "filled_event venue_order_id client_order_id fill =
     R_OrderEvent ((plain_event Ev_FILLED (Some venue_order_id) client_order_id (fill_ts_ms fill))
       \<lparr>oe_fill := Some fill\<rparr>)"

definition ended_event ::
    "OrderEventKind \<Rightarrow> string \<Rightarrow> string option \<Rightarrow> int \<Rightarrow> string \<Rightarrow> Record" where
  "ended_event kind venue_order_id client_order_id ts_ms error_code =
     R_OrderEvent ((plain_event kind (Some venue_order_id) client_order_id ts_ms)
       \<lparr>oe_reason := (if error_code = [] then None else Some error_code)\<rparr>)"

subsection \<open>Positions\<close>

record working =
  w_book :: VenueBook
  w_position :: Position
  w_kept :: bool

definition commit :: "working \<Rightarrow> VenueBook" where
  "commit w =
     (if w_kept w
      then (w_book w)\<lparr>positions :=
        AList.update (position_id (w_position w)) (w_position w) (positions (w_book w))\<rparr>
      else w_book w)"

definition position_for :: "ProtoOAExecutionEvent \<Rightarrow> VenueBook \<Rightarrow> working" where
  "position_for event book =
     (let order = the_order event; kept = (f_positionId order \<noteq> None) in
      case (if kept then map_of (positions book) (positionId order) else None) of
        Some position \<Rightarrow> \<lparr>w_book = book, w_position = position, w_kept = True\<rparr>
      | None \<Rightarrow>
          (let (symbol_id, side) =
             (case f_position event of
                Some p \<Rightarrow> (symbolId (vp_tradeData p), tradeSide (vp_tradeData p))
              | None \<Rightarrow>
                  (symbolId (tradeData order),
                   if closingOrder order then opposite (tradeSide (tradeData order))
                   else tradeSide (tradeData order)))
           in \<lparr>w_book = book, w_position = new_Position (positionId order) symbol_id side,
               w_kept = kept\<rparr>))"

text \<open>\<open>_sync\<close>: a position state in the event, else the deal's own volume, once per deal.\<close>

definition sync :: "ProtoOAExecutionEvent \<Rightarrow> working \<Rightarrow> working" where
  "sync event w =
     (let position = w_position w in
      case f_position event of
        Some vp \<Rightarrow>
          (let position = position\<lparr>opened_ms :=
                 (case position_opened_ms vp of
                    Some t \<Rightarrow> if t \<noteq> 0 then Some t else opened_ms position
                  | None \<Rightarrow> opened_ms position)\<rparr>;
               updated = vp_utcLastUpdateTimestamp vp
           in if updated < p_updated_ms position then w\<lparr>w_position := position\<rparr>
              else w\<lparr>w_position := position\<lparr>p_updated_ms := updated, terms := Some (terms_of vp),
                     p_volume := volume (vp_tradeData vp),
                     is_open := (positionStatus vp = POSITION_STATUS_OPEN)\<rparr>\<rparr>)
      | None \<Rightarrow>
          (if is_fill (executionType event) \<and> f_deal event \<noteq> None then
             (let deal = the_deal event in
              if dealId deal \<in> synced_deals (w_book w) then w
              else
                (let book = (w_book w)\<lparr>synced_deals := insert (dealId deal) (synced_deals (w_book w))\<rparr>
                 in if \<not> closingOrder (the_order event)
                    then w\<lparr>w_book := book, w_position := position
                           \<lparr>p_volume := p_volume position + filledVolume deal, is_open := True\<rparr>\<rparr>
                    else if is_open position
                    then (let left = max (p_volume position - filledVolume deal) 0
                          in w\<lparr>w_book := book, w_position := position
                               \<lparr>p_volume := left, is_open := (0 < left)\<rparr>\<rparr>)
                    else w\<lparr>w_book := book\<rparr>))
           else w))"

text \<open>One turn of the loop of \<open>_adopt\<close>.\<close>

definition adopt_leg ::
    "bool \<Rightarrow> string set \<Rightarrow> Position \<Rightarrow> Level \<Rightarrow> string option \<Rightarrow> (Level, Leg) dict \<Rightarrow> (Level, Leg) dict"
  where
  "adopt_leg restored waiting position level client_order_id ls =
     (case client_order_id of
        None \<Rightarrow> ls
      | Some i \<Rightarrow>
          AList.update level
            (if \<not> restored then new_Leg i
             else if level_get (p_levels position) level \<noteq> None
             then (new_Leg i)\<lparr>l_accepted := True, l_quantity := p_volume position\<rparr>
             else (new_Leg i)\<lparr>l_alive := (i \<in> waiting)\<rparr>) ls)"

definition adopt ::
    "Position \<Rightarrow> ProtoOAOrder \<Rightarrow> bool \<Rightarrow> string set \<Rightarrow> Position \<times> Record list" where
  "adopt position entry restored waiting =
     (let position = position\<lparr>entry_order_id := Some (orderId entry)\<rparr> in
      case parse_label (label (tradeData entry)) of
        None \<Rightarrow> (position, [])
      | Some own_id \<Rightarrow>
          (let position =
             position\<lparr>entry_client_order_id := Some own_id, entry_accepted := restored\<rparr> in
           case read_comment (comment (tradeData entry)) of
             None \<Rightarrow> (position, [R_Notice (LegsRecordUnreadable (position_id position))])
           | Some ids \<Rightarrow>
               (position\<lparr>legs :=
                  adopt_leg restored waiting position TAKE_PROFIT (leg_take_profit ids)
                    (adopt_leg restored waiting position STOP_LOSS (leg_stop_loss ids)
                      (legs position))\<rparr>, [])))"

definition raises :: "Position \<Rightarrow> ProtoOAExecutionEvent \<Rightarrow> bool" where
  "raises position event =
     (let order = the_order event in
      if parse_label (label (tradeData order)) \<noteq> None then False
      else case (opened_of order,
                 case Option.bind (f_position event) position_opened_ms of
                   Some t \<Rightarrow> Some t | None \<Rightarrow> opened_ms position) of
             (Some created, Some opened) \<Rightarrow> created > opened
           | _ \<Rightarrow> False)"

subsection \<open>Levels of the node's own positions\<close>

text \<open>One turn of the first loop of \<open>_level_changes\<close>.\<close>

definition own_level_change ::
    "levels \<Rightarrow> bool \<Rightarrow> int \<Rightarrow> Level \<Rightarrow> Position \<Rightarrow> Position \<times> Record list" where
  "own_level_change old_levels manual ts level position =
     (let old = level_get old_levels level; new = level_get (p_levels position) level;
          leg = map_of (legs position) level;
          alive = (case leg of None \<Rightarrow> False | Some l \<Rightarrow> l_alive l);
          set_leg = (\<lambda>l. position\<lparr>legs := AList.update level l (legs position)\<rparr>);
          changed = (\<lambda>action. if manual
            then [activity MANUAL_CHANGE position action ts None] else [])
      in if new \<noteq> None \<and> alive \<and> \<not> l_accepted (the leg) then
           (let l = (the leg)\<lparr>l_accepted := True,
                  l_quantity := l_filled (the leg) + protective_volume position\<rparr>
            in (set_leg l,
                leg_event Ev_ACCEPTED position level l ts (Some (volume_to_units (l_quantity l))) new None
                # changed (if old = None then LEVEL_ADDED else LEVEL_MOVED)))
         else if old = new then (position, [])
         else if new = None then
           (if alive then
              (set_leg ((the leg)\<lparr>l_alive := False\<rparr>),
               leg_event Ev_CANCELED position level (the leg) ts None None None
               # changed LEVEL_REMOVED)
            else (position, changed LEVEL_REMOVED))
         else if old = None then (position, changed LEVEL_ADDED)
         else if alive then
           (let l = (the leg)\<lparr>l_quantity := l_filled (the leg) + protective_volume position\<rparr>
            in (set_leg l,
                leg_event Ev_UPDATED position level l ts (Some (volume_to_units (l_quantity l))) new None
                # changed LEVEL_MOVED))
         else (position, changed LEVEL_MOVED))"

text \<open>One turn of its second loop.\<close>

definition resize_own_leg :: "Position \<Rightarrow> int \<Rightarrow> Level \<Rightarrow> Leg \<Rightarrow> Leg \<times> Record list" where
  "resize_own_leg position ts level leg =
     (let quantity = l_filled leg + protective_volume position
      in if l_alive leg \<and> l_accepted leg \<and> l_quantity leg \<noteq> quantity
         then (leg\<lparr>l_quantity := quantity\<rparr>,
               [leg_event Ev_UPDATED position level leg ts (Some (volume_to_units quantity)) None None])
         else (leg, []))"

definition own_level_changes ::
    "Position \<Rightarrow> levels \<Rightarrow> bool \<Rightarrow> int \<Rightarrow> Position \<times> Record list" where
  "own_level_changes position old_levels manual ts =
     (let (position, stop_loss_records) = own_level_change old_levels manual ts STOP_LOSS position;
          (position, take_profit_records) = own_level_change old_levels manual ts TAKE_PROFIT position;
          (position, resize_records) = over_own_legs (resize_own_leg position ts) position
      in (position, stop_loss_records @ take_profit_records @ resize_records))"

subsection \<open>Orders Nautilus learns of from reports\<close>

definition keep_open_order ::
    "ProtoOAExecutionEvent \<Rightarrow> bool \<Rightarrow> VenueBook \<Rightarrow> VenueBook \<times> bool" where
  "keep_open_order event known book =
     (let order = the_order event; kind = executionType event; i = orderId order;
          taken = book\<lparr>open_orders := AList.update i order (open_orders book)\<rparr>
      in if orderType order \<notin> set PENDING_ORDER_TYPES then (book, False)
         else if kind = ORDER_FILLED \<or> ENDED_EVENT_KIND kind \<noteq> None
         then (book\<lparr>open_orders := AList.delete i (open_orders book)\<rparr>, False)
         else if kind \<in> {ORDER_ACCEPTED, ORDER_PARTIAL_FILL} \<and> \<not> known then (taken, True)
         else if kind \<in> {ORDER_REPLACED, ORDER_PARTIAL_FILL} then
           (case map_of (open_orders book) i of
              None \<Rightarrow> (book, False)
            | Some held \<Rightarrow>
                if utcLastUpdateTimestamp held \<le> utcLastUpdateTimestamp order then (taken, True)
                else (book, False))
         else (book, False))"

definition add_reported :: "int \<Rightarrow> VenueBook \<Rightarrow> VenueBook" where
  "add_reported i book = book\<lparr>reported := insert i (reported book)\<rparr>"

definition external_event ::
    "book_env \<Rightarrow> ProtoOAExecutionEvent \<Rightarrow> nat \<Rightarrow> bool \<Rightarrow> VenueBook \<Rightarrow>
     VenueBook \<times> Record list venue_result" where
  "external_event env event precision reduce_only book =
     (let order = the_order event; kind = executionType event;
          venue_order_id = int_text (orderId order); ts = utcLastUpdateTimestamp order;
          known = (orderId order \<in> reported book);
          (book, taken) = keep_open_order event known book
      in if kind = ORDER_ACCEPTED then
           (if known then (book, Inr [])
            else (add_reported (orderId order) book,
                  bind_result (external_report order precision reduce_only [] None None)
                    (\<lambda>report. Inr [R_ExternalOrder report])))
         else if is_fill kind then
           (case fill_of (the_deal event) precision (money_digits env) of
              Inl e \<Rightarrow> (book, Inl e)
            | Inr fill \<Rightarrow>
                if known then (book, Inr [filled_event venue_order_id None fill])
                else (add_reported (orderId order) book,
                      bind_result (external_report order precision reduce_only [fill] None None)
                        (\<lambda>report. Inr [R_ExternalOrder report])))
         else if \<not> known then (book, Inr [])
         else if kind = ORDER_REPLACED then
           (if orderType order \<in> set PENDING_ORDER_TYPES \<and> \<not> taken then (book, Inr [])
            else (book, bind_result (order_updated order precision ts) (\<lambda>r. Inr [r])))
         else (case ENDED_EVENT_KIND kind of
            Some ended \<Rightarrow> (book, Inr [ended_event ended venue_order_id None ts (errorCode event)])
          | None \<Rightarrow> (book, Inr [])))"

text \<open>The same on a handler's working state.\<close>

definition external_working ::
    "book_env \<Rightarrow> ProtoOAExecutionEvent \<Rightarrow> nat \<Rightarrow> bool \<Rightarrow> working \<Rightarrow> working \<times> Record list venue_result"
  where
  "external_working env event precision reduce_only w =
     (case external_event env event precision reduce_only (w_book w) of
        (book, result) \<Rightarrow> (w\<lparr>w_book := book\<rparr>, result))"

subsection \<open>Entries\<close>

text \<open>The entry's acceptance, told with its event or before its first fill.\<close>

definition entry_acceptance :: "ProtoOAExecutionEvent \<Rightarrow> Position \<Rightarrow> Record" where
  "entry_acceptance event position =
     R_OrderEvent (plain_event Ev_ACCEPTED (Some (int_text (orderId (the_order event))))
       (entry_client_order_id position) (utcLastUpdateTimestamp (the_order event)))"

definition entry_filled ::
    "ProtoOAExecutionEvent \<Rightarrow> Fill \<Rightarrow> Position \<Rightarrow> Position \<times> Record list" where
  "entry_filled event fill position =
     (let accepted = (if entry_accepted position then [] else [entry_acceptance event position]);
          told = filled_event (int_text (orderId (the_order event)))
            (entry_client_order_id position) fill;
          position = position\<lparr>entry_accepted := True\<rparr>;
          (position, level_records) =
            (if protective_order_id position \<noteq> None
             then own_level_changes position no_levels False (fill_ts_ms fill)
             else (position, []));
          waiting = list_ex (\<lambda>(_, leg). l_alive leg \<and> \<not> l_accepted leg) (legs position);
          (position, await_records) =
            (if waiting \<and> \<not> awaiting_protection position
             then (position\<lparr>awaiting_protection := True\<rparr>, [R_AwaitProtection (position_id position)])
             else (position, []))
      in (position, accepted @ [told] @ level_records @ await_records))"

definition entry_ended ::
    "ProtoOAExecutionEvent \<Rightarrow> OrderEventKind \<Rightarrow> working \<Rightarrow> working \<times> Record list" where
  "entry_ended event ended w =
     (let order = the_order event; ts = utcLastUpdateTimestamp order; position = w_position w;
          told = ended_event ended (int_text (orderId order)) (entry_client_order_id position) ts
            (errorCode event);
          (position, cancel_records) =
            (if ended = Ev_REJECTED \<or> p_volume position = 0 then cancel_legs position ts
             else (position, []));
          book = w_book w;
          w = (if p_volume position = 0 \<and> \<not> is_open position
               then w\<lparr>w_kept := False,
                      w_book := book\<lparr>ended_entries := insert (orderId order) (ended_entries book),
                        positions := (if w_kept w
                          then AList.delete (position_id position) (positions book)
                          else positions book)\<rparr>\<rparr>
               else w)
      in (w\<lparr>w_position := position\<rparr>, told # cancel_records))"

definition entry_event ::
    "book_env \<Rightarrow> ProtoOAExecutionEvent \<Rightarrow> nat \<Rightarrow> working \<Rightarrow> working \<times> Record list venue_result" where
  "entry_event env event precision w =
     (let kind = executionType event; position = w_position w in
      if kind = ORDER_ACCEPTED then
        (if entry_accepted position then (w, Inr [])
         else (w\<lparr>w_position := position\<lparr>entry_accepted := True\<rparr>\<rparr>,
               Inr [entry_acceptance event position]))
      else if is_fill kind then
        (case fill_of (the_deal event) precision (money_digits env) of
           Inl e \<Rightarrow> (w, Inl e)
         | Inr fill \<Rightarrow>
             (case entry_filled event fill position of
                (position, records) \<Rightarrow> (w\<lparr>w_position := position\<rparr>, Inr records)))
      else (case ENDED_EVENT_KIND kind of
              None \<Rightarrow> (w, Inr [])
            | Some ended \<Rightarrow>
                (case entry_ended event ended w of (w, records) \<Rightarrow> (w, Inr records))))"

text \<open>
  \<open>_opening\<close> up to the entry's or the external event, in two parts: the order taken for the
  position's entry, then the position brought up to date. No price can make either raise.
\<close>

definition opening_adopted ::
    "ProtoOAExecutionEvent \<Rightarrow> VenueBook \<Rightarrow> working \<times> bool \<times> Record list" where
  "opening_adopted event book =
     (let order = the_order event; ended = (orderId order \<in> ended_entries book);
          w = position_for event book;
          learnt = (entry_order_id (w_position w) = None \<and> \<not> raises (w_position w) event);
          (position, adopt_records) =
            (if learnt then adopt (w_position w) order False {} else (w_position w, []));
          (position, ended_records) =
            (if ended
             then (position\<lparr>entry_accepted := True,
                     legs := map (\<lambda>(level, leg). (level, leg\<lparr>l_alive := False\<rparr>)) (legs position)\<rparr>,
                   [R_Notice (FilledAfterEnd (orderId order))])
             else (position, []))
      in (w\<lparr>w_position := position\<rparr>, learnt, adopt_records @ ended_records))"

definition opening_prepared ::
    "ProtoOAExecutionEvent \<Rightarrow> VenueBook \<Rightarrow> working \<times> bool \<times> Record list" where
  "opening_prepared event book =
     (let order = the_order event; filled_now = is_fill (executionType event);
          (w, learnt, records) = opening_adopted event book;
          was_open = is_open (w_position w); volume_before = p_volume (w_position w);
          w = sync event w;
          position = w_position w;
          position =
            (if filled_now \<and> \<not> was_open \<and> entry_order_id position = Some (orderId order)
             then position\<lparr>entry_filled_ms := Some (executionTimestamp (the_deal event))\<rparr>
             else position);
          reduced = (was_open \<and> (\<not> is_open position \<or> p_volume position < volume_before));
          close_records =
            (if filled_now \<and> isServerEvent event \<and> \<not> isStopOut order \<and> reduced
             then [unnamed_close position (the_deal event)] else [])
      in (w\<lparr>w_position := position\<rparr>, learnt, records @ close_records))"

text \<open>\<open>_opening\<close> after it: a stop-out's activity and the end of a closed position's legs.\<close>

definition opening_finished ::
    "ProtoOAExecutionEvent \<Rightarrow> working \<Rightarrow> working \<times> Record list" where
  "opening_finished event w =
     (let order = the_order event; deal = the_deal event;
          filled_now = is_fill (executionType event); position = w_position w;
          stop_out_records =
            (if filled_now \<and> isStopOut order
             then [activity STOP_OUT position (if is_open position then PARTIALLY_CLOSED else CLOSED)
                     (executionTimestamp deal) (Some (volume_to_units (filledVolume deal)))]
             else []);
          (position, closed_records) =
            (if filled_now \<and> (legs position \<noteq> [] \<or> foreign_legs position \<noteq> []) \<and> \<not> is_open position
             then closed_by position deal else (position, []))
      in (w\<lparr>w_position := position\<rparr>, stop_out_records @ closed_records))"

text \<open>Between them: the entry's own event, or an order the node did not send.\<close>

definition opening_external ::
    "book_env \<Rightarrow> ProtoOAExecutionEvent \<Rightarrow> nat \<Rightarrow> bool \<Rightarrow> working \<Rightarrow> working \<times> Record list venue_result"
  where
  "opening_external env event precision learnt w =
     (let order = the_order event; deal = the_deal event; position = w_position w;
          (w, result) = external_working env event precision False w
      in case result of
           Inl e \<Rightarrow> (w, Inl e)
         | Inr external_records \<Rightarrow>
             (let manual_records =
                (if is_fill (executionType event) \<and> ours position \<and> \<not> isServerEvent event
                    \<and> \<not> isStopOut order
                 then [activity MANUAL_CHANGE position OPENED (executionTimestamp deal)
                         (Some (volume_to_units (filledVolume deal)))]
                 else []);
                  (position, level_records) =
                (if learnt \<and> p_levels position \<noteq> no_levels
                 then level_changes position no_levels (utcLastUpdateTimestamp order)
                        (held_closed env)
                 else (position, []))
              in (w\<lparr>w_position := position\<rparr>,
                  Inr (external_records @ manual_records @ level_records))))"

definition opening_reported ::
    "book_env \<Rightarrow> ProtoOAExecutionEvent \<Rightarrow> nat \<Rightarrow> bool \<Rightarrow> working \<Rightarrow> working \<times> Record list venue_result"
  where
  "opening_reported env event precision learnt w =
     (if ours (w_position w) \<and> entry_order_id (w_position w) = Some (orderId (the_order event))
      then entry_event env event precision w
      else opening_external env event precision learnt w)"

definition opening_event ::
    "book_env \<Rightarrow> ProtoOAExecutionEvent \<Rightarrow> nat \<Rightarrow> VenueBook \<Rightarrow> VenueBook \<times> Record list venue_result" where
  "opening_event env event precision book =
     (if orderId (the_order event) \<in> ended_entries book \<and> \<not> is_fill (executionType event)
      then (book, Inr [])
      else
        (let (w, learnt, records) = opening_prepared event book;
             (w, result) = opening_reported env event precision learnt w
         in case result of
              Inl e \<Rightarrow> (commit w, Inl e)
            | Inr event_records \<Rightarrow>
                (let (w, last_records) = opening_finished event w
                 in (commit w, Inr (records @ event_records @ last_records)))))"

text \<open>The last lines of \<open>_triggered\<close> and \<open>_closing\<close>: the end of a position a fill closed.\<close>

definition finish_closed :: "bool \<Rightarrow> ProtoOADeal \<Rightarrow> working \<Rightarrow> working \<times> Record list" where
  "finish_closed filled_now deal w =
     (if filled_now \<and> \<not> is_open (w_position w)
      then (case closed_by (w_position w) deal of
              (position, records) \<Rightarrow> (w\<lparr>w_position := position\<rparr>, records))
      else (w, []))"

subsection \<open>Protective orders\<close>

fun triggered_type :: "Level option \<Rightarrow> ExternalType" where
  "triggered_type None = Ext_MARKET"
| "triggered_type (Some STOP_LOSS) = Ext_STOP_MARKET"
| "triggered_type (Some TAKE_PROFIT) = Ext_LIMIT"

text \<open>The leg, the foreign leg or the external order a protective order's deal fills.\<close>

definition triggered_fill ::
    "ProtoOAOrder \<Rightarrow> nat \<Rightarrow> int \<Rightarrow> Fill \<Rightarrow> Level option \<Rightarrow> levels \<Rightarrow> working \<Rightarrow>
     working \<times> Record list venue_result" where
  "triggered_fill order precision filled_volume fill level lv w =
     (let position = w_position w; book = w_book w;
          leg = Option.bind level (map_of (legs position));
          foreign = Option.bind level (map_of (foreign_legs position))
      in if ours position \<and> (case leg of None \<Rightarrow> False | Some l \<Rightarrow> l_alive l) then
           (let l = the leg;
                l' = l\<lparr>l_filled := l_filled l + filled_volume\<rparr>;
                l' = (if l_quantity l' \<le> l_filled l' then l'\<lparr>l_alive := False\<rparr> else l')
            in (w\<lparr>w_position := position\<lparr>legs := AList.update (the level) l' (legs position)\<rparr>\<rparr>,
                Inr [leg_event Ev_FILLED position (the level) l (fill_ts_ms fill) None None (Some fill)]))
         else if \<not> ours position \<and> (case foreign of None \<Rightarrow> False | Some f \<Rightarrow> fl_alive f) then
           (let (f, records) = filled (the foreign) filled_volume fill
            in (w\<lparr>w_position :=
                  position\<lparr>foreign_legs := AList.update (the level) f (foreign_legs position)\<rparr>\<rparr>,
                Inr records))
         else if orderId order \<in> reported book then
           (w, Inr [filled_event (int_text (orderId order)) None fill])
         else
           (w\<lparr>w_book := add_reported (orderId order) book\<rparr>,
            bind_result
              (external_report order precision True [fill] (Some (triggered_type level)) (Some lv))
              (\<lambda>report. Inr [R_ExternalOrder report])))"

definition triggered ::
    "book_env \<Rightarrow> ProtoOAExecutionEvent \<Rightarrow> nat \<Rightarrow> working \<Rightarrow> working \<times> Record list venue_result" where
  "triggered env event precision w =
     (let order = the_order event; deal = the_deal event in
      case bind_result (fill_of deal precision (money_digits env)) (\<lambda>fill.
           bind_result (levels_of order precision) (\<lambda>own. Inr (fill, own))) of
        Inl e \<Rightarrow> (w, Inl e)
      | Inr (fill, own) \<Rightarrow>
          (let lv = (if own \<noteq> no_levels then own else p_levels (w_position w));
               (level, records) =
                 (if lv \<noteq> no_levels
                  then (case which_level (p_side (w_position w)) lv (fill_price fill) of
                          (l, rs) \<Rightarrow> (Some l, rs))
                  else (None, [R_Notice (NoLevelKnown (fill_price fill))]));
               w = sync event w;
               position = w_position w;
               w = w\<lparr>w_position := position\<lparr>protective_volume :=
                     max (protective_volume position - filledVolume deal) 0\<rparr>\<rparr>;
               (w, result) = triggered_fill order precision (filledVolume deal) fill level lv w
           in case result of
                Inl e \<Rightarrow> (w, Inl e)
              | Inr fill_records \<Rightarrow>
                  (let (w, closed_records) = finish_closed True deal w
                   in (w, Inr (records @ fill_records @ closed_records)))))"

text \<open>
  An accepted or replaced protective order taken as the position's: the state it leaves, and
  the levels it states unless one of its prices raises.
\<close>

definition take_protective ::
    "ProtoOAOrder \<Rightarrow> nat \<Rightarrow> Position \<Rightarrow> Position venue_result \<times> Position" where
  "take_protective order precision position =
     (let current = protective_order_id position;
          trailed = lv_stop_loss (p_levels position);
          position = position\<lparr>retired_protective_ids :=
            (case current of
               Some c \<Rightarrow> if orderId order \<noteq> c then insert c (retired_protective_ids position)
                         else retired_protective_ids position
             | None \<Rightarrow> retired_protective_ids position)\<rparr>;
          position = position\<lparr>protective_order_id := Some (orderId order),
            protective_volume := remaining_of order, protective_opened_ms := opened_of order\<rparr>;
          stamped = (f_utcLastUpdateTimestamp order \<noteq> None);
          ts = utcLastUpdateTimestamp order
      in (bind_result (levels_of order precision) (\<lambda>lv.
            let lv = (if Some (orderId order) = current \<and> stamped \<and> ts < trailed_ms position
                         \<and> trailed \<noteq> None \<and> lv_stop_loss lv \<noteq> None
                      then lv\<lparr>lv_stop_loss := trailed\<rparr> else lv)
            in Inr (position\<lparr>protective_ms :=
                      (if stamped then max (protective_ms position) ts else protective_ms position),
                    p_levels := lv, awaiting_protection := False\<rparr>)),
          position))"

definition protective_changed ::
    "book_env \<Rightarrow> ProtoOAExecutionEvent \<Rightarrow> levels \<Rightarrow> OperationsInFlight \<Rightarrow> working \<Rightarrow>
     working \<times> OperationsInFlight \<times> Record list" where
  "protective_changed env event old_levels ops w =
     (let order = the_order event; ts = utcLastUpdateTimestamp order;
          w = sync event w; position = w_position w;
          (late, ops) =
            (if isServerEvent event then (False, ops)
             else late_amend (position_id position) (p_levels position) ops)
      in if \<not> ours position then
           (let (position, records) = level_changes position old_levels ts (held_closed env)
            in (w\<lparr>w_position := position\<rparr>, ops, records))
         else
           (let manual = (\<not> isServerEvent event \<and> \<not> late \<and> \<not> amending (position_id position) ops);
                (position, records) = own_level_changes position old_levels manual ts
            in (w\<lparr>w_position := position\<rparr>, ops, records)))"

definition protective_event ::
    "book_env \<Rightarrow> ProtoOAExecutionEvent \<Rightarrow> nat \<Rightarrow> OperationsInFlight \<Rightarrow> VenueBook \<Rightarrow>
     VenueBook \<times> OperationsInFlight \<times> Record list venue_result" where
  "protective_event env event precision ops book =
     (let order = the_order event; kind = executionType event;
          w = position_for event book; position = w_position w;
          retired = (orderId order \<in> retired_protective_ids position);
          current = protective_order_id position
      in if is_fill kind then
           (let notices = (if retired then [R_Notice (FilledAfterRetired (orderId order))] else []);
                (w, result) = triggered env event precision w
            in (commit w, ops, bind_result result (\<lambda>records. Inr (notices @ records))))
         else if retired then (commit w, ops, Inr [])
         else if kind \<noteq> ORDER_ACCEPTED \<and> current \<noteq> None \<and> current \<noteq> Some (orderId order)
         then (commit w, ops, Inr [])
         else if kind \<in> {ORDER_ACCEPTED, ORDER_REPLACED} then
           (case take_protective order precision position of
              (Inl e, partial) \<Rightarrow> (commit (w\<lparr>w_position := partial\<rparr>), ops, Inl e)
            | (Inr taken, _) \<Rightarrow>
                (let (w, ops, records) =
                   protective_changed env event (p_levels position) ops (w\<lparr>w_position := taken\<rparr>)
                 in (commit w, ops, Inr records)))
         else if kind = ORDER_CANCELLED then
           (let (w, ops, records) =
              protective_changed env event (p_levels position) ops
                (w\<lparr>w_position := position\<lparr>
                   retired_protective_ids := insert (orderId order) (retired_protective_ids position),
                   protective_order_id := None, p_levels := no_levels\<rparr>\<rparr>)
            in (commit w, ops, Inr records))
         else (commit w, ops, Inr []))"

subsection \<open>Closing orders\<close>

definition node_close ::
    "book_env \<Rightarrow> ProtoOAExecutionEvent \<Rightarrow> string \<Rightarrow> nat \<Rightarrow> VenueBook \<Rightarrow>
     VenueBook \<times> Record list venue_result" where
  "node_close env event close_id precision book =
     (let order = the_order event; kind = executionType event;
          venue_order_id = int_text (orderId order); ts = utcLastUpdateTimestamp order;
          acceptance = R_OrderEvent (plain_event Ev_ACCEPTED (Some venue_order_id) (Some close_id) ts);
          accepted_book = book\<lparr>closes_accepted := insert (orderId order) (closes_accepted book)\<rparr>
      in if kind = ORDER_ACCEPTED then
           (if orderId order \<in> closes_accepted book then (book, Inr [])
            else (accepted_book, Inr [acceptance]))
         else if is_fill kind then
           (case fill_of (the_deal event) precision (money_digits env) of
              Inl e \<Rightarrow> (book, Inl e)
            | Inr fill \<Rightarrow>
                if orderId order \<in> closes_accepted book
                then (book, Inr [filled_event venue_order_id (Some close_id) fill])
                else (accepted_book,
                      Inr [acceptance, filled_event venue_order_id (Some close_id) fill]))
         else (case ENDED_EVENT_KIND kind of
            Some ended \<Rightarrow>
              (book, Inr [ended_event ended venue_order_id (Some close_id) ts (errorCode event)])
          | None \<Rightarrow> (book, Inr [])))"

definition close_activity :: "ProtoOAExecutionEvent \<Rightarrow> Position \<Rightarrow> Record list" where
  "close_activity event position =
     (let deal = the_deal event; units = Some (volume_to_units (filledVolume deal));
          ts = executionTimestamp deal;
          action = (if is_open position then PARTIALLY_CLOSED else CLOSED)
      in if isStopOut (the_order event) then [activity STOP_OUT position action ts units]
         else if ours position \<and> \<not> isServerEvent event
         then [activity MANUAL_CHANGE position action ts units]
         else [])"

text \<open>The node's close a closing order is, and the book with a new match recorded.\<close>

definition match_closing ::
    "ProtoOAExecutionEvent \<Rightarrow> OperationsInFlight \<Rightarrow> Position \<Rightarrow> VenueBook \<Rightarrow>
     VenueBook \<times> string option" where
  "match_closing event ops position book =
     (let order = the_order event; i = orderId order;
          close_id = map_of (matched_closes book) i;
          asked = (\<not> isServerEvent event \<and> \<not> isStopOut order)
      in if close_id = None \<and> asked \<and> i \<notin> reported book then
           (case closing (position_id position) (volume (tradeData order)) (created_of order) i ops of
              Some candidate \<Rightarrow>
                if candidate \<notin> snd ` set (matched_closes book)
                then (book\<lparr>matched_closes := AList.update i candidate (matched_closes book),
                           close_positions :=
                             AList.update i (position_id position) (close_positions book)\<rparr>,
                      Some candidate)
                else (book, None)
            | None \<Rightarrow> (book, None))
         else (book, close_id))"

text \<open>What a closing order tells: the node's close, or somebody else's and the activity it is.\<close>

definition closing_reported ::
    "book_env \<Rightarrow> ProtoOAExecutionEvent \<Rightarrow> nat \<Rightarrow> Position \<Rightarrow> string option \<Rightarrow> VenueBook \<Rightarrow>
     VenueBook \<times> Record list venue_result" where
  "closing_reported env event precision position close_id book =
     (case close_id of
        Some i \<Rightarrow> node_close env event i precision book
      | None \<Rightarrow>
          (case external_event env event precision True book of
             (book, result) \<Rightarrow>
               (book, bind_result result (\<lambda>records.
                  Inr (records @ (if is_fill (executionType event) then close_activity event position
                                  else []))))))"

definition closing_event ::
    "book_env \<Rightarrow> ProtoOAExecutionEvent \<Rightarrow> nat \<Rightarrow> OperationsInFlight \<Rightarrow> VenueBook \<Rightarrow>
     VenueBook \<times> Record list venue_result" where
  "closing_event env event precision ops book =
     (let order = the_order event; filled_now = is_fill (executionType event);
          w = sync event (position_for event book);
          position = w_position w;
          (book, close_id) = match_closing event ops position (w_book w);
          close_records =
            (if filled_now \<and> isServerEvent event \<and> \<not> isStopOut order
             then [unnamed_close position (the_deal event)] else []);
          (book, result) = closing_reported env event precision position close_id book;
          w = w\<lparr>w_book := book\<rparr>
      in case result of
           Inl e \<Rightarrow> (commit w, Inl e)
         | Inr records \<Rightarrow>
             (let (w, closed_records) = finish_closed filled_now (the_deal event) w
              in (commit w, Inr (close_records @ records @ closed_records))))"

subsection \<open>Symbols the node has not loaded\<close>

definition pending_exposure :: "ProtoOAOrder \<Rightarrow> Exposure" where
  "pending_exposure order =
     \<lparr>ex_symbol_id = symbolId (tradeData order), ex_subject = Subject_order,
      ex_side = tradeSide (tradeData order), ex_units = volume_to_units (remaining_of order)\<rparr>"

definition track_unloaded :: "ProtoOAExecutionEvent \<Rightarrow> VenueBook \<Rightarrow> VenueBook" where
  "track_unloaded event book =
     (let order = the_order event; kind = executionType event; i = orderId order;
          book = (if f_position event \<noteq> None \<or> is_fill kind
                  then commit (sync event (position_for event book)) else book);
          held = map_of (unloaded_orders book) i;
          set_orders = (\<lambda>d. book\<lparr>unloaded_orders := d\<rparr>)
      in if orderType order = STOP_LOSS_TAKE_PROFIT then book
         else if kind \<in> {ORDER_ACCEPTED, ORDER_REPLACED}
         then set_orders (AList.update i (pending_exposure order) (unloaded_orders book))
         else if kind = ORDER_PARTIAL_FILL \<and> held \<noteq> None then
           (let left = ctx (ex_units (the held) - volume_to_units (filledVolume (the_deal event)))
            in if left > 0
               then set_orders (AList.update i ((the held)\<lparr>ex_units := left\<rparr>) (unloaded_orders book))
               else set_orders (AList.delete i (unloaded_orders book)))
         else if kind = ORDER_FILLED \<or> ENDED_EVENT_KIND kind \<noteq> None
         then set_orders (AList.delete i (unloaded_orders book))
         else book)"

definition unloaded_activity :: "ProtoOAExecutionEvent \<Rightarrow> Record list" where
  "unloaded_activity event =
     (let order = the_order event; kind = executionType event; data = tradeData order;
          deal = the_deal event;
          position_side =
            (case f_position event of
               Some p \<Rightarrow> tradeSide (vp_tradeData p)
             | None \<Rightarrow> if closingOrder order then opposite (tradeSide data) else tradeSide data);
          build = (\<lambda>subject side units action ts. [R_Activity
            \<lparr>ac_kind = (if isStopOut order then STOP_OUT else UNLOADED_SYMBOL),
             ac_symbol_id = symbolId data, ac_subject = subject, ac_side = side,
             ac_units = units, ac_action = action, ac_ts_ms = ts\<rparr>])
      in if is_fill kind then
           build Subject_position position_side (volume_to_units (filledVolume deal))
             (if closingOrder order then
                (case f_position event of
                   Some p \<Rightarrow> if positionStatus p = POSITION_STATUS_OPEN then PARTIALLY_CLOSED else CLOSED
                 | None \<Rightarrow> CLOSED)
              else OPENED)
             (executionTimestamp deal)
         else if orderType order = STOP_LOSS_TAKE_PROFIT then
           (if kind \<notin> {ORDER_ACCEPTED, ORDER_REPLACED, ORDER_CANCELLED} then []
            else build Subject_position position_side
              (volume_to_units (case f_position event of
                 Some p \<Rightarrow> volume (vp_tradeData p) | None \<Rightarrow> volume data))
              CHANGED (utcLastUpdateTimestamp order))
         else if kind \<in> {ORDER_ACCEPTED, ORDER_REPLACED, ORDER_CANCELLED, ORDER_EXPIRED} then
           build Subject_order (tradeSide data) (volume_to_units (volume data))
             (if kind = ORDER_ACCEPTED then OPENED else if kind = ORDER_REPLACED then CHANGED else CLOSED)
             (utcLastUpdateTimestamp order)
         else [])"

definition unloaded_event ::
    "ProtoOAExecutionEvent \<Rightarrow> VenueBook \<Rightarrow> VenueBook \<times> Record list venue_result" where
  "unloaded_event event book = (track_unloaded event book, Inr (unloaded_activity event))"

subsection \<open>Events\<close>

definition event_key_of :: "ProtoOAExecutionEvent \<Rightarrow> event_key" where
  "event_key_of event =
     (let order = the_order event in
      case f_deal event of
        Some deal \<Rightarrow> DealKey (orderId order) (executionType event) (dealId deal)
      | None \<Rightarrow>
          OrderKey (orderId order) (executionType event) (utcLastUpdateTimestamp order)
            (f_stopPrice order) (f_limitPrice order) (map_option volume (f_tradeData order)))"

definition handle ::
    "book_env \<Rightarrow> ProtoOAExecutionEvent \<Rightarrow> OperationsInFlight \<Rightarrow> VenueBook \<Rightarrow>
     VenueBook \<times> OperationsInFlight \<times> Record list venue_result" where
  "handle env event ops book =
     (let order = the_order event in
      case precision_of env (symbolId (tradeData order)) of
        None \<Rightarrow> (case unloaded_event event book of (book, result) \<Rightarrow> (book, ops, result))
      | Some precision \<Rightarrow>
          if orderType order = STOP_LOSS_TAKE_PROFIT
          then protective_event env event precision ops book
          else if closingOrder order
          then (case closing_event env event precision ops book of
                  (book, result) \<Rightarrow> (book, ops, result))
          else (case opening_event env event precision book of
                  (book, result) \<Rightarrow> (book, ops, result)))"

definition carries_fill :: "ProtoOAExecutionEvent \<Rightarrow> bool" where
  "carries_fill event \<longleftrightarrow> is_fill (executionType event) \<and> f_deal event \<noteq> None"

text \<open>The marks \<open>apply\<close> makes once an event is handled: seen, its deal applied, its keep ended.\<close>

definition mark_applied :: "ProtoOAExecutionEvent \<Rightarrow> VenueBook \<Rightarrow> VenueBook" where
  "mark_applied event book =
     (let book = book\<lparr>seen := insert (event_key_of event) (seen book)\<rparr>;
          book = (if carries_fill event
                  then book\<lparr>applied_deals := insert (dealId (the_deal event)) (applied_deals book)\<rparr>
                  else book);
          i = positionId (the_order event);
          dropped = kept_positions book - {i}
      in if i \<notin> kept_positions book then book
         else case map_of (positions book) i of
           None \<Rightarrow> book\<lparr>kept_positions := dropped\<rparr>
         | Some position \<Rightarrow>
             if \<not> is_open position then book\<lparr>kept_positions := dropped\<rparr>
             else if kept_ms book \<le> event_ms event
             then book\<lparr>kept_positions := dropped, unconfirmed := insert i (unconfirmed book)\<rparr>
             else book)"

definition means_nothing :: "ProtoOAExecutionEvent \<Rightarrow> VenueBook \<Rightarrow> bool" where
  "means_nothing event book \<longleftrightarrow>
     f_order event = None \<or> positionId (the_order event) \<in> reconciled_closed book \<or>
     event_key_of event \<in> seen book \<or>
     carries_fill event \<and> dealId (the_deal event) \<in> applied_deals book"

definition apply_event ::
    "book_env \<Rightarrow> ProtoOAExecutionEvent \<Rightarrow> OperationsInFlight \<Rightarrow> VenueBook \<Rightarrow>
     VenueBook \<times> OperationsInFlight \<times> Record list venue_result" where
  "apply_event env event ops book =
     (if means_nothing event book then (book, ops, Inr [])
      else case handle env event ops book of
        (book, ops, Inl e) \<Rightarrow> (book, ops, Inl e)
      | (book, ops, Inr records) \<Rightarrow> (mark_applied event book, ops, Inr records))"

definition put_position :: "Position \<Rightarrow> VenueBook \<Rightarrow> VenueBook" where
  "put_position position book =
     book\<lparr>positions := AList.update (position_id position) position (positions book)\<rparr>"

definition trailing_stop_moved ::
    "book_env \<Rightarrow> ProtoOATrailingSLChangedEvent \<Rightarrow> VenueBook \<Rightarrow> VenueBook \<times> Record list venue_result" where
  "trailing_stop_moved env event book =
     (let key = TrailingKey (ts_orderId event) (ts_utcLastUpdateTimestamp event) (ts_stopPrice event);
          ts = ts_utcLastUpdateTimestamp event
      in case map_of (positions book) (ts_positionId event) of
           None \<Rightarrow> (book, Inr [])
         | Some position \<Rightarrow>
             (case precision_of env (p_symbol_id position) of
                None \<Rightarrow> (book, Inr [])
              | Some precision \<Rightarrow>
                  if key \<in> seen book \<or> protective_order_id position \<noteq> Some (ts_orderId event)
                  then (book, Inr [])
                  else if ts < protective_ms position
                  then (book\<lparr>seen := insert key (seen book)\<rparr>, Inr [])
                  else case price_of (ts_stopPrice event) precision of
                    Inl e \<Rightarrow> (book, Inl e)
                  | Inr price \<Rightarrow>
                      (let old_levels = p_levels position;
                           position = position\<lparr>p_levels := old_levels\<lparr>lv_stop_loss := Some price\<rparr>,
                             trailed_ms := max (trailed_ms position) ts\<rparr>;
                           (position, records) =
                             (if ours position then own_level_changes position old_levels False ts
                              else level_changes position old_levels ts (held_closed env));
                           book = put_position position book
                       in (book\<lparr>seen := insert key (seen book)\<rparr>, Inr records))))"

definition entry_found ::
    "book_env \<Rightarrow> int \<Rightarrow> ProtoOAOrder list \<Rightarrow> VenueBook \<Rightarrow> VenueBook \<times> Record list" where
  "entry_found env i orders book =
     (case (map_of (positions book) i, entry_of orders) of
        (Some position, Some entry) \<Rightarrow>
          (if entry_order_id position \<noteq> None then (book, [])
           else
             (let (position, records) = adopt position entry False {};
                  (position, level_records) =
                    (if ours position then (position, [])
                     else level_changes position no_levels (utcLastUpdateTimestamp entry)
                            (held_closed env))
              in (put_position position book, records @ level_records)))
      | _ \<Rightarrow> (book, []))"

subsection \<open>The node's own requests\<close>

definition reject_entry :: "string \<Rightarrow> LegIds \<Rightarrow> string \<Rightarrow> int \<Rightarrow> Record list" where
  "reject_entry client_order_id ids reason ts_ms =
     R_OrderEvent ((plain_event Ev_REJECTED None (Some client_order_id) ts_ms)\<lparr>oe_reason := Some reason\<rparr>)
     # concat (map (\<lambda>leg. case leg of
         None \<Rightarrow> []
       | Some i \<Rightarrow> [R_OrderEvent (plain_event Ev_CANCELED None (Some i) ts_ms)])
         [leg_stop_loss ids, leg_take_profit ids])"

definition protection_timed_out :: "int \<Rightarrow> VenueBook \<Rightarrow> Record list" where
  "protection_timed_out i book =
     (case map_of (positions book) i of
        None \<Rightarrow> []
      | Some position \<Rightarrow>
          if \<not> ours position \<or> \<not> is_open position then []
          else
            (let unprotected = (protective_order_id position = None);
                 missing = map (\<lambda>(level, leg). (level, l_client_order_id leg))
                   (filter (\<lambda>(_, leg). l_alive leg \<and> (unprotected \<or> \<not> l_accepted leg)) (legs position))
             in if missing = [] then []
                else [R_ProtectionMissing i (map_of missing STOP_LOSS) (map_of missing TAKE_PROFIT)]))"

definition cancel_book_leg ::
    "int \<Rightarrow> Level \<Rightarrow> int \<Rightarrow> VenueBook \<Rightarrow> VenueBook \<times> Record list" where
  "cancel_book_leg i level ts_ms book =
     (case map_of (positions book) i of
        None \<Rightarrow> (book, [])
      | Some position \<Rightarrow>
          (case map_of (legs position) level of
             None \<Rightarrow> (book, [])
           | Some leg \<Rightarrow>
               if \<not> l_alive leg \<or> level_get (p_levels position) level \<noteq> None then (book, [])
               else (put_position (position\<lparr>legs :=
                        AList.update level (leg\<lparr>l_alive := False\<rparr>) (legs position)\<rparr>) book,
                     [leg_event Ev_CANCELED position level leg ts_ms None None None])))"

definition reject_own_leg :: "Position \<Rightarrow> string \<Rightarrow> int \<Rightarrow> Level \<Rightarrow> Leg \<Rightarrow> Leg \<times> Record list" where
  "reject_own_leg position reason ts_ms level leg =
     (if l_alive leg \<and> \<not> l_accepted leg
      then (leg\<lparr>l_alive := False\<rparr>,
            [R_OrderEvent ((plain_event Ev_REJECTED (leg_id position level)
               (Some (l_client_order_id leg)) ts_ms)\<lparr>oe_reason := Some reason\<rparr>)])
      else (leg, []))"

definition reject_legs :: "int \<Rightarrow> string \<Rightarrow> int \<Rightarrow> VenueBook \<Rightarrow> VenueBook \<times> Record list" where
  "reject_legs i reason ts_ms book =
     (case map_of (positions book) i of
        None \<Rightarrow> (book, [])
      | Some position \<Rightarrow>
          (case over_own_legs (reject_own_leg position reason ts_ms) position of
             (position, records) \<Rightarrow> (put_position position book, records)))"

definition match_close :: "int \<Rightarrow> int \<Rightarrow> string \<Rightarrow> VenueBook \<Rightarrow> VenueBook" where
  "match_close order_id pos_id close_id book =
     (if map_of (matched_closes book) order_id \<noteq> None \<or> close_id \<in> snd ` set (matched_closes book)
      then book
      else book\<lparr>matched_closes := AList.update order_id close_id (matched_closes book),
                close_positions := AList.update order_id pos_id (close_positions book),
                closes_accepted := insert order_id (closes_accepted book)\<rparr>)"

definition awaits_close :: "int \<Rightarrow> VenueBook \<Rightarrow> bool" where
  "awaits_close i book \<longleftrightarrow>
     i \<in> kept_positions book \<or>
     i \<in> unconfirmed book \<and>
       (case map_of (positions book) i of None \<Rightarrow> False | Some position \<Rightarrow> is_open position)"

definition end_keep :: "int \<Rightarrow> VenueBook \<Rightarrow> VenueBook" where
  "end_keep i book =
     book\<lparr>kept_positions := kept_positions book - {i}, unconfirmed := unconfirmed book - {i}\<rparr>"

definition deal_applied :: "int \<Rightarrow> VenueBook \<Rightarrow> bool" where
  "deal_applied i book \<longleftrightarrow> i \<in> applied_deals book"

definition closed_in_reconciliation :: "int set \<Rightarrow> VenueBook \<Rightarrow> VenueBook" where
  "closed_in_reconciliation ids book = book\<lparr>reconciled_closed := ids\<rparr>"

subsection \<open>Loading a snapshot\<close>

text \<open>The node's legs this model held ended or accepted.\<close>

definition settled_legs :: "VenueBook \<Rightarrow> string set" where
  "settled_legs book =
     (\<Union>(_, position) \<in> set (positions book). (\<lambda>(_, leg). l_client_order_id leg) `
        set (filter (\<lambda>(_, leg). \<not> l_alive leg \<or> l_accepted leg) (legs position)))"

definition has_live_leg :: "Position \<Rightarrow> bool" where
  "has_live_leg position \<longleftrightarrow>
     list_ex (\<lambda>(_, leg). l_alive leg) (legs position) \<or>
     list_ex (\<lambda>(_, leg). fl_alive leg) (foreign_legs position)"

definition gone_positions :: "bool \<Rightarrow> int set \<Rightarrow> VenueBook \<Rightarrow> (int, Position) dict" where
  "gone_positions keep_gone listed book =
     filter (\<lambda>(i, position). keep_gone \<and> i \<notin> listed \<and> is_open position \<and> has_live_leg position)
       (positions book)"

text \<open>One position of the snapshot: the position reached, and its notices unless a price raises.\<close>

definition load_position ::
    "book_env \<Rightarrow> (int \<Rightarrow> ProtoOAOrder list) \<Rightarrow> string set \<Rightarrow> ProtoOAPosition \<Rightarrow>
     Position \<times> Record list venue_result" where
  "load_position env position_orders waiting vp =
     (let data = vp_tradeData vp;
          position = (new_Position (vp_positionId vp) (symbolId data) (tradeSide data))
            \<lparr>is_open := True, p_volume := volume data, opened_ms := position_opened_ms vp,
             p_updated_ms := vp_utcLastUpdateTimestamp vp, terms := Some (terms_of vp)\<rparr>
      in case (case precision_of env (p_symbol_id position) of
                 None \<Rightarrow> Inr no_levels
               | Some precision \<Rightarrow> position_levels vp precision) of
           Inl e \<Rightarrow> (position, Inl e)
         | Inr lv \<Rightarrow>
             (let position = position\<lparr>p_levels := lv\<rparr>;
                  (position, adopt_records) =
                    (case entry_of (position_orders (position_id position)) of
                       None \<Rightarrow> (position, [])
                     | Some entry \<Rightarrow> adopt position entry True waiting)
              in if list_ex (\<lambda>(_, leg). l_alive leg \<and> \<not> l_accepted leg) (legs position)
                 then (position\<lparr>awaiting_protection := True\<rparr>,
                       Inr (adopt_records @ [R_AwaitProtection (position_id position)]))
                 else (position, Inr adopt_records)))"

fun load_positions ::
    "book_env \<Rightarrow> (int \<Rightarrow> ProtoOAOrder list) \<Rightarrow> string set \<Rightarrow> ProtoOAPosition list \<Rightarrow> VenueBook \<Rightarrow>
     VenueBook \<times> Record list venue_result" where
  "load_positions env position_orders waiting [] book = (book, Inr [])"
| "load_positions env position_orders waiting (vp # vps) book =
     (case load_position env position_orders waiting vp of
        (position, Inl e) \<Rightarrow> (put_position position book, Inl e)
      | (position, Inr records) \<Rightarrow>
          (case load_positions env position_orders waiting vps (put_position position book) of
             (book, result) \<Rightarrow> (book, bind_result result (\<lambda>more_records. Inr (records @ more_records)))))"

definition load_order :: "book_env \<Rightarrow> ProtoOAOrder \<Rightarrow> VenueBook \<Rightarrow> VenueBook" where
  "load_order env order book =
     (if orderType order = STOP_LOSS_TAKE_PROFIT then
        (case map_of (positions book) (positionId order) of
           None \<Rightarrow> book
         | Some position \<Rightarrow>
             (let left = remaining_of order;
                  position = position\<lparr>protective_order_id := Some (orderId order),
                    protective_volume := left, protective_opened_ms := opened_of order,
                    protective_ms := (case f_utcLastUpdateTimestamp order of
                      None \<Rightarrow> protective_ms position | Some t \<Rightarrow> t),
                    legs := map (\<lambda>(level, leg).
                      (level, if l_accepted leg then leg\<lparr>l_quantity := left\<rparr> else leg)) (legs position)\<rparr>
              in put_position position book))
      else
        (let book = add_reported (orderId order) book in
         if precision_of env (symbolId (tradeData order)) = None
         then book\<lparr>unloaded_orders :=
                AList.update (orderId order) (pending_exposure order) (unloaded_orders book)\<rparr>
         else if orderType order \<in> set PENDING_ORDER_TYPES
         then book\<lparr>open_orders := AList.update (orderId order) order (open_orders book)\<rparr>
         else book))"

text \<open>The last loop: the legs of the positions the node did not open.\<close>

fun load_foreign ::
    "string list \<Rightarrow> (int, Position) dict \<Rightarrow> (int, Position) dict \<times> Record list" where
  "load_foreign closed_ids [] = ([], [])"
| "load_foreign closed_ids ((i, position) # ps) =
     (let (position, records) =
        (if \<not> ours position \<and> p_levels position \<noteq> no_levels then open_legs position closed_ids
         else (position, []));
          (ps, more_records) = load_foreign closed_ids ps
      in ((i, position) # ps, records @ more_records))"

definition load ::
    "book_env \<Rightarrow> ProtoOAReconcileRes \<Rightarrow> (int \<Rightarrow> ProtoOAOrder list) \<Rightarrow> bool \<Rightarrow> int \<Rightarrow> string set \<Rightarrow>
     VenueBook \<Rightarrow> VenueBook \<times> Record list venue_result" where
  "load env snapshot position_orders keep_gone read_ms waiting book =
     (let waiting = waiting - settled_legs book;
          gone = gone_positions keep_gone (vp_positionId ` set (snap_position snapshot)) book;
          book = book\<lparr>kept_ms := read_ms, kept_positions := fst ` set gone, unconfirmed := {},
            positions := [], unloaded_orders := [], reported := {}, open_orders := []\<rparr>
      in case load_positions env position_orders waiting (snap_position snapshot) book of
           (book, Inl e) \<Rightarrow> (book, Inl e)
         | (book, Inr notices) \<Rightarrow>
             (let book = fold (load_order env) (snap_order snapshot) book;
                  (ps, leg_records) = load_foreign (held_closed env) (positions book)
              in (book\<lparr>positions := fold (\<lambda>(i, position). AList.update i position) gone ps\<rparr>,
                  Inr (notices @ leg_records))))"

subsection \<open>Questions\<close>

record PositionView =
  v_position_id :: int
  v_symbol_id :: int
  v_side :: ProtoOATradeSide
  v_units :: decimal
  v_open :: bool
  v_ours :: bool
  v_entry_order_id :: "int option"
  v_entry_client_order_id :: "string option"
  v_protective_order_id :: "int option"
  v_levels :: levels
  v_legs :: "(Level, string \<times> bool) dict"
  v_leg_units :: "(Level, decimal) dict"
  v_foreign_legs :: "(Level, string) dict"
  v_terms :: "LevelTerms option"

definition view :: "int \<Rightarrow> VenueBook \<Rightarrow> PositionView option" where
  "view i book =
     map_option (\<lambda>position.
       (let live_foreign = filter (\<lambda>(_, leg). fl_alive leg) (foreign_legs position) in
        \<lparr>v_position_id = position_id position, v_symbol_id = p_symbol_id position,
         v_side = p_side position, v_units = volume_to_units (p_volume position),
         v_open = is_open position, v_ours = ours position,
         v_entry_order_id = entry_order_id position,
         v_entry_client_order_id = entry_client_order_id position,
         v_protective_order_id = protective_order_id position, v_levels = p_levels position,
         v_legs = map (\<lambda>(level, leg). (level, (l_client_order_id leg, l_alive leg))) (legs position),
         v_leg_units =
           fold (\<lambda>(level, units). AList.update level units)
             (map (\<lambda>(level, leg). (level, volume_to_units (fl_quantity leg))) live_foreign)
             (map (\<lambda>(level, leg). (level, volume_to_units (l_quantity leg)))
               (filter (\<lambda>(_, leg). l_alive leg \<and> l_accepted leg) (legs position))),
         v_foreign_legs = map (\<lambda>(level, leg). (level, fl_venue_order_id leg)) live_foreign,
         v_terms = terms position\<rparr>))
       (map_of (positions book) i)"

definition exposure :: "book_env \<Rightarrow> VenueBook \<Rightarrow> Exposure list" where
  "exposure env book =
     sort_key (\<lambda>e. (ex_symbol_id e, (if ex_subject e = Subject_order then 0 else 1 :: nat),
                    ex_side e, ex_units e))
       (map (\<lambda>(_, position). \<lparr>ex_symbol_id = p_symbol_id position, ex_subject = Subject_position,
              ex_side = p_side position, ex_units = volume_to_units (p_volume position)\<rparr>)
          (filter (\<lambda>(_, position). is_open position \<and> precision_of env (p_symbol_id position) = None)
            (positions book))
        @ map snd (unloaded_orders book))"

definition open_positions :: "VenueBook \<Rightarrow> OpenPosition list" where
  "open_positions book =
     sort_key (\<lambda>p. (op_position_id p, op_symbol_id p, op_side p, op_units p))
       (map (\<lambda>(_, position). \<lparr>op_position_id = position_id position,
              op_symbol_id = p_symbol_id position, op_side = p_side position,
              op_units = volume_to_units (p_volume position)\<rparr>)
          (filter (\<lambda>(_, position). is_open position) (positions book)))"

definition updated_ms :: "int \<Rightarrow> VenueBook \<Rightarrow> int" where
  "updated_ms i book =
     (case map_of (positions book) i of None \<Rightarrow> -1 | Some position \<Rightarrow> p_updated_ms position)"

text \<open>The inner None would be the \<open>KeyError\<close> of a close matched without its position.\<close>

definition close_order :: "string \<Rightarrow> VenueBook \<Rightarrow> (int \<times> int option) option" where
  "close_order client_order_id book =
     map_option (\<lambda>(order_id, _). (order_id, map_of (close_positions book) order_id))
       (find (\<lambda>(_, close_id). close_id = client_order_id) (matched_closes book))"

fun leg_in :: "string \<Rightarrow> (Level, Leg) dict \<Rightarrow> Level option" where
  "leg_in client_order_id [] = None"
| "leg_in client_order_id ((level, leg) # ls) =
     (if l_client_order_id leg = client_order_id then Some level else leg_in client_order_id ls)"

fun leg_position_in :: "string \<Rightarrow> (int, Position) dict \<Rightarrow> (int \<times> Level) option" where
  "leg_position_in client_order_id [] = None"
| "leg_position_in client_order_id ((_, position) # ps) =
     (case leg_in client_order_id (legs position) of
        Some level \<Rightarrow> Some (position_id position, level)
      | None \<Rightarrow> leg_position_in client_order_id ps)"

definition leg_position :: "string \<Rightarrow> VenueBook \<Rightarrow> (int \<times> Level) option" where
  "leg_position client_order_id book = leg_position_in client_order_id (positions book)"

definition entry_position :: "int \<Rightarrow> VenueBook \<Rightarrow> int option" where
  "entry_position entry book =
     map_option (\<lambda>(_, position). position_id position)
       (find (\<lambda>(_, position). entry_order_id position = Some entry) (positions book))"

definition foreign_leg_position :: "string \<Rightarrow> VenueBook \<Rightarrow> (int \<times> Level) option" where
  "foreign_leg_position venue_order_id book =
     (case parse_leg_venue_order_id venue_order_id of
        None \<Rightarrow> None
      | Some (entry, level, _) \<Rightarrow>
          (case entry_position entry book of
             None \<Rightarrow> None
           | Some i \<Rightarrow>
               (case map_of (positions book) i of
                  None \<Rightarrow> None
                | Some position \<Rightarrow> if ours position then None else Some (i, level))))"

definition open_order :: "int \<Rightarrow> VenueBook \<Rightarrow> ProtoOAOrder option" where
  "open_order i book = map_of (open_orders book) i"

definition standing_order ::
    "book_env \<Rightarrow> int \<Rightarrow> int \<Rightarrow> VenueBook \<Rightarrow> Record list venue_result" where
  "standing_order env i ts_ms book =
     (case map_of (open_orders book) i of
        None \<Rightarrow> Inr []
      | Some order \<Rightarrow>
          (case precision_of env (symbolId (tradeData order)) of
             None \<Rightarrow> Inr []
           | Some precision \<Rightarrow> bind_result (order_updated order precision ts_ms) (\<lambda>r. Inr [r])))"

end
