(* ===== verification/Venue_Book_Fills.thy ===== *)
theory Venue_Book_Fills
  imports Venue_Book "HOL-Library.Multiset"
begin

text \<open>
  What \<open>VenueBook.apply\<close> tells Nautilus of deals. Every fill the handlers report is followed
  through the records they build: handling a fill of a loaded symbol reports that deal exactly
  once, handling anything else reports none, and over any run of events no deal is told twice.
\<close>

subsection \<open>The fills a list of records reports\<close>

definition record_fills :: "Record \<Rightarrow> Fill list" where
  "record_fills r =
     (case r of
        R_OrderEvent e \<Rightarrow> (case oe_fill e of None \<Rightarrow> [] | Some f \<Rightarrow> [f])
      | R_ExternalOrder x \<Rightarrow> xo_fills x
      | _ \<Rightarrow> [])"

definition fills :: "Record list \<Rightarrow> Fill list" where
  "fills records = concat (map record_fills records)"

named_theorems fills_simps \<open>the fills of the records each builder makes\<close>

lemma fills_basic [simp]:
  "fills [] = []" "fills (r # rs) = record_fills r @ fills rs" "fills (rs @ ss) = fills rs @ fills ss"
  by (simp_all add: fills_def)

lemma record_fills_event [fills_simps]:
  "record_fills (leg_event k p l leg ts q pr None) = []"
  "record_fills (leg_event k p l leg ts q pr (Some f)) = [f]"
  "record_fills (activity ak p a ts u) = []"
  "record_fills (R_Notice n) = []"
  "record_fills (R_Activity act) = []"
  "record_fills (R_AwaitProtection i) = []"
  "record_fills (R_EntryUnknown i) = []"
  "record_fills (unnamed_close p d) = []"
  "record_fills (filled_event v c f) = [f]"
  "record_fills (ended_event ek v c ts er) = []"
  "record_fills (canceled_leg fl ts) = []"
  "record_fills (R_OrderEvent (plain_event ek vi ci ts)) = []"
  "record_fills (R_OrderEvent (resized fl ts)) = []"
  "record_fills (R_OrderEvent (moved fl l pz ts)) = []"
  "record_fills (R_ExternalOrder (foreign_leg v l s i side pz vz ts ac)) = []"
  by (simp_all add: record_fills_def leg_event_def activity_def unnamed_close_def filled_event_def
      ended_event_def canceled_leg_def plain_event_def resized_def moved_def foreign_leg_def
      leg_prices_def)

lemma each_leg_Cons:
  "each_leg f (x # xs) =
     ((fst x, fst (f (snd x))) # fst (each_leg f xs), snd (f (snd x)) @ snd (each_leg f xs))"
  by (cases x) (simp add: case_prod_unfold)

lemma each_own_leg_Cons:
  "each_own_leg f (x # xs) =
     ((fst x, fst (f (fst x) (snd x))) # fst (each_own_leg f xs),
      snd (f (fst x) (snd x)) @ snd (each_own_leg f xs))"
  by (cases x) (simp add: case_prod_unfold)

lemma fills_each_leg:
  "(\<And>leg. fills (snd (f leg)) = []) \<Longrightarrow> fills (snd (each_leg f ls)) = []"
  by (induction ls) (simp_all add: each_leg_Cons)

lemma fills_each_own_leg:
  "(\<And>l leg. fills (snd (f l leg)) = []) \<Longrightarrow> fills (snd (each_own_leg f ls)) = []"
  by (induction ls) (simp_all add: each_own_leg_Cons)

lemma fills_over_own_legs:
  "(\<And>l leg. fills (snd (f l leg)) = []) \<Longrightarrow> fills (snd (over_own_legs f p)) = []"
  using fills_each_own_leg [of f "legs p"] by (simp add: over_own_legs_def case_prod_unfold)

lemma fills_cancel_legs [fills_simps]: "fills (snd (cancel_legs p ts)) = []"
  unfolding cancel_legs_def by (rule fills_over_own_legs) (simp add: cancel_own_leg_def fills_simps)

lemma fills_cancel_all [fills_simps]: "fills (snd (cancel_all p ts)) = []"
  using fills_each_leg [of "cancel_leg ts" "foreign_legs p"]
  by (simp add: cancel_all_parts cancel_leg_def fills_simps)

lemma fills_closed_by [fills_simps]: "fills (snd (closed_by p d)) = []"
  by (simp add: closed_by_def Let_def case_prod_unfold fills_simps)

lemma fills_finish_closed [fills_simps]: "fills (snd (finish_closed c d w)) = []"
  by (simp add: finish_closed_def case_prod_unfold fills_simps)

lemma fills_adopt [fills_simps]: "fills (snd (adopt p o1 r w)) = []"
  by (simp add: adopt_def Let_def fills_simps split: option.split)

lemma fills_own_level_change: "fills (snd (own_level_change old m ts l p)) = []"
  by (simp add: own_level_change_def Let_def fills_simps)

lemma fills_own_level_changes [fills_simps]: "fills (snd (own_level_changes p old m ts)) = []"
proof -
  have "fills (snd (over_own_legs (resize_own_leg q ts) q)) = []" for q
    by (rule fills_over_own_legs) (simp add: resize_own_leg_def Let_def fills_simps)
  then show ?thesis
    by (simp add: own_level_changes_def Let_def case_prod_unfold fills_own_level_change)
qed

lemma fills_level_change: "fills (snd (level_change e old ts h l p)) = []"
  by (simp add: level_change_def new_leg_def Let_def case_prod_unfold fills_simps split: option.split)

lemma fills_level_changes [fills_simps]: "fills (snd (level_changes p old ts h)) = []"
proof (cases "entry_order_id p")
  case None
  then show ?thesis by (simp add: level_changes_def entry_unknown_def fills_simps)
next
  case (Some e)
  show ?thesis
  proof (rule level_changes_parts [OF Some, of old ts h])
    fix p1 r1 p2 r2
    assume "level_change e old ts h STOP_LOSS p = (p1, r1)"
      and "level_change e old ts h TAKE_PROFIT p1 = (p2, r2)"
      and all: "level_changes p old ts h =
       (p2\<lparr>foreign_legs := fst (each_leg (resize_leg (rest p2) ts) (foreign_legs p2))\<rparr>,
        r1 @ r2 @ snd (each_leg (resize_leg (rest p2) ts) (foreign_legs p2)))"
    then have "fills r1 = []" "fills r2 = []"
      using fills_level_change [of e old ts h STOP_LOSS p]
        fills_level_change [of e old ts h TAKE_PROFIT p1] by simp_all
    moreover have "fills (snd (each_leg (resize_leg (rest p2) ts) (foreign_legs p2))) = []"
      by (rule fills_each_leg) (simp add: resize_leg_def Let_def fills_simps)
    ultimately show ?thesis by (simp add: all)
  qed
qed

lemma fills_filled [fills_simps]: "fills (snd (filled leg v f)) = [f]"
  by (simp add: filled_def Let_def fills_simps) (simp add: record_fills_def)

subsection \<open>What each handler tells of a deal\<close>

text \<open>A fill's deal is told exactly once, anything else tells none.\<close>

definition tells_deal :: "book_env \<Rightarrow> ProtoOAExecutionEvent \<Rightarrow> nat \<Rightarrow> Record list \<Rightarrow> bool" where
  "tells_deal env event precision records \<longleftrightarrow>
     (if is_fill (executionType event)
      then \<exists>f. fill_of (the_deal event) precision (money_digits env) = Inr f \<and> fills records = [f]
      else fills records = [])"

lemma external_report_fills:
  "external_report o1 n ro fs ot lv = Inr x \<Longrightarrow> record_fills (R_ExternalOrder x) = fs"
  by (auto simp: external_report_def Let_def bind_result_Inr record_fills_def)

lemma order_updated_fills: "order_updated o1 n ts = Inr r \<Longrightarrow> record_fills r = []"
  by (auto simp: order_updated_def bind_result_Inr record_fills_def plain_event_def)

lemma not_fill [simp]:
  "\<not> is_fill ORDER_ACCEPTED" "\<not> is_fill ORDER_REPLACED" "\<not> is_fill ORDER_CANCELLED"
  "ENDED_EVENT_KIND k = Some e \<Longrightarrow> \<not> is_fill k"
  by (auto simp: is_fill_def)

lemma external_event_tells:
  "snd (external_event env ev n ro b) = Inr rs \<Longrightarrow> tells_deal env ev n rs"
  by (auto simp: external_event_def Let_def case_prod_unfold tells_deal_def fills_simps
      bind_result_Inr external_report_fills order_updated_fills split: if_splits sum.splits option.splits)

lemma entry_event_tells:
  "snd (entry_event env ev n w) = Inr rs \<Longrightarrow> tells_deal env ev n rs"
  by (auto simp: entry_event_def entry_filled_def entry_ended_def entry_acceptance_def Let_def
      case_prod_unfold tells_deal_def fills_simps split: if_splits sum.splits option.splits)

lemma opening_prepared_fills: "fills (snd (snd (opening_prepared ev b))) = []"
  by (simp add: opening_prepared_def opening_adopted_def Let_def case_prod_unfold fills_simps)

lemma opening_finished_fills: "fills (snd (opening_finished ev w)) = []"
  by (simp add: opening_finished_def Let_def case_prod_unfold fills_simps)

lemma tells_deal_around:
  "tells_deal env ev n rs \<Longrightarrow> fills before = [] \<Longrightarrow> fills after = [] \<Longrightarrow>
   tells_deal env ev n (before @ rs @ after)"
  by (simp add: tells_deal_def split: if_splits)

lemma tells_deal_after:
  "tells_deal env ev n rs \<Longrightarrow> fills after = [] \<Longrightarrow> tells_deal env ev n (rs @ after)"
  using tells_deal_around [of env ev n rs "[]" after] by simp

lemma opening_external_tells:
  assumes "snd (opening_external env ev n learnt w) = Inr rs"
  shows "tells_deal env ev n rs"
proof -
  from assms obtain xs ys where "snd (external_event env ev n False (w_book w)) = Inr xs"
    and "rs = xs @ ys" "fills ys = []"
    by (fastforce simp: opening_external_def external_working_def Let_def case_prod_unfold fills_simps
        split: sum.splits if_splits)
  then show ?thesis by (auto intro: tells_deal_after external_event_tells)
qed

lemma opening_event_tells:
  assumes "snd (opening_event env ev n b) = Inr rs"
  shows "tells_deal env ev n rs"
proof (cases "orderId (the_order ev) \<in> ended_entries b \<and> \<not> is_fill (executionType ev)")
  case True
  with assms show ?thesis by (simp add: opening_event_def tells_deal_def)
next
  case False
  let ?prep = "opening_prepared ev b"
  let ?rep = "opening_reported env ev n (fst (snd ?prep)) (fst ?prep)"
  from False assms obtain xs where xs: "snd ?rep = Inr xs"
    and rs: "rs = snd (snd ?prep) @ xs @ snd (opening_finished ev (fst ?rep))"
    by (auto simp: opening_event_def Let_def case_prod_unfold split: sum.splits)
  have "tells_deal env ev n xs"
    using xs by (auto simp: opening_reported_def intro: entry_event_tells opening_external_tells
        split: if_splits)
  then show ?thesis
    unfolding rs by (intro tells_deal_around opening_prepared_fills opening_finished_fills)
qed

lemma triggered_fill_fills:
  "snd (triggered_fill o1 n v f level lv w) = Inr rs \<Longrightarrow> fills rs = [f]"
  by (auto simp: triggered_fill_def Let_def case_prod_unfold fills_simps bind_result_Inr
      external_report_fills split: if_splits)

lemma which_level_fills: "fills (snd (which_level side lv p)) = []"
  by (simp add: which_level_def Let_def fills_simps split: option.split)

lemma triggered_tells:
  assumes "snd (triggered env ev n w) = Inr rs"
  shows "\<exists>f. fill_of (the_deal ev) n (money_digits env) = Inr f \<and> fills rs = [f]"
  using assms
  by (auto simp: triggered_def Let_def case_prod_unfold fills_simps bind_result_Inr which_level_fills
      dest!: triggered_fill_fills split: sum.splits if_splits)

lemma protective_changed_fills: "fills (snd (snd (protective_changed env ev old ops w))) = []"
  by (simp add: protective_changed_def Let_def case_prod_unfold fills_simps)

lemma protective_event_tells:
  assumes "snd (snd (protective_event env ev n ops b)) = Inr rs"
  shows "tells_deal env ev n rs"
proof (cases "is_fill (executionType ev)")
  case True
  with assms obtain xs where "snd (triggered env ev n (position_for ev b)) = Inr xs"
    "fills rs = fills xs"
    by (auto simp: protective_event_def Let_def case_prod_unfold bind_result_Inr fills_simps
        split: if_splits)
  with True triggered_tells show ?thesis by (fastforce simp: tells_deal_def)
next
  case False
  with assms show ?thesis
    by (auto simp: protective_event_def Let_def case_prod_unfold tells_deal_def
        protective_changed_fills split: if_splits sum.splits prod.splits)
qed

lemma node_close_tells:
  "snd (node_close env ev i n b) = Inr rs \<Longrightarrow> tells_deal env ev n rs"
  by (auto simp: node_close_def Let_def tells_deal_def fills_simps
      split: if_splits sum.splits option.splits)

lemma close_activity_fills: "fills (close_activity ev p) = []"
  by (simp add: close_activity_def Let_def fills_simps)

lemma closing_reported_tells:
  "snd (closing_reported env ev n p i b) = Inr rs \<Longrightarrow> tells_deal env ev n rs"
  by (auto simp: closing_reported_def case_prod_unfold bind_result_Inr close_activity_fills
      split: option.splits intro: node_close_tells tells_deal_after external_event_tells)

lemma closing_event_tells:
  assumes "snd (closing_event env ev n ops b) = Inr rs"
  shows "tells_deal env ev n rs"
proof -
  from assms obtain before xs after p i d where "snd (closing_reported env ev n p i d) = Inr xs"
    and rs: "rs = before @ xs @ after" and "fills before = []" "fills after = []"
    by (fastforce simp: closing_event_def Let_def case_prod_unfold fills_simps split: sum.splits)
  then show ?thesis unfolding rs by (intro tells_deal_around closing_reported_tells)
qed

lemma handle_tells:
  assumes "precision_of env (symbolId (tradeData (the_order ev))) = Some n"
    and "snd (snd (handle env ev ops b)) = Inr rs"
  shows "tells_deal env ev n rs"
  using assms
  by (auto simp: handle_def Let_def case_prod_unfold intro: protective_event_tells closing_event_tells
      opening_event_tells split: if_splits)

lemma handle_unloaded:
  assumes "precision_of env (symbolId (tradeData (the_order ev))) = None"
  shows "handle env ev ops b = (track_unloaded ev b, ops, Inr (unloaded_activity ev))"
  using assms by (simp add: handle_def unloaded_event_def)

lemma unloaded_activity_only: "r \<in> set (unloaded_activity ev) \<Longrightarrow> \<exists>a. r = R_Activity a"
  by (auto simp: unloaded_activity_def Let_def split: if_splits)

subsection \<open>Marks\<close>

text \<open>What no handler touches: only \<open>apply\<close> itself marks an event as handled.\<close>

definition marks :: "VenueBook \<Rightarrow> event_key set \<times> int set \<times> int set \<times> int set \<times> int set \<times> int" where
  "marks b = (seen b, applied_deals b, reconciled_closed b, kept_positions b, unconfirmed b, kept_ms b)"

lemma marks_commit [frame_simps]: "marks (commit w) = marks (w_book w)"
  by (simp add: marks_def commit_def)

text \<open>Where only the book is asked for, the position written back is not looked into.\<close>

lemma w_position_cong: "w = w' \<Longrightarrow> w_position_update f w = w_position_update f w'"
  by simp

lemma marks_position_for [frame_simps]: "w_book (position_for ev b) = b"
  by (simp add: position_for_def Let_def case_prod_unfold split: option.split)

lemma marks_sync [frame_simps]: "marks (w_book (sync ev w)) = marks (w_book w)"
  by (simp add: marks_def sync_def Let_def split: option.split)

lemma marks_keep_open_order [frame_simps]: "marks (fst (keep_open_order ev k b)) = marks b"
  by (simp add: marks_def keep_open_order_def Let_def split: option.split)

lemma marks_add_reported [frame_simps]: "marks (add_reported i b) = marks b"
  by (simp add: marks_def add_reported_def)

lemma marks_external_event [frame_simps]: "marks (fst (external_event env ev n ro b)) = marks b"
  by (simp add: external_event_def Let_def case_prod_unfold frame_simps split: sum.split option.split)

lemma marks_entry_event [frame_simps]:
  "marks (w_book (fst (entry_event env ev n w))) = marks (w_book w)"
proof -
  have ended: "marks (b\<lparr>ended_entries := x, positions := y\<rparr>) = marks b" for b x y
    by (simp add: marks_def)
  show ?thesis
    by (simp add: entry_event_def entry_ended_def Let_def case_prod_unfold ended
        cong: w_position_cong split: sum.split option.split)
qed

lemma marks_opening_prepared [frame_simps]: "marks (w_book (fst (opening_prepared ev b))) = marks b"
  by (simp add: opening_prepared_def opening_adopted_def Let_def case_prod_unfold frame_simps cong: w_position_cong)

lemma marks_opening_external [frame_simps]:
  "marks (w_book (fst (opening_external env ev n learnt w))) = marks (w_book w)"
  by (simp add: opening_external_def external_working_def Let_def case_prod_unfold frame_simps
      cong: w_position_cong split: sum.split)

lemma marks_opening_finished [frame_simps]: "w_book (fst (opening_finished ev w)) = w_book w"
  by (simp add: opening_finished_def Let_def case_prod_unfold cong: w_position_cong)

lemma marks_opening_event [frame_simps]: "marks (fst (opening_event env ev n b)) = marks b"
  by (simp add: opening_event_def opening_reported_def Let_def case_prod_unfold frame_simps
      split: sum.split)

lemma marks_finish_closed [frame_simps]: "w_book (fst (finish_closed c d w)) = w_book w"
  by (simp add: finish_closed_def case_prod_unfold)

lemma marks_triggered_fill [frame_simps]:
  "marks (w_book (fst (triggered_fill o1 n v f level lv w))) = marks (w_book w)"
  by (simp add: triggered_fill_def Let_def case_prod_unfold frame_simps cong: w_position_cong)

lemma marks_triggered [frame_simps]: "marks (w_book (fst (triggered env ev n w))) = marks (w_book w)"
  by (simp add: triggered_def Let_def case_prod_unfold frame_simps cong: w_position_cong
      split: sum.split)

lemma marks_protective_event [frame_simps]: "marks (fst (protective_event env ev n ops b)) = marks b"
  by (simp add: protective_event_def protective_changed_def Let_def case_prod_unfold frame_simps
      cong: w_position_cong split: sum.split)

lemma marks_node_close [frame_simps]: "marks (fst (node_close env ev i n b)) = marks b"
  by (simp add: node_close_def Let_def marks_def split: sum.split option.split)

lemma marks_match_closing [frame_simps]: "marks (fst (match_closing ev ops p b)) = marks b"
  by (simp add: match_closing_def Let_def marks_def split: option.split)

lemma marks_closing_reported [frame_simps]: "marks (fst (closing_reported env ev n p i b)) = marks b"
  by (simp add: closing_reported_def case_prod_unfold frame_simps split: option.split)

lemma marks_closing_event [frame_simps]: "marks (fst (closing_event env ev n ops b)) = marks b"
  by (simp add: closing_event_def Let_def case_prod_unfold frame_simps split: sum.split)

lemma marks_track_unloaded [frame_simps]: "marks (track_unloaded ev b) = marks b"
proof -
  have orders: "marks (b\<lparr>unloaded_orders := d\<rparr>) = marks b" for b d by (simp add: marks_def)
  show ?thesis by (simp add: track_unloaded_def Let_def frame_simps orders)
qed

lemma marks_handle [frame_simps]: "marks (fst (handle env ev ops b)) = marks b"
  by (simp add: handle_def unloaded_event_def Let_def case_prod_unfold frame_simps split: option.split)

text \<open>A call that raises leaves the marks alone, one that returns sets them.\<close>

lemma apply_event_raises:
  "apply_event env ev ops b = (b', ops', Inl e) \<Longrightarrow> marks b' = marks b \<and> \<not> means_nothing ev b"
  using marks_handle [of env ev ops b]
  by (auto simp: apply_event_def split: if_splits prod.splits sum.splits)

lemma mark_applied_marks:
  "seen (mark_applied ev b) = insert (event_key_of ev) (seen b)"
  "applied_deals (mark_applied ev b) =
     (if carries_fill ev then insert (dealId (the_deal ev)) (applied_deals b) else applied_deals b)"
  "reconciled_closed (mark_applied ev b) = reconciled_closed b"
  by (simp_all add: mark_applied_def Let_def split: option.split)

lemma apply_event_marks:
  assumes "apply_event env ev ops b = (b', ops', r)"
  shows "seen b \<subseteq> seen b'" "applied_deals b \<subseteq> applied_deals b'"
    and "r = Inr rs \<Longrightarrow> \<not> means_nothing ev b \<Longrightarrow> event_key_of ev \<in> seen b'"
    and "r = Inr rs \<Longrightarrow> carries_fill ev \<Longrightarrow> \<not> means_nothing ev b \<Longrightarrow>
      dealId (the_deal ev) \<in> applied_deals b'"
  using assms marks_handle [of env ev ops b]
  by (auto simp: apply_event_def marks_def mark_applied_marks split: if_splits prod.splits sum.splits)

subsection \<open>Steps of the book\<close>

text \<open>
  Every operation that changes the book, as the execution client calls them: what happens while
  the book is live, and its rebuild from a snapshot.
\<close>

inductive live_step :: "VenueBook \<Rightarrow> VenueBook \<Rightarrow> bool" where
  step_apply: "live_step b (fst (apply_event env ev ops b))"
| step_trailing: "live_step b (fst (trailing_stop_moved env tev b))"
| step_entry_found: "live_step b (fst (entry_found env i orders b))"
| step_cancel_leg: "live_step b (fst (cancel_book_leg i level ts b))"
| step_reject_legs: "live_step b (fst (reject_legs i reason ts b))"
| step_match_close: "live_step b (match_close i p close_id b)"
| step_end_keep: "live_step b (end_keep i b)"
| step_reconciled: "live_step b (closed_in_reconciliation ids b)"

inductive_cases live_stepE: "live_step b b'"

inductive book_step :: "VenueBook \<Rightarrow> VenueBook \<Rightarrow> bool" where
  step_live: "live_step b b' \<Longrightarrow> book_step b b'"
| step_load: "book_step b (fst (load env snapshot position_orders keep_gone read_ms waiting b))"

inductive_cases book_stepE: "book_step b b'"

definition handled :: "VenueBook \<Rightarrow> event_key set \<times> int set" where
  "handled b = (seen b, applied_deals b)"

lemma handled_put_position [frame_simps]: "handled (put_position p b) = handled b"
  by (simp add: handled_def put_position_def)

lemma trailing_seen:
  "seen b \<subseteq> seen (fst (trailing_stop_moved env tev b)) \<and>
   applied_deals (fst (trailing_stop_moved env tev b)) = applied_deals b"
  by (auto simp: trailing_stop_moved_def Let_def case_prod_unfold put_position_def
      split: option.split sum.split)

lemma handled_entry_found [frame_simps]: "handled (fst (entry_found env i orders b)) = handled b"
  by (simp add: entry_found_def Let_def case_prod_unfold frame_simps split: option.split)

lemma handled_load_positions [frame_simps]:
  "handled (fst (load_positions env po w vps b)) = handled b"
proof (induction vps arbitrary: b)
  case (Cons vp vps)
  then show ?case
    by (simp add: case_prod_unfold frame_simps split: prod.split sum.split)
qed simp

lemma handled_load_order: "handled (load_order env o1 b) = handled b"
  by (simp add: load_order_def Let_def frame_simps split: option.split)
    (simp add: handled_def add_reported_def)

lemma handled_load_orders [frame_simps]: "handled (fold (load_order env) os b) = handled b"
  by (induction os arbitrary: b) (simp_all add: handled_load_order)

lemma handled_load [frame_simps]:
  "handled (fst (load env snapshot po keep_gone read_ms waiting b)) = handled b"
proof -
  have set_positions: "handled (b\<lparr>positions := x\<rparr>) = handled b" for b x
    by (simp add: handled_def)
  have start: "handled (b\<lparr>kept_ms := a, kept_positions := c, unconfirmed := {}, positions := [],
      unloaded_orders := [], reported := {}, open_orders := []\<rparr>) = handled b" for a c
    by (simp add: handled_def)
  show ?thesis
    using handled_load_positions [of env po "waiting - settled_legs b" "snap_position snapshot"]
    by (auto simp: load_def Let_def case_prod_unfold frame_simps set_positions start
        split: prod.split sum.split dest!: arg_cong [of _ _ fst])
qed

lemma live_step_handled:
  assumes "live_step b b'"
  shows "seen b \<subseteq> seen b' \<and> applied_deals b \<subseteq> applied_deals b'"
  using assms
proof cases
  case (step_apply env ev ops)
  then show ?thesis
    using apply_event_marks(1,2) [of env ev ops b] by (metis prod.collapse)
next
  case (step_trailing env tev)
  then show ?thesis using trailing_seen by blast
next
  case (step_entry_found env i orders)
  then show ?thesis using handled_entry_found [of env i orders b] by (simp add: handled_def)
next
  case (step_cancel_leg i level ts)
  then show ?thesis by (auto simp: cancel_book_leg_def put_position_def split: option.split)
next
  case (step_reject_legs i reason ts)
  then show ?thesis by (auto simp: reject_legs_def put_position_def split: option.split prod.split)
qed (auto simp: match_close_def end_keep_def closed_in_reconciliation_def)

lemma book_step_handled:
  assumes "book_step b b'"
  shows "seen b \<subseteq> seen b' \<and> applied_deals b \<subseteq> applied_deals b'"
  using assms
proof cases
  case step_live
  then show ?thesis by (rule live_step_handled)
next
  case (step_load env snapshot po kg r w)
  then show ?thesis using handled_load [of env snapshot po kg r w b] by (simp add: handled_def)
qed

lemma book_steps_handled:
  assumes "book_step\<^sup>*\<^sup>* b b'"
  shows "seen b \<subseteq> seen b' \<and> applied_deals b \<subseteq> applied_deals b'"
  using assms by (induction rule: rtranclp_induct) (use book_step_handled in blast)+

subsection \<open>Runs of events\<close>

text \<open>The records of a run: an event whose handling raises tells nothing.\<close>

fun apply_all ::
    "(book_env \<times> ProtoOAExecutionEvent) list \<Rightarrow> OperationsInFlight \<Rightarrow> VenueBook \<Rightarrow>
     VenueBook \<times> OperationsInFlight \<times> Record list" where
  "apply_all [] ops b = (b, ops, [])"
| "apply_all ((env, ev) # evs) ops b =
     (case apply_event env ev ops b of (b, ops, result) \<Rightarrow>
      case apply_all evs ops b of (b, ops, records) \<Rightarrow>
        (b, ops, (case result of Inl e \<Rightarrow> [] | Inr rs \<Rightarrow> rs) @ records))"

text \<open>An execution that fills carries its deal.\<close>

definition fills_carry_deals :: "ProtoOAExecutionEvent \<Rightarrow> bool" where
  "fills_carry_deals ev \<longleftrightarrow> (is_fill (executionType ev) \<longrightarrow> f_deal ev \<noteq> None)"

lemma fill_of_trade_id: "fill_of d n m = Inr f \<Longrightarrow> trade_id f = int_text (dealId d)"
  by (auto simp: fill_of_def bind_result_Inr)

lemma unloaded_fills: "fills (unloaded_activity ev) = []"
  by (simp add: unloaded_activity_def Let_def fills_simps split: option.split)

text \<open>What applying one event tells of deals, and what it marks.\<close>

lemma apply_event_tells:
  assumes ap: "apply_event env ev ops b = (b', ops', Inr rs)" and carry: "fills_carry_deals ev"
  shows "fills rs = [] \<or>
    (\<exists>f. fills rs = [f] \<and> trade_id f = int_text (dealId (the_deal ev)) \<and>
       dealId (the_deal ev) \<notin> applied_deals b \<and> dealId (the_deal ev) \<in> applied_deals b')"
proof (cases "means_nothing ev b")
  case True
  with ap show ?thesis by (simp add: apply_event_def)
next
  case False
  with ap have rs: "snd (snd (handle env ev ops b)) = Inr rs"
    by (auto simp: apply_event_def split: prod.splits sum.splits)
  show ?thesis
  proof (cases "precision_of env (symbolId (tradeData (the_order ev)))")
    case None
    with rs show ?thesis using unloaded_fills [of ev] by (auto simp: handle_unloaded)
  next
    case (Some n)
    from handle_tells [OF this rs] have tells: "tells_deal env ev n rs" .
    show ?thesis
    proof (cases "is_fill (executionType ev)")
      case True
      then have "carries_fill ev" using carry by (simp add: carries_fill_def fills_carry_deals_def)
      moreover from this False have "dealId (the_deal ev) \<notin> applied_deals b"
        by (simp add: means_nothing_def)
      moreover note apply_event_marks(4) [OF ap refl]
      ultimately show ?thesis
        using tells True False by (auto simp: tells_deal_def fill_of_trade_id)
    next
      case False
      with tells show ?thesis by (simp add: tells_deal_def)
    qed
  qed
qed

lemma apply_all_once:
  assumes "list_all (fills_carry_deals \<circ> snd) evs"
  shows "distinct (map trade_id (fills (snd (snd (apply_all evs ops b))))) \<and>
    set (map trade_id (fills (snd (snd (apply_all evs ops b))))) \<inter> int_text ` applied_deals b = {}"
  using assms
proof (induction evs ops b rule: apply_all.induct)
  case (2 env ev evs ops b)
  obtain b1 ops1 result where ap: "apply_event env ev ops b = (b1, ops1, result)"
    by (cases "apply_event env ev ops b")
  let ?now = "case result of Inl e \<Rightarrow> [] | Inr rs \<Rightarrow> rs"
  let ?later = "snd (snd (apply_all evs ops1 b1))"
  have IH: "distinct (map trade_id (fills ?later))"
    "set (map trade_id (fills ?later)) \<inter> int_text ` applied_deals b1 = {}"
    using "2.IH" [OF ap [symmetric] refl] "2.prems" by auto
  have now: "fills ?now = [] \<or> (\<exists>f. fills ?now = [f] \<and> trade_id f = int_text (dealId (the_deal ev)) \<and>
      dealId (the_deal ev) \<notin> applied_deals b \<and> dealId (the_deal ev) \<in> applied_deals b1)"
    using apply_event_tells [of env ev ops b b1 ops1] ap "2.prems" by (auto split: sum.split)
  have "applied_deals b \<subseteq> applied_deals b1" by (rule apply_event_marks(2) [OF ap])
  moreover have "snd (snd (apply_all ((env, ev) # evs) ops b)) = ?now @ ?later"
    by (simp add: ap case_prod_unfold)
  ultimately show ?case
    using IH now
    by (elim disjE exE conjE) (simp_all only: fills_basic, auto simp: disjoint_iff)
qed simp

subsection \<open>Properties\<close>

definition sample_env :: book_env where
  "sample_env = \<lparr>precision_of = (\<lambda>i. if i = 1 then Some 5 else None), held_closed = [],
     money_digits = 2\<rparr>"

definition sample_order :: ProtoOAOrder where
  "sample_order = default_order\<lparr>orderId := 5,
     f_tradeData := Some (default_tradeData\<lparr>symbolId := 1, volume := 1000\<rparr>),
     f_utcLastUpdateTimestamp := Some 100, f_positionId := Some 9\<rparr>"

definition sample_fill :: ProtoOAExecutionEvent where
  "sample_fill = \<lparr>executionType = ORDER_FILLED, f_position = None, f_order = Some sample_order,
     f_deal = Some (default_deal\<lparr>dealId := 77, d_orderId := 5, d_positionId := 9,
       filledVolume := 1000, executionTimestamp := 99, executionPrice := Finite (11 / 10)\<rparr>),
     errorCode = '''', isServerEvent = False\<rparr>"

text \<open>
  C9: an event of a loaded symbol that is handled without raising tells its deal's fill exactly
  once if it is a fill, whatever its order is (an entry, a leg, a close of the node's or anybody
  else's order, even an order that had ended or been replaced), and tells no fill otherwise.
\<close>
theorem handled_fill_told_exactly_once:
  assumes "apply_event env ev ops b = (b', ops', Inr rs)" and "\<not> means_nothing ev b"
    and "precision_of env (symbolId (tradeData (the_order ev))) = Some n"
  shows "tells_deal env ev n rs"
  using assms handle_tells [of env ev n ops b rs]
  by (auto simp: apply_event_def split: prod.splits sum.splits)

lemma sample_fill_handled:
  "\<exists>b ops rs. apply_event sample_env sample_fill no_operations new_VenueBook = (b, ops, Inr rs)"
proof -
  have "\<not> isl (snd (snd (apply_event sample_env sample_fill no_operations new_VenueBook)))"
    by code_simp
  then show ?thesis by (metis prod.collapse sum.collapse(2))
qed

theorem handled_fill_told_exactly_once_witness:
  "\<exists>b ops rs. apply_event sample_env sample_fill no_operations new_VenueBook = (b, ops, Inr rs) \<and>
     tells_deal sample_env sample_fill 5 rs"
proof -
  obtain b ops rs where
    ap: "apply_event sample_env sample_fill no_operations new_VenueBook = (b, ops, Inr rs)"
    using sample_fill_handled by blast
  have "\<not> means_nothing sample_fill new_VenueBook" by code_simp
  moreover have "precision_of sample_env (symbolId (tradeData (the_order sample_fill))) = Some 5"
    by code_simp
  ultimately show ?thesis
    using handled_fill_told_exactly_once [OF ap] ap by blast
qed

text \<open>
  C1: over any run of events, in any order and with any repeats, no deal is told to Nautilus
  twice, and none that was applied before the run, provided every fill carries its deal.
\<close>
theorem deals_never_told_twice:
  assumes "list_all (fills_carry_deals \<circ> snd) evs"
  shows "distinct (map trade_id (fills (snd (snd (apply_all evs ops b))))) \<and>
    set (map trade_id (fills (snd (snd (apply_all evs ops b))))) \<inter> int_text ` applied_deals b = {}"
  using assms by (rule apply_all_once)

theorem deals_never_told_twice_witness:
  "map trade_id (fills (snd (snd (apply_all [(sample_env, sample_fill), (sample_env, sample_fill)]
     no_operations new_VenueBook)))) = [''77''] \<and>
   distinct (map trade_id (fills (snd (snd (apply_all [(sample_env, sample_fill), (sample_env, sample_fill)]
     no_operations new_VenueBook)))))"
proof -
  have "list_all (fills_carry_deals \<circ> snd) [(sample_env, sample_fill), (sample_env, sample_fill)]"
    by code_simp
  from deals_never_told_twice [OF this, of no_operations new_VenueBook]
  show ?thesis by (intro conjI) (code_simp, blast)
qed

text \<open>
  an event handled once means nothing ever after: whatever operations follow, a rebuild from
  a snapshot included, applying it again changes nothing and tells nothing; and neither does any
  other fill event of the same deal.
\<close>
theorem handled_event_means_nothing_again:
  assumes "apply_event env ev ops b = (b', ops', Inr rs)" and "\<not> means_nothing ev b"
    and "book_step\<^sup>*\<^sup>* b' b''"
    and "ev' = ev \<or> carries_fill ev \<and> carries_fill ev' \<and> dealId (the_deal ev') = dealId (the_deal ev)"
  shows "apply_event env2 ev' ops2 b'' = (b'', ops2, Inr [])"
proof -
  have "event_key_of ev \<in> seen b''" and "carries_fill ev \<Longrightarrow> dealId (the_deal ev) \<in> applied_deals b''"
    using apply_event_marks(3,4) [OF assms(1) refl] assms(2) book_steps_handled [OF assms(3)] by blast+
  with assms(4) have "means_nothing ev' b''" by (auto simp: means_nothing_def)
  then show ?thesis by (simp add: apply_event_def)
qed

theorem handled_event_means_nothing_again_witness:
  "\<exists>b. apply_event sample_env sample_fill no_operations b = (b, no_operations, Inr []) \<and>
     sample_fill \<noteq> sample_fill\<lparr>executionType := ORDER_PARTIAL_FILL\<rparr> \<and>
     apply_event sample_env (sample_fill\<lparr>executionType := ORDER_PARTIAL_FILL\<rparr>) no_operations b
       = (b, no_operations, Inr [])"
proof -
  obtain b ops rs where
    ap: "apply_event sample_env sample_fill no_operations new_VenueBook = (b, ops, Inr rs)"
    using sample_fill_handled by blast
  have new: "\<not> means_nothing sample_fill new_VenueBook" by code_simp
  have "book_step\<^sup>*\<^sup>* b (end_keep 3 b)" by (blast intro: live_step.intros book_step.intros)
  note again = handled_event_means_nothing_again [OF ap new this]
  have "carries_fill sample_fill \<and> carries_fill (sample_fill\<lparr>executionType := ORDER_PARTIAL_FILL\<rparr>) \<and>
      dealId (the_deal (sample_fill\<lparr>executionType := ORDER_PARTIAL_FILL\<rparr>)) = dealId (the_deal sample_fill)"
    by code_simp
  with again show ?thesis
    by (intro exI [of _ "end_keep 3 b"]) (simp add: sample_fill_def)
qed

text \<open>
  an event whose handling raised is not marked: it is still to be applied, and every mark
  of the book is as before.
\<close>
theorem raised_event_can_be_applied_again:
  assumes "apply_event env ev ops b = (b', ops', Inl e)"
  shows "\<not> means_nothing ev b' \<and> marks b' = marks b"
  using apply_event_raises [OF assms] by (simp add: means_nothing_def marks_def)

definition sample_bad_fill :: ProtoOAExecutionEvent where
  "sample_bad_fill = sample_fill\<lparr>f_deal := Some (default_deal\<lparr>dealId := 77, executionPrice := NaN\<rparr>)\<rparr>"

theorem raised_event_can_be_applied_again_witness:
  "\<exists>b ops e. apply_event sample_env sample_bad_fill no_operations new_VenueBook = (b, ops, Inl e) \<and>
     \<not> means_nothing sample_bad_fill b"
proof -
  have "isl (snd (snd (apply_event sample_env sample_bad_fill no_operations new_VenueBook)))"
    by code_simp
  then obtain b ops e where
    "apply_event sample_env sample_bad_fill no_operations new_VenueBook = (b, ops, Inl e)"
    by (metis prod.collapse sum.collapse(1))
  with raised_event_can_be_applied_again [OF this] show ?thesis by blast
qed

text \<open>
  on a symbol the node has not loaded nothing but an activity is ever told, never an order,
  and handling never raises.
\<close>
theorem unloaded_symbol_only_activity:
  assumes "precision_of env (symbolId (tradeData (the_order ev))) = None"
  shows "\<exists>b' rs. apply_event env ev ops b = (b', ops, Inr rs) \<and> length rs \<le> 1 \<and>
    (\<forall>r \<in> set rs. \<exists>a. r = R_Activity a \<and> ac_symbol_id a = symbolId (tradeData (the_order ev)))"
  using handle_unloaded [OF assms, of ops b]
  by (auto simp: apply_event_def unloaded_activity_def Let_def split: option.split)

theorem unloaded_symbol_only_activity_witness:
  "\<exists>b' rs. apply_event (sample_env\<lparr>precision_of := \<lambda>_. None\<rparr>) sample_fill no_operations new_VenueBook
       = (b', no_operations, Inr rs) \<and> length rs \<le> 1"
  using unloaded_symbol_only_activity
    [of "sample_env\<lparr>precision_of := \<lambda>_. None\<rparr>" sample_fill no_operations new_VenueBook]
  by auto

end
