(* ===== verification/Order_Translation.thy ===== *)
theory Order_Translation
  imports Venue_Records Order_Record
begin

text \<open>
  \<open>common/order_translation.py\<close>: Nautilus orders to venue requests. A Nautilus order and an
  instrument are records of the attributes the code reads. A price and a quantity are the
  decimals they denote (\<open>as_decimal\<close>). \<open>Price.as_double\<close> belongs to Nautilus: it is the argument
  \<open>as_double\<close> of the operations that use it. A refusal is \<open>Unsupported\<close> with the constructor of its
  message; \<open>InvalidOperation\<close> is what \<open>quantize\<close> raises beyond 28 digits, and
  \<open>Unreadable\<close> what \<open>price_of\<close> raises. The decimal context is \<open>ctx\<close>. That a request's integers
  fit their 64-bit fields is protobuf's own check and is not modelled.

  Shown here: a volume is exactly the quantity asked for or is refused; a bracket's request
  carries the ids by which it is recognised and, exactly, both distances; a close only reduces;
  an amend changes only what was asked.
\<close>

definition PRICE_SCALE :: int where "PRICE_SCALE = 100000"

definition VOLUME_SCALE :: int where "VOLUME_SCALE = 100"

subsection \<open>What Nautilus hands over\<close>

datatype OrderType =
    OT_MARKET | OT_LIMIT | OT_STOP_MARKET | OT_STOP_LIMIT | OT_MARKET_TO_LIMIT
  | OT_MARKET_IF_TOUCHED | OT_LIMIT_IF_TOUCHED | OT_TRAILING_STOP_MARKET | OT_TRAILING_STOP_LIMIT

datatype TimeInForce = GTC | IOC | FOK | GTD | DAY | AT_THE_OPEN | AT_THE_CLOSE

datatype TriggerType =
    NO_TRIGGER | DEFAULT | BID_ASK | LAST_PRICE | DOUBLE_LAST | DOUBLE_BID_ASK | LAST_OR_BID_ASK
  | MID_POINT | MARK_PRICE | INDEX_PRICE

datatype ContingencyType = NO_CONTINGENCY | OCO | OTO | OUO

datatype PositionSide = NO_POSITION_SIDE | FLAT | LONG | SHORT

record Order =
  no_instrument_id :: string
  no_client_order_id :: string
  no_order_type :: OrderType
  no_side :: ProtoOATradeSide
  no_quantity :: decimal
  no_time_in_force :: TimeInForce
  no_is_reduce_only :: bool
  no_is_quote_quantity :: bool
  no_emulation_trigger :: TriggerType
  no_exec_algorithm_id :: "string option"
  no_contingency_type :: ContingencyType
  no_parent_order_id :: "string option"
  no_trigger_price :: decimal
  no_trigger_type :: TriggerType
  no_price :: decimal
  no_display_qty :: "decimal option"

record Instrument =
  ins_id :: string
  ins_price_precision :: nat
  ins_symbol_id :: int

subsection \<open>The requests\<close>

record ProtoOANewOrderReq =
  nr_ctidTraderAccountId :: int
  nr_symbolId :: int
  nr_orderType :: ProtoOAOrderType
  nr_tradeSide :: ProtoOATradeSide
  nr_volume :: int
  nr_timeInForce :: ProtoOATimeInForce
  nr_clientOrderId :: string
  nr_label :: string
  nr_comment :: string
  nr_relativeStopLoss :: "int option"
  nr_relativeTakeProfit :: "int option"

record ProtoOAClosePositionReq =
  cr_ctidTraderAccountId :: int
  cr_positionId :: int
  cr_volume :: int

record ProtoOAAmendPositionSLTPReq =
  lr_ctidTraderAccountId :: int
  lr_positionId :: int
  lr_stopLoss :: "double option"
  lr_takeProfit :: "double option"
  lr_guaranteedStopLoss :: "bool option"
  lr_trailingStopLoss :: "bool option"
  lr_stopLossTriggerMethod :: "ProtoOAOrderTriggerMethod option"

record ProtoOACancelOrderReq =
  xr_ctidTraderAccountId :: int
  xr_orderId :: int

record ProtoOAAmendOrderReq =
  ar_ctidTraderAccountId :: int
  ar_orderId :: int
  ar_volume :: int
  ar_limitPrice :: "double option"
  ar_stopPrice :: "double option"
  ar_expirationTimestamp :: "int option"
  ar_stopLoss :: "double option"
  ar_takeProfit :: "double option"
  ar_slippageInPoints :: "int option"
  ar_relativeStopLoss :: "int option"
  ar_relativeTakeProfit :: "int option"
  ar_guaranteedStopLoss :: "bool option"
  ar_trailingStopLoss :: "bool option"
  ar_stopTriggerMethod :: "ProtoOAOrderTriggerMethod option"

record Bracket =
  br_request :: ProtoOANewOrderReq
  br_stop_loss_id :: "string option"
  br_take_profit_id :: "string option"
  br_stop_loss :: "decimal option"
  br_take_profit :: "decimal option"
  br_reference :: decimal

subsection \<open>Refusals\<close>

datatype refusal =
    QuantityTooFine decimal
  | ReferenceNotPositive decimal
  | ReferenceTooFine decimal
  | WrongSideOfMarket decimal decimal
  | LevelTooFine decimal
  | OtherInstrument string string
  | PriceTooFine decimal nat
  | QuoteQuantity
  | Emulated
  | ExecAlgorithm
  | TimeInForceUnsupported TimeInForce
  | LinkedOrder
  | EntryNotMarket OrderType
  | ReduceOnlyEntry
  | NotRecorded record_error
  | LegTypeUnsupported OrderType
  | LegOnEntrySide
  | LegOwnSize
  | LegNotReduceOnly
  | LegOtherParent
  | BracketSize nat
  | SecondStopLoss
  | TriggerTypeUnsupported TriggerType
  | SecondTakeProfit
  | DisplayQuantity
  | NotAClose
  | PositionNotReducible PositionSide
  | WouldNotReduce ProtoOATradeSide PositionSide
  | StopMovesByTrigger
  | TargetMovesByPrice
  | MarketRefusal string
  | CannotSet string ProtoOAOrderType

datatype translation_error = Unsupported refusal | InvalidOperation | Unreadable venue_error

type_synonym 'a translated = "translation_error + 'a"

definition refuse_if :: "bool \<Rightarrow> refusal \<Rightarrow> unit translated" where
  "refuse_if b why = (if b then Inl (Unsupported why) else Inr ())"

lemma refuse_if_Inr [simp]: "refuse_if b why = Inr u \<longleftrightarrow> \<not> b"
  by (simp add: refuse_if_def)

subsection \<open>Volumes and distances\<close>

text \<open>\<open>x == x.to_integral_value()\<close>, exact whatever the context.\<close>

definition is_integral :: "decimal \<Rightarrow> bool" where
  "is_integral x \<longleftrightarrow> x = of_int \<lfloor>x\<rfloor>"

definition volume_from_quantity :: "decimal \<Rightarrow> int translated" where
  "volume_from_quantity quantity =
     (let scaled = ctx (quantity * of_int VOLUME_SCALE)
      in if scaled \<le> 0 \<or> \<not> is_integral scaled then Inl (Unsupported (QuantityTooFine quantity))
         else Inr \<lfloor>scaled\<rfloor>)"

definition relative_level :: "decimal \<Rightarrow> decimal \<Rightarrow> bool \<Rightarrow> int translated" where
  "relative_level reference level below =
     (if reference \<le> 0 then Inl (Unsupported (ReferenceNotPositive reference))
      else if \<not> is_integral (ctx (reference * of_int PRICE_SCALE))
      then Inl (Unsupported (ReferenceTooFine reference))
      else let scaled = ctx (ctx (if below then reference - level else level - reference)
                             * of_int PRICE_SCALE)
           in if scaled \<le> 0 then Inl (Unsupported (WrongSideOfMarket level reference))
              else if \<not> is_integral scaled then Inl (Unsupported (LevelTooFine level))
              else Inr \<lfloor>scaled\<rfloor>)"

subsection \<open>What every request requires\<close>

definition require_instrument :: "Instrument \<Rightarrow> Order \<Rightarrow> unit translated" where
  "require_instrument instrument order =
     refuse_if (no_instrument_id order \<noteq> ins_id instrument)
       (OtherInstrument (no_instrument_id order) (ins_id instrument))"

definition require_on_price_grid :: "Instrument \<Rightarrow> decimal \<Rightarrow> unit translated" where
  "require_on_price_grid instrument price =
     (case quantize price (ins_price_precision instrument) of
        None \<Rightarrow> Inl InvalidOperation
      | Some on_grid \<Rightarrow>
          refuse_if (price \<noteq> on_grid) (PriceTooFine price (ins_price_precision instrument)))"

definition MARKET_TIME_IN_FORCE :: "TimeInForce list" where
  "MARKET_TIME_IN_FORCE = [GTC, IOC]"

definition require_expressible :: "Order \<Rightarrow> bool \<Rightarrow> unit translated" where
  "require_expressible order market =
     bind_result (refuse_if (no_is_quote_quantity order) QuoteQuantity) (\<lambda>_.
     bind_result (refuse_if (no_emulation_trigger order \<noteq> NO_TRIGGER) Emulated) (\<lambda>_.
     bind_result (refuse_if (no_exec_algorithm_id order \<noteq> None) ExecAlgorithm) (\<lambda>_.
     refuse_if (no_time_in_force order \<notin> set (if market then MARKET_TIME_IN_FORCE else [GTC]))
       (TimeInForceUnsupported (no_time_in_force order)))))"

definition require_not_linked :: "Order \<Rightarrow> unit translated" where
  "require_not_linked order =
     refuse_if (no_contingency_type order \<noteq> NO_CONTINGENCY) LinkedOrder"

definition require_opening_market_order :: "Instrument \<Rightarrow> Order \<Rightarrow> unit translated" where
  "require_opening_market_order instrument entry =
     bind_result (require_instrument instrument entry) (\<lambda>_.
     bind_result (refuse_if (no_order_type entry \<noteq> OT_MARKET)
                    (EntryNotMarket (no_order_type entry))) (\<lambda>_.
     bind_result (refuse_if (no_is_reduce_only entry) ReduceOnlyEntry) (\<lambda>_.
     require_expressible entry True)))"

subsection \<open>Orders that open a position\<close>

text \<open>The three \<open>order_record\<close> calls in their \<open>try\<close>.\<close>

definition recorded :: "record_error + 'a \<Rightarrow> 'a translated" where
  "recorded r = (case r of Inl e \<Rightarrow> Inl (Unsupported (NotRecorded e)) | Inr a \<Rightarrow> Inr a)"

definition new_order :: "int \<Rightarrow> Instrument \<Rightarrow> Order \<Rightarrow> LegIds \<Rightarrow> ProtoOANewOrderReq translated" where
  "new_order account_id instrument entry leg_ids =
     bind_result (volume_from_quantity (no_quantity entry)) (\<lambda>wanted.
     bind_result (recorded (check_client_order_id (no_client_order_id entry))) (\<lambda>client_order_id.
     bind_result (recorded (encode_label (no_client_order_id entry))) (\<lambda>own_label.
     bind_result (recorded (encode_comment leg_ids)) (\<lambda>own_comment.
     Inr \<lparr>nr_ctidTraderAccountId = account_id, nr_symbolId = ins_symbol_id instrument,
          nr_orderType = MARKET, nr_tradeSide = no_side entry, nr_volume = wanted,
          nr_timeInForce = IMMEDIATE_OR_CANCEL, nr_clientOrderId = client_order_id,
          nr_label = own_label, nr_comment = own_comment, nr_relativeStopLoss = None,
          nr_relativeTakeProfit = None\<rparr>))))"

definition market_order :: "int \<Rightarrow> Instrument \<Rightarrow> Order \<Rightarrow> ProtoOANewOrderReq translated" where
  "market_order account_id instrument order =
     bind_result (require_opening_market_order instrument order) (\<lambda>_.
     bind_result (require_not_linked order) (\<lambda>_.
     new_order account_id instrument order \<lparr>leg_stop_loss = None, leg_take_profit = None\<rparr>))"

definition require_protective_leg :: "Instrument \<Rightarrow> Order \<Rightarrow> Order \<Rightarrow> unit translated" where
  "require_protective_leg instrument entry leg =
     bind_result (require_instrument instrument leg) (\<lambda>_.
     bind_result (require_expressible leg False) (\<lambda>_.
     bind_result (refuse_if (no_order_type leg \<notin> {OT_STOP_MARKET, OT_LIMIT})
                    (LegTypeUnsupported (no_order_type leg))) (\<lambda>_.
     bind_result (refuse_if (no_side leg = no_side entry) LegOnEntrySide) (\<lambda>_.
     bind_result (refuse_if (no_quantity leg \<noteq> no_quantity entry) LegOwnSize) (\<lambda>_.
     bind_result (refuse_if (\<not> no_is_reduce_only leg) LegNotReduceOnly) (\<lambda>_.
     refuse_if (no_parent_order_id leg \<noteq> Some (no_client_order_id entry)) LegOtherParent))))))"

text \<open>The loop over the legs, with the stop-loss and the take-profit found so far.\<close>

fun protective_legs ::
    "Instrument \<Rightarrow> Order \<Rightarrow> Order list \<Rightarrow> Order option \<Rightarrow> Order option \<Rightarrow>
     (Order option \<times> Order option) translated" where
  "protective_legs instrument entry [] stop_loss take_profit = Inr (stop_loss, take_profit)"
| "protective_legs instrument entry (leg # legs) stop_loss take_profit =
     bind_result (require_protective_leg instrument entry leg) (\<lambda>_.
     if no_order_type leg = OT_STOP_MARKET then
       bind_result (refuse_if (stop_loss \<noteq> None) SecondStopLoss) (\<lambda>_.
       bind_result (refuse_if (no_trigger_type leg \<noteq> DEFAULT)
                      (TriggerTypeUnsupported (no_trigger_type leg))) (\<lambda>_.
       protective_legs instrument entry legs (Some leg) take_profit))
     else
       bind_result (refuse_if (take_profit \<noteq> None) SecondTakeProfit) (\<lambda>_.
       bind_result (refuse_if (no_display_qty leg \<noteq> None) DisplayQuantity) (\<lambda>_.
       protective_legs instrument entry legs stop_loss (Some leg))))"

text \<open>One level of the bracket as a distance; None when the bracket has no such leg.\<close>

definition leg_distance ::
    "Instrument \<Rightarrow> decimal \<Rightarrow> decimal option \<Rightarrow> bool \<Rightarrow> int option translated" where
  "leg_distance instrument reference level below =
     (case level of
        None \<Rightarrow> Inr None
      | Some price \<Rightarrow>
          bind_result (require_on_price_grid instrument price) (\<lambda>_.
          bind_result (relative_level reference price below) (\<lambda>distance. Inr (Some distance))))"

definition bracket ::
    "int \<Rightarrow> Instrument \<Rightarrow> Order list \<Rightarrow> decimal \<Rightarrow> decimal \<Rightarrow> Bracket translated" where
  "bracket account_id instrument orders bid ask =
     (if \<not> (2 \<le> length orders \<and> length orders \<le> 3)
      then Inl (Unsupported (BracketSize (length orders)))
      else let entry = hd orders in
        bind_result (require_opening_market_order instrument entry) (\<lambda>_.
        bind_result (protective_legs instrument entry (tl orders) None None)
          (\<lambda>(stop_loss, take_profit).
        bind_result
          (new_order account_id instrument entry
             \<lparr>leg_stop_loss = map_option no_client_order_id stop_loss,
              leg_take_profit = map_option no_client_order_id take_profit\<rparr>) (\<lambda>request.
        let buying = (no_side entry = BUY); reference = (if buying then ask else bid) in
        bind_result
          (leg_distance instrument reference (map_option no_trigger_price stop_loss) buying) (\<lambda>sl.
        bind_result
          (leg_distance instrument reference (map_option no_price take_profit) (\<not> buying)) (\<lambda>tp.
        Inr \<lparr>br_request = request\<lparr>nr_relativeStopLoss := sl, nr_relativeTakeProfit := tp\<rparr>,
             br_stop_loss_id = map_option no_client_order_id stop_loss,
             br_take_profit_id = map_option no_client_order_id take_profit,
             br_stop_loss = map_option no_trigger_price stop_loss,
             br_take_profit = map_option no_price take_profit,
             br_reference = reference\<rparr>))))))"

subsection \<open>Requests on a position\<close>

definition close_position ::
    "int \<Rightarrow> int \<Rightarrow> Order \<Rightarrow> PositionSide \<Rightarrow> ProtoOAClosePositionReq translated" where
  "close_position account_id position_id order position_side =
     bind_result (refuse_if (no_order_type order \<noteq> OT_MARKET \<or> \<not> no_is_reduce_only order) NotAClose)
       (\<lambda>_.
     bind_result (require_expressible order True) (\<lambda>_.
     bind_result (require_not_linked order) (\<lambda>_.
     bind_result (refuse_if (position_side \<notin> {LONG, SHORT}) (PositionNotReducible position_side))
       (\<lambda>_.
     bind_result (refuse_if ((position_side = LONG) = (no_side order = BUY))
                    (WouldNotReduce (no_side order) position_side)) (\<lambda>_.
     bind_result (volume_from_quantity (no_quantity order)) (\<lambda>wanted.
     Inr \<lparr>cr_ctidTraderAccountId = account_id, cr_positionId = position_id,
          cr_volume = wanted\<rparr>))))))"

definition amend_levels ::
    "(decimal \<Rightarrow> double) \<Rightarrow> int \<Rightarrow> int \<Rightarrow> decimal option \<Rightarrow> decimal option \<Rightarrow> LevelTerms option \<Rightarrow>
     ProtoOAAmendPositionSLTPReq" where
  "amend_levels as_double account_id position_id stop_loss take_profit own_terms =
     \<lparr>lr_ctidTraderAccountId = account_id, lr_positionId = position_id,
      lr_stopLoss = map_option as_double stop_loss,
      lr_takeProfit = map_option as_double take_profit,
      lr_guaranteedStopLoss =
        (if stop_loss = None then None else map_option guaranteed_stop_loss own_terms),
      lr_trailingStopLoss =
        (if stop_loss = None then None else map_option trailing_stop_loss own_terms),
      lr_stopLossTriggerMethod = map_option stop_loss_trigger_method own_terms\<rparr>"

definition leg_price ::
    "Instrument \<Rightarrow> Level \<Rightarrow> decimal option \<Rightarrow> decimal option \<Rightarrow> decimal option translated" where
  "leg_price instrument level price trigger_price =
     (let stop = (level = STOP_LOSS) in
      bind_result (refuse_if (stop \<and> price \<noteq> None) StopMovesByTrigger) (\<lambda>_.
      bind_result (refuse_if (\<not> stop \<and> trigger_price \<noteq> None) TargetMovesByPrice) (\<lambda>_.
      let wanted = (if stop then trigger_price else price) in
      case wanted of
        None \<Rightarrow> Inr None
      | Some p \<Rightarrow> bind_result (require_on_price_grid instrument p) (\<lambda>_. Inr wanted))))"

subsection \<open>Requests on a pending order\<close>

definition STOP_TYPES :: "ProtoOAOrderType list" where
  "STOP_TYPES = [STOP, STOP_LIMIT]"

definition require_pending :: "ProtoOAOrder \<Rightarrow> string \<Rightarrow> unit translated" where
  "require_pending order done =
     refuse_if (orderType order \<notin> set PENDING_ORDER_TYPES) (MarketRefusal done)"

definition cancel_order :: "int \<Rightarrow> ProtoOAOrder \<Rightarrow> ProtoOACancelOrderReq translated" where
  "cancel_order account_id order =
     bind_result (require_pending order ''cancelled'') (\<lambda>_.
     Inr \<lparr>xr_ctidTraderAccountId = account_id, xr_orderId = orderId order\<rparr>)"

text \<open>\<open>held\<close> is the order's own price field.\<close>

definition amended_price ::
    "(decimal \<Rightarrow> double) \<Rightarrow> Instrument \<Rightarrow> ProtoOAOrder \<Rightarrow> double option \<Rightarrow> decimal option \<Rightarrow> bool \<Rightarrow>
     string \<Rightarrow> double option translated" where
  "amended_price as_double instrument order held wanted settable name =
     (case wanted of
        None \<Rightarrow> Inr held
      | Some price \<Rightarrow>
          let send = bind_result (refuse_if (\<not> settable) (CannotSet name (orderType order))) (\<lambda>_.
                     bind_result (require_on_price_grid instrument price) (\<lambda>_.
                     Inr (Some (as_double price))))
          in case held of
               None \<Rightarrow> send
             | Some own \<Rightarrow>
                 (case price_of own (ins_price_precision instrument) of
                    Inl e \<Rightarrow> Inl (Unreadable e)
                  | Inr current \<Rightarrow> if current = price then Inr held else send))"

text \<open>\<open>==\<close> on an optional price of a message.\<close>

fun same_optional :: "double option \<Rightarrow> double option \<Rightarrow> bool" where
  "same_optional None None = True"
| "same_optional (Some a) (Some b) = same_double a b"
| "same_optional _ _ = False"

text \<open>The request once volume and prices are known: everything else is the order's own.\<close>

definition amend_request ::
    "int \<Rightarrow> ProtoOAOrder \<Rightarrow> int \<Rightarrow> double option \<Rightarrow> double option \<Rightarrow> ProtoOAAmendOrderReq" where
  "amend_request account_id order wanted limit stop =
     (let with_stop = f_relativeStopLoss order \<noteq> None \<or> f_stopLoss order \<noteq> None in
      \<lparr>ar_ctidTraderAccountId = account_id, ar_orderId = orderId order, ar_volume = wanted,
       ar_limitPrice = (if orderType order = LIMIT then limit else None),
       ar_stopPrice = (if orderType order \<in> set STOP_TYPES then stop else None),
       ar_expirationTimestamp = f_expirationTimestamp order,
       ar_stopLoss = (if f_relativeStopLoss order \<noteq> None then None else f_stopLoss order),
       ar_takeProfit = (if f_relativeTakeProfit order \<noteq> None then None else f_takeProfit order),
       ar_slippageInPoints = f_slippageInPoints order,
       ar_relativeStopLoss = f_relativeStopLoss order,
       ar_relativeTakeProfit = f_relativeTakeProfit order,
       ar_guaranteedStopLoss =
         (if with_stop then Some (td_guaranteedStopLoss (tradeData order)) else None),
       ar_trailingStopLoss = (if with_stop then Some (o_trailingStopLoss order) else None),
       ar_stopTriggerMethod =
         (if orderType order \<in> set STOP_TYPES then Some (stopTriggerMethod order) else None)\<rparr>)"

definition amend_order ::
    "(decimal \<Rightarrow> double) \<Rightarrow> int \<Rightarrow> Instrument \<Rightarrow> ProtoOAOrder \<Rightarrow> decimal option \<Rightarrow> decimal option \<Rightarrow>
     decimal option \<Rightarrow> ProtoOAAmendOrderReq option translated" where
  "amend_order as_double account_id instrument order quantity price trigger_price =
     bind_result (require_pending order ''modified'') (\<lambda>_.
     bind_result
       (case quantity of
          None \<Rightarrow> Inr (volume (tradeData order))
        | Some q \<Rightarrow> volume_from_quantity q) (\<lambda>wanted.
     bind_result
       (amended_price as_double instrument order (f_limitPrice order) price
          (orderType order = LIMIT) ''limit price'') (\<lambda>limit.
     bind_result
       (amended_price as_double instrument order (f_stopPrice order) trigger_price
          (orderType order \<in> set STOP_TYPES) ''trigger price'') (\<lambda>stop.
     Inr (if wanted = volume (tradeData order) \<and> same_optional limit (f_limitPrice order) \<and>
             same_optional stop (f_stopPrice order)
          then None else Some (amend_request account_id order wanted limit stop))))))"

text \<open>\<open>same\<close> of \<open>carries\<close>: the order's price field against the request's.\<close>

definition same_price :: "double option \<Rightarrow> double option \<Rightarrow> nat \<Rightarrow> bool venue_result" where
  "same_price asked own precision =
     (case asked of
        None \<Rightarrow> Inr True
      | Some a \<Rightarrow>
          (case own of
             None \<Rightarrow> Inr False
           | Some b \<Rightarrow>
               bind_result (price_of b precision) (\<lambda>has.
               bind_result (price_of a precision) (\<lambda>wants. Inr (has = wants)))))"

definition carries :: "ProtoOAAmendOrderReq \<Rightarrow> ProtoOAOrder \<Rightarrow> nat \<Rightarrow> bool venue_result" where
  "carries request order precision =
     (if ar_volume request \<noteq> volume (tradeData order) then Inr False
      else bind_result (same_price (ar_limitPrice request) (f_limitPrice order) precision) (\<lambda>limit.
           if \<not> limit then Inr False
           else same_price (ar_stopPrice request) (f_stopPrice order) precision))"

subsection \<open>Exactness of volumes and distances\<close>

lemma is_integralI: "x = of_int k \<Longrightarrow> is_integral x"
  by (simp add: is_integral_def)

lemma volume_from_quantity_iff:
  assumes "q = of_int k / 10 ^ n" and "\<bar>k\<bar> < 10 ^ 26"
  shows "volume_from_quantity q = Inr v \<longleftrightarrow> 0 < v \<and> q = volume_to_units v"
proof -
  have "ctx (q * 100) = q * 100"
    using assms by (intro ctx_exact [of "k * 100" _ n]) (simp_all add: abs_mult)
  then have "volume_from_quantity q = Inr v \<longleftrightarrow> 0 < q \<and> q * 100 = of_int \<lfloor>q * 100\<rfloor> \<and> v = \<lfloor>q * 100\<rfloor>"
    by (auto simp: volume_from_quantity_def VOLUME_SCALE_def is_integral_def Let_def
             simp del: zero_less_floor)
  also have "\<dots> \<longleftrightarrow> 0 < q \<and> q * 100 = of_int v" by (metis floor_of_int)
  also have "\<dots> \<longleftrightarrow> 0 < v \<and> q = volume_to_units v"
    unfolding volume_to_units_def by (auto simp: field_simps)
  finally show ?thesis .
qed

definition on_scale :: "decimal \<Rightarrow> bool" where
  "on_scale x \<longleftrightarrow> is_integral (x * 100000) \<and> \<bar>x\<bar> < 10 ^ 17"

lemma on_scaleE:
  assumes "on_scale x"
  obtains k where "x = of_int k / 10 ^ 5" and "\<bar>k\<bar> < 10 ^ 22"
proof -
  obtain k where k: "x * 100000 = of_int k"
    using assms unfolding on_scale_def is_integral_def by blast
  have "\<bar>x * 100000\<bar> < (10 ^ 22 :: rat)" using assms by (simp add: on_scale_def abs_mult)
  then have "of_int \<bar>k\<bar> < (of_int (10 ^ 22) :: rat)" by (simp add: k)
  then have "\<bar>k\<bar> < 10 ^ 22" by (simp only: of_int_less_iff)
  moreover have "x = of_int k / 10 ^ 5" by (simp flip: k)
  ultimately show thesis by (rule that [rotated])
qed

lemma relative_level_iff:
  assumes "on_scale reference" and "on_scale level"
  shows "relative_level reference level below = Inr d \<longleftrightarrow>
    0 < reference \<and> 0 < d \<and>
    level = (if below then reference - of_int d / 100000 else reference + of_int d / 100000)"
proof -
  obtain a where a: "reference = of_int a / 10 ^ 5" "\<bar>a\<bar> < 10 ^ 22"
    using assms(1) by (rule on_scaleE)
  obtain b where b: "level = of_int b / 10 ^ 5" "\<bar>b\<bar> < 10 ^ 22"
    using assms(2) by (rule on_scaleE)
  let ?d = "if below then reference - level else level - reference"
  let ?e = "if below then a - b else b - a"
  have e: "?d = of_int ?e / 10 ^ 5" "\<bar>?e\<bar> < 10 ^ 28" "?d * 100000 = of_int ?e"
    using a b by (auto simp: diff_divide_distrib left_diff_distrib)
  have "ctx (reference * 100000) = of_int a"
    using a by (subst ctx_exact [of a _ 0]) simp_all
  moreover have "ctx ?d = ?d" by (rule ctx_exact) (rule e)+
  moreover have "ctx (?d * 100000) = of_int ?e"
    using e by (subst ctx_exact [of ?e _ 0]) simp_all
  ultimately have "relative_level reference level below = Inr d \<longleftrightarrow> 0 < reference \<and> 0 < ?e \<and> d = ?e"
    by (auto simp: relative_level_def PRICE_SCALE_def is_integral_def Let_def)
  also have "\<dots> \<longleftrightarrow> 0 < reference \<and> 0 < d \<and>
      level = (if below then reference - of_int d / 100000 else reference + of_int d / 100000)"
    by (simp add: a b field_simps flip: of_int_add of_int_diff) auto
  finally show ?thesis .
qed

lemma on_price_grid_on_scale:
  assumes "require_on_price_grid instrument price = Inr u" and "ins_price_precision instrument \<le> 5"
    and "\<bar>price\<bar> < 10 ^ 17"
  shows "on_scale price"
proof -
  let ?n = "ins_price_precision instrument"
  obtain c where c: "price = of_int c / 10 ^ ?n"
    using assms(1)
    by (simp add: require_on_price_grid_def quantize_def Let_def split: if_splits)
  have "(100000 :: rat) = 10 ^ ?n * 10 ^ (5 - ?n)"
    using assms(2) by (simp flip: power_add)
  then have "price * 100000 = price * 10 ^ ?n * 10 ^ (5 - ?n)"
    by simp
  also have "\<dots> = of_int (c * 10 ^ (5 - ?n))"
    by (simp add: c)
  finally have "price * 100000 = of_int (c * 10 ^ (5 - ?n))" .
  then show ?thesis
    using assms(3) unfolding on_scale_def by (blast intro: is_integralI)
qed

subsection \<open>Brackets\<close>

lemma leg_distance_exact:
  assumes "leg_distance instrument reference level below = Inr d"
    and "ins_price_precision instrument \<le> 5" and "on_scale reference"
    and "\<forall>p. level = Some p \<longrightarrow> \<bar>p\<bar> < 10 ^ 17"
  shows "(level = None \<and> d = None) \<or>
    (\<exists>p e. level = Some p \<and> d = Some e \<and> 0 < e \<and>
       p = (if below then reference - of_int e / 100000 else reference + of_int e / 100000))"
proof (cases level)
  case None
  with assms(1) show ?thesis by (simp add: leg_distance_def)
next
  case (Some p)
  with assms(1) obtain u e where grid: "require_on_price_grid instrument p = Inr u"
    and e: "relative_level reference p below = Inr e" and d: "d = Some e"
    by (auto simp: leg_distance_def bind_result_Inr)
  have "on_scale p"
    using on_price_grid_on_scale [OF grid assms(2)] assms(4) Some by simp
  with e have "0 < e \<and> p = (if below then reference - of_int e / 100000 else reference + of_int e / 100000)"
    using relative_level_iff [OF assms(3)] by simp
  with Some d show ?thesis by blast
qed

text \<open>The legs found are the legs given: each one in its own place, none twice.\<close>

lemma protective_legs_found:
  assumes "protective_legs instrument entry legs sl tp = Inr (sl', tp')"
  shows "(\<forall>leg \<in> set legs. no_side leg \<noteq> no_side entry \<and> no_quantity leg = no_quantity entry \<and>
            no_parent_order_id leg = Some (no_client_order_id entry) \<and>
            (if no_order_type leg = OT_STOP_MARKET then sl' = Some leg else tp' = Some leg)) \<and>
    (sl \<noteq> None \<longrightarrow> sl' = sl) \<and> (tp \<noteq> None \<longrightarrow> tp' = tp) \<and>
    set_option sl' \<union> set_option tp' = set legs \<union> set_option sl \<union> set_option tp"
  using assms
proof (induction legs arbitrary: sl tp)
  case (Cons leg legs)
  show ?case
  proof (cases "no_order_type leg = OT_STOP_MARKET")
    case True
    with Cons.prems have sl: "sl = None"
      and rest: "protective_legs instrument entry legs (Some leg) tp = Inr (sl', tp')"
      and leg: "\<exists>u. require_protective_leg instrument entry leg = Inr u"
      by (auto simp: bind_result_Inr)
    from leg Cons.IH [OF rest] sl True show ?thesis
      by (auto simp: require_protective_leg_def bind_result_Inr)
  next
    case False
    with Cons.prems have tp: "tp = None"
      and rest: "protective_legs instrument entry legs sl (Some leg) = Inr (sl', tp')"
      and leg: "\<exists>u. require_protective_leg instrument entry leg = Inr u"
      by (auto simp: bind_result_Inr)
    from leg Cons.IH [OF rest] tp False show ?thesis
      by (auto simp: require_protective_leg_def bind_result_Inr)
  qed
qed simp

lemma recorded_Inr [simp]: "recorded r = Inr a \<longleftrightarrow> r = Inr a"
  by (cases r) (simp_all add: recorded_def)

lemma new_order_exact:
  assumes "new_order account_id instrument entry leg_ids = Inr r"
    and "no_quantity entry = of_int k / 10 ^ n" and "\<bar>k\<bar> < 10 ^ 26"
  shows "parse_label (nr_label r) = Some (no_client_order_id entry)"
    and "read_comment (nr_comment r) = Some leg_ids"
    and "volume_to_units (nr_volume r) = no_quantity entry"
    and "nr_tradeSide r = no_side entry" and "nr_clientOrderId r = no_client_order_id entry"
    and "nr_symbolId r = ins_symbol_id instrument"
    and "nr_relativeStopLoss r = None" and "nr_relativeTakeProfit r = None"
proof -
  from assms(1) obtain v c l t where v: "volume_from_quantity (no_quantity entry) = Inr v"
    and c: "check_client_order_id (no_client_order_id entry) = Inr c"
    and l: "encode_label (no_client_order_id entry) = Inr l"
    and t: "encode_comment leg_ids = Inr t"
    and r: "nr_label r = l" "nr_comment r = t" "nr_volume r = v" "nr_tradeSide r = no_side entry"
      "nr_clientOrderId r = c" "nr_symbolId r = ins_symbol_id instrument"
      "nr_relativeStopLoss r = None" "nr_relativeTakeProfit r = None"
    by (fastforce simp: new_order_def bind_result_Inr recorded_Inr)
  show "parse_label (nr_label r) = Some (no_client_order_id entry)"
    and "read_comment (nr_comment r) = Some leg_ids"
    using l t r by (simp_all add: parse_label_iff read_comment_iff)
  show "volume_to_units (nr_volume r) = no_quantity entry"
    using v r volume_from_quantity_iff [OF assms(2,3)] by simp
  show "nr_clientOrderId r = no_client_order_id entry"
    using c r
    by (simp add: check_client_order_id_def require_recordable_def fit_def split: if_splits)
qed (use assms(1) in \<open>auto simp: new_order_def bind_result_Inr\<close>)

text \<open>Where the venue puts a level set as a distance from the fill (the schema's own rule).\<close>

definition venue_level :: "ProtoOATradeSide \<Rightarrow> Level \<Rightarrow> decimal \<Rightarrow> int \<Rightarrow> decimal" where
  "venue_level side level fill distance =
     (if (side = BUY) = (level = STOP_LOSS) then fill - of_int distance / 100000
      else fill + of_int distance / 100000)"

text \<open>A leg of the bracket is carried: its id, its exact price, and the distance that gives it.\<close>

definition carried :: "Bracket \<Rightarrow> Level \<Rightarrow> Order \<Rightarrow> bool" where
  "carried b level leg =
     (let r = br_request b;
          price = (if level = STOP_LOSS then no_trigger_price leg else no_price leg);
          distance = (if level = STOP_LOSS then nr_relativeStopLoss r else nr_relativeTakeProfit r)
      in (if level = STOP_LOSS then br_stop_loss_id b else br_take_profit_id b)
           = Some (no_client_order_id leg) \<and>
         (if level = STOP_LOSS then br_stop_loss b else br_take_profit b) = Some price \<and>
         (case distance of
            None \<Rightarrow> False
          | Some d \<Rightarrow> 0 < d \<and> venue_level (nr_tradeSide r) level (br_reference b) d = price))"

lemma bracket_parts:
  assumes "bracket account_id instrument orders bid ask = Inr b"
  obtains sl tp r d e where
    "protective_legs instrument (hd orders) (tl orders) None None = Inr (sl, tp)"
    "new_order account_id instrument (hd orders)
       \<lparr>leg_stop_loss = map_option no_client_order_id sl,
        leg_take_profit = map_option no_client_order_id tp\<rparr> = Inr r"
    "leg_distance instrument (if no_side (hd orders) = BUY then ask else bid)
       (map_option no_trigger_price sl) (no_side (hd orders) = BUY) = Inr d"
    "leg_distance instrument (if no_side (hd orders) = BUY then ask else bid)
       (map_option no_price tp) (no_side (hd orders) \<noteq> BUY) = Inr e"
    "b = \<lparr>br_request = r\<lparr>nr_relativeStopLoss := d, nr_relativeTakeProfit := e\<rparr>,
         br_stop_loss_id = map_option no_client_order_id sl,
         br_take_profit_id = map_option no_client_order_id tp,
         br_stop_loss = map_option no_trigger_price sl,
         br_take_profit = map_option no_price tp,
         br_reference = (if no_side (hd orders) = BUY then ask else bid)\<rparr>"
  using assms
  by (auto simp: bracket_def bind_result_Inr Let_def case_prod_unfold split: if_splits)

lemma bracket_leg_carried:
  assumes b: "bracket account_id instrument orders bid ask = Inr b"
    and q: "no_quantity (hd orders) = of_int k / 10 ^ n" "\<bar>k\<bar> < 10 ^ 26"
    and grid: "ins_price_precision instrument \<le> 5" "on_scale bid" "on_scale ask"
    and small: "\<forall>leg \<in> set (tl orders). \<bar>no_trigger_price leg\<bar> < 10 ^ 17 \<and> \<bar>no_price leg\<bar> < 10 ^ 17"
    and leg: "leg \<in> set (tl orders)"
  shows "carried b (if no_order_type leg = OT_STOP_MARKET then STOP_LOSS else TAKE_PROFIT) leg"
proof -
  obtain sl tp r d e where p: "protective_legs instrument (hd orders) (tl orders) None None = Inr (sl, tp)"
    and r: "new_order account_id instrument (hd orders)
       \<lparr>leg_stop_loss = map_option no_client_order_id sl,
        leg_take_profit = map_option no_client_order_id tp\<rparr> = Inr r"
    and d: "leg_distance instrument (if no_side (hd orders) = BUY then ask else bid)
       (map_option no_trigger_price sl) (no_side (hd orders) = BUY) = Inr d"
    and e: "leg_distance instrument (if no_side (hd orders) = BUY then ask else bid)
       (map_option no_price tp) (no_side (hd orders) \<noteq> BUY) = Inr e"
    and eq: "b = \<lparr>br_request = r\<lparr>nr_relativeStopLoss := d, nr_relativeTakeProfit := e\<rparr>,
         br_stop_loss_id = map_option no_client_order_id sl,
         br_take_profit_id = map_option no_client_order_id tp,
         br_stop_loss = map_option no_trigger_price sl,
         br_take_profit = map_option no_price tp,
         br_reference = (if no_side (hd orders) = BUY then ask else bid)\<rparr>"
    using b by (rule bracket_parts)
  note found = protective_legs_found [OF p]
  have ref: "on_scale (if no_side (hd orders) = BUY then ask else bid)" using grid by simp
  have side: "nr_tradeSide r = no_side (hd orders)" by (rule new_order_exact(4) [OF r q])
  show ?thesis
  proof (cases "no_order_type leg = OT_STOP_MARKET")
    case True
    with found leg have sl: "sl = Some leg" by auto
    show ?thesis
      using leg_distance_exact [OF d grid(1) ref] small leg
      by (auto simp: sl eq carried_def venue_level_def side True)
  next
    case False
    with found leg have tp: "tp = Some leg" by auto
    show ?thesis
      using leg_distance_exact [OF e grid(1) ref] small leg
      by (auto simp: tp eq carried_def venue_level_def side False)
  qed
qed

lemma bracket_request_exact:
  assumes "bracket account_id instrument orders bid ask = Inr b"
    and "no_quantity (hd orders) = of_int k / 10 ^ n" and "\<bar>k\<bar> < 10 ^ 26"
  shows "parse_label (nr_label (br_request b)) = Some (no_client_order_id (hd orders)) \<and>
    read_comment (nr_comment (br_request b)) =
      Some \<lparr>leg_stop_loss = br_stop_loss_id b, leg_take_profit = br_take_profit_id b\<rparr> \<and>
    volume_to_units (nr_volume (br_request b)) = no_quantity (hd orders) \<and>
    nr_tradeSide (br_request b) = no_side (hd orders)"
  using assms(1)
proof (rule bracket_parts)
  fix sl tp r d e
  assume r: "new_order account_id instrument (hd orders)
       \<lparr>leg_stop_loss = map_option no_client_order_id sl,
        leg_take_profit = map_option no_client_order_id tp\<rparr> = Inr r"
    and b: "b = \<lparr>br_request = r\<lparr>nr_relativeStopLoss := d, nr_relativeTakeProfit := e\<rparr>,
         br_stop_loss_id = map_option no_client_order_id sl,
         br_take_profit_id = map_option no_client_order_id tp,
         br_stop_loss = map_option no_trigger_price sl,
         br_take_profit = map_option no_price tp,
         br_reference = (if no_side (hd orders) = BUY then ask else bid)\<rparr>"
  show ?thesis using new_order_exact [OF r assms(2,3)] by (simp add: b)
qed

subsection \<open>Amends\<close>

text \<open>
  What the venue's order becomes when a field the request leaves out is dropped or put back to
  the schema's default: the reading under which an amend could lose the most.
\<close>

definition replaced :: "ProtoOAOrder \<Rightarrow> ProtoOAAmendOrderReq \<Rightarrow> ProtoOAOrder" where
  "replaced order r = order\<lparr>
     f_tradeData := Some ((tradeData order)\<lparr>volume := ar_volume r,
       td_guaranteedStopLoss := (ar_guaranteedStopLoss r = Some True)\<rparr>),
     f_limitPrice := ar_limitPrice r,
     f_stopPrice := ar_stopPrice r,
     f_expirationTimestamp := ar_expirationTimestamp r,
     f_slippageInPoints := ar_slippageInPoints r,
     f_stopLoss := ar_stopLoss r,
     f_takeProfit := ar_takeProfit r,
     f_relativeStopLoss := ar_relativeStopLoss r,
     f_relativeTakeProfit := ar_relativeTakeProfit r,
     o_trailingStopLoss := (ar_trailingStopLoss r = Some True),
     stopTriggerMethod := (case ar_stopTriggerMethod r of None \<Rightarrow> TRADE | Some m \<Rightarrow> m)\<rparr>"

text \<open>What the schema says of a pending order: which price it has, and a level set one way only.\<close>

definition schema_order :: "ProtoOAOrder \<Rightarrow> bool" where
  "schema_order order \<longleftrightarrow>
     f_tradeData order \<noteq> None \<and>
     (orderType order \<noteq> LIMIT \<longrightarrow> f_limitPrice order = None) \<and>
     (orderType order \<notin> set STOP_TYPES \<longrightarrow> f_stopPrice order = None \<and> stopTriggerMethod order = TRADE) \<and>
     (f_relativeStopLoss order \<noteq> None \<longrightarrow> f_stopLoss order = None) \<and>
     (f_relativeTakeProfit order \<noteq> None \<longrightarrow> f_takeProfit order = None) \<and>
     (f_relativeStopLoss order = None \<and> f_stopLoss order = None \<longrightarrow>
        \<not> o_trailingStopLoss order \<and> \<not> td_guaranteedStopLoss (tradeData order))"

text \<open>The price a field must hold afterwards: the one asked for, or the one it held.\<close>

definition price_asked :: "nat \<Rightarrow> decimal option \<Rightarrow> double option \<Rightarrow> double option \<Rightarrow> bool" where
  "price_asked precision wanted held now =
     (case wanted of
        None \<Rightarrow> now = held
      | Some p \<Rightarrow> (case now of None \<Rightarrow> False | Some d \<Rightarrow> price_of d precision = Inr p))"

text \<open>
  \<open>Price.as_double\<close> as its documentation has it: a double near the price, within a few units of the
  double's last of 53 bits. A price has at most 28 digits and 16 decimals. The decimal a double is
  read as is rounded to the instrument's precision, so a price of at most 14 digits is read back.
\<close>

definition near_double :: "(decimal \<Rightarrow> double) \<Rightarrow> bool" where
  "near_double as_double \<longleftrightarrow>
     (\<forall>(c :: int) n. \<bar>c\<bar> < 10 ^ 28 \<and> n \<le> 16 \<longrightarrow>
        (\<exists>y. as_double (of_int c / 10 ^ n) = Finite y \<and>
             \<bar>y - of_int c / 10 ^ n\<bar> \<le> \<bar>of_int c / 10 ^ n\<bar> / 2 ^ 50))"

definition few_digits :: "nat \<Rightarrow> decimal \<Rightarrow> bool" where
  "few_digits precision p \<longleftrightarrow> \<bar>p\<bar> * 10 ^ precision < 10 ^ 14"

lemma round_half_even_unique:
  assumes "\<bar>x - of_int c\<bar> < 1 / 2"
  shows "round_half_even x = c"
proof -
  have "\<bar>of_int (round_half_even x) - of_int c\<bar> < (1 :: rat)"
    using round_half_even_near [of x] assms by linarith
  then show ?thesis by linarith
qed

lemma near_double_reads_back:
  assumes "near_double as_double" and "n \<le> 16" and "few_digits n (of_int c / 10 ^ n)"
  shows "price_of (as_double (of_int c / 10 ^ n)) n = Inr (of_int c / 10 ^ n)"
proof -
  have small: "\<bar>of_int c\<bar> < (10 :: rat) ^ 14" using assms(3) by (simp add: few_digits_def abs_divide)
  then have "\<bar>c\<bar> < 10 ^ 14" by (metis of_int_abs of_int_less_iff of_int_numeral of_int_power)
  then have c: "\<bar>c\<bar> < 10 ^ 28" by simp
  with assms(1,2) obtain y where y: "as_double (of_int c / 10 ^ n) = Finite y"
    "\<bar>y - of_int c / 10 ^ n\<bar> \<le> \<bar>of_int c / 10 ^ n\<bar> / 2 ^ 50"
    unfolding near_double_def by blast
  have "\<bar>y * 10 ^ n - of_int c\<bar> = \<bar>y - of_int c / 10 ^ n\<bar> * 10 ^ n"
    by (simp add: abs_mult_pos' field_simps flip: abs_mult)
  also have "\<dots> \<le> \<bar>of_int c / 10 ^ n\<bar> / 2 ^ 50 * 10 ^ n"
    using y(2) by (intro mult_right_mono) simp_all
  also have "\<dots> = \<bar>of_int c\<bar> / 2 ^ 50" by (simp add: abs_divide)
  also have "\<dots> < 1 / 2" using small by simp
  finally have "round_half_even (y * 10 ^ n) = c" by (rule round_half_even_unique)
  then show ?thesis using c by (simp add: y(1) quantize_def)
qed

lemma on_price_grid_reads_back:
  assumes "require_on_price_grid instrument p = Inr u"
    and "near_double as_double" and "ins_price_precision instrument \<le> 16"
    and "few_digits (ins_price_precision instrument) p"
  shows "price_of (as_double p) (ins_price_precision instrument) = Inr p"
proof -
  from assms(1) obtain c :: int where p: "p = of_int c / 10 ^ ins_price_precision instrument"
    by (auto simp: require_on_price_grid_def quantize_def Let_def split: if_splits)
  show ?thesis using near_double_reads_back [OF assms(2,3)] assms(4) unfolding p .
qed

lemma amended_price_asked:
  assumes "amended_price as_double instrument order held wanted settable name = Inr now"
    and "near_double as_double" and "ins_price_precision instrument \<le> 16"
    and "\<And>p. wanted = Some p \<Longrightarrow> few_digits (ins_price_precision instrument) p"
  shows "price_asked (ins_price_precision instrument) wanted held now"
    and "settable \<or> now = held"
  using assms(1,4) on_price_grid_reads_back [OF _ assms(2,3)]
  by (auto simp: amended_price_def price_asked_def bind_result_Inr Let_def
           split: option.splits sum.splits if_splits)

lemma same_optional_eq: "same_optional a b \<Longrightarrow> a = b"
  by (cases "(a, b)" rule: same_optional.cases) (auto simp: same_double_def)

lemma replaced_amend_request:
  assumes "schema_order order"
    and "orderType order = LIMIT \<or> limit = f_limitPrice order"
    and "orderType order \<in> set STOP_TYPES \<or> stop = f_stopPrice order"
  shows "replaced order (amend_request account_id order v limit stop) =
    order\<lparr>f_tradeData := Some ((tradeData order)\<lparr>volume := v\<rparr>),
          f_limitPrice := limit, f_stopPrice := stop\<rparr>"
proof -
  let ?r = "amend_request account_id order v limit stop"
  let ?with_stop = "f_relativeStopLoss order \<noteq> None \<or> f_stopLoss order \<noteq> None"
  have "ar_limitPrice ?r = limit" "ar_stopPrice ?r = stop"
    using assms by (auto simp: amend_request_def schema_order_def Let_def)
  moreover have "ar_stopLoss ?r = f_stopLoss order" "ar_takeProfit ?r = f_takeProfit order"
    using assms(1) by (auto simp: amend_request_def schema_order_def Let_def)
  moreover have "(ar_trailingStopLoss ?r = Some True) = o_trailingStopLoss order"
    "(ar_guaranteedStopLoss ?r = Some True) = td_guaranteedStopLoss (tradeData order)"
    using assms(1) by (cases ?with_stop; simp add: amend_request_def schema_order_def Let_def)+
  moreover have "(case ar_stopTriggerMethod ?r of None \<Rightarrow> TRADE | Some m \<Rightarrow> m) = stopTriggerMethod order"
    using assms(1) by (simp add: amend_request_def schema_order_def Let_def)
  moreover have "ar_volume ?r = v" "ar_expirationTimestamp ?r = f_expirationTimestamp order"
    "ar_slippageInPoints ?r = f_slippageInPoints order"
    "ar_relativeStopLoss ?r = f_relativeStopLoss order"
    "ar_relativeTakeProfit ?r = f_relativeTakeProfit order"
    by (simp_all add: amend_request_def Let_def)
  ultimately show ?thesis
    unfolding replaced_def by (intro ProtoOAOrder.equality) simp_all
qed

subsection \<open>Properties\<close>

text \<open>
  A quantity of at most 26 digits is translated exactly or refused: \<open>volume_from_quantity\<close>
  returns a volume exactly when that positive volume, read back as units, is the quantity asked
  for.\<close>

theorem volume_exact_or_refused:
  assumes "q = of_int k / 10 ^ n" and "\<bar>k\<bar> < 10 ^ 26"
  shows "volume_from_quantity q = Inr v \<longleftrightarrow> 0 < v \<and> q = volume_to_units v"
  using assms by (rule volume_from_quantity_iff)

theorem volume_exact_or_refused_witness:
  "volume_from_quantity (150 / 100) = Inr 150 \<and> volume_from_quantity (5 / 1000) \<noteq> Inr 0"
  using volume_exact_or_refused [of "150 / 100" 150 2 150] volume_exact_or_refused [of "5 / 1000" 5 3 0]
  by (simp add: volume_to_units_def)

text \<open>
  C11: The one request of a bracket carries the whole bracket. Its label and comment are read
  back as the entry's id and the legs' ids; its volume is exactly the entry's quantity and its
  side the entry's; and every leg given is carried: its id and exact price are kept for the amend
  that follows, and its distance, put where the venue puts it from the reference price, is
  exactly that price. Bid and ask are prices of the venue's scale, the instrument has at most
  five decimals, and prices stay under \<open>10^17\<close>.\<close>

theorem bracket_request_carries_the_bracket:
  assumes "bracket account_id instrument orders bid ask = Inr b"
    and "no_quantity (hd orders) = of_int k / 10 ^ n" and "\<bar>k\<bar> < 10 ^ 26"
    and "ins_price_precision instrument \<le> 5" and "on_scale bid" and "on_scale ask"
    and "\<forall>leg \<in> set (tl orders). \<bar>no_trigger_price leg\<bar> < 10 ^ 17 \<and> \<bar>no_price leg\<bar> < 10 ^ 17"
  shows "parse_label (nr_label (br_request b)) = Some (no_client_order_id (hd orders)) \<and>
    read_comment (nr_comment (br_request b)) =
      Some \<lparr>leg_stop_loss = br_stop_loss_id b, leg_take_profit = br_take_profit_id b\<rparr> \<and>
    volume_to_units (nr_volume (br_request b)) = no_quantity (hd orders) \<and>
    nr_tradeSide (br_request b) = no_side (hd orders) \<and>
    (\<forall>leg \<in> set (tl orders).
       carried b (if no_order_type leg = OT_STOP_MARKET then STOP_LOSS else TAKE_PROFIT) leg)"
proof -
  have "\<forall>leg \<in> set (tl orders).
      carried b (if no_order_type leg = OT_STOP_MARKET then STOP_LOSS else TAKE_PROFIT) leg"
    using bracket_leg_carried [OF assms] by blast
  with bracket_request_exact [OF assms(1-3)] show ?thesis by blast
qed

text \<open>
  C12: A close only ever reduces the position it names: the request is built only for a
  reduce-only order on the side opposite to the position's, and asks for exactly the order's
  quantity. The venue's request has no side, so nothing else would stop an order that adds.\<close>

theorem close_only_reduces:
  assumes "close_position account_id position_id order side = Inr r"
    and "no_quantity order = of_int k / 10 ^ n" and "\<bar>k\<bar> < 10 ^ 26"
  shows "no_is_reduce_only order \<and>
    (side = LONG \<and> no_side order = SELL \<or> side = SHORT \<and> no_side order = BUY) \<and>
    cr_positionId r = position_id \<and> 0 < cr_volume r \<and>
    volume_to_units (cr_volume r) = no_quantity order"
proof -
  from assms(1) obtain v where "volume_from_quantity (no_quantity order) = Inr v"
    and "r = \<lparr>cr_ctidTraderAccountId = account_id, cr_positionId = position_id, cr_volume = v\<rparr>"
    and "no_is_reduce_only order" and "side = LONG \<or> side = SHORT"
    and "(side = LONG) \<noteq> (no_side order = BUY)"
    by (auto simp: close_position_def bind_result_Inr)
  then show ?thesis
    using volume_from_quantity_iff [OF assms(2,3)] by (cases "no_side order") auto
qed

text \<open>
  C4: An amend changes only what was asked. When \<open>amend_order\<close> returns, the order after its
  request - even if the venue drops every field the request leaves out - is the order before with
  the volume and the two prices asked for, each unchanged where none was asked; when it returns no
  request, the order already was that. \<open>Price.as_double\<close> is only known to give a double near the
  price; the prices asked have at most 14 digits at the instrument's precision, itself at most
  Nautilus' 16, and the order is one the schema allows.\<close>

theorem amend_changes_only_what_was_asked:
  assumes "amend_order as_double account_id instrument order quantity price trigger_price = Inr res"
    and "near_double as_double" and "ins_price_precision instrument \<le> 16" and "schema_order order"
    and "\<forall>p. price = Some p \<or> trigger_price = Some p \<longrightarrow>
           few_digits (ins_price_precision instrument) p"
    and "\<forall>q. quantity = Some q \<longrightarrow> (\<exists>k n. q = of_int k / 10 ^ n \<and> \<bar>k\<bar> < 10 ^ 26)"
  shows "\<exists>v limit stop.
    (case res of None \<Rightarrow> order | Some r \<Rightarrow> replaced order r) =
      order\<lparr>f_tradeData := Some ((tradeData order)\<lparr>volume := v\<rparr>),
            f_limitPrice := limit, f_stopPrice := stop\<rparr> \<and>
    (case quantity of None \<Rightarrow> v = volume (tradeData order) | Some q \<Rightarrow> volume_to_units v = q) \<and>
    price_asked (ins_price_precision instrument) price (f_limitPrice order) limit \<and>
    price_asked (ins_price_precision instrument) trigger_price (f_stopPrice order) stop"
proof -
  from assms(1) obtain v limit stop where
    v: "(case quantity of None \<Rightarrow> Inr (volume (tradeData order)) | Some q \<Rightarrow> volume_from_quantity q) = Inr v"
    and limit: "amended_price as_double instrument order (f_limitPrice order) price
       (orderType order = LIMIT) ''limit price'' = Inr limit"
    and stop: "amended_price as_double instrument order (f_stopPrice order) trigger_price
       (orderType order \<in> set STOP_TYPES) ''trigger price'' = Inr stop"
    and res: "res = (if v = volume (tradeData order) \<and> same_optional limit (f_limitPrice order) \<and>
       same_optional stop (f_stopPrice order)
       then None else Some (amend_request account_id order v limit stop))"
    unfolding amend_order_def bind_result_Inr by blast
  have digits: "few_digits (ins_price_precision instrument) p"
    if "price = Some p \<or> trigger_price = Some p" for p
    using assms(5) that by blast
  note limit = amended_price_asked [OF limit assms(2,3) digits, simplified]
  note stop = amended_price_asked [OF stop assms(2,3) digits, simplified]
  have "(case quantity of None \<Rightarrow> v = volume (tradeData order) | Some q \<Rightarrow> volume_to_units v = q)"
    using v assms(6) volume_from_quantity_iff by (auto split: option.splits)
  moreover have "(case res of None \<Rightarrow> order | Some r \<Rightarrow> replaced order r) =
      order\<lparr>f_tradeData := Some ((tradeData order)\<lparr>volume := v\<rparr>),
            f_limitPrice := limit, f_stopPrice := stop\<rparr>"
  proof (cases res)
    case None
    with res have "v = volume (tradeData order)" "limit = f_limitPrice order" "stop = f_stopPrice order"
      by (auto split: if_splits dest: same_optional_eq)
    moreover have "f_tradeData order = Some (tradeData order)"
      using assms(4) by (auto simp: schema_order_def tradeData_def)
    ultimately show ?thesis by (simp add: None)
  next
    case (Some r)
    with res have "r = amend_request account_id order v limit stop"
      by (simp split: if_splits)
    then show ?thesis
      by (simp add: Some replaced_amend_request [OF assms(4) limit(2) stop(2)])
  qed
  ultimately show ?thesis using limit(1) stop(1) by blast
qed

subsection \<open>A bracket, a close and an amend\<close>

definition sample_instrument :: Instrument where
  "sample_instrument = \<lparr>ins_id = ''EURUSD'', ins_price_precision = 5, ins_symbol_id = 1\<rparr>"

definition sample_entry :: Order where
  "sample_entry = \<lparr>no_instrument_id = ''EURUSD'', no_client_order_id = ''E-1'',
     no_order_type = OT_MARKET, no_side = BUY, no_quantity = 1000, no_time_in_force = GTC,
     no_is_reduce_only = False, no_is_quote_quantity = False, no_emulation_trigger = NO_TRIGGER,
     no_exec_algorithm_id = None, no_contingency_type = OTO, no_parent_order_id = None,
     no_trigger_price = 0, no_trigger_type = NO_TRIGGER, no_price = 0, no_display_qty = None\<rparr>"

definition sample_leg :: Order where
  "sample_leg = sample_entry\<lparr>no_client_order_id := ''S-1'', no_order_type := OT_STOP_MARKET,
     no_side := SELL, no_is_reduce_only := True, no_parent_order_id := Some ''E-1'',
     no_trigger_price := 219 / 200, no_trigger_type := DEFAULT\<rparr>"

definition sample_limit_order :: ProtoOAOrder where
  "sample_limit_order = default_order\<lparr>orderId := 7, orderType := LIMIT,
     f_tradeData := Some (default_tradeData\<lparr>volume := 100000\<rparr>),
     f_limitPrice := Some (Finite (11 / 10)), f_relativeStopLoss := Some 500\<rparr>"

text \<open>A conversion that is not exact: the nearest binary fraction of 110 places.\<close>

definition binary_double :: "decimal \<Rightarrow> double" where
  "binary_double x = Finite (of_int (round_half_even (x * 2 ^ 110)) / 2 ^ 110)"

lemma binary_double_near: "near_double binary_double"
  unfolding near_double_def
proof (intro allI impI)
  fix c :: int and n :: nat
  assume c: "\<bar>c\<bar> < 10 ^ 28 \<and> n \<le> 16"
  let ?x = "of_int c / 10 ^ n :: rat"
  let ?y = "of_int (round_half_even (?x * 2 ^ 110)) / 2 ^ 110 :: rat"
  have "\<bar>?y - ?x\<bar> \<le> \<bar>?x\<bar> / 2 ^ 50"
  proof (cases "c = 0")
    case True
    then show ?thesis using round_half_even_of_int [of 0] by simp
  next
    case False
    have "\<bar>?y - ?x\<bar> = \<bar>of_int (round_half_even (?x * 2 ^ 110)) - ?x * 2 ^ 110\<bar> / 2 ^ 110"
      by (simp add: field_simps abs_divide flip: abs_mult)
    also have "\<dots> \<le> (1 / 2) / 2 ^ 110"
      by (intro divide_right_mono round_half_even_near) simp
    also have "\<dots> \<le> (1 / 10 ^ 16) / 2 ^ 50" by simp
    also have "1 / 10 ^ 16 \<le> \<bar>?x\<bar>"
    proof -
      have "(1 :: rat) \<le> \<bar>of_int c\<bar>" using False by linarith
      moreover have "(10 :: rat) ^ n \<le> 10 ^ 16" using c by (intro power_increasing) simp_all
      ultimately have "1 / 10 ^ 16 \<le> \<bar>of_int c\<bar> / (10 :: rat) ^ n" by (intro frac_le) simp_all
      then show ?thesis by (simp add: abs_divide)
    qed
    finally show ?thesis by (simp add: divide_right_mono)
  qed
  moreover have "binary_double ?x = Finite ?y" by (simp only: binary_double_def)
  ultimately show "\<exists>y. binary_double ?x = Finite y \<and> \<bar>y - ?x\<bar> \<le> \<bar>?x\<bar> / 2 ^ 50" by blast
qed

lemma sample_on_scale: "on_scale (110001 / 100000)" "on_scale (110003 / 100000)" "on_scale (219 / 200)"
  by code_simp+

lemma sample_volume: "volume_from_quantity 1000 = Inr 100000"
  using volume_from_quantity_iff [of 1000 1000 0 100000] by (simp add: volume_to_units_def)

lemma sample_distance: "relative_level (110003 / 100000) (219 / 200) True = Inr 503"
  using relative_level_iff [OF sample_on_scale(2) sample_on_scale(3), of True 503] by simp

lemma sample_on_grid: "require_on_price_grid sample_instrument (219 / 200) = Inr ()"
  by code_simp

lemmas sample_values = sample_volume sample_distance sample_on_grid

lemma sample_checks:
  "require_opening_market_order sample_instrument sample_entry = Inr ()"
  "protective_legs sample_instrument sample_entry [sample_leg] None None = Inr (Some sample_leg, None)"
  "check_client_order_id ''E-1'' = Inr ''E-1''" "encode_label ''E-1'' = Inr ''ntca1:E-1''"
  "encode_comment \<lparr>leg_stop_loss = Some ''S-1'', leg_take_profit = None\<rparr> = Inr ''ntca1|sl=S-1''"
  by code_simp+

lemma sample_fields:
  "no_side sample_entry = BUY" "no_quantity sample_entry = 1000" "no_client_order_id sample_entry = ''E-1''"
  "no_client_order_id sample_leg = ''S-1''" "no_trigger_price sample_leg = 219 / 200"
  "no_quantity sample_leg = 1000" "no_price sample_leg = 0" "no_order_type sample_leg = OT_STOP_MARKET"
  "ins_price_precision sample_instrument = 5" "ins_symbol_id sample_instrument = 1"
  by (simp_all add: sample_entry_def sample_leg_def sample_instrument_def)

lemma sample_bracket_placed:
  "bracket 1 sample_instrument [sample_entry, sample_leg] (110001 / 100000) (110003 / 100000) =
     Inr \<lparr>br_request = \<lparr>nr_ctidTraderAccountId = 1, nr_symbolId = 1, nr_orderType = MARKET,
            nr_tradeSide = BUY, nr_volume = 100000, nr_timeInForce = IMMEDIATE_OR_CANCEL,
            nr_clientOrderId = ''E-1'', nr_label = ''ntca1:E-1'', nr_comment = ''ntca1|sl=S-1'',
            nr_relativeStopLoss = Some 503, nr_relativeTakeProfit = None\<rparr>,
          br_stop_loss_id = Some ''S-1'', br_take_profit_id = None,
          br_stop_loss = Some (219 / 200), br_take_profit = None,
          br_reference = 110003 / 100000\<rparr>"
  by (simp add: bracket_def new_order_def leg_distance_def recorded_def sample_checks sample_values
        sample_fields Let_def del: protective_legs.simps)

theorem bracket_request_carries_the_bracket_witness:
  "\<exists>b. bracket 1 sample_instrument [sample_entry, sample_leg] (110001 / 100000) (110003 / 100000) = Inr b \<and>
     carried b STOP_LOSS sample_leg"
  using bracket_request_carries_the_bracket [OF sample_bracket_placed, of 1000 0]
  by (simp add: sample_bracket_placed sample_fields sample_on_scale)

theorem close_only_reduces_witness:
  "\<exists>r. close_position 1 9 (sample_leg\<lparr>no_order_type := OT_MARKET, no_contingency_type := NO_CONTINGENCY\<rparr>)
       LONG = Inr r \<and> volume_to_units (cr_volume r) = 1000"
proof -
  have close: "close_position 1 9
      (sample_leg\<lparr>no_order_type := OT_MARKET, no_contingency_type := NO_CONTINGENCY\<rparr>) LONG =
      Inr \<lparr>cr_ctidTraderAccountId = 1, cr_positionId = 9, cr_volume = 100000\<rparr>"
    by (simp add: close_position_def require_expressible_def require_not_linked_def refuse_if_def
          sample_leg_def sample_entry_def MARKET_TIME_IN_FORCE_def sample_values)
  from close_only_reduces [OF close, of 1000 0] close show ?thesis
    by (simp add: sample_fields)
qed

theorem amend_changes_only_what_was_asked_witness:
  "binary_double (109 / 100) \<noteq> Finite (109 / 100) \<and> (\<exists>r limit stop.
     amend_order binary_double 1 sample_instrument sample_limit_order None (Some (109 / 100)) None = Inr (Some r) \<and>
     replaced sample_limit_order r =
       sample_limit_order\<lparr>f_tradeData := Some (tradeData sample_limit_order),
         f_limitPrice := limit, f_stopPrice := stop\<rparr> \<and>
     price_asked 5 (Some (109 / 100)) (f_limitPrice sample_limit_order) limit)"
proof -
  let ?r = "amend_request 1 sample_limit_order 100000 (Some (binary_double (109 / 100))) None"
  have amend: "amend_order binary_double 1 sample_instrument sample_limit_order None (Some (109 / 100)) None =
      Inr (Some ?r)" by code_simp
  have "schema_order sample_limit_order" by code_simp
  then have "\<exists>limit stop. replaced sample_limit_order ?r =
       sample_limit_order\<lparr>f_tradeData := Some (tradeData sample_limit_order),
         f_limitPrice := limit, f_stopPrice := stop\<rparr> \<and>
     price_asked 5 (Some (109 / 100)) (f_limitPrice sample_limit_order) limit"
    using amend_changes_only_what_was_asked [OF amend binary_double_near]
    by (auto simp: sample_fields few_digits_def)
  moreover have "binary_double (109 / 100) \<noteq> Finite (109 / 100)" by code_simp
  ultimately show ?thesis using amend by blast
qed

end
