(* ===== verification/Bars.thy ===== *)
theory Bars
  imports Prelude
begin

text \<open>
  \<open>common/bars.py\<close>: the state machine that decides when a live bar is closed. The object's
  attributes are the record \<open>BarCloser\<close>; the calls of the emit callback are its ghost field
  \<open>emitted\<close>. The two coroutines that wait, the resolver task and \<open>backfill\<close>, are the records of
  where they wait (\<open>resolver_at\<close>, \<open>backfill_at\<close>), and what they wait for - a history answer, a
  sleep, a fetched range, the queue drained or the wait expired - is an event. \<open>closer_step\<close>
  runs one event to its next wait, as the event loop does; any sequence of events is a run, so
  every interleaving is covered. The clock's time is an argument of the events that read it;
  epoch seconds are rationals and rounding of floats is not modelled. The emit callback does not
  call back into the closer, and an entry of the queue is identified by its boundary (boundaries
  in the queue are distinct, shown below). Log lines are left out but for the two warn-once
  flags.

  Shown in \<open>Bars_Order\<close>: bars go out once each and in strictly ascending order, none from before the
  closer's construction; a closed bar whose state is known is never lost; and the resolver, left
  to itself, comes to an end.
\<close>

record RawBar =
  boundary_secs :: int
  low :: int
  delta_open :: int
  delta_high :: int
  delta_close :: int
  bar_volume :: int

record Pending =
  boundary :: int
  streamed :: "RawBar option"
  needs_history :: bool

text \<open>Where \<open>_resolve\<close> waits: not yet run; in \<open>_fetch_by\<close>; in the sleep before an attempt.\<close>

datatype resolver_at =
    Resolver_created
  | Fetching int nat rat bool
  | Sleeping int nat rat bool

text \<open>Where \<open>backfill\<close> waits: for its range; for the queue to drain.\<close>

datatype backfill_at = Fetching_range int int | Draining int

record BarCloser =
  bc_period :: int
  bc_grace :: rat
  bc_retries :: nat
  bc_floor :: int
  bc_phase :: "int option"
  bc_last_emitted :: "int option"
  bc_current :: "RawBar option"
  bc_timer :: "(int \<times> rat) option"
  bc_queue :: "Pending list"
  bc_resolver :: "resolver_at option"
  bc_drained :: bool
  bc_holding :: bool
  bc_held :: "RawBar option"
  bc_baseline :: bool
  bc_closed :: bool
  bc_warned_failed :: bool
  bc_warned_empty :: bool
  bc_backfill :: "backfill_at option"
  emitted :: "RawBar list"

text \<open>\<open>int\<close> of a float.\<close>

definition truncate :: "rat \<Rightarrow> int" where
  "truncate t = (if t < 0 then \<lceil>t\<rceil> else \<lfloor>t\<rfloor>)"

definition new_BarCloser :: "int \<Rightarrow> rat \<Rightarrow> nat \<Rightarrow> rat \<Rightarrow> BarCloser" where
  "new_BarCloser period_secs grace_secs history_retries now =
     \<lparr>bc_period = period_secs, bc_grace = grace_secs, bc_retries = history_retries,
      bc_floor = truncate now - period_secs + 1, bc_phase = None, bc_last_emitted = None,
      bc_current = None, bc_timer = None, bc_queue = [], bc_resolver = None, bc_drained = True,
      bc_holding = False, bc_held = None, bc_baseline = True, bc_closed = False,
      bc_warned_failed = False, bc_warned_empty = False, bc_backfill = None, emitted = []\<rparr>"

subsection \<open>Boundaries\<close>

definition observe :: "int \<Rightarrow> BarCloser \<Rightarrow> BarCloser" where
  "observe b bc = bc\<lparr>bc_phase := Some (b mod bc_period bc)\<rparr>"

definition floor_boundary :: "rat \<Rightarrow> BarCloser \<Rightarrow> int" where
  "floor_boundary t bc =
     (let phase = (case bc_phase bc of None \<Rightarrow> 0 | Some p \<Rightarrow> p)
      in ((truncate t - phase) div bc_period bc) * bc_period bc + phase)"

definition last_closed_boundary :: "rat \<Rightarrow> BarCloser \<Rightarrow> int" where
  "last_closed_boundary now bc = floor_boundary now bc - bc_period bc"

definition is_covered :: "int \<Rightarrow> BarCloser \<Rightarrow> bool" where
  "is_covered b bc = (case bc_last_emitted bc of None \<Rightarrow> False | Some l \<Rightarrow> b \<le> l)"

definition find_pending :: "int \<Rightarrow> BarCloser \<Rightarrow> Pending option" where
  "find_pending b bc = find (\<lambda>p. boundary p = b) (bc_queue bc)"

subsection \<open>Timer and emission\<close>

definition cancel_timer :: "BarCloser \<Rightarrow> BarCloser" where
  "cancel_timer bc = bc\<lparr>bc_timer := None\<rparr>"

definition arm :: "rat \<Rightarrow> int \<Rightarrow> BarCloser \<Rightarrow> BarCloser" where
  "arm now b bc =
     (let delay = of_int (b + bc_period bc) + bc_grace bc - now
      in (cancel_timer bc)\<lparr>bc_timer := Some (b, max delay 0)\<rparr>)"

definition emit :: "RawBar \<Rightarrow> BarCloser \<Rightarrow> BarCloser" where
  "emit bar bc =
     (if is_covered (boundary_secs bar) bc then bc
      else bc\<lparr>bc_last_emitted := Some (boundary_secs bar), emitted := emitted bc @ [bar]\<rparr>)"

function emit_ready :: "BarCloser \<Rightarrow> BarCloser \<times> Pending option" where
  "emit_ready bc =
     (case bc_queue bc of
        [] \<Rightarrow> (bc, None)
      | front # rest \<Rightarrow>
          if bc_closed bc then (bc, None)
          else if needs_history front \<and> \<not> is_covered (boundary front) bc then (bc, Some front)
          else let bc = bc\<lparr>bc_queue := rest\<rparr>
               in emit_ready (case streamed front of None \<Rightarrow> bc | Some bar \<Rightarrow> emit bar bc))"
  by pat_completeness auto

lemma queue_emit [simp]: "bc_queue (emit bar bc) = bc_queue bc"
  by (simp add: emit_def)

termination emit_ready
  by (relation "measure (\<lambda>bc. length (bc_queue bc))") (simp_all split: option.splits)

declare emit_ready.simps [simp del]

definition pump :: "BarCloser \<Rightarrow> BarCloser" where
  "pump bc =
     (if bc_resolver bc \<noteq> None then bc
      else case emit_ready bc of
        (bc, None) \<Rightarrow> bc\<lparr>bc_drained := True\<rparr>
      | (bc, Some _) \<Rightarrow> bc\<lparr>bc_resolver := Some Resolver_created\<rparr>)"

subsection \<open>The queue\<close>

text \<open>\<open>queue.insert(index, p)\<close> with \<open>index\<close> the number of entries before it.\<close>

definition insert_pending :: "Pending \<Rightarrow> Pending list \<Rightarrow> Pending list" where
  "insert_pending p q =
     (let index = length (filter (\<lambda>r. boundary r < boundary p) q)
      in take index q @ p # drop index q)"

definition attach :: "int \<Rightarrow> RawBar option \<Rightarrow> Pending list \<Rightarrow> Pending list" where
  "attach b bar q =
     map (\<lambda>p. if boundary p = b \<and> streamed p = None then p\<lparr>streamed := bar\<rparr> else p) q"

definition enqueue :: "int \<Rightarrow> RawBar option \<Rightarrow> bool \<Rightarrow> BarCloser \<Rightarrow> BarCloser" where
  "enqueue b bar history bc =
     (if bc_closed bc \<or> b < bc_floor bc \<or> is_covered b bc then bc
      else case find_pending b bc of
        Some existing \<Rightarrow> bc\<lparr>bc_queue := attach b bar (bc_queue bc)\<rparr>
      | None \<Rightarrow>
          pump (bc\<lparr>bc_queue := insert_pending \<lparr>boundary = b, streamed = bar, needs_history = history\<rparr>
                                (bc_queue bc),
                   bc_drained := False\<rparr>))"

subsection \<open>What the stream and the timer bring\<close>

definition on_update :: "rat \<Rightarrow> RawBar \<Rightarrow> BarCloser \<Rightarrow> BarCloser" where
  "on_update now bar bc =
     (if bc_closed bc then bc
      else let b = boundary_secs bar; bc = observe b bc in
        if b < bc_floor bc \<or> is_covered b bc then bc
        else if bc_holding bc then bc\<lparr>bc_held := Some bar\<rparr>
        else if find_pending b bc \<noteq> None then enqueue b (Some bar) True bc
        else let late = bc_baseline bc \<and> of_int (b + bc_period bc) \<le> now;
                 bc = bc\<lparr>bc_baseline := False\<rparr> in
          if late then enqueue b (Some bar) True bc
          else case bc_current bc of
            None \<Rightarrow> arm now b (bc\<lparr>bc_current := Some bar\<rparr>)
          | Some previous \<Rightarrow>
              if b = boundary_secs previous then bc\<lparr>bc_current := Some bar\<rparr>
              else if boundary_secs previous < b then
                enqueue (boundary_secs previous) (Some previous) False
                  (arm now b (bc\<lparr>bc_current := Some bar\<rparr>))
              else bc)"

definition on_timer :: "int \<Rightarrow> BarCloser \<Rightarrow> BarCloser" where
  "on_timer b bc =
     (case bc_current bc of
        None \<Rightarrow> bc
      | Some bar \<Rightarrow>
          if bc_closed bc \<or> boundary_secs bar \<noteq> b then bc
          else enqueue b (Some bar) True (bc\<lparr>bc_timer := None, bc_current := None\<rparr>))"

definition on_disconnect :: "BarCloser \<Rightarrow> BarCloser" where
  "on_disconnect bc =
     (if bc_closed bc then bc
      else (cancel_timer bc)\<lparr>bc_current := None, bc_held := None, bc_baseline := True\<rparr>)"

definition close_bars :: "BarCloser \<Rightarrow> BarCloser" where
  "close_bars bc =
     (cancel_timer (bc\<lparr>bc_closed := True\<rparr>))\<lparr>bc_current := None, bc_held := None, bc_queue := [],
        bc_resolver := None, bc_drained := True\<rparr>"

subsection \<open>The resolver\<close>

definition wanted :: "int \<Rightarrow> BarCloser \<Rightarrow> bool" where
  "wanted b bc \<longleftrightarrow> \<not> bc_closed bc \<and> \<not> is_covered b bc \<and> find_pending b bc \<noteq> None"

text \<open>The \<open>finally\<close> of \<open>_resolve\<close>.\<close>

definition resolver_ends :: "BarCloser \<Rightarrow> BarCloser" where
  "resolver_ends bc =
     (bc\<lparr>bc_resolver := None\<rparr>)\<lparr>bc_drained := bc_drained bc \<or> bc_queue bc = []\<rparr>"

text \<open>
  The head of the loop of \<open>_resolve\<close>, up to the first history request. The entry returned by
  \<open>emit_ready\<close> is wanted (it is at the front and not covered), so \<open>_from_history\<close> asks.
\<close>

definition resolve_next :: "rat \<Rightarrow> BarCloser \<Rightarrow> BarCloser" where
  "resolve_next now bc =
     (case emit_ready bc of
        (bc, None) \<Rightarrow> resolver_ends bc
      | (bc, Some pending) \<Rightarrow>
          bc\<lparr>bc_resolver := Some (Fetching (boundary pending) 0 (now + of_int (bc_period bc)) False)\<rparr>)"

text \<open>The entry carries its final bar; the loop goes on. A closed closer ends the task.\<close>

definition resolved :: "rat \<Rightarrow> int \<Rightarrow> RawBar option \<Rightarrow> BarCloser \<Rightarrow> BarCloser" where
  "resolved now b result bc =
     (if bc_closed bc then resolver_ends bc
      else resolve_next now
        (bc\<lparr>bc_queue := map (\<lambda>p. if boundary p = b
                                  then p\<lparr>streamed := result, needs_history := False\<rparr> else p)
                          (bc_queue bc)\<rparr>))"

definition pending_streamed :: "int \<Rightarrow> BarCloser \<Rightarrow> RawBar option" where
  "pending_streamed b bc = (case find_pending b bc of None \<Rightarrow> None | Some p \<Rightarrow> streamed p)"

text \<open>After the loop of \<open>_from_history\<close>: \<open>failed\<close> is whether the last answer was an error.\<close>

definition fall_back :: "rat \<Rightarrow> int \<Rightarrow> bool \<Rightarrow> BarCloser \<Rightarrow> BarCloser" where
  "fall_back now b failed bc =
     (if \<not> wanted b bc then resolved now b None bc
      else let bar = pending_streamed b bc;
               bc = (if failed then bc\<lparr>bc_warned_failed := True\<rparr>
                     else if bar \<noteq> None then bc\<lparr>bc_warned_empty := True\<rparr> else bc)
           in resolved now b bar bc)"

text \<open>The next turn of its \<open>for\<close>, after attempt \<open>attempt\<close>.\<close>

definition next_attempt :: "rat \<Rightarrow> int \<Rightarrow> nat \<Rightarrow> rat \<Rightarrow> bool \<Rightarrow> BarCloser \<Rightarrow> BarCloser" where
  "next_attempt now b attempt deadline failed bc =
     (if bc_retries bc \<le> attempt \<or> deadline \<le> now + bc_grace bc then fall_back now b failed bc
      else bc\<lparr>bc_resolver := Some (Sleeping b (attempt + 1) deadline failed)\<rparr>)"

text \<open>What a history request may come to; a timeout at the deadline is a failure.\<close>

datatype history_answer = No_connection | Failed | Bar "RawBar option"

definition history_answered :: "rat \<Rightarrow> history_answer \<Rightarrow> BarCloser \<Rightarrow> BarCloser" where
  "history_answered now answer bc =
     (case bc_resolver bc of
        Some (Fetching b attempt deadline failed) \<Rightarrow>
          (case answer of
             No_connection \<Rightarrow> resolver_ends bc
           | Failed \<Rightarrow> next_attempt now b attempt deadline True bc
           | Bar None \<Rightarrow> next_attempt now b attempt deadline False bc
           | Bar (Some bar) \<Rightarrow>
               let bc = observe (boundary_secs bar) bc in
               if boundary_secs bar \<noteq> b then next_attempt now b attempt deadline False bc
               else resolved now b (Some bar) bc)
      | _ \<Rightarrow> bc)"

definition resolver_slept :: "rat \<Rightarrow> BarCloser \<Rightarrow> BarCloser" where
  "resolver_slept now bc =
     (case bc_resolver bc of
        Some (Sleeping b attempt deadline failed) \<Rightarrow>
          if \<not> wanted b bc then resolved now b None bc
          else bc\<lparr>bc_resolver := Some (Fetching b attempt deadline failed)\<rparr>
      | _ \<Rightarrow> bc)"

definition resolver_starts :: "rat \<Rightarrow> BarCloser \<Rightarrow> BarCloser" where
  "resolver_starts now bc =
     (if bc_resolver bc = Some Resolver_created then resolve_next now bc else bc)"

subsection \<open>Backfill\<close>

text \<open>Its \<open>finally\<close>, then the replay of what was held.\<close>

definition backfill_ends :: "BarCloser \<Rightarrow> BarCloser" where
  "backfill_ends bc = bc\<lparr>bc_backfill := None, bc_holding := False, bc_baseline := True\<rparr>"

definition replay_held :: "rat \<Rightarrow> BarCloser \<Rightarrow> BarCloser" where
  "replay_held now bc =
     (case bc_held bc of
        None \<Rightarrow> bc
      | Some bar \<Rightarrow> on_update now bar (bc\<lparr>bc_held := None\<rparr>))"

text \<open>\<open>range(first, newest + 1, period)\<close>, of which there are \<open>(newest - first) div period + 1\<close>.\<close>

definition tail_boundaries :: "int \<Rightarrow> int \<Rightarrow> int \<Rightarrow> int list" where
  "tail_boundaries first newest period =
     map (\<lambda>i. first + int i * period) [0..<nat ((newest - first) div period + 1)]"

definition queue_tail :: "rat \<Rightarrow> int \<Rightarrow> BarCloser \<Rightarrow> BarCloser" where
  "queue_tail now end1 bc =
     (if bc_phase bc = None then bc
      else let newest = last_closed_boundary now bc;
               first = min (floor_boundary (of_int end1) bc) newest
           in fold (\<lambda>b. enqueue b None True) (tail_boundaries first newest (bc_period bc)) bc)"

text \<open>The end of \<open>backfill\<close>, once the fetched range has drained or the wait has expired.\<close>

definition backfill_rest :: "rat \<Rightarrow> int \<Rightarrow> BarCloser \<Rightarrow> BarCloser" where
  "backfill_rest now end1 bc =
     (if bc_closed bc then backfill_ends bc
      else replay_held now (backfill_ends (queue_tail now end1 bc)))"

definition backfill :: "rat \<Rightarrow> BarCloser \<Rightarrow> BarCloser" where
  "backfill now bc =
     (if bc_closed bc \<or> bc_holding bc then bc
      else let bc = pump ((cancel_timer (bc\<lparr>bc_holding := True, bc_held := None\<rparr>))
                            \<lparr>bc_current := None\<rparr>);
               end1 = last_closed_boundary now bc;
               start = (case bc_last_emitted bc of
                          None \<Rightarrow> bc_floor bc
                        | Some l \<Rightarrow> max (bc_floor bc) (l + bc_period bc))
           in if end1 < start then backfill_rest now end1 bc
              else bc\<lparr>bc_backfill := Some (Fetching_range start end1)\<rparr>)"

text \<open>One bar of the fetched range.\<close>

definition take_fetched :: "int \<Rightarrow> int \<Rightarrow> RawBar \<Rightarrow> BarCloser \<Rightarrow> BarCloser" where
  "take_fetched start end1 bar bc =
     (let bc = observe (boundary_secs bar) bc
      in if start \<le> boundary_secs bar \<and> boundary_secs bar \<le> end1
         then enqueue (boundary_secs bar) (Some bar) False bc else bc)"

text \<open>The range arrived (None: \<open>fetch_range\<close> raised, which propagates out of \<open>backfill\<close>).\<close>

definition range_fetched :: "rat \<Rightarrow> RawBar list option \<Rightarrow> BarCloser \<Rightarrow> BarCloser" where
  "range_fetched now answer bc =
     (case bc_backfill bc of
        Some (Fetching_range start end1) \<Rightarrow>
          (case answer of
             None \<Rightarrow> backfill_ends bc
           | Some bars \<Rightarrow>
               if bc_closed bc then backfill_ends bc
               else let bc = fold (take_fetched start end1) (sort_key boundary_secs bars) bc
                    in if bc_drained bc then backfill_rest now end1 bc
                       else bc\<lparr>bc_backfill := Some (Draining end1)\<rparr>)
      | _ \<Rightarrow> bc)"

text \<open>\<open>_wait_drained\<close> returned: the queue drained, or the wait expired before it did.\<close>

definition drain_waited :: "rat \<Rightarrow> BarCloser \<Rightarrow> BarCloser" where
  "drain_waited now bc =
     (case bc_backfill bc of
        Some (Draining end1) \<Rightarrow> backfill_rest now end1 bc
      | _ \<Rightarrow> bc)"

text \<open>\<open>backfill\<close> cancelled while it waits: its \<open>finally\<close> runs.\<close>

definition backfill_cancelled :: "BarCloser \<Rightarrow> BarCloser" where
  "backfill_cancelled bc = (if bc_backfill bc = None then bc else backfill_ends bc)"

text \<open>How long \<open>_wait_drained\<close> waits at most.\<close>

definition drain_bound_secs :: "BarCloser \<Rightarrow> rat" where
  "drain_bound_secs bc =
     of_nat (1 + bc_retries bc) * bc_grace bc * of_nat (length (bc_queue bc)) + bc_grace bc"

subsection \<open>Runs\<close>

datatype closer_event =
    Update rat RawBar
  | Timer int
  | Disconnect
  | Close
  | Backfill rat
  | Range_fetched rat "RawBar list option"
  | Drain_waited rat
  | Backfill_cancelled
  | Resolver_starts rat
  | History_answered rat history_answer
  | Resolver_slept rat

fun closer_step :: "closer_event \<Rightarrow> BarCloser \<Rightarrow> BarCloser" where
  "closer_step (Update now bar) bc = on_update now bar bc"
| "closer_step (Timer b) bc = on_timer b bc"
| "closer_step Disconnect bc = on_disconnect bc"
| "closer_step Close bc = close_bars bc"
| "closer_step (Backfill now) bc = backfill now bc"
| "closer_step (Range_fetched now answer) bc = range_fetched now answer bc"
| "closer_step (Drain_waited now) bc = drain_waited now bc"
| "closer_step Backfill_cancelled bc = backfill_cancelled bc"
| "closer_step (Resolver_starts now) bc = resolver_starts now bc"
| "closer_step (History_answered now answer) bc = history_answered now answer bc"
| "closer_step (Resolver_slept now) bc = resolver_slept now bc"

end
