(* ===== verification/Bars_Order.thy ===== *)
theory Bars_Order
  imports Bars
begin

text \<open>
  What the closer of bars promises, over every run of its events: the invariant of its queue and
  of what went out, proved once for every caller of the queue in the locale \<open>queue_invariant\<close>
  (interpreted for the order of the queue, for the floor, for what is accounted for and for the
  resolver's wait), and the three properties that rest on it.
\<close>

subsection \<open>The invariant\<close>

definition covers :: "int option \<Rightarrow> int \<Rightarrow> bool" where
  "covers l b = (case l of None \<Rightarrow> False | Some k \<Rightarrow> b \<le> k)"

lemma is_covered_covers: "is_covered b bc = covers (bc_last_emitted bc) b"
  by (simp add: is_covered_def covers_def)

text \<open>
  The queue is strictly ascending and lies above what went out; what went out is strictly
  ascending and ends at \<open>last_emitted\<close>; nothing is below the floor; an entry's bar is its own.
\<close>

definition core_ok :: "int \<Rightarrow> Pending list \<Rightarrow> int option \<Rightarrow> RawBar list \<Rightarrow> bool" where
  "core_ok f q l out \<longleftrightarrow>
     sorted_wrt (<) (map boundary q) \<and>
     (\<forall>p \<in> set q. f \<le> boundary p \<and> \<not> covers l (boundary p) \<and>
        (\<forall>bar. streamed p = Some bar \<longrightarrow> boundary_secs bar = boundary p)) \<and>
     sorted_wrt (<) (map boundary_secs out) \<and>
     (\<forall>bar \<in> set out. f \<le> boundary_secs bar \<and> covers l (boundary_secs bar)) \<and>
     (out = [] \<longleftrightarrow> l = None)"

definition closer_ok :: "BarCloser \<Rightarrow> bool" where
  "closer_ok bc = core_ok (bc_floor bc) (bc_queue bc) (bc_last_emitted bc) (emitted bc)"

lemma core_ok_pop: "core_ok f (p # q) l out \<Longrightarrow> core_ok f q l out"
  by (simp add: core_ok_def)

lemma core_ok_emit:
  assumes "core_ok f (p # q) l out" and "streamed p = Some bar"
  shows "core_ok f q (Some (boundary_secs bar)) (out @ [bar])"
  using assms by (auto simp: core_ok_def covers_def sorted_wrt_append split: option.splits)

lemma set_insert_pending: "set (insert_pending p q) = insert p (set q)"
proof -
  have "set (take i q) \<union> set (drop i q) = set q" for i
    by (metis append_take_drop_id set_append)
  then show ?thesis by (simp add: insert_pending_def Let_def)
qed

lemma insert_pending_ascending:
  assumes "sorted_wrt (<) (map boundary q)" and "\<forall>r \<in> set q. boundary r \<noteq> boundary p"
  shows "sorted_wrt (<) (map boundary (insert_pending p q)) \<and>
    set (insert_pending p q) = insert p (set q)"
  using assms
proof (induction q)
  case (Cons r q)
  show ?case
  proof (cases "boundary r < boundary p")
    case True
    then have "insert_pending p (r # q) = r # insert_pending p q"
      by (simp add: insert_pending_def Let_def)
    with Cons True show ?thesis by auto
  next
    case False
    with Cons.prems have "\<forall>s \<in> set (r # q). boundary p < boundary s" by fastforce
    moreover from this have "filter (\<lambda>s. boundary s < boundary p) (r # q) = []"
      by (intro filter_False) auto
    ultimately show ?thesis using Cons.prems by (simp add: insert_pending_def)
  qed
qed (simp add: insert_pending_def)

lemma core_ok_insert:
  assumes "core_ok f q l out" and "\<forall>r \<in> set q. boundary r \<noteq> boundary p"
    and "f \<le> boundary p" and "\<not> covers l (boundary p)"
    and "\<forall>bar. streamed p = Some bar \<longrightarrow> boundary_secs bar = boundary p"
  shows "core_ok f (insert_pending p q) l out"
  using assms insert_pending_ascending [of q p] by (simp add: core_ok_def)

lemma core_ok_map:
  assumes "core_ok f q l out" and "\<forall>p \<in> set q. boundary (g p) = boundary p"
    and "\<forall>p \<in> set q. \<forall>bar. streamed (g p) = Some bar \<longrightarrow> boundary_secs bar = boundary p"
  shows "core_ok f (map g q) l out"
proof -
  have "map (boundary \<circ> g) q = map boundary q" using assms(2) by simp
  with assms show ?thesis unfolding core_ok_def by (simp del: map_eq_conv)
qed

subsection \<open>Every operation keeps it\<close>

lemma closer_ok_new: "closer_ok (new_BarCloser p g r now)"
  by (simp add: closer_ok_def new_BarCloser_def core_ok_def)

lemma emit_uncovered:
  assumes "core_ok f (p # q) (bc_last_emitted bc) out" and "streamed p = Some bar"
  shows "emit bar bc = bc\<lparr>bc_last_emitted := Some (boundary_secs bar), emitted := emitted bc @ [bar]\<rparr>"
  using assms by (simp add: emit_def is_covered_covers core_ok_def)

text \<open>One turn of the loop of \<open>emit_ready\<close>, and what holds of it when every turn keeps it.\<close>

definition pop_front :: "Pending \<Rightarrow> Pending list \<Rightarrow> BarCloser \<Rightarrow> BarCloser" where
  "pop_front front rest bc =
     (case streamed front of
        None \<Rightarrow> bc\<lparr>bc_queue := rest\<rparr>
      | Some bar \<Rightarrow> emit bar (bc\<lparr>bc_queue := rest\<rparr>))"

definition ready :: "Pending \<Rightarrow> BarCloser \<Rightarrow> bool" where
  "ready front bc \<longleftrightarrow> \<not> bc_closed bc \<and> \<not> (needs_history front \<and> \<not> is_covered (boundary front) bc)"

lemma emit_ready_pop:
  "bc_queue bc = front # rest \<Longrightarrow> ready front bc \<Longrightarrow>
   emit_ready bc = emit_ready (pop_front front rest bc)"
  by (subst emit_ready.simps) (auto simp: ready_def pop_front_def Let_def split: option.splits)

lemma emit_ready_stop:
  "bc_queue bc = front # rest \<Longrightarrow> \<not> ready front bc \<Longrightarrow>
   emit_ready bc = (bc, if bc_closed bc then None else Some front)"
  by (subst emit_ready.simps) (auto simp: ready_def)

lemma emit_ready_empty: "bc_queue bc = [] \<Longrightarrow> emit_ready bc = (bc, None)"
  by (subst emit_ready.simps) simp

lemma queue_pop_front [simp]: "bc_queue (pop_front front rest bc) = rest"
  by (simp add: pop_front_def split: option.splits)

lemma emit_ready_induct [consumes 1, case_names pop]:
  assumes "I bc"
    and "\<And>bc front rest. I bc \<Longrightarrow> bc_queue bc = front # rest \<Longrightarrow> ready front bc \<Longrightarrow>
           I (pop_front front rest bc)"
  shows "I (fst (emit_ready bc))"
  using assms(1)
proof (induction "length (bc_queue bc)" arbitrary: bc)
  case 0
  then show ?case by (simp add: emit_ready_empty)
next
  case (Suc n)
  then obtain front rest where q: "bc_queue bc = front # rest" by (cases "bc_queue bc") simp_all
  show ?case
  proof (cases "ready front bc")
    case True
    with Suc q assms(2) show ?thesis by (simp add: emit_ready_pop)
  next
    case False
    with Suc q show ?thesis by (simp add: emit_ready_stop)
  qed
qed

lemma pop_front_ok:
  assumes "closer_ok bc" and "bc_queue bc = front # rest"
  shows "closer_ok (pop_front front rest bc)"
proof -
  have ok: "core_ok (bc_floor bc) (front # rest) (bc_last_emitted bc) (emitted bc)"
    using assms by (simp add: closer_ok_def)
  show ?thesis
  proof (cases "streamed front")
    case None
    with core_ok_pop [OF ok] show ?thesis by (simp add: closer_ok_def pop_front_def)
  next
    case (Some bar)
    with core_ok_emit [OF ok Some] emit_uncovered [of _ front rest "bc\<lparr>bc_queue := rest\<rparr>"] ok
    show ?thesis by (simp add: closer_ok_def pop_front_def)
  qed
qed

lemma emit_ready_ok: "closer_ok bc \<Longrightarrow> closer_ok (fst (emit_ready bc))"
  by (induction rule: emit_ready_induct) (simp add: pop_front_ok)

lemma pump_ok: "closer_ok bc \<Longrightarrow> closer_ok (pump bc)"
  using emit_ready_ok [of bc]
  by (auto simp: pump_def closer_ok_def split: prod.splits option.splits)

lemma find_pending_None: "find_pending b bc = None \<longleftrightarrow> (\<forall>p \<in> set (bc_queue bc). boundary p \<noteq> b)"
  by (auto simp: find_pending_def find_None_iff)

lemma enqueue_cases [case_names refused attached queued]:
  obtains "bc_closed bc \<or> b < bc_floor bc \<or> is_covered b bc" "enqueue b bar history bc = bc"
  | "\<not> (bc_closed bc \<or> b < bc_floor bc \<or> is_covered b bc)"
    "\<exists>p \<in> set (bc_queue bc). boundary p = b"
    "enqueue b bar history bc = bc\<lparr>bc_queue := attach b bar (bc_queue bc)\<rparr>"
  | "\<not> (bc_closed bc \<or> b < bc_floor bc \<or> is_covered b bc)"
    "\<forall>p \<in> set (bc_queue bc). boundary p \<noteq> b"
    "enqueue b bar history bc =
       pump (bc\<lparr>bc_queue := insert_pending \<lparr>boundary = b, streamed = bar, needs_history = history\<rparr>
                              (bc_queue bc), bc_drained := False\<rparr>)"
  using find_pending_None [of b bc]
  by (cases "bc_closed bc \<or> b < bc_floor bc \<or> is_covered b bc"; cases "find_pending b bc")
     (auto simp: enqueue_def)

lemma enqueue_ok:
  assumes "closer_ok bc" and "\<forall>x. bar = Some x \<longrightarrow> boundary_secs x = b"
  shows "closer_ok (enqueue b bar history bc)"
proof (cases rule: enqueue_cases [of bc b bar history])
  case refused
  with assms show ?thesis by simp
next
  case attached
  have "core_ok (bc_floor bc) (attach b bar (bc_queue bc)) (bc_last_emitted bc) (emitted bc)"
    unfolding attach_def
    by (rule core_ok_map) (use assms in \<open>auto simp: closer_ok_def core_ok_def\<close>)
  with attached show ?thesis by (simp add: closer_ok_def)
next
  case queued
  then show ?thesis
    using assms
    by (auto simp: closer_ok_def is_covered_covers
             intro!: pump_ok [unfolded closer_ok_def] core_ok_insert)
qed

subsection \<open>What every caller of the queue keeps\<close>

text \<open>
  The stream, the timer and the backfill reach the queue through \<open>enqueue\<close> and \<open>pump\<close> alone.
  What those two keep, and the other attributes do not touch, is therefore kept by all of them.
\<close>

definition same_core :: "BarCloser \<Rightarrow> BarCloser \<Rightarrow> bool" where
  "same_core bc bc' \<longleftrightarrow>
     bc_queue bc' = bc_queue bc \<and> bc_resolver bc' = bc_resolver bc \<and> bc_floor bc' = bc_floor bc \<and>
     bc_last_emitted bc' = bc_last_emitted bc \<and> emitted bc' = emitted bc \<and>
     bc_retries bc' = bc_retries bc \<and> bc_closed bc' = bc_closed bc"

locale queue_invariant =
  fixes I :: "BarCloser \<Rightarrow> bool"
  assumes frame: "I bc \<Longrightarrow> same_core bc bc' \<Longrightarrow> I bc'"
    and enqueue: "I bc \<Longrightarrow> \<forall>x. bar = Some x \<longrightarrow> boundary_secs x = b \<Longrightarrow> I (enqueue b bar history bc)"
    and pump: "I bc \<Longrightarrow> I (pump bc)"
begin

lemma enqueue_own: "I bc \<Longrightarrow> I (enqueue (boundary_secs bar) (Some bar) history bc)"
  by (rule enqueue) simp_all

lemma enqueue_none: "I bc \<Longrightarrow> I (enqueue b None history bc)"
  by (rule enqueue) simp_all

lemma observe: "I bc \<Longrightarrow> I (observe b bc)"
  by (erule frame) (simp add: observe_def same_core_def)

lemma on_update:
  assumes "I bc"
  shows "I (on_update now bar bc)"
proof -
  let ?b = "boundary_secs bar" and ?bc = "observe (boundary_secs bar) bc"
  have o: "I ?bc" using assms by (rule observe)
  have base: "I (?bc\<lparr>bc_baseline := False\<rparr>)" using o by (rule frame) (simp add: same_core_def)
  have held: "I (?bc\<lparr>bc_held := Some bar\<rparr>)" using o by (rule frame) (simp add: same_core_def)
  have cur: "I (?bc\<lparr>bc_baseline := False, bc_current := Some bar\<rparr>)"
    using o by (rule frame) (simp add: same_core_def)
  have armed: "I (arm now ?b (?bc\<lparr>bc_baseline := False, bc_current := Some bar\<rparr>))"
    using o by (rule frame) (simp add: same_core_def arm_def cancel_timer_def Let_def)
  show ?thesis
    using assms o base held cur armed enqueue_own
    by (auto simp: on_update_def Let_def split: option.splits)
qed

lemma on_timer:
  assumes "I bc"
  shows "I (on_timer b bc)"
proof -
  have "I (bc\<lparr>bc_timer := None, bc_current := None\<rparr>)"
    using assms by (rule frame) (simp add: same_core_def)
  with assms show ?thesis by (auto simp: on_timer_def intro!: enqueue_own split: option.splits)
qed

lemma on_disconnect: "I bc \<Longrightarrow> I (on_disconnect bc)"
  by (erule frame) (simp add: on_disconnect_def cancel_timer_def same_core_def)

lemma fold_keeps:
  assumes "I bc" and "\<And>x bc. I bc \<Longrightarrow> I (g x bc)"
  shows "I (fold g xs bc)"
  using assms(1) by (induction xs arbitrary: bc) (simp_all add: assms(2))

lemma backfill_ends: "I bc \<Longrightarrow> I (backfill_ends bc)"
  by (erule frame) (simp add: backfill_ends_def same_core_def)

lemma replay_held:
  assumes "I bc"
  shows "I (replay_held now bc)"
proof -
  have "I (bc\<lparr>bc_held := None\<rparr>)" using assms by (rule frame) (simp add: same_core_def)
  with assms show ?thesis by (simp add: replay_held_def on_update split: option.splits)
qed

lemma queue_tail: "I bc \<Longrightarrow> I (queue_tail now e bc)"
  by (simp add: queue_tail_def Let_def fold_keeps enqueue_none)

lemma backfill_rest: "I bc \<Longrightarrow> I (backfill_rest now e bc)"
  by (simp add: backfill_rest_def backfill_ends queue_tail replay_held)

lemma backfill_at: "I bc \<Longrightarrow> I (bc\<lparr>bc_backfill := at1\<rparr>)"
  by (erule frame) (simp add: same_core_def)

lemma backfill:
  assumes "I bc"
  shows "I (backfill now bc)"
proof -
  let ?bc = "(cancel_timer (bc\<lparr>bc_holding := True, bc_held := None\<rparr>))\<lparr>bc_current := None\<rparr>"
  have "I ?bc" using assms by (rule frame) (simp add: same_core_def cancel_timer_def)
  then have "I (pump ?bc)" by (rule pump)
  with assms show ?thesis by (simp add: backfill_def Let_def backfill_rest backfill_at)
qed

lemma take_fetched: "I bc \<Longrightarrow> I (take_fetched start e bar bc)"
  by (simp add: take_fetched_def Let_def enqueue_own observe)

lemma range_fetched: "I bc \<Longrightarrow> I (range_fetched now answer bc)"
  by (auto simp: range_fetched_def Let_def
           intro!: backfill_ends backfill_rest backfill_at fold_keeps take_fetched
           split: option.splits backfill_at.splits)

lemma drain_waited: "I bc \<Longrightarrow> I (drain_waited now bc)"
  by (auto simp: drain_waited_def intro!: backfill_rest split: option.splits backfill_at.splits)

lemma backfill_cancelled: "I bc \<Longrightarrow> I (backfill_cancelled bc)"
  by (simp add: backfill_cancelled_def backfill_ends)

lemmas stream_events = on_update on_timer on_disconnect backfill range_fetched drain_waited
  backfill_cancelled

end

interpretation ordered: queue_invariant closer_ok
  by unfold_locales (simp_all add: enqueue_ok pump_ok, simp add: closer_ok_def same_core_def)

subsection \<open>The resolver keeps the order\<close>

lemma closer_ok_resolver [simp]: "closer_ok (bc\<lparr>bc_resolver := r\<rparr>) = closer_ok bc"
  by (simp add: closer_ok_def)

lemma resolver_ends_ok [simp]: "closer_ok (resolver_ends bc) = closer_ok bc"
  by (simp add: resolver_ends_def closer_ok_def)

lemma resolve_next_ok: "closer_ok bc \<Longrightarrow> closer_ok (resolve_next now bc)"
  using emit_ready_ok [of bc]
  by (auto simp: resolve_next_def split: prod.splits option.splits)

text \<open>The entry of \<open>b\<close> with its final bar.\<close>

definition settle :: "int \<Rightarrow> RawBar option \<Rightarrow> BarCloser \<Rightarrow> BarCloser" where
  "settle b result bc =
     bc\<lparr>bc_queue := map (\<lambda>p. if boundary p = b
        then p\<lparr>streamed := result, needs_history := False\<rparr> else p) (bc_queue bc)\<rparr>"

lemma resolved_settle:
  "resolved now b result bc =
     (if bc_closed bc then resolver_ends bc else resolve_next now (settle b result bc))"
  by (simp add: resolved_def settle_def)

lemma settle_ok:
  assumes "closer_ok bc" and "\<forall>x. result = Some x \<longrightarrow> boundary_secs x = b"
  shows "closer_ok (settle b result bc)"
proof -
  have "core_ok (bc_floor bc)
      (map (\<lambda>p. if boundary p = b then p\<lparr>streamed := result, needs_history := False\<rparr> else p) (bc_queue bc))
      (bc_last_emitted bc) (emitted bc)"
    by (rule core_ok_map) (use assms in \<open>auto simp: closer_ok_def core_ok_def\<close>)
  then show ?thesis by (simp add: closer_ok_def settle_def)
qed

lemma resolved_ok:
  "closer_ok bc \<Longrightarrow> \<forall>x. result = Some x \<longrightarrow> boundary_secs x = b \<Longrightarrow>
   closer_ok (resolved now b result bc)"
  by (simp add: resolved_settle resolve_next_ok settle_ok)

lemma find_pending_Some:
  "find_pending b bc = Some p \<Longrightarrow> p \<in> set (bc_queue bc) \<and> boundary p = b"
  using find_split [of "\<lambda>p. boundary p = b" "bc_queue bc" p] by (auto simp: find_pending_def)

lemma pending_streamed_own:
  "closer_ok bc \<Longrightarrow> pending_streamed b bc = Some bar \<Longrightarrow> boundary_secs bar = b"
  by (auto simp: pending_streamed_def closer_ok_def core_ok_def dest!: find_pending_Some
           split: option.splits)

text \<open>The warn-once flags aside, falling back settles the entry as it stands.\<close>

lemma fall_back_resolved:
  "\<exists>bc'. same_core bc bc' \<and>
     fall_back now b failed bc =
       resolved now b (if wanted b bc then pending_streamed b bc else None) bc'"
proof -
  have "same_core bc bc" "same_core bc (bc\<lparr>bc_warned_failed := True\<rparr>)"
    "same_core bc (bc\<lparr>bc_warned_empty := True\<rparr>)"
    by (simp_all add: same_core_def)
  then show ?thesis unfolding fall_back_def Let_def by (simp; blast)
qed

lemma fall_back_ok: "closer_ok bc \<Longrightarrow> closer_ok (fall_back now b failed bc)"
  using fall_back_resolved [of bc now b failed] ordered.frame [of bc]
  by (auto intro!: resolved_ok dest: pending_streamed_own split: if_splits)

lemma next_attempt_ok: "closer_ok bc \<Longrightarrow> closer_ok (next_attempt now b k d failed bc)"
  by (simp add: next_attempt_def fall_back_ok)

lemma history_answered_ok: "closer_ok bc \<Longrightarrow> closer_ok (history_answered now answer bc)"
  by (auto simp: history_answered_def Let_def
           intro!: next_attempt_ok resolved_ok ordered.observe
           split: option.splits resolver_at.splits history_answer.splits)

lemma resolver_slept_ok: "closer_ok bc \<Longrightarrow> closer_ok (resolver_slept now bc)"
  by (auto simp: resolver_slept_def intro!: resolved_ok split: option.splits resolver_at.splits)

lemma resolver_starts_ok: "closer_ok bc \<Longrightarrow> closer_ok (resolver_starts now bc)"
  by (simp add: resolver_starts_def resolve_next_ok)

lemma close_bars_ok: "closer_ok bc \<Longrightarrow> closer_ok (close_bars bc)"
  by (simp add: close_bars_def cancel_timer_def closer_ok_def core_ok_def)

lemma closer_step_ok: "closer_ok bc \<Longrightarrow> closer_ok (closer_step ev bc)"
  by (cases ev)
     (simp_all add: ordered.stream_events close_bars_ok resolver_starts_ok history_answered_ok
        resolver_slept_ok)

lemma run_ok: "closer_ok bc \<Longrightarrow> closer_ok (fold closer_step events bc)"
  by (induction events arbitrary: bc) (simp_all add: closer_step_ok)

subsection \<open>The floor never moves\<close>

lemma floor_pop_front [frame_simps]: "bc_floor (pop_front front rest bc) = bc_floor bc"
  by (simp add: pop_front_def emit_def split: option.splits)

lemma floor_emit_ready [frame_simps]: "bc_floor (fst (emit_ready bc)) = bc_floor bc"
  by (rule emit_ready_induct [where I = "\<lambda>c. bc_floor c = bc_floor bc"])
     (simp_all add: frame_simps)

lemma floor_pump [frame_simps]: "bc_floor (pump bc) = bc_floor bc"
  using floor_emit_ready [of bc] by (auto simp: pump_def split: prod.splits option.splits)

lemma floor_enqueue [frame_simps]: "bc_floor (enqueue b bar history bc) = bc_floor bc"
  by (rule enqueue_cases [of bc b bar history]) (simp_all add: frame_simps)

interpretation floor: queue_invariant "\<lambda>bc. bc_floor bc = f" for f
  by unfold_locales (simp_all add: frame_simps same_core_def)

lemma floor_resolve_next [frame_simps]: "bc_floor (resolve_next now bc) = bc_floor bc"
  using floor_emit_ready [of bc]
  by (auto simp: resolve_next_def resolver_ends_def split: prod.splits option.splits)

lemma floor_resolved [frame_simps]: "bc_floor (resolved now b result bc) = bc_floor bc"
  by (simp add: resolved_settle resolver_ends_def settle_def frame_simps)

lemma floor_fall_back [frame_simps]: "bc_floor (fall_back now b failed bc) = bc_floor bc"
  using fall_back_resolved [of bc now b failed] by (auto simp: frame_simps same_core_def)

lemma floor_step: "bc_floor (closer_step ev bc) = bc_floor bc"
  by (cases ev)
     (simp_all add: floor.stream_events close_bars_def cancel_timer_def resolver_starts_def
        resolver_slept_def history_answered_def next_attempt_def observe_def resolver_ends_def
        frame_simps Let_def split: option.splits resolver_at.splits history_answer.splits)

lemma floor_run: "bc_floor (fold closer_step events bc) = bc_floor bc"
  by (induction events arbitrary: bc) (simp_all add: floor_step)

subsection \<open>No closed bar is lost\<close>

text \<open>A boundary is accounted for when its bar went out, or waits in the queue with its state.\<close>

definition accounted :: "int \<Rightarrow> BarCloser \<Rightarrow> bool" where
  "accounted b bc \<longleftrightarrow>
     b \<in> boundary_secs ` set (emitted bc) \<or>
     (\<exists>p \<in> set (bc_queue bc). boundary p = b \<and> streamed p \<noteq> None)"

definition kept :: "int \<Rightarrow> BarCloser \<Rightarrow> bool" where
  "kept b bc \<longleftrightarrow> closer_ok bc \<and> accounted b bc"

lemma kept_pop_front:
  assumes "kept b bc" and "bc_queue bc = front # rest"
  shows "accounted b (pop_front front rest bc)"
proof (cases "streamed front")
  case None
  with assms show ?thesis by (auto simp: kept_def accounted_def pop_front_def)
next
  case (Some bar)
  have ok: "core_ok (bc_floor bc) (front # rest) (bc_last_emitted bc) (emitted bc)"
    using assms by (simp add: kept_def closer_ok_def)
  then have "boundary_secs bar = boundary front" using Some by (simp add: core_ok_def)
  with Some assms emit_uncovered [of _ front rest "bc\<lparr>bc_queue := rest\<rparr>", OF _ Some] ok
  show ?thesis by (auto simp: kept_def accounted_def pop_front_def)
qed

lemma kept_emit_ready: "kept b bc \<Longrightarrow> kept b (fst (emit_ready bc))"
proof (induction rule: emit_ready_induct)
  case (pop bc front rest)
  have "closer_ok (pop_front front rest bc)"
    using pop by (simp add: kept_def pop_front_ok)
  with kept_pop_front [OF pop(1,2)] show ?case by (simp add: kept_def)
qed

lemma kept_frame: "kept b bc \<Longrightarrow> same_core bc bc' \<Longrightarrow> kept b bc'"
  using ordered.frame [of bc bc'] by (auto simp: kept_def accounted_def same_core_def)

lemma kept_resolver [simp]: "kept b (bc\<lparr>bc_resolver := r\<rparr>) = kept b bc"
  by (simp add: kept_def accounted_def)

lemma kept_drained [simp]: "kept b (bc\<lparr>bc_drained := d\<rparr>) = kept b bc"
  by (simp add: kept_def accounted_def closer_ok_def)

lemma kept_pump: "kept b bc \<Longrightarrow> kept b (pump bc)"
  using kept_emit_ready [of b bc] by (auto simp: pump_def split: prod.splits option.splits)

lemma attach_streamed: "p \<in> set q \<Longrightarrow> streamed p \<noteq> None \<Longrightarrow> p \<in> set (attach c bar q)"
  unfolding attach_def set_map by (rule image_eqI [of _ _ p]) auto

lemma kept_enqueue:
  assumes "kept b bc" and "\<forall>x. bar = Some x \<longrightarrow> boundary_secs x = c"
  shows "kept b (enqueue c bar history bc)"
proof (cases rule: enqueue_cases [of bc c bar history])
  case refused
  with assms show ?thesis by simp
next
  case attached
  have "accounted b (bc\<lparr>bc_queue := attach c bar (bc_queue bc)\<rparr>)"
    using assms(1) attach_streamed [of _ "bc_queue bc" c bar] by (auto simp: kept_def accounted_def)
  with attached enqueue_ok [of bc bar c history] assms show ?thesis by (simp add: kept_def)
next
  case queued
  let ?p = "\<lparr>boundary = c, streamed = bar, needs_history = history\<rparr>"
  let ?bc = "bc\<lparr>bc_queue := insert_pending ?p (bc_queue bc), bc_drained := False\<rparr>"
  have ok: "core_ok (bc_floor bc) (bc_queue bc) (bc_last_emitted bc) (emitted bc)"
    using assms(1) by (simp add: kept_def closer_ok_def)
  then have "set (insert_pending ?p (bc_queue bc)) = insert ?p (set (bc_queue bc))"
    using queued(2) insert_pending_ascending [of "bc_queue bc" ?p] by (simp add: core_ok_def)
  then have "accounted b ?bc" using assms(1) by (auto simp: kept_def accounted_def)
  moreover have "closer_ok ?bc"
    using ok queued assms(2) core_ok_insert [OF ok, of ?p]
    by (simp add: closer_ok_def is_covered_covers)
  ultimately have "kept b (pump ?bc)" by (intro kept_pump) (simp add: kept_def)
  with queued show ?thesis by simp
qed

interpretation kept: queue_invariant "kept b" for b
  by unfold_locales (auto intro: kept_frame kept_enqueue kept_pump)

lemma kept_resolver_ends: "kept b bc \<Longrightarrow> kept b (resolver_ends bc)"
  by (simp add: resolver_ends_def)

lemma kept_resolve_next: "kept b bc \<Longrightarrow> kept b (resolve_next now bc)"
  using kept_emit_ready [of b bc]
  by (auto simp: resolve_next_def kept_resolver_ends split: prod.splits option.splits)

text \<open>An entry is settled with a bar, or with none when it never had one.\<close>

lemma kept_settle:
  assumes "kept b bc" and "\<forall>x. result = Some x \<longrightarrow> boundary_secs x = c"
    and "result = None \<Longrightarrow> \<forall>p \<in> set (bc_queue bc). boundary p = c \<longrightarrow> streamed p = None"
  shows "kept b (settle c result bc)"
proof -
  have "accounted b (settle c result bc)"
  proof (cases "b \<in> boundary_secs ` set (emitted bc)")
    case True
    then show ?thesis by (simp add: accounted_def settle_def)
  next
    case False
    with assms(1) obtain p where p: "p \<in> set (bc_queue bc)" "boundary p = b" "streamed p \<noteq> None"
      by (auto simp: kept_def accounted_def)
    let ?g = "\<lambda>p. if boundary p = c then p\<lparr>streamed := result, needs_history := False\<rparr> else p"
    have "?g p \<in> set (bc_queue (settle c result bc))"
      using p(1) by (auto simp: settle_def)
    moreover have "boundary (?g p) = b" using p by simp
    moreover have "streamed (?g p) \<noteq> None" using p assms(3) by (cases result) auto
    ultimately show ?thesis unfolding accounted_def by blast
  qed
  moreover have "closer_ok (settle c result bc)"
    using assms by (simp add: settle_ok kept_def)
  ultimately show ?thesis by (simp add: kept_def)
qed

lemma kept_resolved:
  assumes "kept b bc" and "\<forall>x. result = Some x \<longrightarrow> boundary_secs x = c"
    and "\<not> bc_closed bc \<Longrightarrow> result = None \<Longrightarrow>
         \<forall>p \<in> set (bc_queue bc). boundary p = c \<longrightarrow> streamed p = None"
  shows "kept b (resolved now c result bc)"
  using assms by (auto simp: resolved_settle intro!: kept_resolver_ends kept_resolve_next kept_settle)

lemma unwanted_not_queued:
  assumes "closer_ok bc" and "\<not> wanted c bc" and "\<not> bc_closed bc"
  shows "\<forall>p \<in> set (bc_queue bc). boundary p \<noteq> c"
  using assms find_pending_None [of c bc]
  by (auto simp: wanted_def closer_ok_def core_ok_def is_covered_covers)

lemma ascending_unique:
  "closer_ok bc \<Longrightarrow> p \<in> set (bc_queue bc) \<Longrightarrow> r \<in> set (bc_queue bc) \<Longrightarrow> boundary p = boundary r \<Longrightarrow> p = r"
  unfolding closer_ok_def core_ok_def
  by (metis distinct_map inj_onD strict_sorted_iff)

lemma pending_streamed_None:
  assumes "closer_ok bc" and "pending_streamed c bc = None"
  shows "\<forall>p \<in> set (bc_queue bc). boundary p = c \<longrightarrow> streamed p = None"
proof (cases "find_pending c bc")
  case None
  then show ?thesis by (simp add: find_pending_None)
next
  case (Some r)
  with assms(2) have "streamed r = None" by (simp add: pending_streamed_def)
  with find_pending_Some [OF Some] ascending_unique [OF assms(1)] show ?thesis by metis
qed

lemma kept_fall_back:
  assumes "kept b bc"
  shows "kept b (fall_back now c failed bc)"
proof -
  let ?result = "if wanted c bc then pending_streamed c bc else None"
  obtain bc' where core: "same_core bc bc'"
    and eq: "fall_back now c failed bc = resolved now c ?result bc'"
    using fall_back_resolved by blast
  have ok: "closer_ok bc" using assms by (simp add: kept_def)
  have "kept b (resolved now c ?result bc')"
  proof (rule kept_resolved)
    show "kept b bc'" using assms core by (rule kept_frame)
    show "\<forall>x. ?result = Some x \<longrightarrow> boundary_secs x = c"
      using pending_streamed_own [OF ok] by simp
    show "\<forall>p \<in> set (bc_queue bc'). boundary p = c \<longrightarrow> streamed p = None"
      if "\<not> bc_closed bc'" "?result = None"
      using that core unwanted_not_queued [OF ok, of c] pending_streamed_None [OF ok, of c]
      by (auto simp: same_core_def split: if_splits)
  qed
  with eq show ?thesis by simp
qed

lemma kept_next_attempt: "kept b bc \<Longrightarrow> kept b (next_attempt now c k d failed bc)"
  by (simp add: next_attempt_def kept_fall_back)

lemma kept_history_answered: "kept b bc \<Longrightarrow> kept b (history_answered now answer bc)"
  by (auto simp: history_answered_def Let_def
           intro!: kept_next_attempt kept_resolved kept.observe kept_resolver_ends
           split: option.splits resolver_at.splits history_answer.splits)

lemma kept_resolver_slept: "kept b bc \<Longrightarrow> kept b (resolver_slept now bc)"
  using unwanted_not_queued [of bc]
  by (auto simp: resolver_slept_def kept_def [of b bc] intro!: kept_resolved
           split: option.splits resolver_at.splits)

lemma kept_step: "kept b bc \<Longrightarrow> ev \<noteq> Close \<Longrightarrow> kept b (closer_step ev bc)"
  by (cases ev)
     (simp_all add: kept.stream_events kept_history_answered kept_resolver_slept
        resolver_starts_def kept_resolve_next)

lemma kept_run: "kept b bc \<Longrightarrow> Close \<notin> set events \<Longrightarrow> kept b (fold closer_step events bc)"
  by (induction events arbitrary: bc) (auto simp: kept_step)

subsection \<open>The resolver comes to an end\<close>

definition asked :: "BarCloser \<Rightarrow> nat" where
  "asked bc = length (filter needs_history (bc_queue bc))"

definition awaits :: "int \<Rightarrow> BarCloser \<Rightarrow> bool" where
  "awaits b bc \<longleftrightarrow> (\<exists>p \<in> set (bc_queue bc). boundary p = b \<and> needs_history p)"

text \<open>While the resolver waits, the entry it asks for is queued and still needs history.\<close>

definition resolver_ok :: "BarCloser \<Rightarrow> bool" where
  "resolver_ok bc \<longleftrightarrow>
     (case bc_resolver bc of
        Some (Fetching b k d e) \<Rightarrow> awaits b bc \<and> k \<le> bc_retries bc
      | Some (Sleeping b k d e) \<Rightarrow> awaits b bc \<and> k \<le> bc_retries bc
      | _ \<Rightarrow> True)"

lemma resolver_emit_ready: "bc_resolver (fst (emit_ready bc)) = bc_resolver bc"
  by (rule emit_ready_induct [where I = "\<lambda>c. bc_resolver c = bc_resolver bc"])
     (simp_all add: pop_front_def emit_def split: option.splits)

lemma retries_emit_ready: "bc_retries (fst (emit_ready bc)) = bc_retries bc"
  by (rule emit_ready_induct [where I = "\<lambda>c. bc_retries c = bc_retries bc"])
     (simp_all add: pop_front_def emit_def split: option.splits)

lemma asked_emit_ready: "asked (fst (emit_ready bc)) \<le> asked bc"
  by (rule emit_ready_induct [where I = "\<lambda>c. asked c \<le> asked bc"])
     (auto simp: asked_def split: if_splits)

lemma emit_ready_awaits:
  "snd (emit_ready bc) = Some p \<Longrightarrow> awaits (boundary p) (fst (emit_ready bc))"
proof (induction "length (bc_queue bc)" arbitrary: bc)
  case 0
  then show ?case by (simp add: emit_ready_empty)
next
  case (Suc n)
  then obtain front rest where q: "bc_queue bc = front # rest" by (cases "bc_queue bc") simp_all
  show ?case
  proof (cases "ready front bc")
    case True
    with Suc q show ?thesis by (simp add: emit_ready_pop)
  next
    case False
    with Suc.prems q show ?thesis
      by (auto simp: emit_ready_stop awaits_def ready_def split: if_splits)
  qed
qed

lemma resolver_ok_pump: "resolver_ok bc \<Longrightarrow> resolver_ok (pump bc)"
  using resolver_emit_ready [of bc]
  by (auto simp: pump_def resolver_ok_def split: prod.splits option.splits)

lemma attach_awaits: "awaits b bc \<Longrightarrow> awaits b (bc\<lparr>bc_queue := attach c bar (bc_queue bc)\<rparr>)"
proof -
  let ?g = "\<lambda>p. if boundary p = c \<and> streamed p = None then p\<lparr>streamed := bar\<rparr> else p"
  assume "awaits b bc"
  then obtain p where "p \<in> set (bc_queue bc)" "boundary p = b" "needs_history p"
    by (auto simp: awaits_def)
  then have "?g p \<in> set (attach c bar (bc_queue bc))" "boundary (?g p) = b" "needs_history (?g p)"
    by (auto simp: attach_def)
  then show ?thesis unfolding awaits_def by (intro bexI [of _ "?g p"]) simp_all
qed

lemma resolver_ok_enqueue: "resolver_ok bc \<Longrightarrow> resolver_ok (enqueue b bar history bc)"
proof (cases rule: enqueue_cases [of bc b bar history])
  case attached
  moreover assume "resolver_ok bc"
  ultimately show ?thesis
    using attach_awaits [of _ bc b bar]
    by (auto simp: resolver_ok_def split: option.splits resolver_at.splits)
next
  case queued
  moreover assume "resolver_ok bc"
  moreover have "awaits c bc \<Longrightarrow> awaits c (bc\<lparr>bc_queue := insert_pending p (bc_queue bc), bc_drained := False\<rparr>)" for c p
    by (auto simp: awaits_def set_insert_pending)
  ultimately show ?thesis
    by (auto simp: resolver_ok_def [of bc] intro!: resolver_ok_pump)
       (auto simp: resolver_ok_def split: option.splits resolver_at.splits)
qed simp

interpretation resolver: queue_invariant resolver_ok
proof
  fix bc bc' assume "resolver_ok bc" "same_core bc bc'"
  then show "resolver_ok bc'"
    by (auto simp: resolver_ok_def same_core_def awaits_def split: option.splits resolver_at.splits)
qed (simp_all add: resolver_ok_pump resolver_ok_enqueue)

lemma resolver_ok_ends: "resolver_ok (resolver_ends bc)"
  by (simp add: resolver_ok_def resolver_ends_def)

lemma resolver_ok_resolve_next: "resolver_ok (resolve_next now bc)"
proof (cases "snd (emit_ready bc)")
  case None
  then show ?thesis by (cases "emit_ready bc") (simp add: resolve_next_def resolver_ok_ends)
next
  case (Some p)
  with emit_ready_awaits [OF Some] show ?thesis
    by (cases "emit_ready bc") (simp add: resolve_next_def resolver_ok_def awaits_def)
qed

lemma resolver_ok_resolved: "resolver_ok (resolved now b result bc)"
  by (simp add: resolved_settle resolver_ok_ends resolver_ok_resolve_next)

lemma resolver_ok_fall_back: "resolver_ok (fall_back now b failed bc)"
  using fall_back_resolved [of bc now b failed] by (auto simp: resolver_ok_resolved)

lemma resolver_ok_next_attempt:
  "awaits b bc \<Longrightarrow> resolver_ok (next_attempt now b k d failed bc)"
  unfolding next_attempt_def
  by (split if_split, intro conjI impI resolver_ok_fall_back) (simp add: resolver_ok_def awaits_def)

lemma awaits_observe [simp]: "awaits b (observe c bc) = awaits b bc"
  by (simp add: awaits_def observe_def)

lemma resolver_ok_step: "resolver_ok bc \<Longrightarrow> resolver_ok (closer_step ev bc)"
proof (cases ev)
  case Close
  then show ?thesis by (simp add: close_bars_def resolver_ok_def)
next
  case (History_answered now answer)
  moreover assume "resolver_ok bc"
  ultimately show ?thesis
    by (auto simp: history_answered_def Let_def resolver_ok_def [of bc] resolver_ok_ends
             intro!: resolver_ok_next_attempt resolver_ok_resolved
             split: option.splits resolver_at.splits history_answer.splits)
next
  case (Resolver_slept now)
  moreover assume "resolver_ok bc"
  ultimately show ?thesis
    by (auto simp: resolver_slept_def resolver_ok_resolved
             split: option.splits resolver_at.splits)
       (auto simp: resolver_ok_def awaits_def)
qed (simp_all add: resolver.stream_events resolver_starts_def resolver_ok_resolve_next)

lemma resolver_ok_run: "resolver_ok bc \<Longrightarrow> resolver_ok (fold closer_step events bc)"
  by (induction events arbitrary: bc) (simp_all add: resolver_ok_step)

text \<open>What the resolver has left to do, and the event it waits for.\<close>

definition resolver_rank :: "BarCloser \<Rightarrow> nat" where
  "resolver_rank bc =
     (let full = 2 * bc_retries bc + 3 in
      case bc_resolver bc of
        None \<Rightarrow> 0
      | Some Resolver_created \<Rightarrow> asked bc * full + full
      | Some (Fetching b k d e) \<Rightarrow> asked bc * full + 2 * (bc_retries bc - k) + 1
      | Some (Sleeping b k d e) \<Rightarrow> asked bc * full + 2 * (bc_retries bc - k) + 2)"

fun resolver_event :: "closer_event \<Rightarrow> BarCloser \<Rightarrow> bool" where
  "resolver_event (Resolver_starts now) bc = (bc_resolver bc = Some Resolver_created)"
| "resolver_event (History_answered now answer) bc =
     (case bc_resolver bc of Some (Fetching b k d e) \<Rightarrow> True | _ \<Rightarrow> False)"
| "resolver_event (Resolver_slept now) bc =
     (case bc_resolver bc of Some (Sleeping b k d e) \<Rightarrow> True | _ \<Rightarrow> False)"
| "resolver_event _ bc = False"

lemma asked_frame [simp]:
  "asked (bc\<lparr>bc_resolver := r\<rparr>) = asked bc" "asked (bc\<lparr>bc_drained := d\<rparr>) = asked bc"
  "asked (observe c bc) = asked bc" "bc_retries (observe c bc) = bc_retries bc"
  by (simp_all add: asked_def observe_def)

lemma same_core_asked:
  "same_core bc bc' \<Longrightarrow> asked bc' = asked bc \<and> awaits b bc' = awaits b bc \<and> bc_retries bc' = bc_retries bc"
  by (simp add: same_core_def asked_def awaits_def)

lemma rank_resolve_next:
  "resolver_rank (resolve_next now bc) < asked bc * (2 * bc_retries bc + 3) + 2 * bc_retries bc + 2"
  using asked_emit_ready [of bc] retries_emit_ready [of bc]
  by (cases "emit_ready bc"; cases "snd (emit_ready bc)")
     (auto simp: resolve_next_def resolver_rank_def resolver_ends_def
           intro!: le_imp_less_Suc mult_le_mono1)

lemma filter_map_drop:
  assumes "p \<in> set q" and "P p" and "\<not> P (g p)" and "\<And>r. P (g r) \<Longrightarrow> P r"
  shows "length (filter P (map g q)) < length (filter P q)"
  using assms(1)
proof (induction q)
  case (Cons r q)
  have le: "length (filter P (map g q)) \<le> length (filter P q)"
    using assms(4) by (induction q) auto
  show ?case
  proof (cases "r = p")
    case True
    with assms(2,3) le show ?thesis by simp
  next
    case False
    with Cons assms(4) [of r] show ?thesis by auto
  qed
qed simp

lemma asked_settle:
  assumes "awaits b bc"
  shows "asked (settle b result bc) < asked bc"
proof -
  let ?g = "\<lambda>p. if boundary p = b then p\<lparr>streamed := result, needs_history := False\<rparr> else p"
  obtain p where "p \<in> set (bc_queue bc)" "needs_history p" "boundary p = b"
    using assms by (auto simp: awaits_def)
  then have "length (filter needs_history (map ?g (bc_queue bc))) < length (filter needs_history (bc_queue bc))"
    by (intro filter_map_drop [of p]) (auto split: if_splits)
  then show ?thesis by (simp add: asked_def settle_def)
qed

lemma rank_resolved:
  assumes "awaits b bc"
  shows "resolver_rank (resolved now b result bc) < asked bc * (2 * bc_retries bc + 3)"
proof -
  let ?n = "2 * bc_retries bc + 3"
  have less: "Suc (asked (settle b result bc)) \<le> asked bc"
    using asked_settle [OF assms, of result] by simp
  then have "Suc (asked (settle b result bc)) * ?n \<le> asked bc * ?n" by (rule mult_right_mono) simp
  moreover have "resolver_rank (resolve_next now (settle b result bc)) <
      asked (settle b result bc) * ?n + 2 * bc_retries bc + 2"
    using rank_resolve_next [of now "settle b result bc"] by (simp add: settle_def)
  moreover have "resolver_rank (resolver_ends bc) = 0"
    by (simp add: resolver_rank_def resolver_ends_def)
  ultimately show ?thesis using less by (auto simp: resolved_settle)
qed

lemma rank_fall_back:
  assumes "awaits b bc"
  shows "resolver_rank (fall_back now b failed bc) < asked bc * (2 * bc_retries bc + 3)"
proof -
  obtain bc' result where core: "same_core bc bc'"
    and eq: "fall_back now b failed bc = resolved now b result bc'"
    using fall_back_resolved by blast
  have "asked bc' = asked bc" "awaits b bc'" "bc_retries bc' = bc_retries bc"
    using same_core_asked [OF core] assms by simp_all
  with rank_resolved [of b bc' now result] eq show ?thesis by simp
qed

lemma rank_next_attempt:
  assumes "awaits b bc" and "k \<le> bc_retries bc"
  shows "resolver_rank (next_attempt now b k d failed bc) <
    asked bc * (2 * bc_retries bc + 3) + 2 * (bc_retries bc - k) + 1"
  using rank_fall_back [OF assms(1), of now failed]
  by (auto simp: next_attempt_def resolver_rank_def [of "bc\<lparr>bc_resolver := r\<rparr>" for r])

lemma resolver_rank_decreases:
  assumes "resolver_ok bc" and "resolver_event ev bc"
  shows "resolver_rank (closer_step ev bc) < resolver_rank bc"
proof (cases ev)
  case (Resolver_starts now)
  with assms rank_resolve_next [of now bc] show ?thesis
    by (simp add: resolver_starts_def resolver_rank_def [of bc] Let_def)
next
  case (History_answered now answer)
  with assms(2) obtain b k d e where r: "bc_resolver bc = Some (Fetching b k d e)"
    by (auto split: option.splits resolver_at.splits)
  with assms(1) have "awaits b bc" "k \<le> bc_retries bc" by (simp_all add: resolver_ok_def)
  moreover have "resolver_rank bc = asked bc * (2 * bc_retries bc + 3) + 2 * (bc_retries bc - k) + 1"
    by (simp add: resolver_rank_def r)
  moreover have "resolver_rank (resolver_ends bc) = 0"
    by (simp add: resolver_rank_def resolver_ends_def)
  ultimately show ?thesis
    using rank_next_attempt [of b bc k now d] rank_next_attempt [of b "observe c bc" k now d False for c]
      rank_resolved [of b "observe c bc" now for c]
    by (auto simp: History_answered history_answered_def r Let_def
             intro!: less_SucI trans_less_add1 split: history_answer.splits option.splits)
next
  case (Resolver_slept now)
  with assms(2) obtain b k d e where r: "bc_resolver bc = Some (Sleeping b k d e)"
    by (auto split: option.splits resolver_at.splits)
  with assms(1) have "awaits b bc" by (simp add: resolver_ok_def)
  with rank_resolved [of b bc now None] show ?thesis
    by (simp add: Resolver_slept resolver_slept_def r resolver_rank_def [of bc]
          resolver_rank_def [of "bc\<lparr>bc_resolver := x\<rparr>" for x])
qed (use assms(2) in simp_all)

subsection \<open>Properties\<close>

text \<open>
  C5: Whatever the stream, the timer, the history, a backfill and disconnections bring, and in
  whatever order they interleave, bars go out in strictly ascending order of their boundaries -
  so each at most once - and none from before the bar forming when the closer was built.\<close>

theorem bars_go_out_once_in_order:
  "sorted_wrt (<) (map boundary_secs (emitted (fold closer_step events (new_BarCloser p g r now)))) \<and>
   (\<forall>bar \<in> set (emitted (fold closer_step events (new_BarCloser p g r now))).
      truncate now - p < boundary_secs bar)"
proof -
  let ?bc = "fold closer_step events (new_BarCloser p g r now)"
  have "closer_ok ?bc" by (intro run_ok closer_ok_new)
  moreover have "bc_floor ?bc = truncate now - p + 1" by (simp add: floor_run new_BarCloser_def)
  ultimately show ?thesis by (auto simp: closer_ok_def core_ok_def)
qed

text \<open>
  C33: A closed bar whose state is known is never lost: once its boundary waits in the queue with
  a bar, then after any further events short of \<open>close\<close> it either still waits there with a bar or
  a bar of that boundary has gone out; when the queue is empty, it has gone out.\<close>

theorem closed_bar_is_never_lost:
  assumes "accounted b (fold closer_step events (new_BarCloser p g r now))" and "Close \<notin> set later"
  shows "accounted b (fold closer_step (events @ later) (new_BarCloser p g r now)) \<and>
    (bc_queue (fold closer_step (events @ later) (new_BarCloser p g r now)) = [] \<longrightarrow>
     b \<in> boundary_secs ` set (emitted (fold closer_step (events @ later) (new_BarCloser p g r now))))"
proof -
  have "kept b (fold closer_step events (new_BarCloser p g r now))"
    using assms(1) by (simp add: kept_def run_ok closer_ok_new)
  then have "kept b (fold closer_step (events @ later) (new_BarCloser p g r now))"
    using kept_run [OF _ assms(2)] by simp
  then show ?thesis by (auto simp: kept_def accounted_def)
qed

text \<open>
  The resolver comes to an end by itself: in every state a run can reach, each event it waits
  for - its start, a history answer of any kind, the end of a sleep - leaves less to do, so only
  newly queued boundaries can keep it going.\<close>

theorem resolver_terminates:
  assumes "bc = fold closer_step events (new_BarCloser p g r now)" and "resolver_event ev bc"
  shows "resolver_rank (closer_step ev bc) < resolver_rank bc"
proof -
  have "resolver_ok (new_BarCloser p g r now)" by (simp add: resolver_ok_def new_BarCloser_def)
  then have "resolver_ok bc" unfolding assms(1) by (rule resolver_ok_run)
  then show ?thesis using assms(2) by (rule resolver_rank_decreases)
qed

subsection \<open>A minute of bars\<close>

definition sample_bar :: "int \<Rightarrow> RawBar" where
  "sample_bar b = \<lparr>boundary_secs = b, low = 100, delta_open = 1, delta_high = 3, delta_close = 2, bar_volume = 5\<rparr>"

definition sample_events :: "closer_event list" where
  "sample_events = [Update 1 (sample_bar 0), Timer 0]"

lemma sample_waits:
  "accounted 0 (fold closer_step sample_events (new_BarCloser 60 2 3 0))"
  "resolver_event (Resolver_starts 63) (fold closer_step sample_events (new_BarCloser 60 2 3 0))"
  by code_simp+

theorem closed_bar_is_never_lost_witness:
  "0 \<in> boundary_secs ` set (emitted (fold closer_step
     (sample_events @ [Resolver_starts 63, History_answered 64 (Bar (Some (sample_bar 0)))])
     (new_BarCloser 60 2 3 0)))"
proof -
  let ?later = "[Resolver_starts 63, History_answered 64 (Bar (Some (sample_bar 0)))]"
  have "bc_queue (fold closer_step (sample_events @ ?later) (new_BarCloser 60 2 3 0)) = []"
    by code_simp
  with closed_bar_is_never_lost [OF sample_waits(1), of ?later] show ?thesis by simp
qed

theorem resolver_terminates_witness:
  "resolver_rank (closer_step (Resolver_starts 63) (fold closer_step sample_events (new_BarCloser 60 2 3 0)))
     < resolver_rank (fold closer_step sample_events (new_BarCloser 60 2 3 0))"
  using resolver_terminates [OF refl sample_waits(2)] .

theorem bars_go_out_once_in_order_witness:
  "map boundary_secs (emitted (fold closer_step [Update 1 (sample_bar 0), Update 61 (sample_bar 60),
     Update 121 (sample_bar 120), Update 122 (sample_bar 60)] (new_BarCloser 60 2 3 0))) = [0, 60] \<and>
   sorted_wrt (<) (map boundary_secs (emitted (fold closer_step [Update 1 (sample_bar 0),
     Update 61 (sample_bar 60), Update 121 (sample_bar 120), Update 122 (sample_bar 60)]
     (new_BarCloser 60 2 3 0))))"
proof -
  have "map boundary_secs (emitted (fold closer_step [Update 1 (sample_bar 0), Update 61 (sample_bar 60),
     Update 121 (sample_bar 120), Update 122 (sample_bar 60)] (new_BarCloser 60 2 3 0))) = [0, 60]"
    by code_simp
  with bars_go_out_once_in_order [of "[Update 1 (sample_bar 0), Update 61 (sample_bar 60),
     Update 121 (sample_bar 120), Update 122 (sample_bar 60)]" 60 2 3 0] show ?thesis by blast
qed


end
