(* ===== verification/Rate_Limit.thy ===== *)
theory Rate_Limit
  imports Prelude
begin

text \<open>
  \<open>common/rate_limit.py\<close>: the scheduler that grants requests their turn to be sent. Its two
  groups, with their heap, grant times, pause and dispatcher task, are records; a future is its
  state, kept by the entry's number; a heap of \<open>heapq\<close> is the list of its entries in the order
  it pops them (by priority, then sequence number). A request inside \<open>submit\<close> is the record
  \<open>Submit\<close>, whose \<open>phase\<close> says what it waits for. What the coroutines wait for are the events of
  \<open>scheduler_step\<close>: a turn of the dispatcher's loop, a future done, a timer, the answer of
  \<open>send()\<close>. Any sequence of events is a run, so every interleaving is covered, also those within
  one run of the dispatcher that the event loop would not interrupt. The clock is an argument;
  seconds are rationals and the rounding of floats is not modelled. \<open>grants\<close> is a ghost log:
  the times the group granted a request since the last \<open>reset\<close>.

  Shown in \<open>Rate_Limit_Pacing\<close>: within any window no group grants more than its limit, and none while
  paused; the request granted is the most urgent one waiting, the earliest of its priority; a
  request is sent at most once, and a historical one once more per retry allowed.
\<close>

subsection \<open>Pacing\<close>

datatype RequestPriority = EXECUTION | CHECKPOINT | DATA | BACKFILL

fun priority_value :: "RequestPriority \<Rightarrow> nat" where
  "priority_value EXECUTION = 0"
| "priority_value CHECKPOINT = 1"
| "priority_value DATA = 2"
| "priority_value BACKFILL = 3"

record Pacing =
  requests_per_window :: int
  historical_requests_per_window :: int
  window_secs :: rat
  pacing_retries :: int
  queue_timeout_secs :: rat
  max_pause_secs :: rat

text \<open>The defaults, from \<open>constants.py\<close>.\<close>

definition RATE_LIMIT_PAUSE_MARGIN_SECS :: rat where "RATE_LIMIT_PAUSE_MARGIN_SECS = 1 / 4"

definition default_Pacing :: Pacing where
  "default_Pacing = \<lparr>requests_per_window = 50, historical_requests_per_window = 5,
     window_secs = 5 / 4, pacing_retries = 3, queue_timeout_secs = 60, max_pause_secs = 10\<rparr>"

text \<open>\<open>__post_init__\<close>: whether it raises nothing.\<close>

definition pacing_ok :: "Pacing \<Rightarrow> bool" where
  "pacing_ok pacing \<longleftrightarrow>
     \<not> (requests_per_window pacing < 1 \<or> historical_requests_per_window pacing < 1) \<and>
     window_secs pacing > 0 \<and> queue_timeout_secs pacing > 0 \<and> max_pause_secs pacing > 0 \<and>
     \<not> pacing_retries pacing < 0"

datatype group = GROUP_HISTORICAL | GROUP_OTHER

text \<open>The payload types this code tells apart; every other is \<open>Other_payload\<close>.\<close>

datatype payload_type =
    ProtoOAGetTrendbarsReq | ProtoOAGetTickDataReq | ProtoOADealListReq
  | ProtoOADealListByPositionIdReq | ProtoOAOrderListReq | ProtoOAOrderListByPositionIdReq
  | ProtoOACashFlowHistoryListReq | Other_payload

definition HISTORICAL_PAYLOAD_TYPES :: "payload_type list" where
  "HISTORICAL_PAYLOAD_TYPES = [ProtoOAGetTrendbarsReq, ProtoOAGetTickDataReq, ProtoOADealListReq,
     ProtoOADealListByPositionIdReq, ProtoOAOrderListReq, ProtoOAOrderListByPositionIdReq,
     ProtoOACashFlowHistoryListReq]"

definition group_of :: "payload_type \<Rightarrow> group" where
  "group_of payload =
     (if payload \<in> set HISTORICAL_PAYLOAD_TYPES then GROUP_HISTORICAL else GROUP_OTHER)"

subsection \<open>State\<close>

datatype future = Future_pending | Future_result | Future_exception | Future_cancelled

datatype dispatcher = Dispatcher_running | Dispatcher_sleeping rat

type_synonym heap_entry = "nat \<times> nat \<times> nat"

record Group =
  limit :: nat
  heap :: "heap_entry list"
  granted :: "rat list"
  paused_until :: "rat option"
  dispatcher :: "dispatcher option"
  grants :: "rat list"

datatype outcome =
    Returned
  | Raised_queue_timeout
  | Raised_not_sent
  | Raised_refused
  | Raised_other
  | Raised_cancelled

datatype phase =
    Waiting nat rat rat
  | Sending
  | Finished outcome

record Submit =
  sub_group :: group
  sub_priority :: RequestPriority
  sub_sequence :: nat
  sub_retries :: nat
  sub_waited :: rat
  sub_attempt :: nat
  sub_phase :: phase
  sub_sent :: nat

record RequestScheduler =
  pacing :: Pacing
  next_sequence :: nat
  failed :: bool
  historical :: Group
  other :: Group
  futures :: "(nat, future) dict"
  submits :: "(nat, Submit) dict"

definition new_Group :: "int \<Rightarrow> Group" where
  "new_Group n = \<lparr>limit = nat n, heap = [], granted = [], paused_until = None, dispatcher = None,
     grants = []\<rparr>"

definition new_RequestScheduler :: "Pacing \<Rightarrow> RequestScheduler" where
  "new_RequestScheduler p =
     \<lparr>pacing = p, next_sequence = 0, failed = False,
      historical = new_Group (historical_requests_per_window p),
      other = new_Group (requests_per_window p), futures = [], submits = []\<rparr>"

fun group_state :: "group \<Rightarrow> RequestScheduler \<Rightarrow> Group" where
  "group_state GROUP_HISTORICAL s = historical s"
| "group_state GROUP_OTHER s = other s"

fun set_group :: "group \<Rightarrow> Group \<Rightarrow> RequestScheduler \<Rightarrow> RequestScheduler" where
  "set_group GROUP_HISTORICAL g s = s\<lparr>historical := g\<rparr>"
| "set_group GROUP_OTHER g s = s\<lparr>other := g\<rparr>"

definition future_of :: "nat \<Rightarrow> RequestScheduler \<Rightarrow> future" where
  "future_of e s = (case map_of (futures s) e of None \<Rightarrow> Future_cancelled | Some f \<Rightarrow> f)"

definition is_done :: "nat \<Rightarrow> RequestScheduler \<Rightarrow> bool" where
  "is_done e s \<longleftrightarrow> future_of e s \<noteq> Future_pending"

text \<open>Setting a future that is done leaves it, as the code only does under its own check.\<close>

definition set_future :: "nat \<Rightarrow> future \<Rightarrow> RequestScheduler \<Rightarrow> RequestScheduler" where
  "set_future e f s =
     (if is_done e s then s else s\<lparr>futures := AList.update e f (futures s)\<rparr>)"

definition set_submit :: "nat \<Rightarrow> Submit \<Rightarrow> RequestScheduler \<Rightarrow> RequestScheduler" where
  "set_submit r sub s = s\<lparr>submits := AList.update r sub (submits s)\<rparr>"

subsection \<open>The queue of a group\<close>

text \<open>Priority first, then arrival.\<close>

fun before :: "heap_entry \<Rightarrow> heap_entry \<Rightarrow> bool" where
  "before (p, n, _) (q, m, _) \<longleftrightarrow> p < q \<or> p = q \<and> n < m"

fun heappush :: "heap_entry \<Rightarrow> heap_entry list \<Rightarrow> heap_entry list" where
  "heappush x [] = [x]"
| "heappush x (y # ys) = (if before y x then y # heappush x ys else x # y # ys)"

definition start_dispatcher :: "Group \<Rightarrow> Group" where
  "start_dispatcher g = g\<lparr>dispatcher := Some Dispatcher_running\<rparr>"

definition stop_dispatcher :: "Group \<Rightarrow> Group" where
  "stop_dispatcher g = g\<lparr>dispatcher := None\<rparr>"

text \<open>\<open>_wait_turn\<close> up to its wait: refused, out of time, or queued with a new future.\<close>

definition wait_turn :: "rat \<Rightarrow> nat \<Rightarrow> Submit \<Rightarrow> RequestScheduler \<Rightarrow> RequestScheduler" where
  "wait_turn now r sub s =
     (if failed s then set_submit r (sub\<lparr>sub_phase := Finished Raised_not_sent\<rparr>) s
      else let budget = queue_timeout_secs (pacing s) - sub_waited sub in
        if budget \<le> 0 then set_submit r (sub\<lparr>sub_phase := Finished Raised_queue_timeout\<rparr>) s
        else let e = length (futures s);
                 g = group_state (sub_group sub) s;
                 g = g\<lparr>heap := heappush (priority_value (sub_priority sub), sub_sequence sub, e)
                                 (heap g)\<rparr>;
                 g = (if dispatcher g = None then start_dispatcher g else g)
             in set_submit r (sub\<lparr>sub_phase := Waiting e now budget\<rparr>)
                  (set_group (sub_group sub) g
                     (s\<lparr>futures := futures s @ [(e, Future_pending)]\<rparr>)))"

definition submit :: "rat \<Rightarrow> group \<Rightarrow> RequestPriority \<Rightarrow> RequestScheduler \<Rightarrow> RequestScheduler" where
  "submit now g priority s =
     (let sequence = next_sequence s;
          retries = (if g = GROUP_HISTORICAL then nat (pacing_retries (pacing s)) else 0)
      in wait_turn now sequence
           \<lparr>sub_group = g, sub_priority = priority, sub_sequence = sequence,
            sub_retries = retries, sub_waited = 0, sub_attempt = 0, sub_phase = Sending,
            sub_sent = 0\<rparr>
           (s\<lparr>next_sequence := Suc sequence\<rparr>))"

text \<open>
  The rest of \<open>_wait_turn\<close> once its wait is over: \<open>granted = entry.future.done()\<close>, the future
  cancelled if not, its result raised or its time counted.
\<close>

definition end_wait :: "rat \<Rightarrow> nat \<Rightarrow> Submit \<Rightarrow> nat \<Rightarrow> rat \<Rightarrow> RequestScheduler \<Rightarrow> RequestScheduler" where
  "end_wait now r sub e queued_at s =
     (case future_of e s of
        Future_pending \<Rightarrow>
          set_submit r (sub\<lparr>sub_phase := Finished Raised_queue_timeout\<rparr>)
            (set_future e Future_cancelled s)
      | Future_result \<Rightarrow>
          set_submit r (sub\<lparr>sub_phase := Sending, sub_waited := sub_waited sub + (now - queued_at),
                            sub_sent := Suc (sub_sent sub)\<rparr>) s
      | Future_exception \<Rightarrow> set_submit r (sub\<lparr>sub_phase := Finished Raised_not_sent\<rparr>) s
      | Future_cancelled \<Rightarrow> set_submit r (sub\<lparr>sub_phase := Finished Raised_cancelled\<rparr>) s)"

text \<open>Its wait ends when the future is done, or when its budget has run out (\<open>expired\<close>).\<close>

definition wait_over :: "rat \<Rightarrow> nat \<Rightarrow> bool \<Rightarrow> RequestScheduler \<Rightarrow> RequestScheduler" where
  "wait_over now r expired s =
     (case map_of (submits s) r of
        Some sub \<Rightarrow>
          (case sub_phase sub of
             Waiting e queued_at budget \<Rightarrow>
               if is_done e s \<or> expired then end_wait now r sub e queued_at s else s
           | _ \<Rightarrow> s)
      | None \<Rightarrow> s)"

text \<open>The caller cancelled: the entry stays in the heap, dead.\<close>

definition cancel_submit :: "nat \<Rightarrow> RequestScheduler \<Rightarrow> RequestScheduler" where
  "cancel_submit r s =
     (case map_of (submits s) r of
        Some sub \<Rightarrow>
          (case sub_phase sub of
             Waiting e queued_at budget \<Rightarrow>
               set_submit r (sub\<lparr>sub_phase := Finished Raised_cancelled\<rparr>)
                 (set_future e Future_cancelled s)
           | Sending \<Rightarrow> set_submit r (sub\<lparr>sub_phase := Finished Raised_cancelled\<rparr>) s
           | Finished _ \<Rightarrow> s)
      | None \<Rightarrow> s)"

text \<open>What \<open>send()\<close> comes to; a refusal carries \<open>retryAfter\<close>.\<close>

datatype send_answer = Send_ok | Send_refused rat | Send_failed

definition later :: "rat option \<Rightarrow> rat \<Rightarrow> rat option" where
  "later p t = Some (case p of None \<Rightarrow> t | Some u \<Rightarrow> max u t)"

definition sent :: "rat \<Rightarrow> nat \<Rightarrow> send_answer \<Rightarrow> RequestScheduler \<Rightarrow> RequestScheduler" where
  "sent now r answer s =
     (case map_of (submits s) r of
        None \<Rightarrow> s
      | Some sub \<Rightarrow>
          if sub_phase sub \<noteq> Sending then s
          else case answer of
            Send_ok \<Rightarrow> set_submit r (sub\<lparr>sub_phase := Finished Returned\<rparr>) s
          | Send_failed \<Rightarrow> set_submit r (sub\<lparr>sub_phase := Finished Raised_other\<rparr>) s
          | Send_refused retry_after \<Rightarrow>
              let pause = min (retry_after + RATE_LIMIT_PAUSE_MARGIN_SECS) (max_pause_secs (pacing s));
                  g = group_state (sub_group sub) s;
                  s = set_group (sub_group sub)
                        (g\<lparr>paused_until := later (paused_until g) (now + pause)\<rparr>) s;
                  sub = sub\<lparr>sub_attempt := Suc (sub_attempt sub)\<rparr>
              in if sub_attempt sub \<le> sub_retries sub then wait_turn now r sub s
                 else set_submit r (sub\<lparr>sub_phase := Finished Raised_refused\<rparr>) s)"

subsection \<open>Failure and reset\<close>

definition fail_entries :: "heap_entry list \<Rightarrow> RequestScheduler \<Rightarrow> RequestScheduler" where
  "fail_entries h s = fold (\<lambda>(_, _, e). set_future e Future_exception) h s"

definition fail_group :: "group \<Rightarrow> RequestScheduler \<Rightarrow> RequestScheduler" where
  "fail_group g s =
     set_group g ((stop_dispatcher (group_state g s))\<lparr>heap := []\<rparr>)
       (fail_entries (heap (group_state g s)) s)"

definition fail_all :: "RequestScheduler \<Rightarrow> RequestScheduler" where
  "fail_all s = fail_group GROUP_OTHER (fail_group GROUP_HISTORICAL (s\<lparr>failed := True\<rparr>))"

definition reset_group :: "Group \<Rightarrow> Group" where
  "reset_group g =
     (let g = (stop_dispatcher g)\<lparr>granted := [], paused_until := None, grants := []\<rparr>
      in if heap g \<noteq> [] then start_dispatcher g else g)"

definition reset :: "RequestScheduler \<Rightarrow> RequestScheduler" where
  "reset s = s\<lparr>failed := False, historical := reset_group (historical s),
     other := reset_group (other s)\<rparr>"

subsection \<open>The dispatcher\<close>

definition drop_dead :: "RequestScheduler \<Rightarrow> heap_entry list \<Rightarrow> heap_entry list" where
  "drop_dead s h = dropWhile (\<lambda>(_, _, e). is_done e s) h"

definition prune :: "rat \<Rightarrow> rat \<Rightarrow> rat list \<Rightarrow> rat list" where
  "prune now window ts = dropWhile (\<lambda>t. t + window \<le> now) ts"

text \<open>\<open>ready_at\<close>; None is minus infinity.\<close>

definition ready_at :: "rat \<Rightarrow> Group \<Rightarrow> rat option" where
  "ready_at window g =
     (if limit g \<le> length (granted g) then
        (case granted g of [] \<Rightarrow> paused_until g | t # _ \<Rightarrow> later (paused_until g) (t + window))
      else paused_until g)"

text \<open>One turn of the loop of \<open>_dispatch\<close>.\<close>

definition dispatch :: "rat \<Rightarrow> group \<Rightarrow> RequestScheduler \<Rightarrow> RequestScheduler" where
  "dispatch now name s =
     (let window = window_secs (pacing s);
          g = group_state name s;
          g = g\<lparr>heap := drop_dead s (heap g)\<rparr>
      in case heap g of
           [] \<Rightarrow> set_group name (g\<lparr>dispatcher := None\<rparr>) s
         | (_, _, e) # rest \<Rightarrow>
             let g = g\<lparr>granted := prune now window (granted g)\<rparr> in
             case ready_at window g of
               Some t \<Rightarrow>
                 if now < t then set_group name (g\<lparr>dispatcher := Some (Dispatcher_sleeping t)\<rparr>) s
                 else set_future e Future_result
                        (set_group name (g\<lparr>heap := rest, granted := granted g @ [now],
                           dispatcher := Some Dispatcher_running, grants := grants g @ [now]\<rparr>) s)
             | None \<Rightarrow>
                 set_future e Future_result
                   (set_group name (g\<lparr>heap := rest, granted := granted g @ [now],
                      dispatcher := Some Dispatcher_running, grants := grants g @ [now]\<rparr>) s))"

text \<open>The dispatcher's task takes a turn, if there is one.\<close>

definition dispatcher_turn :: "rat \<Rightarrow> group \<Rightarrow> RequestScheduler \<Rightarrow> RequestScheduler" where
  "dispatcher_turn now name s =
     (if dispatcher (group_state name s) = None then s else dispatch now name s)"

subsection \<open>Runs\<close>

datatype scheduler_event =
    Submit_request group RequestPriority
  | Dispatcher_turn group
  | Wait_over nat bool
  | Cancel_submit nat
  | Sent nat send_answer
  | Fail_all
  | Reset

fun scheduler_step :: "rat \<times> scheduler_event \<Rightarrow> RequestScheduler \<Rightarrow> RequestScheduler" where
  "scheduler_step (now, Submit_request g priority) s = submit now g priority s"
| "scheduler_step (now, Dispatcher_turn g) s = dispatcher_turn now g s"
| "scheduler_step (now, Wait_over r expired) s = wait_over now r expired s"
| "scheduler_step (now, Cancel_submit r) s = cancel_submit r s"
| "scheduler_step (now, Sent r answer) s = sent now r answer s"
| "scheduler_step (now, Fail_all) s = fail_all s"
| "scheduler_step (now, Reset) s = reset s"

end
