(* ===== verification/Rate_Limit_Pacing.thy ===== *)
theory Rate_Limit_Pacing
  imports Rate_Limit
begin

text \<open>
  What the request scheduler promises over every run of its events. The grant times of a group
  keep the invariant \<open>paced\<close>; the queue of a group is a \<open>priority_queue\<close> (the locale states the
  laws the dispatcher relies on, interpreted on \<open>heappush\<close>); \<open>attended\<close> ties waiting requests to
  the queues and dispatchers; \<open>sends_ok\<close> counts how often a request was sent.
\<close>

subsection \<open>Frames\<close>

lemma group_set_group [simp]:
  "group_state m (set_group n g s) = (if m = n then g else group_state m s)"
  by (cases m; cases n) simp_all

lemma pacing_set_group [simp]: "pacing (set_group n g s) = pacing s"
  by (cases n) simp_all

lemma futures_set_group [simp]: "futures (set_group n g s) = futures s"
  by (cases n) simp_all

lemma submits_set_group [simp]: "submits (set_group n g s) = submits s"
  by (cases n) simp_all

lemma failed_set_group [simp]: "failed (set_group n g s) = failed s"
  by (cases n) simp_all

lemma sequence_set_group [simp]: "next_sequence (set_group n g s) = next_sequence s"
  by (cases n) simp_all

lemma group_state_update [simp]:
  "group_state m (s\<lparr>futures := f\<rparr>) = group_state m s"
  "group_state m (s\<lparr>submits := u\<rparr>) = group_state m s"
  "group_state m (s\<lparr>failed := b\<rparr>) = group_state m s"
  "group_state m (s\<lparr>next_sequence := n\<rparr>) = group_state m s"
  by (cases m; simp)+

lemma set_future_frame [simp]:
  "group_state m (set_future e f s) = group_state m s" "pacing (set_future e f s) = pacing s"
  "submits (set_future e f s) = submits s" "failed (set_future e f s) = failed s"
  "next_sequence (set_future e f s) = next_sequence s"
  by (simp_all add: set_future_def)

lemma set_submit_frame [simp]:
  "group_state m (set_submit r sub s) = group_state m s" "pacing (set_submit r sub s) = pacing s"
  "futures (set_submit r sub s) = futures s" "failed (set_submit r sub s) = failed s"
  "next_sequence (set_submit r sub s) = next_sequence s"
  "submits (set_submit r sub s) = AList.update r sub (submits s)"
  by (simp_all add: set_submit_def)

lemma group_state_reset: "group_state m (reset s) = reset_group (group_state m s)"
  by (cases m) (simp_all add: reset_def)

lemma group_state_new:
  "group_state m (new_RequestScheduler p) =
     new_Group (if m = GROUP_HISTORICAL then historical_requests_per_window p else requests_per_window p)"
  by (cases m) (simp_all add: new_RequestScheduler_def)

declare group_state.simps [simp del] set_group.simps [simp del]

lemma fail_entries_frame [simp]:
  "group_state m (fail_entries h s) = group_state m s" "pacing (fail_entries h s) = pacing s"
  "submits (fail_entries h s) = submits s" "next_sequence (fail_entries h s) = next_sequence s"
  unfolding fail_entries_def by (induction h arbitrary: s) (auto simp: case_prod_unfold)

lemma dispatcher_frames [simp]:
  "heap (start_dispatcher g) = heap g" "heap (stop_dispatcher g) = heap g"
  "dispatcher (start_dispatcher g) = Some Dispatcher_running" "dispatcher (stop_dispatcher g) = None"
  by (simp_all add: start_dispatcher_def stop_dispatcher_def)

lemma group_fail_group [simp]:
  "group_state m (fail_group n s) =
     (if m = n then (stop_dispatcher (group_state n s))\<lparr>heap := []\<rparr> else group_state m s)"
  by (simp add: fail_group_def)

subsection \<open>Pacing\<close>

text \<open>What the pace of a group depends on; only the dispatcher and \<open>reset\<close> change it.\<close>

definition pace :: "Group \<Rightarrow> nat \<times> rat list \<times> rat list" where
  "pace g = (limit g, granted g, grants g)"

lemma pace_wait_turn: "pace (group_state m (wait_turn now r sub s)) = pace (group_state m s)"
  by (simp add: wait_turn_def pace_def start_dispatcher_def Let_def)

lemma pace_submit: "pace (group_state m (submit now g p s)) = pace (group_state m s)"
  by (simp add: submit_def Let_def pace_wait_turn)

lemma pace_wait_over: "pace (group_state m (wait_over now r expired s)) = pace (group_state m s)"
  by (simp add: wait_over_def end_wait_def split: option.splits phase.splits future.splits)

lemma pace_cancel: "pace (group_state m (cancel_submit r s)) = pace (group_state m s)"
  by (simp add: cancel_submit_def split: option.splits phase.splits)

lemma pace_sent: "pace (group_state m (sent now r answer s)) = pace (group_state m s)"
  by (simp add: sent_def Let_def pace_wait_turn split: option.splits send_answer.splits)
     (simp add: pace_def)

lemma pace_fail_all: "pace (group_state m (fail_all s)) = pace (group_state m s)"
  by (simp add: fail_all_def pace_def stop_dispatcher_def)

text \<open>
  The grant times so far, ascending and none later than now; the times still remembered are the
  last ones; those forgotten are a window ago; and any \<open>limit + 1\<close> of them span a window.
\<close>

definition paced :: "rat \<Rightarrow> rat \<Rightarrow> nat \<times> rat list \<times> rat list \<Rightarrow> bool" where
  "paced w now v \<longleftrightarrow>
     (case v of (n, kept, ts) \<Rightarrow>
        0 < n \<and> (\<forall>t \<in> set ts. t \<le> now) \<and>
        (\<exists>k \<le> length ts. kept = drop k ts \<and> (\<forall>i < k. ts ! i + w \<le> now)) \<and>
        (\<forall>i. i + n < length ts \<longrightarrow> ts ! i + w \<le> ts ! (i + n)))"

lemma paced_later:
  assumes "paced w now v" and "now \<le> now'"
  shows "paced w now' v"
proof -
  obtain n kept ts where v: "v = (n, kept, ts)" by (cases v)
  with assms(1) obtain k where k: "k \<le> length ts" "kept = drop k ts" "\<forall>i < k. ts ! i + w \<le> now"
    by (auto simp: paced_def)
  then have "\<forall>i < k. ts ! i + w \<le> now'" using assms(2) by (meson order_trans)
  moreover have "\<forall>t \<in> set ts. t \<le> now'" using assms by (force simp: paced_def v)
  ultimately show ?thesis using assms(1) k(1,2) by (auto simp: paced_def v)
qed

lemma prune_drop:
  assumes "kept = drop k ts" and "k \<le> length ts" and "\<forall>i < k. ts ! i + w \<le> now"
  shows "\<exists>j \<le> length ts. prune now w kept = drop j ts \<and> (\<forall>i < j. ts ! i + w \<le> now)"
proof -
  let ?m = "length (takeWhile (\<lambda>t. t + w \<le> now) kept)"
  have m: "k + ?m \<le> length ts"
    using assms(1,2) length_takeWhile_le [of "\<lambda>t. t + w \<le> now" kept] by simp
  have "prune now w kept = drop ?m kept" by (simp add: prune_def dropWhile_eq_drop)
  then have "prune now w kept = drop (k + ?m) ts" by (simp add: assms(1) add.commute)
  moreover have "ts ! i + w \<le> now" if "i < k + ?m" for i
  proof (cases "i < k")
    case False
    with that have "i - k < ?m" by simp
    then have "kept ! (i - k) + w \<le> now"
      using nth_length_takeWhile set_takeWhileD takeWhile_nth
      by (metis (mono_tags, lifting) nth_mem)
    with False assms(1,2) that m show ?thesis by simp
  qed (use assms(3) in simp)
  ultimately show ?thesis using m by blast
qed

lemma paced_prune: "paced w now (n, kept, ts) \<Longrightarrow> paced w now (n, prune now w kept, ts)"
  using prune_drop by (auto simp: paced_def)

lemma paced_grant:
  assumes "paced w now (n, kept, ts)" and "length kept < n"
  shows "paced w now (n, kept @ [now], ts @ [now])"
proof -
  from assms(1) obtain k where k: "k \<le> length ts" "kept = drop k ts" "\<forall>i < k. ts ! i + w \<le> now"
    by (auto simp: paced_def)
  have "(ts @ [now]) ! i + w \<le> (ts @ [now]) ! (i + n)" if "i + n < length (ts @ [now])" for i
  proof (cases "i + n < length ts")
    case True
    then show ?thesis using assms(1) by (simp add: paced_def nth_append)
  next
    case False
    with that have i: "i + n = length ts" by simp
    with assms(2) k(1,2) have "i < k" by simp
    with k i assms show ?thesis by (simp add: nth_append paced_def)
  qed
  moreover have "kept @ [now] = drop k (ts @ [now]) \<and> (\<forall>i < k. (ts @ [now]) ! i + w \<le> now)"
    using k by (simp add: nth_append)
  ultimately show ?thesis using assms(1) k(1)
    by (auto simp: paced_def intro!: exI [of _ k])
qed

text \<open>A grant at \<open>now\<close> means that the pruned window has room and that the pause is over.\<close>

lemma room_if_ready:
  assumes "0 < limit g" and "granted g = prune now w ts" and "\<forall>t. ready_at w g = Some t \<longrightarrow> t \<le> now"
  shows "length (granted g) < limit g" and "\<forall>t. paused_until g = Some t \<longrightarrow> t \<le> now"
proof -
  show "length (granted g) < limit g"
  proof (rule ccontr)
    assume full: "\<not> length (granted g) < limit g"
    then obtain t rest where t: "granted g = t # rest" using assms(1) by (cases "granted g") simp_all
    then have "\<not> t + w \<le> now"
      using assms(2) hd_dropWhile [of "\<lambda>t. t + w \<le> now" ts] by (simp add: prune_def)
    moreover have "ready_at w g = later (paused_until g) (t + w)" using full t by (simp add: ready_at_def)
    then have "t + w \<le> now"
      using assms(3) by (simp add: later_def split: option.splits)
    ultimately show False by simp
  qed
  then show "\<forall>t. paused_until g = Some t \<longrightarrow> t \<le> now"
    using assms(3) by (simp add: ready_at_def)
qed

text \<open>The three ways a turn of the dispatcher goes.\<close>

lemma dispatch_cases [case_names idle sleeps grants]:
  obtains (idle) "drop_dead s (heap (group_state n s)) = []"
    "dispatch now n s = set_group n ((group_state n s)\<lparr>heap := [], dispatcher := None\<rparr>) s"
  | (sleeps) x rest t where "drop_dead s (heap (group_state n s)) = x # rest" "now < t"
    "dispatch now n s = set_group n ((group_state n s)\<lparr>heap := x # rest,
       granted := prune now (window_secs (pacing s)) (granted (group_state n s)),
       dispatcher := Some (Dispatcher_sleeping t)\<rparr>) s"
  | (grants) p q e rest where "drop_dead s (heap (group_state n s)) = (p, q, e) # rest"
    "\<forall>t. ready_at (window_secs (pacing s)) ((group_state n s)\<lparr>heap := (p, q, e) # rest,
       granted := prune now (window_secs (pacing s)) (granted (group_state n s))\<rparr>) = Some t \<longrightarrow> t \<le> now"
    "dispatch now n s = set_future e Future_result (set_group n ((group_state n s)\<lparr>heap := rest,
       granted := prune now (window_secs (pacing s)) (granted (group_state n s)) @ [now],
       dispatcher := Some Dispatcher_running, grants := grants (group_state n s) @ [now]\<rparr>) s)"
proof (cases "drop_dead s (heap (group_state n s))")
  case Nil
  then show thesis by (intro idle) (simp_all add: dispatch_def Let_def)
next
  case (Cons x rest)
  obtain p q e where x: "x = (p, q, e)" by (cases x)
  let ?g = "(group_state n s)\<lparr>heap := x # rest,
       granted := prune now (window_secs (pacing s)) (granted (group_state n s))\<rparr>"
  show thesis
  proof (cases "\<exists>t. ready_at (window_secs (pacing s)) ?g = Some t \<and> now < t")
    case True
    then obtain t where "ready_at (window_secs (pacing s)) ?g = Some t" "now < t" by blast
    then show thesis by (intro sleeps [OF Cons, of t]) (simp_all add: dispatch_def Let_def Cons x)
  next
    case False
    then show thesis
      by (intro grants [of p q e rest])
         (auto simp: dispatch_def Let_def Cons x split: option.splits)
  qed
qed

lemma paced_dispatch:
  assumes "paced (window_secs (pacing s)) now (pace (group_state n s))"
  shows "paced (window_secs (pacing s)) now (pace (group_state n (dispatch now n s)))"
proof (cases rule: dispatch_cases [of s n now])
  case idle
  with assms show ?thesis by (simp add: pace_def)
next
  case (sleeps x rest t)
  with assms paced_prune show ?thesis by (simp add: pace_def)
next
  case (grants p q e rest)
  let ?w = "window_secs (pacing s)" and ?g = "group_state n s"
  let ?h = "?g\<lparr>heap := (p, q, e) # rest, granted := prune now ?w (granted ?g)\<rparr>"
  have "0 < limit ?g" using assms by (simp add: paced_def pace_def)
  then have "length (prune now ?w (granted ?g)) < limit ?g"
    using room_if_ready(1) [of ?h now ?w "granted ?g"] grants(2) by simp
  with paced_grant [OF paced_prune] assms grants(3) show ?thesis
    by (simp add: pace_def)
qed

lemma other_group_dispatch: "m \<noteq> n \<Longrightarrow> group_state m (dispatch now n s) = group_state m s"
  by (cases rule: dispatch_cases [of s n now]) simp_all

lemma pacing_dispatch: "pacing (dispatch now n s) = pacing s"
  by (cases rule: dispatch_cases [of s n now]) simp_all

lemma pacing_wait_turn [simp]: "pacing (wait_turn now r sub s) = pacing s"
  by (simp add: wait_turn_def Let_def)

lemma pacing_step: "pacing (scheduler_step ev s) = pacing s"
  by (cases "(ev, s)" rule: scheduler_step.cases)
     (auto simp: submit_def dispatcher_turn_def pacing_dispatch wait_over_def end_wait_def
        cancel_submit_def sent_def fail_all_def fail_group_def reset_def Let_def
        split: option.splits phase.splits future.splits send_answer.splits)

lemma pacing_run: "pacing (fold scheduler_step evs s) = pacing s"
  by (induction evs arbitrary: s) (simp_all add: pacing_step)

lemma paced_step:
  assumes "paced (window_secs (pacing s)) now (pace (group_state m s))" and "now \<le> fst ev"
  shows "paced (window_secs (pacing s)) (fst ev) (pace (group_state m (scheduler_step ev s)))"
proof -
  have p: "paced (window_secs (pacing s)) (fst ev) (pace (group_state m s))"
    using assms by (rule paced_later)
  show ?thesis
  proof (cases ev rule: prod.exhaust)
    case (Pair t e)
    show ?thesis
    proof (cases e)
      case (Dispatcher_turn n)
      then show ?thesis
        using p paced_dispatch [of s t n] Pair
        by (cases "m = n") (simp_all add: dispatcher_turn_def other_group_dispatch)
    next
      case Reset
      have "limit (reset_group g) = limit g" "granted (reset_group g) = []" "grants (reset_group g) = []" for g
        by (simp_all add: reset_group_def stop_dispatcher_def start_dispatcher_def Let_def)
      then show ?thesis
        using p Pair Reset by (simp add: group_state_reset pace_def paced_def)
    qed (use p Pair in \<open>simp_all add: pace_submit pace_wait_over pace_cancel pace_sent pace_fail_all\<close>)
  qed
qed

lemma paced_run:
  assumes "paced (window_secs (pacing s)) now (pace (group_state m s))"
    and "sorted (now # map fst evs)"
  shows "\<exists>t. paced (window_secs (pacing s)) t (pace (group_state m (fold scheduler_step evs s)))"
  using assms
proof (induction evs arbitrary: s now)
  case (Cons ev evs)
  have "paced (window_secs (pacing s)) (fst ev) (pace (group_state m (scheduler_step ev s)))"
    using Cons.prems by (intro paced_step [of s now]) simp_all
  with Cons.IH [of "scheduler_step ev s" "fst ev"] Cons.prems(2) show ?case
    by (simp add: pacing_step)
qed auto

subsection \<open>The queue by priority\<close>

text \<open>
  What the dispatcher relies on of its queue: pushing keeps it in order and adds one entry. The
  first entry that still counts is then one that no other precedes.
\<close>

locale priority_queue =
  fixes precedes :: "'e \<Rightarrow> 'e \<Rightarrow> bool" and push :: "'e \<Rightarrow> 'e list \<Rightarrow> 'e list"
  assumes push_set: "set (push x h) = insert x (set h)"
    and push_ordered: "sorted_wrt (\<lambda>x y. \<not> precedes y x) h \<Longrightarrow> sorted_wrt (\<lambda>x y. \<not> precedes y x) (push x h)"
    and irreflexive: "\<not> precedes x x"
begin

definition ordered :: "'e list \<Rightarrow> bool" where
  "ordered h = sorted_wrt (\<lambda>x y. \<not> precedes y x) h"

lemma ordered_Nil [simp]: "ordered []"
  by (simp add: ordered_def)

lemma ordered_push: "ordered h \<Longrightarrow> ordered (push x h)"
  by (simp add: ordered_def push_ordered)

lemma ordered_dropWhile: "ordered h \<Longrightarrow> ordered (dropWhile P h)"
  unfolding ordered_def by (metis sorted_wrt_append takeWhile_dropWhile_id)

lemma ordered_tl: "ordered (x # h) \<Longrightarrow> ordered h"
  by (simp add: ordered_def)

lemma first_counting:
  assumes "ordered h" and "dropWhile dead h = x # rest" and "y \<in> set h" and "\<not> dead y"
  shows "\<not> precedes y x"
proof -
  have h: "h = takeWhile dead h @ x # rest" by (metis assms(2) takeWhile_dropWhile_id)
  have "y \<notin> set (takeWhile dead h)" using assms(4) by (meson set_takeWhileD)
  then have "y = x \<or> y \<in> set rest" using assms(3) h by (metis Un_iff set_append set_ConsD)
  moreover have "\<forall>z \<in> set rest. \<not> precedes z x"
    using assms(1) h by (metis ordered_def sorted_wrt.simps(2) sorted_wrt_append)
  ultimately show ?thesis using irreflexive by blast
qed

lemma dropWhile_keeps: "y \<in> set h \<Longrightarrow> \<not> dead y \<Longrightarrow> y \<in> set (dropWhile dead h)"
  by (metis Un_iff set_append set_takeWhileD takeWhile_dropWhile_id)

end

lemma set_heappush: "set (heappush x h) = insert x (set h)"
  by (induction h) auto

lemma before_trans: "\<not> before x y \<Longrightarrow> \<not> before z x \<Longrightarrow> \<not> before z y"
  by (cases x; cases y; cases z) auto

lemma heappush_ordered:
  "sorted_wrt (\<lambda>x y. \<not> before y x) h \<Longrightarrow> sorted_wrt (\<lambda>x y. \<not> before y x) (heappush x h)"
proof (induction h)
  case (Cons y h)
  show ?case
  proof (cases "before y x")
    case True
    then have "\<not> before x y" by (cases x; cases y) auto
    with Cons True show ?thesis by (auto simp: set_heappush)
  next
    case False
    with Cons.prems before_trans [of y x] show ?thesis by auto
  qed
qed simp

interpretation requests: priority_queue before heappush
  by unfold_locales (auto simp: set_heappush heappush_ordered)

subsection \<open>No waiting request is stranded\<close>

definition live :: "nat \<Rightarrow> RequestScheduler \<Rightarrow> bool" where
  "live e s \<longleftrightarrow> future_of e s = Future_pending"

definition queued :: "nat \<Rightarrow> group \<Rightarrow> RequestScheduler \<Rightarrow> bool" where
  "queued e m s \<longleftrightarrow> (\<exists>p n. (p, n, e) \<in> set (heap (group_state m s)))"

definition attended :: "RequestScheduler \<Rightarrow> bool" where
  "attended s \<longleftrightarrow>
     (\<forall>m. requests.ordered (heap (group_state m s))) \<and>
     (\<forall>m. dispatcher (group_state m s) = None \<longrightarrow> heap (group_state m s) = []) \<and>
     map fst (futures s) = [0..<length (futures s)] \<and>
     (\<forall>r sub e q b. map_of (submits s) r = Some sub \<longrightarrow> sub_phase sub = Waiting e q b \<longrightarrow>
        e < length (futures s) \<and> (live e s \<longrightarrow> queued e (sub_group sub) s))"

lemma live_set_future: "f \<noteq> Future_pending \<Longrightarrow> live e' (set_future e f s) \<longleftrightarrow> live e' s \<and> e' \<noteq> e"
  by (auto simp: live_def set_future_def is_done_def future_of_def dict_simps split: option.splits)

lemma futures_set_future:
  "map fst (futures s) = [0..<length (futures s)] \<Longrightarrow>
   map fst (futures (set_future e f s)) = [0..<length (futures s)] \<and>
   length (futures (set_future e f s)) = length (futures s)"
proof (cases "is_done e s")
  case False
  assume keys: "map fst (futures s) = [0..<length (futures s)]"
  from False have "e \<in> fst ` set (futures s)"
    by (force simp: is_done_def future_of_def split: option.splits dest: map_of_SomeD)
  then have "map fst (AList.update e f (futures s)) = map fst (futures s)"
    by (simp add: AList.update_keys)
  with False keys show ?thesis by (simp add: set_future_def) (metis length_map)
qed (simp add: set_future_def)

lemma live_frame [simp]:
  "live e (set_group n g s) = live e s" "live e (set_submit r sub s) = live e s"
  "live e (s\<lparr>failed := b\<rparr>) = live e s" "live e (s\<lparr>next_sequence := k\<rparr>) = live e s"
  by (simp_all add: live_def future_of_def)

lemma live_append:
  assumes "map fst (futures s) = [0..<length (futures s)]"
  shows "live e (s\<lparr>futures := futures s @ [(length (futures s), Future_pending)]\<rparr>) \<longleftrightarrow>
     live e s \<or> e = length (futures s)"
proof -
  have "length (futures s) \<notin> set (map fst (futures s))" unfolding assms by simp
  then have "map_of (futures s) (length (futures s)) = None" by (simp add: map_of_eq_None_iff)
  then show ?thesis by (auto simp: live_def future_of_def map_add_def split: option.splits)
qed

lemma attended_set_submit:
  assumes "attended s"
    and "\<And>e q b. sub_phase sub = Waiting e q b \<Longrightarrow>
      e < length (futures s) \<and> (live e s \<longrightarrow> queued e (sub_group sub) s)"
  shows "attended (set_submit r sub s)"
proof -
  have "e < length (futures s) \<and> (live e s \<longrightarrow> queued e (sub_group sub') s)"
    if "map_of (AList.update r sub (submits s)) r' = Some sub'" "sub_phase sub' = Waiting e q b"
    for r' sub' e q b
    using that assms by (auto simp: dict_simps attended_def split: if_splits)
  with assms(1) show ?thesis by (auto simp: attended_def queued_def)
qed

lemma attended_set_future:
  assumes "attended s" and "f \<noteq> Future_pending"
  shows "attended (set_future e f s)"
proof -
  have keys: "map fst (futures s) = [0..<length (futures s)]" using assms(1) by (simp add: attended_def)
  show ?thesis
    using assms(1) futures_set_future [OF keys, of e f]
    by (auto simp: attended_def live_set_future [OF assms(2)] queued_def)
qed

lemma attended_fail_entries: "attended s \<Longrightarrow> attended (fail_entries h s)"
  unfolding fail_entries_def
  by (induction h arbitrary: s) (auto simp: attended_set_future)

lemma attended_wait_turn:
  assumes "attended s"
  shows "attended (wait_turn now r sub s)"
proof (cases "failed s \<or> queue_timeout_secs (pacing s) - sub_waited sub \<le> 0")
  case True
  with assms show ?thesis by (auto simp: wait_turn_def intro!: attended_set_submit)
next
  case False
  let ?e = "length (futures s)" and ?m = "sub_group sub" and ?g = "group_state (sub_group sub) s"
  let ?s = "s\<lparr>futures := futures s @ [(?e, Future_pending)]\<rparr>"
  let ?x = "(priority_value (sub_priority sub), sub_sequence sub, ?e)"
  define g where "g = (if dispatcher ?g = None then start_dispatcher (?g\<lparr>heap := heappush ?x (heap ?g)\<rparr>)
    else ?g\<lparr>heap := heappush ?x (heap ?g)\<rparr>)"
  have g: "heap g = heappush ?x (heap ?g)" "dispatcher g \<noteq> None"
    by (simp_all add: g_def)
  have keys: "map fst (futures s) = [0..<?e]" using assms by (simp add: attended_def)
  have old: "e < ?e \<and> (live e s \<longrightarrow> queued e (sub_group sub') s)"
    if "map_of (submits s) r' = Some sub'" "sub_phase sub' = Waiting e q b" for r' sub' e q b
    using assms that by (simp add: attended_def)
  have "attended (set_group ?m g ?s)"
    unfolding attended_def
  proof (intro conjI allI impI)
    fix m show "requests.ordered (heap (group_state m (set_group ?m g ?s)))"
      using assms g(1) by (simp add: attended_def requests.ordered_push)
  next
    fix m assume "dispatcher (group_state m (set_group ?m g ?s)) = None"
    then show "heap (group_state m (set_group ?m g ?s)) = []"
      using assms g(2) by (simp add: attended_def split: if_splits)
  next
    show "map fst (futures (set_group ?m g ?s)) = [0..<length (futures (set_group ?m g ?s))]"
      using keys by simp
  next
    fix r' sub' e q b
    assume sub': "map_of (submits (set_group ?m g ?s)) r' = Some sub'" "sub_phase sub' = Waiting e q b"
    show "e < length (futures (set_group ?m g ?s))" using old [of r' sub' e q b] sub' by simp
    assume "live e (set_group ?m g ?s)"
    then have "live e s" using live_append [OF keys, of e] old [of r' sub' e q b] sub' by auto
    then show "queued e (sub_group sub') (set_group ?m g ?s)"
      using old [of r' sub' e q b] sub' g(1) by (auto simp: queued_def set_heappush; blast)
  qed
  moreover have "queued ?e ?m (set_group ?m g ?s)"
    using g(1) by (auto simp: queued_def set_heappush)
  moreover have "wait_turn now r sub s =
      set_submit r (sub\<lparr>sub_phase := Waiting ?e now (queue_timeout_secs (pacing s) - sub_waited sub)\<rparr>)
        (set_group ?m g ?s)"
    using False by (simp add: wait_turn_def Let_def g_def)
  ultimately show ?thesis by (auto intro!: attended_set_submit)
qed

lemma attended_frame:
  "attended (s\<lparr>failed := b\<rparr>) = attended s" "attended (s\<lparr>next_sequence := k\<rparr>) = attended s"
  by (simp_all add: attended_def queued_def)

lemma attended_set_group:
  assumes "attended s" and "requests.ordered (heap g)" and "dispatcher g = None \<longrightarrow> heap g = []"
    and "\<And>p n e. (p, n, e) \<in> set (heap (group_state m s)) \<Longrightarrow> live e s \<Longrightarrow> (p, n, e) \<in> set (heap g)"
  shows "attended (set_group m g s)"
proof -
  have "queued e k (set_group m g s)" if "queued e k s" "live e s" for e k
    using that assms(4) by (auto simp: queued_def; blast)
  with assms(1-3) show ?thesis by (auto simp: attended_def)
qed

lemma live_fail_entries: "live e (fail_entries h s) \<longleftrightarrow> live e s \<and> e \<notin> (snd \<circ> snd) ` set h"
  unfolding fail_entries_def
  by (induction h arbitrary: s) (auto simp: live_set_future case_prod_unfold)

lemma attended_fail_group: "attended s \<Longrightarrow> attended (fail_group m s)"
  unfolding fail_group_def
  by (rule attended_set_group) (force simp: attended_fail_entries live_fail_entries image_iff)+

lemma attended_fail_all: "attended s \<Longrightarrow> attended (fail_all s)"
  by (simp add: fail_all_def attended_fail_group attended_frame)

lemma attended_reset: "attended s \<Longrightarrow> attended (reset s)"
proof -
  assume s: "attended s"
  have "heap (reset_group g) = heap g" "dispatcher (reset_group g) = None \<longrightarrow> heap g = []" for g
    by (simp_all add: reset_group_def Let_def start_dispatcher_def stop_dispatcher_def)
  moreover have "futures (reset s) = futures s" "submits (reset s) = submits s"
    by (simp_all add: reset_def)
  moreover from this have "live e (reset s) = live e s" for e by (simp add: live_def future_of_def)
  ultimately show ?thesis using s by (simp add: attended_def queued_def group_state_reset)
qed

lemma drop_dead_live:
  "(p, n, e) \<in> set h \<Longrightarrow> live e s \<Longrightarrow> (p, n, e) \<in> set (drop_dead s h)"
  unfolding drop_dead_def by (rule requests.dropWhile_keeps) (simp_all add: is_done_def live_def)

lemma attended_dispatch:
  assumes "attended s"
  shows "attended (dispatch now m s)"
proof (cases rule: dispatch_cases [of s m now])
  case idle
  have "attended (set_group m ((group_state m s)\<lparr>heap := [], dispatcher := None\<rparr>) s)"
    using assms by (rule attended_set_group) (use drop_dead_live idle(1) in \<open>force+\<close>)
  with idle show ?thesis by simp
next
  case (sleeps x rest t)
  have "requests.ordered (x # rest)"
    using assms requests.ordered_dropWhile sleeps(1) by (metis attended_def drop_dead_def)
  with sleeps drop_dead_live [of _ _ _ "heap (group_state m s)" s] show ?thesis
    by (auto intro!: attended_set_group assms)
next
  case (grants p q e rest)
  let ?g = "(group_state m s)\<lparr>heap := rest,
       granted := prune now (window_secs (pacing s)) (granted (group_state m s)) @ [now],
       dispatcher := Some Dispatcher_running, grants := grants (group_state m s) @ [now]\<rparr>"
  have ord: "requests.ordered rest"
    using assms requests.ordered_dropWhile requests.ordered_tl grants(1) by (metis attended_def drop_dead_def)
  have "attended (set_group m ?g (set_future e Future_result s))"
    using attended_set_future [OF assms]
    by (rule attended_set_group)
       (use ord drop_dead_live [of _ _ _ "heap (group_state m s)" s] grants(1) in
         \<open>auto simp: live_set_future\<close>)
  moreover have "set_future e Future_result (set_group m ?g s) = set_group m ?g (set_future e Future_result s)"
    by (cases m) (simp_all add: set_future_def is_done_def future_of_def set_group.simps)
  ultimately show ?thesis by (simp add: grants(3))
qed

lemma attended_step: "attended s \<Longrightarrow> attended (scheduler_step ev s)"
proof (cases "(ev, s)" rule: scheduler_step.cases)
  case (3 now r expired s')
  moreover assume "attended s"
  ultimately show ?thesis
    by (auto simp: wait_over_def end_wait_def intro!: attended_set_submit attended_set_future
             split: option.splits phase.splits future.splits)
next
  case (4 now r s')
  moreover assume "attended s"
  ultimately show ?thesis
    by (auto simp: cancel_submit_def intro!: attended_set_submit attended_set_future
             split: option.splits phase.splits)
next
  case (5 now r answer s')
  moreover assume s: "attended s"
  moreover have "attended (set_group m ((group_state m s)\<lparr>paused_until := u\<rparr>) s)" for m u
    using s by (rule attended_set_group) (use s in \<open>auto simp: attended_def\<close>)
  ultimately show ?thesis
    by (auto simp: sent_def Let_def intro!: attended_set_submit attended_wait_turn
             split: option.splits send_answer.splits)
qed (auto simp: submit_def dispatcher_turn_def attended_wait_turn attended_frame attended_dispatch
       attended_fail_all attended_reset Let_def)

lemma attended_new: "attended (new_RequestScheduler p)"
  by (simp add: attended_def group_state_new new_Group_def)
     (simp add: new_RequestScheduler_def)

lemma attended_run: "attended s \<Longrightarrow> attended (fold scheduler_step evs s)"
  by (induction evs arbitrary: s) (simp_all add: attended_step)

subsection \<open>How often a request is sent\<close>

definition sends_ok :: "Pacing \<Rightarrow> Submit \<Rightarrow> bool" where
  "sends_ok p sub \<longleftrightarrow>
     sub_retries sub = (if sub_group sub = GROUP_HISTORICAL then nat (pacing_retries p) else 0) \<and>
     sub_sent sub \<le> Suc (sub_retries sub) \<and>
     (case sub_phase sub of
        Waiting e q b \<Rightarrow> sub_sent sub = sub_attempt sub \<and> sub_attempt sub \<le> sub_retries sub
      | Sending \<Rightarrow> sub_sent sub = Suc (sub_attempt sub) \<and> sub_attempt sub \<le> sub_retries sub
      | Finished out \<Rightarrow> True)"

definition all_sends_ok :: "RequestScheduler \<Rightarrow> bool" where
  "all_sends_ok s \<longleftrightarrow> (\<forall>r sub. map_of (submits s) r = Some sub \<longrightarrow> sends_ok (pacing s) sub)"

lemma all_sends_set_submit:
  "all_sends_ok s \<Longrightarrow> sends_ok (pacing s) sub \<Longrightarrow> all_sends_ok (set_submit r sub s)"
  by (auto simp: all_sends_ok_def dict_simps split: if_splits)

lemma all_sends_frame:
  "submits s' = submits s \<Longrightarrow> pacing s' = pacing s \<Longrightarrow> all_sends_ok s' = all_sends_ok s"
  by (simp add: all_sends_ok_def)

lemma all_sends_unchanged [simp]:
  "all_sends_ok (set_future e f s) = all_sends_ok s" "all_sends_ok (set_group m g s) = all_sends_ok s"
  by (simp_all add: all_sends_ok_def)

lemma all_sends_wait_turn:
  assumes "all_sends_ok s"
    and "sends_ok (pacing s) (sub\<lparr>sub_phase := Waiting e now b\<rparr>)"
  shows "all_sends_ok (wait_turn now r sub s)"
proof -
  have ok: "sends_ok (pacing s) (sub\<lparr>sub_phase := Waiting e' now b'\<rparr>)"
    "sends_ok (pacing s) (sub\<lparr>sub_phase := Finished out\<rparr>)" for e' b' out
    using assms(2) by (simp_all add: sends_ok_def)
  have "all_sends_ok (set_group m g (s\<lparr>futures := f\<rparr>))" for m g f
    using assms(1) by (simp add: all_sends_ok_def)
  with ok assms(1) show ?thesis
    by (auto simp: wait_turn_def Let_def intro!: all_sends_set_submit)
qed

lemma submits_fail_all: "submits (fail_all s) = submits s" "pacing (fail_all s) = pacing s"
  by (simp_all add: fail_all_def fail_group_def)

lemma submits_dispatch: "submits (dispatch now m s) = submits s"
  by (cases rule: dispatch_cases [of s m now]) simp_all

lemma all_sends_step: "all_sends_ok s \<Longrightarrow> all_sends_ok (scheduler_step ev s)"
proof (cases "(ev, s)" rule: scheduler_step.cases)
  case (1 now g priority s')
  moreover assume "all_sends_ok s"
  then have "all_sends_ok (s\<lparr>next_sequence := k\<rparr>)" for k by (simp add: all_sends_ok_def)
  ultimately show ?thesis
    by (auto simp: submit_def Let_def sends_ok_def intro!: all_sends_wait_turn)
next
  case (2 now g s')
  moreover assume "all_sends_ok s"
  ultimately show ?thesis
    by (simp add: dispatcher_turn_def all_sends_frame [OF submits_dispatch pacing_dispatch])
next
  case (3 now r expired s')
  moreover assume s: "all_sends_ok s"
  moreover have "sends_ok (pacing s) sub" if "map_of (submits s) r = Some sub" for sub
    using s that by (simp add: all_sends_ok_def)
  ultimately show ?thesis
    by (auto simp: wait_over_def end_wait_def sends_ok_def
             intro!: all_sends_set_submit split: option.splits phase.splits future.splits)
next
  case (4 now r s')
  moreover assume s: "all_sends_ok s"
  moreover have "sends_ok (pacing s) sub" if "map_of (submits s) r = Some sub" for sub
    using s that by (simp add: all_sends_ok_def)
  ultimately show ?thesis
    by (auto simp: cancel_submit_def sends_ok_def
             intro!: all_sends_set_submit split: option.splits phase.splits)
next
  case (5 now r answer s')
  moreover assume s: "all_sends_ok s"
  moreover have "sends_ok (pacing s) sub" if "map_of (submits s) r = Some sub" for sub
    using s that by (simp add: all_sends_ok_def)
  ultimately show ?thesis
    by (auto simp: sent_def Let_def sends_ok_def
             intro!: all_sends_set_submit all_sends_wait_turn
             split: option.splits send_answer.splits)
next
  case (6 now s')
  moreover assume "all_sends_ok s"
  ultimately show ?thesis by (simp add: all_sends_ok_def submits_fail_all)
next
  case (7 now s')
  moreover assume "all_sends_ok s"
  ultimately show ?thesis by (simp add: all_sends_ok_def reset_def)
qed

lemma all_sends_run: "all_sends_ok s \<Longrightarrow> all_sends_ok (fold scheduler_step evs s)"
  by (induction evs arbitrary: s) (simp_all add: all_sends_step)

lemma limit_step: "limit (group_state m (scheduler_step ev s)) = limit (group_state m s)"
proof (cases "(ev, s)" rule: scheduler_step.cases)
  case (2 now n s')
  then show ?thesis
    by (cases "m = n"; cases rule: dispatch_cases [of s n now])
       (simp_all add: dispatcher_turn_def other_group_dispatch)
next
  case (7 now s')
  then show ?thesis
    by (simp add: group_state_reset reset_group_def Let_def stop_dispatcher_def start_dispatcher_def)
qed (use pace_submit pace_wait_over pace_cancel pace_sent pace_fail_all in \<open>force simp: pace_def\<close>)+

lemma limit_run: "limit (group_state m (fold scheduler_step evs s)) = limit (group_state m s)"
  by (induction evs arbitrary: s) (simp_all add: limit_step)

subsection \<open>Properties\<close>

text \<open>
  C6: No group ever grants more than its limit within its window: in every run with a clock that
  does not go back, any \<open>limit + 1\<close> grants of a group since the last \<open>reset\<close> span at least
  \<open>window_secs\<close>. Requests may be submitted, resent, refused, cancelled, timed out and failed in
  any order meanwhile.\<close>

theorem never_above_the_limit:
  assumes "pacing_ok p" and "sorted (map fst evs)"
    and "s = fold scheduler_step evs (new_RequestScheduler p)"
    and "n = nat (if m = GROUP_HISTORICAL then historical_requests_per_window p else requests_per_window p)"
    and "i + n < length (grants (group_state m s))"
  shows "grants (group_state m s) ! i + window_secs p \<le> grants (group_state m s) ! (i + n)"
proof -
  let ?s = "new_RequestScheduler p"
  have w: "window_secs (pacing ?s) = window_secs p" by (simp add: new_RequestScheduler_def)
  have n: "limit (group_state m s) = n"
    by (simp add: assms(3,4) limit_run group_state_new new_Group_def)
  define now where "now = (case evs of [] \<Rightarrow> 0 | ev # _ \<Rightarrow> fst ev)"
  have "sorted (now # map fst evs)" using assms(2) by (cases evs) (simp_all add: now_def)
  moreover have "paced (window_secs p) now (pace (group_state m ?s))"
    using assms(1) by (auto simp: paced_def pace_def group_state_new new_Group_def pacing_ok_def)
  ultimately obtain t where "paced (window_secs p) t (pace (group_state m s))"
    using paced_run [of ?s now m evs] w assms(3) by auto
  with assms(5) n show ?thesis by (simp add: paced_def pace_def)
qed

text \<open>
  The dispatcher serves by urgency, and only when due: an entry it grants at a turn waited in
  its group's queue, no other entry still waiting there comes before it by priority and then by
  arrival, and the pause a refusal ordered is over.\<close>

theorem grants_the_most_urgent:
  assumes "pacing_ok p" and "s = fold scheduler_step evs (new_RequestScheduler p)"
    and "live e s" and "\<not> live e (dispatcher_turn now m s)"
  shows "\<exists>x. x \<in> set (heap (group_state m s)) \<and> snd (snd x) = e \<and>
    (\<forall>y. y \<in> set (heap (group_state m s)) \<and> live (snd (snd y)) s \<longrightarrow> \<not> before y x) \<and>
    (\<forall>t. paused_until (group_state m s) = Some t \<longrightarrow> t \<le> now)"
proof -
  have s: "attended s" by (simp add: assms(2) attended_run attended_new)
  have lim: "0 < limit (group_state m s)"
    using assms(1) by (simp add: assms(2) limit_run group_state_new new_Group_def pacing_ok_def)
  have d: "dispatcher_turn now m s = dispatch now m s"
    using assms(3,4) by (auto simp: dispatcher_turn_def)
  show ?thesis
  proof (cases rule: dispatch_cases [of s m now])
    case (grants p q e' rest)
    let ?g = "group_state m s" and ?w = "window_secs (pacing s)"
    have e: "e' = e" using assms(3,4) d grants(3) by (auto simp: live_set_future)
    have "\<not> before y (p, q, e)" if "y \<in> set (heap ?g)" "live (snd (snd y)) s" for y
      using requests.first_counting [of "heap ?g" "\<lambda>(_, _, e). is_done e s" "(p, q, e)" rest y]
        s grants(1) that e
      by (auto simp: attended_def drop_dead_def is_done_def live_def case_prod_unfold)
    moreover have "(p, q, e) \<in> set (heap ?g)"
      using grants(1) e by (metis drop_dead_def list.set_intros(1) set_dropWhileD)
    moreover have "\<forall>t. paused_until ?g = Some t \<longrightarrow> t \<le> now"
      using room_if_ready(2) [of "?g\<lparr>heap := (p, q, e') # rest, granted := prune now ?w (granted ?g)\<rparr>"
          now ?w "granted ?g"] grants(2) lim by simp
    ultimately show ?thesis by (intro exI [of _ "(p, q, e)"]) auto
  qed (use assms(3,4) d in simp_all)
qed

text \<open>
  C37: No waiting request is stranded: in every run, a request that waits on a future not yet done
  has its entry in the queue of its group, and that group has a dispatcher to serve it - also
  after refusals, timeouts, cancellations, failures and resets.\<close>

theorem waiting_request_is_attended:
  assumes "s = fold scheduler_step evs (new_RequestScheduler p)"
    and "map_of (submits s) r = Some sub" and "sub_phase sub = Waiting e q b" and "live e s"
  shows "queued e (sub_group sub) s \<and> dispatcher (group_state (sub_group sub) s) \<noteq> None"
proof -
  have "attended s" by (simp add: assms(1) attended_run attended_new)
  with assms show ?thesis by (auto simp: attended_def queued_def) fastforce+
qed

text \<open>
  A request is sent at most once, and one of the historical group at most once more for each
  retry the pacing allows, whatever the venue answers.\<close>

theorem sent_at_most_once_per_retry:
  assumes "map_of (submits (fold scheduler_step evs (new_RequestScheduler p))) r = Some sub"
  shows "sub_sent sub \<le> (if sub_group sub = GROUP_HISTORICAL then 1 + nat (pacing_retries p) else 1)"
proof -
  have "all_sends_ok (new_RequestScheduler p)" by (simp add: all_sends_ok_def new_RequestScheduler_def)
  then have "all_sends_ok (fold scheduler_step evs (new_RequestScheduler p))" by (rule all_sends_run)
  with assms have "sends_ok (pacing (new_RequestScheduler p)) sub"
    by (simp add: all_sends_ok_def pacing_run)
  then show ?thesis by (auto simp: sends_ok_def new_RequestScheduler_def)
qed

subsection \<open>A burst of historical requests\<close>

definition sample_pacing :: Pacing where
  "sample_pacing = default_Pacing\<lparr>historical_requests_per_window := 2\<rparr>"

definition sample_requests :: "(rat \<times> scheduler_event) list" where
  "sample_requests = [(0, Submit_request GROUP_HISTORICAL BACKFILL),
     (0, Submit_request GROUP_HISTORICAL DATA), (0, Submit_request GROUP_HISTORICAL EXECUTION)]"

definition sample_burst :: "(rat \<times> scheduler_event) list" where
  "sample_burst = sample_requests @ [(0, Dispatcher_turn GROUP_HISTORICAL),
     (0, Wait_over 2 False), (1 / 4, Dispatcher_turn GROUP_HISTORICAL),
     (1 / 2, Dispatcher_turn GROUP_HISTORICAL), (5 / 4, Dispatcher_turn GROUP_HISTORICAL)]"

theorem never_above_the_limit_witness:
  "length (grants (group_state GROUP_HISTORICAL (fold scheduler_step sample_burst (new_RequestScheduler sample_pacing)))) = 3 \<and>
   grants (group_state GROUP_HISTORICAL (fold scheduler_step sample_burst (new_RequestScheduler sample_pacing))) ! 0 + 5 / 4
     \<le> grants (group_state GROUP_HISTORICAL (fold scheduler_step sample_burst (new_RequestScheduler sample_pacing))) ! (0 + 2)"
proof -
  have "length (grants (group_state GROUP_HISTORICAL
      (fold scheduler_step sample_burst (new_RequestScheduler sample_pacing)))) = 3"
    "pacing_ok sample_pacing" "sorted (map fst sample_burst)" "window_secs sample_pacing = 5 / 4"
    "historical_requests_per_window sample_pacing = 2"
    by code_simp+
  with never_above_the_limit [of sample_pacing sample_burst _ 2 GROUP_HISTORICAL 0, OF _ _ refl] show ?thesis
    by simp
qed

theorem grants_the_most_urgent_witness:
  "\<exists>x. x \<in> set (heap (group_state GROUP_HISTORICAL
         (fold scheduler_step sample_requests (new_RequestScheduler sample_pacing)))) \<and> snd (snd x) = 2"
proof -
  have "live 2 (fold scheduler_step sample_requests (new_RequestScheduler sample_pacing))"
    "\<not> live 2 (dispatcher_turn 0 GROUP_HISTORICAL
       (fold scheduler_step sample_requests (new_RequestScheduler sample_pacing)))"
    "pacing_ok sample_pacing"
    by code_simp+
  with grants_the_most_urgent [OF _ refl] show ?thesis by blast
qed

theorem waiting_request_is_attended_witness:
  "queued 0 GROUP_HISTORICAL (fold scheduler_step sample_burst (new_RequestScheduler sample_pacing)) \<or>
   queued 0 GROUP_HISTORICAL (fold scheduler_step sample_requests (new_RequestScheduler sample_pacing))"
proof -
  let ?s = "fold scheduler_step sample_requests (new_RequestScheduler sample_pacing)"
  have "map_of (submits ?s) 0 = Some \<lparr>sub_group = GROUP_HISTORICAL, sub_priority = BACKFILL,
      sub_sequence = 0, sub_retries = 3, sub_waited = 0, sub_attempt = 0,
      sub_phase = Waiting 0 0 60, sub_sent = 0\<rparr>" "live 0 ?s"
    by code_simp+
  with waiting_request_is_attended [OF refl this(1)] show ?thesis by simp
qed

theorem sent_at_most_once_per_retry_witness:
  "\<exists>sub. map_of (submits (fold scheduler_step sample_burst (new_RequestScheduler sample_pacing))) 2 = Some sub \<and>
     sub_sent sub \<le> 4"
proof -
  obtain sub where sub: "map_of (submits (fold scheduler_step sample_burst (new_RequestScheduler sample_pacing))) 2 = Some sub"
    "sub_group sub = GROUP_HISTORICAL"
  proof -
    have "map_option sub_group (map_of (submits (fold scheduler_step sample_burst (new_RequestScheduler sample_pacing))) 2)
        = Some GROUP_HISTORICAL" by code_simp
    then show thesis using that by auto
  qed
  moreover have "pacing_retries sample_pacing = 3" by code_simp
  ultimately show ?thesis using sent_at_most_once_per_retry [OF sub(1)] by auto
qed

end
