(* ===== verification/History.thy ===== *)
theory History
  imports Messages "HOL-Library.Product_Lexorder"
begin

text \<open>
  \<open>common/history.py\<close>: paged reads of the account's history and the windows to ask them in. The
  request function is the caller's: the parameter \<open>request\<close>, given the number of the request and
  what is asked, raises or answers a page. A list is asked with no window (\<open>First_page\<close>) or with
  one. \<open>found\<close>, a dictionary by id filled with \<open>setdefault\<close>, is an association list.

  Shown here: the weekly windows cover the time asked without gap or overlap, none longer than a
  week, and there are as many as weeks begun; a list read to its end holds exactly the account's
  items in the window, each once, oldest first.
\<close>

definition WEEK_MS :: int where "WEEK_MS = 604800000"

definition LATEST_MS :: int where "LATEST_MS = 2147483646000"

type_synonym window = "int \<times> int"

subsection \<open>Windows\<close>

function weekly_windows :: "int \<Rightarrow> int \<Rightarrow> window list" where
  "weekly_windows start to_ms =
     (if start < to_ms then
        let end1 = min (start + WEEK_MS) to_ms in (start, end1) # weekly_windows end1 to_ms
      else [])"
  by pat_completeness auto

termination weekly_windows
  by (relation "measure (\<lambda>(start, to_ms). nat (to_ms - start))") (auto simp: WEEK_MS_def)

declare weekly_windows.simps [simp del]

subsection \<open>Pages\<close>

datatype query = First_page | In_window window

record 'a page =
  page_items :: "'a list"
  hasMore :: bool

definition setdefault :: "int \<Rightarrow> 'a \<Rightarrow> (int, 'a) dict \<Rightarrow> (int, 'a) dict" where
  "setdefault k v d = (if k \<in> fst ` set d then d else d @ [(k, v)])"

definition collect :: "('a \<Rightarrow> int) \<Rightarrow> 'a list \<Rightarrow> (int, 'a) dict \<Rightarrow> (int, 'a) dict" where
  "collect id_of items found = fold (\<lambda>item. setdefault (id_of item) item) items found"

definition next_window :: "('a \<Rightarrow> int) \<Rightarrow> 'a list \<Rightarrow> window \<Rightarrow> window option" where
  "next_window time_of items w =
     (if items = [] then None
      else let first = time_of (hd items); last1 = time_of (last items) in
        if first < last1 then (if (last1, snd w) \<noteq> w then Some (last1, snd w) else None)
        else if last1 < first then (if (fst w, last1) \<noteq> w then Some (fst w, last1) else None)
        else None)"

text \<open>The loop of \<open>_paged\<close>; the pages still allowed are its first argument.\<close>

fun paged_loop ::
    "nat \<Rightarrow> (nat \<Rightarrow> query \<Rightarrow> 'e + 'a page) \<Rightarrow> ('a \<Rightarrow> int) \<Rightarrow> ('a \<Rightarrow> int) \<Rightarrow> bool \<Rightarrow> nat \<Rightarrow> window \<Rightarrow>
     (int, 'a) dict \<Rightarrow> 'e + ('a list \<times> bool)" where
  "paged_loop 0 request id_of time_of first page_number current found =
     Inr (map snd found, False)"
| "paged_loop (Suc pages) request id_of time_of first page_number current found =
     bind_result
       (request page_number (if page_number = 0 \<and> first then First_page else In_window current))
       (\<lambda>answer.
     let items = page_items answer; found = collect id_of items found in
     if \<not> hasMore answer then Inr (map snd found, True)
     else case next_window time_of items current of
       None \<Rightarrow> Inr (map snd found, False)
     | Some w \<Rightarrow> paged_loop pages request id_of time_of first (Suc page_number) w found)"

definition paged ::
    "(nat \<Rightarrow> query \<Rightarrow> 'e + 'a page) \<Rightarrow> window \<Rightarrow> ('a \<Rightarrow> int) \<Rightarrow> ('a \<Rightarrow> int) \<Rightarrow> nat \<Rightarrow> bool \<Rightarrow>
     'e + ('a list \<times> bool)" where
  "paged request w id_of time_of max_pages first =
     paged_loop max_pages request id_of time_of first 0 w []"

subsection \<open>The lists\<close>

definition oldest_first :: "ProtoOADeal list \<Rightarrow> ProtoOADeal list" where
  "oldest_first deals = sort_key (\<lambda>deal. (executionTimestamp deal, dealId deal)) deals"

definition deals_between ::
    "(nat \<Rightarrow> query \<Rightarrow> 'e + ProtoOADeal page) \<Rightarrow> int \<Rightarrow> int \<Rightarrow> nat \<Rightarrow> 'e + (ProtoOADeal list \<times> bool)" where
  "deals_between request from_ms to_ms max_pages =
     bind_result (paged request (from_ms, to_ms) dealId executionTimestamp max_pages False)
       (\<lambda>(found, complete). Inr (oldest_first found, complete))"

definition position_deals ::
    "(nat \<Rightarrow> query \<Rightarrow> 'e + ProtoOADeal page) \<Rightarrow> nat \<Rightarrow> 'e + (ProtoOADeal list \<times> bool)" where
  "position_deals request max_pages =
     bind_result (paged request (0, LATEST_MS) dealId executionTimestamp max_pages True)
       (\<lambda>(found, complete). Inr (oldest_first found, complete))"

definition orders_between ::
    "(nat \<Rightarrow> query \<Rightarrow> 'e + ProtoOAOrder page) \<Rightarrow> int \<Rightarrow> int \<Rightarrow> nat \<Rightarrow> 'e + ProtoOAOrder list" where
  "orders_between request from_ms to_ms max_pages =
     bind_result (paged request (from_ms, to_ms) orderId utcLastUpdateTimestamp max_pages False)
       (\<lambda>(found, _).
        Inr (sort_key (\<lambda>order. (utcLastUpdateTimestamp order, orderId order)) found))"

subsection \<open>Windows without gap or overlap\<close>

text \<open>Each window starts where the one before ended; \<open>a\<close> is the start, \<open>b\<close> the end of all.\<close>

fun tiles :: "int \<Rightarrow> window list \<Rightarrow> int \<Rightarrow> bool" where
  "tiles a [] b \<longleftrightarrow> a = b"
| "tiles a ((s, e) # ws) b \<longleftrightarrow> s = a \<and> s < e \<and> e \<le> s + WEEK_MS \<and> tiles e ws b"

lemma weekly_windows_tile:
  "from_ms \<le> to_ms \<Longrightarrow> tiles from_ms (weekly_windows from_ms to_ms) to_ms"
proof (induction from_ms to_ms rule: weekly_windows.induct)
  case (1 start to_ms)
  then show ?case
    by (subst weekly_windows.simps) (auto simp: Let_def WEEK_MS_def min_def)
qed

lemma weekly_windows_length:
  "int (length (weekly_windows from_ms to_ms)) = max 0 (- ((from_ms - to_ms) div WEEK_MS))"
proof (induction from_ms to_ms rule: weekly_windows.induct)
  case (1 start to_ms)
  show ?case
  proof (cases "start < to_ms")
    case False
    then have "0 \<le> (start - to_ms) div WEEK_MS" by (simp add: WEEK_MS_def div_int_pos_iff)
    with False show ?thesis by (simp add: weekly_windows.simps [of start])
  next
    case True
    let ?e = "min (start + WEEK_MS) to_ms"
    have rec: "int (length (weekly_windows start to_ms)) = 1 + int (length (weekly_windows ?e to_ms))"
      using True by (simp add: weekly_windows.simps [of start] Let_def)
    show ?thesis
    proof (cases "start + WEEK_MS \<le> to_ms")
      case True
      then have "(start - to_ms) div WEEK_MS = (start + WEEK_MS - to_ms) div WEEK_MS - 1"
        by (simp add: WEEK_MS_def)
      moreover have "(start + WEEK_MS - to_ms) div WEEK_MS \<le> 0"
        using True by (simp add: WEEK_MS_def)
      ultimately show ?thesis
        using "1.IH" [OF \<open>start < to_ms\<close> refl] rec True by (simp add: min_def)
    next
      case False
      with \<open>start < to_ms\<close> have "(start - to_ms) div WEEK_MS = - 1"
        by (simp add: WEEK_MS_def)
      with False rec show ?thesis
        by (simp add: min_def weekly_windows.simps [of to_ms])
    qed
  qed
qed

subsection \<open>A list read to its end\<close>

definition inside :: "('a \<Rightarrow> int) \<Rightarrow> window \<Rightarrow> 'a set \<Rightarrow> 'a set" where
  "inside time_of w items = {x \<in> items. fst w \<le> time_of x \<and> time_of x \<le> snd w}"

text \<open>
  How the venue serves a list of \<open>items\<close>: a page holds items of the window asked, all of them
  when it says there are no more; otherwise, whichever way it is ordered, none is left out on the
  far side of the page's last item.
\<close>

definition honest_page :: "('a \<Rightarrow> int) \<Rightarrow> 'a set \<Rightarrow> 'a page \<Rightarrow> bool" where
  "honest_page time_of asked p \<longleftrightarrow>
     set (page_items p) \<subseteq> asked \<and>
     (\<not> hasMore p \<longrightarrow> asked \<subseteq> set (page_items p)) \<and>
     (page_items p \<noteq> [] \<longrightarrow>
        (let first = time_of (hd (page_items p)); last1 = time_of (last (page_items p)) in
         (first < last1 \<longrightarrow> {x \<in> asked. time_of x < last1} \<subseteq> set (page_items p)) \<and>
         (last1 < first \<longrightarrow> {x \<in> asked. last1 < time_of x} \<subseteq> set (page_items p))))"

definition serves ::
    "('a \<Rightarrow> int) \<Rightarrow> window \<Rightarrow> 'a set \<Rightarrow> (nat \<Rightarrow> query \<Rightarrow> 'e + 'a page) \<Rightarrow> bool" where
  "serves time_of whole items request \<longleftrightarrow>
     (\<forall>n q p. request n q = Inr p \<longrightarrow>
        honest_page time_of
          (inside time_of (case q of First_page \<Rightarrow> whole | In_window w \<Rightarrow> w) items) p)"

text \<open>\<open>found\<close>: keyed by the items' own ids.\<close>

definition keyed :: "('a \<Rightarrow> int) \<Rightarrow> 'a set \<Rightarrow> (int, 'a) dict \<Rightarrow> bool" where
  "keyed id_of items found \<longleftrightarrow>
     distinct (map fst found) \<and> (\<forall>(k, v) \<in> set found. k = id_of v \<and> v \<in> items)"

lemma keyed_setdefault:
  assumes "keyed id_of items found" and "x \<in> items" and "inj_on id_of items"
  shows "keyed id_of items (setdefault (id_of x) x found) \<and>
    snd ` set (setdefault (id_of x) x found) = insert x (snd ` set found)"
proof (cases "id_of x \<in> fst ` set found")
  case True
  then obtain v where v: "(id_of x, v) \<in> set found" by auto
  with assms(1) have "id_of v = id_of x" "v \<in> items" by (auto simp: keyed_def)
  with assms(2,3) have "v = x" by (simp add: inj_on_eq_iff)
  with v have "x \<in> snd ` set found" by force
  with True assms(1) show ?thesis by (simp add: setdefault_def insert_absorb)
next
  case False
  with assms(1,2) show ?thesis by (auto simp: keyed_def setdefault_def)
qed

lemma keyed_collect:
  assumes "keyed id_of items found" and "set xs \<subseteq> items" and "inj_on id_of items"
  shows "keyed id_of items (collect id_of xs found) \<and>
    snd ` set (collect id_of xs found) = snd ` set found \<union> set xs"
  using assms(1,2)
proof (induction xs arbitrary: found)
  case (Cons x xs)
  then show ?case
    using keyed_setdefault [of id_of items found x] assms(3) by (simp add: collect_def)
qed (simp add: collect_def)

lemma keyed_distinct:
  assumes "keyed id_of items found"
  shows "distinct (map id_of (map snd found))"
proof -
  have "map id_of (map snd found) = map fst found" using assms by (auto simp: keyed_def)
  moreover have "distinct (map fst found)" using assms by (simp add: keyed_def)
  ultimately show ?thesis by metis
qed

text \<open>Narrowing the window leaves out only items the page held.\<close>

lemma next_window_covers:
  assumes "next_window time_of (page_items p) w = Some w'"
    and "honest_page time_of (inside time_of w items) p"
  shows "inside time_of w items \<subseteq> set (page_items p) \<union> inside time_of w' items"
    and "inside time_of w' items \<subseteq> inside time_of w items"
proof -
  let ?first = "time_of (hd (page_items p))" and ?last = "time_of (last (page_items p))"
  have ne: "page_items p \<noteq> []" using assms(1) by (auto simp: next_window_def)
  have "last (page_items p) \<in> inside time_of w items"
    using assms(2) last_in_set [OF ne] unfolding honest_page_def by blast
  then have last: "fst w \<le> ?last" "?last \<le> snd w" by (simp_all add: inside_def)
  have w': "?first < ?last \<and> w' = (?last, snd w) \<or> ?last < ?first \<and> w' = (fst w, ?last)"
    using assms(1) ne by (auto simp: next_window_def Let_def split: if_splits)
  then show "inside time_of w items \<subseteq> set (page_items p) \<union> inside time_of w' items"
    using assms(2) ne by (auto simp: honest_page_def inside_def Let_def)
  show "inside time_of w' items \<subseteq> inside time_of w items"
    using w' last by (auto simp: inside_def)
qed

lemma paged_loop_complete:
  assumes "paged_loop pages request id_of time_of first n w found = Inr (result, True)"
    and "serves time_of whole items request" and "inj_on id_of items"
    and "keyed id_of items found" and "first \<and> n = 0 \<Longrightarrow> w = whole"
    and "inside time_of w items \<subseteq> inside time_of whole items"
    and "inside time_of whole items \<subseteq> snd ` set found \<union> inside time_of w items"
    and "snd ` set found \<subseteq> inside time_of whole items"
  shows "set result = inside time_of whole items \<and> distinct (map id_of result)"
  using assms(1,4-)
proof (induction pages arbitrary: n w found)
  case (Suc pages)
  let ?q = "if n = 0 \<and> first then First_page else In_window w"
  from Suc.prems(1) obtain p where p: "request n ?q = Inr p"
    by (auto simp: bind_result_Inr)
  have "honest_page time_of
      (inside time_of (case ?q of First_page \<Rightarrow> whole | In_window w \<Rightarrow> w) items) p"
    using assms(2) p by (simp add: serves_def)
  moreover have "(case ?q of First_page \<Rightarrow> whole | In_window w \<Rightarrow> w) = w"
    using Suc.prems(3) by simp
  ultimately have honest: "honest_page time_of (inside time_of w items) p" by simp
  let ?found = "collect id_of (page_items p) found"
  have sub: "set (page_items p) \<subseteq> inside time_of w items" using honest by (simp add: honest_page_def)
  then have "set (page_items p) \<subseteq> items" by (auto simp: inside_def)
  with keyed_collect [OF Suc.prems(2) _ assms(3)]
  have keyed: "keyed id_of items ?found" "snd ` set ?found = snd ` set found \<union> set (page_items p)"
    by blast+
  have res: "(if \<not> hasMore p then Inr (map snd ?found, True)
      else case next_window time_of (page_items p) w of
        None \<Rightarrow> Inr (map snd ?found, False)
      | Some w' \<Rightarrow> paged_loop pages request id_of time_of first (Suc n) w' ?found) = Inr (result, True)"
    using Suc.prems(1) p by (simp add: Let_def)
  show ?case
  proof (cases "hasMore p")
    case False
    with res have r: "result = map snd ?found" by simp
    have "inside time_of w items \<subseteq> set (page_items p)" using honest False by (simp add: honest_page_def)
    with keyed Suc.prems sub have "snd ` set ?found = inside time_of whole items" by auto
    with keyed_distinct [OF keyed(1)] show ?thesis by (simp add: r)
  next
    case True
    with res obtain w' where w': "next_window time_of (page_items p) w = Some w'"
      and rest: "paged_loop pages request id_of time_of first (Suc n) w' ?found = Inr (result, True)"
      by (auto split: option.splits)
    from next_window_covers [OF w' honest] keyed Suc.prems sub show ?thesis
      by (intro Suc.IH [OF rest]) auto
  qed
qed simp

lemma paged_complete:
  assumes "paged request whole id_of time_of max_pages first = Inr (result, True)"
    and "serves time_of whole items request" and "inj_on id_of items"
  shows "set result = inside time_of whole items \<and> distinct (map id_of result)"
  using assms unfolding paged_def
  by (intro paged_loop_complete [of max_pages request id_of time_of first 0 whole "[]"])
     (auto simp: keyed_def)

subsection \<open>Properties\<close>

text \<open>
  The weekly windows of a time span follow one another from its start to its end, each
  starting exactly where the one before ended and none longer than a week, and there are exactly
  as many as weeks begun; none when the span is empty.\<close>

theorem weekly_windows_tile_the_span:
  "(from_ms \<le> to_ms \<longrightarrow> tiles from_ms (weekly_windows from_ms to_ms) to_ms) \<and>
   int (length (weekly_windows from_ms to_ms)) = max 0 (- ((from_ms - to_ms) div WEEK_MS))"
  by (simp add: weekly_windows_tile weekly_windows_length)

theorem weekly_windows_tile_the_span_witness:
  "tiles 0 (weekly_windows 0 (2 * WEEK_MS + 1)) (2 * WEEK_MS + 1) \<and>
   length (weekly_windows 0 (2 * WEEK_MS + 1)) = 3"
  using weekly_windows_tile_the_span [of 0 "2 * WEEK_MS + 1"] by (simp add: WEEK_MS_def)

text \<open>
  C36: A deal list that \<open>deals_between\<close> reports complete is exactly the account's deals of the
  window asked, each once, oldest first - however the venue cuts and orders its pages, as long as
  each page is honest about its window.\<close>

theorem complete_deal_list_is_exact:
  assumes "serves executionTimestamp (from_ms, to_ms) deals request" and "inj_on dealId deals"
    and "deals_between request from_ms to_ms max_pages = Inr (result, True)"
  shows "set result = inside executionTimestamp (from_ms, to_ms) deals \<and> distinct (map dealId result) \<and>
    sorted (map (\<lambda>deal. (executionTimestamp deal, dealId deal)) result)"
proof -
  from assms(3) obtain found where
    f: "paged request (from_ms, to_ms) dealId executionTimestamp max_pages False = Inr (found, True)"
    and r: "result = oldest_first found"
    by (auto simp: deals_between_def bind_result_Inr)
  have "distinct (map dealId (oldest_first xs)) = distinct (map dealId xs)" for xs
    by (simp add: oldest_first_def distinct_map)
  with paged_complete [OF f assms(1,2)] show ?thesis by (simp add: r oldest_first_def)
qed

definition sample_deal :: "int \<Rightarrow> int \<Rightarrow> ProtoOADeal" where
  "sample_deal i t = default_deal\<lparr>dealId := i, executionTimestamp := t\<rparr>"

text \<open>Two deals served newest first, one to a page, the page's last item served again.\<close>

definition sample_list :: "nat \<Rightarrow> query \<Rightarrow> unit + ProtoOADeal page" where
  "sample_list n q =
     Inr (if q = In_window (0, 9) then \<lparr>page_items = [sample_deal 2 7, sample_deal 1 4], hasMore = True\<rparr>
          else if q = In_window (0, 4) then \<lparr>page_items = [sample_deal 1 4], hasMore = False\<rparr>
          else \<lparr>page_items = [], hasMore = True\<rparr>)"

theorem complete_deal_list_is_exact_witness:
  "\<exists>result. deals_between sample_list 0 9 50 = Inr (result, True) \<and>
     set result = inside executionTimestamp (0, 9) {sample_deal 1 4, sample_deal 2 7}"
proof -
  have list: "deals_between sample_list 0 9 50 = Inr ([sample_deal 1 4, sample_deal 2 7], True)"
    by code_simp
  have "serves executionTimestamp (0, 9) {sample_deal 1 4, sample_deal 2 7} sample_list"
    unfolding serves_def
  proof (intro allI impI)
    fix n q p assume "sample_list n q = Inr p"
    then show "honest_page executionTimestamp (inside executionTimestamp
        (case q of First_page \<Rightarrow> (0, 9) | In_window w \<Rightarrow> w) {sample_deal 1 4, sample_deal 2 7}) p"
      by (auto simp: sample_list_def honest_page_def inside_def sample_deal_def Let_def
               split: query.splits if_splits)
  qed
  moreover have "inj_on dealId {sample_deal 1 4, sample_deal 2 7}"
    by (auto simp: inj_on_def sample_deal_def)
  ultimately show ?thesis
    using complete_deal_list_is_exact [OF _ _ list] list by blast
qed

end
