(* ===== verification/Balance_History.thy ===== *)
theory Balance_History
  imports Messages
begin

text \<open>
  \<open>common/balance_history.py\<close>: the balance at a daily checkpoint, rebuilt from closing deals and
  cash flows. A time zone is the parameter record \<open>zone\<close>: the wall time of an instant, and the
  instant of a wall time for either value of \<open>fold\<close>, both in seconds; moments the code compares
  them with are in milliseconds. \<open>NEED_EARLIER\<close> is None. \<open>value_json\<close>, which prints a value, is not
  modelled.

  Shown here: a balance stated as available is that of the account's own ledger immediately before
  the checkpoint, whatever part of the history was given; from the whole history since any change
  before the checkpoint it is always available; a skipped hour is found as the first instant whose
  wall time is not before it.
\<close>

subsection \<open>Changes\<close>

record BalanceChange =
  ch_ts_ms :: int
  ch_version :: int
  ch_balance :: int
  ch_delta :: "int option"
  ch_money_digits :: nat
  ch_cash_flow :: bool
  ch_deposit :: "bool option"

datatype MissingField = Missing_balanceVersion | Missing_moneyDigits

datatype ProtoOAChangeBalanceType = BALANCE_DEPOSIT | BALANCE_WITHDRAW | BALANCE_other int

record ProtoOADepositWithdraw =
  balanceHistoryId :: int
  operationType :: ProtoOAChangeBalanceType
  dw_balance :: int
  dw_delta :: int
  changeBalanceTimestamp :: int
  dw_balanceVersion :: "int option"
  dw_moneyDigits :: "nat option"

definition required :: "MissingField \<Rightarrow> 'a option \<Rightarrow> MissingField + 'a" where
  "required field v = (case v of None \<Rightarrow> Inl field | Some a \<Rightarrow> Inr a)"

definition change_of_deal :: "ProtoOADeal \<Rightarrow> MissingField + BalanceChange option" where
  "change_of_deal deal =
     (case f_closePositionDetail deal of
        None \<Rightarrow> Inr None
      | Some detail \<Rightarrow>
          bind_result (required Missing_balanceVersion (f_balanceVersion detail)) (\<lambda>version.
          bind_result (required Missing_moneyDigits (cd_moneyDigits detail)) (\<lambda>digits.
          Inr (Some \<lparr>ch_ts_ms = executionTimestamp deal, ch_version = version,
            ch_balance = cd_balance detail,
            ch_delta = Some (grossProfit detail + cd_swap detail + cd_commission detail + pnlConversionFee detail),
            ch_money_digits = digits, ch_cash_flow = False, ch_deposit = None\<rparr>))))"

definition change_of_cash_flow :: "ProtoOADepositWithdraw \<Rightarrow> MissingField + BalanceChange" where
  "change_of_cash_flow operation =
     bind_result (required Missing_balanceVersion (dw_balanceVersion operation)) (\<lambda>version.
     bind_result (required Missing_moneyDigits (dw_moneyDigits operation)) (\<lambda>digits.
     Inr \<lparr>ch_ts_ms = changeBalanceTimestamp operation, ch_version = version,
       ch_balance = dw_balance operation, ch_delta = Some (dw_delta operation),
       ch_money_digits = digits, ch_cash_flow = True,
       ch_deposit = Some (operationType operation = BALANCE_DEPOSIT)\<rparr>))"

subsection \<open>Checkpoints\<close>

record zone =
  wall_of :: "int \<Rightarrow> int"
  utc_of :: "bool \<Rightarrow> int \<Rightarrow> int"

datatype checkpoint_error = HourOutOfRange int | NoCheckpointWithinThreeDays

definition local_day :: "int \<Rightarrow> int \<Rightarrow> zone \<Rightarrow> checkpoint_error + int" where
  "local_day now_ms hour zone =
     (if \<not> (0 \<le> hour \<and> hour \<le> 23) then Inl (HourOutOfRange hour)
      else Inr (wall_of zone (now_ms div 1000) div 86400))"

function search_change :: "zone \<Rightarrow> int \<Rightarrow> int \<Rightarrow> int \<Rightarrow> int" where
  "search_change zone naive low high =
     (if low < high then
        let middle = (low + high) div 2 in
        if naive \<le> wall_of zone middle then search_change zone naive low middle
        else search_change zone naive (middle + 1) high
      else low)"
  by pat_completeness auto

termination search_change
  by (relation "measure (\<lambda>(_, _, low, high). nat (high - low))") auto

declare search_change.simps [simp del]

definition occurrence :: "int \<Rightarrow> int \<Rightarrow> zone \<Rightarrow> int" where
  "occurrence day hour zone =
     (let wall = day * 86400 + hour * 3600;
          instant = utc_of zone False wall
      in if wall_of zone instant = wall then instant
         else search_change zone wall (utc_of zone True wall) instant)"

definition checkpoint_at :: "int \<Rightarrow> int \<Rightarrow> zone \<Rightarrow> checkpoint_error + int" where
  "checkpoint_at now_ms hour zone =
     bind_result (local_day now_ms hour zone) (\<lambda>day.
     case find (\<lambda>checkpoint. checkpoint * 1000 \<le> now_ms)
            (map (\<lambda>back. occurrence (day - back) hour zone) [0, 1, 2]) of
       None \<Rightarrow> Inl NoCheckpointWithinThreeDays | Some checkpoint \<Rightarrow> Inr checkpoint)"

definition next_checkpoint :: "int \<Rightarrow> int \<Rightarrow> zone \<Rightarrow> checkpoint_error + int" where
  "next_checkpoint now_ms hour zone =
     bind_result (local_day now_ms hour zone) (\<lambda>day.
     case find (\<lambda>checkpoint. now_ms < checkpoint * 1000)
            (map (\<lambda>ahead. occurrence (day + ahead) hour zone) [0, 1, 2]) of
       None \<Rightarrow> Inl NoCheckpointWithinThreeDays | Some checkpoint \<Rightarrow> Inr checkpoint)"

subsection \<open>The balance at a checkpoint\<close>

datatype Reason = REQUEST_FAILED | INCOMPLETE | NO_CHAIN | OPENED_AFTER | MIXED_SCALES

datatype checkpoint_status = Cp_available | Cp_unavailable | Cp_off

record CheckpointValue =
  cv_status :: checkpoint_status
  cv_checkpoint_ms :: "int option"
  cv_balance :: "int option"
  cv_reason :: "Reason option"
  cv_first_deposit :: "int option"
  cv_money_digits :: "nat option"

definition OFF :: CheckpointValue where
  "OFF = \<lparr>cv_status = Cp_off, cv_checkpoint_ms = None, cv_balance = None, cv_reason = None,
     cv_first_deposit = None, cv_money_digits = None\<rparr>"

definition on_zero :: "BalanceChange \<Rightarrow> bool" where
  "on_zero change \<longleftrightarrow> ch_deposit change = Some True \<and> ch_delta change = Some (ch_balance change)"

text \<open>\<open>min\<close> keeps the first of the smallest.\<close>

fun earliest :: "BalanceChange list \<Rightarrow> BalanceChange option" where
  "earliest [] = None"
| "earliest (c # cs) =
     (case earliest cs of
        None \<Rightarrow> Some c | Some d \<Rightarrow> Some (if ch_version d < ch_version c then d else c))"

definition first_deposit :: "BalanceChange list \<Rightarrow> BalanceChange option" where
  "first_deposit changes = earliest (filter on_zero changes)"

fun collect_versions ::
    "BalanceChange list \<Rightarrow> (int, BalanceChange) dict \<Rightarrow> (int, BalanceChange) dict option" where
  "collect_versions [] d = Some d"
| "collect_versions (change # changes) d =
     (case map_of d (ch_version change) of
        None \<Rightarrow> collect_versions changes (d @ [(ch_version change, change)])
      | Some other \<Rightarrow> if other \<noteq> change then None else collect_versions changes d)"

definition by_version :: "BalanceChange list \<Rightarrow> BalanceChange list option" where
  "by_version changes =
     map_option (\<lambda>d. map (\<lambda>version. the (map_of d version)) (sort (map fst d)))
       (collect_versions changes [])"

definition follows :: "int \<Rightarrow> BalanceChange \<Rightarrow> bool" where
  "follows balance change \<longleftrightarrow>
     (case ch_delta change of
        None \<Rightarrow> False
      | Some delta \<Rightarrow>
          if ch_cash_flow change then ch_balance change - balance \<in> {delta, - delta}
          else balance + delta = ch_balance change)"

fun chain_on ::
    "int \<Rightarrow> int option \<Rightarrow> BalanceChange list \<Rightarrow> int \<Rightarrow> int \<Rightarrow> Reason option" where
  "chain_on balance version [] trader_balance trader_version =
     (if (case version of None \<Rightarrow> 0 | Some v \<Rightarrow> v) < trader_version then Some INCOMPLETE else None)"
| "chain_on balance version (change # after) trader_balance trader_version =
     (if version \<noteq> None \<and> Some (ch_version change) \<noteq> map_option (\<lambda>v. v + 1) version then Some NO_CHAIN
      else if \<not> follows balance change then Some NO_CHAIN
      else if ch_version change = trader_version \<and> ch_balance change \<noteq> trader_balance then Some NO_CHAIN
      else chain_on (ch_balance change) (Some (ch_version change)) after trader_balance trader_version)"

definition chain ::
    "int \<Rightarrow> int option \<Rightarrow> BalanceChange list \<Rightarrow> int \<Rightarrow> int \<Rightarrow> Reason option" where
  "chain balance version after trader_balance trader_version =
     (if version = Some trader_version \<and> balance \<noteq> trader_balance then Some NO_CHAIN
      else chain_on balance version after trader_balance trader_version)"

definition checkpoint_result ::
    "int \<Rightarrow> int option \<Rightarrow> nat \<Rightarrow> int \<Rightarrow> Reason option \<Rightarrow> CheckpointValue" where
  "checkpoint_result t_ms deposit digits balance reason =
     (case reason of
        Some r \<Rightarrow> \<lparr>cv_status = Cp_unavailable, cv_checkpoint_ms = Some t_ms, cv_balance = None,
          cv_reason = Some r, cv_first_deposit = deposit, cv_money_digits = Some digits\<rparr>
      | None \<Rightarrow> \<lparr>cv_status = Cp_available, cv_checkpoint_ms = Some t_ms, cv_balance = Some balance,
          cv_reason = None, cv_first_deposit = deposit, cv_money_digits = Some digits\<rparr>)"

definition balance_at ::
    "int \<Rightarrow> BalanceChange list \<Rightarrow> int \<Rightarrow> int option \<Rightarrow> int \<Rightarrow> int \<Rightarrow> nat \<Rightarrow> bool \<Rightarrow> CheckpointValue option" where
  "balance_at t_ms changes covered_from_ms registration_ms trader_balance trader_version digits reached_cap =
     (if \<exists>change\<in>set changes. ch_money_digits change \<noteq> digits
      then Some (checkpoint_result t_ms None digits 0 (Some MIXED_SCALES))
      else let result = checkpoint_result t_ms (map_option ch_balance (first_deposit changes)) digits in
      case by_version changes of
        None \<Rightarrow> Some (result 0 (Some NO_CHAIN))
      | Some ordered \<Rightarrow>
          let before = filter (\<lambda>index. ch_ts_ms (ordered ! index) < t_ms) [0..<length ordered] in
          if before \<noteq> [] then
            let anchor = ordered ! last before; after = drop (Suc (last before)) ordered in
            Some (result (ch_balance anchor)
              (chain (ch_balance anchor) (Some (ch_version anchor)) after trader_balance trader_version))
          else if (case registration_ms of None \<Rightarrow> False | Some r \<Rightarrow> t_ms < r)
          then Some (result 0 (Some OPENED_AFTER))
          else if reached_cap then Some (result 0 (Some INCOMPLETE))
          else case registration_ms of
            None \<Rightarrow> if covered_from_ms \<le> 0 then Some (result 0 (Some INCOMPLETE)) else None
          | Some registration \<Rightarrow>
              if registration < covered_from_ms then None
              else if ordered \<noteq> [] \<and> \<not> on_zero (hd ordered) then Some (result 0 (Some NO_CHAIN))
              else Some (result 0 (chain 0 None ordered trader_balance trader_version)))"

subsection \<open>Changes in order\<close>

definition ascending :: "BalanceChange list \<Rightarrow> bool" where
  "ascending cs \<longleftrightarrow> sorted_wrt (<) (map ch_version cs)"

lemma collect_versions_keys:
  assumes "collect_versions changes d = Some d'" and "distinct (map fst d)" and "\<forall>(v, c)\<in>set d. v = ch_version c"
  shows "distinct (map fst d') \<and> (\<forall>(v, c)\<in>set d'. v = ch_version c) \<and> snd ` set d' = snd ` set d \<union> set changes"
  using assms
proof (induction changes d arbitrary: d' rule: collect_versions.induct)
  case (2 change changes d)
  show ?case
  proof (cases "map_of d (ch_version change)")
    case None
    then have "ch_version change \<notin> fst ` set d" by (simp add: map_of_eq_None_iff)
    with 2 None show ?thesis by auto
  next
    case (Some other)
    then have "(ch_version change, other) \<in> set d" by (rule map_of_SomeD)
    with 2 Some show ?thesis by (auto split: if_splits) (metis image_eqI snd_conv)+
  qed
qed simp

lemma by_version_ordered:
  assumes "by_version changes = Some ordered"
  shows "ascending ordered \<and> set ordered = set changes"
proof -
  obtain d where d: "collect_versions changes [] = Some d"
    and o: "ordered = map (\<lambda>version. the (map_of d version)) (sort (map fst d))"
    using assms by (auto simp: by_version_def)
  have keys: "distinct (map fst d)" "\<forall>(v, c)\<in>set d. v = ch_version c" "snd ` set d = set changes"
    using collect_versions_keys [OF d] by auto
  have look: "the (map_of d v) = c" "ch_version c = v" if "(v, c) \<in> set d" for v c
    using that keys by auto
  have "map ch_version ordered = sort (map fst d)"
    using look by (auto simp: o intro!: map_idI)
  moreover have "sorted_wrt (<) (sort (map fst d))"
    using keys(1) by (simp add: strict_sorted_iff)
  moreover have "set ordered = snd ` set d"
    using look by (force simp: o image_iff)
  ultimately show ?thesis using keys(3) by (simp add: ascending_def)
qed

subsection \<open>The ledger\<close>

text \<open>
  The account's own balance changes: each with a higher version than the one before, and not
  earlier. The balance immediately before a moment is that after the last change before it.
\<close>

definition ledger :: "BalanceChange list \<Rightarrow> bool" where
  "ledger L \<longleftrightarrow> ascending L \<and> sorted (map ch_ts_ms L)"

definition ledger_balance :: "int \<Rightarrow> BalanceChange list \<Rightarrow> int" where
  "ledger_balance t_ms L =
     (case filter (\<lambda>change. ch_ts_ms change < t_ms) L of [] \<Rightarrow> 0 | cs \<Rightarrow> ch_balance (last cs))"

lemma ledger_times:
  assumes "ledger L" and "x \<in> set L" and "y \<in> set L" and "ch_version x \<le> ch_version y"
  shows "ch_ts_ms x \<le> ch_ts_ms y"
proof -
  obtain i j where ij: "i < length L" "x = L ! i" "j < length L" "y = L ! j"
    using assms(2,3) by (metis in_set_conv_nth)
  have "ch_version (L ! j) < ch_version (L ! i)" if "j < i"
    using assms(1) ij(1) that by (simp add: ledger_def ascending_def sorted_wrt_iff_nth_less)
  then have "\<not> j < i" using assms(4) ij by force
  then show ?thesis using assms(1) ij by (simp add: ledger_def sorted_iff_nth_mono)
qed

lemma ascending_last:
  assumes "ascending L" and "a \<in> set L" and "P a" and "\<And>x. x \<in> set L \<Longrightarrow> P x \<Longrightarrow> ch_version x \<le> ch_version a"
  shows "filter P L \<noteq> [] \<and> last (filter P L) = a"
proof -
  let ?f = "filter P L"
  have asc: "ascending ?f" using assms(1) by (auto simp: ascending_def sorted_wrt_map intro: sorted_wrt_filter)
  have "a \<in> set ?f" using assms(2,3) by simp
  then obtain i where i: "i < length ?f" "?f ! i = a" by (metis in_set_conv_nth)
  then have ne: "?f \<noteq> []" by (metis length_0_conv not_less_zero)
  have last: "last ?f = ?f ! (length ?f - 1)" by (rule last_conv_nth [OF ne])
  have "last ?f \<in> set ?f" by (rule last_in_set [OF ne])
  with assms(4) have le: "ch_version (last ?f) \<le> ch_version a" by auto
  have "\<not> i < length ?f - 1"
  proof
    assume "i < length ?f - 1"
    with asc have "ch_version (?f ! i) < ch_version (?f ! (length ?f - 1))"
      by (simp add: ascending_def sorted_wrt_iff_nth_less)
    with le last i(2) show False by simp
  qed
  with i(1) have "i = length ?f - 1" by simp
  with ne last i(2) show ?thesis by simp
qed

lemma chain_on_next:
  assumes "chain_on balance (Some version) after trader_balance trader_version = None"
    and "version < trader_version"
  shows "after \<noteq> [] \<and> ch_version (hd after) = version + 1"
  using assms by (cases after) (auto split: if_splits)

lemma last_before:
  assumes "before = filter (\<lambda>index. P (xs ! index)) [0..<length xs]" and "before \<noteq> []"
  shows "last before < length xs" "P (xs ! last before)"
    and "\<And>y. y \<in> set (drop (Suc (last before)) xs) \<Longrightarrow> \<not> P y"
proof -
  have "last before \<in> set before" using assms(2) by simp
  then show "last before < length xs" "P (xs ! last before)" by (simp_all add: assms(1))
  fix y
  assume "y \<in> set (drop (Suc (last before)) xs)"
  then obtain j where j: "last before < j" "j < length xs" "y = xs ! j"
    by (auto simp: in_set_conv_nth) (metis add.commute add_Suc_right less_add_Suc1 less_diff_conv)
  show "\<not> P y"
  proof
    assume "P y"
    with j have "j \<in> set before" by (simp add: assms(1))
    moreover have "sorted before" by (simp add: assms(1) sorted_wrt_filter)
    ultimately have "j \<le> last before" by (metis assms(2) in_set_conv_nth last_conv_nth le_refl sorted_iff_nth_mono less_eq_Suc_le Suc_pred' length_greater_0_conv less_Suc_eq_le diff_less zero_less_one)
    with j(1) show False by simp
  qed
qed

lemma anchor_is_last:
  assumes "ledger L" and "set changes \<subseteq> set L" and "by_version changes = Some ordered"
    and "before = filter (\<lambda>index. ch_ts_ms (ordered ! index) < t_ms) [0..<length ordered]" and "before \<noteq> []"
    and "chain_on (ch_balance (ordered ! last before)) (Some (ch_version (ordered ! last before)))
      (drop (Suc (last before)) ordered) trader_balance trader_version = None"
    and "\<forall>x\<in>set L. trader_version < ch_version x \<longrightarrow> t_ms \<le> ch_ts_ms x"
  shows "ledger_balance t_ms L = ch_balance (ordered ! last before)"
proof -
  let ?a = "ordered ! last before" and ?after = "drop (Suc (last before)) ordered"
  note lb = last_before [OF assms(4,5)]
  have set: "set ordered = set changes" using by_version_ordered [OF assms(3)] by simp
  have a: "?a \<in> set L" using nth_mem [OF lb(1)] set assms(2) by blast
  have "ch_version x \<le> ch_version ?a" if x: "x \<in> set L" "ch_ts_ms x < t_ms" for x
  proof (rule ccontr)
    assume "\<not> ch_version x \<le> ch_version ?a"
    moreover have "ch_version x \<le> trader_version" using assms(7) x by fastforce
    ultimately have "?after \<noteq> []" "ch_version (hd ?after) = ch_version ?a + 1"
      using chain_on_next [OF assms(6)] by auto
    moreover from this have h: "hd ?after \<in> set ?after" by (intro hd_in_set)
    then have "hd ?after \<in> set L" using assms(2) set by (metis in_set_dropD subsetD)
    ultimately have "ch_ts_ms (hd ?after) \<le> ch_ts_ms x"
      using ledger_times [OF assms(1), of "hd ?after" x] x \<open>\<not> ch_version x \<le> ch_version ?a\<close> by linarith
    with lb(3) [OF h] x show False by simp
  qed
  from ascending_last [OF _ a _ this, of "\<lambda>x. ch_ts_ms x < t_ms"] lb(2) assms(1)
  have "filter (\<lambda>x. ch_ts_ms x < t_ms) L \<noteq> []" "last (filter (\<lambda>x. ch_ts_ms x < t_ms) L) = ?a"
    by (auto simp: ledger_def)
  then show ?thesis by (auto simp: ledger_balance_def split: list.split)
qed

lemma checkpoint_available:
  "cv_status (checkpoint_result t_ms deposit digits balance reason) = Cp_available \<longleftrightarrow> reason = None"
  "cv_balance (checkpoint_result t_ms deposit digits balance None) = Some balance"
  by (auto simp: checkpoint_result_def split: option.splits)

lemma version_order_unique:
  "ascending xs \<Longrightarrow> ascending ys \<Longrightarrow> set xs = set ys \<Longrightarrow> xs = ys"
proof -
  assume asc: "ascending xs" "ascending ys" and set: "set xs = set ys"
  have "map ch_version xs = map ch_version ys"
    using asc set by (intro sorted_distinct_set_unique) (auto simp: ascending_def strict_sorted_iff)
  moreover have "inj_on ch_version (set xs \<union> set ys)"
    using asc set by (simp add: ascending_def strict_sorted_iff distinct_map)
  ultimately show ?thesis by (metis map_inj_on)
qed

text \<open>Any order and any repeats of changes of a ledger are put in the ledger's order.\<close>

lemma by_version_ledger:
  assumes "ascending L" and "set changes \<subseteq> set L"
  shows "by_version changes = Some (filter (\<lambda>x. x \<in> set changes) L)"
proof -
  have same: "x = y" if "x \<in> set L" "y \<in> set L" "ch_version x = ch_version y" for x y
    using assms(1) that by (auto simp: ascending_def strict_sorted_iff distinct_map inj_on_def)
  have "collect_versions cs d \<noteq> None"
    if "set cs \<subseteq> set L" "\<forall>(v, c)\<in>set d. v = ch_version c \<and> c \<in> set L" for cs d
    using that
  proof (induction cs d rule: collect_versions.induct)
    case (2 change changes d)
    then show ?case
      using same [of _ change] by (auto split: option.splits dest!: map_of_SomeD)
  qed simp
  with assms(2) obtain ordered where o: "by_version changes = Some ordered"
    by (fastforce simp: by_version_def)
  have "ascending (filter (\<lambda>x. x \<in> set changes) L)"
    using assms(1) by (auto simp: ascending_def sorted_wrt_map intro: sorted_wrt_filter)
  with by_version_ordered [OF o] assms(2) have "ordered = filter (\<lambda>x. x \<in> set changes) L"
    by (intro version_order_unique) auto
  with o show ?thesis by simp
qed

subsection \<open>A ledger that adds up\<close>

text \<open>Versions without a gap, and every balance following from the one before.\<close>

fun adds_up :: "int \<Rightarrow> int \<Rightarrow> BalanceChange list \<Rightarrow> bool" where
  "adds_up balance version [] \<longleftrightarrow> True"
| "adds_up balance version (c # cs) \<longleftrightarrow>
     ch_version c = version + 1 \<and> follows balance c \<and> adds_up (ch_balance c) (ch_version c) cs"

lemma adds_up_append:
  "adds_up b v (xs @ y # ys) \<Longrightarrow> adds_up (ch_balance y) (ch_version y) ys"
  by (induction xs arbitrary: b v) auto

lemma adds_up_versions: "adds_up b v L \<Longrightarrow> x \<in> set L \<Longrightarrow> v < ch_version x"
proof (induction L arbitrary: b v)
  case (Cons c cs)
  then have "v < ch_version c" "x \<noteq> c \<Longrightarrow> ch_version c < ch_version x" by auto
  then show ?case by (cases "x = c") auto
qed simp

lemma adds_up_chain:
  assumes "adds_up balance version after"
    and "\<forall>c\<in>set after. ch_version c = trader_version \<longrightarrow> ch_balance c = trader_balance"
    and "trader_version \<le> (if after = [] then version else ch_version (last after))"
  shows "chain_on balance (Some version) after trader_balance trader_version = None"
  using assms by (induction after arbitrary: balance version) (auto split: if_splits)

subsection \<open>Skipped hours\<close>

text \<open>The search ends at the clock change: before it the wall clock is behind the hour, from it on not.\<close>

lemma search_change_finds:
  assumes "low \<le> change" and "change \<le> high" and "\<forall>u. low \<le> u \<and> u < change \<longrightarrow> wall_of zone u < naive"
    and "\<forall>u. change \<le> u \<and> u \<le> high \<longrightarrow> naive \<le> wall_of zone u"
  shows "search_change zone naive low high = change"
  using assms
proof (induction zone naive low high rule: search_change.induct)
  case (1 zone naive low high)
  show ?case
  proof (cases "low < high")
    case True
    let ?m = "(low + high) div 2"
    have m: "low \<le> ?m" "?m < high" using True by auto
    show ?thesis
    proof (cases "naive \<le> wall_of zone ?m")
      case wall: True
      then have "change \<le> ?m" using 1(5) m(1) by (meson not_le)
      with 1(1) [OF True refl wall] 1(3-) m True wall show ?thesis
        by (subst search_change.simps) (simp add: Let_def)
    next
      case wall: False
      then have "?m + 1 \<le> change" using 1(6) m(2) by (meson add1_zle_eq less_imp_le not_le)
      with 1(2) [OF True refl wall] 1(3-) m True wall show ?thesis
        by (subst search_change.simps) (simp add: Let_def)
    qed
  next
    case False
    with 1(3,4) show ?thesis by (subst search_change.simps) simp
  qed
qed

subsection \<open>Properties\<close>

lemma balance_at_cases [consumes 2, case_names anchor zero]:
  assumes "balance_at t_ms changes covered_from_ms registration_ms trader_balance trader_version digits reached_cap = Some v"
    and "cv_status v = Cp_available"
  obtains (anchor) ordered before where "by_version changes = Some ordered"
    "before = filter (\<lambda>index. ch_ts_ms (ordered ! index) < t_ms) [0..<length ordered]" "before \<noteq> []"
    "chain_on (ch_balance (ordered ! last before)) (Some (ch_version (ordered ! last before)))
      (drop (Suc (last before)) ordered) trader_balance trader_version = None"
    "cv_balance v = Some (ch_balance (ordered ! last before))"
  | (zero) ordered registration where "by_version changes = Some ordered"
    "filter (\<lambda>index. ch_ts_ms (ordered ! index) < t_ms) [0..<length ordered] = []"
    "registration_ms = Some registration" "covered_from_ms \<le> registration" "cv_balance v = Some 0"
proof -
  obtain ordered where o: "by_version changes = Some ordered"
    using assms by (auto simp: balance_at_def checkpoint_available Let_def split: option.splits if_splits)
  let ?before = "filter (\<lambda>index. ch_ts_ms (ordered ! index) < t_ms) [0..<length ordered]"
  show thesis
  proof (cases "?before = []")
    case False
    with assms o show ?thesis
      by (intro anchor [OF o refl False])
         (auto simp: balance_at_def checkpoint_available chain_def Let_def split: if_splits)
  next
    case True
    with assms o obtain registration where "registration_ms = Some registration" "covered_from_ms \<le> registration"
        "cv_balance v = Some 0"
      by (auto simp: balance_at_def checkpoint_available Let_def split: option.splits if_splits)
    with True o zero show ?thesis by blast
  qed
qed

text \<open>
  A balance stated as available is the account's own: if the changes given are changes of the
  account's ledger, then whatever the rule was not given, the balance it states is the one the ledger
  has immediately before the checkpoint. The changes given include those from \<open>covered_from_ms\<close> to the
  checkpoint, no change is older than the account's registration, and a change the trader's version does not
  include yet was not made before the checkpoint.\<close>

theorem available_balance_is_the_ledgers:
  assumes "ledger L" and "set changes \<subseteq> set L"
    and "\<forall>x\<in>set L. covered_from_ms \<le> ch_ts_ms x \<and> ch_ts_ms x < t_ms \<longrightarrow> x \<in> set changes"
    and "\<forall>x\<in>set L. \<forall>r. registration_ms = Some r \<longrightarrow> r \<le> ch_ts_ms x"
    and "\<forall>x\<in>set L. trader_version < ch_version x \<longrightarrow> t_ms \<le> ch_ts_ms x"
    and "balance_at t_ms changes covered_from_ms registration_ms trader_balance trader_version digits reached_cap = Some v"
    and "cv_status v = Cp_available"
  shows "cv_balance v = Some (ledger_balance t_ms L)"
  using assms(6,7)
proof (cases rule: balance_at_cases)
  case (anchor ordered before)
  with anchor_is_last [OF assms(1,2) anchor(1-4) assms(5)] show ?thesis by simp
next
  case (zero ordered registration)
  have "set ordered = set changes" using by_version_ordered [OF zero(1)] by simp
  moreover have "x \<in> set changes" if "x \<in> set L" "ch_ts_ms x < t_ms" for x
    using assms(3,4) zero(3,4) that by fastforce
  moreover have "t_ms \<le> ch_ts_ms x" if x: "x \<in> set ordered" for x
  proof -
    obtain i where "i < length ordered" "x = ordered ! i" using x by (metis in_set_conv_nth)
    with zero(2) show ?thesis by (auto simp: filter_empty_conv not_less)
  qed
  ultimately have "filter (\<lambda>x. ch_ts_ms x < t_ms) L = []" by (fastforce simp: filter_empty_conv)
  with zero(5) show ?thesis by (simp add: ledger_balance_def)
qed

lemma ledger_suffix:
  assumes "sorted (map f L)"
  shows "L = takeWhile (\<lambda>x. f x < c) L @ filter (\<lambda>x. c \<le> f x) L"
  using assms
proof (induction L)
  case (Cons x L)
  show ?case
  proof (cases "f x < c")
    case False
    with Cons.prems have "filter (\<lambda>x. c \<le> f x) L = L" by (auto simp: filter_id_conv)
    with False show ?thesis by simp
  qed (use Cons in auto)
qed simp

lemma ledger_last:
  assumes "ascending L" and "x \<in> set L"
  shows "ch_version x \<le> ch_version (last L)" and "ch_version x = ch_version (last L) \<Longrightarrow> x = last L"
proof -
  have ne: "L \<noteq> []" using assms(2) by auto
  have "ch_version x < ch_version (last L)" if "x \<noteq> last L"
  proof -
    obtain xs where L: "L = xs @ [last L]" using ne by (metis append_butlast_last_id)
    then have "x \<in> set xs" using assms(2) that by (metis UnE empty_iff insert_iff list.set(1,2) set_append)
    then show ?thesis using assms(1) by (subst (asm) L) (auto simp: ascending_def sorted_wrt_append)
  qed
  then show "ch_version x \<le> ch_version (last L)" "ch_version x = ch_version (last L) \<Longrightarrow> x = last L"
    by fastforce+
qed

text \<open>
  From the whole history since some change before the checkpoint, in any order and with any
  repeats, the balance is always found: when the ledger has no gap, adds up from zero, is in one
  scale and ends with the balance and version the trader has, the rule states the ledger's balance
  before the checkpoint as available.\<close>

theorem whole_history_gives_the_balance:
  assumes "ledger L" and "adds_up 0 v0 L" and "\<forall>x\<in>set L. ch_money_digits x = digits"
    and "set changes = {x \<in> set L. covered_from_ms \<le> ch_ts_ms x}"
    and "\<exists>x\<in>set L. covered_from_ms \<le> ch_ts_ms x \<and> ch_ts_ms x < t_ms"
  shows "\<exists>v. balance_at t_ms changes covered_from_ms registration_ms (ch_balance (last L)) (ch_version (last L))
      digits reached_cap = Some v \<and> cv_status v = Cp_available \<and> cv_balance v = Some (ledger_balance t_ms L)"
proof -
  have asc: "ascending L" and "sorted (map ch_ts_ms L)" using assms(1) by (simp_all add: ledger_def)
  define ordered where "ordered = filter (\<lambda>x. covered_from_ms \<le> ch_ts_ms x) L"
  have "filter (\<lambda>x. x \<in> set changes) L = ordered"
    unfolding ordered_def by (rule filter_cong) (auto simp: assms(4))
  then have o: "by_version changes = Some ordered" using by_version_ledger [OF asc] assms(4) by auto
  obtain pre where L: "L = pre @ ordered" using ledger_suffix [OF \<open>sorted _\<close>] unfolding ordered_def by blast
  let ?before = "filter (\<lambda>index. ch_ts_ms (ordered ! index) < t_ms) [0..<length ordered]"
  obtain x where x: "x \<in> set ordered" "ch_ts_ms x < t_ms" using assms(5) by (auto simp: ordered_def)
  then obtain j where "j < length ordered" "ch_ts_ms (ordered ! j) < t_ms" by (metis in_set_conv_nth)
  then have "j \<in> set ?before" by simp
  then have ne: "?before \<noteq> []" by (metis empty_iff empty_set)
  let ?i = "last ?before"
  let ?a = "ordered ! ?i" and ?after = "drop (Suc ?i) ordered"
  have i: "?i < length ordered" by (rule last_before(1) [OF refl ne])
  have split: "L = (pre @ take ?i ordered) @ ?a # ?after" using L id_take_nth_drop [OF i] by simp
  have up: "adds_up (ch_balance ?a) (ch_version ?a) ?after"
    using assms(2) adds_up_append by (subst (asm) split) blast
  have last: "last L = (if ?after = [] then ?a else last ?after)" by (subst split) simp
  have after: "x \<in> set L" if "x \<in> set ?after" for x using that by (subst split) simp
  have a: "?a \<in> set L" by (subst split) simp
  have chain_on: "chain_on (ch_balance ?a) (Some (ch_version ?a)) ?after (ch_balance (last L)) (ch_version (last L)) = None"
  proof (rule adds_up_chain [OF up])
    show "\<forall>c\<in>set ?after. ch_version c = ch_version (last L) \<longrightarrow> ch_balance c = ch_balance (last L)"
      using ledger_last(2) [OF asc after] by metis
  qed (simp add: last)
  then have "chain (ch_balance ?a) (Some (ch_version ?a)) ?after (ch_balance (last L)) (ch_version (last L)) = None"
    using ledger_last(2) [OF asc a] by (auto simp: chain_def)
  moreover have "ledger_balance t_ms L = ch_balance ?a"
    using ledger_last(1) [OF asc] assms(4)
    by (intro anchor_is_last [OF assms(1) _ o refl ne chain_on]) (auto simp: not_less [symmetric])
  moreover have "\<not> (\<exists>change\<in>set changes. ch_money_digits change \<noteq> digits)" using assms(3,4) by auto
  ultimately show ?thesis
    using ne by (simp add: balance_at_def o Let_def checkpoint_available)
qed

subsection \<open>A small account\<close>

definition sample_ledger :: "BalanceChange list" where
  "sample_ledger =
     [\<lparr>ch_ts_ms = 1000, ch_version = 1, ch_balance = 500, ch_delta = Some 500, ch_money_digits = 2,
        ch_cash_flow = True, ch_deposit = Some True\<rparr>,
      \<lparr>ch_ts_ms = 2000, ch_version = 2, ch_balance = 480, ch_delta = Some (-20), ch_money_digits = 2,
        ch_cash_flow = False, ch_deposit = None\<rparr>,
      \<lparr>ch_ts_ms = 5000, ch_version = 3, ch_balance = 530, ch_delta = Some 50, ch_money_digits = 2,
        ch_cash_flow = False, ch_deposit = None\<rparr>]"

lemma sample_ledger_ok: "ledger sample_ledger" "adds_up 0 0 sample_ledger" "\<forall>x\<in>set sample_ledger. ch_money_digits x = 2"
  by (simp_all add: sample_ledger_def ledger_def ascending_def follows_def)

theorem available_balance_is_the_ledgers_witness:
  "\<exists>v. balance_at 3000 (rev sample_ledger) 0 (Some 1000) 530 3 2 False = Some v \<and>
     cv_status v = Cp_available \<and> cv_balance v = Some (ledger_balance 3000 sample_ledger)"
proof -
  have "map_option cv_status (balance_at 3000 (rev sample_ledger) 0 (Some 1000) 530 3 2 False) = Some Cp_available"
    by code_simp
  then obtain v where v: "balance_at 3000 (rev sample_ledger) 0 (Some 1000) 530 3 2 False = Some v"
    "cv_status v = Cp_available" by auto
  with available_balance_is_the_ledgers [OF sample_ledger_ok(1) _ _ _ _ v] show ?thesis
    by (auto simp: sample_ledger_def)
qed

theorem whole_history_gives_the_balance_witness:
  "\<exists>v. balance_at 3000 (rev (tl sample_ledger)) 2000 None 530 3 2 True = Some v \<and>
     cv_status v = Cp_available \<and> cv_balance v = Some 480"
proof -
  have "set (rev (tl sample_ledger)) = {x \<in> set sample_ledger. 2000 \<le> ch_ts_ms x}"
    "\<exists>x\<in>set sample_ledger. 2000 \<le> ch_ts_ms x \<and> ch_ts_ms x < 3000"
    "ledger_balance 3000 sample_ledger = 480" "ch_balance (last sample_ledger) = 530" "ch_version (last sample_ledger) = 3"
    by (auto simp: sample_ledger_def ledger_balance_def)
  with whole_history_gives_the_balance [OF sample_ledger_ok(1-3), of "rev (tl sample_ledger)" 2000 3000 None True]
  show ?thesis by simp
qed

end
