(* ===== verification/Balance_Checkpoint.thy ===== *)
theory Balance_Checkpoint
  imports Balance_History History
begin

text \<open>
  \<open>common/balance_checkpoint.py\<close>: the walks that read the history for the rule of
  \<open>Balance_History\<close>, and the key they write. A run of \<open>_settle\<close> is a record that holds its walk
  and the place it waits at (\<open>place\<close>); any number may overlap, and what they wait for is answered in
  any order. The broker's answers are the argument of \<open>Reply\<close>: the whole of \<open>deals_between\<close> is one
  answer, as nothing of this class is read while it runs. The clock is given with each event, in
  milliseconds, and one reading serves the steps between two waits. \<open>ck_log\<close> is a ghost log of the
  values written. A checkpoint the rule cannot find raises, which leaves the state as it was.
\<close>

definition START_WINDOWS :: nat where "START_WINDOWS = 8"

definition MAX_WINDOWS :: nat where "MAX_WINDOWS = 156"

definition GRACE_MS :: int where "GRACE_MS = 30000"

record ProtoOATrader =
  tr_balance :: int
  tr_balanceVersion :: "int option"
  tr_moneyDigits :: "nat option"
  tr_registrationTimestamp :: "int option"

text \<open>An answer that raises: a lost connection, or any other error.\<close>

datatype failed = Connection_lost | Request_failed

datatype answer =
    Trader_answer "failed + ProtoOATrader"
  | Deals_answer "failed + ProtoOADeal list \<times> bool"
  | Flows_answer "failed + ProtoOADepositWithdraw list"

subsection \<open>State\<close>

record Walk =
  wk_t_ms :: int
  wk_upper_ms :: int
  wk_covered_from_ms :: int
  wk_windows :: nat
  wk_changes :: "(bool \<times> int, BalanceChange) dict"
  wk_settled :: bool
  wk_failure :: "Reason option"

text \<open>What a window is read for: the walk back, or the top-up and the windows it has left.\<close>

datatype reading = Walking_back | Topping_up ProtoOATrader int "(int \<times> int) list"

datatype place =
    At_trader
  | At_deals reading int int
  | At_flows reading int int "ProtoOADeal list"
  | At_lock
  | At_deposit nat int int int
  | At_latest
  | At_begin
  | At_begin_run

record settling =
  rn_walk :: Walk
  rn_trader :: "ProtoOATrader option"
  rn_limit :: nat
  rn_background :: bool
  rn_place :: place

record checkpoint_config =
  cc_hour :: "int option"
  cc_zone :: zone

record BalanceCheckpoint =
  ck_runs :: "(nat, settling) dict"
  ck_next_run :: nat
  ck_timer :: "int option"
  ck_task :: "nat option"
  ck_stopped :: bool
  ck_deposit :: "BalanceChange option"
  ck_deposit_from_ms :: "int option"
  ck_deposit_windows :: nat
  ck_deposit_caught_up :: bool
  ck_written_ms :: "int option"
  ck_lock :: "nat option"
  ck_log :: "CheckpointValue list"

definition new_BalanceCheckpoint :: BalanceCheckpoint where
  "new_BalanceCheckpoint = \<lparr>ck_runs = [], ck_next_run = 0, ck_timer = None, ck_task = None,
     ck_stopped = False, ck_deposit = None, ck_deposit_from_ms = None, ck_deposit_windows = 0,
     ck_deposit_caught_up = False, ck_written_ms = None, ck_lock = None, ck_log = []\<rparr>"

subsection \<open>Values\<close>

text \<open>\<open>_newer\<close>: by version, an absent one being older than any.\<close>

definition newer :: "ProtoOATrader \<Rightarrow> ProtoOATrader \<Rightarrow> ProtoOATrader" where
  "newer first_read second_read =
     (let version = (\<lambda>trader. case tr_balanceVersion trader of None \<Rightarrow> -1 | Some v \<Rightarrow> v)
      in if version first_read \<le> version second_read then second_read else first_read)"

definition failed_value :: "Walk \<Rightarrow> nat option \<Rightarrow> Reason \<Rightarrow> CheckpointValue" where
  "failed_value walk digits reason =
     \<lparr>cv_status = Cp_unavailable, cv_checkpoint_ms = Some (wk_t_ms walk), cv_balance = None,
      cv_reason = Some reason, cv_first_deposit = None, cv_money_digits = digits\<rparr>"

text \<open>\<open>_value\<close>; None is its assertion, which fails where the rule would read earlier.\<close>

definition value_of :: "Walk \<Rightarrow> ProtoOATrader \<Rightarrow> CheckpointValue option" where
  "value_of walk trader =
     (case (wk_failure walk, tr_balanceVersion trader, tr_moneyDigits trader) of
        (Some reason, _, digits) \<Rightarrow> Some (failed_value walk digits reason)
      | (None, None, digits) \<Rightarrow> Some (failed_value walk digits NO_CHAIN)
      | (None, Some _, None) \<Rightarrow> Some (failed_value walk None MIXED_SCALES)
      | (None, Some version, Some digits) \<Rightarrow>
          balance_at (wk_t_ms walk) (map snd (wk_changes walk)) (wk_covered_from_ms walk)
            (tr_registrationTimestamp trader) (tr_balance trader) version digits
            (\<not> wk_settled walk \<or> MAX_WINDOWS \<le> wk_windows walk))"

definition with_deposit ::
    "CheckpointValue \<Rightarrow> int option \<Rightarrow> BalanceCheckpoint \<Rightarrow> CheckpointValue" where
  "with_deposit v registration_ms ck =
     (if registration_ms = None \<or> cv_reason v = Some MIXED_SCALES then v
      else case ck_deposit ck of
             None \<Rightarrow> v\<lparr>cv_first_deposit := None\<rparr>
           | Some found \<Rightarrow>
               if Some (ch_money_digits found) \<noteq> cv_money_digits v then v\<lparr>cv_first_deposit := None\<rparr>
               else v\<lparr>cv_first_deposit := Some (ch_balance found)\<rparr>)"

definition deposit_unfinished :: "int \<Rightarrow> int option \<Rightarrow> BalanceCheckpoint \<Rightarrow> bool" where
  "deposit_unfinished now registration_ms ck \<longleftrightarrow>
     (case registration_ms of
        None \<Rightarrow> False
      | Some registration \<Rightarrow>
          ck_deposit ck = None \<and> \<not> ck_deposit_caught_up ck \<and> ck_deposit_windows ck < MAX_WINDOWS \<and>
          (case ck_deposit_from_ms ck of None \<Rightarrow> registration | Some t \<Rightarrow> t) < now)"

definition registration_of :: "settling \<Rightarrow> int option" where
  "registration_of r = (case rn_trader r of None \<Rightarrow> None | Some t \<Rightarrow> tr_registrationTimestamp t)"

definition digits_of :: "settling \<Rightarrow> nat option" where
  "digits_of r = (case rn_trader r of None \<Rightarrow> None | Some t \<Rightarrow> tr_moneyDigits t)"

definition unfinished :: "int \<Rightarrow> settling \<Rightarrow> BalanceCheckpoint \<Rightarrow> bool" where
  "unfinished now r ck \<longleftrightarrow>
     wk_failure (rn_walk r) = None \<and>
     (\<not> wk_settled (rn_walk r) \<or> deposit_unfinished now (registration_of r) ck)"

subsection \<open>Reading one window\<close>

text \<open>The two loops of \<open>_read\<close>, up to a missing field.\<close>

fun add_deals :: "ProtoOADeal list \<Rightarrow> Walk \<Rightarrow> MissingField option \<times> Walk" where
  "add_deals [] walk = (None, walk)"
| "add_deals (deal # deals) walk =
     (case change_of_deal deal of
        Inl field \<Rightarrow> (Some field, walk)
      | Inr None \<Rightarrow> add_deals deals walk
      | Inr (Some change) \<Rightarrow>
          add_deals deals
            (walk\<lparr>wk_changes := AList.update (False, dealId deal) change (wk_changes walk)\<rparr>))"

fun add_flows :: "ProtoOADepositWithdraw list \<Rightarrow> Walk \<Rightarrow> MissingField option \<times> Walk" where
  "add_flows [] walk = (None, walk)"
| "add_flows (operation # operations) walk =
     (case change_of_cash_flow operation of
        Inl field \<Rightarrow> (Some field, walk)
      | Inr change \<Rightarrow>
          add_flows operations
            (walk\<lparr>wk_changes :=
                    AList.update (True, balanceHistoryId operation) change (wk_changes walk)\<rparr>))"

definition missing :: "MissingField option \<Rightarrow> Walk \<Rightarrow> Walk" where
  "missing field walk =
     (case field of
        None \<Rightarrow> walk
      | Some Missing_balanceVersion \<Rightarrow> walk\<lparr>wk_failure := Some NO_CHAIN\<rparr>
      | Some Missing_moneyDigits \<Rightarrow> walk\<lparr>wk_failure := Some MIXED_SCALES\<rparr>)"

definition add_window ::
    "ProtoOADeal list \<Rightarrow> ProtoOADepositWithdraw list \<Rightarrow> Walk \<Rightarrow> Walk" where
  "add_window deals operations walk =
     (case add_deals deals walk of
        (Some field, walk) \<Rightarrow> missing (Some field) walk
      | (None, walk) \<Rightarrow> (case add_flows operations walk of (field, walk) \<Rightarrow> missing field walk))"

text \<open>The end of the loop body of \<open>_walk_back\<close>, once the window from \<open>start\<close> is read.\<close>

definition window_read :: "int \<Rightarrow> ProtoOATrader \<Rightarrow> Walk \<Rightarrow> Walk" where
  "window_read start trader walk =
     (let walk = walk\<lparr>wk_covered_from_ms := start, wk_windows := Suc (wk_windows walk)\<rparr>
      in if wk_failure walk \<noteq> None then walk
         else walk\<lparr>wk_settled :=
           (balance_at (wk_t_ms walk) (map snd (wk_changes walk)) (wk_covered_from_ms walk)
              (tr_registrationTimestamp trader) 0 0
              (case tr_moneyDigits trader of None \<Rightarrow> 0 | Some d \<Rightarrow> d)
              (MAX_WINDOWS \<le> wk_windows walk) \<noteq> None)\<rparr>)"

subsection \<open>Runs\<close>

definition put_run :: "nat \<Rightarrow> settling \<Rightarrow> BalanceCheckpoint \<Rightarrow> BalanceCheckpoint" where
  "put_run i r ck = ck\<lparr>ck_runs := AList.update i r (ck_runs ck)\<rparr>"

definition release :: "nat \<Rightarrow> BalanceCheckpoint \<Rightarrow> BalanceCheckpoint" where
  "release i ck = (if ck_lock ck = Some i then ck\<lparr>ck_lock := None\<rparr> else ck)"

text \<open>A run that returns, raises or is cancelled.\<close>

definition end_run :: "nat \<Rightarrow> BalanceCheckpoint \<Rightarrow> BalanceCheckpoint" where
  "end_run i ck = release i (ck\<lparr>ck_runs := AList.delete i (ck_runs ck)\<rparr>)"

definition cancel_task :: "BalanceCheckpoint \<Rightarrow> BalanceCheckpoint" where
  "cancel_task ck =
     (case ck_task ck of None \<Rightarrow> ck | Some i \<Rightarrow> end_run i (ck\<lparr>ck_task := None\<rparr>))"

text \<open>\<open>_start_task\<close>: the run begins at a later turn of the event loop.\<close>

definition start_task :: "settling \<Rightarrow> BalanceCheckpoint \<Rightarrow> BalanceCheckpoint" where
  "start_task r ck =
     (let ck = cancel_task ck
      in put_run (ck_next_run ck) r
           (ck\<lparr>ck_task := Some (ck_next_run ck), ck_next_run := Suc (ck_next_run ck)\<rparr>))"

text \<open>
  \<open>_put\<close>: whether the value was written; \<open>stored\<close> is false where the key's write raises.
\<close>

definition put_value ::
    "bool \<Rightarrow> CheckpointValue \<Rightarrow> BalanceCheckpoint \<Rightarrow> bool \<times> BalanceCheckpoint" where
  "put_value stored v ck =
     (if ck_stopped ck \<or> \<not> stored then (False, ck)
      else (True, ck\<lparr>ck_log := ck_log ck @ [v]\<rparr>))"

text \<open>
  The end of \<open>_settle\<close> with a value, and what \<open>_run\<close> does then: a bounded run of the foreground
  that is not finished goes on in the background.
\<close>

definition write_value ::
    "bool \<Rightarrow> int \<Rightarrow> nat \<Rightarrow> settling \<Rightarrow> CheckpointValue \<Rightarrow> BalanceCheckpoint \<Rightarrow> BalanceCheckpoint" where
  "write_value stored now i r v ck =
     (let t_ms = wk_t_ms (rn_walk r); ck = end_run i ck
      in if (case ck_written_ms ck of None \<Rightarrow> False | Some w \<Rightarrow> t_ms < w) then ck
         else case put_value stored (with_deposit v (registration_of r) ck) ck of
           (False, ck) \<Rightarrow> ck
         | (True, ck) \<Rightarrow>
             (let ck = ck\<lparr>ck_written_ms := Some t_ms\<rparr>
              in if rn_trader r \<noteq> None \<and> rn_limit r = START_WINDOWS \<and> \<not> rn_background r \<and>
                    unfinished now r ck
                 then start_task (r\<lparr>rn_limit := MAX_WINDOWS, rn_background := True,
                                    rn_place := At_begin\<rparr>) ck
                 else ck))"

definition request_failed ::
    "bool \<Rightarrow> int \<Rightarrow> nat \<Rightarrow> settling \<Rightarrow> BalanceCheckpoint \<Rightarrow> BalanceCheckpoint" where
  "request_failed stored now i r ck =
     (let r = r\<lparr>rn_walk := (rn_walk r)\<lparr>wk_failure := Some REQUEST_FAILED\<rparr>\<rparr>
      in write_value stored now i r (failed_value (rn_walk r) (digits_of r) REQUEST_FAILED) ck)"

text \<open>A wait that raises.\<close>

definition run_fails ::
    "bool \<Rightarrow> int \<Rightarrow> nat \<Rightarrow> settling \<Rightarrow> failed \<Rightarrow> BalanceCheckpoint \<Rightarrow> BalanceCheckpoint" where
  "run_fails stored now i r e ck =
     (case e of
        Connection_lost \<Rightarrow> end_run i ck
      | Request_failed \<Rightarrow> request_failed stored now i r (release i ck))"

definition finish ::
    "bool \<Rightarrow> int \<Rightarrow> nat \<Rightarrow> settling \<Rightarrow> ProtoOATrader \<Rightarrow> BalanceCheckpoint \<Rightarrow> BalanceCheckpoint" where
  "finish stored now i r latest ck =
     (case value_of (rn_walk r) latest of
        Some v \<Rightarrow> write_value stored now i r v ck
      | None \<Rightarrow> request_failed stored now i r ck)"

subsection \<open>The walks\<close>

definition ask_latest :: "nat \<Rightarrow> settling \<Rightarrow> BalanceCheckpoint \<Rightarrow> BalanceCheckpoint" where
  "ask_latest i r ck = put_run i (r\<lparr>rn_place := At_latest\<rparr>) (release i ck)"

text \<open>The head of the loop of \<open>_walk_deposit_locked\<close>, with \<open>left\<close> turns to go.\<close>

definition deposit_turn ::
    "int \<Rightarrow> nat \<Rightarrow> nat \<Rightarrow> settling \<Rightarrow> BalanceCheckpoint \<Rightarrow> BalanceCheckpoint" where
  "deposit_turn now left i r ck =
     (case ck_deposit_from_ms ck of
        None \<Rightarrow> ask_latest i r ck
      | Some start \<Rightarrow>
          if left = 0 \<or> \<not> deposit_unfinished now (registration_of r) ck then ask_latest i r ck
          else put_run i (r\<lparr>rn_place := At_deposit (left - 1) start (min (start + WEEK_MS) now) now\<rparr>) ck)"

text \<open>\<open>_walk_deposit_locked\<close>, its lock taken.\<close>

definition deposit_locked ::
    "int \<Rightarrow> nat \<Rightarrow> settling \<Rightarrow> BalanceCheckpoint \<Rightarrow> BalanceCheckpoint" where
  "deposit_locked now i r ck =
     (let ck = ck\<lparr>ck_lock := Some i\<rparr>
      in if \<not> deposit_unfinished now (registration_of r) ck then ask_latest i r ck
         else deposit_turn now (rn_limit r) i r
           (if ck_deposit_from_ms ck = None
            then ck\<lparr>ck_deposit_from_ms := registration_of r\<rparr> else ck))"

text \<open>A free lock is taken at once unless others wait for it; \<open>Lock_free\<close> says which of those is next.\<close>

definition take_lock :: "int \<Rightarrow> nat \<Rightarrow> settling \<Rightarrow> BalanceCheckpoint \<Rightarrow> BalanceCheckpoint" where
  "take_lock now i r ck =
     (if ck_lock ck = None \<and> list_all (\<lambda>(_, other). rn_place other \<noteq> At_lock) (ck_runs ck)
      then deposit_locked now i r ck
      else put_run i (r\<lparr>rn_place := At_lock\<rparr>) ck)"

text \<open>The head of the loop of \<open>_walk_back\<close>; the deposit walk follows it.\<close>

definition walk_on :: "int \<Rightarrow> nat \<Rightarrow> settling \<Rightarrow> BalanceCheckpoint \<Rightarrow> BalanceCheckpoint" where
  "walk_on now i r ck =
     (let walk = rn_walk r
      in if \<not> wk_settled walk \<and> wk_failure walk = None \<and> wk_windows walk < rn_limit r
         then put_run i (r\<lparr>rn_place := At_deals Walking_back
                (max 0 (wk_covered_from_ms walk - WEEK_MS)) (wk_covered_from_ms walk)\<rparr>) ck
         else take_lock now i r ck)"

text \<open>\<open>_top_up\<close>: one window after the other, then the value.\<close>

definition top_up_next ::
    "bool \<Rightarrow> int \<Rightarrow> nat \<Rightarrow> settling \<Rightarrow> ProtoOATrader \<Rightarrow> int \<Rightarrow> (int \<times> int) list \<Rightarrow>
     BalanceCheckpoint \<Rightarrow> BalanceCheckpoint" where
  "top_up_next stored now i r latest upper windows ck =
     (case windows of
        [] \<Rightarrow> finish stored now i (r\<lparr>rn_walk := (rn_walk r)\<lparr>wk_upper_ms := upper\<rparr>\<rparr>) latest ck
      | (start, end1) # others \<Rightarrow>
          put_run i (r\<lparr>rn_place := At_deals (Topping_up latest upper others) start end1\<rparr>) ck)"

definition versions_seen :: "Walk \<Rightarrow> int" where
  "versions_seen walk = fold max (map (ch_version \<circ> snd) (wk_changes walk)) (-1)"

definition top_up ::
    "bool \<Rightarrow> int \<Rightarrow> nat \<Rightarrow> settling \<Rightarrow> ProtoOATrader \<Rightarrow> BalanceCheckpoint \<Rightarrow> BalanceCheckpoint" where
  "top_up stored now i r latest ck =
     (let walk = rn_walk r
      in if \<not> wk_settled walk \<or> wk_failure walk \<noteq> None \<or>
            (case tr_balanceVersion latest of None \<Rightarrow> True | Some v \<Rightarrow> v \<le> versions_seen walk)
         then finish stored now i r latest ck
         else top_up_next stored now i r latest now (weekly_windows (wk_upper_ms walk) now) ck)"

text \<open>A window is read: the walk or the top-up goes on.\<close>

definition after_window ::
    "bool \<Rightarrow> int \<Rightarrow> nat \<Rightarrow> settling \<Rightarrow> reading \<Rightarrow> int \<Rightarrow> BalanceCheckpoint \<Rightarrow> BalanceCheckpoint" where
  "after_window stored now i r reading start ck =
     (case reading of
        Walking_back \<Rightarrow>
          (case rn_trader r of
             None \<Rightarrow> ck
           | Some trader \<Rightarrow>
               walk_on now i (r\<lparr>rn_walk := window_read start trader (rn_walk r)\<rparr>) ck)
      | Topping_up latest upper others \<Rightarrow> top_up_next stored now i r latest upper others ck)"

definition deals_read ::
    "bool \<Rightarrow> int \<Rightarrow> nat \<Rightarrow> settling \<Rightarrow> reading \<Rightarrow> int \<Rightarrow> int \<Rightarrow> ProtoOADeal list \<times> bool \<Rightarrow>
     BalanceCheckpoint \<Rightarrow> BalanceCheckpoint" where
  "deals_read stored now i r reading start end1 found ck =
     (case found of (deals, ended) \<Rightarrow>
        if \<not> ended
        then after_window stored now i
               (r\<lparr>rn_walk := (rn_walk r)\<lparr>wk_failure := Some INCOMPLETE\<rparr>\<rparr>) reading start ck
        else put_run i (r\<lparr>rn_place := At_flows reading start end1 deals\<rparr>) ck)"

definition flows_read ::
    "bool \<Rightarrow> int \<Rightarrow> nat \<Rightarrow> settling \<Rightarrow> reading \<Rightarrow> int \<Rightarrow> ProtoOADeal list \<Rightarrow>
     ProtoOADepositWithdraw list \<Rightarrow> BalanceCheckpoint \<Rightarrow> BalanceCheckpoint" where
  "flows_read stored now i r reading start deals operations ck =
     after_window stored now i (r\<lparr>rn_walk := add_window deals operations (rn_walk r)\<rparr>) reading
       start ck"

fun changes_of_flows :: "ProtoOADepositWithdraw list \<Rightarrow> BalanceChange list option" where
  "changes_of_flows [] = Some []"
| "changes_of_flows (operation # operations) =
     (case (change_of_cash_flow operation, changes_of_flows operations) of
        (Inr change, Some changes) \<Rightarrow> Some (change # changes)
      | _ \<Rightarrow> None)"

definition deposit_read ::
    "int \<Rightarrow> nat \<Rightarrow> settling \<Rightarrow> nat \<Rightarrow> int \<Rightarrow> int \<Rightarrow> ProtoOADepositWithdraw list \<Rightarrow>
     BalanceCheckpoint \<Rightarrow> BalanceCheckpoint" where
  "deposit_read now i r left end1 asked_at operations ck =
     (let ck = ck\<lparr>ck_deposit_from_ms := Some end1\<rparr>
      in case changes_of_flows operations of
           None \<Rightarrow> ask_latest i r (ck\<lparr>ck_deposit_windows := MAX_WINDOWS\<rparr>)
         | Some changes \<Rightarrow>
             (let ck = (if end1 < asked_at
                        then ck\<lparr>ck_deposit_windows := Suc (ck_deposit_windows ck)\<rparr> else ck)
              in case first_deposit changes of
                   Some found \<Rightarrow> ask_latest i r (ck\<lparr>ck_deposit := Some found\<rparr>)
                 | None \<Rightarrow>
                     if end1 = asked_at then ask_latest i r (ck\<lparr>ck_deposit_caught_up := True\<rparr>)
                     else deposit_turn now left i r ck))"

subsection \<open>The callers\<close>

definition new_walk :: "int \<Rightarrow> int \<Rightarrow> Walk" where
  "new_walk t_ms now = \<lparr>wk_t_ms = t_ms, wk_upper_ms = now, wk_covered_from_ms = now,
     wk_windows = 0, wk_changes = [], wk_settled = False, wk_failure = None\<rparr>"

text \<open>\<open>_run\<close> as run \<open>i\<close>, up to its first wait.\<close>

definition begin_run ::
    "checkpoint_config \<Rightarrow> int \<Rightarrow> nat \<Rightarrow> ProtoOATrader option \<Rightarrow> bool \<Rightarrow> bool \<Rightarrow>
     BalanceCheckpoint \<Rightarrow> BalanceCheckpoint" where
  "begin_run cfg now i trader bounded background ck =
     (let ck = ck\<lparr>ck_deposit_caught_up := False\<rparr>
      in case cc_hour cfg of
           None \<Rightarrow> end_run i ck
         | Some hour \<Rightarrow>
             (case checkpoint_at now hour (cc_zone cfg) of
                Inl e \<Rightarrow> end_run i ck
              | Inr t \<Rightarrow>
                  (let r = \<lparr>rn_walk = new_walk (t * 1000) now, rn_trader = trader,
                            rn_limit = (if bounded then START_WINDOWS else MAX_WINDOWS),
                            rn_background = background, rn_place = At_trader\<rparr>
                   in if trader = None then put_run i r ck else walk_on now i r ck)))"

definition refresh ::
    "checkpoint_config \<Rightarrow> int \<Rightarrow> bool \<Rightarrow> ProtoOATrader \<Rightarrow> bool \<Rightarrow> BalanceCheckpoint \<Rightarrow>
     BalanceCheckpoint" where
  "refresh cfg now stored trader bounded ck =
     (let ck = cancel_task ck
      in if cc_hour cfg = None then snd (put_value stored OFF ck)
         else begin_run cfg now (ck_next_run ck) (Some trader) bounded False
                (ck\<lparr>ck_next_run := Suc (ck_next_run ck)\<rparr>))"

text \<open>\<open>_arm\<close>; whether it armed the timer, which it does not where it raises.\<close>

definition arm :: "checkpoint_config \<Rightarrow> int \<Rightarrow> BalanceCheckpoint \<Rightarrow> bool \<times> BalanceCheckpoint" where
  "arm cfg after_ms ck =
     (let ck = ck\<lparr>ck_timer := None\<rparr>
      in case cc_hour cfg of
           None \<Rightarrow> (False, ck)
         | Some hour \<Rightarrow>
             (case next_checkpoint after_ms hour (cc_zone cfg) of
                Inl e \<Rightarrow> (False, ck)
              | Inr t \<Rightarrow> (True, ck\<lparr>ck_timer := Some (t * 1000)\<rparr>)))"

definition ck_schedule :: "checkpoint_config \<Rightarrow> int \<Rightarrow> BalanceCheckpoint \<Rightarrow> BalanceCheckpoint" where
  "ck_schedule cfg now ck =
     (if cc_hour cfg \<noteq> None \<and> \<not> ck_stopped ck then snd (arm cfg (now - GRACE_MS) ck) else ck)"

definition idle_run :: settling where
  "idle_run = \<lparr>rn_walk = new_walk 0 0, rn_trader = None, rn_limit = MAX_WINDOWS,
     rn_background = True, rn_place = At_begin_run\<rparr>"

definition fire :: "checkpoint_config \<Rightarrow> int \<Rightarrow> BalanceCheckpoint \<Rightarrow> BalanceCheckpoint" where
  "fire cfg now ck =
     (case ck_timer ck of
        None \<Rightarrow> ck
      | Some t_ms \<Rightarrow>
          (case arm cfg (max t_ms (now - GRACE_MS)) ck of (armed, ck) \<Rightarrow>
             if armed then start_task idle_run ck else ck))"

definition ck_stop :: "BalanceCheckpoint \<Rightarrow> BalanceCheckpoint" where
  "ck_stop ck = cancel_task (ck\<lparr>ck_stopped := True, ck_timer := None\<rparr>)"

subsection \<open>Steps\<close>

datatype ck_event =
    Refresh int bool ProtoOATrader bool
  | Schedule int
  | Fire int
  | Stop
  | Cancel nat
  | Begin int nat
  | Lock_free int nat
  | Reply int bool nat answer

definition answered_run ::
    "bool \<Rightarrow> int \<Rightarrow> nat \<Rightarrow> settling \<Rightarrow> answer \<Rightarrow> BalanceCheckpoint \<Rightarrow> BalanceCheckpoint" where
  "answered_run stored now i r answer ck =
     (case (rn_place r, answer) of
        (At_trader, Trader_answer (Inr trader)) \<Rightarrow> walk_on now i (r\<lparr>rn_trader := Some trader\<rparr>) ck
      | (At_trader, Trader_answer (Inl e)) \<Rightarrow> run_fails stored now i r e ck
      | (At_deals reading start end1, Deals_answer (Inr found)) \<Rightarrow>
          deals_read stored now i r reading start end1 found ck
      | (At_deals reading start end1, Deals_answer (Inl e)) \<Rightarrow> run_fails stored now i r e ck
      | (At_flows reading start end1 deals, Flows_answer (Inr operations)) \<Rightarrow>
          flows_read stored now i r reading start deals operations ck
      | (At_flows reading start end1 deals, Flows_answer (Inl e)) \<Rightarrow> run_fails stored now i r e ck
      | (At_deposit left start end1 asked_at, Flows_answer (Inr operations)) \<Rightarrow>
          deposit_read now i r left end1 asked_at operations ck
      | (At_deposit left start end1 asked_at, Flows_answer (Inl e)) \<Rightarrow> run_fails stored now i r e ck
      | (At_latest, Trader_answer (Inr second_read)) \<Rightarrow>
          (case rn_trader r of
             None \<Rightarrow> ck
           | Some trader \<Rightarrow> top_up stored now i r (newer trader second_read) ck)
      | (At_latest, Trader_answer (Inl e)) \<Rightarrow> run_fails stored now i r e ck
      | _ \<Rightarrow> ck)"

definition ck_step :: "checkpoint_config \<Rightarrow> ck_event \<Rightarrow> BalanceCheckpoint \<Rightarrow> BalanceCheckpoint" where
  "ck_step cfg ev ck =
     (case ev of
        Refresh now stored trader bounded \<Rightarrow> refresh cfg now stored trader bounded ck
      | Schedule now \<Rightarrow> ck_schedule cfg now ck
      | Fire now \<Rightarrow> fire cfg now ck
      | Stop \<Rightarrow> ck_stop ck
      | Cancel i \<Rightarrow> end_run i ck
      | Begin now i \<Rightarrow>
          (case map_of (ck_runs ck) i of
             None \<Rightarrow> ck
           | Some r \<Rightarrow>
               if rn_place r = At_begin then walk_on now i r ck
               else if rn_place r = At_begin_run then begin_run cfg now i None False True ck
               else ck)
      | Lock_free now i \<Rightarrow>
          (case map_of (ck_runs ck) i of
             None \<Rightarrow> ck
           | Some r \<Rightarrow>
               if rn_place r = At_lock \<and> ck_lock ck = None then deposit_locked now i r ck else ck)
      | Reply now stored i answer \<Rightarrow>
          (case map_of (ck_runs ck) i of
             None \<Rightarrow> ck
           | Some r \<Rightarrow> answered_run stored now i r answer ck))"

definition ck_run :: "checkpoint_config \<Rightarrow> ck_event list \<Rightarrow> BalanceCheckpoint \<Rightarrow> BalanceCheckpoint" where
  "ck_run cfg = fold (ck_step cfg)"

end
