(* ===== verification/Checkpoint_Safety.thy ===== *)
theory Checkpoint_Safety
  imports Balance_Checkpoint
begin

text \<open>
  What every run of \<open>Balance_Checkpoint\<close> keeps. The account is a parameter of the statements, the
  record \<open>account_world\<close>: its whole ledger, the change each deal and each cash flow made, and the
  time it was registered; \<open>honest\<close> says what an answer tells of it. The invariant \<open>ck_ok\<close> takes the
  account, or None where nothing is supposed of the answers, and the values written at a stop, or
  None where nothing was stopped, so that one pass over the operations proves every part of it.
  \<open>ok_but\<close> is the invariant of all but the run an operation is in the middle of.
\<close>

record account_world =
  w_ledger :: "BalanceChange list"
  w_deals :: "int \<Rightarrow> BalanceChange option"
  w_flows :: "int \<Rightarrow> BalanceChange option"
  w_registration :: "int option"

definition world_ok :: "account_world \<Rightarrow> bool" where
  "world_ok w \<longleftrightarrow> ledger (w_ledger w) \<and> set (w_ledger w) = ran (w_deals w) \<union> ran (w_flows w) \<and>
     (\<forall>x\<in>set (w_ledger w). \<forall>t. w_registration w = Some t \<longrightarrow> t \<le> ch_ts_ms x)"

text \<open>
  An item of a list tells the change it made, unless a field is missing, and a cash flow is of the
  window asked for; a list has every item of its window that was made before \<open>bound\<close>, where one is given.
\<close>

definition lists_deals ::
    "account_world \<Rightarrow> int \<Rightarrow> int \<Rightarrow> int \<Rightarrow> ProtoOADeal list \<Rightarrow> bool" where
  "lists_deals w start end1 bound deals \<longleftrightarrow>
     (\<forall>d\<in>set deals. \<forall>x. change_of_deal d = Inr (Some x) \<longrightarrow> w_deals w (dealId d) = Some x) \<and>
     (\<forall>k x. w_deals w k = Some x \<and> start \<le> ch_ts_ms x \<and> ch_ts_ms x \<le> end1 \<and> ch_ts_ms x < bound \<longrightarrow>
        (\<exists>d\<in>set deals. dealId d = k \<and> change_of_deal d \<noteq> Inr None))"

definition lists_flows ::
    "account_world \<Rightarrow> int \<Rightarrow> int \<Rightarrow> int option \<Rightarrow> ProtoOADepositWithdraw list \<Rightarrow> bool" where
  "lists_flows w start end1 bound operations \<longleftrightarrow>
     (\<forall>d\<in>set operations. \<forall>x. change_of_cash_flow d = Inr x \<longrightarrow>
        w_flows w (balanceHistoryId d) = Some x \<and> start \<le> ch_ts_ms x \<and> ch_ts_ms x \<le> end1) \<and>
     (\<forall>k x. w_flows w k = Some x \<and> start \<le> ch_ts_ms x \<and> ch_ts_ms x \<le> end1 \<and>
        (\<forall>t. bound = Some t \<longrightarrow> ch_ts_ms x < t) \<longrightarrow> (\<exists>d\<in>set operations. balanceHistoryId d = k))"

text \<open>
  A trader's version includes every change made before \<open>t_ms\<close>; a trader that gave its version gives
  it again.
\<close>

definition up_to_date :: "account_world \<Rightarrow> int \<Rightarrow> ProtoOATrader \<Rightarrow> bool" where
  "up_to_date w t_ms trader \<longleftrightarrow>
     (\<forall>x\<in>set (w_ledger w). \<forall>v. tr_balanceVersion trader = Some v \<and> v < ch_version x \<longrightarrow>
        t_ms \<le> ch_ts_ms x)"

definition honest_answer :: "account_world \<Rightarrow> settling \<Rightarrow> answer \<Rightarrow> bool" where
  "honest_answer w r answer \<longleftrightarrow>
     (case (rn_place r, answer) of
        (At_trader, Trader_answer (Inr trader)) \<Rightarrow> tr_registrationTimestamp trader = w_registration w
      | (At_deals reading start end1, Deals_answer (Inr (deals, ended))) \<Rightarrow>
          ended \<longrightarrow> lists_deals w start end1 (wk_t_ms (rn_walk r)) deals
      | (At_flows reading start end1 deals, Flows_answer (Inr operations)) \<Rightarrow>
          lists_flows w start end1 (Some (wk_t_ms (rn_walk r))) operations
      | (At_deposit left start end1 asked_at, Flows_answer (Inr operations)) \<Rightarrow>
          lists_flows w start end1 None operations
      | (At_latest, Trader_answer (Inr trader)) \<Rightarrow>
          tr_registrationTimestamp trader = w_registration w \<and>
          up_to_date w (wk_t_ms (rn_walk r)) trader \<and>
          (tr_balanceVersion trader = None \<longrightarrow>
             (\<forall>first_read. rn_trader r = Some first_read \<longrightarrow> tr_balanceVersion first_read = None))
      | _ \<Rightarrow> True)"

definition honest :: "account_world \<Rightarrow> ck_event \<Rightarrow> BalanceCheckpoint \<Rightarrow> bool" where
  "honest w ev ck \<longleftrightarrow>
     (case ev of
        Refresh now stored trader bounded \<Rightarrow> tr_registrationTimestamp trader = w_registration w
      | Reply now stored i answer \<Rightarrow>
          (case map_of (ck_runs ck) i of None \<Rightarrow> True | Some r \<Rightarrow> honest_answer w r answer)
      | _ \<Rightarrow> True)"

fun honest_run ::
    "account_world \<Rightarrow> checkpoint_config \<Rightarrow> ck_event list \<Rightarrow> BalanceCheckpoint \<Rightarrow> bool" where
  "honest_run w cfg [] ck \<longleftrightarrow> True"
| "honest_run w cfg (ev # evs) ck \<longleftrightarrow> honest w ev ck \<and> honest_run w cfg evs (ck_step cfg ev ck)"

subsection \<open>The walk back\<close>

definition told_by :: "account_world \<Rightarrow> (bool \<times> int) \<Rightarrow> BalanceChange \<Rightarrow> bool" where
  "told_by w k x \<longleftrightarrow> (if fst k then w_flows w (snd k) = Some x else w_deals w (snd k) = Some x)"

definition true_changes :: "account_world \<Rightarrow> Walk \<Rightarrow> bool" where
  "true_changes w walk \<longleftrightarrow> distinct (map fst (wk_changes walk)) \<and>
     (\<forall>k x. map_of (wk_changes walk) k = Some x \<longrightarrow> told_by w k x)"

definition has_key :: "bool \<times> int \<Rightarrow> Walk \<Rightarrow> bool" where
  "has_key k walk \<longleftrightarrow> map_of (wk_changes walk) k \<noteq> None"

definition has_all :: "account_world \<Rightarrow> Walk \<Rightarrow> bool" where
  "has_all w walk \<longleftrightarrow>
     (\<forall>k x. told_by w k x \<and> wk_covered_from_ms walk \<le> ch_ts_ms x \<and> ch_ts_ms x < wk_t_ms walk \<longrightarrow>
        has_key k walk)"

definition covered :: "account_world \<Rightarrow> Walk \<Rightarrow> bool" where
  "covered w walk \<longleftrightarrow> true_changes w walk \<and>
     (wk_failure walk = None \<longrightarrow> has_all w walk)"

text \<open>What else a walk holds plays no part in the changes it has.\<close>

definition grows :: "Walk \<Rightarrow> Walk \<Rightarrow> bool" where
  "grows walk walk' \<longleftrightarrow> (\<forall>k. has_key k walk \<longrightarrow> has_key k walk')"

lemma grows_trans: "grows walk walk' \<Longrightarrow> grows walk' walk'' \<Longrightarrow> grows walk walk''"
  unfolding grows_def by blast

lemma grows_same: "wk_changes walk' = wk_changes walk \<Longrightarrow> grows walk walk'"
  by (simp add: grows_def has_key_def)

lemma grows_update: "grows walk (walk\<lparr>wk_changes := AList.update k x (wk_changes walk)\<rparr>)"
  by (simp add: grows_def has_key_def dict_simps)

lemma true_changes_same: "wk_changes walk' = wk_changes walk \<Longrightarrow> true_changes w walk' = true_changes w walk"
  by (simp add: true_changes_def)

lemma has_all_same:
  "wk_changes walk' = wk_changes walk \<Longrightarrow> wk_t_ms walk' = wk_t_ms walk \<Longrightarrow>
   wk_covered_from_ms walk' = wk_covered_from_ms walk \<Longrightarrow> has_all w walk' = has_all w walk"
  by (simp add: has_all_def has_key_def)

lemma has_all_grows:
  "has_all w walk \<Longrightarrow> grows walk walk' \<Longrightarrow> wk_t_ms walk' = wk_t_ms walk \<Longrightarrow>
   wk_covered_from_ms walk' = wk_covered_from_ms walk \<Longrightarrow> has_all w walk'"
  unfolding has_all_def grows_def by (simp del: split_paired_All)
lemma true_update:
  "true_changes w walk \<Longrightarrow> told_by w k x \<Longrightarrow>
   true_changes w (walk\<lparr>wk_changes := AList.update k x (wk_changes walk)\<rparr>)"
  by (simp add: true_changes_def dict_simps)

lemma add_deals_keeps:
  "add_deals deals walk = (f, walk') \<Longrightarrow> (\<exists>cs. walk' = walk\<lparr>wk_changes := cs\<rparr>) \<and> grows walk walk'"
proof (induction deals walk rule: add_deals.induct)
  case (1 walk)
  then show ?case by (auto intro: exI [of _ "wk_changes walk"] grows_same)
next
  case (2 deal deals walk)
  show ?case
  proof (cases "change_of_deal deal")
    case (Inl field)
    with 2(3) show ?thesis by (auto intro: exI [of _ "wk_changes walk"] grows_same)
  next
    case (Inr c)
    with 2 show ?thesis by (cases c) (auto intro: grows_trans [OF grows_update])
  qed
qed

lemma add_deals_true:
  assumes "add_deals deals walk = (f, walk')" and "true_changes w walk"
    and "\<forall>d\<in>set deals. \<forall>x. change_of_deal d = Inr (Some x) \<longrightarrow> w_deals w (dealId d) = Some x"
  shows "true_changes w walk'"
  using assms
proof (induction deals walk rule: add_deals.induct)
  case (2 deal deals walk)
  have "true_changes w (walk\<lparr>wk_changes := AList.update (False, dealId deal) x (wk_changes walk)\<rparr>)"
    if "change_of_deal deal = Inr (Some x)" for x
    using 2(4,5) that by (intro true_update) (auto simp: told_by_def)
  with 2 show ?case by (auto split: sum.splits option.splits)
qed simp

lemma add_deals_has:
  assumes "add_deals deals walk = (None, walk')" and "d \<in> set deals" and "change_of_deal d \<noteq> Inr None"
  shows "has_key (False, dealId d) walk'"
  using assms
proof (induction deals walk rule: add_deals.induct)
  case (2 deal deals walk)
  show ?case
  proof (cases "d \<in> set deals")
    case True
    with 2 show ?thesis by (auto split: sum.splits option.splits)
  next
    case False
    with 2(3,4,5) obtain x where x: "change_of_deal deal = Inr (Some x)" and d: "d = deal"
      by (auto split: sum.splits option.splits)
    from 2(3) x have "add_deals deals (walk\<lparr>wk_changes := AList.update (False, dealId deal) x (wk_changes walk)\<rparr>)
        = (None, walk')" by simp
    from add_deals_keeps [OF this] d show ?thesis by (simp add: grows_def has_key_def dict_simps)
  qed
qed simp

lemma add_flows_keeps:
  "add_flows operations walk = (f, walk') \<Longrightarrow>
   (\<exists>cs. walk' = walk\<lparr>wk_changes := cs\<rparr>) \<and> grows walk walk'"
proof (induction operations walk rule: add_flows.induct)
  case (1 walk)
  then show ?case by (auto intro: exI [of _ "wk_changes walk"] grows_same)
next
  case (2 operation operations walk)
  show ?case
  proof (cases "change_of_cash_flow operation")
    case (Inl field)
    with 2(2) show ?thesis by (auto intro: exI [of _ "wk_changes walk"] grows_same)
  next
    case (Inr change)
    with 2 show ?thesis by (auto intro: grows_trans [OF grows_update])
  qed
qed

lemma add_flows_true:
  assumes "add_flows operations walk = (f, walk')" and "true_changes w walk"
    and "\<forall>d\<in>set operations. \<forall>x. change_of_cash_flow d = Inr x \<longrightarrow> w_flows w (balanceHistoryId d) = Some x"
  shows "true_changes w walk'"
  using assms
proof (induction operations walk rule: add_flows.induct)
  case (2 operation operations walk)
  have "true_changes w
      (walk\<lparr>wk_changes := AList.update (True, balanceHistoryId operation) x (wk_changes walk)\<rparr>)"
    if "change_of_cash_flow operation = Inr x" for x
    using 2(3,4) that by (intro true_update) (auto simp: told_by_def)
  with 2 show ?case by (auto split: sum.splits)
qed simp

lemma add_flows_has:
  assumes "add_flows operations walk = (None, walk')" and "d \<in> set operations"
  shows "has_key (True, balanceHistoryId d) walk'"
  using assms
proof (induction operations walk rule: add_flows.induct)
  case (2 operation operations walk)
  show ?case
  proof (cases "d \<in> set operations")
    case True
    with 2 show ?thesis by (auto split: sum.splits)
  next
    case False
    with 2(2,3) obtain x where x: "change_of_cash_flow operation = Inr x" and d: "d = operation"
      by (auto split: sum.splits)
    from 2(2) x have "add_flows operations
        (walk\<lparr>wk_changes := AList.update (True, balanceHistoryId operation) x (wk_changes walk)\<rparr>)
        = (None, walk')" by simp
    from add_flows_keeps [OF this] d show ?thesis by (simp add: grows_def has_key_def dict_simps)
  qed
qed simp

lemma missing_frame:
  "\<exists>f. missing field walk = walk\<lparr>wk_failure := f\<rparr> \<and> (f = None \<longrightarrow> wk_failure walk = None)"
  by (cases field; cases "the field") (auto simp: missing_def intro: exI [of _ "wk_failure walk"])

lemma add_window_frame:
  "(\<exists>cs f. add_window deals operations walk = walk\<lparr>wk_changes := cs, wk_failure := f\<rparr> \<and>
      (f = None \<longrightarrow> wk_failure walk = None)) \<and> grows walk (add_window deals operations walk)"
proof -
  obtain f1 walk1 where a: "add_deals deals walk = (f1, walk1)" by force
  obtain f2 walk2 where b: "add_flows operations walk1 = (f2, walk2)" by force
  obtain field walk' cs where e: "add_window deals operations walk = missing field walk'"
    and c: "walk' = walk\<lparr>wk_changes := cs\<rparr>" "grows walk walk'"
  proof (cases f1)
    case None
    then have "add_window deals operations walk = missing f2 walk2" by (simp add: add_window_def a b)
    moreover have "grows walk walk2" using add_deals_keeps [OF a] add_flows_keeps [OF b] grows_trans by blast
    moreover obtain cs where "walk2 = walk\<lparr>wk_changes := cs\<rparr>"
      using add_deals_keeps [OF a] add_flows_keeps [OF b] by auto
    ultimately show ?thesis using that by blast
  next
    case (Some field)
    then have "add_window deals operations walk = missing f1 walk1" by (simp add: add_window_def a)
    with add_deals_keeps [OF a] that show ?thesis by blast
  qed
  obtain f where f: "missing field walk' = walk'\<lparr>wk_failure := f\<rparr>" "f = None \<longrightarrow> wk_failure walk' = None"
    using missing_frame by blast
  with c have "grows walk (missing field walk')" by (intro grows_trans [OF c(2)] grows_same) simp
  moreover have "missing field walk' = walk\<lparr>wk_changes := cs, wk_failure := f\<rparr>" "f = None \<longrightarrow> wk_failure walk = None"
    using f c by simp_all
  ultimately show ?thesis unfolding e by blast
qed

lemma true_missing [simp]: "true_changes w (missing field walk) = true_changes w walk"
  by (auto simp: missing_def true_changes_def split: option.splits MissingField.splits)

lemma add_window_true:
  assumes "true_changes w walk" and "lists_deals w s e t deals" and "lists_flows w s e b operations"
  shows "true_changes w (add_window deals operations walk)"
proof -
  obtain f1 walk1 where a: "add_deals deals walk = (f1, walk1)" by force
  obtain f2 walk2 where b: "add_flows operations walk1 = (f2, walk2)" by force
  have t1: "true_changes w walk1" by (rule add_deals_true [OF a assms(1)]) (use assms(2) in \<open>simp add: lists_deals_def\<close>)
  have "true_changes w walk2" by (rule add_flows_true [OF b t1]) (use assms(3) in \<open>simp add: lists_flows_def\<close>)
  with t1 show ?thesis by (auto simp: add_window_def a b split: option.splits)
qed

lemma add_window_covers:
  assumes "wk_failure (add_window deals operations walk) = None"
    and "lists_deals w s e t deals" and "lists_flows w s e (Some t) operations"
    and "told_by w k x" and "s \<le> ch_ts_ms x" and "ch_ts_ms x \<le> e" and "ch_ts_ms x < t"
  shows "has_key k (add_window deals operations walk)"
proof -
  obtain f1 walk1 where a: "add_deals deals walk = (f1, walk1)" by force
  obtain f2 walk2 where b: "add_flows operations walk1 = (f2, walk2)" by force
  have f: "f1 = None" "f2 = None"
    using assms(1) by (auto simp: add_window_def a b missing_def split: option.splits MissingField.splits)
  then have e: "add_window deals operations walk = walk2" by (simp add: add_window_def a b missing_def)
  obtain kind id where k: "k = (kind, id)" by force
  show ?thesis
  proof (cases kind)
    case True
    with assms(4) k have "w_flows w id = Some x" by (simp add: told_by_def)
    with assms(3,5-7) obtain d where "d \<in> set operations" "balanceHistoryId d = id"
      unfolding lists_flows_def by blast
    with add_flows_has [of operations walk1 walk2 d] b f True k e show ?thesis by simp
  next
    case False
    with assms(4) k have "w_deals w id = Some x" by (simp add: told_by_def)
    with assms(2,5-7) obtain d where "d \<in> set deals" "dealId d = id" "change_of_deal d \<noteq> Inr None"
      unfolding lists_deals_def by blast
    with add_deals_has [of deals walk walk1 d] a f have "has_key (False, id) walk1" by simp
    with add_flows_keeps [OF b] False k e show ?thesis by (simp add: grows_def)
  qed
qed

lemma covered_add_window:
  assumes "covered w walk" and "lists_deals w s e t deals" and "lists_flows w s e b operations"
  shows "covered w (add_window deals operations walk)"
proof -
  obtain cs f where c: "add_window deals operations walk = walk\<lparr>wk_changes := cs, wk_failure := f\<rparr>"
    "f = None \<longrightarrow> wk_failure walk = None" and g: "grows walk (add_window deals operations walk)"
    using add_window_frame by blast
  have t: "true_changes w (add_window deals operations walk)"
    using assms by (intro add_window_true) (auto simp: covered_def)
  have "has_all w (add_window deals operations walk)" if "f = None"
    by (rule has_all_grows [OF _ g]) (use assms(1) c that in \<open>simp_all add: covered_def\<close>)
  with t c show ?thesis by (simp add: covered_def)
qed

lemma window_read_frame [simp]:
  "wk_t_ms (window_read s trader walk) = wk_t_ms walk"
  "wk_windows (window_read s trader walk) = Suc (wk_windows walk)"
  "wk_failure (window_read s trader walk) = wk_failure walk"
  "wk_covered_from_ms (window_read s trader walk) = s"
  "wk_changes (window_read s trader walk) = wk_changes walk"
  by (simp_all add: window_read_def Let_def)

lemma add_window_fields [simp]:
  "wk_t_ms (add_window deals operations walk) = wk_t_ms walk"
  "wk_windows (add_window deals operations walk) = wk_windows walk"
  "wk_covered_from_ms (add_window deals operations walk) = wk_covered_from_ms walk"
  "wk_settled (add_window deals operations walk) = wk_settled walk"
  using add_window_frame [of deals operations walk] by auto

text \<open>A window that ends where the walk has come to carries it on to the window's start.\<close>

lemma covered_window_read:
  assumes "covered w walk" and "lists_deals w s e (wk_t_ms walk) deals"
    and "lists_flows w s e (Some (wk_t_ms walk)) operations" and "e = wk_covered_from_ms walk"
  shows "covered w (window_read s trader (add_window deals operations walk))"
proof -
  let ?a = "add_window deals operations walk"
  have c: "covered w ?a" using assms(1-3) by (rule covered_add_window)
  have has: "has_key k ?a"
    if "wk_failure ?a = None" "told_by w k x" "s \<le> ch_ts_ms x" "ch_ts_ms x < wk_t_ms walk" for k x
  proof (cases "ch_ts_ms x \<le> e")
    case True
    from add_window_covers [OF that(1) assms(2,3) that(2,3) True that(4)] show ?thesis .
  next
    case False
    from c that(1) have "has_all w ?a" by (simp add: covered_def)
    with that False assms(4) show ?thesis
      unfolding has_all_def by (simp del: split_paired_All) (meson less_imp_le not_le)
  qed
  then have "has_all w (window_read s trader ?a)" if "wk_failure ?a = None"
    unfolding has_all_def
  proof (intro allI impI)
    fix k x
    assume "told_by w k x \<and> wk_covered_from_ms (window_read s trader ?a) \<le> ch_ts_ms x \<and>
      ch_ts_ms x < wk_t_ms (window_read s trader ?a)"
    then have k: "told_by w k x" "s \<le> ch_ts_ms x" "ch_ts_ms x < wk_t_ms walk" by simp_all
    have "has_key k ?a" by (rule has [OF that k])
    then show "has_key k (window_read s trader ?a)" by (simp add: has_key_def)
  qed
  with c true_changes_same [of "window_read s trader ?a" ?a] show ?thesis by (simp add: covered_def)
qed

lemma covered_failed:
  "covered w walk \<Longrightarrow> covered w (walk\<lparr>wk_failure := Some f\<rparr>)"
  "covered w walk \<Longrightarrow> covered w (walk\<lparr>wk_upper_ms := u\<rparr>)"
  "covered w walk \<Longrightarrow> covered w (window_read s trader (walk\<lparr>wk_failure := Some f\<rparr>))"
  using true_changes_same [of "walk\<lparr>wk_failure := Some f\<rparr>" walk] true_changes_same [of "walk\<lparr>wk_upper_ms := u\<rparr>" walk]
    true_changes_same [of "window_read s trader (walk\<lparr>wk_failure := Some f\<rparr>)" walk]
    has_all_same [of "walk\<lparr>wk_upper_ms := u\<rparr>" walk]
  by (simp_all add: covered_def)

lemma covered_new: "t_ms \<le> now \<Longrightarrow> covered w (new_walk t_ms now)"
  by (auto simp: covered_def true_changes_def has_all_def new_walk_def)

subsection \<open>The value\<close>

lemma chain_reasons: "chain_on b v after tb tv \<noteq> Some MIXED_SCALES"
  by (induction b v after tb tv rule: chain_on.induct) auto

lemma balance_at_fields:
  assumes "balance_at t_ms changes covered_from_ms registration_ms tb tv digits cap = Some v"
  shows "cv_checkpoint_ms v = Some t_ms" "cv_reason v = Some MIXED_SCALES \<longrightarrow> cv_first_deposit v = None"
proof -
  have r: "cv_checkpoint_ms (checkpoint_result t_ms d digits b reason) = Some t_ms"
    "cv_reason (checkpoint_result t_ms d digits b reason) = reason"
    "cv_first_deposit (checkpoint_result t_ms None digits b reason) = None" for d b reason
    by (auto simp: checkpoint_result_def split: option.splits)
  from assms show "cv_checkpoint_ms v = Some t_ms"
    by (auto simp: balance_at_def Let_def r split: if_splits option.splits)
  from assms chain_reasons show "cv_reason v = Some MIXED_SCALES \<longrightarrow> cv_first_deposit v = None"
    by (auto simp: balance_at_def Let_def r chain_def split: if_splits option.splits)
qed

lemma value_of_fields:
  assumes "value_of walk trader = Some v"
  shows "cv_checkpoint_ms v = Some (wk_t_ms walk)"
    "cv_reason v = Some MIXED_SCALES \<longrightarrow> cv_first_deposit v = None"
  using assms balance_at_fields
  by (auto simp: value_of_def failed_value_def split: option.splits)

lemma value_of_available:
  assumes "world_ok w" and "covered w walk" and "tr_registrationTimestamp trader = w_registration w"
    and "up_to_date w (wk_t_ms walk) trader" and "value_of walk trader = Some v"
    and "cv_status v = Cp_available"
  shows "cv_balance v = Some (ledger_balance (wk_t_ms walk) (w_ledger w))"
proof -
  obtain version digits where none: "wk_failure walk = None" and version: "tr_balanceVersion trader = Some version"
    and found: "balance_at (wk_t_ms walk) (map snd (wk_changes walk)) (wk_covered_from_ms walk)
            (tr_registrationTimestamp trader) (tr_balance trader) version digits
            (\<not> wk_settled walk \<or> MAX_WINDOWS \<le> wk_windows walk) = Some v"
    using assms(5,6) by (auto simp: value_of_def failed_value_def split: option.splits)
  have told: "x \<in> set (w_ledger w) \<longleftrightarrow> (\<exists>k. told_by w k x)" for x
  proof -
    have "(\<exists>k. told_by w k x) \<longleftrightarrow> x \<in> ran (w_deals w) \<union> ran (w_flows w)"
      by (auto simp: told_by_def ran_def)
    with assms(1) show ?thesis by (simp add: world_ok_def)
  qed
  have "distinct (map fst (wk_changes walk))" using assms(2) by (simp add: covered_def true_changes_def)
  then have entry: "x \<in> set (map snd (wk_changes walk)) \<longleftrightarrow> (\<exists>k. map_of (wk_changes walk) k = Some x)" for x
    by (force simp: image_iff dest: map_of_SomeD)
  show ?thesis
  proof (rule available_balance_is_the_ledgers [OF _ _ _ _ _ found assms(6)])
    show "ledger (w_ledger w)" using assms(1) by (simp add: world_ok_def)
    show "set (map snd (wk_changes walk)) \<subseteq> set (w_ledger w)"
    proof
      fix x
      assume "x \<in> set (map snd (wk_changes walk))"
      then obtain k where "map_of (wk_changes walk) k = Some x" using entry by blast
      with assms(2) have "told_by w k x" unfolding covered_def true_changes_def by blast
      with told show "x \<in> set (w_ledger w)" by blast
    qed
    show "\<forall>x\<in>set (w_ledger w). wk_covered_from_ms walk \<le> ch_ts_ms x \<and> ch_ts_ms x < wk_t_ms walk \<longrightarrow>
        x \<in> set (map snd (wk_changes walk))"
    proof (intro ballI impI)
      fix x
      assume x: "x \<in> set (w_ledger w)" "wk_covered_from_ms walk \<le> ch_ts_ms x \<and> ch_ts_ms x < wk_t_ms walk"
      then obtain k where k: "told_by w k x" using told by blast
      with x assms(2) none obtain y where y: "map_of (wk_changes walk) k = Some y"
        unfolding covered_def has_all_def has_key_def by blast
      with assms(2) have "told_by w k y" unfolding covered_def true_changes_def by blast
      with k have "y = x" by (auto simp: told_by_def split: if_splits)
      with y entry show "x \<in> set (map snd (wk_changes walk))" by blast
    qed
    show "\<forall>x\<in>set (w_ledger w). \<forall>r. tr_registrationTimestamp trader = Some r \<longrightarrow> r \<le> ch_ts_ms x"
      using assms(1,3) by (simp add: world_ok_def)
    show "\<forall>x\<in>set (w_ledger w). version < ch_version x \<longrightarrow> wk_t_ms walk \<le> ch_ts_ms x"
      using assms(4) version by (simp add: up_to_date_def)
  qed
qed

end
