(* ===== verification/Checkpoint_Promises.thy ===== *)
theory Checkpoint_Promises
  imports Checkpoint_Safety
begin

text \<open>
  The invariant of \<open>Balance_Checkpoint\<close> through every operation, and what it promises of the key.
\<close>

subsection \<open>The invariant\<close>

text \<open>The first deposit: the first funding of the whole ledger, and none before the walk's place.\<close>

definition first_funding :: "account_world \<Rightarrow> BalanceChange \<Rightarrow> bool" where
  "first_funding w x \<longleftrightarrow> x \<in> ran (w_flows w) \<and> on_zero x \<and>
     (\<forall>y\<in>ran (w_flows w). on_zero y \<longrightarrow> ch_version x \<le> ch_version y)"

definition no_funding_before :: "account_world \<Rightarrow> int \<Rightarrow> bool" where
  "no_funding_before w t \<longleftrightarrow> (\<forall>y\<in>ran (w_flows w). on_zero y \<longrightarrow> t \<le> ch_ts_ms y)"

definition deposit_true :: "account_world \<Rightarrow> BalanceCheckpoint \<Rightarrow> bool" where
  "deposit_true w ck \<longleftrightarrow> (\<forall>x. ck_deposit ck = Some x \<longrightarrow> first_funding w x) \<and>
     (ck_deposit ck = None \<and> ck_deposit_windows ck < MAX_WINDOWS \<longrightarrow>
        (\<forall>t. ck_deposit_from_ms ck = Some t \<longrightarrow> no_funding_before w t))"

definition value_true :: "account_world \<Rightarrow> CheckpointValue \<Rightarrow> bool" where
  "value_true w v \<longleftrightarrow>
     (cv_status v = Cp_available \<longrightarrow> (\<exists>t. cv_checkpoint_ms v = Some t \<and>
        cv_balance v = Some (ledger_balance t (w_ledger w)))) \<and>
     (\<forall>b. w_registration w \<noteq> None \<and> cv_first_deposit v = Some b \<longrightarrow>
        (\<exists>x. first_funding w x \<and> b = ch_balance x))"

definition log_times :: "BalanceCheckpoint \<Rightarrow> int list" where
  "log_times ck = List.map_filter cv_checkpoint_ms (ck_log ck)"

definition core_ok ::
    "account_world option \<Rightarrow> CheckpointValue list option \<Rightarrow> BalanceCheckpoint \<Rightarrow> bool" where
  "core_ok w lg ck \<longleftrightarrow>
     sorted (log_times ck) \<and>
     (\<forall>t\<in>set (log_times ck). \<exists>u. ck_written_ms ck = Some u \<and> t \<le> u) \<and>
     ck_deposit_windows ck \<le> MAX_WINDOWS \<and>
     (ck_stopped ck \<longrightarrow> ck_timer ck = None \<and> ck_task ck = None) \<and>
     (\<forall>l. lg = Some l \<longrightarrow> ck_stopped ck \<and> ck_log ck = l) \<and>
     (\<forall>a. w = Some a \<longrightarrow> world_ok a \<and> deposit_true a ck \<and> (\<forall>v\<in>set (ck_log ck). value_true a v))"

definition latest_ok :: "account_world \<Rightarrow> int \<Rightarrow> ProtoOATrader \<Rightarrow> bool" where
  "latest_ok w t_ms trader \<longleftrightarrow>
     tr_registrationTimestamp trader = w_registration w \<and> up_to_date w t_ms trader"

definition reading_ok :: "account_world \<Rightarrow> Walk \<Rightarrow> reading \<Rightarrow> int \<Rightarrow> bool" where
  "reading_ok w walk reading end1 \<longleftrightarrow>
     (case reading of
        Walking_back \<Rightarrow> end1 = wk_covered_from_ms walk
      | Topping_up latest upper others \<Rightarrow> latest_ok w (wk_t_ms walk) latest)"

definition place_ok :: "account_world \<Rightarrow> settling \<Rightarrow> bool" where
  "place_ok w r \<longleftrightarrow>
     (case rn_place r of
        At_deals reading start end1 \<Rightarrow> reading_ok w (rn_walk r) reading end1
      | At_flows reading start end1 deals \<Rightarrow>
          reading_ok w (rn_walk r) reading end1 \<and>
          lists_deals w start end1 (wk_t_ms (rn_walk r)) deals
      | _ \<Rightarrow> True)"

text \<open>A run wherever it is, and one that waits.\<close>

definition going :: "account_world option \<Rightarrow> settling \<Rightarrow> bool" where
  "going w r \<longleftrightarrow> wk_windows (rn_walk r) \<le> rn_limit r \<and> rn_limit r \<le> MAX_WINDOWS \<and>
     (\<forall>a. w = Some a \<longrightarrow> covered a (rn_walk r) \<and>
        (\<forall>trader. rn_trader r = Some trader \<longrightarrow> tr_registrationTimestamp trader = w_registration a))"

definition walks_back :: "place \<Rightarrow> bool" where
  "walks_back p \<longleftrightarrow>
     (case p of
        At_deals reading _ _ \<Rightarrow> reading = Walking_back
      | At_flows reading _ _ _ \<Rightarrow> reading = Walking_back
      | _ \<Rightarrow> False)"

definition reads_deposit :: "place \<Rightarrow> bool" where
  "reads_deposit p \<longleftrightarrow> (case p of At_deposit _ _ _ _ \<Rightarrow> True | _ \<Rightarrow> False)"

definition deposit_place :: "nat \<Rightarrow> BalanceCheckpoint \<Rightarrow> place \<Rightarrow> bool" where
  "deposit_place i ck p \<longleftrightarrow>
     (case p of
        At_deposit left start end1 asked_at \<Rightarrow>
          ck_lock ck = Some i \<and> ck_deposit_from_ms ck = Some start \<and> ck_deposit ck = None \<and>
          ck_deposit_windows ck < MAX_WINDOWS \<and> end1 = min (start + WEEK_MS) asked_at
      | _ \<Rightarrow> True)"

text \<open>Only a run not yet begun, or one that asks for it, does without a trader.\<close>

definition led :: "account_world option \<Rightarrow> settling \<Rightarrow> bool" where
  "led w r \<longleftrightarrow> going w r \<and> rn_trader r \<noteq> None"

definition waiting :: "account_world option \<Rightarrow> settling \<Rightarrow> bool" where
  "waiting w r \<longleftrightarrow> going w r \<and>
     (rn_place r \<noteq> At_trader \<and> rn_place r \<noteq> At_begin_run \<longrightarrow> rn_trader r \<noteq> None) \<and>
     (walks_back (rn_place r) \<longrightarrow> wk_windows (rn_walk r) < rn_limit r) \<and>
     (\<forall>a. w = Some a \<longrightarrow> place_ok a r)"

definition holds_lock :: "BalanceCheckpoint \<Rightarrow> nat \<Rightarrow> bool" where
  "holds_lock ck i \<longleftrightarrow> (\<exists>r. map_of (ck_runs ck) i = Some r \<and> reads_deposit (rn_place r))"

definition runs_ok :: "account_world option \<Rightarrow> nat option \<Rightarrow> BalanceCheckpoint \<Rightarrow> bool" where
  "runs_ok w but ck \<longleftrightarrow>
     (\<forall>j r. map_of (ck_runs ck) j = Some r \<longrightarrow> j < ck_next_run ck \<and>
        (Some j \<noteq> but \<longrightarrow> waiting w r \<and> deposit_place j ck (rn_place r))) \<and>
     (\<forall>j. ck_lock ck = Some j \<and> Some j \<noteq> but \<longrightarrow> holds_lock ck j)"

definition ck_ok ::
    "account_world option \<Rightarrow> CheckpointValue list option \<Rightarrow> BalanceCheckpoint \<Rightarrow> bool" where
  "ck_ok w lg ck \<longleftrightarrow> core_ok w lg ck \<and> runs_ok w None ck"

definition ok_but ::
    "account_world option \<Rightarrow> CheckpointValue list option \<Rightarrow> nat \<Rightarrow> BalanceCheckpoint \<Rightarrow> bool" where
  "ok_but w lg i ck \<longleftrightarrow> core_ok w lg ck \<and> runs_ok w (Some i) ck \<and> i < ck_next_run ck"

lemma core_frame [simp]:
  "core_ok w lg (ck\<lparr>ck_runs := rs\<rparr>) = core_ok w lg ck"
  "core_ok w lg (ck\<lparr>ck_lock := lo\<rparr>) = core_ok w lg ck"
  "core_ok w lg (ck\<lparr>ck_next_run := n\<rparr>) = core_ok w lg ck"
  "core_ok w lg (ck\<lparr>ck_deposit_caught_up := b\<rparr>) = core_ok w lg ck"
  by (simp_all add: core_ok_def log_times_def deposit_true_def)

lemma holds_lock_frame [simp]:
  "holds_lock (ck\<lparr>ck_lock := lo\<rparr>) = holds_lock ck"
  "holds_lock (ck\<lparr>ck_next_run := n\<rparr>) = holds_lock ck"
  "holds_lock (ck\<lparr>ck_task := t\<rparr>) = holds_lock ck"
  "holds_lock (ck\<lparr>ck_deposit_caught_up := b\<rparr>) = holds_lock ck"
  by (simp_all add: holds_lock_def fun_eq_iff)

lemma deposit_place_same:
  "ck_lock ck' = ck_lock ck \<Longrightarrow> ck_deposit_from_ms ck' = ck_deposit_from_ms ck \<Longrightarrow>
   ck_deposit ck' = ck_deposit ck \<Longrightarrow> ck_deposit_windows ck' = ck_deposit_windows ck \<Longrightarrow>
   deposit_place i ck' p = deposit_place i ck p"
  by (simp add: deposit_place_def cong: place.case_cong)

lemma reads_deposit_place: "reads_deposit p \<Longrightarrow> \<exists>left start end1 asked_at. p = At_deposit left start end1 asked_at"
  by (cases p) (simp_all add: reads_deposit_def)

lemma deposit_place_lock: "deposit_place i ck p \<Longrightarrow> reads_deposit p \<Longrightarrow> ck_lock ck = Some i"
  by (cases p) (simp_all add: deposit_place_def reads_deposit_def)

lemma deposit_place_other: "\<not> reads_deposit p \<Longrightarrow> deposit_place i ck p"
  by (cases p) (simp_all add: deposit_place_def reads_deposit_def)

lemma deposit_place_frame [simp]:
  "deposit_place i (ck\<lparr>ck_runs := rs\<rparr>) = deposit_place i ck"
  "deposit_place i (ck\<lparr>ck_next_run := n\<rparr>) = deposit_place i ck"
  "deposit_place i (ck\<lparr>ck_task := t\<rparr>) = deposit_place i ck"
  "deposit_place i (ck\<lparr>ck_timer := u\<rparr>) = deposit_place i ck"
  "deposit_place i (ck\<lparr>ck_stopped := b\<rparr>) = deposit_place i ck"
  "deposit_place i (ck\<lparr>ck_deposit_caught_up := b\<rparr>) = deposit_place i ck"
  "deposit_place i (ck\<lparr>ck_log := l\<rparr>) = deposit_place i ck"
  "deposit_place i (ck\<lparr>ck_written_ms := u\<rparr>) = deposit_place i ck"
  by (rule ext, rule deposit_place_same, simp_all)+

text \<open>The lock of another is nothing to a run that does not read the deposits.\<close>

lemma deposit_place_release:
  "deposit_place j ck p \<Longrightarrow> j \<noteq> i \<Longrightarrow> deposit_place j (release i ck) p"
  by (cases "ck_lock ck = Some i"; cases "reads_deposit p")
     (auto simp: release_def dest: deposit_place_lock intro: deposit_place_other)

lemma runs_okD:
  assumes "runs_ok w but ck" and "map_of (ck_runs ck) j = Some r"
  shows "j < ck_next_run ck" "Some j \<noteq> but \<Longrightarrow> waiting w r" "Some j \<noteq> but \<Longrightarrow> deposit_place j ck (rn_place r)"
  using assms unfolding runs_ok_def by blast+

lemma runs_ok_lockD: "runs_ok w but ck \<Longrightarrow> ck_lock ck = Some j \<Longrightarrow> Some j \<noteq> but \<Longrightarrow> holds_lock ck j"
  unfolding runs_ok_def by blast

lemma put_run_ok:
  assumes "ok_but w lg i ck" and "waiting w r" and "deposit_place i ck (rn_place r)"
    and "ck_lock ck = Some i \<longrightarrow> reads_deposit (rn_place r)"
  shows "ck_ok w lg (put_run i r ck)"
proof -
  have k: "runs_ok w (Some i) ck" "core_ok w lg ck" "i < ck_next_run ck" using assms(1) by (simp_all add: ok_but_def)
  have "runs_ok w None (put_run i r ck)"
    unfolding runs_ok_def put_run_def
    using runs_okD [OF k(1)] runs_ok_lockD [OF k(1)] assms(2-4) k(3)
    by (auto simp: dict_simps holds_lock_def)
  with k(2) show ?thesis by (simp add: ck_ok_def put_run_def)
qed

lemma release_frame [simp]:
  "ck_runs (release i ck) = ck_runs ck" "ck_next_run (release i ck) = ck_next_run ck"
  "core_ok w lg (release i ck) = core_ok w lg ck"
  "ck_lock (release i ck) = (if ck_lock ck = Some i then None else ck_lock ck)"
  "ck_stopped (release i ck) = ck_stopped ck"
  "ck_deposit_from_ms (release i ck) = ck_deposit_from_ms ck"
  by (simp_all add: release_def)

lemma end_run_but:
  assumes "ok_but w lg i ck"
  shows "ck_ok w lg (end_run i ck)"
proof -
  have k: "runs_ok w (Some i) ck" "core_ok w lg ck" "i < ck_next_run ck" using assms(1) by (simp_all add: ok_but_def)
  have "runs_ok w None (end_run i ck)"
    unfolding runs_ok_def end_run_def
    using runs_okD [OF k(1)] runs_ok_lockD [OF k(1)] k(3)
    by (auto simp: dict_simps holds_lock_def intro!: deposit_place_release split: if_splits)
  with k(2) show ?thesis by (simp add: ck_ok_def end_run_def)
qed

lemma ok_but_of: "ck_ok w lg ck \<Longrightarrow> i < ck_next_run ck \<Longrightarrow> ok_but w lg i ck"
  unfolding ck_ok_def ok_but_def runs_ok_def by blast

lemma release_but: "ok_but w lg i ck \<Longrightarrow> ok_but w lg i (release i ck)"
  unfolding ok_but_def runs_ok_def
  by (auto simp: holds_lock_def intro!: deposit_place_release split: if_splits)

text \<open>A run that is not there ends without a trace.\<close>

lemma end_run_ok:
  assumes "ck_ok w lg ck"
  shows "ck_ok w lg (end_run i ck)"
proof (cases "i < ck_next_run ck")
  case True
  with assms show ?thesis by (intro end_run_but ok_but_of)
next
  case False
  with assms have none: "map_of (ck_runs ck) i = None"
    using runs_okD(1) [of w None ck i] by (cases "map_of (ck_runs ck) i") (auto simp: ck_ok_def)
  with assms have "ck_lock ck \<noteq> Some i"
    using runs_ok_lockD [of w None ck i] by (auto simp: ck_ok_def holds_lock_def)
  moreover have "i \<notin> fst ` set (ck_runs ck)" using none by (simp add: map_of_eq_None_iff)
  ultimately have "end_run i ck = ck" by (simp add: end_run_def release_def delete_id)
  with assms show ?thesis by simp
qed

subsection \<open>Writing the key\<close>

lemma core_task: "core_ok w lg ck \<Longrightarrow> t = None \<or> \<not> ck_stopped ck \<Longrightarrow> core_ok w lg (ck\<lparr>ck_task := t\<rparr>)"
  by (auto simp: core_ok_def log_times_def deposit_true_def)

lemma core_timer: "core_ok w lg ck \<Longrightarrow> t = None \<or> \<not> ck_stopped ck \<Longrightarrow> core_ok w lg (ck\<lparr>ck_timer := t\<rparr>)"
  by (auto simp: core_ok_def log_times_def deposit_true_def)

lemma runs_ok_frame [simp]:
  "runs_ok w but (ck\<lparr>ck_task := t\<rparr>) = runs_ok w but ck"
  "runs_ok w but (ck\<lparr>ck_timer := u\<rparr>) = runs_ok w but ck"
  "runs_ok w but (ck\<lparr>ck_stopped := b\<rparr>) = runs_ok w but ck"
  "runs_ok w but (ck\<lparr>ck_deposit_caught_up := b\<rparr>) = runs_ok w but ck"
  "runs_ok w but (ck\<lparr>ck_log := l\<rparr>) = runs_ok w but ck"
  "runs_ok w but (ck\<lparr>ck_written_ms := u\<rparr>) = runs_ok w but ck"
  by (simp_all add: runs_ok_def holds_lock_def)

lemma runs_ok_next: "runs_ok w but ck \<Longrightarrow> runs_ok w but (ck\<lparr>ck_next_run := Suc (ck_next_run ck)\<rparr>)"
  unfolding runs_ok_def by (auto simp: less_Suc_eq)

lemma end_run_fields [simp]:
  "ck_stopped (end_run i ck) = ck_stopped ck" "ck_written_ms (end_run i ck) = ck_written_ms ck"
  "ck_log (end_run i ck) = ck_log ck" "ck_deposit (end_run i ck) = ck_deposit ck"
  "ck_task (end_run i ck) = ck_task ck" "ck_timer (end_run i ck) = ck_timer ck"
  by (simp_all add: end_run_def release_def)

lemma cancel_task_ok:
  assumes "ck_ok w lg ck"
  shows "ck_ok w lg (cancel_task ck)" "ck_stopped (cancel_task ck) = ck_stopped ck"
    "ck_log (cancel_task ck) = ck_log ck" "ck_task (cancel_task ck) = None"
    "ck_timer (cancel_task ck) = ck_timer ck"
proof -
  have "ck_ok w lg (ck\<lparr>ck_task := None\<rparr>)"
    using assms core_task [of w lg ck None] by (simp add: ck_ok_def)
  then show "ck_ok w lg (cancel_task ck)"
    using assms by (auto simp: cancel_task_def end_run_ok split: option.splits)
qed (auto simp: cancel_task_def split: option.splits)

lemma start_task_ok:
  assumes "ck_ok w lg ck" and "\<not> ck_stopped ck" and "waiting w r" and "\<not> reads_deposit (rn_place r)"
  shows "ck_ok w lg (start_task r ck)"
proof -
  let ?c = "cancel_task ck" and ?n = "ck_next_run (cancel_task ck)"
  let ?d = "?c\<lparr>ck_task := Some ?n, ck_next_run := Suc ?n\<rparr>"
  have c: "core_ok w lg ?c" "runs_ok w None ?c" "\<not> ck_stopped ?c"
    using cancel_task_ok [OF assms(1)] assms(2) by (simp_all add: ck_ok_def)
  have "ck_ok w lg ?d"
    using c core_task [OF c(1), of "Some ?n"] runs_ok_next [OF c(2)] by (simp add: ck_ok_def runs_ok_def)
  then have "ok_but w lg ?n ?d" by (rule ok_but_of) simp
  moreover have "ck_lock ?d \<noteq> Some ?n"
  proof
    assume "ck_lock ?d = Some ?n"
    then have "holds_lock ?c ?n" using runs_ok_lockD [OF c(2)] by simp
    then show False using runs_okD(1) [OF c(2)] by (auto simp: holds_lock_def)
  qed
  ultimately have "ck_ok w lg (put_run ?n r ?d)"
    using assms(3,4) by (intro put_run_ok) (simp_all add: deposit_place_other)
  then show ?thesis by (simp add: start_task_def Let_def)
qed

text \<open>What a value is before the first deposit is put in.\<close>

definition value_ready :: "account_world option \<Rightarrow> settling \<Rightarrow> CheckpointValue \<Rightarrow> bool" where
  "value_ready w r v \<longleftrightarrow> cv_checkpoint_ms v = Some (wk_t_ms (rn_walk r)) \<and>
     (\<forall>a. w = Some a \<longrightarrow>
        (cv_status v = Cp_available \<longrightarrow>
           cv_balance v = Some (ledger_balance (wk_t_ms (rn_walk r)) (w_ledger a))) \<and>
        (rn_trader r = None \<or> cv_reason v = Some MIXED_SCALES \<longrightarrow> cv_first_deposit v = None))"

lemma with_deposit_fields [simp]:
  "cv_checkpoint_ms (with_deposit v t ck) = cv_checkpoint_ms v"
  "cv_status (with_deposit v t ck) = cv_status v"
  "cv_balance (with_deposit v t ck) = cv_balance v"
  by (simp_all add: with_deposit_def split: option.splits)

lemma with_deposit_true:
  assumes "value_ready (Some a) r v" and "deposit_true a ck" and "going (Some a) r"
  shows "value_true a (with_deposit v (registration_of r) ck)"
proof -
  have "\<exists>x. first_funding a x \<and> b = ch_balance x"
    if "w_registration a \<noteq> None" "cv_first_deposit (with_deposit v (registration_of r) ck) = Some b" for b
  proof (cases "cv_reason v = Some MIXED_SCALES \<or> rn_trader r = None")
    case True
    with assms(1) that(2) show ?thesis
      by (auto simp: value_ready_def with_deposit_def registration_of_def)
  next
    case False
    then obtain trader where "rn_trader r = Some trader" by blast
    with assms(3) that(1) have "registration_of r \<noteq> None" by (simp add: registration_of_def going_def)
    with False that(2) assms(2) show ?thesis
      by (auto simp: with_deposit_def deposit_true_def split: option.splits if_splits)
  qed
  with assms(1) show ?thesis by (simp add: value_true_def value_ready_def)
qed

lemma core_write:
  assumes "core_ok w lg ck" and "\<not> ck_stopped ck" and "cv_checkpoint_ms v = Some t"
    and "\<forall>u. ck_written_ms ck = Some u \<longrightarrow> u \<le> t" and "\<forall>a. w = Some a \<longrightarrow> value_true a v"
  shows "core_ok w lg (ck\<lparr>ck_log := ck_log ck @ [v], ck_written_ms := Some t\<rparr>)"
proof -
  have "log_times (ck\<lparr>ck_log := ck_log ck @ [v], ck_written_ms := Some t\<rparr>) = log_times ck @ [t]"
    using assms(3) by (simp add: log_times_def List.map_filter_def)
  with assms show ?thesis by (fastforce simp: core_ok_def deposit_true_def sorted_append)
qed

lemma write_value_ok:
  assumes "ok_but w lg i ck" and "going w r" and "value_ready w r v"
  shows "ck_ok w lg (write_value stored now i r v ck)"
proof -
  let ?c = "end_run i ck" and ?t = "wk_t_ms (rn_walk r)"
  let ?v = "with_deposit v (registration_of r) ?c"
  let ?d = "?c\<lparr>ck_log := ck_log ?c @ [?v], ck_written_ms := Some ?t\<rparr>"
  have c: "ck_ok w lg ?c" by (rule end_run_but [OF assms(1)])
  show ?thesis
  proof (cases "(case ck_written_ms ?c of None \<Rightarrow> False | Some u \<Rightarrow> ?t < u) \<or> ck_stopped ?c \<or> \<not> stored")
    case True
    with c show ?thesis by (auto simp: write_value_def Let_def put_value_def)
  next
    case False
    then have n: "\<not> ck_stopped ?c" "\<forall>u. ck_written_ms ?c = Some u \<longrightarrow> u \<le> ?t" stored by auto
    have "value_true a ?v" if "w = Some a" for a
      using c assms(2,3) that by (intro with_deposit_true) (auto simp: ck_ok_def core_ok_def)
    then have "core_ok w lg ?d"
      using c n assms(3) by (intro core_write) (auto simp: ck_ok_def value_ready_def)
    with c have d: "ck_ok w lg ?d" by (simp add: ck_ok_def)
    have "led w r \<Longrightarrow> waiting w (r\<lparr>rn_limit := MAX_WINDOWS, rn_background := True, rn_place := At_begin\<rparr>)"
      by (auto simp: waiting_def led_def going_def walks_back_def place_ok_def)
    with d n(1) assms(2) have "rn_trader r \<noteq> None \<Longrightarrow> ck_ok w lg (start_task
        (r\<lparr>rn_limit := MAX_WINDOWS, rn_background := True, rn_place := At_begin\<rparr>) ?d)"
      by (intro start_task_ok) (simp_all add: reads_deposit_def led_def)
    with False d n show ?thesis by (simp add: write_value_def Let_def put_value_def)
  qed
qed

lemma going_failed:
  "going w r \<Longrightarrow> going w (r\<lparr>rn_walk := (rn_walk r)\<lparr>wk_failure := Some f\<rparr>\<rparr>)"
  "going w r \<Longrightarrow> going w (r\<lparr>rn_walk := (rn_walk r)\<lparr>wk_upper_ms := u\<rparr>\<rparr>)"
  by (auto simp: going_def covered_failed)

lemma request_failed_ok:
  assumes "ok_but w lg i ck" and "going w r"
  shows "ck_ok w lg (request_failed stored now i r ck)"
  unfolding request_failed_def Let_def
  by (rule write_value_ok [OF assms(1)])
     (simp_all add: going_failed(1) [OF assms(2)] value_ready_def failed_value_def)

lemma run_fails_ok:
  assumes "ok_but w lg i ck" and "going w r"
  shows "ck_ok w lg (run_fails stored now i r e ck)"
  using assms by (cases e) (auto simp: run_fails_def end_run_but intro!: request_failed_ok release_but)

lemma finish_ok:
  assumes "ok_but w lg i ck" and "going w r"
    and "\<forall>a. w = Some a \<longrightarrow> latest_ok a (wk_t_ms (rn_walk r)) latest" and "rn_trader r \<noteq> None"
  shows "ck_ok w lg (finish stored now i r latest ck)"
proof (cases "value_of (rn_walk r) latest")
  case None
  with assms show ?thesis by (simp add: finish_def request_failed_ok)
next
  case (Some v)
  have "value_ready w r v"
    using assms value_of_fields [OF Some] value_of_available [OF _ _ _ _ Some]
    by (auto simp: value_ready_def ok_but_def core_ok_def going_def latest_ok_def)
  with assms Some show ?thesis by (simp add: finish_def write_value_ok)
qed

subsection \<open>The first-deposit walk\<close>

lemma ask_latest_ok:
  assumes "ok_but w lg i ck" and "led w r"
  shows "ck_ok w lg (ask_latest i r ck)"
  unfolding ask_latest_def using assms release_but [OF assms(1)]
  by (intro put_run_ok) (auto simp: waiting_def led_def going_def walks_back_def place_ok_def deposit_place_def)

text \<open>The lock held, the walk's own state is nobody else's.\<close>

lemma locked_update:
  assumes "ok_but w lg i ck" and "ck_lock ck = Some i" and "core_ok w lg ck'"
    and "ck_runs ck' = ck_runs ck" and "ck_next_run ck' = ck_next_run ck" and "ck_lock ck' = Some i"
  shows "ok_but w lg i ck'"
proof -
  have k: "runs_ok w (Some i) ck" using assms(1) by (simp add: ok_but_def)
  have "deposit_place j ck' (rn_place r)" if "map_of (ck_runs ck) j = Some r" "j \<noteq> i" for j r
    using runs_okD(3) [OF k that(1)] that(2) assms(2)
    by (intro deposit_place_other) (auto dest: deposit_place_lock)
  with k assms show ?thesis by (auto simp: ok_but_def runs_ok_def)
qed

lemma deposit_turn_ok:
  assumes "ok_but w lg i ck" and "led w r" and "ck_lock ck = Some i"
  shows "ck_ok w lg (deposit_turn now left i r ck)"
proof (cases "ck_deposit_from_ms ck = None \<or> left = 0 \<or> \<not> deposit_unfinished now (registration_of r) ck")
  case True
  with ask_latest_ok [OF assms(1,2)] show ?thesis by (auto simp: deposit_turn_def split: option.splits)
next
  case False
  then obtain start where s: "ck_deposit_from_ms ck = Some start" by auto
  have "ck_ok w lg (put_run i (r\<lparr>rn_place := At_deposit (left - 1) start (min (start + WEEK_MS) now) now\<rparr>) ck)"
    using assms False s
    by (intro put_run_ok)
       (auto simp: waiting_def led_def going_def walks_back_def place_ok_def deposit_place_def reads_deposit_def
         deposit_unfinished_def split: option.splits)
  with False s show ?thesis by (simp add: deposit_turn_def)
qed

lemma lock_free_but:
  assumes "ok_but w lg i ck" and "ck_lock ck = None"
  shows "ok_but w lg i (ck\<lparr>ck_lock := Some i\<rparr>)"
proof -
  have k: "runs_ok w (Some i) ck" using assms(1) by (simp add: ok_but_def)
  have "deposit_place j (ck\<lparr>ck_lock := Some i\<rparr>) (rn_place r)" if "map_of (ck_runs ck) j = Some r" "j \<noteq> i" for j r
    using runs_okD(3) [OF k that(1)] that(2) assms(2)
    by (intro deposit_place_other) (auto dest: deposit_place_lock)
  with k assms show ?thesis by (auto simp: ok_but_def runs_ok_def)
qed

lemma registration_first:
  assumes "world_ok a" and "w_registration a = Some t"
  shows "no_funding_before a t"
  using assms by (auto simp: world_ok_def no_funding_before_def)

lemma deposit_locked_ok:
  assumes "ok_but w lg i ck" and "led w r" and "ck_lock ck = None"
  shows "ck_ok w lg (deposit_locked now i r ck)"
proof -
  let ?c = "ck\<lparr>ck_lock := Some i\<rparr>"
  let ?d = "?c\<lparr>ck_deposit_from_ms := registration_of r\<rparr>"
  have c: "ok_but w lg i ?c" by (rule lock_free_but [OF assms(1,3)])
  have d: "ok_but w lg i ?d"
  proof (rule locked_update [OF c])
    have "no_funding_before a t" if "w = Some a" "registration_of r = Some t" for a t
    proof -
      have "world_ok a" using c that(1) by (simp add: ok_but_def core_ok_def)
      moreover have "w_registration a = Some t"
        using assms(2) that by (auto simp: led_def going_def registration_of_def split: option.splits)
      ultimately show ?thesis by (rule registration_first)
    qed
    with c show "core_ok w lg ?d" by (auto simp: ok_but_def core_ok_def log_times_def deposit_true_def)
  qed simp_all
  from ask_latest_ok [OF c assms(2)] deposit_turn_ok [OF c assms(2)] deposit_turn_ok [OF d assms(2)]
  show ?thesis by (simp add: deposit_locked_def Let_def)
qed

lemma changes_of_flows_set:
  "changes_of_flows operations = Some changes \<Longrightarrow>
   set changes = {x. \<exists>d\<in>set operations. change_of_cash_flow d = Inr x} \<and>
   (\<forall>d\<in>set operations. \<exists>x. change_of_cash_flow d = Inr x)"
  by (induction operations arbitrary: changes) (auto split: sum.splits option.splits)

lemma earliest_least:
  "(earliest cs = None \<longleftrightarrow> cs = []) \<and>
   (\<forall>x. earliest cs = Some x \<longrightarrow> x \<in> set cs \<and> (\<forall>y\<in>set cs. ch_version x \<le> ch_version y))"
  by (induction cs) (fastforce split: option.splits if_splits)+

lemma first_deposit_least:
  "first_deposit changes = None \<Longrightarrow> y \<in> set changes \<Longrightarrow> \<not> on_zero y"
  "first_deposit changes = Some x \<Longrightarrow> x \<in> set changes \<and> on_zero x \<and>
     (\<forall>y\<in>set changes. on_zero y \<longrightarrow> ch_version x \<le> ch_version y)"
  using earliest_least [of "filter on_zero changes"]
  by (auto simp: first_deposit_def filter_empty_conv)

lemma listed_flow:
  assumes "lists_flows a start end1 None operations" and "changes_of_flows operations = Some changes"
    and "y \<in> ran (w_flows a)" and "start \<le> ch_ts_ms y" and "ch_ts_ms y \<le> end1"
  shows "y \<in> set changes"
proof -
  from assms(3) obtain k where k: "w_flows a k = Some y" by (auto simp: ran_def)
  with assms(1,4,5) obtain d where d: "d \<in> set operations" "balanceHistoryId d = k"
    unfolding lists_flows_def by blast
  with changes_of_flows_set [OF assms(2)] obtain x where x: "change_of_cash_flow d = Inr x" "x \<in> set changes" by blast
  with d assms(1) have "w_flows a k = Some x" unfolding lists_flows_def by blast
  with k x(2) show ?thesis by simp
qed

text \<open>A window read from where the walk has come to finds the first funding, or there is none up to its end.\<close>

lemma window_first_funding:
  assumes "world_ok a" and "lists_flows a start end1 None operations"
    and "changes_of_flows operations = Some changes" and "no_funding_before a start"
  shows "first_deposit changes = Some x \<Longrightarrow> first_funding a x"
    and "first_deposit changes = None \<Longrightarrow> no_funding_before a end1"
proof -
  have "start \<le> ch_ts_ms y" if "y \<in> ran (w_flows a)" "on_zero y" for y
    using assms(4) that by (simp add: no_funding_before_def)
  then have listed: "y \<in> set changes" if "y \<in> ran (w_flows a)" "on_zero y" "ch_ts_ms y \<le> end1" for y
    using listed_flow [OF assms(2,3)] that by blast
  show "no_funding_before a end1" if "first_deposit changes = None"
    using first_deposit_least(1) [OF that] listed by (force simp: no_funding_before_def)
  assume f: "first_deposit changes = Some x"
  note x = first_deposit_least(2) [OF f]
  obtain d where d: "d \<in> set operations" "change_of_cash_flow d = Inr x"
    using x changes_of_flows_set [OF assms(3)] by auto
  with assms(2) have flow: "x \<in> ran (w_flows a)" "ch_ts_ms x \<le> end1"
    unfolding lists_flows_def by (blast intro: ranI)+
  have "ch_version x \<le> ch_version y" if y: "y \<in> ran (w_flows a)" "on_zero y" for y
  proof (cases "ch_ts_ms y \<le> end1")
    case True
    with listed y x show ?thesis by blast
  next
    case False
    have L: "ledger (w_ledger a)" "x \<in> set (w_ledger a)" "y \<in> set (w_ledger a)"
      using assms(1) y(1) flow(1) by (simp_all add: world_ok_def)
    show ?thesis using ledger_times [OF L(1) L(3) L(2)] False flow(2) by linarith
  qed
  with x flow show "first_funding a x" by (simp add: first_funding_def)
qed

lemma no_deposit: "ck_deposit ck = None \<Longrightarrow> ck\<lparr>ck_deposit := None\<rparr> = (ck :: BalanceCheckpoint)"
  by (cases ck) simp

lemma deposit_read_ok:
  assumes "ok_but w lg i ck" and "led w r" and "deposit_place i ck (At_deposit left start end1 asked_at)"
    and "\<forall>a. w = Some a \<longrightarrow> lists_flows a start end1 None operations"
  shows "ck_ok w lg (deposit_read now i r left end1 asked_at operations ck)"
proof -
  have p: "ck_lock ck = Some i" "ck_deposit_from_ms ck = Some start" "ck_deposit ck = None"
    "ck_deposit_windows ck < MAX_WINDOWS" using assms(3) by (simp_all add: deposit_place_def)
  have core: "core_ok w lg ck" using assms(1) by (simp add: ok_but_def)
  have updated: "ok_but w lg i (ck\<lparr>ck_deposit_from_ms := f, ck_deposit_windows := n, ck_deposit := d,
      ck_deposit_caught_up := b\<rparr>)"
    if "n \<le> MAX_WINDOWS" "\<forall>a. w = Some a \<longrightarrow> deposit_true a
      (ck\<lparr>ck_deposit_from_ms := f, ck_deposit_windows := n, ck_deposit := d, ck_deposit_caught_up := b\<rparr>)" for f n d b
    using core that p(1) by (intro locked_update [OF assms(1)]) (auto simp: core_ok_def log_times_def)
  have nf: "world_ok a \<and> no_funding_before a start" if "w = Some a" for a
    using core that p by (auto simp: core_ok_def deposit_true_def)
  let ?n = "if end1 < asked_at then Suc (ck_deposit_windows ck) else ck_deposit_windows ck"
  have n: "?n \<le> MAX_WINDOWS" using p(4) by simp
  show ?thesis
  proof (cases "changes_of_flows operations")
    case None
    have "ok_but w lg i (ck\<lparr>ck_deposit_from_ms := Some end1, ck_deposit_windows := MAX_WINDOWS\<rparr>)"
      using core p by (intro locked_update [OF assms(1)]) (auto simp: core_ok_def log_times_def deposit_true_def)
    with None ask_latest_ok [OF _ assms(2)] show ?thesis by (simp add: deposit_read_def)
  next
    case (Some changes)
    note w1 = window_first_funding [OF _ _ Some]
    let ?d = "first_deposit changes"
    have true: "deposit_true a (ck\<lparr>ck_deposit_from_ms := Some end1, ck_deposit_windows := ?n,
        ck_deposit := ?d, ck_deposit_caught_up := b\<rparr>)" if "w = Some a" for a b
      using w1 [of a start end1] nf [OF that] assms(4) that by (auto simp: deposit_true_def)
    have ok: "ok_but w lg i (ck\<lparr>ck_deposit_from_ms := Some end1, ck_deposit_windows := ?n,
        ck_deposit := ?d, ck_deposit_caught_up := b\<rparr>)" for b
      using true by (intro updated [OF n]) blast
    from ok [of "ck_deposit_caught_up ck"] ok [of True] p(1,3) Some ask_latest_ok [OF _ assms(2)]
      deposit_turn_ok [OF _ assms(2)]
    show ?thesis by (cases ?d) (auto simp: deposit_read_def Let_def no_deposit)
  qed
qed

subsection \<open>The walks\<close>

lemma take_lock_ok:
  assumes "ok_but w lg i ck" and "led w r" and "ck_lock ck \<noteq> Some i"
  shows "ck_ok w lg (take_lock now i r ck)"
proof -
  have "ck_ok w lg (put_run i (r\<lparr>rn_place := At_lock\<rparr>) ck)"
    using assms
    by (intro put_run_ok) (auto simp: waiting_def led_def going_def walks_back_def place_ok_def deposit_place_def)
  with deposit_locked_ok [OF assms(1,2)] show ?thesis by (simp add: take_lock_def)
qed

lemma walk_on_ok:
  assumes "ok_but w lg i ck" and "led w r" and "ck_lock ck \<noteq> Some i"
  shows "ck_ok w lg (walk_on now i r ck)"
proof -
  have "ck_ok w lg (put_run i (r\<lparr>rn_place := At_deals Walking_back s (wk_covered_from_ms (rn_walk r))\<rparr>) ck)"
    if "wk_windows (rn_walk r) < rn_limit r" for s
    using assms that
    by (intro put_run_ok)
       (auto simp: waiting_def led_def going_def walks_back_def place_ok_def deposit_place_def reading_ok_def)
  with take_lock_ok [OF assms] show ?thesis by (simp add: walk_on_def Let_def)
qed

lemma top_up_next_ok:
  assumes "ok_but w lg i ck" and "going w r" and "ck_lock ck \<noteq> Some i" and "rn_trader r \<noteq> None"
    and "\<forall>a. w = Some a \<longrightarrow> latest_ok a (wk_t_ms (rn_walk r)) latest"
  shows "ck_ok w lg (top_up_next stored now i r latest upper windows ck)"
proof (cases windows)
  case Nil
  have "ck_ok w lg (finish stored now i (r\<lparr>rn_walk := (rn_walk r)\<lparr>wk_upper_ms := upper\<rparr>\<rparr>) latest ck)"
    using assms by (intro finish_ok going_failed) auto
  with Nil show ?thesis by (simp add: top_up_next_def)
next
  case (Cons window others)
  have "ck_ok w lg (put_run i (r\<lparr>rn_place := At_deals (Topping_up latest upper others) s e\<rparr>) ck)" for s e
    using assms
    by (intro put_run_ok)
       (auto simp: waiting_def going_def walks_back_def place_ok_def deposit_place_def reading_ok_def)
  with Cons show ?thesis by (cases window) (simp add: top_up_next_def)
qed

lemma top_up_ok:
  assumes "ok_but w lg i ck" and "going w r" and "ck_lock ck \<noteq> Some i" and "rn_trader r \<noteq> None"
    and "\<forall>a. w = Some a \<longrightarrow> latest_ok a (wk_t_ms (rn_walk r)) latest"
  shows "ck_ok w lg (top_up stored now i r latest ck)"
  using finish_ok [OF assms(1,2,5,4)] top_up_next_ok [OF assms] by (simp add: top_up_def Let_def)

lemma after_window_ok:
  assumes "ok_but w lg i ck" and "waiting w r" and "ck_lock ck \<noteq> Some i" and "rn_trader r \<noteq> None"
    and "rn_place r = At_deals reading start end1 \<or> rn_place r = At_flows reading start end1 deals"
    and "wk_windows walk = wk_windows (rn_walk r)" and "wk_t_ms walk = wk_t_ms (rn_walk r)"
    and "\<forall>a. w = Some a \<longrightarrow> covered a walk \<and>
      (reading = Walking_back \<longrightarrow> (\<forall>trader. covered a (window_read start trader walk)))"
  shows "ck_ok w lg (after_window stored now i (r\<lparr>rn_walk := walk\<rparr>) reading start ck)"
proof (cases reading)
  case Walking_back
  obtain trader where t: "rn_trader r = Some trader" using assms(4) by blast
  have "wk_windows (rn_walk r) < rn_limit r"
    using assms(2,5) Walking_back by (auto simp: waiting_def walks_back_def)
  then have "led w (r\<lparr>rn_walk := window_read start trader walk\<rparr>)"
    using assms(2,4,6,8) Walking_back by (auto simp: led_def going_def waiting_def)
  from walk_on_ok [OF assms(1) this assms(3)] Walking_back t show ?thesis by (simp add: after_window_def)
next
  case (Topping_up latest upper others)
  have "\<forall>a. w = Some a \<longrightarrow> latest_ok a (wk_t_ms walk) latest"
    using assms(2,5,7) Topping_up by (auto simp: waiting_def place_ok_def reading_ok_def)
  moreover have "going w (r\<lparr>rn_walk := walk\<rparr>)" using assms(2,6,8) by (auto simp: going_def waiting_def)
  ultimately show ?thesis using assms(1,3,4) Topping_up by (simp add: after_window_def top_up_next_ok)
qed

lemma deals_read_ok:
  assumes "ok_but w lg i ck" and "waiting w r" and "ck_lock ck \<noteq> Some i" and "rn_trader r \<noteq> None"
    and "rn_place r = At_deals reading start end1"
    and "\<forall>a. w = Some a \<longrightarrow> snd found \<longrightarrow> lists_deals a start end1 (wk_t_ms (rn_walk r)) (fst found)"
  shows "ck_ok w lg (deals_read stored now i r reading start end1 found ck)"
proof (cases found)
  case (Pair deals ended)
  let ?walk = "(rn_walk r)\<lparr>wk_failure := Some INCOMPLETE\<rparr>"
  have "\<forall>a. w = Some a \<longrightarrow> covered a ?walk \<and> (\<forall>trader. covered a (window_read start trader ?walk))"
    using assms(2) covered_failed by (auto simp: waiting_def going_def)
  then have "ck_ok w lg (after_window stored now i (r\<lparr>rn_walk := ?walk\<rparr>) reading start ck)"
    using assms by (intro after_window_ok) auto
  moreover have "ck_ok w lg (put_run i (r\<lparr>rn_place := At_flows reading start end1 deals\<rparr>) ck)" if ended
    using assms that Pair
    by (intro put_run_ok)
       (auto simp: waiting_def going_def walks_back_def place_ok_def deposit_place_def)
  ultimately show ?thesis using Pair by (simp add: deals_read_def)
qed

lemma flows_read_ok:
  assumes "ok_but w lg i ck" and "waiting w r" and "ck_lock ck \<noteq> Some i" and "rn_trader r \<noteq> None"
    and "rn_place r = At_flows reading start end1 deals"
    and "\<forall>a. w = Some a \<longrightarrow> lists_flows a start end1 (Some (wk_t_ms (rn_walk r))) operations"
  shows "ck_ok w lg (flows_read stored now i r reading start deals operations ck)"
proof -
  let ?walk = "add_window deals operations (rn_walk r)"
  have "covered a ?walk \<and> (reading = Walking_back \<longrightarrow> (\<forall>trader. covered a (window_read start trader ?walk)))"
    if "w = Some a" for a
  proof -
    have p: "covered a (rn_walk r)" "lists_deals a start end1 (wk_t_ms (rn_walk r)) deals"
      "lists_flows a start end1 (Some (wk_t_ms (rn_walk r))) operations"
      "reading = Walking_back \<longrightarrow> end1 = wk_covered_from_ms (rn_walk r)"
      using assms(2,5,6) that by (auto simp: waiting_def going_def place_ok_def reading_ok_def)
    from covered_add_window [OF p(1-3)] covered_window_read [OF p(1-3)] p(4) show ?thesis by blast
  qed
  then show ?thesis using assms unfolding flows_read_def by (intro after_window_ok) auto
qed

subsection \<open>The steps\<close>

lemma checkpoint_at_past: "checkpoint_at now hour zone = Inr t \<Longrightarrow> t * 1000 \<le> now"
proof -
  assume "checkpoint_at now hour zone = Inr t"
  then obtain day where "(case find (\<lambda>checkpoint. checkpoint * 1000 \<le> now)
      (map (\<lambda>back. occurrence (day - back) hour zone) [0, 1, 2]) of
      None \<Rightarrow> Inl NoCheckpointWithinThreeDays | Some checkpoint \<Rightarrow> Inr checkpoint) = Inr t"
    unfolding checkpoint_at_def bind_result_Inr by blast
  then have "find (\<lambda>checkpoint. checkpoint * 1000 \<le> now)
      (map (\<lambda>back. occurrence (day - back) hour zone) [0, 1, 2]) = Some t"
    by (auto simp del: list.map split: option.splits)
  then show "t * 1000 \<le> now" unfolding find_Some_iff by blast
qed

lemma begin_run_ok:
  assumes "ok_but w lg i ck" and "ck_lock ck \<noteq> Some i"
    and "\<forall>a t. w = Some a \<and> trader = Some t \<longrightarrow> tr_registrationTimestamp t = w_registration a"
  shows "ck_ok w lg (begin_run cfg now i trader bounded background ck)"
proof -
  let ?c = "ck\<lparr>ck_deposit_caught_up := False\<rparr>"
  have c: "ok_but w lg i ?c" using assms(1) by (simp add: ok_but_def)
  have "ck_ok w lg (if trader = None then put_run i r ?c else walk_on now i r ?c)"
    if "t * 1000 \<le> now" "r = \<lparr>rn_walk = new_walk (t * 1000) now, rn_trader = trader,
        rn_limit = (if bounded then START_WINDOWS else MAX_WINDOWS), rn_background = background, rn_place = At_trader\<rparr>"
    for t r
  proof -
    have g: "going w r" using assms(3) covered_new [OF that(1)]
      by (auto simp: that(2) going_def new_walk_def START_WINDOWS_def MAX_WINDOWS_def)
    then have "ck_ok w lg (put_run i r ?c)" using c assms(2)
      by (intro put_run_ok) (auto simp: waiting_def walks_back_def place_ok_def deposit_place_def that(2))
    moreover have "led w r" if "trader \<noteq> None" using g that \<open>r = _\<close> by (simp add: led_def)
    ultimately show ?thesis using walk_on_ok [OF c] assms(2) by simp
  qed
  note begun = this [OF checkpoint_at_past refl]
  show ?thesis
  proof (cases "cc_hour cfg")
    case None
    with end_run_but [OF c] show ?thesis by (simp add: begin_run_def)
  next
    case (Some hour)
    show ?thesis
    proof (cases "checkpoint_at now hour (cc_zone cfg)")
      case (Inl e)
      with end_run_but [OF c] Some show ?thesis by (simp add: begin_run_def)
    next
      case (Inr t)
      with begun [OF Inr] Some show ?thesis by (simp add: begin_run_def Let_def)
    qed
  qed
qed

lemma put_value_off_ok:
  assumes "ck_ok w lg ck"
  shows "ck_ok w lg (snd (put_value stored OFF ck))"
proof -
  have "value_true a OFF" for a by (simp add: value_true_def OFF_def)
  with assms show ?thesis
    by (auto simp: put_value_def ck_ok_def core_ok_def log_times_def List.map_filter_def OFF_def deposit_true_def)
qed

lemma fresh_run:
  assumes "ck_ok w lg ck"
  shows "ok_but w lg (ck_next_run ck) (ck\<lparr>ck_next_run := Suc (ck_next_run ck)\<rparr>)" "ck_lock ck \<noteq> Some (ck_next_run ck)"
proof -
  have r: "runs_ok w None ck" "core_ok w lg ck" using assms by (simp_all add: ck_ok_def)
  then have "ck_ok w lg (ck\<lparr>ck_next_run := Suc (ck_next_run ck)\<rparr>)" by (simp add: ck_ok_def runs_ok_next)
  then show "ok_but w lg (ck_next_run ck) (ck\<lparr>ck_next_run := Suc (ck_next_run ck)\<rparr>)" by (rule ok_but_of) simp
  show "ck_lock ck \<noteq> Some (ck_next_run ck)"
    using runs_ok_lockD [OF r(1)] runs_okD(1) [OF r(1)] by (fastforce simp: holds_lock_def)
qed

lemma refresh_ok:
  assumes "ck_ok w lg ck" and "\<forall>a. w = Some a \<longrightarrow> tr_registrationTimestamp trader = w_registration a"
  shows "ck_ok w lg (refresh cfg now stored trader bounded ck)"
  using cancel_task_ok(1) [OF assms(1)] fresh_run [OF cancel_task_ok(1) [OF assms(1)]] assms(2)
  by (auto simp: refresh_def Let_def put_value_off_ok intro!: begin_run_ok)

lemma arm_ok:
  assumes "ck_ok w lg ck" and "\<not> ck_stopped ck"
  shows "ck_ok w lg (snd (arm cfg after_ms ck))" "ck_stopped (snd (arm cfg after_ms ck)) = ck_stopped ck"
  using assms core_timer [of w lg ck]
  by (auto simp: arm_def Let_def ck_ok_def split: option.splits sum.splits)

lemma fire_ok:
  assumes "ck_ok w lg ck"
  shows "ck_ok w lg (fire cfg now ck)"
proof (cases "ck_timer ck")
  case None
  with assms show ?thesis by (simp add: fire_def)
next
  case (Some t_ms)
  with assms have "\<not> ck_stopped ck" by (auto simp: ck_ok_def core_ok_def)
  note armed = arm_ok [OF assms this, of cfg "max t_ms (now - GRACE_MS)"] this
  have "covered a (new_walk 0 0)" for a by (simp add: covered_new)
  then have "waiting w idle_run"
    by (simp add: waiting_def going_def walks_back_def place_ok_def idle_run_def new_walk_def)
  then have "ck_ok w lg (start_task idle_run (snd (arm cfg (max t_ms (now - GRACE_MS)) ck)))"
    using armed by (intro start_task_ok) (simp_all add: idle_run_def reads_deposit_def)
  with Some armed show ?thesis by (auto simp: fire_def split_beta)
qed

lemma ck_stop_ok:
  assumes "ck_ok w lg ck"
  shows "ck_ok w lg (ck_stop ck)" "ck_ok w (Some (ck_log ck)) (ck_stop ck)"
proof -
  define c where "c = cancel_task ck"
  have c: "ck_ok w lg c" "ck_task c = None" "ck_log c = ck_log ck"
    using cancel_task_ok [OF assms] by (simp_all add: c_def)
  have eq: "ck_stop ck = c\<lparr>ck_stopped := True, ck_timer := None\<rparr>"
    by (auto simp: ck_stop_def c_def cancel_task_def end_run_def release_def split: option.splits)
  from c show "ck_ok w lg (ck_stop ck)" "ck_ok w (Some (ck_log ck)) (ck_stop ck)"
    by (auto simp: eq ck_ok_def core_ok_def log_times_def deposit_true_def)
qed

lemma at_no_deposit:
  assumes "ck_ok w lg ck" and "map_of (ck_runs ck) i = Some r" and "\<not> reads_deposit (rn_place r)"
  shows "ck_lock ck \<noteq> Some i"
  using assms runs_ok_lockD [of w None ck i] by (auto simp: ck_ok_def holds_lock_def)

lemma newer_latest:
  assumes "tr_registrationTimestamp t1 = w_registration a" and "latest_ok a t_ms t2"
    and "tr_balanceVersion t2 = None \<longrightarrow> tr_balanceVersion t1 = None"
  shows "latest_ok a t_ms (newer t1 t2)"
  using assms by (fastforce simp: newer_def latest_ok_def up_to_date_def Let_def split: option.splits)

lemma waiting_led: "waiting w r \<Longrightarrow> rn_place r \<noteq> At_trader \<Longrightarrow> rn_place r \<noteq> At_begin_run \<Longrightarrow> led w r \<and> rn_trader r \<noteq> None"
  by (simp add: waiting_def led_def)

lemma answered_run_ok:
  assumes "ck_ok w lg ck" and "map_of (ck_runs ck) i = Some r"
    and "\<forall>a. w = Some a \<longrightarrow> honest_answer a r answer"
  shows "ck_ok w lg (answered_run stored now i r answer ck)"
proof -
  have r: "i < ck_next_run ck" "waiting w r" "deposit_place i ck (rn_place r)"
    using runs_okD [of w None ck i r] assms(1,2) by (simp_all add: ck_ok_def)
  have but: "ok_but w lg i ck" by (rule ok_but_of [OF assms(1) r(1)])
  have g: "going w r" using r(2) by (simp add: waiting_def)
  note fails = run_fails_ok [OF but g]
  note free = at_no_deposit [OF assms(1,2)]
  show ?thesis
  proof (cases "rn_place r")
    case At_trader
    have "ck_ok w lg (walk_on now i (r\<lparr>rn_trader := Some trader\<rparr>) ck)"
      if "answer = Trader_answer (Inr trader)" for trader
    proof (rule walk_on_ok [OF but])
      show "led w (r\<lparr>rn_trader := Some trader\<rparr>)"
        using g assms(3) At_trader that by (simp add: led_def going_def honest_answer_def)
      show "ck_lock ck \<noteq> Some i" using free At_trader by (simp add: reads_deposit_def)
    qed
    with fails assms(1) At_trader show ?thesis by (auto simp: answered_run_def split: answer.split sum.split)
  next
    case (At_deals reading start end1)
    have "ck_ok w lg (deals_read stored now i r reading start end1 found ck)"
      if "answer = Deals_answer (Inr found)" for found
      using but r(2) free waiting_led [OF r(2)] At_deals assms(3) that
      by (intro deals_read_ok) (auto simp: reads_deposit_def honest_answer_def split_beta)
    with fails assms(1) At_deals show ?thesis by (auto simp: answered_run_def split: answer.split sum.split)
  next
    case (At_flows reading start end1 deals)
    have "ck_ok w lg (flows_read stored now i r reading start deals operations ck)"
      if "answer = Flows_answer (Inr operations)" for operations
      using but r(2) free waiting_led [OF r(2)] At_flows assms(3) that
      by (intro flows_read_ok) (auto simp: reads_deposit_def honest_answer_def)
    with fails assms(1) At_flows show ?thesis by (auto simp: answered_run_def split: answer.split sum.split)
  next
    case (At_deposit left start end1 asked_at)
    have "ck_ok w lg (deposit_read now i r left end1 asked_at operations ck)"
      if "answer = Flows_answer (Inr operations)" for operations
      using but r(2,3) waiting_led [OF r(2)] At_deposit assms(3) that
      by (intro deposit_read_ok [where start=start]) (auto simp: honest_answer_def)
    with fails assms(1) At_deposit show ?thesis by (auto simp: answered_run_def split: answer.split sum.split)
  next
    case At_latest
    obtain trader where t: "rn_trader r = Some trader" using waiting_led [OF r(2)] At_latest by auto
    have "ck_ok w lg (top_up stored now i r (newer trader second_read) ck)"
      if "answer = Trader_answer (Inr second_read)" for second_read
    proof (rule top_up_ok [OF but g])
      show "ck_lock ck \<noteq> Some i" using free At_latest by (simp add: reads_deposit_def)
      show "\<forall>a. w = Some a \<longrightarrow> latest_ok a (wk_t_ms (rn_walk r)) (newer trader second_read)"
        using g t assms(3) At_latest that
        by (intro allI impI newer_latest) (auto simp: going_def honest_answer_def latest_ok_def)
    qed (simp add: t)
    with fails assms(1) At_latest t show ?thesis by (auto simp: answered_run_def split: answer.split sum.split)
  qed (use assms(1) in \<open>simp_all add: answered_run_def split: answer.split sum.split\<close>)
qed

lemma ck_step_ok:
  assumes "ck_ok w lg ck" and "\<forall>a. w = Some a \<longrightarrow> honest a ev ck"
  shows "ck_ok w lg (ck_step cfg ev ck)"
proof -
  have run: "i < ck_next_run ck" "waiting w r" if "map_of (ck_runs ck) i = Some r" for i r
    using runs_okD [of w None ck i r] assms(1) that by (simp_all add: ck_ok_def)
  note but = ok_but_of [OF assms(1) run(1)]
  note free = at_no_deposit [OF assms(1)]
  show ?thesis
  proof (cases ev)
    case (Refresh now stored trader bounded)
    with assms show ?thesis by (simp add: ck_step_def refresh_ok honest_def)
  next
    case (Schedule now)
    with assms(1) show ?thesis by (simp add: ck_step_def ck_schedule_def arm_ok)
  next
    case (Fire now)
    with assms(1) show ?thesis by (simp add: ck_step_def fire_ok)
  next
    case Stop
    with assms(1) show ?thesis by (simp add: ck_step_def ck_stop_ok)
  next
    case (Cancel i)
    with assms(1) show ?thesis by (simp add: ck_step_def end_run_ok)
  next
    case (Begin now i)
    have "ck_ok w lg (walk_on now i r ck)" if "map_of (ck_runs ck) i = Some r" "rn_place r = At_begin" for r
      using but [OF that(1)] waiting_led [OF run(2) [OF that(1)]] free [OF that(1)] that(2)
      by (intro walk_on_ok) (simp_all add: reads_deposit_def)
    moreover have "ck_ok w lg (begin_run cfg now i None False True ck)"
      if "map_of (ck_runs ck) i = Some r" "rn_place r = At_begin_run" for r
      using but [OF that(1)] free [OF that(1)] that(2) by (intro begin_run_ok) (simp_all add: reads_deposit_def)
    ultimately show ?thesis using assms(1) Begin by (simp add: ck_step_def split: option.split)
  next
    case (Lock_free now i)
    have "ck_ok w lg (deposit_locked now i r ck)"
      if "map_of (ck_runs ck) i = Some r" "rn_place r = At_lock" "ck_lock ck = None" for r
      using but [OF that(1)] waiting_led [OF run(2) [OF that(1)]] that(2,3) by (intro deposit_locked_ok) simp_all
    with assms(1) Lock_free show ?thesis by (simp add: ck_step_def split: option.split)
  next
    case (Reply now stored i answer)
    with assms show ?thesis by (auto simp: ck_step_def honest_def answered_run_ok split: option.splits)
  qed
qed

lemma ck_run_ok:
  assumes "ck_ok w lg ck" and "\<forall>a. w = Some a \<longrightarrow> honest_run a cfg evs ck"
  shows "ck_ok w lg (ck_run cfg evs ck)"
  using assms
proof (induction evs arbitrary: ck)
  case (Cons ev evs)
  have "ck_ok w lg (ck_step cfg ev ck)" using Cons.prems by (intro ck_step_ok) auto
  then show ?case using Cons by (simp add: ck_run_def)
qed (simp add: ck_run_def)

lemma new_ok: "(\<forall>a. w = Some a \<longrightarrow> world_ok a) \<Longrightarrow> ck_ok w None new_BalanceCheckpoint"
  by (simp add: ck_ok_def core_ok_def runs_ok_def new_BalanceCheckpoint_def log_times_def
      deposit_true_def List.map_filter_def)

subsection \<open>Properties\<close>

text \<open>
  The key never goes back to an earlier checkpoint: whatever refreshes, timers, background runs,
  lost connections and cancellations overlap, and in whatever order their requests are answered, the
  checkpoints of the values written never decrease.\<close>

theorem written_checkpoints_never_go_back:
  "sorted (log_times (ck_run cfg evs new_BalanceCheckpoint))"
  using ck_run_ok [OF new_ok [of None], of cfg evs] by (simp add: ck_ok_def core_ok_def)

text \<open>
  Nothing is written or started after \<open>stop\<close>: the values written stay those of the moment of the stop,
  no timer is armed and no background task is there, whatever comes in later.\<close>

theorem nothing_written_after_stop:
  "let stopped = ck_run cfg evs new_BalanceCheckpoint; later = ck_run cfg evs' (ck_stop stopped)
   in ck_log later = ck_log stopped \<and> ck_timer later = None \<and> ck_task later = None"
proof -
  let ?s = "ck_run cfg evs new_BalanceCheckpoint"
  have "ck_ok None (Some (ck_log ?s)) (ck_run cfg evs' (ck_stop ?s))"
    using ck_stop_ok(2) [OF ck_run_ok [OF new_ok [of None], of cfg evs]] by (intro ck_run_ok) simp_all
  then show ?thesis by (simp add: Let_def ck_ok_def core_ok_def)
qed

text \<open>
  The walks are bounded and do not share a window: in every state that is reached each walk back has
  read at most 156 windows, the first-deposit walk has counted at most 156, at most one run
  waits for a window of it, which starts where that walk has come to and is of a week at most, and the
  lock they share is held by no other.\<close>

theorem walks_are_bounded_and_exclusive:
  "let ck = ck_run cfg evs new_BalanceCheckpoint in
   (\<forall>i r. map_of (ck_runs ck) i = Some r \<longrightarrow> wk_windows (rn_walk r) \<le> MAX_WINDOWS) \<and>
   ck_deposit_windows ck \<le> MAX_WINDOWS \<and>
   (\<forall>i r left start end1 asked_at. map_of (ck_runs ck) i = Some r \<and>
      rn_place r = At_deposit left start end1 asked_at \<longrightarrow>
      ck_lock ck = Some i \<and> ck_deposit_from_ms ck = Some start \<and> end1 \<le> start + WEEK_MS) \<and>
   (\<forall>i. ck_lock ck = Some i \<longrightarrow>
      (\<exists>r left start end1 asked_at. map_of (ck_runs ck) i = Some r \<and>
         rn_place r = At_deposit left start end1 asked_at))"
proof -
  let ?c = "ck_run cfg evs new_BalanceCheckpoint"
  have ok: "core_ok None None ?c" "runs_ok None None ?c"
    using ck_run_ok [OF new_ok [of None], of cfg evs] by (simp_all add: ck_ok_def)
  have "wk_windows (rn_walk r) \<le> MAX_WINDOWS" if "map_of (ck_runs ?c) i = Some r" for i r
    using runs_okD(2) [OF ok(2) that] by (simp add: waiting_def going_def)
  moreover have "ck_lock ?c = Some i \<and> ck_deposit_from_ms ?c = Some start \<and> end1 \<le> start + WEEK_MS"
    if "map_of (ck_runs ?c) i = Some r" "rn_place r = At_deposit left start end1 asked_at" for i r left start end1 asked_at
    using runs_okD(3) [OF ok(2) that(1)] that(2) by (simp add: deposit_place_def)
  moreover have "\<exists>r left start end1 asked_at. map_of (ck_runs ?c) i = Some r \<and>
      rn_place r = At_deposit left start end1 asked_at" if "ck_lock ?c = Some i" for i
    using runs_ok_lockD [OF ok(2) that] reads_deposit_place unfolding holds_lock_def by blast
  ultimately show ?thesis using ok(1) unfolding Let_def core_ok_def by blast
qed

text \<open>
  C28: What the key states is true of the account. If the broker's lists have the account's deals and cash flows
  of the windows asked for and the traders read last include what was made before the checkpoint, then through any
  interleaving of runs every value written as available is the balance of the account's own ledger immediately before
  the value's checkpoint. A first deposit it states is that of the account's first funding, where the broker states
  when the account was registered; without a registration time there is no walk from it, nothing is promised of the
  first deposit, and it may be a later one made on a zero balance.\<close>

theorem written_values_are_the_accounts:
  assumes "world_ok w" and "honest_run w cfg evs new_BalanceCheckpoint"
    and "v \<in> set (ck_log (ck_run cfg evs new_BalanceCheckpoint))"
  shows "(cv_status v = Cp_available \<longrightarrow> (\<exists>t. cv_checkpoint_ms v = Some t \<and>
       cv_balance v = Some (ledger_balance t (w_ledger w)))) \<and>
     (\<forall>b. w_registration w \<noteq> None \<and> cv_first_deposit v = Some b \<longrightarrow>
        (\<exists>x. first_funding w x \<and> b = ch_balance x))"
proof -
  have "ck_ok (Some w) None (ck_run cfg evs new_BalanceCheckpoint)"
    using assms(1,2) by (intro ck_run_ok new_ok) simp_all
  with assms(3) show ?thesis by (simp add: ck_ok_def core_ok_def value_true_def)
qed

subsection \<open>Witnesses\<close>

definition sample_deposit :: ProtoOADepositWithdraw where
  "sample_deposit = \<lparr>balanceHistoryId = 7, operationType = BALANCE_DEPOSIT, dw_balance = 500, dw_delta = 500,
     changeBalanceTimestamp = 1000, dw_balanceVersion = Some 1, dw_moneyDigits = Some 2\<rparr>"

definition sample_closing :: ProtoOADeal where
  "sample_closing = default_deal\<lparr>dealId := 9, executionTimestamp := 90000000,
     f_closePositionDetail := Some \<lparr>grossProfit = -20, cd_swap = 0, cd_commission = 0, cd_balance = 480,
       f_balanceVersion = Some 2, cd_moneyDigits = Some 2, pnlConversionFee = 0\<rparr>\<rparr>"

definition sample_funding_change :: BalanceChange where
  "sample_funding_change = \<lparr>ch_ts_ms = 1000, ch_version = 1, ch_balance = 500, ch_delta = Some 500,
     ch_money_digits = 2, ch_cash_flow = True, ch_deposit = Some True\<rparr>"

definition sample_closing_change :: BalanceChange where
  "sample_closing_change = \<lparr>ch_ts_ms = 90000000, ch_version = 2, ch_balance = 480, ch_delta = Some (-20),
     ch_money_digits = 2, ch_cash_flow = False, ch_deposit = None\<rparr>"

definition sample_account :: account_world where
  "sample_account = \<lparr>w_ledger = [sample_funding_change, sample_closing_change],
     w_deals = [9 \<mapsto> sample_closing_change], w_flows = [7 \<mapsto> sample_funding_change], w_registration = Some 1000\<rparr>"

definition sample_trader :: ProtoOATrader where
  "sample_trader = \<lparr>tr_balance = 480, tr_balanceVersion = Some 2, tr_moneyDigits = Some 2,
     tr_registrationTimestamp = Some 1000\<rparr>"

definition sample_midnight :: checkpoint_config where
  "sample_midnight = \<lparr>cc_hour = Some 0, cc_zone = \<lparr>wall_of = (\<lambda>t. t), utc_of = (\<lambda>_ t. t)\<rparr>\<rparr>"

definition sample_refresh :: "ck_event list" where
  "sample_refresh =
     [Refresh 100000000 True sample_trader False,
      Reply 100000001 True 0 (Deals_answer (Inr ([sample_closing], True))),
      Reply 100000002 True 0 (Flows_answer (Inr [sample_deposit])),
      Reply 100000003 True 0 (Flows_answer (Inr [sample_deposit])),
      Reply 100000004 True 0 (Trader_answer (Inr sample_trader))]"

definition sample_at :: "nat \<Rightarrow> BalanceCheckpoint" where
  "sample_at n = ck_run sample_midnight (take n sample_refresh) new_BalanceCheckpoint"

definition run_at :: "BalanceCheckpoint \<Rightarrow> (place \<times> int \<times> ProtoOATrader option) option" where
  "run_at ck = map_option (\<lambda>r. (rn_place r, wk_t_ms (rn_walk r), rn_trader r)) (map_of (ck_runs ck) 0)"

lemma sample_places:
  "run_at (sample_at (Suc 0)) = Some (At_deals Walking_back 0 100000000, 86400000, Some sample_trader)"
  "run_at (sample_at 2) = Some (At_flows Walking_back 0 100000000 [sample_closing], 86400000, Some sample_trader)"
  "run_at (sample_at 3) = Some (At_deposit 155 1000 100000002 100000002, 86400000, Some sample_trader)"
  "run_at (sample_at 4) = Some (At_latest, 86400000, Some sample_trader)"
  by code_simp+

lemma sample_written:
  "ck_log (sample_at 5) = [\<lparr>cv_status = Cp_available, cv_checkpoint_ms = Some 86400000, cv_balance = Some 500,
     cv_reason = None, cv_first_deposit = Some 500, cv_money_digits = Some 2\<rparr>]"
  by code_simp

lemma honest_run_nth:
  "(\<forall>k<length evs. honest w (evs ! k) (ck_run cfg (take k evs) ck)) \<Longrightarrow> honest_run w cfg evs ck"
proof (induction evs arbitrary: ck)
  case (Cons ev evs)
  have "honest w (evs ! k) (ck_run cfg (take k evs) (ck_step cfg ev ck))" if "k < length evs" for k
    using Cons.prems [rule_format, of "Suc k"] that by (simp add: ck_run_def)
  with Cons.IH have "honest_run w cfg evs (ck_step cfg ev ck)" by blast
  moreover have "honest w ev ck" using Cons.prems [rule_format, of 0] by (simp add: ck_run_def)
  ultimately show ?case by simp
qed simp

lemma honest_reply:
  assumes "run_at ck = Some (p, t, trader)"
    and "\<And>r. rn_place r = p \<Longrightarrow> wk_t_ms (rn_walk r) = t \<Longrightarrow> rn_trader r = trader \<Longrightarrow> honest_answer w r answer"
  shows "honest w (Reply now stored 0 answer) ck"
  using assms by (auto simp: run_at_def honest_def)

lemma sample_changes:
  "change_of_deal sample_closing = Inr (Some sample_closing_change)" "dealId sample_closing = 9"
  "change_of_cash_flow sample_deposit = Inr sample_funding_change" "balanceHistoryId sample_deposit = 7"
  by code_simp+

lemma sample_lists:
  "lists_deals sample_account s e b [sample_closing]"
  "s \<le> 1000 \<Longrightarrow> 1000 \<le> e \<Longrightarrow> lists_flows sample_account s e c [sample_deposit]"
  by (auto simp: lists_deals_def lists_flows_def sample_changes sample_account_def sample_funding_change_def
      split: if_splits)

lemma sample_honest: "honest_run sample_account sample_midnight sample_refresh new_BalanceCheckpoint"
proof (rule honest_run_nth, intro allI impI)
  fix k
  assume "k < length sample_refresh"
  then consider "k = 0" | "k = 1" | "k = 2" | "k = 3" | "k = 4" by (simp add: sample_refresh_def) linarith
  then have "honest sample_account (sample_refresh ! k) (sample_at k)"
  proof cases
    case 1
    then show ?thesis by (simp add: sample_refresh_def honest_def sample_trader_def sample_account_def)
  next
    case 2
    then show ?thesis using sample_lists(1)
      by (auto simp: sample_refresh_def honest_answer_def intro!: honest_reply [OF sample_places(1)])
  next
    case 3
    then show ?thesis using sample_lists(2)
      by (auto simp: sample_refresh_def honest_answer_def intro!: honest_reply [OF sample_places(2)])
  next
    case 4
    then show ?thesis using sample_lists(2)
      by (auto simp: sample_refresh_def honest_answer_def intro!: honest_reply [OF sample_places(3)])
  next
    case 5
    have "honest_answer sample_account r (Trader_answer (Inr sample_trader))"
      if "rn_place r = At_latest" "wk_t_ms (rn_walk r) = 86400000" "rn_trader r = Some sample_trader" for r
      using that by (auto simp: honest_answer_def up_to_date_def sample_trader_def sample_account_def
          sample_funding_change_def sample_closing_change_def)
    with 5 honest_reply [OF sample_places(4)] show ?thesis by (simp add: sample_refresh_def)
  qed
  then show "honest sample_account (sample_refresh ! k)
      (ck_run sample_midnight (take k sample_refresh) new_BalanceCheckpoint)"
    by (simp add: sample_at_def)
qed

lemma sample_world: "world_ok sample_account"
  by (auto simp: world_ok_def sample_account_def ledger_def ascending_def sample_funding_change_def
      sample_closing_change_def ran_def split: if_splits)

theorem written_values_are_the_accounts_witness:
  "\<exists>v\<in>set (ck_log (ck_run sample_midnight sample_refresh new_BalanceCheckpoint)).
     cv_status v = Cp_available \<and> cv_balance v = Some (ledger_balance 86400000 (w_ledger sample_account)) \<and>
     (\<exists>x. first_funding sample_account x \<and> cv_first_deposit v = Some (ch_balance x))"
proof -
  let ?v = "\<lparr>cv_status = Cp_available, cv_checkpoint_ms = Some 86400000, cv_balance = Some 500,
     cv_reason = None, cv_first_deposit = Some 500, cv_money_digits = Some 2\<rparr>"
  have v: "?v \<in> set (ck_log (ck_run sample_midnight sample_refresh new_BalanceCheckpoint))"
    using sample_written by (simp add: sample_at_def sample_refresh_def)
  have "w_registration sample_account \<noteq> None" by (simp add: sample_account_def)
  with written_values_are_the_accounts [OF sample_world sample_honest v] show ?thesis
    by (intro bexI [OF _ v]) auto
qed

theorem walks_are_bounded_and_exclusive_witness:
  "ck_lock (sample_at 3) = Some 0 \<and> ck_deposit_from_ms (sample_at 3) = Some 1000 \<and>
   (\<exists>r. map_of (ck_runs (sample_at 3)) 0 = Some r \<and> wk_windows (rn_walk r) \<le> MAX_WINDOWS)"
proof -
  obtain r where r: "map_of (ck_runs (sample_at 3)) 0 = Some r"
    "rn_place r = At_deposit 155 1000 100000002 100000002"
    using sample_places(3) by (auto simp: run_at_def)
  with walks_are_bounded_and_exclusive [of sample_midnight "take 3 sample_refresh"] show ?thesis
    unfolding Let_def sample_at_def by blast
qed

end
