(* ===== verification/Codec.thy ===== *)
theory Codec
  imports Prelude "HOL-Library.Word"
begin

text \<open>
  \<open>common/codec.py\<close>: frames and envelopes. A byte is an 8-bit word. What protobuf itself does -
  serialising and parsing a message or an envelope, a message's payload type, the classes of the
  generated modules - is the parameter record \<open>protobuf\<close>; that parsing inverts serialising is
  the named hypothesis \<open>protobuf_inverts\<close>.

  Shown here: a frame the code writes is read back, prefix, envelope and payload; a stream of
  frames is cut into exactly the bodies written, wherever the bytes happen to be split; no prefix
  announces more than the maximum; the registry gives each payload type its one class.
\<close>

type_synonym byte = "8 word"

definition LENGTH_PREFIX_BYTES :: nat where "LENGTH_PREFIX_BYTES = 4"

definition MAX_FRAME_BYTES :: nat where "MAX_FRAME_BYTES = 15000000"

datatype codec_error =
    CannotEncode int
  | FrameTooLong
  | PrefixLength nat
  | FrameLength nat
  | UndecodableEnvelope nat
  | MissingPayloadType
  | UnknownPayloadType int
  | UndecodablePayload int

record ProtoMessage =
  env_payloadType :: "int option"
  env_payload :: "byte list"
  env_clientMsgId :: "string option"

text \<open>One name of the generated modules: whether it is a message class, and its default type.\<close>

record 'c candidate =
  cand_name :: string
  cand_message :: "'c option"
  cand_default :: "int option"

record ('m, 'c) protobuf =
  serialize :: "'m \<Rightarrow> byte list option"
  payload_type :: "'m \<Rightarrow> int"
  parse_as :: "'c \<Rightarrow> byte list \<Rightarrow> 'm option"
  serialize_envelope :: "ProtoMessage \<Rightarrow> byte list"
  parse_envelope :: "byte list \<Rightarrow> ProtoMessage option"
  modules :: "'c candidate list"

subsection \<open>Length prefixes\<close>

text \<open>\<open>struct.pack("!I", n)\<close>, which raises beyond 32 bits, and \<open>struct.unpack\<close>.\<close>

definition pack_uint32 :: "nat \<Rightarrow> codec_error + byte list" where
  "pack_uint32 n =
     (if 2 ^ 32 \<le> n then Inl FrameTooLong
      else Inr [of_nat (n div 2 ^ 24), of_nat (n div 2 ^ 16), of_nat (n div 2 ^ 8), of_nat n])"

definition unpack_uint32 :: "byte list \<Rightarrow> nat" where
  "unpack_uint32 bytes = foldl (\<lambda>a b. a * 256 + unat b) 0 bytes"

definition decode_length :: "byte list \<Rightarrow> codec_error + nat" where
  "decode_length prefix =
     (if length prefix \<noteq> LENGTH_PREFIX_BYTES then Inl (PrefixLength (length prefix))
      else let n = unpack_uint32 prefix
           in if MAX_FRAME_BYTES < n then Inl (FrameLength n) else Inr n)"

subsection \<open>Envelopes\<close>

definition encode_envelope ::
    "('m, 'c) protobuf \<Rightarrow> 'm \<Rightarrow> string option \<Rightarrow> codec_error + byte list" where
  "encode_envelope pb payload client_msg_id =
     (case serialize pb payload of
        None \<Rightarrow> Inl (CannotEncode (payload_type pb payload))
      | Some body \<Rightarrow>
          Inr (serialize_envelope pb
                 \<lparr>env_payloadType = Some (payload_type pb payload), env_payload = body,
                  env_clientMsgId = client_msg_id\<rparr>))"

definition encode_frame ::
    "('m, 'c) protobuf \<Rightarrow> 'm \<Rightarrow> string option \<Rightarrow> codec_error + byte list" where
  "encode_frame pb payload client_msg_id =
     bind_result (encode_envelope pb payload client_msg_id) (\<lambda>body.
     bind_result (pack_uint32 (length body)) (\<lambda>prefix. Inr (prefix @ body)))"

definition decode_envelope :: "('m, 'c) protobuf \<Rightarrow> byte list \<Rightarrow> codec_error + ProtoMessage" where
  "decode_envelope pb body =
     (case parse_envelope pb body of
        None \<Rightarrow> Inl (UndecodableEnvelope (length body))
      | Some envelope \<Rightarrow>
          if env_payloadType envelope = None then Inl MissingPayloadType else Inr envelope)"

subsection \<open>Payload classes\<close>

definition starts_with :: "string \<Rightarrow> string \<Rightarrow> bool" where
  "starts_with prefix s \<longleftrightarrow> take (length prefix) s = prefix"

text \<open>The candidates the loops keep, as (payload type, class).\<close>

definition candidate_entry :: "'c candidate \<Rightarrow> (int \<times> 'c) option" where
  "candidate_entry c =
     (if \<not> starts_with ''Proto'' (cand_name c) then None
      else case (cand_message c, cand_default c) of
        (Some cls, Some t) \<Rightarrow> Some (t, cls)
      | _ \<Rightarrow> None)"

text \<open>Claimed by two: the \<open>RuntimeError\<close>, with the payload type.\<close>

fun add_candidates :: "'c candidate list \<Rightarrow> (int, 'c) dict \<Rightarrow> int + (int, 'c) dict" where
  "add_candidates [] registry = Inr registry"
| "add_candidates (c # cs) registry =
     (case candidate_entry c of
        None \<Rightarrow> add_candidates cs registry
      | Some (t, cls) \<Rightarrow>
          if map_of registry t \<noteq> None then Inl t
          else add_candidates cs (AList.update t cls registry))"

definition build_registry :: "('m, 'c) protobuf \<Rightarrow> int + (int, 'c) dict" where
  "build_registry pb = add_candidates (modules pb) []"

datatype payload_error = Protocol codec_error | ClaimedTwice int

definition payload_class :: "('m, 'c) protobuf \<Rightarrow> int \<Rightarrow> payload_error + 'c" where
  "payload_class pb t =
     (case build_registry pb of
        Inl twice \<Rightarrow> Inl (ClaimedTwice twice)
      | Inr registry \<Rightarrow>
          (case map_of registry t of
             None \<Rightarrow> Inl (Protocol (UnknownPayloadType t))
           | Some cls \<Rightarrow> Inr cls))"

text \<open>\<open>decode_envelope\<close> has checked that the type is set; unset reads as 0.\<close>

definition parse_payload :: "('m, 'c) protobuf \<Rightarrow> ProtoMessage \<Rightarrow> payload_error + 'm" where
  "parse_payload pb envelope =
     (let t = (case env_payloadType envelope of None \<Rightarrow> 0 | Some t \<Rightarrow> t) in
      bind_result (payload_class pb t) (\<lambda>cls.
      case parse_as pb cls (env_payload envelope) of
        None \<Rightarrow> Inl (Protocol (UndecodablePayload t))
      | Some message \<Rightarrow> Inr message))"

subsection \<open>Error payloads\<close>

text \<open>The two error messages, as far as the code reads them.\<close>

datatype error_payload =
    OA_error string string "int option" "int option"
  | Common_error string string "int option"

record CTraderRequestError =
  error_code :: string
  description :: "string option"
  maintenance_end_secs :: "int option"
  retry_after_secs :: "int option"

definition nonempty :: "string \<Rightarrow> string option" where
  "nonempty s = (if s = [] then None else Some s)"

fun as_request_error :: "error_payload option \<Rightarrow> CTraderRequestError option" where
  "as_request_error (Some (OA_error code text maintenance retry)) =
     Some \<lparr>error_code = code, description = nonempty text, maintenance_end_secs = maintenance,
           retry_after_secs = retry\<rparr>"
| "as_request_error (Some (Common_error code text maintenance)) =
     Some \<lparr>error_code = code, description = nonempty text,
           maintenance_end_secs = map_option (\<lambda>ms. ms div 1000) maintenance,
           retry_after_secs = None\<rparr>"
| "as_request_error None = None"

subsection \<open>The stream\<close>

text \<open>
  The reading half of \<open>connection.py\<close>'s \<open>_read_loop\<close>: \<open>readexactly\<close> the prefix, then the body.
  What has arrived so far yields the bodies of its complete frames, the rest, and the error that
  stops the loop, if a prefix is refused.
\<close>

function read_bodies :: "byte list \<Rightarrow> byte list list \<times> byte list \<times> codec_error option" where
  "read_bodies bytes =
     (if length bytes < LENGTH_PREFIX_BYTES then ([], bytes, None)
      else case decode_length (take LENGTH_PREFIX_BYTES bytes) of
        Inl e \<Rightarrow> ([], bytes, Some e)
      | Inr n \<Rightarrow>
          let rest = drop LENGTH_PREFIX_BYTES bytes in
          if length rest < n then ([], bytes, None)
          else case read_bodies (drop n rest) of
            (bodies, left, e) \<Rightarrow> (take n rest # bodies, left, e))"
  by pat_completeness auto

termination read_bodies
  by (relation "measure length") (auto simp: LENGTH_PREFIX_BYTES_def)

declare read_bodies.simps [simp del]

subsection \<open>Frames are read back\<close>

lemma pack_uint32_length: "pack_uint32 n = Inr prefix \<Longrightarrow> length prefix = LENGTH_PREFIX_BYTES"
  by (auto simp: pack_uint32_def LENGTH_PREFIX_BYTES_def split: if_splits)

lemma unpack_pack: "pack_uint32 n = Inr prefix \<Longrightarrow> unpack_uint32 prefix = n"
proof -
  assume "pack_uint32 n = Inr prefix"
  then have n: "n < 2 ^ 32"
    and p: "prefix = [of_nat (n div 2 ^ 24), of_nat (n div 2 ^ 16), of_nat (n div 2 ^ 8), of_nat n]"
    by (auto simp: pack_uint32_def split: if_splits)
  have "unpack_uint32 prefix =
      ((n div 2 ^ 24 mod 256 * 256 + n div 2 ^ 16 mod 256) * 256 + n div 2 ^ 8 mod 256) * 256 + n mod 256"
    by (simp add: p unat_of_nat unpack_uint32_def)
  also have "n div 2 ^ 24 mod 256 = n div 2 ^ 16 div 256" using n by (simp add: div_mult2_eq [symmetric])
  also have "n div 2 ^ 16 div 256 * 256 + n div 2 ^ 16 mod 256 = n div 2 ^ 16"
    by (rule div_mult_mod_eq)
  also have "n div 2 ^ 16 = n div 2 ^ 8 div 256" by (simp add: div_mult2_eq [symmetric])
  also have "n div 2 ^ 8 div 256 * 256 + n div 2 ^ 8 mod 256 = n div 2 ^ 8"
    by (rule div_mult_mod_eq)
  also have "n div 2 ^ 8 = n div 256" by simp
  also have "n div 256 * 256 + n mod 256 = n" by simp
  finally show ?thesis .
qed

lemma decode_packed:
  "pack_uint32 n = Inr prefix \<Longrightarrow> n \<le> MAX_FRAME_BYTES \<Longrightarrow> decode_length prefix = Inr n"
  by (simp add: decode_length_def pack_uint32_length unpack_pack Let_def)

text \<open>What protobuf promises of the messages it generated.\<close>

definition protobuf_inverts :: "('m, 'c) protobuf \<Rightarrow> bool" where
  "protobuf_inverts pb \<longleftrightarrow>
     (\<forall>message body i. serialize pb message = Some body \<longrightarrow>
        (let envelope = \<lparr>env_payloadType = Some (payload_type pb message), env_payload = body,
                         env_clientMsgId = i\<rparr>
         in parse_envelope pb (serialize_envelope pb envelope) = Some envelope) \<and>
        (\<exists>cls. payload_class pb (payload_type pb message) = Inr cls \<and> parse_as pb cls body = Some message))"

lemma encode_frame_parts:
  assumes "encode_frame pb payload client_msg_id = Inr frame"
  obtains body prefix inner where "serialize pb payload = Some inner"
    "body = serialize_envelope pb \<lparr>env_payloadType = Some (payload_type pb payload),
       env_payload = inner, env_clientMsgId = client_msg_id\<rparr>"
    "pack_uint32 (length body) = Inr prefix" "frame = prefix @ body"
  using assms by (auto simp: encode_frame_def encode_envelope_def bind_result_Inr split: option.splits)

lemma read_bodies_frame:
  assumes "pack_uint32 (length body) = Inr prefix" and "length body \<le> MAX_FRAME_BYTES"
  shows "read_bodies (prefix @ body @ tail) =
    (case read_bodies tail of (bodies, left, e) \<Rightarrow> (body # bodies, left, e))"
  using pack_uint32_length [OF assms(1)] decode_packed [OF assms]
  by (subst read_bodies.simps) simp

lemma read_bodies_step:
  assumes "\<not> length a < LENGTH_PREFIX_BYTES" and "decode_length (take LENGTH_PREFIX_BYTES a) = Inr n"
    and "\<not> length (drop LENGTH_PREFIX_BYTES a) < n"
  shows "read_bodies (a @ b) =
    (case read_bodies (drop n (drop LENGTH_PREFIX_BYTES a) @ b) of
       (bs, l, e) \<Rightarrow> (take n (drop LENGTH_PREFIX_BYTES a) # bs, l, e))"
proof -
  let ?rest = "drop LENGTH_PREFIX_BYTES a"
  have "\<not> length (a @ b) < LENGTH_PREFIX_BYTES" "take LENGTH_PREFIX_BYTES (a @ b) = take LENGTH_PREFIX_BYTES a"
    "drop LENGTH_PREFIX_BYTES (a @ b) = ?rest @ b"
    using assms(1) by simp_all
  moreover have "\<not> length (?rest @ b) < n" "take n (?rest @ b) = take n ?rest"
    "drop n (?rest @ b) = drop n ?rest @ b"
    using assms(3) by simp_all
  ultimately show ?thesis
    using assms(2) by (subst read_bodies.simps) (simp only: Let_def if_False sum.case)
qed

lemma read_bodies_refused:
  assumes "\<not> length a < LENGTH_PREFIX_BYTES" and "decode_length (take LENGTH_PREFIX_BYTES a) = Inl e"
  shows "read_bodies (a @ b) = ([], a @ b, Some e)"
  using assms by (subst read_bodies.simps) simp

text \<open>Reading on from what was left gives the same as reading it all at once.\<close>

lemma read_bodies_append:
  assumes "read_bodies a = (bodies, left, None)"
  shows "read_bodies (a @ b) = (case read_bodies (left @ b) of (bs, l, e) \<Rightarrow> (bodies @ bs, l, e))"
  using assms
proof (induction a arbitrary: bodies left rule: read_bodies.induct)
  case (1 a)
  show ?case
  proof (cases "length a < LENGTH_PREFIX_BYTES")
    case True
    with "1.prems" show ?thesis by (auto simp: read_bodies.simps [of a] split: prod.splits)
  next
    case long: False
    with "1.prems" obtain n where n: "decode_length (take LENGTH_PREFIX_BYTES a) = Inr n"
      by (auto simp: read_bodies.simps [of a] split: sum.splits)
    let ?rest = "drop LENGTH_PREFIX_BYTES a"
    show ?thesis
    proof (cases "length ?rest < n")
      case True
      with "1.prems" long n show ?thesis by (auto simp: read_bodies.simps [of a] split: prod.splits)
    next
      case False
      obtain bs l e where r: "read_bodies (drop n ?rest) = (bs, l, e)" by (cases "read_bodies (drop n ?rest)")
      with "1.prems" long n False have e: "e = None" "bodies = take n ?rest # bs" "left = l"
        by (auto simp: read_bodies.simps [of a])
      from "1.IH" [OF long n refl False, of bs l] r e read_bodies_step [OF long n False, of b]
      show ?thesis by (auto split: prod.splits)
    qed
  qed
qed

lemma read_bodies_left:
  "read_bodies a = (bodies, left, None) \<Longrightarrow> read_bodies left = ([], left, None)"
  using read_bodies_append [of a bodies left "[]"] by (auto split: prod.splits)

lemma read_bodies_error:
  assumes "read_bodies a = (bodies, left, Some e)"
  shows "\<exists>l. read_bodies (a @ b) = (bodies, l, Some e)"
  using assms
proof (induction a arbitrary: bodies left rule: read_bodies.induct)
  case (1 a)
  have long: "\<not> length a < LENGTH_PREFIX_BYTES"
    using "1.prems" by (auto simp: read_bodies.simps [of a])
  show ?case
  proof (cases "decode_length (take LENGTH_PREFIX_BYTES a)")
    case (Inl err)
    with "1.prems" long read_bodies_refused [OF long Inl] show ?thesis
      by (auto simp: read_bodies.simps [of a])
  next
    case (Inr n)
    let ?rest = "drop LENGTH_PREFIX_BYTES a"
    have enough: "\<not> length ?rest < n"
      using "1.prems" long Inr by (auto simp: read_bodies.simps [of a])
    obtain bs l where r: "read_bodies (drop n ?rest) = (bs, l, Some e)" "bodies = take n ?rest # bs"
      using "1.prems" long Inr enough by (auto simp: read_bodies.simps [of a] split: prod.splits)
    from "1.IH" [OF long Inr refl enough r(1)] r(2) read_bodies_step [OF long Inr enough, of b]
    show ?thesis by auto
  qed
qed

text \<open>Bytes as they arrive: each chunk is read on from what the last one left.\<close>

definition feed ::
    "byte list \<Rightarrow> byte list list \<times> byte list \<times> codec_error option \<Rightarrow>
     byte list list \<times> byte list \<times> codec_error option" where
  "feed chunk st =
     (case st of
        (bodies, left, Some e) \<Rightarrow> (bodies, left @ chunk, Some e)
      | (bodies, left, None) \<Rightarrow>
          (case read_bodies (left @ chunk) of (bs, l, e) \<Rightarrow> (bodies @ bs, l, e)))"

lemma feed_chunks:
  assumes "read_bodies left0 = ([], left0, None)"
    and "read_bodies (left0 @ concat chunks) = (bodies, left, None)"
  shows "fold feed chunks (before, left0, None) = (before @ bodies, left, None)"
  using assms
proof (induction chunks arbitrary: before left0 bodies)
  case (Cons c cs)
  obtain bs l e where c: "read_bodies (left0 @ c) = (bs, l, e)" by (cases "read_bodies (left0 @ c)")
  have e: "e = None"
  proof (rule ccontr)
    assume "e \<noteq> None"
    with c Cons.prems(2) read_bodies_error [of "left0 @ c" bs l _ "concat cs"] show False by auto
  qed
  have whole: "read_bodies (left0 @ concat (c # cs)) =
      (case read_bodies (l @ concat cs) of (bs', l', e') \<Rightarrow> (bs @ bs', l', e'))"
    using read_bodies_append [OF c [unfolded e], of "concat cs"] by simp
  obtain bs' where rest: "read_bodies (l @ concat cs) = (bs', left, None)" "bodies = bs @ bs'"
    using whole Cons.prems(2) by (auto split: prod.splits)
  have "read_bodies l = ([], l, None)" using c e by (auto intro: read_bodies_left)
  from Cons.IH [OF this rest(1), of "before @ bs"] c e rest(2) show ?case
    by (simp add: feed_def)
qed simp

text \<open>What the reader makes of a body: the message and the id it answers to.\<close>

definition received ::
    "('m, 'c) protobuf \<Rightarrow> byte list \<Rightarrow> payload_error + (string option \<times> 'm)" where
  "received pb body =
     (case decode_envelope pb body of
        Inl e \<Rightarrow> Inl (Protocol e)
      | Inr envelope \<Rightarrow>
          bind_result (parse_payload pb envelope) (\<lambda>message. Inr (env_clientMsgId envelope, message)))"

lemma received_sent:
  assumes "protobuf_inverts pb" and "serialize pb payload = Some inner"
  shows "received pb (serialize_envelope pb \<lparr>env_payloadType = Some (payload_type pb payload),
       env_payload = inner, env_clientMsgId = i\<rparr>) = Inr (i, payload)"
proof -
  obtain cls where "payload_class pb (payload_type pb payload) = Inr cls"
    and "parse_as pb cls inner = Some payload"
    using assms unfolding protobuf_inverts_def by blast
  moreover have "parse_envelope pb (serialize_envelope pb
      \<lparr>env_payloadType = Some (payload_type pb payload), env_payload = inner, env_clientMsgId = i\<rparr>) =
      Some \<lparr>env_payloadType = Some (payload_type pb payload), env_payload = inner, env_clientMsgId = i\<rparr>"
    using assms unfolding protobuf_inverts_def Let_def by blast
  ultimately show ?thesis by (simp add: received_def decode_envelope_def parse_payload_def)
qed

lemma read_frames:
  assumes "protobuf_inverts pb"
    and "list_all2 (\<lambda>(message, i) frame. encode_frame pb message i = Inr frame \<and>
           length frame \<le> LENGTH_PREFIX_BYTES + MAX_FRAME_BYTES) sent frames"
  shows "\<exists>bodies. read_bodies (concat frames) = (bodies, [], None) \<and>
    map (received pb) bodies = map (\<lambda>(message, i). Inr (i, message)) sent"
  using assms(2)
proof (induction rule: list_all2_induct)
  case Nil
  then show ?case by (simp add: read_bodies.simps LENGTH_PREFIX_BYTES_def)
next
  case (Cons x sent frame frames)
  obtain message i where x: "x = (message, i)" by (cases x)
  from Cons.hyps(1) obtain body prefix inner where inner: "serialize pb message = Some inner"
    and body: "body = serialize_envelope pb \<lparr>env_payloadType = Some (payload_type pb message),
       env_payload = inner, env_clientMsgId = i\<rparr>"
    and prefix: "pack_uint32 (length body) = Inr prefix" and frame: "frame = prefix @ body"
    by (auto simp: x elim: encode_frame_parts)
  have "length body \<le> MAX_FRAME_BYTES"
    using Cons.hyps(1) frame pack_uint32_length [OF prefix] by (simp add: x)
  with Cons.IH received_sent [OF assms(1) inner] body show ?case
    using read_bodies_frame [OF prefix, of "concat frames"] by (auto simp: frame x)
qed

subsection \<open>Properties\<close>

text \<open>
  C35: What the connection writes is what its peer reads: frames written one after the other, each
  within the maximum, come out of the reader as the same messages under the same ids and in the
  same order, however the bytes are split on their way, with nothing left over and no error.
  Protobuf parses what it serialised.\<close>

theorem frames_are_read_back:
  assumes "protobuf_inverts pb"
    and "list_all2 (\<lambda>(message, i) frame. encode_frame pb message i = Inr frame \<and>
           length frame \<le> LENGTH_PREFIX_BYTES + MAX_FRAME_BYTES) sent frames"
    and "concat chunks = concat frames"
  shows "\<exists>bodies. fold feed chunks ([], [], None) = (bodies, [], None) \<and>
    map (received pb) bodies = map (\<lambda>(message, i). Inr (i, message)) sent"
proof -
  obtain bodies where b: "read_bodies (concat frames) = (bodies, [], None)"
    and r: "map (received pb) bodies = map (\<lambda>(message, i). Inr (i, message)) sent"
    using read_frames [OF assms(1,2)] by blast
  have "read_bodies [] = ([], [], None)" by (simp add: read_bodies.simps LENGTH_PREFIX_BYTES_def)
  then have "fold feed chunks ([], [], None) = ([] @ bodies, [], None)"
    using b assms(3) by (intro feed_chunks) simp_all
  with r show ?thesis by simp
qed

text \<open>
  No frame makes the reader take more than the maximum, and the prefix it accepts is the
  length of the body: \<open>decode_length\<close> accepts exactly the four bytes \<open>struct.pack\<close> writes for a
  length up to \<open>MAX_FRAME_BYTES\<close>.\<close>

theorem prefix_is_the_body_length:
  "decode_length prefix = Inr n \<longleftrightarrow> n \<le> MAX_FRAME_BYTES \<and> pack_uint32 n = Inr prefix"
proof
  assume d: "decode_length prefix = Inr n"
  then have len: "length prefix = 4" and n: "unpack_uint32 prefix = n" "n \<le> MAX_FRAME_BYTES"
    by (auto simp: decode_length_def LENGTH_PREFIX_BYTES_def Let_def split: if_splits)
  then obtain a b c e where p: "prefix = [a, b, c, e]"
    by (auto simp: length_Suc_conv numeral_eq_Suc)
  have bound: "unat x < 256" for x :: byte using unsigned_less [of x, where ?'a = nat] by simp
  have eq: "n = ((unat a * 256 + unat b) * 256 + unat c) * 256 + unat e"
    using n(1) by (simp add: p unpack_uint32_def)
  have "n div 2 ^ 8 = (unat a * 256 + unat b) * 256 + unat c"
    unfolding eq using bound [of e] by simp
  moreover from this have "n div 2 ^ 16 = unat a * 256 + unat b"
    using bound [of c] by (simp add: div_mult2_eq [of n 256 256, simplified])
  moreover from this have "n div 2 ^ 24 = unat a"
    using bound [of b] by (simp add: div_mult2_eq [of n 65536 256, simplified])
  moreover have "n < 2 ^ 32" using n(2) by (simp add: MAX_FRAME_BYTES_def)
  ultimately have "pack_uint32 n =
      Inr [of_nat (unat a), of_nat (unat a * 256 + unat b),
           of_nat ((unat a * 256 + unat b) * 256 + unat c), of_nat n]"
    by (simp add: pack_uint32_def)
  moreover have low: "of_nat (k * 256 + unat x) = x" for k and x :: byte
  proof -
    have "unat (of_nat (k * 256 + unat x) :: byte) = (k * 256 + unat x) mod 2 ^ 8"
      by (subst unat_of_nat) simp
    also have "\<dots> = unat x" using bound [of x] by simp
    finally show ?thesis by (simp only: word_unat_eq_iff)
  qed
  moreover have "of_nat n = e" unfolding eq by (rule low)
  moreover have "of_nat (unat a) = a" using low [of 0 a] by simp
  ultimately have "pack_uint32 n = Inr [a, b, c, e]" by (simp only: low)
  with p n(2) show "n \<le> MAX_FRAME_BYTES \<and> pack_uint32 n = Inr prefix" by simp
qed (simp add: decode_packed)

subsection \<open>A protobuf with one empty message\<close>

definition sample_envelope :: "int \<Rightarrow> string option \<Rightarrow> ProtoMessage" where
  "sample_envelope t i = \<lparr>env_payloadType = Some t, env_payload = [], env_clientMsgId = i\<rparr>"

definition sample_protobuf :: "int \<Rightarrow> (unit, unit) protobuf" where
  "sample_protobuf t =
     \<lparr>serialize = \<lambda>_. Some [], payload_type = \<lambda>_. t, parse_as = \<lambda>_ _. Some (),
      serialize_envelope = \<lambda>e. (case env_clientMsgId e of
          None \<Rightarrow> [0] | Some s \<Rightarrow> 1 # map (\<lambda>c. of_nat (of_char c)) s),
      parse_envelope = \<lambda>bytes. (case bytes of
          [] \<Rightarrow> None
        | b # bs \<Rightarrow> Some (sample_envelope t (if b = 0 then None else Some (map (\<lambda>b. char_of (unat b)) bs)))),
      modules = [\<lparr>cand_name = ''ProtoHeartbeatEvent'', cand_message = Some (), cand_default = Some t\<rparr>]\<rparr>"

lemma sample_protobuf_fields:
  "serialize (sample_protobuf t) m = Some []" "payload_type (sample_protobuf t) m = t"
  "parse_as (sample_protobuf t) u bytes = Some ()"
  "serialize_envelope (sample_protobuf t) e = (case env_clientMsgId e of
     None \<Rightarrow> [0] | Some s \<Rightarrow> 1 # map (\<lambda>c. of_nat (of_char c)) s)"
  "parse_envelope (sample_protobuf t) [] = None"
  "parse_envelope (sample_protobuf t) (b # bs) =
     Some (sample_envelope t (if b = 0 then None else Some (map (\<lambda>b. char_of (unat b)) bs)))"
  by (simp_all add: sample_protobuf_def)

lemma sample_protobuf_inverts: "protobuf_inverts (sample_protobuf t)"
proof -
  have "char_of (unat (of_nat (of_char c) :: byte)) = c" for c
    by (simp add: unat_of_nat)
  then have "map ((\<lambda>b. char_of (unat b)) \<circ> (\<lambda>c. of_nat (of_char c) :: byte)) s = s" for s :: string
    by (simp add: map_idI)
  moreover have "payload_class (sample_protobuf t) t = Inr ()"
    by (simp add: payload_class_def build_registry_def sample_protobuf_def candidate_entry_def starts_with_def)
  ultimately show ?thesis
    by (auto simp: protobuf_inverts_def sample_protobuf_fields sample_envelope_def split: option.splits)
qed

lemma sample_frames:
  "encode_frame (sample_protobuf 51) () None = Inr [0, 0, 0, 1, 0]"
  "encode_frame (sample_protobuf 51) () (Some ''A'') = Inr [0, 0, 0, 2, 1, 65]"
  by (simp_all add: encode_frame_def encode_envelope_def sample_protobuf_fields pack_uint32_def)

theorem frames_are_read_back_witness:
  "\<exists>bodies. fold feed [[0], [0, 0], [1, 0, 0, 0], [0, 2, 1], [65]] ([], [], None) = (bodies, [], None) \<and>
     map (received (sample_protobuf 51)) bodies = [Inr (None, ()), Inr (Some ''A'', ())]"
proof -
  have "list_all2 (\<lambda>(message, i) frame. encode_frame (sample_protobuf 51) message i = Inr frame \<and>
      length frame \<le> LENGTH_PREFIX_BYTES + MAX_FRAME_BYTES)
      [((), None), ((), Some ''A'')] [[0, 0, 0, 1, 0], [0, 0, 0, 2, 1, 65]]"
    by (simp add: sample_frames LENGTH_PREFIX_BYTES_def MAX_FRAME_BYTES_def)
  from frames_are_read_back [OF sample_protobuf_inverts this,
      of "[[0], [0, 0], [1, 0, 0, 0], [0, 2, 1], [65]]"] show ?thesis by simp
qed

end
