(* ===== verification/Connection.thy ===== *)
theory Connection
  imports Codec Rate_Limit_Pacing
begin

text \<open>
  \<open>common/connection.py\<close>: the socket connection, over the codec and the request scheduler. A
  request is a record that says how it was taken; one run of \<open>_exchange\<close> for it is a \<open>Call\<close>, whose
  future is None until it is done and which ends with an outcome. What the coroutines wait for
  are the events of \<open>conn_step\<close>, in any order: the scheduler's, a drain, a reply, a timer, bytes
  from the peer, the heartbeat's tick. A run of \<open>_exchange\<close> begins with the event \<open>Exchange\<close>; the
  code begins it at once when the scheduler grants the turn, so its order of steps is one of those
  covered. Opening the socket is one step. \<open>wire\<close> and \<open>told\<close> are ghost logs: the frames written,
  with the number of the connection and the call they were written by, and the handlers called.
  An exception a handler raises is logged by the code and changes nothing. Time is rational.
\<close>

subsection \<open>Errors\<close>

datatype conn_error =
    ConnectionClosed
  | ClosedByPeer
  | ReadFailed
  | ReadLoopFailed int
  | NoInboundData
  | WriteFailed
  | ConnectTimeout
  | CannotConnect
  | AlreadyConnected
  | ProtocolError codec_error
  | TimeoutError
  | QueueTimeoutError
  | NotSentConnectionError
  | NotSentProtocolError codec_error
  | RequestError CTraderRequestError
  | Cancelled

text \<open>The subclasses of \<open>CTraderNotSentError\<close>.\<close>

fun is_not_sent :: "conn_error \<Rightarrow> bool" where
  "is_not_sent QueueTimeoutError = True"
| "is_not_sent NotSentConnectionError = True"
| "is_not_sent (NotSentProtocolError _) = True"
| "is_not_sent _ = False"

subsection \<open>State\<close>

record ('m, 'c) conn_env =
  proto :: "('m, 'c) protobuf"
  error_of :: "'m \<Rightarrow> error_payload option"
  kind_of :: "'m \<Rightarrow> Rate_Limit.payload_type"
  heartbeat_event :: 'm
  heartbeat_idle_secs :: rat
  inbound_silence_secs :: rat
  request_timeout_secs :: rat

definition HEARTBEAT_EVENT :: int where "HEARTBEAT_EVENT = 51"

datatype how = Refused | Direct | Queued nat

record 'm Request =
  rq_payload :: 'm
  rq_generation :: nat
  rq_deadline :: rat
  rq_how :: how

record 'm Call =
  call_request :: nat
  call_id :: string
  call_future :: "(conn_error + 'm) option"
  call_written :: bool
  call_drained :: bool
  call_outcome :: "(conn_error + 'm) option"

datatype 'm told = Told_event 'm | Told_disconnect nat conn_error | Told_written nat

record 'm connection =
  connected :: bool
  writer_open :: bool
  generation :: nat
  pending :: "(string, nat) dict"
  last_send :: rat
  last_receive :: rat
  inbound :: "byte list"
  read_task :: bool
  heartbeat_task :: bool
  scheduler :: "RequestScheduler option"
  requests :: "'m Request list"
  calls :: "'m Call list"
  wire :: "(nat \<times> nat option \<times> byte list) list"
  told :: "'m told list"

text \<open>The constructor raises \<open>ValueError\<close> unless the silence it tolerates is positive.\<close>

definition new_connection :: "('m, 'c) conn_env \<Rightarrow> RequestScheduler option \<Rightarrow> 'm connection option" where
  "new_connection env s =
     (if inbound_silence_secs env \<le> 0 then None
      else Some \<lparr>connected = False, writer_open = False, generation = 0, pending = [],
        last_send = 0, last_receive = 0, inbound = [], read_task = False, heartbeat_task = False,
        scheduler = s, requests = [], calls = [], wire = [], told = []\<rparr>)"

subsection \<open>Loss and closing\<close>

definition set_call_future :: "nat \<Rightarrow> conn_error + 'm \<Rightarrow> 'm Call list \<Rightarrow> 'm Call list" where
  "set_call_future k v cs =
     (if k < length cs \<and> call_future (cs ! k) = None
      then cs[k := (cs ! k)\<lparr>call_future := Some v\<rparr>] else cs)"

definition reject_pending :: "conn_error \<Rightarrow> 'm connection \<Rightarrow> 'm connection" where
  "reject_pending e c =
     c\<lparr>pending := [], calls := fold (\<lambda>k. set_call_future k (Inl e)) (map snd (pending c)) (calls c)\<rparr>"

definition fail_queued :: "'m connection \<Rightarrow> 'm connection" where
  "fail_queued c = c\<lparr>scheduler := map_option fail_all (scheduler c)\<rparr>"

definition fail :: "conn_error \<Rightarrow> 'm connection \<Rightarrow> 'm connection" where
  "fail e c =
     (let was_connected = connected c;
          c = fail_queued (reject_pending e (c\<lparr>connected := False\<rparr>))
      in if was_connected then c\<lparr>told := told c @ [Told_disconnect (generation c) e]\<rparr> else c)"

definition begin_close :: "'m connection \<Rightarrow> 'm connection" where
  "begin_close c =
     (fail_queued (reject_pending ConnectionClosed (c\<lparr>connected := False\<rparr>)))
       \<lparr>heartbeat_task := False, read_task := False, writer_open := False, inbound := []\<rparr>"

subsection \<open>Connecting\<close>

datatype opened = Opened | Open_timeout | Open_failed

definition connect :: "rat \<Rightarrow> opened \<Rightarrow> 'm connection \<Rightarrow> 'm connection \<times> conn_error option" where
  "connect now answer c =
     (if connected c \<or> writer_open c then (c, Some AlreadyConnected)
      else case answer of
        Open_timeout \<Rightarrow> (c, Some ConnectTimeout)
      | Open_failed \<Rightarrow> (c, Some CannotConnect)
      | Opened \<Rightarrow>
          (c\<lparr>writer_open := True, generation := Suc (generation c), connected := True,
             scheduler := map_option reset (scheduler c), last_send := now, last_receive := now,
             inbound := [], read_task := True, heartbeat_task := True\<rparr>, None))"

subsection \<open>Requests\<close>

text \<open>\<open>request\<close> up to the run of \<open>_exchange\<close>.\<close>

definition request ::
    "('m, 'c) conn_env \<Rightarrow> rat \<Rightarrow> 'm \<Rightarrow> rat option \<Rightarrow> RequestPriority \<Rightarrow> 'm connection \<Rightarrow> 'm connection" where
  "request env now payload timeout_secs priority c =
     (let deadline = (case timeout_secs of None \<Rightarrow> request_timeout_secs env | Some t \<Rightarrow> t);
          taken = (\<lambda>h. c\<lparr>requests := requests c @
            [\<lparr>rq_payload = payload, rq_generation = generation c, rq_deadline = deadline, rq_how = h\<rparr>]\<rparr>)
      in if \<not> connected c then taken Refused
         else case scheduler c of
           None \<Rightarrow> taken Direct
         | Some s \<Rightarrow>
             (taken (Queued (next_sequence s)))
               \<lparr>scheduler := Some (submit now (group_of (kind_of env payload)) priority s)\<rparr>)"

definition encode :: "('m, 'c) protobuf \<Rightarrow> 'm \<Rightarrow> string \<Rightarrow> conn_error + byte list" where
  "encode pb payload client_msg_id =
     (case encode_frame pb payload (Some client_msg_id) of
        Inl e \<Rightarrow> Inl (NotSentProtocolError e) | Inr frame \<Rightarrow> Inr frame)"

text \<open>\<open>_write\<close> up to its drain, by the call numbered \<open>k\<close>.\<close>

definition write_frame ::
    "rat \<Rightarrow> nat \<Rightarrow> byte list \<Rightarrow> nat \<Rightarrow> 'm connection \<Rightarrow> conn_error + 'm connection" where
  "write_frame now k frame expected c =
     (if \<not> connected c \<or> \<not> writer_open c \<or> generation c \<noteq> expected
      then Inl NotSentConnectionError
      else Inr (c\<lparr>wire := wire c @ [(generation c, Some k, frame)], last_send := now,
                  calls := (calls c)[k := (calls c ! k)\<lparr>call_written := True\<rparr>],
                  told := told c @ [Told_written (call_request (calls c ! k))]\<rparr>))"

text \<open>What the scheduler's \<open>submit\<close> sees of what \<open>send()\<close> came to.\<close>

definition answer_of :: "conn_error + 'm \<Rightarrow> send_answer" where
  "answer_of outcome =
     (case outcome of
        Inr _ \<Rightarrow> Send_ok
      | Inl (RequestError e) \<Rightarrow>
          (case retry_after_secs e of None \<Rightarrow> Send_failed | Some n \<Rightarrow> Send_refused (of_int n))
      | Inl _ \<Rightarrow> Send_failed)"

text \<open>The end of \<open>_exchange\<close>, its \<open>finally\<close> included, and what its caller does with it.\<close>

definition finish_call :: "rat \<Rightarrow> nat \<Rightarrow> conn_error + 'm \<Rightarrow> 'm connection \<Rightarrow> 'm connection" where
  "finish_call now k outcome c =
     (let call = calls c ! k;
          c = c\<lparr>pending := AList.delete (call_id call) (pending c),
                calls := (calls c)[k := call\<lparr>call_outcome := Some outcome\<rparr>]\<rparr>
      in case rq_how (requests c ! call_request call) of
           Queued n \<Rightarrow> c\<lparr>scheduler := map_option (sent now n (answer_of outcome)) (scheduler c)\<rparr>
         | _ \<Rightarrow> c)"

definition running :: "nat \<Rightarrow> 'm connection \<Rightarrow> bool" where
  "running r c = list_ex (\<lambda>call. call_request call = r \<and> call_outcome call = None) (calls c)"

text \<open>Whether it is the turn of a request to run \<open>_exchange\<close>.\<close>

definition its_turn :: "nat \<Rightarrow> 'm connection \<Rightarrow> bool" where
  "its_turn r c \<longleftrightarrow>
     r < length (requests c) \<and> \<not> running r c \<and>
     (case rq_how (requests c ! r) of
        Refused \<Rightarrow> False
      | Direct \<Rightarrow> \<not> list_ex (\<lambda>call. call_request call = r) (calls c)
      | Queued n \<Rightarrow>
          (case scheduler c of
             None \<Rightarrow> False
           | Some s \<Rightarrow>
               (case map_of (submits s) n of
                  None \<Rightarrow> False | Some sub \<Rightarrow> sub_phase sub = Sending)))"

definition exchange ::
    "('m, 'c) conn_env \<Rightarrow> rat \<Rightarrow> nat \<Rightarrow> string \<Rightarrow> 'm connection \<Rightarrow> 'm connection" where
  "exchange env now r client_msg_id c =
     (let rq = requests c ! r; k = length (calls c);
          c = c\<lparr>calls := calls c @ [\<lparr>call_request = r, call_id = client_msg_id, call_future = None,
                  call_written = False, call_drained = False, call_outcome = None\<rparr>],
                pending := AList.update client_msg_id k (pending c)\<rparr>
      in case encode (proto env) (rq_payload rq) client_msg_id of
           Inl e \<Rightarrow> finish_call now k (Inl e) c
         | Inr frame \<Rightarrow>
             (case write_frame now k frame (rq_generation rq) c of
                Inl e \<Rightarrow> finish_call now k (Inl e) c
              | Inr c \<Rightarrow> c))"

subsection \<open>A call waiting\<close>

definition unfinished :: "nat \<Rightarrow> 'm connection \<Rightarrow> bool" where
  "unfinished k c \<longleftrightarrow> k < length (calls c) \<and> call_outcome (calls c ! k) = None"

text \<open>Its drain ends, or raises.\<close>

definition drained :: "rat \<Rightarrow> nat \<Rightarrow> bool \<Rightarrow> 'm connection \<Rightarrow> 'm connection" where
  "drained now k ok c =
     (if \<not> unfinished k c \<or> call_drained (calls c ! k) then c
      else if ok then c\<lparr>calls := (calls c)[k := (calls c ! k)\<lparr>call_drained := True\<rparr>]\<rparr>
      else finish_call now k (Inl WriteFailed) c)"

text \<open>
  Its deadline passes while it waits for the reply: \<open>wait_for\<close> cancels the future, which is done
  then, and the call goes on to raise a timeout.
\<close>

definition deadline_passed :: "nat \<Rightarrow> 'm connection \<Rightarrow> 'm connection" where
  "deadline_passed k c =
     (if unfinished k c \<and> call_drained (calls c ! k)
      then c\<lparr>calls := set_call_future k (Inl TimeoutError) (calls c)\<rparr> else c)"

text \<open>Its future is done: it returns or raises.\<close>

definition resume :: "rat \<Rightarrow> nat \<Rightarrow> 'm connection \<Rightarrow> 'm connection" where
  "resume now k c =
     (if unfinished k c \<and> call_drained (calls c ! k)
      then (case call_future (calls c ! k) of
              None \<Rightarrow> c | Some outcome \<Rightarrow> finish_call now k outcome c)
      else c)"

text \<open>Its caller is cancelled.\<close>

definition cancel_call :: "rat \<Rightarrow> nat \<Rightarrow> 'm connection \<Rightarrow> 'm connection" where
  "cancel_call now k c = (if unfinished k c then finish_call now k (Inl Cancelled) c else c)"

subsection \<open>Reading\<close>

text \<open>
  \<open>_dispatch\<close>; the error is the one that is not a protocol error, a payload type claimed by two
  classes.
\<close>

definition take_pending ::
    "string option \<Rightarrow> 'm connection \<Rightarrow> nat option \<times> 'm connection" where
  "take_pending client_msg_id c =
     (case client_msg_id of
        None \<Rightarrow> (None, c)
      | Some i \<Rightarrow>
          if i = [] then (None, c)
          else (map_of (pending c) i, c\<lparr>pending := AList.delete i (pending c)\<rparr>))"

definition dispatch_envelope ::
    "('m, 'c) conn_env \<Rightarrow> ProtoMessage \<Rightarrow> 'm connection \<Rightarrow> 'm connection \<times> conn_error option" where
  "dispatch_envelope env envelope c =
     (if \<not> connected c then (c, None)
      else if env_payloadType envelope = Some HEARTBEAT_EVENT then (c, None)
      else case parse_payload (proto env) envelope of
        Inl (Protocol e) \<Rightarrow> (c, None)
      | Inl (ClaimedTwice t) \<Rightarrow> (c, Some (ReadLoopFailed t))
      | Inr payload \<Rightarrow>
          (case take_pending (env_clientMsgId envelope) c of
             (Some k, c) \<Rightarrow>
               if k < length (calls c) \<and> call_future (calls c ! k) = None
               then (c\<lparr>calls := set_call_future k
                         (case as_request_error (error_of env payload) of
                            Some e \<Rightarrow> Inl (RequestError e) | None \<Rightarrow> Inr payload) (calls c)\<rparr>, None)
               else (c\<lparr>told := told c @ [Told_event payload]\<rparr>, None)
           | (None, c) \<Rightarrow> (c\<lparr>told := told c @ [Told_event payload]\<rparr>, None)))"

fun read_on ::
    "('m, 'c) conn_env \<Rightarrow> rat \<Rightarrow> byte list list \<Rightarrow> 'm connection \<Rightarrow> 'm connection \<times> conn_error option" where
  "read_on env now [] c = (c, None)"
| "read_on env now (body # bodies) c =
     (let c = c\<lparr>last_receive := now\<rparr> in
      case decode_envelope (proto env) body of
        Inl e \<Rightarrow> (c, Some (ProtocolError e))
      | Inr envelope \<Rightarrow>
          (case dispatch_envelope env envelope c of
             (c, Some e) \<Rightarrow> (c, Some e)
           | (c, None) \<Rightarrow> read_on env now bodies c))"

text \<open>The read loop ends in an error, and the connection with it.\<close>

definition read_failed :: "conn_error \<Rightarrow> 'm connection \<Rightarrow> 'm connection" where
  "read_failed e c = (if read_task c then fail e (c\<lparr>read_task := False\<rparr>) else c)"

text \<open>The turns of the read loop that the bytes that arrive allow.\<close>

definition read_turns :: "('m, 'c) conn_env \<Rightarrow> rat \<Rightarrow> byte list \<Rightarrow> 'm connection \<Rightarrow> 'm connection" where
  "read_turns env now bytes c =
     (if \<not> read_task c then c
      else case read_bodies (inbound c @ bytes) of
        (bodies, left, bad_prefix) \<Rightarrow>
          (case read_on env now bodies (c\<lparr>inbound := left\<rparr>) of
             (c, Some e) \<Rightarrow> read_failed e c
           | (c, None) \<Rightarrow>
               (case bad_prefix of None \<Rightarrow> c | Some e \<Rightarrow> read_failed (ProtocolError e) c)))"

subsection \<open>The heartbeat\<close>

definition write_now :: "rat \<Rightarrow> byte list \<Rightarrow> 'm connection \<Rightarrow> 'm connection" where
  "write_now now frame c =
     (if \<not> writer_open c then c
      else c\<lparr>wire := wire c @ [(generation c, None, frame)], last_send := now\<rparr>)"

definition heartbeat_interval :: "('m, 'c) conn_env \<Rightarrow> rat" where
  "heartbeat_interval env =
     max (min (heartbeat_idle_secs env) (inbound_silence_secs env) / 2) (1 / 100)"

text \<open>One turn of the heartbeat's loop, after its sleep.\<close>

definition tick :: "('m, 'c) conn_env \<Rightarrow> rat \<Rightarrow> 'm connection \<Rightarrow> 'm connection" where
  "tick env now c =
     (if \<not> heartbeat_task c then c
      else if \<not> connected c \<or> \<not> writer_open c then c\<lparr>heartbeat_task := False\<rparr>
      else if inbound_silence_secs env \<le> now - last_receive c
      then fail NoInboundData (c\<lparr>heartbeat_task := False\<rparr>)
      else if heartbeat_idle_secs env \<le> now - last_send c
      then (case encode_frame (proto env) (heartbeat_event env) None of
              Inl e \<Rightarrow> c\<lparr>heartbeat_task := False\<rparr>
            | Inr frame \<Rightarrow> write_now now frame c)
      else c)"

subsection \<open>Runs\<close>

datatype 'm conn_event =
    Connect opened
  | Close
  | Make_request 'm "rat option" RequestPriority
  | Turn group
  | Queue_over nat bool
  | Cancel_queued nat
  | Exchange nat string
  | Drained nat bool
  | Deadline nat
  | Resume nat
  | Cancel_call nat
  | Received "byte list"
  | Read_ends conn_error
  | Tick

definition on_scheduler ::
    "(RequestScheduler \<Rightarrow> RequestScheduler) \<Rightarrow> 'm connection \<Rightarrow> 'm connection" where
  "on_scheduler f c = c\<lparr>scheduler := map_option f (scheduler c)\<rparr>"

text \<open>
  A new \<open>clientMsgId\<close> is a fresh \<open>uuid4\<close>: the run goes on with it only when no call had it. The
  caller of a queued request is cancelled by \<open>Cancel_queued\<close> only while no call runs for it.
\<close>

definition fresh_id :: "string \<Rightarrow> 'm connection \<Rightarrow> bool" where
  "fresh_id i c \<longleftrightarrow> i \<noteq> [] \<and> \<not> list_ex (\<lambda>call. call_id call = i) (calls c)"

fun conn_step :: "('m, 'c) conn_env \<Rightarrow> rat \<times> 'm conn_event \<Rightarrow> 'm connection \<Rightarrow> 'm connection" where
  "conn_step env (now, Connect answer) c = fst (connect now answer c)"
| "conn_step env (now, Close) c = begin_close c"
| "conn_step env (now, Make_request payload timeout_secs priority) c =
     request env now payload timeout_secs priority c"
| "conn_step env (now, Turn g) c = on_scheduler (dispatcher_turn now g) c"
| "conn_step env (now, Queue_over r expired) c =
     (if r < length (requests c)
      then (case rq_how (requests c ! r) of
              Queued n \<Rightarrow> on_scheduler (wait_over now n expired) c | _ \<Rightarrow> c)
      else c)"
| "conn_step env (now, Cancel_queued r) c =
     (if r < length (requests c) \<and> \<not> running r c
      then (case rq_how (requests c ! r) of
              Queued n \<Rightarrow> on_scheduler (cancel_submit n) c | _ \<Rightarrow> c)
      else c)"
| "conn_step env (now, Exchange r i) c =
     (if its_turn r c \<and> fresh_id i c then exchange env now r i c else c)"
| "conn_step env (now, Drained k ok) c = drained now k ok c"
| "conn_step env (now, Deadline k) c = deadline_passed k c"
| "conn_step env (now, Resume k) c = resume now k c"
| "conn_step env (now, Cancel_call k) c = cancel_call now k c"
| "conn_step env (now, Received bytes) c = read_turns env now bytes c"
| "conn_step env (now, Read_ends e) c = (if e \<in> {ClosedByPeer, ReadFailed} then read_failed e c else c)"
| "conn_step env (now, Tick) c = tick env now c"

text \<open>What \<open>request\<close> returned or raised, once it has.\<close>

definition last_outcome :: "nat \<Rightarrow> 'm connection \<Rightarrow> (conn_error + 'm) option" where
  "last_outcome r c =
     (case rev (filter (\<lambda>call. call_request call = r) (calls c)) of
        [] \<Rightarrow> None | call # _ \<Rightarrow> call_outcome call)"

definition submit_of :: "nat \<Rightarrow> 'm connection \<Rightarrow> Submit option" where
  "submit_of n c = (case scheduler c of None \<Rightarrow> None | Some s \<Rightarrow> map_of (submits s) n)"

definition request_outcome :: "nat \<Rightarrow> 'm connection \<Rightarrow> (conn_error + 'm) option" where
  "request_outcome r c =
     (case rq_how (requests c ! r) of
        Refused \<Rightarrow> Some (Inl NotSentConnectionError)
      | Direct \<Rightarrow> last_outcome r c
      | Queued n \<Rightarrow>
          (case submit_of n c of
             None \<Rightarrow> None
           | Some sub \<Rightarrow>
               (case sub_phase sub of
                  Finished Raised_queue_timeout \<Rightarrow> Some (Inl QueueTimeoutError)
                | Finished Raised_not_sent \<Rightarrow> Some (Inl NotSentConnectionError)
                | Finished Raised_cancelled \<Rightarrow> Some (Inl Cancelled)
                | Finished _ \<Rightarrow> last_outcome r c
                | _ \<Rightarrow> None)))"

end
