(* ===== verification/Connection_Safety.thy ===== *)
theory Connection_Safety
  imports Connection
begin

text \<open>
  What holds in every run of the connection: where frames go and what an error says of them, that
  nobody waits on a connection that is lost, and that a reply reaches the request it answers.
\<close>

subsection \<open>What a step does to the scheduler\<close>

text \<open>Whatever happens to the connection is a sequence of the scheduler's own events to it.\<close>

definition scheduler_moves :: "rat \<Rightarrow> 'm connection \<Rightarrow> 'm connection \<Rightarrow> bool" where
  "scheduler_moves now c c' \<longleftrightarrow>
     (\<exists>es. (\<forall>e\<in>set es. fst e = now) \<and> scheduler c' = map_option (fold scheduler_step es) (scheduler c))"

lemma moves_refl: "scheduler c' = scheduler c \<Longrightarrow> scheduler_moves now c c'"
  unfolding scheduler_moves_def by (rule exI [of _ "[]"]) (simp add: option.map_id)

lemma moves_one:
  assumes "scheduler c' = map_option f (scheduler c)" and "\<And>s. f s = scheduler_step (now, e) s"
  shows "scheduler_moves now c c'"
  unfolding scheduler_moves_def using assms by (intro exI [of _ "[(now, e)]"]) (cases "scheduler c"; simp)

lemma scheduler_reject [simp]: "scheduler (reject_pending e c) = scheduler c"
  by (simp add: reject_pending_def)

lemma moves_fail: "scheduler_moves now c (fail e c)"
  by (rule moves_one [of _ fail_all _ _ Fail_all]) (simp_all add: fail_def fail_queued_def Let_def)

lemma moves_finish: "scheduler_moves now c (finish_call now k outcome c)"
proof (cases "rq_how (requests c ! call_request (calls c ! k))")
  case (Queued n)
  then show ?thesis 
    by (intro moves_one [of _ "sent now n (answer_of outcome)" _ _ "Sent n (answer_of outcome)"])
       (simp_all add: finish_call_def Let_def)
qed (auto intro!: moves_refl simp: finish_call_def Let_def)

lemma moves_trans_eq:
  "scheduler_moves now c c' \<Longrightarrow> scheduler a = scheduler c \<Longrightarrow> scheduler_moves now a c'"
  by (simp add: scheduler_moves_def)

lemma moves_exchange: "scheduler_moves now c (exchange env now r i c)"
  unfolding exchange_def Let_def
  by (auto simp: write_frame_def split: sum.splits if_splits
           intro: moves_trans_eq [OF moves_finish] moves_refl)

lemma scheduler_dispatch [simp]: "scheduler (fst (dispatch_envelope env envelope c)) = scheduler c"
  by (auto simp: dispatch_envelope_def take_pending_def split: sum.splits payload_error.splits option.splits)

lemma read_on_preserves:
  assumes "P c" and "\<And>c. P c \<Longrightarrow> P (c\<lparr>last_receive := now\<rparr>)"
    and "\<And>envelope c. P c \<Longrightarrow> P (fst (dispatch_envelope env envelope c))"
  shows "P (fst (read_on env now bodies c))"
  using assms(1)
proof (induction bodies arbitrary: c)
  case (Cons body bodies)
  then have base: "P (c\<lparr>last_receive := now\<rparr>)" using assms(2) by blast
  show ?case
  proof (cases "decode_envelope (proto env) body")
    case (Inr envelope)
    obtain c' err where d: "dispatch_envelope env envelope (c\<lparr>last_receive := now\<rparr>) = (c', err)"
      by (cases "dispatch_envelope env envelope (c\<lparr>last_receive := now\<rparr>)")
    with assms(3) [OF base, of envelope] have "P c'" by simp
    with Inr d Cons.IH show ?thesis by (cases err) simp_all
  qed (simp add: base)
qed simp

lemma dispatch_error: "snd (dispatch_envelope env envelope c) = Some e \<Longrightarrow> \<not> is_not_sent e"
  by (auto simp: dispatch_envelope_def take_pending_def
           split: if_splits sum.splits payload_error.splits option.splits prod.splits)

lemma read_on_error: "snd (read_on env now bodies c) = Some e \<Longrightarrow> \<not> is_not_sent e"
proof (induction bodies arbitrary: c)
  case (Cons body bodies)
  show ?case
  proof (cases "decode_envelope (proto env) body")
    case (Inr envelope)
    obtain c' err where d: "dispatch_envelope env envelope (c\<lparr>last_receive := now\<rparr>) = (c', err)"
      by (cases "dispatch_envelope env envelope (c\<lparr>last_receive := now\<rparr>)")
    with Cons Inr dispatch_error [of env envelope "c\<lparr>last_receive := now\<rparr>" e] show ?thesis
      by (cases err) auto
  qed (use Cons.prems in auto)
qed simp

text \<open>What the turns of the read loop keep, if taking a message and failing keep it.\<close>

lemma read_turns_preserves:
  assumes "P c" and "\<And>c. P c \<Longrightarrow> P (c\<lparr>last_receive := now\<rparr>)"
    and "\<And>left c. P c \<Longrightarrow> P (c\<lparr>inbound := left\<rparr>)"
    and "\<And>envelope c. P c \<Longrightarrow> P (fst (dispatch_envelope env envelope c))"
    and "\<And>e c. P c \<Longrightarrow> \<not> is_not_sent e \<Longrightarrow> P (read_failed e c)"
  shows "P (read_turns env now bytes c)"
proof (cases "read_task c")
  case True
  obtain bodies left bad where r: "read_bodies (inbound c @ bytes) = (bodies, left, bad)"
    by (cases "read_bodies (inbound c @ bytes)")
  obtain c' err where o: "read_on env now bodies (c\<lparr>inbound := left\<rparr>) = (c', err)"
    by (cases "read_on env now bodies (c\<lparr>inbound := left\<rparr>)")
  have "P (fst (read_on env now bodies (c\<lparr>inbound := left\<rparr>)))"
    by (rule read_on_preserves [where P = P, OF assms(3) [OF assms(1)]]) (erule assms(2), erule assms(4))
  then have "P c'" by (simp add: o)
  moreover have "\<not> is_not_sent e" if "err = Some e" for e
    using read_on_error [of env now bodies "c\<lparr>inbound := left\<rparr>" e] o that by simp
  ultimately show ?thesis using True r o assms(5) by (auto simp: read_turns_def split: option.splits)
qed (simp add: read_turns_def assms(1))

lemma moves_read_failed: "scheduler_moves now c (read_failed e c)"
proof (cases "read_task c")
  case True
  then have "read_failed e c = fail e (c\<lparr>read_task := False\<rparr>)" by (simp add: read_failed_def)
  then show ?thesis using moves_trans_eq [OF moves_fail [of now "c\<lparr>read_task := False\<rparr>" e]] by simp
qed (simp add: read_failed_def moves_refl)

lemma moves_trans: "scheduler_moves now a b \<Longrightarrow> scheduler_moves now b c \<Longrightarrow> scheduler_moves now a c"
proof -
  assume "scheduler_moves now a b" and "scheduler_moves now b c"
  then obtain es es' where "\<forall>e\<in>set es. fst e = now" "\<forall>e\<in>set es'. fst e = now"
    "scheduler b = map_option (fold scheduler_step es) (scheduler a)"
    "scheduler c = map_option (fold scheduler_step es') (scheduler b)"
    unfolding scheduler_moves_def by blast
  then show ?thesis
    unfolding scheduler_moves_def by (intro exI [of _ "es @ es'"]) (auto simp: option.map_comp o_def)
qed

lemma moves_received: "scheduler_moves now c (read_turns env now bytes c)"
  by (rule read_turns_preserves [of "scheduler_moves now c"])
     (auto intro: moves_refl moves_trans [OF _ moves_refl] moves_trans [OF _ moves_read_failed])

lemma moves_step: "scheduler_moves (fst ev) c (conn_step env ev c)"
proof (cases "(env, ev, c)" rule: conn_step.cases)
  case (1 env' now answer c')
  then show ?thesis
    by (cases answer) (auto simp: connect_def intro: moves_refl moves_one [of _ reset _ _ Reset])
next
  case (2 env' now c')
  then show ?thesis
    by (auto simp: begin_close_def fail_queued_def intro: moves_one [of _ fail_all _ _ Fail_all])
next
  case (3 env' now payload timeout priority c')
  then show ?thesis
    by (auto simp: request_def Let_def split: option.splits intro: moves_refl
             moves_one [of _ "submit now (group_of (kind_of env' payload)) priority" _ _
               "Submit_request (group_of (kind_of env' payload)) priority"])
next
  case (4 env' now g c')
  then show ?thesis by (auto simp: on_scheduler_def intro: moves_one [of _ "dispatcher_turn now g" _ _ "Dispatcher_turn g"])
next
  case (5 env' now r expired c')
  then show ?thesis
    by (cases "rq_how (requests c ! r)")
       (auto simp: on_scheduler_def intro: moves_refl moves_one [of _ "wait_over now _ expired" _ _ "Wait_over _ expired"])
next
  case (6 env' now r c')
  then show ?thesis
    by (cases "rq_how (requests c ! r)")
       (auto simp: on_scheduler_def intro: moves_refl moves_one [of _ "cancel_submit _" _ _ "Cancel_submit _"])
next
  case (7 env' now r i c')
  then show ?thesis by (auto simp: moves_exchange intro: moves_refl)
next
  case (8 env' now k ok c')
  then show ?thesis by (auto simp: drained_def moves_finish intro: moves_refl)
next
  case (9 env' now k c')
  then show ?thesis by (auto simp: deadline_passed_def intro: moves_refl)
next
  case (10 env' now k c')
  then show ?thesis by (auto simp: resume_def moves_finish intro: moves_refl split: option.splits)
next
  case (11 env' now k c')
  then show ?thesis by (auto simp: cancel_call_def moves_finish intro: moves_refl)
next
  case (12 env' now bytes c')
  then show ?thesis by (simp add: moves_received)
next
  case (13 env' now e c')
  then show ?thesis by (auto simp: moves_read_failed intro: moves_refl)
next
  case (14 env' now c')
  then show ?thesis
    by (auto simp: tick_def write_now_def intro: moves_refl moves_trans_eq [OF moves_fail] split: sum.splits)
qed

lemma scheduler_of_run:
  "\<exists>es. (sorted (map fst evs) \<longrightarrow> sorted (map fst es)) \<and> set (map fst es) \<subseteq> set (map fst evs) \<and>
     scheduler (fold (conn_step env) evs c) = map_option (fold scheduler_step es) (scheduler c)"
proof (induction evs arbitrary: c)
  case Nil
  show ?case by (rule exI [of _ "[]"]) (simp add: option.map_ident)
next
  case (Cons ev evs)
  obtain es where es: "sorted (map fst evs) \<longrightarrow> sorted (map fst es)" "set (map fst es) \<subseteq> set (map fst evs)"
    "scheduler (fold (conn_step env) evs (conn_step env ev c)) =
       map_option (fold scheduler_step es) (scheduler (conn_step env ev c))"
    using Cons by blast
  obtain es0 where es0: "\<forall>e\<in>set es0. fst e = fst ev"
    "scheduler (conn_step env ev c) = map_option (fold scheduler_step es0) (scheduler c)"
    using moves_step [of ev c env] unfolding scheduler_moves_def by blast
  have "sorted (map fst es0)" using es0(1) by (induction es0) auto
  moreover have "fst ev \<le> fst e" if "sorted (map fst (ev # evs))" "e \<in> set es" for e
    using that es(2) by fastforce
  ultimately show ?case
    using es es0 by (intro exI [of _ "es0 @ es"]) (auto simp: option.map_comp o_def sorted_append)
qed


text \<open>The heartbeat fails the connection, or at most writes.\<close>

lemma tick_cases [case_names silent alive]:
  obtains "connected c" "tick env now c = fail NoInboundData (c\<lparr>heartbeat_task := False\<rparr>)"
  | h w l where "tick env now c = c\<lparr>heartbeat_task := h, wire := w, last_send := l\<rparr>"
proof (cases "heartbeat_task c \<and> connected c \<and> writer_open c")
  case False
  then have "tick env now c = c\<lparr>heartbeat_task := False\<rparr>" by (cases "heartbeat_task c") (auto simp: tick_def)
  then show thesis by (intro that(2) [where h = False and w = "wire c" and l = "last_send c"]) simp
next
  case up: True
  show thesis
  proof (cases "inbound_silence_secs env \<le> now - last_receive c")
    case True
    with up show thesis by (intro that(1)) (simp_all add: tick_def)
  next
    case heard: False
    show thesis
    proof (cases "heartbeat_idle_secs env \<le> now - last_send c")
      case False
      with up heard have "tick env now c = c" by (simp add: tick_def)
      then show thesis
        by (intro that(2) [where h = "heartbeat_task c" and w = "wire c" and l = "last_send c"]) simp
    next
      case True
      show thesis
      proof (cases "encode_frame (proto env) (heartbeat_event env) None")
        case (Inl e)
        with up heard True show thesis
          by (intro that(2) [where h = False and w = "wire c" and l = "last_send c"]) (simp add: tick_def)
      next
        case (Inr f)
        with up heard True show thesis
          by (intro that(2) [where h = "heartbeat_task c" and w = "wire c @ [(generation c, None, f)]" and l = now])
             (simp add: tick_def write_now_def)
      qed
    qed
  qed
qed

subsection \<open>What is written, and where\<close>

definition refused_by_venue :: "'m Call \<Rightarrow> bool" where
  "refused_by_venue call \<longleftrightarrow>
     (\<exists>e n. call_outcome call = Some (Inl (RequestError e)) \<and> retry_after_secs e = Some n)"

definition call_safe :: "'m Request list \<Rightarrow> 'm Call \<Rightarrow> bool" where
  "call_safe rqs call \<longleftrightarrow>
     call_request call < length rqs \<and> rq_how (rqs ! call_request call) \<noteq> Refused \<and>
     (\<forall>e. call_future call = Some (Inl e) \<longrightarrow> \<not> is_not_sent e) \<and>
     (call_written call \<longrightarrow> (\<forall>e. call_outcome call = Some (Inl e) \<longrightarrow> \<not> is_not_sent e)) \<and>
     (\<not> call_written call \<longrightarrow> (\<exists>e. call_outcome call = Some (Inl e) \<and> is_not_sent e))"

definition writers :: "(nat \<times> nat option \<times> byte list) list \<Rightarrow> nat list" where
  "writers w = List.map_filter (\<lambda>x. fst (snd x)) w"

definition delivered ::
    "('m, 'c) conn_env \<Rightarrow> 'm Request list \<Rightarrow> 'm Call list \<Rightarrow> (nat \<times> nat option \<times> byte list) list \<Rightarrow> bool" where
  "delivered env rqs cs w \<longleftrightarrow>
     (\<forall>call\<in>set cs. call_safe rqs call) \<and>
     (\<forall>g k f. (g, Some k, f) \<in> set w \<longrightarrow> k < length cs \<and>
        rq_generation (rqs ! call_request (cs ! k)) = g \<and>
        encode_frame (proto env) (rq_payload (rqs ! call_request (cs ! k))) (Some (call_id (cs ! k))) = Inr f) \<and>
     distinct (writers w) \<and>
     (\<forall>k<length cs. call_written (cs ! k) \<longleftrightarrow> k \<in> set (writers w))"

lemma writers_append [simp]:
  "writers (w @ [(g, Some k, f)]) = writers w @ [k]" "writers (w @ [(g, None, f)]) = writers w"
  by (simp_all add: writers_def map_filter_def)

lemma writer_of_frame: "k \<in> set (writers w) \<longleftrightarrow> (\<exists>g f. (g, Some k, f) \<in> set w)"
  by (force simp: writers_def map_filter_def)

lemma delivered_update:
  assumes "delivered env rqs cs w" and "k < length cs" and "call_safe rqs y"
    and "call_request y = call_request (cs ! k)" and "call_id y = call_id (cs ! k)"
    and "call_written y = call_written (cs ! k)"
  shows "delivered env rqs (cs[k := y]) w"
proof -
  have "\<forall>call\<in>set (cs[k := y]). call_safe rqs call"
    using assms(1,3) set_update_subset_insert [of cs k y] by (auto simp: delivered_def)
  with assms(1,2,4-) show ?thesis by (simp add: delivered_def nth_list_update)
qed

lemma delivered_future:
  assumes "delivered env rqs cs w" and "\<forall>e. v = Inl e \<longrightarrow> \<not> is_not_sent e"
  shows "delivered env rqs (set_call_future k v cs) w"
proof (cases "k < length cs \<and> call_future (cs ! k) = None")
  case True
  then have "call_safe rqs (cs ! k)" using assms(1) by (simp add: delivered_def)
  then have "call_safe rqs ((cs ! k)\<lparr>call_future := Some v\<rparr>)" using assms(2) by (auto simp: call_safe_def)
  with True show ?thesis unfolding set_call_future_def by (auto intro!: delivered_update [OF assms(1)])
qed (auto simp: set_call_future_def assms(1))

lemma delivered_futures:
  "delivered env rqs cs w \<Longrightarrow> \<not> is_not_sent e \<Longrightarrow>
   delivered env rqs (fold (\<lambda>k. set_call_future k (Inl e)) ks cs) w"
  by (induction ks arbitrary: cs) (simp_all add: delivered_future)

lemma delivered_more_requests:
  "delivered env rqs cs w \<Longrightarrow> delivered env (rqs @ [rq]) cs w"
  unfolding delivered_def call_safe_def
  by (auto simp: nth_append dest: nth_mem)

lemma delivered_heartbeat: "delivered env rqs cs w \<Longrightarrow> delivered env rqs cs (w @ [(g, None, f)])"
  by (auto simp: delivered_def)

text \<open>The invariant of the connection, over its logs.\<close>

definition delivers :: "('m, 'c) conn_env \<Rightarrow> 'm connection \<Rightarrow> bool" where
  "delivers env c \<longleftrightarrow> delivered env (requests c) (calls c) (wire c)"

lemma delivers_finish:
  assumes "delivers env c" and "unfinished k c" and "\<forall>e. outcome = Inl e \<longrightarrow> \<not> is_not_sent e"
  shows "delivers env (finish_call now k outcome c)"
proof -
  have k: "k < length (calls c)" using assms(2) by (simp add: unfinished_def)
  then have "call_safe (requests c) (calls c ! k)" using assms(1) by (simp add: delivers_def delivered_def)
  then have "call_safe (requests c) ((calls c ! k)\<lparr>call_outcome := Some outcome\<rparr>)"
    using assms(2,3) by (cases outcome) (auto simp: call_safe_def unfinished_def)
  with assms(1) k have "delivered env (requests c) ((calls c)[k := (calls c ! k)\<lparr>call_outcome := Some outcome\<rparr>]) (wire c)"
    by (auto simp: delivers_def intro: delivered_update)
  then show ?thesis by (auto simp: delivers_def finish_call_def Let_def split: how.splits)
qed


lemma delivers_cong:
  "delivers env c \<Longrightarrow> requests c' = requests c \<Longrightarrow> calls c' = calls c \<Longrightarrow> wire c' = wire c \<Longrightarrow> delivers env c'"
  by (simp add: delivers_def)

lemma delivers_reject: "delivers env c \<Longrightarrow> \<not> is_not_sent e \<Longrightarrow> delivers env (reject_pending e c)"
  by (simp add: delivers_def reject_pending_def delivered_futures)

lemma delivers_fail: "delivers env c \<Longrightarrow> \<not> is_not_sent e \<Longrightarrow> delivers env (fail e c)"
  by (rule delivers_cong [OF delivers_reject [of env "c\<lparr>connected := False\<rparr>" e]])
     (auto simp: fail_def fail_queued_def Let_def elim: delivers_cong)

lemma delivers_read_failed: "delivers env c \<Longrightarrow> \<not> is_not_sent e \<Longrightarrow> delivers env (read_failed e c)"
  by (auto simp: read_failed_def intro!: delivers_fail elim: delivers_cong)

lemma delivers_dispatch: "delivers env c \<Longrightarrow> delivers env (fst (dispatch_envelope env envelope c))"
  by (auto simp: dispatch_envelope_def take_pending_def delivers_def delivered_future
           split: sum.splits payload_error.splits option.splits)

lemma delivers_received: "delivers env c \<Longrightarrow> delivers env (read_turns env now bytes c)"
  by (rule read_turns_preserves [of "delivers env"])
     (auto simp: delivers_dispatch delivers_read_failed elim: delivers_cong)

lemma delivered_new_call:
  assumes "delivered env rqs cs w" and "call_request call < length rqs"
    and "rq_how (rqs ! call_request call) \<noteq> Refused" and "call_future call = None" and "\<not> call_written call"
    and "call_outcome call = Some (Inl e)" and "is_not_sent e"
  shows "delivered env rqs (cs @ [call]) w"
proof -
  have "k < length cs" if "k \<in> set (writers w)" for k
    using assms(1) that by (auto simp: delivered_def writer_of_frame)
  moreover have "call_safe rqs call" using assms by (simp add: call_safe_def)
  ultimately show ?thesis
    using assms(1,5) by (auto simp: delivered_def nth_append less_Suc_eq)
qed

lemma delivered_written_call:
  assumes "delivered env rqs cs w" and "call_request call < length rqs"
    and "rq_how (rqs ! call_request call) \<noteq> Refused" and "call_future call = None" and "call_written call"
    and "call_outcome call = None"
    and "encode_frame (proto env) (rq_payload (rqs ! call_request call)) (Some (call_id call)) = Inr f"
  shows "delivered env rqs (cs @ [call]) (w @ [(rq_generation (rqs ! call_request call), Some (length cs), f)])"
proof -
  have "k < length cs" if "k \<in> set (writers w)" for k
    using assms(1) that by (auto simp: delivered_def writer_of_frame)
  moreover have "call_safe rqs call" using assms by (simp add: call_safe_def)
  ultimately show ?thesis
    using assms(1,5,7) by (auto simp: delivered_def nth_append less_Suc_eq)
qed

lemma its_turn_request:
  "its_turn r c \<Longrightarrow> r < length (requests c) \<and> rq_how (requests c ! r) \<noteq> Refused \<and> \<not> running r c"
  by (auto simp: its_turn_def)

lemma finish_call_logs [simp]:
  "requests (finish_call now k outcome c) = requests c"
  "wire (finish_call now k outcome c) = wire c"
  "calls (finish_call now k outcome c) = (calls c)[k := (calls c ! k)\<lparr>call_outcome := Some outcome\<rparr>]"
  by (simp_all add: finish_call_def Let_def split: how.splits)

definition new_call :: "nat \<Rightarrow> string \<Rightarrow> 'm Call" where
  "new_call r i = \<lparr>call_request = r, call_id = i, call_future = None, call_written = False,
     call_drained = False, call_outcome = None\<rparr>"

lemma new_call_fields [simp]:
  "call_request (new_call r i) = r" "call_id (new_call r i) = i" "call_future (new_call r i) = None"
  "call_written (new_call r i) = False" "call_drained (new_call r i) = False"
  "call_outcome (new_call r i) = None"
  by (simp_all add: new_call_def)

text \<open>\<open>_exchange\<close> fails before it writes, with an error that says so, or it writes.\<close>

lemma exchange_cases [case_names unsent written]:
  obtains e where "is_not_sent e" "\<forall>x. e \<noteq> RequestError x"
      "exchange env now r i c = finish_call now (length (calls c)) (Inl e)
         (c\<lparr>calls := calls c @ [new_call r i], pending := AList.update i (length (calls c)) (pending c)\<rparr>)"
  | f where "encode_frame (proto env) (rq_payload (requests c ! r)) (Some i) = Inr f"
      "connected c" "writer_open c" "generation c = rq_generation (requests c ! r)"
      "exchange env now r i c =
         c\<lparr>calls := calls c @ [(new_call r i)\<lparr>call_written := True\<rparr>],
           pending := AList.update i (length (calls c)) (pending c),
           wire := wire c @ [(generation c, Some (length (calls c)), f)], last_send := now,
           told := told c @ [Told_written r]\<rparr>"
proof -
  let ?rq = "requests c ! r"
  consider (encode) e where "encode_frame (proto env) (rq_payload ?rq) (Some i) = Inl e"
    | (lost) f where "encode_frame (proto env) (rq_payload ?rq) (Some i) = Inr f"
        "\<not> connected c \<or> \<not> writer_open c \<or> generation c \<noteq> rq_generation ?rq"
    | (wrote) f where "encode_frame (proto env) (rq_payload ?rq) (Some i) = Inr f"
        "connected c" "writer_open c" "generation c = rq_generation ?rq"
    by (cases "encode_frame (proto env) (rq_payload ?rq) (Some i)") blast+
  then show thesis
  proof cases
    case (encode e)
    then show ?thesis
      by (intro that(1) [of "NotSentProtocolError e"]) (simp_all add: exchange_def encode_def new_call_def Let_def)
  next
    case lost
    then show ?thesis
      by (intro that(1) [of NotSentConnectionError])
         (auto simp add: exchange_def encode_def write_frame_def new_call_def Let_def)
  next
    case (wrote f)
    then show ?thesis
      by (intro that(2) [of f])
         (simp_all add: exchange_def encode_def write_frame_def new_call_def Let_def list_update_append)
  qed
qed

lemma delivers_exchange:
  assumes "delivers env c" and "its_turn r c"
  shows "delivers env (exchange env now r i c)"
proof (cases rule: exchange_cases [of env now r i c])
  case (unsent e)
  with assms(1) its_turn_request [OF assms(2)] show ?thesis
    by (auto simp: delivers_def list_update_append intro!: delivered_new_call)
next
  case (written f)
  with assms(1) its_turn_request [OF assms(2)] show ?thesis
    using delivered_written_call [of env "requests c" "calls c" "wire c" "(new_call r i)\<lparr>call_written := True\<rparr>" f]
    by (simp add: delivers_def)
qed

lemma delivers_step: "delivers env c \<Longrightarrow> delivers env (conn_step env ev c)"
proof (cases "(env, ev, c)" rule: conn_step.cases)
  case (1 env' now answer c')
  moreover assume "delivers env c"
  ultimately show ?thesis by (auto simp: connect_def elim: delivers_cong split: opened.splits)
next
  case (2 env' now c')
  moreover assume "delivers env c"
  ultimately show ?thesis
    using delivers_reject [of env' "c'\<lparr>connected := False\<rparr>" ConnectionClosed]
    by (auto simp: begin_close_def fail_queued_def delivers_def)
next
  case (3 env' now payload timeout priority c')
  moreover assume "delivers env c"
  ultimately show ?thesis
    by (auto simp: request_def Let_def delivers_def delivered_more_requests split: option.splits)
next
  case (7 env' now r i c')
  moreover assume "delivers env c"
  ultimately show ?thesis by (auto simp: delivers_exchange)
next
  case (8 env' now k ok c')
  moreover assume inv: "delivers env c"
  moreover have "call_safe (requests c) ((calls c ! k)\<lparr>call_drained := True\<rparr>)" if "k < length (calls c)"
    using inv that by (auto simp: delivers_def delivered_def call_safe_def)
  ultimately show ?thesis
    by (auto simp: drained_def delivers_finish)
       (auto simp: delivers_def unfinished_def intro!: delivered_update)
next
  case (9 env' now k c')
  moreover assume "delivers env c"
  ultimately show ?thesis by (auto simp: deadline_passed_def delivers_def intro!: delivered_future)
next
  case (10 env' now k c')
  moreover assume inv: "delivers env c"
  moreover have "\<not> is_not_sent e" if "k < length (calls c)" "call_future (calls c ! k) = Some (Inl e)" for e
    using inv that by (auto simp: delivers_def delivered_def call_safe_def)
  ultimately show ?thesis
    by (auto simp: resume_def unfinished_def split: option.splits
             intro!: delivers_finish [unfolded unfinished_def])
next
  case (11 env' now k c')
  moreover assume "delivers env c"
  ultimately show ?thesis by (auto simp: cancel_call_def delivers_finish)
next
  case (12 env' now bytes c')
  moreover assume "delivers env c"
  ultimately show ?thesis by (simp add: delivers_received)
next
  case (13 env' now e c')
  moreover assume "delivers env c"
  ultimately show ?thesis by (auto simp: delivers_read_failed)
next
  case (14 env' now c')
  moreover assume inv: "delivers env c"
  moreover have "delivers env (fail NoInboundData (c\<lparr>heartbeat_task := False\<rparr>))"
    using inv by (intro delivers_fail) (auto elim: delivers_cong)
  ultimately show ?thesis
    by (auto simp: tick_def write_now_def delivers_def delivered_heartbeat split: sum.splits)
qed (auto simp: on_scheduler_def elim: delivers_cong split: how.splits)

end
