(* ===== verification/Connection_Requests.thy ===== *)
theory Connection_Requests
  imports Connection_Safety
begin

text \<open>
  The requests of a connection and their submissions to the scheduler: how many calls each made,
  and how they ended. It is what lets an error that says a request was not sent be believed.
\<close>

subsection \<open>Counting calls\<close>

definition is_refused :: "(conn_error + 'm) option \<Rightarrow> bool" where
  "is_refused outcome \<longleftrightarrow>
     (case outcome of Some (Inl (RequestError e)) \<Rightarrow> retry_after_secs e \<noteq> None | _ \<Rightarrow> False)"

definition is_running :: "(conn_error + 'm) option \<Rightarrow> bool" where
  "is_running outcome \<longleftrightarrow> outcome = None"

definition is_ended :: "(conn_error + 'm) option \<Rightarrow> bool" where
  "is_ended outcome \<longleftrightarrow> outcome \<noteq> None \<and> \<not> is_refused outcome"

lemma ended_simps [simp]:
  "is_running None" "\<not> is_running (Some v)" "\<not> is_refused None" "\<not> is_ended None"
  "is_ended (Some v) \<longleftrightarrow> \<not> is_refused (Some v)"
  by (simp_all add: is_running_def is_ended_def is_refused_def)

text \<open>The calls of a request whose outcome satisfies \<open>P\<close>.\<close>

definition n_of :: "((conn_error + 'm) option \<Rightarrow> bool) \<Rightarrow> nat \<Rightarrow> 'm Call list \<Rightarrow> nat" where
  "n_of P r cs = length (filter (\<lambda>call. call_request call = r \<and> P (call_outcome call)) cs)"

abbreviation n_refused :: "nat \<Rightarrow> 'm Call list \<Rightarrow> nat" where
  "n_refused \<equiv> n_of is_refused"

abbreviation n_running :: "nat \<Rightarrow> 'm Call list \<Rightarrow> nat" where
  "n_running \<equiv> n_of is_running"

abbreviation n_ended :: "nat \<Rightarrow> 'm Call list \<Rightarrow> nat" where
  "n_ended \<equiv> n_of is_ended"

lemma length_filter_update:
  assumes "k < length xs"
  shows "length (filter P (xs[k := y])) + of_bool (P (xs ! k)) = length (filter P xs) + of_bool (P y)"
proof -
  have "length (filter P xs) =
      length (filter P (take k xs)) + of_bool (P (xs ! k)) + length (filter P (drop (Suc k) xs))"
    by (subst id_take_nth_drop [OF assms]) simp
  moreover have "length (filter P (xs[k := y])) =
      length (filter P (take k xs)) + of_bool (P y) + length (filter P (drop (Suc k) xs))"
    by (subst upd_conv_take_nth_drop [OF assms]) simp
  ultimately show ?thesis by simp
qed

lemma n_of_update:
  assumes "k < length cs" and "call_request y = call_request (cs ! k)"
  shows "n_of P r (cs[k := y]) + of_bool (call_request (cs ! k) = r \<and> P (call_outcome (cs ! k))) =
    n_of P r cs + of_bool (call_request (cs ! k) = r \<and> P (call_outcome y))"
  using length_filter_update [OF assms(1), of "\<lambda>call. call_request call = r \<and> P (call_outcome call)" y]
  by (simp add: n_of_def assms(2))

lemma n_of_append [simp]:
  "n_of P r (cs @ [call]) = n_of P r cs + of_bool (call_request call = r \<and> P (call_outcome call))"
  by (simp add: n_of_def)

lemma n_of_same:
  "call_request y = call_request (cs ! k) \<Longrightarrow> call_outcome y = call_outcome (cs ! k) \<Longrightarrow>
   n_of P r (cs[k := y]) = n_of P r cs"
  using n_of_update [of k cs y P r] by (cases "k < length cs") (simp_all add: list_update_beyond)

lemma n_of_future [simp]: "n_of P r (set_call_future k v cs) = n_of P r cs"
  by (simp add: set_call_future_def n_of_same)

lemma n_of_futures [simp]: "n_of P r (fold (\<lambda>k. set_call_future k v) ks cs) = n_of P r cs"
  by (induction ks arbitrary: cs) simp_all

lemma n_of_zero: "n_of P r cs = 0 \<longleftrightarrow> (\<forall>call\<in>set cs. call_request call = r \<longrightarrow> \<not> P (call_outcome call))"
  by (auto simp: n_of_def filter_empty_conv)

lemma running_n: "running r c \<longleftrightarrow> n_running r (calls c) \<noteq> 0"
  by (auto simp: running_def n_of_zero list_ex_iff is_running_def)

lemma n_of_new_request:
  "\<forall>call\<in>set cs. call_request call < r \<Longrightarrow> n_of P r cs = 0"
  by (auto simp: n_of_zero)

subsection \<open>What the scheduler does to a submission\<close>

fun unsent_phase :: "phase \<Rightarrow> bool" where
  "unsent_phase (Waiting _ _ _) = True"
| "unsent_phase (Finished Raised_queue_timeout) = True"
| "unsent_phase (Finished Raised_not_sent) = True"
| "unsent_phase _ = False"

definition submit_counts :: "phase \<Rightarrow> nat \<Rightarrow> nat \<Rightarrow> nat \<Rightarrow> nat \<Rightarrow> nat \<Rightarrow> bool" where
  "submit_counts p attempt retries refused1 running1 ended \<longleftrightarrow>
     (if unsent_phase p then running1 = 0 \<and> ended = 0 \<and> refused1 = attempt \<and> attempt \<le> retries
      else if p = Sending then running1 \<le> 1 \<and> ended = 0 \<and> refused1 = attempt \<and> attempt \<le> retries
      else if p = Finished Raised_refused then running1 = 0 \<and> ended = 0
      else running1 = 0 \<and> ended \<le> 1 \<and> refused1 \<le> retries)"

lemma wait_turn_effect:
  obtains p where "unsent_phase p"
    "map_of (submits (wait_turn now r sub s)) = (map_of (submits s))(r \<mapsto> sub\<lparr>sub_phase := p\<rparr>)"
    "next_sequence (wait_turn now r sub s) = next_sequence s"
proof (cases "failed s \<or> queue_timeout_secs (pacing s) - sub_waited sub \<le> 0")
  case True
  then show thesis
    using that [of "Finished Raised_not_sent"] that [of "Finished Raised_queue_timeout"]
    by (cases "failed s") (simp_all add: wait_turn_def set_submit_def dict_simps)
next
  case False
  then show thesis
    by (intro that [of "Waiting (length (futures s)) now (queue_timeout_secs (pacing s) - sub_waited sub)"])
       (simp_all add: wait_turn_def set_submit_def dict_simps Let_def)
qed

lemma wait_over_effect:
  assumes "map_of (submits s) n = Some sub"
  shows "\<exists>sub'. map_of (submits (wait_over now n expired s)) = (map_of (submits s))(n \<mapsto> sub') \<and>
    sub_retries sub' = sub_retries sub \<and> sub_attempt sub' = sub_attempt sub \<and> sub_group sub' = sub_group sub \<and>
    (sub_phase sub' = sub_phase sub \<or>
     unsent_phase (sub_phase sub) \<and>
       (unsent_phase (sub_phase sub') \<or> sub_phase sub' \<in> {Sending, Finished Raised_cancelled}))"
proof (cases "wait_over now n expired s = s")
  case True
  with assms show ?thesis by (intro exI [of _ sub]) (simp add: fun_upd_idem)
next
  case False
  with assms obtain e q b where p: "sub_phase sub = Waiting e q b"
    and w: "wait_over now n expired s = end_wait now n sub e q s"
    by (cases "sub_phase sub") (simp_all add: wait_over_def split: if_splits)
  show ?thesis
    unfolding w
    by (cases "future_of e s"; simp add: p end_wait_def set_submit_def dict_simps;
        (rule exI, rule conjI, rule refl, simp))
qed

lemma cancel_effect:
  assumes "map_of (submits s) n = Some sub"
  shows "\<exists>sub'. map_of (submits (cancel_submit n s)) = (map_of (submits s))(n \<mapsto> sub') \<and>
    sub_retries sub' = sub_retries sub \<and> sub_attempt sub' = sub_attempt sub \<and> sub_group sub' = sub_group sub \<and>
    (sub_phase sub' = sub_phase sub \<or>
     (unsent_phase (sub_phase sub) \<or> sub_phase sub = Sending) \<and> sub_phase sub' = Finished Raised_cancelled)"
proof (cases "cancel_submit n s = s")
  case True
  with assms show ?thesis by (intro exI [of _ sub]) (simp add: fun_upd_idem)
next
  case False
  with assms show ?thesis by (auto simp: cancel_submit_def set_submit_def dict_simps split: phase.splits)
qed

lemma sent_effect:
  assumes "map_of (submits s) n = Some sub" and "sub_phase sub = Sending"
  shows "\<exists>sub'. map_of (submits (sent now n answer s)) = (map_of (submits s))(n \<mapsto> sub') \<and>
    sub_retries sub' = sub_retries sub \<and> sub_group sub' = sub_group sub \<and>
    (case answer of
       Send_ok \<Rightarrow> sub_phase sub' = Finished Returned
     | Send_failed \<Rightarrow> sub_phase sub' = Finished Raised_other
     | Send_refused t \<Rightarrow>
         sub_attempt sub' = Suc (sub_attempt sub) \<and>
         (if Suc (sub_attempt sub) \<le> sub_retries sub then unsent_phase (sub_phase sub')
          else sub_phase sub' = Finished Raised_refused))"
proof (cases answer)
  case (Send_refused t)
  let ?g = "group_state (sub_group sub) s"
  let ?pause = "min (t + RATE_LIMIT_PAUSE_MARGIN_SECS) (max_pause_secs (pacing s))"
  let ?s = "set_group (sub_group sub) (?g\<lparr>paused_until := later (paused_until ?g) (now + ?pause)\<rparr>) s"
  let ?sub = "sub\<lparr>sub_attempt := Suc (sub_attempt sub)\<rparr>"
  obtain p where p: "unsent_phase p"
    "map_of (submits (wait_turn now n ?sub ?s)) = (map_of (submits ?s))(n \<mapsto> ?sub\<lparr>sub_phase := p\<rparr>)"
    by (rule wait_turn_effect [of now n ?sub ?s])
  show ?thesis
  proof (cases "Suc (sub_attempt sub) \<le> sub_retries sub")
    case True
    with assms Send_refused p show ?thesis
      by (intro exI [of _ "?sub\<lparr>sub_phase := p\<rparr>"]) (simp add: sent_def Let_def)
  next
    case False
    with assms Send_refused show ?thesis
      by (intro exI [of _ "?sub\<lparr>sub_phase := Finished Raised_refused\<rparr>"])
         (simp add: sent_def Let_def set_submit_def dict_simps)
  qed
qed (use assms in \<open>auto simp: sent_def set_submit_def dict_simps\<close>)

end
