(* ===== verification/Connection_Links.thy ===== *)
theory Connection_Links
  imports Connection_Requests
begin

text \<open>
  The links between a request, its calls and its submission, kept by every step, and what follows
  for the frames on the wire: they stay on the connection their request was made on, and a request
  that raised an error saying it was not sent is on no wire.
\<close>

subsection \<open>Links\<close>

definition own_submit :: "('m, 'c) conn_env \<Rightarrow> 'm connection \<Rightarrow> nat \<Rightarrow> nat \<Rightarrow> bool" where
  "own_submit env c r n \<longleftrightarrow>
     (\<exists>s sub. scheduler c = Some s \<and> n < next_sequence s \<and> map_of (submits s) n = Some sub \<and>
        (group_of (kind_of env (rq_payload (requests c ! r))) = GROUP_OTHER \<longrightarrow> sub_retries sub = 0) \<and>
        submit_counts (sub_phase sub) (sub_attempt sub) (sub_retries sub)
          (n_refused r (calls c)) (n_running r (calls c)) (n_ended r (calls c)))"

definition linked :: "('m, 'c) conn_env \<Rightarrow> 'm connection \<Rightarrow> bool" where
  "linked env c \<longleftrightarrow>
     (\<forall>r<length (requests c). \<forall>n. rq_how (requests c ! r) = Queued n \<longrightarrow> own_submit env c r n) \<and>
     (\<forall>r<length (requests c). rq_how (requests c ! r) = Direct \<longrightarrow> n_of (\<lambda>_. True) r (calls c) \<le> 1) \<and>
     (\<forall>r<length (requests c). \<forall>r'<length (requests c). \<forall>n.
        rq_how (requests c ! r) = Queued n \<longrightarrow> rq_how (requests c ! r') = Queued n \<longrightarrow> r = r')"

lemma linked_frame:
  assumes "linked env c" and "requests c' = requests c" and "\<And>P r. n_of P r (calls c') = n_of P r (calls c)"
    and "scheduler c' = map_option f (scheduler c)"
    and "\<And>s. submits (f s) = submits s" and "\<And>s. next_sequence (f s) = next_sequence s"
  shows "linked env c'"
proof -
  have "own_submit env c' r n" if "own_submit env c r n" for r n
    using that assms(2-6) by (auto simp: own_submit_def)
  with assms(1-3) show ?thesis by (simp add: linked_def)
qed

text \<open>A step that touches one request and its submission only.\<close>

lemma linked_one:
  assumes "linked env c" and "requests c' = requests c"
    and "\<And>P q. q \<noteq> r \<Longrightarrow> n_of P q (calls c') = n_of P q (calls c)"
    and "r < length (requests c)" and "rq_how (requests c ! r) = Queued n"
    and "scheduler c = Some s" and "scheduler c' = Some s'" and "next_sequence s' = next_sequence s"
    and "\<And>m. m \<noteq> n \<Longrightarrow> map_of (submits s') m = map_of (submits s) m"
    and "own_submit env c' r n"
  shows "linked env c'"
proof -
  have "own_submit env c' q m" if q: "q < length (requests c)" "rq_how (requests c ! q) = Queued m" for q m
  proof (cases "q = r")
    case True
    with q assms(5,10) show ?thesis by simp
  next
    case False
    with assms(1,4,5) q have "m \<noteq> n" unfolding linked_def by blast
    moreover have "own_submit env c q m" using assms(1) q by (simp add: linked_def)
    ultimately show ?thesis using assms(2,3,6-9) False by (auto simp: own_submit_def)
  qed
  moreover have "n_of (\<lambda>_. True) q (calls c') \<le> 1" if "q < length (requests c)" "rq_how (requests c ! q) = Direct" for q
    using assms(1,3,5) that by (cases "q = r") (auto simp: linked_def)
  ultimately show ?thesis using assms(1,2) by (simp add: linked_def)
qed

text \<open>A step that touches one request, which has no submission.\<close>

lemma linked_plain:
  assumes "linked env c" and "\<forall>n. rq_how (requests c ! r) \<noteq> Queued n" and "requests c' = requests c"
    and "scheduler c' = scheduler c" and "\<And>P q. q \<noteq> r \<Longrightarrow> n_of P q (calls c') = n_of P q (calls c)"
    and "n_of (\<lambda>_. True) r (calls c') \<le> max 1 (n_of (\<lambda>_. True) r (calls c))"
  shows "linked env c'"
proof -
  have "own_submit env c' q n" if "q < length (requests c)" "rq_how (requests c ! q) = Queued n" for q n
    using that assms(1-5) by (cases "q = r") (auto simp: linked_def own_submit_def)
  moreover have "n_of (\<lambda>_. True) q (calls c') \<le> 1"
    if "q < length (requests c)" "rq_how (requests c ! q) = Direct" for q
    using that assms(1,5,6) by (cases "q = r") (auto simp: linked_def)
  ultimately show ?thesis using assms(1,3) by (simp add: linked_def)
qed

lemma next_sequence_frames [simp]:
  "next_sequence (sent now n answer s) = next_sequence s"
  "next_sequence (wait_over now n expired s) = next_sequence s"
  "next_sequence (cancel_submit n s) = next_sequence s"
  "next_sequence (fail_all s) = next_sequence s"
  "next_sequence (reset s) = next_sequence s"
  "next_sequence (dispatcher_turn now g s) = next_sequence s"
proof -
  have w: "next_sequence (wait_turn now n sub s) = next_sequence s" for sub s
    by (rule wait_turn_effect [of now n sub s])
  show "next_sequence (sent now n answer s) = next_sequence s"
    by (auto simp: sent_def Let_def w set_submit_def split: option.splits send_answer.splits)
  show "next_sequence (wait_over now n expired s) = next_sequence s"
    by (auto simp: wait_over_def end_wait_def set_submit_def set_future_def
             split: option.splits phase.splits future.splits)
  show "next_sequence (cancel_submit n s) = next_sequence s"
    by (auto simp: cancel_submit_def set_submit_def set_future_def split: option.splits phase.splits)
  show "next_sequence (fail_all s) = next_sequence s" by (simp add: fail_all_def fail_group_def)
  show "next_sequence (reset s) = next_sequence s" by (simp add: reset_def)
  show "next_sequence (dispatcher_turn now g s) = next_sequence s"
    by (cases rule: dispatch_cases [of s g now]) (simp_all add: dispatcher_turn_def)
qed

lemma submits_frames [simp]:
  "submits (fail_all s) = submits s" "submits (reset s) = submits s"
  "submits (dispatcher_turn now g s) = submits s"
  by (simp_all add: submits_fail_all reset_def dispatcher_turn_def submits_dispatch)

subsection \<open>Each step keeps the links\<close>

lemma linked_finish:
  assumes "linked env c" and "unfinished k c" and "call_request (calls c ! k) < length (requests c)"
  shows "linked env (finish_call now k outcome c)"
proof -
  let ?r = "call_request (calls c ! k)"
  let ?c = "finish_call now k outcome c"
  have k: "k < length (calls c)" "call_outcome (calls c ! k) = None"
    using assms(2) by (simp_all add: unfinished_def)
  have others: "n_of P q (calls ?c) = n_of P q (calls c)" if "q \<noteq> ?r" for P q
    using n_of_update [OF k(1), of "(calls c ! k)\<lparr>call_outcome := Some outcome\<rparr>" P q] that by simp
  have all_calls: "n_of (\<lambda>_. True) q (calls ?c) = n_of (\<lambda>_. True) q (calls c)" for q
    using n_of_update [OF k(1), of "(calls c ! k)\<lparr>call_outcome := Some outcome\<rparr>" "\<lambda>_. True" q] by simp
  show ?thesis
  proof (cases "rq_how (requests c ! ?r)")
    case (Queued n)
    then obtain s sub where s: "scheduler c = Some s" "n < next_sequence s" "map_of (submits s) n = Some sub"
      and retries: "group_of (kind_of env (rq_payload (requests c ! ?r))) = GROUP_OTHER \<longrightarrow> sub_retries sub = 0"
      and counts: "submit_counts (sub_phase sub) (sub_attempt sub) (sub_retries sub)
          (n_refused ?r (calls c)) (n_running ?r (calls c)) (n_ended ?r (calls c))"
      using assms(1,3) unfolding linked_def own_submit_def by blast
    have "calls c ! k \<in> set (calls c)" using k(1) by simp
    then have "n_running ?r (calls c) \<noteq> 0" using k(2) by (auto simp: n_of_zero)
    with counts have p: "sub_phase sub = Sending" "n_running ?r (calls c) = 1" "n_ended ?r (calls c) = 0"
        "n_refused ?r (calls c) = sub_attempt sub" "sub_attempt sub \<le> sub_retries sub"
      by (auto simp: submit_counts_def split: if_splits)
    have now_counts: "n_running ?r (calls ?c) = 0"
        "n_ended ?r (calls ?c) = of_bool (\<not> is_refused (Some outcome))"
        "n_refused ?r (calls ?c) = sub_attempt sub + of_bool (is_refused (Some outcome))"
      using n_of_update [OF k(1), of "(calls c ! k)\<lparr>call_outcome := Some outcome\<rparr>" is_running ?r]
        n_of_update [OF k(1), of "(calls c ! k)\<lparr>call_outcome := Some outcome\<rparr>" is_ended ?r]
        n_of_update [OF k(1), of "(calls c ! k)\<lparr>call_outcome := Some outcome\<rparr>" is_refused ?r] p k(2)
      by simp_all
    from sent_effect [OF s(3) p(1), of now "answer_of outcome"]
    obtain sub' where sub': "map_of (submits (sent now n (answer_of outcome) s)) = (map_of (submits s))(n \<mapsto> sub')"
      "sub_retries sub' = sub_retries sub"
      "case answer_of outcome of
         Send_ok \<Rightarrow> sub_phase sub' = Finished Returned
       | Send_failed \<Rightarrow> sub_phase sub' = Finished Raised_other
       | Send_refused t \<Rightarrow>
           sub_attempt sub' = Suc (sub_attempt sub) \<and>
           (if Suc (sub_attempt sub) \<le> sub_retries sub then unsent_phase (sub_phase sub')
            else sub_phase sub' = Finished Raised_refused)" by blast
    have "submit_counts (sub_phase sub') (sub_attempt sub') (sub_retries sub')
        (n_refused ?r (calls ?c)) (n_running ?r (calls ?c)) (n_ended ?r (calls ?c))"
      unfolding now_counts using sub'(2,3) p(5)
      by (auto simp: submit_counts_def answer_of_def is_refused_def
               split: sum.splits conn_error.splits option.splits if_splits)
    moreover have "scheduler ?c = Some (sent now n (answer_of outcome) s)"
      using Queued s(1) by (simp add: finish_call_def Let_def)
    ultimately have "own_submit env ?c ?r n"
      using s(2) sub'(1,2) retries unfolding own_submit_def by simp
    from linked_one [OF assms(1) _ others assms(3) Queued s(1) \<open>scheduler ?c = _\<close> _ _ this] sub'(1)
    show ?thesis by simp
  next
    case Direct
    with others all_calls show ?thesis
      by (intro linked_plain [OF assms(1), of ?r]) (auto simp: finish_call_def Let_def)
  next
    case Refused
    with others all_calls show ?thesis
      by (intro linked_plain [OF assms(1), of ?r]) (auto simp: finish_call_def Let_def)
  qed
qed


lemma linked_new_call:
  assumes "linked env c" and "its_turn r c"
    and "call_request call = r" and "call_outcome call = None"
    and "requests c' = requests c" and "calls c' = calls c @ [call]" and "scheduler c' = scheduler c"
  shows "linked env c'"
proof -
  note turn = its_turn_request [OF assms(2)]
  have others: "n_of P q (calls c') = n_of P q (calls c)" if "q \<noteq> r" for P q
    using that by (simp add: assms(3,6))
  have idle: "n_running r (calls c) = 0" using turn by (simp add: running_n)
  show ?thesis
  proof (cases "rq_how (requests c ! r)")
    case (Queued n)
    then obtain s sub where s: "scheduler c = Some s" "map_of (submits s) n = Some sub" "sub_phase sub = Sending"
      using assms(2) by (auto simp: its_turn_def split: option.splits)
    have "own_submit env c r n" using assms(1) turn Queued by (simp add: linked_def)
    then have "own_submit env c' r n"
      using s idle by (auto simp: own_submit_def assms(3-7) submit_counts_def)
    from linked_one [OF assms(1,5) others _ Queued s(1) _ _ _ this] turn s(1) assms(7) show ?thesis by simp
  next
    case Direct
    then have "n_of (\<lambda>_. True) r (calls c) = 0"
      using assms(2) by (auto simp: its_turn_def n_of_zero list_ex_iff)
    with Direct others assms(3,6) show ?thesis by (intro linked_plain [OF assms(1) _ assms(5,7), of r]) auto
  qed (use turn in simp)
qed

lemma linked_exchange:
  assumes "linked env c" and "its_turn r c"
  shows "linked env (exchange env now r i c)"
proof (cases rule: exchange_cases [of env now r i c])
  case (unsent e)
  let ?c = "c\<lparr>calls := calls c @ [new_call r i], pending := AList.update i (length (calls c)) (pending c)\<rparr>"
  have "linked env ?c" by (rule linked_new_call [OF assms, of "new_call r i"]) simp_all
  with its_turn_request [OF assms(2)] show ?thesis
    unfolding unsent(3) by (intro linked_finish) (simp_all add: unfinished_def)
next
  case (written f)
  show ?thesis
    unfolding written(5) by (rule linked_new_call [OF assms, of "(new_call r i)\<lparr>call_written := True\<rparr>"]) simp_all
qed

lemma linked_same:
  "linked env c \<Longrightarrow> requests c' = requests c \<Longrightarrow> (\<And>P r. n_of P r (calls c') = n_of P r (calls c)) \<Longrightarrow>
   scheduler c' = scheduler c \<Longrightarrow> linked env c'"
  by (rule linked_frame [of env c c' "\<lambda>s. s"]) (simp_all add: option.map_ident)

lemma linked_failed:
  "linked env c \<Longrightarrow> requests c' = requests c \<Longrightarrow> (\<And>P r. n_of P r (calls c') = n_of P r (calls c)) \<Longrightarrow>
   scheduler c' = map_option fail_all (scheduler c) \<Longrightarrow> linked env c'"
  by (rule linked_frame [of env c c' fail_all]) simp_all

lemma linked_fail: "linked env c \<Longrightarrow> linked env (fail e c)"
  by (erule linked_failed) (simp_all add: fail_def fail_queued_def reject_pending_def Let_def)

lemma linked_read_failed: "linked env c \<Longrightarrow> linked env (read_failed e c)"
  by (auto simp: read_failed_def intro!: linked_fail elim: linked_same)

lemma linked_dispatch: "linked env c \<Longrightarrow> linked env (fst (dispatch_envelope env envelope c))"
  by (erule linked_same)
     (auto simp: dispatch_envelope_def take_pending_def
           split: sum.splits payload_error.splits option.splits)

lemma linked_request:
  assumes "linked env c" and "delivers env c"
  shows "linked env (request env now payload timeout priority c)"
proof -
  let ?r = "length (requests c)"
  have new: "n_of P ?r (calls c) = 0" for P
    using assms(2) by (intro n_of_new_request) (auto simp: delivers_def delivered_def call_safe_def)
  have plain: "linked env (c\<lparr>requests := requests c @ [rq]\<rparr>)" if "\<forall>n. rq_how rq \<noteq> Queued n" for rq
    using assms(1) new that unfolding linked_def own_submit_def
    by (auto simp: nth_append less_Suc_eq)
  show ?thesis
  proof (cases "connected c \<and> scheduler c \<noteq> None")
    case True
    then obtain s where s: "scheduler c = Some s" by blast
    let ?n = "next_sequence s"
    let ?g = "group_of (kind_of env payload)"
    let ?sub = "\<lparr>sub_group = ?g, sub_priority = priority, sub_sequence = ?n,
      sub_retries = (if ?g = GROUP_HISTORICAL then nat (pacing_retries (pacing s)) else 0),
      sub_waited = 0, sub_attempt = 0, sub_phase = Sending, sub_sent = 0\<rparr>"
    obtain p where p: "unsent_phase p"
      "map_of (submits (wait_turn now ?n ?sub (s\<lparr>next_sequence := Suc ?n\<rparr>))) =
         (map_of (submits s))(?n \<mapsto> ?sub\<lparr>sub_phase := p\<rparr>)"
      "next_sequence (wait_turn now ?n ?sub (s\<lparr>next_sequence := Suc ?n\<rparr>)) = Suc ?n"
      using wait_turn_effect [of now ?n ?sub "s\<lparr>next_sequence := Suc ?n\<rparr>"] by auto
    let ?c = "request env now payload timeout priority c"
    have c: "requests ?c = requests c @ [\<lparr>rq_payload = payload, rq_generation = generation c,
        rq_deadline = (case timeout of None \<Rightarrow> request_timeout_secs env | Some t \<Rightarrow> t), rq_how = Queued ?n\<rparr>]"
      "calls ?c = calls c" "scheduler ?c = Some (wait_turn now ?n ?sub (s\<lparr>next_sequence := Suc ?n\<rparr>))"
      using True s by (simp_all add: request_def Let_def submit_def)
    have "own_submit env ?c ?r ?n" using p new by (simp add: own_submit_def c submit_counts_def)
    moreover have "own_submit env ?c q m" if "q < ?r" "rq_how (requests c ! q) = Queued m" for q m
    proof -
      have "own_submit env c q m" using assms(1) that by (simp add: linked_def)
      with s p(2,3) that(1) show ?thesis by (auto simp: own_submit_def c nth_append)
    qed
    moreover have "m < ?n" if "q < ?r" "rq_how (requests c ! q) = Queued m" for q m
      using assms(1) that s by (auto simp: linked_def own_submit_def)
    ultimately show ?thesis
      using assms(1) unfolding linked_def c
      by (auto simp: nth_append less_Suc_eq dest: less_irrefl_nat)
  qed (auto simp: request_def Let_def intro!: plain)
qed


lemma linked_finish_delivers:
  "linked env c \<Longrightarrow> delivers env c \<Longrightarrow> unfinished k c \<Longrightarrow> linked env (finish_call now k outcome c)"
  by (rule linked_finish) (auto simp: delivers_def delivered_def call_safe_def unfinished_def)

lemma linked_submission:
  assumes "linked env c" and "r < length (requests c)" and "rq_how (requests c ! r) = Queued n"
    and "\<And>s sub. map_of (submits s) n = Some sub \<Longrightarrow>
      \<exists>sub'. map_of (submits (f s)) = (map_of (submits s))(n \<mapsto> sub') \<and>
        sub_retries sub' = sub_retries sub \<and> sub_attempt sub' = sub_attempt sub \<and>
        (\<forall>u e. submit_counts (sub_phase sub) (sub_attempt sub) (sub_retries sub) u (n_running r (calls c)) e \<longrightarrow>
           submit_counts (sub_phase sub') (sub_attempt sub) (sub_retries sub) u (n_running r (calls c)) e)"
    and "\<And>s. next_sequence (f s) = next_sequence s"
  shows "linked env (on_scheduler f c)"
proof -
  obtain s sub where s: "scheduler c = Some s" "map_of (submits s) n = Some sub" and own: "own_submit env c r n"
    using assms(1-3) unfolding linked_def own_submit_def by blast
  from assms(4) [OF s(2)] obtain sub' where sub': "map_of (submits (f s)) = (map_of (submits s))(n \<mapsto> sub')"
    "sub_retries sub' = sub_retries sub" "sub_attempt sub' = sub_attempt sub"
    "\<forall>u e. submit_counts (sub_phase sub) (sub_attempt sub) (sub_retries sub) u (n_running r (calls c)) e \<longrightarrow>
       submit_counts (sub_phase sub') (sub_attempt sub) (sub_retries sub) u (n_running r (calls c)) e" by blast
  have "own_submit env (on_scheduler f c) r n"
    using own s sub' assms(5) by (simp add: own_submit_def on_scheduler_def)
  from linked_one [OF assms(1) _ _ assms(2,3) s(1) _ _ _ this] sub'(1) s(1) assms(5) show ?thesis
    by (simp add: on_scheduler_def)
qed

lemma linked_wait_over:
  assumes "linked env c" and "r < length (requests c)" and "rq_how (requests c ! r) = Queued n"
  shows "linked env (on_scheduler (wait_over now n expired) c)"
proof (rule linked_submission [OF assms])
  fix s :: RequestScheduler and sub :: Submit
  assume "map_of (submits s) n = Some sub"
  from wait_over_effect [OF this, of now expired]
  obtain sub' where "map_of (submits (wait_over now n expired s)) = (map_of (submits s))(n \<mapsto> sub')"
    "sub_retries sub' = sub_retries sub" "sub_attempt sub' = sub_attempt sub"
    "sub_phase sub' = sub_phase sub \<or> unsent_phase (sub_phase sub) \<and>
      (unsent_phase (sub_phase sub') \<or> sub_phase sub' \<in> {Sending, Finished Raised_cancelled})" by blast
  then show "\<exists>sub'. map_of (submits (wait_over now n expired s)) = (map_of (submits s))(n \<mapsto> sub') \<and>
      sub_retries sub' = sub_retries sub \<and> sub_attempt sub' = sub_attempt sub \<and>
      (\<forall>u e. submit_counts (sub_phase sub) (sub_attempt sub) (sub_retries sub) u (n_running r (calls c)) e \<longrightarrow>
         submit_counts (sub_phase sub') (sub_attempt sub) (sub_retries sub) u (n_running r (calls c)) e)"
    by (intro exI [of _ sub']) (auto simp: submit_counts_def)
qed simp

lemma linked_cancel:
  assumes "linked env c" and "r < length (requests c)" and "rq_how (requests c ! r) = Queued n"
    and "\<not> running r c"
  shows "linked env (on_scheduler (cancel_submit n) c)"
proof (rule linked_submission [OF assms(1-3)])
  fix s :: RequestScheduler and sub :: Submit
  assume "map_of (submits s) n = Some sub"
  from cancel_effect [OF this]
  obtain sub' where "map_of (submits (cancel_submit n s)) = (map_of (submits s))(n \<mapsto> sub')"
    "sub_retries sub' = sub_retries sub" "sub_attempt sub' = sub_attempt sub"
    "sub_phase sub' = sub_phase sub \<or>
     (unsent_phase (sub_phase sub) \<or> sub_phase sub = Sending) \<and> sub_phase sub' = Finished Raised_cancelled"
    by blast
  then show "\<exists>sub'. map_of (submits (cancel_submit n s)) = (map_of (submits s))(n \<mapsto> sub') \<and>
      sub_retries sub' = sub_retries sub \<and> sub_attempt sub' = sub_attempt sub \<and>
      (\<forall>u e. submit_counts (sub_phase sub) (sub_attempt sub) (sub_retries sub) u (n_running r (calls c)) e \<longrightarrow>
         submit_counts (sub_phase sub') (sub_attempt sub) (sub_retries sub) u (n_running r (calls c)) e)"
    using assms(4) by (intro exI [of _ sub']) (auto simp: submit_counts_def running_n)
qed simp

lemma linked_received: "linked env c \<Longrightarrow> linked env (read_turns env now bytes c)"
  by (rule read_turns_preserves [of "linked env"])
     (auto simp: linked_dispatch linked_read_failed elim: linked_same)

lemma linked_step:
  assumes "linked env c" and "delivers env c"
  shows "linked env (conn_step env ev c)"
proof (cases "(env, ev, c)" rule: conn_step.cases)
  case (1 env' now answer c')
  with assms(1) show ?thesis
    by (cases answer) (auto simp: connect_def intro: linked_frame [of env' c' _ reset])
next
  case (2 env' now c')
  with assms(1) show ?thesis
    by (auto simp: begin_close_def fail_queued_def reject_pending_def elim!: linked_failed)
next
  case (3 env' now payload timeout priority c')
  with assms show ?thesis by (simp add: linked_request)
next
  case (4 env' now g c')
  with assms(1) show ?thesis
    by (auto simp: on_scheduler_def intro: linked_frame [of env' c' _ "dispatcher_turn now g"])
next
  case (5 env' now r expired c')
  with assms(1) show ?thesis by (auto simp: linked_wait_over split: how.splits)
next
  case (6 env' now r c')
  with assms(1) show ?thesis by (auto simp: linked_cancel split: how.splits)
next
  case (7 env' now r i c')
  with assms(1) show ?thesis by (auto simp: linked_exchange)
next
  case (8 env' now k ok c')
  moreover have "linked env (c\<lparr>calls := (calls c)[k := (calls c ! k)\<lparr>call_drained := True\<rparr>]\<rparr>)"
    by (rule linked_same [OF assms(1)]) (simp_all add: n_of_same)
  ultimately show ?thesis using assms by (auto simp: drained_def linked_finish_delivers)
next
  case (9 env' now k c')
  with assms(1) show ?thesis by (auto simp: deadline_passed_def elim!: linked_same)
next
  case (10 env' now k c')
  with assms show ?thesis by (auto simp: resume_def linked_finish_delivers split: option.splits)
next
  case (11 env' now k c')
  with assms show ?thesis by (auto simp: cancel_call_def linked_finish_delivers)
next
  case (12 env' now bytes c')
  with assms(1) show ?thesis by (simp add: linked_received)
next
  case (13 env' now e c')
  with assms(1) show ?thesis by (auto simp: linked_read_failed)
next
  case (14 env' now c')
  have "linked env (tick env now c)"
  proof (cases rule: tick_cases [of c env now])
    case silent
    then show ?thesis using assms(1) by (auto intro!: linked_fail elim: linked_same)
  next
    case (alive h w l)
    then show ?thesis using assms(1) by (auto elim: linked_same)
  qed
  with 14 show ?thesis by simp
qed

lemma run_keeps:
  "linked env c \<Longrightarrow> delivers env c \<Longrightarrow>
   linked env (fold (conn_step env) evs c) \<and> delivers env (fold (conn_step env) evs c)"
  by (induction evs arbitrary: c) (simp_all add: linked_step delivers_step)

lemma new_keeps:
  "new_connection env s = Some c \<Longrightarrow> linked env c \<and> delivers env c"
  by (auto simp: new_connection_def linked_def delivers_def delivered_def writers_def map_filter_def
           split: if_splits)


subsection \<open>One call at most\<close>

lemma last_outcome_call:
  assumes "last_outcome r c = Some v"
  obtains k where "k < length (calls c)" "call_request (calls c ! k) = r" "call_outcome (calls c ! k) = Some v"
proof -
  obtain call rest where "rev (filter (\<lambda>call. call_request call = r) (calls c)) = call # rest"
    and v: "call_outcome call = Some v"
    using assms by (auto simp: last_outcome_def split: list.splits)
  then have "call \<in> set (rev (filter (\<lambda>call. call_request call = r) (calls c)))" by (metis list.set_intros(1))
  then have "call \<in> set (calls c)" "call_request call = r" by auto
  with v that show thesis by (metis in_set_conv_nth)
qed

lemma n_of_one:
  assumes "n_of (\<lambda>_. True) r cs \<le> 1" and "a \<in> set cs" and "b \<in> set cs" and "call_request a = r" and "call_request b = r"
  shows "a = b"
proof -
  let ?xs = "filter (\<lambda>call. call_request call = r) cs"
  have "length ?xs \<le> 1" using assms(1) by (simp add: n_of_def)
  moreover have "a \<in> set ?xs" "b \<in> set ?xs" using assms(2-) by auto
  ultimately show ?thesis by (cases ?xs) auto
qed

lemma n_of_split: "n_of (\<lambda>_. True) r cs = n_refused r cs + n_running r cs + n_ended r cs"
proof (induction cs)
  case (Cons call cs)
  then show ?case by (cases "call_outcome call") (auto simp: n_of_def)
qed (simp add: n_of_def)

definition on_the_wire :: "nat \<Rightarrow> 'm connection \<Rightarrow> bool" where
  "on_the_wire r c \<longleftrightarrow> list_ex (\<lambda>k. call_request (calls c ! k) = r) (writers (wire c))"

lemma on_the_wire_written:
  assumes "delivers env c"
  shows "on_the_wire r c \<longleftrightarrow> (\<exists>k<length (calls c). call_request (calls c ! k) = r \<and> call_written (calls c ! k))"
proof -
  have "k < length (calls c)" if "k \<in> set (writers (wire c))" for k
    using assms that by (auto simp: delivers_def delivered_def writer_of_frame)
  moreover have "\<forall>k<length (calls c). call_written (calls c ! k) \<longleftrightarrow> k \<in> set (writers (wire c))"
    using assms by (simp add: delivers_def delivered_def)
  ultimately show ?thesis unfolding on_the_wire_def list_ex_iff by blast
qed

lemma single_call_wire:
  assumes "delivers env c" and "n_of (\<lambda>_. True) r (calls c) \<le> 1" and "last_outcome r c = Some (Inl e)"
  shows "is_not_sent e \<longleftrightarrow> \<not> on_the_wire r c"
proof -
  obtain k where k: "k < length (calls c)" "call_request (calls c ! k) = r" "call_outcome (calls c ! k) = Some (Inl e)"
    using last_outcome_call [OF assms(3)] .
  have "call_safe (requests c) (calls c ! k)" using assms(1) k(1) by (simp add: delivers_def delivered_def)
  then have "is_not_sent e \<longleftrightarrow> \<not> call_written (calls c ! k)" using k(3) by (auto simp: call_safe_def)
  moreover have "calls c ! j = calls c ! k" if "j < length (calls c)" "call_request (calls c ! j) = r" for j
    using n_of_one [OF assms(2), of "calls c ! j" "calls c ! k"] that k by simp
  ultimately show ?thesis unfolding on_the_wire_written [OF assms(1)] using k(1,2) by metis
qed

lemma queued_wire:
  assumes "delivers env c" and "own_submit env c r n" and "rq_how (requests c ! r) = Queued n"
    and "group_of (kind_of env (rq_payload (requests c ! r))) = GROUP_OTHER"
    and "request_outcome r c = Some (Inl e)" and "e \<noteq> Cancelled"
  shows "is_not_sent e \<longleftrightarrow> \<not> on_the_wire r c"
proof -
  obtain s sub where s: "scheduler c = Some s" "map_of (submits s) n = Some sub" "sub_retries sub = 0"
    and counts: "submit_counts (sub_phase sub) (sub_attempt sub) 0
      (n_refused r (calls c)) (n_running r (calls c)) (n_ended r (calls c))"
    using assms(2,4) by (auto simp: own_submit_def)
  note outcome = assms(5) [unfolded request_outcome_def assms(3) submit_of_def s(1) how.case option.case s(2)]
  consider (unsent) "unsent_phase (sub_phase sub)" "is_not_sent e"
    | (refused) "sub_phase sub = Finished Raised_refused" "last_outcome r c = Some (Inl e)"
    | (ended) "sub_phase sub \<in> {Finished Returned, Finished Raised_other}" "last_outcome r c = Some (Inl e)"
    using outcome assms(6) by (auto split: phase.splits outcome.splits)
  then show ?thesis
  proof cases
    case unsent
    then have "n_of (\<lambda>_. True) r (calls c) = 0" using counts by (simp add: n_of_split submit_counts_def)
    with unsent show ?thesis by (auto simp: on_the_wire_written [OF assms(1)] n_of_zero)
  next
    case refused
    obtain k where k: "k < length (calls c)" "call_request (calls c ! k) = r" "call_outcome (calls c ! k) = Some (Inl e)"
      using last_outcome_call [OF refused(2)] .
    have "n_ended r (calls c) = 0" using counts refused(1) by (simp add: submit_counts_def)
    then have "is_refused (Some (Inl e) :: (conn_error + 'a) option)" using k by (force simp: n_of_zero)
    then have "\<not> is_not_sent e" by (cases e) (simp_all add: is_refused_def)
    moreover have "call_safe (requests c) (calls c ! k)" using assms(1) k(1) by (simp add: delivers_def delivered_def)
    then have "is_not_sent e \<longleftrightarrow> \<not> call_written (calls c ! k)" using k(3) by (auto simp: call_safe_def)
    ultimately show ?thesis using k by (auto simp: on_the_wire_written [OF assms(1)])
  next
    case ended
    then have "n_of (\<lambda>_. True) r (calls c) \<le> 1" using counts by (auto simp: n_of_split submit_counts_def)
    then show ?thesis by (rule single_call_wire [OF assms(1) _ ended(2)])
  qed
qed

subsection \<open>Properties\<close>

text \<open>
  Every frame a request put on the wire went out on the connection the request was made on,
  never on a later one, and is the encoding of its payload under the id of that try; no try put out
  a second frame.\<close>

theorem frame_stays_on_its_connection:
  assumes "new_connection env s = Some c0" and "c = fold (conn_step env) evs c0"
    and "(g, Some k, f) \<in> set (wire c)"
  shows "k < length (calls c) \<and> rq_generation (requests c ! call_request (calls c ! k)) = g \<and>
    encode_frame (proto env) (rq_payload (requests c ! call_request (calls c ! k)))
      (Some (call_id (calls c ! k))) = Inr f \<and>
    distinct (writers (wire c))"
proof -
  have "delivers env c" using run_keeps [of env c0 evs] new_keeps [OF assms(1)] assms(2) by simp
  with assms(3) show ?thesis unfolding delivers_def delivered_def by blast
qed

text \<open>
  C3: An error tells the truth about the wire: when a request outside the historical group - an
  order, say - raised an error other than its caller's cancellation, the error is one of those that
  say the request was not sent exactly when no frame of it was written. So an order reported as
  not sent never reaches the venue, and one that was written is never reported as unsent.\<close>

theorem not_sent_iff_not_on_the_wire:
  assumes "new_connection env s = Some c0" and "c = fold (conn_step env) evs c0"
    and "r < length (requests c)"
    and "group_of (kind_of env (rq_payload (requests c ! r))) = GROUP_OTHER"
    and "request_outcome r c = Some (Inl e)" and "e \<noteq> Cancelled"
  shows "is_not_sent e \<longleftrightarrow> \<not> on_the_wire r c"
proof -
  have inv: "linked env c" "delivers env c"
    using run_keeps [of env c0 evs] new_keeps [OF assms(1)] assms(2) by simp_all
  show ?thesis
  proof (cases "rq_how (requests c ! r)")
    case Refused
    then have "\<not> on_the_wire r c"
      using inv(2) by (auto simp: on_the_wire_written [OF inv(2)] delivers_def delivered_def call_safe_def)
    with Refused assms(5) show ?thesis by (auto simp: request_outcome_def)
  next
    case Direct
    with inv(1) assms(3,5) show ?thesis
      by (intro single_call_wire [OF inv(2)]) (simp_all add: linked_def request_outcome_def)
  next
    case (Queued n)
    with inv(1) assms(3) have "own_submit env c r n" by (simp add: linked_def)
    from queued_wire [OF inv(2) this Queued assms(4-6)] show ?thesis .
  qed
qed

end
