(* ===== verification/Connection_Loss.thy ===== *)
theory Connection_Loss
  imports Connection_Links
begin

text \<open>
  A lost connection: nobody goes on waiting for it, its loss is told once, and until then a reply
  reaches the call whose id it carries.
\<close>

subsection \<open>A scheduler that failed is empty\<close>

definition failed_empty :: "RequestScheduler \<Rightarrow> bool" where
  "failed_empty s \<longleftrightarrow> (failed s \<longrightarrow> (\<forall>m. heap (group_state m s) = []))"

lemma failed_empty_set_future [simp]: "failed_empty (set_future e f s) = failed_empty s"
  by (simp add: failed_empty_def)

lemma failed_empty_set_submit [simp]: "failed_empty (set_submit r sub s) = failed_empty s"
  by (simp add: failed_empty_def)

lemma failed_empty_wait_turn: "failed_empty s \<Longrightarrow> failed_empty (wait_turn now r sub s)"
  by (cases "failed s") (simp_all add: wait_turn_def Let_def, simp add: failed_empty_def)

lemma failed_empty_fail_all: "failed_empty (fail_all s)"
proof -
  have "heap (group_state m (fail_all s)) = []" for m
    by (cases m) (simp_all add: fail_all_def)
  then show ?thesis by (simp add: failed_empty_def)
qed

lemma failed_empty_step: "failed_empty s \<Longrightarrow> failed_empty (scheduler_step ev s)"
proof (cases "(ev, s)" rule: scheduler_step.cases)
  case (1 now g priority s')
  moreover assume "failed_empty s"
  ultimately show ?thesis
    by (auto simp: submit_def Let_def failed_empty_def intro!: failed_empty_wait_turn [unfolded failed_empty_def, rule_format])
next
  case (2 now g s')
  moreover assume "failed_empty s"
  moreover have "failed_empty (dispatch now g s')" if "failed_empty s'"
    using that
    by (cases rule: dispatch_cases [of s' g now]) (auto simp: failed_empty_def drop_dead_def)
  ultimately show ?thesis by (auto simp: dispatcher_turn_def)
next
  case (5 now r answer s')
  moreover assume "failed_empty s"
  moreover have "failed_empty (set_group m (g\<lparr>paused_until := t\<rparr>) s')" if "failed_empty s'" "g = group_state m s'" for m g t
    using that by (simp add: failed_empty_def)
  ultimately show ?thesis
    by (auto simp: sent_def Let_def failed_empty_wait_turn split: option.splits send_answer.splits)
next
  case (6 now s')
  then show ?thesis by (simp add: failed_empty_fail_all)
next
  case (7 now s')
  then show ?thesis by (simp add: failed_empty_def reset_def)
qed (auto simp: wait_over_def end_wait_def cancel_submit_def split: option.splits phase.splits future.splits)

lemma failed_empty_run: "failed_empty s \<Longrightarrow> failed_empty (fold scheduler_step es s)"
  by (induction es arbitrary: s) (simp_all add: failed_empty_step)

text \<open>The scheduler of a connection that was given a new one.\<close>

lemma scheduler_of_connection:
  assumes "new_connection env (map_option new_RequestScheduler p) = Some c0"
    and "scheduler (fold (conn_step env) evs c0) = Some s"
  shows "attended s \<and> failed_empty s"
proof -
  obtain es where es: "scheduler (fold (conn_step env) evs c0) = map_option (fold scheduler_step es) (scheduler c0)"
    using scheduler_of_run [of evs env c0] by blast
  have "scheduler c0 = map_option new_RequestScheduler p"
    using assms(1) by (auto simp: new_connection_def split: if_splits)
  with es assms(2) obtain pacing where "s = fold scheduler_step es (new_RequestScheduler pacing)"
    by (cases p) auto
  then show ?thesis
    by (simp add: attended_run attended_new failed_empty_run failed_empty_def [of "new_RequestScheduler pacing"]
        new_RequestScheduler_def [of pacing, THEN arg_cong, of failed])
qed

subsection \<open>Who waits\<close>

lemma fold_failed [simp]: "failed (fold (\<lambda>(_, _, e). set_future e f) h s) = failed s"
  by (induction h arbitrary: s) (auto simp: case_prod_unfold)

lemma failed_sent: "failed s \<Longrightarrow> failed (sent now n answer s)"
  by (auto simp: sent_def Let_def wait_turn_def split: option.splits send_answer.splits)

definition awaited :: "'m connection \<Rightarrow> bool" where
  "awaited c \<longleftrightarrow>
     distinct (map call_id (calls c)) \<and>
     (\<forall>i k. map_of (pending c) i = Some k \<longrightarrow> k < length (calls c) \<and> call_id (calls c ! k) = i) \<and>
     (\<forall>k<length (calls c). call_outcome (calls c ! k) = None \<longrightarrow> call_future (calls c ! k) = None \<longrightarrow>
        map_of (pending c) (call_id (calls c ! k)) = Some k) \<and>
     (\<not> connected c \<longrightarrow> pending c = [] \<and> (\<forall>s. scheduler c = Some s \<longrightarrow> failed s \<or> submits s = []))"

lemma awaitedD:
  assumes "awaited c"
  shows "map_of (pending c) i = Some k \<Longrightarrow> k < length (calls c)"
    "map_of (pending c) i = Some k \<Longrightarrow> call_id (calls c ! k) = i"
    "\<not> connected c \<Longrightarrow> \<forall>s. scheduler c = Some s \<longrightarrow> failed s \<or> submits s = []"
  using assms by (simp_all add: awaited_def)

lemma fold_futures:
  "length (fold (\<lambda>k. set_call_future k v) ks cs) = length cs"
  "map call_id (fold (\<lambda>k. set_call_future k v) ks cs) = map call_id cs"
  "j < length cs \<Longrightarrow> call_outcome (fold (\<lambda>k. set_call_future k v) ks cs ! j) = call_outcome (cs ! j)"
  "j < length cs \<Longrightarrow> call_future (fold (\<lambda>k. set_call_future k v) ks cs ! j) = None \<Longrightarrow>
     call_future (cs ! j) = None \<and> j \<notin> set ks"
proof (induction ks arbitrary: cs)
  case (Cons k ks)
  have step: "length (set_call_future k v cs) = length cs" "map call_id (set_call_future k v cs) = map call_id cs"
    "j < length cs \<Longrightarrow> call_outcome (set_call_future k v cs ! j) = call_outcome (cs ! j)"
    "j < length cs \<Longrightarrow> call_future (set_call_future k v cs ! j) = None \<Longrightarrow> call_future (cs ! j) = None \<and> j \<noteq> k" for cs
    by (auto simp: set_call_future_def nth_list_update map_update list_update_same_conv split: if_splits)
  { case 1 show ?case using Cons.IH(1) [of "set_call_future k v cs"] by (simp add: step)
  next case 2 show ?case using Cons.IH(2) [of "set_call_future k v cs"] by (simp add: step)
  next case 3 then show ?case using Cons.IH(3) [of "set_call_future k v cs"] by (simp add: step)
  next case 4 then show ?case using Cons.IH(4) [of "set_call_future k v cs"] step(4) [of cs] by (auto simp: step(1)) }
qed simp_all


lemma awaited_same:
  "awaited c \<Longrightarrow> calls c' = calls c \<Longrightarrow> pending c' = pending c \<Longrightarrow> connected c' = connected c \<Longrightarrow>
   scheduler c' = scheduler c \<Longrightarrow> awaited c'"
  by (simp add: awaited_def)

lemma awaited_down:
  assumes "awaited c" and "\<not> connected c'" and "pending c' = []"
    and "calls c' = fold (\<lambda>k. set_call_future k v) (map snd (pending c)) (calls c)"
    and "scheduler c' = map_option fail_all (scheduler c)"
  shows "awaited c'"
proof -
  have nobody: "call_future (calls c' ! k) \<noteq> None" if k: "k < length (calls c')" "call_outcome (calls c' ! k) = None" for k
  proof
    assume "call_future (calls c' ! k) = None"
    moreover have "k < length (calls c)" using k(1) by (simp add: assms(4) fold_futures(1))
    ultimately have "call_outcome (calls c ! k) = None" "call_future (calls c ! k) = None"
        "k \<notin> snd ` set (pending c)" "k < length (calls c)"
      using fold_futures(3,4) [of k "calls c" v "map snd (pending c)"] k(2) by (simp_all add: assms(4))
    with assms(1) show False unfolding awaited_def by (metis map_of_SomeD image_eqI snd_conv)
  qed
  moreover have "distinct (map call_id (calls c'))"
    using assms(1) fold_futures(2) [of v "map snd (pending c)" "calls c"] by (simp add: awaited_def assms(4))
  moreover have "failed (fail_all s)" for s
    by (simp add: fail_all_def fail_group_def fail_entries_def)
  then have "failed s" if "scheduler c' = Some s" for s using assms(5) that by (cases "scheduler c") auto
  ultimately show ?thesis unfolding awaited_def assms(3) using assms(2) by auto
qed

lemma awaited_fail: "awaited c \<Longrightarrow> awaited (fail e c)"
  by (rule awaited_down [of c _ "Inl e"]) (simp_all add: fail_def fail_queued_def reject_pending_def Let_def)

lemma awaited_read_failed: "awaited c \<Longrightarrow> awaited (read_failed e c)"
  by (auto simp: read_failed_def intro!: awaited_fail elim: awaited_same)

text \<open>A call's own fields, of which only its id and whether it waits matter.\<close>

lemma awaited_update:
  assumes "awaited c" and "calls c' = (calls c)[k := y]" and "k < length (calls c)"
    and "call_id y = call_id (calls c ! k)"
    and "call_outcome y \<noteq> None \<or> call_future y \<noteq> None \<or>
      call_outcome (calls c ! k) = None \<and> call_future (calls c ! k) = None \<and> pending c' = pending c"
    and "pending c' = pending c \<or>
      (call_outcome y \<noteq> None \<or> call_future y \<noteq> None) \<and> pending c' = AList.delete (call_id y) (pending c)"
    and "connected c' = connected c"
    and "\<not> connected c \<Longrightarrow> \<forall>s. scheduler c' = Some s \<longrightarrow> failed s \<or> submits s = []"
  shows "awaited c'"
proof -
  have ids: "map call_id (calls c') = map call_id (calls c)"
    using assms(3,4) by (simp add: assms(2) map_update list_update_same_conv)
  have differ: "call_id (calls c ! j) \<noteq> call_id (calls c ! k)" if "j < length (calls c)" "j \<noteq> k" for j
    using nth_eq_iff_index_eq [of "map call_id (calls c)" j k] assms(1,3) that by (simp add: awaited_def)
  have id: "call_id (calls c' ! j) = call_id (calls c ! j)" if "j < length (calls c)" for j
    using that assms(3,4) by (simp add: assms(2) nth_list_update)
  have waiting: "map_of (pending c') (call_id (calls c' ! j)) = Some j"
    if j: "j < length (calls c')" "call_outcome (calls c' ! j) = None" "call_future (calls c' ! j) = None" for j
  proof (cases "j = k")
    case True
    with j assms(1,2,3,4,5) show ?thesis by (auto simp: awaited_def)
  next
    case False
    with j assms(1,2) have "map_of (pending c) (call_id (calls c ! j)) = Some j" by (simp add: awaited_def)
    with id [of j] j(1) assms(2,4,6) differ [OF _ False] show ?thesis by (auto simp: dict_simps)
  qed
  have sub: "map_of (pending c) i = Some j" if "map_of (pending c') i = Some j" for i j
    using that assms(6) by (auto simp: dict_simps split: if_splits)
  have owner: "j < length (calls c') \<and> call_id (calls c' ! j) = i" if "map_of (pending c') i = Some j" for i j
    using sub [OF that] assms(1,2) id [of j] by (simp add: awaited_def)
  show ?thesis
    unfolding awaited_def
  proof (intro conjI allI impI)
    show "distinct (map call_id (calls c'))" using assms(1) ids by (simp add: awaited_def)
    show "pending c' = []" if "\<not> connected c'" using that assms(1,6,7) by (auto simp: awaited_def)
    show "failed s \<or> submits s = []" if "\<not> connected c'" "scheduler c' = Some s" for s
      using assms(7,8) that by blast
  qed (use owner waiting in auto)
qed

lemma quiet_finish:
  assumes "\<forall>s. scheduler c = Some s \<longrightarrow> failed s \<or> submits s = []"
    and "scheduler (finish_call now k outcome c) = Some s"
  shows "failed s \<or> submits s = []"
proof (cases "scheduler c")
  case None
  with assms(2) show ?thesis by (auto simp: finish_call_def Let_def split: how.splits)
next
  case (Some s0)
  with assms(1) have s0: "failed s0 \<or> submits s0 = []" by simp
  then have "failed (sent now n a s0) \<or> submits (sent now n a s0) = []" for n a
    using failed_sent [of s0 now n a] by (auto simp: sent_def)
  with Some assms(2) s0 show ?thesis by (auto simp: finish_call_def Let_def split: how.splits)
qed

lemma awaited_finish:
  assumes "awaited c" and "unfinished k c"
  shows "awaited (finish_call now k outcome c)"
proof (rule awaited_update [OF assms(1) finish_call_logs(3)])
  show "\<forall>s. scheduler (finish_call now k outcome c) = Some s \<longrightarrow> failed s \<or> submits s = []"
    if "\<not> connected c"
    using quiet_finish [OF awaitedD(3) [OF assms(1) that]] by blast
qed (use assms(2) in \<open>auto simp: unfinished_def finish_call_def Let_def split: how.splits\<close>)

lemma awaited_set_future:
  assumes "awaited c" and "pending c' = pending c \<or> pending c' = AList.delete (call_id (calls c ! k)) (pending c)"
    and "calls c' = set_call_future k v (calls c)" and "connected c' = connected c" and "scheduler c' = scheduler c"
    and "k < length (calls c)" and "call_future (calls c ! k) = None"
  shows "awaited c'"
  using assms(1,2,4-) 
  by (intro awaited_update [OF assms(1), of c' k "(calls c ! k)\<lparr>call_future := Some v\<rparr>"])
     (auto simp: assms(3) set_call_future_def awaited_def)


lemma awaited_drop:
  assumes "awaited c" and "connected c"
    and "\<And>k. map_of (pending c) i = Some k \<Longrightarrow> call_future (calls c ! k) \<noteq> None"
  shows "awaited (c\<lparr>pending := AList.delete i (pending c)\<rparr>)"
proof -
  have "call_id (calls c ! k) \<noteq> i"
    if "k < length (calls c)" "call_outcome (calls c ! k) = None" "call_future (calls c ! k) = None" for k
    using that assms(1,3) unfolding awaited_def by metis
  with assms(1,2) show ?thesis by (simp add: awaited_def dict_simps)
qed

lemma awaited_dispatch:
  assumes "awaited c"
  shows "awaited (fst (dispatch_envelope env envelope c))"
proof (cases "connected c")
  case up: True
  note drop = awaited_drop [OF assms up]
  have told: "awaited (c'\<lparr>told := t\<rparr>) = awaited c'" for c' :: "'a connection" and t by (simp add: awaited_def)
  have taken: "awaited (c\<lparr>pending := AList.delete i (pending c), calls := set_call_future k v (calls c)\<rparr>)"
    if "map_of (pending c) i = Some k" "call_future (calls c ! k) = None" for i k v
    using that assms by (intro awaited_set_future [OF assms, of _ k v]) (auto simp: awaited_def)
  have known: "k < length (calls c)" if "map_of (pending c) i = Some k" for i k
    using that assms by (simp add: awaited_def)
  show ?thesis
    using assms taken known
    by (auto simp: dispatch_envelope_def take_pending_def told Let_def
             split: sum.splits payload_error.splits option.splits intro!: drop)
qed (simp add: dispatch_envelope_def assms)

lemma awaited_received: "awaited c \<Longrightarrow> awaited (read_turns env now bytes c)"
  by (rule read_turns_preserves [of awaited])
     (auto simp: awaited_dispatch awaited_read_failed elim: awaited_same)

lemma awaited_new_call:
  assumes "awaited c" and "fresh_id i c" and "call_id call = i" and "call_outcome call = None"
    and "call_future call = None" and "connected c" and "connected c'" and "calls c' = calls c @ [call]"
    and "pending c' = AList.update i (length (calls c)) (pending c)"
  shows "awaited c'"
proof -
  have fresh: "call_id (calls c ! k) \<noteq> i" if "k < length (calls c)" for k
    using assms(2) that by (auto simp: fresh_id_def list_ex_iff)
  have "distinct (map call_id (calls c'))"
    using assms(1,2,3) by (auto simp: assms(8) awaited_def fresh_id_def list_ex_iff)
  moreover have "k < length (calls c') \<and> call_id (calls c' ! k) = j" if "map_of (pending c') j = Some k" for j k
    using that assms(1,3) by (auto simp: awaited_def assms(8,9) dict_simps nth_append split: if_splits)
  moreover have "map_of (pending c') (call_id (calls c' ! k)) = Some k"
    if "k < length (calls c')" "call_outcome (calls c' ! k) = None" "call_future (calls c' ! k) = None" for k
    using that assms(1,3) fresh by (auto simp: awaited_def assms(8,9) dict_simps nth_append split: if_splits)
  ultimately show ?thesis using assms(7) by (auto simp: awaited_def)
qed

lemma awaited_failed_call:
  assumes "awaited c" and "fresh_id i c" and "call_id call = i" and "call_outcome call \<noteq> None"
    and "connected c' = connected c" and "calls c' = calls c @ [call]"
    and "pending c' = AList.delete i (AList.update i n (pending c))"
    and "\<not> connected c \<Longrightarrow> \<forall>s. scheduler c' = Some s \<longrightarrow> failed s \<or> submits s = []"
  shows "awaited c'"
proof -
  have "call_id (calls c ! k) \<noteq> i" if "k < length (calls c)" for k
    using assms(2) that by (auto simp: fresh_id_def list_ex_iff)
  then have "map_of (pending c) i = None" using assms(1) unfolding awaited_def by (metis not_None_eq)
  then have same: "map_of (pending c') = map_of (pending c)" by (auto simp: assms(7) dict_simps)
  show ?thesis
    unfolding awaited_def
  proof (intro conjI allI impI)
    show "distinct (map call_id (calls c'))"
      using assms(1,2,3) by (auto simp: assms(6) awaited_def fresh_id_def list_ex_iff)
    show "k < length (calls c')" "call_id (calls c' ! k) = j" if "map_of (pending c') j = Some k" for j k
      using that awaitedD(1,2) [OF assms(1), of j k] by (simp_all add: same assms(6) nth_append)
    show "map_of (pending c') (call_id (calls c' ! k)) = Some k"
      if "k < length (calls c')" "call_outcome (calls c' ! k) = None" "call_future (calls c' ! k) = None" for k
      using that assms(1,4) by (auto simp: awaited_def same assms(6) nth_append less_Suc_eq split: if_splits)
    show "pending c' = []" if "\<not> connected c'"
      using that assms(1,5) by (simp add: awaited_def assms(7))
    show "failed s \<or> submits s = []" if "\<not> connected c'" "scheduler c' = Some s" for s
      using that assms(5,8) by blast
  qed
qed

lemma awaited_exchange:
  assumes "awaited c" and "fresh_id i c"
  shows "awaited (exchange env now r i c)"
proof (cases rule: exchange_cases [of env now r i c])
  case (unsent e)
  let ?c = "c\<lparr>calls := calls c @ [new_call r i], pending := AList.update i (length (calls c)) (pending c)\<rparr>"
  show ?thesis
    unfolding unsent(3)
  proof (rule awaited_failed_call [OF assms, of "(new_call r i)\<lparr>call_outcome := Some (Inl e)\<rparr>"])
    show "\<forall>s. scheduler (finish_call now (length (calls c)) (Inl e) ?c) = Some s \<longrightarrow> failed s \<or> submits s = []"
      if "\<not> connected c"
      using quiet_finish [of ?c now "length (calls c)" "Inl e"] awaitedD(3) [OF assms(1) that] by simp
    show "pending (finish_call now (length (calls c)) (Inl e) ?c) = AList.delete i (AList.update i (length (calls c)) (pending c))"
      by (simp add: finish_call_def Let_def split: how.splits)
    show "connected (finish_call now (length (calls c)) (Inl e) ?c) = connected c"
      by (simp add: finish_call_def Let_def split: how.splits)
  qed (simp_all add: list_update_append)
next
  case (written f)
  show ?thesis
    unfolding written(5)
    by (rule awaited_new_call [OF assms, of "(new_call r i)\<lparr>call_written := True\<rparr>"]) (simp_all add: written(2))
qed

lemma awaited_scheduler:
  assumes "awaited c" and "\<And>s. failed s \<or> submits s = [] \<Longrightarrow> failed (f s) \<or> submits (f s) = []"
  shows "awaited (on_scheduler f c)"
proof -
  have "failed s \<or> submits s = []" if "\<not> connected c" "map_option f (scheduler c) = Some s" for s
    using assms that by (cases "scheduler c") (auto simp: awaited_def)
  with assms(1) show ?thesis by (simp add: awaited_def on_scheduler_def)
qed

lemma quiet_frames [simp]:
  "failed (dispatcher_turn now g s) = failed s"
  "failed (wait_over now n expired s) = failed s" "failed (cancel_submit n s) = failed s"
  "submits s = [] \<Longrightarrow> submits (wait_over now n expired s) = []"
  "submits s = [] \<Longrightarrow> submits (cancel_submit n s) = []"
proof -
  show "failed (dispatcher_turn now g s) = failed s"
    by (cases rule: dispatch_cases [of s g now]) (simp_all add: dispatcher_turn_def)
  show "failed (wait_over now n expired s) = failed s"
    by (simp add: wait_over_def end_wait_def split: option.split phase.split future.split)
  show "failed (cancel_submit n s) = failed s"
    by (simp add: cancel_submit_def split: option.split phase.split)
  show "submits s = [] \<Longrightarrow> submits (wait_over now n expired s) = []" by (simp add: wait_over_def)
  show "submits s = [] \<Longrightarrow> submits (cancel_submit n s) = []" by (simp add: cancel_submit_def)
qed

lemma awaited_step:
  assumes "awaited c"
  shows "awaited (conn_step env ev c)"
proof (cases "(env, ev, c)" rule: conn_step.cases)
  case (1 env' now answer c')
  with assms show ?thesis
    by (cases answer) (auto simp: connect_def awaited_def)
next
  case (2 env' now c')
  with assms show ?thesis
    by (auto simp: begin_close_def fail_queued_def reject_pending_def
             intro: awaited_down [of c' _ "Inl ConnectionClosed"])
next
  case (3 env' now payload timeout priority c')
  with assms show ?thesis by (auto simp: request_def Let_def awaited_def split: option.splits)
next
  case (4 env' now g c')
  with assms show ?thesis by (auto intro!: awaited_scheduler)
next
  case (5 env' now r expired c')
  with assms show ?thesis by (auto split: how.splits intro!: awaited_scheduler)
next
  case (6 env' now r c')
  with assms show ?thesis by (auto split: how.splits intro!: awaited_scheduler)
next
  case (7 env' now r i c')
  with assms show ?thesis by (auto simp: awaited_exchange)
next
  case (8 env' now k ok c')
  have "awaited (c\<lparr>calls := (calls c)[k := (calls c ! k)\<lparr>call_drained := True\<rparr>]\<rparr>)" if "unfinished k c"
    using assms that
    by (intro awaited_update [OF assms, of _ k "(calls c ! k)\<lparr>call_drained := True\<rparr>"])
       (auto simp: unfinished_def awaited_def)
  with 8 assms show ?thesis by (auto simp: drained_def awaited_finish)
next
  case (9 env' now k c')
  have "awaited (c\<lparr>calls := set_call_future k v (calls c)\<rparr>)" for v
    using awaited_set_future [OF assms, of "c\<lparr>calls := set_call_future k v (calls c)\<rparr>" k v] assms
    by (cases "k < length (calls c) \<and> call_future (calls c ! k) = None") (auto simp: set_call_future_def)
  with 9 assms show ?thesis by (auto simp: deadline_passed_def)
next
  case (10 env' now k c')
  with assms show ?thesis by (auto simp: resume_def awaited_finish split: option.splits)
next
  case (11 env' now k c')
  with assms show ?thesis by (auto simp: cancel_call_def awaited_finish)
next
  case (12 env' now bytes c')
  with assms show ?thesis by (simp add: awaited_received)
next
  case (13 env' now e c')
  with assms show ?thesis by (auto simp: awaited_read_failed)
next
  case (14 env' now c')
  have "awaited (tick env now c)"
  proof (cases rule: tick_cases [of c env now])
    case silent
    then show ?thesis using assms by (auto intro!: awaited_fail elim: awaited_same)
  next
    case (alive h w l)
    then show ?thesis using assms by (auto elim: awaited_same)
  qed
  with 14 show ?thesis by simp
qed

end
