(* ===== verification/Connection_Replies.thy ===== *)
theory Connection_Replies
  imports Connection_Loss
begin

text \<open>
  The reply of a request, from the bytes to the call that waits for it, and that the loss of a
  connection is told once; then the properties of lost connections, and sample runs.
\<close>

subsection \<open>Losses are told once\<close>

definition losses :: "'m told list \<Rightarrow> nat list" where
  "losses ts = List.map_filter (\<lambda>t. case t of Told_disconnect g _ \<Rightarrow> Some g | _ \<Rightarrow> None) ts"

lemma losses_append [simp]:
  "losses (ts @ [Told_event m]) = losses ts" "losses (ts @ [Told_written r]) = losses ts"
  "losses (ts @ [Told_disconnect g e]) = losses ts @ [g]"
  by (simp_all add: losses_def map_filter_def)

definition told_once :: "'m connection \<Rightarrow> bool" where
  "told_once c \<longleftrightarrow>
     distinct (losses (told c)) \<and> (\<forall>g\<in>set (losses (told c)). g \<le> generation c) \<and>
     (connected c \<longrightarrow> generation c \<notin> set (losses (told c)))"

lemma told_once_same:
  "told_once c \<Longrightarrow> losses (told c') = losses (told c) \<Longrightarrow> generation c' = generation c \<Longrightarrow>
   (connected c' \<longrightarrow> connected c) \<Longrightarrow> told_once c'"
  by (auto simp: told_once_def)

lemma told_once_fail: "told_once c \<Longrightarrow> told_once (fail e c)"
  by (auto simp: told_once_def fail_def fail_queued_def reject_pending_def Let_def)

lemma told_once_read_failed: "told_once c \<Longrightarrow> told_once (read_failed e c)"
  by (auto simp: read_failed_def intro!: told_once_fail elim: told_once_same)

lemma told_once_finish: "told_once (finish_call now k outcome c) = told_once c"
  by (simp add: told_once_def finish_call_def Let_def split: how.splits)

lemma told_once_dispatch: "told_once c \<Longrightarrow> told_once (fst (dispatch_envelope env envelope c))"
  by (erule told_once_same)
     (auto simp: dispatch_envelope_def take_pending_def split: sum.splits payload_error.splits option.splits)

lemma told_once_exchange: "told_once c \<Longrightarrow> told_once (exchange env now r i c)"
  by (cases rule: exchange_cases [of env now r i c]) (auto simp: told_once_finish elim: told_once_same)

lemma told_once_read: "told_once c \<Longrightarrow> told_once (read_turns env now bytes c)"
  by (rule read_turns_preserves [of told_once])
     (auto simp: told_once_dispatch told_once_read_failed elim: told_once_same)

lemma told_once_step:
  assumes "told_once c"
  shows "told_once (conn_step env ev c)"
proof (cases "(env, ev, c)" rule: conn_step.cases)
  case (1 env' now answer c')
  with assms show ?thesis by (cases answer) (fastforce simp: connect_def told_once_def)+
next
  case (2 env' now c')
  with assms show ?thesis
    by (auto simp: begin_close_def fail_queued_def reject_pending_def elim!: told_once_same)
next
  case (3 env' now payload timeout priority c')
  with assms show ?thesis by (auto simp: request_def Let_def told_once_def split: option.splits)
next
  case (7 env' now r i c')
  with assms show ?thesis by (auto simp: told_once_exchange)
next
  case (8 env' now k ok c')
  with assms show ?thesis by (auto simp: drained_def told_once_finish elim: told_once_same)
next
  case (9 env' now k c')
  with assms show ?thesis by (auto simp: deadline_passed_def elim: told_once_same)
next
  case (10 env' now k c')
  with assms show ?thesis by (auto simp: resume_def told_once_finish split: option.splits)
next
  case (11 env' now k c')
  with assms show ?thesis by (auto simp: cancel_call_def told_once_finish)
next
  case (12 env' now bytes c')
  with assms show ?thesis by (simp add: told_once_read)
next
  case (13 env' now e c')
  with assms show ?thesis by (auto simp: told_once_read_failed)
next
  case (14 env' now c')
  have "told_once (tick env now c)"
  proof (cases rule: tick_cases [of c env now])
    case silent
    then show ?thesis using assms by (auto intro!: told_once_fail elim: told_once_same)
  next
    case (alive h w l)
    then show ?thesis using assms by (auto elim: told_once_same)
  qed
  with 14 show ?thesis by simp
qed (use assms in \<open>auto simp: on_scheduler_def elim: told_once_same split: how.splits\<close>)

lemma run_awaited: "awaited c \<Longrightarrow> awaited (fold (conn_step env) evs c)"
  by (induction evs arbitrary: c) (simp_all add: awaited_step)

lemma run_told_once: "told_once c \<Longrightarrow> told_once (fold (conn_step env) evs c)"
  by (induction evs arbitrary: c) (simp_all add: told_once_step)

lemma new_awaited:
  "new_connection env (map_option new_RequestScheduler p) = Some c \<Longrightarrow> awaited c"
  by (auto simp: new_connection_def awaited_def new_RequestScheduler_def split: if_splits)

lemma new_told_once: "new_connection env s = Some c \<Longrightarrow> told_once c"
  by (auto simp: new_connection_def told_once_def losses_def map_filter_def split: if_splits)

subsection \<open>A reply\<close>

lemma dispatch_reply:
  assumes "connected c" and "payload_type (proto env) reply \<noteq> HEARTBEAT_EVENT"
    and "env_payloadType envelope = Some (payload_type (proto env) reply)" and "env_clientMsgId envelope = Some i"
    and "parse_payload (proto env) envelope = Inr reply"
    and "i \<noteq> []" and "map_of (pending c) i = Some k" and "k < length (calls c)"
    and "call_future (calls c ! k) = None"
  shows "dispatch_envelope env envelope c =
    (c\<lparr>pending := AList.delete i (pending c),
       calls := (calls c)[k := (calls c ! k)\<lparr>call_future := Some
         (case as_request_error (error_of env reply) of Some e \<Rightarrow> Inl (RequestError e) | None \<Rightarrow> Inr reply)\<rparr>]\<rparr>, None)"
  using assms by (simp add: dispatch_envelope_def take_pending_def set_call_future_def split: option.split)

lemma read_turn_frame:
  assumes "protobuf_inverts (proto env)" and "encode_frame (proto env) reply (Some i) = Inr frame"
    and "length frame \<le> LENGTH_PREFIX_BYTES + MAX_FRAME_BYTES" and "read_task c" and "inbound c = []"
  obtains envelope where "env_payloadType envelope = Some (payload_type (proto env) reply)"
    "env_clientMsgId envelope = Some i" "parse_payload (proto env) envelope = Inr reply"
    "read_turns env now frame c =
      (case dispatch_envelope env envelope (c\<lparr>last_receive := now\<rparr>) of
         (c, Some e) \<Rightarrow> read_failed e c | (c, None) \<Rightarrow> c)"
proof -
  obtain body prefix inner where inner: "serialize (proto env) reply = Some inner"
    and body: "body = serialize_envelope (proto env) \<lparr>env_payloadType = Some (payload_type (proto env) reply),
       env_payload = inner, env_clientMsgId = Some i\<rparr>"
    and prefix: "pack_uint32 (length body) = Inr prefix" and frame: "frame = prefix @ body"
    using encode_frame_parts [OF assms(2)] .
  let ?e = "\<lparr>env_payloadType = Some (payload_type (proto env) reply), env_payload = inner, env_clientMsgId = Some i\<rparr>"
  have parsed: "parse_envelope (proto env) body = Some ?e"
    using assms(1) inner unfolding protobuf_inverts_def Let_def body by blast
  then have "decode_envelope (proto env) body = Inr ?e" by (simp add: decode_envelope_def)
  moreover have "length body \<le> MAX_FRAME_BYTES" using assms(3) frame pack_uint32_length [OF prefix] by simp
  then have "read_bodies frame = ([body], [], None)"
    using read_bodies_frame [OF prefix, of "[]"] frame
    by (simp add: read_bodies.simps [of "[]"] LENGTH_PREFIX_BYTES_def)
  moreover have same: "c\<lparr>inbound := [], last_receive := now\<rparr> = c\<lparr>last_receive := now\<rparr>" using assms(5) by simp
  ultimately have "read_turns env now frame c =
      (case dispatch_envelope env ?e (c\<lparr>last_receive := now\<rparr>) of (c, Some e) \<Rightarrow> read_failed e c | (c, None) \<Rightarrow> c)"
    using assms(4,5) by (auto simp: read_turns_def same split: prod.split option.split)
  moreover have "parse_payload (proto env) ?e = Inr reply"
    using assms(1) inner unfolding protobuf_inverts_def parse_payload_def Let_def by (fastforce simp: bind_result_Inr)
  ultimately show thesis using that [of ?e] by simp
qed


subsection \<open>Properties\<close>

text \<open>
  C31: A reply reaches the request it answers, and only that one: when a frame of a message other
  than a heartbeat arrives under the id of a call that waits, that call is done with the message, or
  with the error it carries; every other call, and what the event handler was told, are as before.
  Protobuf parses what it serialised.\<close>

theorem reply_reaches_its_request:
  assumes "protobuf_inverts (proto env)"
    and "new_connection env (map_option new_RequestScheduler p) = Some c0" and "c = fold (conn_step env) evs c0"
    and "read_task c" and "inbound c = []" and "map_of (pending c) i = Some k" and "i \<noteq> []"
    and "call_future (calls c ! k) = None"
    and "encode_frame (proto env) reply (Some i) = Inr frame"
    and "length frame \<le> LENGTH_PREFIX_BYTES + MAX_FRAME_BYTES"
    and "payload_type (proto env) reply \<noteq> HEARTBEAT_EVENT"
  shows "calls (read_turns env now frame c) = (calls c)[k := (calls c ! k)\<lparr>call_future := Some
      (case as_request_error (error_of env reply) of Some e \<Rightarrow> Inl (RequestError e) | None \<Rightarrow> Inr reply)\<rparr>] \<and>
    call_id (calls c ! k) = i \<and> told (read_turns env now frame c) = told c"
proof -
  have inv: "awaited c" using run_awaited new_awaited [OF assms(2)] assms(3) by blast
  then have up: "connected c" and k: "k < length (calls c)" "call_id (calls c ! k) = i"
    using assms(6) awaitedD(1,2) [OF inv, of i k] by (auto simp: awaited_def)
  obtain envelope where e: "env_payloadType envelope = Some (payload_type (proto env) reply)"
    "env_clientMsgId envelope = Some i" "parse_payload (proto env) envelope = Inr reply"
    and r: "read_turns env now frame c =
      (case dispatch_envelope env envelope (c\<lparr>last_receive := now\<rparr>) of
         (c, Some e) \<Rightarrow> read_failed e c | (c, None) \<Rightarrow> c)"
    using read_turn_frame [OF assms(1,9,10,4,5)] .
  have "dispatch_envelope env envelope (c\<lparr>last_receive := now\<rparr>) =
    (c\<lparr>last_receive := now, pending := AList.delete i (pending c),
       calls := (calls c)[k := (calls c ! k)\<lparr>call_future := Some
         (case as_request_error (error_of env reply) of Some e \<Rightarrow> Inl (RequestError e) | None \<Rightarrow> Inr reply)\<rparr>]\<rparr>, None)"
    using dispatch_reply [of "c\<lparr>last_receive := now\<rparr>" env reply envelope i k] up assms(6,7,8,11) k(1) e by simp
  with r k(2) show ?thesis by simp
qed

text \<open>
  C30: Nobody is left waiting for a lost connection: while it is down no reply is expected, the
  future of every call still running is done, and so is that of every request still in the
  scheduler's queue - each of them ends as soon as its task runs.\<close>

theorem nobody_waits_on_a_lost_connection:
  assumes "new_connection env (map_option new_RequestScheduler p) = Some c0" and "c = fold (conn_step env) evs c0"
    and "\<not> connected c"
  shows "pending c = [] \<and>
    (\<forall>k<length (calls c). call_outcome (calls c ! k) = None \<longrightarrow> call_future (calls c ! k) \<noteq> None) \<and>
    (\<forall>s n sub e q b. scheduler c = Some s \<longrightarrow> map_of (submits s) n = Some sub \<longrightarrow>
       sub_phase sub = Waiting e q b \<longrightarrow> is_done e s)"
proof -
  have inv: "awaited c" using run_awaited new_awaited [OF assms(1)] assms(2) by blast
  have "is_done e s" if s: "scheduler c = Some s" and sub: "map_of (submits s) n = Some sub"
    and w: "sub_phase sub = Waiting e q b" for s n sub e q b
  proof -
    have "attended s" "failed_empty s" using scheduler_of_connection [OF assms(1)] assms(2) s by auto
    moreover have "failed s" using awaitedD(3) [OF inv assms(3)] s sub by fastforce
    ultimately have "\<not> live e s" using sub w unfolding attended_def failed_empty_def queued_def by fastforce
    then show ?thesis by (simp add: live_def is_done_def)
  qed
  moreover have "call_future (calls c ! k) \<noteq> None" if "k < length (calls c)" "call_outcome (calls c ! k) = None" for k
    using inv that assms(3) unfolding awaited_def by fastforce
  ultimately show ?thesis using inv assms(3) by (simp add: awaited_def)
qed

text \<open>
  The loss of a connection is told to its owner once: in any run no connection's loss is told
  twice, and none is told of a connection that is up.\<close>

theorem loss_told_once:
  assumes "new_connection env s = Some c0" and "c = fold (conn_step env) evs c0"
  shows "distinct (losses (told c)) \<and> (connected c \<longrightarrow> generation c \<notin> set (losses (told c)))"
  using run_told_once [OF new_told_once [OF assms(1)], of env evs] assms(2) by (simp add: told_once_def)

subsection \<open>Sample runs\<close>

definition sample_env :: "(unit, unit) conn_env" where
  "sample_env = \<lparr>proto = sample_protobuf 2100, error_of = \<lambda>_. None, kind_of = \<lambda>_. Other_payload,
     heartbeat_event = (), heartbeat_idle_secs = 10, inbound_silence_secs = 90, request_timeout_secs = 5\<rparr>"

definition sample_connection :: "Pacing option \<Rightarrow> unit connection" where
  "sample_connection p = \<lparr>connected = False, writer_open = False, generation = 0, pending = [],
     last_send = 0, last_receive = 0, inbound = [], read_task = False, heartbeat_task = False,
     scheduler = map_option new_RequestScheduler p, requests = [], calls = [], wire = [], told = []\<rparr>"

lemma sample_env_fields: "proto sample_env = sample_protobuf 2100" "error_of sample_env () = None"
  by (simp_all add: sample_env_def)

lemma sample_new: "new_connection sample_env (map_option new_RequestScheduler p) = Some (sample_connection p)"
  by (simp add: new_connection_def sample_env_def sample_connection_def)

text \<open>A request queued when the connection is closed, and one lost with its connection.\<close>

definition queued_run :: "(rat \<times> unit conn_event) list" where
  "queued_run = [(0, Connect Opened), (1, Make_request () None EXECUTION), (2, Close), (3, Queue_over 0 False)]"

theorem not_sent_iff_not_on_the_wire_witness:
  "request_outcome 0 (fold (conn_step sample_env) queued_run (sample_connection (Some default_Pacing))) =
     Some (Inl NotSentConnectionError) \<and>
   \<not> on_the_wire 0 (fold (conn_step sample_env) queued_run (sample_connection (Some default_Pacing)))"
proof -
  let ?c = "fold (conn_step sample_env) queued_run (sample_connection (Some default_Pacing))"
  have "request_outcome 0 ?c = Some (Inl NotSentConnectionError)" "0 < length (requests ?c)"
    "group_of (kind_of sample_env (rq_payload (requests ?c ! 0))) = GROUP_OTHER"
    by code_simp+
  with not_sent_iff_not_on_the_wire [OF sample_new, of _ queued_run "Some default_Pacing" 0] show ?thesis by simp
qed

theorem nobody_waits_on_a_lost_connection_witness:
  "\<not> connected (fold (conn_step sample_env) queued_run (sample_connection (Some default_Pacing))) \<and>
   pending (fold (conn_step sample_env) queued_run (sample_connection (Some default_Pacing))) = []"
proof -
  have "\<not> connected (fold (conn_step sample_env) queued_run (sample_connection (Some default_Pacing)))"
    by code_simp
  with nobody_waits_on_a_lost_connection [OF sample_new refl] show ?thesis by blast
qed

theorem loss_told_once_witness:
  "distinct (losses (told (fold (conn_step sample_env)
     [(0, Connect Opened), (1, Read_ends ClosedByPeer), (2, Read_ends ReadFailed)] (sample_connection None))))"
  using loss_told_once [of sample_env None "sample_connection None" _
      "[(0, Connect Opened), (1, Read_ends ClosedByPeer), (2, Read_ends ReadFailed)]"] sample_new [of None]
  by simp

text \<open>A request without a scheduler, written on the first connection.\<close>

definition direct_run :: "(rat \<times> unit conn_event) list" where
  "direct_run = [(0, Connect Opened), (1, Make_request () None EXECUTION), (1, Exchange 0 ''A'')]"

lemma sample_frame: "encode_frame (sample_protobuf t) () (Some ''A'') = Inr [0, 0, 0, 2, 1, 65]"
  by (simp add: encode_frame_def encode_envelope_def sample_protobuf_fields pack_uint32_def)

lemma direct_run_end:
  "fold (conn_step sample_env) direct_run (sample_connection None) =
     \<lparr>connected = True, writer_open = True, generation = 1, pending = [(''A'', 0)],
      last_send = 1, last_receive = 0, inbound = [], read_task = True, heartbeat_task = True,
      scheduler = None,
      requests = [\<lparr>rq_payload = (), rq_generation = 1, rq_deadline = 5, rq_how = Direct\<rparr>],
      calls = [\<lparr>call_request = 0, call_id = ''A'', call_future = None, call_written = True,
        call_drained = False, call_outcome = None\<rparr>],
      wire = [(1, Some 0, [0, 0, 0, 2, 1, 65])], told = [Told_written 0]\<rparr>"
  by (simp add: direct_run_def sample_connection_def connect_def request_def its_turn_def running_def
      fresh_id_def exchange_def encode_def write_frame_def sample_env_def sample_frame)

theorem frame_stays_on_its_connection_witness:
  "rq_generation (requests (fold (conn_step sample_env) direct_run (sample_connection None)) ! 0) = 1 \<and>
   encode_frame (proto sample_env) () (Some ''A'') = Inr [0, 0, 0, 2, 1, 65]"
  using frame_stays_on_its_connection [OF sample_new [of None] refl, of 1 0 "[0, 0, 0, 2, 1, 65]" direct_run]
  by (simp add: direct_run_end)

theorem reply_reaches_its_request_witness:
  "call_future (calls (read_turns sample_env 2 [0, 0, 0, 2, 1, 65]
     (fold (conn_step sample_env) direct_run (sample_connection None))) ! 0) = Some (Inr ())"
  using reply_reaches_its_request [OF _ sample_new [of None] refl, of direct_run "''A''" 0 "()" "[0, 0, 0, 2, 1, 65]" 2]
  by (simp add: direct_run_end sample_env_fields sample_protobuf_inverts sample_frame sample_protobuf_fields
      HEARTBEAT_EVENT_def LENGTH_PREFIX_BYTES_def MAX_FRAME_BYTES_def)

end
