(* ===== verification/Parsing.thy ===== *)
theory Parsing
  imports Order_Translation Bars
begin

text \<open>
  \<open>common/parsing.py\<close> and \<open>enums.py\<close>: venue messages to Nautilus instruments, prices, bars and
  quotes. Nautilus' constructors and currency table are the parameter record \<open>nautilus\<close>: a
  constructor returns the value it holds, or None where it raises \<open>ValueError\<close>; that it holds the
  value given when that fits its precision is the named hypothesis \<open>holds_exactly\<close>. An enum field
  of a message is its name, as \<open>_optional_enum_field\<close> reads it. What the constructors of
  \<open>Symbol\<close>, \<open>CurrencyPair\<close> and \<open>Cfd\<close> check of their own arguments is not modelled.

  Shown here: a price, a bar and every size of an instrument are exactly the venue's or are
  refused, never rounded; a bar's period is the one its type names; a period that divides an hour
  is aligned whatever hour the trading day starts at.
\<close>

subsection \<open>Periods\<close>

datatype ProtoOATrendbarPeriod =
  M1 | M2 | M3 | M4 | M5 | M10 | M15 | M30 | H1 | H4 | H12 | D1 | W1 | MN1

definition PERIOD_SECS :: "(ProtoOATrendbarPeriod, int) dict" where
  "PERIOD_SECS = [(M1, 60), (M2, 120), (M3, 180), (M4, 240), (M5, 300), (M10, 600), (M15, 900),
     (M30, 1800), (H1, 3600), (H4, 14400), (H12, 43200), (D1, 86400)]"

datatype BarAggregation = Agg_SECOND | Agg_MINUTE | Agg_HOUR | Agg_DAY | Agg_WEEK | Agg_MONTH | Agg_other

datatype PriceType = Px_BID | Px_ASK | Px_MID | Px_LAST | Px_MARK

datatype AggregationSource = Source_EXTERNAL | Source_INTERNAL

record BarType =
  bt_step :: int
  bt_aggregation :: BarAggregation
  bt_price_type :: PriceType
  bt_aggregation_source :: AggregationSource

definition MINUTE_STEPS :: "(int, ProtoOATrendbarPeriod) dict" where
  "MINUTE_STEPS = [(1, M1), (2, M2), (3, M3), (4, M4), (5, M5), (10, M10), (15, M15), (30, M30)]"

definition HOUR_STEPS :: "(int, ProtoOATrendbarPeriod) dict" where
  "HOUR_STEPS = [(1, H1), (4, H4), (12, H12)]"

definition DAY_STEPS :: "(int, ProtoOATrendbarPeriod) dict" where
  "DAY_STEPS = [(1, D1)]"

fun STEPS_BY_AGGREGATION :: "BarAggregation \<Rightarrow> (int, ProtoOATrendbarPeriod) dict option" where
  "STEPS_BY_AGGREGATION Agg_MINUTE = Some MINUTE_STEPS"
| "STEPS_BY_AGGREGATION Agg_HOUR = Some HOUR_STEPS"
| "STEPS_BY_AGGREGATION Agg_DAY = Some DAY_STEPS"
| "STEPS_BY_AGGREGATION _ = None"

datatype parse_error =
    NotBid
  | NotExternal
  | PeriodUnsupported int BarAggregation
  | PriceNotRepresentable int int
  | NotExactAtPrecision string int nat
  | AssetNotFound string int
  | DigitsTooMany string int
  | QuoteNotACurrency string string
  | StepMissing string
  | TrendbarRefused
  | RefusedByNautilus

definition trendbar_period_for :: "BarType \<Rightarrow> parse_error + ProtoOATrendbarPeriod" where
  "trendbar_period_for bar_type =
     (if bt_price_type bar_type \<noteq> Px_BID then Inl NotBid
      else if bt_aggregation_source bar_type \<noteq> Source_EXTERNAL then Inl NotExternal
      else case STEPS_BY_AGGREGATION (bt_aggregation bar_type) of
        None \<Rightarrow> Inl (PeriodUnsupported (bt_step bar_type) (bt_aggregation bar_type))
      | Some steps \<Rightarrow>
          (case map_of steps (bt_step bar_type) of
             None \<Rightarrow> Inl (PeriodUnsupported (bt_step bar_type) (bt_aggregation bar_type))
           | Some period \<Rightarrow> Inr period))"

subsection \<open>Nautilus\<close>

datatype CurrencyType = FIAT | CRYPTO | COMMODITY_BACKED

datatype AssetClass = FX | EQUITY | COMMODITY | DEBT | INDEX | CRYPTOCURRENCY | ALTERNATIVE

record nautilus =
  new_price :: "decimal \<Rightarrow> int \<Rightarrow> decimal option"
  new_quantity :: "decimal \<Rightarrow> nat \<Rightarrow> decimal option"
  bar_accepted :: "decimal \<Rightarrow> decimal \<Rightarrow> decimal \<Rightarrow> decimal \<Rightarrow> bool"
  currency_type :: "string \<Rightarrow> CurrencyType option"

definition made :: "'a option \<Rightarrow> parse_error + 'a" where
  "made v = (case v of None \<Rightarrow> Inl RefusedByNautilus | Some a \<Rightarrow> Inr a)"

subsection \<open>Asset classes\<close>

definition METALS :: "string list" where
  "METALS = [''XAU'', ''XAG'', ''XPT'', ''XPD'']"

definition is_pair_currency :: "CurrencyType option \<Rightarrow> bool" where
  "is_pair_currency c \<longleftrightarrow> c = Some FIAT \<or> c = Some CRYPTO"

definition asset_class_for :: "nautilus \<Rightarrow> string \<Rightarrow> string \<Rightarrow> AssetClass" where
  "asset_class_for N base_name quote_name =
     (let base = currency_type N base_name; quote = currency_type N quote_name in
      if base = Some FIAT \<and> quote = Some FIAT then FX
      else if base_name \<in> set METALS then COMMODITY
      else if base = Some CRYPTO then CRYPTOCURRENCY
      else ALTERNATIVE)"

subsection \<open>Prices and times\<close>

definition SECS_PER_HOUR :: int where "SECS_PER_HOUR = 3600"

definition price_from_raw :: "nautilus \<Rightarrow> int \<Rightarrow> int \<Rightarrow> parse_error + decimal" where
  "price_from_raw N raw digits =
     (if 5 < digits \<or> raw mod 10 ^ nat (5 - digits) \<noteq> 0
      then Inl (PriceNotRepresentable raw digits)
      else made (new_price N (ctx (of_int raw / of_int PRICE_SCALE)) digits))"

definition bar_boundary_secs :: "int \<Rightarrow> int" where
  "bar_boundary_secs utc_minutes = utc_minutes * 60"

definition is_unaligned_boundary :: "int \<Rightarrow> int \<Rightarrow> bool" where
  "is_unaligned_boundary boundary_secs1 period_secs \<longleftrightarrow>
     SECS_PER_HOUR mod period_secs = 0 \<and> boundary_secs1 mod period_secs \<noteq> 0"

text \<open>
  \<open>_precision\<close>: the decimals a value needs. Both callers pass a volume in hundredths of a unit,
  which needs two at most; decimals beyond 28 are not looked for.
\<close>

definition precision_of :: "decimal \<Rightarrow> nat" where
  "precision_of value = length (takeWhile (\<lambda>k. \<not> is_integral (value * 10 ^ k)) [0..<28])"

subsection \<open>Instruments\<close>

record ProtoOASymbol =
  digits :: int
  pipPosition :: int
  f_lotSize :: "int option"
  f_minVolume :: "int option"
  f_stepVolume :: "int option"
  f_maxVolume :: "int option"
  f_measurementUnits :: "string option"
  f_tradingMode :: "string option"
  f_scheduleTimeZone :: "string option"
  f_commissionType :: "string option"
  f_preciseTradingCommissionRate :: "int option"
  f_preciseMinCommission :: "int option"
  f_swapLong :: "double option"
  f_swapShort :: "double option"
  f_swapCalculationType :: "string option"
  f_leverageId :: "int option"
  f_slDistance :: "int option"
  f_tpDistance :: "int option"
  f_distanceSetIn :: "string option"

record ProtoOALightSymbol =
  ls_symbolId :: int
  symbolName :: string
  baseAssetId :: int
  quoteAssetId :: int

record symbol_info =
  symbol_id :: int
  lot_size_cents :: "int option"
  min_volume_cents :: "int option"
  step_volume_cents :: "int option"
  max_volume_cents :: "int option"
  pip_position :: int
  measurement_units :: "string option"
  trading_mode :: "string option"
  schedule_time_zone :: "string option"
  commission_type :: "string option"
  precise_trading_commission_rate :: "int option"
  precise_min_commission :: "int option"
  swap_long :: "double option"
  swap_short :: "double option"
  swap_calculation_type :: "string option"
  leverage_id :: "int option"
  sl_distance :: "int option"
  tp_distance :: "int option"
  distance_set_in :: "string option"

datatype instrument_kind = CurrencyPair string string | Cfd AssetClass string "string option"

record symbol_instrument =
  si_name :: string
  si_kind :: instrument_kind
  si_price_precision :: int
  si_price_increment :: decimal
  si_size_precision :: nat
  si_size_increment :: decimal
  si_lot_size :: "decimal option"
  si_min_quantity :: "decimal option"
  si_max_quantity :: "decimal option"
  si_ts :: int
  si_info :: symbol_info

definition optional_exact_quantity ::
    "nautilus \<Rightarrow> string \<Rightarrow> int option \<Rightarrow> nat \<Rightarrow> parse_error + decimal option" where
  "optional_exact_quantity N symbol_name field precision =
     (case field of
        None \<Rightarrow> Inr None
      | Some raw \<Rightarrow>
          let units = volume_to_units raw in
          if precision < precision_of units then Inl (NotExactAtPrecision symbol_name raw precision)
          else bind_result (made (new_quantity N units precision)) (\<lambda>q. Inr (Some q)))"

definition info_for :: "ProtoOASymbol \<Rightarrow> ProtoOALightSymbol \<Rightarrow> symbol_info" where
  "info_for symbol light =
     \<lparr>symbol_id = ls_symbolId light, lot_size_cents = f_lotSize symbol,
      min_volume_cents = f_minVolume symbol, step_volume_cents = f_stepVolume symbol,
      max_volume_cents = f_maxVolume symbol, pip_position = pipPosition symbol,
      measurement_units = f_measurementUnits symbol, trading_mode = f_tradingMode symbol,
      schedule_time_zone = f_scheduleTimeZone symbol, commission_type = f_commissionType symbol,
      precise_trading_commission_rate = f_preciseTradingCommissionRate symbol,
      precise_min_commission = f_preciseMinCommission symbol, swap_long = f_swapLong symbol,
      swap_short = f_swapShort symbol, swap_calculation_type = f_swapCalculationType symbol,
      leverage_id = f_leverageId symbol, sl_distance = f_slDistance symbol,
      tp_distance = f_tpDistance symbol, distance_set_in = f_distanceSetIn symbol\<rparr>"

definition asset_name :: "(int, string) dict \<Rightarrow> int \<Rightarrow> string \<Rightarrow> parse_error + string" where
  "asset_name assets asset_id symbol_name =
     (case map_of assets asset_id of
        None \<Rightarrow> Inl (AssetNotFound symbol_name asset_id)
      | Some name \<Rightarrow> Inr name)"

text \<open>The price increment, \<open>Decimal(1).scaleb(-digits)\<close>, for digits of either sign.\<close>

definition scaleb :: "int \<Rightarrow> decimal" where
  "scaleb d = (if 0 \<le> d then 1 / 10 ^ nat d else 10 ^ nat (- d))"

definition instrument_from_symbol ::
    "nautilus \<Rightarrow> ProtoOASymbol \<Rightarrow> ProtoOALightSymbol \<Rightarrow> (int, string) dict \<Rightarrow>
     (string, AssetClass) dict \<Rightarrow> int \<Rightarrow> parse_error + symbol_instrument" where
  "instrument_from_symbol N symbol light assets asset_class_overrides ts_init =
     (let name = symbolName light in
      if 5 < digits symbol then Inl (DigitsTooMany name (digits symbol))
      else
      bind_result (made (new_price N (scaleb (digits symbol)) (digits symbol))) (\<lambda>price_increment.
      bind_result (asset_name assets (baseAssetId light) name) (\<lambda>base_name.
      bind_result (asset_name assets (quoteAssetId light) name) (\<lambda>quote_name.
      if currency_type N quote_name = None then Inl (QuoteNotACurrency name quote_name)
      else let step = volume_to_units (unset_int (f_stepVolume symbol)) in
      if step \<le> 0 then Inl (StepMissing name)
      else let size_precision = precision_of step in
      bind_result (made (new_quantity N step size_precision)) (\<lambda>size_increment.
      bind_result (optional_exact_quantity N name (f_lotSize symbol) size_precision) (\<lambda>lot_size.
      bind_result (optional_exact_quantity N name (f_minVolume symbol) size_precision) (\<lambda>min_quantity.
      bind_result (optional_exact_quantity N name (f_maxVolume symbol) size_precision) (\<lambda>max_quantity.
      let kind =
        (if is_pair_currency (currency_type N base_name) \<and> is_pair_currency (currency_type N quote_name)
         then CurrencyPair base_name quote_name
         else Cfd (dict_get asset_class_overrides name (asset_class_for N base_name quote_name))
                quote_name
                (if currency_type N base_name = None then None else Some base_name))
      in Inr \<lparr>si_name = name, si_kind = kind, si_price_precision = digits symbol,
              si_price_increment = price_increment, si_size_precision = size_precision,
              si_size_increment = size_increment, si_lot_size = lot_size,
              si_min_quantity = min_quantity, si_max_quantity = max_quantity, si_ts = ts_init,
              si_info = info_for symbol light\<rparr>))))))))"

subsection \<open>Bars and quotes\<close>

record Bar =
  b_bar_type :: BarType
  b_open :: decimal
  b_high :: decimal
  b_low :: decimal
  b_close :: decimal
  b_volume :: decimal
  b_ts_event :: int
  b_ts_init :: int

definition bar_from_trendbar ::
    "nautilus \<Rightarrow> RawBar \<Rightarrow> BarType \<Rightarrow> int \<Rightarrow> nat \<Rightarrow> int \<Rightarrow> parse_error + Bar" where
  "bar_from_trendbar N raw bar_type price_precision size_precision ts_init =
     bind_result (trendbar_period_for bar_type) (\<lambda>period.
     let ts_event = (boundary_secs raw + dict_get PERIOD_SECS period 0) * 1000000000;
         price = (\<lambda>v. case price_from_raw N v price_precision of
                    Inl RefusedByNautilus \<Rightarrow> Inl TrendbarRefused | r \<Rightarrow> r) in
     bind_result (price (low raw + delta_open raw)) (\<lambda>o1.
     bind_result (price (low raw + delta_high raw)) (\<lambda>h.
     bind_result (price (low raw)) (\<lambda>l.
     bind_result (price (low raw + delta_close raw)) (\<lambda>c.
     case new_quantity N (of_int (bar_volume raw)) size_precision of
       None \<Rightarrow> Inl TrendbarRefused
     | Some v \<Rightarrow>
         if bar_accepted N o1 h l c
         then Inr \<lparr>b_bar_type = bar_type, b_open = o1, b_high = h, b_low = l, b_close = c, b_volume = v,
                   b_ts_event = ts_event, b_ts_init = ts_init\<rparr>
         else Inl TrendbarRefused)))))"

record QuoteTick =
  q_instrument_id :: string
  q_bid :: decimal
  q_ask :: decimal
  q_bid_size :: decimal
  q_ask_size :: decimal
  q_ts_event :: int
  q_ts_init :: int

definition quote_from_prices ::
    "nautilus \<Rightarrow> string \<Rightarrow> int \<Rightarrow> int \<Rightarrow> int \<Rightarrow> decimal \<Rightarrow> nat \<Rightarrow> int \<Rightarrow> int \<Rightarrow> parse_error + QuoteTick" where
  "quote_from_prices N instrument bid_raw ask_raw digits1 size1 size_precision ts_event ts_init =
     bind_result (price_from_raw N bid_raw digits1) (\<lambda>bid.
     bind_result (price_from_raw N ask_raw digits1) (\<lambda>ask.
     bind_result (made (new_quantity N size1 size_precision)) (\<lambda>quantity.
     Inr \<lparr>q_instrument_id = instrument, q_bid = bid, q_ask = ask, q_bid_size = quantity, q_ask_size = quantity,
          q_ts_event = ts_event, q_ts_init = ts_init\<rparr>)))"

subsection \<open>Nothing is rounded\<close>

text \<open>A price or quantity Nautilus accepts holds the value given when that fits its precision.\<close>

definition holds_exactly :: "nautilus \<Rightarrow> bool" where
  "holds_exactly N \<longleftrightarrow>
     (\<forall>v n p. new_price N v (int n) = Some p \<longrightarrow> is_integral (v * 10 ^ n) \<longrightarrow> p = v) \<and>
     (\<forall>v n q. new_quantity N v n = Some q \<longrightarrow> is_integral (v * 10 ^ n) \<longrightarrow> q = v)"

lemma made_Inr [simp]: "made v = Inr a \<longleftrightarrow> v = Some a"
  by (cases v) (simp_all add: made_def)

lemma raw_on_grid:
  assumes "0 \<le> d" and "d \<le> 5" and "raw mod 10 ^ nat (5 - d) = 0"
  shows "is_integral (of_int raw / 100000 * 10 ^ nat d)"
proof -
  obtain k where k: "raw = 10 ^ nat (5 - d) * k" using assms(3) by (auto simp: mod_eq_0_iff_dvd)
  have "nat (5 - d) + nat d = 5" using assms(1,2) by simp
  then have "(10::rat) ^ nat (5 - d) * 10 ^ nat d = 100000" by (simp flip: power_add)
  then have "of_int raw / 100000 * (10::rat) ^ nat d = of_int k" by (simp add: k field_simps)
  then show ?thesis by (rule is_integralI)
qed

lemma raw_over_scale:
  assumes "\<bar>raw\<bar> < 10 ^ 28"
  shows "ctx (of_int raw / of_int PRICE_SCALE) = of_int raw / 100000"
  using ctx_exact [OF assms, of "of_int raw / 100000" 5] by (simp add: PRICE_SCALE_def)

lemma price_from_raw_exact:
  assumes "holds_exactly N" and "0 \<le> d" and "\<bar>raw\<bar> < 10 ^ 28" and "price_from_raw N raw d = Inr p"
  shows "p = of_int raw / 100000"
proof -
  note u = assms(4) [unfolded price_from_raw_def raw_over_scale [OF assms(3)]]
  from u have "d \<le> 5" "raw mod 10 ^ nat (5 - d) = 0" by (simp_all split: if_splits)
  moreover from u have p: "new_price N (of_int raw / 100000) (int (nat d)) = Some p"
    using assms(2) by (simp split: if_splits)
  ultimately have "is_integral (of_int raw / 100000 * 10 ^ nat d)" by (intro raw_on_grid assms(2))
  with p assms(1) show ?thesis unfolding holds_exactly_def by blast
qed

lemma integral_finer: "is_integral (v * 10 ^ k) \<Longrightarrow> k \<le> n \<Longrightarrow> is_integral (v * 10 ^ n)"
proof -
  assume "is_integral (v * 10 ^ k)" and "k \<le> n"
  then obtain z where z: "v * 10 ^ k = of_int z" unfolding is_integral_def by blast
  have "v * 10 ^ n = v * 10 ^ k * 10 ^ (n - k)" using \<open>k \<le> n\<close> by (simp flip: power_add)
  then have "v * 10 ^ n = of_int (z * 10 ^ (n - k))" by (simp add: z)
  then show ?thesis by (rule is_integralI)
qed

lemma takeWhile_upt_stop:
  assumes "P k" and "k < n"
  shows "P (length (takeWhile (\<lambda>i. \<not> P i) [0..<n]))" and "length (takeWhile (\<lambda>i. \<not> P i) [0..<n]) \<le> k"
proof -
  let ?m = "length (takeWhile (\<lambda>i. \<not> P i) [0..<n])"
  show le: "?m \<le> k"
  proof (rule ccontr)
    assume "\<not> ?m \<le> k"
    then have "\<not> P ([0..<n] ! k)" by (metis nth_mem set_takeWhileD takeWhile_nth linorder_not_le)
    with assms show False by simp
  qed
  with assms(2) have "?m < length [0..<n]" by simp
  from nth_length_takeWhile [OF this] le assms(2) show "P ?m" by simp
qed

lemma precision_of_volume:
  "precision_of (volume_to_units v) \<le> 2"
  "is_integral (volume_to_units v * 10 ^ precision_of (volume_to_units v))"
proof -
  have "is_integral (volume_to_units v * 10 ^ 2)"
    by (rule is_integralI [of _ v]) (simp add: volume_to_units_def)
  from takeWhile_upt_stop [of "\<lambda>k. is_integral (volume_to_units v * 10 ^ k)" 2 28, OF this]
  show "precision_of (volume_to_units v) \<le> 2"
    "is_integral (volume_to_units v * 10 ^ precision_of (volume_to_units v))"
    by (simp_all add: precision_of_def)
qed

lemma optional_exact_quantity_exact:
  assumes "holds_exactly N" and "optional_exact_quantity N name field n = Inr q"
  shows "q = map_option volume_to_units field"
proof (cases field)
  case (Some raw)
  with assms(2) obtain x where "precision_of (volume_to_units raw) \<le> n" and "q = Some x"
    and "new_quantity N (volume_to_units raw) n = Some x"
    by (auto simp: optional_exact_quantity_def Let_def bind_result_Inr split: if_splits)
  moreover from this integral_finer [OF precision_of_volume(2)]
  have "is_integral (volume_to_units raw * 10 ^ n)" by blast
  ultimately show ?thesis using assms(1) Some by (auto simp: holds_exactly_def)
qed (use assms(2) in \<open>simp add: optional_exact_quantity_def\<close>)

subsection \<open>Periods\<close>

fun aggregation_secs :: "BarAggregation \<Rightarrow> int" where
  "aggregation_secs Agg_MINUTE = 60"
| "aggregation_secs Agg_HOUR = 3600"
| "aggregation_secs Agg_DAY = 86400"
| "aggregation_secs _ = 0"

text \<open>The period found for a bar type is as long as the type says.\<close>

lemma period_of_bar_type:
  "trendbar_period_for bt = Inr period \<Longrightarrow>
   dict_get PERIOD_SECS period 0 = bt_step bt * aggregation_secs (bt_aggregation bt) \<and>
   0 < dict_get PERIOD_SECS period 0"
  by (cases "bt_aggregation bt")
     (auto simp: trendbar_period_for_def MINUTE_STEPS_def HOUR_STEPS_def DAY_STEPS_def PERIOD_SECS_def
        dict_get_def split: if_splits)

text \<open>A period that divides an hour is aligned from whatever hour the trading day starts at.\<close>

lemma aligned_from_any_hour: "\<not> is_unaligned_boundary (3600 * hour + k * period) period"
  by (auto simp: is_unaligned_boundary_def SECS_PER_HOUR_def mod_eq_0_iff_dvd)

subsection \<open>Properties\<close>

text \<open>
  A bar is exactly its trendbar: when \<open>bar_from_trendbar\<close> returns, its prices are the venue's
  raw prices over 100000, unrounded, and it closes one period, as long as its bar type says, after
  the venue's own open time. Raw prices stay within 28 digits.\<close>

theorem bar_is_exactly_the_trendbar:
  assumes "holds_exactly N" and "0 \<le> price_precision"
    and "bar_from_trendbar N raw bar_type price_precision size_precision ts_init = Inr bar"
    and "\<bar>low raw\<bar> < 10 ^ 28 \<and> \<bar>low raw + delta_open raw\<bar> < 10 ^ 28 \<and>
      \<bar>low raw + delta_high raw\<bar> < 10 ^ 28 \<and> \<bar>low raw + delta_close raw\<bar> < 10 ^ 28"
  shows "b_bar_type bar = bar_type \<and> b_low bar = of_int (low raw) / 100000 \<and> b_open bar = of_int (low raw + delta_open raw) / 100000 \<and>
    b_high bar = of_int (low raw + delta_high raw) / 100000 \<and>
    b_close bar = of_int (low raw + delta_close raw) / 100000 \<and>
    b_ts_event bar =
      (boundary_secs raw + bt_step bar_type * aggregation_secs (bt_aggregation bar_type)) * 1000000000"
proof -
  note exact = price_from_raw_exact [OF assms(1,2)]
  from assms(3) obtain period where period: "trendbar_period_for bar_type = Inr period"
    and prices: "price_from_raw N (low raw + delta_open raw) price_precision = Inr (b_open bar)"
      "price_from_raw N (low raw + delta_high raw) price_precision = Inr (b_high bar)"
      "price_from_raw N (low raw) price_precision = Inr (b_low bar)"
      "price_from_raw N (low raw + delta_close raw) price_precision = Inr (b_close bar)"
    and ts: "b_bar_type bar = bar_type" "b_ts_event bar = (boundary_secs raw + dict_get PERIOD_SECS period 0) * 1000000000"
    by (auto simp: bar_from_trendbar_def bind_result_Inr Let_def
             split: option.splits if_splits sum.splits parse_error.splits)
  from assms(4) have "b_low bar = of_int (low raw) / 100000"
    "b_open bar = of_int (low raw + delta_open raw) / 100000"
    "b_high bar = of_int (low raw + delta_high raw) / 100000"
    "b_close bar = of_int (low raw + delta_close raw) / 100000"
    using exact prices by blast+
  moreover have "b_ts_event bar =
      (boundary_secs raw + bt_step bar_type * aggregation_secs (bt_aggregation bar_type)) * 1000000000"
    using ts(2) period_of_bar_type [OF period] by (simp only:)
  ultimately show ?thesis using ts(1) by blast
qed

definition sample_nautilus :: nautilus where
  "sample_nautilus = \<lparr>new_price = (\<lambda>v d. Some v), new_quantity = (\<lambda>v n. Some v),
     bar_accepted = (\<lambda>o1 h l c. l \<le> o1 \<and> o1 \<le> h \<and> l \<le> c \<and> c \<le> h),
     currency_type = (\<lambda>name. if name \<in> {''EUR'', ''USD''} then Some FIAT else None)\<rparr>"

lemma sample_holds_exactly: "holds_exactly sample_nautilus"
  by (simp add: holds_exactly_def sample_nautilus_def)

lemma sample_price:
  "\<bar>raw\<bar> < 10 ^ 28 \<Longrightarrow> price_from_raw sample_nautilus raw 5 = Inr (of_int raw / 100000)"
  unfolding price_from_raw_def raw_over_scale by (simp add: sample_nautilus_def made_def)

theorem bar_is_exactly_the_trendbar_witness:
  "\<exists>bar. bar_from_trendbar sample_nautilus
      \<lparr>boundary_secs = 1200, low = 110000, delta_open = 10, delta_high = 45, delta_close = 30, bar_volume = 7\<rparr>
      \<lparr>bt_step = 5, bt_aggregation = Agg_MINUTE, bt_price_type = Px_BID, bt_aggregation_source = Source_EXTERNAL\<rparr>
      5 0 9 = Inr bar \<and> b_low bar = 11 / 10 \<and> b_ts_event bar = 1500000000000"
proof -
  let ?raw = "\<lparr>boundary_secs = 1200, low = 110000, delta_open = 10, delta_high = 45, delta_close = 30,
    bar_volume = 7\<rparr>"
  let ?type = "\<lparr>bt_step = 5, bt_aggregation = Agg_MINUTE, bt_price_type = Px_BID,
    bt_aggregation_source = Source_EXTERNAL\<rparr>"
  have "\<exists>bar. bar_from_trendbar sample_nautilus ?raw ?type 5 0 9 = Inr bar"
    by (simp add: bar_from_trendbar_def sample_price bind_result_def trendbar_period_for_def MINUTE_STEPS_def
        sample_nautilus_def [THEN arg_cong [of _ _ new_quantity]]
        sample_nautilus_def [THEN arg_cong [of _ _ bar_accepted]])
  then obtain bar where bar: "bar_from_trendbar sample_nautilus ?raw ?type 5 0 9 = Inr bar" by blast
  from bar_is_exactly_the_trendbar [OF sample_holds_exactly _ bar] bar show ?thesis by simp
qed

text \<open>
  C34: An instrument is never approximated: when \<open>instrument_from_symbol\<close> returns, it has at most
  five price and two size decimals, its size increment is positive and exactly the venue's step
  volume, and its lot size, minimum and maximum are exactly the venue's where it has them - a size
  the step's decimals cannot hold is refused instead.\<close>

theorem instrument_sizes_are_exact:
  assumes "holds_exactly N"
    and "instrument_from_symbol N symbol light assets overrides ts_init = Inr instrument"
  shows "si_price_precision instrument = digits symbol \<and> digits symbol \<le> 5 \<and>
    si_size_precision instrument \<le> 2 \<and> 0 < si_size_increment instrument \<and>
    f_stepVolume symbol \<noteq> None \<and>
    Some (si_size_increment instrument) = map_option volume_to_units (f_stepVolume symbol) \<and>
    si_lot_size instrument = map_option volume_to_units (f_lotSize symbol) \<and>
    si_min_quantity instrument = map_option volume_to_units (f_minVolume symbol) \<and>
    si_max_quantity instrument = map_option volume_to_units (f_maxVolume symbol)"
proof -
  let ?step = "volume_to_units (unset_int (f_stepVolume symbol))"
  note exact = optional_exact_quantity_exact [OF assms(1)]
  from assms(2) obtain name where "digits symbol \<le> 5" and step: "0 < ?step"
    and size: "new_quantity N ?step (precision_of ?step) = Some (si_size_increment instrument)"
      "si_size_precision instrument = precision_of ?step"
    and "si_price_precision instrument = digits symbol"
    and q: "optional_exact_quantity N name (f_lotSize symbol) (precision_of ?step) = Inr (si_lot_size instrument)"
      "optional_exact_quantity N name (f_minVolume symbol) (precision_of ?step) = Inr (si_min_quantity instrument)"
      "optional_exact_quantity N name (f_maxVolume symbol) (precision_of ?step) = Inr (si_max_quantity instrument)"
    by (auto simp: instrument_from_symbol_def bind_result_Inr Let_def split: if_splits)
  moreover have "si_size_increment instrument = ?step"
    using assms(1) size(1) precision_of_volume(2) by (auto simp: holds_exactly_def)
  moreover have "f_stepVolume symbol \<noteq> None"
    using step by (cases "f_stepVolume symbol") (simp_all add: unset_int_def volume_to_units_def)
  ultimately show ?thesis
    using precision_of_volume(1) exact [OF q(1)] exact [OF q(2)] exact [OF q(3)]
    by (auto simp: unset_int_def)
qed

definition sample_symbol :: ProtoOASymbol where
  "sample_symbol = \<lparr>digits = 5, pipPosition = 4, f_lotSize = Some 10000000, f_minVolume = Some 100000,
     f_stepVolume = Some 100000, f_maxVolume = None, f_measurementUnits = Some ''EUR'',
     f_tradingMode = Some ''ENABLED'', f_scheduleTimeZone = None, f_commissionType = None,
     f_preciseTradingCommissionRate = None, f_preciseMinCommission = None, f_swapLong = None,
     f_swapShort = None, f_swapCalculationType = None, f_leverageId = None, f_slDistance = None,
     f_tpDistance = None, f_distanceSetIn = None\<rparr>"

lemma sample_instrument:
  "\<exists>instrument. instrument_from_symbol sample_nautilus sample_symbol
      \<lparr>ls_symbolId = 1, symbolName = ''EURUSD'', baseAssetId = 2, quoteAssetId = 3\<rparr>
      [(2, ''EUR''), (3, ''USD'')] [] 9 = Inr instrument"
proof -
  have "is_integral (volume_to_units v)" if "v \<in> {100000, 10000000}" for v
    using that by (auto intro!: is_integralI [of _ "v div 100"] simp: volume_to_units_def)
  then have "precision_of (volume_to_units 100000) = 0" "precision_of (volume_to_units 10000000) = 0"
    by (simp_all add: precision_of_def upt_rec)
  then show ?thesis
    by (simp add: instrument_from_symbol_def bind_result_def made_def optional_exact_quantity_def
        asset_name_def sample_symbol_def sample_nautilus_def unset_int_def volume_to_units_def Let_def)
qed

theorem instrument_sizes_are_exact_witness:
  "\<exists>instrument. instrument_from_symbol sample_nautilus sample_symbol
      \<lparr>ls_symbolId = 1, symbolName = ''EURUSD'', baseAssetId = 2, quoteAssetId = 3\<rparr>
      [(2, ''EUR''), (3, ''USD'')] [] 9 = Inr instrument \<and>
    si_size_increment instrument = 1000 \<and> si_lot_size instrument = Some 100000 \<and> si_max_quantity instrument = None"
proof -
  obtain instrument where "instrument_from_symbol sample_nautilus sample_symbol
      \<lparr>ls_symbolId = 1, symbolName = ''EURUSD'', baseAssetId = 2, quoteAssetId = 3\<rparr>
      [(2, ''EUR''), (3, ''USD'')] [] 9 = Inr instrument" using sample_instrument by blast
  with instrument_sizes_are_exact [OF sample_holds_exactly this] show ?thesis
    by (simp add: sample_symbol_def volume_to_units_def)
qed

end
