(* ===== verification/Reconcile.thy ===== *)
theory Reconcile
  imports Venue_Book "HOL-Library.Multiset" "HOL-Library.List_Lexorder" "HOL-Library.Char_ord"
begin

text \<open>
  \<open>common/reconciliation.py\<close>: the reports for everything the broker holds and every position
  traded in the window, built from the snapshot, each position's own lists and the window's
  deals. \<open>ListedPosition\<close> is the class \<open>_Position\<close>; its methods take it as an argument. What
  Nautilus holds of legs is the record \<open>HeldOrders\<close>: its closed orders are a finite
  collection, so the search for a generation ends. The set \<open>claimed\<close>, which the code changes
  in place, is passed along and returned. A price or an average that raises ends the whole
  call, so every operation returns a \<open>venue_result\<close>.
\<close>

subsection \<open>State\<close>

record PositionHistory =
  ph_orders :: "ProtoOAOrder list"
  ph_deals :: "ProtoOADeal list"
  ph_complete :: bool

record HeldOrders =
  ho_closed :: "string list"
  ho_trade_ids :: "string \<Rightarrow> string list"
  ho_open_legs :: "int \<Rightarrow> string list"

record Reconciliation =
  rec_orders :: "ReportedOrder list"
  rec_positions :: "ReportedPosition list"
  rec_notices :: "Notice list"

record ListedPosition =
  lp_position_id :: int
  lp_entry :: ProtoOAOrder
  lp_precision :: nat
  lp_side :: ProtoOATradeSide
  lp_deals :: "ProtoOADeal list"
  lp_fills :: "(int, Fill list) dict"
  lp_entry_fills :: "Fill list"
  lp_raises :: "ProtoOAOrder list"
  lp_orders :: "ProtoOAOrder list"
  lp_protective :: "ProtoOAOrder list"

subsection \<open>Reading the lists\<close>

definition open_volume :: "PositionHistory \<Rightarrow> int" where
  "open_volume found =
     (case entry_of (ph_orders found) of
        None \<Rightarrow> 0
      | Some entry \<Rightarrow>
          sum_list (map (\<lambda>deal. if d_tradeSide deal = tradeSide (tradeData entry)
                                then filledVolume deal else - filledVolume deal)
                        (ph_deals found)))"

definition symbol_of :: "PositionHistory \<Rightarrow> int option" where
  "symbol_of found =
     (case entry_of (ph_orders found) of
        Some entry \<Rightarrow> Some (symbolId (tradeData entry))
      | None \<Rightarrow> (case ph_deals found of [] \<Rightarrow> None | deal # _ \<Rightarrow> Some (d_symbolId deal)))"

definition entry_named :: "ProtoOAOrder list \<Rightarrow> string \<Rightarrow> ProtoOAOrder option" where
  "entry_named orders client_order_id =
     find (\<lambda>order. \<not> (closingOrder order \<or> orderType order = STOP_LOSS_TAKE_PROFIT) \<and>
                   parse_label (label (tradeData order)) = Some client_order_id) orders"

text \<open>\<open>_ENDED_REPORT_STATUS\<close> and \<open>_status\<close>.\<close>

fun ENDED_REPORT_STATUS :: "ProtoOAOrderStatus \<Rightarrow> ReportStatus option" where
  "ENDED_REPORT_STATUS ORDER_STATUS_CANCELLED = Some Rep_CANCELED"
| "ENDED_REPORT_STATUS ORDER_STATUS_EXPIRED = Some Rep_EXPIRED"
| "ENDED_REPORT_STATUS ORDER_STATUS_REJECTED = Some Rep_REJECTED"
| "ENDED_REPORT_STATUS _ = None"

definition report_status :: "ProtoOAOrder \<Rightarrow> Fill list \<Rightarrow> ReportStatus" where
  "report_status order fills =
     (if orderStatus order = ORDER_STATUS_FILLED then Rep_FILLED
      else case ENDED_REPORT_STATUS (orderStatus order) of
             Some status \<Rightarrow> status
           | None \<Rightarrow> if fills \<noteq> [] then Rep_PARTIALLY_FILLED else Rep_ACCEPTED)"

definition order_report ::
    "ProtoOAOrder \<Rightarrow> nat \<Rightarrow> Fill list \<Rightarrow> string option \<Rightarrow> bool \<Rightarrow> ExternalType option \<Rightarrow>
     ReportedOrder venue_result" where
  "order_report order precision fills client_order_id reduce_only order_type =
     (let kind = (case order_type of Some t \<Rightarrow> t
                  | None \<Rightarrow> (case EXTERNAL_TYPE (orderType order) of Some t \<Rightarrow> t | None \<Rightarrow> Ext_MARKET))
      in bind_result (levels_of order precision) (\<lambda>prices.
         let priced = (kind = Ext_LIMIT \<or> kind = Ext_STOP_LIMIT);
             triggered = (kind = Ext_STOP_MARKET \<or> kind = Ext_STOP_LIMIT);
             data = tradeData order;
             accepted = (case f_openTimestamp data of Some t \<Rightarrow> t
                         | None \<Rightarrow> if fills \<noteq> [] then fill_ts_ms (hd fills)
                                   else utcLastUpdateTimestamp order);
             last_ms = max (utcLastUpdateTimestamp order)
                           (if fills \<noteq> [] then fill_ts_ms (last fills) else 0)
         in bind_result (average_price fills precision) (\<lambda>average. Inr
              \<lparr>ro_venue_order_id = int_text (orderId order),
               ro_client_order_id = client_order_id,
               ro_symbol_id = symbolId data,
               ro_side = tradeSide data,
               ro_order_type = kind,
               ro_status = report_status order fills,
               ro_units = volume_to_units (volume data),
               ro_filled_units = sum_units fills,
               ro_reduce_only = reduce_only,
               ro_venue_position_id = map_option int_text (f_positionId order),
               ro_ts_accepted_ms = accepted,
               ro_ts_ms = last_ms,
               ro_avg_price = average,
               ro_price = (if priced then level_get prices TAKE_PROFIT else None),
               ro_trigger_price = (if triggered then level_get prices STOP_LOSS else None),
               ro_time_in_force = f_timeInForce order,
               ro_expire_ts_ms = f_expirationTimestamp order,
               ro_parent_order_id = None,
               ro_linked_order_ids = [],
               ro_contingency = None,
               ro_fills = fills\<rparr>)))"

definition unfilled_order ::
    "ProtoOAOrder \<Rightarrow> nat \<Rightarrow> string option \<Rightarrow> ReportedOrder venue_result" where
  "unfilled_order order precision client_order_id =
     order_report order precision [] client_order_id (closingOrder order) None"

definition position_report ::
    "ProtoOAPosition \<Rightarrow> nat \<Rightarrow> decimal option \<Rightarrow> ReportedPosition venue_result" where
  "position_report position precision units =
     bind_result (price_of (vp_price position) precision) (\<lambda>price. Inr
       \<lparr>rq_venue_position_id = int_text (vp_positionId position),
        rq_symbol_id = symbolId (vp_tradeData position),
        rq_side = tradeSide (vp_tradeData position),
        rq_units = (case units of None \<Rightarrow> volume_to_units (volume (vp_tradeData position))
                    | Some u \<Rightarrow> u),
        rq_avg_price = price,
        rq_ts_ms = vp_utcLastUpdateTimestamp position\<rparr>)"

text \<open>The node's id for a closing order, and the ids claimed so far.\<close>

definition close_id ::
    "ProtoOAOrder \<Rightarrow> (int, string) dict \<Rightarrow> OperationsInFlight \<Rightarrow> string set \<Rightarrow> bool \<Rightarrow>
     string option \<times> string set" where
  "close_id order known_closes operations claimed ask =
     (case map_of known_closes (orderId order) of
        Some known \<Rightarrow> (Some known, claimed)
      | None \<Rightarrow>
          if ask \<and> \<not> isStopOut order then
            (case closing (positionId order) (volume (tradeData order)) (created_of order)
                    (orderId order) operations of
               None \<Rightarrow> (None, claimed)
             | Some candidate \<Rightarrow>
                 if candidate \<in> claimed then (None, claimed)
                 else (Some candidate, insert candidate claimed))
          else (None, claimed))"

definition report_key :: "ReportedOrder \<Rightarrow> int \<Rightarrow> bool \<Rightarrow> int \<times> bool \<times> bool \<times> string" where
  "report_key report not_before entry =
     (let first = (if ro_fills report \<noteq> [] then fill_ts_ms (hd (ro_fills report))
                   else ro_ts_ms report)
      in (max first not_before, ro_reduce_only report, \<not> entry, ro_venue_order_id report))"

subsection \<open>One position's lists\<close>

fun deal_fills ::
    "nat \<Rightarrow> nat \<Rightarrow> ProtoOADeal list \<Rightarrow> (int, Fill list) dict \<Rightarrow> (int, Fill list) dict venue_result"
  where
  "deal_fills precision account_digits [] fills = Inr fills"
| "deal_fills precision account_digits (deal # deals) fills =
     bind_result (fill_of deal precision account_digits) (\<lambda>fill.
       deal_fills precision account_digits deals
         (AList.update (d_orderId deal) (dict_get fills (d_orderId deal) [] @ [fill]) fills))"

definition listed_position ::
    "int \<Rightarrow> ProtoOAOrder \<Rightarrow> PositionHistory \<Rightarrow> nat \<Rightarrow> nat \<Rightarrow> ListedPosition venue_result" where
  "listed_position pid entry found precision account_digits =
     (let deals = sort_key (\<lambda>deal. (executionTimestamp deal, dealId deal)) (ph_deals found);
          orders = sort_key orderId (ph_orders found)
      in bind_result (deal_fills precision account_digits deals []) (\<lambda>fills. Inr
           \<lparr>lp_position_id = pid,
            lp_entry = entry,
            lp_precision = precision,
            lp_side = tradeSide (tradeData entry),
            lp_deals = deals,
            lp_fills = fills,
            lp_entry_fills = dict_get fills (orderId entry) [],
            lp_raises = filter (\<lambda>order. orderId order \<noteq> orderId entry \<and>
                                        map_of fills (orderId order) \<noteq> None)
                          (opening_orders (ph_orders found)),
            lp_orders = orders,
            lp_protective = filter (\<lambda>order. orderType order = STOP_LOSS_TAKE_PROFIT) orders\<rparr>))"

text \<open>The fills \<open>self.fills[order.orderId]\<close> of an order that has one.\<close>

definition fills_of :: "ListedPosition \<Rightarrow> ProtoOAOrder \<Rightarrow> Fill list" where
  "fills_of p order = dict_get (lp_fills p) (orderId order) []"

definition closing_orders :: "ListedPosition \<Rightarrow> ProtoOAOrder list" where
  "closing_orders p =
     rev (sort_key (\<lambda>order. (utcLastUpdateTimestamp order, orderId order))
       (rev (filter (\<lambda>order. closingOrder order \<and> orderType order \<noteq> STOP_LOSS_TAKE_PROFIT \<and>
                             map_of (lp_fills p) (orderId order) \<noteq> None) (lp_orders p))))"

fun close_reports ::
    "ListedPosition \<Rightarrow> (int, string) dict \<Rightarrow> OperationsInFlight \<Rightarrow> string set \<Rightarrow>
     ProtoOAOrder list \<Rightarrow> string set \<Rightarrow> (ReportedOrder list \<times> string set) venue_result" where
  "close_reports p known_closes operations in_window [] claimed = Inr ([], claimed)"
| "close_reports p known_closes operations in_window (order # orders) claimed =
     (let recent = list_ex (\<lambda>fill. trade_id fill \<in> in_window) (fills_of p order)
      in case close_id order known_closes operations claimed recent of (client, claimed') \<Rightarrow>
         bind_result (order_report order (lp_precision p) (fills_of p order) client True
                        (Some Ext_MARKET)) (\<lambda>report.
         bind_result (close_reports p known_closes operations in_window orders claimed')
           (\<lambda>(reports, claimed''). Inr (report # reports, claimed''))))"

text \<open>
  The body of the loop over a protective order's fills: the fills of each level, the fills no
  leg takes, the type they are reported with, the notices.
\<close>

definition take_trigger ::
    "ProtoOATradeSide \<Rightarrow> levels \<Rightarrow> Level list \<Rightarrow> Fill \<Rightarrow>
     (Level, Fill list) dict \<times> Fill list \<times> ExternalType \<times> Notice list \<Rightarrow>
     (Level, Fill list) dict \<times> Fill list \<times> ExternalType \<times> Notice list" where
  "take_trigger side lv with_legs fill st =
     (case st of (leg_fills, untaken, order_type, notices) \<Rightarrow>
        if lv = no_levels then (leg_fills, untaken @ [fill], order_type, notices)
        else case which_level side lv (fill_price fill) of (level, said) \<Rightarrow>
          let notices = notices @ List.map_filter (\<lambda>r. case r of R_Notice n \<Rightarrow> Some n | _ \<Rightarrow> None) said
          in if level \<in> set with_legs
             then (AList.update level (dict_get leg_fills level [] @ [fill]) leg_fills,
                   untaken, order_type, notices)
             else (leg_fills, untaken @ [fill],
                   if level = STOP_LOSS then Ext_STOP_MARKET else Ext_LIMIT, notices))"

fun triggers ::
    "ListedPosition \<Rightarrow> Level list \<Rightarrow> ProtoOAOrder list \<Rightarrow>
     (Level, Fill list) dict \<times> ReportedOrder list \<times> Notice list \<Rightarrow>
     ((Level, Fill list) dict \<times> ReportedOrder list \<times> Notice list) venue_result" where
  "triggers p with_legs [] st = Inr st"
| "triggers p with_legs (order # orders) (leg_fills, external, notices) =
     (let fills = fills_of p order
      in if fills = [] then triggers p with_legs orders (leg_fills, external, notices)
         else bind_result (levels_of order (lp_precision p)) (\<lambda>lv.
           case fold (take_trigger (lp_side p) lv with_legs) fills (leg_fills, [], Ext_MARKET, notices)
           of (leg_fills, untaken, order_type, notices) \<Rightarrow>
             if untaken \<noteq> [] then
               bind_result (order_report order (lp_precision p) untaken None True (Some order_type))
                 (\<lambda>report. triggers p with_legs orders (leg_fills, external @ [report], notices))
             else triggers p with_legs orders (leg_fills, external, notices)))"

subsection \<open>Legs\<close>

definition fill_orders :: "ListedPosition \<Rightarrow> Fill list \<Rightarrow> int list" where
  "fill_orders p fills =
     map d_orderId
       (filter (\<lambda>deal. int_text (dealId deal) \<in> set (map trade_id fills)) (lp_deals p))"

text \<open>Python's \<open>max\<close> by the time of the last update: the first of the latest, if any.\<close>

fun latest_updated :: "ProtoOAOrder list \<Rightarrow> ProtoOAOrder option" where
  "latest_updated [] = None"
| "latest_updated (order # orders) =
     (case latest_updated orders of
        None \<Rightarrow> Some order
      | Some later \<Rightarrow> if utcLastUpdateTimestamp later \<le> utcLastUpdateTimestamp order
                      then Some order else Some later)"

definition closing_source :: "ListedPosition \<Rightarrow> Fill list \<Rightarrow> ProtoOAOrder option" where
  "closing_source p fills =
     (case find (\<lambda>order. orderId order \<in> set (fill_orders p fills)) (lp_protective p) of
        Some order \<Rightarrow> Some order
      | None \<Rightarrow> latest_updated (lp_protective p))"

definition levels_source ::
    "ListedPosition \<Rightarrow> Fill list \<Rightarrow> ProtoOAPosition option \<Rightarrow> ProtoOAOrder option \<Rightarrow>
     (ProtoOAOrder option \<times> levels) venue_result" where
  "levels_source p fills venue_position live_protective =
     (case venue_position of
        Some position \<Rightarrow>
          bind_result (position_levels position (lp_precision p)) (\<lambda>lv. Inr (live_protective, lv))
      | None \<Rightarrow>
          (case closing_source p fills of
             None \<Rightarrow> Inr (None, no_levels)
           | Some source \<Rightarrow>
               bind_result (levels_of source (lp_precision p)) (\<lambda>lv. Inr (Some source, lv))))"

text \<open>
  How a leg stands: its units, its status and its time. The position has an entry fill, so
  \<open>self.entry_fills[0]\<close> and \<open>self.deals[-1]\<close> are there.
\<close>

definition leg_standing ::
    "ListedPosition \<Rightarrow> Level \<Rightarrow> Fill list \<Rightarrow> ProtoOAPosition option \<Rightarrow> ProtoOAOrder option \<Rightarrow>
     ProtoOAOrder option \<Rightarrow> levels \<Rightarrow> decimal \<times> ReportStatus \<times> int" where
  "leg_standing p level fills venue_position live_protective source lv =
     (let filled = sum_units fills
      in case venue_position of
           Some position \<Rightarrow>
             (case (case live_protective of
                      Some live \<Rightarrow> (volume_to_units (remaining_of live), utcLastUpdateTimestamp live)
                    | None \<Rightarrow> (volume_to_units (volume (vp_tradeData position)),
                               vp_utcLastUpdateTimestamp position))
              of (left_units, ts_ms) \<Rightarrow>
                if level_get lv level \<noteq> None
                then (ctx (filled + left_units),
                      if fills \<noteq> [] then Rep_PARTIALLY_FILLED else Rep_ACCEPTED, ts_ms)
                else (ctx (filled + left_units), Rep_CANCELED, vp_utcLastUpdateTimestamp position))
         | None \<Rightarrow>
             (let opened = lp_entry_fills p @ concat (map (fills_of p) (lp_raises p));
                  leg_units = (case source of
                                 Some order \<Rightarrow> volume_to_units (volume (tradeData order))
                               | None \<Rightarrow> sum_units opened)
              in if fills \<noteq> [] \<and> leg_units \<le> filled
                 then (max leg_units filled, Rep_FILLED, fill_ts_ms (last fills))
                 else (max leg_units filled, Rep_CANCELED,
                       executionTimestamp (last (lp_deals p)))))"

definition leg_accepted_ms :: "ListedPosition \<Rightarrow> ProtoOAOrder option \<Rightarrow> int" where
  "leg_accepted_ms p source =
     (let first_fill = fill_ts_ms (hd (lp_entry_fills p))
      in case source of
           None \<Rightarrow> first_fill
         | Some order \<Rightarrow>
             (case f_openTimestamp (tradeData order) of
                None \<Rightarrow> first_fill
              | Some opened \<Rightarrow> max opened first_fill))"

text \<open>\<open>_leg\<close>, given what \<open>_levels_source\<close> answered and the leg's venue order id.\<close>

definition leg_report ::
    "ListedPosition \<Rightarrow> Level \<Rightarrow> string option \<Rightarrow> string option \<Rightarrow> string list \<Rightarrow> Fill list \<Rightarrow>
     ProtoOAPosition option \<Rightarrow> ProtoOAOrder option \<Rightarrow> string \<Rightarrow> ProtoOAOrder option \<times> levels \<Rightarrow>
     ReportedOrder venue_result" where
  "leg_report p level own_id parent_id linked fills venue_position live_protective venue_order_id
     found =
     (case found of (source, lv) \<Rightarrow>
      case leg_standing p level fills venue_position live_protective source lv of
        (units, status, ts_ms) \<Rightarrow>
      case leg_prices level (level_get lv level) of (limit_price, trigger) \<Rightarrow>
      bind_result (average_price fills (lp_precision p)) (\<lambda>average. Inr
        \<lparr>ro_venue_order_id = venue_order_id,
         ro_client_order_id = own_id,
         ro_symbol_id = symbolId (tradeData (lp_entry p)),
         ro_side = opposite (lp_side p),
         ro_order_type = (if level = STOP_LOSS then Ext_STOP_MARKET else Ext_LIMIT),
         ro_status = status,
         ro_units = units,
         ro_filled_units = sum_units fills,
         ro_reduce_only = True,
         ro_venue_position_id = Some (int_text (lp_position_id p)),
         ro_ts_accepted_ms = leg_accepted_ms p source,
         ro_ts_ms = max ts_ms (leg_accepted_ms p source),
         ro_avg_price = average,
         ro_price = limit_price,
         ro_trigger_price = trigger,
         ro_time_in_force = Some GOOD_TILL_CANCEL,
         ro_expire_ts_ms = None,
         ro_parent_order_id = parent_id,
         ro_linked_order_ids = linked,
         ro_contingency = (if own_id = None then None else Some OUO),
         ro_fills = fills\<rparr>))"

text \<open>The node's leg: its first generation, its level's source looked up.\<close>

definition own_leg ::
    "ListedPosition \<Rightarrow> string option \<Rightarrow> (Level, string) dict \<Rightarrow> (Level, Fill list) dict \<Rightarrow>
     ProtoOAPosition option \<Rightarrow> ProtoOAOrder option \<Rightarrow> Level \<times> string \<Rightarrow>
     ReportedOrder venue_result" where
  "own_leg p parent_id leg_ids leg_fills venue_position live_protective named =
     (case named of (level, own_id) \<Rightarrow>
        let linked = map snd (filter (\<lambda>(key, other). key \<noteq> level) leg_ids);
            fills = dict_get leg_fills level []
        in bind_result (levels_source p fills venue_position live_protective) (\<lambda>found.
           leg_report p level (Some own_id) parent_id linked fills venue_position live_protective
             (leg_text (orderId (lp_entry p)) level 1) found))"

fun own_legs ::
    "ListedPosition \<Rightarrow> string option \<Rightarrow> (Level, string) dict \<Rightarrow> (Level, Fill list) dict \<Rightarrow>
     ProtoOAPosition option \<Rightarrow> ProtoOAOrder option \<Rightarrow> (Level, string) dict \<Rightarrow>
     ReportedOrder list venue_result" where
  "own_legs p parent_id leg_ids leg_fills venue_position live_protective [] = Inr []"
| "own_legs p parent_id leg_ids leg_fills venue_position live_protective (named # others) =
     bind_result (own_leg p parent_id leg_ids leg_fills venue_position live_protective named)
       (\<lambda>report.
     bind_result (own_legs p parent_id leg_ids leg_fills venue_position live_protective others)
       (\<lambda>reports. Inr (report # reports)))"

text \<open>
  The loop of \<open>_generation\<close>. A generation is at least one, so \<open>leg_venue_order_id\<close> does not
  raise.
\<close>

function generation_from ::
    "HeldOrders \<Rightarrow> int \<Rightarrow> Level \<Rightarrow> string set \<Rightarrow> bool \<Rightarrow> string set \<Rightarrow> int \<Rightarrow> int \<times> string set" where
  "generation_from held entry level trade_ids stands taken generation =
     (let name = leg_text entry level generation;
          held_trades = trade_ids \<inter> set (ho_trade_ids held name)
      in if name \<notin> set (ho_closed held) \<or> (held_trades \<noteq> {} \<and> \<not> stands)
         then (generation, taken)
         else generation_from held entry level trade_ids stands (taken \<union> held_trades)
                (generation + 1))"
  by pat_completeness auto
termination
proof (relation "measure (\<lambda>(h, e, l, ids, stands, taken, g).
    card {g'. g \<le> g' \<and> leg_text e l g' \<in> set (ho_closed h)})", goal_cases)
  case (2 held e l ids stands taken g name held_trades)
  then show ?case by (simp add: closed_generations_shrink)
qed simp

declare generation_from.simps [simp del]

definition leg_generation ::
    "ListedPosition \<Rightarrow> Level \<Rightarrow> Fill list \<Rightarrow> HeldOrders \<Rightarrow> bool \<Rightarrow> string \<times> int \<times> Fill list" where
  "leg_generation p level fills held stands =
     (case generation_from held (orderId (lp_entry p)) level (set (map trade_id fills)) stands {} 1
      of (generation, taken) \<Rightarrow>
        (leg_text (orderId (lp_entry p)) level generation, generation,
         filter (\<lambda>fill. trade_id fill \<notin> taken) fills))"

text \<open>One level of a foreign position: no report, or its leg's.\<close>

definition foreign_level ::
    "ListedPosition \<Rightarrow> (Level, Fill list) dict \<Rightarrow> ProtoOAPosition option \<Rightarrow> ProtoOAOrder option \<Rightarrow>
     HeldOrders \<Rightarrow> (ProtoOAOrder option \<times> levels) option \<Rightarrow> Level \<Rightarrow>
     ReportedOrder list venue_result" where
  "foreign_level p leg_fills venue_position live_protective held standing level =
     (let fills = dict_get leg_fills level []
      in bind_result (case standing of
                        Some found \<Rightarrow> Inr found
                      | None \<Rightarrow> levels_source p fills venue_position live_protective) (\<lambda>found.
         if level_get (snd found) level = None \<and> fills = [] then Inr []
         else
           let stands = (venue_position \<noteq> None \<and> level_get (snd found) level \<noteq> None)
           in case leg_generation p level fills held stands of
                (venue_order_id, generation, fills) \<Rightarrow>
              bind_result (leg_report p level None None [] fills venue_position live_protective
                             venue_order_id found) (\<lambda>report.
              if ro_status report = Rep_CANCELED \<and> fills = [] \<and> 1 < generation \<and>
                 venue_order_id \<notin> set (ho_open_legs held (orderId (lp_entry p)))
              then Inr [] else Inr [report])))"

text \<open>Every other leg Nautilus holds open is gone.\<close>

fun gone_legs ::
    "ListedPosition \<Rightarrow> ProtoOAPosition option \<Rightarrow> ProtoOAOrder option \<Rightarrow> string set \<Rightarrow>
     string list \<Rightarrow> ReportedOrder list venue_result" where
  "gone_legs p venue_position live_protective reported_ids [] = Inr []"
| "gone_legs p venue_position live_protective reported_ids (name # names) =
     (case parse_leg_venue_order_id name of
        None \<Rightarrow> gone_legs p venue_position live_protective reported_ids names
      | Some (_, level, _) \<Rightarrow>
          if name \<in> reported_ids
          then gone_legs p venue_position live_protective reported_ids names
          else
            bind_result (levels_source p [] venue_position live_protective) (\<lambda>found.
            bind_result (leg_report p level None None [] [] venue_position live_protective name
                           found) (\<lambda>gone.
            let ts_ms = (case venue_position of
                           Some position \<Rightarrow> vp_utcLastUpdateTimestamp position
                         | None \<Rightarrow> executionTimestamp (last (lp_deals p)))
            in bind_result (gone_legs p venue_position live_protective reported_ids names)
                 (\<lambda>reports. Inr
                    (gone\<lparr>ro_status := Rep_CANCELED,
                          ro_ts_ms := max ts_ms (ro_ts_accepted_ms gone),
                          ro_price := None, ro_trigger_price := None\<rparr> # reports)))))"

definition foreign_leg_reports ::
    "ListedPosition \<Rightarrow> (Level, Fill list) dict \<Rightarrow> ProtoOAPosition option \<Rightarrow> ProtoOAOrder option \<Rightarrow>
     HeldOrders \<Rightarrow> ReportedOrder list venue_result" where
  "foreign_leg_reports p leg_fills venue_position live_protective held =
     bind_result (case venue_position of
                    None \<Rightarrow> Inr None
                  | Some _ \<Rightarrow> bind_result (levels_source p [] venue_position live_protective)
                                (\<lambda>found. Inr (Some found))) (\<lambda>standing.
     bind_result (foreign_level p leg_fills venue_position live_protective held standing STOP_LOSS)
       (\<lambda>stop.
     bind_result (foreign_level p leg_fills venue_position live_protective held standing TAKE_PROFIT)
       (\<lambda>target.
     bind_result (gone_legs p venue_position live_protective
                    (set (map ro_venue_order_id (stop @ target)))
                    (sort (ho_open_legs held (orderId (lp_entry p))))) (\<lambda>gone.
     Inr (stop @ target @ gone)))))"


subsection \<open>One position's reports\<close>

fun raise_reports :: "ListedPosition \<Rightarrow> ProtoOAOrder list \<Rightarrow> ReportedOrder list venue_result" where
  "raise_reports p [] = Inr []"
| "raise_reports p (order # orders) =
     bind_result (order_report order (lp_precision p) (fills_of p order) None False None)
       (\<lambda>report.
     bind_result (raise_reports p orders) (\<lambda>reports. Inr (report # reports)))"

text \<open>The legs named in the entry's comment, and the notice when it cannot be read.\<close>

definition named_legs :: "ListedPosition \<Rightarrow> (Level, string) dict \<times> Notice list" where
  "named_legs p =
     (if parse_label (label (tradeData (lp_entry p))) = None then ([], [])
      else case read_comment (comment (tradeData (lp_entry p))) of
             None \<Rightarrow> ([], [LegsRecordUnreadable (lp_position_id p)])
           | Some found \<Rightarrow>
               ((case leg_stop_loss found of None \<Rightarrow> [] | Some i \<Rightarrow> [(STOP_LOSS, i)]) @
                (case leg_take_profit found of None \<Rightarrow> [] | Some i \<Rightarrow> [(TAKE_PROFIT, i)]), []))"

definition entry_report :: "ListedPosition \<Rightarrow> ReportedOrder venue_result" where
  "entry_report p =
     bind_result (order_report (lp_entry p) (lp_precision p) (lp_entry_fills p)
                    (parse_label (label (tradeData (lp_entry p)))) False None) (\<lambda>entry.
     let leg_ids = fst (named_legs p)
     in Inr (if leg_ids \<noteq> []
             then entry\<lparr>ro_linked_order_ids := map snd leg_ids, ro_contingency := Some OTO\<rparr>
             else entry))"

definition position_reports ::
    "ListedPosition \<Rightarrow> ProtoOAPosition option \<Rightarrow> ProtoOAOrder option \<Rightarrow> (int, string) dict \<Rightarrow>
     OperationsInFlight \<Rightarrow> string set \<Rightarrow> string set \<Rightarrow> HeldOrders \<Rightarrow>
     (ReportedOrder list \<times> Notice list \<times> string set) venue_result" where
  "position_reports p venue_position live_protective known_closes operations claimed in_window held =
     (let parent_id = parse_label (label (tradeData (lp_entry p)));
          leg_ids = fst (named_legs p)
      in bind_result (entry_report p) (\<lambda>entry.
         bind_result (raise_reports p (lp_raises p)) (\<lambda>raised.
         bind_result (close_reports p known_closes operations in_window (closing_orders p) claimed)
           (\<lambda>(closed, claimed).
         bind_result (triggers p (if parent_id = None then LEVELS else map fst leg_ids)
                        (lp_protective p) ([], [], [])) (\<lambda>(leg_fills, external, said).
         bind_result (if parent_id = None
                      then foreign_leg_reports p leg_fills venue_position live_protective held
                      else Inr []) (\<lambda>foreign.
         bind_result (own_legs p parent_id leg_ids leg_fills venue_position live_protective leg_ids)
           (\<lambda>own.
         Inr (entry # raised @ closed @ foreign @ own @ external,
              snd (named_legs p) @ said, claimed))))))))"

subsection \<open>The whole account\<close>

text \<open>What \<open>reconcile\<close> is given and what it reads from it before its loops.\<close>

record reconcile_env =
  re_open :: "(int, ProtoOAPosition) dict"
  re_live_protective :: "(int, ProtoOAOrder) dict"
  re_histories :: "(int, PositionHistory) dict"
  re_in_window :: "string set"
  re_precision :: "int \<Rightarrow> nat option"
  re_known_closes :: "(int, string) dict"
  re_operations :: OperationsInFlight
  re_held :: HeldOrders
  re_account_digits :: nat

record reconcile_state =
  rs_keyed :: "((int \<times> bool \<times> bool \<times> string) \<times> ReportedOrder) list"
  rs_positions :: "ReportedPosition list"
  rs_notices :: "Notice list"
  rs_claimed :: "string set"

definition set_default :: "'k \<Rightarrow> 'v \<Rightarrow> ('k, 'v) dict \<Rightarrow> ('k, 'v) dict" where
  "set_default k v d = (if map_of d k = None then AList.update k v d else d)"

definition symbols_of ::
    "ProtoOAReconcileRes \<Rightarrow> (int, PositionHistory) dict \<Rightarrow> ProtoOADeal list \<Rightarrow> (int, int) dict" where
  "symbols_of snapshot histories window_deals =
     fold (\<lambda>(pid, found) symbols. case symbol_of found of
                                    None \<Rightarrow> symbols
                                  | Some symbol \<Rightarrow> set_default pid symbol symbols) histories
       (fold (\<lambda>deal. set_default (d_positionId deal) (d_symbolId deal)) window_deals
         (fold (\<lambda>position. AList.update (vp_positionId position) (symbolId (vp_tradeData position)))
            (snap_position snapshot) []))"

definition keyed_reports ::
    "ReportedOrder list \<Rightarrow> ((int \<times> bool \<times> bool \<times> string) \<times> ReportedOrder) list" where
  "keyed_reports reports =
     (let entry_ts = fst (report_key (hd reports) 0 False)
      in map (\<lambda>(index, report). (report_key report entry_ts (index = 0), report))
           (enumerate 0 reports))"

text \<open>A taken position: what \<open>reconcile\<close> adds for one that has an entry fill.\<close>

definition take_position ::
    "reconcile_env \<Rightarrow> ListedPosition \<Rightarrow> PositionHistory \<Rightarrow> ProtoOAPosition option \<Rightarrow>
     reconcile_state \<Rightarrow> reconcile_state venue_result" where
  "take_position env p found venue_position st =
     bind_result (position_reports p venue_position
                    (map_of (re_live_protective env) (lp_position_id p)) (re_known_closes env)
                    (re_operations env) (rs_claimed st) (re_in_window env) (re_held env))
       (\<lambda>(reports, said, claimed).
     let st = st\<lparr>rs_keyed := rs_keyed st @ keyed_reports reports,
                 rs_notices := rs_notices st @ said, rs_claimed := claimed\<rparr>
     in case venue_position of
          None \<Rightarrow> Inr st
        | Some position \<Rightarrow>
            bind_result (position_report position (lp_precision p)
                           (if ph_complete found \<and> 0 < open_volume found
                            then Some (volume_to_units (open_volume found)) else None)) (\<lambda>report.
            Inr (st\<lparr>rs_positions := rs_positions st @ [report]\<rparr>)))"

definition say :: "Notice \<Rightarrow> reconcile_state \<Rightarrow> reconcile_state" where
  "say notice st = st\<lparr>rs_notices := rs_notices st @ [notice]\<rparr>"

text \<open>The body of the loop over positions; each \<open>continue\<close> of the code returns here.\<close>

definition reconcile_position ::
    "reconcile_env \<Rightarrow> int \<Rightarrow> int \<Rightarrow> reconcile_state \<Rightarrow> reconcile_state venue_result" where
  "reconcile_position env pid symbol st =
     (case re_precision env symbol of
        None \<Rightarrow> Inr st
      | Some digits \<Rightarrow>
     (case map_of (re_histories env) pid of
        None \<Rightarrow> Inr (say (NoLists pid) st)
      | Some found \<Rightarrow>
     (case entry_of (ph_orders found) of
        None \<Rightarrow> Inr (say (NoEntryOrder pid) st)
      | Some entry \<Rightarrow>
          let venue_position = map_of (re_open env) pid
          in bind_result (listed_position pid entry found digits (re_account_digits env)) (\<lambda>p.
             if lp_entry_fills p = [] then
               (case venue_position of
                  None \<Rightarrow> Inr st
                | Some position \<Rightarrow>
                    bind_result (position_report position digits None) (\<lambda>report.
                    Inr ((say (NoEntryFill pid) st)\<lparr>rs_positions := rs_positions st @ [report]\<rparr>)))
             else if venue_position \<noteq> None \<and> \<not> 0 < open_volume found \<and> ph_complete found
             then take_position env p found None st
             else if venue_position = None \<and> 0 < open_volume found
             then Inr (say (OpenNotInSnapshot pid) st)
             else take_position env p found venue_position st))))"

fun reconcile_positions ::
    "reconcile_env \<Rightarrow> (int, int) dict \<Rightarrow> int list \<Rightarrow> reconcile_state \<Rightarrow> reconcile_state venue_result"
  where
  "reconcile_positions env symbols [] st = Inr st"
| "reconcile_positions env symbols (pid # pids) st =
     bind_result (reconcile_position env pid (dict_get symbols pid 0) st)
       (reconcile_positions env symbols pids)"

text \<open>The loop over the snapshot's other orders, \<open>reported_ids\<close> fixed before it.\<close>

fun other_orders ::
    "reconcile_env \<Rightarrow> string set \<Rightarrow> ProtoOAOrder list \<Rightarrow> reconcile_state \<Rightarrow>
     reconcile_state venue_result" where
  "other_orders env reported_ids [] st = Inr st"
| "other_orders env reported_ids (order # orders) st =
     (if orderType order = STOP_LOSS_TAKE_PROFIT \<or> int_text (orderId order) \<in> reported_ids
      then other_orders env reported_ids orders st
      else case re_precision env (symbolId (tradeData order)) of
             None \<Rightarrow> other_orders env reported_ids orders st
           | Some digits \<Rightarrow>
               (case (if closingOrder order
                      then close_id order (re_known_closes env) (re_operations env)
                             (rs_claimed st) True
                      else (parse_label (label (tradeData order)), rs_claimed st))
                of (client, claimed) \<Rightarrow>
                  bind_result (unfilled_order order digits client) (\<lambda>report.
                  other_orders env reported_ids orders
                    (st\<lparr>rs_keyed := rs_keyed st @ [(report_key report 0 False, report)],
                        rs_claimed := claimed\<rparr>))))"

definition env_of ::
    "ProtoOAReconcileRes \<Rightarrow> (int, PositionHistory) dict \<Rightarrow> ProtoOADeal list \<Rightarrow>
     (int \<Rightarrow> nat option) \<Rightarrow> (int, string) dict \<Rightarrow> OperationsInFlight \<Rightarrow> HeldOrders \<Rightarrow> nat \<Rightarrow>
     reconcile_env" where
  "env_of snapshot histories window_deals precision known_closes operations held account_digits =
     \<lparr>re_open = fold (\<lambda>position. AList.update (vp_positionId position) position)
                  (snap_position snapshot) [],
      re_live_protective =
        fold (\<lambda>order. AList.update (positionId order) order)
          (filter (\<lambda>order. orderType order = STOP_LOSS_TAKE_PROFIT) (snap_order snapshot)) [],
      re_histories = histories,
      re_in_window = set (map (\<lambda>deal. int_text (dealId deal)) window_deals),
      re_precision = precision,
      re_known_closes = known_closes,
      re_operations = operations,
      re_held = held,
      re_account_digits = account_digits\<rparr>"

definition reconcile ::
    "ProtoOAReconcileRes \<Rightarrow> (int, PositionHistory) dict \<Rightarrow> ProtoOADeal list \<Rightarrow>
     (int \<Rightarrow> nat option) \<Rightarrow> (int, string) dict \<Rightarrow> OperationsInFlight \<Rightarrow> HeldOrders \<Rightarrow> nat \<Rightarrow>
     Reconciliation venue_result" where
  "reconcile snapshot histories window_deals precision known_closes operations held account_digits =
     (let symbols = symbols_of snapshot histories window_deals;
          env = env_of snapshot histories window_deals precision known_closes operations held
                  account_digits
      in bind_result (reconcile_positions env symbols (sort (map fst symbols))
           \<lparr>rs_keyed = [], rs_positions = [], rs_notices = [],
            rs_claimed = set (map snd known_closes)\<rparr>) (\<lambda>st.
         bind_result (other_orders env (set (map (ro_venue_order_id \<circ> snd) (rs_keyed st)))
           (snap_order snapshot) st) (\<lambda>st.
         Inr \<lparr>rec_orders = map snd (sort_key fst (rs_keyed st)),
              rec_positions = rs_positions st,
              rec_notices = rs_notices st\<rparr>)))"

definition one_position ::
    "ProtoOAReconcileRes \<Rightarrow> int \<Rightarrow> PositionHistory \<Rightarrow> (int \<Rightarrow> nat option) \<Rightarrow> (int, string) dict \<Rightarrow>
     OperationsInFlight \<Rightarrow> HeldOrders \<Rightarrow> nat \<Rightarrow> Reconciliation venue_result" where
  "one_position snapshot pid found precision known_closes operations held account_digits =
     reconcile \<lparr>snap_position = filter (\<lambda>p. vp_positionId p = pid) (snap_position snapshot),
                snap_order = filter (\<lambda>order. positionId order = pid) (snap_order snapshot)\<rparr>
       [(pid, found)] (ph_deals found) precision known_closes operations held account_digits"

end
