(* ===== verification/Execution_Reports.thy ===== *)
theory Execution_Reports
  imports Reconcile Order_Translation "HOL-Library.Product_Lexorder"
begin

text \<open>
  \<open>common/execution_reports.py\<close> and \<open>activity.py\<close>: venue records as Nautilus values and reports.
  What Nautilus' constructors hold, or that they raise \<open>ValueError\<close> (None), is the parameter record
  \<open>report_values\<close>; a report's own constructor may refuse it (\<open>accepts_order\<close>). Report ids, which
  are fresh, and the JSON text of a value are left out. A quantity or price whose rescaling raises
  \<open>InvalidOperation\<close> is not a \<open>ValueError\<close>: it leaves \<open>mass_status\<close>, as the code has it.
\<close>

subsection \<open>Values\<close>

record report_values =
  price_from :: "decimal \<Rightarrow> nat \<Rightarrow> decimal option"
  quantity_from :: "decimal \<Rightarrow> nat \<Rightarrow> decimal option"
  money_from :: "decimal \<Rightarrow> string \<Rightarrow> decimal option"

record money =
  mo_amount :: decimal
  mo_currency :: string

text \<open>An instrument as it is read here: \<open>ins_pair\<close> is the base and quote currency of a currency pair.\<close>

record traded = Instrument +
  ins_size_precision :: nat
  ins_pair :: "(string \<times> string) option"

datatype report_error =
    Does_not_fit decimal nat
  | Refused_value decimal
  | Refused_report
  | Fill_by_event
  | Not_quantized decimal
  | No_average venue_error

text \<open>The errors that are a \<open>ValueError\<close>.\<close>

fun is_value_error :: "report_error \<Rightarrow> bool" where
  "is_value_error (Not_quantized _) \<longleftrightarrow> False"
| "is_value_error (No_average _) \<longleftrightarrow> False"
| "is_value_error _ \<longleftrightarrow> True"

definition NANOS_PER_MILLI :: int where "NANOS_PER_MILLI = 1000000"

definition nanos :: "int \<Rightarrow> int" where
  "nanos ms = ms * NANOS_PER_MILLI"

definition value_held :: "decimal \<Rightarrow> decimal option \<Rightarrow> report_error + decimal" where
  "value_held x v = (case v of None \<Rightarrow> Inl (Refused_value x) | Some y \<Rightarrow> Inr y)"

text \<open>\<open>_text_at\<close>: the value the text states.\<close>

definition text_at :: "decimal \<Rightarrow> nat \<Rightarrow> report_error + decimal" where
  "text_at x precision =
     (case quantize x precision of
        None \<Rightarrow> Inl (Not_quantized x)
      | Some exact \<Rightarrow> if exact \<noteq> x then Inl (Does_not_fit x precision) else Inr exact)"

definition er_price :: "report_values \<Rightarrow> decimal \<Rightarrow> traded \<Rightarrow> report_error + decimal" where
  "er_price V x ins =
     bind_result (text_at x (ins_price_precision ins)) (\<lambda>text.
     value_held x (price_from V text (ins_price_precision ins)))"

definition er_quantity :: "report_values \<Rightarrow> decimal \<Rightarrow> traded \<Rightarrow> report_error + decimal" where
  "er_quantity V units ins =
     bind_result (text_at units (ins_size_precision ins)) (\<lambda>text.
     value_held units (quantity_from V text (ins_size_precision ins)))"

definition er_money :: "report_values \<Rightarrow> decimal \<Rightarrow> string \<Rightarrow> report_error + money" where
  "er_money V x currency =
     bind_result (value_held x (money_from V x currency)) (\<lambda>y.
     Inr \<lparr>mo_amount = y, mo_currency = currency\<rparr>)"

definition commission_of :: "report_values \<Rightarrow> Fill \<Rightarrow> string \<Rightarrow> traded \<Rightarrow> report_error + money" where
  "commission_of V fill currency ins =
     (let charge = ctx (- fill_commission fill)
      in case ins_pair ins of
           Some (base, quote) \<Rightarrow>
             if currency = base then er_money V (ctx (charge * fill_price fill)) quote
             else er_money V charge currency
         | None \<Rightarrow> er_money V charge currency)"

definition optional_er_price ::
    "report_values \<Rightarrow> decimal option \<Rightarrow> traded \<Rightarrow> report_error + decimal option" where
  "optional_er_price V x ins =
     (case x of None \<Rightarrow> Inr None | Some p \<Rightarrow> bind_result (er_price V p ins) (\<lambda>q. Inr (Some q)))"

definition ER_ORDER_TYPE :: "ExternalType \<Rightarrow> OrderType" where
  "ER_ORDER_TYPE t =
     (case t of
        Ext_MARKET \<Rightarrow> OT_MARKET
      | Ext_LIMIT \<Rightarrow> OT_LIMIT
      | Ext_STOP_MARKET \<Rightarrow> OT_STOP_MARKET
      | Ext_STOP_LIMIT \<Rightarrow> OT_STOP_LIMIT)"

definition ER_TIME_IN_FORCE :: "(ProtoOATimeInForce, TimeInForce) dict" where
  "ER_TIME_IN_FORCE = [(GOOD_TILL_CANCEL, GTC), (IMMEDIATE_OR_CANCEL, IOC), (FILL_OR_KILL, FOK),
     (MARKET_ON_OPEN, AT_THE_OPEN)]"

text \<open>\<open>_time_in_force\<close>: the expiry in milliseconds.\<close>

definition er_time_in_force ::
    "ProtoOATimeInForce option \<Rightarrow> int option \<Rightarrow> TimeInForce \<times> int option" where
  "er_time_in_force name expire_ts_ms =
     (if name = Some GOOD_TILL_DATE \<and> expire_ts_ms \<noteq> None then (GTD, expire_ts_ms)
      else (case name of None \<Rightarrow> GTC | Some n \<Rightarrow> dict_get ER_TIME_IN_FORCE n GTC, None))"

subsection \<open>Reports\<close>

datatype OrderStatus =
  St_ACCEPTED | St_PARTIALLY_FILLED | St_FILLED | St_CANCELED | St_EXPIRED | St_REJECTED

record OrderStatusReport =
  os_instrument_id :: string
  os_client_order_id :: "string option"
  os_venue_order_id :: string
  os_order_side :: ProtoOATradeSide
  os_order_type :: OrderType
  os_time_in_force :: TimeInForce
  os_order_status :: OrderStatus
  os_quantity :: decimal
  os_filled_qty :: decimal
  os_ts_accepted :: int
  os_ts_last :: int
  os_venue_position_id :: "string option"
  os_linked_order_ids :: "string list"
  os_parent_order_id :: "string option"
  os_contingency_type :: ContingencyType
  os_expire_time :: "int option"
  os_price :: "decimal option"
  os_trigger_price :: "decimal option"
  os_trigger_type :: TriggerType
  os_avg_px :: "decimal option"
  os_cancel_reason :: "string option"
  os_reduce_only :: bool

record FillReport =
  fr_instrument_id :: string
  fr_client_order_id :: "string option"
  fr_venue_order_id :: string
  fr_trade_id :: string
  fr_order_side :: ProtoOATradeSide
  fr_last_qty :: decimal
  fr_last_px :: decimal
  fr_commission :: money
  fr_ts_event :: int
  fr_venue_position_id :: string

record PositionStatusReport =
  ps_instrument_id :: string
  ps_position_side :: PositionSide
  ps_quantity :: decimal
  ps_ts_last :: int
  ps_venue_position_id :: string
  ps_avg_px_open :: decimal

text \<open>Whether the constructor of a report takes it; where it does not it raises \<open>ValueError\<close>.\<close>

definition made_order ::
    "(OrderStatusReport \<Rightarrow> bool) \<Rightarrow> OrderStatusReport \<Rightarrow> report_error + OrderStatusReport" where
  "made_order accepts_order report = (if accepts_order report then Inr report else Inl Refused_report)"

definition order_status_report ::
    "report_values \<Rightarrow> (OrderStatusReport \<Rightarrow> bool) \<Rightarrow> ExternalOrder \<Rightarrow> traded \<Rightarrow> string option \<Rightarrow>
     report_error + OrderStatusReport" where
  "order_status_report V accepts_order rec1 ins client_order_id =
     (case er_time_in_force (xo_time_in_force rec1) (xo_expire_ts_ms rec1) of (tif, expire_time) \<Rightarrow>
        bind_result (er_quantity V (xo_units rec1) ins) (\<lambda>units.
        bind_result (optional_er_price V (xo_price rec1) ins) (\<lambda>limit_price.
        bind_result (optional_er_price V (xo_trigger_price rec1) ins) (\<lambda>trigger.
        made_order accepts_order
          \<lparr>os_instrument_id = ins_id ins, os_client_order_id = client_order_id,
           os_venue_order_id = xo_venue_order_id rec1, os_order_side = xo_side rec1,
           os_order_type = ER_ORDER_TYPE (xo_order_type rec1), os_time_in_force = tif,
           os_order_status = St_ACCEPTED, os_quantity = units, os_filled_qty = 0,
           os_ts_accepted = nanos (case xo_ts_accepted_ms rec1 of None \<Rightarrow> xo_ts_ms rec1 | Some t \<Rightarrow> t),
           os_ts_last = nanos (xo_ts_ms rec1), os_venue_position_id = xo_venue_position_id rec1,
           os_linked_order_ids = [], os_parent_order_id = None,
           os_contingency_type = NO_CONTINGENCY, os_expire_time = expire_time,
           os_price = limit_price, os_trigger_price = trigger,
           os_trigger_type = (if xo_trigger_price rec1 = None then NO_TRIGGER else DEFAULT),
           os_avg_px = None, os_cancel_reason = None, os_reduce_only = xo_reduce_only rec1\<rparr>))))"

definition fill_report ::
    "report_values \<Rightarrow> Fill \<Rightarrow> string \<Rightarrow> traded \<Rightarrow> string \<Rightarrow> string option \<Rightarrow> report_error + FillReport" where
  "fill_report V fill venue_order_id ins currency client_order_id =
     bind_result (er_quantity V (fill_units fill) ins) (\<lambda>units.
     bind_result (er_price V (fill_price fill) ins) (\<lambda>px.
     bind_result (commission_of V fill currency ins) (\<lambda>charge.
     Inr \<lparr>fr_instrument_id = ins_id ins, fr_client_order_id = client_order_id,
       fr_venue_order_id = venue_order_id, fr_trade_id = trade_id fill,
       fr_order_side = fill_side fill, fr_last_qty = units, fr_last_px = px,
       fr_commission = charge, fr_ts_event = nanos (fill_ts_ms fill),
       fr_venue_position_id = fill_venue_position_id fill\<rparr>)))"

subsection \<open>An order Nautilus holds\<close>

text \<open>An attribute the order's class does not have is None, as \<open>getattr\<close> has it.\<close>

record held_order =
  hd_client_order_id :: string
  hd_venue_order_id :: string
  hd_side :: ProtoOATradeSide
  hd_order_type :: OrderType
  hd_time_in_force :: TimeInForce
  hd_quantity :: decimal
  hd_filled_qty :: decimal
  hd_ts_accepted :: int
  hd_expire_time :: "int option"
  hd_price :: "decimal option"
  hd_trigger_price :: "decimal option"
  hd_trigger_type :: TriggerType
  hd_avg_px :: decimal
  hd_is_reduce_only :: bool

definition ENDED_ORDER_STATUS :: "(OrderEventKind, OrderStatus) dict" where
  "ENDED_ORDER_STATUS =
     [(Ev_CANCELED, St_CANCELED), (Ev_EXPIRED, St_EXPIRED), (Ev_REJECTED, St_REJECTED)]"

text \<open>A value the record does not state is the order's own.\<close>

definition stated_or ::
    "(decimal \<Rightarrow> report_error + decimal) \<Rightarrow> decimal option \<Rightarrow> decimal option \<Rightarrow>
     report_error + decimal option" where
  "stated_or read held stated =
     (case stated of None \<Rightarrow> Inr held | Some x \<Rightarrow> bind_result (read x) (\<lambda>y. Inr (Some y)))"

definition held_order_report ::
    "report_values \<Rightarrow> (OrderStatusReport \<Rightarrow> bool) \<Rightarrow> held_order \<Rightarrow> OrderEvent \<Rightarrow> traded \<Rightarrow>
     report_error + OrderStatusReport" where
  "held_order_report V accepts_order order rec1 ins =
     (if oe_kind rec1 = Ev_FILLED then Inl Fill_by_event
      else
        let filled = hd_filled_qty order;
            status = (case map_of ENDED_ORDER_STATUS (oe_kind rec1) of
                        Some s \<Rightarrow> s
                      | None \<Rightarrow> if 0 < filled then St_PARTIALLY_FILLED else St_ACCEPTED)
        in
        bind_result (case oe_quantity rec1 of None \<Rightarrow> Inr (hd_quantity order) | Some u \<Rightarrow> er_quantity V u ins) (\<lambda>units.
        bind_result (stated_or (\<lambda>x. er_price V x ins) (hd_price order) (oe_price rec1)) (\<lambda>limit_price.
        bind_result (stated_or (\<lambda>x. er_price V x ins) (hd_trigger_price order) (oe_trigger_price rec1)) (\<lambda>trigger.
        made_order accepts_order
          \<lparr>os_instrument_id = ins_id ins, os_client_order_id = Some (hd_client_order_id order),
           os_venue_order_id = hd_venue_order_id order, os_order_side = hd_side order,
           os_order_type = hd_order_type order, os_time_in_force = hd_time_in_force order,
           os_order_status = status, os_quantity = units, os_filled_qty = filled,
           os_ts_accepted = hd_ts_accepted order, os_ts_last = nanos (oe_ts_ms rec1),
           os_venue_position_id = None, os_linked_order_ids = [], os_parent_order_id = None,
           os_contingency_type = NO_CONTINGENCY, os_expire_time = hd_expire_time order,
           os_price = limit_price, os_trigger_price = trigger, os_trigger_type = hd_trigger_type order,
           os_avg_px = (if filled = 0 then None else Some (hd_avg_px order)),
           os_cancel_reason = oe_reason rec1, os_reduce_only = hd_is_reduce_only order\<rparr>))))"

definition changes_terms :: "held_order \<Rightarrow> OrderStatusReport \<Rightarrow> bool" where
  "changes_terms order report \<longleftrightarrow>
     os_filled_qty report = hd_filled_qty order \<and>
     (os_quantity report \<noteq> hd_quantity order \<or>
      hd_price order \<noteq> None \<and> os_price report \<noteq> None \<and> os_price report \<noteq> hd_price order \<or>
      hd_trigger_price order \<noteq> None \<and> os_trigger_price report \<noteq> None \<and>
        os_trigger_price report \<noteq> hd_trigger_price order)"

subsection \<open>Reconciliation records\<close>

definition ER_CONTINGENCY :: "Contingency \<Rightarrow> ContingencyType" where
  "ER_CONTINGENCY c = (case c of Contingency.OTO \<Rightarrow> ContingencyType.OTO | Contingency.OUO \<Rightarrow> ContingencyType.OUO)"

definition er_status :: "ReportStatus \<Rightarrow> OrderStatus" where
  "er_status s =
     (case s of
        Rep_ACCEPTED \<Rightarrow> St_ACCEPTED
      | Rep_PARTIALLY_FILLED \<Rightarrow> St_PARTIALLY_FILLED
      | Rep_FILLED \<Rightarrow> St_FILLED
      | Rep_CANCELED \<Rightarrow> St_CANCELED
      | Rep_EXPIRED \<Rightarrow> St_EXPIRED
      | Rep_REJECTED \<Rightarrow> St_REJECTED)"

fun fill_reports_of ::
    "report_values \<Rightarrow> string \<Rightarrow> traded \<Rightarrow> string \<Rightarrow> string option \<Rightarrow> Fill list \<Rightarrow>
     report_error + FillReport list" where
  "fill_reports_of V venue_order_id ins currency client_order_id [] = Inr []"
| "fill_reports_of V venue_order_id ins currency client_order_id (fill # fills) =
     bind_result (fill_report V fill venue_order_id ins currency client_order_id) (\<lambda>report.
     bind_result (fill_reports_of V venue_order_id ins currency client_order_id fills) (\<lambda>reports.
     Inr (report # reports)))"

definition reported_order ::
    "report_values \<Rightarrow> (OrderStatusReport \<Rightarrow> bool) \<Rightarrow> ReportedOrder \<Rightarrow> traded \<Rightarrow> string \<Rightarrow>
     report_error + OrderStatusReport \<times> FillReport list" where
  "reported_order V accepts_order rec1 ins currency =
     (case er_time_in_force (ro_time_in_force rec1) (ro_expire_ts_ms rec1) of (tif, expire_time) \<Rightarrow>
      let linked = ro_linked_order_ids rec1;
          contingency = (case ro_contingency rec1 of
                           Some c \<Rightarrow> if linked \<noteq> [] then ER_CONTINGENCY c else NO_CONTINGENCY
                         | None \<Rightarrow> NO_CONTINGENCY);
          triggered = ro_order_type rec1 = Ext_STOP_MARKET \<or> ro_order_type rec1 = Ext_STOP_LIMIT
      in
        bind_result (er_quantity V (ro_units rec1) ins) (\<lambda>units.
        bind_result (er_quantity V (ro_filled_units rec1) ins) (\<lambda>filled.
        bind_result (optional_er_price V (ro_price rec1) ins) (\<lambda>limit_price.
        bind_result (optional_er_price V (ro_trigger_price rec1) ins) (\<lambda>trigger.
        bind_result (made_order accepts_order
          \<lparr>os_instrument_id = ins_id ins, os_client_order_id = ro_client_order_id rec1,
           os_venue_order_id = ro_venue_order_id rec1, os_order_side = ro_side rec1,
           os_order_type = ER_ORDER_TYPE (ro_order_type rec1), os_time_in_force = tif,
           os_order_status = er_status (ro_status rec1), os_quantity = units, os_filled_qty = filled,
           os_ts_accepted = nanos (ro_ts_accepted_ms rec1), os_ts_last = nanos (ro_ts_ms rec1),
           os_venue_position_id = ro_venue_position_id rec1, os_linked_order_ids = linked,
           os_parent_order_id = ro_parent_order_id rec1, os_contingency_type = contingency,
           os_expire_time = expire_time, os_price = limit_price, os_trigger_price = trigger,
           os_trigger_type = (if triggered then DEFAULT else NO_TRIGGER),
           os_avg_px = (if ro_fills rec1 \<noteq> [] then ro_avg_price rec1 else None),
           os_cancel_reason = None, os_reduce_only = ro_reduce_only rec1\<rparr>) (\<lambda>report.
        bind_result (fill_reports_of V (ro_venue_order_id rec1) ins currency (ro_client_order_id rec1)
          (ro_fills rec1)) (\<lambda>fills. Inr (report, fills))))))))"

definition position_report ::
    "report_values \<Rightarrow> ReportedPosition \<Rightarrow> traded \<Rightarrow> report_error + PositionStatusReport" where
  "position_report V rec1 ins =
     bind_result (er_quantity V (rq_units rec1) ins) (\<lambda>units.
     Inr \<lparr>ps_instrument_id = ins_id ins, ps_position_side = (if rq_side rec1 = BUY then LONG else SHORT),
       ps_quantity = units, ps_ts_last = nanos (rq_ts_ms rec1),
       ps_venue_position_id = rq_venue_position_id rec1, ps_avg_px_open = rq_avg_price rec1\<rparr>)"

text \<open>\<open>_priced\<close>: None is a record with no price to report it at.\<close>

definition price_known ::
    "ReportedOrder \<Rightarrow> (string \<Rightarrow> decimal option) \<Rightarrow> (string \<Rightarrow> string option) \<Rightarrow> nat \<Rightarrow>
     report_error + decimal option" where
  "price_known rec1 held_price known_id precision =
     (let client_order_id = (case ro_client_order_id rec1 of
                               Some i \<Rightarrow> if i = '''' then known_id (ro_venue_order_id rec1) else Some i
                             | None \<Rightarrow> known_id (ro_venue_order_id rec1));
          held = (case client_order_id of None \<Rightarrow> None | Some i \<Rightarrow> held_price i)
      in case held of
           Some p \<Rightarrow> Inr (Some p)
         | None \<Rightarrow> (case average_price (ro_fills rec1) precision of Inl e \<Rightarrow> Inl (No_average e) | Inr p \<Rightarrow> Inr p))"

definition priced ::
    "ReportedOrder \<Rightarrow> (string \<Rightarrow> decimal option) \<Rightarrow> (string \<Rightarrow> string option) \<Rightarrow> nat \<Rightarrow>
     report_error + ReportedOrder option" where
  "priced rec1 held_price known_id precision =
     (if ro_order_type rec1 = Ext_LIMIT \<and> ro_price rec1 = None
      then bind_result (price_known rec1 held_price known_id precision)
             (\<lambda>p. Inr (case p of None \<Rightarrow> None | Some x \<Rightarrow> Some (rec1\<lparr>ro_price := Some x\<rparr>)))
      else if ro_order_type rec1 = Ext_STOP_MARKET \<and> ro_trigger_price rec1 = None
      then bind_result (price_known rec1 held_price known_id precision)
             (\<lambda>p. Inr (case p of None \<Rightarrow> None | Some x \<Rightarrow> Some (rec1\<lparr>ro_trigger_price := Some x\<rparr>)))
      else if ro_order_type rec1 = Ext_STOP_LIMIT \<and> (ro_price rec1 = None \<or> ro_trigger_price rec1 = None)
      then Inr None
      else Inr (Some rec1))"

subsection \<open>The mass status\<close>

datatype misfit_reason = Order_reason string report_error | Position_reason report_error

datatype misfit =
    Order_misfit string string report_error
  | Position_misfit string string "misfit_reason list"

datatype mass_error = Report_failed report_error | Misfit_refused misfit

type_synonym built_order = "ReportedOrder \<times> traded \<times> OrderStatusReport \<times> FillReport list"

text \<open>\<open>gone\<close>, \<open>unfit\<close>, \<open>unfit_on\<close>, \<open>built\<close> and \<open>positions\<close>, and the calls of \<open>misfit\<close> so far.\<close>

record building =
  bu_gone :: "string option list"
  bu_unfit :: "(string, misfit_reason list) dict"
  bu_unfit_on :: "(string, string) dict"
  bu_built :: "built_order list"
  bu_positions :: "(string \<times> PositionStatusReport) list"
  bu_misfits :: "misfit list"

record mass_status =
  ms_orders :: "OrderStatusReport list"
  ms_fills :: "FillReport list"
  ms_positions :: "PositionStatusReport list"
  ms_left_out :: "ReportedOrder list"
  ms_misfits :: "misfit list"

record mass_inputs =
  mi_values :: report_values
  mi_accepts_order :: "OrderStatusReport \<Rightarrow> bool"
  mi_instrument_for :: "int \<Rightarrow> traded option"
  mi_currency :: string
  mi_held_price :: "string \<Rightarrow> decimal option"
  mi_known_id :: "string \<Rightarrow> string option"
  mi_refuse :: bool

text \<open>\<open>mi_refuse\<close> is the default callback, which raises; the other says it and goes on.\<close>

definition tell_misfit :: "mass_inputs \<Rightarrow> misfit \<Rightarrow> building \<Rightarrow> mass_error + building" where
  "tell_misfit M m b =
     (if mi_refuse M then Inl (Misfit_refused m) else Inr (b\<lparr>bu_misfits := bu_misfits b @ [m]\<rparr>))"

fun keep_priced ::
    "mass_inputs \<Rightarrow> ReportedOrder list \<Rightarrow>
     mass_error + (ReportedOrder \<times> traded) list \<times> ReportedOrder list" where
  "keep_priced M [] = Inr ([], [])"
| "keep_priced M (rec1 # records) =
     (case mi_instrument_for M (ro_symbol_id rec1) of
        None \<Rightarrow> keep_priced M records
      | Some ins \<Rightarrow>
          (case priced rec1 (mi_held_price M) (mi_known_id M) (ins_price_precision ins) of
             Inl e \<Rightarrow> Inl (Report_failed e)
           | Inr p \<Rightarrow>
               bind_result (keep_priced M records) (\<lambda>(kept, left_out).
               Inr (case p of
                      None \<Rightarrow> (kept, rec1 # left_out)
                    | Some q \<Rightarrow> ((q, ins) # kept, left_out)))))"

definition order_name :: "ReportedOrder \<Rightarrow> string" where
  "order_name rec1 =
     (case ro_client_order_id rec1 of
        Some i \<Rightarrow> if i = '''' then ro_venue_order_id rec1 else i
      | None \<Rightarrow> ro_venue_order_id rec1)"

definition not_fitting :: "string \<Rightarrow> string \<Rightarrow> misfit_reason \<Rightarrow> building \<Rightarrow> building" where
  "not_fitting position ins_name reason b =
     b\<lparr>bu_unfit := AList.update position (dict_get (bu_unfit b) position [] @ [reason]) (bu_unfit b),
       bu_unfit_on := AList.update position ins_name (bu_unfit_on b)\<rparr>"

definition build_order ::
    "mass_inputs \<Rightarrow> ReportedOrder \<times> traded \<Rightarrow> building \<Rightarrow> mass_error + building" where
  "build_order M kept b =
     (case kept of (rec1, ins) \<Rightarrow>
        (case reported_order (mi_values M) (mi_accepts_order M) rec1 ins (mi_currency M) of
           Inr (report, fills) \<Rightarrow> Inr (b\<lparr>bu_built := bu_built b @ [(rec1, ins, report, fills)]\<rparr>)
         | Inl e \<Rightarrow>
             if \<not> is_value_error e then Inl (Report_failed e)
             else
               (let b = b\<lparr>bu_gone := bu_gone b @ [ro_client_order_id rec1]\<rparr>
                in case ro_venue_position_id rec1 of
                     None \<Rightarrow> tell_misfit M (Order_misfit (order_name rec1) (ins_id ins) e) b
                   | Some position \<Rightarrow>
                       Inr (not_fitting position (ins_id ins) (Order_reason (order_name rec1) e) b))))"

definition build_position ::
    "mass_inputs \<Rightarrow> ReportedPosition \<Rightarrow> building \<Rightarrow> mass_error + building" where
  "build_position M rec1 b =
     (case mi_instrument_for M (rq_symbol_id rec1) of
        None \<Rightarrow> Inr b
      | Some ins \<Rightarrow>
          (case position_report (mi_values M) rec1 ins of
             Inr report \<Rightarrow>
               Inr (b\<lparr>bu_positions := bu_positions b @ [(rq_venue_position_id rec1, report)]\<rparr>)
           | Inl e \<Rightarrow>
               if is_value_error e
               then Inr (not_fitting (rq_venue_position_id rec1) (ins_id ins) (Position_reason e) b)
               else Inl (Report_failed e)))"

text \<open>A \<open>for\<close> loop whose body may raise.\<close>

fun each_raising :: "('a \<Rightarrow> 'b \<Rightarrow> 'e + 'b) \<Rightarrow> 'a list \<Rightarrow> 'b \<Rightarrow> 'e + 'b" where
  "each_raising f [] b = Inr b"
| "each_raising f (x # xs) b = bind_result (f x b) (each_raising f xs)"

definition tell_unfit ::
    "mass_inputs \<Rightarrow> string \<times> misfit_reason list \<Rightarrow> building \<Rightarrow> mass_error + building" where
  "tell_unfit M unfit b =
     (case unfit of (position, reasons) \<Rightarrow>
        tell_misfit M (Position_misfit position (dict_get (bu_unfit_on b) position '''') reasons) b)"

definition is_unfit :: "building \<Rightarrow> string option \<Rightarrow> bool" where
  "is_unfit b position \<longleftrightarrow> (case position of None \<Rightarrow> False | Some p \<Rightarrow> map_of (bu_unfit b) p \<noteq> None)"

definition unlinked :: "string option list \<Rightarrow> ReportedOrder \<Rightarrow> ReportedOrder" where
  "unlinked gone rec1 =
     rec1\<lparr>ro_linked_order_ids := filter (\<lambda>i. Some i \<notin> set gone) (ro_linked_order_ids rec1),
       ro_parent_order_id :=
         (if ro_parent_order_id rec1 \<in> set gone then None else ro_parent_order_id rec1)\<rparr>"

definition relinked ::
    "mass_inputs \<Rightarrow> string option list \<Rightarrow> built_order \<Rightarrow>
     mass_error + OrderStatusReport \<times> FillReport list" where
  "relinked M gone built =
     (case built of (rec1, ins, report, fills) \<Rightarrow>
        if ro_linked_order_ids (unlinked gone rec1) \<noteq> ro_linked_order_ids rec1 \<or>
           ro_parent_order_id (unlinked gone rec1) \<noteq> ro_parent_order_id rec1
        then (case reported_order (mi_values M) (mi_accepts_order M) (unlinked gone rec1) ins (mi_currency M) of
                Inl e \<Rightarrow> Inl (Report_failed e)
              | Inr r \<Rightarrow> Inr r)
        else Inr (report, fills))"

fun told_orders ::
    "mass_inputs \<Rightarrow> (string option \<Rightarrow> bool) \<Rightarrow> string option list \<Rightarrow> built_order list \<Rightarrow>
     mass_error + OrderStatusReport list \<times> FillReport list" where
  "told_orders M unfit gone [] = Inr ([], [])"
| "told_orders M unfit gone (built # others) =
     (if unfit (ro_venue_position_id (fst built)) then told_orders M unfit gone others
      else bind_result (relinked M gone built) (\<lambda>(report, fills).
           bind_result (told_orders M unfit gone others) (\<lambda>(order_reports, fill_reports).
           Inr (report # order_reports, fills @ fill_reports))))"

definition nothing_built :: "ReportedOrder list \<Rightarrow> building" where
  "nothing_built left_out =
     \<lparr>bu_gone = map ro_client_order_id left_out, bu_unfit = [], bu_unfit_on = [], bu_built = [],
      bu_positions = [], bu_misfits = []\<rparr>"

definition gone_of :: "building \<Rightarrow> string option list" where
  "gone_of b = bu_gone b @
     map (ro_client_order_id \<circ> fst) (filter (\<lambda>built. is_unfit b (ro_venue_position_id (fst built))) (bu_built b))"

definition mass_status_of :: "mass_inputs \<Rightarrow> Reconciliation \<Rightarrow> mass_error + mass_status" where
  "mass_status_of M reconciliation =
     bind_result (keep_priced M (rec_orders reconciliation)) (\<lambda>(kept, left_out).
     bind_result (each_raising (build_order M) kept (nothing_built left_out)) (\<lambda>b.
     bind_result (each_raising (build_position M) (rec_positions reconciliation) b) (\<lambda>b.
     bind_result (each_raising (tell_unfit M) (bu_unfit b) b) (\<lambda>b.
     bind_result (told_orders M (is_unfit b) (gone_of b) (bu_built b)) (\<lambda>(order_reports, fill_reports).
     Inr \<lparr>ms_orders = order_reports, ms_fills = fill_reports,
       ms_positions = map snd (filter (\<lambda>(position, report). \<not> is_unfit b (Some position)) (bu_positions b)),
       ms_left_out = left_out, ms_misfits = bu_misfits b\<rparr>)))))"

subsection \<open>What is published\<close>

definition subject_text :: "subject \<Rightarrow> string" where
  "subject_text s = (case s of Subject_order \<Rightarrow> ''order'' | Subject_position \<Rightarrow> ''position'')"

definition side_text :: "ProtoOATradeSide \<Rightarrow> string" where
  "side_text s = (case s of BUY \<Rightarrow> ''BUY'' | SELL \<Rightarrow> ''SELL'')"

text \<open>The rows of \<open>exposure_json\<close> and \<open>venue_positions_json\<close>, in the order they are printed.\<close>

definition exposure_rows ::
    "Exposure list \<Rightarrow> (int \<Rightarrow> string) \<Rightarrow> (string \<times> string \<times> string \<times> decimal) list" where
  "exposure_rows items symbol_name =
     sort (map (\<lambda>item. (symbol_name (ex_symbol_id item), subject_text (ex_subject item),
                        side_text (ex_side item), ex_units item)) items)"

definition venue_position_rows ::
    "OpenPosition list \<Rightarrow> (int \<Rightarrow> string) \<Rightarrow> (string \<times> string \<times> string \<times> decimal) list" where
  "venue_position_rows held symbol_name =
     map (\<lambda>position. (int_text (op_position_id position), symbol_name (op_symbol_id position),
                      (if op_side position = BUY then ''LONG'' else ''SHORT''), ctx (op_units position))) held"

record CTraderAccountActivity =
  aa_kind :: ActivityKind
  aa_symbol :: string
  aa_subject :: subject
  aa_side :: ProtoOATradeSide
  aa_volume :: decimal
  aa_action :: Action
  aa_ts_event :: int
  aa_ts_init :: int

definition account_activity :: "Activity \<Rightarrow> string \<Rightarrow> int \<Rightarrow> CTraderAccountActivity" where
  "account_activity rec1 symbol ts_init =
     \<lparr>aa_kind = ac_kind rec1, aa_symbol = symbol, aa_subject = ac_subject rec1, aa_side = ac_side rec1,
      aa_volume = ac_units rec1, aa_action = ac_action rec1, aa_ts_event = nanos (ac_ts_ms rec1),
      aa_ts_init = ts_init\<rparr>"

record AccountState =
  as_currency :: string
  as_total :: money
  as_locked :: money
  as_free :: money
  as_margins :: "(string option \<times> money) list"
  as_ts_event :: int
  as_ts_init :: int

fun er_margins ::
    "report_values \<Rightarrow> string \<Rightarrow> (string option \<times> decimal) list \<Rightarrow>
     report_error + (string option \<times> money) list" where
  "er_margins V currency [] = Inr []"
| "er_margins V currency ((ins, margin) # margins) =
     bind_result (er_money V margin currency) (\<lambda>m.
     bind_result (er_margins V currency margins) (\<lambda>ms. Inr ((ins, m) # ms)))"

text \<open>Margins by instrument name, those of no instrument last.\<close>

definition margin_key :: "string option \<times> decimal \<Rightarrow> bool \<times> string" where
  "margin_key item = (case fst item of None \<Rightarrow> (True, ''None'') | Some i \<Rightarrow> (False, i))"

definition account_state ::
    "report_values \<Rightarrow> string \<Rightarrow> decimal \<Rightarrow> (string option, decimal) dict \<Rightarrow> int \<Rightarrow> int \<Rightarrow>
     report_error + AccountState" where
  "account_state V currency balance margins ts_event ts_init =
     bind_result (er_money V balance currency) (\<lambda>total.
     bind_result (er_money V 0 currency) (\<lambda>locked.
     bind_result (er_margins V currency (sort_key margin_key margins)) (\<lambda>ms.
     Inr \<lparr>as_currency = currency, as_total = total, as_locked = locked, as_free = total,
       as_margins = ms, as_ts_event = ts_event, as_ts_init = ts_init\<rparr>)))"

end
