(* ===== verification/Execution_Promises.thy ===== *)
theory Execution_Promises
  imports Execution_Reports
begin

text \<open>
  What the mass status of \<open>Execution_Reports\<close> keeps of the reconciliation records it is made from: no
  order names one that is not there, a position's records go together, and where nothing misfits
  every order, fill and position is told with exactly its own size and price.
\<close>

subsection \<open>The records kept\<close>

definition priced_for :: "mass_inputs \<Rightarrow> ReportedOrder \<Rightarrow> ReportedOrder option option" where
  "priced_for M rec1 =
     (case mi_instrument_for M (ro_symbol_id rec1) of
        None \<Rightarrow> None
      | Some ins \<Rightarrow>
          (case priced rec1 (mi_held_price M) (mi_known_id M) (ins_price_precision ins) of
             Inl e \<Rightarrow> None | Inr p \<Rightarrow> Some p))"

definition kept_of :: "mass_inputs \<Rightarrow> ReportedOrder \<Rightarrow> (ReportedOrder \<times> traded) option" where
  "kept_of M rec1 =
     (case (mi_instrument_for M (ro_symbol_id rec1), priced_for M rec1) of
        (Some ins, Some (Some q)) \<Rightarrow> Some (q, ins) | _ \<Rightarrow> None)"

lemma keep_priced_parts:
  "keep_priced M records = Inr (kept, left_out) \<Longrightarrow>
   kept = List.map_filter (kept_of M) records \<and>
   left_out = filter (\<lambda>r. priced_for M r = Some None) records \<and>
   (\<forall>r\<in>set records. mi_instrument_for M (ro_symbol_id r) \<noteq> None \<longrightarrow> priced_for M r \<noteq> None)"
proof (induction records arbitrary: kept left_out)
  case (Cons rec1 records)
  show ?case
  proof (cases "mi_instrument_for M (ro_symbol_id rec1)")
    case None
    with Cons show ?thesis by (simp add: kept_of_def priced_for_def List.map_filter_simps)
  next
    case (Some ins)
    with Cons.prems obtain p kept' left_out' where
      p: "priced rec1 (mi_held_price M) (mi_known_id M) (ins_price_precision ins) = Inr p"
      and rest: "keep_priced M records = Inr (kept', left_out')"
      and eq: "(kept, left_out) = (case p of None \<Rightarrow> (kept', rec1 # left_out') | Some q \<Rightarrow> ((q, ins) # kept', left_out'))"
      by (auto simp: bind_result_Inr split: sum.splits option.splits)
    have f: "priced_for M rec1 = Some p" by (simp add: priced_for_def Some p)
    from Cons.IH [OF rest] f eq Some show ?thesis
      by (cases p) (simp_all add: kept_of_def List.map_filter_simps)
  qed
qed (simp add: List.map_filter_simps)

text \<open>A record with its price is the record, but for the price it lacked.\<close>

lemma priced_cases:
  assumes "priced r held known n = Inr (Some q)"
  obtains (same) "q = r" | (limit) x where "ro_price r = None" "q = r\<lparr>ro_price := Some x\<rparr>"
    | (stop) x where "ro_trigger_price r = None" "q = r\<lparr>ro_trigger_price := Some x\<rparr>"
proof (cases "ro_order_type r = Ext_LIMIT \<and> ro_price r = None")
  case True
  with assms limit show ?thesis by (auto simp: priced_def bind_result_Inr split: option.splits)
next
  case no_limit: False
  show ?thesis
  proof (cases "ro_order_type r = Ext_STOP_MARKET \<and> ro_trigger_price r = None")
    case True
    with no_limit assms stop show ?thesis by (auto simp: priced_def bind_result_Inr split: option.splits)
  next
    case False
    with no_limit assms have "q = r" unfolding priced_def by (simp split: if_splits)
    with same show ?thesis by blast
  qed
qed

lemma priced_same:
  assumes "priced r held known n = Inr (Some q)"
  shows "\<exists>p t. q = r\<lparr>ro_price := p, ro_trigger_price := t\<rparr> \<and> (ro_price r \<noteq> None \<longrightarrow> p = ro_price r) \<and>
    (ro_trigger_price r \<noteq> None \<longrightarrow> t = ro_trigger_price r)"
  using assms
proof (cases rule: priced_cases)
  case same
  then show ?thesis by (intro exI [of _ "ro_price r"] exI [of _ "ro_trigger_price r"]) simp
next
  case (limit x)
  then show ?thesis by (intro exI [of _ "Some x"] exI [of _ "ro_trigger_price r"]) simp
next
  case (stop x)
  then show ?thesis by (intro exI [of _ "ro_price r"] exI [of _ "Some x"]) simp
qed

text \<open>The prices the type of an order needs.\<close>

definition has_its_prices :: "ExternalType \<Rightarrow> decimal option \<Rightarrow> decimal option \<Rightarrow> bool" where
  "has_its_prices t p trigger \<longleftrightarrow>
     (t = Ext_LIMIT \<or> t = Ext_STOP_LIMIT \<longrightarrow> p \<noteq> None) \<and>
     (t = Ext_STOP_MARKET \<or> t = Ext_STOP_LIMIT \<longrightarrow> trigger \<noteq> None)"

lemma priced_has:
  "priced r held known n = Inr (Some q) \<Longrightarrow> has_its_prices (ro_order_type q) (ro_price q) (ro_trigger_price q)"
  by (cases "ro_order_type r")
     (auto simp: priced_def has_its_prices_def bind_result_Inr split: if_splits option.splits)

lemma kept_of_Some:
  assumes "kept_of M r = Some (q, ins)"
  shows "mi_instrument_for M (ro_symbol_id r) = Some ins"
    "\<exists>p t. q = r\<lparr>ro_price := p, ro_trigger_price := t\<rparr> \<and> (ro_price r \<noteq> None \<longrightarrow> p = ro_price r) \<and>
       (ro_trigger_price r \<noteq> None \<longrightarrow> t = ro_trigger_price r)"
    "has_its_prices (ro_order_type q) (ro_price q) (ro_trigger_price q)"
proof -
  from assms obtain held known n where p: "priced r held known n = Inr (Some q)"
    and i: "mi_instrument_for M (ro_symbol_id r) = Some ins"
    by (auto simp: kept_of_def priced_for_def split: option.splits sum.splits)
  from i show "mi_instrument_for M (ro_symbol_id r) = Some ins" .
  from priced_same [OF p] show "\<exists>p t. q = r\<lparr>ro_price := p, ro_trigger_price := t\<rparr> \<and>
    (ro_price r \<noteq> None \<longrightarrow> p = ro_price r) \<and> (ro_trigger_price r \<noteq> None \<longrightarrow> t = ro_trigger_price r)" .
  from priced_has [OF p] show "has_its_prices (ro_order_type q) (ro_price q) (ro_trigger_price q)" .
qed

lemma kept_of_frame:
  assumes "kept_of M r = Some (q, ins)"
  shows "ro_client_order_id q = ro_client_order_id r" "ro_venue_order_id q = ro_venue_order_id r"
    "ro_venue_position_id q = ro_venue_position_id r" "ro_fills q = ro_fills r" "ro_units q = ro_units r"
    "ro_filled_units q = ro_filled_units r" "ro_linked_order_ids q = ro_linked_order_ids r"
    "ro_parent_order_id q = ro_parent_order_id r" "ro_symbol_id q = ro_symbol_id r" "ro_side q = ro_side r"
  using kept_of_Some(2) [OF assms] by auto

text \<open>
  A record with no price to report it at: its type needs a price it does not state, and there is
  nothing to take it from. A stop-limit order has two prices, neither of which is taken from
  elsewhere; another takes the price Nautilus holds for it, else the average of its fills.
\<close>

definition id_in_nautilus :: "mass_inputs \<Rightarrow> ReportedOrder \<Rightarrow> string option" where
  "id_in_nautilus M r =
     (if ro_client_order_id r = None \<or> ro_client_order_id r = Some [] then mi_known_id M (ro_venue_order_id r)
      else ro_client_order_id r)"

definition unpriceable :: "mass_inputs \<Rightarrow> ReportedOrder \<Rightarrow> bool" where
  "unpriceable M r \<longleftrightarrow>
     \<not> has_its_prices (ro_order_type r) (ro_price r) (ro_trigger_price r) \<and>
     (ro_order_type r = Ext_STOP_LIMIT \<or>
      Option.bind (id_in_nautilus M r) (mi_held_price M) = None \<and> sum_units (ro_fills r) = 0)"

lemma average_price_none:
  "average_price fills n = Inr a \<Longrightarrow> a = None \<longleftrightarrow> sum_units fills = 0"
  by (cases "sum_units fills = 0") (force simp: average_price_def Let_def split: option.splits)+

lemma price_known_none:
  assumes "price_known r (mi_held_price M) (mi_known_id M) n = Inr a"
  shows "a = None \<longleftrightarrow>
    Option.bind (id_in_nautilus M r) (mi_held_price M) = None \<and> sum_units (ro_fills r) = 0"
  using assms average_price_none
  by (auto simp: price_known_def id_in_nautilus_def Let_def split: option.splits sum.splits if_splits)

lemma priced_none:
  assumes "priced r (mi_held_price M) (mi_known_id M) n = Inr p"
  shows "p = None \<longleftrightarrow> unpriceable M r"
  using assms price_known_none [of r M n]
  by (cases "ro_order_type r")
     (auto simp: priced_def unpriceable_def has_its_prices_def bind_result_Inr split: if_splits option.splits)

lemma left_out_exactly:
  assumes "keep_priced M records = Inr (kept, left_out)"
  shows "left_out = filter (\<lambda>r. mi_instrument_for M (ro_symbol_id r) \<noteq> None \<and> unpriceable M r) records"
proof -
  note k = keep_priced_parts [OF assms]
  have "priced_for M r = Some None \<longleftrightarrow> mi_instrument_for M (ro_symbol_id r) \<noteq> None \<and> unpriceable M r"
    if r: "r \<in> set records" for r
  proof (cases "mi_instrument_for M (ro_symbol_id r)")
    case (Some ins)
    with k r obtain p where p: "priced_for M r = Some p" by auto
    then have "priced r (mi_held_price M) (mi_known_id M) (ins_price_precision ins) = Inr p"
      using Some by (auto simp: priced_for_def split: sum.splits)
    from priced_none [OF this] p Some show ?thesis by auto
  qed (simp add: priced_for_def)
  with k show ?thesis by (auto intro: filter_cong)
qed

text \<open>Every record of a loaded symbol is kept or left out.\<close>

lemma kept_or_left_out:
  assumes "keep_priced M records = Inr (kept, left_out)" and "r \<in> set records"
    and "mi_instrument_for M (ro_symbol_id r) \<noteq> None"
  shows "r \<in> set left_out \<or> (\<exists>q ins. kept_of M r = Some (q, ins) \<and> (q, ins) \<in> set kept)"
proof -
  note k = keep_priced_parts [OF assms(1)]
  then obtain p where p: "priced_for M r = Some p" using assms(2,3) by auto
  show ?thesis
  proof (cases p)
    case None
    with p k assms(2) show ?thesis by simp
  next
    case (Some q)
    with p assms(3) obtain ins where e: "kept_of M r = Some (q, ins)" by (auto simp: kept_of_def)
    have "set kept = {x. \<exists>r\<in>set records. kept_of M r = Some x}"
      using k by (simp add: List.map_filter_def image_def) (force split: option.splits)
    with e assms(2) show ?thesis by blast
  qed
qed

lemma kept_from:
  assumes "keep_priced M records = Inr (kept, left_out)" and "(q, ins) \<in> set kept"
  shows "\<exists>r\<in>set records. kept_of M r = Some (q, ins)"
  using keep_priced_parts [OF assms(1)] assms(2)
  by (auto simp: List.map_filter_def)

subsection \<open>The reports built\<close>

definition report_of :: "mass_inputs \<Rightarrow> ReportedOrder \<times> traded \<Rightarrow> report_error + OrderStatusReport \<times> FillReport list" where
  "report_of M kept = reported_order (mi_values M) (mi_accepts_order M) (fst kept) (snd kept) (mi_currency M)"

text \<open>What a step of the loops leaves: more built, more gone, more said, and the unfit stay unfit.\<close>

definition built_on :: "building \<Rightarrow> building \<Rightarrow> bool" where
  "built_on b b' \<longleftrightarrow> set (bu_gone b) \<subseteq> set (bu_gone b') \<and> set (bu_built b) \<subseteq> set (bu_built b') \<and>
     set (bu_positions b) \<subseteq> set (bu_positions b') \<and> set (bu_misfits b) \<subseteq> set (bu_misfits b') \<and>
     (\<forall>p. is_unfit b p \<longrightarrow> is_unfit b' p)"

lemma built_on_refl: "built_on b b"
  by (simp add: built_on_def)

lemma built_on_trans: "built_on b b' \<Longrightarrow> built_on b' b'' \<Longrightarrow> built_on b b''"
  unfolding built_on_def by blast

lemma is_unfit_frame [simp]:
  "is_unfit (b\<lparr>bu_positions := ps\<rparr>) = is_unfit b"
  "is_unfit (b\<lparr>bu_built := bs\<rparr>) = is_unfit b"
  "is_unfit (b\<lparr>bu_gone := gs\<rparr>) = is_unfit b"
  "is_unfit (b\<lparr>bu_misfits := ms\<rparr>) = is_unfit b"
  by (rule ext, simp add: is_unfit_def split: option.split)+

lemma not_fitting_on: "built_on b (not_fitting p i reason b)"
  by (auto simp: built_on_def not_fitting_def is_unfit_def dict_simps split: option.splits)

lemma not_fitting_unfit: "is_unfit (not_fitting p i reason b) (Some p)"
  by (simp add: not_fitting_def is_unfit_def dict_simps)

lemma tell_misfit_Inr:
  "tell_misfit M m b = Inr b' \<longleftrightarrow> \<not> mi_refuse M \<and> b' = b\<lparr>bu_misfits := bu_misfits b @ [m]\<rparr>"
  by (auto simp: tell_misfit_def)

lemma build_order_Inr:
  assumes "build_order M kept b = Inr b'"
  shows "built_on b b'"
    "report_of M kept = Inr (report, fills) \<Longrightarrow> b' = b\<lparr>bu_built := bu_built b @ [(fst kept, snd kept, report, fills)]\<rparr>"
    "report_of M kept = Inl e \<Longrightarrow> ro_client_order_id (fst kept) \<in> set (bu_gone b') \<and> bu_built b' = bu_built b \<and>
      (case ro_venue_position_id (fst kept) of
         None \<Rightarrow> Order_misfit (order_name (fst kept)) (ins_id (snd kept)) e \<in> set (bu_misfits b')
       | Some p \<Rightarrow> is_unfit b' (Some p))"
    "bu_positions b' = bu_positions b"
proof -
  obtain rec1 ins where k: "kept = (rec1, ins)" by force
  show "built_on b b'" "bu_positions b' = bu_positions b"
    using assms k
    by (auto simp: build_order_def tell_misfit_Inr built_on_def not_fitting_def is_unfit_def dict_simps Let_def
        split: sum.splits option.splits if_splits)
  show "report_of M kept = Inr (report, fills) \<Longrightarrow> b' = b\<lparr>bu_built := bu_built b @ [(fst kept, snd kept, report, fills)]\<rparr>"
    using assms k by (simp add: build_order_def report_of_def)
  assume "report_of M kept = Inl e"
  with assms k show "ro_client_order_id (fst kept) \<in> set (bu_gone b') \<and> bu_built b' = bu_built b \<and>
      (case ro_venue_position_id (fst kept) of
         None \<Rightarrow> Order_misfit (order_name (fst kept)) (ins_id (snd kept)) e \<in> set (bu_misfits b')
       | Some p \<Rightarrow> is_unfit b' (Some p))"
    by (auto simp: build_order_def report_of_def tell_misfit_Inr not_fitting_def is_unfit_def dict_simps Let_def
        split: option.splits if_splits)
qed

definition built_list :: "mass_inputs \<Rightarrow> (ReportedOrder \<times> traded) list \<Rightarrow> built_order list" where
  "built_list M kept = List.map_filter (\<lambda>k. case report_of M k of
     Inl e \<Rightarrow> None | Inr (report, fills) \<Rightarrow> Some (fst k, snd k, report, fills)) kept"

lemma build_orders_Inr:
  "each_raising (build_order M) kept b = Inr b' \<Longrightarrow>
   built_on b b' \<and> bu_built b' = bu_built b @ built_list M kept \<and> bu_positions b' = bu_positions b \<and>
   (\<forall>k\<in>set kept. \<forall>e. report_of M k = Inl e \<longrightarrow> ro_client_order_id (fst k) \<in> set (bu_gone b') \<and>
      (case ro_venue_position_id (fst k) of
         None \<Rightarrow> Order_misfit (order_name (fst k)) (ins_id (snd k)) e \<in> set (bu_misfits b')
       | Some p \<Rightarrow> is_unfit b' (Some p)))"
proof (induction kept arbitrary: b)
  case (Cons k kept)
  then obtain c where c: "build_order M k b = Inr c" and rest: "each_raising (build_order M) kept c = Inr b'"
    by (auto simp: bind_result_Inr)
  note one = build_order_Inr [OF c] and IH = Cons.IH [OF rest]
  have later: "x \<in> set (bu_gone c) \<Longrightarrow> x \<in> set (bu_gone b')" "m \<in> set (bu_misfits c) \<Longrightarrow> m \<in> set (bu_misfits b')"
    "is_unfit c p \<Longrightarrow> is_unfit b' p" for x m p
    using IH unfolding built_on_def by blast+
  show ?case
  proof (cases "report_of M k")
    case (Inl e)
    from one(3) [OF Inl] have now: "ro_client_order_id (fst k) \<in> set (bu_gone b') \<and>
      (case ro_venue_position_id (fst k) of
         None \<Rightarrow> Order_misfit (order_name (fst k)) (ins_id (snd k)) e \<in> set (bu_misfits b')
       | Some p \<Rightarrow> is_unfit b' (Some p))"
      using later by (auto split: option.splits)
    have "bu_built b' = bu_built b @ built_list M (k # kept)"
      using IH one(3) [OF Inl] Inl by (simp add: built_list_def List.map_filter_simps)
    with now Inl IH one(1,4) built_on_trans show ?thesis by fastforce
  next
    case (Inr r)
    obtain report fills where r: "r = (report, fills)" by force
    from one(2) Inr r have "bu_built b' = bu_built b @ built_list M (k # kept)"
      using IH by (simp add: built_list_def List.map_filter_simps)
    with Inr IH one(1,4) built_on_trans show ?thesis by fastforce
  qed
qed (simp add: built_on_refl built_list_def List.map_filter_simps)

definition position_report_of :: "mass_inputs \<Rightarrow> ReportedPosition \<Rightarrow> (report_error + PositionStatusReport) option" where
  "position_report_of M rec1 =
     (case mi_instrument_for M (rq_symbol_id rec1) of
        None \<Rightarrow> None | Some ins \<Rightarrow> Some (position_report (mi_values M) rec1 ins))"

lemma build_position_Inr:
  assumes "build_position M rec1 b = Inr b'"
  shows "built_on b b'" "bu_built b' = bu_built b"  "bu_gone b' = bu_gone b"
    "bu_positions b' = bu_positions b @
       (case position_report_of M rec1 of Some (Inr report) \<Rightarrow> [(rq_venue_position_id rec1, report)] | _ \<Rightarrow> [])"
    "position_report_of M rec1 = Some (Inl e) \<Longrightarrow> is_unfit b' (Some (rq_venue_position_id rec1))"
  using assms not_fitting_on [of b] not_fitting_unfit
  by (auto simp: build_position_def position_report_of_def not_fitting_def built_on_def
      split: option.splits sum.splits if_splits)

lemma build_positions_Inr:
  "each_raising (build_position M) records b = Inr b' \<Longrightarrow>
   built_on b b' \<and> bu_built b' = bu_built b \<and> bu_gone b' = bu_gone b \<and>
   bu_positions b' = bu_positions b @ List.map_filter (\<lambda>r. case position_report_of M r of
     Some (Inr report) \<Rightarrow> Some (rq_venue_position_id r, report) | _ \<Rightarrow> None) records \<and>
   (\<forall>r\<in>set records. \<forall>e. position_report_of M r = Some (Inl e) \<longrightarrow> is_unfit b' (Some (rq_venue_position_id r)))"
proof (induction records arbitrary: b)
  case (Cons r records)
  then obtain c where c: "build_position M r b = Inr c" and rest: "each_raising (build_position M) records c = Inr b'"
    by (auto simp: bind_result_Inr)
  note one = build_position_Inr [OF c] and IH = Cons.IH [OF rest]
  have "is_unfit b' (Some (rq_venue_position_id r))" if "position_report_of M r = Some (Inl e)" for e
    using IH one(5) [OF that] unfolding built_on_def by blast
  moreover have "built_on b b'" using IH one(1) built_on_trans by blast
  ultimately show ?case using IH one(2-4)
    by (auto simp: List.map_filter_simps split: option.splits sum.splits)
qed (simp add: built_on_refl List.map_filter_simps)

lemma tell_unfits_Inr:
  "each_raising (tell_unfit M) unfits b = Inr b' \<Longrightarrow>
   \<exists>ms. b' = b\<lparr>bu_misfits := bu_misfits b @ ms\<rparr> \<and>
     (\<forall>(p, reasons)\<in>set unfits. \<exists>i. Position_misfit p i reasons \<in> set ms) \<and>
     (\<forall>m\<in>set ms. \<exists>p i reasons. m = Position_misfit p i reasons \<and> (p, reasons) \<in> set unfits)"
proof (induction unfits arbitrary: b)
  case Nil
  then show ?case by (intro exI [of _ "[]"]) simp
next
  case (Cons u unfits)
  obtain p reasons where u: "u = (p, reasons)" by force
  let ?m = "Position_misfit p (dict_get (bu_unfit_on b) p '''') reasons"
  from Cons.prems u have "each_raising (tell_unfit M) unfits (b\<lparr>bu_misfits := bu_misfits b @ [?m]\<rparr>) = Inr b'"
    by (auto simp: bind_result_Inr tell_unfit_def [of M "(p, reasons)"] tell_misfit_Inr)
  from Cons.IH [OF this] obtain ms where "b' = b\<lparr>bu_misfits := bu_misfits b @ ?m # ms\<rparr>"
    "\<forall>(p, reasons)\<in>set unfits. \<exists>i. Position_misfit p i reasons \<in> set ms"
    "\<forall>m\<in>set ms. \<exists>p i reasons. m = Position_misfit p i reasons \<and> (p, reasons) \<in> set unfits" by auto
  then show ?case using u by (intro exI [of _ "?m # ms"]) auto
qed

definition orders_only :: "misfit list \<Rightarrow> bool" where
  "orders_only ms \<longleftrightarrow> (\<forall>p i reasons. Position_misfit p i reasons \<notin> set ms)"

lemma build_orders_misfits:
  "each_raising (build_order M) kept b = Inr b' \<Longrightarrow> orders_only (bu_misfits b) \<Longrightarrow> orders_only (bu_misfits b')"
proof (induction kept arbitrary: b)
  case (Cons k kept)
  then obtain c where c: "build_order M k b = Inr c" and rest: "each_raising (build_order M) kept c = Inr b'"
    by (auto simp: bind_result_Inr)
  have "orders_only (bu_misfits c)"
    using c Cons.prems(2)
    by (auto simp: build_order_def tell_misfit_Inr orders_only_def not_fitting_def Let_def
        split: prod.splits sum.splits option.splits if_splits)
  with Cons.IH [OF rest] show ?case .
qed simp

lemma build_positions_misfits:
  "each_raising (build_position M) records b = Inr b' \<Longrightarrow> bu_misfits b' = bu_misfits b"
proof (induction records arbitrary: b)
  case (Cons r records)
  then obtain c where c: "build_position M r b = Inr c" and rest: "each_raising (build_position M) records c = Inr b'"
    by (auto simp: bind_result_Inr)
  have "bu_misfits c = bu_misfits b"
    using c by (auto simp: build_position_def not_fitting_def split: sum.splits option.splits if_splits)
  with Cons.IH [OF rest] show ?case by simp
qed simp

lemma told_orders_Inr:
  "told_orders M unfit gone built = Inr (os, fs) \<Longrightarrow>
   \<exists>rs. list_all2 (\<lambda>x r. relinked M gone x = Inr r)
       (filter (\<lambda>x. \<not> unfit (ro_venue_position_id (fst x))) built) rs \<and>
     os = map fst rs \<and> fs = concat (map snd rs)"
proof (induction built arbitrary: os fs)
  case (Cons x others)
  show ?case
  proof (cases "unfit (ro_venue_position_id (fst x))")
    case True
    with Cons show ?thesis by simp
  next
    case False
    with Cons.prems obtain report fills os' fs' where x: "relinked M gone x = Inr (report, fills)"
      and rest: "told_orders M unfit gone others = Inr (os', fs')" and eq: "os = report # os'" "fs = fills @ fs'"
      by (auto simp: bind_result_Inr)
    from Cons.IH [OF rest] obtain rs where "list_all2 (\<lambda>x r. relinked M gone x = Inr r)
       (filter (\<lambda>x. \<not> unfit (ro_venue_position_id (fst x))) others) rs" "os' = map fst rs" "fs' = concat (map snd rs)"
      by blast
    with x eq False show ?thesis by (intro exI [of _ "(report, fills) # rs"]) simp
  qed
qed simp

subsection \<open>A report and its record\<close>

definition tells :: "mass_inputs \<Rightarrow> ReportedOrder \<Rightarrow> traded \<Rightarrow> OrderStatusReport \<Rightarrow> FillReport list \<Rightarrow> bool" where
  "tells M r ins report fills \<longleftrightarrow>
     os_client_order_id report = ro_client_order_id r \<and> os_venue_order_id report = ro_venue_order_id r \<and>
     os_venue_position_id report = ro_venue_position_id r \<and> os_order_side report = ro_side r \<and>
     os_order_type report = ER_ORDER_TYPE (ro_order_type r) \<and>
     er_quantity (mi_values M) (ro_units r) ins = Inr (os_quantity report) \<and>
     er_quantity (mi_values M) (ro_filled_units r) ins = Inr (os_filled_qty report) \<and>
     optional_er_price (mi_values M) (ro_price r) ins = Inr (os_price report) \<and>
     optional_er_price (mi_values M) (ro_trigger_price r) ins = Inr (os_trigger_price report) \<and>
     fill_reports_of (mi_values M) (ro_venue_order_id r) ins (mi_currency M) (ro_client_order_id r) (ro_fills r)
       = Inr fills"

lemma made_order_Inr: "made_order accepts report = Inr r \<longleftrightarrow> accepts report \<and> r = report"
  by (auto simp: made_order_def)

lemma reported_order_tells:
  assumes "reported_order (mi_values M) accepts r ins (mi_currency M) = Inr (report, fills)"
  shows "tells M r ins report fills" "os_linked_order_ids report = ro_linked_order_ids r"
    "os_parent_order_id report = ro_parent_order_id r"
  using assms
  by (auto simp: reported_order_def tells_def bind_result_Inr made_order_Inr Let_def split_beta)

lemma relinked_Inr:
  assumes "relinked M gone (r, ins, report, fills) = Inr (report', fills')" and "report_of M (r, ins) = Inr (report, fills)"
  shows "tells M r ins report' fills'"
    "os_linked_order_ids report' = filter (\<lambda>i. Some i \<notin> set gone) (ro_linked_order_ids r)"
    "os_parent_order_id report' = (if ro_parent_order_id r \<in> set gone then None else ro_parent_order_id r)"
proof -
  have "reported_order (mi_values M) (mi_accepts_order M) (unlinked gone r) ins (mi_currency M) = Inr (report', fills')"
  proof (cases "ro_linked_order_ids (unlinked gone r) \<noteq> ro_linked_order_ids r \<or>
      ro_parent_order_id (unlinked gone r) \<noteq> ro_parent_order_id r")
    case True
    with assms(1) show ?thesis by (auto simp: relinked_def split: sum.splits)
  next
    case False
    then have "unlinked gone r = r" by (cases r) (simp add: unlinked_def)
    with False assms show ?thesis by (simp add: relinked_def report_of_def)
  qed
  from reported_order_tells [OF this]
  show "tells M r ins report' fills'"
    "os_linked_order_ids report' = filter (\<lambda>i. Some i \<notin> set gone) (ro_linked_order_ids r)"
    "os_parent_order_id report' = (if ro_parent_order_id r \<in> set gone then None else ro_parent_order_id r)"
    by (simp_all add: tells_def unlinked_def)
qed

lemma position_report_fields:
  "position_report_of M r = Some (Inr report) \<Longrightarrow> ps_venue_position_id report = rq_venue_position_id r"
  "position_report_of M r = Some (Inr report) \<Longrightarrow>
     \<exists>ins. er_quantity (mi_values M) (rq_units r) ins = Inr (ps_quantity report)"
  by (auto simp: position_report_of_def position_report_def bind_result_Inr split: option.splits)

text \<open>Whatever a constructor takes, it holds.\<close>

definition holds_values :: "report_values \<Rightarrow> bool" where
  "holds_values V \<longleftrightarrow> (\<forall>x n y. price_from V x n = Some y \<longrightarrow> y = x) \<and>
     (\<forall>x n y. quantity_from V x n = Some y \<longrightarrow> y = x)"

lemma text_at_Inr: "text_at x n = Inr y \<Longrightarrow> y = x"
  by (auto simp: text_at_def split: option.splits if_splits)

lemma held_exactly:
  assumes "holds_values V"
  shows "er_price V x ins = Inr y \<Longrightarrow> y = x" "er_quantity V x ins = Inr y \<Longrightarrow> y = x"
    "optional_er_price V p ins = Inr q \<Longrightarrow> q = p"
proof -
  show price: "er_price V x ins = Inr y \<Longrightarrow> y = x" for x y
    using assms text_at_Inr
    by (fastforce simp: er_price_def bind_result_Inr value_held_def holds_values_def split: option.splits)
  show "er_quantity V x ins = Inr y \<Longrightarrow> y = x"
    using assms text_at_Inr
    by (fastforce simp: er_quantity_def bind_result_Inr value_held_def holds_values_def split: option.splits)
  show "optional_er_price V p ins = Inr q \<Longrightarrow> q = p"
    using price by (auto simp: optional_er_price_def bind_result_Inr split: option.splits)
qed

definition fill_terms :: "Fill \<Rightarrow> string \<times> ProtoOATradeSide \<times> decimal \<times> decimal \<times> string" where
  "fill_terms f = (trade_id f, fill_side f, fill_units f, fill_price f, fill_venue_position_id f)"

definition fill_report_terms :: "FillReport \<Rightarrow> string \<times> ProtoOATradeSide \<times> decimal \<times> decimal \<times> string" where
  "fill_report_terms f = (fr_trade_id f, fr_order_side f, fr_last_qty f, fr_last_px f, fr_venue_position_id f)"

definition record_terms ::
    "ReportedOrder \<Rightarrow> string \<times> string option \<times> string option \<times> ProtoOATradeSide \<times> decimal \<times> decimal" where
  "record_terms r = (ro_venue_order_id r, ro_client_order_id r, ro_venue_position_id r, ro_side r, ro_units r, ro_filled_units r)"

definition order_terms ::
    "OrderStatusReport \<Rightarrow> string \<times> string option \<times> string option \<times> ProtoOATradeSide \<times> decimal \<times> decimal" where
  "order_terms o1 = (os_venue_order_id o1, os_client_order_id o1, os_venue_position_id o1, os_order_side o1,
     os_quantity o1, os_filled_qty o1)"

lemma fill_reports_of_told:
  "fill_reports_of V oid ins cur cid fills = Inr reports \<Longrightarrow> map fr_trade_id reports = map trade_id fills"
  "holds_values V \<Longrightarrow> fill_reports_of V oid ins cur cid fills = Inr reports \<Longrightarrow>
     map fill_report_terms reports = map fill_terms fills"
proof (induction fills arbitrary: reports)
  case (Cons f fills)
  {
    case 1
    with Cons.IH(1) show ?case by (auto simp: bind_result_Inr fill_report_def)
  next
    case 2
    with Cons.IH(2) show ?case
      by (auto simp: bind_result_Inr fill_report_def fill_report_terms_def fill_terms_def dest: held_exactly)
  }
qed simp_all

lemma fill_reports_of_member:
  "fill_reports_of V oid ins cur cid fills = Inr reports \<Longrightarrow> f \<in> set reports \<Longrightarrow>
     fr_trade_id f \<in> trade_id ` set fills \<and> fr_venue_order_id f = oid"
  by (induction fills arbitrary: reports) (auto simp: bind_result_Inr fill_report_def)

subsection \<open>The whole\<close>

text \<open>What the mass status is made of, \<open>unfit\<close> being the positions that are not told.\<close>

definition made_of ::
    "mass_inputs \<Rightarrow> Reconciliation \<Rightarrow> (ReportedOrder \<times> traded) list \<Rightarrow> string option list \<Rightarrow>
     (string option \<Rightarrow> bool) \<Rightarrow> (OrderStatusReport \<times> FillReport list) list \<Rightarrow> mass_status \<Rightarrow> bool" where
  "made_of M R kept gone unfit rs ms \<longleftrightarrow>
     keep_priced M (rec_orders R) = Inr (kept, ms_left_out ms) \<and>
     list_all2 (\<lambda>x r. relinked M gone x = Inr r)
       (filter (\<lambda>x. \<not> unfit (ro_venue_position_id (fst x))) (built_list M kept)) rs \<and>
     ms_orders ms = map fst rs \<and> ms_fills ms = concat (map snd rs) \<and>
     (\<forall>r\<in>set (ms_left_out ms). ro_client_order_id r \<in> set gone) \<and>
     (\<forall>k\<in>set kept. \<forall>e. report_of M k = Inl e \<longrightarrow> ro_client_order_id (fst k) \<in> set gone \<and>
        (case ro_venue_position_id (fst k) of
           None \<Rightarrow> Order_misfit (order_name (fst k)) (ins_id (snd k)) e \<in> set (ms_misfits ms)
         | Some p \<Rightarrow> unfit (Some p))) \<and>
     (\<forall>x\<in>set (built_list M kept). unfit (ro_venue_position_id (fst x)) \<longrightarrow> ro_client_order_id (fst x) \<in> set gone) \<and>
     \<not> unfit None \<and>
     (\<forall>p. unfit (Some p) \<longleftrightarrow> (\<exists>i reasons. Position_misfit p i reasons \<in> set (ms_misfits ms))) \<and>
     ms_positions ms = map snd (filter (\<lambda>(p, report). \<not> unfit (Some p))
       (List.map_filter (\<lambda>r. case position_report_of M r of
          Some (Inr report) \<Rightarrow> Some (rq_venue_position_id r, report) | _ \<Rightarrow> None) (rec_positions R))) \<and>
     (\<forall>r\<in>set (rec_positions R). \<forall>e. position_report_of M r = Some (Inl e) \<longrightarrow> unfit (Some (rq_venue_position_id r)))"

lemma mass_status_made_of:
  assumes "mass_status_of M R = Inr ms"
  shows "\<exists>kept gone unfit rs. made_of M R kept gone unfit rs ms"
proof -
  from assms obtain kept left_out b1 b2 b3 os fs where
    k: "keep_priced M (rec_orders R) = Inr (kept, left_out)"
    and o: "each_raising (build_order M) kept (nothing_built left_out) = Inr b1"
    and p: "each_raising (build_position M) (rec_positions R) b1 = Inr b2"
    and u: "each_raising (tell_unfit M) (bu_unfit b2) b2 = Inr b3"
    and t: "told_orders M (is_unfit b3) (gone_of b3) (bu_built b3) = Inr (os, fs)"
    and ms: "ms = \<lparr>ms_orders = os, ms_fills = fs,
       ms_positions = map snd (filter (\<lambda>(position, report). \<not> is_unfit b3 (Some position)) (bu_positions b3)),
       ms_left_out = left_out, ms_misfits = bu_misfits b3\<rparr>"
    by (auto simp: mass_status_of_def bind_result_Inr)
  note O = build_orders_Inr [OF o] and P = build_positions_Inr [OF p]
  obtain mf where b3: "b3 = b2\<lparr>bu_misfits := bu_misfits b2 @ mf\<rparr>"
    and mf: "\<forall>(p, reasons)\<in>set (bu_unfit b2). \<exists>i. Position_misfit p i reasons \<in> set mf"
    "\<forall>m\<in>set mf. \<exists>p i reasons. m = Position_misfit p i reasons \<and> (p, reasons) \<in> set (bu_unfit b2)"
    using tell_unfits_Inr [OF u] by blast
  have unfit3: "is_unfit b3 = is_unfit b2" by (simp add: b3)
  obtain rs where rs: "list_all2 (\<lambda>x r. relinked M (gone_of b3) x = Inr r)
       (filter (\<lambda>x. \<not> is_unfit b3 (ro_venue_position_id (fst x))) (bu_built b3)) rs" "os = map fst rs" "fs = concat (map snd rs)"
    using told_orders_Inr [OF t] by blast
  have built: "bu_built b3 = built_list M kept" using O P b3 by (simp add: nothing_built_def)
  have mono: "set (bu_gone b1) \<subseteq> set (gone_of b3)" "is_unfit b1 q \<Longrightarrow> is_unfit b3 q"
    "set (bu_misfits b1) \<subseteq> set (bu_misfits b3)" for q
    using P unfit3 b3 by (auto simp: gone_of_def built_on_def)
  have "orders_only (bu_misfits b2)"
    using build_orders_misfits [OF o] build_positions_misfits [OF p] by (simp add: orders_only_def nothing_built_def)
  then have named: "is_unfit b3 (Some q) \<longleftrightarrow> (\<exists>i reasons. Position_misfit q i reasons \<in> set (bu_misfits b3))" for q
    using mf weak_map_of_SomeI [of q _ "bu_unfit b2"] map_of_SomeD [of "bu_unfit b2" q]
    by (auto simp: unfit3 is_unfit_def b3 orders_only_def) blast
  have "made_of M R kept (gone_of b3) (is_unfit b3) rs ms"
    unfolding made_of_def
  proof (intro conjI)
    show "\<forall>r\<in>set (ms_left_out ms). ro_client_order_id r \<in> set (gone_of b3)"
      using O mono(1) by (auto simp: ms nothing_built_def built_on_def)
    show "\<forall>k\<in>set kept. \<forall>e. report_of M k = Inl e \<longrightarrow> ro_client_order_id (fst k) \<in> set (gone_of b3) \<and>
        (case ro_venue_position_id (fst k) of
           None \<Rightarrow> Order_misfit (order_name (fst k)) (ins_id (snd k)) e \<in> set (ms_misfits ms)
         | Some p \<Rightarrow> is_unfit b3 (Some p))"
      using O mono by (fastforce simp: ms split: option.splits)
    show "\<forall>x\<in>set (built_list M kept). is_unfit b3 (ro_venue_position_id (fst x)) \<longrightarrow>
        ro_client_order_id (fst x) \<in> set (gone_of b3)"
      by (auto simp: gone_of_def built)
    show "\<not> is_unfit b3 None" by (simp add: is_unfit_def)
    show "\<forall>r\<in>set (rec_positions R). \<forall>e. position_report_of M r = Some (Inl e) \<longrightarrow> is_unfit b3 (Some (rq_venue_position_id r))"
      using P unfit3 by simp
  qed (use k rs built named O P b3 in \<open>simp_all add: ms nothing_built_def\<close>)
  then show ?thesis by blast
qed

lemma made_ofD:
  assumes "made_of M R kept gone unfit rs ms"
  shows "keep_priced M (rec_orders R) = Inr (kept, ms_left_out ms)"
    "list_all2 (\<lambda>x r. relinked M gone x = Inr r)
       (filter (\<lambda>x. \<not> unfit (ro_venue_position_id (fst x))) (built_list M kept)) rs"
    "ms_orders ms = map fst rs" "ms_fills ms = concat (map snd rs)"
    "r \<in> set (ms_left_out ms) \<Longrightarrow> ro_client_order_id r \<in> set gone"
    "k \<in> set kept \<Longrightarrow> report_of M k = Inl e \<Longrightarrow> ro_client_order_id (fst k) \<in> set gone"
    "k \<in> set kept \<Longrightarrow> report_of M k = Inl e \<Longrightarrow> ro_venue_position_id (fst k) = Some p \<Longrightarrow> unfit (Some p)"
    "k \<in> set kept \<Longrightarrow> report_of M k = Inl e \<Longrightarrow> ro_venue_position_id (fst k) = None \<Longrightarrow>
       Order_misfit (order_name (fst k)) (ins_id (snd k)) e \<in> set (ms_misfits ms)"
    "x \<in> set (built_list M kept) \<Longrightarrow> unfit (ro_venue_position_id (fst x)) \<Longrightarrow> ro_client_order_id (fst x) \<in> set gone"
    "\<not> unfit None"
    "unfit (Some p) \<longleftrightarrow> (\<exists>i reasons. Position_misfit p i reasons \<in> set (ms_misfits ms))"
    "ms_positions ms = map snd (filter (\<lambda>(p, report). \<not> unfit (Some p))
       (List.map_filter (\<lambda>r. case position_report_of M r of
          Some (Inr report) \<Rightarrow> Some (rq_venue_position_id r, report) | _ \<Rightarrow> None) (rec_positions R)))"
    "y \<in> set (rec_positions R) \<Longrightarrow> position_report_of M y = Some (Inl e) \<Longrightarrow> unfit (Some (rq_venue_position_id y))"
  using assms unfolding made_of_def by (force split: option.splits)+

lemma all2_left: "list_all2 P xs ys \<Longrightarrow> x \<in> set xs \<Longrightarrow> \<exists>y\<in>set ys. P x y"
  by (induction rule: list_all2_induct) auto

lemma all2_right: "list_all2 P xs ys \<Longrightarrow> y \<in> set ys \<Longrightarrow> \<exists>x\<in>set xs. P x y"
  by (induction rule: list_all2_induct) auto

lemma map_filter_member: "y \<in> set (List.map_filter f xs) \<longleftrightarrow> (\<exists>x\<in>set xs. f x = Some y)"
  by (induction xs) (auto simp: List.map_filter_simps split: option.splits)

lemma built_list_iff:
  "(r, ins, report, fills) \<in> set (built_list M kept) \<longleftrightarrow>
   (r, ins) \<in> set kept \<and> report_of M (r, ins) = Inr (report, fills)"
proof -
  have "(r, ins, report, fills) \<in> set (built_list M kept) \<longleftrightarrow>
    (\<exists>k\<in>set kept. (case report_of M k of Inl e \<Rightarrow> None | Inr (p, f) \<Rightarrow> Some (fst k, snd k, p, f)) = Some (r, ins, report, fills))"
    unfolding built_list_def by (rule map_filter_member)
  also have "\<dots> \<longleftrightarrow> (\<exists>k\<in>set kept. k = (r, ins) \<and> report_of M k = Inr (report, fills))"
    by (intro bex_cong refl) (auto split: sum.splits)
  finally show ?thesis by auto
qed

text \<open>A kept record that fits and is on no unfit position is told; what is told is such a record.\<close>

lemma kept_is_told:
  assumes "made_of M R kept gone unfit rs ms" and "(r, ins) \<in> set kept"
    and "report_of M (r, ins) = Inr (report, fills)" and "\<not> unfit (ro_venue_position_id r)"
  shows "\<exists>(report', fills')\<in>set rs. tells M r ins report' fills'"
proof -
  have "(r, ins, report, fills) \<in> set (filter (\<lambda>x. \<not> unfit (ro_venue_position_id (fst x))) (built_list M kept))"
    using assms(2-4) by (simp add: built_list_iff)
  from all2_left [OF made_ofD(2) [OF assms(1)] this]
  obtain y where y: "y \<in> set rs" "relinked M gone (r, ins, report, fills) = Inr y" by blast
  obtain report' fills' where e: "y = (report', fills')" by force
  have "tells M r ins report' fills'" by (rule relinked_Inr(1) [OF _ assms(3)]) (use y e in simp)
  with y(1) e show ?thesis by blast
qed

lemma told_is_kept:
  assumes "made_of M R kept gone unfit rs ms" and "(report', fills') \<in> set rs"
  obtains r ins where "(r, ins) \<in> set kept" "\<not> unfit (ro_venue_position_id r)" "tells M r ins report' fills'"
    "os_linked_order_ids report' = filter (\<lambda>i. Some i \<notin> set gone) (ro_linked_order_ids r)"
    "os_parent_order_id report' = (if ro_parent_order_id r \<in> set gone then None else ro_parent_order_id r)"
proof -
  obtain x where x: "x \<in> set (filter (\<lambda>x. \<not> unfit (ro_venue_position_id (fst x))) (built_list M kept))"
    "relinked M gone x = Inr (report', fills')"
    using all2_right [OF made_ofD(2) [OF assms(1)] assms(2)] by blast
  obtain r ins report fills where e: "x = (r, ins, report, fills)" by (cases x)
  with x have "(r, ins) \<in> set kept" "report_of M (r, ins) = Inr (report, fills)" "\<not> unfit (ro_venue_position_id r)"
    by (simp_all add: built_list_iff)
  with relinked_Inr x e that show ?thesis by metis
qed

text \<open>A kept record is told, or its id is gone.\<close>

lemma kept_told_or_gone:
  assumes "made_of M R kept gone unfit rs ms" and "(r, ins) \<in> set kept"
  shows "ro_client_order_id r \<in> set gone \<or> (\<exists>(report, fills)\<in>set rs. tells M r ins report fills)"
proof (cases "report_of M (r, ins)")
  case (Inl e)
  with made_ofD(6) [OF assms(1,2)] show ?thesis by simp
next
  case (Inr b)
  obtain report fills where b: "b = (report, fills)" by force
  show ?thesis
  proof (cases "unfit (ro_venue_position_id r)")
    case True
    have "(r, ins, report, fills) \<in> set (built_list M kept)" using assms(2) Inr b by (simp add: built_list_iff)
    with made_ofD(9) [OF assms(1)] True show ?thesis by fastforce
  next
    case False
    with kept_is_told [OF assms] Inr b show ?thesis by blast
  qed
qed

text \<open>An order that is not gone is told, if its symbol is loaded.\<close>

lemma not_gone_is_told:
  assumes "made_of M R kept gone unfit rs ms" and "r \<in> set (rec_orders R)"
    and "mi_instrument_for M (ro_symbol_id r) \<noteq> None" and "ro_client_order_id r \<notin> set gone"
  shows "\<exists>report\<in>set (ms_orders ms). os_client_order_id report = ro_client_order_id r"
proof -
  have k: "keep_priced M (rec_orders R) = Inr (kept, ms_left_out ms)" by (rule made_ofD(1) [OF assms(1)])
  have "r \<notin> set (ms_left_out ms)" using made_ofD(5) [OF assms(1)] assms(4) by blast
  with kept_or_left_out [OF k assms(2,3)] obtain q ins where q: "kept_of M r = Some (q, ins)" "(q, ins) \<in> set kept"
    by blast
  have id: "ro_client_order_id q = ro_client_order_id r" by (rule kept_of_frame(1) [OF q(1)])
  with kept_told_or_gone [OF assms(1) q(2)] assms(4) obtain report fills
    where "(report, fills) \<in> set rs" "tells M q ins report fills" by auto
  moreover have "ms_orders ms = map fst rs" by (rule made_ofD(3) [OF assms(1)])
  ultimately show ?thesis using id by (force simp: tells_def)
qed

lemma kept_tells:
  assumes "\<And>k. k \<in> set kept \<Longrightarrow> \<exists>y. report_of M k = Inr y"
    and "list_all2 (\<lambda>x y. relinked M gone x = Inr y) (built_list M kept) rs"
  shows "list_all2 (\<lambda>k y. tells M (fst k) (snd k) (fst y) (snd y)) kept rs"
  using assms
proof (induction kept arbitrary: rs)
  case Nil
  then show ?case by (simp add: built_list_def List.map_filter_simps)
next
  case (Cons k kept)
  obtain r ins report fills where k: "k = (r, ins)" "report_of M (r, ins) = Inr (report, fills)"
    using Cons.prems(1) [of k] by (cases k) fastforce
  with Cons.prems(2) obtain y ys where y: "rs = y # ys" "relinked M gone (r, ins, report, fills) = Inr y"
    "list_all2 (\<lambda>x y. relinked M gone x = Inr y) (built_list M kept) ys"
    by (auto simp: built_list_def List.map_filter_simps list_all2_Cons1)
  obtain report' fills' where e: "y = (report', fills')" by force
  have "tells M r ins report' fills'" by (rule relinked_Inr(1) [OF _ k(2)]) (use y e in simp)
  with Cons.IH [OF _ y(3)] Cons.prems(1) k y e show ?case by simp
qed

lemma map_filter_pairs: "list_all2 (\<lambda>x y. f x = Some y) (filter (\<lambda>x. f x \<noteq> None) xs) (List.map_filter f xs)"
  by (induction xs) (auto simp: List.map_filter_simps split: option.splits)

lemma told_records:
  assumes "keep_priced M records = Inr (kept, left_out)"
  shows "filter (\<lambda>r. mi_instrument_for M (ro_symbol_id r) \<noteq> None \<and> r \<notin> set left_out) records =
    filter (\<lambda>r. kept_of M r \<noteq> None) records"
proof (rule filter_cong [OF refl])
  fix r
  assume r: "r \<in> set records"
  note k = keep_priced_parts [OF assms]
  show "(mi_instrument_for M (ro_symbol_id r) \<noteq> None \<and> r \<notin> set left_out) = (kept_of M r \<noteq> None)"
  proof (cases "priced_for M r")
    case None
    with k r show ?thesis by (auto simp: kept_of_def split: option.splits)
  next
    case (Some p)
    then have "mi_instrument_for M (ro_symbol_id r) \<noteq> None" by (auto simp: priced_for_def split: option.splits)
    with Some k r show ?thesis by (cases p) (auto simp: kept_of_def)
  qed
qed

lemma all2_map: "list_all2 (\<lambda>x y. g (h y) = f x) xs ys \<Longrightarrow> map g (map h ys) = map f xs"
  by (induction rule: list_all2_induct) auto

lemma all2_concat:
  "list_all2 (\<lambda>x y. map g (snd y) = map f (c x)) xs ys \<Longrightarrow> map g (concat (map snd ys)) = map f (concat (map c xs))"
  by (induction rule: list_all2_induct) auto

definition told_as :: "mass_inputs \<Rightarrow> ReportedOrder \<Rightarrow> OrderStatusReport \<Rightarrow> FillReport list \<Rightarrow> bool" where
  "told_as M r report fills \<longleftrightarrow> (\<exists>k. kept_of M r = Some k \<and> tells M (fst k) (snd k) report fills)"

lemma told_as_exactly:
  assumes "holds_values (mi_values M)" and "told_as M r report fills"
  shows "order_terms report = record_terms r" "map fill_report_terms fills = map fill_terms (ro_fills r)"
    "has_its_prices (ro_order_type r) (os_price report) (os_trigger_price report) \<and>
      (ro_price r \<noteq> None \<longrightarrow> os_price report = ro_price r) \<and>
      (ro_trigger_price r \<noteq> None \<longrightarrow> os_trigger_price report = ro_trigger_price r)"
proof -
  obtain q ins where q: "kept_of M r = Some (q, ins)" "tells M q ins report fills"
    using assms(2) by (auto simp: told_as_def)
  note same = kept_of_frame [OF q(1)] and held = held_exactly [OF assms(1)]
  have t: "os_quantity report = ro_units q" "os_filled_qty report = ro_filled_units q"
    "os_price report = ro_price q" "os_trigger_price report = ro_trigger_price q"
    using q(2) held unfolding tells_def by blast+
  show "order_terms report = record_terms r"
    using q(2) t same by (simp add: order_terms_def record_terms_def tells_def)
  show "map fill_report_terms fills = map fill_terms (ro_fills r)"
    using fill_reports_of_told(2) [OF assms(1)] q(2) same(4) unfolding tells_def by metis
  show "has_its_prices (ro_order_type r) (os_price report) (os_trigger_price report) \<and>
      (ro_price r \<noteq> None \<longrightarrow> os_price report = ro_price r) \<and>
      (ro_trigger_price r \<noteq> None \<longrightarrow> os_trigger_price report = ro_trigger_price r)"
    using kept_of_Some(2,3) [OF q(1)] t by auto
qed

lemma positions_told:
  assumes "holds_values (mi_values M)" and "\<And>p. \<not> unfit p"
    and "\<And>r e. r \<in> set records \<Longrightarrow> position_report_of M r \<noteq> Some (Inl e)"
  shows "map (\<lambda>report. (ps_venue_position_id report, ps_quantity report))
      (map snd (filter (\<lambda>(p, report). \<not> unfit (Some p)) (List.map_filter (\<lambda>r. case position_report_of M r of
          Some (Inr report) \<Rightarrow> Some (rq_venue_position_id r, report) | _ \<Rightarrow> None) records))) =
    map (\<lambda>r. (rq_venue_position_id r, rq_units r)) (filter (\<lambda>r. mi_instrument_for M (rq_symbol_id r) \<noteq> None) records)"
  using assms(3)
proof (induction records)
  case (Cons r records)
  show ?case
  proof (cases "position_report_of M r")
    case None
    then have "mi_instrument_for M (rq_symbol_id r) = None" by (auto simp: position_report_of_def split: option.splits)
    with Cons None show ?thesis by (simp add: List.map_filter_simps)
  next
    case (Some x)
    with Cons.prems [of r] obtain report where x: "x = Inr report" by (cases x) auto
    with Some position_report_fields [of M r report] held_exactly(2) [OF assms(1)]
    have "ps_venue_position_id report = rq_venue_position_id r" "ps_quantity report = rq_units r" by blast+
    moreover have "mi_instrument_for M (rq_symbol_id r) \<noteq> None" using Some by (auto simp: position_report_of_def split: option.splits)
    ultimately show ?thesis using Cons Some x assms(2) by (simp add: List.map_filter_simps)
  qed
qed (simp add: List.map_filter_simps)

subsection \<open>Properties\<close>

text \<open>
  C24: No order of the mass status names one that is not in it. If the reconciliation's orders name, as linked or as
  parent, only orders of the same symbol that are among them, then so do the reports: whatever is left
  out, for want of a price or because it does not fit its instrument, is named by no report.\<close>

theorem linked_orders_are_reported:
  assumes "mass_status_of M R = Inr ms"
    and "\<forall>r\<in>set (rec_orders R). \<forall>i. i \<in> set (ro_linked_order_ids r) \<or> ro_parent_order_id r = Some i \<longrightarrow>
      (\<exists>q\<in>set (rec_orders R). ro_client_order_id q = Some i \<and> ro_symbol_id q = ro_symbol_id r)"
    and "report \<in> set (ms_orders ms)"
    and "i \<in> set (os_linked_order_ids report) \<or> os_parent_order_id report = Some i"
  shows "\<exists>other\<in>set (ms_orders ms). os_client_order_id other = Some i"
proof -
  obtain kept gone unfit rs where m: "made_of M R kept gone unfit rs ms" using mass_status_made_of [OF assms(1)] by blast
  then obtain fills where f: "(report, fills) \<in> set rs" using assms(3) made_ofD(3) by fastforce
  obtain q ins where q: "(q, ins) \<in> set kept"
    "os_linked_order_ids report = filter (\<lambda>i. Some i \<notin> set gone) (ro_linked_order_ids q)"
    "os_parent_order_id report = (if ro_parent_order_id q \<in> set gone then None else ro_parent_order_id q)"
    by (rule told_is_kept [OF m f])
  have k: "keep_priced M (rec_orders R) = Inr (kept, ms_left_out ms)" by (rule made_ofD(1) [OF m])
  obtain r where r: "r \<in> set (rec_orders R)" "kept_of M r = Some (q, ins)" using kept_from [OF k q(1)] by blast
  note same = kept_of_frame [OF r(2)]
  have i: "Some i \<notin> set gone" "i \<in> set (ro_linked_order_ids r) \<or> ro_parent_order_id r = Some i"
    using assms(4) q(2,3) same(7,8) by (auto split: if_splits)
  obtain o1 where o1: "o1 \<in> set (rec_orders R)" "ro_client_order_id o1 = Some i" "ro_symbol_id o1 = ro_symbol_id r"
    using assms(2) r(1) i(2) by blast
  have "mi_instrument_for M (ro_symbol_id o1) \<noteq> None" using kept_of_Some(1) [OF r(2)] o1(3) by simp
  with not_gone_is_told [OF m o1(1)] o1(2) i(1) show ?thesis by simp
qed

text \<open>The positions told, and what is told of a position that fits and of one that does not.\<close>

lemma told_positions:
  assumes m: "made_of M R kept gone unfit rs ms"
  shows "report \<in> set (ms_positions ms) \<longleftrightarrow> (\<exists>r\<in>set (rec_positions R).
    position_report_of M r = Some (Inr report) \<and> \<not> unfit (Some (rq_venue_position_id r)))"
proof -
  note d = made_ofD [OF m]
  have "(p, report) \<in> set (List.map_filter (\<lambda>r. case position_report_of M r of
        Some (Inr report) \<Rightarrow> Some (rq_venue_position_id r, report) | _ \<Rightarrow> None) (rec_positions R)) \<longleftrightarrow>
      (\<exists>r\<in>set (rec_positions R). position_report_of M r = Some (Inr report) \<and> p = rq_venue_position_id r)" for p
    unfolding map_filter_member by (intro bex_cong refl) (auto split: option.splits sum.splits)
  then show ?thesis unfolding d(12) set_map set_filter image_iff by auto
qed

lemma unfit_untold:
  assumes m: "made_of M R kept gone unfit rs ms" and out: "unfit (Some p)"
  shows "\<forall>report\<in>set (ms_orders ms). os_venue_position_id report \<noteq> Some p"
    and "\<forall>f\<in>set (ms_fills ms). \<exists>r\<in>set (rec_orders R). ro_venue_position_id r \<noteq> Some p \<and>
       fr_venue_order_id f = ro_venue_order_id r \<and> fr_trade_id f \<in> trade_id ` set (ro_fills r)"
    and "\<forall>report\<in>set (ms_positions ms). ps_venue_position_id report \<noteq> p"
proof -
  note d = made_ofD [OF m] and positions = told_positions [OF m]
  have one: "os_venue_position_id report \<noteq> Some p" if told: "report \<in> set (ms_orders ms)" for report
  proof -
    obtain fills where "(report, fills) \<in> set rs" using told unfolding d(3) by force
    then obtain q ins where "\<not> unfit (ro_venue_position_id q)" "tells M q ins report fills"
      by (rule told_is_kept [OF m])
    with out show ?thesis by (auto simp: tells_def)
  qed
  have two: "\<exists>r\<in>set (rec_orders R). ro_venue_position_id r \<noteq> Some p \<and>
      fr_venue_order_id f = ro_venue_order_id r \<and> fr_trade_id f \<in> trade_id ` set (ro_fills r)"
    if told: "f \<in> set (ms_fills ms)" for f
  proof -
    obtain report fills where rs: "(report, fills) \<in> set rs" "f \<in> set fills" using told unfolding d(4) by force
    from rs(1) obtain q ins where q: "(q, ins) \<in> set kept" "\<not> unfit (ro_venue_position_id q)" "tells M q ins report fills"
      by (rule told_is_kept [OF m])
    obtain r where r: "r \<in> set (rec_orders R)" "kept_of M r = Some (q, ins)" using kept_from [OF d(1) q(1)] by blast
    note same = kept_of_frame [OF r(2)]
    have "fr_trade_id f \<in> trade_id ` set (ro_fills q)" "fr_venue_order_id f = ro_venue_order_id q"
      using fill_reports_of_member [of "mi_values M" "ro_venue_order_id q"] q(3) rs(2) unfolding tells_def by blast+
    with out q(2) r(1) same show ?thesis by metis
  qed
  have three: "ps_venue_position_id report \<noteq> p" if "report \<in> set (ms_positions ms)" for report
    using that out position_report_fields(1) by (auto simp: positions)
  show "\<forall>report\<in>set (ms_orders ms). os_venue_position_id report \<noteq> Some p" using one by blast
  show "\<forall>f\<in>set (ms_fills ms). \<exists>r\<in>set (rec_orders R). ro_venue_position_id r \<noteq> Some p \<and>
       fr_venue_order_id f = ro_venue_order_id r \<and> fr_trade_id f \<in> trade_id ` set (ro_fills r)" using two by blast
  show "\<forall>report\<in>set (ms_positions ms). ps_venue_position_id report \<noteq> p" using three by blast
qed

lemma fit_order_told:
  assumes m: "made_of M R kept gone unfit rs ms" and fits: "\<not> unfit (Some p)"
    and r: "r \<in> set (rec_orders R)" "ro_venue_position_id r = Some p"
      "mi_instrument_for M (ro_symbol_id r) \<noteq> None" "\<not> unpriceable M r"
  shows "(\<exists>report\<in>set (ms_orders ms). os_venue_order_id report = ro_venue_order_id r \<and>
      os_venue_position_id report = Some p) \<and> trade_id ` set (ro_fills r) \<subseteq> fr_trade_id ` set (ms_fills ms)"
proof -
  note d = made_ofD [OF m]
  have "r \<notin> set (ms_left_out ms)" using left_out_exactly [OF d(1)] r(4) by simp
  then obtain q ins where q: "kept_of M r = Some (q, ins)" "(q, ins) \<in> set kept"
    using kept_or_left_out [OF d(1) r(1,3)] by blast
  note same = kept_of_frame [OF q(1)]
  obtain report fills where b: "report_of M (q, ins) = Inr (report, fills)"
    using d(7) [OF q(2)] fits same(3) r(2) by (cases "report_of M (q, ins)") auto
  obtain report' fills' where t: "(report', fills') \<in> set rs" "tells M q ins report' fills'"
    using kept_is_told [OF m q(2) b] fits same(3) r(2) by auto
  have "trade_id ` set (ro_fills r) = fr_trade_id ` set fills'"
    using fill_reports_of_told(1) t(2) same(4) unfolding tells_def by (metis list.set_map)
  with t same r(2) show ?thesis by (force simp: d(3,4) tells_def)
qed

lemma fit_position_told:
  assumes m: "made_of M R kept gone unfit rs ms" and fits: "\<not> unfit (Some p)"
    and r: "r \<in> set (rec_positions R)" "rq_venue_position_id r = p" "mi_instrument_for M (rq_symbol_id r) \<noteq> None"
  shows "\<exists>report\<in>set (ms_positions ms). ps_venue_position_id report = p"
proof -
  note d = made_ofD [OF m] and positions = told_positions [OF m]
  obtain x where x: "position_report_of M r = Some x" using r(3) by (auto simp: position_report_of_def)
  with d(13) [OF r(1)] fits r(2) obtain report where y: "x = Inr report" by (cases x) auto
  with x r(1,2) fits have "report \<in> set (ms_positions ms)" by (auto simp: positions)
  with position_report_fields(1) x y r(2) show ?thesis by blast
qed

text \<open>
  C22: A position's records go together. If the callback was told that a position does not fit its instrument, then
  none of its orders, no fill but those of orders elsewhere and no report of it is in the mass status; otherwise every
  order on it of a loaded symbol is reported, with all its fills, and so is the position itself, save only an order
  that has no price to be reported at: one whose type needs a price it does not state, with none that Nautilus holds and
  no fills, or a stop-limit order lacking one of its prices.\<close>

theorem positions_go_together:
  assumes "mass_status_of M R = Inr ms"
  shows "if \<exists>i reasons. Position_misfit p i reasons \<in> set (ms_misfits ms)
     then (\<forall>report\<in>set (ms_orders ms). os_venue_position_id report \<noteq> Some p) \<and>
          (\<forall>f\<in>set (ms_fills ms). \<exists>r\<in>set (rec_orders R). ro_venue_position_id r \<noteq> Some p \<and>
             fr_venue_order_id f = ro_venue_order_id r \<and> fr_trade_id f \<in> trade_id ` set (ro_fills r)) \<and>
          (\<forall>report\<in>set (ms_positions ms). ps_venue_position_id report \<noteq> p)
     else (\<forall>r\<in>set (rec_orders R). ro_venue_position_id r = Some p \<and>
             mi_instrument_for M (ro_symbol_id r) \<noteq> None \<and> \<not> unpriceable M r \<longrightarrow>
             (\<exists>report\<in>set (ms_orders ms). os_venue_order_id report = ro_venue_order_id r \<and>
                os_venue_position_id report = Some p) \<and>
             trade_id ` set (ro_fills r) \<subseteq> fr_trade_id ` set (ms_fills ms)) \<and>
          (\<forall>r\<in>set (rec_positions R). rq_venue_position_id r = p \<and>
             mi_instrument_for M (rq_symbol_id r) \<noteq> None \<longrightarrow>
             (\<exists>report\<in>set (ms_positions ms). ps_venue_position_id report = p))"
proof -
  obtain kept gone unfit rs where m: "made_of M R kept gone unfit rs ms" using mass_status_made_of [OF assms] by blast
  show ?thesis
  proof (cases "unfit (Some p)")
    case True
    with unfit_untold [OF m True] made_ofD(11) [OF m] show ?thesis by simp
  next
    case False
    with fit_order_told [OF m False] fit_position_told [OF m False] made_ofD(11) [OF m] show ?thesis by auto
  qed
qed

text \<open>
  C21: Where nothing misfits, nothing is lost or changed. If every constructor that takes a value holds that value and
  the callback was never called, then the reports are, in order, those of the reconciliation's records on loaded symbols
  but the ones with no price to be reported at, and exactly these are named as left out: the records whose type
  needs a price they do not state, with none that Nautilus holds and no fills, and stop-limit orders lacking a
  price. Each order is told with exactly its units, its filled units and its side,
  each of its fills once with exactly its size, price and position, each position with exactly its units,
  and every order has the prices its type needs, the venue's own where it stated one.\<close>

theorem reports_are_exactly_the_records:
  assumes "mass_status_of M R = Inr ms" and "ms_misfits ms = []" and "holds_values (mi_values M)"
  shows "let loaded = filter (\<lambda>r. mi_instrument_for M (ro_symbol_id r) \<noteq> None) (rec_orders R);
         told = filter (\<lambda>r. \<not> unpriceable M r) loaded
     in ms_left_out ms = filter (unpriceable M) loaded \<and>
        map order_terms (ms_orders ms) = map record_terms told \<and>
        map fill_report_terms (ms_fills ms) = map fill_terms (concat (map ro_fills told)) \<and>
        map (\<lambda>report. (ps_venue_position_id report, ps_quantity report)) (ms_positions ms) =
          map (\<lambda>r. (rq_venue_position_id r, rq_units r))
            (filter (\<lambda>r. mi_instrument_for M (rq_symbol_id r) \<noteq> None) (rec_positions R)) \<and>
        list_all2 (\<lambda>r report. has_its_prices (ro_order_type r) (os_price report) (os_trigger_price report) \<and>
          (ro_price r \<noteq> None \<longrightarrow> os_price report = ro_price r) \<and>
          (ro_trigger_price r \<noteq> None \<longrightarrow> os_trigger_price report = ro_trigger_price r)) told (ms_orders ms)"
proof -
  obtain kept gone unfit rs where m: "made_of M R kept gone unfit rs ms" using mass_status_made_of [OF assms(1)] by blast
  note d = made_ofD [OF m]
  let ?told = "filter (\<lambda>r. mi_instrument_for M (ro_symbol_id r) \<noteq> None \<and> r \<notin> set (ms_left_out ms)) (rec_orders R)"
  have fit: "\<not> unfit p" for p using d(10,11) assms(2) by (cases p) simp_all
  have "\<exists>y. report_of M k = Inr y" if "k \<in> set kept" for k
    using d(7,8) [OF that] fit assms(2)
    by (cases "report_of M k"; cases "ro_venue_position_id (fst k)") fastforce+
  then have told: "list_all2 (\<lambda>k y. tells M (fst k) (snd k) (fst y) (snd y)) kept rs"
    using d(2) fit by (intro kept_tells) simp_all
  have "list_all2 (\<lambda>r k. kept_of M r = Some k) ?told kept"
    unfolding told_records [OF d(1)] using keep_priced_parts [OF d(1)] map_filter_pairs by metis
  from list_all2_trans [OF _ this told, of "\<lambda>r y. told_as M r (fst y) (snd y)"]
  have all: "list_all2 (\<lambda>r y. told_as M r (fst y) (snd y)) ?told rs" by (simp add: told_as_def)
  note one = told_as_exactly [OF assms(3)]
  have "map order_terms (ms_orders ms) = map record_terms ?told"
    using all2_map [of order_terms fst record_terms ?told rs] list_all2_mono [OF all] one(1) by (simp add: d(3))
  moreover have "map fill_report_terms (ms_fills ms) = map fill_terms (concat (map ro_fills ?told))"
    unfolding d(4) by (rule all2_concat, rule list_all2_mono [OF all]) (rule one(2))
  moreover have "list_all2 (\<lambda>r report. has_its_prices (ro_order_type r) (os_price report) (os_trigger_price report) \<and>
          (ro_price r \<noteq> None \<longrightarrow> os_price report = ro_price r) \<and>
          (ro_trigger_price r \<noteq> None \<longrightarrow> os_trigger_price report = ro_trigger_price r)) ?told (ms_orders ms)"
    unfolding d(3) list_all2_map2 by (rule list_all2_mono [OF all]) (rule one(3))
  moreover have "map (\<lambda>report. (ps_venue_position_id report, ps_quantity report)) (ms_positions ms) =
          map (\<lambda>r. (rq_venue_position_id r, rq_units r))
            (filter (\<lambda>r. mi_instrument_for M (rq_symbol_id r) \<noteq> None) (rec_positions R))"
    unfolding d(12) using d(13) fit by (intro positions_told [OF assms(3)]) auto
  moreover have "ms_left_out ms =
      filter (unpriceable M) (filter (\<lambda>r. mi_instrument_for M (ro_symbol_id r) \<noteq> None) (rec_orders R))"
    unfolding left_out_exactly [OF d(1)] by (simp add: conj_commute)
  moreover have "filter (\<lambda>r. \<not> unpriceable M r) (filter (\<lambda>r. mi_instrument_for M (ro_symbol_id r) \<noteq> None) (rec_orders R)) = ?told"
    unfolding left_out_exactly [OF d(1)] by (auto simp: conj_commute intro: filter_cong)
  ultimately show ?thesis by (simp only: Let_def)
qed

subsection \<open>Witnesses\<close>

definition sample_traded :: traded where
  "sample_traded = \<lparr>ins_id = ''EURUSD.CTRADER'', ins_price_precision = 5, ins_symbol_id = 1,
     ins_size_precision = 0, ins_pair = Some (''EUR'', ''USD'')\<rparr>"

definition sample_mass :: mass_inputs where
  "sample_mass = \<lparr>mi_values = \<lparr>price_from = (\<lambda>x n. Some x), quantity_from = (\<lambda>x n. Some x),
       money_from = (\<lambda>x c. Some x)\<rparr>, mi_accepts_order = (\<lambda>report. True),
     mi_instrument_for = (\<lambda>s. if s = 1 then Some sample_traded else None), mi_currency = ''USD'',
     mi_held_price = (\<lambda>i. None), mi_known_id = (\<lambda>v. None), mi_refuse = False\<rparr>"

definition sample_entry_record :: ReportedOrder where
  "sample_entry_record = \<lparr>ro_venue_order_id = ''10'', ro_client_order_id = Some ''O-1'', ro_symbol_id = 1, ro_side = BUY,
     ro_order_type = Ext_MARKET, ro_status = Rep_FILLED, ro_units = 1000, ro_filled_units = 1000, ro_reduce_only = False,
     ro_venue_position_id = Some ''7'', ro_ts_accepted_ms = 1, ro_ts_ms = 2, ro_avg_price = Some (11 / 10),
     ro_price = None, ro_trigger_price = None, ro_time_in_force = None, ro_expire_ts_ms = None,
     ro_parent_order_id = None, ro_linked_order_ids = [''O-2'', ''O-3''], ro_contingency = Some Contingency.OTO,
     ro_fills = [\<lparr>trade_id = ''5'', fill_venue_position_id = ''7'', fill_side = BUY, fill_units = 1000,
       fill_price = 11 / 10, fill_commission = - 1, fill_ts_ms = 2\<rparr>]\<rparr>"

definition sample_leg_record :: "string \<Rightarrow> ExternalType \<Rightarrow> decimal option \<Rightarrow> ReportedOrder" where
  "sample_leg_record i t trigger = sample_entry_record\<lparr>ro_venue_order_id := i, ro_client_order_id := Some i,
     ro_side := SELL, ro_order_type := t, ro_status := Rep_ACCEPTED, ro_filled_units := 0, ro_reduce_only := True,
     ro_avg_price := None, ro_trigger_price := trigger, ro_parent_order_id := Some ''O-1'',
     ro_linked_order_ids := [], ro_contingency := None, ro_fills := []\<rparr>"

definition sample_bracket :: Reconciliation where
  "sample_bracket = \<lparr>rec_orders = [sample_entry_record, sample_leg_record ''O-2'' Ext_STOP_MARKET (Some 1),
       sample_leg_record ''O-3'' Ext_LIMIT None],
     rec_positions = [\<lparr>rq_venue_position_id = ''7'', rq_symbol_id = 1, rq_side = BUY, rq_units = 1000,
       rq_avg_price = 11 / 10, rq_ts_ms = 2\<rparr>], rec_notices = []\<rparr>"

lemma sample_mass_status:
  obtains ms where "mass_status_of sample_mass sample_bracket = Inr ms" "ms_misfits ms = []"
    "map os_linked_order_ids (ms_orders ms) = [[''O-2''], []]"
    "map ro_client_order_id (ms_left_out ms) = [Some ''O-3'']"
proof -
  have "(case mass_status_of sample_mass sample_bracket of Inl e \<Rightarrow> None
      | Inr ms \<Rightarrow> Some (ms_misfits ms, map os_linked_order_ids (ms_orders ms), map ro_client_order_id (ms_left_out ms))) =
    Some ([], [[''O-2''], []], [Some ''O-3''])"
    by code_simp
  with that show thesis by (auto split: sum.splits)
qed

lemma sample_bracket_linked:
  "\<forall>r\<in>set (rec_orders sample_bracket). \<forall>i. i \<in> set (ro_linked_order_ids r) \<or> ro_parent_order_id r = Some i \<longrightarrow>
      (\<exists>q\<in>set (rec_orders sample_bracket). ro_client_order_id q = Some i \<and> ro_symbol_id q = ro_symbol_id r)"
  by (auto simp: sample_bracket_def sample_leg_record_def sample_entry_record_def)

theorem linked_orders_are_reported_witness:
  "\<exists>ms other. mass_status_of sample_mass sample_bracket = Inr ms \<and> other \<in> set (ms_orders ms) \<and>
     os_client_order_id other = Some ''O-2'' \<and> map ro_client_order_id (ms_left_out ms) = [Some ''O-3'']"
proof -
  obtain ms where ms: "mass_status_of sample_mass sample_bracket = Inr ms"
    "map os_linked_order_ids (ms_orders ms) = [[''O-2''], []]" "map ro_client_order_id (ms_left_out ms) = [Some ''O-3'']"
    by (rule sample_mass_status)
  then obtain report where "report \<in> set (ms_orders ms)" "os_linked_order_ids report = [''O-2'']"
    by (fastforce simp: map_eq_Cons_conv)
  with linked_orders_are_reported [OF ms(1) sample_bracket_linked, of report "''O-2''"] ms show ?thesis by auto
qed

theorem positions_go_together_witness:
  "\<exists>ms. mass_status_of sample_mass sample_bracket = Inr ms \<and> (\<exists>f\<in>set (ms_fills ms). fr_trade_id f = ''5'')"
proof -
  obtain ms where ms: "mass_status_of sample_mass sample_bracket = Inr ms" "ms_misfits ms = []"
    "map ro_client_order_id (ms_left_out ms) = [Some ''O-3'']"
    by (rule sample_mass_status)
  have priced: "\<not> unpriceable sample_mass sample_entry_record"
    by (simp add: unpriceable_def has_its_prices_def sample_entry_record_def)
  have "sample_entry_record \<in> set (rec_orders sample_bracket)"
    "ro_venue_position_id sample_entry_record = Some ''7''"
    "mi_instrument_for sample_mass (ro_symbol_id sample_entry_record) \<noteq> None"
    by (simp_all add: sample_bracket_def sample_entry_record_def sample_mass_def)
  with positions_go_together [OF ms(1), of "''7''"] priced ms(2)
  have "trade_id ` set (ro_fills sample_entry_record) \<subseteq> fr_trade_id ` set (ms_fills ms)" by auto
  with ms(1) show ?thesis by (auto simp: sample_entry_record_def)
qed

theorem reports_are_exactly_the_records_witness:
  "\<exists>ms. mass_status_of sample_mass sample_bracket = Inr ms \<and>
     map (\<lambda>report. (ps_venue_position_id report, ps_quantity report)) (ms_positions ms) = [(''7'', 1000)]"
proof -
  obtain ms where ms: "mass_status_of sample_mass sample_bracket = Inr ms" "ms_misfits ms = []"
    by (rule sample_mass_status)
  have "holds_values (mi_values sample_mass)" by (simp add: holds_values_def sample_mass_def)
  from reports_are_exactly_the_records [OF ms this] ms(1) show ?thesis
    by (simp add: Let_def sample_bracket_def sample_mass_def)
qed

end
