(* ===== verification/Reconcile_Claims.thy ===== *)
theory Reconcile_Claims
  imports Reconcile
begin

text \<open>
  What reconciliation keeps: a report carries exactly the fills it was built from, a close still
  in flight is claimed by one order at most, and a standing leg takes the generation the venue
  model would give it.
\<close>

subsection \<open>What a report carries\<close>

lemma order_report_Inr:
  assumes "order_report order precision fills client reduce_only kind = Inr report"
  shows "ro_venue_order_id report = int_text (orderId order) \<and> ro_client_order_id report = client \<and>
    ro_reduce_only report = reduce_only \<and> ro_parent_order_id report = None \<and>
    ro_fills report = fills"
  using assms by (auto simp: order_report_def Let_def bind_result_Inr)

lemma leg_report_Inr:
  assumes "leg_report p level own parent linked fills vp live name found = Inr report"
  shows "ro_venue_order_id report = name \<and> ro_client_order_id report = own \<and>
    ro_reduce_only report \<and> ro_parent_order_id report = parent \<and> ro_fills report = fills"
  using assms
  by (auto simp: leg_report_def bind_result_Inr split: prod.splits)

lemma own_leg_Inr:
  assumes "own_leg p parent leg_ids leg_fills vp live (level, own) = Inr report"
  shows "ro_parent_order_id report = parent \<and> ro_fills report = dict_get leg_fills level []"
  using assms by (auto simp: own_leg_def Let_def bind_result_Inr dest: leg_report_Inr)

lemma own_legs_parent:
  "own_legs p parent leg_ids leg_fills vp live named = Inr reports \<Longrightarrow>
   \<forall>r \<in> set reports. ro_parent_order_id r = parent"
  by (induction named arbitrary: reports) (auto simp: bind_result_Inr dest: own_leg_Inr)

lemma foreign_level_client:
  assumes "foreign_level p leg_fills vp live held standing level = Inr reports"
  shows "\<forall>r \<in> set reports. ro_client_order_id r = None"
  using assms
  by (auto simp: foreign_level_def Let_def bind_result_Inr split: if_splits prod.splits
      dest: leg_report_Inr)

lemma gone_legs_client:
  "gone_legs p vp live ids names = Inr reports \<Longrightarrow> \<forall>r \<in> set reports. ro_client_order_id r = None"
proof (induction names arbitrary: reports)
  case (Cons name names)
  then show ?case
    by (auto simp: bind_result_Inr Let_def split: option.splits prod.splits if_splits
        dest!: leg_report_Inr)
qed simp

lemma foreign_leg_reports_client:
  assumes "foreign_leg_reports p leg_fills vp live held = Inr reports"
  shows "\<forall>r \<in> set reports. ro_client_order_id r = None"
proof -
  from assms obtain standing stop target gone ids names where
      "foreign_level p leg_fills vp live held standing STOP_LOSS = Inr stop"
      "foreign_level p leg_fills vp live held standing TAKE_PROFIT = Inr target"
      "gone_legs p vp live ids names = Inr gone" "reports = stop @ target @ gone"
    by (auto simp: foreign_leg_reports_def bind_result_Inr)
  then show ?thesis using foreign_level_client gone_legs_client by fastforce
qed

text \<open>One protective order: nothing filled, or its fills go to the levels and the rest.\<close>

lemma triggers_step:
  assumes "triggers p with_legs (order # orders) (leg_fills, external, notices) = Inr st'"
  obtains "fills_of p order = []" "triggers p with_legs orders (leg_fills, external, notices) = Inr st'"
  | lv leg_fills' untaken kind notices' external' where
      "fold (take_trigger (lp_side p) lv with_legs) (fills_of p order)
         (leg_fills, [], Ext_MARKET, notices) = (leg_fills', untaken, kind, notices')"
      "triggers p with_legs orders (leg_fills', external', notices') = Inr st'"
      "untaken = [] \<and> external' = external \<or>
       (\<exists>report. order_report order (lp_precision p) untaken None True (Some kind) = Inr report \<and>
          external' = external @ [report])"
proof (cases "fills_of p order = []")
  case True
  with assms that(1) show ?thesis by simp
next
  case False
  with assms obtain lv where lv: "levels_of order (lp_precision p) = Inr lv"
    by (auto simp: bind_result_Inr)
  obtain lf ut k nt where f: "fold (take_trigger (lp_side p) lv with_legs) (fills_of p order)
      (leg_fills, [], Ext_MARKET, notices) = (lf, ut, k, nt)"
    by (metis prod_cases4)
  show ?thesis
  proof (cases "ut = []")
    case True
    with assms False lv f have "triggers p with_legs orders (lf, external, nt) = Inr st'" by simp
    with that(2) [OF f] True show ?thesis by blast
  next
    case ut: False
    with assms False lv f obtain report where
        "order_report order (lp_precision p) ut None True (Some k) = Inr report"
        "triggers p with_legs orders (lf, external @ [report], nt) = Inr st'"
      by (auto simp: bind_result_Inr)
    with that(2) [OF f] show ?thesis by blast
  qed
qed

lemma triggers_client:
  assumes "triggers p with_legs orders (leg_fills, external, notices) = Inr (lf, ext, nt)"
    and "\<forall>r \<in> set external. ro_client_order_id r = None"
  shows "\<forall>r \<in> set ext. ro_client_order_id r = None"
  using assms
proof (induction orders arbitrary: leg_fills external notices)
  case (Cons order orders)
  from Cons.prems(1) show ?case
  proof (cases rule: triggers_step)
    case 1
    with Cons.IH Cons.prems(2) show ?thesis by blast
  next
    case (2 lv lf' ut k nt' external')
    then have "\<forall>r \<in> set external'. ro_client_order_id r = None"
      using Cons.prems(2) by (auto dest: order_report_Inr)
    with Cons.IH 2(2) show ?thesis by blast
  qed
qed simp

lemma raise_reports_opening:
  "raise_reports p orders = Inr reports \<Longrightarrow>
   (\<forall>r \<in> set reports. \<not> ro_reduce_only r) \<and> map ro_fills reports = map (fills_of p) orders"
proof (induction orders arbitrary: reports)
  case (Cons order orders)
  then obtain r others where r: "order_report order (lp_precision p) (fills_of p order) None False None
      = Inr r" "raise_reports p orders = Inr others" "reports = r # others"
    by (auto simp: bind_result_Inr)
  with Cons.IH order_report_Inr [OF r(1)] show ?case by simp
qed simp

lemma entry_report_Inr:
  assumes "entry_report p = Inr report"
  shows "ro_venue_order_id report = int_text (orderId (lp_entry p)) \<and> \<not> ro_reduce_only report \<and>
    ro_fills report = lp_entry_fills p"
proof -
  obtain entry where e: "order_report (lp_entry p) (lp_precision p) (lp_entry_fills p)
      (parse_label (label (tradeData (lp_entry p)))) False None = Inr entry"
    and report: "report = (if fst (named_legs p) \<noteq> []
      then entry\<lparr>ro_linked_order_ids := map snd (fst (named_legs p)), ro_contingency := Some OTO\<rparr>
      else entry)"
    using assms by (auto simp: entry_report_def bind_result_Inr Let_def)
  from order_report_Inr [OF e] show ?thesis by (simp add: report)
qed

text \<open>The parts of a position's reports, once it has them.\<close>

lemma position_reports_parts:
  assumes "position_reports p vp live known ops claimed window held = Inr (reports, said, claimed')"
  obtains entry raised closed leg_fills external notices foreign own where
    "entry_report p = Inr entry"
    "raise_reports p (lp_raises p) = Inr raised"
    "close_reports p known ops window (closing_orders p) claimed = Inr (closed, claimed')"
    "triggers p (if parse_label (label (tradeData (lp_entry p))) = None then LEVELS
                 else map fst (fst (named_legs p))) (lp_protective p) ([], [], [])
       = Inr (leg_fills, external, notices)"
    "(if parse_label (label (tradeData (lp_entry p))) = None
      then foreign_leg_reports p leg_fills vp live held else Inr []) = Inr foreign"
    "own_legs p (parse_label (label (tradeData (lp_entry p)))) (fst (named_legs p)) leg_fills vp live
       (fst (named_legs p)) = Inr own"
    "reports = entry # raised @ closed @ foreign @ own @ external"
  using assms unfolding position_reports_def Let_def bind_result_Inr
  by (auto simp: bind_result_Inr)

subsection \<open>A leg's generation\<close>

lemma standing_generation:
  "fst (generation_from held e l ids True taken g) = open_generation (ho_closed held) e l g"
proof (induction held e l ids "True" taken g rule: generation_from.induct)
  case (1 held e l ids taken g)
  then show ?case
    by (simp add: generation_from.simps [of held e l ids True taken g]
        open_generation.simps [of "ho_closed held" e l g] Let_def)
qed

subsection \<open>A close in flight is claimed once\<close>

text \<open>A report of a closing order that carries a client order id: not a leg, not an entry.\<close>

definition names_close :: "ReportedOrder \<Rightarrow> bool" where
  "names_close r \<longleftrightarrow>
     ro_reduce_only r \<and> ro_parent_order_id r = None \<and> ro_client_order_id r \<noteq> None"

text \<open>The ids of the closes the venue model has matched itself.\<close>

definition matched_ids :: "(int, string) dict \<Rightarrow> string set" where
  "matched_ids known = snd ` set known"

definition given_ids :: "(int, string) dict \<Rightarrow> ReportedOrder list \<Rightarrow> string list" where
  "given_ids known rs =
     filter (\<lambda>i. i \<notin> matched_ids known) (map (the \<circ> ro_client_order_id) (filter names_close rs))"

definition matched_right :: "(int, string) dict \<Rightarrow> ReportedOrder \<Rightarrow> bool" where
  "matched_right known r \<longleftrightarrow>
     (names_close r \<and> the (ro_client_order_id r) \<in> matched_ids known \<longrightarrow>
      (\<exists>i. ro_venue_order_id r = int_text i \<and> map_of known i = ro_client_order_id r))"

definition claims_ok :: "(int, string) dict \<Rightarrow> string set \<Rightarrow> ReportedOrder list \<Rightarrow> bool" where
  "claims_ok known claimed rs \<longleftrightarrow>
     matched_ids known \<subseteq> claimed \<and> distinct (given_ids known rs) \<and>
     set (given_ids known rs) \<subseteq> claimed \<and> (\<forall>r \<in> set rs. matched_right known r)"

lemma claims_ok_silent:
  assumes "claims_ok known claimed rs" and "\<forall>r \<in> set rs2. \<not> names_close r"
  shows "claims_ok known claimed (rs @ rs2)"
proof -
  have "filter names_close rs2 = []" using assms(2) by simp
  with assms show ?thesis by (auto simp: claims_ok_def given_ids_def matched_right_def)
qed

lemma claims_ok_close:
  assumes "claims_ok known claimed rs"
    and "close_id order known ops claimed ask = (client, claimed')"
    and r: "ro_client_order_id r = client" "ro_venue_order_id r = int_text (orderId order)"
  shows "claims_ok known claimed' (rs @ [r])"
proof (cases "map_of known (orderId order)")
  case (Some i)
  with assms(2) have c: "client = Some i" "claimed' = claimed" by (auto simp: close_id_def)
  from Some have i: "i \<in> matched_ids known"
    by (auto simp: matched_ids_def image_iff dest!: map_of_SomeD intro: rev_bexI)
  have "matched_right known r" using Some c r by (auto simp: matched_right_def)
  with assms(1) c r i show ?thesis
    by (auto simp: claims_ok_def given_ids_def)
next
  case None
  show ?thesis
  proof (cases "client = None")
    case True
    with None assms(2) have "claimed' = claimed"
      by (auto simp: close_id_def split: if_splits option.splits)
    with claims_ok_silent [OF assms(1), of "[r]"] r True show ?thesis
      by (simp add: names_close_def)
  next
    case False
    with None assms(2) obtain i where i: "client = Some i" "i \<notin> claimed" "claimed' = insert i claimed"
      by (auto simp: close_id_def split: if_splits option.splits)
    with assms(1) have "i \<notin> matched_ids known" "i \<notin> set (given_ids known rs)"
      by (auto simp: claims_ok_def)
    with assms(1) i r show ?thesis
      by (auto simp: claims_ok_def given_ids_def matched_right_def)
  qed
qed

lemma close_reports_claims:
  "claims_ok known claimed rs \<Longrightarrow>
   close_reports p known ops window orders claimed = Inr (reports, claimed') \<Longrightarrow>
   claims_ok known claimed' (rs @ reports)"
proof (induction orders arbitrary: claimed rs reports)
  case (Cons order orders)
  let ?ask = "list_ex (\<lambda>fill. trade_id fill \<in> window) (fills_of p order)"
  obtain client claimed1 where c: "close_id order known ops claimed ?ask = (client, claimed1)"
    by (cases "close_id order known ops claimed ?ask")
  with Cons.prems(2) obtain r others where
      r: "order_report order (lp_precision p) (fills_of p order) client True (Some Ext_MARKET) = Inr r"
      and others: "close_reports p known ops window orders claimed1 = Inr (others, claimed')"
      and reports: "reports = r # others"
    by (auto simp: bind_result_Inr Let_def)
  have "claims_ok known claimed1 (rs @ [r])"
    using claims_ok_close [OF Cons.prems(1) c] order_report_Inr [OF r] by simp
  from Cons.IH [OF this others] reports show ?case by simp
qed simp

lemma position_reports_claims:
  assumes "claims_ok known claimed rs"
    and "position_reports p vp live known ops claimed window held = Inr (reports, said, claimed')"
  shows "claims_ok known claimed' (rs @ reports)"
  using assms(2)
proof (rule position_reports_parts)
  let ?parent = "parse_label (label (tradeData (lp_entry p)))"
  fix entry raised closed leg_fills external notices foreign own
  assume parts: "entry_report p = Inr entry"
    "raise_reports p (lp_raises p) = Inr raised"
    "close_reports p known ops window (closing_orders p) claimed = Inr (closed, claimed')"
    "triggers p (if ?parent = None then LEVELS else map fst (fst (named_legs p)))
       (lp_protective p) ([], [], []) = Inr (leg_fills, external, notices)"
    "(if ?parent = None then foreign_leg_reports p leg_fills vp live held else Inr []) = Inr foreign"
    "own_legs p ?parent (fst (named_legs p)) leg_fills vp live (fst (named_legs p)) = Inr own"
    and reports: "reports = entry # raised @ closed @ foreign @ own @ external"
  have "\<forall>r \<in> set (entry # raised). \<not> names_close r"
    using entry_report_Inr [OF parts(1)] raise_reports_opening [OF parts(2)]
    by (auto simp: names_close_def)
  from claims_ok_silent [OF assms(1) this]
  have "claims_ok known claimed' ((rs @ entry # raised) @ closed)"
    using parts(3) by (rule close_reports_claims)
  moreover have "\<forall>r \<in> set (foreign @ own @ external). \<not> names_close r"
  proof -
    have "\<forall>r \<in> set foreign. ro_client_order_id r = None"
      using parts(5) foreign_leg_reports_client by (auto split: if_splits)
    moreover have "\<forall>r \<in> set external. ro_client_order_id r = None"
      using triggers_client [OF parts(4)] by simp
    moreover have "\<forall>r \<in> set own. ro_parent_order_id r \<noteq> None"
    proof (cases "?parent = None")
      case True
      then have "fst (named_legs p) = []" by (simp add: named_legs_def)
      with parts(6) show ?thesis by simp
    next
      case False
      with own_legs_parent [OF parts(6)] show ?thesis by simp
    qed
    ultimately show ?thesis by (auto simp: names_close_def)
  qed
  ultimately show ?thesis
    using reports claims_ok_silent by fastforce
qed

subsection \<open>The loops of the whole account\<close>

text \<open>What one position adds: nothing but notices and positions, or a taken position's reports.\<close>

lemma map_snd_keyed [simp]: "map snd (keyed_reports reports) = reports"
  by (simp add: keyed_reports_def Let_def o_def case_prod_unfold)

lemma take_position_Inr:
  assumes "take_position env p found vp st = Inr st'"
  obtains reports said where
    "position_reports p vp (map_of (re_live_protective env) (lp_position_id p)) (re_known_closes env)
       (re_operations env) (rs_claimed st) (re_in_window env) (re_held env)
     = Inr (reports, said, rs_claimed st')"
    "rs_keyed st' = rs_keyed st @ keyed_reports reports"
  using assms by (auto simp: take_position_def bind_result_Inr Let_def split: option.splits)

lemma say_frame [frame_simps]:
  "rs_keyed (say n st) = rs_keyed st" "rs_claimed (say n st) = rs_claimed st"
  by (simp_all add: say_def)

lemma reconcile_position_Inr:
  assumes "reconcile_position env pid symbol st = Inr st'"
  obtains "rs_keyed st' = rs_keyed st" "rs_claimed st' = rs_claimed st"
  | p found vp where "take_position env p found vp st = Inr st'"
  using assms
  by (auto simp: reconcile_position_def bind_result_Inr Let_def frame_simps
      split: option.splits if_splits)

definition state_claims_ok :: "reconcile_env \<Rightarrow> reconcile_state \<Rightarrow> bool" where
  "state_claims_ok env st \<longleftrightarrow>
     claims_ok (re_known_closes env) (rs_claimed st) (map snd (rs_keyed st))"

lemma reconcile_position_claims:
  assumes "state_claims_ok env st" and "reconcile_position env pid symbol st = Inr st'"
  shows "state_claims_ok env st'"
  using assms(2)
proof (cases rule: reconcile_position_Inr)
  case 1
  with assms(1) show ?thesis by (simp add: state_claims_ok_def)
next
  case (2 p found vp)
  then show ?thesis
  proof (rule take_position_Inr)
    fix reports said
    assume r: "position_reports p vp (map_of (re_live_protective env) (lp_position_id p))
        (re_known_closes env) (re_operations env) (rs_claimed st) (re_in_window env) (re_held env)
        = Inr (reports, said, rs_claimed st')"
      and k: "rs_keyed st' = rs_keyed st @ keyed_reports reports"
    from position_reports_claims [OF _ r, of "map snd (rs_keyed st)"] assms(1) k
    show ?thesis by (simp add: state_claims_ok_def)
  qed
qed

lemma reconcile_positions_claims:
  "state_claims_ok env st \<Longrightarrow> reconcile_positions env symbols pids st = Inr st' \<Longrightarrow>
   state_claims_ok env st'"
  by (induction pids arbitrary: st) (auto simp: bind_result_Inr dest: reconcile_position_claims)

text \<open>One other order of the snapshot: passed over, or reported under the id it is given.\<close>

lemma other_orders_step:
  assumes "other_orders env ids (order # orders) st = Inr st'"
  obtains "other_orders env ids orders st = Inr st'"
  | client claimed report where
      "if closingOrder order
       then close_id order (re_known_closes env) (re_operations env) (rs_claimed st) True
              = (client, claimed)
       else (client, claimed) = (parse_label (label (tradeData order)), rs_claimed st)"
      "ro_client_order_id report = client" "ro_venue_order_id report = int_text (orderId order)"
      "ro_reduce_only report = closingOrder order"
      "other_orders env ids orders
         (st\<lparr>rs_keyed := rs_keyed st @ [(report_key report 0 False, report)],
             rs_claimed := claimed\<rparr>) = Inr st'"
proof (cases "orderType order = STOP_LOSS_TAKE_PROFIT \<or> int_text (orderId order) \<in> ids \<or>
    re_precision env (symbolId (tradeData order)) = None")
  case True
  with assms that(1) show ?thesis by (auto split: if_splits)
next
  case False
  then obtain digits where d: "re_precision env (symbolId (tradeData order)) = Some digits" by blast
  let ?given = "if closingOrder order
     then close_id order (re_known_closes env) (re_operations env) (rs_claimed st) True
     else (parse_label (label (tradeData order)), rs_claimed st)"
  obtain client claimed where c: "?given = (client, claimed)" by (cases ?given)
  from False d assms c obtain report where
      r: "unfilled_order order digits client = Inr report"
      "other_orders env ids orders
         (st\<lparr>rs_keyed := rs_keyed st @ [(report_key report 0 False, report)],
             rs_claimed := claimed\<rparr>) = Inr st'"
    by (auto simp: bind_result_Inr)
  show ?thesis
  proof (rule that(2) [OF _ _ _ _ r(2)])
    show "if closingOrder order
       then close_id order (re_known_closes env) (re_operations env) (rs_claimed st) True
              = (client, claimed)
       else (client, claimed) = (parse_label (label (tradeData order)), rs_claimed st)"
      using c by (auto split: if_splits)
  qed (use order_report_Inr r(1) in \<open>auto simp: unfilled_order_def\<close>)
qed

lemma other_orders_claims:
  "state_claims_ok env st \<Longrightarrow> other_orders env ids orders st = Inr st' \<Longrightarrow> state_claims_ok env st'"
proof (induction orders arbitrary: st)
  case (Cons order orders)
  from Cons.prems(2) show ?case
  proof (cases rule: other_orders_step)
    case 1
    with Cons show ?thesis by blast
  next
    case (2 client claimed report)
    let ?st = "st\<lparr>rs_keyed := rs_keyed st @ [(report_key report 0 False, report)],
      rs_claimed := claimed\<rparr>"
    have ok: "claims_ok (re_known_closes env) (rs_claimed st) (map snd (rs_keyed st))"
      using Cons.prems(1) by (simp add: state_claims_ok_def)
    have "claims_ok (re_known_closes env) claimed (map snd (rs_keyed st) @ [report])"
    proof (cases "closingOrder order")
      case True
      with 2 show ?thesis by (auto intro: claims_ok_close [OF ok])
    next
      case False
      with 2 have "\<forall>r \<in> set [report]. \<not> names_close r" "claimed = rs_claimed st"
        by (simp_all add: names_close_def)
      with claims_ok_silent [OF ok, of "[report]"] show ?thesis by simp
    qed
    then have "state_claims_ok env ?st" by (simp add: state_claims_ok_def)
    with Cons.IH 2 show ?thesis by blast
  qed
qed simp

lemma claims_ok_mset:
  assumes "claims_ok known claimed rs" and "mset rs' = mset rs"
  shows "distinct (given_ids known rs') \<and> (\<forall>r \<in> set rs'. matched_right known r)"
proof -
  have "mset (given_ids known rs') = mset (given_ids known rs)"
    using assms(2) by (simp add: given_ids_def)
  then have "distinct (given_ids known rs') = distinct (given_ids known rs)"
    by (rule mset_eq_imp_distinct_iff)
  moreover have "set rs' = set rs" using assms(2) by (rule mset_eq_setD)
  ultimately show ?thesis using assms(1) by (simp add: claims_ok_def)
qed

text \<open>\<open>reconcile\<close>, once it answers: its two loops and the sort.\<close>

lemma reconcile_parts:
  assumes "reconcile snapshot histories window precision known ops held digits = Inr r"
  obtains st st' where
    "reconcile_positions (env_of snapshot histories window precision known ops held digits)
       (symbols_of snapshot histories window)
       (sort (map fst (symbols_of snapshot histories window)))
       \<lparr>rs_keyed = [], rs_positions = [], rs_notices = [], rs_claimed = set (map snd known)\<rparr> = Inr st"
    "other_orders (env_of snapshot histories window precision known ops held digits)
       (set (map (ro_venue_order_id \<circ> snd) (rs_keyed st))) (snap_order snapshot) st = Inr st'"
    "rec_orders r = map snd (sort_key fst (rs_keyed st'))"
    "rec_positions r = rs_positions st'"
  using assms unfolding reconcile_def Let_def bind_result_Inr by force

text \<open>
  C20: reconciliation gives a close still in flight to one order at most, however many orders of
  its volume the broker lists, and never gives out a close the venue model has already matched:
  a report that carries a matched close's id is that of the very order it was matched to.
\<close>

theorem close_ids_given_once:
  assumes "reconcile snapshot histories window precision known ops held digits = Inr r"
  shows "distinct (given_ids known (rec_orders r)) \<and>
    (\<forall>report \<in> set (rec_orders r). matched_right known report)"
  using assms
proof (rule reconcile_parts)
  let ?env = "env_of snapshot histories window precision known ops held digits"
  let ?st0 = "\<lparr>rs_keyed = [], rs_positions = [], rs_notices = [], rs_claimed = set (map snd known)\<rparr>"
  fix st st'
  assume loops: "reconcile_positions ?env (symbols_of snapshot histories window)
      (sort (map fst (symbols_of snapshot histories window))) ?st0 = Inr st"
    "other_orders ?env (set (map (ro_venue_order_id \<circ> snd) (rs_keyed st))) (snap_order snapshot) st
     = Inr st'"
    and orders: "rec_orders r = map snd (sort_key fst (rs_keyed st'))"
  have "state_claims_ok ?env ?st0"
    by (simp add: state_claims_ok_def claims_ok_def given_ids_def matched_ids_def env_of_def)
  with loops have "state_claims_ok ?env st'"
    by (blast intro: reconcile_positions_claims other_orders_claims)
  then have "claims_ok known (rs_claimed st') (map snd (rs_keyed st'))"
    by (simp add: state_claims_ok_def env_of_def)
  from claims_ok_mset [OF this, of "rec_orders r"] orders show ?thesis by simp
qed

text \<open>Two orders of the volume of one close in flight: the first listed takes its id.\<close>

definition sample_closing_order :: "int \<Rightarrow> ProtoOAOrder" where
  "sample_closing_order i = default_order
     \<lparr>orderId := i, closingOrder := True, f_positionId := Some 7,
      f_tradeData := Some (default_tradeData\<lparr>symbolId := 1, volume := 5, f_openTimestamp := Some 9\<rparr>)\<rparr>"

definition nothing_held :: HeldOrders where
  "nothing_held = \<lparr>ho_closed = [], ho_trade_ids = (\<lambda>_. []), ho_open_legs = (\<lambda>_. [])\<rparr>"

definition sample_closes :: "Reconciliation venue_result" where
  "sample_closes =
     reconcile \<lparr>snap_position = [], snap_order = [sample_closing_order 3, sample_closing_order 4]\<rparr>
       [] [] (\<lambda>_. Some 2) [] (begin_close ''A'' 7 5 2 no_operations) nothing_held 2"

lemma sample_closes_ids:
  "(case sample_closes of Inl _ \<Rightarrow> False | Inr r \<Rightarrow>
     given_ids [] (rec_orders r) = [''A''] \<and> length (rec_orders r) = 2)"
  by code_simp

lemma close_ids_given_once_witness:
  "\<exists>r. sample_closes = Inr r \<and> given_ids [] (rec_orders r) = [''A''] \<and>
       distinct (given_ids [] (rec_orders r)) \<and> (\<forall>x \<in> set (rec_orders r). matched_right [] x)"
proof (cases sample_closes)
  case (Inl e)
  have False using sample_closes_ids unfolding Inl sum.case .
  then show ?thesis ..
next
  case (Inr r)
  have "given_ids [] (rec_orders r) = [''A'']" using sample_closes_ids unfolding Inr sum.case by simp
  with close_ids_given_once [OF Inr [unfolded sample_closes_def]] Inr show ?thesis by blast
qed

text \<open>
  where a level stands, reconciliation and the venue model agree on the leg: the order
  reconciliation reports for a foreign position's level has the name and the generation of the
  leg the venue model opens for it, whatever orders Nautilus holds closed.
\<close>

theorem standing_leg_is_the_books:
  assumes "map_of (foreign_legs position) level = None"
    and "open_leg (orderId (lp_entry p)) position level (ho_closed held) = (position', leg)"
    and "leg_generation p level fills held True = (venue_order_id, generation, kept)"
  shows "venue_order_id = fl_venue_order_id leg \<and> generation = fl_generation leg"
proof -
  have "generation = open_generation (ho_closed held) (orderId (lp_entry p)) level 1"
    using assms(3) standing_generation [of held "orderId (lp_entry p)" level
        "set (map trade_id fills)" "{}" 1]
    by (auto simp: leg_generation_def split: prod.splits)
  with assms show ?thesis
    by (auto simp: open_leg_def Let_def leg_generation_def split: prod.splits)
qed

text \<open>Nautilus holds the first stop leg of entry 5 closed: both take generation 2.\<close>

definition sample_listed :: ListedPosition where
  "sample_listed =
     \<lparr>lp_position_id = 7, lp_entry = default_order\<lparr>orderId := 5\<rparr>, lp_precision = 2, lp_side = BUY,
      lp_deals = [], lp_fills = [], lp_entry_fills = [], lp_raises = [], lp_orders = [],
      lp_protective = []\<rparr>"

definition sample_held :: HeldOrders where
  "sample_held = nothing_held\<lparr>ho_closed := [''5-SL'']\<rparr>"

lemma sample_generation:
  "leg_generation sample_listed STOP_LOSS [] sample_held True = (''5-SL-2'', 2, [])"
  by code_simp

lemma standing_leg_is_the_books_witness:
  "(let leg = snd (open_leg 5 (new_Position 7 1 BUY) STOP_LOSS [''5-SL''])
    in ''5-SL-2'' = fl_venue_order_id leg \<and> 2 = fl_generation leg)"
proof -
  obtain position' leg where leg: "open_leg 5 (new_Position 7 1 BUY) STOP_LOSS [''5-SL''] = (position', leg)"
    by (cases "open_leg 5 (new_Position 7 1 BUY) STOP_LOSS [''5-SL'']")
  have "''5-SL-2'' = fl_venue_order_id leg \<and> 2 = fl_generation leg"
  proof (rule standing_leg_is_the_books [OF _ _ sample_generation])
    show "map_of (foreign_legs (new_Position 7 1 BUY)) STOP_LOSS = None"
      by (simp add: new_Position_def)
    show "open_leg (orderId (lp_entry sample_listed)) (new_Position 7 1 BUY) STOP_LOSS
        (ho_closed sample_held) = (position', leg)"
      using leg by (simp add: sample_listed_def sample_held_def)
  qed
  with leg show ?thesis by simp
qed

end
