(* ===== verification/Reconcile_Whole.thy ===== *)
theory Reconcile_Whole
  imports Reconcile_Claims
begin

text \<open>
  What reconciliation reports of a position it takes: its entry comes before everything else of
  it, and for the node's own position every deal of its lists is in exactly one report.
\<close>

subsection \<open>Sorting\<close>

lemma sorted_greater_after:
  assumes "x \<in> set xs"
  shows "\<exists>before after. sort_key f xs = before @ x # after \<and>
    filter_mset (\<lambda>y. f x < f y) (mset xs) \<subseteq># mset after"
proof -
  have "x \<in> set (sort_key f xs)" using assms by simp
  then obtain before after where s: "sort_key f xs = before @ x # after"
    by (meson split_list)
  have "sorted (map f (before @ x # after))"
    unfolding s [symmetric] by simp
  then have "\<forall>y \<in> set before. f y \<le> f x" by (auto simp: sorted_append)
  then have "filter_mset (\<lambda>y. f x < f y) (mset before) = {#}"
    by (induction before) (auto simp: not_less)
  moreover have "mset xs = mset before + add_mset x (mset after)"
    using arg_cong [OF s, of mset] by simp
  ultimately have "filter_mset (\<lambda>y. f x < f y) (mset xs) = filter_mset (\<lambda>y. f x < f y) (mset after)"
    by simp
  then show ?thesis using s by (metis multiset_filter_subset)
qed

lemma key_after_entry:
  assumes "\<not> ro_reduce_only entry"
  shows "report_key entry (fst (report_key entry 0 False)) True
    < report_key report (fst (report_key entry 0 False)) False"
  using assms by (auto simp: report_key_def Let_def less_prod_def)

lemma keyed_reports_after:
  assumes "reports = entry # others" and "\<not> ro_reduce_only entry"
  shows "\<exists>k. keyed_reports reports = (k, entry) # tl (keyed_reports reports) \<and>
    (\<forall>x \<in> set (tl (keyed_reports reports)). k < fst x)"
proof -
  let ?ts = "fst (report_key entry 0 False)"
  have "keyed_reports reports = (report_key entry ?ts True, entry) #
      map (\<lambda>(index, report). (report_key report ?ts (index = 0), report)) (enumerate 1 others)"
    using assms(1) by (simp add: keyed_reports_def Let_def)
  moreover have "\<forall>x \<in> set (map (\<lambda>(index, report). (report_key report ?ts (index = 0), report))
      (enumerate 1 others)). report_key entry ?ts True < fst x"
    using key_after_entry [OF assms(2)] by (auto simp: in_set_enumerate_eq)
  ultimately show ?thesis by auto
qed

text \<open>In the sorted list, a group of reports stands with its entry before the rest.\<close>

lemma group_in_order:
  assumes "reports = entry # others" and "\<not> ro_reduce_only entry"
    and "mset (keyed_reports reports) \<subseteq># mset keyed"
  shows "\<exists>before after. map snd (sort_key fst keyed) = before @ entry # after \<and>
    mset others \<subseteq># mset after"
proof -
  obtain k where k: "keyed_reports reports = (k, entry) # tl (keyed_reports reports)"
      "\<forall>x \<in> set (tl (keyed_reports reports)). k < fst x"
    using keyed_reports_after [OF assms(1,2)] by blast
  from k(1) assms(3) have in_keyed: "add_mset (k, entry) (mset (tl (keyed_reports reports))) \<subseteq># mset keyed"
    by (metis mset.simps(2))
  then have "(k, entry) \<in> set keyed"
    by (metis mset_subset_eq_insertD set_mset_mset)
  from sorted_greater_after [OF this, of fst] obtain before after where
      s: "sort_key fst keyed = before @ (k, entry) # after"
      "filter_mset (\<lambda>y. k < fst y) (mset keyed) \<subseteq># mset after" by auto
  have "mset (tl (keyed_reports reports)) \<subseteq># mset keyed"
    using in_keyed by (metis add_mset_add_single mset_subset_eq_add_left subset_mset.order_trans)
  then have "filter_mset (\<lambda>y. k < fst y) (mset (tl (keyed_reports reports)))
      \<subseteq># filter_mset (\<lambda>y. k < fst y) (mset keyed)"
    by (rule multiset_filter_mono)
  moreover have "filter_mset (\<lambda>y. k < fst y) (mset (tl (keyed_reports reports)))
      = mset (tl (keyed_reports reports))"
    using k(2) by (simp add: filter_mset_eq_conv)
  ultimately have "mset (tl (keyed_reports reports)) \<subseteq># mset after"
    using s(2) by simp
  then have "image_mset snd (mset (tl (keyed_reports reports))) \<subseteq># image_mset snd (mset after)"
    by (rule image_mset_subseteq_mono)
  moreover have "map snd (tl (keyed_reports reports)) = others"
    using assms(1) by (simp add: map_tl)
  ultimately have "mset others \<subseteq># mset (map snd after)" by (metis mset_map)
  moreover have "map snd (sort_key fst keyed) = map snd before @ entry # map snd after"
    by (simp add: s(1))
  ultimately show ?thesis by blast
qed

subsection \<open>A taken position's reports reach the answer\<close>

lemma position_reports_entry:
  assumes "position_reports p vp live known ops claimed window held = Inr (reports, said, claimed')"
  obtains entry others where "reports = entry # others" "\<not> ro_reduce_only entry"
    "ro_venue_order_id entry = int_text (orderId (lp_entry p))" "ro_fills entry = lp_entry_fills p"
  using assms by (rule position_reports_parts) (use entry_report_Inr in blast)

lemma mset_append_grows: "mset xs \<subseteq># mset (xs @ ys)"
  by simp

lemma take_position_grows:
  assumes "take_position env p found vp st = Inr st'"
  shows "mset (rs_keyed st) \<subseteq># mset (rs_keyed st')"
  using assms by (rule take_position_Inr) simp

lemma reconcile_positions_grow:
  "reconcile_positions env symbols pids st = Inr st' \<Longrightarrow> mset (rs_keyed st) \<subseteq># mset (rs_keyed st')"
proof (induction pids arbitrary: st)
  case (Cons pid pids)
  then obtain st1 where st1: "reconcile_position env pid (dict_get symbols pid 0) st = Inr st1"
      "mset (rs_keyed st1) \<subseteq># mset (rs_keyed st')"
    by (auto simp: bind_result_Inr)
  from st1(1) have "mset (rs_keyed st) \<subseteq># mset (rs_keyed st1)"
  proof (cases rule: reconcile_position_Inr)
    case (2 p found vp)
    then show ?thesis by (rule take_position_grows)
  qed simp
  with st1(2) show ?case by (rule subset_mset.order_trans [rotated])
qed simp

lemma other_orders_grow:
  "other_orders env ids orders st = Inr st' \<Longrightarrow> mset (rs_keyed st) \<subseteq># mset (rs_keyed st')"
proof (induction orders arbitrary: st)
  case (Cons order orders)
  from Cons.prems show ?case
  proof (cases rule: other_orders_step)
    case 1
    with Cons.IH show ?thesis by blast
  next
    case (2 client claimed report)
    from Cons.IH [OF 2(5)] show ?thesis
      by simp (metis add_mset_add_single mset_subset_eq_add_left subset_mset.order_trans)
  qed
qed simp

text \<open>
  What a position counts as, decided by its own deals: absent when it is not taken, else the
  snapshot's position it is reported with, none for a closed one.
\<close>

definition taken_as :: "PositionHistory \<Rightarrow> ProtoOAPosition option \<Rightarrow> ProtoOAPosition option option" where
  "taken_as found venue_position =
     (if venue_position \<noteq> None \<and> open_volume found \<le> 0 \<and> ph_complete found then Some None
      else if venue_position = None \<and> 0 < open_volume found then None
      else Some venue_position)"

lemma reconcile_position_taken:
  assumes "reconcile_position env pid symbol st = Inr st'"
    and "re_precision env symbol = Some digits" "map_of (re_histories env) pid = Some found"
    and "entry_of (ph_orders found) = Some entry"
    and "listed_position pid entry found digits (re_account_digits env) = Inr p"
    and "lp_entry_fills p \<noteq> []" and "taken_as found (map_of (re_open env) pid) = Some vp"
  shows "take_position env p found vp st = Inr st'"
  using assms
  by (auto simp: reconcile_position_def taken_as_def Let_def split: if_splits)

subsection \<open>The fills of a position's lists\<close>

definition deal_ids :: "ProtoOADeal list \<Rightarrow> string list" where
  "deal_ids deals = map (\<lambda>deal. int_text (dealId deal)) deals"

definition deals_of :: "int \<Rightarrow> ProtoOADeal list \<Rightarrow> ProtoOADeal list" where
  "deals_of i deals = filter (\<lambda>deal. d_orderId deal = i) deals"

lemma fill_of_id: "fill_of deal digits account = Inr fill \<Longrightarrow> trade_id fill = int_text (dealId deal)"
  by (auto simp: fill_of_def bind_result_Inr)

lemma deal_fills_ids:
  "deal_fills digits account deals d = Inr d' \<Longrightarrow>
   map trade_id (dict_get d' i []) = map trade_id (dict_get d i []) @ deal_ids (deals_of i deals)"
proof (induction deals arbitrary: d)
  case Nil
  then show ?case by (simp add: deals_of_def deal_ids_def)
next
  case (Cons deal deals)
  then obtain fill where f: "fill_of deal digits account = Inr fill"
      "deal_fills digits account deals
         (AList.update (d_orderId deal) (dict_get d (d_orderId deal) [] @ [fill]) d) = Inr d'"
    by (auto simp: bind_result_Inr)
  from Cons.IH [OF f(2)] fill_of_id [OF f(1)] show ?case
    by (auto simp: deals_of_def deal_ids_def dict_get_def map_of_update)
qed

lemma deal_fills_present:
  "deal_fills digits account deals d = Inr d' \<Longrightarrow> deals_of i deals \<noteq> [] \<or> map_of d i \<noteq> None \<Longrightarrow>
   map_of d' i \<noteq> None"
proof (induction deals arbitrary: d)
  case Nil
  then show ?case by (simp add: deals_of_def)
next
  case (Cons deal deals)
  then obtain fill where f: "deal_fills digits account deals
         (AList.update (d_orderId deal) (dict_get d (d_orderId deal) [] @ [fill]) d) = Inr d'"
    by (auto simp: bind_result_Inr)
  from Cons.IH [OF f] Cons.prems(2) show ?case
    by (auto simp: deals_of_def map_of_update split: if_splits)
qed

text \<open>What \<open>_Position.__init__\<close> builds, as far as the reports read it.\<close>

lemma listed_position_Inr:
  assumes "listed_position pid entry found digits account = Inr p"
  shows "lp_entry p = entry" and "lp_position_id p = pid"
    and "map trade_id (fills_of p order) = deal_ids (deals_of (orderId order) (lp_deals p))"
    and "deals_of (orderId order) (lp_deals p) \<noteq> [] \<Longrightarrow> map_of (lp_fills p) (orderId order) \<noteq> None"
    and "lp_entry_fills p = fills_of p entry"
    and "mset (lp_deals p) = mset (ph_deals found)"
    and "mset (lp_orders p) = mset (ph_orders found)"
    and "lp_protective p = filter (\<lambda>order. orderType order = STOP_LOSS_TAKE_PROFIT) (lp_orders p)"
    and "mset (lp_raises p) = filter_mset (\<lambda>order. orderId order \<noteq> orderId entry \<and>
           map_of (lp_fills p) (orderId order) \<noteq> None \<and> \<not> closingOrder order \<and>
           orderType order \<noteq> STOP_LOSS_TAKE_PROFIT) (mset (ph_orders found))"
proof -
  let ?deals = "sort_key (\<lambda>deal. (executionTimestamp deal, dealId deal)) (ph_deals found)"
  from assms obtain fills where f: "deal_fills digits account ?deals [] = Inr fills"
    and p: "lp_entry p = entry" "lp_position_id p = pid" "lp_deals p = ?deals" "lp_fills p = fills"
      "lp_entry_fills p = dict_get fills (orderId entry) []"
      "lp_orders p = sort_key orderId (ph_orders found)"
      "lp_protective p = filter (\<lambda>order. orderType order = STOP_LOSS_TAKE_PROFIT) (lp_orders p)"
      "lp_raises p = filter (\<lambda>order. orderId order \<noteq> orderId entry \<and>
         map_of fills (orderId order) \<noteq> None) (opening_orders (ph_orders found))"
    by (auto simp: listed_position_def Let_def bind_result_Inr)
  show "lp_entry p = entry" "lp_position_id p = pid" "mset (lp_deals p) = mset (ph_deals found)"
    "mset (lp_orders p) = mset (ph_orders found)" "lp_entry_fills p = fills_of p entry"
    by (simp_all add: p fills_of_def)
  show "lp_protective p = filter (\<lambda>order. orderType order = STOP_LOSS_TAKE_PROFIT) (lp_orders p)"
    by (fact p(7))
  show "map trade_id (fills_of p order) = deal_ids (deals_of (orderId order) (lp_deals p))"
    using deal_fills_ids [OF f] by (simp add: p fills_of_def dict_get_def)
  show "map_of (lp_fills p) (orderId order) \<noteq> None"
    if "deals_of (orderId order) (lp_deals p) \<noteq> []"
    using deal_fills_present [OF f] that by (simp add: p)
  show "mset (lp_raises p) = filter_mset (\<lambda>order. orderId order \<noteq> orderId entry \<and>
           map_of (lp_fills p) (orderId order) \<noteq> None \<and> \<not> closingOrder order \<and>
           orderType order \<noteq> STOP_LOSS_TAKE_PROFIT) (mset (ph_orders found))"
    by (simp add: p opening_orders_def filter_filter_mset) (rule filter_mset_cong; blast)
qed

text \<open>Summing over the orders counts each deal once, under its own order.\<close>

lemma sum_one:
  "distinct ks \<Longrightarrow> (\<Sum>k\<leftarrow>ks. if x = k then {#y#} else {#}) = (if x \<in> set ks then {#y#} else {#})"
  by (induction ks) auto

lemma sum_over_orders:
  assumes "distinct ks" and "\<forall>d \<in> set ds. f d \<in> set ks"
  shows "(\<Sum>k\<leftarrow>ks. mset (map g (filter (\<lambda>d. f d = k) ds))) = mset (map g ds)"
  using assms(2)
proof (induction ds)
  case (Cons d ds)
  have "(\<Sum>k\<leftarrow>ks. mset (map g (filter (\<lambda>e. f e = k) (d # ds)))) =
      (\<Sum>k\<leftarrow>ks. (if f d = k then {#g d#} else {#}) + mset (map g (filter (\<lambda>e. f e = k) ds)))"
    by (intro arg_cong [where f = sum_list] map_cong) auto
  with Cons assms(1) show ?case by (simp add: sum_list_addf sum_one)
qed simp

subsection \<open>Where a protective order's fills go\<close>

definition taken_fills :: "(Level, Fill list) dict \<Rightarrow> Fill multiset" where
  "taken_fills leg_fills =
     mset (dict_get leg_fills STOP_LOSS []) + mset (dict_get leg_fills TAKE_PROFIT [])"

definition fills_in :: "ReportedOrder list \<Rightarrow> Fill multiset" where
  "fills_in reports = (\<Sum>r\<leftarrow>reports. mset (ro_fills r))"

lemma fills_in_simps [simp]:
  "fills_in [] = {#}" "fills_in (r # rs) = mset (ro_fills r) + fills_in rs"
  "fills_in (rs @ rs') = fills_in rs + fills_in rs'"
  by (simp_all add: fills_in_def)

lemma taken_fills_add:
  "taken_fills (AList.update level (dict_get leg_fills level [] @ [fill]) leg_fills)
   = add_mset fill (taken_fills leg_fills)"
  by (cases level) (simp_all add: taken_fills_def dict_get_def map_of_update)

lemma take_trigger_keeps:
  assumes "take_trigger side lv with_legs fill (leg_fills, untaken, kind, notices)
    = (leg_fills', untaken', kind', notices')"
  shows "taken_fills leg_fills' + mset untaken' = add_mset fill (taken_fills leg_fills + mset untaken) \<and>
    (\<forall>level. level \<notin> set with_legs \<longrightarrow> map_of leg_fills' level = map_of leg_fills level)"
  using assms
  by (auto simp: take_trigger_def taken_fills_add map_of_update Let_def split: if_splits prod.splits)

lemma fold_take_trigger_keeps:
  "fold (take_trigger side lv with_legs) fills (leg_fills, untaken, kind, notices)
     = (leg_fills', untaken', kind', notices') \<Longrightarrow>
   taken_fills leg_fills' + mset untaken' = mset fills + taken_fills leg_fills + mset untaken \<and>
   (\<forall>level. level \<notin> set with_legs \<longrightarrow> map_of leg_fills' level = map_of leg_fills level)"
proof (induction fills arbitrary: leg_fills untaken kind notices)
  case (Cons fill fills)
  obtain lf ut k n where one: "take_trigger side lv with_legs fill (leg_fills, untaken, kind, notices)
      = (lf, ut, k, n)"
    by (metis prod_cases4)
  with Cons.prems have "fold (take_trigger side lv with_legs) fills (lf, ut, k, n)
      = (leg_fills', untaken', kind', notices')" by simp
  from Cons.IH [OF this] take_trigger_keeps [OF one] show ?case by simp
qed simp

lemma triggers_keep:
  "triggers p with_legs orders (leg_fills, external, notices) = Inr (leg_fills', external', notices') \<Longrightarrow>
   taken_fills leg_fills' + fills_in external' =
     (\<Sum>order\<leftarrow>orders. mset (fills_of p order)) + taken_fills leg_fills + fills_in external \<and>
   (\<forall>level. level \<notin> set with_legs \<longrightarrow> map_of leg_fills' level = map_of leg_fills level)"
proof (induction orders arbitrary: leg_fills external notices)
  case (Cons order orders)
  from Cons.prems show ?case
  proof (cases rule: triggers_step)
    case 1
    with Cons.IH show ?thesis by simp
  next
    case (2 lv lf ut k n ext)
    have "fills_in ext = fills_in external + mset ut"
      using 2(3) by (auto dest: order_report_Inr)
    with Cons.IH [OF 2(2)] fold_take_trigger_keeps [OF 2(1)] show ?thesis
      by (simp add: ac_simps)
  qed
qed simp

lemma close_reports_fills:
  "close_reports p known ops window orders claimed = Inr (reports, claimed') \<Longrightarrow>
   fills_in reports = (\<Sum>order\<leftarrow>orders. mset (fills_of p order))"
proof (induction orders arbitrary: claimed reports)
  case (Cons order orders)
  then obtain client r claimed1 others where
      r: "order_report order (lp_precision p) (fills_of p order) client True (Some Ext_MARKET) = Inr r"
      and others: "close_reports p known ops window orders claimed1 = Inr (others, claimed')"
      and reports: "reports = r # others"
    by (auto simp: bind_result_Inr Let_def split: prod.splits)
  from Cons.IH [OF others] order_report_Inr [OF r] reports show ?case by simp
qed simp

lemma own_legs_fills:
  "own_legs p parent leg_ids leg_fills vp live named = Inr reports \<Longrightarrow>
   fills_in reports = (\<Sum>(level, _)\<leftarrow>named. mset (dict_get leg_fills level []))"
proof (induction named arbitrary: reports)
  case (Cons one named)
  obtain level own where one: "one = (level, own)" by (cases one)
  with Cons.prems obtain r others where
      "own_leg p parent leg_ids leg_fills vp live (level, own) = Inr r"
      "own_legs p parent leg_ids leg_fills vp live named = Inr others" "reports = r # others"
    by (auto simp: bind_result_Inr)
  with Cons.IH own_leg_Inr one show ?case by simp
qed simp

lemma named_legs_cover:
  assumes "\<forall>level. level \<notin> set (map fst (fst (named_legs p))) \<longrightarrow> map_of leg_fills level = None"
  shows "(\<Sum>(level, _)\<leftarrow>fst (named_legs p). mset (dict_get leg_fills level [])) = taken_fills leg_fills"
  using assms
  by (auto simp: named_legs_def taken_fills_def dict_get_def split: option.splits)

text \<open>The fills of a node's position are those of its entry, raises, closes and protective orders.\<close>

lemma position_reports_fills:
  assumes "position_reports p vp live known ops claimed window held = Inr (reports, said, claimed')"
    and own: "parse_label (label (tradeData (lp_entry p))) \<noteq> None"
    and entry: "lp_entry_fills p = fills_of p (lp_entry p)"
  shows "fills_in reports = mset (fills_of p (lp_entry p)) +
    (\<Sum>order\<leftarrow>lp_raises p. mset (fills_of p order)) +
    (\<Sum>order\<leftarrow>closing_orders p. mset (fills_of p order)) +
    (\<Sum>order\<leftarrow>lp_protective p. mset (fills_of p order))"
  using assms(1)
proof (rule position_reports_parts)
  let ?parent = "parse_label (label (tradeData (lp_entry p)))"
  fix first raised closed leg_fills external notices foreign legs
  assume parts: "entry_report p = Inr first" "raise_reports p (lp_raises p) = Inr raised"
    "close_reports p known ops window (closing_orders p) claimed = Inr (closed, claimed')"
    "triggers p (if ?parent = None then LEVELS else map fst (fst (named_legs p)))
       (lp_protective p) ([], [], []) = Inr (leg_fills, external, notices)"
    "(if ?parent = None then foreign_leg_reports p leg_fills vp live held else Inr []) = Inr foreign"
    "own_legs p ?parent (fst (named_legs p)) leg_fills vp live (fst (named_legs p)) = Inr legs"
    and reports: "reports = first # raised @ closed @ foreign @ legs @ external"
  have "fills_in raised = (\<Sum>order\<leftarrow>lp_raises p. mset (fills_of p order))"
    using raise_reports_opening [OF parts(2)] by (metis (no_types, lifting) fills_in_def map_map o_def map_eq_conv)
  moreover have "foreign = []" using parts(5) own by simp
  moreover have "taken_fills leg_fills + fills_in external
      = (\<Sum>order\<leftarrow>lp_protective p. mset (fills_of p order))"
    "\<forall>level. level \<notin> set (map fst (fst (named_legs p))) \<longrightarrow> map_of leg_fills level = None"
    using triggers_keep [OF parts(4)] own by (auto simp: taken_fills_def dict_get_def)
  moreover from this(2) have "fills_in legs = taken_fills leg_fills"
    using own_legs_fills [OF parts(6)] named_legs_cover by metis
  ultimately show ?thesis
    using close_reports_fills [OF parts(3)] entry_report_Inr [OF parts(1)] reports entry
    by (simp add: ac_simps)
qed

subsection \<open>Every deal of a node's position is in exactly one report\<close>

lemma sum_parts:
  fixes c :: "'o \<Rightarrow> 'f multiset"
  assumes "\<forall>x \<in> set xs. \<not> present x \<longrightarrow> c x = {#}"
    and "\<forall>x \<in> set xs. entry x \<longrightarrow> \<not> closes_it x \<and> \<not> protective x"
  shows "(\<Sum>x\<leftarrow>xs. c x) =
    (\<Sum>x \<in># filter_mset entry (mset xs). c x) +
    (\<Sum>x \<in># filter_mset (\<lambda>x. \<not> entry x \<and> present x \<and> \<not> closes_it x \<and> \<not> protective x) (mset xs). c x) +
    (\<Sum>x \<in># filter_mset (\<lambda>x. closes_it x \<and> \<not> protective x \<and> present x) (mset xs). c x) +
    (\<Sum>x \<in># filter_mset protective (mset xs). c x)"
  using assms by (induction xs) (auto simp: ac_simps)

lemma filter_one:
  assumes "distinct (map f xs)" and "x \<in> set xs"
  shows "filter_mset (\<lambda>y. f y = f x) (mset xs) = {#x#}"
  using assms
  by (induction xs) (auto simp: image_iff filter_mset_eq_conv)

lemma entry_of_opening:
  assumes "entry_of orders = Some entry"
  shows "entry \<in> set orders \<and> \<not> closingOrder entry \<and> orderType entry \<noteq> STOP_LOSS_TAKE_PROFIT"
proof -
  have "entry \<in> set (opening_orders orders)"
    using assms by (auto simp: entry_of_def Let_def find_Some_iff split: option.splits list.splits)
  then show ?thesis by (simp add: opening_orders_def)
qed

lemma sum_list_mset: "mset xs = M \<Longrightarrow> (\<Sum>x\<leftarrow>xs. c x) = (\<Sum>x \<in># M. c x)"
  by (metis mset_map sum_mset_sum_list)

lemma sum_by_key:
  assumes "\<And>x. image_mset h (c x) = g (k x)"
  shows "image_mset h (\<Sum>x\<leftarrow>xs. c x) = (\<Sum>i\<leftarrow>map k xs. g i)"
  by (induction xs) (simp_all add: assms)

lemma listed_fills_are_the_deals:
  assumes p: "listed_position pid entry found digits account = Inr p"
    and entry: "entry_of (ph_orders found) = Some entry"
    and distinct: "distinct (map orderId (ph_orders found))"
    and known: "d_orderId ` set (ph_deals found) \<subseteq> orderId ` set (ph_orders found)"
  shows "image_mset trade_id (mset (fills_of p entry) +
      (\<Sum>order\<leftarrow>lp_raises p. mset (fills_of p order)) +
      (\<Sum>order\<leftarrow>closing_orders p. mset (fills_of p order)) +
      (\<Sum>order\<leftarrow>lp_protective p. mset (fills_of p order))) = mset (deal_ids (ph_deals found))"
proof -
  note p = listed_position_Inr [OF p]
  let ?c = "\<lambda>order. mset (fills_of p order)"
  let ?M = "mset (ph_orders found)"
  let ?present = "\<lambda>order. map_of (lp_fills p) (orderId order) \<noteq> None"
  let ?protective = "\<lambda>order. orderType order = STOP_LOSS_TAKE_PROFIT"
  have parts: "mset (lp_raises p) = filter_mset (\<lambda>order. \<not> orderId order = orderId entry \<and>
      ?present order \<and> \<not> closingOrder order \<and> \<not> ?protective order) ?M"
    "mset (closing_orders p) = filter_mset (\<lambda>order. closingOrder order \<and> \<not> ?protective order \<and>
      ?present order) ?M"
    "mset (lp_protective p) = filter_mset ?protective ?M"
    by (simp_all add: p closing_orders_def)
  have "(\<Sum>order\<leftarrow>ph_orders found. ?c order) =
      (\<Sum>x \<in># filter_mset (\<lambda>order. orderId order = orderId entry) ?M. ?c x) +
      (\<Sum>x \<in># mset (lp_raises p). ?c x) + (\<Sum>x \<in># mset (closing_orders p). ?c x) +
      (\<Sum>x \<in># mset (lp_protective p). ?c x)"
    unfolding parts
  proof (rule sum_parts)
    show "\<forall>x \<in> set (ph_orders found). \<not> ?present x \<longrightarrow> ?c x = {#}"
      by (simp add: fills_of_def dict_get_def)
    show "\<forall>x \<in> set (ph_orders found). orderId x = orderId entry \<longrightarrow>
        \<not> closingOrder x \<and> \<not> ?protective x"
      using distinct entry_of_opening [OF entry] by (auto simp: distinct_map inj_on_def)
  qed
  moreover have "filter_mset (\<lambda>order. orderId order = orderId entry) ?M = {#entry#}"
    using filter_one [OF distinct] entry_of_opening [OF entry] by blast
  ultimately have all: "(\<Sum>order\<leftarrow>ph_orders found. ?c order) = ?c entry +
      (\<Sum>order\<leftarrow>lp_raises p. ?c order) + (\<Sum>order\<leftarrow>closing_orders p. ?c order) +
      (\<Sum>order\<leftarrow>lp_protective p. ?c order)"
    by (simp add: sum_list_mset)
  have "image_mset trade_id (\<Sum>order\<leftarrow>ph_orders found. ?c order) =
      (\<Sum>k\<leftarrow>map orderId (ph_orders found).
         mset (map (\<lambda>d. int_text (dealId d)) (deals_of k (lp_deals p))))"
    by (rule sum_by_key) (simp add: p(3) deal_ids_def flip: mset_map)
  also have "\<dots> = mset (map (\<lambda>d. int_text (dealId d)) (lp_deals p))"
    unfolding deals_of_def
  proof (rule sum_over_orders [OF distinct])
    have "set (lp_deals p) = set (ph_deals found)" using p(6) by (rule mset_eq_setD)
    with known show "\<forall>d \<in> set (lp_deals p). d_orderId d \<in> set (map orderId (ph_orders found))"
      by auto
  qed
  finally show ?thesis
    using all p(6) by (simp add: deal_ids_def)
qed

subsection \<open>A deal is told of no other position\<close>

definition ids_of :: "ReportedOrder list \<Rightarrow> string multiset" where
  "ids_of reports = image_mset trade_id (fills_in reports)"

lemma ids_of_simps [simp]:
  "ids_of [] = {#}" "ids_of (r # rs) = image_mset trade_id (mset (ro_fills r)) + ids_of rs"
  "ids_of (rs @ rs') = ids_of rs + ids_of rs'"
  by (simp_all add: ids_of_def)

lemma ids_of_mset: "mset rs = mset rs' \<Longrightarrow> ids_of rs = ids_of rs'"
  unfolding ids_of_def fills_in_def by (metis sum_list_mset sum_mset_sum_list mset_map)

text \<open>Every fill a position's reports have is of a deal of its own list.\<close>

lemma fills_of_own:
  assumes "listed_position pid entry found digits account = Inr p"
  shows "trade_id ` set (fills_of p order) \<subseteq> set (deal_ids (ph_deals found))"
proof -
  note p = listed_position_Inr [OF assms]
  have "trade_id ` set (fills_of p order) = set (deal_ids (deals_of (orderId order) (lp_deals p)))"
    using p(3) [of order] by (metis set_map)
  also have "\<dots> \<subseteq> set (deal_ids (ph_deals found))"
    using mset_eq_setD [OF p(6)] by (auto simp: deal_ids_def deals_of_def)
  finally show ?thesis .
qed

lemma orders_fills_own:
  assumes "listed_position pid entry found digits account = Inr p"
  shows "trade_id ` set_mset (\<Sum>order\<leftarrow>orders. mset (fills_of p order)) \<subseteq> set (deal_ids (ph_deals found))"
  by (induction orders) (simp_all add: image_Un fills_of_own [OF assms])

lemma leg_fills_own:
  "set (dict_get leg_fills level []) \<subseteq> set_mset (taken_fills leg_fills)"
  by (cases level) (simp_all add: taken_fills_def)

lemma foreign_level_own:
  assumes "foreign_level p leg_fills vp live held standing level = Inr reports"
  shows "\<forall>r \<in> set reports. set (ro_fills r) \<subseteq> set_mset (taken_fills leg_fills)"
  using assms leg_fills_own
  by (fastforce simp: foreign_level_def leg_generation_def Let_def bind_result_Inr
      split: if_splits prod.splits dest: leg_report_Inr)

lemma gone_legs_own: "gone_legs p vp live ids names = Inr reports \<Longrightarrow> \<forall>r \<in> set reports. ro_fills r = []"
proof (induction names arbitrary: reports)
  case (Cons name names)
  then show ?case
    by (auto simp: bind_result_Inr Let_def split: option.splits prod.splits if_splits
        dest!: leg_report_Inr)
qed simp

lemma foreign_leg_reports_own:
  assumes "foreign_leg_reports p leg_fills vp live held = Inr reports"
  shows "set_mset (fills_in reports) \<subseteq> set_mset (taken_fills leg_fills)"
proof -
  from assms obtain standing stop target gone ids names where
      "foreign_level p leg_fills vp live held standing STOP_LOSS = Inr stop"
      "foreign_level p leg_fills vp live held standing TAKE_PROFIT = Inr target"
      "gone_legs p vp live ids names = Inr gone" "reports = stop @ target @ gone"
    by (auto simp: foreign_leg_reports_def bind_result_Inr)
  then have "\<forall>r \<in> set reports. set (ro_fills r) \<subseteq> set_mset (taken_fills leg_fills)"
    using foreign_level_own gone_legs_own by fastforce
  then show ?thesis by (induction reports) auto
qed

lemma own_legs_own:
  "own_legs p parent leg_ids leg_fills vp live named = Inr reports \<Longrightarrow>
   set_mset (fills_in reports) \<subseteq> set_mset (taken_fills leg_fills)"
proof (induction named arbitrary: reports)
  case (Cons one named)
  obtain level own where one: "one = (level, own)" by (cases one)
  with Cons.prems obtain r others where
      "own_leg p parent leg_ids leg_fills vp live (level, own) = Inr r"
      "own_legs p parent leg_ids leg_fills vp live named = Inr others" "reports = r # others"
    by (auto simp: bind_result_Inr)
  with Cons.IH own_leg_Inr leg_fills_own show ?case by fastforce
qed simp

lemma position_reports_own:
  assumes listed: "listed_position pid entry found digits account = Inr p"
    and "position_reports p vp live known ops claimed window held = Inr (reports, said, claimed')"
  shows "set_mset (ids_of reports) \<subseteq> set (deal_ids (ph_deals found))"
  using assms(2)
proof (rule position_reports_parts)
  let ?parent = "parse_label (label (tradeData (lp_entry p)))"
  note own = fills_of_own [OF listed] orders_fills_own [OF listed]
  fix first raised closed leg_fills external notices foreign legs
  assume parts: "entry_report p = Inr first" "raise_reports p (lp_raises p) = Inr raised"
    "close_reports p known ops window (closing_orders p) claimed = Inr (closed, claimed')"
    "triggers p (if ?parent = None then LEVELS else map fst (fst (named_legs p)))
       (lp_protective p) ([], [], []) = Inr (leg_fills, external, notices)"
    "(if ?parent = None then foreign_leg_reports p leg_fills vp live held else Inr []) = Inr foreign"
    "own_legs p ?parent (fst (named_legs p)) leg_fills vp live (fst (named_legs p)) = Inr legs"
    and reports: "reports = first # raised @ closed @ foreign @ legs @ external"
  have raised: "fills_in raised = (\<Sum>order\<leftarrow>lp_raises p. mset (fills_of p order))"
    using raise_reports_opening [OF parts(2)] by (metis (no_types, lifting) fills_in_def map_map o_def map_eq_conv)
  have taken: "taken_fills leg_fills + fills_in external = (\<Sum>order\<leftarrow>lp_protective p. mset (fills_of p order))"
    using triggers_keep [OF parts(4)] by (auto simp: taken_fills_def dict_get_def)
  have legs: "set_mset (fills_in foreign) \<subseteq> set_mset (taken_fills leg_fills)"
    "set_mset (fills_in legs) \<subseteq> set_mset (taken_fills leg_fills)"
    using parts(5) foreign_leg_reports_own own_legs_own [OF parts(6)] by (auto split: if_splits)
  have "trade_id ` set (ro_fills first) \<subseteq> set (deal_ids (ph_deals found))"
    using entry_report_Inr [OF parts(1)] listed_position_Inr(5) [OF listed] own(1) by simp
  moreover have "trade_id ` set_mset (fills_in raised) \<subseteq> set (deal_ids (ph_deals found))"
    "trade_id ` set_mset (fills_in closed) \<subseteq> set (deal_ids (ph_deals found))"
    using raised close_reports_fills [OF parts(3)] own(2) by simp_all
  moreover have "trade_id ` set_mset (taken_fills leg_fills) \<subseteq> set (deal_ids (ph_deals found))"
    "trade_id ` set_mset (fills_in external) \<subseteq> set (deal_ids (ph_deals found))"
    using own(2) [of "lp_protective p"] unfolding taken [symmetric] by auto
  moreover from this(1) have "trade_id ` set_mset (fills_in foreign) \<subseteq> set (deal_ids (ph_deals found))"
    "trade_id ` set_mset (fills_in legs) \<subseteq> set (deal_ids (ph_deals found))"
    using legs by blast+
  ultimately have "trade_id ` set_mset (fills_in reports) \<subseteq> set (deal_ids (ph_deals found))"
    by (simp add: reports image_Un)
  then show ?thesis by (simp add: ids_of_def)
qed

text \<open>What a position and the other orders add of the ids in a set.\<close>

lemma reconcile_position_listed:
  assumes "reconcile_position env pid symbol st = Inr st'"
  obtains (none) "rs_keyed st' = rs_keyed st"
  | (taken) p found entry digits vp where "map_of (re_histories env) pid = Some found"
      "listed_position pid entry found digits (re_account_digits env) = Inr p"
      "take_position env p found vp st = Inr st'"
  using assms
  by (auto simp: reconcile_position_def bind_result_Inr Let_def frame_simps
      split: option.splits if_splits)

definition others_ids_apart :: "(int, PositionHistory) dict \<Rightarrow> int \<Rightarrow> string set \<Rightarrow> bool" where
  "others_ids_apart histories pid ids \<longleftrightarrow>
     (\<forall>(other, found) \<in> set histories. other \<noteq> pid \<longrightarrow> set (deal_ids (ph_deals found)) \<inter> ids = {})"

abbreviation ids_among :: "string set \<Rightarrow> ReportedOrder list \<Rightarrow> string multiset" where
  "ids_among ids reports \<equiv> filter_mset (\<lambda>i. i \<in> ids) (ids_of reports)"

lemma reconcile_position_apart:
  assumes "reconcile_position env other symbol st = Inr st'" and "other \<noteq> pid"
    and "others_ids_apart (re_histories env) pid ids"
  shows "ids_among ids (map snd (rs_keyed st')) = ids_among ids (map snd (rs_keyed st))"
  using assms(1)
proof (cases rule: reconcile_position_listed)
  case (taken p found entry digits vp)
  from taken(3) obtain reports said where
      r: "position_reports p vp (map_of (re_live_protective env) (lp_position_id p)) (re_known_closes env)
        (re_operations env) (rs_claimed st) (re_in_window env) (re_held env) = Inr (reports, said, rs_claimed st')"
      and keyed: "rs_keyed st' = rs_keyed st @ keyed_reports reports"
    by (rule take_position_Inr)
  have "set_mset (ids_of reports) \<inter> ids = {}"
    using position_reports_own [OF taken(2) r] map_of_SomeD [OF taken(1)] assms(2,3)
    by (fastforce simp: others_ids_apart_def)
  then have "ids_among ids reports = {#}" by (auto simp: filter_mset_eq_conv)
  with keyed show ?thesis by simp
qed simp

lemma reconcile_positions_apart:
  "reconcile_positions env symbols pids st = Inr st' \<Longrightarrow> pid \<notin> set pids \<Longrightarrow>
   others_ids_apart (re_histories env) pid ids \<Longrightarrow>
   ids_among ids (map snd (rs_keyed st')) = ids_among ids (map snd (rs_keyed st))"
proof (induction pids arbitrary: st)
  case (Cons other pids)
  then obtain st1 where "reconcile_position env other (dict_get symbols other 0) st = Inr st1"
      "reconcile_positions env symbols pids st1 = Inr st'"
    by (auto simp: bind_result_Inr)
  with Cons reconcile_position_apart show ?case by (metis list.set_intros(1,2))
qed simp

lemma reconcile_positions_append:
  "reconcile_positions env symbols (pids @ pids') st =
   bind_result (reconcile_positions env symbols pids st) (reconcile_positions env symbols pids')"
  by (induction pids arbitrary: st) (auto simp: bind_result_def split: sum.splits)

lemma other_orders_no_fills:
  "other_orders env ids orders st = Inr st' \<Longrightarrow> ids_of (map snd (rs_keyed st')) = ids_of (map snd (rs_keyed st))"
proof (induction orders arbitrary: st)
  case (Cons order orders)
  from Cons.prems show ?case
    by (auto simp: bind_result_Inr unfilled_order_def split: if_splits option.splits prod.splits
        dest!: Cons.IH order_report_Inr)
qed simp

lemma symbols_of_distinct: "distinct (map fst (symbols_of snapshot histories window))"
proof -
  have u: "distinct (map fst (fold (\<lambda>x. AList.update (f x) (g x)) xs d))" if "distinct (map fst d)"
    for f :: "'a \<Rightarrow> int" and g :: "'a \<Rightarrow> int" and xs d
    using that by (induction xs arbitrary: d) (simp_all add: distinct_update)
  have s: "distinct (map fst (set_default k v d))" if "distinct (map fst d)" for k v :: int and d
    using that by (simp add: set_default_def distinct_update)
  have w: "distinct (map fst (fold (\<lambda>deal. set_default (d_positionId deal) (d_symbolId deal)) xs d))"
    if "distinct (map fst d)" for xs d
    using that by (induction xs arbitrary: d) (simp_all add: s)
  have h: "distinct (map fst (fold (\<lambda>(pid, found) symbols. case symbol_of found of
      None \<Rightarrow> symbols | Some symbol \<Rightarrow> set_default pid symbol symbols) xs d))" if "distinct (map fst d)"
    for xs :: "(int \<times> PositionHistory) list" and d :: "(int, int) dict"
    by (rule fold_invariant [where Q = "\<lambda>_. True" and P = "\<lambda>d. distinct (map fst d)"])
       (use that s in \<open>auto split: option.splits\<close>)
  show ?thesis unfolding symbols_of_def by (intro h w u) simp
qed

text \<open>The position's turn in the loop over them: no other turn adds of its ids.\<close>

lemma reconcile_positions_reach:
  assumes "reconcile_positions env symbols pids st = Inr st'" and "pid \<in> set pids" and "distinct pids"
  obtains s1 s2 where "reconcile_position env pid (dict_get symbols pid 0) s1 = Inr s2"
    "mset (rs_keyed s2) \<subseteq># mset (rs_keyed st')"
    "\<And>ids. others_ids_apart (re_histories env) pid ids \<Longrightarrow>
      ids_among ids (map snd (rs_keyed s1)) = ids_among ids (map snd (rs_keyed st)) \<and>
      ids_among ids (map snd (rs_keyed st')) = ids_among ids (map snd (rs_keyed s2))"
proof -
  obtain before after where split: "pids = before @ pid # after" using assms(2) by (meson split_list)
  with assms(1) obtain s1 s2 where s: "reconcile_positions env symbols before st = Inr s1"
      "reconcile_position env pid (dict_get symbols pid 0) s1 = Inr s2"
      "reconcile_positions env symbols after s2 = Inr st'"
    by (auto simp: reconcile_positions_append bind_result_Inr)
  show thesis
  proof (rule that [OF s(2) reconcile_positions_grow [OF s(3)]])
    show "ids_among ids (map snd (rs_keyed s1)) = ids_among ids (map snd (rs_keyed st)) \<and>
      ids_among ids (map snd (rs_keyed st')) = ids_among ids (map snd (rs_keyed s2))"
      if "others_ids_apart (re_histories env) pid ids" for ids
      using reconcile_positions_apart [OF s(1) _ that] reconcile_positions_apart [OF s(3) _ that] assms(3) split
      by simp
  qed
qed

text \<open>The position's part of \<open>reconcile\<close>'s answer, in its order.\<close>

lemma taken_in_answer:
  assumes r: "reconcile snapshot histories window precision known ops held digits = Inr r"
    and pid: "map_of (symbols_of snapshot histories window) pid = Some symbol"
    and "precision symbol = Some price_digits" "map_of histories pid = Some found"
    and "entry_of (ph_orders found) = Some entry"
    and "listed_position pid entry found price_digits digits = Inr p" "lp_entry_fills p \<noteq> []"
    and "taken_as found (map_of (re_open (env_of snapshot histories window precision known ops held
           digits)) pid) = Some vp"
  obtains live claimed claimed' reports said first others before after where
    "position_reports p vp live known ops claimed
       (set (map (\<lambda>deal. int_text (dealId deal)) window)) held = Inr (reports, said, claimed')"
    "reports = first # others" "ro_venue_order_id first = int_text (orderId (lp_entry p))"
    "ro_fills first = lp_entry_fills p"
    "rec_orders r = before @ first # after" "mset others \<subseteq># mset after"
    "\<And>ids. others_ids_apart histories pid ids \<Longrightarrow> ids_among ids (rec_orders r) = ids_among ids reports"
proof -
  let ?env = "env_of snapshot histories window precision known ops held digits"
  let ?st0 = "\<lparr>rs_keyed = [], rs_positions = [], rs_notices = [], rs_claimed = set (map snd known)\<rparr>"
  from r obtain st st' where
      loop: "reconcile_positions ?env (symbols_of snapshot histories window)
        (sort (map fst (symbols_of snapshot histories window))) ?st0 = Inr st"
      and others: "other_orders ?env (set (map (ro_venue_order_id \<circ> snd) (rs_keyed st)))
        (snap_order snapshot) st = Inr st'"
      and orders: "rec_orders r = map snd (sort_key fst (rs_keyed st'))"
    by (rule reconcile_parts) blast
  have "pid \<in> set (sort (map fst (symbols_of snapshot histories window)))"
    using map_of_SomeD [OF pid] by (auto simp: image_iff intro: rev_bexI)
  from loop this obtain s1 s2 where
      s: "reconcile_position ?env pid symbol s1 = Inr s2" "mset (rs_keyed s2) \<subseteq># mset (rs_keyed st)"
      and apart: "\<And>ids. others_ids_apart histories pid ids \<Longrightarrow>
        ids_among ids (map snd (rs_keyed s1)) = {#} \<and>
        ids_among ids (map snd (rs_keyed st)) = ids_among ids (map snd (rs_keyed s2))"
    by (rule reconcile_positions_reach)
       (use pid symbols_of_distinct in \<open>simp_all add: dict_get_def env_of_def\<close>)
  have "take_position ?env p found vp s1 = Inr s2"
    using s(1) by (rule reconcile_position_taken) (use assms in \<open>simp_all add: env_of_def\<close>)
  then obtain reports said where
      pr: "position_reports p vp (map_of (re_live_protective ?env) (lp_position_id p)) known ops
        (rs_claimed s1) (set (map (\<lambda>deal. int_text (dealId deal)) window)) held
        = Inr (reports, said, rs_claimed s2)"
      and keyed: "rs_keyed s2 = rs_keyed s1 @ keyed_reports reports"
    by (rule take_position_Inr) (simp add: env_of_def)
  from pr obtain first others' where first: "reports = first # others'" "\<not> ro_reduce_only first"
      "ro_venue_order_id first = int_text (orderId (lp_entry p))" "ro_fills first = lp_entry_fills p"
    by (rule position_reports_entry)
  have "mset (keyed_reports reports) \<subseteq># mset (rs_keyed s2)" by (simp add: keyed)
  also note s(2)
  also have "mset (rs_keyed st) \<subseteq># mset (rs_keyed st')" using others by (rule other_orders_grow)
  finally have "mset (keyed_reports reports) \<subseteq># mset (rs_keyed st')" .
  from group_in_order [OF first(1,2) this] obtain before after where
    "rec_orders r = before @ first # after" "mset others' \<subseteq># mset after"
    using orders by auto
  moreover have "ids_among ids (rec_orders r) = ids_among ids reports"
    if "others_ids_apart histories pid ids" for ids
  proof -
    have "ids_of (rec_orders r) = ids_of (map snd (rs_keyed st'))"
      unfolding orders by (rule ids_of_mset) simp
    with apart [OF that] other_orders_no_fills [OF others] keyed show ?thesis by simp
  qed
  ultimately show ?thesis using that [OF pr first(1,3,4)] by blast
qed

text \<open>An id counted once in all the reports is in one report, once.\<close>

lemma id_told_once:
  "count (ids_of reports) i = 1 \<Longrightarrow> \<exists>before report after. reports = before @ report # after \<and>
     count_list (map trade_id (ro_fills report)) i = 1 \<and>
     (\<forall>other \<in> set (before @ after). i \<notin> trade_id ` set (ro_fills other))"
proof (induction reports)
  case (Cons report reports)
  have one: "count (image_mset trade_id (mset (ro_fills report))) i = count_list (map trade_id (ro_fills report)) i"
    by (metis count_mset mset_map)
  have none: "\<forall>other \<in> set rs. i \<notin> trade_id ` set (ro_fills other)" if "count (ids_of rs) i = 0" for rs
    using that by (induction rs) (auto simp: not_in_iff [symmetric])
  show ?case
  proof (cases "count (ids_of reports) i = 0")
    case True
    with Cons.prems one none [OF True] show ?thesis by (intro exI [of _ "[]"]) auto
  next
    case False
    have "count_list (map trade_id (ro_fills report)) i + count (ids_of reports) i = 1" using Cons.prems one by simp
    with False have zero: "count_list (map trade_id (ro_fills report)) i = 0" and "count (ids_of reports) i = 1"
      by linarith+
    with Cons.IH obtain before report' after where "reports = before @ report' # after"
      "count_list (map trade_id (ro_fills report')) i = 1"
      "\<forall>other \<in> set (before @ after). i \<notin> trade_id ` set (ro_fills other)" by blast
    moreover have "i \<notin> trade_id ` set (ro_fills report)" using zero by (simp add: count_list_0_iff)
    ultimately show ?thesis by (intro exI [of _ "report # before"] exI [of _ report'] exI [of _ after]) simp
  qed
qed simp

lemma ids_told_once:
  assumes "ids_among (set ids) reports = mset ids" and "distinct ids" and "i \<in> set ids"
  shows "\<exists>before report after. reports = before @ report # after \<and>
     count_list (map trade_id (ro_fills report)) i = 1 \<and>
     (\<forall>other \<in> set (before @ after). i \<notin> trade_id ` set (ro_fills other))"
proof (rule id_told_once)
  have "count (ids_among (set ids) reports) i = count (ids_of reports) i" using assms(3) by simp
  with assms(1) have "count (ids_of reports) i = count (mset ids) i" by simp
  with assms(2,3) show "count (ids_of reports) i = 1" by (simp add: distinct_count_atmost_1)
qed

text \<open>
  in the answer of \<open>reconcile\<close>, every position it takes stands with its entry first: the
  entry, with exactly the entry's fills, comes before every other report of the position, so
  Nautilus never meets a fill that would open the position the other way.
\<close>

theorem entry_comes_first:
  assumes "reconcile snapshot histories window precision known ops held digits = Inr r"
    and "map_of (symbols_of snapshot histories window) pid = Some symbol"
    and "precision symbol = Some price_digits" and "map_of histories pid = Some found"
    and "entry_of (ph_orders found) = Some entry"
    and "listed_position pid entry found price_digits digits = Inr p" and "lp_entry_fills p \<noteq> []"
    and "taken_as found (map_of (re_open (env_of snapshot histories window precision known ops held
           digits)) pid) = Some vp"
  shows "\<exists>live claimed claimed' first others said before after.
    position_reports p vp live known ops claimed
      (set (map (\<lambda>deal. int_text (dealId deal)) window)) held
      = Inr (first # others, said, claimed') \<and>
    ro_venue_order_id first = int_text (orderId entry) \<and> ro_fills first = lp_entry_fills p \<and>
    rec_orders r = before @ first # after \<and> mset others \<subseteq># mset after"
  using assms by (rule taken_in_answer) (use listed_position_Inr(1) [OF assms(6)] in blast)

text \<open>
  C17: In the whole answer of \<open>reconcile\<close> every deal of a position of the node's it takes is told exactly as often as
  the broker lists it, so in exactly one report and once when it is listed once: the trade ids of the position's deals,
  searched for in all the reports of the answer, are exactly its deals. They are in the reports made of the position,
  the entry's first, and in no other. For this the position's orders must all be listed, once each, and no other
  position's list may have one of its deals.
\<close>

theorem every_deal_reported_once:
  assumes "reconcile snapshot histories window precision known ops held digits = Inr r"
    and "map_of (symbols_of snapshot histories window) pid = Some symbol"
    and "precision symbol = Some price_digits" and "map_of histories pid = Some found"
    and "entry_of (ph_orders found) = Some entry"
    and "listed_position pid entry found price_digits digits = Inr p" and "lp_entry_fills p \<noteq> []"
    and "taken_as found (map_of (re_open (env_of snapshot histories window precision known ops held
           digits)) pid) = Some vp"
    and "parse_label (label (tradeData entry)) \<noteq> None"
    and "distinct (map orderId (ph_orders found))"
    and "d_orderId ` set (ph_deals found) \<subseteq> orderId ` set (ph_orders found)"
    and "others_ids_apart histories pid (set (deal_ids (ph_deals found)))"
  shows "(\<exists>before first others after.
      rec_orders r = before @ first # after \<and> mset others \<subseteq># mset after \<and>
      ro_venue_order_id first = int_text (orderId entry) \<and>
      image_mset trade_id (fills_in (first # others)) = mset (deal_ids (ph_deals found))) \<and>
    filter_mset (\<lambda>i. i \<in> set (deal_ids (ph_deals found))) (image_mset trade_id (fills_in (rec_orders r))) =
      mset (deal_ids (ph_deals found)) \<and>
    (distinct (deal_ids (ph_deals found)) \<longrightarrow>
      (\<forall>i \<in> set (deal_ids (ph_deals found)). \<exists>before report after. rec_orders r = before @ report # after \<and>
         count_list (map trade_id (ro_fills report)) i = 1 \<and>
         (\<forall>other \<in> set (before @ after). i \<notin> trade_id ` set (ro_fills other))))"
  using assms(1-8)
proof (rule taken_in_answer)
  note p = listed_position_Inr [OF assms(6)]
  fix live claimed claimed' reports said first others before after
  assume pr: "position_reports p vp live known ops claimed
      (set (map (\<lambda>deal. int_text (dealId deal)) window)) held = Inr (reports, said, claimed')"
    and first: "reports = first # others" "ro_venue_order_id first = int_text (orderId (lp_entry p))"
    and order: "rec_orders r = before @ first # after" "mset others \<subseteq># mset after"
    and whole: "\<And>ids. others_ids_apart histories pid ids \<Longrightarrow> ids_among ids (rec_orders r) = ids_among ids reports"
  have "fills_in reports = mset (fills_of p entry) + (\<Sum>order\<leftarrow>lp_raises p. mset (fills_of p order)) +
      (\<Sum>order\<leftarrow>closing_orders p. mset (fills_of p order)) +
      (\<Sum>order\<leftarrow>lp_protective p. mset (fills_of p order))"
    using position_reports_fills [OF pr] assms(9) p(1,5) by simp
  then have own: "image_mset trade_id (fills_in (first # others)) = mset (deal_ids (ph_deals found))"
    using listed_fills_are_the_deals [OF assms(6,5,10,11)] first(1) by simp
  have "ids_among (set (deal_ids (ph_deals found))) reports = mset (deal_ids (ph_deals found))"
    using own first(1) by (simp add: ids_of_def filter_mset_eq_conv)
  with whole [OF assms(12)] have told: "ids_among (set (deal_ids (ph_deals found))) (rec_orders r) =
      mset (deal_ids (ph_deals found))"
    by simp
  then show ?thesis using own order first(2) p(1) ids_told_once [OF told]
    by (auto simp: ids_of_def)
qed

text \<open>A node's position the stop loss closed: its entry, its deal and its protective order's.\<close>

definition stopped_entry :: ProtoOAOrder where
  "stopped_entry = default_order\<lparr>orderId := 5, orderStatus := ORDER_STATUS_FILLED,
     f_utcLastUpdateTimestamp := Some 3, f_positionId := Some 7,
     f_tradeData := Some (default_tradeData\<lparr>symbolId := 1, volume := 2, f_openTimestamp := Some 3,
       label := ''ntca1:E'', comment := ''ntca1|sl=S''\<rparr>)\<rparr>"

definition stopped_protective :: ProtoOAOrder where
  "stopped_protective = default_order\<lparr>orderId := 6, orderType := STOP_LOSS_TAKE_PROFIT,
     orderStatus := ORDER_STATUS_FILLED, closingOrder := True, f_stopPrice := Some (Finite 1),
     f_utcLastUpdateTimestamp := Some 4, f_positionId := Some 7,
     f_tradeData := Some (default_tradeData\<lparr>symbolId := 1, volume := 2, tradeSide := SELL\<rparr>)\<rparr>"

definition stopped_history :: PositionHistory where
  "stopped_history = \<lparr>ph_orders = [stopped_protective, stopped_entry],
     ph_deals =
       [default_deal\<lparr>dealId := 2, d_orderId := 6, d_positionId := 7, filledVolume := 2,
          d_symbolId := 1, executionTimestamp := 4, executionPrice := Finite 1, d_tradeSide := SELL\<rparr>,
        default_deal\<lparr>dealId := 1, d_orderId := 5, d_positionId := 7, filledVolume := 2,
          d_symbolId := 1, executionTimestamp := 3, executionPrice := Finite 2\<rparr>],
     ph_complete = True\<rparr>"

text \<open>Another of the node's positions, closed the same way.\<close>

definition stopped_histories :: "(int, PositionHistory) dict" where
  "stopped_histories = [(7, stopped_history),
     (9, \<lparr>ph_orders =
            [stopped_entry\<lparr>orderId := 8, f_positionId := Some 9, f_tradeData := Some (default_tradeData\<lparr>symbolId := 1,
               volume := 2, f_openTimestamp := Some 3, label := ''ntca1:F'', comment := ''ntca1|sl=T''\<rparr>)\<rparr>,
             stopped_protective\<lparr>orderId := 10, f_positionId := Some 9\<rparr>],
          ph_deals = map (\<lambda>deal. deal\<lparr>dealId := dealId deal + 2, d_orderId := (if d_orderId deal = 5 then 8 else 10),
            d_positionId := 9\<rparr>) (ph_deals stopped_history),
          ph_complete = True\<rparr>)]"

definition stopped_answer :: "Reconciliation venue_result" where
  "stopped_answer = reconcile \<lparr>snap_position = [], snap_order = []\<rparr> stopped_histories []
     (\<lambda>_. Some 1) [] no_operations nothing_held 2"

lemma stopped_answer_orders:
  "(case stopped_answer of Inl _ \<Rightarrow> False | Inr r \<Rightarrow>
     map (\<lambda>o1. (ro_venue_order_id o1, ro_client_order_id o1, ro_status o1, map trade_id (ro_fills o1)))
       (rec_orders r) =
     [(''5'', Some ''E'', Rep_FILLED, [''1'']), (''8'', Some ''F'', Rep_FILLED, [''3'']),
      (''5-SL'', Some ''S'', Rep_FILLED, [''2'']), (''8-SL'', Some ''T'', Rep_FILLED, [''4''])])"
  by code_simp

definition stopped_listed :: "ListedPosition venue_result" where
  "stopped_listed = listed_position 7 stopped_entry stopped_history 1 2"

lemma stopped_listed_fills:
  "(case stopped_listed of Inl _ \<Rightarrow> False | Inr p \<Rightarrow> lp_entry_fills p \<noteq> [])"
  by code_simp

lemma stopped_found: "map_of stopped_histories 7 = Some stopped_history"
  by (simp add: stopped_histories_def)

lemma stopped_entry_of: "entry_of (ph_orders stopped_history) = Some stopped_entry"
  by code_simp

lemma stopped_symbol:
  "map_of (symbols_of \<lparr>snap_position = [], snap_order = []\<rparr> stopped_histories []) 7 = Some 1"
  by code_simp

lemma stopped_taken:
  "taken_as stopped_history
     (map_of (re_open (env_of \<lparr>snap_position = [], snap_order = []\<rparr> stopped_histories []
        (\<lambda>_. Some 1) [] no_operations nothing_held 2)) 7) = Some None"
  by code_simp

lemma stopped_is_ours: "parse_label (label (tradeData stopped_entry)) \<noteq> None"
  by code_simp

lemma stopped_facts:
  obtains r p where "stopped_answer = Inr r" "stopped_listed = Inr p" "lp_entry_fills p \<noteq> []"
  using stopped_answer_orders stopped_listed_fills by (auto split: sum.splits)

lemma entry_comes_first_witness:
  "\<exists>r first before after. stopped_answer = Inr r \<and> rec_orders r = before @ first # after \<and>
     ro_venue_order_id first = ''5''"
proof (rule stopped_facts)
  fix r p
  assume r: "stopped_answer = Inr r" and p: "stopped_listed = Inr p" "lp_entry_fills p \<noteq> []"
  have five: "int_text (orderId stopped_entry) = ''5''" by code_simp
  from entry_comes_first [OF r [unfolded stopped_answer_def] stopped_symbol refl stopped_found stopped_entry_of
      p(1) [unfolded stopped_listed_def] p(2) stopped_taken] r five
  show ?thesis by auto
qed

lemma every_deal_reported_once_witness:
  "\<exists>r. stopped_answer = Inr r \<and>
     filter_mset (\<lambda>i. i \<in> {''1'', ''2''}) (image_mset trade_id (fills_in (rec_orders r))) = {#''1'', ''2''#} \<and>
     (\<exists>report \<in> set (rec_orders r). ''2'' \<in> trade_id ` set (ro_fills report))"
proof (rule stopped_facts)
  fix r p
  assume r: "stopped_answer = Inr r" and p: "stopped_listed = Inr p" "lp_entry_fills p \<noteq> []"
  have ids: "deal_ids (ph_deals stopped_history) = [''2'', ''1'']" by code_simp
  have listed: "distinct (map orderId (ph_orders stopped_history))"
    "d_orderId ` set (ph_deals stopped_history) \<subseteq> orderId ` set (ph_orders stopped_history)"
    by (simp_all add: stopped_history_def stopped_entry_def stopped_protective_def)
  have apart: "others_ids_apart stopped_histories 7 (set (deal_ids (ph_deals stopped_history)))"
    by (simp add: others_ids_apart_def stopped_histories_def stopped_history_def deal_ids_def)
  note all = every_deal_reported_once [OF r [unfolded stopped_answer_def] stopped_symbol refl stopped_found
      stopped_entry_of p(1) [unfolded stopped_listed_def] p(2) stopped_taken stopped_is_ours listed apart]
  have two: "filter_mset (\<lambda>i. i \<in> {''1'', ''2''}) (image_mset trade_id (fills_in (rec_orders r))) = {#''1'', ''2''#}"
  proof -
    have "set [''2'', ''1''] = {''1'', ''2''}" "mset [''2'', ''1''] = {#''1'', ''2''#}"
      by (simp_all add: insert_commute add_mset_commute)
    with all show ?thesis unfolding ids by metis
  qed
  then have "''2'' \<in># filter_mset (\<lambda>i. i \<in> {''1'', ''2''}) (image_mset trade_id (fills_in (rec_orders r)))"
    by (simp only: two set_mset_add_mset_insert) simp
  then have "''2'' \<in># image_mset trade_id (fills_in (rec_orders r))"
    by (simp only: set_mset_filter mem_Collect_eq)
  then have "\<exists>report \<in> set (rec_orders r). ''2'' \<in> trade_id ` set (ro_fills report)"
    by (auto simp: fills_in_def)
  with two r show ?thesis by blast
qed

end
