(* ===== verification/Session.thy ===== *)
theory Session
  imports Connection
begin

text \<open>
  \<open>common/session.py\<close>: the session over a connection it owns. Its tasks are the supervisor, the
  refresh loop, a retry of failed restores, and the calls of \<open>start\<close> and \<open>stop\<close> that wait; each is
  cut where it waits and holds the place it waits at (\<open>sup_pc\<close>, \<open>ref_pc\<close>). What ends a wait is an
  event of \<open>sess_step\<close>: the connection's answers, its callbacks, a timer, a restore that returned,
  in any order. An answer that is an error is a \<open>conn_error\<close>, as \<open>Connection\<close> gives it. A wait on
  two events and a timer may end at any time, since the code then looks at the events themselves.
  \<open>ss_log\<close> is a ghost log of what the session asks of the connection and tells the layers above.
  Log lines and the text of errors are left out. Time is rational, and given with each event.
\<close>

subsection \<open>Errors and messages\<close>

datatype sess_error =
    From_connection conn_error
  | App_auth_rejected string
  | Account_auth_rejected string
  | Account_auth_rejected_after_refresh string
  | Refresh_rejected string
  | Lost_in_bring_up
  | Lost_in_late_wait

definition error_kind_timeout :: "conn_error \<Rightarrow> bool" where
  "error_kind_timeout e \<longleftrightarrow> e = TimeoutError \<or> e = QueueTimeoutError"

definition error_kind_connection :: "conn_error \<Rightarrow> bool" where
  "error_kind_connection e \<longleftrightarrow>
     (case e of ConnectionClosed \<Rightarrow> True | ClosedByPeer \<Rightarrow> True | ReadFailed \<Rightarrow> True
      | ReadLoopFailed _ \<Rightarrow> True | NoInboundData \<Rightarrow> True | WriteFailed \<Rightarrow> True
      | ConnectTimeout \<Rightarrow> True | CannotConnect \<Rightarrow> True | AlreadyConnected \<Rightarrow> True
      | NotSentConnectionError \<Rightarrow> True | _ \<Rightarrow> False)"

definition TOKEN_ERROR_CODES :: "string list" where
  "TOKEN_ERROR_CODES = [''OA_AUTH_TOKEN_EXPIRED'', ''CH_ACCESS_TOKEN_INVALID'']"

definition TOKEN_REFRESH_MARGIN_SECS :: rat where "TOKEN_REFRESH_MARGIN_SECS = 900"

definition MIN_TOKEN_REFRESH_INTERVAL_SECS :: rat where "MIN_TOKEN_REFRESH_INTERVAL_SECS = 300"

definition BACKOFF_JITTER :: rat where "BACKOFF_JITTER = 1 / 4"

definition STABLE_SESSION_SECS :: rat where "STABLE_SESSION_SECS = 30"

record token_pair =
  tp_access :: string
  tp_refresh :: string
  tp_expires_in :: rat

text \<open>The messages that come on the event path, and the class handlers are registered for.\<close>

datatype payload =
    RefreshTokenRes token_pair
  | ClientDisconnectEvent
  | AccountDisconnectEvent int
  | AccountsTokenInvalidatedEvent "int list"
  | OtherEvent nat nat

datatype payload_class =
    Class_refresh | Class_client_disconnect | Class_account_disconnect | Class_invalidated
  | Class_other nat

fun class_of :: "payload \<Rightarrow> payload_class" where
  "class_of (RefreshTokenRes _) = Class_refresh"
| "class_of ClientDisconnectEvent = Class_client_disconnect"
| "class_of (AccountDisconnectEvent _) = Class_account_disconnect"
| "class_of (AccountsTokenInvalidatedEvent _) = Class_invalidated"
| "class_of (OtherEvent k _) = Class_other k"

subsection \<open>State\<close>

datatype SessionState = STOPPED | CONNECTING | AUTHENTICATING | RESTORING | READY

text \<open>
  A call of \<open>refresh_tokens\<close> that waits: whether its request is written, and \<open>earlier\<close>, which the
  write records.
\<close>

datatype refresh_call = Unwritten | Written bool

datatype sup_pc =
    Sup_start
  | Sup_connect
  | Sup_app_auth
  | Sup_refresh_due refresh_call
  | Sup_late_due
  | Sup_account_auth string
  | Sup_refresh_rejected refresh_call
  | Sup_late_rejected
  | Sup_account_retry
  | Sup_restore string "string list"
  | Sup_ready rat
  | Sup_hold rat
  | Sup_close_lost rat
  | Sup_close_failed
  | Sup_back_off rat

datatype ref_pc = Ref_sleep | Ref_wait_ready | Ref_refresh refresh_call

datatype asked =
    Asked_connect
  | Asked_app_auth
  | Asked_account_auth string
  | Account_accepted
  | Asked_refresh string rat
  | Refresh_written
  | Refresh_refused
  | Pair_taken token_pair rat
  | Auth_ended
  | Stopped
  | Dropped
  | Asked_close
  | Restoring "string list"
  | Ran_restore string
  | Session_ready
  | Loss_told "nat list"
  | Handled nat payload
  | Request_passed nat
  | Request_refused nat SessionState

record session =
  ss_state :: SessionState
  ss_ready :: bool
  ss_lost :: bool
  ss_access_token :: string
  ss_refresh_token :: "string option"
  ss_expires_at :: "rat option"
  ss_restores :: "(string, nat) dict"
  ss_failed :: "string set"
  ss_event_handlers :: "(payload_class, nat list) dict"
  ss_loss_listeners :: "nat list"
  ss_supervisor :: "sup_pc option"
  ss_attempt :: nat
  ss_refresh_task :: "ref_pc option"
  ss_retry :: "(string \<times> string list \<times> nat) option"
  ss_starts :: "nat list"
  ss_last_refresh_at :: "rat option"
  ss_refresh_settled :: bool
  ss_pair_taken :: bool
  ss_dropped :: bool
  ss_reauth_requested :: bool
  ss_account_auth_sent :: bool
  ss_stopping :: bool
  ss_stops_in_progress :: nat
  ss_stop_epoch :: nat
  ss_last_error :: "sess_error option"
  ss_loss_cause :: "conn_error option"
  ss_generation :: nat
  ss_open :: bool
  ss_log :: "asked list"

record sess_config =
  sc_account_id :: int
  sc_backoff_base :: rat
  sc_backoff_max :: rat

definition new_session :: "string \<Rightarrow> string option \<Rightarrow> rat option \<Rightarrow> session" where
  "new_session access refresh expires_at =
     \<lparr>ss_state = STOPPED, ss_ready = False, ss_lost = False, ss_access_token = access,
      ss_refresh_token = refresh, ss_expires_at = expires_at, ss_restores = [], ss_failed = {},
      ss_event_handlers = [], ss_loss_listeners = [], ss_supervisor = None, ss_attempt = 0,
      ss_refresh_task = None, ss_retry = None, ss_starts = [], ss_last_refresh_at = None,
      ss_refresh_settled = True, ss_pair_taken = False, ss_dropped = False,
      ss_reauth_requested = False, ss_account_auth_sent = False, ss_stopping = False,
      ss_stops_in_progress = 0, ss_stop_epoch = 0, ss_last_error = None, ss_loss_cause = None,
      ss_generation = 0, ss_open = False, ss_log = []\<rparr>"

definition noted :: "asked \<Rightarrow> session \<Rightarrow> session" where
  "noted x s = s\<lparr>ss_log := ss_log s @ [x]\<rparr>"

subsection \<open>Registering\<close>

definition add_event_handler :: "payload_class \<Rightarrow> nat \<Rightarrow> session \<Rightarrow> session" where
  "add_event_handler c h s =
     s\<lparr>ss_event_handlers :=
         AList.update c (dict_get (ss_event_handlers s) c [] @ [h]) (ss_event_handlers s)\<rparr>"

definition remove_event_handler :: "payload_class \<Rightarrow> nat \<Rightarrow> session \<Rightarrow> session" where
  "remove_event_handler c h s =
     (case map_of (ss_event_handlers s) c of
        None \<Rightarrow> s
      | Some hs \<Rightarrow>
          if h \<notin> set hs then s
          else if remove1 h hs = []
          then s\<lparr>ss_event_handlers := AList.delete c (ss_event_handlers s)\<rparr>
          else s\<lparr>ss_event_handlers := AList.update c (remove1 h hs) (ss_event_handlers s)\<rparr>)"

definition add_loss_listener :: "nat \<Rightarrow> session \<Rightarrow> session" where
  "add_loss_listener l s = s\<lparr>ss_loss_listeners := ss_loss_listeners s @ [l]\<rparr>"

definition remove_loss_listener :: "nat \<Rightarrow> session \<Rightarrow> session" where
  "remove_loss_listener l s = s\<lparr>ss_loss_listeners := remove1 l (ss_loss_listeners s)\<rparr>"

definition add_restore :: "string \<Rightarrow> nat \<Rightarrow> session \<Rightarrow> session" where
  "add_restore key factory s = s\<lparr>ss_restores := AList.update key factory (ss_restores s)\<rparr>"

definition remove_restore :: "string \<Rightarrow> session \<Rightarrow> session" where
  "remove_restore key s =
     s\<lparr>ss_restores := AList.delete key (ss_restores s), ss_failed := ss_failed s - {key}\<rparr>"

definition mark_restore_failed :: "string \<Rightarrow> session \<Rightarrow> session" where
  "mark_restore_failed key s =
     (if map_of (ss_restores s) key \<noteq> None then s\<lparr>ss_failed := insert key (ss_failed s)\<rparr> else s)"

text \<open>\<open>request\<close>: passed to the connection, or refused in the state it is in.\<close>

definition accepts_requests :: "session \<Rightarrow> bool" where
  "accepts_requests s \<longleftrightarrow> ss_state s = READY \<or> ss_state s = RESTORING"

definition sess_request :: "nat \<Rightarrow> session \<Rightarrow> session" where
  "sess_request i s =
     (if accepts_requests s then noted (Request_passed i) s
      else noted (Request_refused i (ss_state s)) s)"

subsection \<open>Refreshing the tokens\<close>

text \<open>The moment a proactive refresh is due, less now; none when there is nothing to refresh.\<close>

definition refresh_delay :: "rat \<Rightarrow> session \<Rightarrow> rat option" where
  "refresh_delay now s =
     (case (ss_expires_at s, ss_refresh_token s) of
        (Some expires_at, Some _) \<Rightarrow>
          (let delay = expires_at - TOKEN_REFRESH_MARGIN_SECS - now
           in Some (case ss_last_refresh_at s of
                      None \<Rightarrow> delay
                    | Some t \<Rightarrow> max delay (t + MIN_TOKEN_REFRESH_INTERVAL_SECS - now)))
      | _ \<Rightarrow> None)"

definition may_refresh_for :: "rat \<Rightarrow> string \<Rightarrow> session \<Rightarrow> bool" where
  "may_refresh_for now code s \<longleftrightarrow>
     ss_refresh_token s \<noteq> None \<and> code \<in> set TOKEN_ERROR_CODES \<and>
     (case ss_last_refresh_at s of
        None \<Rightarrow> True
      | Some t \<Rightarrow> MIN_TOKEN_REFRESH_INTERVAL_SECS \<le> now - t)"

text \<open>
  \<open>refresh_tokens\<close> up to its wait; its callers have looked at the refresh token, so it is there.
\<close>

definition ask_refresh :: "rat \<Rightarrow> session \<Rightarrow> session" where
  "ask_refresh now s =
     (case ss_refresh_token s of
        None \<Rightarrow> s
      | Some token \<Rightarrow> noted (Asked_refresh token now) (s\<lparr>ss_last_refresh_at := Some now\<rparr>))"

text \<open>\<open>written\<close>: what the connection calls as it writes the request.\<close>

definition refresh_written :: "session \<Rightarrow> refresh_call \<times> session" where
  "refresh_written s =
     (Written (\<not> ss_refresh_settled s), noted Refresh_written (s\<lparr>ss_refresh_settled := False\<rparr>))"

definition take_pair :: "rat \<Rightarrow> token_pair \<Rightarrow> session \<Rightarrow> session" where
  "take_pair now pair s =
     noted (Pair_taken pair (now + tp_expires_in pair))
       (s\<lparr>ss_access_token := tp_access pair, ss_refresh_token := Some (tp_refresh pair),
          ss_expires_at := Some (now + tp_expires_in pair), ss_refresh_settled := True,
          ss_pair_taken := True\<rparr>)"

text \<open>The venue refused a refresh: settled unless an earlier one was still awaited.\<close>

fun refresh_refused :: "refresh_call \<Rightarrow> session \<Rightarrow> session" where
  "refresh_refused (Written True) s = s"
| "refresh_refused call s = noted Refresh_refused (s\<lparr>ss_refresh_settled := True\<rparr>)"

definition give_up_refresh_reply :: "session \<Rightarrow> session" where
  "give_up_refresh_reply s = s\<lparr>ss_refresh_settled := True\<rparr>"

subsection \<open>The supervisor\<close>

definition at_place :: "sup_pc \<Rightarrow> session \<Rightarrow> session" where
  "at_place pc s = s\<lparr>ss_supervisor := Some pc\<rparr>"

definition tell_loss :: "session \<Rightarrow> session" where
  "tell_loss s = noted (Loss_told (ss_loss_listeners s)) s"

text \<open>\<open>_teardown_connection\<close> up to its wait for the close.\<close>

definition teardown_connection :: "session \<Rightarrow> session" where
  "teardown_connection s =
     noted Asked_close
       (give_up_refresh_reply (s\<lparr>ss_state := CONNECTING, ss_ready := False, ss_open := False\<rparr>))"

text \<open>The head of the loop, and \<open>_bring_up\<close> up to its first wait.\<close>

definition bring_up :: "session \<Rightarrow> session" where
  "bring_up s =
     (if ss_stopping s then s\<lparr>ss_supervisor := None\<rparr>
      else at_place Sup_connect
        (noted Asked_connect
          (s\<lparr>ss_lost := False, ss_dropped := False, ss_loss_cause := None, ss_ready := False,
             ss_failed := {}, ss_account_auth_sent := False,
             ss_generation := Suc (ss_generation s), ss_open := True, ss_state := CONNECTING\<rparr>)))"

text \<open>The handler of an exception of the bring-up.\<close>

definition bring_up_failed :: "sess_error \<Rightarrow> session \<Rightarrow> session" where
  "bring_up_failed e s =
     (let s = s\<lparr>ss_last_error := Some e, ss_attempt := Suc (ss_attempt s)\<rparr>;
          s = (if ss_lost s \<and> \<not> ss_stopping s then tell_loss s else s)
      in at_place Sup_close_failed (teardown_connection s))"

text \<open>\<open>_back_off\<close>: \<open>random\<close> is what \<open>random.random()\<close> returns.\<close>

definition back_off :: "sess_config \<Rightarrow> rat \<Rightarrow> session \<Rightarrow> session" where
  "back_off cfg random s =
     at_place (Sup_back_off
       (min (sc_backoff_max cfg) (sc_backoff_base cfg * 2 ^ (ss_attempt s - 1)) *
        (1 + random * BACKOFF_JITTER))) s"

definition authenticate_account :: "(string \<Rightarrow> sup_pc) \<Rightarrow> session \<Rightarrow> session" where
  "authenticate_account pc s =
     at_place (pc (ss_access_token s))
       (noted (Asked_account_auth (ss_access_token s)) (s\<lparr>ss_account_auth_sent := True\<rparr>))"

definition first_account_auth :: "session \<Rightarrow> session" where
  "first_account_auth = authenticate_account Sup_account_auth"

definition second_account_auth :: "session \<Rightarrow> session" where
  "second_account_auth = authenticate_account (\<lambda>_. Sup_account_retry)"

text \<open>The head of \<open>_refresh_loop\<close>.\<close>

definition refresh_loop_from :: "rat \<Rightarrow> session \<Rightarrow> session" where
  "refresh_loop_from now s =
     (case refresh_delay now s of
        None \<Rightarrow> s\<lparr>ss_refresh_task := None\<rparr>
      | Some delay \<Rightarrow>
          if 0 < delay then s\<lparr>ss_refresh_task := Some Ref_sleep\<rparr>
          else if \<not> ss_ready s then s\<lparr>ss_refresh_task := Some Ref_wait_ready\<rparr>
          else (ask_refresh now s)\<lparr>ss_refresh_task := Some (Ref_refresh Unwritten)\<rparr>)"

text \<open>
  The end of \<open>_bring_up\<close>, after the restores. A new refresh task begins at a later turn of the
  event loop, as one that slept goes on.
\<close>

definition become_ready :: "rat \<Rightarrow> session \<Rightarrow> session" where
  "become_ready now s =
     (if ss_lost s then bring_up_failed Lost_in_bring_up s
      else
        let start_task = (ss_refresh_task s = None);
            s = at_place (Sup_ready now)
                  (noted Session_ready
                    (s\<lparr>ss_state := READY, ss_last_error := None, ss_ready := True\<rparr>))
        in if start_task then s\<lparr>ss_refresh_task := Some Ref_sleep\<rparr> else s)"

definition restore_from :: "rat \<Rightarrow> string list \<Rightarrow> session \<Rightarrow> session" where
  "restore_from now ks s =
     (case ks of
        [] \<Rightarrow> become_ready now s
      | k # others \<Rightarrow> at_place (Sup_restore k others) s)"

text \<open>The venue accepted the account's authentication.\<close>

definition authenticated :: "rat \<Rightarrow> session \<Rightarrow> session" where
  "authenticated now s =
     (let s = noted Account_accepted s
      in if ss_lost s then bring_up_failed Lost_in_bring_up s
         else restore_from now (map fst (ss_restores s))
                (noted (Restoring (map fst (ss_restores s))) (s\<lparr>ss_state := RESTORING\<rparr>)))"

text \<open>The answers the supervisor waits for, place by place.\<close>

definition connect_answer :: "conn_error option \<Rightarrow> session \<Rightarrow> session" where
  "connect_answer answer s =
     (case answer of
        Some e \<Rightarrow> bring_up_failed (From_connection e) s
      | None \<Rightarrow> at_place Sup_app_auth (noted Asked_app_auth (s\<lparr>ss_state := AUTHENTICATING\<rparr>)))"

definition app_auth_answer :: "rat \<Rightarrow> conn_error option \<Rightarrow> session \<Rightarrow> session" where
  "app_auth_answer now answer s =
     (case answer of
        Some (RequestError e) \<Rightarrow> bring_up_failed (App_auth_rejected (error_code e)) s
      | Some e \<Rightarrow> bring_up_failed (From_connection e) s
      | None \<Rightarrow>
          (case refresh_delay now s of
             Some delay \<Rightarrow>
               if delay \<le> 0
               then at_place (Sup_refresh_due Unwritten)
                      (ask_refresh now (s\<lparr>ss_pair_taken := False\<rparr>))
               else first_account_auth s
           | None \<Rightarrow> first_account_auth s))"

definition refresh_due_answer ::
    "rat \<Rightarrow> refresh_call \<Rightarrow> conn_error + token_pair \<Rightarrow> session \<Rightarrow> session" where
  "refresh_due_answer now call answer s =
     (case answer of
        Inr pair \<Rightarrow> first_account_auth (take_pair now pair s)
      | Inl (RequestError e) \<Rightarrow> first_account_auth (refresh_refused call s)
      | Inl e \<Rightarrow>
          if e = QueueTimeoutError then first_account_auth s
          else if error_kind_timeout e then at_place Sup_late_due s
          else bring_up_failed (From_connection e) s)"

definition late_due_over :: "session \<Rightarrow> session" where
  "late_due_over s =
     (if ss_pair_taken s then first_account_auth s
      else if ss_lost s then bring_up_failed Lost_in_late_wait s
      else first_account_auth s)"

definition account_auth_answer :: "rat \<Rightarrow> string \<Rightarrow> conn_error option \<Rightarrow> session \<Rightarrow> session" where
  "account_auth_answer now token answer s =
     (case answer of
        None \<Rightarrow> authenticated now s
      | Some (RequestError e) \<Rightarrow>
          if ss_access_token s \<noteq> token \<and> error_code e \<in> set TOKEN_ERROR_CODES
          then second_account_auth s
          else if \<not> may_refresh_for now (error_code e) s
          then bring_up_failed (Account_auth_rejected (error_code e)) s
          else at_place (Sup_refresh_rejected Unwritten)
                 (ask_refresh now (s\<lparr>ss_pair_taken := False\<rparr>))
      | Some e \<Rightarrow> bring_up_failed (From_connection e) s)"

definition refresh_rejected_answer ::
    "rat \<Rightarrow> refresh_call \<Rightarrow> conn_error + token_pair \<Rightarrow> session \<Rightarrow> session" where
  "refresh_rejected_answer now call answer s =
     (case answer of
        Inr pair \<Rightarrow> second_account_auth (take_pair now pair s)
      | Inl (RequestError e) \<Rightarrow>
          bring_up_failed (Refresh_rejected (error_code e)) (refresh_refused call s)
      | Inl e \<Rightarrow>
          if error_kind_timeout e \<and> \<not> is_not_sent e then at_place Sup_late_rejected s
          else bring_up_failed (From_connection e) s)"

definition late_rejected_over :: "session \<Rightarrow> session" where
  "late_rejected_over s =
     (if ss_pair_taken s then second_account_auth s
      else if ss_lost s then bring_up_failed Lost_in_late_wait s
      else bring_up_failed (From_connection TimeoutError) s)"

definition account_retry_answer :: "rat \<Rightarrow> conn_error option \<Rightarrow> session \<Rightarrow> session" where
  "account_retry_answer now answer s =
     (case answer of
        None \<Rightarrow> authenticated now s
      | Some (RequestError e) \<Rightarrow>
          bring_up_failed (Account_auth_rejected_after_refresh (error_code e)) s
      | Some e \<Rightarrow> bring_up_failed (From_connection e) s)"

text \<open>What a restore action returned: nothing, a connection error, or another error's detail.\<close>

datatype restored = Restored_ok | Restored_connection_error conn_error | Restored_other

definition restore_answer :: "rat \<Rightarrow> string \<Rightarrow> string list \<Rightarrow> restored \<Rightarrow> session \<Rightarrow> session" where
  "restore_answer now key ks answer s =
     (let s = noted (Ran_restore key) s
      in case answer of
           Restored_connection_error e \<Rightarrow> bring_up_failed (From_connection e) s
         | Restored_ok \<Rightarrow> restore_from now ks s
         | Restored_other \<Rightarrow>
             if ss_lost s then bring_up_failed Lost_in_bring_up s
             else restore_from now ks (s\<lparr>ss_failed := insert key (ss_failed s)\<rparr>))"

definition close_lost :: "rat \<Rightarrow> session \<Rightarrow> session" where
  "close_lost since s = at_place (Sup_close_lost since) (teardown_connection s)"

definition lost_wakes :: "rat \<Rightarrow> session \<Rightarrow> session" where
  "lost_wakes since s =
     (if \<not> ss_lost s then s
      else if ss_stopping s then s\<lparr>ss_supervisor := None\<rparr>
      else
        let s = tell_loss s
        in if ss_refresh_settled s then close_lost since s
           else at_place (Sup_hold since) s)"

definition close_lost_over :: "sess_config \<Rightarrow> rat \<Rightarrow> rat \<Rightarrow> rat \<Rightarrow> session \<Rightarrow> session" where
  "close_lost_over cfg random now since s =
     (let reauth = ss_reauth_requested s;
          s = s\<lparr>ss_reauth_requested := False\<rparr>
      in if reauth \<or> STABLE_SESSION_SECS \<le> now - since
         then bring_up (s\<lparr>ss_attempt := 0\<rparr>)
         else back_off cfg random (s\<lparr>ss_attempt := Suc (ss_attempt s)\<rparr>))"

subsection \<open>The refresh loop\<close>

definition refresh_loop_answer ::
    "rat \<Rightarrow> refresh_call \<Rightarrow> conn_error + token_pair \<Rightarrow> session \<Rightarrow> session" where
  "refresh_loop_answer now call answer s =
     (case answer of
        Inl (RequestError e) \<Rightarrow> (refresh_refused call s)\<lparr>ss_refresh_task := None\<rparr>
      | Inl e \<Rightarrow>
          if error_kind_connection e then s\<lparr>ss_refresh_task := None\<rparr>
          else refresh_loop_from now s
      | Inr pair \<Rightarrow>
          (let s = take_pair now pair s
           in if ss_lost s then refresh_loop_from now s
              else refresh_loop_from now (s\<lparr>ss_reauth_requested := True, ss_lost := True\<rparr>)))"

subsection \<open>What the connection calls\<close>

definition on_disconnect :: "conn_error \<Rightarrow> session \<Rightarrow> session" where
  "on_disconnect e s =
     (let s = noted Dropped
                (s\<lparr>ss_dropped := True, ss_last_error := Some (From_connection e),
                   ss_loss_cause := Some e\<rparr>)
      in if ss_stopping s then s
         else s\<lparr>ss_state := CONNECTING, ss_ready := False, ss_lost := True\<rparr>)"

definition on_late_refresh_reply :: "rat \<Rightarrow> token_pair \<Rightarrow> session \<Rightarrow> session" where
  "on_late_refresh_reply now pair s =
     (if ss_refresh_settled s then s
      else
        let s = take_pair now pair s
        in if ss_state s = READY \<and> \<not> ss_lost s
           then s\<lparr>ss_reauth_requested := True, ss_lost := True\<rparr> else s)"

definition ends_our_authentication :: "sess_config \<Rightarrow> payload \<Rightarrow> session \<Rightarrow> bool" where
  "ends_our_authentication cfg p s \<longleftrightarrow>
     (case p of
        ClientDisconnectEvent \<Rightarrow> True
      | AccountDisconnectEvent i \<Rightarrow> ss_account_auth_sent s \<and> i = sc_account_id cfg
      | AccountsTokenInvalidatedEvent ids \<Rightarrow>
          ss_account_auth_sent s \<and> (ids = [] \<or> sc_account_id cfg \<in> set ids)
      | _ \<Rightarrow> False)"

definition dispatch_event :: "payload \<Rightarrow> session \<Rightarrow> session" where
  "dispatch_event p s =
     fold (\<lambda>h. noted (Handled h p)) (dict_get (ss_event_handlers s) (class_of p) []) s"

definition on_event :: "sess_config \<Rightarrow> rat \<Rightarrow> payload \<Rightarrow> session \<Rightarrow> session" where
  "on_event cfg now p s =
     (case p of
        RefreshTokenRes pair \<Rightarrow> on_late_refresh_reply now pair s
      | _ \<Rightarrow>
          dispatch_event p
            (if ends_our_authentication cfg p s \<and> \<not> ss_stopping s
             then noted Auth_ended
               (s\<lparr>ss_state := CONNECTING, ss_ready := False, ss_loss_cause := None, ss_lost := True\<rparr>)
             else s))"

subsection \<open>Starting and stopping\<close>

text \<open>\<open>start\<close> after its wait; \<open>epoch\<close> is the one it read before.\<close>

definition start_now :: "nat \<Rightarrow> session \<Rightarrow> session" where
  "start_now epoch s =
     (if ss_stop_epoch s \<noteq> epoch then s
      else if ss_supervisor s \<noteq> None then s
      else s\<lparr>ss_stopping := False, ss_reauth_requested := False, ss_attempt := 0,
             ss_supervisor := Some Sup_start\<rparr>)"

definition sess_start :: "session \<Rightarrow> session" where
  "sess_start s =
     (if ss_stops_in_progress s = 0 then start_now (ss_stop_epoch s) s
      else s\<lparr>ss_starts := ss_starts s @ [ss_stop_epoch s]\<rparr>)"

text \<open>
  A \<open>start\<close> wakes once every \<open>stop\<close> it waited for is over; one that finds a \<open>stop\<close> in progress
  finds a later one, and gives way.
\<close>

definition start_wakes :: "nat \<Rightarrow> session \<Rightarrow> session" where
  "start_wakes epoch s =
     (if epoch \<in> set (ss_starts s) \<and> (ss_stops_in_progress s = 0 \<or> ss_stop_epoch s \<noteq> epoch)
      then start_now epoch (s\<lparr>ss_starts := remove1 epoch (ss_starts s)\<rparr>) else s)"

text \<open>\<open>stop\<close> up to its waits: the tasks are cancelled and the connection's closing begun.\<close>

definition sess_stop :: "session \<Rightarrow> session" where
  "sess_stop s =
     noted Asked_close
       (give_up_refresh_reply
         (noted Stopped s\<lparr>ss_stops_in_progress := Suc (ss_stops_in_progress s),
            ss_stop_epoch := Suc (ss_stop_epoch s), ss_stopping := True, ss_lost := True,
            ss_state := STOPPED, ss_ready := False, ss_supervisor := None,
            ss_refresh_task := None, ss_open := False\<rparr>))"

definition stop_over :: "session \<Rightarrow> session" where
  "stop_over s = s\<lparr>ss_stops_in_progress := ss_stops_in_progress s - 1\<rparr>"

subsection \<open>Retrying failed restores\<close>

fun retry_from :: "string list \<Rightarrow> session \<Rightarrow> session" where
  "retry_from [] s = s\<lparr>ss_retry := None\<rparr>"
| "retry_from (k # ks) s =
     (if ss_state s \<noteq> READY then s\<lparr>ss_retry := None\<rparr>
      else if map_of (ss_restores s) k = None
      then retry_from ks (s\<lparr>ss_failed := ss_failed s - {k}\<rparr>)
      else s\<lparr>ss_retry := Some (k, ks, ss_generation s)\<rparr>)"

definition retry_answer ::
    "string \<Rightarrow> string list \<Rightarrow> nat \<Rightarrow> restored \<Rightarrow> session \<Rightarrow> session" where
  "retry_answer k ks generation_then answer s =
     (if (case answer of
            Restored_connection_error _ \<Rightarrow> True | Restored_other \<Rightarrow> ss_lost s | Restored_ok \<Rightarrow> False) \<or>
         generation_then \<noteq> ss_generation s \<or> ss_state s \<noteq> READY
      then s\<lparr>ss_retry := None\<rparr>
      else retry_from ks
             (if answer = Restored_ok then s\<lparr>ss_failed := ss_failed s - {k}\<rparr> else s))"

subsection \<open>Steps\<close>

datatype sess_event =
    Start
  | Start_wakes nat
  | Stop
  | Stop_over
  | Request nat
  | Add_event_handler payload_class nat
  | Remove_event_handler payload_class nat
  | Add_loss_listener nat
  | Remove_loss_listener nat
  | Add_restore string nat
  | Remove_restore string
  | Mark_restore_failed string
  | Supervisor_starts
  | Connect_answer "conn_error option"
  | Auth_answer rat "conn_error option"
  | Supervisor_refresh_written
  | Supervisor_refresh_answer rat "conn_error + token_pair"
  | Late_wait_over
  | Restore_answer rat restored
  | Lost_wakes
  | Hold_over
  | Close_over rat rat
  | Back_off_over
  | Loop_turn rat
  | Loop_refresh_written
  | Loop_refresh_answer rat "conn_error + token_pair"
  | Event rat payload
  | Disconnect conn_error
  | Retry_failed "string list"
  | Retry_answer restored

text \<open>
  An event that finds its task at another place did not happen, and changes nothing; so does a
  callback of a connection that is not open. \<open>ss_open\<close> tells, for that alone, whether it is: from
  the call of \<open>connect\<close> to the beginning of its closing.
\<close>

definition supervisor_step :: "sess_config \<Rightarrow> sess_event \<Rightarrow> sup_pc \<Rightarrow> session \<Rightarrow> session" where
  "supervisor_step cfg ev pc s =
     (case (ev, pc) of
        (Supervisor_starts, Sup_start) \<Rightarrow> bring_up s
      | (Connect_answer answer, Sup_connect) \<Rightarrow> connect_answer answer s
      | (Auth_answer now answer, Sup_app_auth) \<Rightarrow> app_auth_answer now answer s
      | (Auth_answer now answer, Sup_account_auth token) \<Rightarrow> account_auth_answer now token answer s
      | (Auth_answer now answer, Sup_account_retry) \<Rightarrow> account_retry_answer now answer s
      | (Supervisor_refresh_written, Sup_refresh_due Unwritten) \<Rightarrow>
          (case refresh_written s of (call, s) \<Rightarrow> at_place (Sup_refresh_due call) s)
      | (Supervisor_refresh_written, Sup_refresh_rejected Unwritten) \<Rightarrow>
          (case refresh_written s of (call, s) \<Rightarrow> at_place (Sup_refresh_rejected call) s)
      | (Supervisor_refresh_answer now answer, Sup_refresh_due call) \<Rightarrow>
          refresh_due_answer now call answer s
      | (Supervisor_refresh_answer now answer, Sup_refresh_rejected call) \<Rightarrow>
          refresh_rejected_answer now call answer s
      | (Late_wait_over, Sup_late_due) \<Rightarrow> late_due_over s
      | (Late_wait_over, Sup_late_rejected) \<Rightarrow> late_rejected_over s
      | (Restore_answer now answer, Sup_restore key ks) \<Rightarrow> restore_answer now key ks answer s
      | (Lost_wakes, Sup_ready since) \<Rightarrow> lost_wakes since s
      | (Hold_over, Sup_hold since) \<Rightarrow> close_lost since s
      | (Close_over now random, Sup_close_lost since) \<Rightarrow> close_lost_over cfg random now since s
      | (Close_over now random, Sup_close_failed) \<Rightarrow> back_off cfg random s
      | (Back_off_over, Sup_back_off delay) \<Rightarrow> bring_up s
      | _ \<Rightarrow> s)"

definition refresh_step :: "sess_event \<Rightarrow> ref_pc \<Rightarrow> session \<Rightarrow> session" where
  "refresh_step ev pc s =
     (case (ev, pc) of
        (Loop_turn now, Ref_sleep) \<Rightarrow> refresh_loop_from now s
      | (Loop_turn now, Ref_wait_ready) \<Rightarrow> refresh_loop_from now s
      | (Loop_refresh_written, Ref_refresh Unwritten) \<Rightarrow>
          (case refresh_written s of (call, s) \<Rightarrow> s\<lparr>ss_refresh_task := Some (Ref_refresh call)\<rparr>)
      | (Loop_refresh_answer now answer, Ref_refresh call) \<Rightarrow> refresh_loop_answer now call answer s
      | _ \<Rightarrow> s)"

definition sess_step :: "sess_config \<Rightarrow> sess_event \<Rightarrow> session \<Rightarrow> session" where
  "sess_step cfg ev s =
     (case ev of
        Start \<Rightarrow> sess_start s
      | Start_wakes epoch \<Rightarrow> start_wakes epoch s
      | Stop \<Rightarrow> sess_stop s
      | Stop_over \<Rightarrow> stop_over s
      | Request i \<Rightarrow> sess_request i s
      | Add_event_handler c h \<Rightarrow> add_event_handler c h s
      | Remove_event_handler c h \<Rightarrow> remove_event_handler c h s
      | Add_loss_listener l \<Rightarrow> add_loss_listener l s
      | Remove_loss_listener l \<Rightarrow> remove_loss_listener l s
      | Add_restore key factory \<Rightarrow> add_restore key factory s
      | Remove_restore key \<Rightarrow> remove_restore key s
      | Mark_restore_failed key \<Rightarrow> mark_restore_failed key s
      | Loop_turn _ \<Rightarrow> (case ss_refresh_task s of None \<Rightarrow> s | Some pc \<Rightarrow> refresh_step ev pc s)
      | Loop_refresh_written \<Rightarrow>
          (case ss_refresh_task s of None \<Rightarrow> s | Some pc \<Rightarrow> refresh_step ev pc s)
      | Loop_refresh_answer _ _ \<Rightarrow>
          (case ss_refresh_task s of None \<Rightarrow> s | Some pc \<Rightarrow> refresh_step ev pc s)
      | Event now p \<Rightarrow> if ss_open s then on_event cfg now p s else s
      | Disconnect e \<Rightarrow> if ss_open s then on_disconnect e s else s
      | Retry_failed keys \<Rightarrow>
          if ss_retry s = None \<and> set keys = ss_failed s then retry_from keys s else s
      | Retry_answer answer \<Rightarrow>
          (case ss_retry s of
             None \<Rightarrow> s
           | Some (k, ks, generation_then) \<Rightarrow> retry_answer k ks generation_then answer s)
      | _ \<Rightarrow> (case ss_supervisor s of None \<Rightarrow> s | Some pc \<Rightarrow> supervisor_step cfg ev pc s))"

definition sess_run :: "sess_config \<Rightarrow> sess_event list \<Rightarrow> session \<Rightarrow> session" where
  "sess_run cfg = fold (sess_step cfg)"

end
