(* ===== verification/Session_Safety.thy ===== *)
theory Session_Safety
  imports Session
begin

text \<open>
  What holds of the session in every run, whatever the order of the connection's answers, its
  callbacks, the timers and the calls of the layers above: requests pass only on a connection the
  account is authenticated on, with every restore run on it; refreshes keep their interval; the
  late reply to a refresh is adopted while its connection is open; a stop wins over every start
  before it; and each loss is told once. \<open>link\<close> reads the ghost log.
\<close>

subsection \<open>Reading the log\<close>

text \<open>
  Since the last connect: whether the connection stands, with the account accepted on it, the
  restores due and run, how often a loss was told, and whether the session became ready. Besides:
  whether a written refresh is unanswered on an open connection, and when each refresh was asked.
\<close>

record link =
  lk_live :: bool
  lk_accepted :: bool
  lk_due :: "string list"
  lk_ran :: "string list"
  lk_told :: nat
  lk_was_ready :: bool
  lk_stopped :: bool
  lk_losses_ok :: bool
  lk_awaiting :: bool
  lk_refreshes :: "rat list"

definition link_start :: link where
  "link_start = \<lparr>lk_live = False, lk_accepted = False, lk_due = [], lk_ran = [], lk_told = 0,
     lk_was_ready = False, lk_stopped = False, lk_losses_ok = True, lk_awaiting = False,
     lk_refreshes = []\<rparr>"

definition losses_told :: "link \<Rightarrow> bool" where
  "losses_told l \<longleftrightarrow> lk_told l \<le> 1 \<and> (lk_was_ready l \<and> \<not> lk_stopped l \<longrightarrow> lk_told l = 1)"

fun link_step :: "asked \<Rightarrow> link \<Rightarrow> link" where
  "link_step Asked_connect l =
     l\<lparr>lk_live := True, lk_accepted := False, lk_due := [], lk_ran := [], lk_told := 0,
       lk_was_ready := False, lk_stopped := False,
       lk_losses_ok := lk_losses_ok l \<and> losses_told l\<rparr>"
| "link_step Account_accepted l = l\<lparr>lk_accepted := True\<rparr>"
| "link_step (Restoring ks) l = l\<lparr>lk_due := ks, lk_ran := []\<rparr>"
| "link_step (Ran_restore k) l = l\<lparr>lk_ran := lk_ran l @ [k]\<rparr>"
| "link_step Session_ready l = l\<lparr>lk_was_ready := True\<rparr>"
| "link_step (Loss_told ls) l = l\<lparr>lk_told := Suc (lk_told l)\<rparr>"
| "link_step Auth_ended l = l\<lparr>lk_live := False\<rparr>"
| "link_step Dropped l = l\<lparr>lk_live := False\<rparr>"
| "link_step Asked_close l = l\<lparr>lk_live := False, lk_awaiting := False\<rparr>"
| "link_step Stopped l = l\<lparr>lk_stopped := True\<rparr>"
| "link_step Refresh_written l = l\<lparr>lk_awaiting := True\<rparr>"
| "link_step Refresh_refused l = l\<lparr>lk_awaiting := False\<rparr>"
| "link_step (Pair_taken pair t) l = l\<lparr>lk_awaiting := False\<rparr>"
| "link_step (Asked_refresh token t) l = l\<lparr>lk_refreshes := lk_refreshes l @ [t]\<rparr>"
| "link_step _ l = l"

definition link_of :: "asked list \<Rightarrow> link" where
  "link_of asked = fold link_step asked link_start"

definition the_link :: "session \<Rightarrow> link" where
  "the_link s = link_of (ss_log s)"

lemma the_link_noted [simp]: "the_link (noted x s) = link_step x (the_link s)"
  by (simp add: the_link_def link_of_def noted_def)

lemma noted_frame [simp]:
  "ss_state (noted x s) = ss_state s"
  "ss_ready (noted x s) = ss_ready s"
  "ss_lost (noted x s) = ss_lost s"
  "ss_access_token (noted x s) = ss_access_token s"
  "ss_refresh_token (noted x s) = ss_refresh_token s"
  "ss_expires_at (noted x s) = ss_expires_at s"
  "ss_restores (noted x s) = ss_restores s"
  "ss_failed (noted x s) = ss_failed s"
  "ss_event_handlers (noted x s) = ss_event_handlers s"
  "ss_loss_listeners (noted x s) = ss_loss_listeners s"
  "ss_supervisor (noted x s) = ss_supervisor s"
  "ss_attempt (noted x s) = ss_attempt s"
  "ss_refresh_task (noted x s) = ss_refresh_task s"
  "ss_retry (noted x s) = ss_retry s"
  "ss_starts (noted x s) = ss_starts s"
  "ss_last_refresh_at (noted x s) = ss_last_refresh_at s"
  "ss_refresh_settled (noted x s) = ss_refresh_settled s"
  "ss_pair_taken (noted x s) = ss_pair_taken s"
  "ss_dropped (noted x s) = ss_dropped s"
  "ss_reauth_requested (noted x s) = ss_reauth_requested s"
  "ss_account_auth_sent (noted x s) = ss_account_auth_sent s"
  "ss_stopping (noted x s) = ss_stopping s"
  "ss_stops_in_progress (noted x s) = ss_stops_in_progress s"
  "ss_stop_epoch (noted x s) = ss_stop_epoch s"
  "ss_last_error (noted x s) = ss_last_error s"
  "ss_loss_cause (noted x s) = ss_loss_cause s"
  "ss_generation (noted x s) = ss_generation s"
  "ss_open (noted x s) = ss_open s"
  by (simp_all add: noted_def)

text \<open>The log is read through \<open>the_link\<close>: what leaves it alone leaves the link alone.\<close>

lemma the_link_frame [simp]:
  "the_link (s\<lparr>ss_state := x0\<rparr>) = the_link s"
  "the_link (s\<lparr>ss_ready := x1\<rparr>) = the_link s"
  "the_link (s\<lparr>ss_lost := x2\<rparr>) = the_link s"
  "the_link (s\<lparr>ss_access_token := x3\<rparr>) = the_link s"
  "the_link (s\<lparr>ss_refresh_token := x4\<rparr>) = the_link s"
  "the_link (s\<lparr>ss_expires_at := x5\<rparr>) = the_link s"
  "the_link (s\<lparr>ss_restores := x6\<rparr>) = the_link s"
  "the_link (s\<lparr>ss_failed := x7\<rparr>) = the_link s"
  "the_link (s\<lparr>ss_event_handlers := x8\<rparr>) = the_link s"
  "the_link (s\<lparr>ss_loss_listeners := x9\<rparr>) = the_link s"
  "the_link (s\<lparr>ss_supervisor := x10\<rparr>) = the_link s"
  "the_link (s\<lparr>ss_attempt := x11\<rparr>) = the_link s"
  "the_link (s\<lparr>ss_refresh_task := x12\<rparr>) = the_link s"
  "the_link (s\<lparr>ss_retry := x13\<rparr>) = the_link s"
  "the_link (s\<lparr>ss_starts := x14\<rparr>) = the_link s"
  "the_link (s\<lparr>ss_last_refresh_at := x15\<rparr>) = the_link s"
  "the_link (s\<lparr>ss_refresh_settled := x16\<rparr>) = the_link s"
  "the_link (s\<lparr>ss_pair_taken := x17\<rparr>) = the_link s"
  "the_link (s\<lparr>ss_dropped := x18\<rparr>) = the_link s"
  "the_link (s\<lparr>ss_reauth_requested := x19\<rparr>) = the_link s"
  "the_link (s\<lparr>ss_account_auth_sent := x20\<rparr>) = the_link s"
  "the_link (s\<lparr>ss_stopping := x21\<rparr>) = the_link s"
  "the_link (s\<lparr>ss_stops_in_progress := x22\<rparr>) = the_link s"
  "the_link (s\<lparr>ss_stop_epoch := x23\<rparr>) = the_link s"
  "the_link (s\<lparr>ss_last_error := x24\<rparr>) = the_link s"
  "the_link (s\<lparr>ss_loss_cause := x25\<rparr>) = the_link s"
  "the_link (s\<lparr>ss_generation := x26\<rparr>) = the_link s"
  "the_link (s\<lparr>ss_open := x27\<rparr>) = the_link s"
  by (simp_all add: the_link_def)

subsection \<open>The invariant\<close>

text \<open>No two refreshes closer than the minimum interval.\<close>

definition paced_refreshes :: "rat list \<Rightarrow> bool" where
  "paced_refreshes ts \<longleftrightarrow>
     (\<forall>i. Suc i < length ts \<longrightarrow> MIN_TOKEN_REFRESH_INTERVAL_SECS \<le> ts ! Suc i - ts ! i)"

lemma paced_refreshes_snoc:
  "paced_refreshes (ts @ [t]) \<longleftrightarrow>
   paced_refreshes ts \<and> (ts \<noteq> [] \<longrightarrow> MIN_TOKEN_REFRESH_INTERVAL_SECS \<le> t - last ts)"
proof (cases "ts = []")
  case False
  then obtain n where n: "length ts = Suc n" by (metis length_0_conv nat.exhaust)
  then have "last ts = ts ! n" by (metis False diff_Suc_1 last_conv_nth)
  with n show ?thesis
    by (auto simp: paced_refreshes_def nth_append less_Suc_eq)
qed (simp add: paced_refreshes_def)

definition last_of :: "rat list \<Rightarrow> rat option" where
  "last_of ts = (if ts = [] then None else Some (last ts))"

text \<open>What does not depend on where the supervisor is.\<close>

definition standing :: "session \<Rightarrow> bool" where
  "standing s \<longleftrightarrow>
     (ss_ready s \<longleftrightarrow> ss_state s = READY) \<and>
     (lk_awaiting (the_link s) \<longleftrightarrow> \<not> ss_refresh_settled s) \<and>
     ss_last_refresh_at s = last_of (lk_refreshes (the_link s)) \<and>
     paced_refreshes (lk_refreshes (the_link s)) \<and>
     (\<forall>e \<in> set (ss_starts s). e \<le> ss_stop_epoch s) \<and>
     (ss_stopping s \<longrightarrow> ss_supervisor s = None \<and> ss_refresh_task s = None) \<and>
     lk_losses_ok (the_link s) \<and> lk_told (the_link s) \<le> 1"

text \<open>What the supervisor's place says of the connection; \<open>quiet\<close> is a bring-up not yet restoring.\<close>

definition unlost :: "session \<Rightarrow> bool" where
  "unlost s \<longleftrightarrow> (\<not> ss_lost s \<longrightarrow> lk_live (the_link s))"

definition quiet :: "session \<Rightarrow> bool" where
  "quiet s \<longleftrightarrow> \<not> accepts_requests s \<and> unlost s \<and> lk_told (the_link s) = 0 \<and>
     \<not> lk_was_ready (the_link s)"

definition usable :: "session \<Rightarrow> bool" where
  "usable s \<longleftrightarrow> (accepts_requests s \<longrightarrow> lk_live (the_link s)) \<and> lk_accepted (the_link s) \<and> unlost s"

definition restored_all :: "session \<Rightarrow> bool" where
  "restored_all s \<longleftrightarrow> ss_state s \<noteq> RESTORING \<and> lk_ran (the_link s) = lk_due (the_link s)"

fun place_ok :: "sup_pc option \<Rightarrow> session \<Rightarrow> bool" where
  "place_ok None s \<longleftrightarrow> ss_state s = STOPPED \<and> \<not> ss_open s \<and>
     (lk_stopped (the_link s) \<or> \<not> lk_was_ready (the_link s))"
| "place_ok (Some Sup_start) s \<longleftrightarrow> ss_state s = STOPPED \<and> \<not> ss_open s \<and>
     (lk_stopped (the_link s) \<or> \<not> lk_was_ready (the_link s))"
| "place_ok (Some (Sup_restore k ks)) s \<longleftrightarrow> usable s \<and> ss_state s \<noteq> READY \<and>
     lk_told (the_link s) = 0 \<and> \<not> lk_was_ready (the_link s) \<and>
     lk_ran (the_link s) @ k # ks = lk_due (the_link s)"
| "place_ok (Some (Sup_ready t)) s \<longleftrightarrow> usable s \<and> restored_all s \<and> lk_told (the_link s) = 0"
| "place_ok (Some (Sup_hold t)) s \<longleftrightarrow> usable s \<and> restored_all s \<and> lk_told (the_link s) = 1"
| "place_ok (Some (Sup_close_lost t)) s \<longleftrightarrow> \<not> accepts_requests s \<and> lk_told (the_link s) = 1"
| "place_ok (Some Sup_close_failed) s \<longleftrightarrow> \<not> accepts_requests s \<and> losses_told (the_link s)"
| "place_ok (Some (Sup_back_off t)) s \<longleftrightarrow> \<not> accepts_requests s \<and> losses_told (the_link s)"
| "place_ok (Some _) s \<longleftrightarrow> quiet s"

definition sess_ok :: "session \<Rightarrow> bool" where
  "sess_ok s \<longleftrightarrow> standing s \<and> place_ok (ss_supervisor s) s"

lemmas sess_defs = standing_def unlost_def quiet_def usable_def restored_all_def
  accepts_requests_def losses_told_def

lemma sess_ok_new: "sess_ok (new_session access refresh expires_at)"
  by (simp add: sess_ok_def standing_def new_session_def the_link_def link_of_def link_start_def
      last_of_def paced_refreshes_def)

subsection \<open>The supervisor's steps\<close>

lemma going_on: "standing s \<Longrightarrow> ss_supervisor s = Some pc \<Longrightarrow> \<not> ss_stopping s"
  by (auto simp: standing_def)

lemma bring_up_ok:
  assumes "standing s" "\<not> ss_stopping s" "losses_told (the_link s)"
  shows "sess_ok (bring_up s)"
  using assms by (simp add: sess_ok_def bring_up_def at_place_def sess_defs)

lemma bring_up_failed_ok:
  assumes "standing s" "\<not> ss_stopping s" "lk_told (the_link s) = 0" "\<not> lk_was_ready (the_link s)"
  shows "sess_ok (bring_up_failed e s)"
  using assms
  by (simp add: sess_ok_def bring_up_failed_def at_place_def teardown_connection_def tell_loss_def
      give_up_refresh_reply_def Let_def sess_defs)

lemma quiet_failed_ok:
  "standing s \<Longrightarrow> \<not> ss_stopping s \<Longrightarrow> quiet s \<Longrightarrow> sess_ok (bring_up_failed e s)"
  by (rule bring_up_failed_ok) (simp_all add: quiet_def)

lemma account_auth_ok:
  assumes "standing s" "\<not> ss_stopping s" "quiet s"
  shows "sess_ok (first_account_auth s)" and "sess_ok (second_account_auth s)"
  using assms
  by (simp_all add: sess_ok_def first_account_auth_def second_account_auth_def
      authenticate_account_def at_place_def sess_defs)

text \<open>A refresh is asked only when its interval is over.\<close>

definition interval_over :: "rat \<Rightarrow> session \<Rightarrow> bool" where
  "interval_over now s \<longleftrightarrow>
     (case ss_last_refresh_at s of
        None \<Rightarrow> True
      | Some t \<Rightarrow> MIN_TOKEN_REFRESH_INTERVAL_SECS \<le> now - t)"

lemma due_interval_over: "refresh_delay now s = Some delay \<Longrightarrow> delay \<le> 0 \<Longrightarrow> interval_over now s"
  by (auto simp: refresh_delay_def interval_over_def Let_def split: option.splits)

lemma may_refresh_interval_over: "may_refresh_for now code s \<Longrightarrow> interval_over now s"
  by (simp add: may_refresh_for_def interval_over_def)

lemma ask_refresh_standing:
  assumes "standing s" "interval_over now s"
  shows "standing (ask_refresh now s)"
  using assms
  by (auto simp: ask_refresh_def standing_def interval_over_def last_of_def paced_refreshes_snoc
      split: option.splits if_splits)

lemma ask_refresh_frame [simp]:
  "ss_state (ask_refresh now s) = ss_state s" "ss_lost (ask_refresh now s) = ss_lost s"
  "ss_ready (ask_refresh now s) = ss_ready s"
  "ss_stopping (ask_refresh now s) = ss_stopping s" "ss_open (ask_refresh now s) = ss_open s"
  "ss_supervisor (ask_refresh now s) = ss_supervisor s"
  "lk_live (the_link (ask_refresh now s)) = lk_live (the_link s)"
  "lk_accepted (the_link (ask_refresh now s)) = lk_accepted (the_link s)"
  "lk_ran (the_link (ask_refresh now s)) = lk_ran (the_link s)"
  "lk_due (the_link (ask_refresh now s)) = lk_due (the_link s)"
  "lk_told (the_link (ask_refresh now s)) = lk_told (the_link s)"
  "lk_was_ready (the_link (ask_refresh now s)) = lk_was_ready (the_link s)"
  "lk_stopped (the_link (ask_refresh now s)) = lk_stopped (the_link s)"
  by (simp_all add: ask_refresh_def split: option.splits)

lemma take_pair_frame [simp]:
  "ss_state (take_pair now pair s) = ss_state s" "ss_lost (take_pair now pair s) = ss_lost s"
  "ss_stopping (take_pair now pair s) = ss_stopping s" "ss_open (take_pair now pair s) = ss_open s"
  "ss_supervisor (take_pair now pair s) = ss_supervisor s"
  "the_link (take_pair now pair s) = (the_link s)\<lparr>lk_awaiting := False\<rparr>"
  by (simp_all add: take_pair_def)

lemma take_pair_standing: "standing s \<Longrightarrow> standing (take_pair now pair s)"
  by (simp add: take_pair_def standing_def)

lemma refresh_refused_eq:
  "refresh_refused call s =
     (if call = Written True then s else noted Refresh_refused (s\<lparr>ss_refresh_settled := True\<rparr>))"
  by (cases "(call, s)" rule: refresh_refused.cases) auto

lemma refresh_refused_frame [simp]:
  "ss_state (refresh_refused call s) = ss_state s" "ss_lost (refresh_refused call s) = ss_lost s"
  "ss_stopping (refresh_refused call s) = ss_stopping s"
  "ss_open (refresh_refused call s) = ss_open s"
  "ss_supervisor (refresh_refused call s) = ss_supervisor s"
  "lk_live (the_link (refresh_refused call s)) = lk_live (the_link s)"
  "lk_accepted (the_link (refresh_refused call s)) = lk_accepted (the_link s)"
  "lk_ran (the_link (refresh_refused call s)) = lk_ran (the_link s)"
  "lk_due (the_link (refresh_refused call s)) = lk_due (the_link s)"
  "lk_told (the_link (refresh_refused call s)) = lk_told (the_link s)"
  "lk_was_ready (the_link (refresh_refused call s)) = lk_was_ready (the_link s)"
  "lk_stopped (the_link (refresh_refused call s)) = lk_stopped (the_link s)"
  by (simp_all add: refresh_refused_eq)

lemma refresh_refused_standing: "standing s \<Longrightarrow> standing (refresh_refused call s)"
  by (simp add: refresh_refused_eq standing_def)

lemma quiet_frame [simp]:
  "quiet (take_pair now pair s) = quiet s" "quiet (refresh_refused call s) = quiet s"
  "quiet (ask_refresh now s) = quiet s"
  by (simp_all add: quiet_def accepts_requests_def unlost_def)

lemma refresh_written_ok:
  assumes "standing s" "refresh_written s = (call, s')"
  shows "standing s'" and "quiet s' = quiet s"
  using assms by (auto simp: refresh_written_def standing_def quiet_def accepts_requests_def unlost_def)

lemma placed_quiet:
  assumes "standing s" "\<not> ss_stopping s" "quiet s" "\<And>t. place_ok (Some pc) t = quiet t"
  shows "sess_ok (at_place pc s)"
  using assms
  by (simp add: sess_ok_def at_place_def) (simp add: standing_def quiet_def accepts_requests_def unlost_def)

lemma become_ready_ok:
  assumes "standing s" "\<not> ss_stopping s" "usable s" "ss_state s \<noteq> READY"
    and "lk_told (the_link s) = 0" "\<not> lk_was_ready (the_link s)"
    and "lk_ran (the_link s) = lk_due (the_link s)"
  shows "sess_ok (become_ready now s)"
proof (cases "ss_lost s")
  case True
  with assms bring_up_failed_ok show ?thesis by (simp add: become_ready_def)
next
  case False
  with assms show ?thesis
    by (simp add: become_ready_def sess_ok_def at_place_def Let_def sess_defs)
qed

lemma restore_from_ok:
  assumes "standing s" "\<not> ss_stopping s" "usable s" "ss_state s \<noteq> READY"
    and "lk_told (the_link s) = 0" "\<not> lk_was_ready (the_link s)"
    and "lk_ran (the_link s) @ ks = lk_due (the_link s)"
  shows "sess_ok (restore_from now ks s)"
proof (cases ks)
  case Nil
  with assms become_ready_ok show ?thesis by (simp add: restore_from_def)
next
  case (Cons k others)
  with assms show ?thesis
    by (simp add: restore_from_def sess_ok_def at_place_def sess_defs)
qed

lemma authenticated_ok:
  assumes "standing s" "\<not> ss_stopping s" "quiet s"
  shows "sess_ok (authenticated now s)"
proof (cases "ss_lost s")
  case True
  with assms show ?thesis
    by (simp add: authenticated_def bring_up_failed_ok standing_def quiet_def)
next
  case False
  have "sess_ok (restore_from now (map fst (ss_restores s))
      (noted (Restoring (map fst (ss_restores s))) (noted Account_accepted s\<lparr>ss_state := RESTORING\<rparr>)))"
    by (rule restore_from_ok) (use assms False in \<open>simp_all add: sess_defs\<close>)
  with False show ?thesis by (simp add: authenticated_def Let_def)
qed

lemma teardown_ok:
  assumes "standing s" "\<not> ss_stopping s"
  shows "standing (teardown_connection s)" "\<not> accepts_requests (teardown_connection s)"
    "lk_told (the_link (teardown_connection s)) = lk_told (the_link s)"
    "ss_stopping (teardown_connection s) = ss_stopping s"
  using assms
  by (simp_all add: teardown_connection_def give_up_refresh_reply_def standing_def accepts_requests_def)

lemma close_lost_ok:
  assumes "standing s" "\<not> ss_stopping s" "lk_told (the_link s) = 1"
  shows "sess_ok (close_lost since s)"
  using teardown_ok [OF assms(1,2)] assms
  by (simp add: close_lost_def sess_ok_def at_place_def) (simp add: standing_def accepts_requests_def)

lemma connect_answer_ok:
  assumes "standing s" "\<not> ss_stopping s" "quiet s"
  shows "sess_ok (connect_answer answer s)"
proof (cases answer)
  case None
  have "sess_ok (at_place Sup_app_auth (noted Asked_app_auth (s\<lparr>ss_state := AUTHENTICATING\<rparr>)))"
    by (rule placed_quiet) (use assms in \<open>simp_all add: sess_defs\<close>)
  with None show ?thesis by (simp add: connect_answer_def)
next
  case (Some e)
  with assms show ?thesis by (simp add: connect_answer_def quiet_failed_ok)
qed

lemma asked_place_ok:
  assumes "standing s" "\<not> ss_stopping s" "quiet s" "interval_over now s"
    and "\<And>t. place_ok (Some pc) t = quiet t"
  shows "sess_ok (at_place pc (ask_refresh now (s\<lparr>ss_pair_taken := False\<rparr>)))"
proof (rule placed_quiet)
  have "standing (s\<lparr>ss_pair_taken := False\<rparr>)" "interval_over now (s\<lparr>ss_pair_taken := False\<rparr>)"
    using assms by (simp_all add: standing_def interval_over_def)
  then show "standing (ask_refresh now (s\<lparr>ss_pair_taken := False\<rparr>))" by (rule ask_refresh_standing)
  show "quiet (ask_refresh now (s\<lparr>ss_pair_taken := False\<rparr>))"
    using assms(3) by (simp add: quiet_def accepts_requests_def unlost_def)
qed (use assms in simp_all)

lemma app_auth_answer_ok:
  assumes "standing s" "\<not> ss_stopping s" "quiet s"
  shows "sess_ok (app_auth_answer now answer s)"
proof (cases answer)
  case None
  show ?thesis
  proof (cases "\<exists>delay. refresh_delay now s = Some delay \<and> delay \<le> 0")
    case True
    then have "interval_over now s" using due_interval_over by blast
    with asked_place_ok [OF assms this, of "Sup_refresh_due Unwritten"] None True show ?thesis
      by (auto simp: app_auth_answer_def)
  next
    case False
    with None account_auth_ok [OF assms] show ?thesis
      by (auto simp: app_auth_answer_def split: option.split)
  qed
next
  case (Some e)
  then show ?thesis
    using quiet_failed_ok [OF assms] by (cases e) (simp_all add: app_auth_answer_def)
qed

lemma refresh_due_answer_ok:
  assumes "standing s" "\<not> ss_stopping s" "quiet s"
  shows "sess_ok (refresh_due_answer now call answer s)"
proof (cases answer)
  case (Inr pair)
  with assms show ?thesis
    by (simp add: refresh_due_answer_def account_auth_ok take_pair_standing)
next
  case (Inl e)
  have "sess_ok (first_account_auth (refresh_refused call s))" "sess_ok (first_account_auth s)"
    using assms by (simp_all add: account_auth_ok refresh_refused_standing)
  moreover have "sess_ok (at_place Sup_late_due s)" using assms by (intro placed_quiet) simp_all
  ultimately show ?thesis
    using Inl quiet_failed_ok [OF assms] by (cases e) (simp_all add: refresh_due_answer_def)
qed

lemma late_over_ok:
  assumes "standing s" "\<not> ss_stopping s" "quiet s"
  shows "sess_ok (late_due_over s)" "sess_ok (late_rejected_over s)"
  using assms
  by (simp_all add: late_due_over_def late_rejected_over_def quiet_failed_ok account_auth_ok)

lemma account_auth_answer_ok:
  assumes "standing s" "\<not> ss_stopping s" "quiet s"
  shows "sess_ok (account_auth_answer now token answer s)"
proof (cases answer)
  case None
  with assms show ?thesis by (simp add: account_auth_answer_def authenticated_ok)
next
  case (Some e)
  have "sess_ok (at_place (Sup_refresh_rejected Unwritten)
      (ask_refresh now (s\<lparr>ss_pair_taken := False\<rparr>)))" if "may_refresh_for now code s" for code
    using assms that may_refresh_interval_over by (intro asked_place_ok) auto
  then show ?thesis
    using Some quiet_failed_ok [OF assms] account_auth_ok [OF assms]
    by (cases e) (simp_all add: account_auth_answer_def)
qed

lemma refresh_rejected_answer_ok:
  assumes "standing s" "\<not> ss_stopping s" "quiet s"
  shows "sess_ok (refresh_rejected_answer now call answer s)"
proof (cases answer)
  case (Inr pair)
  with assms show ?thesis
    by (simp add: refresh_rejected_answer_def account_auth_ok take_pair_standing)
next
  case (Inl e)
  have "sess_ok (bring_up_failed x (refresh_refused call s))" for x
    using assms by (simp add: quiet_failed_ok refresh_refused_standing)
  moreover have "sess_ok (at_place Sup_late_rejected s)" using assms by (intro placed_quiet) simp_all
  ultimately show ?thesis
    using Inl quiet_failed_ok [OF assms] by (cases e) (simp_all add: refresh_rejected_answer_def)
qed

lemma account_retry_answer_ok:
  assumes "standing s" "\<not> ss_stopping s" "quiet s"
  shows "sess_ok (account_retry_answer now answer s)"
proof (cases answer)
  case None
  with assms show ?thesis by (simp add: account_retry_answer_def authenticated_ok)
next
  case (Some e)
  then show ?thesis
    using quiet_failed_ok [OF assms] by (cases e) (simp_all add: account_retry_answer_def)
qed

lemma restore_answer_ok:
  assumes "standing s" "\<not> ss_stopping s" "place_ok (Some (Sup_restore key ks)) s"
  shows "sess_ok (restore_answer now key ks answer s)"
proof -
  let ?s = "noted (Ran_restore key) s"
  have s: "standing ?s" "\<not> ss_stopping ?s" "usable ?s" "ss_state ?s \<noteq> READY"
    "lk_told (the_link ?s) = 0" "\<not> lk_was_ready (the_link ?s)"
    "lk_ran (the_link ?s) @ ks = lk_due (the_link ?s)"
    using assms by (simp_all add: sess_defs)
  have "standing (?s\<lparr>ss_failed := F\<rparr>)" "usable (?s\<lparr>ss_failed := F\<rparr>)" for F
    using s by (simp_all add: sess_defs)
  with s show ?thesis
    by (auto simp: restore_answer_def Let_def bring_up_failed_ok restore_from_ok split: restored.splits)
qed

lemma lost_wakes_ok:
  assumes "sess_ok s" "ss_supervisor s = Some (Sup_ready since)"
  shows "sess_ok (lost_wakes since s)"
proof (cases "ss_lost s")
  case False
  with assms show ?thesis by (simp add: lost_wakes_def)
next
  case True
  from assms have s: "standing s" "\<not> ss_stopping s" "place_ok (Some (Sup_ready since)) s"
    by (simp_all add: sess_ok_def going_on)
  then have told: "standing (tell_loss s)" "\<not> ss_stopping (tell_loss s)"
      "lk_told (the_link (tell_loss s)) = 1"
      "place_ok (Some (Sup_hold since)) (tell_loss s)"
    by (simp_all add: tell_loss_def sess_defs)
  then have "sess_ok (close_lost since (tell_loss s))" by (intro close_lost_ok)
  moreover have "sess_ok (at_place (Sup_hold since) (tell_loss s))"
    using told by (simp add: sess_ok_def at_place_def) (simp add: sess_defs)
  ultimately show ?thesis
    using True s by (simp add: lost_wakes_def Let_def)
qed

lemma back_off_ok:
  assumes "standing s" "\<not> ss_stopping s" "\<not> accepts_requests s" "losses_told (the_link s)"
  shows "sess_ok (back_off cfg random s)"
  using assms by (simp add: back_off_def at_place_def sess_ok_def) (simp add: sess_defs)

lemma close_lost_over_ok:
  assumes "standing s" "\<not> ss_stopping s" "place_ok (Some (Sup_close_lost since)) s"
  shows "sess_ok (close_lost_over cfg random now since s)"
proof -
  let ?s = "\<lambda>n. s\<lparr>ss_reauth_requested := False, ss_attempt := n\<rparr>"
  have "standing (?s n)" "\<not> ss_stopping (?s n)" "losses_told (the_link (?s n))"
    "\<not> accepts_requests (?s n)" for n
    using assms by (simp_all add: sess_defs)
  then show ?thesis by (simp add: close_lost_over_def Let_def bring_up_ok back_off_ok)
qed

lemma place_quiet_ok:
  assumes "sess_ok s" "ss_supervisor s = Some pc" "\<And>t. place_ok (Some pc) t = quiet t"
  shows "standing s" "\<not> ss_stopping s" "quiet s"
  using assms by (auto simp: sess_ok_def going_on)

lemma written_place_ok:
  assumes "sess_ok s" "ss_supervisor s = Some pc" "\<And>t. place_ok (Some pc) t = quiet t"
    and "\<And>call t. place_ok (Some (f call)) t = quiet t"
  shows "sess_ok (case refresh_written s of (call, s) \<Rightarrow> at_place (f call) s)"
proof (cases "refresh_written s")
  case (Pair call s')
  note ok = place_quiet_ok [OF assms(1-3)]
  have "ss_stopping s' = ss_stopping s" using Pair by (auto simp: refresh_written_def)
  then have "sess_ok (at_place (f call) s')"
    using ok refresh_written_ok [OF ok(1) Pair] by (intro placed_quiet assms(4)) simp_all
  with Pair show ?thesis by simp
qed

lemma supervisor_step_ok:
  assumes "sess_ok s" "ss_supervisor s = Some pc"
  shows "sess_ok (supervisor_step cfg ev pc s)"
proof -
  from assms have s: "standing s" "\<not> ss_stopping s" "place_ok (Some pc) s"
    by (simp_all add: sess_ok_def going_on)
  note steps = connect_answer_ok app_auth_answer_ok account_auth_answer_ok account_retry_answer_ok
    refresh_due_answer_ok refresh_rejected_answer_ok late_over_ok restore_answer_ok
    close_lost_over_ok
  show ?thesis
  proof (cases pc)
    case Sup_start
    then show ?thesis
      using assms s
      by (auto simp: supervisor_step_def losses_told_def standing_def
          intro!: bring_up_ok split: sess_event.splits)
  next
    case (Sup_refresh_due call)
    then show ?thesis
      using assms s written_place_ok [OF assms, of Sup_refresh_due]
      by (cases call) (auto simp: supervisor_step_def steps split: sess_event.splits)
  next
    case (Sup_refresh_rejected call)
    then show ?thesis
      using assms s written_place_ok [OF assms, of Sup_refresh_rejected]
      by (cases call) (auto simp: supervisor_step_def steps split: sess_event.splits)
  next
    case (Sup_ready since)
    then show ?thesis
      using assms lost_wakes_ok by (auto simp: supervisor_step_def split: sess_event.splits)
  next
    case (Sup_hold since)
    then show ?thesis
      using assms s close_lost_ok by (auto simp: supervisor_step_def split: sess_event.splits)
  next
    case Sup_close_failed
    then show ?thesis
      using assms s back_off_ok by (auto simp: supervisor_step_def split: sess_event.splits)
  next
    case (Sup_back_off delay)
    then show ?thesis
      using assms s bring_up_ok by (auto simp: supervisor_step_def split: sess_event.splits)
  qed (use assms s steps in \<open>auto simp: supervisor_step_def split: sess_event.splits\<close>)
qed

subsection \<open>The other steps\<close>

text \<open>
  What only changes the tokens' state, the tasks beside the supervisor, or the registrations keeps
  the supervisor's place good, when it marks at most a loss.
\<close>

definition link_core :: "link \<Rightarrow> link" where
  "link_core l = l\<lparr>lk_awaiting := False, lk_refreshes := []\<rparr>"

lemma link_core_eq:
  "link_core l' = link_core l \<longleftrightarrow>
   lk_live l' = lk_live l \<and> lk_accepted l' = lk_accepted l \<and> lk_due l' = lk_due l \<and>
   lk_ran l' = lk_ran l \<and> lk_told l' = lk_told l \<and> lk_was_ready l' = lk_was_ready l \<and>
   lk_stopped l' = lk_stopped l \<and> lk_losses_ok l' = lk_losses_ok l"
  by (cases l; cases l') (auto simp: link_core_def)

definition aside :: "session \<Rightarrow> session \<Rightarrow> bool" where
  "aside s s' \<longleftrightarrow> ss_supervisor s' = ss_supervisor s \<and> ss_state s' = ss_state s \<and>
     ss_open s' = ss_open s \<and>
     (ss_lost s \<longrightarrow> ss_lost s') \<and> link_core (the_link s') = link_core (the_link s)"

lemma place_aside:
  assumes "place_ok pc s" "aside s s'"
  shows "place_ok pc s'"
  using assms unfolding aside_def link_core_eq
  by (cases "(pc, s)" rule: place_ok.cases)
    (simp_all add: quiet_def usable_def restored_all_def unlost_def accepts_requests_def
      losses_told_def, blast+)

lemma aside_ok:
  assumes "sess_ok s" "standing s'" "aside s s'"
  shows "sess_ok s'"
proof -
  have "ss_supervisor s' = ss_supervisor s" using assms(3) by (simp add: aside_def)
  moreover have "place_ok (ss_supervisor s) s'"
    using assms(1,3) place_aside by (auto simp: sess_ok_def)
  ultimately show ?thesis using assms(2) by (simp add: sess_ok_def)
qed

lemma aside_refl [simp]: "aside s s"
  by (simp add: aside_def)

lemma aside_trans: "aside s s' \<Longrightarrow> aside s' s'' \<Longrightarrow> aside s s''"
  by (simp add: aside_def)

lemma refresh_loop_from_ok:
  assumes "standing s" "\<not> ss_stopping s"
  shows "standing (refresh_loop_from now s)" "aside s (refresh_loop_from now s)"
proof -
  consider "refresh_delay now s = None" | delay where "refresh_delay now s = Some delay" "0 < delay"
    | delay where "refresh_delay now s = Some delay" "delay \<le> 0" by fastforce
  then have "standing (refresh_loop_from now s) \<and> aside s (refresh_loop_from now s)"
  proof cases
    case 1
    with assms show ?thesis
      by (simp add: refresh_loop_from_def standing_def aside_def)
  next
    case 2
    with assms show ?thesis
      by (simp add: refresh_loop_from_def standing_def aside_def)
  next
    case 3
    show ?thesis
    proof (cases "ss_ready s")
      case True
      have "standing (ask_refresh now s)"
        using assms 3 by (intro ask_refresh_standing due_interval_over) auto
      then have "standing ((ask_refresh now s)\<lparr>ss_refresh_task := Some (Ref_refresh Unwritten)\<rparr>)"
        using assms(2) by (simp add: standing_def)
      moreover have "aside s ((ask_refresh now s)\<lparr>ss_refresh_task := Some (Ref_refresh Unwritten)\<rparr>)"
        by (simp add: aside_def link_core_eq ask_refresh_def split: option.splits)
      ultimately show ?thesis using True 3 by (simp add: refresh_loop_from_def not_less)
    next
      case False
      with 3 assms show ?thesis
        by (simp add: refresh_loop_from_def standing_def aside_def)
    qed
  qed
  then show "standing (refresh_loop_from now s)" "aside s (refresh_loop_from now s)" by simp_all
qed

lemma take_pair_aside: "aside s (take_pair now pair s)"
  by (simp add: aside_def link_core_eq)

lemma refresh_refused_aside: "aside s (refresh_refused call s)"
  by (simp add: refresh_refused_eq aside_def link_core_eq)

lemma mark_lost_ok:
  assumes "standing s" "\<not> ss_stopping s"
  shows "standing (s\<lparr>ss_reauth_requested := True, ss_lost := True\<rparr>)"
    "aside s (s\<lparr>ss_reauth_requested := True, ss_lost := True\<rparr>)"
  using assms by (simp_all add: standing_def aside_def)

text \<open>An operation that keeps the standing facts and stays aside keeps the invariant.\<close>

definition keeps :: "session \<Rightarrow> session \<Rightarrow> bool" where
  "keeps s s' \<longleftrightarrow> standing s' \<and> ss_stopping s' = ss_stopping s \<and> aside s s'"

lemma keeps_sess_ok: "sess_ok s \<Longrightarrow> keeps s s' \<Longrightarrow> sess_ok s'"
  using aside_ok by (auto simp: keeps_def)

lemma keeps_trans: "keeps s s' \<Longrightarrow> keeps s' s'' \<Longrightarrow> keeps s s''"
  by (auto simp: keeps_def intro: aside_trans)

lemma keeps_refl: "standing s \<Longrightarrow> keeps s s"
  by (simp add: keeps_def)

lemma keeps_take_pair: "standing s \<Longrightarrow> keeps s (take_pair now pair s)"
  by (simp add: keeps_def take_pair_standing take_pair_aside)

lemma stopping_refresh_loop [simp]: "ss_stopping (refresh_loop_from now s) = ss_stopping s"
  by (simp add: refresh_loop_from_def split: option.splits)

lemma keeps_refresh_loop: "standing s \<Longrightarrow> \<not> ss_stopping s \<Longrightarrow> keeps s (refresh_loop_from now s)"
  by (simp add: keeps_def refresh_loop_from_ok)

lemma keeps_mark_lost:
  "standing s \<Longrightarrow> \<not> ss_stopping s \<Longrightarrow>
   keeps s (s\<lparr>ss_reauth_requested := True, ss_lost := True\<rparr>)"
  by (simp add: keeps_def mark_lost_ok)

lemma keeps_end_loop: "standing s \<Longrightarrow> keeps s (s\<lparr>ss_refresh_task := None\<rparr>)"
  by (simp add: keeps_def standing_def aside_def)

lemma keeps_refused: "standing s \<Longrightarrow> keeps s (refresh_refused call s)"
  by (simp add: keeps_def refresh_refused_standing refresh_refused_aside)

lemma keepsD: "keeps s s' \<Longrightarrow> standing s' \<and> ss_stopping s' = ss_stopping s"
  by (simp add: keeps_def)

lemma refresh_loop_answer_keeps:
  assumes "standing s" "\<not> ss_stopping s"
  shows "keeps s (refresh_loop_answer now call answer s)"
proof (cases answer)
  case (Inl e)
  have "keeps s ((refresh_refused call s)\<lparr>ss_refresh_task := None\<rparr>)"
    using keeps_refused [OF assms(1)] keeps_end_loop keeps_trans keepsD by blast
  then show ?thesis
    using Inl keeps_end_loop [OF assms(1)] keeps_refresh_loop [OF assms]
    by (cases e) (simp_all add: refresh_loop_answer_def)
next
  case (Inr pair)
  let ?s = "take_pair now pair s"
  have k: "keeps s ?s" by (rule keeps_take_pair [OF assms(1)])
  then have s: "standing ?s" "\<not> ss_stopping ?s" using keepsD assms(2) by blast+
  have m: "keeps ?s (?s\<lparr>ss_reauth_requested := True, ss_lost := True\<rparr>)"
    using s by (rule keeps_mark_lost)
  then have "keeps ?s (refresh_loop_from now (?s\<lparr>ss_reauth_requested := True, ss_lost := True\<rparr>))"
    using keeps_refresh_loop keeps_trans keepsD s(2) by blast
  with Inr k s keeps_refresh_loop keeps_trans show ?thesis
    by (auto simp: refresh_loop_answer_def Let_def)
qed

lemma refresh_step_keeps:
  assumes "standing s" "\<not> ss_stopping s"
  shows "keeps s (refresh_step ev pc s)"
proof -
  have "keeps s (s\<lparr>ss_refresh_settled := False, ss_log := ss_log s @ [Refresh_written],
      ss_refresh_task := Some (Ref_refresh call)\<rparr>)" for call
    using assms by (simp add: keeps_def standing_def aside_def link_core_eq the_link_def link_of_def)
  then show ?thesis
    using assms keeps_refresh_loop keeps_refl refresh_loop_answer_keeps
    by (auto simp: refresh_step_def refresh_written_def noted_def split: sess_event.splits ref_pc.splits
        refresh_call.splits)
qed

lemma on_disconnect_ok:
  assumes "sess_ok s" "ss_open s"
  shows "sess_ok (on_disconnect e s)"
  using assms
  by (cases "(ss_supervisor s, s)" rule: place_ok.cases)
    (auto simp: sess_ok_def on_disconnect_def Let_def sess_defs)

lemma late_reply_ok:
  assumes "sess_ok s"
  shows "sess_ok (on_late_refresh_reply now pair s)"
proof (cases "ss_refresh_settled s")
  case True
  with assms show ?thesis by (simp add: on_late_refresh_reply_def)
next
  case False
  let ?s = "take_pair now pair s"
  have s: "standing s" using assms by (simp add: sess_ok_def)
  then have k: "keeps s ?s" by (rule keeps_take_pair)
  have "keeps ?s (?s\<lparr>ss_reauth_requested := True, ss_lost := True\<rparr>)" if "ss_state ?s = READY"
  proof (rule keeps_mark_lost)
    show "\<not> ss_stopping ?s"
      using assms that k s by (auto simp: sess_ok_def standing_def keeps_def)
  qed (use k keepsD in blast)
  with k assms False keeps_sess_ok keeps_trans show ?thesis
    by (auto simp: on_late_refresh_reply_def Let_def)
qed

lemma dispatch_keeps:
  assumes "standing s"
  shows "keeps s (fold (\<lambda>h. noted (Handled h p)) hs s)"
  using assms
proof (induction hs arbitrary: s)
  case (Cons h hs)
  have "keeps s (noted (Handled h p) s)"
    using Cons.prems by (simp add: keeps_def standing_def aside_def)
  with Cons.IH keeps_trans keepsD show ?case by fastforce
qed (simp add: keeps_refl)

lemma auth_ended_ok:
  assumes "sess_ok s" "ss_open s" "\<not> ss_stopping s"
  shows "sess_ok (noted Auth_ended
    (s\<lparr>ss_state := CONNECTING, ss_ready := False, ss_loss_cause := None, ss_lost := True\<rparr>))"
  using assms
  by (cases "(ss_supervisor s, s)" rule: place_ok.cases) (auto simp: sess_ok_def sess_defs)

lemma dispatch_ok: "sess_ok s \<Longrightarrow> sess_ok (dispatch_event p s)"
  unfolding dispatch_event_def by (rule keeps_sess_ok) (auto simp: sess_ok_def intro: dispatch_keeps)

lemma on_event_ok:
  assumes "sess_ok s" "ss_open s"
  shows "sess_ok (on_event cfg now p s)"
proof (cases p)
  case (RefreshTokenRes pair)
  with late_reply_ok [OF assms(1)] show ?thesis by (simp add: on_event_def)
qed (use assms auth_ended_ok dispatch_ok in \<open>simp_all add: on_event_def\<close>)

lemma registering_keeps:
  assumes "standing s"
  shows "keeps s (add_event_handler c h s)" "keeps s (remove_event_handler c h s)"
    "keeps s (add_loss_listener l s)" "keeps s (remove_loss_listener l s)"
    "keeps s (add_restore key factory s)" "keeps s (remove_restore key s)"
    "keeps s (mark_restore_failed key s)" "keeps s (sess_request i s)" "keeps s (stop_over s)"
  using assms
  by (auto simp: add_event_handler_def remove_event_handler_def add_loss_listener_def
      remove_loss_listener_def add_restore_def remove_restore_def mark_restore_failed_def
      sess_request_def stop_over_def keeps_def standing_def aside_def split: option.splits)

lemma start_now_ok:
  assumes "sess_ok s"
  shows "sess_ok (start_now epoch s)"
  using assms by (auto simp: start_now_def sess_ok_def standing_def)

lemma sess_start_ok:
  assumes "sess_ok s"
  shows "sess_ok (sess_start s)"
proof -
  have "keeps s (s\<lparr>ss_starts := ss_starts s @ [ss_stop_epoch s]\<rparr>)"
    using assms by (auto simp: sess_ok_def keeps_def standing_def aside_def)
  with assms show ?thesis by (simp add: sess_start_def start_now_ok keeps_sess_ok)
qed

lemma start_wakes_ok:
  assumes "sess_ok s"
  shows "sess_ok (start_wakes epoch s)"
proof -
  have "set (remove1 epoch (ss_starts s)) \<subseteq> set (ss_starts s)" by (rule set_remove1_subset)
  then have "keeps s (s\<lparr>ss_starts := remove1 epoch (ss_starts s)\<rparr>)"
    using assms by (auto simp: sess_ok_def keeps_def standing_def aside_def)
  with assms show ?thesis by (simp add: start_wakes_def start_now_ok keeps_sess_ok)
qed

lemma sess_stop_ok:
  assumes "sess_ok s"
  shows "sess_ok (sess_stop s)"
  using assms
  by (auto simp: sess_stop_def give_up_refresh_reply_def sess_ok_def standing_def intro: le_SucI)

lemma keeps_failed: "standing s \<Longrightarrow> keeps s (s\<lparr>ss_failed := F\<rparr>)"
  by (simp add: keeps_def standing_def aside_def)

lemma keeps_retry: "standing s \<Longrightarrow> keeps s (s\<lparr>ss_retry := r\<rparr>)"
  by (simp add: keeps_def standing_def aside_def)

lemma retry_from_keeps: "standing s \<Longrightarrow> keeps s (retry_from ks s)"
proof (induction ks s rule: retry_from.induct)
  case (1 s)
  then show ?case by (simp add: keeps_retry)
next
  case (2 k ks s)
  have f: "keeps s (s\<lparr>ss_failed := ss_failed s - {k}\<rparr>)" using 2(2) by (rule keeps_failed)
  have "keeps s (retry_from ks (s\<lparr>ss_failed := ss_failed s - {k}\<rparr>))"
    if "\<not> ss_state s \<noteq> READY" "map_of (ss_restores s) k = None"
    using 2(1) [OF that] keepsD [OF f] keeps_trans [OF f] by blast
  with 2(2) keeps_retry show ?case by simp
qed

lemma retry_answer_keeps:
  assumes "standing s"
  shows "keeps s (retry_answer k ks g answer s)"
proof -
  have f: "keeps s (s\<lparr>ss_failed := ss_failed s - {k}\<rparr>)" using assms by (rule keeps_failed)
  then have "keeps s (retry_from ks (s\<lparr>ss_failed := ss_failed s - {k}\<rparr>))"
    using keeps_trans retry_from_keeps keepsD by blast
  with assms retry_from_keeps keeps_retry show ?thesis by (simp add: retry_answer_def)
qed

lemma sess_step_ok:
  assumes "sess_ok s"
  shows "sess_ok (sess_step cfg ev s)"
proof -
  have s: "standing s" using assms by (simp add: sess_ok_def)
  have sup: "sess_ok (case ss_supervisor s of None \<Rightarrow> s | Some pc \<Rightarrow> supervisor_step cfg ev pc s)"
    using assms supervisor_step_ok by (auto split: option.splits)
  have ref: "sess_ok (case ss_refresh_task s of None \<Rightarrow> s | Some pc \<Rightarrow> refresh_step ev pc s)"
    using assms s keeps_sess_ok refresh_step_keeps by (auto simp: standing_def split: option.splits)
  have ret: "sess_ok (case ss_retry s of None \<Rightarrow> s | Some (k, ks, g) \<Rightarrow> retry_answer k ks g answer s)"
    for answer
    using assms s keeps_sess_ok retry_answer_keeps by (auto split: option.splits)
  have reg: "keeps s s' \<Longrightarrow> sess_ok s'" for s' using assms by (rule keeps_sess_ok)
  note plain = registering_keeps [OF s, THEN reg]
  have retry: "sess_ok (retry_from ks s)" for ks by (rule reg [OF retry_from_keeps [OF s]])
  show ?thesis
    using sup ref ret plain retry
    by (cases ev) (simp_all add: sess_step_def assms sess_start_ok start_wakes_ok sess_stop_ok
        on_event_ok on_disconnect_ok split: option.splits prod.splits)
qed

lemma sess_run_ok: "sess_ok s \<Longrightarrow> sess_ok (sess_run cfg evs s)"
  unfolding sess_run_def by (induction evs arbitrary: s) (auto simp: sess_step_ok)

lemma reached_ok: "sess_ok (sess_run cfg evs (new_session access refresh expires_at))"
  by (rule sess_run_ok [OF sess_ok_new])

lemma accepting_place:
  assumes "sess_ok s" "accepts_requests s"
  shows "lk_live (the_link s) \<and> lk_accepted (the_link s) \<and>
    (ss_state s = READY \<longrightarrow> lk_ran (the_link s) = lk_due (the_link s))"
  using assms
  by (cases "(ss_supervisor s, s)" rule: place_ok.cases)
    (auto simp: sess_ok_def usable_def restored_all_def quiet_def accepts_requests_def)

end
