(* ===== verification/Session_Promises.thy ===== *)
theory Session_Promises
  imports Session_Safety
begin

text \<open>
  What the session promises the layers above, read off the invariant of \<open>Session_Safety\<close>: when a
  request passes, how often the tokens are refreshed, which late replies are adopted, that each
  loss is told once, and that a stop wins over every start before it. Sample runs at the end.
\<close>

subsection \<open>The session's promises\<close>

text \<open>
  C7: whatever happens and in whatever order, a request is let through only while the connection
  stands and the venue has accepted the account on it since it was opened; and the session is
  ready only once every restore due at that acceptance has run on it, in the order of the registry.
\<close>

theorem requests_pass_only_when_logged_in:
  assumes "s = sess_run cfg evs (new_session access refresh expires_at)" and "accepts_requests s"
  shows "lk_live (link_of (ss_log s)) \<and> lk_accepted (link_of (ss_log s)) \<and>
    (ss_state s = READY \<longrightarrow> lk_ran (link_of (ss_log s)) = lk_due (link_of (ss_log s)))"
  using accepting_place [OF _ assms(2)] reached_ok assms(1) by (simp add: the_link_def)

text \<open>
  no two refreshes of the tokens are asked within the minimum interval, whichever of the
  supervisor and the refresh loop asks them and across any number of reconnects.
\<close>

theorem refreshes_keep_their_interval:
  "paced_refreshes
     (lk_refreshes (link_of (ss_log (sess_run cfg evs (new_session access refresh expires_at)))))"
  using reached_ok [of cfg evs access refresh expires_at]
  by (simp add: sess_ok_def standing_def the_link_def)

text \<open>
  the late reply to a refresh is adopted exactly when one is awaited: when a refresh was
  written on the connection that is still open and since then no pair was taken and no refresh
  refused. Then the pair replaces the tokens and is handed on; otherwise nothing changes, so an
  old reply never displaces a newer pair.
\<close>

theorem late_reply_adopted_iff_awaited:
  assumes "s = sess_run cfg evs (new_session access refresh expires_at)" and "ss_open s"
    and "s' = sess_step cfg (Event now (RefreshTokenRes pair)) s"
  shows "if lk_awaiting (link_of (ss_log s))
    then ss_access_token s' = tp_access pair \<and> ss_refresh_token s' = Some (tp_refresh pair) \<and>
      ss_log s' = ss_log s @ [Pair_taken pair (now + tp_expires_in pair)] \<and>
      (ss_state s = READY \<longrightarrow> ss_lost s')
    else s' = s"
proof -
  have "lk_awaiting (link_of (ss_log s)) \<longleftrightarrow> \<not> ss_refresh_settled s"
    using reached_ok [of cfg evs access refresh expires_at] assms(1)
    by (simp add: sess_ok_def standing_def the_link_def)
  then show ?thesis
    using assms(2,3)
    by (auto simp: sess_step_def on_event_def on_late_refresh_reply_def Let_def take_pair_def noted_def)
qed

text \<open>
  every loss is told to the loss listeners once: between two connects they are told at most
  once, and exactly once if the session had become ready in between and was not stopped.
\<close>

theorem losses_told_once:
  "lk_losses_ok (link_of (ss_log (sess_run cfg evs (new_session access refresh expires_at))))"
  using reached_ok [of cfg evs access refresh expires_at]
  by (simp add: sess_ok_def standing_def the_link_def)

subsection \<open>Stopping\<close>

text \<open>A stopped session whose waiting starts are all older than the last stop.\<close>

definition stopped :: "session \<Rightarrow> bool" where
  "stopped s \<longleftrightarrow> ss_stopping s \<and> ss_supervisor s = None \<and> ss_refresh_task s = None \<and>
     ss_state s = STOPPED \<and> \<not> ss_open s \<and> (\<forall>e \<in> set (ss_starts s). e < ss_stop_epoch s)"

definition connects :: "session \<Rightarrow> nat" where
  "connects s = length (filter (\<lambda>x. x = Asked_connect) (ss_log s))"

text \<open>What a stopped session can still do: nothing that starts it or uses the connection.\<close>

definition stays :: "session \<Rightarrow> session \<Rightarrow> bool" where
  "stays s s' \<longleftrightarrow> stopped s' \<and> connects s' = connects s"

lemma stays_simple:
  assumes "stopped s"
  shows "stays s (add_event_handler c h s)" "stays s (remove_event_handler c h s)"
    "stays s (add_loss_listener l s)" "stays s (remove_loss_listener l s)"
    "stays s (add_restore key factory s)" "stays s (remove_restore key s)"
    "stays s (mark_restore_failed key s)" "stays s (sess_request i s)" "stays s (stop_over s)"
    "stays s (sess_stop s)"
  using assms
  by (auto simp: add_event_handler_def remove_event_handler_def add_loss_listener_def
      remove_loss_listener_def add_restore_def remove_restore_def mark_restore_failed_def
      sess_request_def stop_over_def sess_stop_def give_up_refresh_reply_def noted_def stays_def
      stopped_def connects_def accepts_requests_def less_SucI split: option.splits)

lemma stays_start_wakes:
  assumes "stopped s"
  shows "stays s (start_wakes epoch s)"
proof -
  have "set (remove1 epoch (ss_starts s)) \<subseteq> set (ss_starts s)" by (rule set_remove1_subset)
  with assms show ?thesis
    by (auto simp: start_wakes_def start_now_def stays_def stopped_def connects_def)
qed

lemma stays_retry:
  "stopped s \<Longrightarrow> stays s (retry_from ks s)" "stopped s \<Longrightarrow> stays s (retry_answer k ks g answer s)"
  by (cases ks) (auto simp: retry_answer_def stays_def stopped_def connects_def)

lemma stays_step:
  assumes "stopped s" "ev \<noteq> Start"
  shows "stays s (sess_step cfg ev s)"
proof -
  have same: "stays s s" using assms(1) by (simp add: stays_def)
  have none: "ss_supervisor s = None" "ss_refresh_task s = None" "\<not> ss_open s"
    using assms(1) by (simp_all add: stopped_def)
  show ?thesis
    using assms(2) none same stays_simple [OF assms(1)] stays_start_wakes [OF assms(1)]
      stays_retry [OF assms(1)]
    by (cases ev) (simp_all add: sess_step_def split: option.splits prod.splits)
qed

lemma stays_run:
  "stopped s \<Longrightarrow> Start \<notin> set evs \<Longrightarrow> stays s (sess_run cfg evs s)"
proof (induction evs arbitrary: s)
  case Nil
  then show ?case by (simp add: stays_def sess_run_def)
next
  case (Cons ev evs)
  then have one: "stays s (sess_step cfg ev s)" by (intro stays_step) auto
  then have "stays (sess_step cfg ev s) (sess_run cfg evs (sess_step cfg ev s))"
    using Cons by (auto simp: stays_def)
  with one show ?case by (simp add: stays_def sess_run_def)
qed

text \<open>
  C29: the last of \<open>start\<close> and \<open>stop\<close> wins. After a \<open>stop\<close>, and until \<open>start\<close> is called again, the
  session stays stopped and never connects, whatever happens besides: also when a \<open>start\<close> called
  before that \<open>stop\<close> still waits, and when tasks, timers or the connection still answer.
\<close>

theorem stop_wins:
  assumes "s = sess_run cfg first_evs (new_session access refresh expires_at)" and "Start \<notin> set after"
  shows "ss_state (sess_run cfg (Stop # after) s) = STOPPED \<and>
    ss_supervisor (sess_run cfg (Stop # after) s) = None \<and>
    connects (sess_run cfg (Stop # after) s) = connects s"
proof -
  have "\<forall>e \<in> set (ss_starts s). e \<le> ss_stop_epoch s"
    using reached_ok [of cfg first_evs access refresh expires_at] assms(1)
    by (simp add: sess_ok_def standing_def)
  then have "stopped (sess_stop s)" "connects (sess_stop s) = connects s"
    by (auto simp: sess_stop_def give_up_refresh_reply_def noted_def stopped_def connects_def)
  with stays_run [OF this(1) assms(2), of cfg] show ?thesis
    by (simp add: sess_run_def sess_step_def stays_def stopped_def)
qed

subsection \<open>Sample runs\<close>

definition sample_config :: sess_config where
  "sample_config = \<lparr>sc_account_id = 1, sc_backoff_base = 1, sc_backoff_max = 60\<rparr>"

text \<open>A session that logs in, its token due, and runs its one restore.\<close>

definition sample_login :: "sess_event list" where
  "sample_login = [Add_restore ''r'' 1, Start, Supervisor_starts, Connect_answer None,
     Auth_answer 0 None, Supervisor_refresh_written]"

definition sample_pair :: token_pair where
  "sample_pair = \<lparr>tp_access = ''b'', tp_refresh = ''s'', tp_expires_in = 9000\<rparr>"

definition sample_ready :: "sess_event list" where
  "sample_ready = sample_login @
     [Supervisor_refresh_answer 1 (Inr sample_pair), Auth_answer 1 None, Restore_answer 2 Restored_ok]"

definition sample_session :: session where
  "sample_session = new_session ''a'' (Some ''r'') (Some 0)"

lemma sample_ready_state: "ss_state (sess_run sample_config sample_ready sample_session) = READY"
  by code_simp

lemma requests_pass_only_when_logged_in_witness:
  "lk_ran (link_of (ss_log (sess_run sample_config sample_ready sample_session))) =
   lk_due (link_of (ss_log (sess_run sample_config sample_ready sample_session)))"
proof -
  have accepts: "accepts_requests (sess_run sample_config sample_ready sample_session)"
    by (simp add: accepts_requests_def sample_ready_state)
  from requests_pass_only_when_logged_in [OF _ accepts, of sample_config sample_ready "''a''"
      "Some ''r''" "Some 0"]
  show ?thesis by (simp add: sample_session_def [symmetric] sample_ready_state)
qed

lemma sample_login_open:
  "ss_open (sess_run sample_config sample_login sample_session) \<and>
   lk_awaiting (link_of (ss_log (sess_run sample_config sample_login sample_session)))"
  by code_simp

lemma late_reply_adopted_iff_awaited_witness:
  "ss_access_token (sess_step sample_config (Event 3 (RefreshTokenRes sample_pair))
     (sess_run sample_config sample_login sample_session)) = ''b''"
proof -
  have "tp_access sample_pair = ''b''" by (simp add: sample_pair_def)
  then show ?thesis
    using late_reply_adopted_iff_awaited [OF refl _ refl, of sample_config sample_login "''a''"
        "Some ''r''" "Some 0" 3 sample_pair] sample_login_open
    by (simp add: sample_session_def [symmetric])
qed

lemma stop_wins_witness:
  "ss_state (sess_run sample_config (Stop # [Start_wakes 0, Stop_over, Back_off_over])
     (sess_run sample_config sample_ready sample_session)) = STOPPED"
  using stop_wins [OF refl, of "[Start_wakes 0, Stop_over, Back_off_over]" sample_config sample_ready
      "''a''" "Some ''r''" "Some 0"]
  by (simp add: sample_session_def [symmetric])

end
