(* ===== verification/Session_Tokens.thy ===== *)
theory Session_Tokens
  imports Session_Promises
begin

text \<open>
  What a step of a session says of its tokens: the pairs it notes are those it goes on with
  (\<open>notes_pairs\<close>); a stopped session takes none, and a running one runs on until it is stopped.
\<close>

text \<open>The pairs among a session's notes; its \<open>on_tokens_refreshed\<close> is called for each.\<close>

fun pairs_taken :: "asked list \<Rightarrow> (token_pair \<times> rat) list" where
  "pairs_taken [] = []"
| "pairs_taken (Pair_taken pair expires_at # xs) = (pair, expires_at) # pairs_taken xs"
| "pairs_taken (_ # xs) = pairs_taken xs"

subsection \<open>What a step of a session says of its tokens\<close>

type_synonym tokens = "string \<times> string option \<times> rat option"

definition tokens_of :: "session \<Rightarrow> tokens" where
  "tokens_of s = (ss_access_token s, ss_refresh_token s, ss_expires_at s)"

definition with_pair :: "token_pair \<times> rat \<Rightarrow> tokens \<Rightarrow> tokens" where
  "with_pair p t = (tp_access (fst p), Some (tp_refresh (fst p)), Some (snd p))"

lemma with_pair_simps [simp]:
  "with_pair (pair, e) t = (tp_access pair, Some (tp_refresh pair), Some e)"
  by (simp add: with_pair_def)

lemma pairs_taken_append [simp]: "pairs_taken (xs @ ys) = pairs_taken xs @ pairs_taken ys"
  by (induction xs rule: pairs_taken.induct) auto

definition log_since :: "session \<Rightarrow> session \<Rightarrow> asked list" where
  "log_since s s' = drop (length (ss_log s)) (ss_log s')"

definition notes_pairs :: "session \<Rightarrow> session \<Rightarrow> bool" where
  "notes_pairs s s' \<longleftrightarrow>
     (\<exists>xs. ss_log s' = ss_log s @ xs \<and> tokens_of s' = fold with_pair (pairs_taken xs) (tokens_of s))"

lemma notes_pairs_refl: "notes_pairs s s"
  by (simp add: notes_pairs_def)

lemma notes_pairs_trans:
  assumes "notes_pairs s s'" "notes_pairs s' s''"
  shows "notes_pairs s s''"
proof -
  from assms obtain xs ys where "ss_log s' = ss_log s @ xs" "ss_log s'' = ss_log s' @ ys"
    "tokens_of s' = fold with_pair (pairs_taken xs) (tokens_of s)"
    "tokens_of s'' = fold with_pair (pairs_taken ys) (tokens_of s')"
    by (auto simp: notes_pairs_def)
  then show ?thesis unfolding notes_pairs_def by (intro exI [of _ "xs @ ys"]) simp
qed

text \<open>Notes other than a pair, and changes of other fields.\<close>

definition plain :: "asked \<Rightarrow> bool" where
  "plain x \<longleftrightarrow> pairs_taken [x] = []"

lemma plain_simps [simp]:
  "plain Asked_connect" "plain Asked_app_auth" "plain (Asked_account_auth c)" "plain Account_accepted"
  "plain (Asked_refresh c t)" "plain Refresh_written" "plain Refresh_refused" "plain Auth_ended"
  "plain Stopped" "plain Dropped" "plain Asked_close" "plain (Restoring ks)" "plain (Ran_restore k)"
  "plain Session_ready" "plain (Loss_told ls)" "plain (Handled h p)" "plain (Request_passed i)"
  "plain (Request_refused i st)"
  by (simp_all add: plain_def)

lemma notes_pairs_noted: "notes_pairs s s' \<Longrightarrow> plain x \<Longrightarrow> notes_pairs s (noted x s')"
  unfolding notes_pairs_def plain_def
  by (elim exE conjE, rule_tac x = "xs @ [x]" in exI) (simp add: noted_def tokens_of_def)

lemma notes_pairs_take: "notes_pairs s s' \<Longrightarrow> notes_pairs s (take_pair now pair s')"
  unfolding notes_pairs_def
  by (elim exE conjE, rule_tac x = "xs @ [Pair_taken pair (now + tp_expires_in pair)]" in exI)
    (simp add: take_pair_def noted_def tokens_of_def)

lemma notes_pairs_frame:
  assumes "notes_pairs s s'" "ss_log s'' = ss_log s'" "tokens_of s'' = tokens_of s'"
  shows "notes_pairs s s''"
  using assms by (simp add: notes_pairs_def)
lemmas pairs_intro = notes_pairs_refl notes_pairs_noted notes_pairs_take

lemma session_frame [simp]:
  "notes_pairs s (s'\<lparr>ss_state := x1\<rparr>) = notes_pairs s s'"
  "notes_pairs s (s'\<lparr>ss_ready := x2\<rparr>) = notes_pairs s s'"
  "notes_pairs s (s'\<lparr>ss_lost := x2\<rparr>) = notes_pairs s s'"
  "notes_pairs s (s'\<lparr>ss_restores := x3\<rparr>) = notes_pairs s s'"
  "notes_pairs s (s'\<lparr>ss_failed := x4\<rparr>) = notes_pairs s s'"
  "notes_pairs s (s'\<lparr>ss_event_handlers := x5\<rparr>) = notes_pairs s s'"
  "notes_pairs s (s'\<lparr>ss_loss_listeners := x6\<rparr>) = notes_pairs s s'"
  "notes_pairs s (s'\<lparr>ss_supervisor := x7\<rparr>) = notes_pairs s s'"
  "notes_pairs s (s'\<lparr>ss_attempt := x8\<rparr>) = notes_pairs s s'"
  "notes_pairs s (s'\<lparr>ss_refresh_task := x9\<rparr>) = notes_pairs s s'"
  "notes_pairs s (s'\<lparr>ss_retry := x10\<rparr>) = notes_pairs s s'"
  "notes_pairs s (s'\<lparr>ss_starts := x11\<rparr>) = notes_pairs s s'"
  "notes_pairs s (s'\<lparr>ss_last_refresh_at := x12\<rparr>) = notes_pairs s s'"
  "notes_pairs s (s'\<lparr>ss_refresh_settled := x2\<rparr>) = notes_pairs s s'"
  "notes_pairs s (s'\<lparr>ss_pair_taken := x2\<rparr>) = notes_pairs s s'"
  "notes_pairs s (s'\<lparr>ss_dropped := x2\<rparr>) = notes_pairs s s'"
  "notes_pairs s (s'\<lparr>ss_reauth_requested := x2\<rparr>) = notes_pairs s s'"
  "notes_pairs s (s'\<lparr>ss_account_auth_sent := x2\<rparr>) = notes_pairs s s'"
  "notes_pairs s (s'\<lparr>ss_stopping := x2\<rparr>) = notes_pairs s s'"
  "notes_pairs s (s'\<lparr>ss_stops_in_progress := x8\<rparr>) = notes_pairs s s'"
  "notes_pairs s (s'\<lparr>ss_stop_epoch := x8\<rparr>) = notes_pairs s s'"
  "notes_pairs s (s'\<lparr>ss_last_error := x13\<rparr>) = notes_pairs s s'"
  "notes_pairs s (s'\<lparr>ss_loss_cause := x14\<rparr>) = notes_pairs s s'"
  "notes_pairs s (s'\<lparr>ss_generation := x8\<rparr>) = notes_pairs s s'"
  "notes_pairs s (s'\<lparr>ss_open := x2\<rparr>) = notes_pairs s s'"
  by (simp_all add: notes_pairs_def tokens_of_def)

lemma pairs_basic:
  assumes "notes_pairs s s'"
  shows "notes_pairs s (at_place pc s')" "notes_pairs s (tell_loss s')"
    "notes_pairs s (give_up_refresh_reply s')" "notes_pairs s (teardown_connection s')"
    "notes_pairs s (bring_up s')" "notes_pairs s (bring_up_failed e s')"
    "notes_pairs s (back_off cfg random s')" "notes_pairs s (authenticate_account pc' s')"
    "notes_pairs s (first_account_auth s')" "notes_pairs s (second_account_auth s')"
    "notes_pairs s (ask_refresh now s')" "notes_pairs s (snd (refresh_written s'))"
    "notes_pairs s (refresh_refused call s')"
  using assms
  by (auto simp: at_place_def tell_loss_def give_up_refresh_reply_def teardown_connection_def
      bring_up_def bring_up_failed_def back_off_def authenticate_account_def first_account_auth_def
      second_account_auth_def ask_refresh_def refresh_written_def refresh_refused_eq Let_def
      intro!: pairs_intro split: option.splits)

lemma pairs_ready:
  assumes "notes_pairs s s'"
  shows "notes_pairs s (become_ready now s')" "notes_pairs s (restore_from now ks s')"
    "notes_pairs s (authenticated now s')" "notes_pairs s (refresh_loop_from now s')"
  using assms
  by (auto simp: become_ready_def restore_from_def authenticated_def refresh_loop_from_def Let_def
      intro!: pairs_intro pairs_basic split: option.splits list.splits)

lemmas pairs_all = pairs_intro pairs_basic pairs_ready

lemma pairs_answers:
  "notes_pairs s (connect_answer answer s)"  "notes_pairs s (late_due_over s)"
  "notes_pairs s (late_rejected_over s)"
  "notes_pairs s (lost_wakes since s)" "notes_pairs s (close_lost since s)"
  "notes_pairs s (close_lost_over cfg random now since s)"
  by (auto simp: connect_answer_def late_due_over_def late_rejected_over_def
      close_lost_def lost_wakes_def close_lost_over_def
      Let_def intro!: pairs_all split: option.splits)

lemma pairs_restore: "notes_pairs s (restore_answer now key ks restored s)"
  by (cases restored) (auto simp: restore_answer_def Let_def intro!: pairs_all)

lemma pairs_refused_answer:
  "notes_pairs s (app_auth_answer now answer s)"
  by (cases answer; cases "the answer") (auto simp: app_auth_answer_def intro!: pairs_all split: option.splits)
lemma pairs_account_answers:
  "notes_pairs s (account_auth_answer now token answer s)" "notes_pairs s (account_retry_answer now answer s)"
  by (cases answer; cases "the answer";
      auto simp: account_auth_answer_def account_retry_answer_def intro!: pairs_all)+

lemma pairs_refresh_answers:
  "notes_pairs s (refresh_due_answer now call reply s)"
  "notes_pairs s (refresh_rejected_answer now call reply s)"
  "notes_pairs s (refresh_loop_answer now call reply s)"
  by (cases reply; cases "projl reply";
      auto simp: refresh_due_answer_def refresh_rejected_answer_def refresh_loop_answer_def Let_def
        intro!: pairs_all)+

lemma pairs_written:
  "notes_pairs s (case refresh_written s of (call, s') \<Rightarrow> at_place (f call) s')"
  "notes_pairs s (case refresh_written s of (call, s') \<Rightarrow> s'\<lparr>ss_refresh_task := g call\<rparr>)"
  using pairs_basic(12) [OF notes_pairs_refl [of s]]
  by (auto simp: pairs_basic(1) split: prod.splits)

lemmas pairs_supervised = pairs_answers pairs_restore pairs_refused_answer pairs_account_answers
  pairs_refresh_answers pairs_written pairs_all

lemma pairs_supervisor: "notes_pairs s (supervisor_step cfg ev pc s)"
proof (cases pc)
  case (Sup_refresh_due call)
  then show ?thesis
    by (cases call) (auto simp: supervisor_step_def intro!: pairs_supervised split: sess_event.splits)
next
  case (Sup_refresh_rejected call)
  then show ?thesis
    by (cases call) (auto simp: supervisor_step_def intro!: pairs_supervised split: sess_event.splits)
qed (auto simp: supervisor_step_def intro!: pairs_supervised split: sess_event.splits)

lemma pairs_refresh_step: "notes_pairs s (refresh_step ev pc s)"
proof (cases pc)
  case (Ref_refresh call)
  then show ?thesis
    by (cases call) (auto simp: refresh_step_def intro!: pairs_supervised split: sess_event.splits)
qed (auto simp: refresh_step_def intro!: pairs_supervised split: sess_event.splits)

lemma pairs_dispatch:
  assumes "notes_pairs s s'"
  shows "notes_pairs s (dispatch_event p s')"
proof -
  have "notes_pairs s (fold (\<lambda>h. noted (Handled h p)) hs s')" for hs
    using assms by (induction hs arbitrary: s') (simp_all add: notes_pairs_noted)
  then show ?thesis by (simp add: dispatch_event_def)
qed

lemma pairs_event: "notes_pairs s (on_event cfg now p s)" "notes_pairs s (on_disconnect e s)"
  by (cases p) (auto simp: on_event_def on_disconnect_def on_late_refresh_reply_def Let_def
      intro!: pairs_all pairs_dispatch)

lemma pairs_retry: "notes_pairs s s' \<Longrightarrow> notes_pairs s (retry_from ks s')"
  by (induction ks arbitrary: s') auto

lemma pairs_calls:
  "notes_pairs s (add_event_handler c h s)" "notes_pairs s (remove_event_handler c h s)"
  "notes_pairs s (add_loss_listener l s)" "notes_pairs s (remove_loss_listener l s)"
  "notes_pairs s (add_restore key factory s)" "notes_pairs s (remove_restore key s)"
  "notes_pairs s (mark_restore_failed key s)" "notes_pairs s (sess_request i s)"
  "notes_pairs s (stop_over s)" "notes_pairs s (sess_stop s)" "notes_pairs s (start_now epoch s)"
  "notes_pairs s (sess_start s)" "notes_pairs s (start_wakes epoch s)"
  "notes_pairs s (retry_answer k ks g answer s)"
  by (auto simp: add_event_handler_def remove_event_handler_def add_loss_listener_def
      remove_loss_listener_def add_restore_def remove_restore_def mark_restore_failed_def
      sess_request_def stop_over_def sess_stop_def start_now_def sess_start_def start_wakes_def
      retry_answer_def intro!: pairs_all pairs_retry split: option.splits)

lemma pairs_step: "notes_pairs s (sess_step cfg ev s)"
  by (cases ev)
    (auto simp: sess_step_def intro: pairs_calls pairs_event pairs_retry pairs_supervisor
      pairs_refresh_step notes_pairs_refl split: option.splits)

subsection \<open>Stopped and running sessions\<close>

text \<open>A session that its owner started, and has not stopped.\<close>

definition runs :: "session \<Rightarrow> bool" where
  "runs s \<longleftrightarrow> ss_supervisor s \<noteq> None \<and> \<not> ss_stopping s \<and> ss_starts s = []"

lemma stopped_takes_no_pair:
  assumes "stopped s" "ev \<noteq> Start"
  shows "pairs_taken (log_since s (sess_step cfg ev s)) = []"
proof -
  have none: "ss_supervisor s = None" "ss_refresh_task s = None" "\<not> ss_open s"
    using assms(1) by (simp_all add: stopped_def)
  have retry: "ss_log (retry_from ks t) = ss_log t" for ks t by (induction ks arbitrary: t) auto
  show ?thesis
    using assms(2) none
    by (cases ev)
      (auto simp: sess_step_def log_since_def retry noted_def add_event_handler_def remove_event_handler_def
        add_loss_listener_def remove_loss_listener_def add_restore_def remove_restore_def
        mark_restore_failed_def sess_request_def stop_over_def sess_stop_def start_now_def
        start_wakes_def retry_answer_def give_up_refresh_reply_def split: option.splits)
qed
lemma runs_frame [simp]:
  "runs (s\<lparr>ss_state := x1\<rparr>) = runs s" "runs (s\<lparr>ss_ready := x2\<rparr>) = runs s"
  "runs (s\<lparr>ss_lost := x2\<rparr>) = runs s" "runs (s\<lparr>ss_access_token := x0\<rparr>) = runs s"
  "runs (s\<lparr>ss_refresh_token := y0\<rparr>) = runs s" "runs (s\<lparr>ss_expires_at := z0\<rparr>) = runs s"
  "runs (s\<lparr>ss_restores := x3\<rparr>) = runs s" "runs (s\<lparr>ss_failed := x4\<rparr>) = runs s"
  "runs (s\<lparr>ss_event_handlers := x5\<rparr>) = runs s" "runs (s\<lparr>ss_loss_listeners := x6\<rparr>) = runs s"
  "runs (s\<lparr>ss_attempt := x8\<rparr>) = runs s" "runs (s\<lparr>ss_refresh_task := x9\<rparr>) = runs s"
  "runs (s\<lparr>ss_retry := x10\<rparr>) = runs s" "runs (s\<lparr>ss_last_refresh_at := x12\<rparr>) = runs s"
  "runs (s\<lparr>ss_refresh_settled := x2\<rparr>) = runs s" "runs (s\<lparr>ss_pair_taken := x2\<rparr>) = runs s"
  "runs (s\<lparr>ss_dropped := x2\<rparr>) = runs s" "runs (s\<lparr>ss_reauth_requested := x2\<rparr>) = runs s"
  "runs (s\<lparr>ss_account_auth_sent := x2\<rparr>) = runs s"
  "runs (s\<lparr>ss_stops_in_progress := x8\<rparr>) = runs s" "runs (s\<lparr>ss_stop_epoch := x8\<rparr>) = runs s"
  "runs (s\<lparr>ss_last_error := x13\<rparr>) = runs s" "runs (s\<lparr>ss_loss_cause := x14\<rparr>) = runs s"
  "runs (s\<lparr>ss_generation := x8\<rparr>) = runs s" "runs (s\<lparr>ss_open := x2\<rparr>) = runs s"
  "runs (noted x s) = runs s" "runs (tell_loss s) = runs s" "runs (give_up_refresh_reply s) = runs s"
  by (simp_all add: runs_def noted_def tell_loss_def give_up_refresh_reply_def)

lemma runs_stopping: "runs s \<Longrightarrow> \<not> ss_stopping s"
  by (simp add: runs_def)

lemma runs_place: "runs s \<Longrightarrow> runs (at_place pc s)"
  by (simp add: runs_def at_place_def)

lemma runs_basic:
  assumes "runs s"
  shows "runs (teardown_connection s)" "runs (bring_up s)" "runs (bring_up_failed e s)"
    "runs (back_off cfg random s)" "runs (first_account_auth s)" "runs (second_account_auth s)"
    "runs (ask_refresh now s)" "runs (snd (refresh_written s))" "runs (refresh_refused call s)"
    "runs (take_pair now pair s)" "runs (refresh_loop_from now s)"
  using assms
  by (auto simp: teardown_connection_def bring_up_def bring_up_failed_def back_off_def
      authenticate_account_def first_account_auth_def second_account_auth_def ask_refresh_def
      refresh_written_def refresh_refused_eq take_pair_def refresh_loop_from_def Let_def runs_stopping
      intro!: runs_place split: option.splits)

lemma runs_ready:
  assumes "runs s"
  shows "runs (become_ready now s)" "runs (restore_from now ks s)" "runs (authenticated now s)"
  using assms
  by (auto simp: become_ready_def restore_from_def authenticated_def Let_def
      intro!: runs_place runs_basic split: list.splits)

lemmas runs_all = runs_place runs_basic runs_ready

lemma runs_answers:
  assumes "runs s"
  shows "runs (connect_answer answer s)" "runs (late_due_over s)" "runs (late_rejected_over s)"
    "runs (lost_wakes since s)" "runs (close_lost since s)" "runs (close_lost_over cfg random now since s)"
  using assms
  by (auto simp: connect_answer_def late_due_over_def late_rejected_over_def close_lost_def
      lost_wakes_def close_lost_over_def Let_def runs_stopping intro!: runs_all split: option.splits)

lemma runs_cased_answers:
  assumes "runs s"
  shows "runs (restore_answer now key ks restored s)" "runs (app_auth_answer now answer s)"
    "runs (account_auth_answer now token answer s)" "runs (account_retry_answer now answer s)"
    "runs (refresh_due_answer now call reply s)" "runs (refresh_rejected_answer now call reply s)"
    "runs (refresh_loop_answer now call reply s)"
proof -
  show "runs (restore_answer now key ks restored s)"
    using assms by (cases restored) (auto simp: restore_answer_def Let_def intro!: runs_all)
  show "runs (app_auth_answer now answer s)" "runs (account_auth_answer now token answer s)"
    "runs (account_retry_answer now answer s)"
    using assms
    by (cases answer; cases "the answer";
        auto simp: app_auth_answer_def account_auth_answer_def account_retry_answer_def
          intro!: runs_all split: option.splits)+
  show "runs (refresh_due_answer now call reply s)" "runs (refresh_rejected_answer now call reply s)"
    "runs (refresh_loop_answer now call reply s)"
    using assms
    by (cases reply; cases "projl reply";
        auto simp: refresh_due_answer_def refresh_rejected_answer_def refresh_loop_answer_def Let_def
          intro!: runs_all)+
qed

lemma runs_written:
  assumes "runs s"
  shows "runs (case refresh_written s of (call, s') \<Rightarrow> at_place (f call) s')"
    "runs (case refresh_written s of (call, s') \<Rightarrow> s'\<lparr>ss_refresh_task := g call\<rparr>)"
  using runs_basic(8) [OF assms] by (auto intro: runs_place split: prod.splits)

lemmas runs_supervised = runs_answers runs_cased_answers runs_written runs_all

lemma runs_supervisor:
  assumes "runs s"
  shows "runs (supervisor_step cfg ev pc s)"
proof (cases pc)
  case (Sup_refresh_due call)
  then show ?thesis
    using assms
    by (cases call) (auto simp: supervisor_step_def intro!: runs_supervised split: sess_event.splits)
next
  case (Sup_refresh_rejected call)
  then show ?thesis
    using assms
    by (cases call) (auto simp: supervisor_step_def intro!: runs_supervised split: sess_event.splits)
qed (use assms in \<open>auto simp: supervisor_step_def intro!: runs_supervised split: sess_event.splits\<close>)

lemma runs_refresh_step:
  assumes "runs s"
  shows "runs (refresh_step ev pc s)"
proof (cases pc)
  case (Ref_refresh call)
  then show ?thesis
    using assms by (cases call) (auto simp: refresh_step_def intro!: runs_supervised split: sess_event.splits)
qed (use assms in \<open>auto simp: refresh_step_def intro!: runs_supervised split: sess_event.splits\<close>)

lemma runs_dispatch: "runs (dispatch_event p s) = runs s"
proof -
  have "runs (fold (\<lambda>h. noted (Handled h p)) hs s) = runs s" for hs
    by (induction hs arbitrary: s) simp_all
  then show ?thesis by (simp add: dispatch_event_def)
qed

lemma runs_event:
  assumes "runs s"
  shows "runs (on_event cfg now p s)" "runs (on_disconnect e s)"
  using assms
  by (cases p; auto simp: on_event_def on_disconnect_def on_late_refresh_reply_def Let_def runs_dispatch
      runs_stopping intro!: runs_basic)+

lemma runs_retry: "runs (retry_from ks s) = runs s"
  by (induction ks arbitrary: s) auto

lemma runs_calls:
  assumes "runs s"
  shows "runs (add_event_handler c h s)" "runs (remove_event_handler c h s)"
  "runs (add_loss_listener l s)" "runs (remove_loss_listener l s)"
  "runs (add_restore key factory s)" "runs (remove_restore key s)"
  "runs (mark_restore_failed key s)" "runs (sess_request i s)" "runs (stop_over s)"
  "runs (start_wakes epoch s)" "runs (retry_answer k ks g answer s)"
  using assms
  by (auto simp: add_event_handler_def remove_event_handler_def add_loss_listener_def
      remove_loss_listener_def add_restore_def remove_restore_def mark_restore_failed_def
      sess_request_def stop_over_def retry_answer_def runs_retry split: option.splits)
    (simp add: start_wakes_def runs_def)

lemma runs_step:
  assumes "runs s" "ev \<noteq> Start" "ev \<noteq> Stop"
  shows "runs (sess_step cfg ev s)"
  using assms
  by (cases ev)
    (auto simp: sess_step_def runs_retry intro: runs_calls runs_event runs_supervisor
      runs_refresh_step split: option.splits)

lemma runs_started: "runs (sess_step cfg Start (sess_step cfg (Add_event_handler c h) (new_session access refresh expires_at)))"
  by (simp add: sess_step_def sess_start_def start_now_def add_event_handler_def new_session_def runs_def)

lemma runs_stopped:
  assumes "runs s"
  shows "stopped (sess_step cfg Stop s)"
  using assms
  by (simp add: sess_step_def sess_stop_def stopped_def runs_def noted_def give_up_refresh_reply_def)

lemma stopped_stays: "stopped s \<Longrightarrow> ev \<noteq> Start \<Longrightarrow> stopped (sess_step cfg ev s)"
  using stays_step [of s ev cfg] by (simp add: stays_def)

lemma not_both: "runs s \<Longrightarrow> \<not> stopped s"
  by (simp add: runs_def stopped_def)

end
