(* ===== verification/Account.thy ===== *)
theory Account
  imports Session_Tokens Parsing
begin

text \<open>
  \<open>common/account.py\<close>: the client of a trading account, which every Nautilus client of the account
  shares. It names the account by its trader login: each bring-up lists what the token grants over a
  connection of its own (the pre-connection), finds the id there, and builds a \<open>session\<close> of \<open>Session\<close>
  for it. A call of \<open>connect\<close> or \<open>disconnect\<close> is cut where it waits, and its place is a \<open>call_stage\<close>;
  what ends a wait is an event of \<open>account_step\<close>. The sessions ever built are kept with the event loop
  they run on, and what happens in one is an event of \<open>sess_step\<close> (\<open>In_session\<close>), so the account and
  its session run together. Answers of the pre-connection are events; \<open>ac_log\<close> is a ghost log.
  The cache of clients is at the end. Log lines and the causes and text of errors are left out.
\<close>

subsection \<open>Data\<close>

definition DEMO_HOST :: string where "DEMO_HOST = ''demo.ctraderapi.com''"

definition LIVE_HOST :: string where "LIVE_HOST = ''live.ctraderapi.com''"

definition ENVIRONMENTS :: "string list" where
  "ENVIRONMENTS = [''auto'', ''demo'', ''live'']"

definition BACKOFF_BASE_SECS :: rat where "BACKOFF_BASE_SECS = 1"

definition BACKOFF_MAX_SECS :: rat where "BACKOFF_MAX_SECS = 60"

definition RESTORE_RETRY_ERROR_ATTEMPTS :: nat where "RESTORE_RETRY_ERROR_ATTEMPTS = 3"

record AccountRecord =
  ctid_trader_account_id :: int
  is_live :: "bool option"
  trader_login :: "int option"

record AccountCredentials =
  client_id :: string
  client_secret :: string
  access_token :: string
  refresh_token :: "string option"
  token_expires_at :: "rat option"

record account_settings =
  se_trader_login :: int
  se_environment :: string
  se_demo_host :: string
  se_live_host :: string

definition account_host :: "bool option \<Rightarrow> account_settings \<Rightarrow> string" where
  "account_host flag se = (if flag = Some True then se_live_host se else se_demo_host se)"

record trader_answer =
  ta_money_digits :: "nat option"
  ta_deposit_asset_id :: int

datatype account_error =
    Client_replaced
  | Other_event_loop
  | Lock_of_other_loop
  | Pre_connection_failed conn_error
  | Application_rejected string
  | List_rejected string
  | No_refresh_token string
  | Refused_refresh string
  | List_rejected_after_refresh string
  | Login_not_granted
  | Login_ambiguous
  | Environment_mismatch sess_error
  | Authentication_rejected sess_error
  | Connect_timed_out
  | Not_ready SessionState
  | Request_raised conn_error
  | No_money_digits
  | No_deposit_asset
  | Call_cancelled

text \<open>\<open>isinstance(e, CTraderError)\<close>: all but a cancellation and the event loop's own error.\<close>

definition is_ctrader_error :: "account_error \<Rightarrow> bool" where
  "is_ctrader_error e \<longleftrightarrow>
     e \<notin> {Call_cancelled, Lock_of_other_loop, Pre_connection_failed Cancelled, Request_raised Cancelled}"

text \<open>\<open>request_error_code\<close> of an error of the session, and whether it is a \<open>CTraderAuthError\<close>.\<close>

fun request_error_code :: "sess_error \<Rightarrow> string option" where
  "request_error_code (App_auth_rejected code) = Some code"
| "request_error_code (Account_auth_rejected code) = Some code"
| "request_error_code (Account_auth_rejected_after_refresh code) = Some code"
| "request_error_code (Refresh_rejected code) = Some code"
| "request_error_code (From_connection (RequestError e)) = Some (error_code e)"
| "request_error_code _ = None"

fun is_auth_error :: "sess_error \<Rightarrow> bool" where
  "is_auth_error (From_connection _) = False"
| "is_auth_error Lost_in_bring_up = False"
| "is_auth_error Lost_in_late_wait = False"
| "is_auth_error _ = True"

definition is_cant_route :: "sess_error \<Rightarrow> bool" where
  "is_cant_route e \<longleftrightarrow> request_error_code e = Some ''CANT_ROUTE_REQUEST''"

subsection \<open>State\<close>

datatype account_op = Connect | Disconnect_user

text \<open>
  Where a call waits: for the lock; for a running session, having seen \<open>n\<close> notes of its log; on the
  pre-connection, \<open>Pre_late\<close> once the refresh request missed its timeout, with what came late before;
  for the close of it, with what the \<open>try\<close> gave; for the new session; for the reference data; for the
  tasks that are cancelled, then for the session's stop, with what the call then raises.
\<close>

datatype call_stage =
    At_lock account_op
  | Joining nat nat
  | Pre_connecting
  | Pre_app_auth
  | Pre_listing
  | Pre_refreshing "token_pair option option"
  | Pre_late
  | Pre_listing_again
  | Pre_closing "account_error + AccountRecord list"
  | Up_wait nat nat
  | Up_trader nat
  | Up_assets nat trader_answer
  | Up_symbols nat trader_answer "(int, string) dict"
  | Stop_tasks account_op nat "account_error option"
  | Stop_session account_op nat "account_error option"

record session_slot =
  sl_loop :: nat
  sl_config :: sess_config
  sl_host :: string
  sl_session :: session

datatype retry_pc = Retry_sleep | Retry_running

record restore_retry =
  rr_session :: nat
  rr_pc :: retry_pc
  rr_failures :: "string \<Rightarrow> nat"

datatype account_note =
    Listed_with string
  | Tokens_taken token_pair rat
  | Listener_told nat string string rat
  | Chains_reset
  | Still_failing "string set"
  | Reload_told nat nat
  | Call_over nat account_op "account_error option"

record account =
  ac_settings :: account_settings
  ac_account_id :: "int option"
  ac_credentials :: AccountCredentials
  ac_session :: "nat option"
  ac_sessions :: "(nat, session_slot) dict"
  ac_last_connect_error :: "account_error option"
  ac_token_listeners :: "nat list"
  ac_reload_listeners :: "nat list"
  ac_reload_tasks :: "nat list"
  ac_users :: nat
  ac_lock :: "nat option"
  ac_lock_loop :: "nat option"
  ac_queue :: "nat list"
  ac_session_loop :: "nat option"
  ac_retired :: bool
  ac_retry :: "restore_retry option"
  ac_reference :: "(trader_answer \<times> (int, string) dict \<times> (string, ProtoOALightSymbol) dict) option"
  ac_provider :: "(string \<times> (string \<times> string) list \<times> bool) option"
  ac_calls :: "(nat, nat \<times> call_stage) dict"
  ac_next :: nat
  ac_log :: "account_note list"

definition new_account :: "account_settings \<Rightarrow> AccountCredentials \<Rightarrow> account" where
  "new_account se credentials =
     \<lparr>ac_settings = se, ac_account_id = None, ac_credentials = credentials, ac_session = None,
      ac_sessions = [], ac_last_connect_error = None, ac_token_listeners = [],
      ac_reload_listeners = [], ac_reload_tasks = [], ac_users = 0, ac_lock = None,
      ac_lock_loop = None, ac_queue = [], ac_session_loop = None, ac_retired = False,
      ac_retry = None, ac_reference = None, ac_provider = None, ac_calls = [], ac_next = 0,
      ac_log = []\<rparr>"

definition ac_noted :: "account_note \<Rightarrow> account \<Rightarrow> account" where
  "ac_noted x a = a\<lparr>ac_log := ac_log a @ [x]\<rparr>"

subsection \<open>Listeners, the provider and the reference data\<close>

definition add_token_listener :: "nat \<Rightarrow> account \<Rightarrow> account" where
  "add_token_listener l a =
     (if l \<in> set (ac_token_listeners a) then a
      else a\<lparr>ac_token_listeners := ac_token_listeners a @ [l]\<rparr>)"

definition add_reload_listener :: "nat \<Rightarrow> account \<Rightarrow> account" where
  "add_reload_listener l a =
     (if l \<in> set (ac_reload_listeners a) then a
      else a\<lparr>ac_reload_listeners := ac_reload_listeners a @ [l]\<rparr>)"

definition remove_reload_listener :: "nat \<Rightarrow> account \<Rightarrow> account" where
  "remove_reload_listener l a = a\<lparr>ac_reload_listeners := remove1 l (ac_reload_listeners a)\<rparr>"

definition same_dict :: "(string \<times> string) list \<Rightarrow> (string \<times> string) list \<Rightarrow> bool" where
  "same_dict xs ys \<longleftrightarrow> list_all (\<lambda>k. map_of xs k = map_of ys k) (map fst (xs @ ys))"

text \<open>
  \<open>get_instrument_provider\<close>: the settings are the text of the config, the overrides by name and the
  flag; what differs is named.
\<close>

definition get_instrument_provider ::
    "string \<times> (string \<times> string) list \<times> bool \<Rightarrow> account \<Rightarrow> string list \<times> account" where
  "get_instrument_provider settings a =
     (case ac_provider a of
        None \<Rightarrow> ([], a\<lparr>ac_provider := Some settings\<rparr>)
      | Some built \<Rightarrow>
          ((if fst settings \<noteq> fst built then [''instrument_provider''] else []) @
           (if \<not> same_dict (fst (snd settings)) (fst (snd built)) then [''asset_class_overrides''] else []) @
           (if snd (snd settings) \<noteq> snd (snd built) then [''fail_on_instrument_error''] else []), a))"

definition deposit_asset :: "account \<Rightarrow> int option" where
  "deposit_asset a = map_option (ta_deposit_asset_id \<circ> fst) (ac_reference a)"

definition money_digits :: "account \<Rightarrow> nat option" where
  "money_digits a = Option.bind (ac_reference a) (ta_money_digits \<circ> fst)"

subsection \<open>Tokens\<close>

text \<open>\<open>_on_tokens_refreshed\<close>; a listener that raises is logged, and the next is told.\<close>

definition on_tokens_refreshed :: "token_pair \<Rightarrow> rat \<Rightarrow> account \<Rightarrow> account" where
  "on_tokens_refreshed pair expires_at a =
     fold (\<lambda>l. ac_noted (Listener_told l (tp_access pair) (tp_refresh pair) expires_at))
       (ac_token_listeners a)
       (ac_noted (Tokens_taken pair expires_at)
         (a\<lparr>ac_credentials := (ac_credentials a)\<lparr>access_token := tp_access pair,
              refresh_token := Some (tp_refresh pair), token_expires_at := Some expires_at\<rparr>\<rparr>))"

subsection \<open>Sessions\<close>

definition session_of :: "nat \<Rightarrow> account \<Rightarrow> session option" where
  "session_of n a = map_option sl_session (map_of (ac_sessions a) n)"

definition put_session :: "nat \<Rightarrow> session_slot \<Rightarrow> account \<Rightarrow> account" where
  "put_session n sl a = a\<lparr>ac_sessions := AList.update n sl (ac_sessions a)\<rparr>"

text \<open>Something happens in session \<open>n\<close>; what it tells of its tokens reaches the account.\<close>

definition in_session :: "nat \<Rightarrow> sess_event \<Rightarrow> account \<Rightarrow> account" where
  "in_session n ev a =
     (case map_of (ac_sessions a) n of
        None \<Rightarrow> a
      | Some sl \<Rightarrow>
          let s = sl_session sl; s' = sess_step (sl_config sl) ev s
          in fold (\<lambda>(pair, expires_at). on_tokens_refreshed pair expires_at)
               (pairs_taken (drop (length (ss_log s)) (ss_log s')))
               (put_session n (sl\<lparr>sl_session := s'\<rparr>) a))"

text \<open>The class of \<open>ProtoOASymbolChangedEvent\<close>, and the number \<open>_on_symbol_changed\<close> has as a handler.\<close>

definition symbol_changed_class :: payload_class where "symbol_changed_class = Class_other 0"

definition symbol_changed_handler :: nat where "symbol_changed_handler = 0"

subsection \<open>The lock and the end of a call\<close>

definition put_call :: "nat \<Rightarrow> nat \<Rightarrow> call_stage \<Rightarrow> account \<Rightarrow> account" where
  "put_call i loop st a = a\<lparr>ac_calls := AList.update i (loop, st) (ac_calls a)\<rparr>"

definition end_call :: "nat \<Rightarrow> account_op \<Rightarrow> account_error option \<Rightarrow> account \<Rightarrow> account" where
  "end_call i op1 r a =
     ac_noted (Call_over i op1 r) (a\<lparr>ac_calls := AList.delete i (ac_calls a)\<rparr>)"

text \<open>
  The end of the block under the lock: of \<open>connect\<close> as a user, of either with an error, which
  \<open>connect\<close> keeps when it is a \<open>CTraderError\<close>.
\<close>

definition leave_lock :: "account_op \<Rightarrow> account_error option \<Rightarrow> nat \<Rightarrow> account \<Rightarrow> account" where
  "leave_lock op1 r i a =
     end_call i op1 r
       ((case (op1, r) of
           (Connect, None) \<Rightarrow> a\<lparr>ac_users := Suc (ac_users a), ac_last_connect_error := None\<rparr>
         | (Connect, Some e) \<Rightarrow> if is_ctrader_error e then a\<lparr>ac_last_connect_error := Some e\<rparr> else a
         | (Disconnect_user, _) \<Rightarrow> a)\<lparr>ac_lock := None\<rparr>)"

subsection \<open>Stopping\<close>

text \<open>\<open>session.stop()\<close> up to its wait.\<close>

definition stop_session :: "account_op \<Rightarrow> nat \<Rightarrow> account_error option \<Rightarrow> nat \<Rightarrow> nat \<Rightarrow> account \<Rightarrow> account" where
  "stop_session op1 n r i loop a = put_call i loop (Stop_session op1 n r) (in_session n Stop a)"

text \<open>\<open>_stop\<close>: the handlers are removed and the tasks cancelled, and waited for when there are any.\<close>

definition stop_account :: "account_op \<Rightarrow> nat \<Rightarrow> account_error option \<Rightarrow> nat \<Rightarrow> nat \<Rightarrow> account \<Rightarrow> account" where
  "stop_account op1 n r i loop a =
     (let a = in_session n (Remove_event_handler symbol_changed_class symbol_changed_handler)
                (a\<lparr>ac_session := None\<rparr>);
          idle = (ac_reload_tasks a = [] \<and> ac_retry a = None);
          a = a\<lparr>ac_reload_tasks := [], ac_retry := None\<rparr>
      in if idle then stop_session op1 n r i loop a
         else put_call i loop (Stop_tasks op1 n r) a)"
subsection \<open>Bringing up\<close>

text \<open>
  The handler of \<open>_bring_up\<close>: a session already built is stopped first. \<open>r\<close> is raised after.
\<close>

definition bring_up_raises :: "account_error \<Rightarrow> nat option \<Rightarrow> nat \<Rightarrow> nat \<Rightarrow> account \<Rightarrow> account" where
  "bring_up_raises e built i loop a =
     (case built of
        None \<Rightarrow> leave_lock Connect (Some e) i (a\<lparr>ac_session := None\<rparr>)
      | Some n \<Rightarrow> stop_account Connect n (Some e) i loop a)"

text \<open>The end of \<open>_bring_up\<close>, and of the call.\<close>

definition up :: "nat \<Rightarrow> nat \<Rightarrow> account \<Rightarrow> account" where
  "up n i a =
     leave_lock Connect None i
       ((if ac_provider a \<noteq> None then ac_noted Chains_reset a else a)
          \<lparr>ac_retry := Some \<lparr>rr_session = n, rr_pc = Retry_sleep, rr_failures = (\<lambda>_. 0)\<rparr>\<rparr>)"

text \<open>A request of \<open>_load_reference_data\<close>: passed on by the session, or refused in the state it is in.\<close>

definition ask_reference :: "nat \<Rightarrow> call_stage \<Rightarrow> nat \<Rightarrow> nat \<Rightarrow> account \<Rightarrow> account" where
  "ask_reference n st i loop a =
     (case session_of n a of
        None \<Rightarrow> a
      | Some s \<Rightarrow>
          let a = in_session n (Request i) a
          in if accepts_requests s then put_call i loop st a
             else bring_up_raises (Not_ready (ss_state s)) (Some n) i loop a)"

definition session_up :: "nat \<Rightarrow> nat \<Rightarrow> nat \<Rightarrow> account \<Rightarrow> account" where
  "session_up n i loop a =
     (if ac_reference a = None then ask_reference n (Up_trader n) i loop a else up n i a)"

text \<open>\<open>_wait_ready\<close>: a wait begins; one that finds the session ready is over at once.\<close>

definition wait_ready :: "(nat \<Rightarrow> call_stage) \<Rightarrow> (account \<Rightarrow> account) \<Rightarrow> nat \<Rightarrow> nat \<Rightarrow> nat \<Rightarrow> account \<Rightarrow> account" where
  "wait_ready stage go n i loop a =
     (case session_of n a of
        None \<Rightarrow> a
      | Some s \<Rightarrow> if ss_ready s then go a else put_call i loop (stage (length (ss_log s))) a)"

text \<open>The error a poll that ended raises: the session retries what is not an authentication's.\<close>

definition auth_error :: "account_settings \<Rightarrow> session \<Rightarrow> account_error option" where
  "auth_error se s =
     (case ss_last_error s of
        None \<Rightarrow> None
      | Some e \<Rightarrow>
          if \<not> is_auth_error e then None
          else if se_environment se \<noteq> ''auto'' \<and> is_cant_route e then Some (Environment_mismatch e)
          else Some (Authentication_rejected e))"

text \<open>Whether the event a wait was for has been set since it began, or is set.\<close>

definition was_ready :: "nat \<Rightarrow> session \<Rightarrow> bool" where
  "was_ready seen s \<longleftrightarrow> Session_ready \<in> set (drop seen (ss_log s))"

text \<open>\<open>_build_session\<close>, and what \<open>_bring_up\<close> does until it waits.\<close>

definition build_session :: "int \<Rightarrow> string \<Rightarrow> nat \<Rightarrow> account \<Rightarrow> nat \<times> account" where
  "build_session account_id host loop a =
     (let n = ac_next a; credentials = ac_credentials a
      in (n, put_session n
               \<lparr>sl_loop = loop,
                sl_config = \<lparr>sc_account_id = account_id, sc_backoff_base = BACKOFF_BASE_SECS,
                  sc_backoff_max = BACKOFF_MAX_SECS\<rparr>,
                sl_host = host,
                sl_session = new_session (access_token credentials) (refresh_token credentials)
                  (token_expires_at credentials)\<rparr>
               (a\<lparr>ac_next := Suc n\<rparr>)))"

definition start_session :: "int \<Rightarrow> string \<Rightarrow> nat \<Rightarrow> nat \<Rightarrow> account \<Rightarrow> account" where
  "start_session account_id host i loop a =
     (case build_session account_id host loop a of
        (n, a) \<Rightarrow>
          wait_ready (Up_wait n) (session_up n i loop) n i loop
            (in_session n Start
              (in_session n (Add_event_handler symbol_changed_class symbol_changed_handler)
                (a\<lparr>ac_session := Some n\<rparr>))))"

text \<open>\<open>_resolve_account\<close> after the pre-connection is closed.\<close>

definition resolve_account :: "account_settings \<Rightarrow> AccountRecord list \<Rightarrow> account_error + int \<times> string" where
  "resolve_account se accounts =
     (case filter (\<lambda>entry. trader_login entry = Some (se_trader_login se)) accounts of
        [] \<Rightarrow> Inl Login_not_granted
      | [entry] \<Rightarrow>
          Inr (ctid_trader_account_id entry,
               if se_environment se = ''demo'' then se_demo_host se
               else if se_environment se = ''live'' then se_live_host se
               else account_host (is_live entry) se)
      | _ \<Rightarrow> Inl Login_ambiguous)"

definition account_resolved :: "AccountRecord list \<Rightarrow> nat \<Rightarrow> nat \<Rightarrow> account \<Rightarrow> account" where
  "account_resolved accounts i loop a =
     (case resolve_account (ac_settings a) accounts of
        Inl e \<Rightarrow> bring_up_raises e None i loop a
      | Inr (account_id, host) \<Rightarrow>
          start_session account_id host i loop (a\<lparr>ac_account_id := Some account_id\<rparr>))"

definition ask_accounts :: "call_stage \<Rightarrow> nat \<Rightarrow> nat \<Rightarrow> account \<Rightarrow> account" where
  "ask_accounts st i loop a =
     put_call i loop st (ac_noted (Listed_with (access_token (ac_credentials a))) a)"

text \<open>The end of the \<open>try\<close> of \<open>_resolve_account\<close>: the close is awaited, whatever it gave.\<close>

definition close_pre :: "account_error + AccountRecord list \<Rightarrow> nat \<Rightarrow> nat \<Rightarrow> account \<Rightarrow> account" where
  "close_pre r i loop a =
     put_call i loop (Pre_closing r) a"

definition bring_up_account :: "nat \<Rightarrow> nat \<Rightarrow> account \<Rightarrow> account" where
  "bring_up_account i loop a = put_call i loop Pre_connecting (a\<lparr>ac_session_loop := Some loop\<rparr>)"

subsection \<open>Calls\<close>

definition left_unclean :: "account \<Rightarrow> bool" where
  "left_unclean a \<longleftrightarrow> ac_session a \<noteq> None \<or> 0 < ac_users a \<or> ac_lock a \<noteq> None"

definition loop_closed :: "nat list \<Rightarrow> account \<Rightarrow> bool" where
  "loop_closed ended_loops a \<longleftrightarrow> (case ac_session_loop a of None \<Rightarrow> False | Some l \<Rightarrow> l \<in> set ended_loops)"

definition other_loop_error :: "nat list \<Rightarrow> nat \<Rightarrow> account \<Rightarrow> account_error option" where
  "other_loop_error ended_loops loop a =
     (if ac_retired a then Some Client_replaced
      else if ac_session_loop a = None \<or> ac_session_loop a = Some loop then None
      else if loop_closed ended_loops a \<and> \<not> left_unclean a then None
      else Some Other_event_loop)"

text \<open>A later user: \<open>_join\<close> when the session is not ready.\<close>

definition join_session :: "nat \<Rightarrow> nat \<Rightarrow> account \<Rightarrow> account" where
  "join_session i loop a =
     (case ac_session a of
        None \<Rightarrow> a
      | Some n \<Rightarrow>
          (case session_of n a of
             None \<Rightarrow> a
           | Some s \<Rightarrow>
               if ss_state s = READY then leave_lock Connect None i a
               else wait_ready (Joining n) (leave_lock Connect None i) n i loop a))"

text \<open>
  The block under the lock, up to its first wait. While there are users there is a session to join or
  to stop.
\<close>

definition under_lock :: "account_op \<Rightarrow> nat \<Rightarrow> nat \<Rightarrow> account \<Rightarrow> account" where
  "under_lock op1 i loop a =
     (let a = a\<lparr>ac_lock := Some i\<rparr> in
      case op1 of
        Connect \<Rightarrow>
          if 0 < ac_users a then join_session i loop a else bring_up_account i loop a
      | Disconnect_user \<Rightarrow>
          if ac_users a = 0 then leave_lock Disconnect_user None i a
          else
            let a = a\<lparr>ac_users := ac_users a - 1\<rparr>
            in if 0 < ac_users a then leave_lock Disconnect_user None i a
               else (case ac_session a of
                       None \<Rightarrow> leave_lock Disconnect_user None i a
                     | Some n \<Rightarrow> stop_account Disconnect_user n None i loop a))"

text \<open>
  \<open>asyncio.Lock\<close>: taken at once when it is free and nobody waits; otherwise the call queues, on the
  loop of the first that ever did.
\<close>

definition take_lifecycle_lock :: "account_op \<Rightarrow> nat \<Rightarrow> nat \<Rightarrow> account \<Rightarrow> account" where
  "take_lifecycle_lock op1 i loop a =
     (if ac_lock a = None \<and> ac_queue a = [] then under_lock op1 i loop a
      else if ac_lock_loop a \<noteq> None \<and> ac_lock_loop a \<noteq> Some loop
      then end_call i op1 (Some Lock_of_other_loop) a
      else put_call i loop (At_lock op1)
             (a\<lparr>ac_lock_loop := Some loop, ac_queue := ac_queue a @ [i]\<rparr>))"

definition begin_call :: "nat list \<Rightarrow> nat \<Rightarrow> account_op \<Rightarrow> account \<Rightarrow> account" where
  "begin_call ended_loops loop op1 a =
     (let i = ac_next a; a = a\<lparr>ac_next := Suc i\<rparr> in
      case (op1, other_loop_error ended_loops loop a) of
        (Connect, Some e) \<Rightarrow> end_call i Connect (Some e) (a\<lparr>ac_last_connect_error := Some e\<rparr>)
      | _ \<Rightarrow> take_lifecycle_lock op1 i loop a)"

text \<open>The lock is free, and the call that waited longest takes it.\<close>

definition lock_wakes :: "nat list \<Rightarrow> account \<Rightarrow> account" where
  "lock_wakes ended_loops a =
     (case ac_queue a of
        [] \<Rightarrow> a
      | i # others \<Rightarrow>
          (case map_of (ac_calls a) i of
             Some (loop, At_lock op1) \<Rightarrow>
               if ac_lock a = None \<and> loop \<notin> set ended_loops
               then under_lock op1 i loop (a\<lparr>ac_queue := others\<rparr>) else a
           | _ \<Rightarrow> a))"
subsection \<open>Answers and timers\<close>

datatype venue_answer =
    Raised conn_error
  | Done
  | Accounts "AccountRecord list"
  | Tokens token_pair
  | Trader_is trader_answer
  | Assets "(int \<times> string) list"
  | Symbols "ProtoOALightSymbol list"

definition by_key :: "('v \<Rightarrow> 'k) \<Rightarrow> 'v list \<Rightarrow> ('k, 'v) dict" where
  "by_key key vs = fold (\<lambda>v. AList.update (key v) v) vs []"

text \<open>The late reply of a refresh, or that reply itself.\<close>

definition refreshed :: "token_pair \<Rightarrow> rat \<Rightarrow> nat \<Rightarrow> nat \<Rightarrow> account \<Rightarrow> account" where
  "refreshed pair now i loop a =
     ask_accounts Pre_listing_again i loop (on_tokens_refreshed pair (now + tp_expires_in pair) a)"

definition list_refused :: "string \<Rightarrow> nat \<Rightarrow> nat \<Rightarrow> account \<Rightarrow> account" where
  "list_refused code i loop a =
     (if code \<notin> set TOKEN_ERROR_CODES then close_pre (Inl (List_rejected code)) i loop a
      else if refresh_token (ac_credentials a) = None
      then close_pre (Inl (No_refresh_token code)) i loop a
      else put_call i loop (Pre_refreshing None) a)"

definition refresh_failed :: "conn_error \<Rightarrow> rat \<Rightarrow> token_pair option option \<Rightarrow> nat \<Rightarrow> nat \<Rightarrow> account \<Rightarrow> account" where
  "refresh_failed e now late i loop a =
     (case e of
        RequestError r \<Rightarrow> close_pre (Inl (Refused_refresh (error_code r))) i loop a
      | _ \<Rightarrow>
          if \<not> error_kind_timeout e then close_pre (Inl (Pre_connection_failed e)) i loop a
          else (case late of
                  None \<Rightarrow> put_call i loop Pre_late a
                | Some None \<Rightarrow> close_pre (Inl (Pre_connection_failed e)) i loop a
                | Some (Some pair) \<Rightarrow> refreshed pair now i loop a))"

definition trader_known :: "nat \<Rightarrow> trader_answer \<Rightarrow> nat \<Rightarrow> nat \<Rightarrow> account \<Rightarrow> account" where
  "trader_known n t i loop a =
     (if ta_money_digits t = None then bring_up_raises No_money_digits (Some n) i loop a
      else ask_reference n (Up_assets n t) i loop a)"

definition assets_known :: "nat \<Rightarrow> trader_answer \<Rightarrow> (int \<times> string) list \<Rightarrow> nat \<Rightarrow> nat \<Rightarrow> account \<Rightarrow> account" where
  "assets_known n t assets i loop a =
     (let by_id = fold (\<lambda>(k, name). AList.update k name) assets []
      in if map_of by_id (ta_deposit_asset_id t) = None
         then bring_up_raises No_deposit_asset (Some n) i loop a
         else ask_reference n (Up_symbols n t by_id) i loop a)"

definition symbols_known ::
    "nat \<Rightarrow> trader_answer \<Rightarrow> (int, string) dict \<Rightarrow> ProtoOALightSymbol list \<Rightarrow> nat \<Rightarrow> account \<Rightarrow> account" where
  "symbols_known n t assets symbols i a =
     up n i (a\<lparr>ac_reference := Some (t, assets, by_key symbolName symbols)\<rparr>)"

text \<open>What each request raises, or the next one; an answer of another kind did not happen.\<close>

definition call_answered :: "rat \<Rightarrow> venue_answer \<Rightarrow> nat \<Rightarrow> nat \<Rightarrow> call_stage \<Rightarrow> account \<Rightarrow> account" where
  "call_answered now answer i loop st a =
     (case (st, answer) of
        (Pre_connecting, Raised e) \<Rightarrow> close_pre (Inl (Pre_connection_failed e)) i loop a
      | (Pre_connecting, Done) \<Rightarrow> put_call i loop Pre_app_auth a
      | (Pre_app_auth, Raised (RequestError r)) \<Rightarrow>
          close_pre (Inl (Application_rejected (error_code r))) i loop a
      | (Pre_app_auth, Raised e) \<Rightarrow> close_pre (Inl (Pre_connection_failed e)) i loop a
      | (Pre_app_auth, Done) \<Rightarrow> ask_accounts Pre_listing i loop a
      | (Pre_listing, Raised (RequestError r)) \<Rightarrow> list_refused (error_code r) i loop a
      | (Pre_listing, Raised e) \<Rightarrow> close_pre (Inl (Pre_connection_failed e)) i loop a
      | (Pre_listing, Accounts accounts) \<Rightarrow> close_pre (Inr accounts) i loop a
      | (Pre_refreshing late, Raised e) \<Rightarrow> refresh_failed e now late i loop a
      | (Pre_refreshing late, Tokens pair) \<Rightarrow> refreshed pair now i loop a
      | (Pre_listing_again, Raised (RequestError r)) \<Rightarrow>
          close_pre (Inl (List_rejected_after_refresh (error_code r))) i loop a
      | (Pre_listing_again, Raised e) \<Rightarrow> close_pre (Inl (Pre_connection_failed e)) i loop a
      | (Pre_listing_again, Accounts accounts) \<Rightarrow> close_pre (Inr accounts) i loop a
      | (Pre_closing (Inl e), Done) \<Rightarrow> bring_up_raises e None i loop a
      | (Pre_closing (Inr accounts), Done) \<Rightarrow> account_resolved accounts i loop a
      | (Up_trader n, Raised e) \<Rightarrow> bring_up_raises (Request_raised e) (Some n) i loop a
      | (Up_trader n, Trader_is t) \<Rightarrow> trader_known n t i loop a
      | (Up_assets n t, Raised e) \<Rightarrow> bring_up_raises (Request_raised e) (Some n) i loop a
      | (Up_assets n t, Assets assets) \<Rightarrow> assets_known n t assets i loop a
      | (Up_symbols n t assets, Raised e) \<Rightarrow> bring_up_raises (Request_raised e) (Some n) i loop a
      | (Up_symbols n t assets, Symbols symbols) \<Rightarrow> symbols_known n t assets symbols i a
      | (Stop_tasks op1 n r, Done) \<Rightarrow> stop_session op1 n r i loop a
      | (Stop_session op1 n r, Done) \<Rightarrow> leave_lock op1 r i (in_session n Stop_over a)
      | _ \<Rightarrow> a)"

text \<open>
  \<open>catch_late_reply\<close> and \<open>end_late_wait\<close>: the first to come counts. \<open>None\<close> is the loss of the
  pre-connection, or the end of \<open>LATE_REFRESH_WAIT_SECS\<close> for a call that waits for it.
\<close>

definition late_reply :: "rat \<Rightarrow> token_pair option \<Rightarrow> nat \<Rightarrow> nat \<Rightarrow> call_stage \<Rightarrow> account \<Rightarrow> account" where
  "late_reply now late i loop st a =
     (case (st, late) of
        (Pre_refreshing None, _) \<Rightarrow> put_call i loop (Pre_refreshing (Some late)) a
      | (Pre_late, None) \<Rightarrow> close_pre (Inl (Pre_connection_failed TimeoutError)) i loop a
      | (Pre_late, Some pair) \<Rightarrow> refreshed pair now i loop a
      | _ \<Rightarrow> a)"

definition ready_wakes :: "nat \<Rightarrow> nat \<Rightarrow> call_stage \<Rightarrow> account \<Rightarrow> account" where
  "ready_wakes i loop st a =
     (let ready = (\<lambda>n seen. case session_of n a of None \<Rightarrow> False | Some s \<Rightarrow> was_ready seen s) in
      case st of
        Up_wait n seen \<Rightarrow> if ready n seen then session_up n i loop a else a
      | Joining n seen \<Rightarrow> if ready n seen then leave_lock Connect None i a else a
      | _ \<Rightarrow> a)"

text \<open>\<open>_READY_POLL_SECS\<close> are over: an authentication refused fails the call, else it waits again.\<close>

definition poll_over :: "nat \<Rightarrow> nat \<Rightarrow> call_stage \<Rightarrow> account \<Rightarrow> account" where
  "poll_over i loop st a =
     (case st of
        Up_wait n _ \<Rightarrow>
          (case Option.bind (session_of n a) (auth_error (ac_settings a)) of
             Some e \<Rightarrow> bring_up_raises e (Some n) i loop a
           | None \<Rightarrow> wait_ready (Up_wait n) (session_up n i loop) n i loop a)
      | Joining n _ \<Rightarrow>
          (case Option.bind (session_of n a) (auth_error (ac_settings a)) of
             Some e \<Rightarrow> leave_lock Connect (Some e) i a
           | None \<Rightarrow> wait_ready (Joining n) (leave_lock Connect None i) n i loop a)
      | _ \<Rightarrow> a)"

text \<open>
  \<open>connect_timeout_secs\<close> are over: the wait is cancelled, which the close of the pre-connection
  still follows; a wait for that close ends there. A cancellation that came before counts.
\<close>

definition deadline_over :: "nat \<Rightarrow> nat \<Rightarrow> call_stage \<Rightarrow> account \<Rightarrow> account" where
  "deadline_over i loop st a =
     (case st of
        Pre_closing (Inl e) \<Rightarrow>
          if e = Connect_timed_out then a
          else bring_up_raises (if e = Call_cancelled then e else Connect_timed_out) None i loop a
      | Pre_closing (Inr _) \<Rightarrow> bring_up_raises Connect_timed_out None i loop a
      | Joining _ _ \<Rightarrow> leave_lock Connect (Some Connect_timed_out) i a
      | Up_wait n _ \<Rightarrow> bring_up_raises Connect_timed_out (Some n) i loop a
      | Up_trader n \<Rightarrow> bring_up_raises Connect_timed_out (Some n) i loop a
      | Up_assets n _ \<Rightarrow> bring_up_raises Connect_timed_out (Some n) i loop a
      | Up_symbols n _ _ \<Rightarrow> bring_up_raises Connect_timed_out (Some n) i loop a
      | At_lock _ \<Rightarrow> a
      | Stop_tasks _ _ _ \<Rightarrow> a
      | Stop_session _ _ _ \<Rightarrow> a
      | _ \<Rightarrow> close_pre (Inl Connect_timed_out) i loop a)"

text \<open>The call is cancelled; a stop in progress goes on to stop the session.\<close>

definition cancelled :: "nat \<Rightarrow> nat \<Rightarrow> call_stage \<Rightarrow> account \<Rightarrow> account" where
  "cancelled i loop st a =
     (case st of
        At_lock op1 \<Rightarrow>
          end_call i op1 (Some Call_cancelled) (a\<lparr>ac_queue := remove1 i (ac_queue a)\<rparr>)
      | Joining _ _ \<Rightarrow> leave_lock Connect (Some Call_cancelled) i a
      | Pre_closing _ \<Rightarrow> bring_up_raises Call_cancelled None i loop a
      | Up_wait n _ \<Rightarrow> bring_up_raises Call_cancelled (Some n) i loop a
      | Up_trader n \<Rightarrow> bring_up_raises Call_cancelled (Some n) i loop a
      | Up_assets n _ \<Rightarrow> bring_up_raises Call_cancelled (Some n) i loop a
      | Up_symbols n _ _ \<Rightarrow> bring_up_raises Call_cancelled (Some n) i loop a
      | Stop_tasks op1 n _ \<Rightarrow> stop_session op1 n (Some Call_cancelled) i loop a
      | Stop_session op1 n _ \<Rightarrow>
          leave_lock op1 (Some Call_cancelled) i (in_session n Stop_over a)
      | _ \<Rightarrow> close_pre (Inl Call_cancelled) i loop a)"

subsection \<open>Tasks\<close>

text \<open>\<open>_retry_restores_loop\<close>: \<open>failing\<close> counts the retries in a row a key has failed.\<close>

definition count_failures :: "string set \<Rightarrow> (string \<Rightarrow> nat) \<Rightarrow> string \<Rightarrow> nat" where
  "count_failures keys failing k = (if k \<in> keys then Suc (failing k) else 0)"

definition still_failing :: "string set \<Rightarrow> (string \<Rightarrow> nat) \<Rightarrow> string set" where
  "still_failing keys failing = Set.filter (\<lambda>k. failing k = RESTORE_RETRY_ERROR_ATTEMPTS) keys"

definition retry_turn :: "string list \<Rightarrow> account \<Rightarrow> account" where
  "retry_turn keys a =
     (case ac_retry a of
        None \<Rightarrow> a
      | Some rr \<Rightarrow>
          (case session_of (rr_session rr) a of
             None \<Rightarrow> a
           | Some s \<Rightarrow>
               if rr_pc rr = Retry_sleep \<and> ss_state s = READY \<and> set keys = ss_failed s
               then in_session (rr_session rr) (Retry_failed keys)
                      (a\<lparr>ac_retry := Some (rr\<lparr>rr_pc := Retry_running\<rparr>)\<rparr>)
               else a))"

definition retry_over :: "account \<Rightarrow> account" where
  "retry_over a =
     (case ac_retry a of
        None \<Rightarrow> a
      | Some rr \<Rightarrow>
          (case session_of (rr_session rr) a of
             None \<Rightarrow> a
           | Some s \<Rightarrow>
               if rr_pc rr = Retry_running \<and> ss_retry s = None
               then let failing = count_failures (ss_failed s) (rr_failures rr) in
                    ac_noted (Still_failing (still_failing (ss_failed s) failing))
                      (a\<lparr>ac_retry := Some (rr\<lparr>rr_pc := Retry_sleep, rr_failures := failing\<rparr>)\<rparr>)
               else a))"

text \<open>A loaded symbol the running session's venue reports changed: a task that reloads it.\<close>

definition reload_starts :: "account \<Rightarrow> account" where
  "reload_starts a =
     (case Option.bind (ac_session a) (\<lambda>n. session_of n a) of
        None \<Rightarrow> a
      | Some s \<Rightarrow>
          if ac_provider a \<noteq> None \<and>
             symbol_changed_handler \<in> set (dict_get (ss_event_handlers s) symbol_changed_class [])
          then a\<lparr>ac_reload_tasks := ac_reload_tasks a @ [ac_next a], ac_next := Suc (ac_next a)\<rparr>
          else a)"

text \<open>A reload that failed tells nobody.\<close>

definition reload_over :: "nat \<Rightarrow> bool \<Rightarrow> account \<Rightarrow> account" where
  "reload_over t reloaded a =
     (if t \<notin> set (ac_reload_tasks a) then a
      else
        let a = a\<lparr>ac_reload_tasks := remove1 t (ac_reload_tasks a)\<rparr>
        in if reloaded then fold (\<lambda>l. ac_noted (Reload_told l t)) (ac_reload_listeners a) a else a)"

subsection \<open>Steps\<close>

datatype account_event =
    Start_call nat account_op
  | Lock_wakes
  | Answer nat rat venue_answer
  | Late_reply nat rat "token_pair option"
  | Ready_wakes nat
  | Poll_over nat
  | Deadline nat
  | Cancel nat
  | In_session nat sess_event
  | Retry_turn "string list"
  | Retry_over
  | Reload_starts
  | Reload_over nat bool
  | Add_token_listener nat
  | Add_reload_listener nat
  | Remove_reload_listener nat
  | Get_provider "string \<times> (string \<times> string) list \<times> bool"

text \<open>What only the account itself does to its sessions.\<close>

fun accounts_own :: "sess_event \<Rightarrow> bool" where
  "accounts_own Start = True"
| "accounts_own Stop = True"
| "accounts_own Stop_over = True"
| "accounts_own (Retry_failed _) = True"
| "accounts_own _ = False"

text \<open>A call, a session and the tasks of one go no further once their event loop is closed.\<close>

definition on_call :: "nat list \<Rightarrow> nat \<Rightarrow> (nat \<Rightarrow> call_stage \<Rightarrow> account \<Rightarrow> account) \<Rightarrow> account \<Rightarrow> account" where
  "on_call ended_loops i go a =
     (case map_of (ac_calls a) i of
        None \<Rightarrow> a | Some (loop, st) \<Rightarrow> if loop \<in> set ended_loops then a else go loop st a)"

definition account_step :: "nat list \<Rightarrow> account_event \<Rightarrow> account \<Rightarrow> account" where
  "account_step ended_loops ev a =
     (case ev of
        Start_call loop op1 \<Rightarrow> if loop \<in> set ended_loops then a else begin_call ended_loops loop op1 a
      | Lock_wakes \<Rightarrow> lock_wakes ended_loops a
      | Answer i now answer \<Rightarrow> on_call ended_loops i (call_answered now answer i) a
      | Late_reply i now late \<Rightarrow> on_call ended_loops i (late_reply now late i) a
      | Ready_wakes i \<Rightarrow> on_call ended_loops i (ready_wakes i) a
      | Poll_over i \<Rightarrow> on_call ended_loops i (poll_over i) a
      | Deadline i \<Rightarrow> on_call ended_loops i (deadline_over i) a
      | Cancel i \<Rightarrow> on_call ended_loops i (cancelled i) a
      | In_session n ev1 \<Rightarrow>
          (case map_of (ac_sessions a) n of
             None \<Rightarrow> a
           | Some sl \<Rightarrow>
               if sl_loop sl \<in> set ended_loops \<or> accounts_own ev1 then a else in_session n ev1 a)
      | Retry_turn keys \<Rightarrow> if loop_closed ended_loops a then a else retry_turn keys a
      | Retry_over \<Rightarrow> if loop_closed ended_loops a then a else retry_over a
      | Reload_starts \<Rightarrow> if loop_closed ended_loops a then a else reload_starts a
      | Reload_over t reloaded \<Rightarrow> if loop_closed ended_loops a then a else reload_over t reloaded a
      | Add_token_listener l \<Rightarrow> add_token_listener l a
      | Add_reload_listener l \<Rightarrow> add_reload_listener l a
      | Remove_reload_listener l \<Rightarrow> remove_reload_listener l a
      | Get_provider settings \<Rightarrow> snd (get_instrument_provider settings a))"

type_synonym account_run = "(nat list \<times> account_event) list"

definition run_account :: "account_run \<Rightarrow> account \<Rightarrow> account" where
  "run_account evs a = fold (\<lambda>(ended_loops, ev). account_step ended_loops ev) evs a"

end
