(* ===== verification/Account_Safety.thy ===== *)
theory Account_Safety
  imports Account
begin

text \<open>
  What every run of an account client keeps (\<open>account_ok\<close>): who holds the lock and at which stage, what
  that says of the users and the session, that only one session built can run, and that the running
  session and the account have the same tokens.
\<close>

subsection \<open>The invariant\<close>

fun waits_lock :: "call_stage \<Rightarrow> bool" where
  "waits_lock (At_lock _) = True"
| "waits_lock _ = False"

definition account_tokens :: "account \<Rightarrow> tokens" where
  "account_tokens a =
     (access_token (ac_credentials a), refresh_token (ac_credentials a), token_expires_at (ac_credentials a))"

text \<open>The stage of the call that holds the lock.\<close>

definition holder :: "account \<Rightarrow> call_stage option" where
  "holder a = (case ac_lock a of None \<Rightarrow> None | Some i \<Rightarrow> map_option snd (map_of (ac_calls a) i))"

fun stage_ok :: "call_stage option \<Rightarrow> nat \<Rightarrow> nat option \<Rightarrow> bool" where
  "stage_ok None users session1 = (0 < users \<longleftrightarrow> session1 \<noteq> None)"
| "stage_ok (Some (At_lock _)) users session1 = False"
| "stage_ok (Some (Joining n _)) users session1 = (0 < users \<and> session1 = Some n)"
| "stage_ok (Some (Up_wait n _)) users session1 = (users = 0 \<and> session1 = Some n)"
| "stage_ok (Some (Up_trader n)) users session1 = (users = 0 \<and> session1 = Some n)"
| "stage_ok (Some (Up_assets n _)) users session1 = (users = 0 \<and> session1 = Some n)"
| "stage_ok (Some (Up_symbols n _ _)) users session1 = (users = 0 \<and> session1 = Some n)"
| "stage_ok (Some (Stop_tasks op1 n r)) users session1 =
     (users = 0 \<and> session1 = None \<and> (op1 = Connect \<longrightarrow> r \<noteq> None))"
| "stage_ok (Some (Stop_session op1 n r)) users session1 =
     (users = 0 \<and> session1 = None \<and> (op1 = Connect \<longrightarrow> r \<noteq> None))"
| "stage_ok (Some _) users session1 = (users = 0 \<and> session1 = None)"

text \<open>The session that may run: the account's, or one whose tasks are still being waited for.\<close>

fun running :: "call_stage option \<Rightarrow> nat option \<Rightarrow> nat option" where
  "running (Some (Stop_tasks _ n _)) session1 = Some n"
| "running _ session1 = session1"

definition slot_ok :: "bool \<Rightarrow> tokens \<Rightarrow> session_slot \<Rightarrow> bool" where
  "slot_ok live1 t sl \<longleftrightarrow>
     (if live1 then runs (sl_session sl) \<and> tokens_of (sl_session sl) = t else stopped (sl_session sl))"

definition slots_ok :: "nat option \<Rightarrow> account \<Rightarrow> bool" where
  "slots_ok r a \<longleftrightarrow>
     (\<forall>n sl. map_of (ac_sessions a) n = Some sl \<longrightarrow>
        n < ac_next a \<and> slot_ok (r = Some n) (account_tokens a) sl) \<and>
     (\<forall>n. r = Some n \<longrightarrow> map_of (ac_sessions a) n \<noteq> None)"

definition others_wait :: "nat option \<Rightarrow> account \<Rightarrow> bool" where
  "others_wait r a \<longleftrightarrow>
     (\<forall>j loop st. map_of (ac_calls a) j = Some (loop, st) \<longrightarrow>
        j < ac_next a \<and> (r \<noteq> Some j \<longrightarrow> waits_lock st))"

definition account_ok :: "account \<Rightarrow> bool" where
  "account_ok a \<longleftrightarrow>
     stage_ok (holder a) (ac_users a) (ac_session a) \<and>
     slots_ok (running (holder a) (ac_session a)) a \<and> others_wait (ac_lock a) a \<and>
     (ac_lock a = None \<or> holder a \<noteq> None)"

text \<open>Call \<open>i\<close> goes on under the lock; session \<open>r\<close> may run.\<close>

definition held :: "nat \<Rightarrow> nat option \<Rightarrow> account \<Rightarrow> bool" where
  "held i r a \<longleftrightarrow> ac_lock a = Some i \<and> slots_ok r a \<and> others_wait (Some i) a \<and> i < ac_next a"

lemma account_ok_new: "account_ok (new_account se credentials)"
  by (simp add: account_ok_def new_account_def holder_def slots_ok_def others_wait_def)

subsection \<open>Frames\<close>

lemma noted_account [simp]:
  "ac_lock (ac_noted x a) = ac_lock a" "ac_calls (ac_noted x a) = ac_calls a"
  "ac_sessions (ac_noted x a) = ac_sessions a" "ac_next (ac_noted x a) = ac_next a"
  "ac_credentials (ac_noted x a) = ac_credentials a" "ac_users (ac_noted x a) = ac_users a"
  "ac_session (ac_noted x a) = ac_session a" "ac_queue (ac_noted x a) = ac_queue a"
  "ac_settings (ac_noted x a) = ac_settings a" "ac_token_listeners (ac_noted x a) = ac_token_listeners a"
  "ac_retired (ac_noted x a) = ac_retired a" "ac_session_loop (ac_noted x a) = ac_session_loop a"
  "account_tokens (ac_noted x a) = account_tokens a"
  by (simp_all add: ac_noted_def account_tokens_def)

lemma account_tokens_frame [simp]:
  "account_tokens (a\<lparr>ac_sessions := x\<rparr>) = account_tokens a"
  "account_tokens (a\<lparr>ac_session := y\<rparr>) = account_tokens a"
  by (simp_all add: account_tokens_def)

definition the_same :: "account \<Rightarrow> account \<Rightarrow> bool" where
  "the_same a a' \<longleftrightarrow>
     ac_lock a' = ac_lock a \<and> ac_calls a' = ac_calls a \<and> ac_next a' = ac_next a \<and>
     ac_users a' = ac_users a \<and> ac_session a' = ac_session a \<and> ac_queue a' = ac_queue a \<and>
     ac_settings a' = ac_settings a \<and> ac_token_listeners a' = ac_token_listeners a \<and>
     ac_retired a' = ac_retired a \<and> ac_session_loop a' = ac_session_loop a \<and>
     ac_lock_loop a' = ac_lock_loop a"

lemma the_same_fold:
  assumes "\<And>x a. the_same a (f x a)"
  shows "the_same a (fold f xs a)"
proof (induction xs arbitrary: a)
  case (Cons x xs)
  then show ?case using assms [of a x] Cons [of "f x a"] by (simp add: the_same_def)
qed (simp add: the_same_def)

lemma tokens_refreshed_same: "the_same a (on_tokens_refreshed pair e a)"
proof -
  have "the_same a (ac_noted x a)" for x a by (simp add: the_same_def ac_noted_def)
  then have "the_same b (fold (\<lambda>l. ac_noted (Listener_told l (tp_access pair) (tp_refresh pair) e)) ls b)" for ls b
    by (rule the_same_fold)
  from this [of "ac_noted (Tokens_taken pair e) (a\<lparr>ac_credentials := (ac_credentials a)
      \<lparr>access_token := tp_access pair, refresh_token := Some (tp_refresh pair), token_expires_at := Some e\<rparr>\<rparr>)"
      "ac_token_listeners a"]
  show ?thesis by (simp add: on_tokens_refreshed_def the_same_def ac_noted_def)
qed

lemma told_only_notes:
  "ac_sessions (fold (\<lambda>l. ac_noted (f l)) ls a) = ac_sessions a"
  "ac_credentials (fold (\<lambda>l. ac_noted (f l)) ls a) = ac_credentials a"
  by (induction ls arbitrary: a) simp_all

lemma tokens_refreshed_tokens [simp]:
  "account_tokens (on_tokens_refreshed pair e a) = with_pair (pair, e) (account_tokens a)"
  "ac_sessions (on_tokens_refreshed pair e a) = ac_sessions a"
  by (simp_all add: on_tokens_refreshed_def account_tokens_def told_only_notes)

lemma tokens_told_fold:
  "account_tokens (fold (\<lambda>(pair, e). on_tokens_refreshed pair e) ps a) = fold with_pair ps (account_tokens a)"
  "ac_sessions (fold (\<lambda>(pair, e). on_tokens_refreshed pair e) ps a) = ac_sessions a"
  by (induction ps arbitrary: a) (auto split: prod.splits)

lemma in_session_same: "the_same a (in_session n ev a)"
proof (cases "map_of (ac_sessions a) n")
  case None
  then show ?thesis by (simp add: in_session_def the_same_def)
next
  case (Some sl)
  have "the_same b (fold (\<lambda>(pair, e). on_tokens_refreshed pair e) ps b)" for ps b
    by (rule the_same_fold) (auto simp: tokens_refreshed_same split: prod.splits)
  then show ?thesis using Some by (simp add: in_session_def Let_def the_same_def put_session_def)
qed

lemma in_session_frame [simp]:
  "ac_lock (in_session n ev a) = ac_lock a" "ac_calls (in_session n ev a) = ac_calls a"
  "ac_next (in_session n ev a) = ac_next a" "ac_users (in_session n ev a) = ac_users a"
  "ac_session (in_session n ev a) = ac_session a" "ac_queue (in_session n ev a) = ac_queue a"
  "ac_settings (in_session n ev a) = ac_settings a"
  "ac_token_listeners (in_session n ev a) = ac_token_listeners a"
  "ac_retired (in_session n ev a) = ac_retired a"
  "ac_session_loop (in_session n ev a) = ac_session_loop a"
  using in_session_same [of a n ev] by (simp_all add: the_same_def)

text \<open>The slots after something happened in session \<open>n\<close>, and the account's tokens.\<close>

lemma in_session_slots:
  assumes "map_of (ac_sessions a) n = Some sl"
  shows "map_of (ac_sessions (in_session n ev a)) m =
      (if m = n then Some (sl\<lparr>sl_session := sess_step (sl_config sl) ev (sl_session sl)\<rparr>)
       else map_of (ac_sessions a) m)"
    and "account_tokens (in_session n ev a) =
      fold with_pair (pairs_taken (log_since (sl_session sl) (sess_step (sl_config sl) ev (sl_session sl))))
        (account_tokens a)"
  using assms
  by (simp_all add: in_session_def Let_def tokens_told_fold put_session_def log_since_def update_conv')

lemma in_session_none: "map_of (ac_sessions a) n = None \<Longrightarrow> in_session n ev a = a"
  by (simp add: in_session_def)

lemma step_tokens:
  "tokens_of (sess_step cfg ev s) = fold with_pair (pairs_taken (log_since s (sess_step cfg ev s))) (tokens_of s)"
  using pairs_step [of s cfg ev] by (auto simp: notes_pairs_def log_since_def)

lemma slots_in_session:
  assumes "slots_ok r a" "ev \<noteq> Start" "ev \<noteq> Stop"
  shows "slots_ok r (in_session n ev a)"
proof (cases "map_of (ac_sessions a) n")
  case None
  then show ?thesis using assms by (simp add: in_session_none)
next
  case (Some sl)
  let ?s = "sl_session sl" and ?s' = "sess_step (sl_config sl) ev (sl_session sl)"
  note slots = in_session_slots [OF Some, of ev]
  show ?thesis
  proof (cases "r = Some n")
    case True
    then have "runs ?s" "tokens_of ?s = account_tokens a"
      using assms(1) Some by (auto simp: slots_ok_def slot_ok_def)
    then have "runs ?s'" "tokens_of ?s' = account_tokens (in_session n ev a)"
      using assms runs_step slots(2) step_tokens by simp_all
    then show ?thesis using assms(1) True Some by (auto simp: slots_ok_def slot_ok_def slots(1))
  next
    case False
    then have s: "stopped ?s" using assms(1) Some by (auto simp: slots_ok_def slot_ok_def)
    then have "stopped ?s'" "account_tokens (in_session n ev a) = account_tokens a"
      using assms stopped_stays slots(2) stopped_takes_no_pair [OF s assms(2)] by simp_all
    then show ?thesis using assms(1) False Some by (auto simp: slots_ok_def slot_ok_def slots(1))
  qed
qed

lemma slots_stop:
  assumes "slots_ok (Some n) a"
  shows "slots_ok None (in_session n Stop a)"
proof -
  obtain sl where sl: "map_of (ac_sessions a) n = Some sl" using assms by (auto simp: slots_ok_def)
  note slots = in_session_slots [OF sl, of Stop]
  have "runs (sl_session sl)" using assms sl by (auto simp: slots_ok_def slot_ok_def)
  then have "stopped (sess_step (sl_config sl) Stop (sl_session sl))" by (rule runs_stopped)
  then show ?thesis using assms sl by (auto simp: slots_ok_def slot_ok_def slots(1))
qed
subsection \<open>Under the lock\<close>

lemma held_frame [simp]:
  "held i r (a\<lparr>ac_account_id := x1\<rparr>) = held i r a" "held i r (a\<lparr>ac_session := x2\<rparr>) = held i r a"
  "held i r (a\<lparr>ac_last_connect_error := x3\<rparr>) = held i r a" "held i r (a\<lparr>ac_users := x4\<rparr>) = held i r a"
  "held i r (a\<lparr>ac_reload_tasks := x5\<rparr>) = held i r a" "held i r (a\<lparr>ac_retry := x6\<rparr>) = held i r a"
  "held i r (a\<lparr>ac_reference := x7\<rparr>) = held i r a" "held i r (a\<lparr>ac_session_loop := x8\<rparr>) = held i r a"
  "held i r (a\<lparr>ac_queue := x9\<rparr>) = held i r a" "held i r (ac_noted x a) = held i r a"
  by (simp_all add: held_def slots_ok_def others_wait_def account_tokens_def)

lemma held_in_session: "held i r a \<Longrightarrow> ev \<noteq> Start \<Longrightarrow> ev \<noteq> Stop \<Longrightarrow> held i r (in_session n ev a)"
  using slots_in_session [of r a ev n] by (simp add: held_def others_wait_def)

lemma held_put:
  assumes "held i r a" "stage_ok (Some st) (ac_users a) (ac_session a)" "running (Some st) (ac_session a) = r"
  shows "account_ok (put_call i loop st a)"
proof -
  have st: "\<not> waits_lock st" using assms(2) by (cases st) auto
  have "holder (put_call i loop st a) = Some st"
    using assms(1) by (simp add: holder_def put_call_def held_def update_conv')
  then show ?thesis
    using assms st by (auto simp: account_ok_def held_def put_call_def slots_ok_def others_wait_def
        account_tokens_def update_conv' split: if_splits)
qed

lemma held_leave:
  assumes "held i (ac_session a) a"
    and "0 < (if op1 = Connect \<and> res = None then Suc (ac_users a) else ac_users a) \<longleftrightarrow> ac_session a \<noteq> None"
  shows "account_ok (leave_lock op1 res i a)"
proof -
  let ?a = "leave_lock op1 res i a"
  have "ac_lock ?a = None" "ac_calls ?a = AList.delete i (ac_calls a)" "ac_session ?a = ac_session a"
    "ac_sessions ?a = ac_sessions a" "ac_next ?a = ac_next a" "ac_credentials ?a = ac_credentials a"
    "ac_users ?a = (if op1 = Connect \<and> res = None then Suc (ac_users a) else ac_users a)"
    by (cases op1; cases res; simp add: leave_lock_def end_call_def)+
  then show ?thesis
    using assms by (auto simp: account_ok_def held_def holder_def slots_ok_def others_wait_def
        account_tokens_def delete_conv' split: if_splits)
qed

lemma held_stop_session:
  assumes "held i (Some n) a" "ac_session a = None" "ac_users a = 0" "op1 = Connect \<longrightarrow> res \<noteq> None"
  shows "account_ok (stop_session op1 n res i loop a)"
proof -
  have "held i None (in_session n Stop a)"
    using assms slots_stop [of n a] by (simp add: held_def others_wait_def)
  then show ?thesis unfolding stop_session_def by (rule held_put) (use assms in simp_all)
qed

lemma held_stop_account:
  assumes "held i (Some n) a" "ac_users a = 0" "op1 = Connect \<longrightarrow> res \<noteq> None"
  shows "account_ok (stop_account op1 n res i loop a)"
proof -
  let ?b = "in_session n (Remove_event_handler symbol_changed_class symbol_changed_handler) (a\<lparr>ac_session := None\<rparr>)"
  have b: "held i (Some n) ?b" by (rule held_in_session) (use assms in simp_all)
  have c: "held i (Some n) (?b\<lparr>ac_reload_tasks := [], ac_retry := None\<rparr>)" using b by simp
  show ?thesis
    using held_stop_session [OF c] held_put [OF c, of "Stop_tasks op1 n res" loop] assms(2,3)
    by (simp add: stop_account_def Let_def)
qed

lemma held_raises:
  assumes "held i built a" "ac_users a = 0"
  shows "account_ok (bring_up_raises e built i loop a)"
proof (cases built)
  case None
  have "held i (ac_session (a\<lparr>ac_session := None\<rparr>)) (a\<lparr>ac_session := None\<rparr>)" using assms None by simp
  then have "account_ok (leave_lock Connect (Some e) i (a\<lparr>ac_session := None\<rparr>))"
    by (rule held_leave) (use assms in simp)
  then show ?thesis using None by (simp add: bring_up_raises_def)
next
  case (Some n)
  then show ?thesis using assms held_stop_account by (simp add: bring_up_raises_def)
qed

lemma held_up:
  assumes "held i (Some n) a" "ac_session a = Some n" "ac_users a = 0"
  shows "account_ok (up n i a)"
  unfolding up_def by (rule held_leave) (use assms in simp_all)

lemma held_session_of: "held i (Some n) a \<Longrightarrow> \<exists>s. session_of n a = Some s"
  by (auto simp: held_def slots_ok_def session_of_def)

lemma held_ask_reference:
  assumes "held i (Some n) a" "ac_session a = Some n" "ac_users a = 0"
    and "stage_ok (Some st) 0 (Some n)" "running (Some st) (Some n) = Some n"
  shows "account_ok (ask_reference n st i loop a)"
proof -
  obtain s where s: "session_of n a = Some s" using held_session_of [OF assms(1)] by blast
  have h: "held i (Some n) (in_session n (Request i) a)" by (rule held_in_session) (use assms in simp_all)
  show ?thesis
    using held_put [OF h, of st loop] held_raises [OF h, of "Not_ready (ss_state s)" loop] assms s
    by (simp add: ask_reference_def Let_def)
qed

lemma held_session_up:
  assumes "held i (Some n) a" "ac_session a = Some n" "ac_users a = 0"
  shows "account_ok (session_up n i loop a)"
  using held_ask_reference [OF assms, of "Up_trader n" loop] held_up [OF assms] by (simp add: session_up_def)

lemma held_wait_ready:
  assumes "held i (Some n) a" "account_ok (go a)"
    and "\<And>k. stage_ok (Some (stage k)) (ac_users a) (ac_session a)"
    and "\<And>k. running (Some (stage k)) (ac_session a) = Some n"
  shows "account_ok (wait_ready stage go n i loop a)"
proof -
  obtain s where "session_of n a = Some s" using held_session_of [OF assms(1)] by blast
  then show ?thesis using assms held_put [OF assms(1)] by (simp add: wait_ready_def)
qed

text \<open>The session built is new, runs, and has the account's tokens.\<close>

lemma in_session_tokens:
  assumes "map_of (ac_sessions a) n = Some sl" "tokens_of (sl_session sl) = account_tokens a"
  obtains sl' where "map_of (ac_sessions (in_session n ev a)) n = Some sl'"
    "sl_session sl' = sess_step (sl_config sl) ev (sl_session sl)" "sl_config sl' = sl_config sl"
    "tokens_of (sl_session sl') = account_tokens (in_session n ev a)"
    "\<And>m. m \<noteq> n \<Longrightarrow> map_of (ac_sessions (in_session n ev a)) m = map_of (ac_sessions a) m"
  using that [of "sl\<lparr>sl_session := sess_step (sl_config sl) ev (sl_session sl)\<rparr>"]
    in_session_slots [OF assms(1), of ev] assms(2) step_tokens [of "sl_config sl" ev "sl_session sl"]
  by simp

lemma held_started:
  fixes account_id host loop
  assumes "held i None a"
  defines "n \<equiv> ac_next a" and "b \<equiv> snd (build_session account_id host loop a)"
  shows "held i (Some n) (in_session n Start
     (in_session n (Add_event_handler symbol_changed_class symbol_changed_handler) (b\<lparr>ac_session := Some n\<rparr>)))"
    (is "held i (Some n) (in_session n Start ?c)")
proof -
  let ?s = "new_session (access_token (ac_credentials a)) (refresh_token (ac_credentials a))
      (token_expires_at (ac_credentials a))"
  obtain sl where sl: "map_of (ac_sessions (b\<lparr>ac_session := Some n\<rparr>)) n = Some sl" "sl_session sl = ?s"
    by (simp add: b_def n_def build_session_def Let_def put_session_def update_conv')
  have b: "ac_lock b = ac_lock a" "ac_calls b = ac_calls a" "ac_next b = Suc n" "account_tokens b = account_tokens a"
    "\<And>m. m \<noteq> n \<Longrightarrow> map_of (ac_sessions b) m = map_of (ac_sessions a) m"
    by (simp_all add: b_def n_def build_session_def Let_def put_session_def account_tokens_def update_conv')
  have t: "tokens_of (sl_session sl) = account_tokens (b\<lparr>ac_session := Some n\<rparr>)"
    using sl(2) b(4) by (simp add: tokens_of_def new_session_def account_tokens_def)
  obtain sl1 where sl1: "map_of (ac_sessions ?c) n = Some sl1"
    "sl_session sl1 = sess_step (sl_config sl) (Add_event_handler symbol_changed_class symbol_changed_handler) (sl_session sl)"
    "sl_config sl1 = sl_config sl" "tokens_of (sl_session sl1) = account_tokens ?c"
    "\<And>m. m \<noteq> n \<Longrightarrow> map_of (ac_sessions ?c) m = map_of (ac_sessions (b\<lparr>ac_session := Some n\<rparr>)) m"
    using in_session_tokens [OF sl(1) t] by metis
  obtain sl2 where sl2: "map_of (ac_sessions (in_session n Start ?c)) n = Some sl2"
    "sl_session sl2 = sess_step (sl_config sl1) Start (sl_session sl1)"
    "tokens_of (sl_session sl2) = account_tokens (in_session n Start ?c)"
    "\<And>m. m \<noteq> n \<Longrightarrow> map_of (ac_sessions (in_session n Start ?c)) m = map_of (ac_sessions ?c) m"
    using in_session_tokens [OF sl1(1,4)] by metis
  have "runs (sl_session sl2)" using sl2(2) sl1(2,3) sl(2) runs_started by simp
  moreover have "m < Suc n \<and> stopped (sl_session sl3)"
    if "map_of (ac_sessions (in_session n Start ?c)) m = Some sl3" "m \<noteq> n" for m sl3
    using that assms(1) sl2(4) sl1(5) b(5)
    by (fastforce simp: held_def slots_ok_def slot_ok_def n_def)
  ultimately have "slots_ok (Some n) (in_session n Start ?c)"
    using sl2(1,3) b(3) by (auto simp: slots_ok_def slot_ok_def)
  then show ?thesis
    using assms(1) b by (auto simp: held_def others_wait_def n_def less_SucI)
qed

lemma held_start_session:
  assumes "held i None a" "ac_users a = 0"
  shows "account_ok (start_session account_id host i loop a)"
proof -
  let ?n = "ac_next a" and ?b = "snd (build_session account_id host loop a)"
  let ?c = "in_session ?n Start
     (in_session ?n (Add_event_handler symbol_changed_class symbol_changed_handler) (?b\<lparr>ac_session := Some ?n\<rparr>))"
  have c: "held i (Some ?n) ?c" by (rule held_started [OF assms(1)])
  have build: "build_session account_id host loop a = (?n, ?b)" "ac_users ?b = ac_users a"
    by (simp_all add: build_session_def Let_def put_session_def)
  have "account_ok (wait_ready (Up_wait ?n) (session_up ?n i loop) ?n i loop ?c)"
    by (rule held_wait_ready [OF c]) (use assms build held_session_up [OF c] in simp_all)
  then show ?thesis unfolding start_session_def by (subst build(1)) simp
qed

lemma held_resolved:
  assumes "held i None a" "ac_users a = 0"
  shows "account_ok (account_resolved accounts i loop a)"
  using held_raises [OF assms] held_start_session [of i "a\<lparr>ac_account_id := x\<rparr>" for x] assms
  by (auto simp: account_resolved_def split: sum.split)
subsection \<open>Every step\<close>

text \<open>A call at a stage under the lock holds it, and the lock's stage is its own.\<close>

lemma the_holder:
  assumes "account_ok a" "map_of (ac_calls a) i = Some (loop, st)" "\<not> waits_lock st"
  shows "held i (running (Some st) (ac_session a)) a" "stage_ok (Some st) (ac_users a) (ac_session a)"
proof -
  have "ac_lock a = Some i" using assms by (auto simp: account_ok_def others_wait_def)
  then show "held i (running (Some st) (ac_session a)) a" "stage_ok (Some st) (ac_users a) (ac_session a)"
    using assms by (auto simp: account_ok_def held_def holder_def others_wait_def)
qed

lemma free_lock:
  assumes "account_ok a" "ac_lock a = None"
  shows "slots_ok (ac_session a) a" "others_wait None a" "0 < ac_users a \<longleftrightarrow> ac_session a \<noteq> None"
  using assms by (auto simp: account_ok_def holder_def)

lemma ask_accounts_ok:
  assumes "held i None a" "ac_users a = 0" "ac_session a = None" "stage_ok (Some st) 0 None"
    "running (Some st) None = None"
  shows "account_ok (ask_accounts st i loop a)"
  unfolding ask_accounts_def by (rule held_put) (use assms in simp_all)

lemma close_pre_ok:
  assumes "held i None a" "ac_users a = 0" "ac_session a = None"
  shows "account_ok (close_pre r i loop a)"
  unfolding close_pre_def by (rule held_put) (use assms in simp_all)

lemma held_no_session_told:
  assumes "held i None a"
  shows "held i None (on_tokens_refreshed pair e a)"
  using assms tokens_refreshed_same [of a pair e]
  by (auto simp: held_def slots_ok_def slot_ok_def others_wait_def the_same_def)

lemma refreshed_ok:
  assumes "held i None a" "ac_users a = 0" "ac_session a = None"
  shows "account_ok (refreshed pair now i loop a)"
  unfolding refreshed_def
  by (rule ask_accounts_ok)
    (use assms held_no_session_told tokens_refreshed_same [of a pair] in \<open>simp_all add: the_same_def\<close>)

lemma pre_ok:
  assumes "held i None a" "ac_users a = 0" "ac_session a = None"
  shows "account_ok (list_refused code i loop a)" "account_ok (refresh_failed e now late i loop a)"
    "account_ok (put_call i loop Pre_app_auth a)"
proof -
  note put = held_put [OF assms(1), of _ loop]
  show "account_ok (put_call i loop Pre_app_auth a)" using put assms by simp
  show "account_ok (list_refused code i loop a)"
    using put close_pre_ok [OF assms] assms by (simp add: list_refused_def)
  show "account_ok (refresh_failed e now late i loop a)"
    using put close_pre_ok [OF assms] refreshed_ok [OF assms] assms
    by (auto simp: refresh_failed_def split: conn_error.splits option.splits)
qed

lemma reference_known_ok:
  assumes "held i (Some n) a" "ac_session a = Some n" "ac_users a = 0"
  shows "account_ok (trader_known n t i loop a)" "account_ok (assets_known n t assets i loop a)"
    "account_ok (symbols_known n t by_id symbols i a)"
  using held_raises [OF assms(1,3)] held_ask_reference [OF assms] assms
    held_up [of i n "a\<lparr>ac_reference := Some (t, by_id, by_key symbolName symbols)\<rparr>"]
  by (simp_all add: trader_known_def assets_known_def symbols_known_def Let_def)

lemma answered_account_ok:
  assumes "account_ok a" "map_of (ac_calls a) i = Some (loop, st)"
  shows "account_ok (call_answered now answer i loop st a)"
proof (cases "waits_lock st")
  case True
  then show ?thesis using assms by (cases st) (simp_all add: call_answered_def)
next
  case False
  note h = the_holder [OF assms False]
  note pre = close_pre_ok pre_ok refreshed_ok ask_accounts_ok held_raises held_resolved reference_known_ok
  show ?thesis
  proof (cases st)
    case Pre_connecting
    then show ?thesis using h assms(1) by (cases answer) (auto simp: call_answered_def intro!: pre)
  next
    case Pre_app_auth
    then show ?thesis
      using h assms(1)
      by (cases answer) (auto simp: call_answered_def intro!: pre split: conn_error.splits)
  next
    case Pre_listing
    then show ?thesis
      using h assms(1)
      by (cases answer) (auto simp: call_answered_def intro!: pre split: conn_error.splits)
  next
    case Pre_listing_again
    then show ?thesis
      using h assms(1)
      by (cases answer) (auto simp: call_answered_def intro!: pre split: conn_error.splits)
  next
    case (Pre_closing r)
    then show ?thesis
      using h assms(1)
      by (cases answer; cases r) (auto simp: call_answered_def intro!: pre)
  next
    case (Stop_session op1 n r)
    have "account_ok (leave_lock op1 r i (in_session n Stop_over a))"
      by (rule held_leave) (use h Stop_session held_in_session in auto)
    then show ?thesis
      using Stop_session assms(1) by (cases answer) (simp_all add: call_answered_def)
  next
    case (Stop_tasks op1 n r)
    then show ?thesis
      using h assms(1) held_stop_session [of i n a]
      by (cases answer) (auto simp: call_answered_def)
  qed (use h assms in \<open>cases answer; auto simp: call_answered_def intro!: pre\<close>)+
qed
lemma late_reply_account_ok:
  assumes "account_ok a" "map_of (ac_calls a) i = Some (loop, st)"
  shows "account_ok (late_reply now late i loop st a)"
proof (cases "waits_lock st")
  case False
  note h = the_holder [OF assms False]
  show ?thesis
    using h assms(1) held_put [of i None a] close_pre_ok [of i a] refreshed_ok [of i a]
    by (cases st) (auto simp: late_reply_def split: option.splits)
qed (use assms in \<open>cases st; simp add: late_reply_def\<close>)

lemma joined_ok:
  assumes "held i (Some n) a" "ac_session a = Some n" "0 < ac_users a"
  shows "account_ok (leave_lock Connect r i a)"
    "account_ok (wait_ready (Joining n) (leave_lock Connect None i) n i loop a)"
proof -
  show leave: "account_ok (leave_lock Connect r i a)" for r by (rule held_leave) (use assms in simp_all)
  show "account_ok (wait_ready (Joining n) (leave_lock Connect None i) n i loop a)"
    by (rule held_wait_ready [OF assms(1)]) (use leave assms in simp_all)
qed

lemma up_wait_ok:
  assumes "held i (Some n) a" "ac_session a = Some n" "ac_users a = 0"
  shows "account_ok (wait_ready (Up_wait n) (session_up n i loop) n i loop a)"
  by (rule held_wait_ready [OF assms(1)]) (use held_session_up [OF assms] assms in simp_all)

lemma waiting_ok:
  assumes "account_ok a" "map_of (ac_calls a) i = Some (loop, st)"
  shows "account_ok (ready_wakes i loop st a)" "account_ok (poll_over i loop st a)"
proof -
  have join: "st = Joining n k \<Longrightarrow> held i (Some n) a \<and> ac_session a = Some n \<and> 0 < ac_users a"
    and up: "st = Up_wait n k \<Longrightarrow> held i (Some n) a \<and> ac_session a = Some n \<and> ac_users a = 0" for n k
    using the_holder [OF assms] by auto
  show "account_ok (ready_wakes i loop st a)"
    using join up assms(1) held_session_up joined_ok(1)
    by (cases st) (auto simp: ready_wakes_def Let_def)
  show "account_ok (poll_over i loop st a)"
    using join up assms(1) joined_ok up_wait_ok held_raises
    by (cases st) (auto simp: poll_over_def split: option.split)
qed

lemma stage_cases_ok:
  assumes "account_ok a" "map_of (ac_calls a) i = Some (loop, st)" "\<not> waits_lock st"
  shows "stage_ok (Some st) (ac_users a) (ac_session a) \<and> held i (running (Some st) (ac_session a)) a"
  using the_holder [OF assms] by simp

lemma deadline_account_ok:
  assumes "account_ok a" "map_of (ac_calls a) i = Some (loop, st)"
  shows "account_ok (deadline_over i loop st a)"
  using the_holder [OF assms] assms(1)
  by (cases st) (auto simp: deadline_over_def intro!: held_raises joined_ok(1) close_pre_ok split: sum.split)

lemma dequeued_ok: "account_ok a \<Longrightarrow> map_of (ac_calls a) i = Some (loop, At_lock op1) \<Longrightarrow>
    account_ok (end_call i op1 r (a\<lparr>ac_queue := q\<rparr>))"
  by (auto simp: account_ok_def end_call_def holder_def slots_ok_def others_wait_def account_tokens_def
      delete_conv' split: option.splits if_splits)

lemma cancelled_account_ok:
  assumes "account_ok a" "map_of (ac_calls a) i = Some (loop, st)"
  shows "account_ok (cancelled i loop st a)"
proof (cases st)
  case (Stop_session op1 n r)
  have "account_ok (leave_lock op1 (Some Call_cancelled) i (in_session n Stop_over a))"
    by (rule held_leave) (use the_holder [OF assms] Stop_session held_in_session in auto)
  then show ?thesis using Stop_session by (simp add: cancelled_def)
next
  case (At_lock op1)
  then show ?thesis using dequeued_ok assms by (simp add: cancelled_def)
qed (use the_holder [OF assms] in \<open>auto simp: cancelled_def intro!: held_raises joined_ok(1) close_pre_ok held_stop_session\<close>)

lemma in_session_account_ok:
  assumes "account_ok a" "ev \<noteq> Start" "ev \<noteq> Stop"
  shows "account_ok (in_session n ev a)"
  using assms slots_in_session [OF _ assms(2,3)]
  by (simp add: account_ok_def holder_def others_wait_def cong: option.case_cong)

lemma account_frame [simp]:
  "account_ok (a\<lparr>ac_retry := x1\<rparr>) = account_ok a" "account_ok (a\<lparr>ac_reload_tasks := x2\<rparr>) = account_ok a"
  "account_ok (a\<lparr>ac_token_listeners := x3\<rparr>) = account_ok a"
  "account_ok (a\<lparr>ac_reload_listeners := x4\<rparr>) = account_ok a"
  "account_ok (a\<lparr>ac_provider := x5\<rparr>) = account_ok a" "account_ok (ac_noted x a) = account_ok a"
  "account_ok (a\<lparr>ac_last_connect_error := x6\<rparr>) = account_ok a"
  "account_ok (a\<lparr>ac_queue := x7\<rparr>) = account_ok a" "account_ok (a\<lparr>ac_retired := x8\<rparr>) = account_ok a"
  "account_ok (a\<lparr>ac_lock_loop := x9\<rparr>) = account_ok a"
  by (simp_all add: account_ok_def holder_def slots_ok_def others_wait_def account_tokens_def
      cong: option.case_cong)

lemma next_account_ok: "account_ok a \<Longrightarrow> account_ok (a\<lparr>ac_next := Suc (ac_next a)\<rparr>)"
  unfolding account_ok_def holder_def slots_ok_def others_wait_def account_tokens_def
  by (simp cong: option.case_cong) (metis less_SucI)

lemma tasks_ok:
  assumes "account_ok a"
  shows "account_ok (retry_turn keys a)" "account_ok (retry_over a)" "account_ok (reload_starts a)"
    "account_ok (reload_over t reloaded a)"
proof -
  have "account_ok (fold (\<lambda>l. ac_noted (Reload_told l t)) ls b) = account_ok b" for ls b
    by (induction ls arbitrary: b) simp_all
  then show "account_ok (reload_over t reloaded a)" using assms by (simp add: reload_over_def Let_def)
next
  have "account_ok (a\<lparr>ac_reload_tasks := x, ac_next := Suc (ac_next a)\<rparr>)" for x
    using next_account_ok [of "a\<lparr>ac_reload_tasks := x\<rparr>"] assms by simp
  then show "account_ok (reload_starts a)" using assms by (simp add: reload_starts_def split: option.split)
qed (use assms in_session_account_ok [of "a\<lparr>ac_retry := x\<rparr>" for x] in
    \<open>auto simp: retry_turn_def retry_over_def Let_def split: option.split\<close>)

lemma under_lock_ok:
  assumes "slots_ok (ac_session a) a" "others_wait (Some i) a" "0 < ac_users a \<longleftrightarrow> ac_session a \<noteq> None"
    and "i < ac_next a"
  shows "account_ok (under_lock op1 i loop a)"
proof -
  let ?a = "a\<lparr>ac_lock := Some i\<rparr>"
  have h: "held i (ac_session a) ?a"
    using assms by (simp add: held_def slots_ok_def others_wait_def account_tokens_def)
  show ?thesis
  proof (cases op1)
    case Connect
    have "account_ok (bring_up_account i loop ?a)" if "ac_session a = None"
      unfolding bring_up_account_def by (rule held_put) (use h that assms in simp_all)
    moreover have "account_ok (join_session i loop ?a)" if "ac_session a = Some n" for n
      using joined_ok [of i n ?a] h that assms(3) held_session_of [of i n ?a]
      by (auto simp: join_session_def)
    ultimately show ?thesis using Connect assms(3) by (cases "ac_session a") (auto simp: under_lock_def)
  next
    case Disconnect_user
    let ?b = "?a\<lparr>ac_users := ac_users a - 1\<rparr>"
    have "account_ok (leave_lock Disconnect_user None i ?a)" by (rule held_leave) (use h assms(3) in simp_all)
    moreover have "account_ok (leave_lock Disconnect_user None i ?b)" if "1 < ac_users a"
      by (rule held_leave) (use h assms(3) that in simp_all)
    moreover have "account_ok (stop_account Disconnect_user n None i loop ?b)"
      if "ac_session a = Some n" "ac_users a = 1" for n
      by (rule held_stop_account) (use h that in simp_all)
    ultimately show ?thesis
      using Disconnect_user assms(3)
      by (cases "ac_session a") (auto simp: under_lock_def Let_def)
  qed
qed

lemma take_lifecycle_lock_ok:
  assumes "account_ok a" "map_of (ac_calls a) i = None" "i < ac_next a"
  shows "account_ok (take_lifecycle_lock op1 i loop a)"
proof -
  have "account_ok (under_lock op1 i loop a)" if "ac_lock a = None"
    by (rule under_lock_ok) (use free_lock [OF assms(1) that] assms in \<open>auto simp: others_wait_def\<close>)
  moreover have "account_ok (put_call i loop (At_lock op1) (a\<lparr>ac_lock_loop := x, ac_queue := q\<rparr>))" for x q
    using assms by (auto simp: account_ok_def put_call_def holder_def slots_ok_def others_wait_def
        account_tokens_def update_conv' split: option.splits)
  moreover have "account_ok (end_call i op1 r a)" for r
    using assms by (auto simp: account_ok_def end_call_def holder_def slots_ok_def others_wait_def
        account_tokens_def delete_conv' split: option.splits if_splits)
  ultimately show ?thesis by (simp add: take_lifecycle_lock_def)
qed

lemma start_call_ok:
  assumes "account_ok a"
  shows "account_ok (begin_call ended_loops loop op1 a)"
proof -
  let ?i = "ac_next a" and ?a = "a\<lparr>ac_next := Suc (ac_next a)\<rparr>"
  have a: "account_ok ?a" by (rule next_account_ok [OF assms])
  have new: "map_of (ac_calls ?a) ?i = None"
    using assms by (cases "map_of (ac_calls a) (ac_next a)") (auto simp: account_ok_def others_wait_def)
  have "account_ok (end_call ?i Connect r (?a\<lparr>ac_last_connect_error := e\<rparr>))" for r e
    using a new by (auto simp: account_ok_def end_call_def holder_def slots_ok_def others_wait_def
        account_tokens_def delete_conv' split: option.splits if_splits)
  then show ?thesis
    using take_lifecycle_lock_ok [OF a new]
    by (auto simp: begin_call_def Let_def split: account_op.split option.split)
qed

lemma lock_wakes_ok:
  assumes "account_ok a"
  shows "account_ok (lock_wakes ended_loops a)"
proof -
  have "account_ok (under_lock op1 i loop (a\<lparr>ac_queue := q\<rparr>))"
    if "ac_lock a = None" "map_of (ac_calls a) i = Some (loop, At_lock op1)" for i loop op1 q
    by (rule under_lock_ok)
      (use free_lock [OF assms that(1)] that in
        \<open>auto simp: others_wait_def slots_ok_def account_tokens_def\<close>)
  then show ?thesis
    using assms by (auto simp: lock_wakes_def split: list.split option.split call_stage.split)
qed

lemma account_step_ok:
  assumes "account_ok a"
  shows "account_ok (account_step ended_loops ev a)"
proof (cases ev)
  case (In_session n ev1)
  then show ?thesis
    using assms in_session_account_ok [OF assms, of ev1]
    by (cases ev1) (auto simp: account_step_def split: option.split)
qed (use assms start_call_ok lock_wakes_ok answered_account_ok late_reply_account_ok waiting_ok deadline_account_ok
    cancelled_account_ok tasks_ok in
    \<open>auto simp: account_step_def on_call_def add_token_listener_def add_reload_listener_def
      remove_reload_listener_def get_instrument_provider_def split: option.split\<close>)

lemma run_account_ok: "account_ok a \<Longrightarrow> account_ok (run_account evs a)"
  unfolding run_account_def by (induction evs arbitrary: a) (auto simp: account_step_ok)

lemma reached_account_ok: "account_ok (run_account evs (new_account se credentials))"
  by (rule run_account_ok [OF account_ok_new])

end
