(* ===== verification/Account_Promises.thy ===== *)
theory Account_Promises
  imports Account_Safety
begin

text \<open>
  What the account client promises in every run: one session at a time, running while it has users and
  stopped when it has none; each session built for the one account with the trader login; the newest
  tokens with the session, the account and every listener. Each promise has a run as its witness.
\<close>

subsection \<open>Where sessions come from\<close>

text \<open>\<open>L\<close> holds the account lists answered so far.\<close>

definition read_ok :: "account_settings \<Rightarrow> AccountRecord list set \<Rightarrow> account \<Rightarrow> bool" where
  "read_ok se L a \<longleftrightarrow>
     ac_settings a = se \<and>
     (\<forall>i loop accounts. map_of (ac_calls a) i = Some (loop, Pre_closing (Inr accounts)) \<longrightarrow> accounts \<in> L) \<and>
     (\<forall>n sl. map_of (ac_sessions a) n = Some sl \<longrightarrow>
        (\<exists>accounts \<in> L. resolve_account se accounts =
           Inr (sc_account_id (sl_config sl), sl_host sl)))"

lemma read_ok_frame [simp]:
  "read_ok se L (a\<lparr>ac_account_id := x1\<rparr>) = read_ok se L a" "read_ok se L (a\<lparr>ac_session := x2\<rparr>) = read_ok se L a"
  "read_ok se L (a\<lparr>ac_last_connect_error := x3\<rparr>) = read_ok se L a" "read_ok se L (a\<lparr>ac_users := x4\<rparr>) = read_ok se L a"
  "read_ok se L (a\<lparr>ac_reload_tasks := x5\<rparr>) = read_ok se L a" "read_ok se L (a\<lparr>ac_retry := x6\<rparr>) = read_ok se L a"
  "read_ok se L (a\<lparr>ac_reference := x7\<rparr>) = read_ok se L a" "read_ok se L (a\<lparr>ac_session_loop := x8\<rparr>) = read_ok se L a"
  "read_ok se L (a\<lparr>ac_queue := x9\<rparr>) = read_ok se L a" "read_ok se L (ac_noted x a) = read_ok se L a"
  "read_ok se L (a\<lparr>ac_lock := x10\<rparr>) = read_ok se L a" "read_ok se L (a\<lparr>ac_lock_loop := x11\<rparr>) = read_ok se L a"
  "read_ok se L (a\<lparr>ac_next := x12\<rparr>) = read_ok se L a" "read_ok se L (a\<lparr>ac_provider := x13\<rparr>) = read_ok se L a"
  "read_ok se L (a\<lparr>ac_token_listeners := x14\<rparr>) = read_ok se L a"
  "read_ok se L (a\<lparr>ac_reload_listeners := x15\<rparr>) = read_ok se L a"
  by (simp_all add: read_ok_def)

lemma read_put: "read_ok se L a \<Longrightarrow> (\<And>accounts. st = Pre_closing (Inr accounts) \<Longrightarrow> accounts \<in> L) \<Longrightarrow>
    read_ok se L (put_call i loop st a)"
  by (auto simp: read_ok_def put_call_def update_conv')

lemma read_end: "read_ok se L a \<Longrightarrow> read_ok se L (end_call i op1 r a)"
  by (auto simp: read_ok_def end_call_def delete_conv')

lemma read_leave: "read_ok se L a \<Longrightarrow> read_ok se L (leave_lock op1 r i a)"
  by (cases op1; cases r) (simp_all add: leave_lock_def read_end)

lemma read_in_session:
  assumes "read_ok se L a"
  shows "read_ok se L (in_session n ev a)"
proof (cases "map_of (ac_sessions a) n")
  case None
  then show ?thesis using assms by (simp add: in_session_none)
next
  case (Some sl)
  show ?thesis using assms Some by (auto simp: read_ok_def in_session_slots(1) [OF Some])
qed

lemma read_refreshed_tokens: "read_ok se L a \<Longrightarrow> read_ok se L (on_tokens_refreshed pair e a)"
  using tokens_refreshed_same [of a pair e] by (simp add: read_ok_def the_same_def)

lemma read_build:
  assumes "read_ok se L a" "accounts \<in> L" "resolve_account (ac_settings a) accounts = Inr (account_id, host)"
  shows "read_ok se L (snd (build_session account_id host loop a))"
  using assms by (auto simp: read_ok_def build_session_def Let_def put_session_def update_conv')

lemmas read_basic = read_put read_end read_leave read_in_session read_refreshed_tokens

lemma read_stop: "read_ok se L a \<Longrightarrow> read_ok se L (stop_account op1 n r i loop a)"
  "read_ok se L a \<Longrightarrow> read_ok se L (stop_session op1 n r i loop a)"
  by (auto simp: stop_account_def stop_session_def Let_def intro!: read_basic)

lemma read_raises: "read_ok se L a \<Longrightarrow> read_ok se L (bring_up_raises e built i loop a)"
  by (auto simp: bring_up_raises_def intro!: read_basic read_stop split: option.split)

lemma read_up: "read_ok se L a \<Longrightarrow> read_ok se L (up n i a)"
  by (simp add: up_def read_basic)

lemma read_ask: "read_ok se L a \<Longrightarrow> (\<And>r. st \<noteq> Pre_closing r) \<Longrightarrow> read_ok se L (ask_reference n st i loop a)"
  by (auto simp: ask_reference_def Let_def intro!: read_basic read_raises split: option.split)

lemma read_session_up: "read_ok se L a \<Longrightarrow> read_ok se L (session_up n i loop a)"
  by (auto simp: session_up_def intro!: read_ask read_up)

lemma read_wait_ready:
  "read_ok se L a \<Longrightarrow> read_ok se L (go a) \<Longrightarrow> (\<And>k r. stage k \<noteq> Pre_closing r) \<Longrightarrow> read_ok se L (wait_ready stage go n i loop a)"
  by (auto simp: wait_ready_def intro!: read_basic split: option.split)

lemma read_start:
  assumes "read_ok se L a" "accounts \<in> L" "resolve_account (ac_settings a) accounts = Inr (account_id, host)"
  shows "read_ok se L (start_session account_id host i loop a)"
  using read_build [OF assms, of loop]
  by (auto simp: start_session_def intro!: read_wait_ready read_session_up read_in_session split: prod.splits)

lemma read_resolved:
  assumes "read_ok se L a" "accounts \<in> L"
  shows "read_ok se L (account_resolved accounts i loop a)"
  using assms read_start [of se L "a\<lparr>ac_account_id := x\<rparr>" accounts for x]
  by (auto simp: account_resolved_def intro!: read_raises split: sum.split)

lemma read_pre:
  assumes "read_ok se L a"
  shows "read_ok se L (close_pre (Inl e) i loop a)" "read_ok se L (refreshed pair now i loop a)"
    "read_ok se L (list_refused code i loop a)" "read_ok se L (refresh_failed e' now late i loop a)"
    "(\<And>r. st \<noteq> Pre_closing r) \<Longrightarrow> read_ok se L (ask_accounts st i loop a)"
  using assms
  by (auto simp: close_pre_def refreshed_def ask_accounts_def list_refused_def refresh_failed_def
      intro!: read_basic split: conn_error.splits option.splits)

lemma read_known:
  assumes "read_ok se L a"
  shows "read_ok se L (trader_known n t i loop a)" "read_ok se L (assets_known n t assets i loop a)"
    "read_ok se L (symbols_known n t by_id symbols i a)"
  using assms
  by (auto simp: trader_known_def assets_known_def symbols_known_def Let_def
      intro!: read_raises read_ask read_up)

lemma read_answered:
  assumes "read_ok se L a" "map_of (ac_calls a) i = Some (loop, st)"
    and "\<And>accounts. answer = Accounts accounts \<Longrightarrow> accounts \<in> L"
  shows "read_ok se L (call_answered now answer i loop st a)"
proof -
  have closing: "accounts \<in> L" if "st = Pre_closing (Inr accounts)" for accounts
    using assms(1,2) that by (auto simp: read_ok_def)
  have accounts: "read_ok se L (close_pre (Inr accounts) i loop a)" if "answer = Accounts accounts" for accounts
    unfolding close_pre_def by (rule read_put) (use assms(1,3) that in simp_all)
  note pre = read_pre read_resolved read_raises read_known read_stop read_leave read_in_session
  show ?thesis
  proof (cases answer)
    case (Raised e)
    then show ?thesis
      using assms(1) by (cases st) (auto simp: call_answered_def intro!: pre split: conn_error.splits sum.splits)
  next
    case Done
    then show ?thesis
      using assms(1) closing
      by (cases st) (auto simp: call_answered_def intro!: pre read_put split: sum.splits)
  qed (use assms(1) accounts in \<open>cases st; auto simp: call_answered_def intro!: pre split: sum.splits\<close>)+
qed
lemma read_waits:
  assumes "read_ok se L a" "map_of (ac_calls a) i = Some (loop, st)"
  shows "read_ok se L (late_reply now late i loop st a)" "read_ok se L (ready_wakes i loop st a)"
    "read_ok se L (poll_over i loop st a)" "read_ok se L (deadline_over i loop st a)"
    "read_ok se L (cancelled i loop st a)"
proof -
  note intros = read_pre read_raises read_leave read_put read_session_up read_wait_ready read_stop
    read_end read_in_session
  show "read_ok se L (late_reply now late i loop st a)"
    using assms(1) by (cases st) (auto simp: late_reply_def intro!: intros split: option.splits)
  show "read_ok se L (ready_wakes i loop st a)"
    using assms(1) by (cases st) (auto simp: ready_wakes_def Let_def intro!: intros)
  show "read_ok se L (poll_over i loop st a)"
    using assms(1) by (cases st) (auto simp: poll_over_def intro!: intros split: option.split)
  show "read_ok se L (deadline_over i loop st a)"
    using assms(1) by (cases st) (auto simp: deadline_over_def intro!: intros split: sum.split)
  show "read_ok se L (cancelled i loop st a)"
    using assms(1) by (cases st) (auto simp: cancelled_def intro!: intros)
qed

lemma read_under_lock:
  assumes "read_ok se L a"
  shows "read_ok se L (under_lock op1 i loop a)"
proof -
  have join: "read_ok se L (join_session i loop b)" if "read_ok se L b" for b
    using that by (auto simp: join_session_def intro!: read_leave read_wait_ready split: option.split)
  show ?thesis
    using assms
    by (auto simp: under_lock_def Let_def bring_up_account_def intro!: join read_leave read_put read_stop
        split: account_op.split option.split)
qed

lemma read_calls:
  assumes "read_ok se L a"
  shows "read_ok se L (begin_call ended_loops loop op1 a)" "read_ok se L (lock_wakes ended_loops a)"
  using assms
  by (auto simp: begin_call_def take_lifecycle_lock_def lock_wakes_def Let_def
      intro!: read_under_lock read_end read_put split: account_op.split option.split list.split call_stage.split)

lemma read_tasks:
  assumes "read_ok se L a"
  shows "read_ok se L (retry_turn keys a)" "read_ok se L (retry_over a)" "read_ok se L (reload_starts a)"
    "read_ok se L (reload_over t reloaded a)"
proof -
  have "read_ok se L (fold (\<lambda>l. ac_noted (Reload_told l t)) ls b) = read_ok se L b" for ls b
    by (induction ls arbitrary: b) simp_all
  then show "read_ok se L (reload_over t reloaded a)" using assms by (simp add: reload_over_def Let_def)
qed (use assms in \<open>auto simp: retry_turn_def retry_over_def reload_starts_def Let_def
      intro!: read_in_session split: option.split\<close>)

definition lists_answered :: "account_run \<Rightarrow> AccountRecord list set" where
  "lists_answered evs = {accounts. \<exists>ended_loops i now. (ended_loops, Answer i now (Accounts accounts)) \<in> set evs}"

lemma read_step:
  assumes "read_ok se L a" "\<And>i now accounts. ev = Answer i now (Accounts accounts) \<Longrightarrow> accounts \<in> L"
  shows "read_ok se L (account_step ended_loops ev a)"
  using assms read_answered [OF assms(1)] read_waits [OF assms(1)] read_calls [OF assms(1)]
    read_tasks [OF assms(1)]
  by (cases ev)
    (auto simp: account_step_def on_call_def add_token_listener_def add_reload_listener_def
      remove_reload_listener_def get_instrument_provider_def intro!: read_in_session split: option.split)

lemma read_run:
  assumes "read_ok se L a" "lists_answered evs \<subseteq> L"
  shows "read_ok se L (run_account evs a)"
  using assms
proof (induction evs arbitrary: a)
  case (Cons e evs)
  obtain ended_loops ev where e: "e = (ended_loops, ev)" by (rule prod.exhaust)
  have "read_ok se L (account_step ended_loops ev a)"
    by (rule read_step [OF Cons.prems(1)]) (use Cons.prems(2) e in \<open>auto simp: lists_answered_def\<close>)
  moreover have "lists_answered evs \<subseteq> L" using Cons.prems(2) by (auto simp: lists_answered_def)
  ultimately show ?case using Cons.IH e by (simp add: run_account_def)
qed (simp add: run_account_def)

text \<open>
  C23: Every session the client ever builds is for the account it was asked for: a list the venue answered
  has exactly one entry with the trader login, the session addresses that entry's id, and it connects to
  the host of the environment, which for \<open>auto\<close> is the entry's own.
\<close>

lemma session_is_for_the_login:
  assumes "map_of (ac_sessions (run_account evs (new_account se credentials))) n = Some sl"
  shows "\<exists>accounts entry. accounts \<in> lists_answered evs \<and>
    filter (\<lambda>e. trader_login e = Some (se_trader_login se)) accounts = [entry] \<and>
    sc_account_id (sl_config sl) = ctid_trader_account_id entry \<and>
    sl_host sl = (if se_environment se = ''demo'' \<or> se_environment se \<noteq> ''live'' \<and> is_live entry \<noteq> Some True
                  then se_demo_host se else se_live_host se)"
proof -
  have "read_ok se (lists_answered evs) (run_account evs (new_account se credentials))"
    by (rule read_run) (simp_all add: read_ok_def new_account_def)
  then obtain accounts where accounts: "accounts \<in> lists_answered evs"
    "resolve_account se accounts = Inr (sc_account_id (sl_config sl), sl_host sl)"
    using assms unfolding read_ok_def by blast
  then obtain entry where "filter (\<lambda>e. trader_login e = Some (se_trader_login se)) accounts = [entry]"
    by (auto simp: resolve_account_def split: list.splits)
  with accounts show ?thesis
    by (intro exI [of _ accounts] exI [of _ entry]) (auto simp: resolve_account_def account_host_def split: if_splits)
qed

subsection \<open>One session at a time\<close>

definition is_running :: "nat \<Rightarrow> account \<Rightarrow> bool" where
  "is_running n a \<longleftrightarrow> (case session_of n a of None \<Rightarrow> False | Some s \<Rightarrow> ss_supervisor s \<noteq> None)"

lemma running_slot:
  assumes "slots_ok r a"
  shows "is_running n a \<longleftrightarrow> r = Some n"
proof (cases "map_of (ac_sessions a) n")
  case None
  then show ?thesis using assms by (auto simp: is_running_def session_of_def slots_ok_def)
next
  case (Some sl)
  then have "slot_ok (r = Some n) (account_tokens a) sl" using assms unfolding slots_ok_def by blast
  then show ?thesis
    using Some by (auto simp: is_running_def session_of_def slot_ok_def runs_def stopped_def split: if_splits)
qed

text \<open>
  C15: However calls of \<open>connect\<close> and \<open>disconnect\<close> overlap, fail or are cancelled, at most one of the sessions
  ever built runs; while the account has users it is the account's session, and once it has none and no
  call holds the lock, none runs.
\<close>

lemma one_session_at_a_time:
  assumes "a = run_account evs (new_account se credentials)"
  shows "(is_running n a \<and> is_running m a \<longrightarrow> n = m) \<and>
    (0 < ac_users a \<longrightarrow> (\<exists>k. ac_session a = Some k \<and> is_running k a)) \<and>
    (ac_users a = 0 \<and> ac_lock a = None \<longrightarrow> \<not> is_running n a)"
proof -
  have ok: "account_ok a" unfolding assms by (rule reached_account_ok)
  then have r: "is_running k a \<longleftrightarrow> running (holder a) (ac_session a) = Some k" for k
    by (intro running_slot) (simp add: account_ok_def)
  have st: "stage_ok (holder a) (ac_users a) (ac_session a)" using ok by (simp add: account_ok_def)
  have users: "\<exists>k. ac_session a = Some k \<and> running (holder a) (ac_session a) = Some k" if "0 < ac_users a"
  proof (cases "holder a")
    case (Some x)
    then show ?thesis using st that by (cases x) auto
  qed (use st that in auto)
  have idle: "running (holder a) (ac_session a) = None" if "ac_users a = 0" "ac_lock a = None"
    using st that by (simp add: holder_def)
  show ?thesis using r users idle by auto
qed
subsection \<open>Tokens\<close>

text \<open>The pairs the account took, and those it told listener \<open>l\<close>, in order.\<close>

fun taken_notes :: "account_note list \<Rightarrow> (string \<times> string \<times> rat) list" where
  "taken_notes [] = []"
| "taken_notes (Tokens_taken pair e # xs) = (tp_access pair, tp_refresh pair, e) # taken_notes xs"
| "taken_notes (_ # xs) = taken_notes xs"

fun told_notes :: "nat \<Rightarrow> account_note list \<Rightarrow> (string \<times> string \<times> rat) list" where
  "told_notes l [] = []"
| "told_notes l (Listener_told k access refresh e # xs) =
     (if k = l then (access, refresh, e) # told_notes l xs else told_notes l xs)"
| "told_notes l (_ # xs) = told_notes l xs"

lemma notes_append [simp]:
  "taken_notes (xs @ ys) = taken_notes xs @ taken_notes ys"
  "told_notes l (xs @ ys) = told_notes l xs @ told_notes l ys"
  by (induction xs rule: taken_notes.induct) auto

definition after_pair :: "string \<times> string \<times> rat \<Rightarrow> tokens \<Rightarrow> tokens" where
  "after_pair p t = (fst p, Some (fst (snd p)), Some (snd (snd p)))"

text \<open>From one state to a later one: listener \<open>l\<close> is told each pair taken, and the last is the account's.\<close>

definition tells_core :: "nat \<Rightarrow> account \<Rightarrow> account \<Rightarrow> bool" where
  "tells_core l a a' \<longleftrightarrow>
     (distinct (ac_token_listeners a) \<longrightarrow> distinct (ac_token_listeners a')) \<and>
     set (ac_token_listeners a) \<subseteq> set (ac_token_listeners a') \<and>
     ac_settings a' = ac_settings a \<and> client_id (ac_credentials a') = client_id (ac_credentials a) \<and>
     ac_retired a' = ac_retired a \<and>
     (\<exists>xs. ac_log a' = ac_log a @ xs \<and>
        account_tokens a' = fold after_pair (taken_notes xs) (account_tokens a) \<and>
        (l \<in> set (ac_token_listeners a) \<and> distinct (ac_token_listeners a) \<longrightarrow> told_notes l xs = taken_notes xs))"

lemma tells_core_refl: "tells_core l a a"
  by (simp add: tells_core_def)

lemma tells_core_trans:
  assumes "tells_core l a b" "tells_core l b c"
  shows "tells_core l a c"
proof -
  from assms obtain xs ys where x: "ac_log b = ac_log a @ xs" "ac_log c = ac_log b @ ys"
    "account_tokens b = fold after_pair (taken_notes xs) (account_tokens a)"
    "account_tokens c = fold after_pair (taken_notes ys) (account_tokens b)"
    "l \<in> set (ac_token_listeners a) \<and> distinct (ac_token_listeners a) \<longrightarrow> told_notes l xs = taken_notes xs"
    "l \<in> set (ac_token_listeners b) \<and> distinct (ac_token_listeners b) \<longrightarrow> told_notes l ys = taken_notes ys"
    unfolding tells_core_def by blast
  have "distinct (ac_token_listeners a) \<longrightarrow> distinct (ac_token_listeners b)"
    "ac_settings c = ac_settings a \<and> client_id (ac_credentials c) = client_id (ac_credentials a) \<and>
     ac_retired c = ac_retired a"
    "set (ac_token_listeners a) \<subseteq> set (ac_token_listeners b)"
    "distinct (ac_token_listeners b) \<longrightarrow> distinct (ac_token_listeners c)"
    "set (ac_token_listeners b) \<subseteq> set (ac_token_listeners c)"
    using assms by (simp_all add: tells_core_def)
  then show ?thesis
    unfolding tells_core_def using x by (intro conjI exI [of _ "xs @ ys"]) auto
qed

lemma tells_core_frame [simp]:
  "tells_core l a (b\<lparr>ac_account_id := x1\<rparr>) = tells_core l a b" "tells_core l a (b\<lparr>ac_session := x2\<rparr>) = tells_core l a b"
  "tells_core l a (b\<lparr>ac_last_connect_error := x3\<rparr>) = tells_core l a b" "tells_core l a (b\<lparr>ac_users := x4\<rparr>) = tells_core l a b"
  "tells_core l a (b\<lparr>ac_reload_tasks := x5\<rparr>) = tells_core l a b" "tells_core l a (b\<lparr>ac_retry := x6\<rparr>) = tells_core l a b"
  "tells_core l a (b\<lparr>ac_reference := x7\<rparr>) = tells_core l a b" "tells_core l a (b\<lparr>ac_session_loop := x8\<rparr>) = tells_core l a b"
  "tells_core l a (b\<lparr>ac_queue := x9\<rparr>) = tells_core l a b" "tells_core l a (b\<lparr>ac_lock := x10\<rparr>) = tells_core l a b"
  "tells_core l a (b\<lparr>ac_lock_loop := x11\<rparr>) = tells_core l a b" "tells_core l a (b\<lparr>ac_next := x12\<rparr>) = tells_core l a b"
  "tells_core l a (b\<lparr>ac_provider := x13\<rparr>) = tells_core l a b" "tells_core l a (b\<lparr>ac_calls := x14\<rparr>) = tells_core l a b"
  "tells_core l a (b\<lparr>ac_reload_listeners := x15\<rparr>) = tells_core l a b" "tells_core l a (b\<lparr>ac_sessions := x16\<rparr>) = tells_core l a b"
  "tells_core l a (put_call i loop st b) = tells_core l a b" "tells_core l a (put_session n sl b) = tells_core l a b"
  by (simp_all add: tells_core_def account_tokens_def put_call_def put_session_def)

definition quiet_note :: "account_note \<Rightarrow> bool" where
  "quiet_note x \<longleftrightarrow> taken_notes [x] = [] \<and> (\<forall>l. told_notes l [x] = [])"

lemma quiet_notes [simp]:
  "quiet_note (Listed_with s)" "quiet_note Chains_reset" "quiet_note (Still_failing ks)"
  "quiet_note (Reload_told k t)" "quiet_note (Call_over i op1 r)"
  by (simp_all add: quiet_note_def)

lemma tells_core_noted:
  assumes "tells_core l a b" "quiet_note x"
  shows "tells_core l a (ac_noted x b)"
proof (rule tells_core_trans [OF assms(1)])
  show "tells_core l b (ac_noted x b)"
    unfolding tells_core_def using assms(2) by (intro conjI exI [of _ "[x]"]) (auto simp: quiet_note_def ac_noted_def account_tokens_def)
qed

lemma tells_core_listener_fold:
  "ac_log (fold (\<lambda>k. ac_noted (Listener_told k access refresh e)) ls b) =
     ac_log b @ map (\<lambda>k. Listener_told k access refresh e) ls"
  by (induction ls arbitrary: b) (simp_all add: ac_noted_def)

lemma taken_listeners: "taken_notes (map (\<lambda>k. Listener_told k access refresh e) ls) = []"
  by (induction ls) simp_all

lemma told_map:
  "distinct ls \<Longrightarrow> told_notes l (map (\<lambda>k. Listener_told k access refresh e) ls) =
     (if l \<in> set ls then [(access, refresh, e)] else [])"
  "taken_notes (map (\<lambda>k. Listener_told k access refresh e) ls) = []"
  by (induction ls) auto

lemma tells_core_refreshed_tokens:
  assumes "tells_core l a b"
  shows "tells_core l a (on_tokens_refreshed pair e b)"
proof (rule tells_core_trans [OF assms])
  have "ac_log (on_tokens_refreshed pair e b) = ac_log b @
      Tokens_taken pair e # map (\<lambda>k. Listener_told k (tp_access pair) (tp_refresh pair) e) (ac_token_listeners b)"
    by (simp add: on_tokens_refreshed_def tells_core_listener_fold) (simp add: ac_noted_def)
  moreover have "client_id (ac_credentials (on_tokens_refreshed pair e b)) = client_id (ac_credentials b)"
    by (simp add: on_tokens_refreshed_def told_only_notes)
  ultimately show "tells_core l b (on_tokens_refreshed pair e b)"
    using tokens_refreshed_same [of b pair e]
    unfolding tells_core_def
    by (intro conjI exI [of _ "Tokens_taken pair e # map (\<lambda>k. Listener_told k (tp_access pair) (tp_refresh pair) e) (ac_token_listeners b)"])
      (auto simp: the_same_def told_map after_pair_def)
qed

lemma tells_core_in_session:
  assumes "tells_core l a b"
  shows "tells_core l a (in_session n ev b)"
proof -
  have "tells_core l a (fold (\<lambda>(pair, e). on_tokens_refreshed pair e) ps c)" if "tells_core l a c" for ps c
    using that
  proof (induction ps arbitrary: c)
    case (Cons p ps)
    then show ?case by (cases p) (simp add: tells_core_refreshed_tokens)
  qed simp
  then show ?thesis using assms by (simp add: in_session_def Let_def split: option.split)
qed

text \<open>Every pair a session took is among those the account took.\<close>

definition known :: "account \<Rightarrow> bool" where
  "known a \<longleftrightarrow>
     (\<forall>n sl pair e. map_of (ac_sessions a) n = Some sl \<longrightarrow> (pair, e) \<in> set (pairs_taken (ss_log (sl_session sl))) \<longrightarrow>
        (tp_access pair, tp_refresh pair, e) \<in> set (taken_notes (ac_log a)))"

definition tells :: "nat \<Rightarrow> account \<Rightarrow> account \<Rightarrow> bool" where
  "tells l a a' \<longleftrightarrow> tells_core l a a' \<and> (known a \<longrightarrow> known a')"

lemma known_longer:
  "known a \<Longrightarrow> ac_sessions b = ac_sessions a \<Longrightarrow> tells_core l a b \<Longrightarrow> known b"
  by (fastforce simp: known_def tells_core_def)

lemma tells_refl: "tells l a a"
  by (simp add: tells_def tells_core_refl)

lemma tells_trans: "tells l a b \<Longrightarrow> tells l b c \<Longrightarrow> tells l a c"
  unfolding tells_def using tells_core_trans by blast

lemma known_frame [simp]:
  "known (b\<lparr>ac_account_id := x1\<rparr>) = known b" "known (b\<lparr>ac_session := x2\<rparr>) = known b"
  "known (b\<lparr>ac_last_connect_error := x3\<rparr>) = known b" "known (b\<lparr>ac_users := x4\<rparr>) = known b"
  "known (b\<lparr>ac_reload_tasks := x5\<rparr>) = known b" "known (b\<lparr>ac_retry := x6\<rparr>) = known b"
  "known (b\<lparr>ac_reference := x7\<rparr>) = known b" "known (b\<lparr>ac_session_loop := x8\<rparr>) = known b"
  "known (b\<lparr>ac_queue := x9\<rparr>) = known b" "known (b\<lparr>ac_lock := x10\<rparr>) = known b"
  "known (b\<lparr>ac_lock_loop := x11\<rparr>) = known b" "known (b\<lparr>ac_next := x12\<rparr>) = known b"
  "known (b\<lparr>ac_provider := x13\<rparr>) = known b" "known (b\<lparr>ac_calls := x14\<rparr>) = known b"
  "known (b\<lparr>ac_reload_listeners := x15\<rparr>) = known b"
  "known (b\<lparr>ac_token_listeners := x16\<rparr>) = known b"
  by (simp_all add: known_def)

lemma tells_frame [simp]:
  "tells l a (b\<lparr>ac_account_id := x1\<rparr>) = tells l a b" "tells l a (b\<lparr>ac_session := x2\<rparr>) = tells l a b"
  "tells l a (b\<lparr>ac_last_connect_error := x3\<rparr>) = tells l a b" "tells l a (b\<lparr>ac_users := x4\<rparr>) = tells l a b"
  "tells l a (b\<lparr>ac_reload_tasks := x5\<rparr>) = tells l a b" "tells l a (b\<lparr>ac_retry := x6\<rparr>) = tells l a b"
  "tells l a (b\<lparr>ac_reference := x7\<rparr>) = tells l a b" "tells l a (b\<lparr>ac_session_loop := x8\<rparr>) = tells l a b"
  "tells l a (b\<lparr>ac_queue := x9\<rparr>) = tells l a b" "tells l a (b\<lparr>ac_lock := x10\<rparr>) = tells l a b"
  "tells l a (b\<lparr>ac_lock_loop := x11\<rparr>) = tells l a b" "tells l a (b\<lparr>ac_next := x12\<rparr>) = tells l a b"
  "tells l a (b\<lparr>ac_provider := x13\<rparr>) = tells l a b" "tells l a (b\<lparr>ac_calls := x14\<rparr>) = tells l a b"
  "tells l a (b\<lparr>ac_reload_listeners := x15\<rparr>) = tells l a b" "tells l a (put_call i loop st b) = tells l a b"
  by (simp_all add: tells_def put_call_def)

lemma tells_noted:
  assumes "tells l a b" "quiet_note x"
  shows "tells l a (ac_noted x b)"
  using assms tells_core_noted [OF _ assms(2)] known_longer [of b "ac_noted x b" l] tells_core_refl [of l b]
  by (auto simp: tells_def)

lemma tells_refreshed_tokens:
  assumes "tells l a b"
  shows "tells l a (on_tokens_refreshed pair e b)"
  using assms tells_core_refreshed_tokens known_longer [of b "on_tokens_refreshed pair e b" l] tells_core_refl [of l b]
  by (auto simp: tells_def)

lemma taken_fold:
  "set (taken_notes (ac_log (fold (\<lambda>(pair, e). on_tokens_refreshed pair e) ps c))) =
     set (taken_notes (ac_log c)) \<union> (\<lambda>(pair, e). (tp_access pair, tp_refresh pair, e)) ` set ps"
proof (induction ps arbitrary: c)
  case (Cons p ps)
  have "set (taken_notes (ac_log (on_tokens_refreshed pair e c))) =
      insert (tp_access pair, tp_refresh pair, e) (set (taken_notes (ac_log c)))" for pair e
    by (simp add: on_tokens_refreshed_def tells_core_listener_fold taken_listeners) (simp add: ac_noted_def)
  then show ?case using Cons by (cases p) auto
qed simp

lemma known_in_session:
  assumes "known b"
  shows "known (in_session n ev b)"
proof (cases "map_of (ac_sessions b) n")
  case None
  then show ?thesis using assms by (simp add: in_session_none)
next
  case (Some sl)
  let ?s = "sl_session sl" and ?s' = "sess_step (sl_config sl) ev (sl_session sl)"
  have log: "ss_log ?s' = ss_log ?s @ log_since ?s ?s'"
    using pairs_step [of ?s "sl_config sl" ev] by (auto simp: notes_pairs_def log_since_def)
  have taken: "set (taken_notes (ac_log (in_session n ev b))) = set (taken_notes (ac_log b)) \<union>
      (\<lambda>(pair, e). (tp_access pair, tp_refresh pair, e)) ` set (pairs_taken (log_since ?s ?s'))"
    using Some by (simp add: in_session_def Let_def taken_fold log_since_def put_session_def)
  show ?thesis
    unfolding known_def
  proof (intro allI impI)
    fix m sl' pair e
    assume sl': "map_of (ac_sessions (in_session n ev b)) m = Some sl'"
      "(pair, e) \<in> set (pairs_taken (ss_log (sl_session sl')))"
    show "(tp_access pair, tp_refresh pair, e) \<in> set (taken_notes (ac_log (in_session n ev b)))"
    proof (cases "m = n")
      case True
      then have "(pair, e) \<in> set (pairs_taken (ss_log ?s)) \<or> (pair, e) \<in> set (pairs_taken (log_since ?s ?s'))"
        using sl' in_session_slots(1) [OF Some, of ev n] log by auto
      then show ?thesis
        using assms Some taken unfolding known_def by force
    next
      case False
      then show ?thesis
        using sl' in_session_slots(1) [OF Some, of ev m] assms taken unfolding known_def by auto
    qed
  qed
qed

lemma tells_in_session: "tells l a b \<Longrightarrow> tells l a (in_session n ev b)"
  by (simp add: tells_def tells_core_in_session known_in_session)

lemma tells_build: "tells l a b \<Longrightarrow> tells l a (snd (build_session account_id host loop b))"
  by (auto simp: tells_def build_session_def Let_def put_session_def known_def update_conv' new_session_def)

lemma tells_end: "tells l a b \<Longrightarrow> tells l a (end_call i op1 r b)"
  by (simp add: end_call_def tells_noted)

lemma tells_leave: "tells l a b \<Longrightarrow> tells l a (leave_lock op1 r i b)"
  by (cases op1; cases r) (simp_all add: leave_lock_def tells_end)

lemmas tells_basic = tells_end tells_leave tells_in_session tells_refreshed_tokens tells_noted

lemma tells_stop: "tells l a b \<Longrightarrow> tells l a (stop_account op1 n r i loop b)"
  "tells l a b \<Longrightarrow> tells l a (stop_session op1 n r i loop b)"
  by (auto simp: stop_account_def stop_session_def Let_def intro!: tells_basic)

lemma tells_raises: "tells l a b \<Longrightarrow> tells l a (bring_up_raises e built i loop b)"
  by (auto simp: bring_up_raises_def intro!: tells_basic tells_stop split: option.split)

lemma tells_up: "tells l a b \<Longrightarrow> tells l a (up n i b)"
  by (simp add: up_def tells_basic)

lemma tells_ask: "tells l a b \<Longrightarrow> tells l a (ask_reference n st i loop b)"
  by (auto simp: ask_reference_def Let_def intro!: tells_basic tells_raises split: option.split)

lemma tells_session_up: "tells l a b \<Longrightarrow> tells l a (session_up n i loop b)"
  by (auto simp: session_up_def intro!: tells_ask tells_up)

lemma tells_wait_ready: "tells l a b \<Longrightarrow> tells l a (go b) \<Longrightarrow> tells l a (wait_ready stage go n i loop b)"
  by (simp add: wait_ready_def split: option.split)

lemma tells_start: "tells l a b \<Longrightarrow> tells l a (start_session account_id host i loop b)"
  using tells_build [of l a b account_id host loop]
  by (auto simp: start_session_def intro!: tells_wait_ready tells_session_up tells_in_session
      split: prod.splits)

lemma tells_resolved: "tells l a b \<Longrightarrow> tells l a (account_resolved accounts i loop b)"
  by (auto simp: account_resolved_def intro!: tells_raises tells_start split: sum.split)

lemma tells_pre:
  assumes "tells l a b"
  shows "tells l a (close_pre r i loop b)" "tells l a (refreshed pair now i loop b)"
    "tells l a (list_refused code i loop b)" "tells l a (refresh_failed e' now late i loop b)"
    "tells l a (ask_accounts st i loop b)"
  using assms
  by (auto simp: close_pre_def refreshed_def ask_accounts_def list_refused_def refresh_failed_def
      intro!: tells_basic split: conn_error.splits option.splits)

lemma tells_known:
  assumes "tells l a b"
  shows "tells l a (trader_known n t i loop b)" "tells l a (assets_known n t assets i loop b)"
    "tells l a (symbols_known n t by_id symbols i b)"
  using assms
  by (auto simp: trader_known_def assets_known_def symbols_known_def Let_def
      intro!: tells_raises tells_ask tells_up)

lemmas tells_all = tells_basic tells_stop tells_raises tells_up tells_session_up tells_wait_ready
  tells_resolved tells_pre tells_known

lemma tells_answered:
  assumes "tells l a b"
  shows "tells l a (call_answered now answer i loop st b)"
proof (cases answer)
  case (Raised e)
  then show ?thesis
    using assms by (cases st) (auto simp: call_answered_def intro!: tells_all split: conn_error.splits sum.splits)
qed (use assms in \<open>cases st; auto simp: call_answered_def intro!: tells_all split: sum.splits\<close>)+

lemma tells_waits:
  assumes "tells l a b"
  shows "tells l a (late_reply now late i loop st b)" "tells l a (ready_wakes i loop st b)"
    "tells l a (poll_over i loop st b)" "tells l a (deadline_over i loop st b)"
    "tells l a (cancelled i loop st b)"
proof -
  show "tells l a (late_reply now late i loop st b)"
    using assms by (cases st) (auto simp: late_reply_def intro!: tells_all split: option.splits)
  show "tells l a (ready_wakes i loop st b)"
    using assms by (cases st) (auto simp: ready_wakes_def Let_def intro!: tells_all)
  show "tells l a (poll_over i loop st b)"
    using assms by (cases st) (auto simp: poll_over_def intro!: tells_all split: option.split)
  show "tells l a (deadline_over i loop st b)"
    using assms by (cases st) (auto simp: deadline_over_def intro!: tells_all split: sum.split)
  show "tells l a (cancelled i loop st b)"
    using assms by (cases st) (auto simp: cancelled_def intro!: tells_all)
qed

lemma tells_calls:
  assumes "tells l a b"
  shows "tells l a (begin_call ended_loops loop op1 b)" "tells l a (lock_wakes ended_loops b)"
proof -
  have join: "tells l a (join_session i loop c)" if "tells l a c" for c i loop
    using that by (auto simp: join_session_def intro!: tells_all split: option.split)
  have lock: "tells l a (under_lock op1 i loop c)" if "tells l a c" for op1 c i loop
    using that
    by (auto simp: under_lock_def Let_def bring_up_account_def intro!: join tells_all
        split: account_op.split option.split)
  show "tells l a (begin_call ended_loops loop op1 b)" "tells l a (lock_wakes ended_loops b)"
    using assms
    by (auto simp: begin_call_def take_lifecycle_lock_def lock_wakes_def Let_def
        intro!: lock tells_all split: account_op.split option.split list.split call_stage.split)
qed

lemma tells_tasks:
  assumes "tells l a b"
  shows "tells l a (retry_turn keys b)" "tells l a (retry_over b)" "tells l a (reload_starts b)"
    "tells l a (reload_over t reloaded b)"
proof -
  have "tells l a (fold (\<lambda>k. ac_noted (Reload_told k t)) ls c)" if "tells l a c" for ls c
    using that by (induction ls arbitrary: c) (simp_all add: tells_noted)
  then show "tells l a (reload_over t reloaded b)" using assms by (simp add: reload_over_def Let_def)
qed (use assms in \<open>auto simp: retry_turn_def retry_over_def reload_starts_def Let_def
      intro!: tells_all split: option.split\<close>)

lemma tells_add: "tells l a (add_token_listener k a)"
  by (auto simp: add_token_listener_def tells_def tells_core_def account_tokens_def)

lemma tells_step: "tells l a (account_step ended_loops ev a)"
  using tells_refl [of l a]
  by (cases ev)
    (auto simp: account_step_def on_call_def tells_add add_reload_listener_def remove_reload_listener_def
      get_instrument_provider_def intro!: tells_answered tells_waits tells_calls tells_tasks
      tells_in_session split: option.split)

lemma tells_run: "tells l a (run_account evs a)"
proof (induction evs arbitrary: a)
  case (Cons e evs)
  obtain ended_loops ev where "e = (ended_loops, ev)" by (rule prod.exhaust)
  then show ?case
    using tells_trans [OF tells_step [of l a ended_loops ev] Cons [of "account_step ended_loops ev a"]]
    by (simp add: run_account_def)
qed (simp add: run_account_def tells_refl)
lemma fold_after_pair:
  "fold after_pair ps t = (if ps = [] then t else after_pair (last ps) t)"
  by (induction ps arbitrary: t) (auto simp: after_pair_def)

text \<open>
  C16: New tokens are never lost between the parts. Each pair that a session takes, or the account itself
  before it has a session, is told to every listener registered by then, each pair once and in order;
  the account keeps the last, so the next session starts from it; and the session that runs has the
  account's tokens.
\<close>

lemma newest_tokens_reach_everyone:
  assumes "a = run_account evs (new_account se credentials)" "l \<in> set (ac_token_listeners a)"
    and "b = run_account onward a"
  shows "\<exists>new_notes. ac_log b = ac_log a @ new_notes \<and> told_notes l new_notes = taken_notes new_notes \<and>
    account_tokens b = (if taken_notes new_notes = [] then account_tokens a
       else case last (taken_notes new_notes) of (access, refresh, e) \<Rightarrow> (access, Some refresh, Some e)) \<and>
    (\<forall>n s pair e. session_of n b = Some s \<and> (pair, e) \<in> set (pairs_taken (ss_log s)) \<longrightarrow>
       (tp_access pair, tp_refresh pair, e) \<in> set (taken_notes (ac_log b))) \<and>
    (\<forall>n s. is_running n b \<and> session_of n b = Some s \<longrightarrow> tokens_of s = account_tokens b)"
proof -
  let ?new = "new_account se credentials"
  have "tells l ?new a" "tells l ?new b"
    using tells_run [of l ?new "evs @ onward"] tells_run [of l ?new evs] by (simp_all add: assms run_account_def)
  moreover have "known ?new" "distinct (ac_token_listeners ?new)" by (simp_all add: known_def new_account_def)
  ultimately have before: "known b" "distinct (ac_token_listeners a)" by (simp_all add: tells_def tells_core_def)
  have "tells l a b" unfolding assms(3) by (rule tells_run)
  then obtain new_notes where new_notes: "ac_log b = ac_log a @ new_notes"
    "account_tokens b = fold after_pair (taken_notes new_notes) (account_tokens a)"
    "told_notes l new_notes = taken_notes new_notes"
    using before(2) assms(2) unfolding tells_def tells_core_def by blast
  have "b = run_account (evs @ onward) ?new" by (simp add: assms run_account_def)
  then have ok: "slots_ok (running (holder b) (ac_session b)) b"
    using reached_account_ok [of "evs @ onward" se credentials] by (simp add: account_ok_def)
  have "tokens_of s = account_tokens b" if "is_running n b" "session_of n b = Some s" for n s
  proof -
    from that(2) obtain sl where sl: "map_of (ac_sessions b) n = Some sl" "sl_session sl = s"
      by (auto simp: session_of_def)
    then have "slot_ok True (account_tokens b) sl"
      using ok running_slot [OF ok, of n] that(1) unfolding slots_ok_def by metis
    then show ?thesis using sl(2) by (simp add: slot_ok_def)
  qed
  moreover have "(tp_access pair, tp_refresh pair, e) \<in> set (taken_notes (ac_log b))"
    if "session_of n b = Some s" "(pair, e) \<in> set (pairs_taken (ss_log s))" for n s pair e
    using before(1) that by (auto simp: known_def session_of_def)
  moreover have "account_tokens b = (if taken_notes new_notes = [] then account_tokens a
      else case last (taken_notes new_notes) of (access, refresh, e) \<Rightarrow> (access, Some refresh, Some e))"
    using new_notes(2) by (simp add: fold_after_pair after_pair_def split: prod.split)
  ultimately show ?thesis using new_notes(1,3) by blast
qed

subsection \<open>Witnesses\<close>

definition sample_settings :: account_settings where
  "sample_settings = \<lparr>se_trader_login = 7, se_environment = ''auto'', se_demo_host = DEMO_HOST,
     se_live_host = LIVE_HOST\<rparr>"

definition sample_credentials :: AccountCredentials where
  "sample_credentials = \<lparr>client_id = ''id'', client_secret = ''secret'', access_token = ''a0'',
     refresh_token = Some ''r0'', token_expires_at = None\<rparr>"

definition sample_accounts :: "AccountRecord list" where
  "sample_accounts =
     [\<lparr>ctid_trader_account_id = 41, is_live = Some True, trader_login = Some 6\<rparr>,
      \<lparr>ctid_trader_account_id = 42, is_live = Some False, trader_login = Some 7\<rparr>]"

text \<open>The token is rejected, and refreshed over the pre-connection; then the session comes up.\<close>

definition sample_connect :: account_run where
  "sample_connect = map (Pair [])
     [Add_token_listener 3, Start_call 0 Connect, Answer 0 0 Done, Answer 0 0 Done,
      Answer 0 0 (Raised (RequestError \<lparr>error_code = ''CH_ACCESS_TOKEN_INVALID'', description = None,
        maintenance_end_secs = None, retry_after_secs = None\<rparr>)),
      Answer 0 0 (Tokens \<lparr>tp_access = ''a1'', tp_refresh = ''r1'', tp_expires_in = 1000\<rparr>),
      Answer 0 1 (Accounts sample_accounts), Answer 0 1 Done, In_session 1 Supervisor_starts,
      In_session 1 (Connect_answer None), In_session 1 (Auth_answer 2 None), In_session 1 (Auth_answer 3 None),
      Ready_wakes 0, Answer 0 3 (Trader_is \<lparr>ta_money_digits = Some 2, ta_deposit_asset_id = 5\<rparr>),
      Answer 0 3 (Assets [(5, ''EUR'')]), Answer 0 3 (Symbols [])]"

definition sample_later :: account_run where
  "sample_later = map (Pair [])
     [Start_call 0 Connect, In_session 1 (Loop_turn 200), In_session 1 Loop_refresh_written,
      In_session 1 (Loop_refresh_answer 201 (Inr \<lparr>tp_access = ''a2'', tp_refresh = ''r2'', tp_expires_in = 1000\<rparr>)),
      Start_call 0 Disconnect_user, Start_call 0 Disconnect_user, Answer 4 202 Done, Answer 4 203 Done]"
lemma session_is_for_the_login_witness:
  "\<exists>sl accounts entry.
     map_of (ac_sessions (run_account sample_connect (new_account sample_settings sample_credentials))) 1 = Some sl \<and>
     accounts \<in> lists_answered sample_connect \<and>
     filter (\<lambda>e. trader_login e = Some (se_trader_login sample_settings)) accounts = [entry] \<and>
     sc_account_id (sl_config sl) = ctid_trader_account_id entry \<and>
     sl_host sl = (if se_environment sample_settings = ''demo'' \<or>
                      se_environment sample_settings \<noteq> ''live'' \<and> is_live entry \<noteq> Some True
                   then se_demo_host sample_settings else se_live_host sample_settings)"
proof -
  let ?a = "run_account sample_connect (new_account sample_settings sample_credentials)"
  have "map_option sl_host (map_of (ac_sessions ?a) 1) = Some DEMO_HOST" by code_simp
  then obtain sl where "map_of (ac_sessions ?a) 1 = Some sl" by (cases "map_of (ac_sessions ?a) 1") auto
  then show ?thesis using session_is_for_the_login [of sample_connect sample_settings sample_credentials 1 sl] by blast
qed

lemma one_session_at_a_time_witness:
  "(\<exists>k. ac_session (run_account (sample_connect @ take 4 sample_later) (new_account sample_settings sample_credentials)) = Some k \<and>
      is_running k (run_account (sample_connect @ take 4 sample_later) (new_account sample_settings sample_credentials))) \<and>
   \<not> is_running 1 (run_account (sample_connect @ sample_later) (new_account sample_settings sample_credentials))"
proof -
  let ?a = "run_account (sample_connect @ take 4 sample_later) (new_account sample_settings sample_credentials)"
  let ?b = "run_account (sample_connect @ sample_later) (new_account sample_settings sample_credentials)"
  have "0 < ac_users ?a" by code_simp
  moreover have "ac_users ?b = 0 \<and> ac_lock ?b = None" by code_simp
  ultimately show ?thesis
    using one_session_at_a_time [OF refl, of 1 "sample_connect @ take 4 sample_later" sample_settings sample_credentials 1]
      one_session_at_a_time [OF refl, of 1 "sample_connect @ sample_later" sample_settings sample_credentials 1]
    by simp
qed

lemma newest_tokens_reach_everyone_witness:
  "\<exists>new_notes. ac_log (run_account sample_later (run_account sample_connect (new_account sample_settings sample_credentials))) =
       ac_log (run_account sample_connect (new_account sample_settings sample_credentials)) @ new_notes \<and>
     told_notes 3 new_notes = taken_notes new_notes"
proof -
  let ?a = "run_account sample_connect (new_account sample_settings sample_credentials)"
  have "3 \<in> set (ac_token_listeners ?a)" by code_simp
  from newest_tokens_reach_everyone [OF refl this refl, of sample_later] show ?thesis by blast
qed

end
