(* ===== verification/Account_Cache.thy ===== *)
theory Account_Cache
  imports Account_Promises
begin

text \<open>
  The cache of account clients of \<open>common/account.py\<close>: one client for a login and a client id, replaced
  by its successor once the event loop it was brought up on is closed. The clients ever made are kept,
  since a caller may still hold one that was replaced; \<open>ch_warned\<close> is a ghost log of the settings a
  call asked for in vain.
\<close>

subsection \<open>The cache\<close>

datatype cache_key = Cache_key int string

record account_cache =
  ch_clients :: "(nat, account) dict"
  ch_entries :: "(cache_key, nat \<times> AccountCredentials) dict"
  ch_ended_loops :: "nat list"
  ch_next :: nat
  ch_warned :: "string list list"

definition empty_cache :: account_cache where
  "empty_cache = \<lparr>ch_clients = [], ch_entries = [], ch_ended_loops = [], ch_next = 0, ch_warned = []\<rparr>"

definition successor :: "account \<Rightarrow> account" where
  "successor a = (new_account (ac_settings a) (ac_credentials a))\<lparr>ac_token_listeners := ac_token_listeners a\<rparr>"

text \<open>The names of what a later call asks for and does not get.\<close>

definition differing_settings :: "string \<Rightarrow> AccountCredentials \<Rightarrow> account \<Rightarrow> AccountCredentials \<Rightarrow> string list" where
  "differing_settings environment asked_for a cached =
     (if environment \<noteq> se_environment (ac_settings a) then [''environment''] else []) @
     (if client_secret cached \<noteq> client_secret asked_for then [''client secret''] else []) @
     (if access_token cached \<noteq> access_token asked_for then [''access token''] else []) @
     (if refresh_token cached \<noteq> refresh_token asked_for then [''refresh token''] else []) @
     (if token_expires_at cached \<noteq> token_expires_at asked_for then [''token expiry''] else [])"

definition put_client :: "nat \<Rightarrow> account \<Rightarrow> account_cache \<Rightarrow> account_cache" where
  "put_client c a h = h\<lparr>ch_clients := AList.update c a (ch_clients h)\<rparr>"

definition new_client :: "cache_key \<Rightarrow> account \<Rightarrow> AccountCredentials \<Rightarrow> account_cache \<Rightarrow> account_cache" where
  "new_client key a credentials h =
     (put_client (ch_next h) a h)
       \<lparr>ch_next := Suc (ch_next h), ch_entries := AList.update key (ch_next h, credentials) (ch_entries h)\<rparr>"

definition warned :: "string list \<Rightarrow> account_cache \<Rightarrow> account_cache" where
  "warned names h = (if names = [] then h else h\<lparr>ch_warned := ch_warned h @ [names]\<rparr>)"

text \<open>
  \<open>get_cached_ctrader_account_client\<close>; the constructor raises for an environment it does not know, and
  nothing is cached. The client returned is the one the entry then names.
\<close>

definition get_client :: "account_settings \<Rightarrow> AccountCredentials \<Rightarrow> account_cache \<Rightarrow> account_cache" where
  "get_client se credentials h =
     (let key = Cache_key (se_trader_login se) (client_id credentials) in
      case map_of (ch_entries h) key of
        None \<Rightarrow>
          if se_environment se \<in> set ENVIRONMENTS
          then new_client key (new_account se credentials) credentials h else h
      | Some (c, cached) \<Rightarrow>
          (case map_of (ch_clients h) c of
             None \<Rightarrow> h
           | Some a \<Rightarrow>
               warned (differing_settings (se_environment se) credentials a cached)
                 (if loop_closed (ch_ended_loops h) a
                  then new_client key (successor a) cached (put_client c (a\<lparr>ac_retired := True\<rparr>) h)
                  else h)))"

definition cached_client :: "cache_key \<Rightarrow> account_cache \<Rightarrow> account option" where
  "cached_client key h = Option.bind (map_of (ch_entries h) key) (\<lambda>(c, _). map_of (ch_clients h) c)"

datatype cache_event =
    Get_client account_settings AccountCredentials
  | In_client nat account_event
  | Loop_closes nat

definition cache_step :: "cache_event \<Rightarrow> account_cache \<Rightarrow> account_cache" where
  "cache_step ev h =
     (case ev of
        Get_client se credentials \<Rightarrow> get_client se credentials h
      | In_client c ev1 \<Rightarrow>
          (case map_of (ch_clients h) c of
             None \<Rightarrow> h | Some a \<Rightarrow> put_client c (account_step (ch_ended_loops h) ev1 a) h)
      | Loop_closes loop \<Rightarrow> h\<lparr>ch_ended_loops := List.insert loop (ch_ended_loops h)\<rparr>)"

definition run_cache :: "cache_event list \<Rightarrow> account_cache \<Rightarrow> account_cache" where
  "run_cache evs h = fold cache_step evs h"
subsection \<open>One client per account\<close>

definition key_of :: "account \<Rightarrow> cache_key" where
  "key_of a = Cache_key (se_trader_login (ac_settings a)) (client_id (ac_credentials a))"

text \<open>\<open>cache_ok_but K\<close> says nothing of the entries of the keys in \<open>K\<close>.\<close>

definition cache_ok_but :: "cache_key set \<Rightarrow> account_cache \<Rightarrow> bool" where
  "cache_ok_but K h \<longleftrightarrow>
     (\<forall>key c credentials. key \<notin> K \<longrightarrow> map_of (ch_entries h) key = Some (c, credentials) \<longrightarrow>
        (\<exists>a. map_of (ch_clients h) c = Some a \<and> key_of a = key \<and> \<not> ac_retired a)) \<and>
     (\<forall>c a. map_of (ch_clients h) c = Some a \<longrightarrow>
        c < ch_next h \<and> (\<not> ac_retired a \<longrightarrow> map_option fst (map_of (ch_entries h) (key_of a)) = Some c))"

definition cache_ok :: "account_cache \<Rightarrow> bool" where
  "cache_ok h \<longleftrightarrow> cache_ok_but {} h"

lemma cache_ok_entry:
  "cache_ok_but K h \<Longrightarrow> map_of (ch_entries h) key = Some (c, credentials) \<Longrightarrow> key \<notin> K \<Longrightarrow>
     \<exists>a. map_of (ch_clients h) c = Some a \<and> key_of a = key \<and> \<not> ac_retired a"
  unfolding cache_ok_but_def by blast

lemma cache_ok_client:
  "cache_ok_but K h \<Longrightarrow> map_of (ch_clients h) c = Some a \<Longrightarrow>
     c < ch_next h \<and> (\<not> ac_retired a \<longrightarrow> map_option fst (map_of (ch_entries h) (key_of a)) = Some c)"
  unfolding cache_ok_but_def by blast

lemma cache_ok_new:
  assumes ok: "cache_ok_but {key} h" and a: "key_of a = key" "\<not> ac_retired a"
    and free: "\<And>c b. map_of (ch_clients h) c = Some b \<Longrightarrow> key_of b = key \<Longrightarrow> ac_retired b"
  shows "cache_ok (new_client key a credentials h)"
proof -
  have entries: "map_of (ch_entries (new_client key a credentials h)) k =
      (if k = key then Some (ch_next h, credentials) else map_of (ch_entries h) k)" for k
    by (simp add: new_client_def put_client_def update_conv')
  have clients: "map_of (ch_clients (new_client key a credentials h)) d =
      (if d = ch_next h then Some a else map_of (ch_clients h) d)" for d
    by (simp add: new_client_def put_client_def update_conv')
  have next1: "ch_next (new_client key a credentials h) = Suc (ch_next h)" by (simp add: new_client_def)
  have fresh: "c < ch_next h" if "map_of (ch_clients h) c = Some b" for c b
    using cache_ok_client [OF ok that] by simp
  show ?thesis
    unfolding cache_ok_def cache_ok_but_def
  proof (intro conjI allI impI)
    fix k d cr
    assume d: "map_of (ch_entries (new_client key a credentials h)) k = Some (d, cr)"
    show "\<exists>b. map_of (ch_clients (new_client key a credentials h)) d = Some b \<and> key_of b = k \<and> \<not> ac_retired b"
    proof (cases "k = key")
      case True
      then show ?thesis using d entries [of k] clients a by auto
    next
      case False
      then have "map_of (ch_entries h) k = Some (d, cr)" using d entries [of k] by simp
      then obtain b where b: "map_of (ch_clients h) d = Some b" "key_of b = k" "\<not> ac_retired b"
        using cache_ok_entry [OF ok] False by blast
      then show ?thesis using clients fresh [OF b(1)] by auto
    qed
  next
    fix d b
    assume d: "map_of (ch_clients (new_client key a credentials h)) d = Some b"
    then show "d < ch_next (new_client key a credentials h)"
      using next1 clients fresh by (auto simp: less_SucI split: if_splits)
    assume r: "\<not> ac_retired b"
    show "map_option fst (map_of (ch_entries (new_client key a credentials h)) (key_of b)) = Some d"
    proof (cases "d = ch_next h")
      case True
      then show ?thesis using d clients a entries by auto
    next
      case False
      then have b: "map_of (ch_clients h) d = Some b" using d clients by simp
      then have "key_of b \<noteq> key" using free r by blast
      then show ?thesis using cache_ok_client [OF ok b] r entries by simp
    qed
  qed
qed

lemma cache_ok_put:
  assumes "cache_ok h" "map_of (ch_clients h) c = Some a" "key_of b = key_of a"
    and "ac_retired b = ac_retired a \<or> ac_retired b \<and> K = {key_of a}" "K = {} \<or> K = {key_of a}"
  shows "cache_ok_but K (put_client c b h)"
proof -
  have clients: "map_of (ch_clients (put_client c b h)) d = (if d = c then Some b else map_of (ch_clients h) d)" for d
    by (simp add: put_client_def update_conv')
  have same: "ch_entries (put_client c b h) = ch_entries h" "ch_next (put_client c b h) = ch_next h"
    by (simp_all add: put_client_def)
  note ok = cache_ok_entry [OF assms(1) [unfolded cache_ok_def]] cache_ok_client [OF assms(1) [unfolded cache_ok_def]]
  show ?thesis
    unfolding cache_ok_but_def same clients
  proof (intro conjI allI impI)
    fix key d cr
    assume "key \<notin> K" "map_of (ch_entries h) key = Some (d, cr)"
    then show "\<exists>b'. (if d = c then Some b else map_of (ch_clients h) d) = Some b' \<and> key_of b' = key \<and> \<not> ac_retired b'"
      using ok(1) [of key d cr] assms(2-5) by auto
  next
    fix d b'
    assume d: "(if d = c then Some b else map_of (ch_clients h) d) = Some b'"
    then show "d < ch_next h" using ok(2) assms(2) by (auto split: if_splits)
    assume "\<not> ac_retired b'"
    then show "map_option fst (map_of (ch_entries h) (key_of b')) = Some d"
      using d ok(2) [of d b'] ok(2) [OF assms(2)] assms(3,4) by (cases "d = c") auto
  qed
qed

lemma step_kept:
  "key_of (account_step ended_loops ev a) = key_of a" "ac_retired (account_step ended_loops ev a) = ac_retired a"
  using tells_step [of 0 a ended_loops ev] by (simp_all add: tells_def tells_core_def key_of_def)

lemma get_client_ok:
  assumes ok: "cache_ok h"
  shows "cache_ok (get_client se credentials h)"
proof -
  let ?key = "Cache_key (se_trader_login se) (client_id credentials)"
  have warn: "cache_ok (warned names g) = cache_ok g" for names g
    by (simp add: warned_def cache_ok_def cache_ok_but_def)
  note client = cache_ok_client [OF ok [unfolded cache_ok_def]]
  show ?thesis
  proof (cases "map_of (ch_entries h) ?key")
    case None
    have "ac_retired b" if "map_of (ch_clients h) c = Some b" "key_of b = ?key" for c b
      using client [OF that(1)] that(2) None by auto
    moreover have "cache_ok_but {?key} h" using ok by (simp add: cache_ok_def cache_ok_but_def)
    ultimately show ?thesis
      using cache_ok_new [of ?key h "new_account se credentials"] ok None
      by (simp add: get_client_def Let_def key_of_def new_account_def)
  next
    case (Some e)
    obtain c cached where e: "e = (c, cached)" by (rule prod.exhaust)
    obtain a where a: "map_of (ch_clients h) c = Some a" "key_of a = ?key" "\<not> ac_retired a"
      using cache_ok_entry [OF ok [unfolded cache_ok_def]] Some e by blast
    let ?h = "put_client c (a\<lparr>ac_retired := True\<rparr>) h"
    have "cache_ok_but {?key} ?h"
      using cache_ok_put [OF ok a(1), of "a\<lparr>ac_retired := True\<rparr>" "{?key}"] a(2) by (simp add: key_of_def)
    moreover have "ac_retired b" if "map_of (ch_clients ?h) d = Some b" "key_of b = ?key" for d b
      using that client [of d b] Some e by (auto simp: put_client_def update_conv' split: if_splits)
    moreover have "key_of (successor a) = ?key" "\<not> ac_retired (successor a)"
      using a(2) by (simp_all add: successor_def key_of_def new_account_def)
    ultimately have "cache_ok (new_client ?key (successor a) cached ?h)" by (intro cache_ok_new)
    then show ?thesis
      using ok a Some e by (simp add: get_client_def Let_def warn)
  qed
qed

lemma cache_step_ok:
  assumes "cache_ok h"
  shows "cache_ok (cache_step ev h)"
proof (cases ev)
  case (In_client c ev1)
  then show ?thesis
    using assms cache_ok_put [OF assms] step_kept by (auto simp: cache_step_def cache_ok_def split: option.split)
next
  case (Loop_closes loop)
  then show ?thesis using assms by (simp add: cache_step_def cache_ok_def cache_ok_but_def)
qed (use assms get_client_ok in \<open>simp add: cache_step_def\<close>)

lemma run_cache_ok: "cache_ok h \<Longrightarrow> cache_ok (run_cache evs h)"
  unfolding run_cache_def by (induction evs arbitrary: h) (simp_all add: cache_step_ok)

lemma reached_cache_ok: "cache_ok (run_cache evs empty_cache)"
  by (rule run_cache_ok) (simp add: cache_ok_def cache_ok_but_def empty_cache_def)

text \<open>
  C39: One client serves an account. Of all clients ever made for a login and client id, only the one the
  cache names can still connect: any other was replaced, and a \<open>connect\<close> of it, on an open loop, is
  refused at once, starts no session and changes no user.
\<close>

lemma one_client_per_account:
  assumes "h = run_cache evs empty_cache" "map_of (ch_clients h) c = Some a"
    and "map_option fst (map_of (ch_entries h) (key_of a)) \<noteq> Some c" "loop \<notin> set (ch_ended_loops h)"
  shows "account_step (ch_ended_loops h) (Start_call loop Connect) a =
    ac_noted (Call_over (ac_next a) Connect (Some Client_replaced))
      (a\<lparr>ac_next := Suc (ac_next a), ac_last_connect_error := Some Client_replaced,
         ac_calls := AList.delete (ac_next a) (ac_calls a)\<rparr>)"
proof -
  have "ac_retired a"
    using cache_ok_client [OF reached_cache_ok [of evs, unfolded cache_ok_def]] assms(1-3) by blast
  then show ?thesis
    using assms(4) by (simp add: account_step_def begin_call_def Let_def other_loop_error_def end_call_def)
qed

text \<open>
  The client that replaces one has its settings, its newest tokens and its token listeners, and
  nothing else of it: no session, no users, no lock.
\<close>

lemma replacement_keeps_the_tokens:
  assumes "h = run_cache evs empty_cache" "cached_client (Cache_key (se_trader_login se) (client_id credentials)) h = Some a"
    and "loop_closed (ch_ended_loops h) a"
  shows "\<exists>b. cached_client (Cache_key (se_trader_login se) (client_id credentials)) (get_client se credentials h) = Some b \<and>
    account_tokens b = account_tokens a \<and> ac_settings b = ac_settings a \<and>
    ac_token_listeners b = ac_token_listeners a \<and> ac_session b = None \<and> ac_users b = 0 \<and> ac_lock b = None \<and>
    ac_sessions b = [] \<and> other_loop_error (ch_ended_loops h) loop b = None"
proof -
  let ?key = "(Cache_key (se_trader_login se) (client_id credentials))"
  from assms(2) obtain c cached where e: "map_of (ch_entries h) ?key = Some (c, cached)" "map_of (ch_clients h) c = Some a"
    by (auto simp: cached_client_def bind_eq_Some_conv split: prod.splits)
  have warn: "cached_client k (warned names g) = cached_client k g" for k names g
    by (simp add: warned_def cached_client_def)
  have "cached_client ?key (get_client se credentials h) = Some (successor a)"
    using e assms(3)
    by (simp add: get_client_def Let_def warn) (simp add: cached_client_def new_client_def put_client_def update_conv')
  then show ?thesis
    by (simp add: successor_def new_account_def account_tokens_def other_loop_error_def)
qed
definition sample_cache :: "cache_event list" where
  "sample_cache =
     [Get_client sample_settings sample_credentials, In_client 0 (Add_token_listener 3),
      In_client 0 (Start_call 5 Connect), Loop_closes 5]"

lemma one_client_per_account_witness:
  "\<exists>a. map_of (ch_clients (run_cache (sample_cache @ [Get_client sample_settings sample_credentials]) empty_cache)) 0 = Some a \<and>
     account_step [5] (Start_call 6 Connect) a =
       ac_noted (Call_over (ac_next a) Connect (Some Client_replaced))
         (a\<lparr>ac_next := Suc (ac_next a), ac_last_connect_error := Some Client_replaced,
            ac_calls := AList.delete (ac_next a) (ac_calls a)\<rparr>)"
proof -
  let ?h = "run_cache (sample_cache @ [Get_client sample_settings sample_credentials]) empty_cache"
  have "map_option key_of (map_of (ch_clients ?h) 0) = Some (Cache_key 7 ''id'')" by code_simp
  then obtain a where a: "map_of (ch_clients ?h) 0 = Some a" "key_of a = Cache_key 7 ''id''" by auto
  have "map_option fst (map_of (ch_entries ?h) (Cache_key 7 ''id'')) \<noteq> Some 0" by code_simp
  then have other: "map_option fst (map_of (ch_entries ?h) (key_of a)) \<noteq> Some 0" unfolding a(2) .
  have ended: "ch_ended_loops ?h = [5]" by code_simp
  have "(6::nat) \<notin> set (ch_ended_loops ?h)" unfolding ended by simp
  from one_client_per_account [OF refl a(1) other this] show ?thesis unfolding ended using a(1) by blast
qed

lemma replacement_keeps_the_tokens_witness:
  "\<exists>a b. cached_client (Cache_key (se_trader_login sample_settings) (client_id sample_credentials))
       (run_cache sample_cache empty_cache) = Some a \<and>
     cached_client (Cache_key (se_trader_login sample_settings) (client_id sample_credentials))
       (get_client sample_settings sample_credentials (run_cache sample_cache empty_cache)) = Some b \<and>
     account_tokens b = account_tokens a \<and> ac_token_listeners b = ac_token_listeners a"
proof -
  let ?h = "run_cache sample_cache empty_cache"
  let ?key = "Cache_key (se_trader_login sample_settings) (client_id sample_credentials)"
  have "map_option (loop_closed (ch_ended_loops ?h)) (cached_client ?key ?h) = Some True" by code_simp
  then obtain a where a: "cached_client ?key ?h = Some a" "loop_closed (ch_ended_loops ?h) a" by auto
  from replacement_keeps_the_tokens [OF refl this] show ?thesis using a(1) by blast
qed

end
