(* ===== verification/Subscriptions.thy ===== *)
theory Subscriptions
  imports Session
begin

text \<open>
  \<open>common/subscriptions.py\<close>: the spot and trendbar subscriptions of an account, counted by consumer.
  Its four coroutines and the restores are operations (\<open>operation\<close>) cut where they wait: for the lock
  of a key or for the answer to a request, so every interleaving of calls, answers, cancellations and
  losses is a list of events. Sessions are numbered; of each the registry sees its state, its bring-up
  generation, its restores and which of them failed (\<open>attached\<close>). Ghost state says what the venue surely
  has: \<open>at_live\<close>, cleared when the connection is, and \<open>at_todo\<close>, the restores of a bring-up not run
  yet. A session's moves are events with what \<open>Session\<close> and \<open>Connection_Replies\<close> show of them as
  guards: it restores only when no request is unanswered, and is ready only when every restore ran.
  A listener is a number; which listeners raise is an argument. A request is known by its key.
\<close>

subsection \<open>State\<close>

datatype sub_key = Spots int | Trendbar int int

type_synonym consumer = "string \<times> string"

definition trendbar_spot_consumer :: "int \<Rightarrow> consumer \<Rightarrow> consumer" where
  "trendbar_spot_consumer period c =
     (fst c, ''trendbar:'' @ int_text period @ '':'' @ snd c)"

record LastSpot =
  sp_bid :: "int option"
  sp_ask :: "int option"
  sp_at :: int
  sp_timestamp :: "int option"

record Intent =
  it_wanted :: bool
  it_pending :: nat

record attached =
  at_state :: SessionState
  at_generation :: int
  at_restores :: "sub_key list"
  at_failed :: "sub_key list"
  at_todo :: "sub_key list"
  at_live :: "sub_key list"

datatype sub_call =
    Subscribe_spots int consumer
  | Unsubscribe_spots int consumer
  | Subscribe_trendbars int int consumer
  | Unsubscribe_trendbars int int consumer
  | Run_restore nat sub_key

text \<open>
  Where a call is: the reference it takes or drops, or the request of a restore. \<open>Bars_enter\<close> waits for
  the trendbar lock; \<open>Bars_undo\<close> drops the spot leg of a refused trendbar.
\<close>

datatype sub_stage =
    Take_spots
  | Drop_spots
  | Bars_enter
  | Bars_spots
  | Bars_take
  | Bars_undo
  | Bars_drop
  | Bars_drop_spots
  | Restore_request nat

text \<open>\<open>op_asked\<close>: the session the request in flight went through; None while it waits for a lock.\<close>

record operation =
  op_call :: sub_call
  op_stage :: sub_stage
  op_asked :: "nat option"

record SubscriptionRegistry =
  sr_session :: "nat option"
  sr_sessions :: "(nat, attached) dict"
  sr_consumers :: "(sub_key, consumer list) dict"
  sr_intents :: "(sub_key \<times> consumer, Intent) dict"
  sr_maybe :: "sub_key list"
  sr_locks :: "(sub_key, nat) dict"
  sr_operations :: "(nat, operation) dict"
  sr_next :: nat
  sr_spot_listeners :: "(int, nat list) dict"
  sr_failing :: "nat list"
  sr_last_spots :: "(int, int \<times> LastSpot) dict"
  sr_recovery_listeners :: "nat list"
  sr_recovered :: "(int \<times> int) list"

definition new_registry :: SubscriptionRegistry where
  "new_registry = \<lparr>sr_session = None, sr_sessions = [], sr_consumers = [], sr_intents = [], sr_maybe = [],
     sr_locks = [], sr_operations = [], sr_next = 0, sr_spot_listeners = [], sr_failing = [],
     sr_last_spots = [], sr_recovery_listeners = [], sr_recovered = []\<rparr>"

definition ALREADY_SUBSCRIBED :: string where
  "ALREADY_SUBSCRIBED = ''ALREADY_SUBSCRIBED''"

definition sb_accepts :: "SessionState \<Rightarrow> bool" where
  "sb_accepts st \<longleftrightarrow> st = READY \<or> st = RESTORING"

definition consumers_of :: "sub_key \<Rightarrow> SubscriptionRegistry \<Rightarrow> consumer list" where
  "consumers_of k s = dict_get (sr_consumers s) k []"

definition is_held :: "sub_key \<Rightarrow> SubscriptionRegistry \<Rightarrow> bool" where
  "is_held k s \<longleftrightarrow> map_of (sr_consumers s) k \<noteq> None"

text \<open>The messages of a key.\<close>

datatype sub_request =
    ProtoOASubscribeSpotsReq int "int list" bool
  | ProtoOASubscribeLiveTrendbarReq int int int
  | ProtoOAUnsubscribeSpotsReq int "int list"
  | ProtoOAUnsubscribeLiveTrendbarReq int int int

definition subscribe_request :: "int \<Rightarrow> sub_key \<Rightarrow> sub_request" where
  "subscribe_request account_id k =
     (case k of
        Spots symbol \<Rightarrow> ProtoOASubscribeSpotsReq account_id [symbol] True
      | Trendbar symbol period \<Rightarrow> ProtoOASubscribeLiveTrendbarReq account_id symbol period)"

definition unsubscribe_request :: "int \<Rightarrow> sub_key \<Rightarrow> sub_request" where
  "unsubscribe_request account_id k =
     (case k of
        Spots symbol \<Rightarrow> ProtoOAUnsubscribeSpotsReq account_id [symbol]
      | Trendbar symbol period \<Rightarrow> ProtoOAUnsubscribeLiveTrendbarReq account_id symbol period)"

subsection \<open>The session\<close>

definition the_attached :: "SubscriptionRegistry \<Rightarrow> attached option" where
  "the_attached s = (case sr_session s of None \<Rightarrow> None | Some n \<Rightarrow> map_of (sr_sessions s) n)"

definition accepting_session :: "SubscriptionRegistry \<Rightarrow> nat option" where
  "accepting_session s =
     (case (sr_session s, the_attached s) of
        (Some n, Some a) \<Rightarrow> if sb_accepts (at_state a) then Some n else None
      | _ \<Rightarrow> None)"

definition on_session ::
    "(attached \<Rightarrow> attached) \<Rightarrow> nat \<Rightarrow> SubscriptionRegistry \<Rightarrow> SubscriptionRegistry" where
  "on_session f n s =
     (case map_of (sr_sessions s) n of
        None \<Rightarrow> s | Some a \<Rightarrow> s\<lparr>sr_sessions := AList.update n (f a) (sr_sessions s)\<rparr>)"

definition on_attached ::
    "(attached \<Rightarrow> attached) \<Rightarrow> SubscriptionRegistry \<Rightarrow> SubscriptionRegistry" where
  "on_attached f s = (case sr_session s of None \<Rightarrow> s | Some n \<Rightarrow> on_session f n s)"

definition sb_add_restore :: "sub_key \<Rightarrow> attached \<Rightarrow> attached" where
  "sb_add_restore k a = a\<lparr>at_restores := List.insert k (at_restores a)\<rparr>"

definition sb_remove_restore :: "sub_key \<Rightarrow> attached \<Rightarrow> attached" where
  "sb_remove_restore k a =
     a\<lparr>at_restores := removeAll k (at_restores a), at_failed := removeAll k (at_failed a)\<rparr>"

definition sb_mark_restore_failed :: "sub_key \<Rightarrow> attached \<Rightarrow> attached" where
  "sb_mark_restore_failed k a =
     (if k \<in> set (at_restores a) then a\<lparr>at_failed := List.insert k (at_failed a)\<rparr> else a)"

text \<open>What the venue answered to a subscribe that went through: it has the key.\<close>

definition now_live :: "sub_key \<Rightarrow> attached \<Rightarrow> attached" where
  "now_live k a = a\<lparr>at_live := List.insert k (at_live a)\<rparr>"

definition maybe_gone :: "sub_key \<Rightarrow> attached \<Rightarrow> attached" where
  "maybe_gone k a = a\<lparr>at_live := removeAll k (at_live a)\<rparr>"

subsection \<open>Intents\<close>

definition counted :: "sub_key \<Rightarrow> consumer \<Rightarrow> SubscriptionRegistry \<Rightarrow> bool" where
  "counted k c s \<longleftrightarrow>
     c \<in> set (consumers_of k s) \<or>
     (case k of
        Spots _ \<Rightarrow> False
      | Trendbar symbol period \<Rightarrow>
          trendbar_spot_consumer period c \<in> set (consumers_of (Spots symbol) s))"

definition intent_of :: "sub_key \<Rightarrow> consumer \<Rightarrow> SubscriptionRegistry \<Rightarrow> Intent" where
  "intent_of k c s = dict_get (sr_intents s) (k, c) \<lparr>it_wanted = False, it_pending = 0\<rparr>"

definition subscribing :: "sub_key \<Rightarrow> consumer \<Rightarrow> SubscriptionRegistry \<Rightarrow> SubscriptionRegistry" where
  "subscribing k c s =
     s\<lparr>sr_intents := AList.update (k, c)
         \<lparr>it_wanted = True, it_pending = Suc (it_pending (intent_of k c s))\<rparr> (sr_intents s)\<rparr>"

definition releasing :: "sub_key \<Rightarrow> consumer \<Rightarrow> SubscriptionRegistry \<Rightarrow> SubscriptionRegistry" where
  "releasing k c s =
     s\<lparr>sr_intents := AList.update (k, c) ((intent_of k c s)\<lparr>it_wanted := False\<rparr>) (sr_intents s)\<rparr>"

definition sb_settle :: "sub_key \<Rightarrow> consumer \<Rightarrow> SubscriptionRegistry \<Rightarrow> SubscriptionRegistry" where
  "sb_settle k c s =
     (case map_of (sr_intents s) (k, c) of
        None \<Rightarrow> s
      | Some i \<Rightarrow>
          if 0 < it_pending i \<or> counted k c s then s
          else s\<lparr>sr_intents := AList.delete (k, c) (sr_intents s)\<rparr>)"

definition no_longer_pending ::
    "sub_key \<Rightarrow> consumer \<Rightarrow> SubscriptionRegistry \<Rightarrow> SubscriptionRegistry" where
  "no_longer_pending k c s =
     (case map_of (sr_intents s) (k, c) of
        None \<Rightarrow> s
      | Some i \<Rightarrow>
          s\<lparr>sr_intents := AList.update (k, c) (i\<lparr>it_pending := it_pending i - 1\<rparr>) (sr_intents s)\<rparr>)"

text \<open>The key and consumer a call is about, and the reference its stage takes or drops.\<close>

fun call_key :: "sub_call \<Rightarrow> sub_key" where
  "call_key (Subscribe_spots symbol c) = Spots symbol"
| "call_key (Unsubscribe_spots symbol c) = Spots symbol"
| "call_key (Subscribe_trendbars symbol period c) = Trendbar symbol period"
| "call_key (Unsubscribe_trendbars symbol period c) = Trendbar symbol period"
| "call_key (Run_restore n k) = k"

fun call_consumer :: "sub_call \<Rightarrow> consumer option" where
  "call_consumer (Subscribe_spots symbol c) = Some c"
| "call_consumer (Unsubscribe_spots symbol c) = Some c"
| "call_consumer (Subscribe_trendbars symbol period c) = Some c"
| "call_consumer (Unsubscribe_trendbars symbol period c) = Some c"
| "call_consumer (Run_restore n k) = None"

definition is_subscribe :: "sub_call \<Rightarrow> bool" where
  "is_subscribe call =
     (case call of Subscribe_spots _ _ \<Rightarrow> True | Subscribe_trendbars _ _ _ \<Rightarrow> True | _ \<Rightarrow> False)"

definition spot_leg_of :: "sub_call \<Rightarrow> sub_key \<times> consumer" where
  "spot_leg_of call =
     (case call of
        Subscribe_trendbars symbol period c \<Rightarrow> (Spots symbol, trendbar_spot_consumer period c)
      | Unsubscribe_trendbars symbol period c \<Rightarrow> (Spots symbol, trendbar_spot_consumer period c)
      | _ \<Rightarrow> (call_key call, case call_consumer call of None \<Rightarrow> ('''', '''') | Some c \<Rightarrow> c))"

definition reference_of :: "operation \<Rightarrow> sub_key \<times> consumer" where
  "reference_of op1 =
     (if op_stage op1 = Bars_spots \<or> op_stage op1 = Bars_undo \<or> op_stage op1 = Bars_drop_spots
      then spot_leg_of (op_call op1)
      else (call_key (op_call op1), case call_consumer (op_call op1) of None \<Rightarrow> ('''', '''') | Some c \<Rightarrow> c))"

subsection \<open>Operations and locks\<close>

definition put_op :: "nat \<Rightarrow> operation \<Rightarrow> SubscriptionRegistry \<Rightarrow> SubscriptionRegistry" where
  "put_op i op1 s = s\<lparr>sr_operations := AList.update i op1 (sr_operations s)\<rparr>"

definition unlock :: "sub_key \<Rightarrow> SubscriptionRegistry \<Rightarrow> SubscriptionRegistry" where
  "unlock k s = s\<lparr>sr_locks := AList.delete k (sr_locks s)\<rparr>"

text \<open>The key of the lock a stage waits for: spots for the spot legs.\<close>

definition lock_key :: "operation \<Rightarrow> sub_key" where
  "lock_key op1 = fst (reference_of op1)"

definition waits_for :: "sub_key \<Rightarrow> operation \<Rightarrow> bool" where
  "waits_for k op1 \<longleftrightarrow> op_asked op1 = None \<and> lock_key op1 = k"

text \<open>The end of a call: the locks it holds, and what is known of its intent.\<close>

definition free_locks :: "nat \<Rightarrow> SubscriptionRegistry \<Rightarrow> SubscriptionRegistry" where
  "free_locks i s = s\<lparr>sr_locks := filter (\<lambda>(k, j). j \<noteq> i) (sr_locks s)\<rparr>"

definition end_op :: "nat \<Rightarrow> operation \<Rightarrow> SubscriptionRegistry \<Rightarrow> SubscriptionRegistry" where
  "end_op i op1 s =
     (let s = free_locks i (s\<lparr>sr_operations := AList.delete i (sr_operations s)\<rparr>); k = call_key (op_call op1)
      in case call_consumer (op_call op1) of
           None \<Rightarrow> s
         | Some c \<Rightarrow>
             if is_subscribe (op_call op1) then sb_settle k c (no_longer_pending k c s)
             else sb_settle k c s)"

subsection \<open>Taking a reference\<close>

definition sb_record :: "sub_key \<Rightarrow> consumer \<Rightarrow> SubscriptionRegistry \<Rightarrow> SubscriptionRegistry" where
  "sb_record k c s =
     on_attached (sb_add_restore k)
       (s\<lparr>sr_consumers := AList.update k (List.insert c (consumers_of k s)) (sr_consumers s)\<rparr>)"

definition record_unknown ::
    "nat \<Rightarrow> sub_key \<Rightarrow> consumer \<Rightarrow> SubscriptionRegistry \<Rightarrow> SubscriptionRegistry" where
  "record_unknown n k c s =
     (let s = sb_record k c s
      in if accepting_session s = Some n then on_session (sb_mark_restore_failed k) n s else s)"

text \<open>\<open>_acquire\<close> up to its request; \<open>go\<close> is what the caller does once it returns.\<close>

definition sb_acquire ::
    "nat \<Rightarrow> operation \<Rightarrow> (SubscriptionRegistry \<Rightarrow> SubscriptionRegistry) \<Rightarrow>
     SubscriptionRegistry \<Rightarrow> SubscriptionRegistry" where
  "sb_acquire i op1 go s =
     (case reference_of op1 of (k, c) \<Rightarrow>
        if is_held k s \<and> k \<notin> set (sr_maybe s)
        then go (s\<lparr>sr_consumers := AList.update k (List.insert c (consumers_of k s)) (sr_consumers s)\<rparr>)
        else case accepting_session s of
               None \<Rightarrow> go (sb_record k c s)
             | Some n \<Rightarrow> put_op i (op1\<lparr>op_asked := Some n\<rparr>) s)"

text \<open>\<open>subscribe_trendbars\<close> once its spot leg is taken: the spots lock is let go, the trendbar lock held.\<close>

definition bars_take :: "nat \<Rightarrow> operation \<Rightarrow> SubscriptionRegistry \<Rightarrow> SubscriptionRegistry" where
  "bars_take i op1 s =
     (let op2 = op1\<lparr>op_stage := Bars_take, op_asked := None\<rparr>
      in sb_acquire i op2 (end_op i op2) (unlock (fst (spot_leg_of (op_call op1))) s))"

definition taken :: "nat \<Rightarrow> operation \<Rightarrow> SubscriptionRegistry \<Rightarrow> SubscriptionRegistry" where
  "taken i op1 s = (if op_stage op1 = Bars_spots then bars_take i op1 s else end_op i op1 s)"

subsection \<open>Dropping a reference\<close>

text \<open>What is done with a reference whose request has run its course.\<close>

definition dropped :: "sub_key \<Rightarrow> SubscriptionRegistry \<Rightarrow> SubscriptionRegistry" where
  "dropped k s =
     on_attached (sb_remove_restore k)
       (s\<lparr>sr_consumers := AList.delete k (sr_consumers s), sr_maybe := removeAll k (sr_maybe s),
          sr_last_spots := (case k of Spots symbol \<Rightarrow> AList.delete symbol (sr_last_spots s)
                                    | Trendbar _ _ \<Rightarrow> sr_last_spots s)\<rparr>)"

text \<open>\<open>_release\<close> up to its request: from then on the venue may not have the key.\<close>

definition sb_release ::
    "nat \<Rightarrow> operation \<Rightarrow> (SubscriptionRegistry \<Rightarrow> SubscriptionRegistry) \<Rightarrow>
     SubscriptionRegistry \<Rightarrow> SubscriptionRegistry" where
  "sb_release i op1 go s =
     (case reference_of op1 of (k, c) \<Rightarrow>
        if c \<notin> set (consumers_of k s) then go s
        else if 1 < length (consumers_of k s)
        then go (s\<lparr>sr_consumers := AList.update k (removeAll c (consumers_of k s)) (sr_consumers s)\<rparr>)
        else case accepting_session s of
               None \<Rightarrow> go (dropped k s)
             | Some n \<Rightarrow> put_op i (op1\<lparr>op_asked := Some n\<rparr>) (on_session (maybe_gone k) n s))"

text \<open>The lock a stage waits for, taken at once when it is free and nobody waits for it.\<close>

definition want_lock ::
    "nat \<Rightarrow> operation \<Rightarrow> (SubscriptionRegistry \<Rightarrow> SubscriptionRegistry) \<Rightarrow>
     SubscriptionRegistry \<Rightarrow> SubscriptionRegistry" where
  "want_lock i op1 go s =
     (if map_of (sr_locks s) (lock_key op1) = None \<and>
         list_all (\<lambda>(j, other). j = i \<or> \<not> waits_for (lock_key op1) other) (sr_operations s)
      then go (s\<lparr>sr_locks := AList.update (lock_key op1) i (sr_locks s)\<rparr>)
      else put_op i op1 s)"

text \<open>
  \<open>unsubscribe_trendbars\<close> goes on to its spot leg however the trendbar's release ended.
\<close>

definition drop_leg :: "nat \<Rightarrow> operation \<Rightarrow> SubscriptionRegistry \<Rightarrow> SubscriptionRegistry" where
  "drop_leg i op1 s =
     (let op2 = op1\<lparr>op_stage := Bars_drop_spots, op_asked := None\<rparr>
      in want_lock i op2 (sb_release i op2 (end_op i op2)) s)"

definition gone_on :: "nat \<Rightarrow> operation \<Rightarrow> SubscriptionRegistry \<Rightarrow> SubscriptionRegistry" where
  "gone_on i op1 s = (if op_stage op1 = Bars_drop then drop_leg i op1 s else end_op i op1 s)"

subsection \<open>Restores\<close>

text \<open>The requests of a restore: for a trendbar its spots first.\<close>

definition restore_requests :: "sub_key \<Rightarrow> sub_key list" where
  "restore_requests k = (case k of Spots _ \<Rightarrow> [k] | Trendbar symbol _ \<Rightarrow> [Spots symbol, k])"

definition sb_notify_recovered :: "sub_key \<Rightarrow> nat \<Rightarrow> SubscriptionRegistry \<Rightarrow> SubscriptionRegistry" where
  "sb_notify_recovered k n s =
     (case (k, map_of (sr_sessions s) n) of
        (Trendbar symbol period, Some a) \<Rightarrow>
          if k \<in> set (at_failed a) then s\<lparr>sr_recovered := sr_recovered s @ [(symbol, period)]\<rparr> else s
      | _ \<Rightarrow> s)"

text \<open>
  What the session does with a restore that ended: run, or failed while it accepts requests.
\<close>

definition restore_ran :: "sub_key \<Rightarrow> attached \<Rightarrow> attached" where
  "restore_ran k a = a\<lparr>at_todo := removeAll k (at_todo a), at_failed := removeAll k (at_failed a)\<rparr>"

definition restore_failed :: "sub_key \<Rightarrow> attached \<Rightarrow> attached" where
  "restore_failed k a =
     a\<lparr>at_todo := removeAll k (at_todo a), at_failed := List.insert k (at_failed a)\<rparr>"

definition restore_ended :: "nat \<Rightarrow> operation \<Rightarrow> SubscriptionRegistry \<Rightarrow> SubscriptionRegistry" where
  "restore_ended i op1 s =
     (case op_call op1 of
        Run_restore n k \<Rightarrow> end_op i op1 (on_session (restore_ran k) n s)
      | _ \<Rightarrow> end_op i op1 s)"

text \<open>
  The body of the loop of \<open>restore\<close>, the lock taken; a session that accepts no requests raises at once.
\<close>

definition restore_locked :: "nat \<Rightarrow> operation \<Rightarrow> SubscriptionRegistry \<Rightarrow> SubscriptionRegistry" where
  "restore_locked i op1 s =
     (case op_call op1 of
        Run_restore n k \<Rightarrow>
          if \<not> is_held k s then restore_ended i op1 s
          else if (case map_of (sr_sessions s) n of None \<Rightarrow> False | Some a \<Rightarrow> sb_accepts (at_state a))
          then put_op i (op1\<lparr>op_asked := Some n\<rparr>) s
          else end_op i op1 s
      | _ \<Rightarrow> s)"

text \<open>A request of a restore went through: the lock is let go, here or with the end of the restore.\<close>

definition restore_next :: "nat \<Rightarrow> operation \<Rightarrow> SubscriptionRegistry \<Rightarrow> SubscriptionRegistry" where
  "restore_next i op1 s =
     (case (op_call op1, op_stage op1) of
        (Run_restore n k, Restore_request j) \<Rightarrow>
          if Suc j < length (restore_requests k)
          then (let op2 = op1\<lparr>op_stage := Restore_request (Suc j), op_asked := None\<rparr>
                in want_lock i op2 (restore_locked i op2) (unlock k s))
          else (let s = on_session (now_live k) n (s\<lparr>sr_maybe := removeAll k (sr_maybe s)\<rparr>)
                in restore_ended i op1 (sb_notify_recovered k n s))
      | _ \<Rightarrow> s)"

subsection \<open>Calls\<close>

definition first_stage :: "sub_call \<Rightarrow> sub_stage" where
  "first_stage call =
     (case call of
        Subscribe_spots _ _ \<Rightarrow> Take_spots
      | Unsubscribe_spots _ _ \<Rightarrow> Drop_spots
      | Subscribe_trendbars _ _ _ \<Rightarrow> Bars_enter
      | Unsubscribe_trendbars _ _ _ \<Rightarrow> Bars_drop
      | Run_restore _ _ \<Rightarrow> Restore_request 0)"

definition bars_entered :: "nat \<Rightarrow> operation \<Rightarrow> SubscriptionRegistry \<Rightarrow> SubscriptionRegistry" where
  "bars_entered i op1 s =
     (case reference_of op1 of (k, c) \<Rightarrow>
        if c \<in> set (consumers_of k s) \<and> k \<notin> set (sr_maybe s) then end_op i op1 s
        else let op2 = op1\<lparr>op_stage := Bars_spots\<rparr> in want_lock i op2 (sb_acquire i op2 (taken i op2)) s)"

text \<open>A stage, its lock taken.\<close>

definition locked_stage :: "nat \<Rightarrow> operation \<Rightarrow> SubscriptionRegistry \<Rightarrow> SubscriptionRegistry" where
  "locked_stage i op1 s =
     (case op_stage op1 of
        Bars_enter \<Rightarrow> bars_entered i op1 s
      | Take_spots \<Rightarrow> sb_acquire i op1 (taken i op1) s
      | Bars_spots \<Rightarrow> sb_acquire i op1 (taken i op1) s
      | Bars_take \<Rightarrow> s
      | Restore_request _ \<Rightarrow> restore_locked i op1 s
      | _ \<Rightarrow> sb_release i op1 (gone_on i op1) s)"

definition start_call :: "sub_call \<Rightarrow> SubscriptionRegistry \<Rightarrow> SubscriptionRegistry" where
  "start_call call s =
     (let i = sr_next s; s = s\<lparr>sr_next := Suc i\<rparr>;
          op1 = \<lparr>op_call = call, op_stage = first_stage call, op_asked = None\<rparr>;
          s = (case call_consumer call of
                 None \<Rightarrow> s
               | Some c \<Rightarrow>
                   if is_subscribe call then subscribing (call_key call) c s
                   else releasing (call_key call) c s)
      in want_lock i op1 (locked_stage i op1) s)"

subsection \<open>Answers\<close>

text \<open>
  A request's outcome: answered, refused with a code, a lost connection, a timeout, or another error
  of the adapter.
\<close>

datatype sub_answer = Sub_done | Sub_refused string | Sub_lost | Sub_timeout | Sub_error

definition is_taking :: "sub_stage \<Rightarrow> bool" where
  "is_taking st \<longleftrightarrow> st = Take_spots \<or> st = Bars_spots \<or> st = Bars_take"

text \<open>The rest of \<open>_acquire\<close>, and what the callers do with a refusal.\<close>

definition take_refused :: "nat \<Rightarrow> operation \<Rightarrow> SubscriptionRegistry \<Rightarrow> SubscriptionRegistry" where
  "take_refused i op1 s =
     (if op_stage op1 = Bars_take
      then (let op2 = op1\<lparr>op_stage := Bars_undo, op_asked := None\<rparr>
            in want_lock i op2 (sb_release i op2 (end_op i op2)) s)
      else end_op i op1 s)"

definition take_answered ::
    "nat \<Rightarrow> nat \<Rightarrow> operation \<Rightarrow> sub_answer \<Rightarrow> SubscriptionRegistry \<Rightarrow> SubscriptionRegistry" where
  "take_answered i n op1 answer s =
     (case reference_of op1 of (k, c) \<Rightarrow>
        if answer = Sub_done \<or> answer = Sub_refused ALREADY_SUBSCRIBED
        then taken i op1 (let s = sb_record k c (on_session (now_live k) n s)
                          in s\<lparr>sr_maybe := removeAll k (sr_maybe s)\<rparr>)
        else case answer of
               Sub_refused code \<Rightarrow> take_refused i op1 s
             | Sub_lost \<Rightarrow> taken i op1 (record_unknown n k c s)
             | Sub_timeout \<Rightarrow> taken i op1 (record_unknown n k c s)
             | _ \<Rightarrow>
                 if accepting_session s = Some n then end_op i op1 s
                 else taken i op1 (record_unknown n k c s))"

text \<open>
  A restore that fails: a bring-up that is not lost notes it as failed, a retry leaves it among the
  failed.
\<close>

definition restore_answered ::
    "nat \<Rightarrow> nat \<Rightarrow> operation \<Rightarrow> sub_answer \<Rightarrow> SubscriptionRegistry \<Rightarrow> SubscriptionRegistry" where
  "restore_answered i n op1 answer s =
     (if answer = Sub_done \<or> answer = Sub_refused ALREADY_SUBSCRIBED then restore_next i op1 s
      else let s = end_op i op1 s
           in if answer \<noteq> Sub_lost \<and>
                 (case map_of (sr_sessions s) n of None \<Rightarrow> False | Some a \<Rightarrow> at_state a = RESTORING)
              then on_session (restore_failed (call_key (op_call op1))) n s else s)"

definition sub_answered ::
    "nat \<Rightarrow> nat \<Rightarrow> operation \<Rightarrow> sub_answer \<Rightarrow> SubscriptionRegistry \<Rightarrow> SubscriptionRegistry" where
  "sub_answered i n op1 answer s =
     (case op_stage op1 of
        Restore_request _ \<Rightarrow> restore_answered i n op1 answer s
      | st \<Rightarrow>
          if is_taking st then take_answered i n op1 answer s
          else gone_on i op1 (dropped (fst (reference_of op1)) s))"

text \<open>A cancelled call, waiting for a lock or for an answer.\<close>

definition release_cancelled :: "sub_key \<Rightarrow> SubscriptionRegistry \<Rightarrow> SubscriptionRegistry" where
  "release_cancelled k s =
     s\<lparr>sr_maybe := List.insert k (sr_maybe s),
       sr_last_spots := (case k of Spots symbol \<Rightarrow> AList.delete symbol (sr_last_spots s)
                                 | Trendbar _ _ \<Rightarrow> sr_last_spots s)\<rparr>"

definition sub_cancelled :: "nat \<Rightarrow> operation \<Rightarrow> SubscriptionRegistry \<Rightarrow> SubscriptionRegistry" where
  "sub_cancelled i op1 s =
     (case op_asked op1 of
        None \<Rightarrow> end_op i op1 s
      | Some n \<Rightarrow>
          (case reference_of op1 of (k, c) \<Rightarrow>
             (case op_stage op1 of
                Restore_request _ \<Rightarrow> end_op i op1 s
              | st \<Rightarrow>
                  if is_taking st then end_op i op1 (record_unknown n k c s)
                  else gone_on i op1 (release_cancelled k s))))"

subsection \<open>Spots\<close>

record ProtoOASpotEvent =
  se_symbolId :: int
  se_bid :: "int option"
  se_ask :: "int option"
  se_timestamp :: "int option"

definition key_symbol :: "sub_key \<Rightarrow> int" where
  "key_symbol k = (case k of Spots symbol \<Rightarrow> symbol | Trendbar symbol _ \<Rightarrow> symbol)"

definition holds_spots :: "int \<Rightarrow> SubscriptionRegistry \<Rightarrow> bool" where
  "holds_spots symbol s \<longleftrightarrow>
     is_held (Spots symbol) s \<or> list_ex (\<lambda>((k, c), i). key_symbol k = symbol) (sr_intents s)"

definition keep_spot :: "int \<Rightarrow> ProtoOASpotEvent \<Rightarrow> SubscriptionRegistry \<Rightarrow> SubscriptionRegistry" where
  "keep_spot now event s =
     (case the_attached s of
        None \<Rightarrow> s
      | Some a \<Rightarrow>
          if se_bid event = None \<and> se_ask event = None \<or> \<not> holds_spots (se_symbolId event) s then s
          else
            let last1 = (case map_of (sr_last_spots s) (se_symbolId event) of
                           Some (generation1, spot) \<Rightarrow> if generation1 = at_generation a then Some spot else None
                         | None \<Rightarrow> None);
                spot = \<lparr>sp_bid = (if se_bid event \<noteq> None then se_bid event
                                  else case last1 of None \<Rightarrow> None | Some l \<Rightarrow> sp_bid l),
                        sp_ask = (if se_ask event \<noteq> None then se_ask event
                                  else case last1 of None \<Rightarrow> None | Some l \<Rightarrow> sp_ask l),
                        sp_at = now, sp_timestamp = se_timestamp event\<rparr>
            in s\<lparr>sr_last_spots := AList.update (se_symbolId event) (at_generation a, spot) (sr_last_spots s)\<rparr>)"

text \<open>\<open>_on_spot\<close>: the listeners told, \<open>raising\<close> being those that raise.\<close>

definition on_spot ::
    "int \<Rightarrow> nat list \<Rightarrow> ProtoOASpotEvent \<Rightarrow> SubscriptionRegistry \<Rightarrow> nat list \<times> SubscriptionRegistry" where
  "on_spot now raising event s =
     (let s = keep_spot now event s; told = dict_get (sr_spot_listeners s) (se_symbolId event) []
      in (told, s\<lparr>sr_failing := fold List.insert (filter (\<lambda>l. l \<in> set raising) told) (sr_failing s)\<rparr>))"

definition last_spot :: "int \<Rightarrow> SubscriptionRegistry \<Rightarrow> LastSpot option" where
  "last_spot symbol s =
     (case (map_of (sr_last_spots s) symbol, the_attached s) of
        (Some (generation1, spot), Some a) \<Rightarrow>
          if sb_accepts (at_state a) \<and> generation1 = at_generation a then Some spot else None
      | _ \<Rightarrow> None)"

definition add_spot_listener :: "int \<Rightarrow> nat \<Rightarrow> SubscriptionRegistry \<Rightarrow> SubscriptionRegistry" where
  "add_spot_listener symbol l s =
     s\<lparr>sr_spot_listeners :=
         AList.update symbol (dict_get (sr_spot_listeners s) symbol [] @ [l]) (sr_spot_listeners s)\<rparr>"

definition remove_spot_listener :: "int \<Rightarrow> nat \<Rightarrow> SubscriptionRegistry \<Rightarrow> SubscriptionRegistry" where
  "remove_spot_listener symbol l s =
     (let held = dict_get (sr_spot_listeners s) symbol []
      in if l \<notin> set held then s
         else let others = remove1 l held
              in s\<lparr>sr_failing := removeAll l (sr_failing s),
                   sr_spot_listeners := (if others = [] then AList.delete symbol (sr_spot_listeners s)
                                         else AList.update symbol others (sr_spot_listeners s))\<rparr>)"

definition add_trendbar_recovery_listener :: "nat \<Rightarrow> SubscriptionRegistry \<Rightarrow> SubscriptionRegistry" where
  "add_trendbar_recovery_listener l s =
     (if l \<in> set (sr_recovery_listeners s) then s
      else s\<lparr>sr_recovery_listeners := sr_recovery_listeners s @ [l]\<rparr>)"

definition remove_trendbar_recovery_listener :: "nat \<Rightarrow> SubscriptionRegistry \<Rightarrow> SubscriptionRegistry" where
  "remove_trendbar_recovery_listener l s =
     s\<lparr>sr_recovery_listeners := remove1 l (sr_recovery_listeners s)\<rparr>"

subsection \<open>Questions\<close>

definition sb_consumers :: "int \<Rightarrow> SubscriptionRegistry \<Rightarrow> string list" where
  "sb_consumers symbol s = remdups (map snd (consumers_of (Spots symbol) s))"

definition trendbar_consumers :: "int \<Rightarrow> int \<Rightarrow> string \<Rightarrow> SubscriptionRegistry \<Rightarrow> string list" where
  "trendbar_consumers symbol period owner s =
     map snd (filter (\<lambda>c. fst c = owner) (consumers_of (Trendbar symbol period) s))"

definition trendbar_restore_failed :: "int \<Rightarrow> int \<Rightarrow> SubscriptionRegistry \<Rightarrow> bool" where
  "trendbar_restore_failed symbol period s =
     (case the_attached s of None \<Rightarrow> False | Some a \<Rightarrow> Trendbar symbol period \<in> set (at_failed a))"

definition active_consumers :: "int \<Rightarrow> string \<Rightarrow> SubscriptionRegistry \<Rightarrow> string list" where
  "active_consumers symbol owner s =
     map (\<lambda>((k, c), i). snd c)
       (filter (\<lambda>((k, c), i). k = Spots symbol \<and> fst c = owner \<and> it_wanted i) (sr_intents s))"

definition has_active_consumer :: "int \<Rightarrow> string \<Rightarrow> SubscriptionRegistry \<Rightarrow> bool" where
  "has_active_consumer symbol owner s \<longleftrightarrow>
     list_ex (\<lambda>((k, c), i). k = Spots symbol \<and> fst c = owner \<and> it_wanted i) (sr_intents s)"

definition spot_holds :: "string \<Rightarrow> SubscriptionRegistry \<Rightarrow> (int \<times> string) list" where
  "spot_holds owner s =
     List.map_filter (\<lambda>((k, c), i). case k of
         Spots symbol \<Rightarrow> if fst c = owner then Some (symbol, snd c) else None
       | Trendbar _ _ \<Rightarrow> None) (sr_intents s)"

definition trendbar_holds :: "string \<Rightarrow> SubscriptionRegistry \<Rightarrow> (int \<times> int \<times> string) list" where
  "trendbar_holds owner s =
     List.map_filter (\<lambda>((k, c), i). case k of
         Spots _ \<Rightarrow> None
       | Trendbar symbol period \<Rightarrow> if fst c = owner then Some (symbol, period, snd c) else None)
       (sr_intents s)"

subsection \<open>Steps\<close>

definition sb_detach :: "SubscriptionRegistry \<Rightarrow> SubscriptionRegistry" where
  "sb_detach s = s\<lparr>sr_session := None, sr_last_spots := []\<rparr>"

text \<open>\<open>attach\<close> of a session not started yet.\<close>

definition sb_attach :: "nat \<Rightarrow> SubscriptionRegistry \<Rightarrow> SubscriptionRegistry" where
  "sb_attach n s =
     (if map_of (sr_sessions s) n \<noteq> None then s
      else let s = sb_detach s
           in s\<lparr>sr_session := Some n,
                sr_sessions := AList.update n
                  \<lparr>at_state = STOPPED, at_generation = 0, at_restores = map fst (sr_consumers s), at_failed = [],
                   at_todo = [], at_live = []\<rparr> (sr_sessions s)\<rparr>)"

text \<open>
  What the session does: it stops accepting, which ends the connection and what it carried; it begins
  to restore, no request being unanswered and no other session standing; it is ready once every
  restore ran.
\<close>

definition session_moves :: "nat \<Rightarrow> SessionState \<Rightarrow> int \<Rightarrow> SubscriptionRegistry \<Rightarrow> SubscriptionRegistry" where
  "session_moves n st generation1 s =
     (if sb_accepts st then s
      else on_session (\<lambda>a. a\<lparr>at_state := st, at_generation := generation1, at_live := [], at_todo := []\<rparr>) n s)"

definition session_restores :: "SubscriptionRegistry \<Rightarrow> SubscriptionRegistry" where
  "session_restores s =
     (if list_all (\<lambda>(i, op1). op_asked op1 = None) (sr_operations s) \<and>
         list_all (\<lambda>(n, a). \<not> sb_accepts (at_state (the (map_of (sr_sessions s) n)))) (sr_sessions s)
      then on_attached (\<lambda>a. a\<lparr>at_state := RESTORING, at_todo := at_restores a, at_failed := [],
             at_live := []\<rparr>) s
      else s)"

definition session_ready :: "SubscriptionRegistry \<Rightarrow> SubscriptionRegistry" where
  "session_ready s =
     on_attached (\<lambda>a. if at_state a = RESTORING \<and> at_todo a = [] then a\<lparr>at_state := READY\<rparr> else a) s"

datatype sub_event =
    Sub_call sub_call
  | Sub_lock_free nat
  | Sub_reply nat sub_answer
  | Sub_cancel nat
  | Sub_attach nat
  | Sub_detach
  | Session_moves nat SessionState int
  | Session_restores
  | Session_ready
  | Spot int "nat list" ProtoOASpotEvent
  | Listen int nat
  | Unlisten int nat
  | Listen_recovery nat
  | Unlisten_recovery nat

definition sub_step :: "sub_event \<Rightarrow> SubscriptionRegistry \<Rightarrow> SubscriptionRegistry" where
  "sub_step ev s =
     (case ev of
        Sub_call call \<Rightarrow> start_call call s
      | Sub_lock_free i \<Rightarrow>
          (case map_of (sr_operations s) i of
             None \<Rightarrow> s
           | Some op1 \<Rightarrow>
               if op_asked op1 = None \<and> map_of (sr_locks s) (lock_key op1) = None
               then locked_stage i op1 (s\<lparr>sr_locks := AList.update (lock_key op1) i (sr_locks s)\<rparr>)
               else s)
      | Sub_reply i answer \<Rightarrow>
          (case map_of (sr_operations s) i of
             None \<Rightarrow> s
           | Some op1 \<Rightarrow> (case op_asked op1 of None \<Rightarrow> s | Some n \<Rightarrow> sub_answered i n op1 answer s))
      | Sub_cancel i \<Rightarrow>
          (case map_of (sr_operations s) i of None \<Rightarrow> s | Some op1 \<Rightarrow> sub_cancelled i op1 s)
      | Sub_attach n \<Rightarrow> sb_attach n s
      | Sub_detach \<Rightarrow> sb_detach s
      | Session_moves n st generation1 \<Rightarrow> session_moves n st generation1 s
      | Session_restores \<Rightarrow> session_restores s
      | Session_ready \<Rightarrow> session_ready s
      | Spot now raising event \<Rightarrow> snd (on_spot now raising event s)
      | Listen symbol l \<Rightarrow> add_spot_listener symbol l s
      | Unlisten symbol l \<Rightarrow> remove_spot_listener symbol l s
      | Listen_recovery l \<Rightarrow> add_trendbar_recovery_listener l s
      | Unlisten_recovery l \<Rightarrow> remove_trendbar_recovery_listener l s)"

definition sub_run :: "sub_event list \<Rightarrow> SubscriptionRegistry \<Rightarrow> SubscriptionRegistry" where
  "sub_run = fold sub_step"

end
