(* ===== verification/Subscriptions_Safety.thy ===== *)
theory Subscriptions_Safety
  imports Subscriptions
begin

text \<open>
  What every run of \<open>Subscriptions\<close> keeps. \<open>sub_ok\<close> is the invariant of a state in which every call
  waits; \<open>sub_but i call H X\<close> that of a state in the middle of call \<open>i\<close>, which holds the locks
  \<open>H\<close>, the keys \<open>X\<close> being excepted from what the venue has.
\<close>

subsection \<open>The invariant\<close>

definition op_locks :: "operation \<Rightarrow> sub_key set" where
  "op_locks op1 =
     (if op_asked op1 = None
      then (if op_stage op1 = Bars_spots \<or> op_stage op1 = Bars_undo \<or> op_stage op1 = Bars_drop_spots
            then {call_key (op_call op1)} else {})
      else {call_key (op_call op1), lock_key op1})"

definition is_dropping :: "sub_stage \<Rightarrow> bool" where
  "is_dropping st \<longleftrightarrow> st = Drop_spots \<or> st = Bars_undo \<or> st = Bars_drop \<or> st = Bars_drop_spots"

definition stage_fits :: "operation \<Rightarrow> bool" where
  "stage_fits op1 \<longleftrightarrow>
     (case op_call op1 of
        Subscribe_spots _ _ \<Rightarrow> op_stage op1 = Take_spots
      | Unsubscribe_spots _ _ \<Rightarrow> op_stage op1 = Drop_spots
      | Subscribe_trendbars _ _ _ \<Rightarrow>
          op_stage op1 = Bars_enter \<and> op_asked op1 = None \<or> op_stage op1 = Bars_spots \<or>
          op_stage op1 = Bars_take \<or> op_stage op1 = Bars_undo
      | Unsubscribe_trendbars _ _ _ \<Rightarrow> op_stage op1 = Bars_drop \<or> op_stage op1 = Bars_drop_spots
      | Run_restore n _ \<Rightarrow> (\<exists>j. op_stage op1 = Restore_request j) \<and> (op_asked op1 = None \<or> op_asked op1 = Some n))"

text \<open>A call that waits: never for the lock of \<open>Bars_take\<close>, and the last to hold what it asked to drop.\<close>

definition op_fine :: "SubscriptionRegistry \<Rightarrow> operation \<Rightarrow> bool" where
  "op_fine s op1 \<longleftrightarrow> stage_fits op1 \<and> (op_asked op1 = None \<longrightarrow> op_stage op1 \<noteq> Bars_take) \<and>
     (op_asked op1 \<noteq> None \<and> is_dropping (op_stage op1) \<longrightarrow>
        consumers_of (fst (reference_of op1)) s = [snd (reference_of op1)])"

definition asks_to_drop :: "sub_key \<Rightarrow> operation \<Rightarrow> bool" where
  "asks_to_drop k op1 \<longleftrightarrow> op_asked op1 \<noteq> None \<and> is_dropping (op_stage op1) \<and> fst (reference_of op1) = k"

text \<open>Everything below speaks of the calls but \<open>i\<close>; no call is numbered \<open>sr_next\<close>.\<close>

definition other_op :: "nat \<Rightarrow> SubscriptionRegistry \<Rightarrow> nat \<Rightarrow> operation \<Rightarrow> bool" where
  "other_op i s j op1 \<longleftrightarrow> j \<noteq> i \<and> map_of (sr_operations s) j = Some op1"

definition locks_ok :: "nat \<Rightarrow> sub_key set \<Rightarrow> SubscriptionRegistry \<Rightarrow> bool" where
  "locks_ok i H s \<longleftrightarrow> distinct (map fst (sr_locks s)) \<and>
     (\<forall>k j. map_of (sr_locks s) k = Some j \<longleftrightarrow>
        (j = i \<and> k \<in> H \<or> (\<exists>op1. other_op i s j op1 \<and> k \<in> op_locks op1)))"

definition ops_ok :: "nat \<Rightarrow> SubscriptionRegistry \<Rightarrow> bool" where
  "ops_ok i s \<longleftrightarrow> (\<forall>j op1. other_op i s j op1 \<longrightarrow> j < sr_next s \<and> op_fine s op1)"

definition sub_of :: "sub_key \<Rightarrow> consumer \<Rightarrow> sub_call \<Rightarrow> bool" where
  "sub_of k c call \<longleftrightarrow> is_subscribe call \<and> call_key call = k \<and> call_consumer call = Some c"

definition has_intent :: "sub_key \<Rightarrow> consumer \<Rightarrow> SubscriptionRegistry \<Rightarrow> bool" where
  "has_intent k c s \<longleftrightarrow> map_of (sr_intents s) (k, c) \<noteq> None"

definition hold_known :: "sub_key \<Rightarrow> consumer \<Rightarrow> SubscriptionRegistry \<Rightarrow> bool" where
  "hold_known k c s \<longleftrightarrow> has_intent k c s \<or>
     (\<exists>symbol period c0. k = Spots symbol \<and> c = trendbar_spot_consumer period c0 \<and>
        has_intent (Trendbar symbol period) c0 s)"

definition pending_ok :: "nat \<Rightarrow> sub_call option \<Rightarrow> SubscriptionRegistry \<Rightarrow> bool" where
  "pending_ok i mine s \<longleftrightarrow>
     (\<forall>k c. it_pending (intent_of k c s) =
        card {j. \<exists>op1. other_op i s j op1 \<and> sub_of k c (op_call op1)} +
        (case mine of None \<Rightarrow> 0 | Some call \<Rightarrow> if sub_of k c call then 1 else 0))"

definition holds_ok :: "SubscriptionRegistry \<Rightarrow> bool" where
  "holds_ok s \<longleftrightarrow>
     (\<forall>k cs. map_of (sr_consumers s) k = Some cs \<longrightarrow>
        cs \<noteq> [] \<and> distinct cs \<and> (\<forall>c\<in>set cs. hold_known k c s))"

text \<open>What the session has of a key: it is at the venue, or its restore is to come or to be retried.\<close>

definition has_of :: "attached \<Rightarrow> sub_key set" where
  "has_of a = set (at_live a) \<union> set (at_todo a) \<union> set (at_failed a)"

definition settled_keys :: "nat \<Rightarrow> sub_key set \<Rightarrow> SubscriptionRegistry \<Rightarrow> sub_key set" where
  "settled_keys i X s = {k. is_held k s \<and> k \<notin> set (sr_maybe s) \<and> k \<notin> X \<and>
     (\<forall>j op1. other_op i s j op1 \<longrightarrow> \<not> asks_to_drop k op1)}"

definition asks_only :: "nat \<Rightarrow> nat \<Rightarrow> SubscriptionRegistry \<Rightarrow> bool" where
  "asks_only i n s \<longleftrightarrow> (\<forall>j op1 m. other_op i s j op1 \<and> op_asked op1 = Some m \<longrightarrow> m = n)"

definition accepts_only :: "nat \<Rightarrow> SubscriptionRegistry \<Rightarrow> bool" where
  "accepts_only n s \<longleftrightarrow> (\<forall>m b. map_of (sr_sessions s) m = Some b \<and> sb_accepts (at_state b) \<longrightarrow> m = n)"

definition venue_ok :: "nat \<Rightarrow> sub_key set \<Rightarrow> SubscriptionRegistry \<Rightarrow> bool" where
  "venue_ok i X s \<longleftrightarrow>
     (\<forall>n. sr_session s = Some n \<longrightarrow> (\<exists>a. map_of (sr_sessions s) n = Some a \<and>
        set (at_restores a) = {k. is_held k s} \<and>
        (at_state a = READY \<longrightarrow> at_todo a = []) \<and>
        (sb_accepts (at_state a) \<longrightarrow> accepts_only n s \<and> asks_only i n s \<and> settled_keys i X s \<subseteq> has_of a)))"

definition sub_but :: "nat \<Rightarrow> sub_call \<Rightarrow> sub_key set \<Rightarrow> sub_key set \<Rightarrow> SubscriptionRegistry \<Rightarrow> bool" where
  "sub_but i call H X s \<longleftrightarrow> i < sr_next s \<and> locks_ok i H s \<and> ops_ok i s \<and> pending_ok i (Some call) s \<and>
     holds_ok s \<and> venue_ok i X s"

definition sub_ok :: "SubscriptionRegistry \<Rightarrow> bool" where
  "sub_ok s \<longleftrightarrow> locks_ok (sr_next s) {} s \<and> ops_ok (sr_next s) s \<and> pending_ok (sr_next s) None s \<and>
     holds_ok s \<and> venue_ok (sr_next s) {} s \<and> map_of (sr_operations s) (sr_next s) = None"

subsection \<open>Leaving a call and coming back to it\<close>

lemma other_op_next:
  "sub_ok s \<Longrightarrow> other_op (sr_next s) s j op1 \<longleftrightarrow> map_of (sr_operations s) j = Some op1"
  by (auto simp: other_op_def sub_ok_def)

lemma card_calls:
  "finite {j. \<exists>op1. other_op i s j op1 \<and> P op1}"
proof (rule finite_subset)
  show "{j. \<exists>op1. other_op i s j op1 \<and> P op1} \<subseteq> dom (map_of (sr_operations s))"
    by (auto simp: other_op_def)
qed (rule finite_dom_map_of)

lemma ok_but_of_op:
  assumes "sub_ok s" and "map_of (sr_operations s) i = Some op1"
  shows "sub_but i (op_call op1) (op_locks op1) {k. asks_to_drop k op1} s" "op_fine s op1"
proof -
  let ?N = "sr_next s"
  have o: "other_op ?N s j op2 \<longleftrightarrow> map_of (sr_operations s) j = Some op2" for j op2
    by (rule other_op_next [OF assms(1)])
  have k: "locks_ok ?N {} s" "ops_ok ?N s" "pending_ok ?N None s" "holds_ok s" "venue_ok ?N {} s"
    using assms(1) by (simp_all add: sub_ok_def)
  show "op_fine s op1" using k(2) assms(2) o by (auto simp: ops_ok_def)
  have i: "i < ?N" using k(2) assms(2) o by (auto simp: ops_ok_def)
  have "locks_ok i (op_locks op1) s"
    using k(1) assms(2) unfolding locks_ok_def o by (auto simp: other_op_def)
  moreover have "ops_ok i s" using k(2) o by (auto simp: ops_ok_def other_op_def)
  moreover have "pending_ok i (Some (op_call op1)) s"
    unfolding pending_ok_def
  proof (intro allI)
    fix k c
    let ?A = "{j. \<exists>op2. other_op ?N s j op2 \<and> sub_of k c (op_call op2)}"
    let ?B = "{j. \<exists>op2. other_op i s j op2 \<and> sub_of k c (op_call op2)}"
    have "?A = (if sub_of k c (op_call op1) then insert i ?B else ?B)" "i \<notin> ?B"
      using assms(2) o by (auto simp: other_op_def)
    moreover have "finite ?B" by (rule card_calls)
    moreover have "it_pending (intent_of k c s) = card ?A"
      using k(3) unfolding pending_ok_def option.case add_0_right by blast
    ultimately show "it_pending (intent_of k c s) = card ?B +
        (case Some (op_call op1) of None \<Rightarrow> 0 | Some call \<Rightarrow> if sub_of k c call then 1 else 0)" by simp
  qed
  moreover have "venue_ok i {k. asks_to_drop k op1} s"
  proof -
    have "settled_keys i {k. asks_to_drop k op1} s \<subseteq> settled_keys ?N {} s"
      using assms(2) unfolding settled_keys_def o by (auto simp: other_op_def) (metis option.inject)
    moreover have "asks_only ?N n s \<Longrightarrow> asks_only i n s" for n
      unfolding asks_only_def o by (auto simp: other_op_def)
    ultimately show ?thesis using k(5) unfolding venue_ok_def by blast
  qed
  ultimately show "sub_but i (op_call op1) (op_locks op1) {k. asks_to_drop k op1} s"
    using i k(4) by (simp add: sub_but_def)
qed

lemma asked_on_attached:
  assumes "sub_ok s" and "map_of (sr_operations s) i = Some op1" and "op_asked op1 = Some m"
    and "sr_session s = Some n" and "map_of (sr_sessions s) n = Some a" and "sb_accepts (at_state a)"
  shows "m = n"
  using assms other_op_next [OF assms(1)] by (auto simp: sub_ok_def venue_ok_def asks_only_def)

lemma put_op_ok:
  assumes "sub_but i (op_call op1) (op_locks op1) X s" and "op_fine s op1"
    and "X \<subseteq> {k. asks_to_drop k op1}"
    and "\<And>m n a. op_asked op1 = Some m \<Longrightarrow> sr_session s = Some n \<Longrightarrow> map_of (sr_sessions s) n = Some a \<Longrightarrow>
      sb_accepts (at_state a) \<Longrightarrow> m = n"
  shows "sub_ok (put_op i op1 s)"
proof -
  let ?s = "put_op i op1 s" and ?N = "sr_next s"
  have k: "i < ?N" "locks_ok i (op_locks op1) s" "ops_ok i s" "pending_ok i (Some (op_call op1)) s" "holds_ok s" "venue_ok i X s"
    using assms(1) by (simp_all add: sub_but_def)
  have new: "map_of (sr_operations ?s) j = Some op2 \<longleftrightarrow> (if j = i then op2 = op1 else map_of (sr_operations s) j = Some op2)" for j op2
    by (auto simp: put_op_def dict_simps)
  have none: "map_of (sr_operations ?s) ?N = None"
    using k(1,3) by (cases "map_of (sr_operations s) ?N") (auto simp: put_op_def dict_simps ops_ok_def other_op_def)
  have o: "other_op ?N ?s j op2 \<longleftrightarrow> (if j = i then op2 = op1 else other_op i s j op2)" for j op2
    using none new [of j op2] k(1,3) by (auto simp: other_op_def ops_ok_def)
  have frame: "sr_next ?s = ?N" "sr_locks ?s = sr_locks s" "sr_consumers ?s = sr_consumers s" "sr_intents ?s = sr_intents s"
    "sr_session ?s = sr_session s" "sr_sessions ?s = sr_sessions s" "sr_maybe ?s = sr_maybe s"
    by (simp_all add: put_op_def)
  have c: "consumers_of k ?s = consumers_of k s" "is_held k ?s = is_held k s" "intent_of k d ?s = intent_of k d s"
    "hold_known k d ?s = hold_known k d s" for k d
    by (simp_all add: consumers_of_def is_held_def intent_of_def hold_known_def has_intent_def frame)
  have "locks_ok ?N {} ?s"
    using k(2) unfolding locks_ok_def frame o by (auto simp: other_op_def split: if_splits)
  moreover have "ops_ok ?N ?s"
    using k(1,3) assms(2) unfolding ops_ok_def o frame op_fine_def c by auto
  moreover have "pending_ok ?N None ?s"
    unfolding pending_ok_def
  proof (intro allI)
    fix key d
    let ?A = "{j. \<exists>op2. other_op ?N ?s j op2 \<and> sub_of key d (op_call op2)}"
    let ?B = "{j. \<exists>op2. other_op i s j op2 \<and> sub_of key d (op_call op2)}"
    have "?A = (if sub_of key d (op_call op1) then insert i ?B else ?B)" "i \<notin> ?B"
      unfolding o by (auto simp: other_op_def)
    moreover have "finite ?B" by (rule card_calls)
    ultimately show "it_pending (intent_of key d ?s) = card ?A + (case None of None \<Rightarrow> 0 | Some call \<Rightarrow> if sub_of key d call then 1 else 0)"
      using k(4) [unfolded pending_ok_def, rule_format, of key d] c by simp
  qed
  moreover have "holds_ok ?s" using k(5) by (simp add: holds_ok_def frame c)
  moreover have "venue_ok ?N {} ?s"
  proof -
    have "settled_keys ?N {} ?s \<subseteq> settled_keys i X s"
      using assms(3) unfolding settled_keys_def o frame c by (auto split: if_splits simp: other_op_def)
    moreover have "asks_only ?N n ?s" if "asks_only i n s" "\<And>m. op_asked op1 = Some m \<Longrightarrow> m = n" for n
      using that unfolding asks_only_def o by (auto split: if_splits)
    moreover have "accepts_only n ?s = accepts_only n s" for n by (simp add: accepts_only_def frame)
    ultimately show ?thesis using k(6) assms(4) unfolding venue_ok_def frame c by blast
  qed
  ultimately show ?thesis using none by (simp add: sub_ok_def frame)
qed

end
