(* ===== verification/Subscriptions_Keep.thy ===== *)
theory Subscriptions_Keep
  imports Subscriptions_Safety
begin

text \<open>
  The pieces of \<open>Subscriptions\<close> keep its invariant: what is recorded, dropped and noted at one key, by
  the call that holds the key's lock; then the requests, the ends of the calls and every step.
\<close>

subsection \<open>One key changes\<close>

definition sub_core :: "nat \<Rightarrow> sub_call \<Rightarrow> sub_key set \<Rightarrow> SubscriptionRegistry \<Rightarrow> bool" where
  "sub_core i call H s \<longleftrightarrow> i < sr_next s \<and> locks_ok i H s \<and> ops_ok i s \<and> pending_ok i (Some call) s \<and>
     holds_ok s"

lemma sub_but_core: "sub_but i call H X s \<longleftrightarrow> sub_core i call H s \<and> venue_ok i X s"
  by (auto simp: sub_but_def sub_core_def)

text \<open>Two states that differ in the key \<open>k\<close> only, its lock being held by the call in the middle.\<close>

definition same_but :: "sub_key \<Rightarrow> SubscriptionRegistry \<Rightarrow> SubscriptionRegistry \<Rightarrow> bool" where
  "same_but k s s' \<longleftrightarrow>
     sr_session s' = sr_session s \<and> sr_operations s' = sr_operations s \<and> sr_next s' = sr_next s \<and>
     sr_locks s' = sr_locks s \<and> sr_intents s' = sr_intents s \<and>
     (\<forall>x. x \<noteq> k \<longrightarrow> map_of (sr_consumers s') x = map_of (sr_consumers s) x) \<and>
     set (sr_maybe s) - {k} \<subseteq> set (sr_maybe s') \<and>
     (\<forall>n. map_option at_state (map_of (sr_sessions s') n) = map_option at_state (map_of (sr_sessions s) n))"

lemma same_other_op: "same_but k s s' \<Longrightarrow> other_op i s' j op1 = other_op i s j op1"
  by (simp add: same_but_def other_op_def)

lemma same_hold_known: "same_but k s s' \<Longrightarrow> hold_known x c s' = hold_known x c s"
  by (simp add: same_but_def hold_known_def has_intent_def)

lemma same_intent: "same_but k s s' \<Longrightarrow> intent_of x c s' = intent_of x c s"
  by (simp add: same_but_def intent_of_def)

lemma same_consumers: "same_but k s s' \<Longrightarrow> x \<noteq> k \<Longrightarrow> consumers_of x s' = consumers_of x s"
  by (simp add: same_but_def consumers_of_def dict_get_def)

lemma same_held: "same_but k s s' \<Longrightarrow> x \<noteq> k \<Longrightarrow> is_held x s' = is_held x s"
  by (simp add: same_but_def is_held_def)

lemma drop_holds_lock: "asks_to_drop k op1 \<Longrightarrow> k \<in> op_locks op1"
  by (auto simp: asks_to_drop_def op_locks_def lock_key_def)

lemma nobody_drops:
  assumes "locks_ok i H s" and "k \<in> H" and "other_op i s j op1"
  shows "\<not> asks_to_drop k op1"
proof
  assume "asks_to_drop k op1"
  then have "map_of (sr_locks s) k = Some j" using assms drop_holds_lock by (auto simp: locks_ok_def)
  moreover have "map_of (sr_locks s) k = Some i" using assms by (auto simp: locks_ok_def)
  ultimately show False using assms(3) by (simp add: other_op_def)
qed

lemma core_change:
  assumes "sub_core i call H s" and "same_but k s s'" and "k \<in> H"
    and "\<And>cs. map_of (sr_consumers s') k = Some cs \<Longrightarrow>
      cs \<noteq> [] \<and> distinct cs \<and> (\<forall>c\<in>set cs. hold_known k c s)"
  shows "sub_core i call H s'"
proof -
  have k: "i < sr_next s" "locks_ok i H s" "ops_ok i s" "pending_ok i (Some call) s" "holds_ok s"
    using assms(1) by (simp_all add: sub_core_def)
  note o = same_other_op [OF assms(2)]
  have "locks_ok i H s'" using k(2) assms(2) unfolding locks_ok_def o by (simp add: same_but_def)
  moreover have "ops_ok i s'"
    unfolding ops_ok_def o
  proof (intro allI impI)
    fix j op1 assume j: "other_op i s j op1"
    have old: "j < sr_next s" "op_fine s op1" using k(3) j by (auto simp: ops_ok_def)
    have "consumers_of (fst (reference_of op1)) s' = consumers_of (fst (reference_of op1)) s"
      if "op_asked op1 \<noteq> None" "is_dropping (op_stage op1)"
      using that nobody_drops [OF k(2) assms(3) j] same_consumers [OF assms(2)]
      by (auto simp: asks_to_drop_def)
    then show "j < sr_next s' \<and> op_fine s' op1"
      using old assms(2) unfolding op_fine_def same_but_def by simp
  qed
  moreover have "pending_ok i (Some call) s'"
    using k(4) unfolding pending_ok_def o same_intent [OF assms(2)] .
  moreover have "holds_ok s'"
    unfolding holds_ok_def same_hold_known [OF assms(2)]
  proof (intro allI impI)
    fix x cs assume x: "map_of (sr_consumers s') x = Some cs"
    show "cs \<noteq> [] \<and> distinct cs \<and> (\<forall>c\<in>set cs. hold_known x c s)"
    proof (cases "x = k")
      case True
      then show ?thesis using assms(4) x by simp
    next
      case False
      then have "map_of (sr_consumers s) x = Some cs" using x assms(2) by (simp add: same_but_def)
      then show ?thesis using k(5) unfolding holds_ok_def by blast
    qed
  qed
  ultimately show ?thesis using k(1) assms(2) by (simp add: sub_core_def same_but_def)
qed

text \<open>What may become of the attached session's record then.\<close>

definition record_moves :: "sub_key \<Rightarrow> bool \<Rightarrow> attached \<Rightarrow> attached \<Rightarrow> bool" where
  "record_moves k held a b \<longleftrightarrow>
     at_state b = at_state a \<and> (at_todo a = [] \<longrightarrow> at_todo b = []) \<and> has_of a - {k} \<subseteq> has_of b \<and>
     set (at_restores b) = (if held then insert k (set (at_restores a)) else set (at_restores a) - {k})"

lemma venue_change:
  assumes "venue_ok i X s" and "same_but k s s'"
    and "\<And>n a. sr_session s = Some n \<Longrightarrow> map_of (sr_sessions s) n = Some a \<Longrightarrow>
      (\<exists>b. map_of (sr_sessions s') n = Some b \<and> record_moves k (is_held k s') a b)"
  shows "venue_ok i (insert k X) s'"
  unfolding venue_ok_def
proof (intro allI impI)
  fix n assume "sr_session s' = Some n"
  then have n: "sr_session s = Some n" using assms(2) by (simp add: same_but_def)
  obtain a where a: "map_of (sr_sessions s) n = Some a" "set (at_restores a) = {x. is_held x s}"
    "at_state a = READY \<longrightarrow> at_todo a = []"
    "sb_accepts (at_state a) \<longrightarrow> accepts_only n s \<and> asks_only i n s \<and> settled_keys i X s \<subseteq> has_of a"
    using assms(1) n unfolding venue_ok_def by blast
  obtain b where b: "map_of (sr_sessions s') n = Some b" "record_moves k (is_held k s') a b"
    using assms(3) [OF n a(1)] by blast
  have "x \<in> set (at_restores b) \<longleftrightarrow> is_held x s'" for x
    using b(2) a(2) same_held [OF assms(2), of x] by (cases "x = k") (simp_all add: record_moves_def)
  then have "set (at_restores b) = {x. is_held x s'}" by blast
  moreover have "accepts_only n s'" if "accepts_only n s"
    unfolding accepts_only_def
  proof (intro allI impI)
    fix m c assume c: "map_of (sr_sessions s') m = Some c \<and> sb_accepts (at_state c)"
    have "map_option at_state (map_of (sr_sessions s) m) = map_option at_state (map_of (sr_sessions s') m)"
      using assms(2) unfolding same_but_def by presburger
    then show "m = n" using that c unfolding accepts_only_def by force
  qed
  moreover have "asks_only i n s'" if "asks_only i n s"
    using that unfolding asks_only_def same_other_op [OF assms(2)] .
  moreover have "settled_keys i (insert k X) s' \<subseteq> has_of b" if "settled_keys i X s \<subseteq> has_of a"
  proof -
    have "settled_keys i (insert k X) s' \<subseteq> settled_keys i X s - {k}"
      using same_held [OF assms(2)] assms(2)
      unfolding settled_keys_def same_other_op [OF assms(2)] by (auto simp: same_but_def)
    also have "\<dots> \<subseteq> has_of a - {k}" using that by blast
    also have "\<dots> \<subseteq> has_of b" using b(2) by (simp add: record_moves_def)
    finally show ?thesis .
  qed
  ultimately show "\<exists>a. map_of (sr_sessions s') n = Some a \<and> set (at_restores a) = {k. is_held k s'} \<and>
      (at_state a = READY \<longrightarrow> at_todo a = []) \<and>
      (sb_accepts (at_state a) \<longrightarrow> accepts_only n s' \<and> asks_only i n s' \<and> settled_keys i (insert k X) s' \<subseteq> has_of a)"
    using a(3,4) b by (intro exI [of _ b]) (simp add: record_moves_def)
qed

lemma venue_set:
  assumes "venue_ok i Y s"
    and "\<And>n a. sr_session s = Some n \<Longrightarrow> map_of (sr_sessions s) n = Some a \<Longrightarrow> sb_accepts (at_state a) \<Longrightarrow>
      settled_keys i Y s \<subseteq> has_of a \<Longrightarrow> settled_keys i X s \<subseteq> has_of a"
  shows "venue_ok i X s"
  unfolding venue_ok_def
proof (intro allI impI)
  fix n assume n: "sr_session s = Some n"
  then obtain a where a: "map_of (sr_sessions s) n = Some a" "set (at_restores a) = {x. is_held x s}"
    "at_state a = READY \<longrightarrow> at_todo a = []"
    "sb_accepts (at_state a) \<longrightarrow> accepts_only n s \<and> asks_only i n s \<and> settled_keys i Y s \<subseteq> has_of a"
    using assms(1) unfolding venue_ok_def by blast
  show "\<exists>a. map_of (sr_sessions s) n = Some a \<and> set (at_restores a) = {k. is_held k s} \<and>
      (at_state a = READY \<longrightarrow> at_todo a = []) \<and>
      (sb_accepts (at_state a) \<longrightarrow> accepts_only n s \<and> asks_only i n s \<and> settled_keys i X s \<subseteq> has_of a)"
    using a assms(2) [OF n a(1)] by (intro exI [of _ a]) simp
qed

lemma venue_shrink:
  assumes "venue_ok i (insert k X) s"
    and "\<And>n a. sr_session s = Some n \<Longrightarrow> map_of (sr_sessions s) n = Some a \<Longrightarrow> sb_accepts (at_state a) \<Longrightarrow>
      k \<in> has_of a \<or> \<not> is_held k s \<or> k \<in> set (sr_maybe s)"
  shows "venue_ok i X s"
proof (rule venue_set [OF assms(1)])
  fix n a
  assume h: "sr_session s = Some n" "map_of (sr_sessions s) n = Some a" "sb_accepts (at_state a)"
    "settled_keys i (insert k X) s \<subseteq> has_of a"
  have "settled_keys i X s \<subseteq> (if is_held k s \<and> k \<notin> set (sr_maybe s) then insert k (settled_keys i (insert k X) s) else settled_keys i (insert k X) s)"
    by (auto simp: settled_keys_def)
  then show "settled_keys i X s \<subseteq> has_of a" using h(4) assms(2) [OF h(1-3)] by (auto split: if_splits)
qed

lemma venue_more: "venue_ok i X s \<Longrightarrow> X \<subseteq> Y \<Longrightarrow> venue_ok i Y s"
  by (erule venue_set) (auto simp: settled_keys_def)
subsection \<open>What is recorded at a key\<close>

lemma on_session_fields [simp]:
  "sr_session (on_session f n s) = sr_session s" "sr_operations (on_session f n s) = sr_operations s"
  "sr_next (on_session f n s) = sr_next s" "sr_locks (on_session f n s) = sr_locks s"
  "sr_intents (on_session f n s) = sr_intents s" "sr_consumers (on_session f n s) = sr_consumers s"
  "sr_maybe (on_session f n s) = sr_maybe s"
  by (simp_all add: on_session_def split: option.split)

lemma on_session_of:
  "map_of (sr_sessions (on_session f n s)) m =
     (if m = n then map_option f (map_of (sr_sessions s) n) else map_of (sr_sessions s) m)"
  by (auto simp: on_session_def dict_simps split: option.split)

lemma on_attached_fields [simp]:
  "sr_session (on_attached f s) = sr_session s" "sr_operations (on_attached f s) = sr_operations s"
  "sr_next (on_attached f s) = sr_next s" "sr_locks (on_attached f s) = sr_locks s"
  "sr_intents (on_attached f s) = sr_intents s" "sr_consumers (on_attached f s) = sr_consumers s"
  "sr_maybe (on_attached f s) = sr_maybe s"
  by (simp_all add: on_attached_def split: option.split)

lemma on_attached_of:
  "map_of (sr_sessions (on_attached f s)) m =
     (if sr_session s = Some m then map_option f (map_of (sr_sessions s) m) else map_of (sr_sessions s) m)"
  by (simp add: on_attached_def on_session_of split: option.split)

lemma is_held_on [simp]: "is_held k (on_session f n s) = is_held k s" "is_held k (on_attached f s) = is_held k s"
  by (simp_all add: is_held_def)

lemma consumers_of_on [simp]:
  "consumers_of k (on_session f n s) = consumers_of k s" "consumers_of k (on_attached f s) = consumers_of k s"
  by (simp_all add: consumers_of_def)

lemma same_on_session: "(\<And>a. at_state (f a) = at_state a) \<Longrightarrow> same_but k s (on_session f n s)"
  by (simp add: same_but_def on_session_of option.map_comp o_def option.map_ident)

lemma same_record: "same_but k s (sb_record k c s)"
  by (auto simp: same_but_def sb_record_def dict_simps on_attached_of option.map_comp o_def sb_add_restore_def)

lemma same_dropped: "same_but k s (dropped k s)"
  by (auto simp: same_but_def dropped_def dict_simps on_attached_of option.map_comp o_def sb_remove_restore_def)

lemma same_maybe: "set (sr_maybe s) - {k} \<subseteq> set xs \<Longrightarrow> same_but k s (s\<lparr>sr_maybe := xs\<rparr>)"
  by (simp add: same_but_def)

lemma venue_restores:
  "venue_ok i X s \<Longrightarrow> sr_session s = Some n \<Longrightarrow> map_of (sr_sessions s) n = Some a \<Longrightarrow>
     set (at_restores a) = {k. is_held k s}"
  unfolding venue_ok_def by fastforce

lemma venue_same:
  assumes "venue_ok i X s" and "sr_session s' = sr_session s" and "sr_sessions s' = sr_sessions s"
    and "sr_operations s' = sr_operations s" and "sr_maybe s' = sr_maybe s"
    and "\<And>k. is_held k s' = is_held k s"
  shows "venue_ok i X s'"
  using assms unfolding venue_ok_def settled_keys_def asks_only_def accepts_only_def other_op_def by simp

lemma holds_at:
  assumes "holds_ok s"
  shows "distinct (consumers_of k s)" "c \<in> set (consumers_of k s) \<Longrightarrow> hold_known k c s"
    "is_held k s \<longleftrightarrow> consumers_of k s \<noteq> []"
  using assms [unfolded holds_ok_def, rule_format, of k]
  by (cases "map_of (sr_consumers s) k"; fastforce simp: consumers_of_def is_held_def dict_get_def)+

lemma record_but:
  assumes "sub_but i call H X s" and "k \<in> H" and "hold_known k c s"
  shows "sub_but i call H (insert k X) (sb_record k c s)"
proof -
  have k: "sub_core i call H s" "venue_ok i X s" "holds_ok s"
    using assms(1) by (simp_all add: sub_but_core) (simp add: sub_core_def)
  have new: "map_of (sr_consumers (sb_record k c s)) k = Some (List.insert c (consumers_of k s))"
    by (simp add: sb_record_def dict_simps)
  have "sub_core i call H (sb_record k c s)"
    by (rule core_change [OF k(1) same_record assms(2)]) (use holds_at(1) [OF k(3), of k] holds_at(2) [OF k(3), of _ k] assms(3) in \<open>auto simp: new List.insert_def split: if_splits\<close>)
  moreover have "venue_ok i (insert k X) (sb_record k c s)"
    by (rule venue_change [OF k(2) same_record])
      (auto simp: sb_record_def on_attached_of record_moves_def sb_add_restore_def has_of_def is_held_def dict_simps)
  ultimately show ?thesis by (simp add: sub_but_core)
qed

lemma recount_but:
  assumes "sub_but i call H X s" and "k \<in> H" and "is_held k s" and "cs \<noteq> []" and "distinct cs"
    and "\<And>c. c \<in> set cs \<Longrightarrow> hold_known k c s"
  shows "sub_but i call H X (s\<lparr>sr_consumers := AList.update k cs (sr_consumers s)\<rparr>)"
proof -
  let ?s = "s\<lparr>sr_consumers := AList.update k cs (sr_consumers s)\<rparr>"
  have k: "sub_core i call H s" "venue_ok i X s" using assms(1) by (simp_all add: sub_but_core)
  have "same_but k s ?s" by (auto simp: same_but_def dict_simps)
  then have "sub_core i call H ?s"
    by (rule core_change [OF k(1) _ assms(2)]) (use assms(4-6) in \<open>auto simp: dict_simps\<close>)
  moreover have "venue_ok i X ?s"
    by (rule venue_same [OF k(2)]) (use assms(3) in \<open>simp_all add: is_held_def dict_simps\<close>)
  ultimately show ?thesis by (simp add: sub_but_core)
qed

lemma dropped_but:
  assumes "sub_but i call H X s" and "k \<in> H"
  shows "sub_but i call H (X - {k}) (dropped k s)"
proof -
  have k: "sub_core i call H s" "venue_ok i X s" using assms(1) by (simp_all add: sub_but_core)
  have gone: "\<not> is_held k (dropped k s)" by (simp add: dropped_def is_held_def dict_simps)
  have "sub_core i call H (dropped k s)"
    by (rule core_change [OF k(1) same_dropped assms(2)]) (use gone in \<open>simp add: is_held_def\<close>)
  moreover have "venue_ok i (insert k X) (dropped k s)"
    by (rule venue_change [OF k(2) same_dropped])
      (auto simp: dropped_def on_attached_of record_moves_def sb_remove_restore_def has_of_def is_held_def dict_simps)
  then have "venue_ok i (X - {k}) (dropped k s)"
    by (intro venue_shrink [of i k "X - {k}"]) (simp_all add: gone insert_Diff_if insert_absorb)
  ultimately show ?thesis by (simp add: sub_but_core)
qed

text \<open>What is noted of the key at a session, and whether it may be unsubscribed.\<close>

definition notes_at :: "sub_key \<Rightarrow> (attached \<Rightarrow> attached) \<Rightarrow> bool" where
  "notes_at k f \<longleftrightarrow> (\<forall>a. at_state (f a) = at_state a \<and> at_restores (f a) = at_restores a \<and>
     (at_todo a = [] \<longrightarrow> at_todo (f a) = []) \<and> has_of a - {k} \<subseteq> has_of (f a))"

lemma notes_at_simps [simp]:
  "notes_at k (now_live k)" "notes_at k (maybe_gone k)" "notes_at k (sb_mark_restore_failed k)" "notes_at k (restore_ran k)"
  "notes_at k (restore_failed k)"
  by (auto simp: notes_at_def now_live_def maybe_gone_def sb_mark_restore_failed_def restore_ran_def restore_failed_def
      has_of_def)

lemma note_but:
  assumes "sub_but i call H X s" and "k \<in> H" and "notes_at k f"
  shows "sub_but i call H (insert k X) (on_session f n s)"
proof -
  have k: "sub_core i call H s" "venue_ok i X s" "holds_ok s"
    using assms(1) by (simp_all add: sub_but_core) (simp add: sub_core_def)
  have f: "\<And>a. at_state (f a) = at_state a" "\<And>a. record_moves k (k \<in> set (at_restores a)) a (f a)"
    using assms(3) by (auto simp: notes_at_def record_moves_def)
  note same = same_on_session [of f, OF f(1)]
  have "sub_core i call H (on_session f n s)"
    by (rule core_change [OF k(1) same assms(2)]) (use k(3) in \<open>auto simp: holds_ok_def\<close>)
  moreover have "venue_ok i (insert k X) (on_session f n s)"
  proof (rule venue_change [OF k(2) same])
    fix m a assume m: "sr_session s = Some m" "map_of (sr_sessions s) m = Some a"
    then have r: "k \<in> set (at_restores a) \<longleftrightarrow> is_held k s" using venue_restores [OF k(2)] by blast
    show "\<exists>b. map_of (sr_sessions (on_session f n s)) m = Some b \<and> record_moves k (is_held k (on_session f n s)) a b"
      using m f(2) [of a] r by (auto simp: on_session_of record_moves_def)
  qed
  ultimately show ?thesis by (simp add: sub_but_core)
qed

lemma maybe_but:
  assumes "sub_but i call H X s" and "k \<in> H" and "set (sr_maybe s) - {k} \<subseteq> set xs"
  shows "sub_but i call H (insert k X) (s\<lparr>sr_maybe := xs\<rparr>)"
proof -
  have k: "sub_core i call H s" "venue_ok i X s" "holds_ok s"
    using assms(1) by (simp_all add: sub_but_core) (simp add: sub_core_def)
  note same = same_maybe [OF assms(3)]
  have "sub_core i call H (s\<lparr>sr_maybe := xs\<rparr>)"
    by (rule core_change [OF k(1) same assms(2)]) (use k(3) in \<open>auto simp: holds_ok_def\<close>)
  moreover have "venue_ok i (insert k X) (s\<lparr>sr_maybe := xs\<rparr>)"
  proof (rule venue_change [OF k(2) same])
    fix m a assume m: "sr_session s = Some m" "map_of (sr_sessions s) m = Some a"
    then show "\<exists>b. map_of (sr_sessions (s\<lparr>sr_maybe := xs\<rparr>)) m = Some b \<and>
        record_moves k (is_held k (s\<lparr>sr_maybe := xs\<rparr>)) a b"
      using venue_restores [OF k(2) m] by (auto simp: record_moves_def is_held_def)
  qed
  ultimately show ?thesis by (simp add: sub_but_core)
qed

lemma shrink_but:
  assumes "sub_but i call H (insert k X) s"
    and "\<And>n a. sr_session s = Some n \<Longrightarrow> map_of (sr_sessions s) n = Some a \<Longrightarrow> sb_accepts (at_state a) \<Longrightarrow>
      k \<in> has_of a \<or> \<not> is_held k s \<or> k \<in> set (sr_maybe s)"
  shows "sub_but i call H X s"
  using assms venue_shrink unfolding sub_but_core by metis
subsection \<open>Locks and the end of a call\<close>

lemma sub_but_same:
  assumes "sr_session s' = sr_session s" "sr_sessions s' = sr_sessions s" "sr_consumers s' = sr_consumers s"
    "sr_intents s' = sr_intents s" "sr_maybe s' = sr_maybe s" "sr_operations s' = sr_operations s"
    "sr_next s' = sr_next s"
  shows "is_held k s' = is_held k s" "consumers_of k s' = consumers_of k s" "intent_of k c s' = intent_of k c s"
    "hold_known k c s' = hold_known k c s" "other_op i s' = other_op i s" "ops_ok i s' = ops_ok i s"
    "pending_ok i mine s' = pending_ok i mine s" "holds_ok s' = holds_ok s" "venue_ok i X s' = venue_ok i X s"
proof -
  show c: "is_held k s' = is_held k s" "consumers_of k s' = consumers_of k s" "intent_of k c s' = intent_of k c s"
    "hold_known k c s' = hold_known k c s" "other_op i s' = other_op i s" for k c i
    using assms
    by (simp_all add: is_held_def consumers_of_def intent_of_def hold_known_def has_intent_def other_op_def fun_eq_iff)
  show "ops_ok i s' = ops_ok i s" using assms unfolding ops_ok_def op_fine_def c by simp
  show "pending_ok i mine s' = pending_ok i mine s" unfolding pending_ok_def c ..
  show "holds_ok s' = holds_ok s" using assms unfolding holds_ok_def c by simp
  show "venue_ok i X s' = venue_ok i X s"
    using assms unfolding venue_ok_def settled_keys_def asks_only_def accepts_only_def c by simp
qed

lemma sub_ok_same:
  assumes "sr_session s' = sr_session s" "sr_sessions s' = sr_sessions s" "sr_consumers s' = sr_consumers s"
    "sr_intents s' = sr_intents s" "sr_maybe s' = sr_maybe s" "sr_operations s' = sr_operations s"
    "sr_next s' = sr_next s" "sr_locks s' = sr_locks s"
  shows "sub_ok s' = sub_ok s" "sub_but i call H X s' = sub_but i call H X s"
  using assms sub_but_same [OF assms(1-7)] by (simp_all add: sub_ok_def sub_but_def locks_ok_def)

lemma unlock_but:
  assumes "sub_but i call H X s" and "k \<in> H"
  shows "sub_but i call (H - {k}) X (unlock k s)"
proof -
  note f = sub_but_same [of "unlock k s" s, simplified unlock_def, simplified]
  have l: "locks_ok i H s" using assms by (simp add: sub_but_def)
  then have "\<not> (\<exists>op1. other_op i s j op1 \<and> k \<in> op_locks op1)" for j
    using assms(2) unfolding locks_ok_def other_op_def by (metis option.inject)
  then have "locks_ok i (H - {k}) (unlock k s)"
    using l unfolding locks_ok_def unlock_def by (auto simp: dict_simps f(5))
  then show ?thesis using assms(1) by (simp add: sub_but_def unlock_def f)
qed

definition with_lock :: "nat \<Rightarrow> sub_key \<Rightarrow> SubscriptionRegistry \<Rightarrow> SubscriptionRegistry" where
  "with_lock i k s = s\<lparr>sr_locks := AList.update k i (sr_locks s)\<rparr>"

lemma lock_but:
  assumes "sub_but i call H X s" and "map_of (sr_locks s) k = None"
  shows "sub_but i call (insert k H) X (with_lock i k s)"
proof -
  note f = sub_but_same [of "with_lock i k s" s, simplified with_lock_def, simplified]
  have l: "locks_ok i H s" using assms by (simp add: sub_but_def)
  then have "\<not> (\<exists>op1. other_op i s j op1 \<and> k \<in> op_locks op1)" for j
    using assms(2) unfolding locks_ok_def by (metis option.distinct(1))
  then have "locks_ok i (insert k H) (with_lock i k s)"
    using l unfolding locks_ok_def with_lock_def by (auto simp: dict_simps f(5) other_op_def)
  then show ?thesis using assms by (simp add: sub_but_def with_lock_def f)
qed

lemma map_of_filter_value:
  "distinct (map fst xs) \<Longrightarrow>
     map_of (filter (\<lambda>(k, v). P v) xs) k = Some v \<longleftrightarrow> map_of xs k = Some v \<and> P v"
  by (subst map_of_eq_Some_iff) (auto simp: distinct_map_filter)

lemma settle_fields [simp]:
  "sr_session (sb_settle k c s) = sr_session s" "sr_sessions (sb_settle k c s) = sr_sessions s"
  "sr_operations (sb_settle k c s) = sr_operations s" "sr_consumers (sb_settle k c s) = sr_consumers s"
  "sr_next (sb_settle k c s) = sr_next s" "sr_locks (sb_settle k c s) = sr_locks s"
  "sr_maybe (sb_settle k c s) = sr_maybe s"
  by (simp_all add: sb_settle_def split: option.split)

lemma pending_fields [simp]:
  "sr_session (no_longer_pending k c s) = sr_session s" "sr_sessions (no_longer_pending k c s) = sr_sessions s"
  "sr_operations (no_longer_pending k c s) = sr_operations s" "sr_consumers (no_longer_pending k c s) = sr_consumers s"
  "sr_next (no_longer_pending k c s) = sr_next s" "sr_locks (no_longer_pending k c s) = sr_locks s"
  "sr_maybe (no_longer_pending k c s) = sr_maybe s"
  by (simp_all add: no_longer_pending_def split: option.split)

lemma settle_pending: "it_pending (intent_of x d (sb_settle k c s)) = it_pending (intent_of x d s)"
  by (auto simp: sb_settle_def intent_of_def dict_get_def dict_simps split: option.split)

lemma less_pending:
  "it_pending (intent_of x d (no_longer_pending k c s)) =
     it_pending (intent_of x d s) - (if x = k \<and> d = c then 1 else 0)"
  by (auto simp: no_longer_pending_def intent_of_def dict_get_def dict_simps split: option.split)

lemma pending_has_intent: "has_intent x d (no_longer_pending k c s) = has_intent x d s"
  by (auto simp: no_longer_pending_def has_intent_def dict_simps split: option.split)

lemma settle_intent: "has_intent x d s \<Longrightarrow> counted x d s \<Longrightarrow> has_intent x d (sb_settle k c s)"
  by (auto simp: sb_settle_def has_intent_def dict_simps split: option.split)

lemma settle_holds:
  assumes "holds_ok s"
  shows "holds_ok (sb_settle k c s)"
proof -
  have "hold_known x d (sb_settle k c s)" if d: "d \<in> set (consumers_of x s)" for x d
  proof -
    have "hold_known x d s" by (rule holds_at(2) [OF assms d])
    then consider "has_intent x d s" | symbol period c0 where "x = Spots symbol"
      "d = trendbar_spot_consumer period c0" "has_intent (Trendbar symbol period) c0 s"
      by (auto simp: hold_known_def)
    then show ?thesis
    proof cases
      case 1
      then show ?thesis using d by (auto simp: hold_known_def counted_def intro: settle_intent)
    next
      case 2
      then have "has_intent (Trendbar symbol period) c0 (sb_settle k c s)"
        using d by (intro settle_intent) (auto simp: counted_def)
      then show ?thesis using 2(1,2) unfolding hold_known_def by blast
    qed
  qed
  then show ?thesis
    using assms unfolding holds_ok_def by (auto simp: consumers_of_def dict_get_def)
qed

lemma pending_holds: "holds_ok (no_longer_pending k c s) = holds_ok s"
  by (simp add: holds_ok_def hold_known_def pending_has_intent)
lemma end_op_fields [simp]:
  "sr_session (end_op i op1 s) = sr_session s" "sr_sessions (end_op i op1 s) = sr_sessions s"
  "sr_operations (end_op i op1 s) = AList.delete i (sr_operations s)" "sr_next (end_op i op1 s) = sr_next s"
  "sr_consumers (end_op i op1 s) = sr_consumers s" "sr_maybe (end_op i op1 s) = sr_maybe s"
  "sr_locks (end_op i op1 s) = filter (\<lambda>(k, j). j \<noteq> i) (sr_locks s)"
  by (simp_all add: end_op_def free_locks_def Let_def split: option.split)

lemma end_pending:
  "it_pending (intent_of x d (end_op i op1 s)) =
     it_pending (intent_of x d s) - (if sub_of x d (op_call op1) then 1 else 0)"
proof -
  have f: "intent_of x d (free_locks i (s\<lparr>sr_operations := os\<rparr>)) = intent_of x d s" for os
    by (simp add: intent_of_def free_locks_def)
  show ?thesis
    by (auto simp: end_op_def Let_def f settle_pending less_pending sub_of_def split: option.split)
qed

lemma end_holds: "holds_ok s \<Longrightarrow> holds_ok (end_op i op1 s)"
proof -
  assume "holds_ok s"
  then have "holds_ok (free_locks i (s\<lparr>sr_operations := AList.delete i (sr_operations s)\<rparr>))"
    by (simp add: holds_ok_def hold_known_def has_intent_def free_locks_def)
  then show ?thesis
    by (simp add: end_op_def Let_def settle_holds pending_holds split: option.split)
qed

lemma end_op_ok:
  assumes "sub_but i (op_call op1) H {} s"
  shows "sub_ok (end_op i op1 s)"
proof -
  let ?s = "end_op i op1 s" and ?N = "sr_next s"
  have k: "i < ?N" "locks_ok i H s" "ops_ok i s" "pending_ok i (Some (op_call op1)) s" "holds_ok s"
    "venue_ok i {} s"
    using assms by (simp_all add: sub_but_def)
  have o: "other_op ?N ?s j op2 \<longleftrightarrow> other_op i s j op2" for j op2
    using k(3) by (auto simp: other_op_def ops_ok_def dict_simps)
  have c: "is_held x ?s = is_held x s" "consumers_of x ?s = consumers_of x s" for x
    by (simp_all add: is_held_def consumers_of_def)
  have "locks_ok ?N {} ?s"
    unfolding locks_ok_def o
  proof (intro conjI allI)
    have d: "distinct (map fst (sr_locks s))" using k(2) by (simp add: locks_ok_def)
    then show "distinct (map fst (sr_locks ?s))" by (simp add: distinct_map_filter)
    fix x j
    show "map_of (sr_locks ?s) x = Some j \<longleftrightarrow> j = ?N \<and> x \<in> {} \<or> (\<exists>op2. other_op i s j op2 \<and> x \<in> op_locks op2)"
      using k(2) d by (auto simp: map_of_filter_value locks_ok_def other_op_def)
  qed
  moreover have "ops_ok ?N ?s" using k(3) unfolding ops_ok_def o op_fine_def c by simp
  moreover have "pending_ok ?N None ?s"
    using k(4) unfolding pending_ok_def o end_pending option.case by auto
  moreover have "holds_ok ?s" by (rule end_holds [OF k(5)])
  moreover have "venue_ok ?N {} ?s"
    using k(6) unfolding venue_ok_def settled_keys_def asks_only_def accepts_only_def o c by simp
  moreover have "map_of (sr_operations ?s) ?N = None"
    using k(1,3) by (cases "map_of (sr_operations s) ?N") (auto simp: dict_simps ops_ok_def other_op_def)
  ultimately show ?thesis by (simp add: sub_ok_def)
qed

subsection \<open>Waiting for a lock\<close>

definition op_waits :: "operation \<Rightarrow> bool" where
  "op_waits op1 \<longleftrightarrow> stage_fits op1 \<and> op_asked op1 = None \<and> op_stage op1 \<noteq> Bars_take"

definition all_locks :: "operation \<Rightarrow> sub_key set" where
  "all_locks op1 = {call_key (op_call op1), lock_key op1}"

lemma waiting_locks:
  "op_waits op1 \<Longrightarrow> insert (lock_key op1) (op_locks op1) = all_locks op1"
  by (auto simp: op_waits_def op_locks_def all_locks_def lock_key_def reference_of_def)

lemma asked_locks: "op_locks (op1\<lparr>op_asked := Some n\<rparr>) = all_locks op1"
  by (simp add: op_locks_def all_locks_def lock_key_def reference_of_def)

lemma wait_ok:
  assumes "sub_but i (op_call op1) (op_locks op1) {} s" and "op_waits op1"
  shows "sub_ok (put_op i op1 s)"
  by (rule put_op_ok [OF assms(1)]) (use assms(2) in \<open>auto simp: op_fine_def op_waits_def\<close>)

lemma want_lock_ok:
  assumes "sub_but i (op_call op1) (op_locks op1) {} s" and "op_waits op1"
    and "\<And>s'. sub_but i (op_call op1) (all_locks op1) {} s' \<Longrightarrow> sub_ok (go s')"
  shows "sub_ok (want_lock i op1 go s)"
proof (cases "map_of (sr_locks s) (lock_key op1) = None")
  case True
  have "sub_ok (go (with_lock i (lock_key op1) s))"
    by (rule assms(3) [OF lock_but [OF assms(1) True, unfolded waiting_locks [OF assms(2)]]])
  then show ?thesis using wait_ok [OF assms(1,2)] by (simp add: want_lock_def with_lock_def)
next
  case False
  then show ?thesis using wait_ok [OF assms(1,2)] unfolding want_lock_def by presburger
qed

subsection \<open>Taking and dropping\<close>

lemma accepting_iff:
  "accepting_session s = Some n \<longleftrightarrow>
     sr_session s = Some n \<and> (\<exists>a. map_of (sr_sessions s) n = Some a \<and> sb_accepts (at_state a))"
  by (auto simp: accepting_session_def the_attached_def split: option.split)

lemma ask_ok:
  assumes "sub_but i (op_call op1) (all_locks op1) X s" and "op_fine s (op1\<lparr>op_asked := Some n\<rparr>)"
    and "X \<subseteq> {k. asks_to_drop k (op1\<lparr>op_asked := Some n\<rparr>)}"
    and "\<exists>a. map_of (sr_sessions s) n = Some a \<and> sb_accepts (at_state a)"
  shows "sub_ok (put_op i (op1\<lparr>op_asked := Some n\<rparr>) s)"
proof (rule put_op_ok)
  show "sub_but i (op_call (op1\<lparr>op_asked := Some n\<rparr>)) (op_locks (op1\<lparr>op_asked := Some n\<rparr>)) X s"
    using assms(1) by (simp add: asked_locks)
  fix m m' a
  assume "op_asked (op1\<lparr>op_asked := Some n\<rparr>) = Some m" "sr_session s = Some m'"
    "map_of (sr_sessions s) m' = Some a" "sb_accepts (at_state a)"
  then show "m = m'"
    using assms(1,4) unfolding sub_but_def venue_ok_def accepts_only_def by auto
qed (use assms(2,3) in auto)

lemma taking_reference:
  assumes "stage_fits op1" and "is_taking (op_stage op1)"
  shows "sub_of (fst (reference_of op1)) (snd (reference_of op1)) (op_call op1) \<or>
    (\<exists>symbol period c. reference_of op1 = (Spots symbol, trendbar_spot_consumer period c) \<and>
       sub_of (Trendbar symbol period) c (op_call op1))"
  using assms
  by (cases "op_call op1")
    (auto simp: stage_fits_def is_taking_def reference_of_def spot_leg_of_def is_subscribe_def sub_of_def
      simp del: split_paired_Ex)

lemma taking_known:
  assumes "sub_but i (op_call op1) H X s" and "stage_fits op1" and "is_taking (op_stage op1)"
  shows "hold_known (fst (reference_of op1)) (snd (reference_of op1)) s"
proof -
  have known: "has_intent k c s" if "sub_of k c (op_call op1)" for k c
  proof -
    have "pending_ok i (Some (op_call op1)) s" using assms(1) by (simp add: sub_but_def)
    then have "it_pending (intent_of k c s) \<ge> 1"
      using that unfolding pending_ok_def option.case by (simp del: split_paired_All)
    then show ?thesis by (auto simp: intent_of_def dict_get_def has_intent_def split: option.splits)
  qed
  from taking_reference [OF assms(2,3)] show ?thesis
    using known unfolding hold_known_def by fastforce
qed
lemma acquire_ok:
  assumes "sub_but i (op_call op1) (all_locks op1) {} s" and "stage_fits op1" and "is_taking (op_stage op1)"
    and "\<And>s'. sub_but i (op_call op1) (all_locks op1) {} s' \<Longrightarrow> sub_ok (go s')"
  shows "sub_ok (sb_acquire i op1 go s)"
proof -
  obtain k c where kc: "reference_of op1 = (k, c)" by (rule prod.exhaust)
  have H: "k \<in> all_locks op1" using kc by (simp add: all_locks_def lock_key_def)
  have known: "hold_known k c s" using taking_known [OF assms(1-3)] kc by simp
  have h: "holds_ok s" using assms(1) by (simp add: sub_but_def)
  show ?thesis
  proof (cases "is_held k s \<and> k \<notin> set (sr_maybe s)")
    case True
    have "sub_but i (op_call op1) (all_locks op1) {}
        (s\<lparr>sr_consumers := AList.update k (List.insert c (consumers_of k s)) (sr_consumers s)\<rparr>)"
      by (rule recount_but [OF assms(1) H])
        (use True known holds_at(1) [OF h, of k] holds_at(2) [OF h, of _ k]
          in \<open>auto simp: List.insert_def split: if_splits\<close>)
    then show ?thesis using True assms(4) by (simp add: sb_acquire_def kc)
  next
    case False
    show ?thesis
    proof (cases "accepting_session s")
      case None
      have "sub_but i (op_call op1) (all_locks op1) {} (sb_record k c s)"
      proof (rule shrink_but [OF record_but [OF assms(1) H known]])
        fix n a
        assume "sr_session (sb_record k c s) = Some n" "map_of (sr_sessions (sb_record k c s)) n = Some a"
          "sb_accepts (at_state a)"
        then have "accepting_session s = Some n"
          by (auto simp: sb_record_def on_attached_of accepting_iff sb_add_restore_def)
        then show "k \<in> has_of a \<or> \<not> is_held k (sb_record k c s) \<or> k \<in> set (sr_maybe (sb_record k c s))"
          using None by simp
      qed
      moreover have "sb_acquire i op1 go s = go (sb_record k c s)"
        unfolding sb_acquire_def kc prod.case if_not_P [OF False] None option.case ..
      ultimately show ?thesis using assms(4) by simp
    next
      case (Some n)
      have "sub_ok (put_op i (op1\<lparr>op_asked := Some n\<rparr>) s)"
        by (rule ask_ok [OF assms(1)])
          (use Some assms(2,3) in \<open>auto simp: accepting_iff op_fine_def stage_fits_def is_taking_def is_dropping_def
            split: sub_call.splits\<close>)
      moreover have "sb_acquire i op1 go s = put_op i (op1\<lparr>op_asked := Some n\<rparr>) s"
        unfolding sb_acquire_def kc prod.case if_not_P [OF False] Some option.case ..
      ultimately show ?thesis by simp
    qed
  qed
qed

lemma others_left: "distinct xs \<Longrightarrow> 1 < length xs \<Longrightarrow> removeAll c xs \<noteq> []"
  by (cases xs; cases "tl xs") auto

lemma release_ok:
  assumes "sub_but i (op_call op1) (all_locks op1) {} s" and "stage_fits op1" and "is_dropping (op_stage op1)"
    and "\<And>s'. sub_but i (op_call op1) (all_locks op1) {} s' \<Longrightarrow> sub_ok (go s')"
  shows "sub_ok (sb_release i op1 go s)"
proof -
  obtain k c where kc: "reference_of op1 = (k, c)" by (rule prod.exhaust)
  have H: "k \<in> all_locks op1" using kc by (simp add: all_locks_def lock_key_def)
  have h: "holds_ok s" using assms(1) by (simp add: sub_but_def)
  show ?thesis
  proof (cases "c \<in> set (consumers_of k s)")
    case False
    then show ?thesis using assms(1,4) by (simp add: sb_release_def kc)
  next
    case counted1: True
    then have held: "is_held k s" using holds_at(3) [OF h, of k] by auto
    show ?thesis
    proof (cases "1 < length (consumers_of k s)")
      case True
      have "removeAll c (consumers_of k s) \<noteq> []"
        by (rule others_left [OF holds_at(1) [OF h, of k] True])
      then have "sub_but i (op_call op1) (all_locks op1) {}
          (s\<lparr>sr_consumers := AList.update k (removeAll c (consumers_of k s)) (sr_consumers s)\<rparr>)"
        using holds_at(1) [OF h, of k] holds_at(2) [OF h, of _ k] held
        by (intro recount_but [OF assms(1) H]) (auto simp: distinct_removeAll)
      then show ?thesis using True counted1 assms(4) by (simp add: sb_release_def kc)
    next
      case alone: False
      show ?thesis
      proof (cases "accepting_session s")
        case None
        then show ?thesis using alone counted1 assms(4) dropped_but [OF assms(1) H]
          by (simp add: sb_release_def kc)
      next
        case (Some n)
        let ?s = "on_session (maybe_gone k) n s"
        have one: "consumers_of k s = [c]" using alone counted1 by (cases "consumers_of k s") auto
        have "sub_but i (op_call op1) (all_locks op1) {k} ?s"
          by (rule note_but [OF assms(1) H]) simp
        then have "sub_ok (put_op i (op1\<lparr>op_asked := Some n\<rparr>) ?s)"
        proof (rule ask_ok)
          show "op_fine ?s (op1\<lparr>op_asked := Some n\<rparr>)"
            using one assms(2,3) kc by (auto simp: op_fine_def stage_fits_def is_dropping_def reference_of_def
              split: sub_call.splits if_splits)
          show "{k} \<subseteq> {k. asks_to_drop k (op1\<lparr>op_asked := Some n\<rparr>)}"
            using assms(3) kc by (auto simp: asks_to_drop_def reference_of_def)
          show "\<exists>a. map_of (sr_sessions ?s) n = Some a \<and> sb_accepts (at_state a)"
            using Some by (auto simp: accepting_iff on_session_of maybe_gone_def)
        qed
        then show ?thesis using Some alone counted1 by (simp add: sb_release_def kc)
      qed
    qed
  qed
qed
subsection \<open>The calls\<close>

lemma taken_ok:
  assumes "sub_but i (op_call op1) (all_locks op1) {} s" and "stage_fits op1"
  shows "sub_ok (taken i op1 s)"
proof (cases "op_stage op1 = Bars_spots")
  case True
  then obtain symbol period c where call: "op_call op1 = Subscribe_trendbars symbol period c"
    using assms(2) by (cases "op_call op1") (auto simp: stage_fits_def)
  let ?op = "op1\<lparr>op_stage := Bars_take, op_asked := None\<rparr>"
  have "all_locks ?op = all_locks op1 - {Spots symbol}"
    using True by (auto simp: call all_locks_def lock_key_def reference_of_def spot_leg_of_def)
  moreover have "Spots symbol \<in> all_locks op1"
    using True by (simp add: call all_locks_def lock_key_def reference_of_def spot_leg_of_def)
  ultimately have "sub_but i (op_call ?op) (all_locks ?op) {} (unlock (Spots symbol) s)"
    using unlock_but [OF assms(1), of "Spots symbol"] by simp
  then have "sub_ok (sb_acquire i ?op (end_op i ?op) (unlock (Spots symbol) s))"
  proof (rule acquire_ok)
    fix s'
    assume "sub_but i (op_call ?op) (all_locks ?op) {} s'"
    then show "sub_ok (end_op i ?op s')" by (rule end_op_ok)
  qed (simp_all add: stage_fits_def is_taking_def call)
  then show ?thesis using True by (simp add: taken_def bars_take_def Let_def call spot_leg_of_def)
next
  case False
  then show ?thesis using end_op_ok [OF assms(1)] by (simp add: taken_def)
qed

text \<open>The trendbar lock held, on to the spots lock to drop the spot leg.\<close>

lemma leg_ok:
  assumes "sub_but i (op_call op1) {call_key (op_call op1)} {} s"
    and "stage_fits op1" "op_asked op1 = None" "op_stage op1 = Bars_undo \<or> op_stage op1 = Bars_drop_spots"
  shows "sub_ok (want_lock i op1 (sb_release i op1 (end_op i op1)) s)"
proof (rule want_lock_ok)
  show "sub_but i (op_call op1) (op_locks op1) {} s" using assms by (auto simp: op_locks_def)
  show "op_waits op1" using assms(2-4) by (auto simp: op_waits_def)
  fix s' assume "sub_but i (op_call op1) (all_locks op1) {} s'"
  then show "sub_ok (sb_release i op1 (end_op i op1) s')"
    using assms(2,4) by (intro release_ok end_op_ok) (auto simp: is_dropping_def)
qed

lemma gone_on_ok:
  assumes "sub_but i (op_call op1) (all_locks op1) {} s" and "stage_fits op1"
  shows "sub_ok (gone_on i op1 s)"
proof (cases "op_stage op1 = Bars_drop")
  case True
  then obtain symbol period c where call: "op_call op1 = Unsubscribe_trendbars symbol period c"
    using assms(2) by (cases "op_call op1") (auto simp: stage_fits_def)
  have "sub_but i (op_call op1) {call_key (op_call op1)} {} s"
    using assms(1) True by (simp add: all_locks_def lock_key_def reference_of_def)
  then have "sub_ok (drop_leg i op1 s)"
    unfolding drop_leg_def Let_def by (intro leg_ok) (simp_all add: call stage_fits_def)
  then show ?thesis using True by (simp add: gone_on_def)
next
  case False
  then show ?thesis using end_op_ok [OF assms(1)] by (simp add: gone_on_def)
qed

lemma restore_ended_ok:
  assumes "sub_but i (op_call op1) H {k} s" and "op_call op1 = Run_restore n k" and "k \<in> H"
    and "\<And>m a. sr_session s = Some m \<Longrightarrow> map_of (sr_sessions s) m = Some a \<Longrightarrow> sb_accepts (at_state a) \<Longrightarrow>
      k \<in> set (at_live a) \<or> \<not> is_held k s"
  shows "sub_ok (restore_ended i op1 s)"
proof -
  have "sub_but i (op_call op1) H (insert k {k}) (on_session (restore_ran k) n s)"
    by (rule note_but [OF assms(1,3)]) simp
  then have "sub_but i (op_call op1) H {} (on_session (restore_ran k) n s)"
    unfolding insert_absorb2
    by (rule shrink_but)
      (use assms(4) in \<open>fastforce simp: on_session_of restore_ran_def has_of_def split: if_splits\<close>)
  then have "sub_ok (end_op i op1 (on_session (restore_ran k) n s))" by (rule end_op_ok)
  then show ?thesis by (simp add: restore_ended_def assms(2))
qed

lemma restore_locked_ok:
  assumes "sub_but i (op_call op1) (all_locks op1) {} s" and "op_call op1 = Run_restore n k" and "stage_fits op1"
  shows "sub_ok (restore_locked i op1 s)"
proof (cases "is_held k s")
  case False
  have "sub_but i (op_call op1) (all_locks op1) {k} s"
    using assms(1) venue_more unfolding sub_but_core by blast
  then have "sub_ok (restore_ended i op1 s)"
    by (rule restore_ended_ok [OF _ assms(2)]) (use False in \<open>simp_all add: all_locks_def assms(2)\<close>)
  then show ?thesis using False by (simp add: restore_locked_def assms(2))
next
  case True
  show ?thesis
  proof (cases "\<exists>a. map_of (sr_sessions s) n = Some a \<and> sb_accepts (at_state a)")
    case accepts: True
    then have "sub_ok (put_op i (op1\<lparr>op_asked := Some n\<rparr>) s)"
      using assms(2,3) by (intro ask_ok [OF assms(1)])
        (auto simp: op_fine_def stage_fits_def is_dropping_def)
    then show ?thesis using True accepts by (auto simp: restore_locked_def assms(2))
  next
    case False
    then have "restore_locked i op1 s = end_op i op1 s"
      using True by (auto simp: restore_locked_def assms(2) split: option.split)
    then show ?thesis using end_op_ok [OF assms(1)] by simp
  qed
qed

lemma restore_next_ok:
  assumes "sub_but i (op_call op1) (all_locks op1) {} s" and "op_call op1 = Run_restore n k" and "stage_fits op1"
    and "\<And>m a. sr_session s = Some m \<Longrightarrow> map_of (sr_sessions s) m = Some a \<Longrightarrow> sb_accepts (at_state a) \<Longrightarrow> n = m"
  shows "sub_ok (restore_next i op1 s)"
proof -
  obtain j where j: "op_stage op1 = Restore_request j" using assms(2,3) by (auto simp: stage_fits_def)
  have H: "all_locks op1 = {k}" using assms(2) j by (simp add: all_locks_def lock_key_def reference_of_def)
  show ?thesis
  proof (cases "Suc j < length (restore_requests k)")
    case True
    let ?op = "op1\<lparr>op_stage := Restore_request (Suc j), op_asked := None\<rparr>"
    have "sub_but i (op_call ?op) (op_locks ?op) {} (unlock k s)"
      using unlock_but [OF assms(1), of k] by (simp add: H op_locks_def)
    then have "sub_ok (want_lock i ?op (restore_locked i ?op) (unlock k s))"
    proof (rule want_lock_ok)
      show "op_waits ?op" using assms(2) by (simp add: op_waits_def stage_fits_def)
      fix s' assume "sub_but i (op_call ?op) (all_locks ?op) {} s'"
      then show "sub_ok (restore_locked i ?op s')"
        by (rule restore_locked_ok [of _ _ _ n k]) (simp_all add: assms(2) stage_fits_def)
    qed
    then show ?thesis using True by (simp add: restore_next_def assms(2) j Let_def)
  next
    case False
    let ?s = "on_session (now_live k) n (s\<lparr>sr_maybe := removeAll k (sr_maybe s)\<rparr>)"
    let ?t = "sb_notify_recovered k n ?s"
    have "sub_but i (op_call op1) {k} {k} ?s"
      using note_but [OF maybe_but [OF assms(1)], of k "removeAll k (sr_maybe s)" k "now_live k" n] by (simp add: H)
    moreover have f: "sr_session ?t = sr_session ?s" "sr_sessions ?t = sr_sessions ?s" "sr_consumers ?t = sr_consumers ?s"
      "sr_intents ?t = sr_intents ?s" "sr_maybe ?t = sr_maybe ?s" "sr_operations ?t = sr_operations ?s"
      "sr_next ?t = sr_next ?s" "sr_locks ?t = sr_locks ?s"
      by (simp_all add: sb_notify_recovered_def split: sub_key.split option.split)
    ultimately have "sub_but i (op_call op1) {k} {k} ?t" using sub_ok_same(2) [OF f] by simp
    then have "sub_ok (restore_ended i op1 ?t)"
    proof (rule restore_ended_ok [OF _ assms(2)])
      fix m a assume h: "sr_session ?t = Some m" "map_of (sr_sessions ?t) m = Some a" "sb_accepts (at_state a)"
      then have "m = n"
        using assms(4) unfolding f by (fastforce simp: on_session_of now_live_def split: if_splits)
      then show "k \<in> set (at_live a) \<or> \<not> is_held k ?t"
        using h(2) unfolding f by (auto simp: on_session_of now_live_def)
    qed simp
    then show ?thesis using False by (simp add: restore_next_def assms(2) j Let_def)
  qed
qed

lemma locked_stage_ok:
  assumes "sub_but i (op_call op1) (all_locks op1) {} s" and "op_waits op1"
  shows "sub_ok (locked_stage i op1 s)"
proof -
  have fits: "stage_fits op1" "op_stage op1 \<noteq> Bars_take" using assms(2) by (simp_all add: op_waits_def)
  have acquire: "is_taking (op_stage op1) \<Longrightarrow> sub_ok (sb_acquire i op1 (taken i op1) s)"
    by (rule acquire_ok [OF assms(1) fits(1)]) (use taken_ok fits in auto)
  have release: "is_dropping (op_stage op1) \<Longrightarrow> sub_ok (sb_release i op1 (gone_on i op1) s)"
    by (rule release_ok [OF assms(1) fits(1)]) (use gone_on_ok fits in auto)
  have enter: "sub_ok (bars_entered i op1 s)" if st: "op_stage op1 = Bars_enter"
  proof -
    obtain symbol period c where call: "op_call op1 = Subscribe_trendbars symbol period c"
      using fits(1) st by (cases "op_call op1") (auto simp: stage_fits_def)
    let ?op = "op1\<lparr>op_stage := Bars_spots\<rparr>"
    have "sub_but i (op_call ?op) (op_locks ?op) {} s"
      using assms st by (simp add: all_locks_def op_locks_def lock_key_def reference_of_def op_waits_def)
    then have "sub_ok (want_lock i ?op (sb_acquire i ?op (taken i ?op)) s)"
    proof (rule want_lock_ok)
      show "op_waits ?op" using assms(2) call by (simp add: op_waits_def stage_fits_def)
      fix s' assume "sub_but i (op_call ?op) (all_locks ?op) {} s'"
      then show "sub_ok (sb_acquire i ?op (taken i ?op) s')"
        by (rule acquire_ok) (simp_all add: call stage_fits_def is_taking_def taken_ok)
    qed
    then show ?thesis using end_op_ok [OF assms(1)] by (simp add: bars_entered_def Let_def case_prod_beta)
  qed
  show ?thesis
  proof (cases "op_stage op1")
    case (Restore_request j)
    then obtain n k where "op_call op1 = Run_restore n k"
      using fits(1) by (cases "op_call op1") (auto simp: stage_fits_def)
    then show ?thesis using restore_locked_ok [OF assms(1) _ fits(1)] Restore_request by (simp add: locked_stage_def)
  qed (use acquire release enter fits(2) in \<open>simp_all add: locked_stage_def is_taking_def is_dropping_def\<close>)
qed
subsection \<open>Answers\<close>

lemma asked_but:
  assumes "sub_ok s" and "map_of (sr_operations s) i = Some op1" and "op_asked op1 = Some n"
  shows "sub_but i (op_call op1) (all_locks op1)
      (if is_dropping (op_stage op1) then {fst (reference_of op1)} else {}) s" "stage_fits op1"
    "\<And>m a. sr_session s = Some m \<Longrightarrow> map_of (sr_sessions s) m = Some a \<Longrightarrow> sb_accepts (at_state a) \<Longrightarrow> n = m"
proof -
  have "op_locks op1 = all_locks op1" using assms(3) by (simp add: op_locks_def all_locks_def)
  moreover have "{k. asks_to_drop k op1} = (if is_dropping (op_stage op1) then {fst (reference_of op1)} else {})"
    using assms(3) by (auto simp: asks_to_drop_def)
  ultimately show "sub_but i (op_call op1) (all_locks op1)
      (if is_dropping (op_stage op1) then {fst (reference_of op1)} else {}) s"
    using ok_but_of_op(1) [OF assms(1,2)] by simp
  show "stage_fits op1" using ok_but_of_op(2) [OF assms(1,2)] by (simp add: op_fine_def)
  show "\<And>m a. sr_session s = Some m \<Longrightarrow> map_of (sr_sessions s) m = Some a \<Longrightarrow> sb_accepts (at_state a) \<Longrightarrow> n = m"
    by (rule asked_on_attached [OF assms])
qed

lemma taking_not_dropping: "is_taking st \<Longrightarrow> \<not> is_dropping st"
  by (auto simp: is_taking_def is_dropping_def)

lemma record_session:
  "map_of (sr_sessions (sb_record k c s)) m =
     (if sr_session s = Some m then map_option (sb_add_restore k) (map_of (sr_sessions s) m)
      else map_of (sr_sessions s) m)"
  "sr_session (sb_record k c s) = sr_session s" "sr_maybe (sb_record k c s) = sr_maybe s"
  by (simp_all add: sb_record_def on_attached_of)

lemma unknown_but:
  assumes "sub_but i call H {} s" and "k \<in> H" and "hold_known k c s"
    and "\<And>m a. sr_session s = Some m \<Longrightarrow> map_of (sr_sessions s) m = Some a \<Longrightarrow> sb_accepts (at_state a) \<Longrightarrow> n = m"
  shows "sub_but i call H {} (record_unknown n k c s)"
proof -
  let ?s = "sb_record k c s"
  have r: "sub_but i call H {k} ?s" using record_but [OF assms(1-3)] by simp
  show ?thesis
  proof (cases "accepting_session ?s = Some n")
    case True
    have "sub_but i call H {} (on_session (sb_mark_restore_failed k) n ?s)"
    proof (rule shrink_but)
      show "sub_but i call H {k} (on_session (sb_mark_restore_failed k) n ?s)"
        using note_but [OF r assms(2), of "sb_mark_restore_failed k" n] by simp
    qed (use True in \<open>auto simp: accepting_iff on_session_of record_session sb_mark_restore_failed_def sb_add_restore_def
          has_of_def\<close>)
    then show ?thesis using True by (simp add: record_unknown_def Let_def)
  next
    case False
    have "sub_but i call H {} ?s"
    proof (rule shrink_but [OF r])
      fix m a assume h: "sr_session ?s = Some m" "map_of (sr_sessions ?s) m = Some a" "sb_accepts (at_state a)"
      then have "accepting_session ?s = Some m" by (auto simp: accepting_iff)
      moreover have "n = m"
        using h assms(4) by (fastforce simp: record_session sb_add_restore_def split: if_splits)
      ultimately show "k \<in> has_of a \<or> \<not> is_held k ?s \<or> k \<in> set (sr_maybe ?s)" using False by simp
    qed
    then show ?thesis using False by (simp add: record_unknown_def Let_def)
  qed
qed

lemma done_but:
  assumes "sub_but i call H {} s" and "k \<in> H" and "hold_known k c s"
    and "\<And>m a. sr_session s = Some m \<Longrightarrow> map_of (sr_sessions s) m = Some a \<Longrightarrow> sb_accepts (at_state a) \<Longrightarrow> n = m"
  shows "sub_but i call H {} (let s = sb_record k c (on_session (now_live k) n s)
    in s\<lparr>sr_maybe := removeAll k (sr_maybe s)\<rparr>)"
proof -
  let ?l = "on_session (now_live k) n s"
  have "hold_known k c ?l" using assms(3) by (simp add: hold_known_def has_intent_def)
  then have "sub_but i call H {k} (sb_record k c ?l)"
    using record_but [OF note_but [OF assms(1,2), of "now_live k" n] assms(2)] by simp
  then have m: "sub_but i call H {k} ((sb_record k c ?l)\<lparr>sr_maybe := removeAll k (sr_maybe (sb_record k c ?l))\<rparr>)"
    using maybe_but [OF _ assms(2), of i call "{k}" "sb_record k c ?l" "removeAll k (sr_maybe (sb_record k c ?l))"] by simp
  have "sub_but i call H {} ((sb_record k c ?l)\<lparr>sr_maybe := removeAll k (sr_maybe (sb_record k c ?l))\<rparr>)"
  proof (rule shrink_but [OF m])
    fix m a assume h: "sr_session ((sb_record k c ?l)\<lparr>sr_maybe := removeAll k (sr_maybe (sb_record k c ?l))\<rparr>) = Some m"
      "map_of (sr_sessions ((sb_record k c ?l)\<lparr>sr_maybe := removeAll k (sr_maybe (sb_record k c ?l))\<rparr>)) m = Some a"
      "sb_accepts (at_state a)"
    then have "n = m"
      using assms(4) by (fastforce simp: record_session on_session_of sb_add_restore_def now_live_def split: if_splits)
    then show "k \<in> has_of a \<or> \<not> is_held k ((sb_record k c ?l)\<lparr>sr_maybe := removeAll k (sr_maybe (sb_record k c ?l))\<rparr>) \<or>
        k \<in> set (sr_maybe ((sb_record k c ?l)\<lparr>sr_maybe := removeAll k (sr_maybe (sb_record k c ?l))\<rparr>))"
      using h by (auto simp: record_session on_session_of sb_add_restore_def now_live_def has_of_def split: if_splits)
  qed
  then show ?thesis by (simp add: Let_def)
qed

lemma take_answered_ok:
  assumes "sub_ok s" and "map_of (sr_operations s) i = Some op1" and "op_asked op1 = Some n"
    and "is_taking (op_stage op1)"
  shows "sub_ok (take_answered i n op1 answer s)" "sub_ok (end_op i op1 (record_unknown n (fst (reference_of op1)) (snd (reference_of op1)) s))"
proof -
  obtain k c where kc: "reference_of op1 = (k, c)" by (rule prod.exhaust)
  have but: "sub_but i (op_call op1) (all_locks op1) {} s"
    using asked_but(1) [OF assms(1-3)] taking_not_dropping [OF assms(4)] by simp
  note fits = asked_but(2) [OF assms(1-3)] and one = asked_but(3) [OF assms(1-3)]
  have H: "k \<in> all_locks op1" using kc by (simp add: all_locks_def lock_key_def)
  have known: "hold_known k c s" using taking_known [OF but fits assms(4)] kc by simp
  have unknown: "sub_but i (op_call op1) (all_locks op1) {} (record_unknown n k c s)"
    by (rule unknown_but [OF but H known one])
  note u = taken_ok [OF unknown fits] and e = end_op_ok [OF but]
  note d = taken_ok [OF done_but [OF but H known one] fits]
  show "sub_ok (end_op i op1 (record_unknown n (fst (reference_of op1)) (snd (reference_of op1)) s))"
    using end_op_ok [OF unknown] by (simp add: kc)
  have refused: "sub_ok (take_refused i op1 s)"
  proof (cases "op_stage op1 = Bars_take")
    case True
    let ?op = "op1\<lparr>op_stage := Bars_undo, op_asked := None\<rparr>"
    have "sub_but i (op_call ?op) {call_key (op_call ?op)} {} s"
      using but True by (simp add: all_locks_def lock_key_def reference_of_def)
    then have "sub_ok (want_lock i ?op (sb_release i ?op (end_op i ?op)) s)"
      by (rule leg_ok) (use fits True in \<open>auto simp: stage_fits_def split: sub_call.splits\<close>)
    then show ?thesis using True by (simp add: take_refused_def Let_def)
  qed (use e in \<open>simp add: take_refused_def\<close>)
  show "sub_ok (take_answered i n op1 answer s)"
    unfolding take_answered_def kc prod.case using u e d refused
    by (cases answer) simp_all
qed
lemma dropping_answered_ok:
  assumes "sub_ok s" and "map_of (sr_operations s) i = Some op1" and "op_asked op1 = Some n"
    and "is_dropping (op_stage op1)"
  shows "sub_ok (gone_on i op1 (dropped (fst (reference_of op1)) s))"
    "sub_ok (gone_on i op1 (release_cancelled (fst (reference_of op1)) s))"
proof -
  let ?k = "fst (reference_of op1)"
  have but: "sub_but i (op_call op1) (all_locks op1) {?k} s"
    using asked_but(1) [OF assms(1-3)] assms(4) by simp
  note fits = asked_but(2) [OF assms(1-3)]
  have H: "?k \<in> all_locks op1" by (simp add: all_locks_def lock_key_def)
  show "sub_ok (gone_on i op1 (dropped ?k s))"
    using gone_on_ok [OF _ fits] dropped_but [OF but H] by simp
  let ?s = "s\<lparr>sr_maybe := List.insert ?k (sr_maybe s)\<rparr>"
  have "sub_but i (op_call op1) (all_locks op1) {?k} ?s"
    using maybe_but [OF but H, of "List.insert ?k (sr_maybe s)"] by auto
  then have "sub_but i (op_call op1) (all_locks op1) {} ?s" by (rule shrink_but) simp
  then have "sub_but i (op_call op1) (all_locks op1) {} (release_cancelled ?k s)"
    using sub_ok_same(2) [of "release_cancelled ?k s" ?s] by (simp add: release_cancelled_def)
  then show "sub_ok (gone_on i op1 (release_cancelled ?k s))" by (rule gone_on_ok [OF _ fits])
qed

text \<open>What is noted at a session between two calls.\<close>

lemma on_session_ok:
  assumes "sub_ok s"
    and "\<And>a. map_of (sr_sessions s) n = Some a \<Longrightarrow> set (at_restores (f a)) = set (at_restores a) \<and>
      (at_state (f a) = READY \<longrightarrow> at_todo (f a) = [] \<or> at_state a = READY \<and> (at_todo a = [] \<longrightarrow> at_todo (f a) = [])) \<and>
      (sb_accepts (at_state (f a)) \<longrightarrow> sb_accepts (at_state a) \<and> has_of a \<subseteq> has_of (f a))"
  shows "sub_ok (on_session f n s)"
proof -
  let ?s = "on_session f n s" and ?N = "sr_next s"
  have k: "locks_ok ?N {} s" "ops_ok ?N s" "pending_ok ?N None s" "holds_ok s" "venue_ok ?N {} s"
    "map_of (sr_operations s) ?N = None"
    using assms(1) by (simp_all add: sub_ok_def)
  have c: "other_op i ?s = other_op i s" "intent_of x d ?s = intent_of x d s" "hold_known x d ?s = hold_known x d s" for x d i
    by (simp_all add: other_op_def fun_eq_iff intent_of_def hold_known_def has_intent_def)
  have "venue_ok ?N {} ?s"
    unfolding venue_ok_def
  proof (intro allI impI)
    fix m assume "sr_session ?s = Some m"
    then obtain a where a: "map_of (sr_sessions s) m = Some a" "set (at_restores a) = {x. is_held x s}"
      "at_state a = READY \<longrightarrow> at_todo a = []"
      "sb_accepts (at_state a) \<longrightarrow> accepts_only m s \<and> asks_only ?N m s \<and> settled_keys ?N {} s \<subseteq> has_of a"
      using k(5) unfolding venue_ok_def by auto
    have only: "accepts_only m s \<Longrightarrow> accepts_only m ?s"
      using assms(2) unfolding accepts_only_def by (fastforce simp: on_session_of split: if_splits)
    have same: "asks_only ?N m ?s = asks_only ?N m s" "settled_keys ?N {} ?s = settled_keys ?N {} s"
      by (simp_all add: asks_only_def settled_keys_def c)
    show "\<exists>a. map_of (sr_sessions ?s) m = Some a \<and> set (at_restores a) = {k. is_held k ?s} \<and>
      (at_state a = READY \<longrightarrow> at_todo a = []) \<and>
      (sb_accepts (at_state a) \<longrightarrow> accepts_only m ?s \<and> asks_only ?N m ?s \<and> settled_keys ?N {} ?s \<subseteq> has_of a)"
    proof (cases "m = n")
      case True
      then show ?thesis using a assms(2) [of a] only unfolding same
        by (intro exI [of _ "f a"]) (auto simp: on_session_of)
    next
      case False
      then show ?thesis using a only unfolding same by (intro exI [of _ a]) (simp add: on_session_of)
    qed
  qed
  moreover have "locks_ok ?N {} ?s" using k(1) by (simp add: locks_ok_def c)
  moreover have "ops_ok ?N ?s" using k(2) by (simp add: ops_ok_def op_fine_def c)
  moreover have "pending_ok ?N None ?s" using k(3) unfolding pending_ok_def c .
  moreover have "holds_ok ?s" using k(4) by (simp add: holds_ok_def c)
  ultimately show ?thesis using k(6) by (simp add: sub_ok_def)
qed

lemma restore_answered_ok:
  assumes "sub_ok s" and "map_of (sr_operations s) i = Some op1" and "op_asked op1 = Some n"
    and "op_stage op1 = Restore_request j"
  shows "sub_ok (restore_answered i n op1 answer s)" "sub_ok (end_op i op1 s)"
proof -
  have but: "sub_but i (op_call op1) (all_locks op1) {} s"
    using asked_but(1) [OF assms(1-3)] assms(4) by (simp add: is_dropping_def)
  note fits = asked_but(2) [OF assms(1-3)] and one = asked_but(3) [OF assms(1-3)]
  obtain k where call: "op_call op1 = Run_restore n k"
    using fits assms(3,4) by (cases "op_call op1") (auto simp: stage_fits_def)
  show e: "sub_ok (end_op i op1 s)" by (rule end_op_ok [OF but])
  then have "sub_ok (on_session (restore_failed (call_key (op_call op1))) n (end_op i op1 s))"
    by (rule on_session_ok) (auto simp: restore_failed_def has_of_def)
  then show "sub_ok (restore_answered i n op1 answer s)"
    using e restore_next_ok [OF but call fits one] by (simp add: restore_answered_def Let_def)
qed

end
