(* ===== verification/Subscriptions_Promises.thy ===== *)
theory Subscriptions_Promises
  imports Subscriptions_Keep
begin

text \<open>
  Every run of \<open>Subscriptions\<close> from the new registry is in a state of the invariant; what follows of the
  venue, of the holds, of the locks and of the calls that wait.
\<close>

subsection \<open>Every step\<close>

lemma intents_start:
  "it_pending (intent_of x d (subscribing k c s)) = it_pending (intent_of x d s) + (if x = k \<and> d = c then 1 else 0)"
  "it_pending (intent_of x d (releasing k c s)) = it_pending (intent_of x d s)"
  "has_intent x d s \<Longrightarrow> has_intent x d (subscribing k c s)"
  "has_intent x d s \<Longrightarrow> has_intent x d (releasing k c s)"
  by (auto simp: subscribing_def releasing_def intent_of_def has_intent_def dict_get_def dict_simps)

lemma known_start:
  "hold_known x d s \<Longrightarrow> hold_known x d (subscribing k c s)"
  "hold_known x d s \<Longrightarrow> hold_known x d (releasing k c s)"
  unfolding hold_known_def using intents_start(3,4) by blast+

definition entering :: "sub_call \<Rightarrow> SubscriptionRegistry \<Rightarrow> SubscriptionRegistry" where
  "entering call s =
     (case call_consumer call of
        None \<Rightarrow> s
      | Some c \<Rightarrow> if is_subscribe call then subscribing (call_key call) c s else releasing (call_key call) c s)"

lemma entering_fields [simp]:
  "sr_session (entering call s) = sr_session s" "sr_sessions (entering call s) = sr_sessions s"
  "sr_operations (entering call s) = sr_operations s" "sr_consumers (entering call s) = sr_consumers s"
  "sr_next (entering call s) = sr_next s" "sr_locks (entering call s) = sr_locks s"
  "sr_maybe (entering call s) = sr_maybe s"
  by (simp_all add: entering_def subscribing_def releasing_def split: option.split)

lemma entering_pending:
  "it_pending (intent_of x d (entering call s)) = it_pending (intent_of x d s) + (if sub_of x d call then 1 else 0)"
  by (cases call) (auto simp: entering_def intents_start sub_of_def is_subscribe_def)

lemma entering_known: "hold_known x d s \<Longrightarrow> hold_known x d (entering call s)"
  by (auto simp: entering_def intro: known_start split: option.split)

lemma entering_but:
  assumes "sub_ok s"
  shows "sub_but (sr_next s) call {} {} (entering call (s\<lparr>sr_next := Suc (sr_next s)\<rparr>))"
proof -
  let ?i = "sr_next s" and ?s = "entering call (s\<lparr>sr_next := Suc (sr_next s)\<rparr>)"
  have k: "locks_ok ?i {} s" "ops_ok ?i s" "pending_ok ?i None s" "holds_ok s" "venue_ok ?i {} s"
    using assms by (simp_all add: sub_ok_def)
  have c: "other_op i ?s = other_op i s" "is_held x ?s = is_held x s" "consumers_of x ?s = consumers_of x s" for i x
    by (simp_all add: other_op_def fun_eq_iff is_held_def consumers_of_def)
  have i: "intent_of x d (s\<lparr>sr_next := m\<rparr>) = intent_of x d s" "hold_known x d (s\<lparr>sr_next := m\<rparr>) = hold_known x d s" for x d m
    by (simp_all add: intent_of_def hold_known_def has_intent_def)
  have "locks_ok ?i {} ?s" using k(1) by (simp add: locks_ok_def c)
  moreover have "ops_ok ?i ?s"
    using k(2) unfolding ops_ok_def op_fine_def c by (auto intro: less_SucI)
  moreover have "pending_ok ?i (Some call) ?s"
    using k(3) unfolding pending_ok_def c entering_pending i option.case by (simp del: split_paired_All)
  moreover have "holds_ok ?s"
    using k(4) entering_known [of _ _ "s\<lparr>sr_next := Suc ?i\<rparr>" call] unfolding holds_ok_def i by auto
  moreover have "venue_ok ?i {} ?s"
    using k(5) unfolding venue_ok_def settled_keys_def asks_only_def accepts_only_def c by simp
  ultimately show ?thesis by (simp add: sub_but_def)
qed

lemma start_ok:
  assumes "sub_ok s"
  shows "sub_ok (start_call call s)"
proof -
  let ?op = "\<lparr>op_call = call, op_stage = first_stage call, op_asked = None\<rparr>"
  have waits: "op_waits ?op" by (cases call) (simp_all add: op_waits_def stage_fits_def first_stage_def)
  have "op_locks ?op = {}" by (cases call) (simp_all add: op_locks_def first_stage_def)
  then have "sub_but (sr_next s) (op_call ?op) (op_locks ?op) {} (entering call (s\<lparr>sr_next := Suc (sr_next s)\<rparr>))"
    using entering_but [OF assms] by simp
  then have "sub_ok (want_lock (sr_next s) ?op (locked_stage (sr_next s) ?op)
      (entering call (s\<lparr>sr_next := Suc (sr_next s)\<rparr>)))"
    by (rule want_lock_ok [OF _ waits]) (rule locked_stage_ok [OF _ waits])
  then show ?thesis by (simp add: start_call_def entering_def Let_def)
qed

lemma sub_answered_ok:
  assumes "sub_ok s" and "map_of (sr_operations s) i = Some op1" and "op_asked op1 = Some n"
  shows "sub_ok (sub_answered i n op1 answer s)"
proof (cases "op_stage op1")
  case Bars_enter
  then have False using ok_but_of_op(2) [OF assms(1,2)] assms(3)
    by (auto simp: op_fine_def stage_fits_def split: sub_call.splits)
  then show ?thesis ..
qed (use take_answered_ok(1) [OF assms] dropping_answered_ok(1) [OF assms] restore_answered_ok(1) [OF assms]
    in \<open>simp_all add: sub_answered_def is_taking_def is_dropping_def\<close>)

lemma waiting_but:
  assumes "sub_ok s" and "map_of (sr_operations s) i = Some op1" and "op_asked op1 = None"
  shows "sub_but i (op_call op1) (op_locks op1) {} s" "op_waits op1"
  using ok_but_of_op [OF assms(1,2)] assms(3) by (simp_all add: asks_to_drop_def op_waits_def op_fine_def)

lemma cancelled_ok:
  assumes "sub_ok s" and "map_of (sr_operations s) i = Some op1"
  shows "sub_ok (sub_cancelled i op1 s)"
proof (cases "op_asked op1")
  case None
  then show ?thesis using end_op_ok [OF waiting_but(1) [OF assms None]] by (simp add: sub_cancelled_def)
next
  case (Some n)
  show ?thesis
  proof (cases "op_stage op1")
    case Bars_enter
    then have False using ok_but_of_op(2) [OF assms] Some
      by (auto simp: op_fine_def stage_fits_def split: sub_call.splits)
    then show ?thesis ..
  qed (use take_answered_ok(2) [OF assms Some] dropping_answered_ok(2) [OF assms Some]
      restore_answered_ok(2) [OF assms Some] Some
      in \<open>simp_all add: sub_cancelled_def is_taking_def is_dropping_def case_prod_beta\<close>)
qed

lemma lock_free_ok:
  assumes "sub_ok s" and "map_of (sr_operations s) i = Some op1" and "op_asked op1 = None"
    and "map_of (sr_locks s) (lock_key op1) = None"
  shows "sub_ok (locked_stage i op1 (s\<lparr>sr_locks := AList.update (lock_key op1) i (sr_locks s)\<rparr>))"
proof -
  note w = waiting_but [OF assms(1-3)]
  have "sub_but i (op_call op1) (all_locks op1) {} (with_lock i (lock_key op1) s)"
    using lock_but [OF w(1) assms(4)] waiting_locks [OF w(2)] by simp
  from locked_stage_ok [OF this w(2)] show ?thesis by (simp add: with_lock_def)
qed

lemma attach_ok:
  assumes "sub_ok s"
  shows "sub_ok (sb_attach n s)"
proof (cases "map_of (sr_sessions s) n")
  case (Some a)
  then show ?thesis using assms by (simp add: sb_attach_def)
next
  case None
  let ?s = "sb_attach n s"
  have f: "sr_operations ?s = sr_operations s" "sr_next ?s = sr_next s" "sr_locks ?s = sr_locks s"
    "sr_intents ?s = sr_intents s" "sr_consumers ?s = sr_consumers s" "sr_maybe ?s = sr_maybe s"
    by (simp_all add: sb_attach_def None Let_def sb_detach_def)
  have c: "other_op i ?s = other_op i s" "intent_of x d ?s = intent_of x d s" "hold_known x d ?s = hold_known x d s"
    "is_held x ?s = is_held x s" "consumers_of x ?s = consumers_of x s" for x d i
    using f by (simp_all add: other_op_def fun_eq_iff intent_of_def hold_known_def has_intent_def is_held_def consumers_of_def)
  have "venue_ok (sr_next s) {} ?s"
    unfolding venue_ok_def c
    by (simp add: sb_attach_def None Let_def sb_detach_def dict_simps sb_accepts_def is_held_def)
      (simp add: dom_map_of_conv_image_fst [symmetric] dom_def)
  then show ?thesis
    using assms unfolding sub_ok_def locks_ok_def ops_ok_def op_fine_def pending_ok_def holds_ok_def c f by simp
qed

lemma detach_ok: "sub_ok s \<Longrightarrow> sub_ok (sb_detach s)"
  unfolding sub_ok_def locks_ok_def ops_ok_def op_fine_def pending_ok_def holds_ok_def venue_ok_def other_op_def
    consumers_of_def intent_of_def hold_known_def has_intent_def
  by (simp add: sb_detach_def)

lemma moves_ok: "sub_ok s \<Longrightarrow> sub_ok (session_moves n st generation1 s)"
  unfolding session_moves_def by (auto intro!: on_session_ok simp: sb_accepts_def)

lemma ready_ok: "sub_ok s \<Longrightarrow> sub_ok (session_ready s)"
  unfolding session_ready_def on_attached_def
  by (auto intro!: on_session_ok simp: sb_accepts_def has_of_def split: option.split if_splits)
lemma restores_ok:
  assumes "sub_ok s"
  shows "sub_ok (session_restores s)"
proof (cases "list_all (\<lambda>(i, op1). op_asked op1 = None) (sr_operations s) \<and>
    list_all (\<lambda>(n, a). \<not> sb_accepts (at_state (the (map_of (sr_sessions s) n)))) (sr_sessions s)")
  case True
  let ?f = "\<lambda>a. a\<lparr>at_state := RESTORING, at_todo := at_restores a, at_failed := [], at_live := []\<rparr>"
  let ?s = "on_attached ?f s" and ?N = "sr_next s"
  have quiet: "op_asked op1 = None" if "map_of (sr_operations s) j = Some op1" for j op1
    using True map_of_SomeD [OF that] by (auto simp: list_all_iff)
  have none: "\<not> sb_accepts (at_state a)" if "map_of (sr_sessions s) n = Some a" for n a
    using True map_of_SomeD [OF that] that by (fastforce simp: list_all_iff)
  have k: "locks_ok ?N {} s" "ops_ok ?N s" "pending_ok ?N None s" "holds_ok s" "venue_ok ?N {} s"
    "map_of (sr_operations s) ?N = None"
    using assms by (simp_all add: sub_ok_def)
  have c: "other_op i ?s = other_op i s" "intent_of x d ?s = intent_of x d s" "hold_known x d ?s = hold_known x d s"
    for x d i
    by (simp_all add: other_op_def fun_eq_iff intent_of_def hold_known_def has_intent_def)
  have "venue_ok ?N {} ?s"
    unfolding venue_ok_def
  proof (intro allI impI)
    fix n assume "sr_session ?s = Some n"
    then have n: "sr_session s = Some n" by simp
    then obtain a where a: "map_of (sr_sessions s) n = Some a" "set (at_restores a) = {x. is_held x s}"
      using k(5) unfolding venue_ok_def by blast
    have "accepts_only n ?s"
      using none n unfolding accepts_only_def by (auto simp: on_attached_of split: if_splits)
    moreover have "asks_only ?N n ?s"
      using quiet unfolding asks_only_def c by (fastforce simp: other_op_def)
    moreover have "settled_keys ?N {} ?s \<subseteq> has_of (?f a)"
      using a(2) by (auto simp: settled_keys_def has_of_def)
    ultimately show "\<exists>a. map_of (sr_sessions ?s) n = Some a \<and> set (at_restores a) = {k. is_held k ?s} \<and>
      (at_state a = READY \<longrightarrow> at_todo a = []) \<and>
      (sb_accepts (at_state a) \<longrightarrow> accepts_only n ?s \<and> asks_only ?N n ?s \<and> settled_keys ?N {} ?s \<subseteq> has_of a)"
      using a n by (intro exI [of _ "?f a"]) (simp add: on_attached_of)
  qed
  moreover have "locks_ok ?N {} ?s" using k(1) by (simp add: locks_ok_def c)
  moreover have "ops_ok ?N ?s" using k(2) by (simp add: ops_ok_def op_fine_def c)
  moreover have "pending_ok ?N None ?s" using k(3) unfolding pending_ok_def c .
  moreover have "holds_ok ?s" using k(4) by (simp add: holds_ok_def c)
  ultimately have "sub_ok ?s" using k(6) by (simp add: sub_ok_def)
  then show ?thesis using True by (simp add: session_restores_def)
next
  case False
  then have "session_restores s = s" unfolding session_restores_def by (rule if_not_P)
  then show ?thesis using assms by simp
qed

lemma spot_ok: "sub_ok (snd (on_spot now raising event s)) = sub_ok s"
  by (rule sub_ok_same)
    (simp_all add: on_spot_def keep_spot_def Let_def split: option.split)

lemma listeners_ok:
  "sub_ok (add_spot_listener symbol l s) = sub_ok s" "sub_ok (remove_spot_listener symbol l s) = sub_ok s"
  "sub_ok (add_trendbar_recovery_listener l s) = sub_ok s" "sub_ok (remove_trendbar_recovery_listener l s) = sub_ok s"
  by (rule sub_ok_same;
    simp add: add_spot_listener_def remove_spot_listener_def add_trendbar_recovery_listener_def
      remove_trendbar_recovery_listener_def Let_def)+

lemma step_ok:
  assumes "sub_ok s"
  shows "sub_ok (sub_step ev s)"
proof (cases ev)
  case (Sub_lock_free i)
  then show ?thesis using assms lock_free_ok [OF assms] by (auto simp: sub_step_def split: option.split)
next
  case (Sub_reply i answer)
  then show ?thesis using assms sub_answered_ok [OF assms] by (auto simp: sub_step_def split: option.split)
next
  case (Sub_cancel i)
  then show ?thesis using assms cancelled_ok [OF assms] by (auto simp: sub_step_def split: option.split)
qed (simp_all add: sub_step_def start_ok attach_ok detach_ok moves_ok restores_ok ready_ok spot_ok listeners_ok assms)

lemma new_registry_ok: "sub_ok new_registry"
  by (simp add: sub_ok_def new_registry_def locks_ok_def ops_ok_def other_op_def pending_ok_def intent_of_def
      dict_get_def holds_ok_def venue_ok_def)

lemma registry_run_ok: "sub_ok s \<Longrightarrow> sub_ok (sub_run evs s)"
  unfolding sub_run_def by (induction evs arbitrary: s) (simp_all add: step_ok)

lemmas reached_ok = registry_run_ok [OF new_registry_ok]
subsection \<open>What a step drops\<close>

text \<open>The references a call may drop: its own, or the spot leg of a trendbar refused.\<close>

definition may_drop :: "sub_call \<Rightarrow> (sub_key \<times> consumer) list" where
  "may_drop call =
     (case call of
        Unsubscribe_spots symbol c \<Rightarrow> [(Spots symbol, c)]
      | Unsubscribe_trendbars symbol period c \<Rightarrow>
          [(Trendbar symbol period, c), (Spots symbol, trendbar_spot_consumer period c)]
      | Subscribe_trendbars symbol period c \<Rightarrow> [(Spots symbol, trendbar_spot_consumer period c)]
      | _ \<Rightarrow> [])"

definition moved_call :: "sub_event \<Rightarrow> SubscriptionRegistry \<Rightarrow> sub_call option" where
  "moved_call ev s =
     (case ev of
        Sub_call call \<Rightarrow> Some call
      | Sub_lock_free i \<Rightarrow> map_option op_call (map_of (sr_operations s) i)
      | Sub_reply i answer \<Rightarrow> map_option op_call (map_of (sr_operations s) i)
      | Sub_cancel i \<Rightarrow> map_option op_call (map_of (sr_operations s) i)
      | _ \<Rightarrow> None)"

definition keeps_but :: "(sub_key \<times> consumer) list \<Rightarrow> SubscriptionRegistry \<Rightarrow> SubscriptionRegistry \<Rightarrow> bool" where
  "keeps_but R s s' \<longleftrightarrow>
     (\<forall>x. set (consumers_of x s) \<subseteq> set (consumers_of x s') \<union> {d. (x, d) \<in> set R})"

lemma keeps_same: "sr_consumers s' = sr_consumers s \<Longrightarrow> keeps_but R s s'"
  by (simp add: keeps_but_def consumers_of_def)

lemma registry_keeps_trans: "keeps_but R s t \<Longrightarrow> keeps_but R t u \<Longrightarrow> keeps_but R s u"
  unfolding keeps_but_def by blast

lemma consumers_update:
  "consumers_of x (s\<lparr>sr_consumers := AList.update k cs (sr_consumers s)\<rparr>) = (if x = k then cs else consumers_of x s)"
  by (simp add: consumers_of_def dict_get_def dict_simps)

lemma consumers_dropped: "consumers_of x (dropped k s) = (if x = k then [] else consumers_of x s)"
  by (simp add: dropped_def consumers_of_def dict_get_def dict_simps)

lemma consumers_record:
  "consumers_of x (sb_record k c s) = (if x = k then List.insert c (consumers_of k s) else consumers_of x s)"
  by (simp add: sb_record_def consumers_of_def dict_get_def dict_simps)

lemma keeps_insert: "keeps_but R s (s\<lparr>sr_consumers := AList.update k (List.insert c (consumers_of k s)) (sr_consumers s)\<rparr>)"
  unfolding keeps_but_def consumers_update by auto

lemma keeps_record: "keeps_but R s (sb_record k c s)"
  unfolding keeps_but_def consumers_record by auto

lemma keeps_unknown: "keeps_but R s (record_unknown n k c s)"
  by (rule registry_keeps_trans [OF keeps_record [of R s k c]]) (simp add: record_unknown_def Let_def keeps_same)

lemma keeps_put: "keeps_but R s (put_op i op1 s)"
  by (simp add: keeps_same put_op_def)

lemma keeps_end: "keeps_but R s (end_op i op1 s)"
  by (simp add: keeps_same)

lemma keeps_acquire:
  assumes "\<And>s'. keeps_but R s' (go s')"
  shows "keeps_but R s (sb_acquire i op1 go s)"
  using assms registry_keeps_trans [OF keeps_insert assms] registry_keeps_trans [OF keeps_record assms] keeps_put
  by (auto simp: sb_acquire_def split: prod.split option.split)

lemma keeps_dropped:
  assumes "set (consumers_of k s) \<subseteq> {c}" and "(k, c) \<in> set R"
  shows "keeps_but R s (dropped k s)"
  using assms unfolding keeps_but_def consumers_dropped by auto

lemma keeps_release:
  assumes "\<And>s'. keeps_but R s' (go s')" and "reference_of op1 \<in> set R"
  shows "keeps_but R s (sb_release i op1 go s)"
proof -
  obtain k c where kc: "reference_of op1 = (k, c)" by (rule prod.exhaust)
  have one: "keeps_but R s (go (dropped k s))" if "\<not> 1 < length (consumers_of k s)" "c \<in> set (consumers_of k s)"
  proof -
    have "consumers_of k s = [c]" using that by (cases "consumers_of k s") auto
    then have "keeps_but R s (dropped k s)" using assms(2) kc by (intro keeps_dropped) auto
    then show ?thesis by (rule registry_keeps_trans [OF _ assms(1)])
  qed
  have "keeps_but R s (s\<lparr>sr_consumers := AList.update k (removeAll c (consumers_of k s)) (sr_consumers s)\<rparr>)"
    using assms(2) kc unfolding keeps_but_def consumers_update by auto
  from registry_keeps_trans [OF this assms(1)] show ?thesis
    using one assms(1) by (auto simp: sb_release_def kc keeps_same put_op_def split: option.split)
qed

lemma keeps_want:
  assumes "\<And>s'. keeps_but R s' (go s')"
  shows "keeps_but R s (want_lock i op1 go s)"
proof -
  have "keeps_but R s (go (s\<lparr>sr_locks := AList.update (lock_key op1) i (sr_locks s)\<rparr>))"
    by (rule registry_keeps_trans [OF keeps_same assms]) simp
  then show ?thesis using keeps_put by (simp add: want_lock_def)
qed

lemma keeps_taken: "keeps_but R s (taken i op1 s)"
proof -
  have "keeps_but R s (unlock k s)" for k by (simp add: keeps_same unlock_def)
  then have "keeps_but R s (bars_take i op1 s)"
    unfolding bars_take_def Let_def by (rule registry_keeps_trans) (rule keeps_acquire, rule keeps_end)
  then show ?thesis by (simp add: taken_def keeps_end)
qed

lemma dropping_reference:
  "stage_fits op1 \<Longrightarrow> is_dropping (op_stage op1) \<Longrightarrow> reference_of op1 \<in> set (may_drop (op_call op1))"
  by (cases "op_call op1") (auto simp: stage_fits_def is_dropping_def reference_of_def spot_leg_of_def may_drop_def)

lemma keeps_gone_on:
  assumes "stage_fits op1"
  shows "keeps_but (may_drop (op_call op1)) s (gone_on i op1 s)"
proof (cases "op_stage op1 = Bars_drop")
  case True
  let ?op = "op1\<lparr>op_stage := Bars_drop_spots, op_asked := None\<rparr>"
  have "reference_of ?op \<in> set (may_drop (op_call op1))"
    using dropping_reference [of ?op] assms True by (auto simp: stage_fits_def is_dropping_def split: sub_call.splits)
  then show ?thesis using True unfolding gone_on_def drop_leg_def Let_def
    by (simp add: keeps_want keeps_release keeps_end)
qed (simp add: gone_on_def keeps_end)

lemma keeps_restore:
  "keeps_but R s (restore_locked i op1 s)" "keeps_but R s (restore_next i op1 s)" "keeps_but R s (restore_answered i n op1 answer s)"
proof -
  have e: "keeps_but R s (restore_ended i op1 s)" for s
    by (simp add: restore_ended_def keeps_same split: sub_call.split)
  show l: "keeps_but R s (restore_locked i op1 s)" for op1 s
    by (auto simp: restore_locked_def restore_ended_def keeps_same put_op_def split: sub_call.split)
  have u: "keeps_but R s (unlock k s)" for k by (simp add: keeps_same unlock_def)
  have n: "keeps_but R s (sb_notify_recovered k m (on_session f n (s\<lparr>sr_maybe := xs\<rparr>)))" for k m f n xs
    by (rule keeps_same) (simp add: sb_notify_recovered_def split: sub_key.split option.split)
  show nx: "keeps_but R s (restore_next i op1 s)"
    using registry_keeps_trans [OF u keeps_want [OF l]] registry_keeps_trans [OF n e] keeps_same [of s s]
    by (simp add: restore_next_def Let_def split: sub_call.split sub_stage.split)
  then show "keeps_but R s (restore_answered i n op1 answer s)"
    by (simp add: restore_answered_def Let_def keeps_same)
qed
lemma keeps_locked_stage:
  assumes "stage_fits op1"
  shows "keeps_but (may_drop (op_call op1)) s (locked_stage i op1 s)"
proof -
  have r: "is_dropping (op_stage op1) \<Longrightarrow> keeps_but (may_drop (op_call op1)) s (sb_release i op1 (gone_on i op1) s)"
    using dropping_reference [OF assms] keeps_gone_on [OF assms] by (intro keeps_release)
  have a: "keeps_but R s (sb_acquire i op2 (taken i op2) s)" for R op2 s by (rule keeps_acquire, rule keeps_taken)
  have b: "keeps_but R s (bars_entered i op1 s)" for R
    using keeps_want [OF a] keeps_end by (simp add: bars_entered_def Let_def split: prod.split)
  show ?thesis
    using r a b keeps_restore(1) keeps_same [of s s]
    by (cases "op_stage op1") (simp_all add: locked_stage_def is_dropping_def)
qed

lemma keeps_start: "keeps_but (may_drop call) s (start_call call s)"
proof -
  let ?op = "\<lparr>op_call = call, op_stage = first_stage call, op_asked = None\<rparr>"
  let ?s = "entering call (s\<lparr>sr_next := Suc (sr_next s)\<rparr>)"
  have fits: "stage_fits ?op" by (cases call) (simp_all add: stage_fits_def first_stage_def)
  have "keeps_but (may_drop call) ?s (want_lock (sr_next s) ?op (locked_stage (sr_next s) ?op) ?s)"
    using keeps_locked_stage [OF fits] by (intro keeps_want) simp
  then have "keeps_but (may_drop call) s (want_lock (sr_next s) ?op (locked_stage (sr_next s) ?op) ?s)"
    by (rule registry_keeps_trans [rotated]) (simp add: keeps_same)
  then show ?thesis by (simp add: start_call_def entering_def Let_def)
qed

lemma keeps_take_answered:
  assumes "stage_fits op1" and "is_taking (op_stage op1)"
  shows "keeps_but (may_drop (op_call op1)) s (take_answered i n op1 answer s)"
proof -
  let ?R = "may_drop (op_call op1)"
  have d: "keeps_but ?R s (let s = sb_record k c (on_session (now_live k) n s) in s\<lparr>sr_maybe := removeAll k (sr_maybe s)\<rparr>)" for k c
    using keeps_record [of ?R "on_session (now_live k) n s" k c] by (simp add: Let_def keeps_but_def consumers_of_def)
  have u: "keeps_but ?R s (taken i op1 (record_unknown n k c s))" for k c
    by (rule registry_keeps_trans [OF keeps_unknown keeps_taken])
  let ?op = "op1\<lparr>op_stage := Bars_undo, op_asked := None\<rparr>"
  have "keeps_but ?R s (want_lock i ?op (sb_release i ?op (end_op i ?op)) s)" if "op_stage op1 = Bars_take"
    using dropping_reference [of ?op] assms(1) that
    by (intro keeps_want keeps_release keeps_end) (auto simp: stage_fits_def is_dropping_def split: sub_call.splits)
  then have r: "keeps_but ?R s (take_refused i op1 s)"
    by (simp add: take_refused_def Let_def keeps_end)
  obtain k c where kc: "reference_of op1 = (k, c)" by (rule prod.exhaust)
  show ?thesis
    unfolding take_answered_def kc prod.case using registry_keeps_trans [OF d keeps_taken] u r keeps_end
    by (cases answer) simp_all
qed

lemma keeps_answered:
  assumes "sub_ok s" and "map_of (sr_operations s) i = Some op1" and "op_asked op1 = Some n"
  shows "keeps_but (may_drop (op_call op1)) s (sub_answered i n op1 answer s)"
    "keeps_but (may_drop (op_call op1)) s (sub_cancelled i op1 s)"
proof -
  let ?R = "may_drop (op_call op1)" and ?k = "fst (reference_of op1)"
  have f: "op_fine s op1" "stage_fits op1" using ok_but_of_op(2) [OF assms(1,2)] by (simp_all add: op_fine_def)
  have drop: "keeps_but ?R s (gone_on i op1 (dropped ?k s))" "keeps_but ?R s (gone_on i op1 (release_cancelled ?k s))"
    if d: "is_dropping (op_stage op1)"
  proof -
    have "keeps_but ?R s (dropped ?k s)"
      using f(1) assms(3) d dropping_reference [OF f(2) d]
      by (intro keeps_dropped [of _ _ "snd (reference_of op1)"]) (auto simp: op_fine_def)
    then show "keeps_but ?R s (gone_on i op1 (dropped ?k s))" by (rule registry_keeps_trans [OF _ keeps_gone_on [OF f(2)]])
    have "keeps_but ?R s (release_cancelled ?k s)" by (simp add: keeps_same release_cancelled_def)
    then show "keeps_but ?R s (gone_on i op1 (release_cancelled ?k s))"
      by (rule registry_keeps_trans [OF _ keeps_gone_on [OF f(2)]])
  qed
  have enter: "op_stage op1 \<noteq> Bars_enter"
    using f(2) assms(3) by (auto simp: stage_fits_def split: sub_call.splits)
  show "keeps_but ?R s (sub_answered i n op1 answer s)"
    using drop(1) keeps_take_answered [OF f(2)] keeps_restore(3) enter
    by (cases "op_stage op1") (simp_all add: sub_answered_def is_taking_def is_dropping_def)
  have "keeps_but ?R s (end_op i op1 (record_unknown n k c s))" for k c
    by (rule registry_keeps_trans [OF keeps_unknown keeps_end])
  then show "keeps_but ?R s (sub_cancelled i op1 s)"
    using drop(2) keeps_end assms(3) enter
    by (cases "op_stage op1") (simp_all add: sub_cancelled_def is_taking_def is_dropping_def case_prod_beta)
qed

lemma keeps_step:
  assumes "sub_ok s"
  shows "keeps_but (case moved_call ev s of None \<Rightarrow> [] | Some call \<Rightarrow> may_drop call) s (sub_step ev s)"
proof (cases ev)
  case (Sub_call call)
  then show ?thesis by (simp add: sub_step_def moved_call_def keeps_start)
next
  case (Sub_lock_free i)
  have "keeps_but (may_drop (op_call op1)) s
      (locked_stage i op1 (s\<lparr>sr_locks := AList.update (lock_key op1) i (sr_locks s)\<rparr>))"
    if "map_of (sr_operations s) i = Some op1" for op1
  proof -
    have "stage_fits op1" using ok_but_of_op(2) [OF assms that] by (simp add: op_fine_def)
    from keeps_locked_stage [OF this] show ?thesis by (rule registry_keeps_trans [rotated]) (simp add: keeps_same)
  qed
  then show ?thesis using Sub_lock_free keeps_same [of s s]
    by (simp add: sub_step_def moved_call_def split: option.split)
next
  case (Sub_reply i answer)
  then show ?thesis using keeps_answered(1) [OF assms] keeps_same [of s s]
    by (simp add: sub_step_def moved_call_def split: option.split)
next
  case (Sub_cancel i)
  have "keeps_but (may_drop (op_call op1)) s (sub_cancelled i op1 s)"
    if "map_of (sr_operations s) i = Some op1" for op1
    using keeps_answered(2) [OF assms that] keeps_end by (cases "op_asked op1") (simp_all add: sub_cancelled_def)
  then show ?thesis using Sub_cancel keeps_same [of s s]
    by (simp add: sub_step_def moved_call_def split: option.split)
qed (simp_all add: sub_step_def moved_call_def keeps_same sb_attach_def sb_detach_def Let_def session_moves_def
    session_restores_def session_ready_def on_spot_def keep_spot_def add_spot_listener_def remove_spot_listener_def
    add_trendbar_recovery_listener_def remove_trendbar_recovery_listener_def split: option.split)
subsection \<open>What holds in every run\<close>

definition unsubscribing :: "sub_key \<Rightarrow> SubscriptionRegistry \<Rightarrow> bool" where
  "unsubscribing k s \<longleftrightarrow> list_ex (\<lambda>(j, op1). asks_to_drop k op1) (sr_operations s)"

text \<open>A session brought up over one hold, then a lost unsubscribe, a trendbar and its refusal.\<close>

definition sample_spots :: "sub_event list" where
  "sample_spots =
     [Sub_call (Subscribe_spots 7 (''data'', ''a'')), Sub_attach 0, Session_restores,
      Sub_call (Run_restore 0 (Spots 7)), Sub_reply 1 Sub_done, Session_ready]"

definition sample_bars :: "sub_event list" where
  "sample_bars =
     sample_spots @ [Sub_call (Subscribe_trendbars 7 1 (''data'', ''b'')), Sub_call (Unsubscribe_spots 7 (''data'', ''a''))]"

lemma reached_attached:
  assumes "sub_ok s" and "the_attached s = Some a"
  obtains n where "sr_session s = Some n" "map_of (sr_sessions s) n = Some a"
    "set (at_restores a) = {k. is_held k s}" "at_state a = READY \<longrightarrow> at_todo a = []"
    "sb_accepts (at_state a) \<longrightarrow> settled_keys (sr_next s) {} s \<subseteq> has_of a"
proof -
  obtain n where n: "sr_session s = Some n" "map_of (sr_sessions s) n = Some a"
    using assms(2) by (auto simp: the_attached_def split: option.splits)
  then show ?thesis using assms(1) that unfolding sub_ok_def venue_ok_def by fastforce
qed

text \<open>
  C18: In every interleaving of calls, answers, cancellations, losses and bring-ups, the attached session
  has a restore for exactly the keys somebody holds, and while it is ready every held key, unless an
  unsubscribe of it was cancelled or is being asked, is live at the venue or waits for a restore retry.
\<close>

lemma held_keys_are_live_or_retried:
  assumes "the_attached (sub_run evs new_registry) = Some a"
  shows "set (at_restores a) = {k. is_held k (sub_run evs new_registry)} \<and>
    (at_state a = READY \<and> is_held k (sub_run evs new_registry) \<and> k \<notin> set (sr_maybe (sub_run evs new_registry)) \<and>
       \<not> unsubscribing k (sub_run evs new_registry) \<longrightarrow> k \<in> set (at_live a) \<or> k \<in> set (at_failed a))"
proof -
  let ?s = "sub_run evs new_registry"
  have ok: "sub_ok ?s" by (rule reached_ok)
  obtain n where n: "set (at_restores a) = {k. is_held k ?s}" "at_state a = READY \<longrightarrow> at_todo a = []"
    "sb_accepts (at_state a) \<longrightarrow> settled_keys (sr_next ?s) {} ?s \<subseteq> has_of a"
    using reached_attached [OF ok assms] by metis
  have "k \<in> settled_keys (sr_next ?s) {} ?s"
    if "is_held k ?s" "k \<notin> set (sr_maybe ?s)" "\<not> unsubscribing k ?s"
    using that unfolding settled_keys_def unsubscribing_def other_op_def list_ex_iff
    by (auto dest: map_of_SomeD)
  then show ?thesis using n by (auto simp: sb_accepts_def has_of_def)
qed

lemma held_keys_are_live_or_retried_witness:
  "set (at_restores (the (the_attached (sub_run sample_spots new_registry)))) =
     {k. is_held k (sub_run sample_spots new_registry)} \<and>
   at_state (the (the_attached (sub_run sample_spots new_registry))) = READY \<and>
   (Spots 7 \<in> set (at_live (the (the_attached (sub_run sample_spots new_registry)))) \<or>
    Spots 7 \<in> set (at_failed (the (the_attached (sub_run sample_spots new_registry)))))"
proof -
  have a: "the_attached (sub_run sample_spots new_registry) =
      Some (the (the_attached (sub_run sample_spots new_registry)))"
    by code_simp
  moreover have "at_state (the (the_attached (sub_run sample_spots new_registry))) = READY"
    "is_held (Spots 7) (sub_run sample_spots new_registry)"
    "Spots 7 \<notin> set (sr_maybe (sub_run sample_spots new_registry))"
    "\<not> unsubscribing (Spots 7) (sub_run sample_spots new_registry)"
    by code_simp+
  ultimately show ?thesis using held_keys_are_live_or_retried [OF a, of "Spots 7"] by blast
qed

text \<open>
  The key a request in flight is about: that of the lock its call holds, but for the restore of a trendbar, which
  asks for the spots first, under the trendbar's lock.
\<close>

definition asked_key :: "operation \<Rightarrow> sub_key" where
  "asked_key op1 =
     (case (op_call op1, op_stage op1) of
        (Run_restore n k, Restore_request r) \<Rightarrow>
          if r < length (restore_requests k) then restore_requests k ! r else lock_key op1
      | _ \<Rightarrow> lock_key op1)"

definition asks_spots_of_bars :: "operation \<Rightarrow> bool" where
  "asks_spots_of_bars op1 \<longleftrightarrow>
     (\<exists>n symbol period. op_call op1 = Run_restore n (Trendbar symbol period) \<and> op_stage op1 = Restore_request 0 \<and>
        asked_key op1 = Spots symbol)"

lemma asked_or_spots: "asked_key op1 = lock_key op1 \<or> asks_spots_of_bars op1"
proof (cases "op_call op1")
  case (Run_restore n k)
  show ?thesis
  proof (cases "op_stage op1")
    case (Restore_request r)
    have "lock_key op1 = k" using Run_restore Restore_request by (simp add: lock_key_def reference_of_def)
    then show ?thesis
      using Run_restore Restore_request
      by (cases r; cases k) (auto simp: asked_key_def asks_spots_of_bars_def restore_requests_def less_Suc_eq)
  qed (simp_all add: asked_key_def Run_restore)
qed (simp_all add: asked_key_def)

text \<open>
  C26: Of two calls that wait for the venue's answer at once, neither holds the lock of a key the other works on: their
  lock keys differ, and none is the trendbar another has begun to subscribe or unsubscribe. So they never ask about the
  same key, with one exception: the restore of a trendbar asks for the trendbar's spots first, holding only the
  trendbar's lock, so another call may ask about the same spots meanwhile.
\<close>

lemma requests_on_a_key_exclude_each_other:
  assumes "map_of (sr_operations (sub_run evs new_registry)) i = Some op1"
    and "map_of (sr_operations (sub_run evs new_registry)) j = Some op2"
    and "op_asked op1 \<noteq> None" and "op_asked op2 \<noteq> None" and "i \<noteq> j"
  shows "lock_key op1 \<noteq> lock_key op2 \<and> lock_key op1 \<noteq> call_key (op_call op2) \<and>
    (asked_key op1 \<noteq> asked_key op2 \<or> asks_spots_of_bars op1 \<or> asks_spots_of_bars op2)"
proof -
  let ?s = "sub_run evs new_registry"
  have ok: "sub_ok ?s" by (rule reached_ok)
  have lock: "map_of (sr_locks ?s) k = Some m" if "map_of (sr_operations ?s) m = Some op3" "k \<in> op_locks op3" for m k op3
    using ok that other_op_next [OF ok] unfolding sub_ok_def locks_ok_def by blast
  have "map_of (sr_locks ?s) (lock_key op1) = Some i"
    using lock [OF assms(1)] assms(3) by (simp add: op_locks_def)
  moreover have "map_of (sr_locks ?s) (lock_key op2) = Some j" "map_of (sr_locks ?s) (call_key (op_call op2)) = Some j"
    using lock [OF assms(2)] assms(4) by (simp_all add: op_locks_def)
  ultimately have "lock_key op1 \<noteq> lock_key op2 \<and> lock_key op1 \<noteq> call_key (op_call op2)" using assms(5) by auto
  then show ?thesis using asked_or_spots [of op1] asked_or_spots [of op2] by metis
qed

lemma requests_on_a_key_exclude_each_other_witness:
  "asked_key (the (map_of (sr_operations (sub_run (sample_spots @ [Sub_call (Subscribe_spots 8 (''data'', ''a'')),
     Sub_call (Subscribe_spots 9 (''data'', ''b''))]) new_registry)) 2)) \<noteq> Spots 9"
proof -
  let ?s = "sub_run (sample_spots @ [Sub_call (Subscribe_spots 8 (''data'', ''a'')),
       Sub_call (Subscribe_spots 9 (''data'', ''b''))]) new_registry"
  have a: "map_of (sr_operations ?s) 2 =
      Some \<lparr>op_call = Subscribe_spots 8 (''data'', ''a''), op_stage = Take_spots, op_asked = Some 0\<rparr>"
    and b: "map_of (sr_operations ?s) 3 =
      Some \<lparr>op_call = Subscribe_spots 9 (''data'', ''b''), op_stage = Take_spots, op_asked = Some 0\<rparr>"
    by code_simp+
  have "asked_key \<lparr>op_call = Subscribe_spots 9 (''data'', ''b''), op_stage = Take_spots, op_asked = Some 0\<rparr> = Spots 9"
    by code_simp
  with a requests_on_a_key_exclude_each_other [OF a b] show ?thesis by (auto simp: asks_spots_of_bars_def)
qed

text \<open>
  The exception: a trendbar whose cancelled unsubscribe gave up its spots is restored while its spots are subscribed.
\<close>

lemma spots_asked_twice:
  "(let s = sub_run [Sub_call (Subscribe_trendbars 7 1 (''data'', ''b'')), Sub_attach 0, Session_restores,
        Sub_call (Run_restore 0 (Spots 7)), Sub_reply 1 Sub_done,
        Sub_call (Run_restore 0 (Trendbar 7 1)), Sub_reply 2 Sub_done, Sub_reply 2 Sub_done, Session_ready,
        Sub_call (Unsubscribe_trendbars 7 1 (''data'', ''b'')), Sub_cancel 3, Sub_reply 3 Sub_done,
        Sub_call (Run_restore 0 (Trendbar 7 1)), Sub_call (Subscribe_spots 7 (''data'', ''a''))] new_registry
    in map (\<lambda>(i, op1). (i, asked_key op1, lock_key op1, op_asked op1)) (sr_operations s)) =
   [(4, Spots 7, Trendbar 7 1, Some 0), (5, Spots 7, Spots 7, Some 0)]"
  by code_simp

text \<open>
  C38: The calls never wait for each other in a circle: while any call runs, one of them waits for the
  venue's answer, or for a lock that is free.
\<close>

lemma some_call_can_go_on:
  assumes "sr_operations (sub_run evs new_registry) \<noteq> []"
  shows "\<exists>i op1. map_of (sr_operations (sub_run evs new_registry)) i = Some op1 \<and>
     (map_of (sr_locks (sub_run evs new_registry)) (lock_key op1) = None \<or> (\<exists>n. op_asked op1 = Some n))"
proof (rule ccontr)
  let ?s = "sub_run evs new_registry"
  assume stuck: "\<not> ?thesis"
  have ok: "sub_ok ?s" by (rule reached_ok)
  have waits: "(\<exists>j. map_of (sr_locks ?s) (lock_key op1) = Some j) \<and> op_asked op1 = None"
    if "map_of (sr_operations ?s) i = Some op1" for i op1
    using stuck that by (cases "map_of (sr_locks ?s) (lock_key op1)"; cases "op_asked op1") blast+
  have held: "\<exists>j op2. map_of (sr_operations ?s) j = Some op2 \<and> op_asked op2 = None \<and> lock_key op1 = call_key (op_call op2) \<and>
      (op_stage op2 = Bars_spots \<or> op_stage op2 = Bars_undo \<or> op_stage op2 = Bars_drop_spots)"
    if op: "map_of (sr_operations ?s) i = Some op1" for i op1
  proof -
    obtain j where "map_of (sr_locks ?s) (lock_key op1) = Some j" using waits [OF op] by blast
    then obtain op2 where "map_of (sr_operations ?s) j = Some op2" "lock_key op1 \<in> op_locks op2"
      using ok unfolding sub_ok_def locks_ok_def other_op_def by blast
    moreover have "op_asked op2 = None" using waits [OF calculation(1)] by blast
    ultimately show ?thesis by (auto simp: op_locks_def split: if_splits)
  qed
  have fits: "stage_fits op1" if "map_of (sr_operations ?s) i = Some op1" for i op1
    using ok_but_of_op(2) [OF ok that] by (simp add: op_fine_def)
  obtain i op1 where op1: "map_of (sr_operations ?s) i = Some op1"
  proof -
    obtain p ps where "sr_operations ?s = p # ps" using assms by (auto simp: neq_Nil_conv)
    then have "map_of (sr_operations ?s) (fst p) = Some (snd p)" by simp
    then show ?thesis by (rule that)
  qed
  obtain j op2 where op2: "map_of (sr_operations ?s) j = Some op2"
    "op_stage op2 = Bars_spots \<or> op_stage op2 = Bars_undo \<or> op_stage op2 = Bars_drop_spots"
    using held [OF op1] by blast
  obtain m op3 where op3: "map_of (sr_operations ?s) m = Some op3" "lock_key op2 = call_key (op_call op3)"
    "op_stage op3 = Bars_spots \<or> op_stage op3 = Bars_undo \<or> op_stage op3 = Bars_drop_spots"
    using held [OF op2(1)] by blast
  have "\<exists>symbol. lock_key op2 = Spots symbol"
    using fits [OF op2(1)] op2(2)
    by (cases "op_call op2") (auto simp: stage_fits_def lock_key_def reference_of_def spot_leg_of_def)
  moreover have "\<exists>symbol period. call_key (op_call op3) = Trendbar symbol period"
    using fits [OF op3(1)] op3(3) by (cases "op_call op3") (auto simp: stage_fits_def)
  ultimately show False using op3(2) by auto
qed

definition sample_waiting :: "sub_event list" where
  "sample_waiting =
     sample_bars @ [Sub_call (Subscribe_spots 7 (''data'', ''c'')), Sub_call (Unsubscribe_spots 7 (''data'', ''c''))]"

lemma some_call_can_go_on_witness:
  "\<exists>i op1. map_of (sr_operations (sub_run sample_waiting new_registry)) i = Some op1 \<and>
     (map_of (sr_locks (sub_run sample_waiting new_registry)) (lock_key op1) = None \<or>
      (\<exists>n. op_asked op1 = Some n))"
proof -
  have "sr_operations (sub_run sample_waiting new_registry) \<noteq> []" by code_simp
  then show ?thesis by (rule some_call_can_go_on)
qed

text \<open>
  C25: A consumer that is counted on a key stops being counted only by a step of a call of its own: its own
  unsubscribe, or its own trendbar subscribe, refused, giving back the spot leg it took.
\<close>

lemma hold_ends_only_with_its_own_call:
  assumes "c \<in> set (consumers_of k (sub_run evs new_registry))"
    and "c \<notin> set (consumers_of k (sub_step ev (sub_run evs new_registry)))"
  shows "\<exists>call. moved_call ev (sub_run evs new_registry) = Some call \<and> (k, c) \<in> set (may_drop call)"
proof -
  let ?s = "sub_run evs new_registry"
  have "keeps_but (case moved_call ev ?s of None \<Rightarrow> [] | Some call \<Rightarrow> may_drop call) ?s (sub_step ev ?s)"
    by (rule keeps_step [OF reached_ok])
  then have "(k, c) \<in> set (case moved_call ev ?s of None \<Rightarrow> [] | Some call \<Rightarrow> may_drop call)"
    using assms unfolding keeps_but_def by blast
  then show ?thesis by (cases "moved_call ev ?s") auto
qed

lemma hold_ends_only_with_its_own_call_witness:
  "\<exists>call. moved_call (Sub_reply 2 Sub_timeout)
       (sub_run (sample_spots @ [Sub_call (Unsubscribe_spots 7 (''data'', ''a''))]) new_registry) = Some call \<and>
     (Spots 7, (''data'', ''a'')) \<in> set (may_drop call)"
proof -
  let ?evs = "sample_spots @ [Sub_call (Unsubscribe_spots 7 (''data'', ''a''))]"
  have "(''data'', ''a'') \<in> set (consumers_of (Spots 7) (sub_run ?evs new_registry))"
    "(''data'', ''a'') \<notin> set (consumers_of (Spots 7) (sub_step (Sub_reply 2 Sub_timeout) (sub_run ?evs new_registry)))"
    by code_simp+
  then show ?thesis by (rule hold_ends_only_with_its_own_call)
qed

lemma intents_listed:
  "has_intent (Spots symbol) c s \<Longrightarrow> (symbol, snd c) \<in> set (spot_holds (fst c) s)"
  "has_intent (Trendbar symbol period) c s \<Longrightarrow> (symbol, period, snd c) \<in> set (trendbar_holds (fst c) s)"
proof -
  have listed: "\<exists>i. ((k, c), i) \<in> set (sr_intents s)" if "has_intent k c s" for k
    using that by (auto simp: has_intent_def dest: map_of_SomeD)
  show "has_intent (Spots symbol) c s \<Longrightarrow> (symbol, snd c) \<in> set (spot_holds (fst c) s)"
    by (drule listed) (force simp: spot_holds_def map_filter_def)
  show "has_intent (Trendbar symbol period) c s \<Longrightarrow> (symbol, period, snd c) \<in> set (trendbar_holds (fst c) s)"
    by (drule listed) (force simp: trendbar_holds_def map_filter_def)
qed

text \<open>
  Nothing an owner still has to release is missing from its lists of holds: a consumer counted on
  spots is a spot hold, or the spot leg of a trendbar hold, and one counted on trendbars a trendbar hold.
\<close>

lemma every_hold_is_listed:
  assumes "c \<in> set (consumers_of k (sub_run evs new_registry))"
  shows "case k of
      Trendbar symbol period \<Rightarrow> (symbol, period, snd c) \<in> set (trendbar_holds (fst c) (sub_run evs new_registry))
    | Spots symbol \<Rightarrow> (symbol, snd c) \<in> set (spot_holds (fst c) (sub_run evs new_registry)) \<or>
        (\<exists>period name. c = trendbar_spot_consumer period (fst c, name) \<and>
           (symbol, period, name) \<in> set (trendbar_holds (fst c) (sub_run evs new_registry)))"
proof -
  let ?s = "sub_run evs new_registry"
  have ok: "sub_ok ?s" by (rule reached_ok)
  have "hold_known k c ?s"
    using ok assms by (intro holds_at(2)) (auto simp: sub_ok_def)
  then consider "has_intent k c ?s" | symbol period c0 where "k = Spots symbol"
    "c = trendbar_spot_consumer period c0" "has_intent (Trendbar symbol period) c0 ?s"
    unfolding hold_known_def by blast
  then show ?thesis
  proof cases
    case 1
    then show ?thesis using intents_listed by (cases k) auto
  next
    case 2
    have "fst c = fst c0" "c = trendbar_spot_consumer period (fst c, snd c0)"
      using 2(2) by (simp_all add: trendbar_spot_consumer_def)
    then show ?thesis using 2(1) intents_listed(2) [OF 2(3)] by auto
  qed
qed

lemma every_hold_is_listed_witness:
  "(7, ''a'') \<in> set (spot_holds ''data'' (sub_run (sample_spots @ [Sub_call (Unsubscribe_spots 7 (''data'', ''a'')),
      Sub_cancel 2]) new_registry)) \<or>
   (\<exists>period name. (''data'', ''a'') = trendbar_spot_consumer period (''data'', name) \<and>
      (7, period, name) \<in> set (trendbar_holds ''data'' (sub_run (sample_spots @
        [Sub_call (Unsubscribe_spots 7 (''data'', ''a'')), Sub_cancel 2]) new_registry)))"
proof -
  have "(''data'', ''a'') \<in> set (consumers_of (Spots 7) (sub_run (sample_spots @
      [Sub_call (Unsubscribe_spots 7 (''data'', ''a'')), Sub_cancel 2]) new_registry))"
    by code_simp
  from every_hold_is_listed [OF this] show ?thesis by simp
qed
text \<open>
  Every registry reached is well formed: a held key has consumers, each once; a lock is held by a
  call that runs and whose stage holds it; a call is at a stage of its own kind; and a consumer's pending
  count is the number of its subscribes that run.
\<close>

lemma registry_is_well_formed:
  "(map_of (sr_consumers (sub_run evs new_registry)) k = Some cs \<longrightarrow> cs \<noteq> [] \<and> distinct cs) \<and>
   (map_of (sr_locks (sub_run evs new_registry)) k = Some i \<longrightarrow>
      (\<exists>op1. map_of (sr_operations (sub_run evs new_registry)) i = Some op1 \<and> k \<in> op_locks op1)) \<and>
   (map_of (sr_operations (sub_run evs new_registry)) i = Some op1 \<longrightarrow> stage_fits op1) \<and>
   it_pending (intent_of k c (sub_run evs new_registry)) =
     card {j. \<exists>op1. map_of (sr_operations (sub_run evs new_registry)) j = Some op1 \<and> sub_of k c (op_call op1)}"
proof -
  let ?s = "sub_run evs new_registry"
  have ok: "sub_ok ?s" by (rule reached_ok)
  have "map_of (sr_consumers ?s) k = Some cs \<longrightarrow> cs \<noteq> [] \<and> distinct cs"
    using ok unfolding sub_ok_def holds_ok_def by blast
  moreover have "map_of (sr_locks ?s) k = Some i \<longrightarrow>
      (\<exists>op1. map_of (sr_operations ?s) i = Some op1 \<and> k \<in> op_locks op1)"
    using ok unfolding sub_ok_def locks_ok_def other_op_def by blast
  moreover have "map_of (sr_operations ?s) i = Some op1 \<longrightarrow> stage_fits op1"
    using ok_but_of_op(2) [OF ok] by (auto simp: op_fine_def)
  moreover have "it_pending (intent_of k c ?s) =
      card {j. \<exists>op1. map_of (sr_operations ?s) j = Some op1 \<and> sub_of k c (op_call op1)}"
    using ok unfolding sub_ok_def pending_ok_def option.case add_0_right other_op_next [OF ok] by blast
  ultimately show ?thesis by blast
qed

lemma registry_is_well_formed_witness:
  "\<exists>op1. map_of (sr_operations (sub_run sample_bars new_registry)) 2 = Some op1 \<and>
     Trendbar 7 1 \<in> op_locks op1 \<and> stage_fits op1"
proof -
  have "map_of (sr_locks (sub_run sample_bars new_registry)) (Trendbar 7 1) = Some 2" by code_simp
  then show ?thesis
    using registry_is_well_formed [of sample_bars "Trendbar 7 1" _ 2] by blast
qed

definition moved_op :: "sub_event \<Rightarrow> SubscriptionRegistry \<Rightarrow> nat option" where
  "moved_op ev s =
     (case ev of
        Sub_call call \<Rightarrow> Some (sr_next s)
      | Sub_lock_free i \<Rightarrow> Some i
      | Sub_reply i answer \<Rightarrow> Some i
      | _ \<Rightarrow> None)"

lemma put_op_of: "map_of (sr_operations (put_op i op1 s)) i = Some op1"
  by (simp add: put_op_def dict_simps)

lemma release_counts:
  assumes "op_stage op1 = Drop_spots" and "reference_of op1 = (k, c)"
    and "map_of (sr_operations (sb_release i op1 (gone_on i op1) s)) i = None"
  shows "c \<notin> set (consumers_of k (sb_release i op1 (gone_on i op1) s))"
proof -
  have e: "gone_on i op1 t = end_op i op1 t" for t by (simp add: gone_on_def assms(1))
  have c: "consumers_of x (end_op i op1 t) = consumers_of x t" for x t by (simp add: consumers_of_def)
  show ?thesis
    using assms(3) unfolding sb_release_def assms(2) prod.case e
    by (auto simp: put_op_of c consumers_update consumers_dropped split: if_splits option.splits)
qed

text \<open>
  An unsubscribe of spots that ran its course, cancelled calls apart, leaves its consumer uncounted,
  whatever the venue answered, and whether or not a session stands.
\<close>

lemma ended_release_is_uncounted:
  assumes "moved_call ev (sub_run evs new_registry) = Some (Unsubscribe_spots symbol c)"
    and "moved_op ev (sub_run evs new_registry) = Some i"
    and "map_of (sr_operations (sub_step ev (sub_run evs new_registry))) i = None"
  shows "c \<notin> set (consumers_of (Spots symbol) (sub_step ev (sub_run evs new_registry)))"
proof -
  let ?s = "sub_run evs new_registry" and ?call = "Unsubscribe_spots symbol c"
  have ok: "sub_ok ?s" by (rule reached_ok)
  have stage: "op_stage op1 = Drop_spots" "reference_of op1 = (Spots symbol, c)"
    if "op_call op1 = ?call" "stage_fits op1" for op1
    using that by (simp_all add: stage_fits_def reference_of_def)
  have locked: "c \<notin> set (consumers_of (Spots symbol) (locked_stage i op1 t))"
    if "op_call op1 = ?call" "stage_fits op1" "map_of (sr_operations (locked_stage i op1 t)) i = None" for op1 t
    using release_counts [OF stage [OF that(1,2)], of i t] that(3) stage(1) [OF that(1,2)]
    by (simp add: locked_stage_def)
  have fits: "stage_fits op1" if "map_of (sr_operations ?s) j = Some op1" for j op1
    using ok_but_of_op(2) [OF ok that] by (simp add: op_fine_def)
  show ?thesis
  proof (cases ev)
    case (Sub_call call)
    let ?op = "\<lparr>op_call = ?call, op_stage = first_stage ?call, op_asked = None\<rparr>"
    have "stage_fits ?op" by (simp add: stage_fits_def first_stage_def)
    then show ?thesis
      using locked [of ?op] assms Sub_call
      by (auto simp: put_op_of moved_call_def moved_op_def sub_step_def start_call_def Let_def want_lock_def split: if_splits)
  next
    case (Sub_lock_free j)
    then obtain op1 where "map_of (sr_operations ?s) i = Some op1" "op_call op1 = ?call" "j = i"
      using assms(1,2) by (auto simp: moved_call_def moved_op_def)
    then show ?thesis
      using locked [OF _ fits] assms(3) Sub_lock_free by (auto simp: sub_step_def split: if_splits)
  next
    case (Sub_reply j answer)
    then obtain op1 where op1: "map_of (sr_operations ?s) i = Some op1" "op_call op1 = ?call" "j = i"
      using assms(1,2) by (auto simp: moved_call_def moved_op_def)
    note st = stage [OF op1(2) fits [OF op1(1)]]
    have c: "consumers_of x (end_op i op1 t) = consumers_of x t" for x t by (simp add: consumers_of_def)
    show ?thesis
      using assms(3) op1 st Sub_reply
      by (auto simp: sub_step_def sub_answered_def is_taking_def gone_on_def c consumers_dropped split: option.splits)
  qed (use assms(2) in \<open>simp_all add: moved_op_def\<close>)
qed

lemma ended_release_is_uncounted_witness:
  "(''data'', ''a'') \<notin> set (consumers_of (Spots 7) (sub_step (Sub_reply 2 (Sub_refused ''UNKNOWN''))
     (sub_run (sample_spots @ [Sub_call (Unsubscribe_spots 7 (''data'', ''a''))]) new_registry)))"
proof -
  let ?evs = "sample_spots @ [Sub_call (Unsubscribe_spots 7 (''data'', ''a''))]"
  have a: "moved_call (Sub_reply 2 (Sub_refused ''UNKNOWN'')) (sub_run ?evs new_registry) =
      Some (Unsubscribe_spots 7 (''data'', ''a''))"
    by code_simp
  have b: "moved_op (Sub_reply 2 (Sub_refused ''UNKNOWN'')) (sub_run ?evs new_registry) = Some 2" by code_simp
  have c: "map_of (sr_operations (sub_step (Sub_reply 2 (Sub_refused ''UNKNOWN''))
      (sub_run ?evs new_registry))) 2 = None"
    by code_simp
  show ?thesis by (rule ended_release_is_uncounted [OF a b c])
qed

end
