(* ===== verification/Instruments.thy ===== *)
theory Instruments
  imports Parsing
begin

text \<open>
  \<open>providers.py\<close>: the instruments of an account and the chains of symbols that convert a currency into
  the account's, with what \<open>common/account.py\<close> does for it: the symbol specs it caches, and the reload
  of a symbol that changed. A call is cut where it waits, for the specs of symbols in batches, or for
  the query of a chain, which is a task of its own and may be shared; so every interleaving is a list
  of events. \<open>ts\<close> is the clock a step reads, \<open>N\<close> the constructors of Nautilus.
\<close>

subsection \<open>State\<close>

definition CTRADER_VENUE :: string where
  "CTRADER_VENUE = ''CTRADER''"

definition SYMBOL_BY_ID_BATCH :: nat where
  "SYMBOL_BY_ID_BATCH = 100"

text \<open>Symbol and venue.\<close>

type_synonym instrument_id = "string \<times> string"

definition id_of :: "symbol_instrument \<Rightarrow> instrument_id" where
  "id_of instrument = (si_name instrument, CTRADER_VENUE)"

definition symbol_id_of :: "symbol_instrument \<Rightarrow> int" where
  "symbol_id_of instrument = symbol_id (si_info instrument)"

datatype load_reason =
    Not_a_ctrader_instrument
  | Not_offered
  | No_spec
  | Unbuildable parse_error
  | Removed string

type_synonym chain_key = "int \<times> int"
type_synonym conversion_chain = "ProtoOALightSymbol list"

datatype load_error =
    Account_not_connected
  | Reference_not_loaded
  | Dropped_earlier string
  | Not_built string load_reason
  | Not_loaded_by_provider instrument_id
  | No_conversion_chain int int
  | Symbol_not_offered int
  | Instruments_failed nat
  | Request_failed string
  | Key_error string

datatype load_result =
    Load_failed load_error
  | Load_done
  | Chain_instruments "symbol_instrument list"
  | Reloaded symbol_instrument

datatype load_call =
    Load_all
  | Load_ids "instrument_id list"
  | Conversion_for instrument_id
  | Reload int

text \<open>
  Where a call waits: for the specs of names, of the missing legs of a chain, or of a symbol reloaded,
  each with the ids still to be fetched; for a query; to run again with its answer, or from its start.
\<close>

datatype load_stage =
    Names_specs "ProtoOALightSymbol list" "(string \<times> load_reason) list" "int list"
  | Chain_wait chain_key nat
  | Chain_ready chain_key "load_error + conversion_chain"
  | Legs_specs conversion_chain "int list" "int list"
  | Reload_starts int
  | Reload_spec ProtoOALightSymbol int "int list"

record chain_query =
  cq_key :: chain_key
  cq_generation :: "nat option"

record provider =
  pv_connected :: bool
  pv_light_symbols :: "(string, ProtoOALightSymbol) dict"
  pv_assets :: "(int, string) dict"
  pv_deposit :: "int option"
  pv_symbol_specs :: "(int, ProtoOASymbol) dict"
  pv_overrides :: "(string, AssetClass) dict"
  pv_fail_on_error :: bool
  pv_instruments :: "(instrument_id, symbol_instrument) dict"
  pv_failures :: "(string, load_reason) dict"
  pv_by_symbol_id :: "(int, symbol_instrument) dict"
  pv_quote_asset_id :: "(instrument_id, int) dict"
  pv_chains :: "(chain_key, conversion_chain) dict"
  pv_chain_generation :: nat
  pv_chain_queries :: nat
  pv_chain_tasks :: "(chain_key, nat) dict"
  pv_blocked :: "string list"
  pv_queries :: "(nat, chain_query) dict"
  pv_operations :: "(nat, load_stage) dict"
  pv_next :: nat
  pv_ended :: "(nat \<times> load_result) list"

definition new_provider :: "(string, AssetClass) dict \<Rightarrow> bool \<Rightarrow> provider" where
  "new_provider overrides fail_on_error =
     \<lparr>pv_connected = False, pv_light_symbols = [], pv_assets = [], pv_deposit = None, pv_symbol_specs = [],
      pv_overrides = overrides, pv_fail_on_error = fail_on_error, pv_instruments = [], pv_failures = [],
      pv_by_symbol_id = [], pv_quote_asset_id = [], pv_chains = [], pv_chain_generation = 0,
      pv_chain_queries = 0, pv_chain_tasks = [], pv_blocked = [], pv_queries = [], pv_operations = [],
      pv_next = 0, pv_ended = []\<rparr>"

text \<open>\<open>symbol_id\<close> and \<open>instrument_for_symbol_id\<close>.\<close>

definition find_instrument :: "instrument_id \<Rightarrow> provider \<Rightarrow> symbol_instrument option" where
  "find_instrument i s = map_of (pv_instruments s) i"

definition pv_symbol_id :: "instrument_id \<Rightarrow> provider \<Rightarrow> load_error + int" where
  "pv_symbol_id i s =
     (case find_instrument i s of
        None \<Rightarrow> Inl (Not_loaded_by_provider i) | Some instrument \<Rightarrow> Inr (symbol_id_of instrument))"

definition instrument_for_symbol_id :: "int \<Rightarrow> provider \<Rightarrow> symbol_instrument option" where
  "instrument_for_symbol_id x s = map_of (pv_by_symbol_id s) x"

subsection \<open>Building\<close>

definition record_failure :: "string \<Rightarrow> load_reason \<Rightarrow> provider \<Rightarrow> provider" where
  "record_failure name reason s = s\<lparr>pv_failures := AList.update name reason (pv_failures s)\<rparr>"

definition finish_load :: "symbol_instrument \<Rightarrow> ProtoOALightSymbol \<Rightarrow> provider \<Rightarrow> provider" where
  "finish_load instrument light s =
     s\<lparr>pv_instruments := AList.update (id_of instrument) instrument (pv_instruments s),
       pv_by_symbol_id := AList.update (symbol_id_of instrument) instrument (pv_by_symbol_id s),
       pv_quote_asset_id := AList.update (id_of instrument) (quoteAssetId light) (pv_quote_asset_id s),
       pv_failures := AList.delete (symbolName light) (pv_failures s)\<rparr>"

definition build_or_fail ::
    "nautilus \<Rightarrow> int \<Rightarrow> bool \<Rightarrow> ProtoOASymbol option \<Rightarrow> ProtoOALightSymbol \<Rightarrow> provider \<Rightarrow>
     (load_error + symbol_instrument) \<times> provider" where
  "build_or_fail N ts recording spec light s =
     (let name = symbolName light in
      if name \<in> set (pv_blocked s) then (Inl (Dropped_earlier name), s)
      else case (case spec of
                   None \<Rightarrow> Inl No_spec
                 | Some symbol \<Rightarrow>
                     (case instrument_from_symbol N symbol light (pv_assets s) (pv_overrides s) ts of
                        Inl e \<Rightarrow> Inl (Unbuildable e) | Inr instrument \<Rightarrow> Inr instrument)) of
             Inl reason \<Rightarrow> (Inl (Not_built name reason), if recording then record_failure name reason s else s)
           | Inr instrument \<Rightarrow> (Inr instrument, finish_load instrument light s))"

subsection \<open>Calls that wait for symbol specs\<close>

definition end_load :: "nat \<Rightarrow> load_result \<Rightarrow> provider \<Rightarrow> provider" where
  "end_load i r s =
     s\<lparr>pv_operations := AList.delete i (pv_operations s), pv_ended := pv_ended s @ [(i, r)]\<rparr>"

definition put_load :: "nat \<Rightarrow> load_stage \<Rightarrow> provider \<Rightarrow> provider" where
  "put_load i st s = s\<lparr>pv_operations := AList.update i st (pv_operations s)\<rparr>"

text \<open>The ids \<open>symbol_specs\<close> has to fetch, each once, and what it returns.\<close>

definition missing_specs :: "bool \<Rightarrow> int list \<Rightarrow> provider \<Rightarrow> int list" where
  "missing_specs refresh ids s =
     (let ids = rev (remdups (rev ids))
      in if refresh then ids else filter (\<lambda>i. map_of (pv_symbol_specs s) i = None) ids)"

definition specs_of :: "int list \<Rightarrow> provider \<Rightarrow> (int, ProtoOASymbol) dict" where
  "specs_of ids s = List.map_filter (\<lambda>i. map_option (Pair i) (map_of (pv_symbol_specs s) i)) ids"

text \<open>The next batch is asked; with nothing to ask the call goes on at once.\<close>

definition ask_specs ::
    "nat \<Rightarrow> (int list \<Rightarrow> load_stage) \<Rightarrow> int list \<Rightarrow> (provider \<Rightarrow> provider) \<Rightarrow> provider \<Rightarrow> provider" where
  "ask_specs i stage missing go s =
     (if missing = [] then go s
      else if \<not> pv_connected s then end_load i (Load_failed Account_not_connected) s
      else put_load i (stage missing) s)"

definition raise_if_configured :: "(string \<times> load_reason) list \<Rightarrow> provider \<Rightarrow> load_result" where
  "raise_if_configured failures s =
     (if pv_fail_on_error s \<and> failures \<noteq> [] then Load_failed (Instruments_failed (length failures))
      else Load_done)"

text \<open>The loop of \<open>_load_names\<close>; a failure that is not there to be read raises.\<close>

fun build_names ::
    "nautilus \<Rightarrow> int \<Rightarrow> (int, ProtoOASymbol) dict \<Rightarrow> ProtoOALightSymbol list \<Rightarrow>
     (string \<times> load_reason) list \<Rightarrow> provider \<Rightarrow> (load_error + (string \<times> load_reason) list) \<times> provider" where
  "build_names N ts specs [] failures s = (Inr failures, s)"
| "build_names N ts specs (light # lights) failures s =
     (case build_or_fail N ts True (map_of specs (ls_symbolId light)) light s of
        (Inr instrument, s') \<Rightarrow> build_names N ts specs lights failures s'
      | (Inl e, s') \<Rightarrow>
          (case map_of (pv_failures s') (symbolName light) of
             None \<Rightarrow> (Inl (Key_error (symbolName light)), s')
           | Some reason \<Rightarrow> build_names N ts specs lights (failures @ [(symbolName light, reason)]) s'))"

definition names_built ::
    "nautilus \<Rightarrow> int \<Rightarrow> nat \<Rightarrow> ProtoOALightSymbol list \<Rightarrow> (string \<times> load_reason) list \<Rightarrow> provider \<Rightarrow>
     provider" where
  "names_built N ts i lights failures s =
     (case build_names N ts (specs_of (map ls_symbolId lights) s) lights failures s of
        (Inl e, s') \<Rightarrow> end_load i (Load_failed e) s'
      | (Inr all_failures, s') \<Rightarrow> end_load i (raise_if_configured all_failures s') s')"

text \<open>The lights of the names offered, each once, and the failures of the others.\<close>

fun lights_of ::
    "string list \<Rightarrow> (string, ProtoOALightSymbol) dict \<Rightarrow> (string \<times> load_reason) list \<Rightarrow> provider \<Rightarrow>
     (string, ProtoOALightSymbol) dict \<times> (string \<times> load_reason) list \<times> provider" where
  "lights_of [] lights failures s = (lights, failures, s)"
| "lights_of (name # names) lights failures s =
     (case map_of (pv_light_symbols s) name of
        None \<Rightarrow> lights_of names lights (failures @ [(name, Not_offered)]) (record_failure name Not_offered s)
      | Some light \<Rightarrow> lights_of names (AList.update name light lights) failures s)"

definition load_names ::
    "nautilus \<Rightarrow> int \<Rightarrow> nat \<Rightarrow> string list \<Rightarrow> (string \<times> load_reason) list \<Rightarrow> provider \<Rightarrow> provider" where
  "load_names N ts i names failures s =
     (if names = [] then end_load i (raise_if_configured failures s) s
      else case lights_of names [] failures s of
             (lights, failures, s) \<Rightarrow>
               let lights = map snd lights
               in ask_specs i (Names_specs lights failures) (missing_specs False (map ls_symbolId lights) s)
                    (names_built N ts i lights failures) s)"

fun foreign_ids ::
    "instrument_id list \<Rightarrow> (string \<times> load_reason) list \<Rightarrow> provider \<Rightarrow>
     (string \<times> load_reason) list \<times> provider" where
  "foreign_ids [] failures s = (failures, s)"
| "foreign_ids (i # ids) failures s =
     (if snd i \<noteq> CTRADER_VENUE
      then foreign_ids ids (failures @ [(fst i, Not_a_ctrader_instrument)])
             (record_failure (fst i) Not_a_ctrader_instrument s)
      else foreign_ids ids failures s)"

definition ctrader_names :: "instrument_id list \<Rightarrow> string list" where
  "ctrader_names ids = map fst (filter (\<lambda>i. snd i = CTRADER_VENUE) ids)"

definition load_ids :: "nautilus \<Rightarrow> int \<Rightarrow> nat \<Rightarrow> instrument_id list \<Rightarrow> provider \<Rightarrow> provider" where
  "load_ids N ts i ids s =
     (if ids = [] then end_load i Load_done s
      else case foreign_ids ids [] s of
             (failures, s) \<Rightarrow>
               load_names N ts i (ctrader_names ids) failures
                 (s\<lparr>pv_blocked := filter (\<lambda>n. n \<notin> set (ctrader_names ids)) (pv_blocked s)\<rparr>))"

subsection \<open>Conversion chains\<close>

text \<open>The query in flight for a key, or a new task, which begins at a step of its own.\<close>

definition chain_query_for :: "chain_key \<Rightarrow> provider \<Rightarrow> nat \<times> provider" where
  "chain_query_for key s =
     (case map_of (pv_chain_tasks s) key of
        Some q \<Rightarrow> (q, s)
      | None \<Rightarrow>
          (pv_next s,
           s\<lparr>pv_next := Suc (pv_next s),
             pv_queries := AList.update (pv_next s) \<lparr>cq_key = key, cq_generation = None\<rparr> (pv_queries s),
             pv_chain_tasks := AList.update key (pv_next s) (pv_chain_tasks s)\<rparr>))"

text \<open>The legs of a chain: those loaded are reused, the others built.\<close>

fun build_legs ::
    "nautilus \<Rightarrow> int \<Rightarrow> (int, ProtoOASymbol) dict \<Rightarrow> conversion_chain \<Rightarrow> symbol_instrument list \<Rightarrow> provider \<Rightarrow>
     (load_error + symbol_instrument list) \<times> provider" where
  "build_legs N ts specs [] built s = (Inr built, s)"
| "build_legs N ts specs (leg # legs) built s =
     (case instrument_for_symbol_id (ls_symbolId leg) s of
        Some existing \<Rightarrow> build_legs N ts specs legs (built @ [existing]) s
      | None \<Rightarrow>
          (case build_or_fail N ts True (map_of specs (ls_symbolId leg)) leg s of
             (Inl e, s') \<Rightarrow> (Inl e, s')
           | (Inr instrument, s') \<Rightarrow> build_legs N ts specs legs (built @ [instrument]) s'))"

definition legs_built ::
    "nautilus \<Rightarrow> int \<Rightarrow> nat \<Rightarrow> conversion_chain \<Rightarrow> int list \<Rightarrow> provider \<Rightarrow> provider" where
  "legs_built N ts i chain1 ids s =
     (case build_legs N ts (specs_of ids s) chain1 [] s of
        (Inl e, s') \<Rightarrow> end_load i (Load_failed e) s'
      | (Inr instruments, s') \<Rightarrow> end_load i (Chain_instruments instruments) s')"

definition with_chain :: "nautilus \<Rightarrow> int \<Rightarrow> nat \<Rightarrow> conversion_chain \<Rightarrow> provider \<Rightarrow> provider" where
  "with_chain N ts i chain1 s =
     (let ids = map ls_symbolId (filter (\<lambda>leg. instrument_for_symbol_id (ls_symbolId leg) s = None) chain1)
      in ask_specs i (Legs_specs chain1 ids) (missing_specs False ids s) (legs_built N ts i chain1 ids) s)"

definition conversion_instruments_for ::
    "nautilus \<Rightarrow> int \<Rightarrow> nat \<Rightarrow> instrument_id \<Rightarrow> provider \<Rightarrow> provider" where
  "conversion_instruments_for N ts i instrument s =
     (case map_of (pv_quote_asset_id s) instrument of
        None \<Rightarrow> end_load i (Load_failed (Not_loaded_by_provider instrument)) s
      | Some quote \<Rightarrow>
          (case pv_deposit s of
             None \<Rightarrow> end_load i (Load_failed Reference_not_loaded) s
           | Some deposit \<Rightarrow>
               if quote = deposit then end_load i (Chain_instruments []) s
               else case map_of (pv_chains s) (quote, deposit) of
                      Some chain1 \<Rightarrow> with_chain N ts i chain1 s
                    | None \<Rightarrow>
                        (case chain_query_for (quote, deposit) s of
                           (q, s) \<Rightarrow> put_load i (Chain_wait (quote, deposit) q) s)))"

definition chain_ready ::
    "nautilus \<Rightarrow> int \<Rightarrow> nat \<Rightarrow> chain_key \<Rightarrow> load_error + conversion_chain \<Rightarrow> provider \<Rightarrow> provider" where
  "chain_ready N ts i key answer s =
     (case answer of
        Inl e \<Rightarrow> end_load i (Load_failed e) s
      | Inr [] \<Rightarrow> end_load i (Load_failed (No_conversion_chain (fst key) (snd key))) s
      | Inr chain1 \<Rightarrow> with_chain N ts i chain1 s)"

text \<open>The end of a query: counted down, and forgotten unless a reset replaced it; its callers run next.\<close>

definition query_ended :: "nat \<Rightarrow> chain_query \<Rightarrow> load_error + conversion_chain \<Rightarrow> provider \<Rightarrow> provider" where
  "query_ended q query answer s =
     s\<lparr>pv_chain_queries := pv_chain_queries s - 1,
       pv_chain_tasks :=
         (if map_of (pv_chain_tasks s) (cq_key query) = Some q
          then AList.delete (cq_key query) (pv_chain_tasks s) else pv_chain_tasks s),
       pv_queries := AList.delete q (pv_queries s),
       pv_chains :=
         (case answer of
            Inl e \<Rightarrow> pv_chains s
          | Inr chain1 \<Rightarrow>
              if chain1 \<noteq> [] \<and> cq_generation query = Some (pv_chain_generation s)
              then AList.update (cq_key query) chain1 (pv_chains s) else pv_chains s),
       pv_operations :=
         map (\<lambda>(i, st). (i, case st of
             Chain_wait key q' \<Rightarrow> if q' = q then Chain_ready key answer else st | _ \<Rightarrow> st)) (pv_operations s)\<rparr>"

text \<open>A query begins: it reads the generation and asks, which fails at once without a session.\<close>

definition query_starts :: "nat \<Rightarrow> chain_query \<Rightarrow> provider \<Rightarrow> provider" where
  "query_starts q query s =
     (let query = query\<lparr>cq_generation := Some (pv_chain_generation s)\<rparr>;
          s = s\<lparr>pv_chain_queries := pv_chain_queries s + 1,
                pv_queries := AList.update q query (pv_queries s)\<rparr>
      in if pv_connected s then s else query_ended q query (Inl Account_not_connected) s)"

definition uses_symbol :: "int \<Rightarrow> conversion_chain \<Rightarrow> bool" where
  "uses_symbol x chain1 \<longleftrightarrow> list_ex (\<lambda>leg. ls_symbolId leg = x) chain1"

definition stale_chain :: "int option \<Rightarrow> conversion_chain \<Rightarrow> bool" where
  "stale_chain x chain1 \<longleftrightarrow> (case x of None \<Rightarrow> True | Some symbol \<Rightarrow> uses_symbol symbol chain1)"

definition reset_conversion_cache :: "int option \<Rightarrow> provider \<Rightarrow> provider" where
  "reset_conversion_cache x s =
     (let stale = filter (\<lambda>(key, chain1). stale_chain x chain1) (pv_chains s);
          s = s\<lparr>pv_chains := filter (\<lambda>(key, chain1). \<not> stale_chain x chain1) (pv_chains s)\<rparr>;
          s = (if x = None \<or> stale \<noteq> [] \<or> 0 < pv_chain_queries s
               then s\<lparr>pv_chain_generation := Suc (pv_chain_generation s), pv_chain_tasks := []\<rparr> else s)
      in if x = None then s\<lparr>pv_blocked := []\<rparr> else s)"

definition remove_failed :: "instrument_id \<Rightarrow> string \<Rightarrow> provider \<Rightarrow> provider" where
  "remove_failed i reason s =
     record_failure (fst i) (Removed reason)
       (let s = s\<lparr>pv_blocked := List.insert (fst i) (pv_blocked s)\<rparr>
        in case map_of (pv_instruments s) i of
             None \<Rightarrow> s
           | Some instrument \<Rightarrow>
               s\<lparr>pv_instruments := AList.delete i (pv_instruments s),
                 pv_by_symbol_id := AList.delete (symbol_id_of instrument) (pv_by_symbol_id s),
                 pv_quote_asset_id := AList.delete i (pv_quote_asset_id s)\<rparr>)"

subsection \<open>Reload\<close>

definition reload_built ::
    "nautilus \<Rightarrow> int \<Rightarrow> nat \<Rightarrow> ProtoOALightSymbol \<Rightarrow> int \<Rightarrow> provider \<Rightarrow> provider" where
  "reload_built N ts i light x s =
     (case build_or_fail N ts False (map_of (specs_of [x] s) x) light s of
        (Inl e, s') \<Rightarrow> end_load i (Load_failed e) s'
      | (Inr instrument, s') \<Rightarrow> end_load i (Reloaded instrument) s')"

definition reload :: "nautilus \<Rightarrow> int \<Rightarrow> nat \<Rightarrow> int \<Rightarrow> provider \<Rightarrow> provider" where
  "reload N ts i x s =
     (if \<not> pv_connected s then end_load i (Load_failed Account_not_connected) s
      else case find (\<lambda>light. ls_symbolId light = x) (map snd (pv_light_symbols s)) of
             None \<Rightarrow> end_load i (Load_failed (Symbol_not_offered x)) s
           | Some light \<Rightarrow>
               ask_specs i (Reload_spec light x) (missing_specs True [x] s) (reload_built N ts i light x) s)"

text \<open>\<open>_on_symbol_changed\<close>, for one of the ids: the reload is a task that begins later.\<close>

definition on_symbol_changed :: "int \<Rightarrow> provider \<Rightarrow> provider" where
  "on_symbol_changed x s =
     (case instrument_for_symbol_id x s of
        None \<Rightarrow> s\<lparr>pv_symbol_specs := AList.delete x (pv_symbol_specs s)\<rparr>
      | Some changed \<Rightarrow>
          let s = reset_conversion_cache (Some x) s
          in put_load (pv_next s) (Reload_starts x) (s\<lparr>pv_next := Suc (pv_next s)\<rparr>))"

subsection \<open>Steps\<close>

definition start_load :: "nautilus \<Rightarrow> int \<Rightarrow> load_call \<Rightarrow> provider \<Rightarrow> provider" where
  "start_load N ts call s =
     (let i = pv_next s; s = s\<lparr>pv_next := Suc i\<rparr> in
      case call of
        Reload x \<Rightarrow> reload N ts i x s
      | _ \<Rightarrow>
          if \<not> pv_connected s then end_load i (Load_failed Account_not_connected) s
          else case call of
                 Load_all \<Rightarrow> load_names N ts i (map fst (pv_light_symbols s)) [] s
               | Load_ids ids \<Rightarrow> load_ids N ts i ids s
               | Conversion_for instrument \<Rightarrow> conversion_instruments_for N ts i instrument s
               | Reload x \<Rightarrow> s)"

text \<open>A batch of specs answered: kept, whatever its ids, and the next asked, or the call goes on.\<close>

definition specs_answered ::
    "nautilus \<Rightarrow> int \<Rightarrow> nat \<Rightarrow> load_stage \<Rightarrow> string + (int, ProtoOASymbol) dict \<Rightarrow> provider \<Rightarrow> provider" where
  "specs_answered N ts i st answer s =
     (case answer of
        Inl e \<Rightarrow> end_load i (Load_failed (Request_failed e)) s
      | Inr symbols \<Rightarrow>
          let s = s\<lparr>pv_symbol_specs := fold (\<lambda>(x, symbol). AList.update x symbol) symbols (pv_symbol_specs s)\<rparr>
          in case st of
               Names_specs lights failures missing \<Rightarrow>
                 ask_specs i (Names_specs lights failures) (drop SYMBOL_BY_ID_BATCH missing)
                   (names_built N ts i lights failures) s
             | Legs_specs chain1 ids missing \<Rightarrow>
                 ask_specs i (Legs_specs chain1 ids) (drop SYMBOL_BY_ID_BATCH missing)
                   (legs_built N ts i chain1 ids) s
             | Reload_spec light x missing \<Rightarrow>
                 ask_specs i (Reload_spec light x) (drop SYMBOL_BY_ID_BATCH missing)
                   (reload_built N ts i light x) s
             | _ \<Rightarrow> s)"

definition waits_for_specs :: "load_stage \<Rightarrow> bool" where
  "waits_for_specs st \<longleftrightarrow>
     (case st of Names_specs _ _ _ \<Rightarrow> True | Legs_specs _ _ _ \<Rightarrow> True | Reload_spec _ _ _ \<Rightarrow> True | _ \<Rightarrow> False)"

text \<open>What a connection brings: a session, the reference data if not there yet, and fresh chains.\<close>

definition reference_loaded ::
    "ProtoOALightSymbol list \<Rightarrow> (int, string) dict \<Rightarrow> int \<Rightarrow> provider \<Rightarrow> provider" where
  "reference_loaded symbols assets deposit s =
     (if pv_deposit s \<noteq> None then s
      else s\<lparr>pv_light_symbols := fold (\<lambda>light. AList.update (symbolName light) light) symbols [],
             pv_assets := assets, pv_deposit := Some deposit\<rparr>)"

datatype load_event =
    Load_session bool
  | Load_reference "ProtoOALightSymbol list" "(int, string) dict" int
  | Load_call load_call
  | Load_specs nat "string + (int, ProtoOASymbol) dict"
  | Load_resumes nat
  | Load_cancelled nat
  | Query_starts nat
  | Query_answered nat "string + conversion_chain"
  | Reset_conversions "int option"
  | Remove_failed instrument_id string
  | Symbol_changed "int list"

definition load_step :: "nautilus \<Rightarrow> int \<Rightarrow> load_event \<Rightarrow> provider \<Rightarrow> provider" where
  "load_step N ts ev s =
     (case ev of
        Load_session up \<Rightarrow> s\<lparr>pv_connected := up\<rparr>
      | Load_reference symbols assets deposit \<Rightarrow> reference_loaded symbols assets deposit s
      | Load_call call \<Rightarrow> start_load N ts call s
      | Load_specs i answer \<Rightarrow>
          (case map_of (pv_operations s) i of
             None \<Rightarrow> s | Some st \<Rightarrow> if waits_for_specs st then specs_answered N ts i st answer s else s)
      | Load_resumes i \<Rightarrow>
          (case map_of (pv_operations s) i of
             Some (Chain_ready key answer) \<Rightarrow> chain_ready N ts i key answer s
           | Some (Reload_starts x) \<Rightarrow> reload N ts i x s
           | _ \<Rightarrow> s)
      | Load_cancelled i \<Rightarrow> s\<lparr>pv_operations := AList.delete i (pv_operations s)\<rparr>
      | Query_starts q \<Rightarrow>
          (case map_of (pv_queries s) q of
             None \<Rightarrow> s | Some query \<Rightarrow> if cq_generation query = None then query_starts q query s else s)
      | Query_answered q answer \<Rightarrow>
          (case map_of (pv_queries s) q of
             None \<Rightarrow> s
           | Some query \<Rightarrow>
               if cq_generation query = None then s
               else query_ended q query (case answer of Inl e \<Rightarrow> Inl (Request_failed e) | Inr chain1 \<Rightarrow> Inr chain1) s)
      | Reset_conversions x \<Rightarrow> reset_conversion_cache x s
      | Remove_failed i reason \<Rightarrow> remove_failed i reason s
      | Symbol_changed xs \<Rightarrow> fold on_symbol_changed xs s)"

type_synonym load_run = "(int \<times> load_event) list"

definition run_loads :: "nautilus \<Rightarrow> load_run \<Rightarrow> provider \<Rightarrow> provider" where
  "run_loads N evs s = fold (\<lambda>(ts, ev). load_step N ts ev) evs s"

end
