(* ===== verification/Instruments_Safety.thy ===== *)
theory Instruments_Safety
  imports Instruments
begin

text \<open>
  What every run of \<open>Instruments\<close> keeps, where the venue gives a name one symbol id, whichever of its
  answers it is in (\<open>event_ok\<close>): the tables of instruments agree, and a blocked name is in none of them
  and has its failure recorded.
\<close>

subsection \<open>The invariant\<close>

definition named :: "(string \<Rightarrow> int) \<Rightarrow> ProtoOALightSymbol \<Rightarrow> bool" where
  "named f light \<longleftrightarrow> ls_symbolId light = f (symbolName light)"

text \<open>The tables agree.\<close>

definition tables_ok :: "(string \<Rightarrow> int) \<Rightarrow> provider \<Rightarrow> bool" where
  "tables_ok f s \<longleftrightarrow>
     (\<forall>x instrument. map_of (pv_by_symbol_id s) x = Some instrument \<longrightarrow>
        f (si_name instrument) = x \<and> symbol_id_of instrument = x \<and>
        map_of (pv_instruments s) (id_of instrument) = Some instrument) \<and>
     (\<forall>i instrument. map_of (pv_instruments s) i = Some instrument \<longrightarrow>
        id_of instrument = i \<and> symbol_id_of instrument = f (si_name instrument)) \<and>
     (\<forall>i. map_of (pv_quote_asset_id s) i \<noteq> None \<longrightarrow> map_of (pv_instruments s) i \<noteq> None) \<and>
     (\<forall>n\<in>set (pv_blocked s). map_of (pv_instruments s) (n, CTRADER_VENUE) = None \<and>
        map_of (pv_failures s) n \<noteq> None)"

definition stage_lights :: "load_stage \<Rightarrow> ProtoOALightSymbol set" where
  "stage_lights st =
     (case st of
        Names_specs lights _ _ \<Rightarrow> set lights
      | Chain_ready _ answer \<Rightarrow> (case answer of Inl _ \<Rightarrow> {} | Inr chain1 \<Rightarrow> set chain1)
      | Legs_specs chain1 _ _ \<Rightarrow> set chain1
      | Reload_spec light _ _ \<Rightarrow> {light}
      | _ \<Rightarrow> {})"

definition is_key_error :: "load_result \<Rightarrow> bool" where
  "is_key_error r \<longleftrightarrow> (case r of Load_failed (Key_error n) \<Rightarrow> True | _ \<Rightarrow> False)"

definition stage_ok :: "(string \<Rightarrow> int) \<Rightarrow> load_stage \<Rightarrow> bool" where
  "stage_ok f st \<longleftrightarrow> (\<forall>light\<in>stage_lights st. named f light) \<and>
     (case st of Chain_ready _ (Inl e) \<Rightarrow> \<not> is_key_error (Load_failed e) | _ \<Rightarrow> True)"

definition chains_named :: "(string \<Rightarrow> int) \<Rightarrow> (chain_key, conversion_chain) dict \<Rightarrow> bool" where
  "chains_named f kept \<longleftrightarrow>
     (\<forall>key chain1. map_of kept key = Some chain1 \<longrightarrow> (\<forall>light\<in>set chain1. named f light))"

definition lights_named :: "(string \<Rightarrow> int) \<Rightarrow> (string, ProtoOALightSymbol) dict \<Rightarrow> bool" where
  "lights_named f d \<longleftrightarrow> (\<forall>n light. map_of d n = Some light \<longrightarrow> symbolName light = n \<and> named f light)"

definition lights_ok :: "(string \<Rightarrow> int) \<Rightarrow> provider \<Rightarrow> bool" where
  "lights_ok f s \<longleftrightarrow>
     lights_named f (pv_light_symbols s) \<and> chains_named f (pv_chains s) \<and>
     (\<forall>i st. map_of (pv_operations s) i = Some st \<longrightarrow> stage_ok f st) \<and>
     distinct (map fst (pv_light_symbols s)) \<and> distinct (map fst (pv_operations s)) \<and>
     distinct (map fst (pv_chains s))"

definition ended_ok :: "provider \<Rightarrow> bool" where
  "ended_ok s \<longleftrightarrow> (\<forall>(i, r)\<in>set (pv_ended s). \<not> is_key_error r)"

definition prov_ok :: "(string \<Rightarrow> int) \<Rightarrow> provider \<Rightarrow> bool" where
  "prov_ok f s \<longleftrightarrow> tables_ok f s \<and> lights_ok f s \<and> ended_ok s"

definition event_ok :: "(string \<Rightarrow> int) \<Rightarrow> load_event \<Rightarrow> bool" where
  "event_ok f ev \<longleftrightarrow>
     (case ev of
        Load_reference symbols assets deposit \<Rightarrow> list_all (named f) symbols
      | Query_answered q (Inr chain1) \<Rightarrow> list_all (named f) chain1
      | Remove_failed i reason \<Rightarrow> snd i = CTRADER_VENUE
      | _ \<Rightarrow> True)"

definition events_ok :: "(string \<Rightarrow> int) \<Rightarrow> load_run \<Rightarrow> bool" where
  "events_ok f evs \<longleftrightarrow> list_all (\<lambda>(ts, ev). event_ok f ev) evs"

subsection \<open>Building\<close>

text \<open>What building touches.\<close>

definition touches :: "provider \<Rightarrow> provider \<Rightarrow> bool" where
  "touches s s' \<longleftrightarrow> (\<exists>a b c d. s' = s\<lparr>pv_instruments := a, pv_failures := b, pv_by_symbol_id := c,
     pv_quote_asset_id := d\<rparr>)"

lemma touches_refl: "touches s s"
  unfolding touches_def by (intro exI [of _ "pv_instruments s"] exI [of _ "pv_failures s"]
    exI [of _ "pv_by_symbol_id s"] exI [of _ "pv_quote_asset_id s"]) simp

lemma touches_trans: "touches s t \<Longrightarrow> touches t u \<Longrightarrow> touches s u"
  unfolding touches_def by (elim exE) (simp, blast)

lemma touches_rest:
  assumes "touches s s'"
  shows "pv_light_symbols s' = pv_light_symbols s" "pv_chains s' = pv_chains s" "pv_operations s' = pv_operations s"
    "pv_ended s' = pv_ended s" "pv_blocked s' = pv_blocked s" "pv_queries s' = pv_queries s"
    "pv_chain_queries s' = pv_chain_queries s" "pv_chain_generation s' = pv_chain_generation s"
    "pv_next s' = pv_next s" "lights_ok f s' = lights_ok f s" "ended_ok s' = ended_ok s"
  using assms by (auto simp: touches_def lights_ok_def ended_ok_def)

lemma touches_record: "touches s (record_failure n reason s)"
  unfolding touches_def record_failure_def
  by (intro exI [of _ "pv_instruments s"] exI [of _ "AList.update n reason (pv_failures s)"]
    exI [of _ "pv_by_symbol_id s"] exI [of _ "pv_quote_asset_id s"]) simp

lemma touches_finish: "touches s (finish_load instrument light s)"
  unfolding touches_def finish_load_def
  by (intro exI [of _ "AList.update (id_of instrument) instrument (pv_instruments s)"]
    exI [of _ "AList.delete (symbolName light) (pv_failures s)"]
    exI [of _ "AList.update (symbol_id_of instrument) instrument (pv_by_symbol_id s)"]
    exI [of _ "AList.update (id_of instrument) (quoteAssetId light) (pv_quote_asset_id s)"]) simp

lemma built_name:
  "instrument_from_symbol N symbol light assets overrides ts = Inr instrument \<Longrightarrow>
     si_name instrument = symbolName light \<and> symbol_id_of instrument = ls_symbolId light"
  by (auto simp: instrument_from_symbol_def bind_result_Inr Let_def symbol_id_of_def info_for_def split: if_splits)

lemma record_tables: "tables_ok f s \<Longrightarrow> tables_ok f (record_failure n reason s)"
  by (simp add: tables_ok_def record_failure_def dict_simps)

lemma finish_tables:
  assumes "tables_ok f s" and "named f light" and "si_name instrument = symbolName light"
    and "symbol_id_of instrument = ls_symbolId light" and "symbolName light \<notin> set (pv_blocked s)"
  shows "tables_ok f (finish_load instrument light s)"
proof -
  have i: "id_of instrument = (symbolName light, CTRADER_VENUE)" "symbol_id_of instrument = f (symbolName light)"
    using assms by (simp_all add: id_of_def named_def)
  show ?thesis
    using assms(1,3,5) unfolding tables_ok_def finish_load_def
    by (auto simp: dict_simps i) (auto simp: id_of_def, metis)
qed

lemma build_touches: "touches s (snd (build_or_fail N ts recording spec light s))"
  by (simp add: build_or_fail_def Let_def touches_refl touches_record touches_finish split: sum.split)

lemma build_tables:
  assumes "tables_ok f s" and "named f light"
  shows "tables_ok f (snd (build_or_fail N ts recording spec light s))"
  using assms built_name
  by (auto simp: build_or_fail_def Let_def record_tables intro!: finish_tables split: sum.splits option.splits)

lemma build_result:
  "fst (build_or_fail N ts recording spec light s) = Inr instrument \<Longrightarrow>
     si_name instrument = symbolName light \<and> symbol_id_of instrument = ls_symbolId light \<and>
     map_of (pv_by_symbol_id (snd (build_or_fail N ts recording spec light s))) (ls_symbolId light) = Some instrument"
  using built_name
  by (auto simp: build_or_fail_def Let_def finish_load_def dict_simps split: sum.splits option.splits if_splits)

lemma build_failure:
  assumes "tables_ok f s" and "fst (build_or_fail N ts True spec light s) = Inl e"
  shows "map_of (pv_failures (snd (build_or_fail N ts True spec light s))) (symbolName light) \<noteq> None"
  using assms by (auto simp: build_or_fail_def Let_def record_failure_def dict_simps tables_ok_def split: sum.splits if_splits)

lemma build_no_key_error:
  "fst (build_or_fail N ts recording spec light s) = Inl e \<Longrightarrow> \<not> is_key_error (Load_failed e)"
  by (auto simp: build_or_fail_def Let_def is_key_error_def split: sum.splits if_splits)

lemma build_names_ok:
  assumes "tables_ok f s" and "\<forall>light\<in>set lights. named f light"
  shows "touches s (snd (build_names N ts specs lights failures s)) \<and>
    tables_ok f (snd (build_names N ts specs lights failures s)) \<and>
    (\<exists>more. fst (build_names N ts specs lights failures s) = Inr more)"
  using assms
proof (induction lights arbitrary: failures s)
  case Nil
  then show ?case by (simp add: touches_refl)
next
  case (Cons light lights)
  let ?b = "build_or_fail N ts True (map_of specs (ls_symbolId light)) light s"
  have n: "named f light" "\<forall>l\<in>set lights. named f l" using Cons.prems(2) by simp_all
  have t: "tables_ok f (snd ?b)" "touches s (snd ?b)" using build_tables [OF Cons.prems(1) n(1)] build_touches by simp_all
  note IH = Cons.IH [OF t(1) n(2)]
  show ?case
  proof (cases "fst ?b")
    case (Inl e)
    then obtain reason where "map_of (pv_failures (snd ?b)) (symbolName light) = Some reason"
      using build_failure [OF Cons.prems(1) Inl] by auto
    then show ?thesis using Inl IH [of "failures @ [(symbolName light, reason)]"] touches_trans [OF t(2)]
      by (auto simp: prod.case_eq_if)
  next
    case (Inr instrument)
    then show ?thesis using IH [of failures] touches_trans [OF t(2)] by (auto simp: prod.case_eq_if)
  qed
qed

lemma build_legs_ok:
  assumes "tables_ok f s" and "\<forall>leg\<in>set legs. named f leg"
  shows "touches s (snd (build_legs N ts specs legs built s)) \<and>
    tables_ok f (snd (build_legs N ts specs legs built s)) \<and>
    (\<forall>e. fst (build_legs N ts specs legs built s) = Inl e \<longrightarrow> \<not> is_key_error (Load_failed e))"
  using assms
proof (induction legs arbitrary: built s)
  case Nil
  then show ?case by (simp add: touches_refl)
next
  case (Cons leg legs)
  let ?b = "build_or_fail N ts True (map_of specs (ls_symbolId leg)) leg s"
  have n: "named f leg" "\<forall>l\<in>set legs. named f l" using Cons.prems(2) by simp_all
  have t: "tables_ok f (snd ?b)" "touches s (snd ?b)" using build_tables [OF Cons.prems(1) n(1)] build_touches by simp_all
  show ?case
  proof (cases "instrument_for_symbol_id (ls_symbolId leg) s")
    case (Some existing)
    then show ?thesis using Cons.IH [OF Cons.prems(1) n(2)] by simp
  next
    case None
    show ?thesis
    proof (cases "fst ?b")
      case (Inl e)
      then show ?thesis using None t build_no_key_error [OF Inl] by (simp add: prod.case_eq_if)
    next
      case (Inr instrument)
      then show ?thesis using None Cons.IH [OF t(1) n(2), of "built @ [instrument]"] touches_trans [OF t(2)]
        by (auto simp: prod.case_eq_if)
    qed
  qed
qed
subsection \<open>The calls\<close>

lemma end_load_ok: "prov_ok f s \<Longrightarrow> \<not> is_key_error r \<Longrightarrow> prov_ok f (end_load i r s)"
  by (auto simp: prov_ok_def tables_ok_def lights_ok_def ended_ok_def end_load_def dict_simps)

lemma put_load_ok: "prov_ok f s \<Longrightarrow> stage_ok f st \<Longrightarrow> prov_ok f (put_load i st s)"
  by (auto simp: prov_ok_def tables_ok_def lights_ok_def ended_ok_def put_load_def dict_simps)

lemma built_ok:
  assumes "prov_ok f s" and "touches s s'" and "tables_ok f s'"
  shows "prov_ok f s'"
  using assms touches_rest(10,11) [OF assms(2)] by (simp add: prov_ok_def)

lemma ask_specs_ok:
  assumes "prov_ok f s" and "stage_ok f (stage missing)" and "prov_ok f (go s)"
  shows "prov_ok f (ask_specs i stage missing go s)"
  using assms end_load_ok put_load_ok by (simp add: ask_specs_def is_key_error_def)

lemma raise_no_key_error: "\<not> is_key_error (raise_if_configured failures s)"
  by (simp add: raise_if_configured_def is_key_error_def)

lemma names_built_ok:
  assumes "prov_ok f s" and "\<forall>light\<in>set lights. named f light"
  shows "prov_ok f (names_built N ts i lights failures s)"
proof -
  let ?b = "build_names N ts (specs_of (map ls_symbolId lights) s) lights failures s"
  have t: "touches s (snd ?b)" "tables_ok f (snd ?b)" "\<exists>more. fst ?b = Inr more"
    using build_names_ok [OF _ assms(2)] assms(1) by (auto simp: prov_ok_def)
  then show ?thesis using end_load_ok [OF built_ok [OF assms(1) t(1,2)] raise_no_key_error]
    by (auto simp: names_built_def prod.case_eq_if)
qed

lemma update_values: "snd ` set (AList.update k v d) \<subseteq> insert v (snd ` set d)"
  by (induction d) auto

lemma lights_of_ok:
  assumes "prov_ok f s" and "\<forall>light\<in>snd ` set lights. named f light" and "distinct (map fst lights)"
  shows "prov_ok f (snd (snd (lights_of names lights failures s)))"
    "\<forall>light\<in>snd ` set (fst (lights_of names lights failures s)). named f light"
proof -
  have "prov_ok f (snd (snd (lights_of names lights failures s))) \<and>
    (\<forall>light\<in>snd ` set (fst (lights_of names lights failures s)). named f light)"
    using assms
  proof (induction names arbitrary: lights failures s)
    case (Cons name names)
    show ?case
    proof (cases "map_of (pv_light_symbols s) name")
      case None
      have "prov_ok f (record_failure name Not_offered s)"
        by (rule built_ok [OF Cons.prems(1) touches_record])
          (use Cons.prems(1) in \<open>simp add: prov_ok_def record_tables\<close>)
      then show ?thesis using None Cons.IH [OF _ Cons.prems(2,3)] by simp
    next
      case (Some light)
      have "named f light" using Some Cons.prems(1) unfolding prov_ok_def lights_ok_def lights_named_def by blast
      moreover have d: "distinct (map fst (AList.update name light lights))"
        using Cons.prems(3) by (simp add: dict_simps)
      ultimately have all: "\<forall>l\<in>snd ` set (AList.update name light lights). named f l"
        using Cons.prems(2) update_values [of name light lights] by blast
      have eq: "lights_of (name # names) lights failures s =
          lights_of names (AList.update name light lights) failures s"
        by (simp only: lights_of.simps Some option.case)
      show ?thesis unfolding eq by (rule Cons.IH [OF Cons.prems(1) all d])
    qed
  qed simp
  then show "prov_ok f (snd (snd (lights_of names lights failures s)))"
    "\<forall>light\<in>snd ` set (fst (lights_of names lights failures s)). named f light" by simp_all
qed

lemma load_names_ok:
  assumes "prov_ok f s"
  shows "prov_ok f (load_names N ts i names failures s)"
proof (cases "names = []")
  case True
  then show ?thesis using assms end_load_ok raise_no_key_error by (simp add: load_names_def)
next
  case False
  obtain lights more s' where l: "lights_of names [] failures s = (lights, more, s')" by (metis prod.exhaust)
  have ok: "prov_ok f s'" "\<forall>light\<in>snd ` set lights. named f light"
    using lights_of_ok [OF assms, of "[]" names failures] l by simp_all
  have "prov_ok f (ask_specs i (Names_specs (map snd lights) more)
      (missing_specs False (map ls_symbolId (map snd lights)) s') (names_built N ts i (map snd lights) more) s')"
    by (rule ask_specs_ok [OF ok(1)]) (use ok names_built_ok in \<open>auto simp: stage_ok_def stage_lights_def\<close>)
  then show ?thesis using False by (simp add: load_names_def l Let_def)
qed

lemma foreign_ids_ok: "prov_ok f s \<Longrightarrow> prov_ok f (snd (foreign_ids ids failures s))"
  by (induction ids arbitrary: failures s)
    (auto simp: prov_ok_def record_tables touches_rest(10,11) [OF touches_record])

lemma unblock_ok: "prov_ok f s \<Longrightarrow> prov_ok f (s\<lparr>pv_blocked := filter P (pv_blocked s)\<rparr>)"
  by (simp add: prov_ok_def tables_ok_def lights_ok_def ended_ok_def)

lemma load_ids_ok:
  assumes "prov_ok f s"
  shows "prov_ok f (load_ids N ts i ids s)"
  using load_names_ok [OF unblock_ok [OF foreign_ids_ok [OF assms]]] end_load_ok [OF assms]
  by (simp add: load_ids_def prod.case_eq_if is_key_error_def)

lemma legs_built_ok:
  assumes "prov_ok f s" and "\<forall>leg\<in>set chain1. named f leg"
  shows "prov_ok f (legs_built N ts i chain1 ids s)"
proof -
  let ?b = "build_legs N ts (specs_of ids s) chain1 [] s"
  have t: "touches s (snd ?b)" "tables_ok f (snd ?b)" "\<forall>e. fst ?b = Inl e \<longrightarrow> \<not> is_key_error (Load_failed e)"
    using build_legs_ok [OF _ assms(2)] assms(1) by (auto simp: prov_ok_def)
  show ?thesis using end_load_ok [OF built_ok [OF assms(1) t(1,2)]] t(3)
    by (auto simp: legs_built_def prod.case_eq_if is_key_error_def split: sum.split)
qed

lemma with_chain_ok:
  assumes "prov_ok f s" and "\<forall>leg\<in>set chain1. named f leg"
  shows "prov_ok f (with_chain N ts i chain1 s)"
  unfolding with_chain_def Let_def
  by (rule ask_specs_ok [OF assms(1)]) (use assms legs_built_ok in \<open>simp_all add: stage_ok_def stage_lights_def\<close>)

lemma conversion_ok:
  assumes "prov_ok f s"
  shows "prov_ok f (conversion_instruments_for N ts i instrument s)"
proof -
  have q: "prov_ok f (snd (chain_query_for key s))" for key
    using assms by (auto simp: chain_query_for_def prov_ok_def tables_ok_def lights_ok_def ended_ok_def split: option.split)
  have p: "prov_ok f (put_load i (Chain_wait key q') (snd (chain_query_for key s)))" for key q'
    by (rule put_load_ok [OF q]) (simp add: stage_ok_def stage_lights_def)
  have c: "map_of (pv_chains s) key = Some chain1 \<Longrightarrow> prov_ok f (with_chain N ts i chain1 s)" for key chain1
    using assms by (intro with_chain_ok) (simp_all add: prov_ok_def lights_ok_def chains_named_def del: split_paired_All)
  show ?thesis
    using p c end_load_ok [OF assms]
    by (simp add: conversion_instruments_for_def prod.case_eq_if is_key_error_def split: option.split)
qed

lemma map_of_map_stage: "map_of (map (\<lambda>(i, st). (i, g st)) xs) i = map_option g (map_of xs i)"
  by (induction xs) auto

lemma query_ended_ok:
  assumes "prov_ok f s" and "\<forall>chain1. answer = Inr chain1 \<longrightarrow> (\<forall>leg\<in>set chain1. named f leg)"
    and "\<forall>e. answer = Inl e \<longrightarrow> \<not> is_key_error (Load_failed e)"
  shows "prov_ok f (query_ended q query answer s)"
proof -
  let ?s = "query_ended q query answer s"
  have l: "lights_ok f s" using assms(1) by (simp add: prov_ok_def)
  have f: "pv_light_symbols ?s = pv_light_symbols s" by (simp add: query_ended_def)
  let ?g = "\<lambda>st. case st of Chain_wait key q' \<Rightarrow> if q' = q then Chain_ready key answer else st | _ \<Rightarrow> st"
  have g: "stage_ok f (?g st)" if "stage_ok f st" for st
    using that assms(2,3) by (cases st) (auto simp: stage_ok_def stage_lights_def split: sum.split)
  have "stage_ok f st" if h: "map_of (pv_operations ?s) i = Some st" for i st
  proof -
    obtain st0 where "map_of (pv_operations s) i = Some st0" "st = ?g st0"
      using h by (auto simp: query_ended_def map_of_map_stage)
    then show ?thesis using g l unfolding lights_ok_def by blast
  qed
  moreover have "chains_named f (pv_chains ?s)"
    using l assms(2) unfolding query_ended_def lights_ok_def
    by (simp add: chains_named_def dict_simps split: sum.split del: split_paired_All)
  moreover have "distinct (map fst (pv_operations ?s))"
    using l by (simp add: lights_ok_def query_ended_def case_prod_beta comp_def)
  moreover have "distinct (map fst (pv_chains ?s))"
    using l by (simp add: lights_ok_def query_ended_def dict_simps split: sum.split)
  ultimately have "lights_ok f ?s" using l unfolding lights_ok_def f by blast
  then show ?thesis using assms(1) by (simp add: prov_ok_def tables_ok_def ended_ok_def query_ended_def)
qed
lemma query_starts_ok:
  assumes "prov_ok f s"
  shows "prov_ok f (query_starts q query s)"
proof -
  let ?query = "query\<lparr>cq_generation := Some (pv_chain_generation s)\<rparr>"
  let ?s = "s\<lparr>pv_chain_queries := pv_chain_queries s + 1, pv_queries := AList.update q ?query (pv_queries s)\<rparr>"
  have ok: "prov_ok f ?s" using assms by (simp add: prov_ok_def tables_ok_def lights_ok_def ended_ok_def)
  have "prov_ok f (query_ended q ?query (Inl Account_not_connected) ?s)"
    by (rule query_ended_ok [OF ok]) (simp_all add: is_key_error_def)
  then show ?thesis using ok by (simp add: query_starts_def Let_def)
qed

lemma map_of_filter_values:
  "distinct (map fst xs) \<Longrightarrow> map_of (filter (\<lambda>(k, v). P v) xs) k = Some v \<longleftrightarrow> map_of xs k = Some v \<and> P v"
  by (subst map_of_eq_Some_iff) (auto simp: distinct_map_filter map_of_eq_Some_iff)

lemma reset_fields:
  "pv_chains (reset_conversion_cache x s) = filter (\<lambda>(key, chain1). \<not> stale_chain x chain1) (pv_chains s)"
  "pv_blocked (reset_conversion_cache x s) = (if x = None then [] else pv_blocked s)"
  "pv_instruments (reset_conversion_cache x s) = pv_instruments s"
  "pv_by_symbol_id (reset_conversion_cache x s) = pv_by_symbol_id s"
  "pv_quote_asset_id (reset_conversion_cache x s) = pv_quote_asset_id s"
  "pv_failures (reset_conversion_cache x s) = pv_failures s"
  "pv_light_symbols (reset_conversion_cache x s) = pv_light_symbols s"
  "pv_operations (reset_conversion_cache x s) = pv_operations s"
  "pv_ended (reset_conversion_cache x s) = pv_ended s"
  "pv_queries (reset_conversion_cache x s) = pv_queries s"
  "pv_chain_queries (reset_conversion_cache x s) = pv_chain_queries s"
  "pv_next (reset_conversion_cache x s) = pv_next s"
  by (simp_all add: reset_conversion_cache_def Let_def)

lemma reset_ok:
  assumes "prov_ok f s"
  shows "prov_ok f (reset_conversion_cache x s)"
proof -
  have "distinct (map fst (pv_chains s))" using assms by (simp add: prov_ok_def lights_ok_def)
  then have "chains_named f (filter (\<lambda>(key, chain1). \<not> stale_chain x chain1) (pv_chains s))"
    "distinct (map fst (filter (\<lambda>(key, chain1). \<not> stale_chain x chain1) (pv_chains s)))"
    using assms unfolding prov_ok_def lights_ok_def
    by (simp_all add: chains_named_def map_of_filter_values distinct_map_filter del: split_paired_All) blast
  then show ?thesis
    using assms unfolding prov_ok_def tables_ok_def lights_ok_def ended_ok_def reset_fields by simp
qed

lemma remove_failed_ok:
  assumes "prov_ok f s" and "snd i = CTRADER_VENUE"
  shows "prov_ok f (remove_failed i reason s)"
proof -
  obtain n where i: "i = (n, CTRADER_VENUE)" using assms(2) by (cases i) simp
  have t: "tables_ok f s" using assms(1) by (simp add: prov_ok_def)
  have "tables_ok f (remove_failed i reason s)"
  proof (cases "map_of (pv_instruments s) i")
    case None
    then show ?thesis using t unfolding tables_ok_def remove_failed_def i
      by (auto simp: record_failure_def dict_simps)
  next
    case (Some instrument)
    then have n: "id_of instrument = i" "symbol_id_of instrument = f (si_name instrument)"
      using t unfolding tables_ok_def by blast+
    show ?thesis
      using t Some n unfolding tables_ok_def remove_failed_def i
      by (auto simp: record_failure_def dict_simps id_of_def)
  qed
  moreover have "lights_ok f (remove_failed i reason s)" "ended_ok (remove_failed i reason s)"
    using assms(1)
    by (cases "map_of (pv_instruments s) i";
      simp add: prov_ok_def lights_ok_def ended_ok_def remove_failed_def record_failure_def Let_def)+
  ultimately show ?thesis by (simp add: prov_ok_def)
qed

lemma reload_built_ok:
  assumes "prov_ok f s" and "named f light"
  shows "prov_ok f (reload_built N ts i light x s)"
proof -
  let ?b = "build_or_fail N ts False (map_of (specs_of [x] s) x) light s"
  have ok: "prov_ok f (snd ?b)"
    by (rule built_ok [OF assms(1) build_touches]) (use assms in \<open>simp add: prov_ok_def build_tables\<close>)
  show ?thesis
    using end_load_ok [OF ok] build_no_key_error [of N ts False "map_of (specs_of [x] s) x" light s]
    by (auto simp: reload_built_def prod.case_eq_if is_key_error_def split: sum.split)
qed

lemma reload_ok:
  assumes "prov_ok f s"
  shows "prov_ok f (reload N ts i x s)"
proof -
  have "prov_ok f (ask_specs i (Reload_spec light x) (missing_specs True [x] s) (reload_built N ts i light x) s)"
    if "find (\<lambda>light. ls_symbolId light = x) (map snd (pv_light_symbols s)) = Some light" for light
  proof -
    have "light \<in> set (map snd (pv_light_symbols s))"
      using that by (auto simp: find_Some_iff)
    then obtain n where "(n, light) \<in> set (pv_light_symbols s)" by auto
    moreover have "distinct (map fst (pv_light_symbols s))" using assms by (simp add: prov_ok_def lights_ok_def)
    ultimately have "map_of (pv_light_symbols s) n = Some light" by (intro map_of_is_SomeI)
    then have "named f light" using assms unfolding prov_ok_def lights_ok_def lights_named_def by blast
    then show ?thesis
      using assms reload_built_ok by (intro ask_specs_ok) (simp_all add: stage_ok_def stage_lights_def)
  qed
  then show ?thesis using end_load_ok [OF assms] by (simp add: reload_def is_key_error_def split: option.split)
qed

lemma symbol_changed_ok:
  assumes "prov_ok f s"
  shows "prov_ok f (on_symbol_changed x s)"
proof -
  have "prov_ok f (s\<lparr>pv_symbol_specs := d\<rparr>)" for d
    using assms by (simp add: prov_ok_def tables_ok_def lights_ok_def ended_ok_def)
  moreover have "prov_ok f (put_load n (Reload_starts x) ((reset_conversion_cache (Some x) s)\<lparr>pv_next := m\<rparr>))" for n m
    using reset_ok [OF assms] by (intro put_load_ok)
      (simp_all add: prov_ok_def tables_ok_def lights_ok_def ended_ok_def stage_ok_def stage_lights_def)
  ultimately show ?thesis by (simp add: on_symbol_changed_def Let_def split: option.split)
qed

lemma start_load_ok:
  assumes "prov_ok f s"
  shows "prov_ok f (start_load N ts call s)"
proof -
  have ok: "prov_ok f (s\<lparr>pv_next := m\<rparr>)" for m
    using assms by (simp add: prov_ok_def tables_ok_def lights_ok_def ended_ok_def)
  show ?thesis
    using reload_ok [OF ok] load_names_ok [OF ok] load_ids_ok [OF ok] conversion_ok [OF ok] end_load_ok [OF ok]
    by (simp add: start_load_def Let_def is_key_error_def split: load_call.split)
qed

lemma specs_answered_ok:
  assumes "prov_ok f s" and "stage_ok f st"
  shows "prov_ok f (specs_answered N ts i st answer s)"
proof -
  have ok: "prov_ok f (s\<lparr>pv_symbol_specs := d\<rparr>)" for d
    using assms(1) by (simp add: prov_ok_def tables_ok_def lights_ok_def ended_ok_def)
  have "prov_ok f (ask_specs i (Names_specs lights failures) (drop SYMBOL_BY_ID_BATCH missing)
      (names_built N ts i lights failures) (s\<lparr>pv_symbol_specs := d\<rparr>))"
    if "st = Names_specs lights failures missing" for lights failures missing d
    using assms(2) that names_built_ok [OF ok] by (intro ask_specs_ok [OF ok]) (simp_all add: stage_ok_def stage_lights_def)
  moreover have "prov_ok f (ask_specs i (Legs_specs chain1 ids) (drop SYMBOL_BY_ID_BATCH missing)
      (legs_built N ts i chain1 ids) (s\<lparr>pv_symbol_specs := d\<rparr>))"
    if "st = Legs_specs chain1 ids missing" for chain1 ids missing d
    using assms(2) that legs_built_ok [OF ok] by (intro ask_specs_ok [OF ok]) (simp_all add: stage_ok_def stage_lights_def)
  moreover have "prov_ok f (ask_specs i (Reload_spec light x) (drop SYMBOL_BY_ID_BATCH missing)
      (reload_built N ts i light x) (s\<lparr>pv_symbol_specs := d\<rparr>))"
    if "st = Reload_spec light x missing" for light x missing d
    using assms(2) that reload_built_ok [OF ok] by (intro ask_specs_ok [OF ok]) (simp_all add: stage_ok_def stage_lights_def)
  ultimately show ?thesis
    using end_load_ok [OF assms(1)] ok
    by (cases answer; cases st) (simp_all add: specs_answered_def Let_def is_key_error_def)
qed

lemma chain_ready_ok:
  assumes "prov_ok f s" and "map_of (pv_operations s) i = Some (Chain_ready key answer)"
  shows "prov_ok f (chain_ready N ts i key answer s)"
proof -
  have n: "stage_ok f (Chain_ready key answer)"
    using assms unfolding prov_ok_def lights_ok_def by blast
  show ?thesis
  proof (cases answer)
    case (Inl e)
    then show ?thesis using n end_load_ok [OF assms(1)] by (simp add: stage_ok_def chain_ready_def)
  next
    case (Inr chain1)
    then show ?thesis
      using with_chain_ok [OF assms(1), of chain1] end_load_ok [OF assms(1)] n
      by (cases chain1) (simp_all add: chain_ready_def stage_ok_def stage_lights_def is_key_error_def)
  qed
qed

lemma lights_named_update:
  assumes "lights_named f d" and "named f light"
  shows "lights_named f (AList.update (symbolName light) light d)"
  using assms unfolding lights_named_def map_of_update fun_upd_apply by (metis option.inject)

lemma reference_ok:
  assumes "prov_ok f s" and "list_all (named f) symbols"
  shows "prov_ok f (reference_loaded symbols assets deposit s)"
proof -
  let ?d = "fold (\<lambda>light. AList.update (symbolName light) light) symbols"
  have "lights_named f (?d d) \<and> distinct (map fst (?d d))" if "lights_named f d" "distinct (map fst d)" for d
    using that assms(2)
    by (induction symbols arbitrary: d) (simp_all add: lights_named_update distinct_update_keys)
  moreover have "lights_named f []" by (simp add: lights_named_def)
  ultimately have "lights_named f (?d [])" "distinct (map fst (?d []))" by simp_all
  then show ?thesis
    using assms(1) by (simp add: reference_loaded_def prov_ok_def tables_ok_def lights_ok_def ended_ok_def)
qed

lemma load_step_ok:
  assumes "prov_ok f s" and "event_ok f ev"
  shows "prov_ok f (load_step N ts ev s)"
proof -
  have st: "map_of (pv_operations s) i = Some st \<Longrightarrow> stage_ok f st" for i st
    using assms(1) unfolding prov_ok_def lights_ok_def by blast
  show ?thesis
  proof (cases ev)
    case (Load_session up)
    then show ?thesis using assms(1) by (simp add: load_step_def prov_ok_def tables_ok_def lights_ok_def ended_ok_def)
  next
    case (Load_reference symbols assets deposit)
    then show ?thesis using reference_ok assms by (simp add: load_step_def event_ok_def)
  next
    case (Load_call call)
    then show ?thesis using start_load_ok [OF assms(1)] by (simp add: load_step_def)
  next
    case (Load_specs i answer)
    then show ?thesis using specs_answered_ok [OF assms(1) st] assms(1) by (simp add: load_step_def split: option.split)
  next
    case (Load_resumes i)
    then show ?thesis using chain_ready_ok [OF assms(1)] reload_ok [OF assms(1)] assms(1)
      by (simp add: load_step_def split: option.split load_stage.split)
  next
    case (Load_cancelled i)
    then show ?thesis using assms(1)
      by (simp add: load_step_def prov_ok_def tables_ok_def lights_ok_def ended_ok_def dict_simps)
  next
    case (Query_starts q)
    then show ?thesis using query_starts_ok [OF assms(1)] assms(1) by (simp add: load_step_def split: option.split)
  next
    case (Query_answered q answer)
    have "prov_ok f (query_ended q query (case answer of Inl e \<Rightarrow> Inl (Request_failed e) | Inr chain1 \<Rightarrow> Inr chain1) s)" for query
      using assms(2) Query_answered
      by (intro query_ended_ok [OF assms(1)])
        (auto simp: event_ok_def is_key_error_def list_all_iff split: sum.splits)
    then show ?thesis using Query_answered assms(1) by (simp add: load_step_def split: option.split)
  next
    case (Reset_conversions x)
    then show ?thesis using reset_ok [OF assms(1)] by (simp add: load_step_def)
  next
    case (Remove_failed i reason)
    then show ?thesis using remove_failed_ok [OF assms(1)] assms(2) by (simp add: load_step_def event_ok_def)
  next
    case (Symbol_changed xs)
    have "prov_ok f (fold on_symbol_changed xs s)"
      using assms(1) by (induction xs arbitrary: s) (simp_all add: symbol_changed_ok)
    then show ?thesis using Symbol_changed by (simp add: load_step_def)
  qed
qed

lemma run_loads_Cons: "run_loads N (e # evs) s = run_loads N evs (load_step N (fst e) (snd e) s)"
  by (simp add: run_loads_def case_prod_beta)

lemma run_loads_append: "run_loads N (evs @ others) s = run_loads N others (run_loads N evs s)"
  by (simp add: run_loads_def)

lemma run_loads_ok:
  assumes "prov_ok f s" and "events_ok f evs"
  shows "prov_ok f (run_loads N evs s)"
  using assms
proof (induction evs arbitrary: s)
  case (Cons e evs)
  have "prov_ok f (load_step N (fst e) (snd e) s)"
    using Cons.prems by (intro load_step_ok) (auto simp: events_ok_def)
  then show ?case using Cons.IH Cons.prems(2) by (simp add: run_loads_Cons events_ok_def)
qed (simp add: run_loads_def)

lemma new_provider_ok: "prov_ok f (new_provider overrides fail_on_error)"
  by (simp add: prov_ok_def new_provider_def tables_ok_def lights_ok_def ended_ok_def chains_named_def lights_named_def)

lemmas reached_provider = run_loads_ok [OF new_provider_ok]

end
