(* ===== verification/Instruments_Promises.thy ===== *)
theory Instruments_Promises
  imports Instruments_Safety
begin

text \<open>
  What the provider promises in every interleaving of loads, conversions, reloads, resets and drops: an
  instrument dropped stays out until it is asked for again, a chain asked for before a reset is never
  kept after it, every failure of a load can be told, and a conversion gives the legs of its chain.
\<close>

subsection \<open>What calls leave alone\<close>

text \<open>Building, and the calls that build, leave the blocked names and the queries as they are.\<close>

definition leaves :: "provider \<Rightarrow> provider \<Rightarrow> bool" where
  "leaves s s' \<longleftrightarrow> pv_blocked s' = pv_blocked s \<and> pv_queries s' = pv_queries s \<and>
     pv_chain_generation s' = pv_chain_generation s \<and> pv_chain_queries s' = pv_chain_queries s \<and>
     pv_next s' = pv_next s"

lemma leaves_trans: "leaves s t \<Longrightarrow> leaves t u \<Longrightarrow> leaves s u"
  by (simp add: leaves_def)

lemma leaves_refl: "leaves s s"
  by (simp add: leaves_def)

lemma leaves_touches: "touches s s' \<Longrightarrow> leaves s s'"
  using touches_rest by (simp add: leaves_def)

lemma leaves_end: "leaves s (end_load i r s)"
  by (simp add: leaves_def end_load_def)

lemma leaves_put: "leaves s (put_load i st s)"
  by (simp add: leaves_def put_load_def)

lemma build_names_touches: "touches s (snd (build_names N ts specs lights failures s))"
proof (induction lights arbitrary: failures s)
  case (Cons light lights)
  show ?case
    using touches_trans [OF build_touches Cons.IH] build_touches
    by (simp add: prod.case_eq_if split: sum.split option.split)
qed (simp add: touches_refl)

lemma build_legs_touches: "touches s (snd (build_legs N ts specs legs built s))"
proof (induction legs arbitrary: built s)
  case (Cons leg legs)
  show ?case
    using touches_trans [OF build_touches Cons.IH] build_touches Cons.IH
    by (simp add: prod.case_eq_if split: sum.split option.split)
qed (simp add: touches_refl)

lemma leaves_names_built: "leaves s (names_built N ts i lights failures s)"
  using leaves_trans [OF leaves_touches [OF build_names_touches] leaves_end]
  by (simp add: names_built_def prod.case_eq_if split: sum.split)

lemma leaves_legs_built: "leaves s (legs_built N ts i chain1 ids s)"
  using leaves_trans [OF leaves_touches [OF build_legs_touches] leaves_end]
  by (simp add: legs_built_def prod.case_eq_if split: sum.split)

lemma leaves_reload_built: "leaves s (reload_built N ts i light x s)"
  using leaves_trans [OF leaves_touches [OF build_touches] leaves_end]
  by (simp add: reload_built_def prod.case_eq_if split: sum.split)

lemma leaves_ask: "leaves s (go s) \<Longrightarrow> leaves s (ask_specs i stage missing go s)"
  by (simp add: ask_specs_def leaves_end leaves_put)

lemma leaves_asks:
  "leaves s (ask_specs i stage missing (names_built N ts j lights failures) s)"
  "leaves s (ask_specs i stage missing (legs_built N ts j chain1 ids) s)"
  "leaves s (ask_specs i stage missing (reload_built N ts j light x) s)"
  by (rule leaves_ask, rule leaves_names_built leaves_legs_built leaves_reload_built)+

lemma leaves_lights_of: "leaves s (snd (snd (lights_of names lights failures s)))"
proof (induction names arbitrary: lights failures s)
  case (Cons name names)
  show ?case
    using leaves_trans [OF leaves_touches [OF touches_record] Cons.IH] Cons.IH by (simp split: option.split)
qed (simp add: leaves_refl)

lemma leaves_load_names: "leaves s (load_names N ts i names failures s)"
  using leaves_trans [OF leaves_lights_of leaves_asks(1)] leaves_end
  by (simp add: load_names_def prod.case_eq_if Let_def)

lemma leaves_foreign: "leaves s (snd (foreign_ids ids failures s))"
proof (induction ids arbitrary: failures s)
  case (Cons i ids)
  show ?case
    using leaves_trans [OF leaves_touches [OF touches_record] Cons.IH] Cons.IH by simp
qed (simp add: leaves_refl)

lemma leaves_with_chain: "leaves s (with_chain N ts i chain1 s)"
  unfolding with_chain_def Let_def by (rule leaves_asks)

lemma leaves_chain_ready: "leaves s (chain_ready N ts i key answer s)"
  by (simp add: chain_ready_def leaves_end leaves_with_chain split: sum.split list.split)

lemma leaves_reload: "leaves s (reload N ts i x s)"
  using leaves_asks(3) leaves_end by (simp add: reload_def split: option.split)

lemma leaves_specs: "leaves s (specs_answered N ts i st answer s)"
proof -
  have s: "leaves s (s\<lparr>pv_symbol_specs := d\<rparr>)" for d by (simp add: leaves_def)
  show ?thesis
    using leaves_trans [OF s leaves_asks(1)] leaves_trans [OF s leaves_asks(2)]
      leaves_trans [OF s leaves_asks(3)] leaves_end s
    by (cases answer; cases st) (simp_all add: specs_answered_def Let_def)
qed

subsection \<open>Blocked names\<close>

text \<open>The events that let a dropped name back in.\<close>

definition allows_again :: "string \<Rightarrow> load_event \<Rightarrow> bool" where
  "allows_again name ev \<longleftrightarrow>
     (case ev of
        Load_call (Load_ids ids) \<Rightarrow> (name, CTRADER_VENUE) \<in> set ids
      | Reset_conversions None \<Rightarrow> True
      | _ \<Rightarrow> False)"

lemma blocked_load_ids:
  "n \<in> set (pv_blocked s) \<Longrightarrow> (n, CTRADER_VENUE) \<notin> set ids \<Longrightarrow> n \<in> set (pv_blocked (load_ids N ts i ids s))"
proof -
  assume h: "n \<in> set (pv_blocked s)" "(n, CTRADER_VENUE) \<notin> set ids"
  let ?f = "foreign_ids ids [] s"
  let ?s = "(snd ?f)\<lparr>pv_blocked := filter (\<lambda>n. n \<notin> set (ctrader_names ids)) (pv_blocked (snd ?f))\<rparr>"
  have "n \<in> set (pv_blocked ?s)"
    using h leaves_foreign [of s ids "[]"] by (auto simp: leaves_def ctrader_names_def)
  then show ?thesis
    using h(1) leaves_load_names [of ?s N ts i "ctrader_names ids" "fst ?f"] leaves_end [of s i Load_done]
    by (simp add: load_ids_def prod.case_eq_if leaves_def)
qed

lemma blocked_conversion: "pv_blocked (conversion_instruments_for N ts i instrument s) = pv_blocked s"
proof -
  have "pv_blocked (snd (chain_query_for key s)) = pv_blocked s" for key
    by (simp add: chain_query_for_def split: option.split)
  then show ?thesis
    using leaves_with_chain leaves_end leaves_put unfolding leaves_def
    by (simp add: conversion_instruments_for_def prod.case_eq_if split: option.split)
qed

lemma blocked_changed: "pv_blocked (fold on_symbol_changed xs s) = pv_blocked s"
  by (induction xs arbitrary: s) (simp_all add: on_symbol_changed_def Let_def put_load_def reset_fields split: option.split)

lemma blocked_step:
  assumes "n \<in> set (pv_blocked s)" and "\<not> allows_again n ev"
  shows "n \<in> set (pv_blocked (load_step N ts ev s))"
proof (cases ev)
  case (Load_call call)
  let ?s = "s\<lparr>pv_next := Suc (pv_next s)\<rparr>" and ?i = "pv_next s"
  have "n \<in> set (pv_blocked ?s)" using assms(1) by simp
  then show ?thesis
    using assms(2) Load_call blocked_load_ids [of n ?s] leaves_load_names [of ?s] leaves_reload [of ?s] leaves_end [of ?s]
    by (cases call) (simp_all add: load_step_def start_load_def Let_def leaves_def blocked_conversion allows_again_def)
next
  case (Load_specs i answer)
  then show ?thesis using assms(1) leaves_specs by (simp add: load_step_def leaves_def split: option.split)
next
  case (Load_resumes i)
  then show ?thesis using assms(1) leaves_chain_ready leaves_reload
    by (simp add: load_step_def leaves_def split: option.split load_stage.split)
next
  case (Reset_conversions x)
  then show ?thesis using assms by (cases x) (simp_all add: load_step_def reset_fields allows_again_def)
qed (use assms(1) in \<open>simp_all add: load_step_def reference_loaded_def query_starts_def query_ended_def Let_def remove_failed_def
    record_failure_def blocked_changed split: option.split\<close>)

lemma blocked_run:
  assumes "n \<in> set (pv_blocked s)" and "list_all (\<lambda>(ts, ev). \<not> allows_again n ev) evs"
  shows "n \<in> set (pv_blocked (run_loads N evs s))"
  using assms
proof (induction evs arbitrary: s)
  case (Cons e evs)
  then have "n \<in> set (pv_blocked (load_step N (fst e) (snd e) s))" by (intro blocked_step) auto
  then show ?case using Cons.IH Cons.prems(2) by (simp add: run_loads_Cons)
qed (simp add: run_loads_def)

text \<open>
  C19: An instrument dropped because it must not be traded stays out - of the instruments, of the symbol
  ids and of the quote currencies, with its failure recorded - whatever loads, conversions and reloads
  were waiting when it was dropped, until it is requested by name or every chain is reset; given that the broker
  never lists one name with two symbol ids.
\<close>

lemma dropped_instrument_stays_out:
  assumes "events_ok f (evs @ (ts, Remove_failed (name, CTRADER_VENUE) reason) # later)"
    and "list_all (\<lambda>(ts, ev). \<not> allows_again name ev) later"
    and "s = run_loads N (evs @ (ts, Remove_failed (name, CTRADER_VENUE) reason) # later)
      (new_provider overrides fail_on_error)"
  shows "find_instrument (name, CTRADER_VENUE) s = None \<and> map_of (pv_quote_asset_id s) (name, CTRADER_VENUE) = None \<and>
    map_of (pv_failures s) name \<noteq> None \<and> (\<forall>x instrument. instrument_for_symbol_id x s = Some instrument \<longrightarrow> si_name instrument \<noteq> name)"
proof -
  have "prov_ok f s" unfolding assms(3) by (rule reached_provider [OF assms(1)])
  then have t: "tables_ok f s" by (simp add: prov_ok_def)
  have "name \<in> set (pv_blocked (load_step N ts (Remove_failed (name, CTRADER_VENUE) reason) t))" for t
    by (simp add: load_step_def remove_failed_def record_failure_def Let_def split: option.split)
  then have "name \<in> set (pv_blocked s)"
    unfolding assms(3) run_loads_append run_loads_Cons fst_conv snd_conv by (rule blocked_run [OF _ assms(2)])
  then have out: "map_of (pv_instruments s) (name, CTRADER_VENUE) = None" "map_of (pv_failures s) name \<noteq> None"
    using t unfolding tables_ok_def by blast+
  moreover have "map_of (pv_quote_asset_id s) (name, CTRADER_VENUE) = None"
    using t out(1) unfolding tables_ok_def by blast
  moreover have "si_name instrument \<noteq> name" if "instrument_for_symbol_id x s = Some instrument" for x instrument
    using t out(1) that unfolding tables_ok_def instrument_for_symbol_id_def id_of_def by fastforce
  ultimately show ?thesis by (simp add: find_instrument_def)
qed
subsection \<open>Queries\<close>

definition started :: "nat \<Rightarrow> provider \<Rightarrow> bool" where
  "started q s \<longleftrightarrow> (case map_of (pv_queries s) q of None \<Rightarrow> False | Some query \<Rightarrow> cq_generation query \<noteq> None)"

definition queries_ok :: "provider \<Rightarrow> bool" where
  "queries_ok s \<longleftrightarrow>
     (\<forall>q query. map_of (pv_queries s) q = Some query \<longrightarrow> q < pv_next s \<and>
        (\<forall>g. cq_generation query = Some g \<longrightarrow> g \<le> pv_chain_generation s)) \<and>
     pv_chain_queries s = card {q. started q s}"

text \<open>The query \<open>q\<close> stays as it was begun, or is over for good, and the generation never goes back.\<close>

definition moves_on :: "nat \<Rightarrow> provider \<Rightarrow> provider \<Rightarrow> bool" where
  "moves_on q s s' \<longleftrightarrow> pv_next s \<le> pv_next s' \<and> pv_chain_generation s \<le> pv_chain_generation s' \<and>
     (q < pv_next s \<and> (started q s \<or> map_of (pv_queries s) q = None) \<longrightarrow>
        map_of (pv_queries s') q = map_of (pv_queries s) q \<or> map_of (pv_queries s') q = None)"

lemma provider_moves_refl: "moves_on q s s"
  by (simp add: moves_on_def)

lemma provider_moves_trans:
  assumes "moves_on q s t" and "moves_on q t u"
  shows "moves_on q s u"
  using assms unfolding moves_on_def started_def by (auto split: option.splits)

lemma leaves_queries:
  assumes "leaves s s'"
  shows "queries_ok s \<Longrightarrow> queries_ok s'" "moves_on q s s'"
  using assms by (simp_all add: leaves_def queries_ok_def started_def moves_on_def)

lemma finite_started: "finite {q. started q s}"
proof (rule finite_subset)
  show "{q. started q s} \<subseteq> dom (map_of (pv_queries s))" by (auto simp: started_def split: option.splits)
qed (rule finite_dom_map_of)

lemma next_queries:
  "queries_ok s \<Longrightarrow> queries_ok (s\<lparr>pv_next := Suc (pv_next s)\<rparr>)" "moves_on q s (s\<lparr>pv_next := Suc (pv_next s)\<rparr>)"
  by (fastforce simp: queries_ok_def started_def moves_on_def)+

lemma new_query:
  assumes "queries_ok s"
  shows "queries_ok (snd (chain_query_for key s))" "moves_on q s (snd (chain_query_for key s))"
proof -
  have "map_of (pv_queries s) (pv_next s) = None"
    using assms by (cases "map_of (pv_queries s) (pv_next s)") (auto simp: queries_ok_def)
  then have "started q (s\<lparr>pv_next := m, pv_queries := AList.update (pv_next s) \<lparr>cq_key = key, cq_generation = None\<rparr> (pv_queries s),
      pv_chain_tasks := d\<rparr>) = started q s" for q m d
    by (simp add: started_def dict_simps)
  then show "queries_ok (snd (chain_query_for key s))"
    using assms by (auto simp: queries_ok_def chain_query_for_def dict_simps intro: less_SucI split: option.split)
  show "moves_on q s (snd (chain_query_for key s))"
    by (auto simp: moves_on_def chain_query_for_def dict_simps split: option.split)
qed

lemma conversion_queries:
  assumes "queries_ok s"
  shows "queries_ok (conversion_instruments_for N ts i instrument s)"
    "moves_on q s (conversion_instruments_for N ts i instrument s)"
proof -
  have p: "queries_ok (put_load i st (snd (chain_query_for key s)))" "moves_on q s (put_load i st (snd (chain_query_for key s)))"
    for key st
    using leaves_queries(1) [OF leaves_put new_query(1) [OF assms]]
      provider_moves_trans [OF new_query(2) [OF assms] leaves_queries(2) [OF leaves_put]] by simp_all
  note e = leaves_queries(1) [OF leaves_end assms] leaves_queries(2) [OF leaves_end]
  note w = leaves_queries(1) [OF leaves_with_chain assms] leaves_queries(2) [OF leaves_with_chain]
  show "queries_ok (conversion_instruments_for N ts i instrument s)"
    "moves_on q s (conversion_instruments_for N ts i instrument s)"
    using p e w by (simp_all add: conversion_instruments_for_def prod.case_eq_if split: option.split)
qed

lemma ended_queries:
  assumes "queries_ok s" and "started q s"
  shows "queries_ok (query_ended q query answer s)" "moves_on r s (query_ended q query answer s)"
proof -
  let ?s = "query_ended q query answer s"
  have f: "pv_queries ?s = AList.delete q (pv_queries s)" "pv_next ?s = pv_next s"
    "pv_chain_generation ?s = pv_chain_generation s" "pv_chain_queries ?s = pv_chain_queries s - 1"
    by (simp_all add: query_ended_def)
  have "{r. started r ?s} = {r. started r s} - {q}"
    by (auto simp: started_def f dict_simps split: if_splits)
  then have "card {r. started r ?s} = card {r. started r s} - 1"
    using assms(2) finite_started by simp
  then show "queries_ok ?s" using assms(1) by (auto simp: queries_ok_def f dict_simps split: if_splits)
  show "moves_on r s ?s" by (simp add: moves_on_def f dict_simps)
qed

lemma starts_queries:
  assumes "queries_ok s" and "map_of (pv_queries s) q = Some query" and "cq_generation query = None"
  shows "queries_ok (query_starts q query s)" "moves_on r s (query_starts q query s)"
proof -
  let ?query = "query\<lparr>cq_generation := Some (pv_chain_generation s)\<rparr>"
  let ?s = "s\<lparr>pv_chain_queries := pv_chain_queries s + 1, pv_queries := AList.update q ?query (pv_queries s)\<rparr>"
  have "{r. started r ?s} = insert q {r. started r s}"
    by (auto simp: started_def dict_simps split: if_splits)
  moreover have "q \<notin> {r. started r s}" using assms(2,3) by (simp add: started_def)
  ultimately have "card {r. started r ?s} = Suc (card {r. started r s})" using finite_started by simp
  then have ok: "queries_ok ?s"
    using assms by (auto simp: queries_ok_def dict_simps split: if_splits)
  have m: "moves_on r s ?s"
    using assms(2,3) by (auto simp: moves_on_def started_def dict_simps)
  have "started q ?s" by (simp add: started_def dict_simps)
  note e = ended_queries [OF ok this, where query = ?query and answer = "Inl Account_not_connected"]
  show "queries_ok (query_starts q query s)" "moves_on r s (query_starts q query s)"
    using ok m e(1) provider_moves_trans [OF m e(2)] by (simp_all add: query_starts_def Let_def)
qed

lemma reset_generation:
  "pv_chain_generation s \<le> pv_chain_generation (reset_conversion_cache x s)"
  "x = None \<or> 0 < pv_chain_queries s \<Longrightarrow> pv_chain_generation s < pv_chain_generation (reset_conversion_cache x s)"
  by (auto simp: reset_conversion_cache_def Let_def)

lemma reset_queries:
  "queries_ok s \<Longrightarrow> queries_ok (reset_conversion_cache x s)" "moves_on q s (reset_conversion_cache x s)"
  using reset_generation(1) [of s x]
  by (fastforce simp: queries_ok_def started_def reset_fields moves_on_def)+

lemma changed_queries:
  assumes "queries_ok s"
  shows "queries_ok (on_symbol_changed x s)" "moves_on q s (on_symbol_changed x s)"
proof -
  let ?r = "reset_conversion_cache (Some x) s"
  have p: "queries_ok (put_load n st (?r\<lparr>pv_next := Suc (pv_next s)\<rparr>))" "moves_on q s (put_load n st (?r\<lparr>pv_next := Suc (pv_next s)\<rparr>))"
    for n st
  proof -
    have "queries_ok ?r" "moves_on q s ?r" by (rule reset_queries(1) [OF assms], rule reset_queries(2))
    then have "queries_ok (?r\<lparr>pv_next := Suc (pv_next ?r)\<rparr>)" "moves_on q s (?r\<lparr>pv_next := Suc (pv_next ?r)\<rparr>)"
      using next_queries provider_moves_trans by blast+
    then show "queries_ok (put_load n st (?r\<lparr>pv_next := Suc (pv_next s)\<rparr>))"
      "moves_on q s (put_load n st (?r\<lparr>pv_next := Suc (pv_next s)\<rparr>))"
      using leaves_queries [OF leaves_put] provider_moves_trans unfolding reset_fields(12) by blast+
  qed
  have "leaves s (s\<lparr>pv_symbol_specs := d\<rparr>)" for d by (simp add: leaves_def)
  note d = leaves_queries(1) [OF this assms] leaves_queries(2) [OF this]
  show "queries_ok (on_symbol_changed x s)" "moves_on q s (on_symbol_changed x s)"
    using p d by (simp_all add: on_symbol_changed_def Let_def reset_fields split: option.split)
qed

lemma step_queries:
  assumes "queries_ok s"
  shows "queries_ok (load_step N ts ev s) \<and> moves_on q s (load_step N ts ev s)"
proof -
  have same: "queries_ok s \<and> moves_on q s s" using assms provider_moves_refl by simp
  have l: "queries_ok s' \<and> moves_on q s s'" if "leaves s s'" for s'
    using leaves_queries [OF that] assms by simp
  show ?thesis
  proof (cases ev)
    case (Load_call call)
    let ?s = "s\<lparr>pv_next := Suc (pv_next s)\<rparr>"
    note n = next_queries(1) [OF assms] next_queries(2) [of q s]
    have go: "queries_ok s' \<and> moves_on q s s'" if "leaves ?s s'" for s'
      using leaves_queries [OF that] n provider_moves_trans by blast
    have "queries_ok (conversion_instruments_for N ts i instrument ?s) \<and>
        moves_on q s (conversion_instruments_for N ts i instrument ?s)" for i instrument
      using conversion_queries [OF n(1)] provider_moves_trans [OF n(2)] by blast
    moreover have "queries_ok (load_ids N ts i ids ?s) \<and> moves_on q s (load_ids N ts i ids ?s)" for i ids
    proof -
      let ?f = "foreign_ids ids [] ?s"
      let ?t = "(snd ?f)\<lparr>pv_blocked := filter (\<lambda>n. n \<notin> set (ctrader_names ids)) (pv_blocked (snd ?f))\<rparr>"
      have "queries_ok (snd ?f) \<and> moves_on q s (snd ?f)" by (rule go [OF leaves_foreign])
      then have t: "queries_ok ?t" "moves_on q s ?t" by (auto simp: queries_ok_def started_def moves_on_def)
      show ?thesis
        using leaves_queries(1) [OF leaves_load_names t(1)] provider_moves_trans [OF t(2) leaves_queries(2) [OF leaves_load_names]]
          go [OF leaves_end]
        by (simp add: load_ids_def prod.case_eq_if)
    qed
    ultimately show ?thesis
      using Load_call go [OF leaves_end] go [OF leaves_load_names] go [OF leaves_reload]
      by (cases call) (simp_all add: load_step_def start_load_def Let_def)
  next
    case (Load_specs i answer)
    then show ?thesis using same l [OF leaves_specs] by (simp add: load_step_def split: option.split)
  next
    case (Load_resumes i)
    then show ?thesis using same l [OF leaves_chain_ready] l [OF leaves_reload]
      by (simp add: load_step_def split: option.split load_stage.split)
  next
    case (Query_starts r)
    then show ?thesis using same starts_queries [OF assms] by (simp add: load_step_def split: option.split)
  next
    case (Query_answered r answer)
    then show ?thesis using same ended_queries [OF assms, of r]
      by (simp add: load_step_def started_def split: option.split)
  next
    case (Reset_conversions x)
    then show ?thesis using reset_queries assms by (simp add: load_step_def)
  next
    case (Symbol_changed xs)
    have "queries_ok (fold on_symbol_changed xs s) \<and> moves_on q s (fold on_symbol_changed xs s)"
      using assms
    proof (induction xs arbitrary: s)
      case (Cons x xs)
      then show ?case using changed_queries [OF Cons.prems] provider_moves_trans by (simp, blast)
    qed (simp add: provider_moves_refl)
    then show ?thesis using Symbol_changed by (simp add: load_step_def)
  next
    case (Remove_failed i reason)
    then show ?thesis using same
      by (simp add: load_step_def remove_failed_def record_failure_def Let_def queries_ok_def started_def moves_on_def
          split: option.split)
  qed (use same l in \<open>simp_all add: load_step_def reference_loaded_def leaves_def\<close>)
qed

lemma run_queries: "queries_ok s \<Longrightarrow> queries_ok (run_loads N evs s) \<and> moves_on q s (run_loads N evs s)"
proof (induction evs arbitrary: s)
  case (Cons e evs)
  have "queries_ok (load_step N (fst e) (snd e) s)" "moves_on q s (load_step N (fst e) (snd e) s)"
    using step_queries [OF Cons.prems] by simp_all
  then show ?case using Cons.IH provider_moves_trans unfolding run_loads_Cons by blast
qed (simp add: run_loads_def provider_moves_refl)

lemma new_queries: "queries_ok (new_provider overrides fail_on_error)"
  by (simp add: queries_ok_def new_provider_def started_def)
text \<open>
  C27: A chain that was asked for before a reset is never kept after it: a reset drops every chain it names
  - all, or those that use the symbol - and a query the venue had not answered by then changes no chain
  that is kept, however much later its answer comes and whatever happened in between.
\<close>

lemma chain_asked_before_a_reset_is_not_kept:
  assumes "s = run_loads N evs (new_provider overrides fail_on_error)" and "started q s"
    and "s' = run_loads N later (load_step N ts (Reset_conversions x) s)"
  shows "pv_chains (load_step N ts' (Query_answered q answer) s') = pv_chains s' \<and>
    (\<forall>(key, chain1)\<in>set (pv_chains (load_step N ts (Reset_conversions x) s)). \<not> stale_chain x chain1)"
proof -
  let ?r = "reset_conversion_cache x s"
  have r: "load_step N ts (Reset_conversions x) s = ?r" by (simp add: load_step_def)
  have ok: "queries_ok s" using run_queries [OF new_queries] assms(1) by blast
  have "{q. started q s} \<noteq> {}" using assms(2) by blast
  then have pending: "0 < pv_chain_queries s"
    using ok finite_started [of s] by (simp add: queries_ok_def card_gt_0_iff)
  obtain query g where query: "map_of (pv_queries s) q = Some query" "cq_generation query = Some g"
    using assms(2) by (auto simp: started_def split: option.splits)
  have q: "q < pv_next s" "g \<le> pv_chain_generation s" using ok query by (auto simp: queries_ok_def)
  have "moves_on q ?r s'" using run_queries [OF reset_queries(1) [OF ok]] unfolding assms(3) r by blast
  then have m: "pv_chain_generation ?r \<le> pv_chain_generation s'"
    "map_of (pv_queries s') q = Some query \<or> map_of (pv_queries s') q = None"
    using q(1) query(1) assms(2) by (auto simp: moves_on_def started_def reset_fields)
  have "g < pv_chain_generation s'" using q(2) m(1) reset_generation(2) [of x s] pending by simp
  then have "pv_chains (load_step N ts' (Query_answered q answer) s') = pv_chains s'"
    using m(2) query(2) by (auto simp: load_step_def query_ended_def split: sum.split)
  moreover have "\<forall>(key, chain1)\<in>set (pv_chains ?r). \<not> stale_chain x chain1" by (auto simp: reset_fields)
  ultimately show ?thesis unfolding r by blast
qed

definition sample_light :: ProtoOALightSymbol where
  "sample_light = \<lparr>ls_symbolId = 1, symbolName = ''EURUSD'', baseAssetId = 2, quoteAssetId = 3\<rparr>"

definition sample_leg :: ProtoOALightSymbol where
  "sample_leg = \<lparr>ls_symbolId = 4, symbolName = ''USDCHF'', baseAssetId = 3, quoteAssetId = 5\<rparr>"

text \<open>An account in francs that loads EURUSD and asks how dollars convert.\<close>

definition sample_loads :: load_run where
  "sample_loads =
     [(0, Load_session True), (0, Load_reference [sample_light, sample_leg] [(2, ''EUR''), (3, ''USD''), (5, ''CHF'')] 5),
      (0, Load_call (Load_ids [(''EURUSD'', CTRADER_VENUE)])), (9, Load_specs 0 (Inr [(1, sample_symbol)])),
      (9, Load_call (Conversion_for (''EURUSD'', CTRADER_VENUE))), (9, Query_starts 2)]"

lemma sample_query_started: "started 2 (run_loads sample_nautilus sample_loads (new_provider [] False))"
  by code_simp
lemma chain_asked_before_a_reset_is_not_kept_witness:
  "pv_chains (load_step sample_nautilus 9 (Query_answered 2 (Inr [sample_leg]))
     (load_step sample_nautilus 9 (Reset_conversions (Some 4))
       (run_loads sample_nautilus sample_loads (new_provider [] False)))) =
   pv_chains (load_step sample_nautilus 9 (Reset_conversions (Some 4))
       (run_loads sample_nautilus sample_loads (new_provider [] False)))"
proof -
  let ?s = "run_loads sample_nautilus sample_loads (new_provider [] False)"
  have "load_step sample_nautilus 9 (Reset_conversions (Some 4)) ?s =
      run_loads sample_nautilus [] (load_step sample_nautilus 9 (Reset_conversions (Some 4)) ?s)"
    by (simp add: run_loads_def)
  from chain_asked_before_a_reset_is_not_kept [OF refl sample_query_started this] show ?thesis by blast
qed

text \<open>One id per name, as in \<open>sample_loads\<close>.\<close>

definition sample_ids :: "string \<Rightarrow> int" where
  "sample_ids name = (if name = ''EURUSD'' then 1 else 4)"

lemma dropped_instrument_stays_out_witness:
  "find_instrument (''EURUSD'', CTRADER_VENUE)
     (run_loads sample_nautilus (sample_loads @ (9, Remove_failed (''EURUSD'', CTRADER_VENUE) ''no chain'') #
        [(9, Load_call Load_all), (9, Query_answered 2 (Inr [sample_leg]))]) (new_provider [] False)) = None"
proof -
  let ?later = "[(9::int, Load_call Load_all), (9, Query_answered 2 (Inr [sample_leg]))]"
  have "events_ok sample_ids (sample_loads @ (9, Remove_failed (''EURUSD'', CTRADER_VENUE) ''no chain'') # ?later)"
    by code_simp
  moreover have "list_all (\<lambda>(ts, ev). \<not> allows_again ''EURUSD'' ev) ?later" by code_simp
  ultimately show ?thesis using dropped_instrument_stays_out [OF _ _ refl] by blast
qed

text \<open>
  A load can always tell why a symbol of it failed: in no run does one end because the failure of a
  name it could not build is not recorded, although a load, a conversion or a drop of the same name may
  end while it waits.
\<close>

lemma failures_can_always_be_told:
  assumes "events_ok f evs"
  shows "(i, Load_failed (Key_error name)) \<notin> set (pv_ended (run_loads N evs (new_provider overrides fail_on_error)))"
proof -
  have "ended_ok (run_loads N evs (new_provider overrides fail_on_error))"
    using reached_provider [OF assms] by (simp add: prov_ok_def)
  then show ?thesis by (auto simp: ended_ok_def is_key_error_def)
qed

lemma failures_can_always_be_told_witness:
  "(3, Load_failed (Key_error ''EURUSD'')) \<notin> set (pv_ended (run_loads sample_nautilus (sample_loads @
     [(9, Remove_failed (''EURUSD'', CTRADER_VENUE) ''no chain''), (9, Load_call Load_all)]) (new_provider [] False)))"
proof -
  have "events_ok sample_ids (sample_loads @
      [(9, Remove_failed (''EURUSD'', CTRADER_VENUE) ''no chain''), (9, Load_call Load_all)])"
    by code_simp
  then show ?thesis by (rule failures_can_always_be_told)
qed

subsection \<open>Conversions\<close>

lemma build_keeps_ids:
  assumes "fst (build_or_fail N ts recording spec light s) = Inr instrument"
    and "x \<noteq> ls_symbolId light"
  shows "map_of (pv_by_symbol_id (snd (build_or_fail N ts recording spec light s))) x = map_of (pv_by_symbol_id s) x"
  using assms built_name
  by (auto simp: build_or_fail_def Let_def finish_load_def dict_simps split: sum.splits option.splits if_splits)

lemma build_legs_loaded:
  assumes "tables_ok f s" and "\<forall>leg\<in>set legs. named f leg"
    and "\<forall>x\<in>set built. map_of (pv_by_symbol_id s) (symbol_id_of x) = Some x"
    and "build_legs N ts specs legs built s = (Inr xs, s')"
  shows "map symbol_id_of xs = map symbol_id_of built @ map ls_symbolId legs \<and>
    (\<forall>x\<in>set xs. map_of (pv_by_symbol_id s') (symbol_id_of x) = Some x)"
  using assms
proof (induction legs arbitrary: built s)
  case (Cons leg legs)
  have n: "named f leg" "\<forall>l\<in>set legs. named f l" using Cons.prems(2) by simp_all
  show ?case
  proof (cases "instrument_for_symbol_id (ls_symbolId leg) s")
    case (Some existing)
    have e: "symbol_id_of existing = ls_symbolId leg" "map_of (pv_by_symbol_id s) (ls_symbolId leg) = Some existing"
      using Some Cons.prems(1) unfolding tables_ok_def instrument_for_symbol_id_def by blast+
    have b: "\<forall>x\<in>set (built @ [existing]). map_of (pv_by_symbol_id s) (symbol_id_of x) = Some x"
      using Cons.prems(3) e by simp
    have "build_legs N ts specs legs (built @ [existing]) s = (Inr xs, s')" using Cons.prems(4) Some by simp
    from Cons.IH [OF Cons.prems(1) n(2) b this] show ?thesis using e(1) by simp
  next
    case None
    let ?b = "build_or_fail N ts True (map_of specs (ls_symbolId leg)) leg s"
    obtain instrument where i: "fst ?b = Inr instrument"
      and go: "build_legs N ts specs legs (built @ [instrument]) (snd ?b) = (Inr xs, s')"
      using Cons.prems(4) None by (auto simp: prod.case_eq_if split: sum.splits)
    note r = build_result [OF i]
    have "symbol_id_of x \<noteq> ls_symbolId leg" if "x \<in> set built" for x
      using Cons.prems(3) that None by (auto simp: instrument_for_symbol_id_def)
    then have b: "\<forall>x\<in>set (built @ [instrument]). map_of (pv_by_symbol_id (snd ?b)) (symbol_id_of x) = Some x"
      using Cons.prems(3) r build_keeps_ids [OF i] by auto
    from Cons.IH [OF build_tables [OF Cons.prems(1) n(1)] n(2) b go] show ?thesis using r by simp
  qed
qed simp

text \<open>
  A conversion that succeeds gives one instrument for each leg of its chain, in the chain's order,
  each with the leg's symbol id and loaded when the conversion returns, whether it was there or was built.
\<close>

lemma conversion_gives_its_legs_loaded:
  assumes "events_ok f evs" and "\<forall>leg\<in>set chain1. named f leg"
    and "build_legs N ts specs chain1 [] (run_loads N evs (new_provider overrides fail_on_error)) = (Inr xs, s')"
  shows "map symbol_id_of xs = map ls_symbolId chain1 \<and>
    (\<forall>x\<in>set xs. instrument_for_symbol_id (symbol_id_of x) s' = Some x)"
proof -
  have "tables_ok f (run_loads N evs (new_provider overrides fail_on_error))"
    using reached_provider [OF assms(1)] by (simp add: prov_ok_def)
  from build_legs_loaded [OF this assms(2) _ assms(3)] show ?thesis by (simp add: instrument_for_symbol_id_def)
qed

lemma conversion_gives_its_legs_loaded_witness:
  "\<exists>xs s'. build_legs sample_nautilus 9 [] [sample_light] [] (run_loads sample_nautilus sample_loads (new_provider [] False)) =
     (Inr xs, s') \<and> map symbol_id_of xs = [1]"
proof -
  let ?s = "run_loads sample_nautilus sample_loads (new_provider [] False)"
  have "instrument_for_symbol_id 1 ?s \<noteq> None" by code_simp
  then obtain instrument where "instrument_for_symbol_id (ls_symbolId sample_light) ?s = Some instrument"
    by (auto simp: sample_light_def)
  then have b: "build_legs sample_nautilus 9 [] [sample_light] [] ?s = (Inr [instrument], ?s)" by simp
  have "events_ok sample_ids sample_loads" by code_simp
  moreover have "\<forall>leg\<in>set [sample_light]. named sample_ids leg" by code_simp
  ultimately have "map symbol_id_of [instrument] = map ls_symbolId [sample_light]"
    using conversion_gives_its_legs_loaded [OF _ _ b] by blast
  then show ?thesis using b by (auto simp: sample_light_def)
qed

end
