(* ===== verification/Delivery.thy ===== *)
theory Delivery
  imports Execution_Reports Operations_In_Flight
begin

text \<open>
  \<open>execution.py\<close>, the delivery of what the execution client learned to Nautilus. Nautilus queues an
  order event and applies it later, but takes a report or an activity at once; so a report or an
  activity waits in the outbox, and everything after it, until the events sent before it were applied
  or their wait expired. The delivery task is cut where it waits; its wake-ups, the timers and what
  Nautilus does meanwhile are the events of \<open>delivery_step\<close>. Nautilus is the parameter \<open>nautilus_node\<close>:
  what its cache holds after it took a report. An answer to a query and a mass status do not pass the
  outbox: they are sent at once, whatever Nautilus has not applied yet. \<open>dl_log\<close> is a ghost log of what
  was delivered, of what was sent past the outbox, and of the waits that ended, \<open>dl_in\<close> and \<open>dl_out\<close> of what was to be delivered and what was. Log lines and the
  time of the node's clock are left out.
\<close>

subsection \<open>What Nautilus holds and is sent\<close>

text \<open>An order of Nautilus' cache; \<open>co_events\<close> are the ids of the events applied to it.\<close>

record cached_order =
  co_held :: held_order
  co_venue_order_id :: "string option"
  co_instrument_id :: string
  co_closed :: bool
  co_events :: "nat list"

record node_cache =
  nc_orders :: "(string, cached_order) dict"
  nc_by_venue_id :: "(string, string) dict"

datatype news =
    N_submitted
  | N_accepted "string option" int
  | N_updated "string option" decimal "decimal option" "decimal option" int
  | N_filled "string option" string string ProtoOATradeSide OrderType decimal decimal money int
  | N_canceled "string option" int
  | N_rejected string int
  | N_expired "string option" int
  | N_cancel_rejected string
  | N_modify_rejected string

text \<open>An order event is named by a number, fresh for each event made.\<close>

datatype message =
    Order_news nat string news
  | Status_report OrderStatusReport
  | Fill_message FillReport
  | Account_activity Activity
  | Mass_message mass_status

record nautilus_node =
  nn_values :: report_values
  nn_accepts_order :: "OrderStatusReport \<Rightarrow> bool"
  nn_instrument_for :: "int \<Rightarrow> traded option"
  nn_find :: "string \<Rightarrow> traded option"
  nn_currency :: string
  nn_takes_report :: "OrderStatusReport \<Rightarrow> node_cache \<Rightarrow> node_cache"
  nn_takes_fill :: "FillReport \<Rightarrow> node_cache \<Rightarrow> node_cache"
  nn_takes_mass :: "mass_status \<Rightarrow> node_cache \<Rightarrow> node_cache"

subsection \<open>State\<close>

text \<open>A record, an open order's report sent again, or an event of the client's own that was held.\<close>

datatype item =
    Item Record
  | Resent OrderStatusReport
  | Deferred nat string news

datatype wait_end = Applied | Expired | Detached

datatype delivery_note = Sent message | Sent_past_outbox message | Wait_over nat wait_end

datatype delivery_task = Task_ready | Task_waiting

record delivery =
  dl_cache :: node_cache
  dl_attached :: bool
  dl_unapplied :: "(nat \<times> string) list"
  dl_outbox :: "item list"
  dl_task :: "delivery_task option"
  dl_delivering :: bool
  dl_protection_waits :: "int list"
  dl_level_tasks :: "(int \<times> string option \<times> string option) list"
  dl_entry_tasks :: "int list"
  dl_next :: nat
  dl_log :: "delivery_note list"
  dl_in :: "item list"
  dl_out :: "item list"

definition new_delivery :: "node_cache \<Rightarrow> delivery" where
  "new_delivery cache =
     \<lparr>dl_cache = cache, dl_attached = True, dl_unapplied = [], dl_outbox = [], dl_task = None,
      dl_delivering = False, dl_protection_waits = [], dl_level_tasks = [], dl_entry_tasks = [],
      dl_next = 0, dl_log = [], dl_in = [], dl_out = []\<rparr>"

definition dl_noted :: "delivery_note \<Rightarrow> delivery \<Rightarrow> delivery" where
  "dl_noted x d = d\<lparr>dl_log := dl_log d @ [x]\<rparr>"

subsection \<open>Waiting for events to be applied\<close>

text \<open>\<open>_settled\<close>: an event whose order Nautilus does not hold can never be applied.\<close>

definition event_settled :: "node_cache \<Rightarrow> nat \<times> string \<Rightarrow> bool" where
  "event_settled cache tracked =
     (case tracked of (event_id, client_order_id) \<Rightarrow>
        (case map_of (nc_orders cache) client_order_id of
           None \<Rightarrow> True | Some order \<Rightarrow> event_id \<in> set (co_events order)))"

definition forget :: "wait_end \<Rightarrow> nat \<Rightarrow> delivery \<Rightarrow> delivery" where
  "forget why event_id d =
     dl_noted (Wait_over event_id why)
       (d\<lparr>dl_unapplied := AList.delete event_id (dl_unapplied d),
          dl_task := (if dl_task d = Some Task_waiting then Some Task_ready else dl_task d)\<rparr>)"

definition check_unapplied :: "delivery \<Rightarrow> delivery" where
  "check_unapplied d =
     fold (\<lambda>tracked d. if event_settled (dl_cache d) tracked then forget Applied (fst tracked) d else d)
       (dl_unapplied d) d"

definition on_order_event_published :: "nat \<Rightarrow> delivery \<Rightarrow> delivery" where
  "on_order_event_published event_id d =
     (case map_of (dl_unapplied d) event_id of
        None \<Rightarrow> d
      | Some client_order_id \<Rightarrow>
          if event_settled (dl_cache d) (event_id, client_order_id) then forget Applied event_id d else d)"

definition expire :: "nat \<Rightarrow> delivery \<Rightarrow> delivery" where
  "expire event_id d =
     (case map_of (dl_unapplied d) event_id of None \<Rightarrow> d | Some _ \<Rightarrow> forget Expired event_id d)"

subsection \<open>Sending\<close>

text \<open>\<open>_track\<close> and the send; Nautilus' queue takes the event.\<close>

definition send_event :: "nat \<Rightarrow> string \<Rightarrow> news \<Rightarrow> delivery \<Rightarrow> delivery" where
  "send_event event_id client_order_id n d =
     dl_noted (Sent (Order_news event_id client_order_id n))
       (d\<lparr>dl_unapplied := dl_unapplied d @ [(event_id, client_order_id)]\<rparr>)"

text \<open>\<open>_send_order_event\<close>, for an event just made: one of the client's own waits behind the outbox.\<close>

definition send_order_event :: "string \<Rightarrow> news \<Rightarrow> delivery \<Rightarrow> delivery" where
  "send_order_event client_order_id n d =
     (let event_id = dl_next d; d = d\<lparr>dl_next := Suc event_id\<rparr> in
      if dl_outbox d \<noteq> [] \<and> \<not> dl_delivering d
      then d\<lparr>dl_outbox := dl_outbox d @ [Deferred event_id client_order_id n]\<rparr>
      else send_event event_id client_order_id n d)"

definition send_status_report :: "nautilus_node \<Rightarrow> OrderStatusReport \<Rightarrow> delivery \<Rightarrow> delivery" where
  "send_status_report N report d =
     dl_noted (Sent (Status_report report)) (d\<lparr>dl_cache := nn_takes_report N report (dl_cache d)\<rparr>)"

definition send_fill_report :: "nautilus_node \<Rightarrow> FillReport \<Rightarrow> delivery \<Rightarrow> delivery" where
  "send_fill_report N report d =
     dl_noted (Sent (Fill_message report)) (d\<lparr>dl_cache := nn_takes_fill N report (dl_cache d)\<rparr>)"

text \<open>
  Sent past the outbox: the report \<open>_query_order\<close> found, if \<open>_answer\<close> has not sent it, and the mass
  status of a reconnect's pass or of an answered order with fills.
\<close>

definition send_query_answer ::
    "nautilus_node \<Rightarrow> (OrderStatusReport option \<times> bool) \<Rightarrow> delivery \<Rightarrow> delivery" where
  "send_query_answer N answer d =
     (case answer of
        (Some report, False) \<Rightarrow>
          dl_noted (Sent_past_outbox (Status_report report))
            (d\<lparr>dl_cache := nn_takes_report N report (dl_cache d)\<rparr>)
      | _ \<Rightarrow> d)"

definition send_mass_status :: "nautilus_node \<Rightarrow> mass_status \<Rightarrow> delivery \<Rightarrow> delivery" where
  "send_mass_status N status d =
     dl_noted (Sent_past_outbox (Mass_message status))
       (d\<lparr>dl_cache := nn_takes_mass N status (dl_cache d)\<rparr>)"

subsection \<open>Records as Nautilus events and reports\<close>

definition order_by_venue_id :: "node_cache \<Rightarrow> string \<Rightarrow> cached_order option" where
  "order_by_venue_id cache venue_order_id =
     Option.bind (map_of (nc_by_venue_id cache) venue_order_id) (map_of (nc_orders cache))"

definition known_id :: "node_cache \<Rightarrow> string \<Rightarrow> string option" where
  "known_id cache venue_order_id =
     map_option (\<lambda>order. hd_client_order_id (co_held order)) (order_by_venue_id cache venue_order_id)"

definition nautilus_order :: "node_cache \<Rightarrow> OrderEvent \<Rightarrow> cached_order option" where
  "nautilus_order cache rec1 =
     (case oe_client_order_id rec1 of
        Some client_order_id \<Rightarrow> map_of (nc_orders cache) client_order_id
      | None \<Rightarrow>
          (case oe_venue_order_id rec1 of
             None \<Rightarrow> None | Some venue_order_id \<Rightarrow> order_by_venue_id cache venue_order_id))"

text \<open>
  The branches of \<open>_order_event\<close>, for an order of the node: the events it makes, up to a value that
  raises. An instrument no longer loaded raises where a value is read.
\<close>

definition with_instrument :: "traded option \<Rightarrow> (traded \<Rightarrow> report_error + 'a) \<Rightarrow> 'a option" where
  "with_instrument ins read =
     (case ins of None \<Rightarrow> None | Some i \<Rightarrow> (case read i of Inl _ \<Rightarrow> None | Inr v \<Rightarrow> Some v))"

definition accepted_news ::
    "nautilus_node \<Rightarrow> cached_order \<Rightarrow> OrderEvent \<Rightarrow> string option \<Rightarrow> int \<Rightarrow> news list" where
  "accepted_news N order rec1 venue_order_id ts =
     N_accepted venue_order_id ts #
       (case oe_quantity rec1 of
          None \<Rightarrow> []
        | Some units \<Rightarrow>
            if units = hd_quantity (co_held order) then []
            else (case with_instrument (nn_find N (co_instrument_id order)) (er_quantity (nn_values N) units) of
                    None \<Rightarrow> [] | Some q \<Rightarrow> [N_updated venue_order_id q None None ts]))"

definition filled_news ::
    "nautilus_node \<Rightarrow> cached_order \<Rightarrow> OrderEvent \<Rightarrow> string option \<Rightarrow> int \<Rightarrow> news list" where
  "filled_news N order rec1 venue_order_id ts =
     (case oe_fill rec1 of
        None \<Rightarrow> []
      | Some fill \<Rightarrow>
          (case with_instrument (nn_find N (co_instrument_id order))
                  (\<lambda>ins. bind_result (er_quantity (nn_values N) (fill_units fill) ins) (\<lambda>units.
                         bind_result (er_price (nn_values N) (fill_price fill) ins) (\<lambda>px.
                         bind_result (commission_of (nn_values N) fill (nn_currency N) ins) (\<lambda>charge.
                         Inr (units, px, charge))))) of
             None \<Rightarrow> []
           | Some (units, px, charge) \<Rightarrow>
               [N_filled venue_order_id (fill_venue_position_id fill) (trade_id fill) (fill_side fill)
                  (hd_order_type (co_held order)) units px charge ts]))"

definition updated_news ::
    "nautilus_node \<Rightarrow> cached_order \<Rightarrow> OrderEvent \<Rightarrow> string option \<Rightarrow> int \<Rightarrow> news list" where
  "updated_news N order rec1 venue_order_id ts =
     (let ins = nn_find N (co_instrument_id order);
          optional_price = (\<lambda>x. case x of
             None \<Rightarrow> Some None
           | Some p \<Rightarrow> map_option Some (with_instrument ins (er_price (nn_values N) p)))
      in case (case oe_quantity rec1 of
                 None \<Rightarrow> Some (hd_quantity (co_held order))
               | Some units \<Rightarrow> with_instrument ins (er_quantity (nn_values N) units)) of
           None \<Rightarrow> []
         | Some units \<Rightarrow>
             (case (optional_price (oe_price rec1), optional_price (oe_trigger_price rec1)) of
                (Some limit_price, Some trigger) \<Rightarrow> [N_updated venue_order_id units limit_price trigger ts]
              | _ \<Rightarrow> []))"

definition news_of :: "nautilus_node \<Rightarrow> cached_order \<Rightarrow> OrderEvent \<Rightarrow> news list" where
  "news_of N order rec1 =
     (let venue_order_id = (case oe_venue_order_id rec1 of
            Some v \<Rightarrow> if v = '''' then co_venue_order_id order else Some v
          | None \<Rightarrow> co_venue_order_id order);
          ts = nanos (oe_ts_ms rec1)
      in case oe_kind rec1 of
           Ev_ACCEPTED \<Rightarrow> accepted_news N order rec1 venue_order_id ts
         | Ev_FILLED \<Rightarrow> filled_news N order rec1 venue_order_id ts
         | Ev_UPDATED \<Rightarrow> updated_news N order rec1 venue_order_id ts
         | Ev_CANCELED \<Rightarrow> [N_canceled venue_order_id ts]
         | Ev_REJECTED \<Rightarrow>
             [N_rejected (case oe_reason rec1 of
                            Some r \<Rightarrow> if r = '''' then ''rejected by the venue'' else r
                          | None \<Rightarrow> ''rejected by the venue'') ts]
         | Ev_EXPIRED \<Rightarrow> [N_expired venue_order_id ts])"

text \<open>\<open>_external_update\<close>: the news of an external order Nautilus holds, as a report.\<close>

definition external_update :: "nautilus_node \<Rightarrow> OrderEvent \<Rightarrow> cached_order \<Rightarrow> delivery \<Rightarrow> delivery" where
  "external_update N rec1 order d =
     (let ins = nn_find N (co_instrument_id order) in
      if oe_kind rec1 = Ev_FILLED then
        (case (oe_fill rec1, oe_venue_order_id rec1) of
           (Some fill, Some venue_order_id) \<Rightarrow>
             (case with_instrument ins (\<lambda>i. fill_report (nn_values N) fill venue_order_id i (nn_currency N)
                      (Some (hd_client_order_id (co_held order)))) of
                None \<Rightarrow> d | Some report \<Rightarrow> send_fill_report N report d)
         | _ \<Rightarrow> d)
      else if co_closed order then d
      else (case with_instrument ins (held_order_report (nn_values N) (nn_accepts_order N) (co_held order) rec1) of
              None \<Rightarrow> d | Some report \<Rightarrow> send_status_report N report d))"

text \<open>
  \<open>_external_order\<close>: Nautilus takes each report at once, so what it holds the order under is looked up
  for each. A fill that raises ends the record.
\<close>

fun external_fills :: "nautilus_node \<Rightarrow> string \<Rightarrow> traded \<Rightarrow> Fill list \<Rightarrow> delivery \<Rightarrow> delivery" where
  "external_fills N venue_order_id ins [] d = d"
| "external_fills N venue_order_id ins (fill # fills) d =
     (case fill_report (nn_values N) fill venue_order_id ins (nn_currency N)
             (known_id (dl_cache d) venue_order_id) of
        Inl _ \<Rightarrow> d
      | Inr report \<Rightarrow> external_fills N venue_order_id ins fills (send_fill_report N report d))"

definition external_order :: "nautilus_node \<Rightarrow> ExternalOrder \<Rightarrow> delivery \<Rightarrow> delivery" where
  "external_order N rec1 d =
     (case nn_instrument_for N (xo_symbol_id rec1) of
        None \<Rightarrow> d
      | Some ins \<Rightarrow>
          (case order_status_report (nn_values N) (nn_accepts_order N) rec1 ins
                  (known_id (dl_cache d) (xo_venue_order_id rec1)) of
             Inl _ \<Rightarrow> d
           | Inr report \<Rightarrow>
               external_fills N (xo_venue_order_id rec1) ins (xo_fills rec1) (send_status_report N report d)))"

text \<open>\<open>_on_protection\<close>: one wait of a position at a time, and none once detached.\<close>

definition await_protection :: "int \<Rightarrow> delivery \<Rightarrow> delivery" where
  "await_protection broker_position d =
     (if broker_position \<in> set (dl_protection_waits d) \<or> \<not> dl_attached d then d
      else d\<lparr>dl_protection_waits := dl_protection_waits d @ [broker_position]\<rparr>)"

definition tell_order_event :: "nautilus_node \<Rightarrow> OrderEvent \<Rightarrow> delivery \<Rightarrow> delivery" where
  "tell_order_event N rec1 d =
     (case nautilus_order (dl_cache d) rec1 of
        None \<Rightarrow> d
      | Some order \<Rightarrow>
          (case oe_client_order_id rec1 of
             None \<Rightarrow> external_update N rec1 order d
           | Some client_order_id \<Rightarrow>
               fold (send_order_event (hd_client_order_id (co_held order))) (news_of N order rec1) d))"

definition handle_record :: "nautilus_node \<Rightarrow> Record \<Rightarrow> delivery \<Rightarrow> delivery" where
  "handle_record N rec1 d =
     (case rec1 of
        R_OrderEvent oe \<Rightarrow> tell_order_event N oe d
      | R_ExternalOrder xo \<Rightarrow> external_order N xo d
      | R_Activity a \<Rightarrow> dl_noted (Sent (Account_activity a)) d
      | R_AwaitProtection broker_position \<Rightarrow> await_protection broker_position d
      | R_ProtectionMissing broker_position sl tp \<Rightarrow>
          d\<lparr>dl_level_tasks := dl_level_tasks d @ [(broker_position, sl, tp)]\<rparr>
      | R_Notice _ \<Rightarrow> d
      | R_EntryUnknown broker_position \<Rightarrow> d\<lparr>dl_entry_tasks := dl_entry_tasks d @ [broker_position]\<rparr>)"

subsection \<open>The outbox\<close>

definition applied_at_once :: "item \<Rightarrow> bool" where
  "applied_at_once x =
     (case x of
        Item (R_OrderEvent oe) \<Rightarrow> oe_client_order_id oe = None
      | Item (R_ExternalOrder _) \<Rightarrow> True
      | Item (R_Activity _) \<Rightarrow> True
      | Resent _ \<Rightarrow> True
      | _ \<Rightarrow> False)"

definition hand_over :: "nautilus_node \<Rightarrow> item \<Rightarrow> delivery \<Rightarrow> delivery" where
  "hand_over N x d =
     (let d = d\<lparr>dl_out := dl_out d @ [x]\<rparr> in
      case x of
        Item rec1 \<Rightarrow> handle_record N rec1 d
      | Resent report \<Rightarrow> send_status_report N report d
      | Deferred event_id client_order_id n \<Rightarrow> send_event event_id client_order_id n d)"

text \<open>\<open>_handle_records\<close>, for one item; the client's own bookkeeping comes before it.\<close>

definition deliver_item :: "nautilus_node \<Rightarrow> item \<Rightarrow> delivery \<Rightarrow> delivery" where
  "deliver_item N x d =
     (let d = d\<lparr>dl_in := dl_in d @ [x]\<rparr>;
          d = (if applied_at_once x then check_unapplied d else d)
      in if dl_outbox d \<noteq> [] \<or> applied_at_once x \<and> dl_unapplied d \<noteq> []
         then d\<lparr>dl_outbox := dl_outbox d @ [x],
                dl_task := (if dl_task d = None then Some Task_ready else dl_task d)\<rparr>
         else hand_over N x d)"

text \<open>
  The loops of \<open>_deliver_outbox\<close> from a turn of the task on: up to a report or an activity behind
  events that are not yet applied, which the task then waits for.
\<close>

fun run_outbox :: "nautilus_node \<Rightarrow> item list \<Rightarrow> delivery \<Rightarrow> delivery" where
  "run_outbox N [] d = d\<lparr>dl_outbox := [], dl_task := None\<rparr>"
| "run_outbox N (x # xs) d =
     (let d = (if applied_at_once x \<and> dl_unapplied d \<noteq> [] then check_unapplied d else d) in
      if applied_at_once x \<and> dl_unapplied d \<noteq> []
      then d\<lparr>dl_outbox := x # xs, dl_task := Some Task_waiting\<rparr>
      else run_outbox N xs
             ((hand_over N x (d\<lparr>dl_outbox := xs, dl_delivering := True\<rparr>))\<lparr>dl_delivering := False\<rparr>))"

definition task_turn :: "nautilus_node \<Rightarrow> delivery \<Rightarrow> delivery" where
  "task_turn N d =
     (if dl_task d \<noteq> Some Task_ready then d
      else
        let d = check_unapplied d
        in if dl_unapplied d \<noteq> [] then d\<lparr>dl_task := Some Task_waiting\<rparr>
           else run_outbox N (dl_outbox d) d)"

text \<open>
  An event the client makes itself, such as the answer to a command. In \<open>dl_in\<close> and \<open>dl_out\<close> it counts
  as the item it is when it has to wait.
\<close>

definition own_event :: "string \<Rightarrow> news \<Rightarrow> delivery \<Rightarrow> delivery" where
  "own_event client_order_id n d =
     (let x = Deferred (dl_next d) client_order_id n; d = d\<lparr>dl_in := dl_in d @ [x]\<rparr>
      in send_order_event client_order_id n
           (if dl_outbox d = [] then d\<lparr>dl_out := dl_out d @ [x]\<rparr> else d))"

text \<open>
  \<open>_detach\<close>: the records held are dropped, since a rebuild replaces them, but not the client's own
  events; nothing is waited for any more, nor are the events it sends here.
\<close>

fun send_held :: "item list \<Rightarrow> delivery \<Rightarrow> delivery" where
  "send_held [] d = d"
| "send_held (Deferred event_id client_order_id n # xs) d =
     send_held xs
       (dl_noted (Wait_over event_id Detached) (dl_noted (Sent (Order_news event_id client_order_id n)) d))"
| "send_held (_ # xs) d = send_held xs d"

definition detach_delivery :: "delivery \<Rightarrow> delivery" where
  "detach_delivery d =
     send_held (dl_outbox d)
       ((fold (\<lambda>tracked. forget Detached (fst tracked)) (dl_unapplied d) d)
          \<lparr>dl_outbox := [], dl_task := None, dl_unapplied := [], dl_attached := False,
           dl_protection_waits := []\<rparr>)"

subsection \<open>Steps\<close>

datatype delivery_event =
    New_item item
  | Own_event string news
  | Published nat
  | Expires nat
  | Task_turn
  | Protection_waited int
  | Query_answered "OrderStatusReport option \<times> bool"
  | Mass_status_built mass_status
  | Detach
  | Attach
  | Node_changes "node_cache \<Rightarrow> node_cache"

text \<open>
  Only a record or a report is a new item. Nautilus changes its cache as it likes: it applies events,
  and takes orders in and drops them. A detached client does not hear of what was published.
\<close>

definition delivery_step :: "nautilus_node \<Rightarrow> delivery_event \<Rightarrow> delivery \<Rightarrow> delivery" where
  "delivery_step N ev d =
     (case ev of
        New_item x \<Rightarrow> (case x of Deferred _ _ _ \<Rightarrow> d | _ \<Rightarrow> deliver_item N x d)
      | Own_event client_order_id n \<Rightarrow> own_event client_order_id n d
      | Published event_id \<Rightarrow> if dl_attached d then on_order_event_published event_id d else d
      | Expires event_id \<Rightarrow> expire event_id d
      | Task_turn \<Rightarrow> task_turn N d
      | Protection_waited broker_position \<Rightarrow>
          d\<lparr>dl_protection_waits := remove1 broker_position (dl_protection_waits d)\<rparr>
      | Query_answered answer \<Rightarrow> send_query_answer N answer d
      | Mass_status_built status \<Rightarrow> send_mass_status N status d
      | Detach \<Rightarrow> detach_delivery d
      | Attach \<Rightarrow> d\<lparr>dl_attached := True\<rparr>
      | Node_changes f \<Rightarrow> d\<lparr>dl_cache := f (dl_cache d)\<rparr>)"

definition run_delivery :: "nautilus_node \<Rightarrow> delivery_event list \<Rightarrow> delivery \<Rightarrow> delivery" where
  "run_delivery N evs d = fold (delivery_step N) evs d"

end
