(* ===== verification/Delivery_Promises.thy ===== *)
theory Delivery_Promises
  imports Delivery
begin

text \<open>
  What the delivery of \<open>Delivery\<close> promises: records and the client's own events are delivered in their
  order, each once; no report or activity so delivered overtakes an event the client still waits for;
  and whatever is held is delivered, once the waits it stands behind end. Query answers and mass
  statuses, sent past the outbox, may overtake events.
\<close>

subsection \<open>What sending changes\<close>

lemma noted_fields [simp]:
  "dl_cache (dl_noted x d) = dl_cache d" "dl_unapplied (dl_noted x d) = dl_unapplied d"
  "dl_outbox (dl_noted x d) = dl_outbox d" "dl_task (dl_noted x d) = dl_task d"
  "dl_delivering (dl_noted x d) = dl_delivering d" "dl_in (dl_noted x d) = dl_in d"
  "dl_out (dl_noted x d) = dl_out d" "dl_log (dl_noted x d) = dl_log d @ [x]"
  "dl_attached (dl_noted x d) = dl_attached d"
  by (simp_all add: dl_noted_def)

text \<open>What stays as it is while a record is handed over.\<close>

definition same_queue :: "delivery \<Rightarrow> delivery \<Rightarrow> bool" where
  "same_queue d e \<longleftrightarrow>
     dl_outbox e = dl_outbox d \<and> dl_task e = dl_task d \<and> dl_delivering e = dl_delivering d
     \<and> dl_in e = dl_in d \<and> dl_out e = dl_out d"

lemma same_queue_refl [simp]: "same_queue d d"
  by (simp add: same_queue_def)

lemma same_queue_trans: "same_queue d e \<Longrightarrow> same_queue e f \<Longrightarrow> same_queue d f"
  by (simp add: same_queue_def)

lemma send_event_queue [simp]: "same_queue d (send_event i c n d)"
  by (simp add: same_queue_def send_event_def)

lemma send_status_report_queue [simp]: "same_queue d (send_status_report N r d)"
  by (simp add: same_queue_def send_status_report_def)

lemma send_fill_report_queue [simp]: "same_queue d (send_fill_report N r d)"
  by (simp add: same_queue_def send_fill_report_def)

text \<open>A record is handed over with an empty outbox or by the delivery task.\<close>

definition handing :: "delivery \<Rightarrow> bool" where
  "handing d \<longleftrightarrow> dl_outbox d = [] \<or> dl_delivering d"

lemma handing_same: "same_queue d e \<Longrightarrow> handing e = handing d"
  by (simp add: same_queue_def handing_def)

lemma send_order_event_queue: "handing d \<Longrightarrow> same_queue d (send_order_event c n d)"
  unfolding handing_def
  by (auto simp: send_order_event_def Let_def same_queue_def send_event_def)

lemma fold_send_order_event_queue:
  "handing d \<Longrightarrow> same_queue d (fold (send_order_event c) ns d)"
proof (induction ns arbitrary: d)
  case (Cons n ns)
  have one: "same_queue d (send_order_event c n d)" by (rule send_order_event_queue [OF Cons.prems])
  show ?case
    using same_queue_trans [OF one Cons.IH] Cons.prems handing_same [OF one] by simp
qed simp

lemma external_fills_queue: "same_queue d (external_fills N v ins fills d)"
proof (induction N v ins fills d rule: external_fills.induct)
  case (2 N v ins fill fills d)
  then show ?case
    by (auto split: sum.splits intro: same_queue_trans [OF send_fill_report_queue])
qed simp

lemma external_order_queue: "same_queue d (external_order N xo d)"
  by (auto simp: external_order_def split: option.splits sum.splits
           intro: same_queue_trans [OF send_status_report_queue external_fills_queue])

lemma external_update_queue: "same_queue d (external_update N oe order d)"
  by (auto simp: external_update_def Let_def split: option.splits)

lemma handle_record_queue:
  assumes "handing d"
  shows "same_queue d (handle_record N rec1 d)"
proof (cases rec1)
  case (R_OrderEvent oe)
  then show ?thesis using assms
    by (auto simp: handle_record_def tell_order_event_def split: option.splits
             intro: external_update_queue fold_send_order_event_queue)
next
  case (R_ExternalOrder xo)
  then show ?thesis by (simp add: handle_record_def external_order_queue)
qed (simp_all add: handle_record_def same_queue_def await_protection_def)

lemma hand_over_queue:
  assumes "handing d"
  shows "same_queue (d\<lparr>dl_out := dl_out d @ [x]\<rparr>) (hand_over N x d)"
proof -
  have "handing (d\<lparr>dl_out := dl_out d @ [x]\<rparr>)" using assms by (simp add: handing_def)
  then show ?thesis
    by (cases x) (simp_all add: hand_over_def Let_def handle_record_queue)
qed

text \<open>Ending a wait leaves all but the task, which it wakes, as it is.\<close>

definition same_items :: "delivery \<Rightarrow> delivery \<Rightarrow> bool" where
  "same_items d e \<longleftrightarrow>
     dl_outbox e = dl_outbox d \<and> dl_delivering e = dl_delivering d \<and> dl_in e = dl_in d
     \<and> dl_out e = dl_out d \<and> (dl_task e = None \<longleftrightarrow> dl_task d = None)
     \<and> (dl_task d \<noteq> Some Task_waiting \<longrightarrow> dl_task e = dl_task d)
     \<and> (dl_task e = Some Task_waiting \<longrightarrow> dl_unapplied e = dl_unapplied d)"

lemma same_items_refl [simp]: "same_items d d"
  by (simp add: same_items_def)

lemma same_items_trans: "same_items d e \<Longrightarrow> same_items e f \<Longrightarrow> same_items d f"
  unfolding same_items_def by metis

lemma forget_items [simp]: "same_items d (forget why i d)"
  by (simp add: same_items_def forget_def)

lemma fold_related:
  assumes "\<And>x d. R d (f x d)" and "\<And>d. R d d" and "\<And>d e g. R d e \<Longrightarrow> R e g \<Longrightarrow> R d g"
  shows "R d (fold f xs d)"
proof (induction xs arbitrary: d)
  case (Cons x xs)
  show ?case using assms(3) [OF assms(1) Cons.IH] by simp
qed (simp add: assms(2))

lemma check_unapplied_items [simp]: "same_items d (check_unapplied d)"
  unfolding check_unapplied_def
  by (rule fold_related [where R = same_items]) (auto intro: same_items_trans)

lemma on_order_event_published_items [simp]: "same_items d (on_order_event_published i d)"
  by (simp add: on_order_event_published_def split: option.splits)

lemma expire_items [simp]: "same_items d (expire i d)"
  by (simp add: expire_def split: option.splits)

subsection \<open>Order\<close>

definition fifo :: "delivery \<Rightarrow> bool" where
  "fifo d \<longleftrightarrow> dl_in d = dl_out d @ dl_outbox d \<and> \<not> dl_delivering d"

text \<open>One round of the inner loop of \<open>run_outbox\<close>.\<close>

definition looked :: "item \<Rightarrow> delivery \<Rightarrow> delivery" where
  "looked x d = (if applied_at_once x \<and> dl_unapplied d \<noteq> [] then check_unapplied d else d)"

definition item_taken :: "nautilus_node \<Rightarrow> item \<Rightarrow> item list \<Rightarrow> delivery \<Rightarrow> delivery" where
  "item_taken N x xs d = (hand_over N x (d\<lparr>dl_outbox := xs, dl_delivering := True\<rparr>))\<lparr>dl_delivering := False\<rparr>"

lemma run_outbox_Cons:
  "run_outbox N (x # xs) d =
     (if applied_at_once x \<and> dl_unapplied (looked x d) \<noteq> []
      then (looked x d)\<lparr>dl_outbox := x # xs, dl_task := Some Task_waiting\<rparr>
      else run_outbox N xs (item_taken N x xs (looked x d)))"
  by (simp add: looked_def item_taken_def Let_def)

lemma looked_items [simp]: "same_items d (looked x d)"
  by (simp add: looked_def)

lemma item_taken_fields:
  "dl_outbox (item_taken N x xs d) = xs" "dl_task (item_taken N x xs d) = dl_task d"
  "dl_in (item_taken N x xs d) = dl_in d" "dl_out (item_taken N x xs d) = dl_out d @ [x]"
  "\<not> dl_delivering (item_taken N x xs d)"
proof -
  have "handing (d\<lparr>dl_outbox := xs, dl_delivering := True\<rparr>)" by (simp add: handing_def)
  from hand_over_queue [OF this, of x N]
  show "dl_outbox (item_taken N x xs d) = xs" "dl_task (item_taken N x xs d) = dl_task d"
    "dl_in (item_taken N x xs d) = dl_in d" "dl_out (item_taken N x xs d) = dl_out d @ [x]"
    "\<not> dl_delivering (item_taken N x xs d)"
    by (simp_all add: item_taken_def same_queue_def)
qed

lemma run_outbox_fifo:
  "\<not> dl_delivering d \<Longrightarrow>
     dl_in (run_outbox N xs d) = dl_in d
     \<and> dl_out (run_outbox N xs d) @ dl_outbox (run_outbox N xs d) = dl_out d @ xs
     \<and> \<not> dl_delivering (run_outbox N xs d)"
proof (induction xs arbitrary: d)
  case (Cons x xs)
  have "same_items d (looked x d)" by simp
  then show ?case
    using Cons.prems Cons.IH [of "item_taken N x xs (looked x d)"]
    by (simp add: run_outbox_Cons item_taken_fields same_items_def del: run_outbox.simps)
qed simp

lemma same_items_fifo: "same_items d e \<Longrightarrow> fifo d \<Longrightarrow> fifo e"
  by (simp add: same_items_def fifo_def)

lemma task_turn_fifo: "fifo d \<Longrightarrow> fifo (task_turn N d)"
  using same_items_fifo [OF check_unapplied_items, of d]
    run_outbox_fifo [of "check_unapplied d" N "dl_outbox (check_unapplied d)"]
  by (simp add: task_turn_def Let_def fifo_def)

text \<open>What \<open>deliver_item\<close> looks at first.\<close>

definition arrived :: "item \<Rightarrow> delivery \<Rightarrow> delivery" where
  "arrived x d = (if applied_at_once x then check_unapplied (d\<lparr>dl_in := dl_in d @ [x]\<rparr>)
                  else d\<lparr>dl_in := dl_in d @ [x]\<rparr>)"

lemma deliver_item_arrived:
  "deliver_item N x d =
     (if dl_outbox (arrived x d) \<noteq> [] \<or> applied_at_once x \<and> dl_unapplied (arrived x d) \<noteq> []
      then (arrived x d)\<lparr>dl_outbox := dl_outbox (arrived x d) @ [x],
             dl_task := (if dl_task (arrived x d) = None then Some Task_ready else dl_task (arrived x d))\<rparr>
      else hand_over N x (arrived x d))"
  unfolding deliver_item_def arrived_def Let_def by (rule refl)

lemma arrived_items: "same_items (d\<lparr>dl_in := dl_in d @ [x]\<rparr>) (arrived x d)"
  by (simp add: arrived_def)

lemma deliver_item_fifo:
  assumes "fifo d"
  shows "fifo (deliver_item N x d)"
proof (cases "dl_outbox (arrived x d) \<noteq> [] \<or> applied_at_once x \<and> dl_unapplied (arrived x d) \<noteq> []")
  case True
  then show ?thesis using arrived_items [of d x] assms
    by (simp add: deliver_item_arrived fifo_def same_items_def)
next
  case False
  then have "same_queue ((arrived x d)\<lparr>dl_out := dl_out (arrived x d) @ [x]\<rparr>) (hand_over N x (arrived x d))"
    by (intro hand_over_queue) (simp add: handing_def)
  then show ?thesis using arrived_items [of d x] assms False
    by (simp add: deliver_item_arrived fifo_def same_items_def same_queue_def)
qed

lemma own_event_fifo: "fifo d \<Longrightarrow> fifo (own_event c n d)"
  by (auto simp: own_event_def send_order_event_def Let_def fifo_def send_event_def)

text \<open>What is sent past the outbox touches only Nautilus' cache and the log.\<close>

definition past_outbox :: "delivery \<Rightarrow> delivery \<Rightarrow> bool" where
  "past_outbox d e \<longleftrightarrow> same_queue d e \<and> dl_unapplied e = dl_unapplied d \<and>
     (\<exists>xs. dl_log e = dl_log d @ xs \<and> (\<forall>x\<in>set xs. \<exists>m. x = Sent_past_outbox m) \<and> length xs \<le> 1)"

lemma query_answer_past_outbox: "past_outbox d (send_query_answer N answer d)"
  by (auto simp: send_query_answer_def past_outbox_def same_queue_def split: prod.splits option.splits bool.splits)

lemma mass_status_past_outbox: "past_outbox d (send_mass_status N status d)"
  by (simp add: send_mass_status_def past_outbox_def same_queue_def)

lemma past_outbox_fifo: "past_outbox d e \<Longrightarrow> fifo d \<Longrightarrow> fifo e"
  by (simp add: past_outbox_def same_queue_def fifo_def)

lemma delivery_step_fifo:
  assumes "ev \<noteq> Detach" and "fifo d"
  shows "fifo (delivery_step N ev d)"
proof (cases ev)
  case (New_item x)
  then show ?thesis by (cases x) (simp_all add: delivery_step_def deliver_item_fifo assms(2))
next
  case (Published i)
  then show ?thesis
    using same_items_fifo [OF on_order_event_published_items assms(2)] assms(2)
    by (simp add: delivery_step_def)
next
  case (Expires i)
  then show ?thesis using same_items_fifo [OF expire_items assms(2)] by (simp add: delivery_step_def)
next
  case (Own_event c n)
  then show ?thesis by (simp add: delivery_step_def own_event_fifo assms(2))
next
  case Task_turn
  then show ?thesis by (simp add: delivery_step_def task_turn_fifo assms(2))
next
  case (Query_answered answer)
  then show ?thesis using past_outbox_fifo [OF query_answer_past_outbox assms(2)]
    by (simp add: delivery_step_def)
next
  case (Mass_status_built status)
  then show ?thesis using past_outbox_fifo [OF mass_status_past_outbox assms(2)]
    by (simp add: delivery_step_def)
qed (use assms in \<open>simp_all add: delivery_step_def fifo_def\<close>)

text \<open>
  C13: Delivery keeps the order and loses nothing. In every run in which the client is not detached,
  whatever Nautilus does and however records, reports, the client's own events, applied events,
  expiries and turns of the delivery task interleave, what was to be delivered is what was delivered,
  in the same order and each once, followed by what the outbox holds.
\<close>

theorem delivered_in_order:
  assumes "Detach \<notin> set evs"
  shows "dl_in (run_delivery N evs (new_delivery cache)) =
           dl_out (run_delivery N evs (new_delivery cache)) @ dl_outbox (run_delivery N evs (new_delivery cache))"
proof -
  have "fifo d \<Longrightarrow> fifo (run_delivery N evs d)" for d
    using assms
  proof (induction evs arbitrary: d)
    case (Cons ev evs)
    then have "fifo (delivery_step N ev d)" by (intro delivery_step_fifo) auto
    with Cons show ?case by (simp add: run_delivery_def)
  qed (simp add: run_delivery_def)
  from this [of "new_delivery cache"] show ?thesis by (simp add: fifo_def new_delivery_def)
qed

subsection \<open>No report overtakes an event\<close>

definition taken_at_once :: "message \<Rightarrow> bool" where
  "taken_at_once m = (case m of Order_news _ _ _ \<Rightarrow> False | _ \<Rightarrow> True)"

text \<open>Between an order event and a report or activity delivered after it, the wait for it ended.\<close>

definition nothing_overtakes :: "delivery_note list \<Rightarrow> bool" where
  "nothing_overtakes lg \<longleftrightarrow>
     (\<forall>j < length lg. \<forall>m. lg ! j = Sent m \<and> taken_at_once m \<longrightarrow>
        (\<forall>i < j. \<forall>event_id c n. lg ! i = Sent (Order_news event_id c n) \<longrightarrow>
           (\<exists>k. i < k \<and> k < j \<and> (\<exists>why. lg ! k = Wait_over event_id why))))"

text \<open>The events sent whose wait has not ended since.\<close>

definition out_after :: "delivery_note \<Rightarrow> nat set \<Rightarrow> nat set" where
  "out_after x out =
     (case x of
        Sent (Order_news event_id _ _) \<Rightarrow> insert event_id out
      | Wait_over event_id _ \<Rightarrow> out - {event_id}
      | _ \<Rightarrow> out)"

definition events_out :: "delivery_note list \<Rightarrow> nat set" where
  "events_out lg = fold out_after lg {}"

lemma events_out_snoc [simp]: "events_out (lg @ [x]) = out_after x (events_out lg)"
  by (simp add: events_out_def)

lemma event_out_or_over:
  "i < length lg \<Longrightarrow> lg ! i = Sent (Order_news event_id c n) \<Longrightarrow> event_id \<notin> events_out lg \<Longrightarrow>
     \<exists>k. i < k \<and> k < length lg \<and> (\<exists>why. lg ! k = Wait_over event_id why)"
proof (induction lg rule: rev_induct)
  case (snoc x lg)
  show ?case
  proof (cases "i = length lg")
    case True
    then show ?thesis using snoc.prems by (simp add: out_after_def)
  next
    case False
    then have i: "i < length lg" and at: "lg ! i = Sent (Order_news event_id c n)"
      using snoc.prems by (simp_all add: nth_append)
    show ?thesis
    proof (cases "event_id \<in> events_out lg")
      case True
      with snoc.prems have "\<exists>why. x = Wait_over event_id why"
        by (auto simp: out_after_def split: delivery_note.splits message.splits)
      then show ?thesis using i by (intro exI [of _ "length lg"]) auto
    next
      case False
      from snoc.IH [OF i at False] obtain k why
        where "i < k" "k < length lg" "lg ! k = Wait_over event_id why" by auto
      then show ?thesis by (intro exI [of _ k]) (auto simp: nth_append)
    qed
  qed
qed simp

lemma nothing_overtakes_snoc:
  assumes "nothing_overtakes lg"
    and "\<And>m. x = Sent m \<Longrightarrow> taken_at_once m \<Longrightarrow> events_out lg = {}"
  shows "nothing_overtakes (lg @ [x])"
  unfolding nothing_overtakes_def
proof (intro allI impI)
  fix j m i event_id c n
  assume j: "j < length (lg @ [x])" and m: "(lg @ [x]) ! j = Sent m \<and> taken_at_once m"
    and i: "i < j" and ev: "(lg @ [x]) ! i = Sent (Order_news event_id c n)"
  have il: "i < length lg" "lg ! i = Sent (Order_news event_id c n)"
    using i j ev by (auto simp: nth_append split: if_splits)
  show "\<exists>k. i < k \<and> k < j \<and> (\<exists>why. (lg @ [x]) ! k = Wait_over event_id why)"
  proof (cases "j = length lg")
    case True
    with m assms(2) have "event_id \<notin> events_out lg" by simp
    from event_out_or_over [OF il this] True show ?thesis by (auto simp: nth_append)
  next
    case False
    with j have jl: "j < length lg" by simp
    with m have mj: "lg ! j = Sent m \<and> taken_at_once m" by (simp add: nth_append)
    with assms(1) jl il(2) i
    obtain k why where "i < k" "k < j" "lg ! k = Wait_over event_id why"
      unfolding nothing_overtakes_def by blast
    then show ?thesis using jl by (intro exI [of _ k]) (simp add: nth_append)
  qed
qed

text \<open>The client waits for every event out.\<close>

definition waited_for :: "delivery \<Rightarrow> bool" where
  "waited_for d \<longleftrightarrow>
     nothing_overtakes (dl_log d) \<and> events_out (dl_log d) \<subseteq> fst ` set (dl_unapplied d)"

lemma waited_for_cong:
  "dl_log e = dl_log d \<Longrightarrow> dl_unapplied e = dl_unapplied d \<Longrightarrow> waited_for e = waited_for d"
  by (simp add: waited_for_def)

lemma waited_for_event:
  assumes "waited_for d" shows "waited_for (send_event i c n d)"
  using assms
  by (auto simp: waited_for_def send_event_def out_after_def taken_at_once_def
           intro!: nothing_overtakes_snoc)

lemma waited_for_over:
  assumes "waited_for d" shows "waited_for (forget why i d)"
proof -
  have "fst ` set (AList.delete i (dl_unapplied d)) = fst ` set (dl_unapplied d) - {i}"
    by (auto simp: AList.delete_eq)
  then show ?thesis using assms
    by (auto simp: waited_for_def forget_def out_after_def intro!: nothing_overtakes_snoc)
qed

text \<open>A report or an activity is sent with no event out.\<close>

definition none_out :: "delivery \<Rightarrow> bool" where
  "none_out d \<longleftrightarrow> waited_for d \<and> dl_unapplied d = []"

lemma none_out_sent:
  assumes "none_out d" and "taken_at_once m" and "dl_log e = dl_log d @ [Sent m]"
    and "dl_unapplied e = dl_unapplied d"
  shows "none_out e"
proof -
  have "out_after (Sent m) {} = {}"
    using assms(2) by (auto simp: out_after_def taken_at_once_def split: message.splits)
  moreover have "events_out (dl_log d) = {}" using assms(1) by (auto simp: none_out_def waited_for_def)
  ultimately show ?thesis using assms
    by (simp add: none_out_def waited_for_def nothing_overtakes_snoc)
qed

lemma none_out_status [simp]: "none_out d \<Longrightarrow> none_out (send_status_report N r d)"
  by (rule none_out_sent) (simp_all add: send_status_report_def taken_at_once_def)

lemma none_out_fill [simp]: "none_out d \<Longrightarrow> none_out (send_fill_report N r d)"
  by (rule none_out_sent) (simp_all add: send_fill_report_def taken_at_once_def)

lemma none_out_external_fills: "none_out d \<Longrightarrow> none_out (external_fills N v ins fills d)"
proof (induction N v ins fills d rule: external_fills.induct)
  case (2 N v ins fill fills d)
  then show ?case by (auto split: sum.splits)
qed simp

lemma waited_for_send_order_event: "waited_for d \<Longrightarrow> waited_for (send_order_event c n d)"
  unfolding send_order_event_def Let_def
  using waited_for_event [of "d\<lparr>dl_next := Suc (dl_next d)\<rparr>" "dl_next d" c n]
  by (simp add: waited_for_def)

lemma waited_for_fold_send: "waited_for d \<Longrightarrow> waited_for (fold (send_order_event c) ns d)"
  by (induction ns arbitrary: d) (simp_all add: waited_for_send_order_event)

lemma none_out_order_event:
  assumes "none_out d" and "oe_client_order_id oe = None"
  shows "none_out (tell_order_event N oe d)"
  using assms
  by (auto simp: tell_order_event_def external_update_def Let_def split: option.splits)

lemma none_out_external_order: "none_out d \<Longrightarrow> none_out (external_order N xo d)"
  by (auto simp: external_order_def none_out_external_fills split: option.splits sum.splits)

lemma none_outD: "none_out d \<Longrightarrow> waited_for d"
  by (simp add: none_out_def)

lemma waited_for_handle_record:
  assumes "waited_for d" and "applied_at_once (Item rec1) \<Longrightarrow> dl_unapplied d = []"
  shows "waited_for (handle_record N rec1 d)"
proof (cases rec1)
  case (R_OrderEvent oe)
  show ?thesis
  proof (cases "oe_client_order_id oe")
    case None
    with R_OrderEvent assms have "none_out d" by (simp add: none_out_def applied_at_once_def)
    then show ?thesis using R_OrderEvent None
      by (simp add: handle_record_def none_outD [OF none_out_order_event])
  next
    case (Some c)
    with R_OrderEvent assms(1) show ?thesis
      by (auto simp: handle_record_def tell_order_event_def waited_for_fold_send split: option.splits)
  qed
next
  case (R_ExternalOrder xo)
  with assms have "none_out d" by (simp add: none_out_def applied_at_once_def)
  with R_ExternalOrder show ?thesis
    by (simp add: handle_record_def none_outD [OF none_out_external_order])
next
  case (R_Activity a)
  with assms have "none_out d" by (simp add: none_out_def applied_at_once_def)
  then have "none_out (dl_noted (Sent (Account_activity a)) d)"
    by (rule none_out_sent) (simp_all add: taken_at_once_def)
  with R_Activity show ?thesis by (simp add: handle_record_def none_outD)
qed (use assms(1) in \<open>simp_all add: handle_record_def await_protection_def waited_for_def\<close>)

lemma waited_for_hand_over:
  assumes "waited_for d" and "applied_at_once x \<Longrightarrow> dl_unapplied d = []"
  shows "waited_for (hand_over N x d)"
proof -
  let ?d = "d\<lparr>dl_out := dl_out d @ [x]\<rparr>"
  have w: "waited_for ?d" using assms(1) by (simp add: waited_for_def)
  show ?thesis
  proof (cases x)
    case (Item rec1)
    then show ?thesis using w assms(2)
      by (simp add: hand_over_def Let_def waited_for_handle_record)
  next
    case (Resent r)
    with assms have "none_out ?d" by (simp add: none_out_def applied_at_once_def waited_for_def)
    with Resent show ?thesis by (simp add: hand_over_def Let_def none_outD)
  next
    case (Deferred i c n)
    then show ?thesis using w by (simp add: hand_over_def Let_def waited_for_event)
  qed
qed

lemma waited_for_check_unapplied: "waited_for d \<Longrightarrow> waited_for (check_unapplied d)"
proof -
  have "waited_for d \<Longrightarrow>
      waited_for (fold (\<lambda>t d. if event_settled (dl_cache d) t then forget Applied (fst t) d else d) ts d)" for ts
    by (induction ts arbitrary: d) (simp_all add: waited_for_over)
  then show "waited_for d \<Longrightarrow> ?thesis" by (simp add: check_unapplied_def)
qed

lemma waited_for_looked: "waited_for d \<Longrightarrow> waited_for (looked x d)"
  by (simp add: looked_def waited_for_check_unapplied)

lemma waited_for_run_outbox: "waited_for d \<Longrightarrow> waited_for (run_outbox N xs d)"
proof (induction xs arbitrary: d)
  case (Cons x xs)
  let ?d = "looked x d"
  have w: "waited_for ?d" by (rule waited_for_looked [OF Cons.prems])
  show ?case
  proof (cases "applied_at_once x \<and> dl_unapplied ?d \<noteq> []")
    case True
    then show ?thesis using w by (simp add: run_outbox_Cons waited_for_def del: run_outbox.simps)
  next
    case False
    have "waited_for (item_taken N x xs ?d)"
      using waited_for_hand_over [of "?d\<lparr>dl_outbox := xs, dl_delivering := True\<rparr>" x N] w False
      by (simp add: item_taken_def waited_for_def)
    from Cons.IH [OF this] show ?thesis by (simp only: run_outbox_Cons False if_False)
  qed
qed (simp add: waited_for_def)

lemma waited_for_task_turn: "waited_for d \<Longrightarrow> waited_for (task_turn N d)"
  using waited_for_check_unapplied [of d] waited_for_run_outbox [of "check_unapplied d" N]
  by (simp add: task_turn_def Let_def waited_for_def)

lemma waited_for_deliver_item:
  assumes "waited_for d"
  shows "waited_for (deliver_item N x d)"
proof -
  have w: "waited_for (arrived x d)"
    using assms waited_for_check_unapplied [of "d\<lparr>dl_in := dl_in d @ [x]\<rparr>"]
    by (simp add: arrived_def waited_for_def)
  then have "waited_for (hand_over N x (arrived x d))"
    if "\<not> (applied_at_once x \<and> dl_unapplied (arrived x d) \<noteq> [])"
    using that by (intro waited_for_hand_over) auto
  with w show ?thesis by (simp add: deliver_item_arrived waited_for_def)
qed

lemma waited_for_own_event: "waited_for d \<Longrightarrow> waited_for (own_event c n d)"
  unfolding own_event_def Let_def
  by (rule waited_for_send_order_event) (simp add: waited_for_def)

text \<open>Detaching ends every wait.\<close>

lemma waited_for_send_held:
  assumes "waited_for d" shows "waited_for (send_held xs d)"
  using assms
proof (induction xs d rule: send_held.induct)
  case (2 i c n xs d)
  have "waited_for (send_event i c n d)" by (rule waited_for_event [OF "2.prems"])
  then have "waited_for (dl_noted (Wait_over i Detached) (dl_noted (Sent (Order_news i c n)) d))"
    using "2.prems"
    by (auto simp: waited_for_def send_event_def out_after_def simp del: append_assoc
             intro!: nothing_overtakes_snoc)
  from "2.IH" [OF this] show ?case by simp
qed simp_all

lemma waited_for_detach:
  assumes "waited_for d" shows "waited_for (detach_delivery d)"
proof -
  let ?e = "fold (\<lambda>tracked. forget Detached (fst tracked)) (dl_unapplied d) d"
  have over: "waited_for (fold (\<lambda>tracked. forget Detached (fst tracked)) ts e)"
    "dl_unapplied (fold (\<lambda>tracked. forget Detached (fst tracked)) ts e) =
       filter (\<lambda>x. fst x \<notin> fst ` set ts) (dl_unapplied e)"
    if "waited_for e" for ts e
    using that
  proof (induction ts arbitrary: e)
    case (Cons t ts)
    {
      case 1
      then show ?case using Cons(1) waited_for_over by simp
    next
      case 2
      have "dl_unapplied (forget Detached (fst t) e) = AList.delete (fst t) (dl_unapplied e)"
        by (simp add: forget_def)
      then show ?case using Cons(2) [OF waited_for_over [OF 2]]
        by (auto simp: AList.delete_eq intro!: filter_cong)
    }
  qed simp_all
  have none: "dl_unapplied ?e = []" using over(2) [OF assms, of "dl_unapplied d"]
    by (auto simp: filter_empty_conv image_iff)
  have "waited_for (?e\<lparr>dl_outbox := [], dl_task := None, dl_unapplied := [], dl_attached := False,
                      dl_protection_waits := []\<rparr>)"
    using over(1) [OF assms, of "dl_unapplied d"] none by (simp add: waited_for_def)
  then show ?thesis unfolding detach_delivery_def by (rule waited_for_send_held)
qed

lemma waited_for_past_outbox:
  assumes "past_outbox d e" and "waited_for d"
  shows "waited_for e"
proof -
  obtain xs where xs: "dl_log e = dl_log d @ xs" "\<forall>x\<in>set xs. \<exists>m. x = Sent_past_outbox m" "length xs \<le> 1"
    and u: "dl_unapplied e = dl_unapplied d"
    using assms(1) unfolding past_outbox_def by blast
  show ?thesis
  proof (cases xs)
    case Nil
    then show ?thesis using xs u assms(2) by (simp add: waited_for_def)
  next
    case (Cons x ys)
    with xs obtain m where "dl_log e = dl_log d @ [Sent_past_outbox m]" by auto
    then show ?thesis using u assms(2)
      by (auto simp: waited_for_def out_after_def intro!: nothing_overtakes_snoc)
  qed
qed

lemma waited_for_step:
  assumes "waited_for d"
  shows "waited_for (delivery_step N ev d)"
proof (cases ev)
  case (New_item x)
  then show ?thesis by (cases x) (simp_all add: delivery_step_def waited_for_deliver_item assms)
next
  case (Own_event c n)
  then show ?thesis by (simp add: delivery_step_def waited_for_own_event assms)
next
  case (Published i)
  then show ?thesis using assms
    by (simp add: delivery_step_def on_order_event_published_def waited_for_over split: option.splits)
next
  case (Expires i)
  then show ?thesis using assms
    by (simp add: delivery_step_def expire_def waited_for_over split: option.splits)
next
  case Task_turn
  then show ?thesis by (simp add: delivery_step_def waited_for_task_turn assms)
next
  case (Query_answered answer)
  then show ?thesis using waited_for_past_outbox [OF query_answer_past_outbox assms]
    by (simp add: delivery_step_def)
next
  case (Mass_status_built status)
  then show ?thesis using waited_for_past_outbox [OF mass_status_past_outbox assms]
    by (simp add: delivery_step_def)
next
  case Detach
  then show ?thesis by (simp add: delivery_step_def waited_for_detach assms)
qed (use assms in \<open>simp_all add: delivery_step_def waited_for_def\<close>)

text \<open>
  C2: No delivered report overtakes an order event. Nautilus queues an event but takes a report, a fill
  report or an activity at once. In every run, detaches included, between sending an event and
  delivering a report, a fill report or an activity that a record, a held order or an order sent again
  became, the wait for that event ended: it was applied, its order was gone, its wait expired, or the
  client was detached. Answers to queries and mass statuses are not delivered this way: the run has
  them, sent past the outbox at any time, and nothing is promised of them.
\<close>

theorem no_report_overtakes_an_event:
  "nothing_overtakes (dl_log (run_delivery N evs (new_delivery cache)))"
proof -
  have "waited_for d \<Longrightarrow> waited_for (run_delivery N evs d)" for d
    by (induction evs arbitrary: d) (simp_all add: run_delivery_def waited_for_step)
  moreover have "waited_for (new_delivery cache)"
    by (simp add: waited_for_def new_delivery_def nothing_overtakes_def events_out_def)
  ultimately show ?thesis by (simp add: waited_for_def)
qed

subsection \<open>Whatever is held is delivered\<close>

text \<open>Held items have their task, and a task that waits has an event to wait for.\<close>

definition served :: "delivery \<Rightarrow> bool" where
  "served d \<longleftrightarrow>
     (dl_task d = None \<longleftrightarrow> dl_outbox d = []) \<and> (dl_task d = Some Task_waiting \<longrightarrow> dl_unapplied d \<noteq> [])
     \<and> \<not> dl_delivering d"

lemma same_items_served: "same_items d e \<Longrightarrow> served d \<Longrightarrow> served e"
  by (auto simp: same_items_def served_def)

lemma run_outbox_served: "\<not> dl_delivering d \<Longrightarrow> served (run_outbox N xs d)"
proof (induction xs arbitrary: d)
  case (Cons x xs)
  have "same_items d (looked x d)" by simp
  then show ?case
    using Cons.prems Cons.IH [of "item_taken N x xs (looked x d)"]
    by (simp add: run_outbox_Cons item_taken_fields same_items_def served_def del: run_outbox.simps)
qed (simp add: served_def)

lemma task_turn_served:
  assumes "served d"
  shows "served (task_turn N d)"
proof (cases "dl_task d = Some Task_ready")
  case True
  have items: "same_items d (check_unapplied d)" by simp
  then have "served (run_outbox N (dl_outbox (check_unapplied d)) (check_unapplied d))"
    using assms by (intro run_outbox_served) (simp add: same_items_def served_def)
  moreover have "served ((check_unapplied d)\<lparr>dl_task := Some Task_waiting\<rparr>)"
    if "dl_unapplied (check_unapplied d) \<noteq> []"
    using that items assms True by (auto simp: same_items_def served_def)
  ultimately show ?thesis using True by (simp add: task_turn_def Let_def)
qed (simp add: task_turn_def assms)

lemma deliver_item_served:
  assumes "served d"
  shows "served (deliver_item N x d)"
proof (cases "dl_outbox (arrived x d) \<noteq> [] \<or> applied_at_once x \<and> dl_unapplied (arrived x d) \<noteq> []")
  case True
  then show ?thesis using arrived_items [of d x] assms
    by (auto simp: deliver_item_arrived served_def same_items_def)
next
  case False
  then have "same_queue ((arrived x d)\<lparr>dl_out := dl_out (arrived x d) @ [x]\<rparr>) (hand_over N x (arrived x d))"
    by (intro hand_over_queue) (simp add: handing_def)
  then show ?thesis using arrived_items [of d x] assms False
    by (simp add: deliver_item_arrived served_def same_items_def same_queue_def)
qed

lemma own_event_served: "served d \<Longrightarrow> served (own_event c n d)"
  by (auto simp: own_event_def send_order_event_def Let_def served_def send_event_def)

lemma send_held_fields [simp]:
  "dl_outbox (send_held xs d) = dl_outbox d" "dl_task (send_held xs d) = dl_task d"
  "dl_delivering (send_held xs d) = dl_delivering d"
  by (induction xs d rule: send_held.induct) simp_all

lemma detach_served:
  assumes "served d"
  shows "served (detach_delivery d)"
proof -
  have "same_items d (fold (\<lambda>tracked. forget Detached (fst tracked)) (dl_unapplied d) d)"
    by (rule fold_related [where R = same_items]) (auto intro: same_items_trans)
  then show ?thesis using assms by (simp add: detach_delivery_def served_def same_items_def)
qed

lemma delivery_step_served:
  assumes "served d"
  shows "served (delivery_step N ev d)"
proof (cases ev)
  case (New_item x)
  then show ?thesis by (cases x) (simp_all add: delivery_step_def deliver_item_served assms)
next
  case (Published i)
  then show ?thesis
    using same_items_served [OF on_order_event_published_items assms] assms
    by (simp add: delivery_step_def)
next
  case (Expires i)
  then show ?thesis using same_items_served [OF expire_items assms] by (simp add: delivery_step_def)
next
  case (Own_event c n)
  then show ?thesis by (simp add: delivery_step_def own_event_served assms)
next
  case Task_turn
  then show ?thesis by (simp add: delivery_step_def task_turn_served assms)
next
  case (Query_answered answer)
  then show ?thesis using query_answer_past_outbox [of d N answer] assms
    by (simp add: delivery_step_def past_outbox_def same_queue_def served_def)
next
  case (Mass_status_built status)
  then show ?thesis using mass_status_past_outbox [of d N status] assms
    by (simp add: delivery_step_def past_outbox_def same_queue_def served_def)
next
  case Detach
  then show ?thesis by (simp add: delivery_step_def detach_served assms)
qed (use assms in \<open>simp_all add: delivery_step_def served_def\<close>)

lemma run_delivery_served: "served (run_delivery N evs (new_delivery cache))"
proof -
  have "served d \<Longrightarrow> served (run_delivery N evs d)" for d
    by (induction evs arbitrary: d) (simp_all add: run_delivery_def delivery_step_served)
  then show ?thesis by (simp add: served_def new_delivery_def)
qed

text \<open>A schedule: every event out expires, and the task has its turn.\<close>

definition expiries :: "delivery \<Rightarrow> delivery_event list" where
  "expiries d = map (\<lambda>tracked. Expires (fst tracked)) (dl_unapplied d) @ [Task_turn]"

lemma fold_expires:
  "dl_unapplied (fold (delivery_step N) (map (\<lambda>t. Expires (fst t)) ts) d) =
     filter (\<lambda>x. fst x \<notin> fst ` set ts) (dl_unapplied d)"
proof (induction ts arbitrary: d)
  case (Cons t ts)
  have "dl_unapplied (expire (fst t) d) = AList.delete (fst t) (dl_unapplied d)"
  proof (cases "map_of (dl_unapplied d) (fst t)")
    case None
    then have "fst t \<notin> fst ` set (dl_unapplied d)" by (simp add: map_of_eq_None_iff)
    then show ?thesis using None
      by (auto simp: expire_def AList.delete_eq image_iff intro!: filter_True [symmetric])
  qed (simp add: expire_def forget_def)
  then show ?case using Cons [of "expire (fst t) d"]
    by (auto simp: delivery_step_def AList.delete_eq intro!: filter_cong)
qed simp

lemma expire_all_items: "same_items d (fold (delivery_step N) (map (\<lambda>t. Expires (fst t)) ts) d)"
proof (induction ts arbitrary: d)
  case (Cons t ts)
  show ?case using same_items_trans [OF expire_items Cons.IH] by (simp add: delivery_step_def)
qed simp

lemma check_unapplied_none: "dl_unapplied d = [] \<Longrightarrow> check_unapplied d = d"
  by (simp add: check_unapplied_def)

lemma run_outbox_shorter: "length (dl_outbox (run_outbox N xs d)) \<le> length xs"
proof (induction xs arbitrary: d)
  case (Cons x xs)
  show ?case using Cons.IH [of "item_taken N x xs (looked x d)"]
    by (simp add: run_outbox_Cons del: run_outbox.simps)
qed simp

lemma expiries_deliver:
  assumes "served d" and "dl_outbox d \<noteq> []"
  shows "length (dl_outbox (run_delivery N (expiries d) d)) < length (dl_outbox d)"
proof -
  define e where "e = fold (delivery_step N) (map (\<lambda>t. Expires (fst t)) (dl_unapplied d)) d"
  have items: "same_items d e" by (simp add: e_def expire_all_items)
  have none: "dl_unapplied e = []" by (simp add: e_def fold_expires filter_empty_conv)
  have srv: "served e" by (rule same_items_served [OF items assms(1)])
  obtain x xs where box: "dl_outbox e = x # xs"
    using items assms(2) by (cases "dl_outbox e") (auto simp: same_items_def)
  obtain k where "dl_task e = Some k" using srv box by (cases "dl_task e") (auto simp: served_def)
  then have ready: "dl_task e = Some Task_ready" using srv none by (cases k) (auto simp: served_def)
  have "looked x e = e" using none by (simp add: looked_def)
  then have "run_outbox N (x # xs) e = run_outbox N xs (item_taken N x xs e)"
    using none by (simp add: run_outbox_Cons del: run_outbox.simps)
  then have "task_turn N e = run_outbox N xs (item_taken N x xs e)"
    using none ready box by (simp add: task_turn_def Let_def check_unapplied_none del: run_outbox.simps)
  moreover have "dl_outbox d = x # xs" using items box by (simp add: same_items_def)
  ultimately have "length (dl_outbox (task_turn N e)) < length (dl_outbox d)"
    using run_outbox_shorter [of N xs "item_taken N x xs e"] by simp
  then show ?thesis by (simp add: run_delivery_def expiries_def e_def delivery_step_def)
qed

text \<open>
  C14: Nothing is held for ever. In every run, detaches included, items held have their delivery task,
  and a task that waits has an event it waits for. When the waits of the events then out have expired
  and the task had its turn, at least one item held was delivered, so the outbox empties in as many
  such rounds, even when Nautilus applies none of the events.
\<close>

theorem held_items_are_delivered:
  assumes "dl_outbox (run_delivery N evs (new_delivery cache)) \<noteq> []"
  shows "dl_task (run_delivery N evs (new_delivery cache)) \<noteq> None \<and>
         (dl_task (run_delivery N evs (new_delivery cache)) = Some Task_waiting \<longrightarrow>
            dl_unapplied (run_delivery N evs (new_delivery cache)) \<noteq> []) \<and>
         length (dl_outbox (run_delivery N
             (evs @ expiries (run_delivery N evs (new_delivery cache))) (new_delivery cache)))
           < length (dl_outbox (run_delivery N evs (new_delivery cache)))"
proof -
  have more_evs: "run_delivery N (evs @ es) d = run_delivery N es (run_delivery N evs d)" for es d
    by (simp add: run_delivery_def)
  show ?thesis
    using run_delivery_served [of N evs cache] expiries_deliver [OF run_delivery_served assms] assms
    by (simp add: more_evs served_def)
qed
subsection \<open>A run\<close>

text \<open>An order of the node that Nautilus has not told of its events yet, and account activity.\<close>

definition demo_cached :: cached_order where
  "demo_cached =
     \<lparr>co_held = \<lparr>hd_client_order_id = ''O-1'', hd_venue_order_id = ''7'', hd_side = BUY,
                 hd_order_type = OT_MARKET, hd_time_in_force = GTC, hd_quantity = 1000, hd_filled_qty = 0,
                 hd_ts_accepted = 0, hd_expire_time = None, hd_price = None, hd_trigger_price = None,
                 hd_trigger_type = NO_TRIGGER, hd_avg_px = 0, hd_is_reduce_only = False\<rparr>,
      co_venue_order_id = Some ''7'', co_instrument_id = ''EURUSD'', co_closed = False, co_events = []\<rparr>"

definition demo_cache :: node_cache where
  "demo_cache = \<lparr>nc_orders = [(''O-1'', demo_cached)], nc_by_venue_id = [(''7'', ''O-1'')]\<rparr>"

definition demo_node :: nautilus_node where
  "demo_node =
     \<lparr>nn_values = \<lparr>price_from = \<lambda>v _. Some v, quantity_from = \<lambda>v _. Some v, money_from = \<lambda>v _. Some v\<rparr>,
      nn_accepts_order = \<lambda>_. True, nn_instrument_for = \<lambda>_. None, nn_find = \<lambda>_. None,
      nn_currency = ''EUR'', nn_takes_report = \<lambda>_ c. c, nn_takes_fill = \<lambda>_ c. c,
      nn_takes_mass = \<lambda>_ c. c\<rparr>"

definition demo_activity :: Record where
  "demo_activity = R_Activity \<lparr>ac_kind = STOP_OUT, ac_symbol_id = 1, ac_subject = Subject_position,
     ac_side = BUY, ac_units = 1000, ac_action = OPENED, ac_ts_ms = 5\<rparr>"

text \<open>The event of \<open>O-1\<close> is out when the activity comes, so the activity waits, and an event after it.\<close>

definition demo_events :: "delivery_event list" where
  "demo_events = [Own_event ''O-1'' N_submitted, New_item (Item demo_activity),
                  Own_event ''O-1'' (N_cancel_rejected ''late''), Task_turn]"

definition demo_status :: mass_status where
  "demo_status = \<lparr>ms_orders = [], ms_fills = [], ms_positions = [], ms_left_out = [], ms_misfits = []\<rparr>"

lemma delivered_in_order_witness:
  "length (dl_outbox (run_delivery demo_node demo_events (new_delivery demo_cache))) = 2 \<and>
   dl_in (run_delivery demo_node demo_events (new_delivery demo_cache)) =
     dl_out (run_delivery demo_node demo_events (new_delivery demo_cache))
     @ dl_outbox (run_delivery demo_node demo_events (new_delivery demo_cache))"
proof
  show "length (dl_outbox (run_delivery demo_node demo_events (new_delivery demo_cache))) = 2" by code_simp
  show "dl_in (run_delivery demo_node demo_events (new_delivery demo_cache)) =
     dl_out (run_delivery demo_node demo_events (new_delivery demo_cache))
     @ dl_outbox (run_delivery demo_node demo_events (new_delivery demo_cache))"
    by (rule delivered_in_order) (simp add: demo_events_def)
qed

lemma no_report_overtakes_an_event_witness:
  "nothing_overtakes (dl_log (run_delivery demo_node (demo_events @ [Mass_status_built demo_status, Expires 0, Task_turn])
     (new_delivery demo_cache))) \<and>
   map (\<lambda>x. case x of Sent m \<Rightarrow> Some (taken_at_once m) | _ \<Rightarrow> None)
     (dl_log (run_delivery demo_node (demo_events @ [Mass_status_built demo_status, Expires 0, Task_turn]) (new_delivery demo_cache)))
   = [Some False, None, None, Some True, Some False]"
proof
  show "nothing_overtakes (dl_log (run_delivery demo_node (demo_events @ [Mass_status_built demo_status, Expires 0, Task_turn])
     (new_delivery demo_cache)))"
    by (rule no_report_overtakes_an_event)
qed code_simp

lemma held_items_are_delivered_witness:
  "length (dl_outbox (run_delivery demo_node
       (demo_events @ expiries (run_delivery demo_node demo_events (new_delivery demo_cache)))
       (new_delivery demo_cache)))
     < length (dl_outbox (run_delivery demo_node demo_events (new_delivery demo_cache)))"
proof -
  have "dl_outbox (run_delivery demo_node demo_events (new_delivery demo_cache)) \<noteq> []" by code_simp
  from held_items_are_delivered [OF this] show ?thesis by (elim conjE)
qed

end
