(* ===== verification/Spec2Isabelle.thy ===== *)
theory Spec2Isabelle
  imports Order_Record Venue_Records Operations_In_Flight Foreign_Legs Venue_Book
    Venue_Book_Fills Venue_Book_Invariant Order_Translation Bars_Order Rate_Limit_Pacing History
    Checkpoint_Promises Connection_Replies Parsing Execution_Promises Reconcile_Whole Session_Promises Account_Cache
    Subscriptions_Promises Instruments_Promises Delivery_Promises
begin

text \<open>
  A verification development of \<open>nautilus_ctrader\<close>, the adapter between Nautilus Trader and the
  cTrader Open API. Paths below are under \<open>src/src/nautilus_ctrader/\<close>.

  \<^bold>\<open>The program.\<close> A connection (\<open>common/connection.py\<close>) speaks length-prefixed protobuf frames
  (\<open>common/codec.py\<close>), pairs replies with requests, and has every request paced by a scheduler
  (\<open>common/rate_limit.py\<close>). A session
  (\<open>common/session.py\<close>) logs in over it, refreshes the tokens, restores the subscriptions and
  reconnects. The clients of one account share it through the account client (\<open>common/account.py\<close>), which finds
  the account of the login and has the instruments loaded (\<open>providers.py\<close>) and the subscriptions kept
  (\<open>common/subscriptions.py\<close>). The data client turns spots
  and trendbars into Nautilus quotes and bars (\<open>common/parsing.py\<close>, \<open>common/bars.py\<close>). The execution
  client turns Nautilus orders into requests (\<open>common/order_translation.py\<close>), remembers what it has
  in flight (\<open>common/operations.py\<close>), and applies the venue's execution events to a book of positions
  and orders (\<open>common/venue_book.py\<close>), which says what Nautilus is to be told
  (\<open>common/venue_records.py\<close>). The ids of the node's own orders travel in the label and comment of
  an order (\<open>common/order_record.py\<close>); protective levels the node did not set are shown as foreign
  legs (\<open>common/foreign_legs.py\<close>). When the node starts or has lost events, the reports of everything the broker
  holds are built from its lists (\<open>common/reconciliation.py\<close>) and handed over as one mass status
  (\<open>common/execution_reports.py\<close>). History is read in pages and weeks (\<open>common/history.py\<close>), and the
  balance at a daily checkpoint is rebuilt from it (\<open>common/balance_history.py\<close>) and kept in the
  cache (\<open>common/balance_checkpoint.py\<close>).

  \<^bold>\<open>How code is modelled.\<close> A class is a record of its attributes and an operation is a function
  from the state to the new state and what it returns; a raise is the left of a sum; a dict is an
  association list, in insertion order; a Decimal is a rational, with the 28 digit context written
  out as \<open>ctx\<close> where the code divides; a protobuf double is \<open>double\<close> (finite, infinite or not a
  number); an optional field that tells unset from zero is an option. A coroutine is cut where it
  waits: what it waits for are the events of a step function, and a run is any list of events, so
  every interleaving is covered. Log lines are left out. What is not in the repository is an
  argument: protobuf (\<open>protobuf\<close> in \<open>Codec\<close>), the constructors and currencies of Nautilus
  (\<open>nautilus\<close> in \<open>Parsing\<close>, \<open>report_values\<close> in \<open>Execution_Reports\<close>), the broker's answers (\<open>request\<close> in \<open>History\<close>), a time zone
  (\<open>zone\<close> in \<open>Balance_History\<close>), float conversion (\<open>as_double\<close> in \<open>Order_Translation\<close>). What is
  relied on of them is a named hypothesis, with an instance in the witnesses.

  \<^bold>\<open>Theories.\<close>
  \<^item> \<open>Prelude\<close>: decimal text, rounding and the decimal context, association lists, results.
  \<^item> \<open>Messages\<close>: the protobuf messages as far as the code reads them.
  \<^item> \<open>Order_Record\<close>, \<open>Venue_Records\<close>: labels, comments, leg names, prices, fills, records. Reading
    inverts writing, and reads nothing else.
  \<^item> \<open>Operations_In_Flight\<close>: amends, closes and brackets sent and not answered.
  \<^item> \<open>Foreign_Legs\<close>: the rules for legs the node did not send, refining a model of the order cache of
    Nautilus: every record is one it can take.
  \<^item> \<open>Venue_Book\<close> (the model), \<open>Venue_Book_Fills\<close> (every deal told once, events applied once),
    \<open>Venue_Book_Invariant\<close> (the book is well-formed in every run, positions only advance, older
    state never undoes newer).
  \<^item> \<open>Order_Translation\<close>: orders to requests; what is asked is what is sent, or it is refused.
  \<^item> \<open>Bars\<close> (the model), \<open>Bars_Order\<close> (bars go out once, in order, none lost; the resolver ends).
  \<^item> \<open>Rate_Limit\<close> (the model), \<open>Rate_Limit_Pacing\<close> (the limit, the order of grants, attended requests).
  \<^item> \<open>History\<close>, \<open>Balance_History\<close>: complete lists are exact; a balance stated is the ledger's.
  \<^item> \<open>Balance_Checkpoint\<close> (the model of the runs that read the history and write the key, any number of
    them at once), \<open>Checkpoint_Safety\<close> (the account and honest answers, what a walk has read),
    \<open>Checkpoint_Promises\<close> (the invariant of every run; what is written is the account's, in order, and
    nothing after a stop).
  \<^item> \<open>Codec\<close>: frames and envelopes, read back however the bytes are split.
  \<^item> \<open>Connection\<close> (the model, over \<open>Codec\<close> and \<open>Rate_Limit\<close>), \<open>Connection_Safety\<close> (frames on the wire),
    \<open>Connection_Requests\<close> and \<open>Connection_Links\<close> (requests, their calls and their submissions: what an
    error says of the wire), \<open>Connection_Loss\<close> and \<open>Connection_Replies\<close> (losses and replies).
  \<^item> \<open>Reconcile\<close> (the model of \<open>common/reconciliation.py\<close>, over the book's readings and the node's
    closes in flight), \<open>Reconcile_Claims\<close> (a close is claimed once; legs are named as the book names
    them), \<open>Reconcile_Whole\<close> (an entry comes before the rest of its position, and every deal of a
    node's position is told in the whole answer exactly as often as the broker lists it).
  \<^item> \<open>Execution_Reports\<close> (the model of \<open>common/execution_reports.py\<close>), \<open>Execution_Promises\<close> (a mass
    status tells the reconciliation's records exactly, but those with no price to be told at, whole positions
    at a time, and names no order that is not in it).
  \<^item> \<open>Session\<close> (the model: the supervisor, the refresh loop and the callbacks, each cut where it
    waits), \<open>Session_Safety\<close> (the invariant of every run), \<open>Session_Promises\<close> (requests pass only when
    logged in, refreshes keep their interval, late replies are adopted iff awaited, a stop wins).
  \<^item> \<open>Subscriptions\<close> (the model of \<open>common/subscriptions.py\<close>: calls cut where they wait for a lock or an
    answer), \<open>Subscriptions_Safety\<close> (the invariant), \<open>Subscriptions_Keep\<close> (what each piece of a call
    keeps of it) and \<open>Subscriptions_Promises\<close> (a held key is live or retried, a hold ends with its own
    call, every hold is listed, calls never wait in a circle, nor work on the same key, but that a trendbar's restore
    asks for its spots under the trendbar's lock).
  \<^item> \<open>Instruments\<close> (the model of \<open>providers.py\<close>, with the symbol specs and reloads of the account),
    \<open>Instruments_Safety\<close> (the tables agree, blocked names are in none) and \<open>Instruments_Promises\<close> (dropped
    instruments stay out, chains asked before a reset are not kept, failures can be told).
  \<^item> \<open>Session_Tokens\<close> (what a step of a session says of its tokens), \<open>Account\<close> (the model of the shared client of
    \<open>common/account.py\<close>, over the session: its lock, users, sessions, tokens and tasks), \<open>Account_Safety\<close> (the
    invariant of every run), \<open>Account_Promises\<close> (one session at a time, of the account of the login, with the newest
    tokens) and \<open>Account_Cache\<close> (the cache of clients: one client in use per account).
  \<^item> \<open>Delivery\<close> (the part of \<open>execution.py\<close> that tells Nautilus: records, reports and order events, the outbox and its
    task, the waits, and the query answers and mass statuses sent past them) and \<open>Delivery_Promises\<close> (what is
    delivered is delivered in order, each item once; no delivered report overtakes an event; held items go out).
  \<^item> \<open>Parsing\<close>: instruments, bars and quotes, exact or refused; also \<open>enums.py\<close>.

  \<^bold>\<open>Interfaces.\<close> Locales state what one part relies on of another, and are interpreted on the
  model: \<open>queue_invariant\<close> in \<open>Bars_Order\<close> (what every operation of the bar closer keeps of its
  queue, interpreted for order, floor, presence and the resolver), \<open>priority_queue\<close> in
  \<open>Rate_Limit_Pacing\<close> (what the dispatcher relies on of the heap), \<open>leg_operation\<close> in \<open>Foreign_Legs\<close>
  and \<open>position_operation\<close> in \<open>Venue_Book_Invariant\<close> (what an operation keeps of a leg, of a position),
  and \<open>operations_protocol\<close> in \<open>Operations_In_Flight\<close> (what the book relies on of the node's amends).

  \<^bold>\<open>Loops and bounds.\<close> Recursions have termination proofs; the pages of a list are bounded by the
  code's own maximum, which is the recursion's argument, and \<open>decimals\<close> of a size are looked for up
  to 28, two being enough for every size the venue can state. Integers are unbounded, as Python's;
  bytes are 8-bit words, and the length prefix is bounded at 32 bits.

  \<^bold>\<open>Not modelled.\<close> Of the execution client all but the delivery: its commands, the brackets it keeps, amends,
  the buffer of events while the book is rebuilt, and the account state it reports. The data client (\<open>data.py\<close>) and
  \<open>legs.py\<close>, which mostly call Nautilus. Generated messages are parameters. Configuration,
  factories, \<open>failures.py\<close>, OAuth, discovery and the scripts are wiring and I/O. In the modelled components:
  logging, the text of errors, \<open>value_json\<close>, float rounding of clocks, awaiting the ended tasks of a
  close.
\<close>

end
